(* ===== verification/Rabbits_Prelude.thy ===== *)
theory Rabbits_Prelude
  imports Main "HOL-Library.Word" "HOL-Library.Signed_Division"
begin

text \<open>
  The vocabulary of the development: the integer types of the code at their widths, the
  faults a C++ statement can end in, the result type every fallible operation returns,
  checked array accesses, and the little-endian view of byte buffers as 32-bit words.

  The install script (\<^verbatim>\<open>install.sh\<close>) accepts an \<^verbatim>\<open>i*86\<close> host only and refuses
  \<^verbatim>\<open>x86_64\<close>, so \<^verbatim>\<open>unsigned long\<close> is 32 bits wide and bytes are little-endian.
\<close>

unbundle bit_operations_syntax

subsection \<open>Integer types\<close>

type_synonym u8 = "8 word"
type_synonym u16 = "16 word"
type_synonym u32 = "32 word"
type_synonym u64 = "64 word"

text \<open>\<open>unsigned long\<close> of the 32-bit host.\<close>
type_synonym ulong = "32 word"

subsection \<open>Collections of facts\<close>

named_theorems res_simps \<open>rewriting of fallible computations\<close>
named_theorems byte_simps \<open>byte buffers and their views as words\<close>
named_theorems reg_defs \<open>register numbers and bit masks of the devices\<close>

subsection \<open>Faults and results\<close>

text \<open>
  How a statement can end other than normally: a call of \<^verbatim>\<open>exit\<close> with its status, an
  access outside an array or through a null pointer and a division by zero (undefined in
  C++, reported here), a loop that never leaves its body, and a thread that waits for an
  event nobody will notify.
\<close>

datatype fault = Exit int | OutOfBounds | NullPointer | DivByZero | Livelock | Blocked

type_synonym 'a res = "fault + 'a"

definition bindr :: "'a res \<Rightarrow> ('a \<Rightarrow> 'b res) \<Rightarrow> 'b res" where
  "bindr m f = (case m of Inl e \<Rightarrow> Inl e | Inr x \<Rightarrow> f x)"

lemma bindr_simps [simp, res_simps]:
  "bindr (Inl e) f = Inl e"
  "bindr (Inr x) f = f x"
  by (simp_all add: bindr_def)

lemma bindr_eq_Inr [res_simps]:
  "bindr m f = Inr y \<longleftrightarrow> (\<exists>x. m = Inr x \<and> f x = Inr y)"
  by (cases m) (auto simp: bindr_def)

lemma bindr_eq_Inl [res_simps]:
  "bindr m f = Inl e \<longleftrightarrow> m = Inl e \<or> (\<exists>x. m = Inr x \<and> f x = Inl e)"
  by (cases m) (auto simp: bindr_def)

lemma bindr_Inr [simp, res_simps]: "bindr m Inr = m"
  by (cases m) simp_all

lemma bindr_assoc: "bindr (bindr m f) g = bindr m (\<lambda>x. bindr (f x) g)"
  by (cases m) simp_all

subsection \<open>Checked accesses to arrays\<close>

definition rd :: "'a list \<Rightarrow> nat \<Rightarrow> 'a res" where
  "rd xs i = (if i < length xs then Inr (xs ! i) else Inl OutOfBounds)"

definition wr :: "'a list \<Rightarrow> nat \<Rightarrow> 'a \<Rightarrow> 'a list res" where
  "wr xs i v = (if i < length xs then Inr (xs[i := v]) else Inl OutOfBounds)"

lemma rd_in [simp, res_simps]: "i < length xs \<Longrightarrow> rd xs i = Inr (xs ! i)"
  by (simp add: rd_def)

lemma rd_out [simp, res_simps]: "\<not> i < length xs \<Longrightarrow> rd xs i = Inl OutOfBounds"
  by (simp add: rd_def)

lemma wr_in [simp, res_simps]: "i < length xs \<Longrightarrow> wr xs i v = Inr (xs[i := v])"
  by (simp add: wr_def)

lemma wr_out [simp, res_simps]: "\<not> i < length xs \<Longrightarrow> wr xs i v = Inl OutOfBounds"
  by (simp add: wr_def)

lemma rd_eq_Inr: "rd xs i = Inr v \<longleftrightarrow> i < length xs \<and> v = xs ! i"
  by (auto simp: rd_def)

lemma wr_eq_Inr: "wr xs i v = Inr ys \<longleftrightarrow> i < length xs \<and> ys = xs[i := v]"
  by (auto simp: wr_def)

text \<open>A block of bytes at an offset of a buffer: what a typed or a \<open>memcpy\<close> access moves.\<close>

definition rd_bytes :: "'a list \<Rightarrow> nat \<Rightarrow> nat \<Rightarrow> 'a list res" where
  "rd_bytes m a n = (if a + n \<le> length m then Inr (take n (drop a m)) else Inl OutOfBounds)"

definition put_bytes :: "'a list \<Rightarrow> nat \<Rightarrow> 'a list \<Rightarrow> 'a list" where
  "put_bytes m a bs = take a m @ bs @ drop (a + length bs) m"

definition wr_bytes :: "'a list \<Rightarrow> nat \<Rightarrow> 'a list \<Rightarrow> 'a list res" where
  "wr_bytes m a bs =
     (if a + length bs \<le> length m then Inr (put_bytes m a bs) else Inl OutOfBounds)"

lemma length_put_bytes [simp, byte_simps]:
  "a + length bs \<le> length m \<Longrightarrow> length (put_bytes m a bs) = length m"
  by (simp add: put_bytes_def)

lemma take_drop_put_bytes [byte_simps]:
  "a + length bs \<le> length m \<Longrightarrow> take (length bs) (drop a (put_bytes m a bs)) = bs"
  by (simp add: put_bytes_def)

lemma nth_put_bytes:
  assumes "a + length bs \<le> length m" "i < length m"
  shows "put_bytes m a bs ! i = (if a \<le> i \<and> i < a + length bs then bs ! (i - a) else m ! i)"
  using assms by (auto simp: put_bytes_def nth_append)

lemma put_bytes_append:
  "a + length xs + length ys \<le> length m
    \<Longrightarrow> put_bytes (put_bytes m a xs) (a + length xs) ys = put_bytes m a (xs @ ys)"
  by (simp add: put_bytes_def ac_simps)

lemma rd_bytes_len: "rd_bytes m a n = Inr bs \<Longrightarrow> length bs = n"
  by (auto simp: rd_bytes_def split: if_splits)

lemma wr_bytes_len: "wr_bytes m a bs = Inr m' \<Longrightarrow> length m' = length m"
  by (auto simp: wr_bytes_def split: if_splits)

lemma rd_wr_bytes_same:
  "wr_bytes m a bs = Inr m' \<Longrightarrow> rd_bytes m' a (length bs) = Inr bs"
  by (auto simp: wr_bytes_def rd_bytes_def take_drop_put_bytes split: if_splits)

lemma rd_wr_bytes_other:
  assumes w: "wr_bytes m a bs = Inr m'" and d: "b + n \<le> a \<or> a + length bs \<le> b"
  shows "rd_bytes m' b n = rd_bytes m b n"
proof -
  from w have m': "m' = put_bytes m a bs" and l: "a + length bs \<le> length m"
    by (auto simp: wr_bytes_def split: if_splits)
  have "take n (drop b m') = take n (drop b m)" if "b + n \<le> length m"
    using that d l by (intro nth_equalityI) (auto simp: m' nth_put_bytes)
  then show ?thesis using l by (simp add: rd_bytes_def m')
qed

text \<open>Two positions of a ring of \<open>n\<close> slots less than \<open>n\<close> apart are different slots.\<close>

lemma ring_slot_neq:
  fixes p k c n :: nat
  assumes "k < c" "c - k < n"
  shows "(p + k) mod n \<noteq> (p + c) mod n"
  using assms mod_eq_dvd_iff_nat [of "p + k" "p + c" n] by (auto dest: dvd_imp_le)

lemma and_push_bit_iff:
  fixes s :: u32
  shows "s AND push_bit j 1 \<noteq> 0 \<longleftrightarrow> bit s j"
  by (simp add: bit_iff_and_push_bit_not_eq_0)

lemma and_exp_iff: "(s::u32) AND 2 ^ j = 0 \<longleftrightarrow> \<not> bit s j"
  using and_push_bit_iff [of s j] unfolding push_bit_eq_mult mult_1 by blast

subsection \<open>Little-endian words in byte buffers\<close>

definition le32 :: "u8 list \<Rightarrow> u32" where
  "le32 bs = ucast (bs ! 0) OR push_bit 8 (ucast (bs ! 1))
     OR push_bit 16 (ucast (bs ! 2)) OR push_bit 24 (ucast (bs ! 3))"

definition bytes32 :: "u32 \<Rightarrow> u8 list" where
  "bytes32 w = [ucast w, ucast (drop_bit 8 w), ucast (drop_bit 16 w), ucast (drop_bit 24 w)]"

text \<open>The 32-bit word number \<open>k\<close> of a buffer, as \<open>((uint32_t *) data)[k]\<close>.\<close>

definition u32_at :: "u8 list \<Rightarrow> nat \<Rightarrow> u32" where
  "u32_at d k = le32 (take 4 (drop (4 * k) d))"

definition set_u32 :: "u8 list \<Rightarrow> nat \<Rightarrow> u32 \<Rightarrow> u8 list" where
  "set_u32 d k w = put_bytes d (4 * k) (bytes32 w)"

lemma length_bytes32 [simp, byte_simps]: "length (bytes32 w) = 4"
  by (simp add: bytes32_def)

lemma le32_bytes32 [simp, byte_simps]: "le32 (bytes32 w) = w"
proof (rule bit_word_eqI)
  fix n assume "n < LENGTH(32)"
  then have n: "n < 32" by simp
  show "bit (le32 (bytes32 w)) n = bit w n"
    using n le_add_diff_inverse [of 24 n] le_add_diff_inverse [of 16 n] le_add_diff_inverse [of 8 n]
    by (cases "n < 8"; cases "n < 16"; cases "n < 24")
      (auto simp: le32_def bytes32_def bit_simps)
qed

lemma bytes32_le32: "length bs = 4 \<Longrightarrow> bytes32 (le32 bs) = bs"
proof -
  assume "length bs = 4"
  then obtain a b c d where bs: "bs = [a, b, c, d]" by (auto simp: length_Suc_conv numeral_eq_Suc)
  have z: "\<not> bit (x::u8) (8 + n)" "\<not> bit x (16 + n)" "\<not> bit x (24 + n)" for x n
    using bit_imp_le_length [of x "8 + n"] bit_imp_le_length [of x "16 + n"] bit_imp_le_length [of x "24 + n"]
    by auto
  show "bytes32 (le32 bs) = bs"
    unfolding bs bytes32_def le32_def
    by (auto intro!: bit_word_eqI simp: bit_simps z)
qed

lemma length_set_u32 [simp, byte_simps]: "4 * k + 4 \<le> length d \<Longrightarrow> length (set_u32 d k w) = length d"
  by (simp add: set_u32_def)

lemma u32_at_set_u32_same [simp, byte_simps]:
  "4 * k + 4 \<le> length d \<Longrightarrow> u32_at (set_u32 d k w) k = w"
  using take_drop_put_bytes [of "4 * k" "bytes32 w" d]
  by (simp add: u32_at_def set_u32_def)

lemma u32_at_set_u32_other [simp, byte_simps]:
  assumes "j \<noteq> k" "4 * k + 4 \<le> length d" "4 * j + 4 \<le> length d"
  shows "u32_at (set_u32 d k w) j = u32_at d j"
proof -
  have "take 4 (drop (4 * j) (put_bytes d (4 * k) (bytes32 w))) = take 4 (drop (4 * j) d)"
    using assms by (intro nth_equalityI) (auto simp: nth_put_bytes)
  then show ?thesis by (simp add: u32_at_def set_u32_def)
qed

text \<open>The bytes of a list of words.\<close>

definition words_bytes :: "u32 list \<Rightarrow> u8 list" where
  "words_bytes ws = concat (map bytes32 ws)"

lemma words_bytes_simps [simp]:
  "words_bytes [] = []" "words_bytes (w # ws) = bytes32 w @ words_bytes ws" "length (words_bytes ws) = 4 * length ws"
proof -
  show "words_bytes [] = []" "words_bytes (w # ws) = bytes32 w @ words_bytes ws" by (simp_all add: words_bytes_def)
  show "length (words_bytes ws) = 4 * length ws" by (induction ws) (simp_all add: words_bytes_def)
qed

lemma words_bytes_append: "words_bytes (us @ ws) = words_bytes us @ words_bytes ws"
  by (simp add: words_bytes_def)

subsection \<open>Loops\<close>

text \<open>A \<open>for\<close> loop over known values whose body may fail; an invariant carries through it.\<close>

fun for_each :: "('a \<Rightarrow> 's \<Rightarrow> 's res) \<Rightarrow> 'a list \<Rightarrow> 's \<Rightarrow> 's res" where
  "for_each f [] s = Inr s"
| "for_each f (x # xs) s = bindr (f x s) (for_each f xs)"

lemma for_each_append: "for_each f (xs @ ys) s = bindr (for_each f xs s) (for_each f ys)"
proof (induction xs arbitrary: s)
  case Nil
  then show ?case by simp
next
  case (Cons x xs)
  then have "for_each f (xs @ ys) = (\<lambda>s. bindr (for_each f xs s) (for_each f ys))" by (simp add: fun_eq_iff)
  then show ?case by (simp add: bindr_assoc)
qed

lemma for_each_ok:
  assumes "P s" "\<And>x s. x \<in> set xs \<Longrightarrow> P s \<Longrightarrow> \<exists>s'. f x s = Inr s' \<and> P s'"
  shows "\<exists>s'. for_each f xs s = Inr s' \<and> P s'"
  using assms
proof (induction xs arbitrary: s)
  case Nil
  then show ?case by simp
next
  case (Cons x xs)
  from Cons.prems(2) [of x s] Cons.prems(1) obtain s1 where "f x s = Inr s1" "P s1" by auto
  with Cons.IH [of s1] Cons.prems(2) show ?case by auto
qed

lemma for_each_keeps:
  assumes "for_each f xs s = Inr s'" "P s" "\<And>x s s'. x \<in> set xs \<Longrightarrow> P s \<Longrightarrow> f x s = Inr s' \<Longrightarrow> P s'"
  shows "P s'"
  using assms by (induction xs arbitrary: s) (auto simp: bindr_eq_Inr)

text \<open>The rows of a picture one after the other.\<close>

lemma concat_rows: "concat (map (\<lambda>j. concat (map (\<lambda>i. f (j * w + i)) [0..<w])) [0..<n]) = concat (map f [0..<n * w])"
proof (induction n)
  case 0
  then show ?case by simp
next
  case (Suc n)
  have "concat (map (\<lambda>i. f (n * w + i)) [0..<w]) = concat (map f [n * w..<Suc n * w])"
    using arg_cong [OF map_add_upt [of "n * w" w], of "map f"] by (simp add: add.commute o_def)
  with Suc show ?case using upt_add_eq_append [of 0 "n * w" w] by (simp add: add.commute)
qed

text \<open>The division of C++ on numbers that are not negative.\<close>

lemma sdiv_nonneg: "0 \<le> x \<Longrightarrow> 0 < k \<Longrightarrow> x sdiv k = x div (k::int)" "0 \<le> x \<Longrightarrow> 0 < k \<Longrightarrow> x smod k = x mod (k::int)"
  by (auto simp: signed_divide_int_def signed_modulo_int_def sgn_if mult_div_mod_eq minus_div_mult_eq_mod)

end
