(* ===== verification/Bounded_Queue.thy ===== *)
theory Bounded_Queue
  imports Rabbits_Prelude
begin

text \<open>
  The interface of the first-in first-out buffers of the code. The NoC ports
  (\<^verbatim>\<open>mwsr_ta_fifo\<close>) and the receive buffer of the serial line (\<^verbatim>\<open>tty_state\<close>) are two
  ring buffers with different representations; the contract they share is stated here
  once, and what a client may conclude from it is proved once. An operation that would
  make its caller wait (\<^verbatim>\<open>wait (canRead)\<close>, \<^verbatim>\<open>wait (canWrite)\<close>) is \<open>None\<close>.
\<close>

datatype 'a qop = Put 'a | Get

text \<open>
  A schedule of puts and gets; one that would block is retried later, so it leaves the
  queue as it is. Result: the final queue, the items accepted and the items delivered.
\<close>

fun queue_run :: "('q \<Rightarrow> 'a \<Rightarrow> 'q option) \<Rightarrow> ('q \<Rightarrow> ('a \<times> 'q) option) \<Rightarrow> 'q \<Rightarrow> 'a qop list
    \<Rightarrow> 'q \<times> 'a list \<times> 'a list" where
  "queue_run enq deq q [] = (q, [], [])"
| "queue_run enq deq q (Put x # ops) =
     (case enq q x of
        None \<Rightarrow> queue_run enq deq q ops
      | Some q' \<Rightarrow> (case queue_run enq deq q' ops of (qf, ins, outs) \<Rightarrow> (qf, x # ins, outs)))"
| "queue_run enq deq q (Get # ops) =
     (case deq q of
        None \<Rightarrow> queue_run enq deq q ops
      | Some (x, q') \<Rightarrow> (case queue_run enq deq q' ops of (qf, ins, outs) \<Rightarrow> (qf, ins, x # outs)))"

locale bounded_queue =
  fixes enq :: "'q \<Rightarrow> 'a \<Rightarrow> 'q option"
    and deq :: "'q \<Rightarrow> ('a \<times> 'q) option"
    and items :: "'q \<Rightarrow> 'a list"
    and capacity :: "'q \<Rightarrow> nat"
    and invar :: "'q \<Rightarrow> bool"
  assumes enq_blocks: "invar q \<Longrightarrow> enq q x = None \<longleftrightarrow> length (items q) = capacity q"
    and enq_items: "invar q \<Longrightarrow> enq q x = Some q' \<Longrightarrow> items q' = items q @ [x]"
    and enq_invar: "invar q \<Longrightarrow> enq q x = Some q' \<Longrightarrow> invar q'"
    and enq_capacity: "invar q \<Longrightarrow> enq q x = Some q' \<Longrightarrow> capacity q' = capacity q"
    and deq_blocks: "invar q \<Longrightarrow> deq q = None \<longleftrightarrow> items q = []"
    and deq_items: "invar q \<Longrightarrow> deq q = Some (x, q') \<Longrightarrow> items q = x # items q'"
    and deq_invar: "invar q \<Longrightarrow> deq q = Some (x, q') \<Longrightarrow> invar q'"
    and deq_capacity: "invar q \<Longrightarrow> deq q = Some (x, q') \<Longrightarrow> capacity q' = capacity q"
    and bounded: "invar q \<Longrightarrow> length (items q) \<le> capacity q"
begin

lemmas queue_laws = enq_items enq_invar enq_capacity deq_items deq_invar deq_capacity

lemma run_fifo_order:
  assumes "invar q" "queue_run enq deq q ops = (q', ins, outs)"
  shows "items q @ ins = outs @ items q' \<and> invar q' \<and> capacity q' = capacity q"
  using assms
proof (induction ops arbitrary: q ins outs)
  case Nil
  then show ?case by auto
next
  case (Cons op ops)
  show ?case
  proof (cases op)
    case (Put x)
    show ?thesis
    proof (cases "enq q x")
      case None
      with Put Cons show ?thesis by auto
    next
      case (Some q1)
      with Put Cons.prems obtain ins1 where r: "queue_run enq deq q1 ops = (q', ins1, outs)"
        and ins: "ins = x # ins1" by (auto split: prod.splits)
      from Cons.IH [OF enq_invar [OF Cons.prems(1) Some] r] enq_items [OF Cons.prems(1) Some]
        enq_capacity [OF Cons.prems(1) Some] ins
      show ?thesis by simp
    qed
  next
    case Get
    show ?thesis
    proof (cases "deq q")
      case None
      with Get Cons show ?thesis by auto
    next
      case (Some p)
      then obtain x q1 where d: "deq q = Some (x, q1)" by (cases p) auto
      with Get Cons.prems obtain outs1 where r: "queue_run enq deq q1 ops = (q', ins, outs1)"
        and outs: "outs = x # outs1" by (auto split: prod.splits)
      from Cons.IH [OF deq_invar [OF Cons.prems(1) d] r] deq_items [OF Cons.prems(1) d]
        deq_capacity [OF Cons.prems(1) d] outs
      show ?thesis by simp
    qed
  qed
qed

lemma run_occupancy:
  assumes "invar q" "queue_run enq deq q ops = (q', ins, outs)"
  shows "length outs \<le> length (items q) + length ins"
    and "length (items q) + length ins \<le> length outs + capacity q"
proof -
  from run_fifo_order [OF assms] have "length (items q @ ins) = length (outs @ items q')"
    and "length (items q') \<le> capacity q" using bounded [of q'] by auto
  then show "length outs \<le> length (items q) + length ins"
    and "length (items q) + length ins \<le> length outs + capacity q" by auto
qed

lemma put_then_get:
  assumes "invar q" "items q = []" "enq q x = Some q'"
  obtains q'' where "deq q' = Some (x, q'')" "items q'' = []"
proof -
  from enq_items [OF assms(1,3)] assms(2) have i: "items q' = [x]" by simp
  have v: "invar q'" by (rule enq_invar [OF assms(1,3)])
  from v i deq_blocks [of q'] obtain y q'' where d: "deq q' = Some (y, q'')"
    by (cases "deq q'") auto
  from deq_items [OF v d] i have "x = y" "items q'' = []" by simp_all
  then show thesis using that d by simp
qed

end

end
