(* ===== verification/Mwsr_Fifo.thy ===== *)
theory Mwsr_Fifo
  imports Bounded_Queue
begin

text \<open>
  \<^verbatim>\<open>mwsr_ta_fifo\<close> (\<^verbatim>\<open>abstract_noc/mwsr_ta_fifo.h\<close>, \<^verbatim>\<open>.cpp\<close>): the ring buffer between a port
  and the dispatch thread of the network. One slot stays unused, so that a full buffer and
  an empty one differ. \<open>Read\<close> and \<open>Write\<close> wait on an event while they cannot go on; here
  they are \<open>None\<close> then. The reference \<open>Read\<close> returns is copied at once by every caller.
\<close>

record 'a mwsr_ta_fifo =
  ff_data :: "'a list"
  ff_size :: nat
  ff_idxRead :: nat
  ff_idxWrite :: nat

definition fifo_Reset :: "'a mwsr_ta_fifo \<Rightarrow> 'a mwsr_ta_fifo" where
  "fifo_Reset f = f\<lparr>ff_idxRead := 0, ff_idxWrite := 0\<rparr>"

text \<open>\<open>new ITEM[m_size]\<close> leaves its elements unspecified: \<open>junk\<close>.\<close>

definition fifo_new :: "'a \<Rightarrow> nat \<Rightarrow> 'a mwsr_ta_fifo" where
  "fifo_new junk n =
     (let f = fifo_Reset \<lparr>ff_data = [], ff_size = 0, ff_idxRead = 0, ff_idxWrite = 0\<rparr>;
          f = f\<lparr>ff_size := n + 1\<rparr>
      in f\<lparr>ff_data := replicate (ff_size f) junk\<rparr>)"

definition fifo_IsEmpty :: "'a mwsr_ta_fifo \<Rightarrow> bool" where
  "fifo_IsEmpty f \<longleftrightarrow> ff_idxRead f = ff_idxWrite f"

definition fifo_IsFull :: "'a mwsr_ta_fifo \<Rightarrow> bool" where
  "fifo_IsFull f \<longleftrightarrow> ff_idxRead f = (ff_idxWrite f + 1) mod ff_size f"

definition fifo_Read :: "'a mwsr_ta_fifo \<Rightarrow> ('a \<times> 'a mwsr_ta_fifo) option" where
  "fifo_Read f =
     (if fifo_IsEmpty f then None
      else let pos = ff_idxRead f
           in Some (ff_data f ! pos, f\<lparr>ff_idxRead := (ff_idxRead f + 1) mod ff_size f\<rparr>))"

definition fifo_Write :: "'a mwsr_ta_fifo \<Rightarrow> 'a \<Rightarrow> 'a mwsr_ta_fifo option" where
  "fifo_Write f p =
     (if fifo_IsFull f then None
      else Some (f\<lparr>ff_data := (ff_data f)[ff_idxWrite f := p],
                   ff_idxWrite := (ff_idxWrite f + 1) mod ff_size f\<rparr>))"

subsection \<open>Representation\<close>

definition fifo_inv :: "'a mwsr_ta_fifo \<Rightarrow> bool" where
  "fifo_inv f \<longleftrightarrow> length (ff_data f) = ff_size f \<and> ff_idxRead f < ff_size f
     \<and> ff_idxWrite f < ff_size f"

definition fifo_count :: "'a mwsr_ta_fifo \<Rightarrow> nat" where
  "fifo_count f = (if ff_idxRead f \<le> ff_idxWrite f then ff_idxWrite f - ff_idxRead f
                   else ff_idxWrite f + ff_size f - ff_idxRead f)"

definition fifo_items :: "'a mwsr_ta_fifo \<Rightarrow> 'a list" where
  "fifo_items f = map (\<lambda>k. ff_data f ! ((ff_idxRead f + k) mod ff_size f)) [0..<fifo_count f]"

definition fifo_capacity :: "'a mwsr_ta_fifo \<Rightarrow> nat" where
  "fifo_capacity f = ff_size f - 1"

lemma length_fifo_items [simp]: "length (fifo_items f) = fifo_count f"
  by (simp add: fifo_items_def)

lemma fifo_items_nth:
  "k < fifo_count f \<Longrightarrow> fifo_items f ! k = ff_data f ! ((ff_idxRead f + k) mod ff_size f)"
  by (simp add: fifo_items_def)

lemma fifo_IsFull_count: "fifo_inv f \<Longrightarrow> fifo_IsFull f \<longleftrightarrow> fifo_count f = fifo_capacity f"
  by (auto simp: fifo_inv_def fifo_IsFull_def fifo_count_def fifo_capacity_def mod_Suc)

lemma fifo_IsEmpty_count: "fifo_inv f \<Longrightarrow> fifo_IsEmpty f \<longleftrightarrow> fifo_count f = 0"
  by (auto simp: fifo_inv_def fifo_IsEmpty_def fifo_count_def)

lemma fifo_count_le: "fifo_inv f \<Longrightarrow> fifo_count f \<le> fifo_capacity f"
  by (auto simp: fifo_inv_def fifo_count_def fifo_capacity_def)

lemma fifo_Write_inv: "fifo_inv f \<Longrightarrow> fifo_Write f x = Some f' \<Longrightarrow> fifo_inv f'"
  by (auto simp: fifo_inv_def fifo_Write_def split: if_splits)

lemma fifo_Read_inv: "fifo_inv f \<Longrightarrow> fifo_Read f = Some (x, f') \<Longrightarrow> fifo_inv f'"
  by (auto simp: fifo_inv_def fifo_Read_def Let_def split: if_splits)

lemma fifo_write_slot:
  assumes "fifo_inv f"
  shows "(ff_idxRead f + fifo_count f) mod ff_size f = ff_idxWrite f"
  using assms by (auto simp: fifo_inv_def fifo_count_def)

lemma fifo_slots_distinct:
  assumes "fifo_inv f" "k < fifo_count f"
  shows "(ff_idxRead f + k) mod ff_size f \<noteq> ff_idxWrite f"
proof (cases "ff_idxRead f + k < ff_size f")
  case True
  with assms show ?thesis by (auto simp: fifo_inv_def fifo_count_def split: if_splits)
next
  case False
  with assms have "(ff_idxRead f + k) mod ff_size f = ff_idxRead f + k - ff_size f"
    by (subst le_mod_geq) (auto simp: fifo_inv_def fifo_count_def split: if_splits)
  with False assms show ?thesis by (auto simp: fifo_inv_def fifo_count_def split: if_splits)
qed

lemma fifo_Write_count:
  assumes "fifo_inv f" "fifo_Write f x = Some f'"
  shows "fifo_count f' = fifo_count f + 1"
  using assms
  by (auto simp: fifo_inv_def fifo_Write_def fifo_IsFull_def fifo_count_def mod_Suc split: if_splits)

lemma fifo_Read_count:
  assumes "fifo_inv f" "fifo_Read f = Some (x, f')"
  shows "fifo_count f = fifo_count f' + 1"
  using assms
  by (auto simp: fifo_inv_def fifo_Read_def fifo_IsEmpty_def fifo_count_def mod_Suc Let_def
      split: if_splits)

lemma fifo_Write_items:
  assumes v: "fifo_inv f" and w: "fifo_Write f x = Some f'"
  shows "fifo_items f' = fifo_items f @ [x]"
proof (rule nth_equalityI)
  show "length (fifo_items f') = length (fifo_items f @ [x])"
    using fifo_Write_count [OF v w] by simp
next
  fix k assume k: "k < length (fifo_items f')"
  then have k': "k < fifo_count f + 1" using fifo_Write_count [OF v w] by simp
  from w have f': "ff_data f' = (ff_data f)[ff_idxWrite f := x]" "ff_idxRead f' = ff_idxRead f"
    "ff_size f' = ff_size f" by (auto simp: fifo_Write_def split: if_splits)
  have sz: "ff_idxWrite f < length (ff_data f)" using v by (simp add: fifo_inv_def)
  show "fifo_items f' ! k = (fifo_items f @ [x]) ! k"
  proof (cases "k < fifo_count f")
    case True
    then show ?thesis using k fifo_slots_distinct [OF v True]
      by (simp add: fifo_items_def f' nth_append)
  next
    case False
    with k' have "k = fifo_count f" by simp
    then show ?thesis using k sz fifo_write_slot [OF v]
      by (simp add: fifo_items_def f' nth_append)
  qed
qed

lemma fifo_Read_items:
  assumes v: "fifo_inv f" and r: "fifo_Read f = Some (x, f')"
  shows "fifo_items f = x # fifo_items f'"
proof (rule nth_equalityI)
  show "length (fifo_items f) = length (x # fifo_items f')"
    using fifo_Read_count [OF v r] by simp
next
  fix k assume k: "k < length (fifo_items f)"
  from r have f': "ff_data f' = ff_data f" "ff_idxRead f' = (ff_idxRead f + 1) mod ff_size f"
    "ff_size f' = ff_size f" and x: "x = ff_data f ! ff_idxRead f"
    by (auto simp: fifo_Read_def Let_def split: if_splits)
  have c: "fifo_count f = fifo_count f' + 1" by (rule fifo_Read_count [OF v r])
  show "fifo_items f ! k = (x # fifo_items f') ! k"
  proof (cases k)
    case 0
    then show ?thesis using k v x by (simp add: fifo_items_def fifo_inv_def)
  next
    case (Suc j)
    have "(ff_idxRead f + Suc j) mod ff_size f = ((ff_idxRead f + 1) mod ff_size f + j) mod ff_size f"
      by (simp add: mod_simps)
    then show ?thesis using k Suc c by (simp add: fifo_items_nth f' del: upt_Suc)
  qed
qed

interpretation noc_fifo: bounded_queue fifo_Write fifo_Read fifo_items fifo_capacity fifo_inv
proof (unfold_locales, goal_cases)
  case (1 q x) then show ?case by (simp add: fifo_Write_def fifo_IsFull_count)
next
  case (2 q x q') then show ?case by (rule fifo_Write_items)
next
  case (3 q x q') then show ?case by (rule fifo_Write_inv)
next
  case (4 q x q') then show ?case by (auto simp: fifo_Write_def fifo_capacity_def split: if_splits)
next
  case (5 q) then show ?case
    by (simp add: fifo_Read_def fifo_IsEmpty_count Let_def flip: length_0_conv)
next
  case (6 q x q') then show ?case by (rule fifo_Read_items)
next
  case (7 q x q') then show ?case by (rule fifo_Read_inv)
next
  case (8 q x q') then show ?case
    by (auto simp: fifo_Read_def fifo_capacity_def Let_def split: if_splits)
next
  case (9 q) then show ?case by (simp add: fifo_count_le)
qed

lemma fifo_new_inv [simp]: "fifo_inv (fifo_new junk n)"
  by (simp add: fifo_inv_def fifo_new_def fifo_Reset_def Let_def)

lemma fifo_new_items [simp]: "fifo_items (fifo_new junk n) = []"
  by (simp add: fifo_items_def fifo_count_def fifo_new_def fifo_Reset_def Let_def)

lemma fifo_new_capacity [simp]: "fifo_capacity (fifo_new junk n) = n"
  by (simp add: fifo_capacity_def fifo_new_def fifo_Reset_def Let_def)

end
