(* ===== verification/Abstract_Noc.thy ===== *)
theory Abstract_Noc
  imports Mwsr_Fifo
begin

text \<open>
  The transactions of the network (\<^verbatim>\<open>abstract_noc/abstract_noc.h\<close>): requests from a
  master to a slave, responses back, and the command codes. A data field is its eight bytes.
\<close>

record vci_request =
  rq_address :: u32
  rq_be :: u8
  rq_cmd :: u8
  rq_contig :: bool
  rq_wdata :: "u8 list"
  rq_eop :: bool
  rq_cons :: bool
  rq_plen :: u8
  rq_wrap :: bool
  rq_cfixed :: bool
  rq_clen :: bool
  rq_srcid :: u16
  rq_trdid :: u8
  rq_pktid :: u8
  rq_initial_address :: u32
  rq_slave_id :: int

definition CMD_NOP :: u8 where "CMD_NOP = 0"
definition CMD_READ :: u8 where "CMD_READ = 1"
definition CMD_WRITE :: u8 where "CMD_WRITE = 2"
definition CMD_LOCKED_READ :: u8 where "CMD_LOCKED_READ = 3"
definition CMD_STORE_COND :: u8 where "CMD_STORE_COND = CMD_NOP"

lemmas cmd_defs [reg_defs] =
  CMD_NOP_def CMD_READ_def CMD_WRITE_def CMD_LOCKED_READ_def CMD_STORE_COND_def

record vci_response =
  rs_rdata :: "u8 list"
  rs_reop :: bool
  rs_rerror :: bool
  rs_rsrcid :: u16
  rs_rtrdid :: u8
  rs_rpktid :: u8
  rs_rbe :: u8

definition wf_request :: "vci_request \<Rightarrow> bool" where
  "wf_request r \<longleftrightarrow> length (rq_wdata r) = 8"

definition wf_response :: "vci_response \<Rightarrow> bool" where
  "wf_response r \<longleftrightarrow> length (rs_rdata r) = 8"

text \<open>A request and a response with every field zero, for concrete runs.\<close>

definition zero_request :: vci_request where
  "zero_request = \<lparr>rq_address = 0, rq_be = 0, rq_cmd = 0, rq_contig = False,
     rq_wdata = replicate 8 0, rq_eop = False, rq_cons = False, rq_plen = 0, rq_wrap = False,
     rq_cfixed = False, rq_clen = False, rq_srcid = 0, rq_trdid = 0, rq_pktid = 0,
     rq_initial_address = 0, rq_slave_id = 0\<rparr>"

definition zero_response :: vci_response where
  "zero_response = \<lparr>rs_rdata = replicate 8 0, rs_reop = False, rs_rerror = False,
     rs_rsrcid = 0, rs_rtrdid = 0, rs_rpktid = 0, rs_rbe = 0\<rparr>"

end
