(* ===== verification/Interconnect.thy ===== *)
theory Interconnect
  imports Abstract_Noc
begin

text \<open>
  The network (\<^verbatim>\<open>abstract_noc/interconnect*.h\<close>, \<^verbatim>\<open>.cpp\<close>). A master port decodes the
  address of a request with its own map, rewrites the address to an offset in the slave and
  passes the request on to the slave port; a slave port routes a response back by its
  source id. Each port has a queue and a dispatch thread of its own, so the network is a
  step relation over the threads' actions.
\<close>

subsection \<open>The address map of a master port\<close>

record map_el =
  me_slave_id :: int
  me_begin_address :: ulong
  me_end_address :: ulong
  me_intern_offset :: ulong

text \<open>The search loop of \<open>dispatch_requests_thread\<close>: the first range with the address.\<close>

fun find_map :: "map_el list \<Rightarrow> ulong \<Rightarrow> map_el option" where
  "find_map [] addr = None"
| "find_map (m # ms) addr =
     (if addr \<ge> me_begin_address m \<and> addr < me_end_address m then Some m
      else find_map ms addr)"

text \<open>
  From the address decode to \<open>add_request\<close>. \<open>get_slave\<close> indexes \<open>m_slaves\<close> without a check,
  and its elements are never null, so an identifier outside the array is an access outside it.
\<close>

definition dispatch_request :: "map_el list \<Rightarrow> nat \<Rightarrow> vci_request \<Rightarrow> (nat \<times> vci_request) res" where
  "dispatch_request ms nslaves req =
     (let addr = rq_address req in
      case find_map ms addr of
        None \<Rightarrow> Inl (Exit 1)
      | Some m \<Rightarrow>
          (let slave_id = me_slave_id m in
           if slave_id < 0 \<or> int nslaves \<le> slave_id then Inl OutOfBounds
           else Inr (nat slave_id,
                  req\<lparr>rq_initial_address := rq_address req, rq_slave_id := slave_id,
                      rq_address := addr - me_begin_address m + me_intern_offset m\<rparr>)))"

definition get_master :: "nat \<Rightarrow> vci_response \<Rightarrow> nat res" where
  "get_master nmasters rsp =
     (if unat (rs_rsrcid rsp) < nmasters then Inr (unat (rs_rsrcid rsp)) else Inl OutOfBounds)"

text \<open>\<open>get_liniar_address\<close>: \<open>Some\<close> of the address it stores when it returns 1.\<close>

fun get_liniar_address :: "map_el list \<Rightarrow> int \<Rightarrow> ulong \<Rightarrow> ulong option" where
  "get_liniar_address [] slave_id offset_slave = None"
| "get_liniar_address (m # ms) slave_id offset_slave =
     (if me_slave_id m = slave_id
      then (let addr = me_begin_address m + offset_slave - me_intern_offset m in
            if addr \<ge> me_begin_address m \<and> addr < me_end_address m then Some addr
            else get_liniar_address ms slave_id offset_slave)
      else get_liniar_address ms slave_id offset_slave)"

text \<open>\<open>get_slave_id_for_mem_addr\<close>: the slave's id (-1 if none) and the rewritten address.\<close>

fun get_slave_id_for_mem_addr :: "map_el list \<Rightarrow> ulong \<Rightarrow> int \<times> ulong" where
  "get_slave_id_for_mem_addr [] addr = (-1, addr)"
| "get_slave_id_for_mem_addr (m # ms) addr =
     (if addr \<ge> me_begin_address m \<and> addr \<le> me_end_address m
      then (me_slave_id m, addr - me_begin_address m + me_intern_offset m)
      else get_slave_id_for_mem_addr ms addr)"

lemma find_map_SomeD:
  "find_map ms addr = Some m \<Longrightarrow>
     m \<in> set ms \<and> me_begin_address m \<le> addr \<and> addr < me_end_address m"
  by (induction ms) (auto split: if_splits)

lemma find_map_None_iff:
  "find_map ms addr = None \<longleftrightarrow>
     (\<forall>m\<in>set ms. \<not> (me_begin_address m \<le> addr \<and> addr < me_end_address m))"
  by (induction ms) auto

text \<open>
  The offsets of its slave a range covers, as an interval of numbers, and a map whose
  ranges cover no offset of a slave twice.
\<close>

definition target_lo :: "map_el \<Rightarrow> nat" where
  "target_lo m = unat (me_intern_offset m)"

definition target_hi :: "map_el \<Rightarrow> nat" where
  "target_hi m = target_lo m + (unat (me_end_address m) - unat (me_begin_address m))"

definition targets_apart :: "map_el \<Rightarrow> map_el \<Rightarrow> bool" where
  "targets_apart m m' \<longleftrightarrow> me_slave_id m \<noteq> me_slave_id m'
     \<or> target_hi m \<le> target_lo m' \<or> target_hi m' \<le> target_lo m"

fun disjoint_targets :: "map_el list \<Rightarrow> bool" where
  "disjoint_targets [] = True"
| "disjoint_targets (m # ms) =
     (target_hi m \<le> 2 ^ 32 \<and> list_all (targets_apart m) ms \<and> disjoint_targets ms)"

lemma get_liniar_address_SomeD:
  "get_liniar_address ms s off = Some addr \<Longrightarrow>
     \<exists>m\<in>set ms. me_slave_id m = s \<and> me_begin_address m \<le> addr \<and> addr < me_end_address m
       \<and> addr = me_begin_address m + off - me_intern_offset m"
  by (induction ms) (auto simp: Let_def split: if_splits)

lemma in_range_target:
  fixes a :: ulong
  assumes "me_begin_address m \<le> a" "a < me_end_address m" "target_hi m \<le> 2 ^ 32"
    and "off = a - me_begin_address m + me_intern_offset m"
  shows "target_lo m \<le> unat off \<and> unat off < target_hi m"
proof -
  have "unat (a - me_begin_address m) = unat a - unat (me_begin_address m)"
    using assms(1) by (rule unat_sub)
  moreover have "unat (me_begin_address m) \<le> unat a" "unat a < unat (me_end_address m)"
    using assms(1,2) by (simp_all add: word_le_nat_alt word_less_nat_alt)
  ultimately have "unat off = unat a - unat (me_begin_address m) + unat (me_intern_offset m)"
    using assms(3,4) by (simp add: unat_word_ariths target_hi_def target_lo_def)
  then show ?thesis
    using \<open>unat (me_begin_address m) \<le> unat a\<close> \<open>unat a < unat (me_end_address m)\<close>
    unfolding target_hi_def target_lo_def by linarith
qed

lemma disjoint_targets_appendD:
  "disjoint_targets (xs @ ys) \<Longrightarrow> x \<in> set xs \<Longrightarrow> y \<in> set ys \<Longrightarrow> targets_apart x y"
  by (induction xs) (auto simp: list_all_iff)

lemma disjoint_targets_fits: "disjoint_targets ms \<Longrightarrow> m \<in> set ms \<Longrightarrow> target_hi m \<le> 2 ^ 32"
  by (induction ms) auto

lemma get_liniar_address_append:
  "get_liniar_address (ms @ ms') s off =
     (case get_liniar_address ms s off of None \<Rightarrow> get_liniar_address ms' s off | Some a \<Rightarrow> Some a)"
  by (induction ms) (auto simp: Let_def)

lemma linear_of_dispatch:
  assumes d: "disjoint_targets ms" and f: "find_map ms addr = Some m"
  shows "get_liniar_address ms (me_slave_id m) (addr - me_begin_address m + me_intern_offset m)
           = Some addr"
proof -
  let ?off = "addr - me_begin_address m + me_intern_offset m"
  from f have m: "m \<in> set ms" "me_begin_address m \<le> addr" "addr < me_end_address m"
    using find_map_SomeD by auto
  then obtain pre post where ms: "ms = pre @ m # post" by (auto dest: split_list)
  have tm: "target_lo m \<le> unat ?off" "unat ?off < target_hi m"
    using in_range_target [OF m(2,3) disjoint_targets_fits [OF d m(1)] refl] by simp_all
  have "get_liniar_address pre (me_slave_id m) ?off = None"
  proof (rule ccontr)
    assume "get_liniar_address pre (me_slave_id m) ?off \<noteq> None"
    then obtain a where "get_liniar_address pre (me_slave_id m) ?off = Some a" by auto
    then obtain m' where m': "m' \<in> set pre" "me_slave_id m' = me_slave_id m"
      "me_begin_address m' \<le> a" "a < me_end_address m'"
      "a = me_begin_address m' + ?off - me_intern_offset m'"
      using get_liniar_address_SomeD by metis
    have "?off = a - me_begin_address m' + me_intern_offset m'" using m'(5) by simp
    from in_range_target [OF m'(3,4) _ this] disjoint_targets_fits [OF d] m'(1)
    have "target_lo m' \<le> unat ?off" "unat ?off < target_hi m'" by (simp_all add: ms)
    moreover have "targets_apart m' m"
      using disjoint_targets_appendD [of pre "m # post" m' m] d m'(1) by (simp add: ms)
    ultimately show False using tm m'(2) by (auto simp: targets_apart_def)
  qed
  then show ?thesis using m by (simp add: ms get_liniar_address_append Let_def)
qed

end
