(* ===== verification/Interconnect_Network.thy ===== *)
theory Interconnect_Network
  imports Interconnect "HOL-Library.Multiset"
begin

text \<open>
  The ports of the network and their threads (\<^verbatim>\<open>interconnect.cpp\<close>,
  \<^verbatim>\<open>interconnect_master.cpp\<close>, \<^verbatim>\<open>interconnect_slave.cpp\<close>). A thread runs without
  interruption between two waits, so its loop is two actions: it takes an item out of its
  queue, and after the wait it routes that item into the queue of the other side; each is
  enabled only when the queue it uses lets it go on.
\<close>

subsection \<open>Loading the address map\<close>

text \<open>
  The result of one \<open>fscanf\<close> call: the number of converted fields and the element with these
  fields stored. The list ends at the end of the file. The array has 50 elements.
\<close>

fun load_map :: "nat \<Rightarrow> (int \<times> map_el) list \<Rightarrow> map_el list res" where
  "load_map i [] = Inr []"
| "load_map i ((k, m) # rows) =
     (if k \<le> 0 then Inr []
      else if 50 \<le> i then Inl OutOfBounds
      else if k < 4 then Inl (Exit 1)
      else bindr (load_map (i + 1) rows) (\<lambda>ms. Inr (m # ms)))"

subsection \<open>Ports\<close>

record interconnect_master =
  mp_map :: "map_el list"
  mp_queue_responses :: "vci_response mwsr_ta_fifo"
  mp_queue_requests :: "vci_request mwsr_ta_fifo"
  mp_req :: "vci_request option"   \<comment> \<open>read by the dispatch thread, not yet added\<close>

record interconnect_slave =
  sp_queue_requests :: "vci_request mwsr_ta_fifo"
  sp_queue_responses :: "vci_response mwsr_ta_fifo"
  sp_rsp :: "vci_response option"

record interconnect =
  nc_masters :: "interconnect_master list"
  nc_slaves :: "interconnect_slave list"

definition master_port_new :: "map_el list \<Rightarrow> interconnect_master" where
  "master_port_new ms = \<lparr>mp_map = ms, mp_queue_responses = fifo_new zero_response 8,
     mp_queue_requests = fifo_new zero_request 8, mp_req = None\<rparr>"

definition slave_port_new :: "interconnect_slave" where
  "slave_port_new = \<lparr>sp_queue_requests = fifo_new zero_request 8,
     sp_queue_responses = fifo_new zero_response 8, sp_rsp = None\<rparr>"

definition interconnect_new :: "map_el list list \<Rightarrow> nat \<Rightarrow> interconnect" where
  "interconnect_new maps nslaves =
     \<lparr>nc_masters = map master_port_new maps, nc_slaves = replicate nslaves slave_port_new\<rparr>"

text \<open>The operations of a master port.\<close>

definition master_put :: "interconnect_master \<Rightarrow> vci_request \<Rightarrow> interconnect_master option" where
  "master_put p req =
     map_option (\<lambda>q. p\<lparr>mp_queue_requests := q\<rparr>) (fifo_Write (mp_queue_requests p) req)"

definition master_get :: "interconnect_master \<Rightarrow> (vci_response \<times> interconnect_master) option" where
  "master_get p =
     map_option (\<lambda>(rsp, q). (rsp, p\<lparr>mp_queue_responses := q\<rparr>)) (fifo_Read (mp_queue_responses p))"

definition add_response :: "interconnect_master \<Rightarrow> vci_response \<Rightarrow> interconnect_master option" where
  "add_response p rsp =
     map_option (\<lambda>q. p\<lparr>mp_queue_responses := q\<rparr>) (fifo_Write (mp_queue_responses p) rsp)"

definition master_take :: "interconnect_master \<Rightarrow> interconnect_master option" where
  "master_take p =
     (case mp_req p of
        Some _ \<Rightarrow> None
      | None \<Rightarrow> map_option (\<lambda>(req, q). p\<lparr>mp_queue_requests := q, mp_req := Some req\<rparr>)
                  (fifo_Read (mp_queue_requests p)))"

text \<open>The operations of a slave port.\<close>

definition slave_put :: "interconnect_slave \<Rightarrow> vci_response \<Rightarrow> interconnect_slave option" where
  "slave_put p rsp =
     map_option (\<lambda>q. p\<lparr>sp_queue_responses := q\<rparr>) (fifo_Write (sp_queue_responses p) rsp)"

definition slave_get :: "interconnect_slave \<Rightarrow> (vci_request \<times> interconnect_slave) option" where
  "slave_get p =
     map_option (\<lambda>(req, q). (req, p\<lparr>sp_queue_requests := q\<rparr>)) (fifo_Read (sp_queue_requests p))"

definition add_request :: "interconnect_slave \<Rightarrow> vci_request \<Rightarrow> interconnect_slave option" where
  "add_request p req =
     map_option (\<lambda>q. p\<lparr>sp_queue_requests := q\<rparr>) (fifo_Write (sp_queue_requests p) req)"

definition slave_take :: "interconnect_slave \<Rightarrow> interconnect_slave option" where
  "slave_take p =
     (case sp_rsp p of
        Some _ \<Rightarrow> None
      | None \<Rightarrow> map_option (\<lambda>(rsp, q). p\<lparr>sp_queue_responses := q, sp_rsp := Some rsp\<rparr>)
                  (fifo_Read (sp_queue_responses p)))"

text \<open>
  The second half of the two thread bodies: \<open>Inl\<close> when the thread stops the simulation,
  \<open>Inr None\<close> while the destination queue makes it wait.
\<close>

definition dispatch_requests_thread :: "interconnect \<Rightarrow> nat \<Rightarrow> interconnect option res" where
  "dispatch_requests_thread n i =
     bindr (rd (nc_masters n) i) (\<lambda>p.
     case mp_req p of
       None \<Rightarrow> Inr None
     | Some req \<Rightarrow>
         bindr (dispatch_request (mp_map p) (length (nc_slaves n)) req) (\<lambda>(s, req').
         Inr (map_option (\<lambda>sp. n\<lparr>nc_slaves := (nc_slaves n)[s := sp],
                                 nc_masters := (nc_masters n)[i := p\<lparr>mp_req := None\<rparr>]\<rparr>)
                (add_request (nc_slaves n ! s) req'))))"

definition dispatch_responses_thread :: "interconnect \<Rightarrow> nat \<Rightarrow> interconnect option res" where
  "dispatch_responses_thread n j =
     bindr (rd (nc_slaves n) j) (\<lambda>p.
     case sp_rsp p of
       None \<Rightarrow> Inr None
     | Some rsp \<Rightarrow>
         bindr (get_master (length (nc_masters n)) rsp) (\<lambda>i.
         Inr (map_option (\<lambda>mp. n\<lparr>nc_masters := (nc_masters n)[i := mp],
                                 nc_slaves := (nc_slaves n)[j := p\<lparr>sp_rsp := None\<rparr>]\<rparr>)
                (add_response (nc_masters n ! i) rsp))))"

subsection \<open>Steps and runs\<close>

datatype noc_label =
    MPut nat vci_request | MTake nat | MDispatch nat | SGet nat vci_request
  | SPut nat vci_response | STake nat | SDispatch nat | MGet nat vci_response

inductive noc_step :: "interconnect \<Rightarrow> noc_label \<Rightarrow> interconnect \<Rightarrow> bool" where
  mput: "i < length (nc_masters n) \<Longrightarrow> master_put (nc_masters n ! i) req = Some p \<Longrightarrow>
     noc_step n (MPut i req) (n\<lparr>nc_masters := (nc_masters n)[i := p]\<rparr>)"
| mtake: "i < length (nc_masters n) \<Longrightarrow> master_take (nc_masters n ! i) = Some p \<Longrightarrow>
     noc_step n (MTake i) (n\<lparr>nc_masters := (nc_masters n)[i := p]\<rparr>)"
| mdispatch: "dispatch_requests_thread n i = Inr (Some n') \<Longrightarrow> noc_step n (MDispatch i) n'"
| sget: "j < length (nc_slaves n) \<Longrightarrow> slave_get (nc_slaves n ! j) = Some (req, p) \<Longrightarrow>
     noc_step n (SGet j req) (n\<lparr>nc_slaves := (nc_slaves n)[j := p]\<rparr>)"
| sput: "j < length (nc_slaves n) \<Longrightarrow> slave_put (nc_slaves n ! j) rsp = Some p \<Longrightarrow>
     noc_step n (SPut j rsp) (n\<lparr>nc_slaves := (nc_slaves n)[j := p]\<rparr>)"
| stake: "j < length (nc_slaves n) \<Longrightarrow> slave_take (nc_slaves n ! j) = Some p \<Longrightarrow>
     noc_step n (STake j) (n\<lparr>nc_slaves := (nc_slaves n)[j := p]\<rparr>)"
| sdispatch: "dispatch_responses_thread n j = Inr (Some n') \<Longrightarrow> noc_step n (SDispatch j) n'"
| mget: "i < length (nc_masters n) \<Longrightarrow> master_get (nc_masters n ! i) = Some (rsp, p) \<Longrightarrow>
     noc_step n (MGet i rsp) (n\<lparr>nc_masters := (nc_masters n)[i := p]\<rparr>)"

inductive noc_run :: "interconnect \<Rightarrow> noc_label list \<Rightarrow> interconnect \<Rightarrow> bool" where
  run_nil: "noc_run n [] n"
| run_snoc: "noc_run n tr n' \<Longrightarrow> noc_step n' l n'' \<Longrightarrow> noc_run n (tr @ [l]) n''"

inductive_simps noc_run_nil_iff [simp]: "noc_run n [] n'"

lemma noc_run_snocD: "noc_run n (tr @ [l]) n'' \<Longrightarrow> \<exists>n'. noc_run n tr n' \<and> noc_step n' l n''"
  by (erule noc_run.cases) auto

subsection \<open>An executable form of the steps\<close>

fun noc_do :: "interconnect \<Rightarrow> noc_label \<Rightarrow> interconnect option" where
  "noc_do n (MPut i req) =
     (if i < length (nc_masters n)
      then map_option (\<lambda>p. n\<lparr>nc_masters := (nc_masters n)[i := p]\<rparr>) (master_put (nc_masters n ! i) req)
      else None)"
| "noc_do n (MTake i) =
     (if i < length (nc_masters n)
      then map_option (\<lambda>p. n\<lparr>nc_masters := (nc_masters n)[i := p]\<rparr>) (master_take (nc_masters n ! i))
      else None)"
| "noc_do n (MDispatch i) = (case dispatch_requests_thread n i of Inr r \<Rightarrow> r | Inl _ \<Rightarrow> None)"
| "noc_do n (SGet j req) =
     (if j < length (nc_slaves n)
      then (case slave_get (nc_slaves n ! j) of
              Some (r, p) \<Rightarrow> if r = req then Some (n\<lparr>nc_slaves := (nc_slaves n)[j := p]\<rparr>) else None
            | None \<Rightarrow> None)
      else None)"
| "noc_do n (SPut j rsp) =
     (if j < length (nc_slaves n)
      then map_option (\<lambda>p. n\<lparr>nc_slaves := (nc_slaves n)[j := p]\<rparr>) (slave_put (nc_slaves n ! j) rsp)
      else None)"
| "noc_do n (STake j) =
     (if j < length (nc_slaves n)
      then map_option (\<lambda>p. n\<lparr>nc_slaves := (nc_slaves n)[j := p]\<rparr>) (slave_take (nc_slaves n ! j))
      else None)"
| "noc_do n (SDispatch j) = (case dispatch_responses_thread n j of Inr r \<Rightarrow> r | Inl _ \<Rightarrow> None)"
| "noc_do n (MGet i rsp) =
     (if i < length (nc_masters n)
      then (case master_get (nc_masters n ! i) of
              Some (r, p) \<Rightarrow> if r = rsp then Some (n\<lparr>nc_masters := (nc_masters n)[i := p]\<rparr>) else None
            | None \<Rightarrow> None)
      else None)"

lemma noc_do_iff: "noc_do n l = Some n' \<longleftrightarrow> noc_step n l n'"
  by (cases l)
    (auto simp: noc_step.simps split: if_splits option.splits sum.splits)

fun noc_exec :: "interconnect \<Rightarrow> noc_label list \<Rightarrow> interconnect option" where
  "noc_exec n [] = Some n"
| "noc_exec n (l # ls) = (case noc_do n l of None \<Rightarrow> None | Some n' \<Rightarrow> noc_exec n' ls)"

lemma noc_run_appendI: "noc_run n' ls n'' \<Longrightarrow> noc_run n tr n' \<Longrightarrow> noc_run n (tr @ ls) n''"
  by (induction rule: noc_run.induct) (auto simp flip: append_assoc intro: noc_run.intros)

lemma noc_exec_run: "noc_exec n ls = Some n' \<Longrightarrow> noc_run n ls n'"
proof (induction ls arbitrary: n)
  case (Cons l ls)
  then obtain n1 where s: "noc_do n l = Some n1" and r: "noc_run n1 ls n'"
    by (auto split: option.splits)
  have "noc_run n [l] n1" using run_snoc [OF run_nil] s by (simp add: noc_do_iff)
  from noc_run_appendI [OF r this] show ?case by simp
qed simp

subsection \<open>The queues stay well formed\<close>

definition master_inv :: "interconnect_master \<Rightarrow> bool" where
  "master_inv p \<longleftrightarrow> fifo_inv (mp_queue_requests p) \<and> fifo_capacity (mp_queue_requests p) = 8
     \<and> fifo_inv (mp_queue_responses p) \<and> fifo_capacity (mp_queue_responses p) = 8"

definition slave_inv :: "interconnect_slave \<Rightarrow> bool" where
  "slave_inv p \<longleftrightarrow> fifo_inv (sp_queue_requests p) \<and> fifo_capacity (sp_queue_requests p) = 8
     \<and> fifo_inv (sp_queue_responses p) \<and> fifo_capacity (sp_queue_responses p) = 8"

definition noc_inv :: "interconnect \<Rightarrow> bool" where
  "noc_inv n \<longleftrightarrow> list_all master_inv (nc_masters n) \<and> list_all slave_inv (nc_slaves n)"

lemma noc_invD:
  "noc_inv n \<Longrightarrow> i < length (nc_masters n) \<Longrightarrow> master_inv (nc_masters n ! i)"
  "noc_inv n \<Longrightarrow> j < length (nc_slaves n) \<Longrightarrow> slave_inv (nc_slaves n ! j)"
  by (simp_all add: noc_inv_def list_all_length)

lemma noc_inv_update:
  "noc_inv n \<Longrightarrow> master_inv p \<Longrightarrow> noc_inv (n\<lparr>nc_masters := (nc_masters n)[i := p]\<rparr>)"
  "noc_inv n \<Longrightarrow> slave_inv q \<Longrightarrow> noc_inv (n\<lparr>nc_slaves := (nc_slaves n)[j := q]\<rparr>)"
  "noc_inv n \<Longrightarrow> master_inv p \<Longrightarrow> slave_inv q \<Longrightarrow>
     noc_inv (n\<lparr>nc_masters := (nc_masters n)[i := p], nc_slaves := (nc_slaves n)[j := q]\<rparr>)"
  by (auto simp: noc_inv_def list_all_iff dest!: set_update_subset_insert [THEN subsetD])

lemma fifo_Write_capacity: "fifo_Write f x = Some f' \<Longrightarrow> fifo_capacity f' = fifo_capacity f"
  by (auto simp: fifo_Write_def fifo_capacity_def split: if_splits)

lemma fifo_Read_capacity: "fifo_Read f = Some (x, f') \<Longrightarrow> fifo_capacity f' = fifo_capacity f"
  by (auto simp: fifo_Read_def fifo_capacity_def Let_def split: if_splits)

lemmas fifo_keeps = fifo_Write_inv fifo_Read_inv fifo_Write_capacity fifo_Read_capacity

lemma port_ops_inv:
  "master_inv p \<Longrightarrow> master_put p req = Some p' \<Longrightarrow> master_inv p'"
  "master_inv p \<Longrightarrow> master_get p = Some (rsp, p') \<Longrightarrow> master_inv p'"
  "master_inv p \<Longrightarrow> add_response p rsp = Some p' \<Longrightarrow> master_inv p'"
  "master_inv p \<Longrightarrow> master_take p = Some p' \<Longrightarrow> master_inv p'"
  "master_inv p \<Longrightarrow> master_inv (p\<lparr>mp_req := r\<rparr>)"
  "slave_inv q \<Longrightarrow> slave_put q rsp = Some q' \<Longrightarrow> slave_inv q'"
  "slave_inv q \<Longrightarrow> slave_get q = Some (req, q') \<Longrightarrow> slave_inv q'"
  "slave_inv q \<Longrightarrow> add_request q req = Some q' \<Longrightarrow> slave_inv q'"
  "slave_inv q \<Longrightarrow> slave_take q = Some q' \<Longrightarrow> slave_inv q'"
  "slave_inv q \<Longrightarrow> slave_inv (q\<lparr>sp_rsp := s\<rparr>)"
  by (auto simp: master_inv_def slave_inv_def master_put_def master_get_def add_response_def
      master_take_def slave_put_def slave_get_def add_request_def slave_take_def
      dest: fifo_keeps split: option.splits)

text \<open>What the two dispatch actions change, when they go on.\<close>

lemma dispatch_requests_SomeD:
  assumes "dispatch_requests_thread n i = Inr (Some n')"
  obtains p req s req' sp where "i < length (nc_masters n)" "p = nc_masters n ! i"
    "mp_req p = Some req" "dispatch_request (mp_map p) (length (nc_slaves n)) req = Inr (s, req')"
    "s < length (nc_slaves n)" "add_request (nc_slaves n ! s) req' = Some sp"
    "n' = n\<lparr>nc_masters := (nc_masters n)[i := p\<lparr>mp_req := None\<rparr>],
            nc_slaves := (nc_slaves n)[s := sp]\<rparr>"
  using assms
  by (auto simp: dispatch_requests_thread_def rd_def bindr_eq_Inr dispatch_request_def Let_def
      split: if_splits option.splits)

lemma dispatch_responses_SomeD:
  assumes "dispatch_responses_thread n j = Inr (Some n')"
  obtains p rsp i mp where "j < length (nc_slaves n)" "p = nc_slaves n ! j"
    "sp_rsp p = Some rsp" "i = unat (rs_rsrcid rsp)" "i < length (nc_masters n)"
    "add_response (nc_masters n ! i) rsp = Some mp"
    "n' = n\<lparr>nc_masters := (nc_masters n)[i := mp],
            nc_slaves := (nc_slaves n)[j := p\<lparr>sp_rsp := None\<rparr>]\<rparr>"
  using assms
  by (auto simp: dispatch_responses_thread_def rd_def bindr_eq_Inr get_master_def
      split: if_splits option.splits)

lemma noc_step_shape:
  assumes "noc_step n l n'"
  shows "length (nc_masters n') = length (nc_masters n) \<and> length (nc_slaves n') = length (nc_slaves n)"
  using assms
  by cases (auto elim!: dispatch_requests_SomeD dispatch_responses_SomeD)

lemma noc_step_inv:
  assumes "noc_step n l n'" "noc_inv n"
  shows "noc_inv n'"
  using assms
proof cases
  case (mdispatch i)
  from this(2) show ?thesis
  proof (rule dispatch_requests_SomeD)
    fix p req s req' sp
    assume "i < length (nc_masters n)" "p = nc_masters n ! i" "s < length (nc_slaves n)"
      and sp: "add_request (nc_slaves n ! s) req' = Some sp"
      and n': "n' = n\<lparr>nc_masters := (nc_masters n)[i := p\<lparr>mp_req := None\<rparr>],
                      nc_slaves := (nc_slaves n)[s := sp]\<rparr>"
    with noc_invD [OF assms(2)] have "master_inv p" "slave_inv (nc_slaves n ! s)" by auto
    then have "master_inv (p\<lparr>mp_req := None\<rparr>)" "slave_inv sp"
      using port_ops_inv(5) port_ops_inv(8) [OF _ sp] by blast+
    then show ?thesis unfolding n' by (rule noc_inv_update(3) [OF assms(2)])
  qed
next
  case (sdispatch j)
  from this(2) show ?thesis
  proof (rule dispatch_responses_SomeD)
    fix p rsp i mp
    assume "j < length (nc_slaves n)" "p = nc_slaves n ! j" "i < length (nc_masters n)"
      and mp: "add_response (nc_masters n ! i) rsp = Some mp"
      and n': "n' = n\<lparr>nc_masters := (nc_masters n)[i := mp],
                      nc_slaves := (nc_slaves n)[j := p\<lparr>sp_rsp := None\<rparr>]\<rparr>"
    with noc_invD [OF assms(2)] have "slave_inv p" "master_inv (nc_masters n ! i)" by auto
    then have "slave_inv (p\<lparr>sp_rsp := None\<rparr>)" "master_inv mp"
      using port_ops_inv(10) port_ops_inv(3) [OF _ mp] by blast+
    then show ?thesis unfolding n' by (rule noc_inv_update(3) [OF assms(2), rotated])
  qed
next
  case mput then show ?thesis by (metis assms(2) noc_inv_update(1) noc_invD(1) port_ops_inv(1))
next
  case mtake then show ?thesis by (metis assms(2) noc_inv_update(1) noc_invD(1) port_ops_inv(4))
next
  case mget then show ?thesis by (metis assms(2) noc_inv_update(1) noc_invD(1) port_ops_inv(2))
next
  case sget then show ?thesis by (metis assms(2) noc_inv_update(2) noc_invD(2) port_ops_inv(7))
next
  case sput then show ?thesis by (metis assms(2) noc_inv_update(2) noc_invD(2) port_ops_inv(6))
next
  case stake then show ?thesis by (metis assms(2) noc_inv_update(2) noc_invD(2) port_ops_inv(9))
qed

lemma noc_run_inv:
  "noc_run n tr n' \<Longrightarrow> noc_inv n \<Longrightarrow> noc_inv n' \<and> length (nc_masters n') = length (nc_masters n)
     \<and> length (nc_slaves n') = length (nc_slaves n)"
  by (induction rule: noc_run.induct) (auto dest: noc_step_inv noc_step_shape)

lemma interconnect_new_inv [simp]: "noc_inv (interconnect_new maps ns)"
  by (simp add: noc_inv_def interconnect_new_def master_port_new_def slave_port_new_def
      master_inv_def slave_inv_def list_all_length)

end
