(* ===== verification/Noc_Order.thy ===== *)
theory Noc_Order
  imports Interconnect_Network
begin

text \<open>
  What the network promises, as an abstract machine without ring buffers and without the
  item each dispatch thread holds across its wait: four families of unbounded queues. The
  network of ports refines it, and delivery in order without loss is proved on it.
\<close>

record abstract_noc =
  an_req :: "nat \<Rightarrow> vci_request list"    \<comment> \<open>accepted from master \<open>i\<close>, not yet routed\<close>
  an_sreq :: "nat \<Rightarrow> vci_request list"   \<comment> \<open>routed to slave \<open>j\<close>, not yet taken by it\<close>
  an_rsp :: "nat \<Rightarrow> vci_response list"   \<comment> \<open>accepted from slave \<open>j\<close>, not yet routed\<close>
  an_mrsp :: "nat \<Rightarrow> vci_response list"  \<comment> \<open>routed to master \<open>i\<close>, not yet taken by it\<close>

definition empty_noc :: abstract_noc where
  "empty_noc = \<lparr>an_req = (\<lambda>_. []), an_sreq = (\<lambda>_. []), an_rsp = (\<lambda>_. []), an_mrsp = (\<lambda>_. [])\<rparr>"

inductive anoc_step :: "map_el list list \<Rightarrow> nat \<Rightarrow> abstract_noc \<Rightarrow> noc_label \<Rightarrow> abstract_noc \<Rightarrow> bool"
  for maps :: "map_el list list" and ns :: nat where
  a_mput: "anoc_step maps ns a (MPut i r) (a\<lparr>an_req := (an_req a)(i := an_req a i @ [r])\<rparr>)"
| a_mtake: "anoc_step maps ns a (MTake i) a"
| a_mdispatch: "i < length maps \<Longrightarrow> an_req a i = r # rs \<Longrightarrow> dispatch_request (maps ! i) ns r = Inr (s, r') \<Longrightarrow>
     anoc_step maps ns a (MDispatch i)
       (a\<lparr>an_req := (an_req a)(i := rs), an_sreq := (an_sreq a)(s := an_sreq a s @ [r'])\<rparr>)"
| a_sget: "an_sreq a j = r # rs \<Longrightarrow>
     anoc_step maps ns a (SGet j r) (a\<lparr>an_sreq := (an_sreq a)(j := rs)\<rparr>)"
| a_sput: "j < ns \<Longrightarrow> anoc_step maps ns a (SPut j p) (a\<lparr>an_rsp := (an_rsp a)(j := an_rsp a j @ [p])\<rparr>)"
| a_stake: "anoc_step maps ns a (STake j) a"
| a_sdispatch: "j < ns \<Longrightarrow> an_rsp a j = p # ps \<Longrightarrow> get_master (length maps) p = Inr i \<Longrightarrow>
     anoc_step maps ns a (SDispatch j)
       (a\<lparr>an_mrsp := (an_mrsp a)(i := an_mrsp a i @ [p]), an_rsp := (an_rsp a)(j := ps)\<rparr>)"
| a_mget: "an_mrsp a i = p # ps \<Longrightarrow>
     anoc_step maps ns a (MGet i p) (a\<lparr>an_mrsp := (an_mrsp a)(i := ps)\<rparr>)"

inductive anoc_run :: "map_el list list \<Rightarrow> nat \<Rightarrow> abstract_noc \<Rightarrow> noc_label list \<Rightarrow> abstract_noc \<Rightarrow> bool"
  for maps :: "map_el list list" and ns :: nat where
  arun_nil: "anoc_run maps ns a [] a"
| arun_snoc: "anoc_run maps ns a tr a' \<Longrightarrow> anoc_step maps ns a' l a'' \<Longrightarrow>
     anoc_run maps ns a (tr @ [l]) a''"

subsection \<open>The ports refine the abstract network\<close>

definition held :: "'a option \<Rightarrow> 'a list" where
  "held x = (case x of None \<Rightarrow> [] | Some y \<Rightarrow> [y])"

lemma held_simps [simp]: "held None = []" "held (Some x) = [x]"
  by (simp_all add: held_def)

definition noc_abs :: "interconnect \<Rightarrow> abstract_noc" where
  "noc_abs n = \<lparr>
     an_req = (\<lambda>i. held (mp_req (nc_masters n ! i)) @ fifo_items (mp_queue_requests (nc_masters n ! i))),
     an_sreq = (\<lambda>j. fifo_items (sp_queue_requests (nc_slaves n ! j))),
     an_rsp = (\<lambda>j. held (sp_rsp (nc_slaves n ! j)) @ fifo_items (sp_queue_responses (nc_slaves n ! j))),
     an_mrsp = (\<lambda>i. fifo_items (mp_queue_responses (nc_masters n ! i)))\<rparr>"

definition noc_maps :: "interconnect \<Rightarrow> map_el list list" where
  "noc_maps n = map mp_map (nc_masters n)"

lemma noc_step_maps: "noc_step n l n' \<Longrightarrow> noc_maps n' = noc_maps n"
  by (auto simp: noc_maps_def noc_step.simps map_update master_put_def master_take_def
      master_get_def add_response_def list_update_same_conv split: option.splits
      elim!: dispatch_requests_SomeD dispatch_responses_SomeD intro!: list_update_same_conv [THEN iffD2])

text \<open>What one operation of a port does to the abstract queues it stands for.\<close>

lemma master_put_abs:
  "master_inv p \<Longrightarrow> master_put p r = Some p' \<Longrightarrow>
     held (mp_req p') @ fifo_items (mp_queue_requests p')
       = (held (mp_req p) @ fifo_items (mp_queue_requests p)) @ [r]
     \<and> fifo_items (mp_queue_responses p') = fifo_items (mp_queue_responses p)"
  by (auto simp: master_put_def master_inv_def dest: noc_fifo.enq_items)

lemma master_take_abs:
  "master_inv p \<Longrightarrow> master_take p = Some p' \<Longrightarrow>
     held (mp_req p') @ fifo_items (mp_queue_requests p')
       = held (mp_req p) @ fifo_items (mp_queue_requests p)
     \<and> fifo_items (mp_queue_responses p') = fifo_items (mp_queue_responses p)"
  by (auto simp: master_take_def master_inv_def dest: noc_fifo.deq_items split: option.splits)

lemma master_get_abs:
  "master_inv p \<Longrightarrow> master_get p = Some (r, p') \<Longrightarrow>
     held (mp_req p') @ fifo_items (mp_queue_requests p')
       = held (mp_req p) @ fifo_items (mp_queue_requests p)
     \<and> fifo_items (mp_queue_responses p) = r # fifo_items (mp_queue_responses p')"
  by (auto simp: master_get_def master_inv_def dest: noc_fifo.deq_items)

lemma add_response_abs:
  "master_inv p \<Longrightarrow> add_response p r = Some p' \<Longrightarrow>
     held (mp_req p') @ fifo_items (mp_queue_requests p')
       = held (mp_req p) @ fifo_items (mp_queue_requests p)
     \<and> fifo_items (mp_queue_responses p') = fifo_items (mp_queue_responses p) @ [r]"
  by (auto simp: add_response_def master_inv_def dest: noc_fifo.enq_items)

lemma slave_put_abs:
  "slave_inv p \<Longrightarrow> slave_put p r = Some p' \<Longrightarrow>
     held (sp_rsp p') @ fifo_items (sp_queue_responses p')
       = (held (sp_rsp p) @ fifo_items (sp_queue_responses p)) @ [r]
     \<and> fifo_items (sp_queue_requests p') = fifo_items (sp_queue_requests p)"
  by (auto simp: slave_put_def slave_inv_def dest: noc_fifo.enq_items)

lemma slave_take_abs:
  "slave_inv p \<Longrightarrow> slave_take p = Some p' \<Longrightarrow>
     held (sp_rsp p') @ fifo_items (sp_queue_responses p')
       = held (sp_rsp p) @ fifo_items (sp_queue_responses p)
     \<and> fifo_items (sp_queue_requests p') = fifo_items (sp_queue_requests p)"
  by (auto simp: slave_take_def slave_inv_def dest: noc_fifo.deq_items split: option.splits)

lemma slave_get_abs:
  "slave_inv p \<Longrightarrow> slave_get p = Some (r, p') \<Longrightarrow>
     held (sp_rsp p') @ fifo_items (sp_queue_responses p')
       = held (sp_rsp p) @ fifo_items (sp_queue_responses p)
     \<and> fifo_items (sp_queue_requests p) = r # fifo_items (sp_queue_requests p')"
  by (auto simp: slave_get_def slave_inv_def dest: noc_fifo.deq_items)

lemma add_request_abs:
  "slave_inv p \<Longrightarrow> add_request p r = Some p' \<Longrightarrow>
     held (sp_rsp p') @ fifo_items (sp_queue_responses p')
       = held (sp_rsp p) @ fifo_items (sp_queue_responses p)
     \<and> fifo_items (sp_queue_requests p') = fifo_items (sp_queue_requests p) @ [r]"
  by (auto simp: add_request_def slave_inv_def dest: noc_fifo.enq_items)

text \<open>Replacing one port changes the abstract queues of that port only.\<close>

lemma noc_abs_master:
  assumes "i < length (nc_masters n)"
  shows "noc_abs (n\<lparr>nc_masters := (nc_masters n)[i := p]\<rparr>) =
     (noc_abs n)\<lparr>an_req := (an_req (noc_abs n))(i := held (mp_req p) @ fifo_items (mp_queue_requests p)),
                 an_mrsp := (an_mrsp (noc_abs n))(i := fifo_items (mp_queue_responses p))\<rparr>"
  using assms by (auto simp: noc_abs_def fun_eq_iff nth_list_update)

lemma noc_abs_slave:
  assumes "j < length (nc_slaves n)"
  shows "noc_abs (n\<lparr>nc_slaves := (nc_slaves n)[j := p]\<rparr>) =
     (noc_abs n)\<lparr>an_sreq := (an_sreq (noc_abs n))(j := fifo_items (sp_queue_requests p)),
                 an_rsp := (an_rsp (noc_abs n))(j := held (sp_rsp p) @ fifo_items (sp_queue_responses p))\<rparr>"
  using assms by (auto simp: noc_abs_def fun_eq_iff nth_list_update)

lemma noc_abs_both:
  "i < length (nc_masters n) \<Longrightarrow> j < length (nc_slaves n) \<Longrightarrow>
     noc_abs (n\<lparr>nc_masters := (nc_masters n)[i := p], nc_slaves := (nc_slaves n)[j := q]\<rparr>) =
     (noc_abs n)\<lparr>an_req := (an_req (noc_abs n))(i := held (mp_req p) @ fifo_items (mp_queue_requests p)),
                 an_mrsp := (an_mrsp (noc_abs n))(i := fifo_items (mp_queue_responses p)),
                 an_sreq := (an_sreq (noc_abs n))(j := fifo_items (sp_queue_requests q)),
                 an_rsp := (an_rsp (noc_abs n))(j := held (sp_rsp q) @ fifo_items (sp_queue_responses q))\<rparr>"
  by (auto simp: noc_abs_def fun_eq_iff nth_list_update)

lemma noc_abs_at [simp]:
  "an_req (noc_abs n) i = held (mp_req (nc_masters n ! i)) @ fifo_items (mp_queue_requests (nc_masters n ! i))"
  "an_sreq (noc_abs n) j = fifo_items (sp_queue_requests (nc_slaves n ! j))"
  "an_rsp (noc_abs n) j = held (sp_rsp (nc_slaves n ! j)) @ fifo_items (sp_queue_responses (nc_slaves n ! j))"
  "an_mrsp (noc_abs n) i = fifo_items (mp_queue_responses (nc_masters n ! i))"
  by (simp_all add: noc_abs_def)

lemma fun_upd_same: "f x = y \<Longrightarrow> f(x := y) = f"
  by auto

lemma noc_step_refines:
  assumes st: "noc_step n l n'" and v: "noc_inv n"
  shows "anoc_step (noc_maps n) (length (nc_slaves n)) (noc_abs n) l (noc_abs n')"
  using st
proof cases
  case (mput i req p)
  from master_put_abs [OF noc_invD(1) [OF v mput(3)] mput(4)] a_mput [of _ _ "noc_abs n" i req]
  show ?thesis by (simp add: mput(1,2) noc_abs_master [OF mput(3)] fun_upd_same)
next
  case (mtake i p)
  from master_take_abs [OF noc_invD(1) [OF v mtake(3)] mtake(4)] a_mtake [of _ _ "noc_abs n" i]
  show ?thesis by (simp add: mtake(1,2) noc_abs_master [OF mtake(3)] fun_upd_same)
next
  case (sput j rsp p)
  from slave_put_abs [OF noc_invD(2) [OF v sput(3)] sput(4)] a_sput [of j "length (nc_slaves n)" _ "noc_abs n" rsp]
  show ?thesis by (simp add: sput(1-3) noc_abs_slave [OF sput(3)] fun_upd_same)
next
  case (stake j p)
  from slave_take_abs [OF noc_invD(2) [OF v stake(3)] stake(4)] a_stake [of _ _ "noc_abs n" j]
  show ?thesis by (simp add: stake(1,2) noc_abs_slave [OF stake(3)] fun_upd_same)
next
  case (sget j req p)
  note ab = slave_get_abs [OF noc_invD(2) [OF v sget(3)] sget(4)]
  from a_sget [of "noc_abs n" j req "fifo_items (sp_queue_requests p)"] ab
  show ?thesis by (simp add: sget(1,2) noc_abs_slave [OF sget(3)] fun_upd_same)
next
  case (mget i rsp p)
  note ab = master_get_abs [OF noc_invD(1) [OF v mget(3)] mget(4)]
  from a_mget [of "noc_abs n" i rsp "fifo_items (mp_queue_responses p)"] ab
  show ?thesis by (simp add: mget(1,2) noc_abs_master [OF mget(3)] fun_upd_same)
next
  case (mdispatch i)
  from mdispatch(2) show ?thesis
  proof (rule dispatch_requests_SomeD)
    fix p req s req' sp
    assume h: "i < length (nc_masters n)" "p = nc_masters n ! i" "mp_req p = Some req"
      "dispatch_request (mp_map p) (length (nc_slaves n)) req = Inr (s, req')"
      "s < length (nc_slaves n)" "add_request (nc_slaves n ! s) req' = Some sp"
      "n' = n\<lparr>nc_masters := (nc_masters n)[i := p\<lparr>mp_req := None\<rparr>],
              nc_slaves := (nc_slaves n)[s := sp]\<rparr>"
    note ab = add_request_abs [OF noc_invD(2) [OF v h(5)] h(6)]
    from a_mdispatch [of i "noc_maps n" "noc_abs n" req "fifo_items (mp_queue_requests p)"
        "length (nc_slaves n)" s req'] h(1-4)
    show ?thesis
      by (simp add: mdispatch(1) h(7) noc_abs_both [OF h(1,5)] ab fun_upd_same noc_maps_def)
  qed
next
  case (sdispatch j)
  from sdispatch(2) show ?thesis
  proof (rule dispatch_responses_SomeD)
    fix p rsp i mp
    assume h: "j < length (nc_slaves n)" "p = nc_slaves n ! j" "sp_rsp p = Some rsp"
      "i = unat (rs_rsrcid rsp)" "i < length (nc_masters n)"
      "add_response (nc_masters n ! i) rsp = Some mp"
      "n' = n\<lparr>nc_masters := (nc_masters n)[i := mp],
              nc_slaves := (nc_slaves n)[j := p\<lparr>sp_rsp := None\<rparr>]\<rparr>"
    note ab = add_response_abs [OF noc_invD(1) [OF v h(5)] h(6)]
    from a_sdispatch [of j "length (nc_slaves n)" "noc_abs n" rsp "fifo_items (sp_queue_responses p)"
        "noc_maps n" i] h(1-5)
    show ?thesis
      by (simp add: sdispatch(1) h(7) noc_abs_both [OF h(5,1), unfolded h(4)] ab [unfolded h(4)] fun_upd_same noc_maps_def
          get_master_def)
  qed
qed

lemma noc_run_refines:
  assumes "noc_run n tr n'" "noc_inv n"
  shows "anoc_run (noc_maps n) (length (nc_slaves n)) (noc_abs n) tr (noc_abs n')
    \<and> noc_maps n' = noc_maps n"
  using assms
proof (induction rule: noc_run.induct)
  case (run_nil n)
  show ?case by (simp add: arun_nil)
next
  case (run_snoc n tr n' l n'')
  then have v: "noc_inv n'" "length (nc_slaves n') = length (nc_slaves n)"
    using noc_run_inv by auto
  from noc_step_refines [OF run_snoc(2) v(1)] run_snoc noc_step_maps [OF run_snoc(2)] v(2)
  show ?case by (auto intro: arun_snoc)
qed

lemma noc_abs_new:
  assumes "noc_run (interconnect_new maps ns) tr n"
  shows "anoc_run maps ns (noc_abs (interconnect_new maps ns)) tr (noc_abs n)"
proof -
  have "noc_maps (interconnect_new maps ns) = maps" "length (nc_slaves (interconnect_new maps ns)) = ns"
    by (simp_all add: noc_maps_def interconnect_new_def master_port_new_def comp_def)
  then show ?thesis using noc_run_refines [OF assms] by simp
qed

lemma noc_new_queues:
  "i < length maps \<Longrightarrow> an_req (noc_abs (interconnect_new maps ns)) i = []"
  "i < length maps \<Longrightarrow> an_mrsp (noc_abs (interconnect_new maps ns)) i = []"
  "s < ns \<Longrightarrow> an_sreq (noc_abs (interconnect_new maps ns)) s = []"
  "s < ns \<Longrightarrow> an_rsp (noc_abs (interconnect_new maps ns)) s = []"
  by (simp_all add: interconnect_new_def master_port_new_def slave_port_new_def)

subsection \<open>Requests arrive in order, none lost and none made up\<close>

fun mput_of :: "nat \<Rightarrow> noc_label \<Rightarrow> vci_request list" where
  "mput_of i (MPut k r) = (if k = i then [r] else [])"
| "mput_of i _ = []"

fun sget_of :: "nat \<Rightarrow> noc_label \<Rightarrow> vci_request list" where
  "sget_of j (SGet k r) = (if k = j then [r] else [])"
| "sget_of j _ = []"

fun sput_of :: "noc_label \<Rightarrow> vci_response list" where
  "sput_of (SPut k p) = [p]"
| "sput_of _ = []"

fun mget_of :: "nat \<Rightarrow> noc_label \<Rightarrow> vci_response list" where
  "mget_of i (MGet k p) = (if k = i then [p] else [])"
| "mget_of i _ = []"

definition requests_put :: "nat \<Rightarrow> noc_label list \<Rightarrow> vci_request list" where
  "requests_put i tr = concat (map (mput_of i) tr)"

definition requests_got :: "nat \<Rightarrow> noc_label list \<Rightarrow> vci_request list" where
  "requests_got j tr = concat (map (sget_of j) tr)"

definition responses_put :: "noc_label list \<Rightarrow> vci_response list" where
  "responses_put tr = concat (map sput_of tr)"

definition responses_got :: "nat \<Rightarrow> noc_label list \<Rightarrow> vci_response list" where
  "responses_got i tr = concat (map (mget_of i) tr)"

lemmas trace_views = requests_put_def requests_got_def responses_put_def responses_got_def

text \<open>The requests of a list that a map sends to slave \<open>s\<close>, as the slave sees them.\<close>

definition routed :: "map_el list \<Rightarrow> nat \<Rightarrow> nat \<Rightarrow> vci_request list \<Rightarrow> vci_request list" where
  "routed ms ns s rs = concat (map (\<lambda>r. case dispatch_request ms ns r of
      Inr (t, r') \<Rightarrow> if t = s then [r'] else [] | Inl _ \<Rightarrow> []) rs)"

definition from_master :: "nat \<Rightarrow> vci_request list \<Rightarrow> vci_request list" where
  "from_master i rs = filter (\<lambda>r. unat (rq_srcid r) = i) rs"

lemma routed_simps [simp]:
  "routed ms ns s [] = []"
  "routed ms ns s (rs @ rs') = routed ms ns s rs @ routed ms ns s rs'"
  "dispatch_request ms ns r = Inr (t, r') \<Longrightarrow>
     routed ms ns s (r # rs) = (if t = s then r' # routed ms ns s rs else routed ms ns s rs)"
  by (simp_all add: routed_def)

lemma from_master_simps [simp]:
  "from_master i [] = []"
  "from_master i (rs @ rs') = from_master i rs @ from_master i rs'"
  "from_master i (r # rs) = (if unat (rq_srcid r) = i then r # from_master i rs else from_master i rs)"
  by (simp_all add: from_master_def)

text \<open>Each master stamps its requests with its own identifier, as \<open>send_req\<close> does.\<close>

definition own_srcids :: "noc_label list \<Rightarrow> bool" where
  "own_srcids tr \<longleftrightarrow> (\<forall>i r. MPut i r \<in> set tr \<longrightarrow> unat (rq_srcid r) = i)"

definition srcs_ok :: "nat \<Rightarrow> abstract_noc \<Rightarrow> bool" where
  "srcs_ok nm a \<longleftrightarrow> (\<forall>i<nm. \<forall>r\<in>set (an_req a i). unat (rq_srcid r) = i)"

lemma dispatch_request_srcid:
  "dispatch_request ms ns r = Inr (s, r') \<Longrightarrow> rq_srcid r' = rq_srcid r"
  by (auto simp: dispatch_request_def Let_def split: option.splits if_splits)


lemma anoc_step_srcs:
  "anoc_step maps ns a l a' \<Longrightarrow> srcs_ok (length maps) a \<Longrightarrow> own_srcids [l] \<Longrightarrow> srcs_ok (length maps) a'"
  by (erule anoc_step.cases) (auto simp: srcs_ok_def own_srcids_def split: if_splits)

lemma anoc_step_requests:
  assumes st: "anoc_step maps ns a l a'" and src: "srcs_ok (length maps) a"
  shows "from_master i (sget_of s l) @ from_master i (an_sreq a' s) @ routed (maps ! i) ns s (an_req a' i)
       = from_master i (an_sreq a s) @ routed (maps ! i) ns s (an_req a i @ mput_of i l)"
  using st
proof cases
  case (a_mdispatch k r rs t r')
  then have "unat (rq_srcid r) = k" using src by (auto simp: srcs_ok_def)
  with a_mdispatch dispatch_request_srcid [OF a_mdispatch(5)] show ?thesis
    by (auto simp: fun_upd_def)
qed auto

lemma anoc_run_requests:
  assumes "anoc_run maps ns a tr a'" "own_srcids tr" "srcs_ok (length maps) a"
  shows "srcs_ok (length maps) a' \<and>
    from_master i (requests_got s tr) @ from_master i (an_sreq a' s) @ routed (maps ! i) ns s (an_req a' i)
     = from_master i (an_sreq a s) @ routed (maps ! i) ns s (an_req a i @ requests_put i tr)"
  using assms
proof (induction rule: anoc_run.induct)
  case (arun_nil a)
  then show ?case by (simp add: trace_views)
next
  case (arun_snoc a tr a1 l a2)
  from arun_snoc.prems have own: "own_srcids tr" "own_srcids [l]" by (auto simp: own_srcids_def)
  note IH = arun_snoc.IH [OF own(1) arun_snoc.prems(2)]
  then have ok: "srcs_ok (length maps) a1" by simp
  from anoc_step_requests [OF arun_snoc.hyps(2) ok, of i s] IH
    anoc_step_srcs [OF arun_snoc.hyps(2) ok own(2)]
  show ?case by (simp add: trace_views)
qed

subsection \<open>Responses come back to the master that is waiting, each once\<close>

definition rsps_for :: "nat \<Rightarrow> vci_response list \<Rightarrow> vci_response multiset" where
  "rsps_for i ps = mset (filter (\<lambda>p. unat (rs_rsrcid p) = i) ps)"

lemma rsps_for_simps [simp]:
  "rsps_for i [] = {#}"
  "rsps_for i (ps @ qs) = rsps_for i ps + rsps_for i qs"
  "rsps_for i (p # ps) = (if unat (rs_rsrcid p) = i then add_mset p (rsps_for i ps) else rsps_for i ps)"
  by (simp_all add: rsps_for_def)

definition unrouted_for :: "nat \<Rightarrow> nat \<Rightarrow> (nat \<Rightarrow> vci_response list) \<Rightarrow> vci_response multiset" where
  "unrouted_for ns i q = (\<Sum>j<ns. rsps_for i (q j))"

lemma unrouted_for_upd:
  assumes "j < ns"
  shows "unrouted_for ns i (q(j := ps)) + rsps_for i (q j) = unrouted_for ns i q + rsps_for i ps"
proof -
  have "(\<Sum>k\<in>{..<ns} - {j}. rsps_for i ((q(j := ps)) k)) = (\<Sum>k\<in>{..<ns} - {j}. rsps_for i (q k))"
    by (rule sum.cong) auto
  with assms show ?thesis
    by (simp add: unrouted_for_def sum.remove [of "{..<ns}" j])
qed

lemma unrouted_for_pop:
  "j < ns \<Longrightarrow> q j = p # ps \<Longrightarrow>
     unrouted_for ns i q = rsps_for i [p] + unrouted_for ns i (q(j := ps))"
  using unrouted_for_upd [of j ns i q ps] by (simp split: if_splits)

lemma unrouted_for_push:
  "j < ns \<Longrightarrow> unrouted_for ns i (q(j := q j @ [p])) = unrouted_for ns i q + rsps_for i [p]"
  using unrouted_for_upd [of j ns i q "q j @ [p]"] by simp

lemma anoc_step_responses:
  assumes "anoc_step maps ns a l a'"
  shows "mset (mget_of i l) + mset (an_mrsp a' i) + unrouted_for ns i (an_rsp a')
       = rsps_for i (sput_of l) + mset (an_mrsp a i) + unrouted_for ns i (an_rsp a)"
  using assms
proof cases
  case (a_sput j p)
  then show ?thesis by (simp add: unrouted_for_push)
next
  case (a_sdispatch j p ps k)
  then have "unat (rs_rsrcid p) = k" by (simp add: get_master_def split: if_splits)
  with a_sdispatch show ?thesis by (auto simp: unrouted_for_pop [of j ns "an_rsp a", OF a_sdispatch(3,4)])
qed auto

lemma anoc_run_responses:
  assumes "anoc_run maps ns a tr a'"
  shows "mset (responses_got i tr) + mset (an_mrsp a' i) + unrouted_for ns i (an_rsp a')
       = rsps_for i (responses_put tr) + mset (an_mrsp a i) + unrouted_for ns i (an_rsp a)"
  using assms
proof (induction rule: anoc_run.induct)
  case (arun_nil a)
  then show ?case by (simp add: trace_views)
next
  case (arun_snoc a tr a1 l a2)
  have "mset (responses_got i (tr @ [l])) + mset (an_mrsp a2 i) + unrouted_for ns i (an_rsp a2)
      = mset (responses_got i tr) + (mset (mget_of i l) + mset (an_mrsp a2 i) + unrouted_for ns i (an_rsp a2))"
    by (simp add: trace_views)
  also have "\<dots> = (mset (responses_got i tr) + mset (an_mrsp a1 i) + unrouted_for ns i (an_rsp a1))
      + rsps_for i (sput_of l)"
    by (simp add: anoc_step_responses [OF arun_snoc.hyps(2)])
  also have "\<dots> = rsps_for i (responses_put (tr @ [l])) + mset (an_mrsp a i) + unrouted_for ns i (an_rsp a)"
    using arun_snoc.IH by (simp add: trace_views ac_simps)
  finally show ?case .
qed

subsection \<open>Properties of the network\<close>

text \<open>
  Claim C4. Every run of the network from its initial state in which each master stamps its requests with
  its own identifier delivers to slave \<open>s\<close>, from master \<open>i\<close>, exactly the requests of \<open>i\<close>
  that the map of \<open>i\<close> sends to \<open>s\<close>, with the rewritten address, in the order they were put:
  those already taken, those in the slave's queue and those not yet routed are, in this
  order, the whole list, so none is lost, duplicated, reordered or sent elsewhere.
\<close>

theorem noc_requests_in_order:
  assumes "noc_run (interconnect_new maps ns) tr n" "own_srcids tr" "i < length maps" "s < ns"
  shows "from_master i (requests_got s tr)
      @ from_master i (fifo_items (sp_queue_requests (nc_slaves n ! s)))
      @ routed (maps ! i) ns s (held (mp_req (nc_masters n ! i))
          @ fifo_items (mp_queue_requests (nc_masters n ! i)))
    = routed (maps ! i) ns s (requests_put i tr)"
proof -
  let ?a = "noc_abs (interconnect_new maps ns)"
  have "srcs_ok (length maps) ?a" by (simp add: srcs_ok_def noc_new_queues del: noc_abs_at)
  from anoc_run_requests [OF noc_abs_new [OF assms(1)] assms(2) this, of i s]
  show ?thesis using noc_new_queues(1) [OF assms(3), of ns] noc_new_queues(3) [OF assms(4), of maps]
    by simp
qed

text \<open>A network of two masters and two slaves, and a run of one transaction on it.\<close>

definition small_map :: "map_el list" where
  "small_map = [\<lparr>me_slave_id = 0, me_begin_address = 0, me_end_address = 0x1000, me_intern_offset = 0\<rparr>,
     \<lparr>me_slave_id = 1, me_begin_address = 0xC1000000, me_end_address = 0xC1000020, me_intern_offset = 0x10\<rparr>]"

definition small_request :: vci_request where
  "small_request = zero_request\<lparr>rq_address := 0xC1000008, rq_cmd := CMD_READ, rq_srcid := 1\<rparr>"

definition small_request_routed :: vci_request where
  "small_request_routed = small_request\<lparr>rq_initial_address := 0xC1000008, rq_slave_id := 1,
     rq_address := 0x18\<rparr>"

definition small_response :: vci_response where
  "small_response = zero_response\<lparr>rs_rsrcid := 1, rs_reop := True\<rparr>"

definition small_run :: "noc_label list" where
  "small_run = [MPut 1 small_request, MTake 1, MDispatch 1, SGet 1 small_request_routed,
     SPut 1 small_response, MPut 1 small_request, STake 1, SDispatch 1, MGet 1 small_response]"

definition small_end :: interconnect where
  "small_end = the (noc_exec (interconnect_new [small_map, small_map] 2) small_run)"

lemmas small_defs = small_map_def small_request_def small_request_routed_def small_response_def
  small_run_def small_end_def

lemma small_run: "noc_run (interconnect_new [small_map, small_map] 2) small_run small_end"
proof -
  have "noc_exec (interconnect_new [small_map, small_map] 2) small_run \<noteq> None"
    by code_simp
  then show ?thesis by (intro noc_exec_run) (simp add: small_end_def)
qed

theorem noc_requests_in_order_witness:
  "from_master 1 (requests_got 1 small_run)
      @ from_master 1 (fifo_items (sp_queue_requests (nc_slaves small_end ! 1)))
      @ routed small_map 2 1 (held (mp_req (nc_masters small_end ! 1))
          @ fifo_items (mp_queue_requests (nc_masters small_end ! 1)))
    = routed small_map 2 1 (requests_put 1 small_run)
   \<and> requests_got 1 small_run = [small_request_routed]"
proof
  show "requests_got 1 small_run = [small_request_routed]"
    by (simp add: trace_views small_run_def)
  have "own_srcids small_run" by (auto simp: own_srcids_def small_run_def small_request_def)
  from noc_requests_in_order [OF small_run this, of 1 1]
  show "from_master 1 (requests_got 1 small_run)
      @ from_master 1 (fifo_items (sp_queue_requests (nc_slaves small_end ! 1)))
      @ routed small_map 2 1 (held (mp_req (nc_masters small_end ! 1))
          @ fifo_items (mp_queue_requests (nc_masters small_end ! 1)))
    = routed small_map 2 1 (requests_put 1 small_run)" by simp
qed

text \<open>
  Claim C12. In every run each response a slave puts is, at any moment, at exactly one place: taken by the
  master whose identifier it carries, in that master's queue, or not yet routed. So a master
  receives the responses meant for it, each once, and no other.
\<close>

theorem noc_responses_delivered_once:
  assumes "noc_run (interconnect_new maps ns) tr n" "i < length maps"
  shows "mset (responses_got i tr) + mset (fifo_items (mp_queue_responses (nc_masters n ! i)))
      + (\<Sum>j<ns. rsps_for i (held (sp_rsp (nc_slaves n ! j))
          @ fifo_items (sp_queue_responses (nc_slaves n ! j))))
    = rsps_for i (responses_put tr)"
proof -
  let ?a = "noc_abs (interconnect_new maps ns)"
  have "unrouted_for ns i (an_rsp ?a) = {#}"
    by (simp add: unrouted_for_def noc_new_queues del: noc_abs_at)
  with anoc_run_responses [OF noc_abs_new [OF assms(1)], of i] noc_new_queues(2) [OF assms(2), of ns]
  show ?thesis by (simp add: unrouted_for_def)
qed

theorem noc_responses_delivered_once_witness:
  "mset (responses_got 1 small_run) + mset (fifo_items (mp_queue_responses (nc_masters small_end ! 1)))
      + (\<Sum>j<2. rsps_for 1 (held (sp_rsp (nc_slaves small_end ! j))
          @ fifo_items (sp_queue_responses (nc_slaves small_end ! j))))
    = rsps_for 1 (responses_put small_run) \<and> responses_got 1 small_run = [small_response]"
  using noc_responses_delivered_once [OF small_run, of 1]
  by (simp add: trace_views small_run_def)

text \<open>
  Claim C11. The ports, with their ring buffers, their blocking and the item each dispatch thread holds
  across its wait, refine the abstract network of unbounded queues: from the initial state,
  every reachable step is a step of the abstract network on the queues the state stands for.
\<close>

theorem noc_refines_abstract:
  assumes "noc_run (interconnect_new maps ns) tr n" "noc_step n l n'"
  shows "anoc_step maps ns (noc_abs n) l (noc_abs n')"
proof -
  from noc_run_inv [OF assms(1) interconnect_new_inv] have v: "noc_inv n" "length (nc_slaves n) = ns"
    by (simp_all add: interconnect_new_def)
  have "noc_maps n = maps"
    using noc_run_refines [OF assms(1) interconnect_new_inv]
    by (simp add: noc_maps_def interconnect_new_def master_port_new_def comp_def)
  with noc_step_refines [OF assms(2) v(1)] v(2) show ?thesis by simp
qed

theorem noc_refines_abstract_witness:
  "\<exists>n'. anoc_step [small_map, small_map] 2 (noc_abs small_end) (MPut 0 zero_request) (noc_abs n')"
proof -
  have "noc_do small_end (MPut 0 zero_request) \<noteq> None" by code_simp
  then obtain n' where "noc_step small_end (MPut 0 zero_request) n'"
    by (auto simp: noc_do_iff simp del: noc_do.simps)
  from noc_refines_abstract [OF small_run this] show ?thesis by blast
qed

end
