(* ===== verification/Etrace_Samples.thy ===== *)
theory Etrace_Samples
  imports Rabbits_Prelude
begin

text \<open>
  The energy trace (\<^verbatim>\<open>etrace/etrace_if.cpp\<close>), its accounting part: peripherals with a mode and
  a frequency set, each mode change at a time stamp in nanoseconds, and the list of samples
  the consumed energy is spread over. The heap of peripherals is a list, a \<open>periph_t *\<close> the
  number of its cell; the \<open>next\<close> pointers of the peripherals are the list of these numbers in
  the order of the walk, and those of the samples the order of the list of samples. The
  counts \<open>nmodes\<close> and \<open>nfvsets\<close> and the flags are \<open>nat\<close> and \<open>bool\<close>. Allocation succeeds.

  The properties: the walk over the samples returns within a bound read off the time and
  the period, and the energy that one period reports for a peripheral is the
  sum of its power over the intervals between its mode changes.
\<close>

definition MAX_PERIPHERALS :: nat where "MAX_PERIPHERALS = 20"

record periph_class =
  pc_max_energy_ms :: u32
  pc_nmodes :: nat
  pc_nfvsets :: nat
  pc_mode_cost :: "u64 list"

record periph =
  pe_name :: string
  pe_pclass :: periph_class
  pe_group_id :: int
  pe_group_name :: string
  pe_idx :: nat
  pe_last_change_stamp :: u64
  pe_curr_mode :: nat
  pe_curr_fvset :: nat

record per_en =
  en_processed :: bool
  en_energy :: u64

record sample =
  sa_time_stamp :: u64
  sa_per_costs :: "per_en list"

record scope_state =
  sc_sample_period :: u64
  sc_samples_head :: "sample list"
  sc_last_measure_stamp :: u64
  sc_periphs :: "periph list"
  sc_head_periphs :: "nat list"
  sc_nb_periphs :: nat
  sc_nb_groups :: int
  sc_max_energy_ms :: u32

definition sample_new :: "scope_state \<Rightarrow> u64 \<Rightarrow> sample" where
  "sample_new sc prev_stamp =
     \<lparr>sa_time_stamp = prev_stamp + sc_sample_period sc,
      sa_per_costs = replicate MAX_PERIPHERALS \<lparr>en_processed = False, en_energy = 0\<rparr>\<rparr>"

text \<open>The cost of the current mode, an entry of the table of the class.\<close>

definition curr_mode_cost :: "periph \<Rightarrow> u64 res" where
  "curr_mode_cost p = rd (pc_mode_cost (pe_pclass p))
     (pc_nmodes (pe_pclass p) * pe_curr_fvset p + pe_curr_mode p)"

subsection \<open>Spreading the energy of a mode over the samples\<close>

text \<open>
  The recursive walk of \<open>__r_update_samples\<close>. Fuel stands for the stack; \<open>samples_fuel\<close> below
  is enough of it whenever the walk is finite.
\<close>

fun r_update_samples :: "nat \<Rightarrow> scope_state \<Rightarrow> sample list \<Rightarrow> periph \<Rightarrow> u64 \<Rightarrow> u64 \<Rightarrow> sample list res" where
  "r_update_samples 0 sc samples p time last_time = Inl Livelock"
| "r_update_samples (Suc n) sc samples p time last_time =
     (if last_time < time then
        bindr (curr_mode_cost p) (\<lambda>mode_cost.
        let s = (case samples of [] \<Rightarrow> sample_new sc last_time | x # xs \<Rightarrow> x);
            nxt = (case samples of [] \<Rightarrow> [] | x # xs \<Rightarrow> xs) in
        bindr (rd (sa_per_costs s) (pe_idx p)) (\<lambda>en.
        if sa_time_stamp s < pe_last_change_stamp p then
          bindr (r_update_samples n sc nxt p time (sa_time_stamp s)) (\<lambda>nxt.
          Inr (s\<lparr>sa_per_costs := (sa_per_costs s)[pe_idx p := en\<lparr>en_processed := True\<rparr>]\<rparr> # nxt))
        else
          let begin_stamp = (if last_time < pe_last_change_stamp p then pe_last_change_stamp p else last_time);
              end_stamp = (if sa_time_stamp s < time then sa_time_stamp s else time);
              s' = s\<lparr>sa_per_costs := (sa_per_costs s)[pe_idx p :=
                     \<lparr>en_processed = True, en_energy = en_energy en + (end_stamp - begin_stamp) * mode_cost\<rparr>]\<rparr> in
          bindr (if sa_time_stamp s < time then r_update_samples n sc nxt p time (sa_time_stamp s)
                 else Inr nxt) (\<lambda>nxt. Inr (s' # nxt))))
      else Inr samples)"

definition samples_fuel :: "scope_state \<Rightarrow> sample list \<Rightarrow> u64 \<Rightarrow> nat" where
  "samples_fuel sc samples time = length samples + unat (time div sc_sample_period sc) + 2"

definition update_samples :: "scope_state \<Rightarrow> periph \<Rightarrow> u64 \<Rightarrow> scope_state res" where
  "update_samples sc p time =
     bindr (r_update_samples (samples_fuel sc (sc_samples_head sc) time) sc (sc_samples_head sc) p time
       (sc_last_measure_stamp sc)) (\<lambda>ss. Inr (sc\<lparr>sc_samples_head := ss\<rparr>))"

subsection \<open>Mode changes\<close>

definition new_mode :: "u32 \<Rightarrow> nat" where "new_mode m = unat (m AND 0x1F)"
definition new_fvset :: "u32 \<Rightarrow> nat" where "new_fvset m = unat (drop_bit 5 m AND 0x07)"

definition ETRACE_CPU_IDLE :: u32 where "ETRACE_CPU_IDLE = 0"
definition ETRACE_CPU_RUNNING :: u32 where "ETRACE_CPU_RUNNING = 1"

definition ETRACE_MODE :: "u32 \<Rightarrow> u32 \<Rightarrow> u32" where
  "ETRACE_MODE m fvset = push_bit 5 fvset OR m"

text \<open>The three error messages leave the state as it is.\<close>

definition etrace_if_mode_change :: "scope_state \<Rightarrow> nat \<Rightarrow> u32 \<Rightarrow> u64 \<Rightarrow> scope_state res" where
  "etrace_if_mode_change sc h m time_stamp =
     bindr (rd (sc_periphs sc) h) (\<lambda>p.
     if pc_nmodes (pe_pclass p) \<le> new_mode m then Inr sc
     else if pc_nfvsets (pe_pclass p) \<le> new_fvset m then Inr sc
     else if time_stamp < pe_last_change_stamp p then Inr sc
     else
       bindr (if pe_last_change_stamp p < time_stamp then update_samples sc p time_stamp else Inr sc) (\<lambda>sc.
       Inr (sc\<lparr>sc_periphs := (sc_periphs sc)[h := p\<lparr>pe_curr_mode := new_mode m,
              pe_curr_fvset := new_fvset m, pe_last_change_stamp := time_stamp\<rparr>]\<rparr>)))"

subsection \<open>Taking a sample\<close>

text \<open>The loop of \<open>get_sample\<close>; the first test of its condition, on unsigned numbers, always holds.\<close>

fun charge_periphs :: "scope_state \<Rightarrow> u64 \<Rightarrow> nat list \<Rightarrow> sample \<Rightarrow> sample res" where
  "charge_periphs sc time [] s = Inr s"
| "charge_periphs sc time (h # hs) s =
     bindr (rd (sc_periphs sc) h) (\<lambda>p.
     bindr (curr_mode_cost p) (\<lambda>cost.
     bindr (rd (sa_per_costs s) (pe_idx p)) (\<lambda>en.
     let update_en = (if time - pe_last_change_stamp p < sc_sample_period sc
                      then cost * (time - pe_last_change_stamp p)
                      else if \<not> en_processed en then cost * sc_sample_period sc else 0) in
     charge_periphs sc time hs
       (s\<lparr>sa_per_costs := (sa_per_costs s)[pe_idx p := en\<lparr>en_energy := en_energy en + update_en\<rparr>]\<rparr>))))"

definition get_sample :: "scope_state \<Rightarrow> u64 \<Rightarrow> (sample option \<times> scope_state) res" where
  "get_sample sc time =
     (let samp = (case sc_samples_head sc of [] \<Rightarrow> sample_new sc (sc_last_measure_stamp sc) | x # xs \<Rightarrow> x);
          nxt = (case sc_samples_head sc of [] \<Rightarrow> [] | x # xs \<Rightarrow> xs) in
      if sa_time_stamp samp \<noteq> time then Inr (None, sc)
      else bindr (charge_periphs sc time (sc_head_periphs sc) samp) (\<lambda>samp.
        Inr (Some samp, sc\<lparr>sc_samples_head := nxt, sc_last_measure_stamp := sa_time_stamp samp\<rparr>)))"

subsection \<open>The walk over the samples ends\<close>

definition cost_ok :: "periph \<Rightarrow> bool" where
  "cost_ok p \<longleftrightarrow> pe_curr_mode p < pc_nmodes (pe_pclass p) \<and> pe_curr_fvset p < pc_nfvsets (pe_pclass p)
     \<and> pc_nmodes (pe_pclass p) * pc_nfvsets (pe_pclass p) \<le> length (pc_mode_cost (pe_pclass p))"

definition cost_of :: "periph \<Rightarrow> u64" where
  "cost_of p = pc_mode_cost (pe_pclass p) ! (pc_nmodes (pe_pclass p) * pe_curr_fvset p + pe_curr_mode p)"

lemma curr_mode_cost_ok [simp]: "cost_ok p \<Longrightarrow> curr_mode_cost p = Inr (cost_of p)"
proof -
  assume ok: "cost_ok p"
  let ?n = "pc_nmodes (pe_pclass p)" and ?f = "pe_curr_fvset p" and ?m = "pe_curr_mode p"
  have "?n * ?f + ?m < ?n * (?f + 1)" using ok by (simp add: cost_ok_def)
  also have "\<dots> \<le> ?n * pc_nfvsets (pe_pclass p)"
    using ok by (intro mult_le_mono2) (simp add: cost_ok_def)
  also have "\<dots> \<le> length (pc_mode_cost (pe_pclass p))" using ok by (simp add: cost_ok_def)
  finally show ?thesis by (simp add: curr_mode_cost_def cost_of_def)
qed

lemma div_step:
  fixes t l P :: nat
  assumes "0 < P" "l + P < t" shows "(t - (l + P)) div P < (t - l) div P"
proof -
  obtain k where k: "t = l + P + k" using assms(2) less_imp_add_positive by blast
  have "(t - l) div P = (k + P) div P" "(t - (l + P)) div P = k div P" by (simp_all add: k add.commute)
  then show ?thesis using div_add_self2 [of P k] assms(1) by simp
qed

lemma new_stamp_no_wrap:
  fixes l P t :: u64
  assumes "unat t + unat P < 2 ^ 64" "l < t" shows "unat (l + P) = unat l + unat P"
proof -
  have "unat l < unat t" using assms(2) by (simp add: word_less_nat_alt)
  then show ?thesis using assms(1) by (simp add: unat_word_ariths)
qed

text \<open>One cell of the walk, and the cell made at the end of the list.\<close>

lemma r_update_samples_Cons:
  assumes "cost_ok p" "pe_idx p < length (sa_per_costs s)" "r_update_samples n sc nxt p time (sa_time_stamp s) = Inr ss"
  shows "\<exists>ss. r_update_samples (Suc n) sc (s # nxt) p time last_time = Inr ss"
  using assms by (simp add: Let_def)

lemma r_update_samples_Nil:
  "r_update_samples (Suc n) sc [] p time last_time =
     (if last_time < time then r_update_samples (Suc n) sc [sample_new sc last_time] p time last_time else Inr [])"
  by simp

lemma r_update_samples_stop: "\<not> last_time < time \<Longrightarrow> r_update_samples (Suc n) sc ss p time last_time = Inr ss"
  by simp

lemma sample_new_simps [simp]:
  "sa_time_stamp (sample_new sc l) = l + sc_sample_period sc"
  "length (sa_per_costs (sample_new sc l)) = MAX_PERIPHERALS"
  "i < MAX_PERIPHERALS \<Longrightarrow> sa_per_costs (sample_new sc l) ! i = \<lparr>en_processed = False, en_energy = 0\<rparr>"
  by (simp_all add: sample_new_def)

lemma r_update_samples_tail:
  assumes "cost_ok p" "pe_idx p < MAX_PERIPHERALS" "0 < sc_sample_period sc"
    and "unat time + unat (sc_sample_period sc) < 2 ^ 64"
    and "(unat time - unat last_time) div unat (sc_sample_period sc) + 2 \<le> n"
  shows "\<exists>ss. r_update_samples n sc [] p time last_time = Inr ss"
  using assms(5)
proof (induction n arbitrary: last_time)
  case (Suc n)
  let ?P = "sc_sample_period sc"
  obtain k where k: "n = Suc k" using Suc.prems by (cases n) auto
  have P: "0 < unat ?P" using assms(3) by (simp add: word_less_nat_alt)
  show ?case
  proof (cases "last_time < time")
    case True
    have st: "unat (last_time + ?P) = unat last_time + unat ?P"
      using new_stamp_no_wrap assms(4) True by blast
    have "\<exists>ss. r_update_samples n sc [] p time (last_time + ?P) = Inr ss"
    proof (cases "last_time + ?P < time")
      case False
      then show ?thesis unfolding k using r_update_samples_stop by blast
    next
      case True
      then have "unat last_time + unat ?P < unat time" by (simp add: word_less_nat_alt st)
      from div_step [OF P this] show ?thesis using Suc.prems by (intro Suc.IH) (simp add: st)
    qed
    then obtain ss where "r_update_samples n sc [] p time (sa_time_stamp (sample_new sc last_time)) = Inr ss"
      by auto
    from r_update_samples_Cons [OF assms(1) _ this] show ?thesis
      using True assms(2) by (simp only: r_update_samples_Nil [of n] sample_new_simps if_True)
  qed (use r_update_samples_stop in blast)
qed simp

lemma r_update_samples_total:
  assumes "cost_ok p" "pe_idx p < MAX_PERIPHERALS" "0 < sc_sample_period sc"
    and "unat time + unat (sc_sample_period sc) < 2 ^ 64"
    and "\<forall>s\<in>set samples. pe_idx p < length (sa_per_costs s)"
    and "length samples + unat time div unat (sc_sample_period sc) + 2 \<le> n"
  shows "\<exists>ss. r_update_samples n sc samples p time last_time = Inr ss"
  using assms(5,6)
proof (induction samples arbitrary: n last_time)
  case Nil
  have "(unat time - unat last_time) div unat (sc_sample_period sc) \<le> unat time div unat (sc_sample_period sc)"
    by (intro div_le_mono) simp
  then show ?case using Nil assms(1-4) by (intro r_update_samples_tail) simp_all
next
  case (Cons s samples)
  then obtain k where n: "n = Suc k" by (cases n) auto
  then obtain ss where "r_update_samples k sc samples p time (sa_time_stamp s) = Inr ss"
    using Cons.IH [of k] Cons.prems by fastforce
  then show ?case using r_update_samples_Cons [OF assms(1)] Cons.prems unfolding n by simp
qed

subsection \<open>The energy of one period\<close>

text \<open>
  The specification: between two mode changes a peripheral consumes the cost of its mode per
  nanosecond, and a change to a mode or a frequency set its class does not have is ignored.
\<close>

definition set_mode :: "u32 \<Rightarrow> periph \<Rightarrow> periph" where
  "set_mode m p = (if new_mode m < pc_nmodes (pe_pclass p) \<and> new_fvset m < pc_nfvsets (pe_pclass p)
     then p\<lparr>pe_curr_mode := new_mode m, pe_curr_fvset := new_fvset m\<rparr> else p)"

fun window_energy :: "periph \<Rightarrow> u64 \<Rightarrow> u64 \<Rightarrow> (u32 \<times> u64) list \<Rightarrow> u64" where
  "window_energy p b e [] = (e - b) * cost_of p"
| "window_energy p b e ((m, t) # cs) = (t - b) * cost_of p + window_energy (set_mode m p) t e cs"

fun mode_changes :: "scope_state \<Rightarrow> (nat \<times> u32 \<times> u64) list \<Rightarrow> scope_state res" where
  "mode_changes sc [] = Inr sc"
| "mode_changes sc ((h, m, t) # cs) = bindr (etrace_if_mode_change sc h m t) (\<lambda>sc. mode_changes sc cs)"

definition changes_of :: "nat \<Rightarrow> (nat \<times> u32 \<times> u64) list \<Rightarrow> (u32 \<times> u64) list" where
  "changes_of h cs = map snd (filter (\<lambda>c. fst c = h) cs)"

lemma changes_of_simps [simp]:
  "changes_of h [] = []" "changes_of h ((h', c) # cs) = (if h' = h then c # changes_of h cs else changes_of h cs)"
  by (simp_all add: changes_of_def)

text \<open>The sample that holds the current period, and its end.\<close>

definition cur_sample :: "scope_state \<Rightarrow> sample" where
  "cur_sample sc = (case sc_samples_head sc of [] \<Rightarrow> sample_new sc (sc_last_measure_stamp sc) | s # ss \<Rightarrow> s)"

abbreviation window_end :: "scope_state \<Rightarrow> u64" where
  "window_end sc \<equiv> sc_last_measure_stamp sc + sc_sample_period sc"

definition periph_at :: "scope_state \<Rightarrow> nat \<Rightarrow> periph" where
  "periph_at sc h = sc_periphs sc ! h"

definition sample_en :: "scope_state \<Rightarrow> nat \<Rightarrow> per_en" where
  "sample_en sc h = sa_per_costs (cur_sample sc) ! pe_idx (periph_at sc h)"

definition scope_wf :: "scope_state \<Rightarrow> bool" where
  "scope_wf sc \<longleftrightarrow> 0 < sc_sample_period sc \<and> distinct (sc_head_periphs sc)
     \<and> (\<forall>h\<in>set (sc_head_periphs sc). h < length (sc_periphs sc) \<and> cost_ok (periph_at sc h)
          \<and> pe_idx (periph_at sc h) < MAX_PERIPHERALS)
     \<and> inj_on (\<lambda>h. pe_idx (periph_at sc h)) (set (sc_head_periphs sc))"

text \<open>Within a period: one sample at most, and what it says of each peripheral.\<close>

definition window_inv :: "scope_state \<Rightarrow> u64 \<Rightarrow> bool" where
  "window_inv sc now \<longleftrightarrow> scope_wf sc \<and> tl (sc_samples_head sc) = []
     \<and> sa_time_stamp (cur_sample sc) = window_end sc \<and> length (sa_per_costs (cur_sample sc)) = MAX_PERIPHERALS
     \<and> (\<forall>h\<in>set (sc_head_periphs sc).
          pe_last_change_stamp (periph_at sc h) \<le> now
          \<and> (if en_processed (sample_en sc h) then sc_last_measure_stamp sc < pe_last_change_stamp (periph_at sc h)
             else en_energy (sample_en sc h) = 0
               \<and> pe_last_change_stamp (periph_at sc h) \<le> sc_last_measure_stamp sc))"

definition charged_from :: "scope_state \<Rightarrow> nat \<Rightarrow> u64" where
  "charged_from sc h = (if sc_last_measure_stamp sc < pe_last_change_stamp (periph_at sc h)
     then pe_last_change_stamp (periph_at sc h) else sc_last_measure_stamp sc)"

lemma window_energy_split: "window_energy p b e cs = (t - b) * cost_of p + window_energy p t e cs"
proof (cases cs)
  case Nil
  then show ?thesis by (simp add: algebra_simps)
next
  case (Cons c cs')
  then show ?thesis by (cases c) (simp add: algebra_simps)
qed

lemma cost_ok_set_mode [simp]: "cost_ok p \<Longrightarrow> cost_ok (set_mode m p)"
  by (simp add: cost_ok_def set_mode_def)

lemma set_mode_same [simp]:
  "pe_idx (set_mode m p) = pe_idx p" "pe_last_change_stamp (set_mode m p) = pe_last_change_stamp p"
  by (simp_all add: set_mode_def)

lemma cost_of_last_change [simp]: "cost_of (p\<lparr>pe_last_change_stamp := t\<rparr>) = cost_of p"
  by (simp add: cost_of_def)

lemma cost_ok_last_change [simp]: "cost_ok (p\<lparr>pe_last_change_stamp := t\<rparr>) = cost_ok p"
  by (simp add: cost_ok_def)

lemma set_mode_last_change: "set_mode m (p\<lparr>pe_last_change_stamp := t\<rparr>) = (set_mode m p)\<lparr>pe_last_change_stamp := t\<rparr>"
  by (simp add: set_mode_def)

lemma window_energy_last_change [simp]:
  "window_energy (p\<lparr>pe_last_change_stamp := t\<rparr>) b e cs = window_energy p b e cs"
  by (induction cs arbitrary: p b) (auto simp: set_mode_last_change)

lemma update_samples_window:
  assumes "tl (sc_samples_head sc) = []" "sa_time_stamp (cur_sample sc) = window_end sc"
    and "length (sa_per_costs (cur_sample sc)) = MAX_PERIPHERALS"
    and "cost_ok p" "pe_idx p < MAX_PERIPHERALS" "pe_last_change_stamp p < t" "t \<le> window_end sc"
  shows "update_samples sc p t = Inr (if sc_last_measure_stamp sc < t
    then sc\<lparr>sc_samples_head := [(cur_sample sc)\<lparr>sa_per_costs := (sa_per_costs (cur_sample sc))[pe_idx p :=
        \<lparr>en_processed = True, en_energy = en_energy (sa_per_costs (cur_sample sc) ! pe_idx p)
          + (t - (if sc_last_measure_stamp sc < pe_last_change_stamp p then pe_last_change_stamp p
                  else sc_last_measure_stamp sc)) * cost_of p\<rparr>]\<rparr>]\<rparr>
    else sc)"
proof -
  have e: "\<not> window_end sc < t" "\<not> window_end sc < pe_last_change_stamp p" using assms(6,7) by auto
  have fuel: "samples_fuel sc (sc_samples_head sc) t
      = Suc (Suc (length (sc_samples_head sc) + unat (t div sc_sample_period sc)))"
    by (simp add: samples_fuel_def)
  have cell: "r_update_samples (Suc n) sc [cur_sample sc] p t (sc_last_measure_stamp sc) = Inr
      [(cur_sample sc)\<lparr>sa_per_costs := (sa_per_costs (cur_sample sc))[pe_idx p :=
        \<lparr>en_processed = True, en_energy = en_energy (sa_per_costs (cur_sample sc) ! pe_idx p)
          + (t - (if sc_last_measure_stamp sc < pe_last_change_stamp p then pe_last_change_stamp p
                  else sc_last_measure_stamp sc)) * cost_of p\<rparr>]\<rparr>]"
    if "sc_last_measure_stamp sc < t" for n
    using that assms(2-5) e by (simp add: Let_def)
  show ?thesis
  proof (cases "sc_last_measure_stamp sc < t")
    case True
    have "r_update_samples (Suc n) sc (sc_samples_head sc) p t (sc_last_measure_stamp sc)
        = r_update_samples (Suc n) sc [cur_sample sc] p t (sc_last_measure_stamp sc)" for n
    proof (cases "sc_samples_head sc")
      case Nil
      then show ?thesis unfolding cur_sample_def Nil by (simp only: r_update_samples_Nil True if_True list.case)
    next
      case (Cons s ss)
      then show ?thesis using assms(1) by (simp add: cur_sample_def)
    qed
    then show ?thesis using True cell [OF True] unfolding update_samples_def fuel
      by (simp only: bindr_simps if_True)
  next
    case False
    then show ?thesis unfolding update_samples_def fuel
      by (simp only: r_update_samples_stop [OF False] bindr_simps if_False) simp
  qed
qed

lemma scope_wf_update_periph:
  assumes "scope_wf sc" "h \<in> set (sc_head_periphs sc)" "cost_ok p'" "pe_idx p' = pe_idx (periph_at sc h)"
  shows "scope_wf (sc\<lparr>sc_samples_head := ss, sc_periphs := (sc_periphs sc)[h := p']\<rparr>)"
proof -
  let ?sc' = "sc\<lparr>sc_samples_head := ss, sc_periphs := (sc_periphs sc)[h := p']\<rparr>"
  have "pe_idx (periph_at ?sc' k) = pe_idx (periph_at sc k)" if "k \<in> set (sc_head_periphs sc)" for k
    using assms that by (cases "k = h") (auto simp: periph_at_def scope_wf_def)
  moreover have "cost_ok (periph_at ?sc' k)" if "k \<in> set (sc_head_periphs sc)" for k
    using assms that by (cases "k = h") (auto simp: periph_at_def scope_wf_def)
  moreover have "inj_on (\<lambda>k. pe_idx (periph_at ?sc' k)) (set (sc_head_periphs sc))"
    using assms(1) calculation(1) by (simp add: scope_wf_def inj_on_def)
  ultimately show ?thesis using assms(1) by (simp add: scope_wf_def)
qed

lemma window_invI:
  assumes "scope_wf sc" "tl (sc_samples_head sc) = []" "sa_time_stamp (cur_sample sc) = window_end sc"
    and "length (sa_per_costs (cur_sample sc)) = MAX_PERIPHERALS"
    and "\<And>h. h \<in> set (sc_head_periphs sc) \<Longrightarrow> pe_last_change_stamp (periph_at sc h) \<le> now"
    and "\<And>h. h \<in> set (sc_head_periphs sc) \<Longrightarrow> en_processed (sample_en sc h)
      \<Longrightarrow> sc_last_measure_stamp sc < pe_last_change_stamp (periph_at sc h)"
    and "\<And>h. h \<in> set (sc_head_periphs sc) \<Longrightarrow> \<not> en_processed (sample_en sc h)
      \<Longrightarrow> en_energy (sample_en sc h) = 0 \<and> pe_last_change_stamp (periph_at sc h) \<le> sc_last_measure_stamp sc"
  shows "window_inv sc now"
  using assms by (simp add: window_inv_def)

text \<open>The state after a change to a mode that exists, the time since the last one charged or not.\<close>

definition charges :: "scope_state \<Rightarrow> nat \<Rightarrow> u64 \<Rightarrow> bool" where
  "charges sc h t \<longleftrightarrow> pe_last_change_stamp (periph_at sc h) < t \<and> sc_last_measure_stamp sc < t"

definition charged_en :: "scope_state \<Rightarrow> nat \<Rightarrow> u64 \<Rightarrow> per_en" where
  "charged_en sc h t = \<lparr>en_processed = True,
     en_energy = en_energy (sample_en sc h) + (t - charged_from sc h) * cost_of (periph_at sc h)\<rparr>"

definition retune :: "scope_state \<Rightarrow> nat \<Rightarrow> u32 \<Rightarrow> u64 \<Rightarrow> scope_state" where
  "retune sc h m t = sc\<lparr>sc_samples_head := (if charges sc h t
       then [(cur_sample sc)\<lparr>sa_per_costs := (sa_per_costs (cur_sample sc))[pe_idx (periph_at sc h) := charged_en sc h t]\<rparr>]
       else sc_samples_head sc),
     sc_periphs := (sc_periphs sc)[h := (set_mode m (periph_at sc h))\<lparr>pe_last_change_stamp := t\<rparr>]\<rparr>"

lemma retune_fields [simp]:
  "sc_head_periphs (retune sc h m t) = sc_head_periphs sc"
  "sc_last_measure_stamp (retune sc h m t) = sc_last_measure_stamp sc"
  "sc_sample_period (retune sc h m t) = sc_sample_period sc"
  by (simp_all add: retune_def)

lemma mode_change_run:
  assumes inv: "window_inv sc now" and h: "h \<in> set (sc_head_periphs sc)"
    and t: "pe_last_change_stamp (periph_at sc h) \<le> t" "t \<le> window_end sc"
  shows "etrace_if_mode_change sc h m t = Inr
    (if new_mode m < pc_nmodes (pe_pclass (periph_at sc h)) \<and> new_fvset m < pc_nfvsets (pe_pclass (periph_at sc h))
     then retune sc h m t else sc)"
proof -
  let ?p = "periph_at sc h"
  note wf = inv [unfolded window_inv_def]
  have hl: "h < length (sc_periphs sc)" "cost_ok ?p" "pe_idx ?p < MAX_PERIPHERALS"
    using wf h by (auto simp: scope_wf_def)
  have "rd (sc_periphs sc) h = Inr ?p" using hl(1) by (simp add: periph_at_def)
  then show ?thesis using hl wf t
    by (auto simp: etrace_if_mode_change_def update_samples_window retune_def set_mode_def charges_def
      charged_en_def charged_from_def sample_en_def)
qed

lemma retune_periph:
  assumes "window_inv sc now" "h \<in> set (sc_head_periphs sc)"
  shows "periph_at (retune sc h m t) k
    = (if k = h then (set_mode m (periph_at sc h))\<lparr>pe_last_change_stamp := t\<rparr> else periph_at sc k)"
  using assms by (auto simp: window_inv_def scope_wf_def periph_at_def retune_def)

lemma retune_cur_sample:
  "cur_sample (retune sc h m t) = (if charges sc h t
     then (cur_sample sc)\<lparr>sa_per_costs := (sa_per_costs (cur_sample sc))[pe_idx (periph_at sc h) := charged_en sc h t]\<rparr>
     else cur_sample sc)"
  by (simp add: cur_sample_def retune_def sample_new_def split: list.split)

lemma retune_sample_en:
  assumes "window_inv sc now" "h \<in> set (sc_head_periphs sc)" "k \<in> set (sc_head_periphs sc)"
  shows "sample_en (retune sc h m t) k = (if k = h \<and> charges sc h t then charged_en sc h t else sample_en sc k)"
proof -
  have "pe_idx (periph_at sc k) = pe_idx (periph_at sc h) \<longleftrightarrow> k = h"
    using assms by (auto simp: window_inv_def scope_wf_def inj_on_def)
  moreover have "pe_idx (periph_at sc h) < length (sa_per_costs (cur_sample sc))"
    using assms by (simp add: window_inv_def scope_wf_def)
  ultimately show ?thesis by (auto simp: sample_en_def retune_cur_sample retune_periph [OF assms(1,2)])
qed

lemma retune_charged_from:
  assumes "window_inv sc now" "h \<in> set (sc_head_periphs sc)"
    and "pe_last_change_stamp (periph_at sc h) \<le> t" "sc_last_measure_stamp sc \<le> t"
  shows "charged_from (retune sc h m t) k = (if k = h then t else charged_from sc k)"
    and "\<not> charges sc h t \<Longrightarrow> charged_from sc h = t"
  using assms(3,4) by (auto simp: charged_from_def charges_def retune_periph [OF assms(1,2)])

lemma retune_inv:
  assumes inv: "window_inv sc now" and h: "h \<in> set (sc_head_periphs sc)"
    and t: "now \<le> t" "sc_last_measure_stamp sc \<le> t"
  shows "window_inv (retune sc h m t) t"
proof -
  note wf = inv [unfolded window_inv_def]
  have lc: "pe_last_change_stamp (periph_at sc h) \<le> t" using wf h t(1) order_trans by blast
  have "scope_wf (retune sc h m t)"
    unfolding retune_def by (rule scope_wf_update_periph) (use wf h in \<open>auto simp: scope_wf_def\<close>)
  then show ?thesis
  proof (rule window_invI)
    show "tl (sc_samples_head (retune sc h m t)) = []" using wf by (simp add: retune_def)
    show "sa_time_stamp (cur_sample (retune sc h m t)) = window_end (retune sc h m t)"
      "length (sa_per_costs (cur_sample (retune sc h m t))) = MAX_PERIPHERALS"
      using wf by (simp_all add: retune_cur_sample)
    fix k assume k: "k \<in> set (sc_head_periphs (retune sc h m t))"
    then have k': "k \<in> set (sc_head_periphs sc)" by simp
    note en = retune_sample_en [OF inv h k', of m t]
    show "pe_last_change_stamp (periph_at (retune sc h m t) k) \<le> t"
      using wf t(1) k' by (auto simp: retune_periph [OF inv h])
    show "sc_last_measure_stamp (retune sc h m t) < pe_last_change_stamp (periph_at (retune sc h m t) k)"
      if "en_processed (sample_en (retune sc h m t) k)"
      using that wf lc k' by (auto simp: en retune_periph [OF inv h] charges_def split: if_splits)
    show "en_energy (sample_en (retune sc h m t) k) = 0
        \<and> pe_last_change_stamp (periph_at (retune sc h m t) k) \<le> sc_last_measure_stamp (retune sc h m t)"
      if "\<not> en_processed (sample_en (retune sc h m t) k)"
      using that wf lc t(2) k'
      by (auto simp: en retune_periph [OF inv h] charges_def charged_en_def split: if_splits)
  qed
qed

lemma mode_change_window:
  assumes inv: "window_inv sc now" and h: "h \<in> set (sc_head_periphs sc)"
    and t: "now \<le> t" "sc_last_measure_stamp sc \<le> t" "t \<le> window_end sc"
  shows "\<exists>sc'. etrace_if_mode_change sc h m t = Inr sc' \<and> window_inv sc' t
    \<and> sc_head_periphs sc' = sc_head_periphs sc \<and> sc_last_measure_stamp sc' = sc_last_measure_stamp sc
    \<and> sc_sample_period sc' = sc_sample_period sc
    \<and> (\<forall>k\<in>set (sc_head_periphs sc). \<forall>cs.
         en_energy (sample_en sc' k) + window_energy (periph_at sc' k) (charged_from sc' k) (window_end sc) cs
         = en_energy (sample_en sc k) + window_energy (periph_at sc k) (charged_from sc k) (window_end sc)
             (if k = h then (m, t) # cs else cs))"
proof -
  let ?p = "periph_at sc h"
  have lc: "pe_last_change_stamp ?p \<le> t"
    using inv h t(1) order_trans unfolding window_inv_def by blast
  note run = mode_change_run [OF inv h lc t(3), of m]
  show ?thesis
  proof (cases "new_mode m < pc_nmodes (pe_pclass ?p) \<and> new_fvset m < pc_nfvsets (pe_pclass ?p)")
    case False
    then have "set_mode m ?p = ?p" by (auto simp: set_mode_def)
    then have "window_energy ?p b e cs = window_energy ?p b e ((m, t) # cs)" for b e cs
      using window_energy_split [of ?p b e cs t] by simp
    moreover have "window_inv sc t" using inv t(1) unfolding window_inv_def by (metis order_trans)
    ultimately show ?thesis using run False by auto
  next
    case True
    have "en_energy (sample_en (retune sc h m t) k) + window_energy (periph_at (retune sc h m t) k)
        (charged_from (retune sc h m t) k) (window_end sc) cs
      = en_energy (sample_en sc k) + window_energy (periph_at sc k) (charged_from sc k) (window_end sc)
          (if k = h then (m, t) # cs else cs)" if "k \<in> set (sc_head_periphs sc)" for k cs
      using retune_charged_from(2) [OF inv h lc t(2)]
      by (cases "k = h"; cases "charges sc h t")
        (auto simp: retune_sample_en [OF inv h that] retune_sample_en [OF inv h h] retune_periph [OF inv h]
          retune_charged_from(1) [OF inv h lc t(2)] charged_en_def algebra_simps)
    then show ?thesis using run True retune_inv [OF inv h t(1,2)] by (auto intro!: exI [of _ "retune sc h m t"])
  qed
qed

text \<open>What the loop of \<open>get_sample\<close> adds for one peripheral.\<close>

definition update_en :: "scope_state \<Rightarrow> u64 \<Rightarrow> periph \<Rightarrow> per_en \<Rightarrow> u64" where
  "update_en sc time p en = (if time - pe_last_change_stamp p < sc_sample_period sc
     then cost_of p * (time - pe_last_change_stamp p)
     else if \<not> en_processed en then cost_of p * sc_sample_period sc else 0)"

lemma charge_periphs_result:
  assumes "distinct hs" "inj_on (\<lambda>h. pe_idx (periph_at sc h)) (set hs)"
    and "\<forall>h\<in>set hs. h < length (sc_periphs sc) \<and> cost_ok (periph_at sc h)
      \<and> pe_idx (periph_at sc h) < length (sa_per_costs s)"
  shows "\<exists>s'. charge_periphs sc time hs s = Inr s' \<and> sa_time_stamp s' = sa_time_stamp s
    \<and> length (sa_per_costs s') = length (sa_per_costs s)
    \<and> (\<forall>i. i \<notin> (\<lambda>h. pe_idx (periph_at sc h)) ` set hs \<longrightarrow> sa_per_costs s' ! i = sa_per_costs s ! i)
    \<and> (\<forall>h\<in>set hs. let i = pe_idx (periph_at sc h) in en_energy (sa_per_costs s' ! i)
        = en_energy (sa_per_costs s ! i) + update_en sc time (periph_at sc h) (sa_per_costs s ! i))"
  using assms
proof (induction hs arbitrary: s)
  case (Cons h hs)
  let ?p = "periph_at sc h"
  let ?i = "pe_idx ?p"
  define s1 where "s1 = s\<lparr>sa_per_costs := (sa_per_costs s)[?i := (sa_per_costs s ! ?i)
    \<lparr>en_energy := en_energy (sa_per_costs s ! ?i) + update_en sc time ?p (sa_per_costs s ! ?i)\<rparr>]\<rparr>"
  have run: "charge_periphs sc time (h # hs) s = charge_periphs sc time hs s1"
    using Cons.prems(3) by (simp add: s1_def update_en_def periph_at_def Let_def)
  have s1: "sa_time_stamp s1 = sa_time_stamp s" "length (sa_per_costs s1) = length (sa_per_costs s)"
    by (simp_all add: s1_def)
  have other: "j \<noteq> ?i \<Longrightarrow> sa_per_costs s1 ! j = sa_per_costs s ! j" for j by (simp add: s1_def)
  have here: "en_energy (sa_per_costs s1 ! ?i) = en_energy (sa_per_costs s ! ?i) + update_en sc time ?p (sa_per_costs s ! ?i)"
    using Cons.prems(3) by (simp add: s1_def)
  have new: "?i \<notin> (\<lambda>h. pe_idx (periph_at sc h)) ` set hs" "inj_on (\<lambda>h. pe_idx (periph_at sc h)) (set hs)"
    using Cons.prems(1,2) by auto
  obtain s' where s': "charge_periphs sc time hs s1 = Inr s'" "sa_time_stamp s' = sa_time_stamp s1"
    "length (sa_per_costs s') = length (sa_per_costs s1)"
    "\<forall>i. i \<notin> (\<lambda>h. pe_idx (periph_at sc h)) ` set hs \<longrightarrow> sa_per_costs s' ! i = sa_per_costs s1 ! i"
    "\<forall>h\<in>set hs. let i = pe_idx (periph_at sc h) in en_energy (sa_per_costs s' ! i)
        = en_energy (sa_per_costs s1 ! i) + update_en sc time (periph_at sc h) (sa_per_costs s1 ! i)"
    using Cons.IH [of s1] Cons.prems new(2) s1 by auto
  have "pe_idx (periph_at sc k) \<noteq> ?i" if "k \<in> set hs" for k using new(1) that by (auto simp: image_iff)
  then show ?case using s' s1 other here new(1) run by (intro exI [of _ s']) (auto simp: Let_def)
qed simp

lemma get_sample_window:
  assumes inv: "window_inv sc now" and now: "now \<le> window_end sc"
    and wrap: "sc_last_measure_stamp sc \<le> window_end sc"
  shows "\<exists>s sc'. get_sample sc (window_end sc) = Inr (Some s, sc') \<and> window_inv sc' (window_end sc)
    \<and> sc' = sc\<lparr>sc_samples_head := [], sc_last_measure_stamp := window_end sc\<rparr>
    \<and> (\<forall>k\<in>set (sc_head_periphs sc). en_energy (sa_per_costs s ! pe_idx (periph_at sc k))
         = en_energy (sample_en sc k) + window_energy (periph_at sc k) (charged_from sc k) (window_end sc) [])"
proof -
  let ?E = "window_end sc" and ?P = "sc_sample_period sc" and ?T = "sc_last_measure_stamp sc"
  note wf = inv [unfolded window_inv_def]
  obtain s where s: "charge_periphs sc ?E (sc_head_periphs sc) (cur_sample sc) = Inr s" "sa_time_stamp s = ?E"
    "\<forall>k\<in>set (sc_head_periphs sc). en_energy (sa_per_costs s ! pe_idx (periph_at sc k))
        = en_energy (sample_en sc k) + update_en sc ?E (periph_at sc k) (sample_en sc k)"
    using charge_periphs_result [of "sc_head_periphs sc" sc "cur_sample sc" ?E] wf
    by (auto simp: scope_wf_def sample_en_def Let_def)
  have upd: "update_en sc ?E (periph_at sc k) (sample_en sc k) = (?E - charged_from sc k) * cost_of (periph_at sc k)"
    if k: "k \<in> set (sc_head_periphs sc)" for k
  proof -
    let ?l = "pe_last_change_stamp (periph_at sc k)"
    have l: "?l \<le> ?E" using wf k now order_trans by blast
    show ?thesis
    proof (cases "?T < ?l")
      case True
      have "?E - ?l < ?P" using True l wrap by uint_arith
      then show ?thesis using True by (simp add: update_en_def charged_from_def)
    next
      case False
      then have "\<not> en_processed (sample_en sc k)" using wf k by force
      moreover have "\<not> ?E - ?l < ?P" using False l wrap by uint_arith
      ultimately show ?thesis using False by (simp add: update_en_def charged_from_def)
    qed
  qed
  let ?sc' = "sc\<lparr>sc_samples_head := [], sc_last_measure_stamp := ?E\<rparr>"
  have nxt: "(case sc_samples_head sc of [] \<Rightarrow> [] | x # xs \<Rightarrow> xs) = []"
    using wf by (cases "sc_samples_head sc") auto
  have run: "get_sample sc ?E = Inr (Some s, ?sc')"
    using s(1,2) wf nxt by (simp add: get_sample_def cur_sample_def Let_def)
  have cur: "cur_sample ?sc' = sample_new ?sc' ?E" by (simp add: cur_sample_def)
  have wf': "scope_wf ?sc'" using wf by (simp add: scope_wf_def periph_at_def)
  have "window_inv ?sc' ?E"
  proof (rule window_invI [OF wf'])
    fix k assume k: "k \<in> set (sc_head_periphs ?sc')"
    have en: "sample_en ?sc' k = \<lparr>en_processed = False, en_energy = 0\<rparr>"
      using wf' k by (simp add: sample_en_def cur scope_wf_def)
    have l: "pe_last_change_stamp (periph_at ?sc' k) \<le> ?E"
      using wf k now order_trans by (fastforce simp: periph_at_def)
    show "pe_last_change_stamp (periph_at ?sc' k) \<le> ?E" by (rule l)
    show "en_processed (sample_en ?sc' k) \<Longrightarrow> sc_last_measure_stamp ?sc' < pe_last_change_stamp (periph_at ?sc' k)"
      by (simp add: en)
    show "en_energy (sample_en ?sc' k) = 0 \<and> pe_last_change_stamp (periph_at ?sc' k) \<le> sc_last_measure_stamp ?sc'"
      using l by (simp add: en)
  qed (simp_all add: cur)
  then show ?thesis using run s(3) upd by auto
qed

lemma mode_changes_window:
  assumes "window_inv sc now" "now \<le> window_end sc" "sc_last_measure_stamp sc \<le> now"
    and "sorted (map (\<lambda>c. snd (snd c)) cs)"
    and "\<forall>(h, m, t)\<in>set cs. h \<in> set (sc_head_periphs sc) \<and> now \<le> t \<and> t \<le> window_end sc"
  shows "\<exists>sc1 s sc'. mode_changes sc cs = Inr sc1 \<and> get_sample sc1 (window_end sc) = Inr (Some s, sc')
    \<and> window_inv sc' (window_end sc) \<and> sc_last_measure_stamp sc' = window_end sc \<and> sc_samples_head sc' = []
    \<and> sc_head_periphs sc' = sc_head_periphs sc \<and> sc_sample_period sc' = sc_sample_period sc
    \<and> (\<forall>k\<in>set (sc_head_periphs sc). en_energy (sa_per_costs s ! pe_idx (periph_at sc' k))
         = en_energy (sample_en sc k)
           + window_energy (periph_at sc k) (charged_from sc k) (window_end sc) (changes_of k cs))"
  using assms
proof (induction cs arbitrary: sc now)
  case Nil
  have "sc_last_measure_stamp sc \<le> window_end sc" using Nil.prems(2,3) by (rule order_trans [rotated])
  from get_sample_window [OF Nil.prems(1,2) this] show ?case by (auto simp: periph_at_def)
next
  case (Cons c cs)
  obtain h m t where c: "c = (h, m, t)" by (cases c)
  have h: "h \<in> set (sc_head_periphs sc)" and t: "now \<le> t" "t \<le> window_end sc"
    using Cons.prems(5) by (auto simp: c)
  have Tt: "sc_last_measure_stamp sc \<le> t" using Cons.prems(3) t(1) by (rule order_trans)
  obtain sc2 where sc2: "etrace_if_mode_change sc h m t = Inr sc2" "window_inv sc2 t"
    "sc_head_periphs sc2 = sc_head_periphs sc" "sc_last_measure_stamp sc2 = sc_last_measure_stamp sc"
    "sc_sample_period sc2 = sc_sample_period sc"
    and en: "\<forall>k\<in>set (sc_head_periphs sc). \<forall>cs.
         en_energy (sample_en sc2 k) + window_energy (periph_at sc2 k) (charged_from sc2 k) (window_end sc) cs
         = en_energy (sample_en sc k) + window_energy (periph_at sc k) (charged_from sc k) (window_end sc)
             (if k = h then (m, t) # cs else cs)"
    using mode_change_window [OF Cons.prems(1) h t(1) Tt t(2)] by blast
  have "\<exists>sc1 s sc'. mode_changes sc2 cs = Inr sc1 \<and> get_sample sc1 (window_end sc2) = Inr (Some s, sc')
    \<and> window_inv sc' (window_end sc2) \<and> sc_last_measure_stamp sc' = window_end sc2 \<and> sc_samples_head sc' = []
    \<and> sc_head_periphs sc' = sc_head_periphs sc2 \<and> sc_sample_period sc' = sc_sample_period sc2
    \<and> (\<forall>k\<in>set (sc_head_periphs sc2). en_energy (sa_per_costs s ! pe_idx (periph_at sc' k))
         = en_energy (sample_en sc2 k)
           + window_energy (periph_at sc2 k) (charged_from sc2 k) (window_end sc2) (changes_of k cs))"
  proof (rule Cons.IH [OF sc2(2)])
    show "t \<le> window_end sc2" "sc_last_measure_stamp sc2 \<le> t" using t(2) Tt sc2 by simp_all
    show "sorted (map (\<lambda>c. snd (snd c)) cs)" using Cons.prems(4) by simp
    show "\<forall>(h, m, t')\<in>set cs. h \<in> set (sc_head_periphs sc2) \<and> t \<le> t' \<and> t' \<le> window_end sc2"
      using Cons.prems(4,5) sc2 by (fastforce simp: c)
  qed
  then show ?case using sc2 en by (auto simp: c)
qed

text \<open>
  Claim C18. The sampling loses no energy and invents none: take a state at the start of a
  period (one with no sample yet, as the constructor and every call of \<open>get_sample\<close> leave
  it), and any mode changes of the peripherals during the period in the order of time,
  invalid ones and changes at the very start or end included. Every one of them is
  accepted, the sample taken at the end of the period exists, its entry for each peripheral
  is the sum over the intervals between the changes of that peripheral of their length
  times the cost of the mode, and the state is again one at the start of a period.
\<close>
theorem sample_energy_exact:
  assumes "window_inv sc (sc_last_measure_stamp sc)" "sc_samples_head sc = []"
    and "sc_last_measure_stamp sc \<le> window_end sc" "sorted (map (\<lambda>c. snd (snd c)) cs)"
    and "\<forall>(h, m, t)\<in>set cs. h \<in> set (sc_head_periphs sc) \<and> sc_last_measure_stamp sc \<le> t \<and> t \<le> window_end sc"
  shows "\<exists>sc1 s sc'. mode_changes sc cs = Inr sc1 \<and> get_sample sc1 (window_end sc) = Inr (Some s, sc')
    \<and> window_inv sc' (sc_last_measure_stamp sc') \<and> sc_samples_head sc' = []
    \<and> sc_last_measure_stamp sc' = window_end sc
    \<and> (\<forall>k\<in>set (sc_head_periphs sc). en_energy (sa_per_costs s ! pe_idx (periph_at sc' k))
         = window_energy (periph_at sc k) (sc_last_measure_stamp sc) (window_end sc) (changes_of k cs))"
proof -
  have start: "en_energy (sample_en sc k) = 0 \<and> charged_from sc k = sc_last_measure_stamp sc"
    if "k \<in> set (sc_head_periphs sc)" for k
  proof -
    have "sample_en sc k = \<lparr>en_processed = False, en_energy = 0\<rparr>"
      using assms(1,2) that by (simp add: sample_en_def cur_sample_def window_inv_def scope_wf_def)
    moreover have "pe_last_change_stamp (periph_at sc k) \<le> sc_last_measure_stamp sc"
      using assms(1) that by (simp add: window_inv_def)
    ultimately show ?thesis by (auto simp: charged_from_def)
  qed
  from mode_changes_window [OF assms(1,3) order_refl assms(4)] assms(5) start show ?thesis by fastforce
qed

text \<open>
  Claim C34. The walk over the samples returns: for a peripheral in a mode of its class, with
  an index inside the sample, and a time whose next period does not wrap around, the fuel
  \<open>update_samples\<close> gives is enough, whatever samples are there and whatever their stamps.
\<close>
theorem update_samples_returns:
  assumes "cost_ok p" "pe_idx p < MAX_PERIPHERALS" "0 < sc_sample_period sc"
    and "unat time + unat (sc_sample_period sc) < 2 ^ 64"
    and "\<forall>s\<in>set (sc_samples_head sc). pe_idx p < length (sa_per_costs s)"
  shows "\<exists>sc'. update_samples sc p time = Inr sc'"
proof -
  obtain ss where "r_update_samples (samples_fuel sc (sc_samples_head sc) time) sc (sc_samples_head sc) p time
      (sc_last_measure_stamp sc) = Inr ss"
    using r_update_samples_total [OF assms order_refl] unfolding samples_fuel_def unat_div_distrib by blast
  then show ?thesis by (simp add: update_samples_def)
qed

text \<open>Two processors of the class of \<^verbatim>\<open>cpu_fvs.cpp\<close> at the start of the first period of 20 ms.\<close>

definition etrace_arm_class :: periph_class where
  "etrace_arm_class = \<lparr>pc_max_energy_ms = 400, pc_nmodes = 2, pc_nfvsets = 7,
     pc_mode_cost = [23, 83, 26, 90, 29, 97, 34, 123, 38, 143, 60, 215, 90, 320]\<rparr>"

definition small_periph :: "nat \<Rightarrow> periph" where
  "small_periph i = \<lparr>pe_name = ''ARM'', pe_pclass = etrace_arm_class, pe_group_id = 0, pe_group_name = ''CPU'',
     pe_idx = i, pe_last_change_stamp = 0, pe_curr_mode = 1, pe_curr_fvset = 6\<rparr>"

definition small_scope :: scope_state where
  "small_scope = \<lparr>sc_sample_period = 20000000, sc_samples_head = [], sc_last_measure_stamp = 0,
     sc_periphs = [small_periph 0, small_periph 1], sc_head_periphs = [0, 1], sc_nb_periphs = 2, sc_nb_groups = 1,
     sc_max_energy_ms = 800\<rparr>"

lemma small_scope_inv: "window_inv small_scope 0"
  by (simp add: window_inv_def scope_wf_def small_scope_def small_periph_def periph_at_def cost_ok_def
    etrace_arm_class_def MAX_PERIPHERALS_def sample_en_def cur_sample_def sample_new_def)

theorem sample_energy_exact_witness:
  "\<exists>sc1 s sc'. mode_changes small_scope [(0, ETRACE_MODE 0 6, 5000000), (1, 31, 6000000), (0, ETRACE_MODE 1 0, 20000000)]
      = Inr sc1 \<and> get_sample sc1 20000000 = Inr (Some s, sc')
    \<and> en_energy (sa_per_costs s ! 0) = 5000000 * 320 + 15000000 * 90 \<and> en_energy (sa_per_costs s ! 1) = 20000000 * 320"
proof -
  let ?cs = "[(0, ETRACE_MODE 0 6, 5000000), (1, 31, 6000000), (0, ETRACE_MODE 1 0, 20000000)]"
  have facts: "sc_samples_head small_scope = []" "sc_last_measure_stamp small_scope = 0"
    "sc_sample_period small_scope = 20000000" "sc_head_periphs small_scope = [0, 1]"
    "pe_idx (periph_at small_scope 0) = 0" "pe_idx (periph_at small_scope 1) = 1"
    by (simp_all add: small_scope_def periph_at_def small_periph_def)
  obtain sc1 s sc' where r: "mode_changes small_scope ?cs = Inr sc1" "get_sample sc1 20000000 = Inr (Some s, sc')"
    "\<forall>k\<in>{0, 1}. en_energy (sa_per_costs s ! pe_idx (periph_at sc' k))
       = window_energy (periph_at small_scope k) 0 20000000 (changes_of k ?cs)"
    using sample_energy_exact [of small_scope ?cs] small_scope_inv by (auto simp: facts)
  have "map (pe_idx) (sc_periphs sc') = [0, 1]"
  proof -
    have "(case mode_changes small_scope ?cs of Inl e \<Rightarrow> [] | Inr a \<Rightarrow> (case get_sample a 20000000 of Inl e \<Rightarrow> []
        | Inr (b, c) \<Rightarrow> map pe_idx (sc_periphs c))) = [0, 1]" by code_simp
    then show ?thesis by (simp only: r sum.case prod.case)
  qed
  then have i: "pe_idx (periph_at sc' 0) = 0" "pe_idx (periph_at sc' 1) = 1"
    by (auto simp: periph_at_def map_eq_Cons_conv)
  have "window_energy (periph_at small_scope 0) 0 20000000 (changes_of 0 ?cs) = 5000000 * 320 + 15000000 * 90"
    "window_energy (periph_at small_scope 1) 0 20000000 (changes_of 1 ?cs) = 20000000 * 320" by code_simp+
  then show ?thesis using r i by auto
qed

theorem update_samples_returns_witness:
  "\<exists>sc'. update_samples small_scope (small_periph 0) 90000000 = Inr sc'"
proof (rule update_samples_returns)
  show "cost_ok (small_periph 0)" "pe_idx (small_periph 0) < MAX_PERIPHERALS" "0 < sc_sample_period small_scope"
    "unat (90000000 :: u64) + unat (sc_sample_period small_scope) < 2 ^ 64"
    "\<forall>s\<in>set (sc_samples_head small_scope). pe_idx (small_periph 0) < length (sa_per_costs s)"
    by (simp_all add: small_scope_def small_periph_def cost_ok_def etrace_arm_class_def MAX_PERIPHERALS_def)
qed

end
