(* ===== verification/Etrace_If.thy ===== *)
theory Etrace_If
  imports Etrace_Samples
begin

text \<open>
  The energy trace (\<^verbatim>\<open>etrace/etrace_if.cpp\<close>), its module: the registration of peripherals in
  groups, the graph parameters written to the pipe of the viewer, the periodic thread that
  takes a sample and writes the percentages, the rolling average and the measure. The child
  process, the pipe and its signals are system calls: what is written is a list of bytes.
\<close>

definition MAX_HISTORY :: nat where "MAX_HISTORY = 10"

definition bytes64 :: "u64 \<Rightarrow> u8 list" where
  "bytes64 w = bytes32 (ucast w) @ bytes32 (ucast (drop_bit 32 w))"

text \<open>A C string and the 0 that ends it.\<close>

definition c_string :: "string \<Rightarrow> u8 list" where
  "c_string s = map of_char s @ [0]"

subsection \<open>Registration\<close>

fun insert_periph :: "periph list \<Rightarrow> int \<Rightarrow> nat \<Rightarrow> nat list \<Rightarrow> nat list res" where
  "insert_periph ps group_id new [] = Inr [new]"
| "insert_periph ps group_id new (t # ts) =
     bindr (rd ps t) (\<lambda>p.
     if pe_group_id p \<le> group_id then bindr (insert_periph ps group_id new ts) (\<lambda>ts. Inr (t # ts))
     else Inr (new # t # ts))"

definition add_periph :: "string \<Rightarrow> periph_class \<Rightarrow> int \<Rightarrow> string \<Rightarrow> scope_state
    \<Rightarrow> (scope_state \<times> int \<times> nat) res" where
  "add_periph name pclass group_id group_name sc =
     (let new = length (sc_periphs sc);
          gid = (if group_id < 0 then sc_nb_groups sc else group_id);
          p = \<lparr>pe_name = name, pe_pclass = pclass, pe_group_id = gid, pe_group_name = group_name,
               pe_idx = 0, pe_last_change_stamp = 0, pe_curr_mode = 0, pe_curr_fvset = 0\<rparr> in
      bindr (insert_periph (sc_periphs sc) gid new (sc_head_periphs sc)) (\<lambda>head.
      Inr (sc\<lparr>sc_nb_periphs := sc_nb_periphs sc + 1,
              sc_nb_groups := (if group_id < 0 then sc_nb_groups sc + 1 else sc_nb_groups sc),
              sc_periphs := sc_periphs sc @ [p], sc_head_periphs := head\<rparr>, gid, new)))"

subsection \<open>The parameters of the graphs\<close>

text \<open>
  The loop over the groups numbers the peripherals in the order of the list, writes for
  each group the number of its curves and the bounds of its first peripheral, and adds up the
  maximal energy. The inner loop is \<open>takeWhile\<close>: the peripherals from here on of the same group.
\<close>

definition group_at :: "periph list \<Rightarrow> nat \<Rightarrow> int" where
  "group_at ps h = pe_group_id (ps ! h)"

fun number_periphs :: "nat \<Rightarrow> nat list \<Rightarrow> periph list \<Rightarrow> periph list" where
  "number_periphs j [] ps = ps"
| "number_periphs j (h # hs) ps = number_periphs (Suc j) hs (ps[h := (ps ! h)\<lparr>pe_idx := j\<rparr>])"

function display_groups :: "nat \<Rightarrow> nat list \<Rightarrow> scope_state \<Rightarrow> scope_state \<times> u8 list" where
  "display_groups i [] sc = (sc, [])"
| "display_groups i (h # hs) sc =
     (let ps = sc_periphs sc;
          same = takeWhile (\<lambda>k. group_at ps k = group_at ps h) hs;
          n = Suc (length same);
          long_val = scast (pc_max_energy_ms (pe_pclass (ps ! h)));
          r = display_groups (i + n) (drop (length same) hs)
                (sc\<lparr>sc_periphs := number_periphs i (h # same) ps,
                    sc_max_energy_ms := sc_max_energy_ms sc + ucast (of_nat n * long_val :: u64)\<rparr>) in
      (fst r, bytes32 (of_nat n) @ bytes64 0 @ bytes64 long_val @ snd r))"
  by pat_completeness auto
termination by (relation "measure (\<lambda>(i, hs, sc). length hs)") simp_all

function display_names :: "periph list \<Rightarrow> nat list \<Rightarrow> u8 list" where
  "display_names ps [] = []"
| "display_names ps (h # hs) =
     (let s = c_string (pe_group_name (ps ! h)) in
      bytes32 (of_nat (length s)) @ s
        @ display_names ps (dropWhile (\<lambda>k. group_at ps k = group_at ps h) hs))"
  by pat_completeness auto
termination by (relation "measure (\<lambda>(ps, hs). length hs)") (auto simp: le_imp_less_Suc length_dropWhile_le)

definition display_init :: "scope_state \<Rightarrow> scope_state \<times> u8 list" where
  "display_init sc =
     (let title = c_string ''Power consumption'';
          (sc', groups) = display_groups 0 (sc_head_periphs sc) sc;
          total = c_string ''Total '' in
      (sc', bytes32 (of_nat (length title)) @ title
         @ bytes32 (of_int (sc_nb_groups sc) + 1) @ bytes32 20
         @ groups
         @ bytes32 2 @ bytes64 0 @ bytes64 (scast (sc_max_energy_ms sc'))
         @ display_names (sc_periphs sc') (sc_head_periphs sc')
         @ bytes32 (of_nat (length total)) @ total))"

subsection \<open>The module\<close>

record etrace_if =
  et_scope :: scope_state
  et_full_average :: bool
  et_curr_idx :: nat
  et_history :: "u64 list"
  et_measure_started :: bool
  et_measure_accum :: u64
  et_measure_nbsamp :: u32

definition scope_new :: scope_state where
  "scope_new = \<lparr>sc_sample_period = 20 * 1000 * 1000, sc_samples_head = [], sc_last_measure_stamp = 0,
     sc_periphs = [], sc_head_periphs = [], sc_nb_periphs = 0, sc_nb_groups = 0, sc_max_energy_ms = 0\<rparr>"

text \<open>The constructor; the history and the number of measured samples start with what the memory holds.\<close>

definition etrace_if_new :: "u64 list \<Rightarrow> u32 \<Rightarrow> etrace_if" where
  "etrace_if_new junk_history junk_nbsamp =
     \<lparr>et_scope = scope_new, et_full_average = False, et_curr_idx = 0, et_history = junk_history,
      et_measure_started = False, et_measure_accum = 0, et_measure_nbsamp = junk_nbsamp\<rparr>"

definition roll_average :: "u64 \<Rightarrow> etrace_if \<Rightarrow> (etrace_if \<times> u64) res" where
  "roll_average new_samp e =
     bindr (wr (et_history e) (et_curr_idx e) new_samp) (\<lambda>h.
     let res = (if et_full_average e then sum_list (take MAX_HISTORY h) div of_nat MAX_HISTORY
                else sum_list (take (Suc (et_curr_idx e)) h) div of_nat (Suc (et_curr_idx e)));
         nxt = Suc (et_curr_idx e) mod MAX_HISTORY in
     Inr (e\<lparr>et_history := h, et_curr_idx := nxt,
            et_full_average := (et_full_average e \<or> nxt = MAX_HISTORY - 1)\<rparr>, res))"

definition udiv :: "u64 \<Rightarrow> u64 \<Rightarrow> u64 res" where
  "udiv a b = (if b = 0 then Inl DivByZero else Inr (a div b))"

text \<open>The loop of \<open>scope_trigger\<close> over the peripherals: the sum of the energies and the percentages.\<close>

fun periph_vals :: "scope_state \<Rightarrow> sample \<Rightarrow> nat list \<Rightarrow> u64 \<Rightarrow> u8 list \<Rightarrow> (u64 \<times> u8 list) res" where
  "periph_vals sc samp [] sm vals = Inr (sm, vals)"
| "periph_vals sc samp (h # hs) sm vals =
     bindr (rd (sc_periphs sc) h) (\<lambda>p.
     bindr (rd (sa_per_costs samp) (pe_idx p)) (\<lambda>en.
     bindr (udiv (en_energy en * 100) (sc_sample_period sc * scast (pc_max_energy_ms (pe_pclass p)))) (\<lambda>v.
     bindr (wr vals (pe_idx p) (ucast v)) (\<lambda>vals.
     periph_vals sc samp hs (sm + en_energy en) vals))))"

text \<open>
  One iteration of \<open>scope_trigger\<close> after its two waits, at the time \<open>stamp\<close>: the new state,
  the array of values and what is written to the pipe. A null sample is dereferenced by the
  loop before the test for it.
\<close>

definition scope_trigger_step :: "u64 \<Rightarrow> u8 list \<Rightarrow> etrace_if \<Rightarrow> (etrace_if \<times> u8 list \<times> u8 list) res" where
  "scope_trigger_step stamp vals e =
     bindr (get_sample (et_scope e) stamp) (\<lambda>(samp, sc).
     case samp of None \<Rightarrow> Inl NullPointer
     | Some samp \<Rightarrow>
       bindr (periph_vals sc samp (sc_head_periphs sc) 0 vals) (\<lambda>(sm, vals).
       let full = sc_sample_period sc * scast (sc_max_energy_ms sc) in
       bindr (udiv (sm * 100) full) (\<lambda>v.
       bindr (wr vals (sc_nb_periphs sc) (ucast v)) (\<lambda>vals.
       bindr (roll_average sm (e\<lparr>et_scope := sc\<rparr>)) (\<lambda>(e, avg).
       bindr (udiv (avg * 100) full) (\<lambda>v.
       bindr (wr vals (sc_nb_periphs sc + 1) (ucast v)) (\<lambda>vals.
       Inr (if et_measure_started e
            then e\<lparr>et_measure_accum := et_measure_accum e + sm, et_measure_nbsamp := et_measure_nbsamp e + 1\<rparr>
            else e,
            vals, take (sc_nb_periphs sc + 2) vals))))))))"

definition change_energy_mode :: "nat \<Rightarrow> u32 \<Rightarrow> u64 \<Rightarrow> etrace_if \<Rightarrow> etrace_if res" where
  "change_energy_mode periph_id m now_ns e =
     bindr (etrace_if_mode_change (et_scope e) periph_id m now_ns) (\<lambda>sc. Inr (e\<lparr>et_scope := sc\<rparr>))"

definition et_start_measure :: "etrace_if \<Rightarrow> etrace_if" where
  "et_start_measure e = e\<lparr>et_measure_started := True, et_measure_accum := 0, et_measure_nbsamp := 0\<rparr>"

definition et_stop_measure :: "etrace_if \<Rightarrow> (etrace_if \<times> ulong) res" where
  "et_stop_measure e =
     bindr (udiv (et_measure_accum e) (sc_sample_period (et_scope e))) (\<lambda>q.
     bindr (udiv q (ucast (et_measure_nbsamp e))) (\<lambda>val.
     Inr (e\<lparr>et_measure_started := False\<rparr>, ucast val)))"

subsection \<open>The rolling average\<close>

text \<open>What the ring holds after the samples \<open>xs\<close>: the last ten, at their positions.\<close>

definition history_holds :: "etrace_if \<Rightarrow> u64 list \<Rightarrow> bool" where
  "history_holds e xs \<longleftrightarrow> length (et_history e) = MAX_HISTORY
     \<and> et_curr_idx e = length xs mod MAX_HISTORY
     \<and> (et_full_average e \<longleftrightarrow> MAX_HISTORY - 1 \<le> length xs)
     \<and> (\<forall>k < length xs. length xs \<le> k + MAX_HISTORY \<longrightarrow> et_history e ! (k mod MAX_HISTORY) = xs ! k)"

fun roll_averages :: "u64 list \<Rightarrow> etrace_if \<Rightarrow> (etrace_if \<times> u64 list) res" where
  "roll_averages [] e = Inr (e, [])"
| "roll_averages (x # xs) e = bindr (roll_average x e) (\<lambda>(e, r).
     bindr (roll_averages xs e) (\<lambda>(e, rs). Inr (e, r # rs)))"

definition mean_of_last :: "u64 list \<Rightarrow> u64" where
  "mean_of_last xs = (let l = drop (length xs - MAX_HISTORY) xs in sum_list l div of_nat (length l))"

lemma sum_ring:
  assumes "length h = MAX_HISTORY" "MAX_HISTORY \<le> length xs"
    and "\<forall>k < length xs. length xs \<le> k + MAX_HISTORY \<longrightarrow> h ! (k mod MAX_HISTORY) = (xs ! k :: u64)"
  shows "sum_list h = sum_list (drop (length xs - MAX_HISTORY) xs)"
proof -
  let ?n = "length xs" and ?m = "MAX_HISTORY"
  have bij: "bij_betw (\<lambda>k. k mod ?m) {?n - ?m..<?n} {0..<?m}"
  proof (rule bij_betw_imageI)
    show inj: "inj_on (\<lambda>k. k mod ?m) {?n - ?m..<?n}"
    proof (rule inj_onI)
      fix x y assume xy: "x \<in> {?n - ?m..<?n}" "y \<in> {?n - ?m..<?n}" "x mod ?m = y mod ?m"
      show "x = y"
      proof (rule ccontr)
        assume "x \<noteq> y"
        then consider "x < y" | "y < x" by linarith
        then show False
        proof cases
          case 1
          moreover have "y - x < ?m" using xy(1,2) assms(2) by simp linarith
          ultimately show False using ring_slot_neq [of x y ?m 0] xy(3) by simp
        next
          case 2
          moreover have "x - y < ?m" using xy(1,2) assms(2) by simp linarith
          ultimately show False using ring_slot_neq [of y x ?m 0] xy(3) by simp
        qed
      qed
    qed
    have "(\<lambda>k. k mod ?m) ` {?n - ?m..<?n} \<subseteq> {0..<?m}" by (auto simp: MAX_HISTORY_def)
    moreover have "card ((\<lambda>k. k mod ?m) ` {?n - ?m..<?n}) = card {0..<?m}"
      using assms(2) by (simp add: card_image [OF inj])
    ultimately show "(\<lambda>k. k mod ?m) ` {?n - ?m..<?n} = {0..<?m}" by (simp add: card_subset_eq)
  qed
  have "sum_list h = (\<Sum>i = 0..<?m. h ! i)" using assms(1) by (simp add: sum_list_sum_nth)
  also have "\<dots> = (\<Sum>k\<in>{?n - ?m..<?n}. h ! (k mod ?m))" by (rule sum.reindex_bij_betw [OF bij, symmetric])
  also have "\<dots> = (\<Sum>k\<in>{?n - ?m..<?n}. xs ! k)" using assms(3) by (intro sum.cong) auto
  also have "\<dots> = (\<Sum>k = 0..<?m. xs ! (k + (?n - ?m)))"
    using assms(2) sum.shift_bounds_nat_ivl [of "\<lambda>k. xs ! k" 0 "?n - ?m" ?m] by simp
  also have "\<dots> = sum_list (drop (?n - ?m) xs)"
    using assms(2) by (simp add: sum_list_sum_nth add.commute)
  finally show ?thesis .
qed

lemma roll_average_mean:
  assumes "history_holds e xs"
  shows "\<exists>e'. roll_average x e = Inr (e', mean_of_last (xs @ [x])) \<and> history_holds e' (xs @ [x])"
proof -
  let ?n = "length xs" and ?h = "(et_history e)[et_curr_idx e := x]"
  note a = assms [unfolded history_holds_def]
  have i: "et_curr_idx e < length (et_history e)" using a by (simp add: MAX_HISTORY_def)
  have slots: "?h ! (k mod MAX_HISTORY) = (xs @ [x]) ! k" if "k < Suc ?n" "Suc ?n \<le> k + MAX_HISTORY" for k
  proof (cases "k = ?n")
    case True then show ?thesis using a i by simp
  next
    case False
    then have "k mod MAX_HISTORY \<noteq> ?n mod MAX_HISTORY"
      using that ring_slot_neq [of k ?n MAX_HISTORY 0] by auto
    then show ?thesis using a that False by (simp add: nth_append)
  qed
  have full: "sum_list (take MAX_HISTORY ?h) div of_nat MAX_HISTORY = mean_of_last (xs @ [x])" if "MAX_HISTORY - 1 \<le> ?n"
  proof -
    have ring: "sum_list ?h = sum_list (drop (length (xs @ [x]) - MAX_HISTORY) (xs @ [x]))"
      by (rule sum_ring) (use slots a that in auto)
    have l: "length (drop (length (xs @ [x]) - MAX_HISTORY) (xs @ [x])) = MAX_HISTORY"
      using that by (simp add: MAX_HISTORY_def)
    have t: "take MAX_HISTORY ?h = ?h" using a by simp
    show ?thesis unfolding mean_of_last_def Let_def l t ring ..
  qed
  have part: "sum_list (take (Suc (et_curr_idx e)) ?h) div of_nat (Suc (et_curr_idx e)) = mean_of_last (xs @ [x])"
    if "\<not> MAX_HISTORY - 1 \<le> ?n"
  proof -
    have n: "?n < MAX_HISTORY" "et_curr_idx e = ?n" using a that by simp_all
    have "take (Suc ?n) ?h = xs @ [x]"
    proof (rule nth_equalityI)
      fix k assume "k < length (take (Suc ?n) ?h)"
      then have k: "k < Suc ?n" by simp
      then have "k mod MAX_HISTORY = k" using n by simp
      then show "take (Suc ?n) ?h ! k = (xs @ [x]) ! k" using slots [OF k] k n by simp
    qed (use a n in simp)
    then show ?thesis using that n unfolding mean_of_last_def by (simp add: Let_def)
  qed
  have flag: "(et_full_average e \<or> Suc (et_curr_idx e) mod MAX_HISTORY = MAX_HISTORY - 1) \<longleftrightarrow> MAX_HISTORY - 1 \<le> Suc ?n"
  proof (cases "MAX_HISTORY - 1 \<le> ?n")
    case False
    then show ?thesis using a by (auto simp: mod_Suc)
  qed (use a in simp)
  have nxt: "Suc (et_curr_idx e) mod MAX_HISTORY = Suc ?n mod MAX_HISTORY" using a by (simp add: mod_Suc_eq)
  let ?e' = "e\<lparr>et_history := ?h, et_curr_idx := Suc (et_curr_idx e) mod MAX_HISTORY,
    et_full_average := (et_full_average e \<or> Suc (et_curr_idx e) mod MAX_HISTORY = MAX_HISTORY - 1)\<rparr>"
  have "roll_average x e = Inr (?e', mean_of_last (xs @ [x]))"
    using i full part a by (cases "MAX_HISTORY - 1 \<le> ?n") (simp_all add: roll_average_def Let_def)
  moreover have "history_holds ?e' (xs @ [x])"
    unfolding history_holds_def using a slots flag nxt by simp
  ultimately show ?thesis by blast
qed

lemma roll_averages_means:
  assumes "history_holds e ys"
  shows "\<exists>e'. roll_averages xs e = Inr (e', map (\<lambda>n. mean_of_last (ys @ take (Suc n) xs)) [0..<length xs])"
  using assms
proof (induction xs arbitrary: e ys)
  case (Cons x xs)
  obtain e1 where e1: "roll_average x e = Inr (e1, mean_of_last (ys @ [x]))" "history_holds e1 (ys @ [x])"
    using roll_average_mean [OF Cons.prems] by blast
  obtain e2 where "roll_averages xs e1 = Inr (e2, map (\<lambda>n. mean_of_last ((ys @ [x]) @ take (Suc n) xs)) [0..<length xs])"
    using Cons.IH [OF e1(2)] by blast
  then show ?case using e1(1) by (simp add: map_upt_Suc del: upt_Suc)
qed simp

text \<open>
  The rolling average is right from the first sample on: whatever the uninitialised
  history holds, the \<open>n\<close>th call of \<open>roll_average\<close> gives the mean of the last ten samples, or
  of all of them when there are fewer, sums taken in 64 bits.
\<close>
theorem roll_average_last_ten:
  assumes "length junk = MAX_HISTORY"
  shows "\<exists>e. roll_averages xs (etrace_if_new junk n)
    = Inr (e, map (\<lambda>n. mean_of_last (take (Suc n) xs)) [0..<length xs])"
proof -
  have "history_holds (etrace_if_new junk n) []"
    using assms by (simp add: history_holds_def etrace_if_new_def MAX_HISTORY_def)
  from roll_averages_means [OF this] show ?thesis by simp
qed

theorem roll_average_last_ten_witness:
  "\<exists>e. roll_averages [10, 20, 60] (etrace_if_new (replicate 10 7) 0) = Inr (e, [10, 15, 30])"
proof -
  have "map (\<lambda>n. mean_of_last (take (Suc n) [10, 20, 60])) [0..<length [10, 20, 60::u64]] = [10, 15, 30]"
    by code_simp
  then show ?thesis using roll_average_last_ten [of "replicate 10 7" "[10, 20, 60]" 0] by (simp add: MAX_HISTORY_def)
qed

end
