(* ===== verification/Etrace_Display.thy ===== *)
theory Etrace_Display
  imports Etrace_If
begin

text \<open>
  What the registration of peripherals and the parameters of the graphs add up to: the list
  of peripherals is sorted by group, every group of the numbering has a member, the graph
  parameters are one row per group in the order of the groups, and the index of a
  peripheral is its place in the list. So the state that \<open>display_init\<close> leaves is one at the
  start of a period (\<^verbatim>\<open>Etrace_Samples\<close>), as long as there are at most 20 peripherals.
\<close>

definition class_ok :: "periph_class \<Rightarrow> bool" where
  "class_ok c \<longleftrightarrow> 0 < pc_nmodes c \<and> 0 < pc_nfvsets c \<and> pc_nmodes c * pc_nfvsets c \<le> length (pc_mode_cost c)"

text \<open>
  The states registration reaches: a new group (a negative number) or one that a former
  call has returned.
\<close>

inductive registered :: "scope_state \<Rightarrow> bool" where
  none: "registered scope_new"
| add: "registered sc \<Longrightarrow> gid < sc_nb_groups sc \<Longrightarrow> class_ok pclass
    \<Longrightarrow> add_periph name pclass gid gname sc = Inr (sc', g, h) \<Longrightarrow> registered sc'"

definition registered_inv :: "scope_state \<Rightarrow> bool" where
  "registered_inv sc \<longleftrightarrow> distinct (sc_head_periphs sc)
     \<and> set (sc_head_periphs sc) = {0..<length (sc_periphs sc)}
     \<and> sorted (map (group_at (sc_periphs sc)) (sc_head_periphs sc))
     \<and> group_at (sc_periphs sc) ` set (sc_head_periphs sc) = {0..<sc_nb_groups sc}
     \<and> sc_nb_periphs sc = length (sc_head_periphs sc) \<and> 0 \<le> sc_nb_groups sc
     \<and> sc_samples_head sc = [] \<and> sc_last_measure_stamp sc = 0 \<and> sc_sample_period sc = 20000000
     \<and> sc_max_energy_ms sc = 0
     \<and> (\<forall>p\<in>set (sc_periphs sc). cost_ok p \<and> pe_last_change_stamp p = 0)"

lemma insert_periph_split:
  assumes "\<forall>t\<in>set ts. t < length ps"
  shows "insert_periph ps gid new ts = Inr (takeWhile (\<lambda>t. group_at ps t \<le> gid) ts
    @ new # dropWhile (\<lambda>t. group_at ps t \<le> gid) ts)"
  using assms by (induction ts) (auto simp: group_at_def)

lemma group_at_append [simp]: "h < length ps \<Longrightarrow> group_at (ps @ qs) h = group_at ps h"
  by (simp add: group_at_def nth_append)

lemma sorted_insert_group:
  assumes "sorted (map f ts)" "f new = (gid :: int)" "\<forall>t\<in>set ts. f t = g t"
  shows "sorted (map f (takeWhile (\<lambda>t. g t \<le> gid) ts @ new # dropWhile (\<lambda>t. g t \<le> gid) ts))"
  using assms by (induction ts) (auto dest: set_takeWhileD set_dropWhileD)

lemma set_insert_split: "set (takeWhile P xs @ a # dropWhile P xs) = insert a (set xs)"
  by (induction xs) auto

lemma length_insert_split: "length (takeWhile P xs @ a # dropWhile P xs) = Suc (length xs)"
  by (induction xs) auto

lemma registered_inv: "registered sc \<Longrightarrow> registered_inv sc"
proof (induction rule: registered.induct)
  case none
  then show ?case by (simp add: registered_inv_def scope_new_def)
next
  case (add sc gid pclass name gname sc' g h)
  let ?ps = "sc_periphs sc" and ?hs = "sc_head_periphs sc" and ?n = "length (sc_periphs sc)"
  note inv = add.IH [unfolded registered_inv_def]
  let ?g = "if gid < 0 then sc_nb_groups sc else gid"
  let ?p = "\<lparr>pe_name = name, pe_pclass = pclass, pe_group_id = ?g, pe_group_name = gname,
               pe_idx = 0, pe_last_change_stamp = 0, pe_curr_mode = 0, pe_curr_fvset = 0\<rparr>"
  let ?new = "takeWhile (\<lambda>t. group_at ?ps t \<le> ?g) ?hs @ ?n # dropWhile (\<lambda>t. group_at ?ps t \<le> ?g) ?hs"
  have ins: "insert_periph ?ps ?g ?n ?hs = Inr ?new"
    using inv by (intro insert_periph_split) auto
  have sc': "sc' = sc\<lparr>sc_nb_periphs := sc_nb_periphs sc + 1,
      sc_nb_groups := (if gid < 0 then sc_nb_groups sc + 1 else sc_nb_groups sc),
      sc_periphs := ?ps @ [?p], sc_head_periphs := ?new\<rparr>"
    using add.hyps(4) unfolding add_periph_def Let_def ins bindr_simps sum.inject prod.inject by (elim conjE) (rule sym)
  have hs: "set ?new = insert ?n (set ?hs)"
    by (rule set_insert_split)
  have len: "length ?new = Suc (length ?hs)"
    by (rule length_insert_split)
  have nd: "distinct ?new"
  proof (rule card_distinct)
    have "length ?hs = ?n" using inv distinct_card [of ?hs] by simp
    then show "card (set ?new) = length ?new" unfolding len hs using inv by simp
  qed
  have at: "group_at (?ps @ [?p]) t = group_at ?ps t" if "t \<in> set ?hs" for t
    using inv that by simp
  have atn: "group_at (?ps @ [?p]) ?n = ?g" by (simp add: group_at_def)
  have srt: "sorted (map (group_at (?ps @ [?p])) ?new)"
  proof (rule sorted_insert_group)
    have e: "map (group_at (?ps @ [?p])) ?hs = map (group_at ?ps) ?hs" by (rule map_cong [OF refl at])
    show "sorted (map (group_at (?ps @ [?p])) ?hs)" unfolding e using inv by simp
  qed (use at atn in auto)
  have img: "group_at (?ps @ [?p]) ` set ?new = {0..<(if gid < 0 then sc_nb_groups sc + 1 else sc_nb_groups sc)}"
  proof -
    have "group_at (?ps @ [?p]) ` set ?new = insert ?g (group_at ?ps ` set ?hs)"
      unfolding hs using at atn by (auto simp: image_iff)
    also have "group_at ?ps ` set ?hs = {0..<sc_nb_groups sc}" using inv by blast
    also have "insert ?g {0..<sc_nb_groups sc} = {0..<(if gid < 0 then sc_nb_groups sc + 1 else sc_nb_groups sc)}"
      using inv add.hyps(2) by auto
    finally show ?thesis .
  qed
  have "cost_ok ?p" using add.hyps(3) by (simp add: cost_ok_def class_ok_def)
  then show ?case unfolding registered_inv_def
    using inv nd hs srt img len by (auto simp: sc')
qed

subsection \<open>Numbering the peripherals\<close>

lemma number_periphs_length [simp]: "length (number_periphs j hs ps) = length ps"
  by (induction j hs ps rule: number_periphs.induct) simp_all

lemma number_periphs_other: "k \<notin> set hs \<Longrightarrow> number_periphs j hs ps ! k = ps ! k"
  by (induction j hs ps rule: number_periphs.induct) simp_all

lemma number_periphs_same:
  "(number_periphs j hs ps ! k)\<lparr>pe_idx := x\<rparr> = (ps ! k)\<lparr>pe_idx := x\<rparr>"
proof (induction j hs ps rule: number_periphs.induct)
  case (2 j h hs ps)
  then show ?case by (cases "k = h"; cases "h < length ps") (auto simp: list_update_beyond)
qed simp

lemma number_periphs_at:
  assumes "distinct hs" "\<forall>h\<in>set hs. h < length ps" "i < length hs"
  shows "pe_idx (number_periphs j hs ps ! (hs ! i)) = j + i"
  using assms
proof (induction hs arbitrary: j ps i)
  case (Cons h hs)
  then show ?case by (cases i) (simp_all add: number_periphs_other)
qed simp

lemma number_periphs_append:
  "number_periphs j (xs @ ys) ps = number_periphs (j + length xs) ys (number_periphs j xs ps)"
  by (induction j xs ps rule: number_periphs.induct) simp_all

text \<open>Two heaps of peripherals that differ in the indices only.\<close>

definition same_periphs :: "periph list \<Rightarrow> periph list \<Rightarrow> bool" where
  "same_periphs ps qs \<longleftrightarrow> (\<forall>k. (ps ! k)\<lparr>pe_idx := 0\<rparr> = (qs ! k)\<lparr>pe_idx := 0\<rparr>)"

lemma same_periphs_number: "same_periphs (number_periphs j hs ps) ps"
  by (simp add: same_periphs_def number_periphs_same)

lemma same_periphsD:
  assumes "same_periphs ps qs"
  shows "group_at ps k = group_at qs k" "pe_pclass (ps ! k) = pe_pclass (qs ! k)"
    "pe_group_name (ps ! k) = pe_group_name (qs ! k)" "cost_ok (ps ! k) = cost_ok (qs ! k)"
    "pe_last_change_stamp (ps ! k) = pe_last_change_stamp (qs ! k)"
proof -
  have e: "(ps ! k)\<lparr>pe_idx := 0\<rparr> = (qs ! k)\<lparr>pe_idx := 0\<rparr>" using assms by (simp add: same_periphs_def)
  from arg_cong [OF e, of pe_group_id] show "group_at ps k = group_at qs k" by (simp add: group_at_def)
  from arg_cong [OF e, of pe_pclass] show "pe_pclass (ps ! k) = pe_pclass (qs ! k)" by simp
  from arg_cong [OF e, of pe_group_name] show "pe_group_name (ps ! k) = pe_group_name (qs ! k)" by simp
  from arg_cong [OF e, of cost_ok] show "cost_ok (ps ! k) = cost_ok (qs ! k)" by (simp add: cost_ok_def)
  from arg_cong [OF e, of pe_last_change_stamp]
  show "pe_last_change_stamp (ps ! k) = pe_last_change_stamp (qs ! k)" by simp
qed

lemma number_periphs_takeWhile:
  "number_periphs (i + length (takeWhile P hs)) (dropWhile P hs) (number_periphs i (takeWhile P hs) ps)
   = number_periphs i hs ps"
  using number_periphs_append [of i "takeWhile P hs" "dropWhile P hs" ps] by simp

lemma drop_takeWhile_length [simp]: "drop (length (takeWhile P xs)) xs = dropWhile P xs"
  by (simp add: dropWhile_eq_drop)

lemma display_groups_state:
  "sc_periphs (fst (display_groups i hs sc)) = number_periphs i hs (sc_periphs sc)
   \<and> (\<exists>m. fst (display_groups i hs sc)
        = sc\<lparr>sc_periphs := number_periphs i hs (sc_periphs sc), sc_max_energy_ms := m\<rparr>)"
proof (induction i hs sc rule: display_groups.induct)
  case (1 i sc)
  show ?case by (rule conjI, simp, rule exI [of _ "sc_max_energy_ms sc"], simp)
next
  case (2 i h hs sc)
  then show ?case
    using number_periphs_takeWhile [of "Suc i" "\<lambda>k. group_at (sc_periphs sc) k = group_at (sc_periphs sc) h" hs]
    by (auto simp: Let_def)
qed

text \<open>In a list sorted by group the members of the first group come first.\<close>

definition members :: "periph list \<Rightarrow> nat list \<Rightarrow> int \<Rightarrow> nat list" where
  "members ps hs g = filter (\<lambda>k. group_at ps k = g) hs"

lemma sorted_first_group:
  assumes "sorted (map f (h # hs))"
  shows "takeWhile (\<lambda>k. f k = f h) hs = filter (\<lambda>k. f k = f h) hs"
    and "dropWhile (\<lambda>k. f k = f h) hs = filter (\<lambda>k. f k \<noteq> f h) hs"
proof -
  have other: "\<forall>x\<in>set hs. f x \<noteq> f h" if "f a \<noteq> f h" "f h \<le> f a" "\<forall>x\<in>set hs. f a \<le> f x" for a hs
    using that by force
  show "takeWhile (\<lambda>k. f k = f h) hs = filter (\<lambda>k. f k = f h) hs"
    "dropWhile (\<lambda>k. f k = f h) hs = filter (\<lambda>k. f k \<noteq> f h) hs"
    using assms by (induction hs) (auto simp: other intro!: filter_False [symmetric] filter_True [symmetric])
qed

lemma first_group_rest:
  assumes "sorted (map (group_at ps) (h # hs))" "group_at ps ` set (h # hs) = {a..<n}"
  defines "rest \<equiv> dropWhile (\<lambda>k. group_at ps k = group_at ps h) hs"
  shows "a < n" "group_at ps h = a" "sorted (map (group_at ps) rest)" "group_at ps ` set rest = {a + 1..<n}"
    and "h # takeWhile (\<lambda>k. group_at ps k = group_at ps h) hs = members ps (h # hs) a"
    and "\<And>g. a < g \<Longrightarrow> members ps rest g = members ps (h # hs) g"
proof -
  have h: "group_at ps h \<in> {a..<n}" using assms(2) by auto
  then have "a \<in> group_at ps ` set (h # hs)" using assms(2) by simp
  then obtain k where "k \<in> set (h # hs)" "group_at ps k = a" by blast
  then have le: "group_at ps h \<le> a" using assms(1) by auto
  then show a: "group_at ps h = a" and an: "a < n" using h by auto
  have r: "rest = filter (\<lambda>k. group_at ps k \<noteq> a) hs"
    unfolding rest_def a [symmetric] by (rule sorted_first_group [OF assms(1)])
  show "sorted (map (group_at ps) rest)"
    using assms(1) unfolding r by (auto intro: sorted_filter)
  have "group_at ps ` set rest = group_at ps ` set (h # hs) - {a}" using a unfolding r by auto
  then show "group_at ps ` set rest = {a + 1..<n}" using assms(2) by auto
  show "h # takeWhile (\<lambda>k. group_at ps k = group_at ps h) hs = members ps (h # hs) a"
    using sorted_first_group(1) [OF assms(1)] a by (simp add: members_def)
  show "members ps rest g = members ps (h # hs) g" if "a < g" for g
    unfolding r members_def using that a by (auto intro!: filter_cong)
qed

text \<open>One row of the parameters, and the rows of all groups.\<close>

definition group_row :: "periph list \<Rightarrow> nat list \<Rightarrow> int \<Rightarrow> u8 list" where
  "group_row ps hs g = bytes32 (of_nat (length (members ps hs g))) @ bytes64 0
     @ bytes64 (scast (pc_max_energy_ms (pe_pclass (ps ! hd (members ps hs g)))))"

lemma display_groups_rows:
  assumes "sorted (map (group_at ps) hs)" "group_at ps ` set hs = {a..<n}" "same_periphs (sc_periphs sc) ps" "a \<le> n"
  shows "snd (display_groups i hs sc) = concat (map (group_row ps hs) [a..n - 1])"
  using assms
proof (induction i hs sc arbitrary: a rule: display_groups.induct)
  case (1 i sc)
  then have "n \<le> a" by (metis atLeastLessThan_empty_iff image_is_empty list.set(1) not_less)
  then show ?case by simp
next
  case (2 i h hs sc)
  let ?G = "group_at ps" and ?q = "sc_periphs sc"
  note f = first_group_rest [OF 2(2,3)]
  have G: "group_at ?q = ?G" using same_periphsD(1) [OF 2(4)] by (simp add: fun_eq_iff)
  let ?same = "takeWhile (\<lambda>k. group_at ?q k = group_at ?q h) hs"
  let ?rest = "dropWhile (\<lambda>k. group_at ?q k = group_at ?q h) hs"
  let ?sc = "sc\<lparr>sc_periphs := number_periphs i (h # ?same) ?q, sc_max_energy_ms := sc_max_energy_ms sc
    + ucast (of_nat (Suc (length ?same)) * scast (pc_max_energy_ms (pe_pclass (?q ! h))) :: u64)\<rparr>"
  have "same_periphs (sc_periphs ?sc) ps"
    using same_periphs_number [of i "h # ?same" ?q] 2(4) by (simp add: same_periphs_def)
  then have IH: "snd (display_groups (i + Suc (length ?same)) ?rest ?sc) = concat (map (group_row ps ?rest) [a + 1..n - 1])"
    using 2(1) [OF refl refl refl refl, of "a + 1"] f(1,3,4) unfolding G by simp
  have m: "members ps (h # hs) a = h # ?same" using f(5) unfolding G by simp
  have row: "group_row ps (h # hs) a = bytes32 (of_nat (Suc (length ?same))) @ bytes64 0
      @ bytes64 (scast (pc_max_energy_ms (pe_pclass (?q ! h))))"
    unfolding group_row_def m using same_periphsD(2) [OF 2(4), of h] by simp
  have rest: "map (group_row ps ?rest) [a + 1..n - 1] = map (group_row ps (h # hs)) [a + 1..n - 1]"
    using f(6) unfolding G by (simp add: group_row_def)
  have "[a..n - 1] = a # [a + 1..n - 1]" using f(1) by (simp add: upto_rec1)
  then show ?case using IH rest row by (simp add: Let_def)
qed

definition label_row :: "periph list \<Rightarrow> nat list \<Rightarrow> int \<Rightarrow> u8 list" where
  "label_row ps hs g = (let s = c_string (pe_group_name (ps ! hd (members ps hs g))) in bytes32 (of_nat (length s)) @ s)"

lemma display_names_rows:
  assumes "sorted (map (group_at ps) hs)" "group_at ps ` set hs = {a..<n}" "a \<le> n"
  shows "display_names ps hs = concat (map (label_row ps hs) [a..n - 1])"
  using assms
proof (induction ps hs arbitrary: a rule: display_names.induct)
  case (1 ps)
  then have "n \<le> a" by (metis atLeastLessThan_empty_iff image_is_empty list.set(1) not_less)
  then show ?case by simp
next
  case (2 ps h hs)
  note f = first_group_rest [OF 2(2,3)]
  let ?rest = "dropWhile (\<lambda>k. group_at ps k = group_at ps h) hs"
  have IH: "display_names ps ?rest = concat (map (label_row ps ?rest) [a + 1..n - 1])"
    using 2(1) [OF refl f(3,4)] f(1) by simp
  have m: "hd (members ps (h # hs) a) = h" using arg_cong [OF f(5), of hd] by simp
  have rest: "map (label_row ps ?rest) [a + 1..n - 1] = map (label_row ps (h # hs)) [a + 1..n - 1]"
    using f(6) by (simp add: label_row_def)
  have "[a..n - 1] = a # [a + 1..n - 1]" using f(1) by (simp add: upto_rec1)
  moreover have "label_row ps (h # hs) a
      = bytes32 (of_nat (length (c_string (pe_group_name (ps ! h))))) @ c_string (pe_group_name (ps ! h))"
    by (simp add: label_row_def m Let_def)
  ultimately show ?case using IH rest by (simp add: Let_def)
qed

text \<open>After the parameters are written the accounting can start.\<close>

lemma display_init_window_inv:
  assumes "registered sc" "sc_nb_periphs sc \<le> MAX_PERIPHERALS"
  shows "window_inv (fst (display_init sc)) 0"
proof -
  let ?hs = "sc_head_periphs sc" and ?ps = "sc_periphs sc"
  note inv = registered_inv [OF assms(1), unfolded registered_inv_def]
  obtain m where sc': "fst (display_init sc) = sc\<lparr>sc_periphs := number_periphs 0 ?hs ?ps, sc_max_energy_ms := m\<rparr>"
    using display_groups_state [of 0 ?hs sc]
    by (auto simp: display_init_def Let_def case_prod_beta)
  let ?sc = "sc\<lparr>sc_periphs := number_periphs 0 ?hs ?ps, sc_max_energy_ms := m\<rparr>"
  have idx: "pe_idx (number_periphs 0 ?hs ?ps ! (?hs ! i)) = i" if "i < length ?hs" for i
    using number_periphs_at [of ?hs ?ps i 0] inv that by simp
  have ok: "cost_ok (periph_at ?sc h)" "pe_last_change_stamp (periph_at ?sc h) = 0" if "h \<in> set ?hs" for h
    using same_periphsD(4,5) [OF same_periphs_number [of 0 ?hs ?ps]] inv that
    by (auto simp: periph_at_def)
  have i: "pe_idx (periph_at ?sc h) < length ?hs \<and> ?hs ! pe_idx (periph_at ?sc h) = h" if "h \<in> set ?hs" for h
  proof -
    obtain j where j: "j < length ?hs" "?hs ! j = h" using \<open>h \<in> set ?hs\<close> by (auto simp: in_set_conv_nth)
    then have "pe_idx (periph_at ?sc h) = j" using idx [OF j(1)] by (simp add: periph_at_def)
    then show ?thesis using j by simp
  qed
  have "inj_on (\<lambda>h. pe_idx (periph_at ?sc h)) (set ?hs)"
    by (rule inj_on_inverseI [where g = "\<lambda>j. ?hs ! j"]) (use i in blast)
  moreover have "pe_idx (periph_at ?sc h) < MAX_PERIPHERALS" if "h \<in> set ?hs" for h
    using i [OF that] assms(2) inv by linarith
  ultimately have wf: "scope_wf ?sc" using inv ok by (simp add: scope_wf_def)
  have "window_inv ?sc 0"
  proof (rule window_invI [OF wf])
    fix h assume h: "h \<in> set (sc_head_periphs ?sc)"
    then have "sample_en ?sc h = \<lparr>en_processed = False, en_energy = 0\<rparr>"
      using wf inv by (simp add: sample_en_def cur_sample_def scope_wf_def)
    then show "en_processed (sample_en ?sc h) \<Longrightarrow> sc_last_measure_stamp ?sc < pe_last_change_stamp (periph_at ?sc h)"
      "en_energy (sample_en ?sc h) = 0 \<and> pe_last_change_stamp (periph_at ?sc h) \<le> sc_last_measure_stamp ?sc"
      "pe_last_change_stamp (periph_at ?sc h) \<le> 0"
      using ok h by simp_all
  qed (use inv in \<open>simp_all add: cur_sample_def\<close>)
  then show ?thesis by (simp add: sc')
qed

end
