(* ===== verification/Chronograph.thy ===== *)
theory Chronograph
  imports Etrace_Display
begin

text \<open>
  The viewer at the other end of the pipe (\<^verbatim>\<open>tools/chronograph_src/chronograph.cpp\<close>): what its
  \<^verbatim>\<open>main\<close> reads before the window opens, and what its thread reads and draws for every frame.
  A \<^verbatim>\<open>read\<close> takes the bytes it asks for when the stream has them; a short one ends the program
  with status 1. The widgets are left out: a drawn line is its graph, colour and two values.

  The property: the viewer reads what \<open>display_init\<close> of the energy trace writes as it was
  meant, and asks for as many bytes per frame as the trace writes.
\<close>

record chrono =
  ch_stitle :: "u8 list"
  ch_ngrf :: nat
  ch_bAvg :: bool
  ch_ms_between_values :: u32
  ch_ngrf_in_grf :: "u32 list"
  ch_val_min_grf :: "u64 list"
  ch_val_max_grf :: "u64 list"
  ch_nbytes_new_value :: u8
  ch_last_value :: "u8 list"
  ch_labels :: "u8 list list"
  ch_cnt_values :: ulong

definition le64 :: "u8 list \<Rightarrow> u64" where
  "le64 bs = ucast (le32 (take 4 bs)) OR push_bit 32 (ucast (le32 (drop 4 bs)))"

definition read_bytes :: "nat \<Rightarrow> u8 list \<Rightarrow> (u8 list \<times> u8 list) res" where
  "read_bytes n bs = (if n \<le> length bs then Inr (take n bs, drop n bs) else Inl (Exit 1))"

definition read_u32 :: "u8 list \<Rightarrow> (u32 \<times> u8 list) res" where
  "read_u32 bs = bindr (read_bytes 4 bs) (\<lambda>(v, bs). Inr (le32 v, bs))"

definition read_u64 :: "u8 list \<Rightarrow> (u64 \<times> u8 list) res" where
  "read_u64 bs = bindr (read_bytes 8 bs) (\<lambda>(v, bs). Inr (le64 v, bs))"

text \<open>A length and that many bytes, into an array of \<open>cap\<close> bytes.\<close>

definition read_text :: "nat \<Rightarrow> u8 list \<Rightarrow> (u8 list \<times> u8 list) res" where
  "read_text cap bs =
     bindr (read_u32 bs) (\<lambda>(val, bs).
     if cap < min (unat val) (length bs) then Inl OutOfBounds else read_bytes (unat val) bs)"

fun read_rows :: "nat \<Rightarrow> u8 list \<Rightarrow> ((u32 \<times> u64 \<times> u64) list \<times> u8 list) res" where
  "read_rows 0 bs = Inr ([], bs)"
| "read_rows (Suc n) bs =
     bindr (read_u32 bs) (\<lambda>(k, bs). bindr (read_u64 bs) (\<lambda>(lo, bs). bindr (read_u64 bs) (\<lambda>(hi, bs).
     bindr (read_rows n bs) (\<lambda>(rows, bs). Inr ((k, lo, hi) # rows, bs)))))"

fun read_labels :: "nat \<Rightarrow> u8 list \<Rightarrow> (u8 list list \<times> u8 list) res" where
  "read_labels 0 bs = Inr ([], bs)"
| "read_labels (Suc n) bs =
     bindr (read_text 100 bs) (\<lambda>(l, bs). bindr (read_labels n bs) (\<lambda>(ls, bs). Inr (l # ls, bs)))"

text \<open>The mean bounds of the graph of averages: a sum of \<open>long long\<close> divided by the number of graphs.\<close>

definition mean_bound :: "u64 list \<Rightarrow> nat \<Rightarrow> u64 res" where
  "mean_bound vs n = (if n = 0 then Inl DivByZero else Inr (word_of_int (sint (sum_list vs) sdiv int n)))"

definition chrono_main :: "u8 list \<Rightarrow> (chrono \<times> u8 list) res" where
  "chrono_main bs =
     bindr (read_text 200 bs) (\<lambda>(title, bs).
     bindr (read_u32 bs) (\<lambda>(val, bs).
     let ngrf = unat (val AND 0x7F); avg = (val AND 0x80 \<noteq> 0) in
     bindr (read_u32 bs) (\<lambda>(ms, bs).
     bindr (read_rows ngrf bs) (\<lambda>(rows, bs).
     bindr (mean_bound (map (\<lambda>r. fst (snd r)) rows) ngrf) (\<lambda>lo.
     bindr (mean_bound (map (\<lambda>r. snd (snd r)) rows) ngrf) (\<lambda>hi.
     let nbytes = sum_list (map (\<lambda>r. ucast (fst r)) rows); n = (if avg then ngrf + 1 else ngrf) in
     bindr (read_labels n bs) (\<lambda>(labels, bs).
     Inr (\<lparr>ch_stitle = title, ch_ngrf = n, ch_bAvg = avg, ch_ms_between_values = ms,
            ch_ngrf_in_grf = map fst rows, ch_val_min_grf = map (\<lambda>r. fst (snd r)) rows @ [lo],
            ch_val_max_grf = map (\<lambda>r. snd (snd r)) rows @ [hi], ch_nbytes_new_value = nbytes,
            ch_last_value = replicate (unat nbytes) 0, ch_labels = labels, ch_cnt_values = 0\<rparr>, bs))))))))"

subsection \<open>Frames\<close>

text \<open>A line of the graph \<open>ln_graph\<close> in the colour \<open>ln_colour\<close>, from the last value to the new one.\<close>

record drawn_line =
  ln_graph :: nat
  ln_colour :: nat
  ln_from :: ulong
  ln_to :: ulong

fun draw_curves :: "nat \<Rightarrow> nat list \<Rightarrow> nat \<Rightarrow> u8 list \<Rightarrow> u8 list \<Rightarrow> ulong \<Rightarrow> ulong
    \<Rightarrow> (u8 list \<times> ulong \<times> ulong \<times> drawn_line list) res" where
  "draw_curves i [] start new lst sval slval = Inr (lst, sval, slval, [])"
| "draw_curves i (j # js) start new lst sval slval =
     bindr (rd new j) (\<lambda>v. bindr (rd lst j) (\<lambda>l. bindr (wr lst j v) (\<lambda>lst.
     bindr (draw_curves i js start new lst (sval + ucast v) (slval + ucast l)) (\<lambda>(lst, sval, slval, lns).
     Inr (lst, sval, slval,
       \<lparr>ln_graph = i, ln_colour = (j - start) mod 16, ln_from = ucast l, ln_to = ucast v\<rparr> # lns)))))"

text \<open>The loop of \<open>update_graph\<close> over the graphs that are left.\<close>

fun draw_graphs :: "chrono \<Rightarrow> nat \<Rightarrow> nat list \<Rightarrow> u8 list \<Rightarrow> u8 list \<Rightarrow> ulong \<Rightarrow> ulong
    \<Rightarrow> (u8 list \<times> drawn_line list) res" where
  "draw_graphs c idx [] new lst sval slval = Inr (lst, [])"
| "draw_graphs c idx (i # is) new lst sval slval =
     (if i = ch_ngrf c - 1 \<and> ch_bAvg c then
        if ch_nbytes_new_value c = 0 then Inl DivByZero
        else bindr (draw_graphs c idx is new lst sval slval) (\<lambda>(lst, lns).
          Inr (lst, \<lparr>ln_graph = i, ln_colour = 0, ln_from = slval div ucast (ch_nbytes_new_value c),
                     ln_to = sval div ucast (ch_nbytes_new_value c)\<rparr> # lns))
      else
        bindr (rd (ch_ngrf_in_grf c) i) (\<lambda>n.
        bindr (draw_curves i [idx..<idx + unat n] idx new lst sval slval) (\<lambda>(lst, sval, slval, lns).
        bindr (draw_graphs c (idx + unat n) is new lst sval slval) (\<lambda>(lst, lns').
        Inr (lst, lns @ lns')))))"

definition chrono_frame :: "chrono \<Rightarrow> u8 list \<Rightarrow> (chrono \<times> drawn_line list \<times> u8 list) res" where
  "chrono_frame c bs =
     bindr (read_bytes (unat (ch_nbytes_new_value c)) bs) (\<lambda>(new, bs).
     bindr (draw_graphs c 0 [0..<ch_ngrf c] new (ch_last_value c) 0 0) (\<lambda>(lst, lns).
     Inr (c\<lparr>ch_last_value := lst, ch_cnt_values := ch_cnt_values c + 1\<rparr>, lns, bs)))"

subsection \<open>Reading what was written\<close>

lemma length_bytes64 [simp]: "length (bytes64 w) = 8"
  by (simp add: bytes64_def)

lemma le64_bytes64 [simp]: "le64 (bytes64 w) = w"
proof (rule bit_word_eqI)
  fix n assume "n < LENGTH(64)"
  then have n: "n < 64" by simp
  show "bit (le64 (bytes64 w)) n = bit w n"
    using n le_add_diff_inverse [of 32 n]
    by (cases "n < 32") (auto simp: le64_def bytes64_def bit_simps)
qed

lemma read_bytes_append [simp]: "length xs = n \<Longrightarrow> read_bytes n (xs @ ys) = Inr (xs, ys)"
  by (auto simp: read_bytes_def)

lemma read_u32_append [simp]: "read_u32 (bytes32 w @ bs) = Inr (w, bs)"
  by (simp add: read_u32_def)

lemma read_u64_append [simp]: "read_u64 (bytes64 w @ bs) = Inr (w, bs)"
  by (simp add: read_u64_def)

lemma read_text_append:
  assumes "length s \<le> cap" "length s < 2 ^ 32"
  shows "read_text cap (bytes32 (of_nat (length s)) @ s @ bs) = Inr (s, bs)"
  using assms by (simp add: read_text_def of_nat_inverse [OF refl])

lemma read_rows_concat:
  "read_rows (length rows) (concat (map (\<lambda>(k, lo, hi). bytes32 k @ bytes64 lo @ bytes64 hi) rows) @ bs) = Inr (rows, bs)"
  by (induction rows) auto

lemma read_labels_concat:
  assumes "\<forall>s\<in>set ls. length s \<le> 100"
  shows "read_labels (length ls) (concat (map (\<lambda>s. bytes32 (of_nat (length s)) @ s) ls) @ bs) = Inr (ls, bs)"
  using assms by (induction ls) (simp_all add: read_text_append)

lemma sum_list_indicator:
  "distinct gs \<Longrightarrow> sum_list (map (\<lambda>g. if x = g then 1 else (0 :: nat)) gs) = (if x \<in> set gs then 1 else 0)"
  by (induction gs) auto

lemma members_total:
  assumes "distinct gs" "\<forall>h\<in>set hs. group_at ps h \<in> set gs"
  shows "sum_list (map (\<lambda>g. length (members ps hs g)) gs) = length hs"
  using assms(2)
proof (induction hs)
  case (Cons h hs)
  have "length (members ps (h # hs) g) = (if group_at ps h = g then 1 else 0) + length (members ps hs g)" for g
    by (simp add: members_def)
  then show ?case using Cons sum_list_indicator [OF assms(1), of "group_at ps h"] by (simp add: sum_list_addf)
qed (simp add: members_def)

lemma sum_list_ucast_of_nat:
  "sum_list (map (\<lambda>g. ucast (of_nat (f g) :: u32) :: u8) gs) = of_nat (sum_list (map f gs))"
proof (induction gs)
  case (Cons g gs)
  have "ucast (of_nat (f g) :: u32) = (of_nat (f g) :: u8)"
    by (rule bit_word_eqI) (simp add: bit_simps)
  then show ?case using Cons by simp
qed simp

text \<open>What the parameters say: a row per group with the number of its members, and the total.\<close>

definition param_rows :: "scope_state \<Rightarrow> u32 \<Rightarrow> (u32 \<times> u64 \<times> u64) list" where
  "param_rows sc m = map (\<lambda>g. (of_nat (length (members (sc_periphs sc) (sc_head_periphs sc) g)), 0,
       scast (pc_max_energy_ms (pe_pclass (sc_periphs sc ! hd (members (sc_periphs sc) (sc_head_periphs sc) g))))))
     [0..sc_nb_groups sc - 1] @ [(2, 0, scast m)]"

definition param_labels :: "scope_state \<Rightarrow> u8 list list" where
  "param_labels sc = map (\<lambda>g. c_string (pe_group_name (sc_periphs sc ! hd (members (sc_periphs sc) (sc_head_periphs sc) g))))
     [0..sc_nb_groups sc - 1] @ [c_string ''Total '']"

lemma display_init_bytes:
  assumes "registered sc"
  shows "snd (display_init sc) = bytes32 18 @ c_string ''Power consumption''
    @ bytes32 (of_int (sc_nb_groups sc) + 1) @ bytes32 20
    @ concat (map (\<lambda>(k, lo, hi). bytes32 k @ bytes64 lo @ bytes64 hi) (param_rows sc (sc_max_energy_ms (fst (display_init sc)))))
    @ concat (map (\<lambda>s. bytes32 (of_nat (length s)) @ s) (param_labels sc))"
proof -
  let ?hs = "sc_head_periphs sc" and ?ps = "sc_periphs sc" and ?n = "sc_nb_groups sc"
  let ?ps' = "number_periphs 0 ?hs ?ps"
  note inv = registered_inv [OF assms, unfolded registered_inv_def]
  have srt: "sorted (map (group_at ?ps) ?hs)" "group_at ?ps ` set ?hs = {0..<?n}" "0 \<le> ?n" using inv by blast+
  have same: "same_periphs ?ps' ?ps" by (rule same_periphs_number)
  have G: "group_at ?ps' = group_at ?ps" using same_periphsD(1) [OF same] by (simp add: fun_eq_iff)
  obtain m where st: "fst (display_groups 0 ?hs sc) = sc\<lparr>sc_periphs := ?ps', sc_max_energy_ms := m\<rparr>"
    using display_groups_state by blast
  have init: "fst (display_init sc) = fst (display_groups 0 ?hs sc)"
    by (simp add: display_init_def Let_def case_prod_beta)
  have rows: "snd (display_groups 0 ?hs sc) = concat (map (group_row ?ps ?hs) [0..?n - 1])"
    using display_groups_rows [OF srt(1,2) _ srt(3)] by (simp add: same_periphs_def)
  have names: "display_names ?ps' ?hs = concat (map (label_row ?ps' ?hs) [0..?n - 1])"
    using display_names_rows [of ?ps' ?hs 0 ?n] srt unfolding G by simp
  have lab: "label_row ?ps' ?hs = label_row ?ps ?hs"
    using same_periphsD(3) [OF same] by (simp add: fun_eq_iff label_row_def members_def G)
  show ?thesis
    unfolding display_init_def init st
    by (simp add: Let_def case_prod_beta st rows names [unfolded lab] param_rows_def param_labels_def group_row_def [abs_def]
        label_row_def [abs_def] c_string_def o_def)
qed

lemma bits_low:
  fixes w :: u32
  assumes "take_bit 7 w = w"
  shows "w AND 0x7F = w" "w AND 0x80 = 0"
proof -
  have "(0x7F :: u32) = mask 7" by (simp add: mask_eq_exp_minus_1)
  then show "w AND 0x7F = w" using assms by (simp add: take_bit_eq_mask)
  have "\<not> bit w 7" using arg_cong [OF assms, of "\<lambda>v. bit v 7"] by (simp add: bit_take_bit_iff)
  then show "w AND 0x80 = 0" using and_exp_iff [of w 7] by simp
qed

lemma read_title: "read_text 200 (bytes32 18 @ c_string ''Power consumption'' @ bs) = Inr (c_string ''Power consumption'', bs)"
  using read_text_append [of "c_string ''Power consumption''" 200 bs] by (simp add: c_string_def)

text \<open>
  The viewer and the energy trace agree on the stream. After any registration of
  peripherals, up to 126 groups with names of at most 99 characters and up to 253
  peripherals, the viewer accepts the parameters that \<open>display_init\<close> writes and consumes
  exactly them: one graph per group and the total, the number of members of each group, the
  names of the groups in their order; and for every frame it will read one byte per
  peripheral and two more, which is what every pass of \<open>scope_trigger\<close> writes.
\<close>
theorem chronograph_reads_parameters:
  assumes "registered sc" "sc_nb_groups sc \<le> 126" "sc_nb_periphs sc \<le> 253"
    and "\<forall>p\<in>set (sc_periphs sc). length (pe_group_name p) \<le> 99"
  shows "\<exists>c. chrono_main (snd (display_init sc) @ bs) = Inr (c, bs)
    \<and> ch_stitle c = c_string ''Power consumption'' \<and> ch_ngrf c = nat (sc_nb_groups sc) + 1 \<and> \<not> ch_bAvg c
    \<and> ch_ms_between_values c = 20
    \<and> map unat (ch_ngrf_in_grf c)
        = map (\<lambda>g. length (members (sc_periphs sc) (sc_head_periphs sc) g)) [0..sc_nb_groups sc - 1] @ [2]
    \<and> ch_labels c = param_labels sc \<and> unat (ch_nbytes_new_value c) = sc_nb_periphs sc + 2"
proof -
  let ?hs = "sc_head_periphs sc" and ?ps = "sc_periphs sc" and ?n = "sc_nb_groups sc"
  note inv = registered_inv [OF assms(1), unfolded registered_inv_def]
  define m where "m = sc_max_energy_ms (fst (display_init sc))"
  let ?rows = "param_rows sc m"
  have nr: "length ?rows = nat ?n + 1" using inv by (simp add: param_rows_def)
  have nl: "length (param_labels sc) = nat ?n + 1" using inv by (simp add: param_labels_def)
  let ?w = "of_int ?n + 1 :: u32"
  have w: "?w = of_nat (nat ?n + 1)" using inv by simp
  have uw: "unat ?w = nat ?n + 1" unfolding w by (rule of_nat_inverse [OF refl]) (use assms(2) in simp)
  have "take_bit 7 ?w = ?w" using uw assms(2) by (simp only: word_unat_eq_iff unsigned_take_bit_eq uw take_bit_nat_eq_self_iff) simp
  then have cnt: "unat (?w AND 0x7F) = nat ?n + 1" "?w AND 0x80 = 0"
    using uw bits_low [of ?w] by simp_all
  have short: "\<forall>s\<in>set (param_labels sc). length s \<le> 100"
  proof -
    have "hd (members ?ps ?hs g) < length ?ps" if "0 \<le> g" "g < ?n" for g
    proof -
      have img: "group_at ?ps ` set ?hs = {0..<?n}" using inv by blast
      have "g \<in> group_at ?ps ` set ?hs" unfolding img using that by simp
      then have "members ?ps ?hs g \<noteq> []" by (auto simp: members_def filter_empty_conv)
      then have "hd (members ?ps ?hs g) \<in> set ?hs" using hd_in_set by (fastforce simp: members_def)
      then show ?thesis using inv by simp
    qed
    then have "length (pe_group_name (?ps ! hd (members ?ps ?hs g))) \<le> 99" if "0 \<le> g" "g < ?n" for g
      using assms(4) that nth_mem by blast
    then show ?thesis by (fastforce simp: param_labels_def c_string_def)
  qed
  have rows: "read_rows (nat ?n + 1) (concat (map (\<lambda>(k, lo, hi). bytes32 k @ bytes64 lo @ bytes64 hi) ?rows) @ bs)
      = Inr (?rows, bs)" for bs
    using read_rows_concat [of ?rows bs] by (simp only: nr)
  have labels: "read_labels (nat ?n + 1) (concat (map (\<lambda>s. bytes32 (of_nat (length s)) @ s) (param_labels sc)) @ bs)
      = Inr (param_labels sc, bs)" for bs
    using read_labels_concat [OF short, of bs] by (simp only: nl)
  have tot: "sum_list (map (\<lambda>g. length (members ?ps ?hs g)) [0..?n - 1]) = sc_nb_periphs sc"
  proof -
    have "group_at ?ps ` set ?hs = {0..<?n}" using inv by blast
    then have "\<forall>h\<in>set ?hs. group_at ?ps h \<in> {0..<?n}" by blast
    then have "\<forall>h\<in>set ?hs. group_at ?ps h \<in> set [0..?n - 1]" by simp
    from members_total [OF _ this] show ?thesis using inv by simp
  qed
  have nbytes: "sum_list (map (\<lambda>r. ucast (fst r)) ?rows) = (of_nat (sc_nb_periphs sc + 2) :: u8)"
    using sum_list_ucast_of_nat [of "\<lambda>g. length (members ?ps ?hs g)" "[0..?n - 1]"] tot
    by (simp add: param_rows_def o_def)
  have unb: "unat (of_nat (sc_nb_periphs sc + 2) :: u8) = sc_nb_periphs sc + 2"
    by (rule of_nat_inverse [OF refl]) (use assms(3) in simp)
  have size_le: "length (members ?ps ?hs g) \<le> 253" for g
  proof -
    have "length ?hs \<le> 253" using assms(3) inv by linarith
    then show ?thesis using length_filter_le order_trans unfolding members_def by blast
  qed
  have grf: "map unat (map fst ?rows) = map (\<lambda>g. length (members ?ps ?hs g)) [0..?n - 1] @ [2]"
    using size_le by (auto simp: param_rows_def o_def intro!: of_nat_inverse [OF refl] le_less_trans [OF size_le])
  define N where "N = nat ?n + 1"
  define B where "B = sc_nb_periphs sc + 2"
  have N: "N \<noteq> 0" by (simp add: N_def)
  show ?thesis
    unfolding display_init_bytes [OF assms(1)] chrono_main_def m_def [symmetric] append_assoc N_def [symmetric]
      B_def [symmetric]
    using N cnt [folded N_def] unb [folded B_def] grf nbytes [folded B_def]
    by (simp add: read_title rows [folded N_def] labels [folded N_def] mean_bound_def Let_def
      del: map_map)
qed

text \<open>Two processors in one group, as \<open>qemu_wrapper\<close> registers them.\<close>

lemma two_cpus_registered:
  "\<exists>sc. registered sc \<and> sc_nb_groups sc = 1 \<and> sc_nb_periphs sc = 2 \<and> length (sc_periphs sc) = 2
    \<and> (\<forall>p\<in>set (sc_periphs sc). length (pe_group_name p) \<le> 99)"
proof -
  have ok: "class_ok etrace_arm_class" by (simp add: class_ok_def etrace_arm_class_def)
  obtain sc1 where 1: "add_periph ''ARM'' etrace_arm_class (- 1) ''CPU 0-1'' scope_new = Inr (sc1, 0, 0)"
    by (simp add: add_periph_def scope_new_def Let_def)
  then have sc1: "sc_nb_groups sc1 = 1" "sc_nb_periphs sc1 = 1" "map pe_group_id (sc_periphs sc1) = [0]"
    "sc_head_periphs sc1 = [0]" "\<forall>p\<in>set (sc_periphs sc1). length (pe_group_name p) \<le> 99"
    by (auto simp: add_periph_def scope_new_def Let_def)
  have r1: "registered sc1"
    by (rule registered.add [OF registered.none _ ok 1]) (simp add: scope_new_def)
  obtain p where p: "sc_periphs sc1 = [p]" "pe_group_id p = 0" using sc1(3) by auto
  obtain sc2 where 2: "add_periph ''ARM'' etrace_arm_class 0 ''CPU 0-1'' sc1 = Inr (sc2, 0, 1)"
    using p sc1(4) by (simp add: add_periph_def Let_def)
  then have "sc_nb_groups sc2 = 1" "sc_nb_periphs sc2 = 2" "length (sc_periphs sc2) = 2"
    "\<forall>p\<in>set (sc_periphs sc2). length (pe_group_name p) \<le> 99"
    using p sc1 by (auto simp: add_periph_def Let_def)
  moreover have "registered sc2" by (rule registered.add [OF r1 _ ok 2]) (simp add: sc1)
  ultimately show ?thesis by blast
qed

theorem chronograph_reads_parameters_witness:
  "\<exists>sc c. registered sc \<and> chrono_main (snd (display_init sc)) = Inr (c, []) \<and> ch_ngrf c = 2
    \<and> unat (ch_nbytes_new_value c) = 4"
proof -
  obtain sc where sc: "registered sc" "sc_nb_groups sc = 1" "sc_nb_periphs sc = 2"
    "\<forall>p\<in>set (sc_periphs sc). length (pe_group_name p) \<le> 99"
    using two_cpus_registered by blast
  then show ?thesis using chronograph_reads_parameters [OF sc(1) _ _ sc(4), of "[]"] by fastforce
qed

end
