(* ===== verification/Slave_Device.thy ===== *)
theory Slave_Device
  imports Abstract_Noc
begin

text \<open>
  The base class of every device on the network (\<^verbatim>\<open>slave_device/slave_device.cpp\<close>). A
  device overrides \<open>rcv_rqst\<close>, which every device of the repository ends with one call of
  \<open>send_rsp\<close>; here \<open>rcv_rqst\<close> is an argument that returns the device's new state, what it
  did to the outside, the data buffer and the flag it passes to \<open>send_rsp\<close>. The contract
  of \<open>rcv_rqst\<close> is the locale below; each device interprets it.
\<close>

record slave_device =
  sd_req :: vci_request
  sd_rsp :: vci_response
  sd_bProcessing_rq :: bool
  sd_write_invalidate :: bool

datatype slave_out = PutRsp vci_response | InvalidateAddress u32 int u32 u16

type_synonym ('s, 'e) rcv_rqst =
  "vci_request \<Rightarrow> 's \<Rightarrow> ulong \<Rightarrow> u8 \<Rightarrow> u8 list \<Rightarrow> bool \<Rightarrow> ('s \<times> 'e list \<times> u8 list \<times> bool) res"

text \<open>The constructor. \<open>m_rsp\<close> and \<open>m_req\<close> are not initialised: arguments.\<close>

definition slave_device_new :: "vci_request \<Rightarrow> vci_response \<Rightarrow> slave_device" where
  "slave_device_new req rsp = \<lparr>sd_req = req, sd_rsp = rsp, sd_bProcessing_rq = False,
     sd_write_invalidate = False\<rparr>"

definition send_rsp :: "slave_device \<Rightarrow> bool \<Rightarrow> slave_device \<times> slave_out list" where
  "send_rsp d bErr =
     (let inval = (if sd_write_invalidate d \<and> rq_cmd (sd_req d) = CMD_WRITE
                   then [InvalidateAddress (rq_initial_address (sd_req d)) (rq_slave_id (sd_req d))
                           (rq_initial_address (sd_req d)) (rq_srcid (sd_req d))]
                   else []);
          d = d\<lparr>sd_rsp := (sd_rsp d)\<lparr>rs_rerror := bErr\<rparr>\<rparr>
      in (d\<lparr>sd_bProcessing_rq := False\<rparr>, inval @ [PutRsp (sd_rsp d)]))"

text \<open>One iteration of \<open>request_thread\<close>, for the request \<open>get_port\<close> delivers.\<close>

definition request_thread :: "('s, 'e) rcv_rqst \<Rightarrow> slave_device \<Rightarrow> 's \<Rightarrow> vci_request
    \<Rightarrow> (slave_device \<times> 's \<times> 'e list \<times> slave_out list) res" where
  "request_thread rcv d s req =
     (let d = d\<lparr>sd_req := req\<rparr> in
      if sd_bProcessing_rq d then Inr (d, s, [], [])
      else
        let d = d\<lparr>sd_bProcessing_rq := True\<rparr>;
            addr = rq_address (sd_req d);
            be = rq_be (sd_req d);
            cmd = rq_cmd (sd_req d);
            d = d\<lparr>sd_rsp := (sd_rsp d)\<lparr>rs_rsrcid := rq_srcid (sd_req d),
                    rs_rtrdid := rq_trdid (sd_req d), rs_reop := True, rs_rbe := be\<rparr>\<rparr>
        in if cmd = CMD_WRITE then
             bindr (rcv (sd_req d) s addr be (rq_wdata (sd_req d)) True) (\<lambda>(s, es, data, bErr).
             let d = d\<lparr>sd_req := (sd_req d)\<lparr>rq_wdata := data\<rparr>\<rparr>; (d, os) = send_rsp d bErr
             in Inr (d, s, es, os))
           else if cmd = CMD_READ then
             bindr (rcv (sd_req d) s addr be (rs_rdata (sd_rsp d)) False) (\<lambda>(s, es, data, bErr).
             let d = d\<lparr>sd_rsp := (sd_rsp d)\<lparr>rs_rdata := data\<rparr>\<rparr>; (d, os) = send_rsp d bErr
             in Inr (d, s, es, os))
           else Inr (d, s, [], []))"

text \<open>The thread on a list of requests, in the order they arrive.\<close>

fun request_loop :: "('s, 'e) rcv_rqst \<Rightarrow> slave_device \<Rightarrow> 's \<Rightarrow> vci_request list
    \<Rightarrow> (slave_device \<times> 's \<times> 'e list \<times> slave_out list) res" where
  "request_loop rcv d s [] = Inr (d, s, [], [])"
| "request_loop rcv d s (req # reqs) =
     bindr (request_thread rcv d s req) (\<lambda>(d, s, es, os).
     bindr (request_loop rcv d s reqs) (\<lambda>(d, s, es', os'). Inr (d, s, es @ es', os @ os')))"

definition is_access :: "vci_request \<Rightarrow> bool" where
  "is_access req \<longleftrightarrow> rq_cmd req = CMD_READ \<or> rq_cmd req = CMD_WRITE"

text \<open>The response to an access: its identifiers and byte enables are those of the request.\<close>

definition answers :: "vci_request \<Rightarrow> vci_response \<Rightarrow> bool" where
  "answers req rsp \<longleftrightarrow> rs_rsrcid rsp = rq_srcid req \<and> rs_rtrdid rsp = rq_trdid req
     \<and> rs_reop rsp \<and> rs_rbe rsp = rq_be req \<and> length (rs_rdata rsp) = 8"

definition sd_idle :: "slave_device \<Rightarrow> bool" where
  "sd_idle d \<longleftrightarrow> \<not> sd_bProcessing_rq d \<and> \<not> sd_write_invalidate d \<and> wf_response (sd_rsp d)"

lemma slave_device_new_idle [simp]: "wf_response rsp \<Longrightarrow> sd_idle (slave_device_new req rsp)"
  by (simp add: sd_idle_def slave_device_new_def)

text \<open>A request that arrives while an earlier one is unanswered is dropped.\<close>

lemma request_thread_busy:
  "sd_bProcessing_rq d \<Longrightarrow> request_thread rcv d s req = Inr (d\<lparr>sd_req := req\<rparr>, s, [], [])"
  by (simp add: request_thread_def)

lemma request_loop_busy:
  "sd_bProcessing_rq d \<Longrightarrow> \<exists>d'. request_loop rcv d s reqs = Inr (d', s, [], []) \<and> sd_bProcessing_rq d'"
proof (induction reqs arbitrary: d)
  case (Cons req reqs)
  from Cons.IH [of "d\<lparr>sd_req := req\<rparr>"] Cons.prems show ?case by (auto simp: request_thread_busy)
qed simp

text \<open>A command that is neither a read nor a write gets no response, and it blocks the device.\<close>

lemma request_thread_unknown:
  assumes "\<not> is_access req" "\<not> sd_bProcessing_rq d"
  shows "\<exists>d'. request_thread rcv d s req = Inr (d', s, [], []) \<and> sd_bProcessing_rq d'"
  using assms by (simp add: request_thread_def is_access_def Let_def)

lemma request_thread_read:
  assumes "sd_idle d" "rq_cmd req = CMD_READ"
    and "rcv req s (rq_address req) (rq_be req) (rs_rdata (sd_rsp d)) False = Inr (s', es, data, bErr)"
  shows "request_thread rcv d s req =
    (let rsp = (sd_rsp d)\<lparr>rs_rsrcid := rq_srcid req, rs_rtrdid := rq_trdid req, rs_reop := True,
                 rs_rbe := rq_be req, rs_rdata := data, rs_rerror := bErr\<rparr>
     in Inr (d\<lparr>sd_req := req, sd_rsp := rsp\<rparr>, s', es, [PutRsp rsp]))"
  using assms by (simp add: request_thread_def send_rsp_def sd_idle_def Let_def cmd_defs)

lemma request_thread_write:
  assumes "sd_idle d" "rq_cmd req = CMD_WRITE"
    and "rcv req s (rq_address req) (rq_be req) (rq_wdata req) True = Inr (s', es, data, bErr)"
  shows "request_thread rcv d s req =
    (let rsp = (sd_rsp d)\<lparr>rs_rsrcid := rq_srcid req, rs_rtrdid := rq_trdid req, rs_reop := True,
                 rs_rbe := rq_be req, rs_rerror := bErr\<rparr>
     in Inr (d\<lparr>sd_req := req\<lparr>rq_wdata := data\<rparr>, sd_rsp := rsp\<rparr>, s', es, [PutRsp rsp]))"
  using assms by (simp add: request_thread_def send_rsp_def sd_idle_def Let_def)

subsection \<open>The contract of a device\<close>

locale slave_module =
  fixes rcv :: "('s, 'e) rcv_rqst"
    and invar :: "'s \<Rightarrow> bool"
  assumes rcv_invar: "invar s \<Longrightarrow> length data = 8 \<Longrightarrow>
      rcv req s ofs be data w = Inr (s', es, data', bErr) \<Longrightarrow> invar s'"
    and rcv_length: "invar s \<Longrightarrow> length data = 8 \<Longrightarrow>
      rcv req s ofs be data w = Inr (s', es, data', bErr) \<Longrightarrow> length data' = 8"
    and rcv_wdata: "invar s \<Longrightarrow> length data = 8 \<Longrightarrow>
      rcv req s ofs be data True = Inr (s', es, data', bErr) \<Longrightarrow> data' = data"
begin

lemma access_answered:
  assumes d: "sd_idle d" and v: "invar s" and wf: "wf_request req" and acc: "is_access req"
    and t: "request_thread rcv d s req = Inr (d', s', es, os)"
  shows "sd_idle d' \<and> invar s' \<and> (\<exists>rsp. os = [PutRsp rsp] \<and> answers req rsp)"
proof (cases "rq_cmd req = CMD_WRITE")
  case True
  have l: "length (rq_wdata req) = 8" using wf by (simp add: wf_request_def)
  from d t True obtain data bErr
    where r: "rcv req s (rq_address req) (rq_be req) (rq_wdata req) True = Inr (s', es, data, bErr)"
    by (auto simp: request_thread_def sd_idle_def send_rsp_def Let_def bindr_eq_Inr)
  from rcv_invar [OF v l r] request_thread_write [of d req rcv, OF d True r] t d
  show ?thesis by (auto simp: Let_def sd_idle_def wf_response_def answers_def)
next
  case False
  with acc have c: "rq_cmd req = CMD_READ" by (simp add: is_access_def)
  have l: "length (rs_rdata (sd_rsp d)) = 8" using d by (simp add: sd_idle_def wf_response_def)
  from d t c obtain data bErr
    where r: "rcv req s (rq_address req) (rq_be req) (rs_rdata (sd_rsp d)) False = Inr (s', es, data, bErr)"
    by (auto simp: request_thread_def sd_idle_def send_rsp_def Let_def bindr_eq_Inr cmd_defs)
  from rcv_invar [OF v l r] rcv_length [OF v l r] request_thread_read [of d req rcv, OF d c r] t d
  show ?thesis by (auto simp: Let_def sd_idle_def wf_response_def answers_def)
qed

lemma loop_answers_all:
  assumes "sd_idle d" "invar s" "list_all wf_request reqs" "list_all is_access reqs"
    and "request_loop rcv d s reqs = Inr (d', s', es, os)"
  shows "sd_idle d' \<and> invar s' \<and> (\<exists>rsps. os = map PutRsp rsps \<and> list_all2 answers reqs rsps)"
  using assms
proof (induction reqs arbitrary: d s es os)
  case Nil
  then show ?case by auto
next
  case (Cons req reqs)
  from Cons.prems(5) obtain d1 s1 es1 os1 es2 os2
    where t: "request_thread rcv d s req = Inr (d1, s1, es1, os1)"
      and l: "request_loop rcv d1 s1 reqs = Inr (d', s', es2, os2)" and o: "os = os1 @ os2"
    by (auto simp: bindr_eq_Inr)
  from access_answered [OF Cons.prems(1,2) _ _ t] Cons.prems(3,4)
  obtain rsp where 1: "sd_idle d1" "invar s1" "os1 = [PutRsp rsp]" "answers req rsp" by auto
  from Cons.IH [OF 1(1,2) _ _ l] Cons.prems(3,4)
  obtain rsps where "sd_idle d'" "invar s'" "os2 = map PutRsp rsps" "list_all2 answers reqs rsps"
    by auto
  with 1 o show ?case by (intro conjI exI [of _ "rsp # rsps"]) auto
qed

lemma loop_invar:
  assumes "sd_idle d" "invar s" "list_all wf_request reqs" "list_all is_access reqs"
    and "request_loop rcv d s reqs = Inr (d', s', es, os)"
  shows "invar s'"
  using loop_answers_all [OF assms] by simp

end

end
