(* ===== verification/Byte_Lanes.thy ===== *)
theory Byte_Lanes
  imports Rabbits_Prelude
begin

text \<open>
  Byte enables. A transaction moves up to eight bytes, and its byte-enable mask says which
  lanes take part. The memories decode the mask with a table that gives the width of the
  access and its position in units of that width; the others shift it. Both decodings, the
  loops that count zeros and ones of a mask, and the typed copies through the decoded
  position are here.
\<close>

subsection \<open>The decoding table of the memories\<close>

text \<open>The \<open>switch (be)\<close> of \<open>mem\<close>, \<open>sram\<close> and \<open>sem\<close>: the index and the width in bytes.\<close>

definition be_lane :: "u8 \<Rightarrow> (nat \<times> nat) option" where
  "be_lane be =
     (if be = 0x01 then Some (0, 1) else if be = 0x02 then Some (1, 1)
      else if be = 0x04 then Some (2, 1) else if be = 0x08 then Some (3, 1)
      else if be = 0x10 then Some (4, 1) else if be = 0x20 then Some (5, 1)
      else if be = 0x40 then Some (6, 1) else if be = 0x80 then Some (7, 1)
      else if be = 0x03 then Some (0, 2) else if be = 0x0C then Some (1, 2)
      else if be = 0x30 then Some (2, 2) else if be = 0xC0 then Some (3, 2)
      else if be = 0x0F then Some (0, 4) else if be = 0xF0 then Some (1, 4)
      else None)"

text \<open>The same table with the line for eight bytes.\<close>

definition be_lane8 :: "u8 \<Rightarrow> (nat \<times> nat) option" where
  "be_lane8 be = (if be = 0xFF then Some (0, 8) else be_lane be)"

text \<open>The mask that enables \<open>w\<close> lanes from lane \<open>k\<close> on.\<close>

definition lanes_mask :: "nat \<Rightarrow> nat \<Rightarrow> u8" where
  "lanes_mask k w = push_bit k (mask w)"

lemma be_lane8_cases:
  assumes "be_lane8 be = Some (l, w)"
  shows "(w = 1 \<and> l < 8 \<or> w = 2 \<and> l < 4 \<or> w = 4 \<and> l < 2 \<or> w = 8 \<and> l = 0) \<and> be = lanes_mask (l * w) w"
proof -
  note d = assms [unfolded be_lane8_def be_lane_def]
  have "(w = 1 \<and> l < 8 \<or> w = 2 \<and> l < 4 \<or> w = 4 \<and> l < 2 \<or> w = 8 \<and> l = 0)"
    using d by (auto split: if_splits)
  moreover have "be = lanes_mask (l * w) w"
    using d by (auto simp: lanes_mask_def mask_eq_decr_exp push_bit_eq_mult split: if_splits)
  ultimately show ?thesis by simp
qed

lemma be_lane_be_lane8: "be_lane be = Some p \<Longrightarrow> be_lane8 be = Some p"
  by (auto simp: be_lane8_def be_lane_def split: if_splits)

lemma be_lane8_fits: "be_lane8 be = Some (l, w) \<Longrightarrow> l * w + w \<le> 8 \<and> 0 < w"
  using be_lane8_cases by fastforce

lemma be_lane_width: "be_lane be = Some (l, w) \<Longrightarrow> w = 1 \<or> w = 2 \<or> w = 4"
  by (auto simp: be_lane_def split: if_splits)

subsection \<open>Loops over a mask\<close>

text \<open>
  \<open>while (!(be & 1)) { ofs++; be >>= 1; }\<close> and \<open>while (be & 1) { n++; be >>= 1; }\<close>, with
  the mask as a number. On a zero mask the first one never stops.
\<close>

function skip_zeros :: "nat \<Rightarrow> nat \<Rightarrow> (nat \<times> nat) res" where
  "skip_zeros be ofs =
     (if be = 0 then Inl Livelock
      else if even be then skip_zeros (be div 2) (ofs + 1) else Inr (be, ofs))"
  by auto
termination by (relation "measure fst") auto

function take_ones :: "nat \<Rightarrow> nat \<Rightarrow> nat \<times> nat" where
  "take_ones be n = (if odd be then take_ones (be div 2) (n + 1) else (be, n))"
  by auto
termination by (relation "measure fst") (auto elim: oddE)

declare skip_zeros.simps [simp del] take_ones.simps [simp del]

lemma skip_zeros_total: "0 < be \<Longrightarrow> \<exists>be' k. skip_zeros be ofs = Inr (be', ofs + k) \<and> odd be' \<and> be = be' * 2 ^ k"
proof (induction be ofs rule: skip_zeros.induct)
  case (1 be ofs)
  show ?case
  proof (cases "even be")
    case True
    with 1 have "0 < be div 2" by (auto elim!: evenE)
    with 1 True obtain be' k where "skip_zeros (be div 2) (ofs + 1) = Inr (be', ofs + 1 + k)"
      "odd be'" "be div 2 = be' * 2 ^ k" by auto
    with True 1(2) show ?thesis
      by (intro exI [of _ be'] exI [of _ "Suc k"]) (auto simp: skip_zeros.simps [of be] elim!: evenE)
  next
    case False
    with 1(2) show ?thesis
      by (intro exI [of _ be] exI [of _ 0]) (auto simp: skip_zeros.simps [of be])
  qed
qed

lemma skip_zeros_shift: "odd b \<Longrightarrow> skip_zeros (b * 2 ^ k) ofs = Inr (b, ofs + k)"
proof (induction k arbitrary: ofs)
  case 0
  then show ?case by (auto simp: skip_zeros.simps [of b] elim: oddE)
next
  case (Suc k)
  then have "0 < b" by (auto elim: oddE)
  with Suc.IH [of "ofs + 1"] Suc.prems show ?case
    by (subst skip_zeros.simps) (simp add: mult.assoc [symmetric] mult.commute [of _ 2] mult.left_commute)
qed

lemma take_ones_run:
  "take_ones be n = (be', n') \<Longrightarrow> n \<le> n' \<and> even be' \<and> be + 1 = (be' + 1) * 2 ^ (n' - n)"
proof (induction be n rule: take_ones.induct)
  case (1 be n)
  show ?case
  proof (cases "odd be")
    case True
    with 1(2) have "take_ones (be div 2) (n + 1) = (be', n')" by (simp add: take_ones.simps [of be])
    from 1(1) [OF True this] have IH: "n + 1 \<le> n'" "even be'"
      "be div 2 + 1 = (be' + 1) * 2 ^ (n' - (n + 1))" by auto
    have "n' - n = Suc (n' - (n + 1))" using IH(1) by simp
    moreover from True have "be + 1 = 2 * (be div 2 + 1)" by (auto elim!: oddE)
    ultimately have "be + 1 = (be' + 1) * 2 ^ (n' - n)" unfolding IH(3) by simp
    with IH show ?thesis by simp
  next
    case False
    with 1(2) show ?thesis by (auto simp: take_ones.simps [of be])
  qed
qed

lemma unat_lanes_mask:
  assumes "k + w \<le> 8"
  shows "unat (lanes_mask k w) = (2 ^ w - 1) * 2 ^ k"
proof -
  have w: "w \<le> 8" using assms by simp
  have "unat (mask w :: u8) = take_bit w (mask 8)"
    by (simp only: unsigned_take_bit_eq unsigned_minus_1_eq_mask len_num0 len_bit0 len_bit1
        flip: take_bit_minus_one_eq_mask) simp
  also have "take_bit w (mask 8 :: nat) = mask w"
    unfolding take_bit_of_mask using w by (simp add: min_def)
  finally have "unat (mask w :: u8) = 2 ^ w - 1" by (simp add: mask_eq_exp_minus_1)
  moreover have "(2 ^ w - 1) * 2 ^ k < (2::nat) ^ 8"
  proof -
    have "(2 ^ w - 1) * 2 ^ k < (2::nat) ^ w * 2 ^ k" by simp
    also have "\<dots> \<le> 2 ^ 8"
      using power_increasing [of "w + k" 8 "2::nat"] assms by (simp add: power_add)
    finally show ?thesis .
  qed
  ultimately show ?thesis
    unfolding lanes_mask_def unsigned_push_bit_eq unfolding push_bit_eq_mult take_bit_eq_mod by simp
qed

lemma skip_zeros_lanes_mask:
  assumes "0 < w" "k + w \<le> 8"
  shows "skip_zeros (unat (lanes_mask k w)) 0 = Inr (2 ^ w - 1, k)"
  using skip_zeros_shift [of "2 ^ w - 1" k 0] assms by (simp add: unat_lanes_mask)

subsection \<open>Typed copies between two buffers\<close>

text \<open>\<open>*((T *) (dst + a) + l) = *((T *) (src + b) + l)\<close> for a type \<open>T\<close> of \<open>w\<close> bytes.\<close>

definition copy_lane :: "u8 list \<Rightarrow> nat \<Rightarrow> u8 list \<Rightarrow> nat \<Rightarrow> nat \<Rightarrow> nat \<Rightarrow> u8 list res" where
  "copy_lane dst a src b l w =
     bindr (rd_bytes src (b + l * w) w) (\<lambda>bs. wr_bytes dst (a + l * w) bs)"

lemma copy_lane_len: "copy_lane dst a src b l w = Inr dst' \<Longrightarrow> length dst' = length dst"
  by (auto simp: copy_lane_def res_simps dest: wr_bytes_len)

lemma copy_lane_eq:
  "b + l * w + w \<le> length src \<Longrightarrow> a + l * w + w \<le> length dst \<Longrightarrow>
     copy_lane dst a src b l w = Inr (put_bytes dst (a + l * w) (take w (drop (b + l * w) src)))"
  by (simp add: copy_lane_def rd_bytes_def wr_bytes_def)

lemma copy_lane_InrD:
  assumes "copy_lane dst a src b l w = Inr dst'"
  shows "b + l * w + w \<le> length src \<and> a + l * w + w \<le> length dst
    \<and> dst' = put_bytes dst (a + l * w) (take w (drop (b + l * w) src))"
  using assms by (auto simp: copy_lane_def rd_bytes_def wr_bytes_def split: if_splits)

lemma copy_lane_moves:
  assumes "copy_lane dst a src b l w = Inr dst'"
  shows "rd_bytes dst' (a + l * w) w = rd_bytes src (b + l * w) w"
  using copy_lane_InrD [OF assms] rd_wr_bytes_same [of dst "a + l * w" "take w (drop (b + l * w) src)" dst']
  by (auto simp: wr_bytes_def rd_bytes_def)

lemma copy_lane_keeps:
  assumes "copy_lane dst a src b l w = Inr dst'" "c + n \<le> a + l * w \<or> a + l * w + w \<le> c"
  shows "rd_bytes dst' c n = rd_bytes dst c n"
  using copy_lane_InrD [OF assms(1)] assms(2)
    rd_wr_bytes_other [of dst "a + l * w" "take w (drop (b + l * w) src)" dst' c n]
  by (auto simp: wr_bytes_def)

text \<open>The byte-wise copy loop of \<open>mem_device::write\<close>: lanes \<open>k\<close> to \<open>e - 1\<close>.\<close>

fun copy_bytes :: "u8 list \<Rightarrow> nat \<Rightarrow> u8 list \<Rightarrow> nat list \<Rightarrow> u8 list res" where
  "copy_bytes mem ofs data [] = Inr mem"
| "copy_bytes mem ofs data (i # is) =
     bindr (rd data i) (\<lambda>b. bindr (wr mem (ofs + i) b) (\<lambda>mem'. copy_bytes mem' ofs data is))"

lemma copy_bytes_len: "copy_bytes mem ofs data is = Inr mem' \<Longrightarrow> length mem' = length mem"
  by (induction "is" arbitrary: mem) (auto simp: res_simps wr_eq_Inr rd_eq_Inr)

subsection \<open>Register accesses\<close>

text \<open>
  The idiom of the register devices: \<open>ofs >>= 2; if (be & 0xF0) { ofs++; the high word }\<close>.
  \<open>reg_lane\<close> is the word of the data buffer, \<open>reg_index\<close> the number of the register.
\<close>

definition reg_lane :: "u8 \<Rightarrow> nat" where
  "reg_lane be = (if be AND 0xF0 \<noteq> 0 then 1 else 0)"

definition reg_index :: "ulong \<Rightarrow> u8 \<Rightarrow> ulong" where
  "reg_index ofs be = (if be AND 0xF0 \<noteq> 0 then drop_bit 2 ofs + 1 else drop_bit 2 ofs)"

definition reg_word :: "u8 list \<Rightarrow> u8 \<Rightarrow> u32" where
  "reg_word data be = u32_at data (reg_lane be)"

definition put_reg_word :: "u8 list \<Rightarrow> u8 \<Rightarrow> u32 \<Rightarrow> u8 list" where
  "put_reg_word data be v = set_u32 data (reg_lane be) v"

lemma reg_lane_fits [simp]: "reg_lane be \<le> Suc 0" "4 * reg_lane be + 4 \<le> 8"
  by (simp_all add: reg_lane_def)

lemma length_put_reg_word [simp]: "length data = 8 \<Longrightarrow> length (put_reg_word data be v) = 8"
  by (simp add: put_reg_word_def)

lemma reg_word_put [simp]: "length data = 8 \<Longrightarrow> reg_word (put_reg_word data be v) be = v"
  by (simp add: reg_word_def put_reg_word_def)

end
