(* ===== verification/Master_Device.thy ===== *)
theory Master_Device
  imports Abstract_Noc Byte_Lanes
begin

text \<open>
  The base class of the masters (\<^verbatim>\<open>master_device/master_device.cpp\<close>): \<open>send_req\<close> turns an
  access of a few bytes at an address into a transaction on eight-byte lanes, and
  \<open>response_thread\<close> hands the lanes of a response back to the device.
\<close>

definition s_operation_mask_be :: "u8 list" where
  "s_operation_mask_be = [0xDE, 0x01, 0x03, 0xDE, 0x0F, 0xDE, 0xDE, 0xDE, 0xFF]"

text \<open>\<open>for (i = 0; i < nbytes; i++) req.wdata[i + ofs] = data[i];\<close>\<close>

fun store_wdata :: "u8 list \<Rightarrow> u8 list \<Rightarrow> nat \<Rightarrow> nat list \<Rightarrow> u8 list res" where
  "store_wdata wdata data ofs [] = Inr wdata"
| "store_wdata wdata data ofs (i # is) =
     bindr (rd data i) (\<lambda>b. bindr (wr wdata (i + ofs) b) (\<lambda>wdata. store_wdata wdata data ofs is))"

text \<open>
  The request \<open>send_req\<close> puts. The fields it does not set keep the unspecified values of the
  local variable: \<open>junk\<close>.
\<close>

definition send_req :: "vci_request \<Rightarrow> ulong \<Rightarrow> u8 \<Rightarrow> ulong \<Rightarrow> u8 list \<Rightarrow> ulong \<Rightarrow> bool
    \<Rightarrow> vci_request res" where
  "send_req junk node_id tid addr data nbytes bWrite =
     (let plen = ucast (drop_bit 2 (nbytes + 3));
          nbytes = (if nbytes > 4 then 4 else nbytes);
          ofs = unat (addr AND 7);
          addr = addr AND 0xFFFFFFF8
      in bindr (rd s_operation_mask_be (unat nbytes)) (\<lambda>m.
         let mask_be = push_bit ofs m;
             req = junk\<lparr>rq_cmd := (if bWrite then CMD_WRITE else CMD_READ), rq_be := mask_be,
                        rq_address := addr, rq_trdid := tid, rq_srcid := ucast node_id,
                        rq_plen := plen, rq_eop := True, rq_wdata := replicate 8 0\<rparr>
         in if bWrite
            then bindr (store_wdata (rq_wdata req) data ofs [0..<unat nbytes]) (\<lambda>wd.
                 Inr (req\<lparr>rq_wdata := wd\<rparr>))
            else Inr req))"

text \<open>
  One iteration of \<open>response_thread\<close>: \<open>None\<close> when the response is reported and skipped, else
  the arguments of \<open>rcv_rsp\<close>, the data from the first enabled lane on.
\<close>

definition response_thread :: "ulong \<Rightarrow> vci_response \<Rightarrow> (u8 \<times> u8 list \<times> bool \<times> bool) option res" where
  "response_thread node_id resp =
     (if ucast (rs_rsrcid resp) \<noteq> node_id then Inr None
      else if \<not> rs_reop resp then Inr None
      else
        let be = unat (rs_rbe resp) in
        bindr (if be \<noteq> 0
               then bindr (skip_zeros be 0) (\<lambda>(be, ofs).
                    let (be, nbytes) = take_ones be 0 in Inr ofs)
               else Inr 0) (\<lambda>ofs.
        Inr (Some (rs_rtrdid resp, drop ofs (rs_rdata resp), rs_rerror resp, False))))"

text \<open>An access that does not cross the lanes its size allows: what the callers send.\<close>

definition aligned_access :: "ulong \<Rightarrow> ulong \<Rightarrow> bool" where
  "aligned_access addr n \<longleftrightarrow> (n = 1 \<or> n = 2 \<or> n = 4) \<and> unat addr mod unat n = 0"

definition lane_ofs :: "ulong \<Rightarrow> nat" where
  "lane_ofs addr = unat (addr AND 7)"

lemma lane_ofs_mod: "lane_ofs addr = unat addr mod 8"
proof -
  have e: "addr AND 7 = take_bit 3 addr" by (simp add: take_bit_eq_mask mask_eq_decr_exp)
  show ?thesis unfolding lane_ofs_def e unsigned_take_bit_eq unfolding take_bit_eq_mod by simp
qed

lemma aligned_lane_cases:
  assumes "aligned_access addr n"
  shows "n = 1 \<and> lane_ofs addr \<in> {0, 1, 2, 3, 4, 5, 6, 7} \<or> n = 2 \<and> lane_ofs addr \<in> {0, 2, 4, 6}
    \<or> n = 4 \<and> lane_ofs addr \<in> {0, 4}"
proof -
  from assms have "(n = 1 \<or> n = 2 \<or> n = 4) \<and> unat addr mod unat n = 0"
    by (simp add: aligned_access_def)
  then consider "n = 1" | "n = 2" "unat addr mod 2 = 0" | "n = 4" "unat addr mod 4 = 0" by auto
  then show ?thesis
  proof cases
    case 1 then show ?thesis unfolding lane_ofs_mod by simp presburger
  next
    case 2 then show ?thesis unfolding lane_ofs_mod by simp presburger
  next
    case 3 then show ?thesis unfolding lane_ofs_mod by simp presburger
  qed
qed

lemma store_wdata_eq:
  assumes "n \<le> length data" "ofs + n \<le> length wd"
  shows "store_wdata wd data ofs [0..<n] = Inr (put_bytes wd ofs (take n data))"
proof -
  have gen: "store_wdata w data ofs [k..<n] = Inr (put_bytes wd ofs (take n data))"
    if "k \<le> n" "w = put_bytes wd ofs (take k data)" for k w
    using that
  proof (induction "n - k" arbitrary: k w)
    case 0
    then show ?case by simp
  next
    case (Suc m)
    then have k: "k < n" by simp
    have lw: "length w = length wd" using Suc.prems assms by simp
    have "w[k + ofs := data ! k] = put_bytes wd ofs (take (Suc k) data)"
      using k assms Suc.prems(2)
      by (intro nth_equalityI)
        (auto simp: nth_put_bytes nth_list_update take_Suc_conv_app_nth nth_append)
    from Suc.hyps(1) [OF _ _ this] Suc.hyps(2) k
    have "store_wdata (w[k + ofs := data ! k]) data ofs [Suc k..<n] = Inr (put_bytes wd ofs (take n data))"
      by simp
    then show ?case using k assms lw by (simp add: upt_conv_Cons)
  qed
  show ?thesis by (rule gen) (auto simp: put_bytes_def)
qed

lemma s_operation_mask_aligned:
  assumes "aligned_access addr n"
  shows "rd s_operation_mask_be (unat n) = Inr (mask (unat n))"
  using aligned_lane_cases [OF assms]
  by (auto simp: s_operation_mask_be_def mask_eq_decr_exp)

lemma be_lane_aligned:
  assumes "aligned_access addr n"
  shows "be_lane (lanes_mask (lane_ofs addr) (unat n)) = Some (lane_ofs addr div unat n, unat n)"
proof -
  have "\<forall>k\<in>{0, 1, 2, 3, 4, 5, 6, 7}. be_lane (lanes_mask k 1) = Some (k, 1)"
    and "\<forall>k\<in>{0, 2, 4, 6}. be_lane (lanes_mask k 2) = Some (k div 2, 2)"
    and "\<forall>k\<in>{0, 4}. be_lane (lanes_mask k 4) = Some (k div 4, 4)"
    by code_simp+
  then show ?thesis using aligned_lane_cases [OF assms] by (elim disjE conjE) auto
qed

lemma aligned_access_facts:
  assumes "aligned_access addr n"
  shows "lane_ofs addr + unat n \<le> 8" "\<not> n > 4" "drop_bit 2 (n + 3) = 1" "unat n \<in> {1, 2, 4}"
    "lane_ofs addr div unat n * unat n = lane_ofs addr"
  using aligned_lane_cases [OF assms] by (auto simp: drop_bit_eq_div)

lemma send_req_aligned:
  assumes al: "aligned_access addr n" and d: "bWrite \<Longrightarrow> unat n \<le> length data"
  shows "send_req junk node_id tid addr data n bWrite =
    Inr (junk\<lparr>rq_cmd := (if bWrite then CMD_WRITE else CMD_READ),
              rq_be := lanes_mask (lane_ofs addr) (unat n),
              rq_address := addr AND 0xFFFFFFF8, rq_trdid := tid, rq_srcid := ucast node_id,
              rq_plen := 1, rq_eop := True,
              rq_wdata := (if bWrite then put_bytes (replicate 8 0) (lane_ofs addr) (take (unat n) data)
                           else replicate 8 0)\<rparr>)"
  using aligned_access_facts [OF al] s_operation_mask_aligned [OF al] d
  by (auto simp: send_req_def Let_def lane_ofs_def [symmetric] lanes_mask_def store_wdata_eq)

lemma response_thread_lanes:
  assumes al: "aligned_access addr n" and r: "rs_rbe resp = lanes_mask (lane_ofs addr) (unat n)"
    "ucast (rs_rsrcid resp) = node_id" "rs_reop resp"
  shows "response_thread node_id resp =
    Inr (Some (rs_rtrdid resp, drop (lane_ofs addr) (rs_rdata resp), rs_rerror resp, False))"
  using skip_zeros_lanes_mask [of "unat n" "lane_ofs addr"] unat_lanes_mask [of "lane_ofs addr" "unat n"]
    aligned_access_facts [OF al] r
  by (auto simp: response_thread_def Let_def)

text \<open>Every response with a nonzero mask is handed on or skipped: the loops over the mask stop.\<close>

lemma response_thread_total: "\<exists>r. response_thread node_id resp = Inr r"
  using skip_zeros_total [of "unat (rs_rbe resp)" 0]
  by (auto simp: response_thread_def Let_def split: prod.splits)

end
