(* ===== verification/Block_Device.thy ===== *)
theory Block_Device
  imports Slave_Device Master_Device
begin

text \<open>
  The disk (\<^verbatim>\<open>sl_blockdevice/sl_block_device.cpp\<close>): a register bank, a bus master that moves
  a few bytes per transaction, and a control thread that copies blocks between a host file
  and the memory behind the bus. The bus is an argument: the master has one transaction in
  flight, so it is a function from the request to the response. The host file is its
  contents and its position.
\<close>

subsection \<open>Registers\<close>

definition BLOCK_DEVICE_BUFFER :: u32 where "BLOCK_DEVICE_BUFFER = 0"
definition BLOCK_DEVICE_LBA :: u32 where "BLOCK_DEVICE_LBA = 1"
definition BLOCK_DEVICE_COUNT :: u32 where "BLOCK_DEVICE_COUNT = 2"
definition BLOCK_DEVICE_OP :: u32 where "BLOCK_DEVICE_OP = 3"
definition BLOCK_DEVICE_STATUS :: u32 where "BLOCK_DEVICE_STATUS = 4"
definition BLOCK_DEVICE_IRQ_ENABLE :: u32 where "BLOCK_DEVICE_IRQ_ENABLE = 5"
definition BLOCK_DEVICE_SIZE :: u32 where "BLOCK_DEVICE_SIZE = 6"
definition BLOCK_DEVICE_BLOCK_SIZE :: u32 where "BLOCK_DEVICE_BLOCK_SIZE = 7"

definition BLOCK_DEVICE_NOOP :: u32 where "BLOCK_DEVICE_NOOP = 0"
definition BLOCK_DEVICE_READ :: u32 where "BLOCK_DEVICE_READ = 1"
definition BLOCK_DEVICE_WRITE :: u32 where "BLOCK_DEVICE_WRITE = 2"
definition BLOCK_DEVICE_FILE_NAME :: u32 where "BLOCK_DEVICE_FILE_NAME = 3"

definition BLOCK_DEVICE_IDLE :: u32 where "BLOCK_DEVICE_IDLE = 0"
definition BLOCK_DEVICE_BUSY :: u32 where "BLOCK_DEVICE_BUSY = 1"
definition BLOCK_DEVICE_READ_SUCCESS :: u32 where "BLOCK_DEVICE_READ_SUCCESS = 2"
definition BLOCK_DEVICE_WRITE_SUCCESS :: u32 where "BLOCK_DEVICE_WRITE_SUCCESS = 3"
definition BLOCK_DEVICE_READ_ERROR :: u32 where "BLOCK_DEVICE_READ_ERROR = 4"
definition BLOCK_DEVICE_WRITE_ERROR :: u32 where "BLOCK_DEVICE_WRITE_ERROR = 5"

lemmas block_regs [reg_defs] = BLOCK_DEVICE_BUFFER_def BLOCK_DEVICE_LBA_def BLOCK_DEVICE_COUNT_def
  BLOCK_DEVICE_OP_def BLOCK_DEVICE_STATUS_def BLOCK_DEVICE_IRQ_ENABLE_def BLOCK_DEVICE_SIZE_def
  BLOCK_DEVICE_BLOCK_SIZE_def

lemmas block_ops [reg_defs] = BLOCK_DEVICE_NOOP_def BLOCK_DEVICE_READ_def BLOCK_DEVICE_WRITE_def
  BLOCK_DEVICE_FILE_NAME_def

lemmas block_states [reg_defs] = BLOCK_DEVICE_IDLE_def BLOCK_DEVICE_BUSY_def
  BLOCK_DEVICE_READ_SUCCESS_def BLOCK_DEVICE_WRITE_SUCCESS_def BLOCK_DEVICE_READ_ERROR_def
  BLOCK_DEVICE_WRITE_ERROR_def

record block_CSregs =
  cs_status :: u32
  cs_buffer :: u32
  cs_op :: u32
  cs_lba :: u32
  cs_count :: u32
  cs_size :: u32
  cs_block_size :: u32
  cs_irqen :: u32
  cs_irq :: u32

datatype block_event = OpStart | BlockIrqUpdate | BlockMessage

definition block_reg_index :: "ulong \<Rightarrow> u8 \<Rightarrow> u32" where
  "block_reg_index ofs be = (let lofs = drop_bit 2 ofs in if be AND 0xF0 \<noteq> 0 then lofs + 1 else lofs)"

definition block_write :: "block_CSregs \<Rightarrow> ulong \<Rightarrow> u8 \<Rightarrow> u8 list \<Rightarrow> block_CSregs \<times> block_event list" where
  "block_write r ofs be data =
     (let lofs = block_reg_index ofs be; val = reg_word data be in
      if lofs = BLOCK_DEVICE_BUFFER then (r\<lparr>cs_buffer := val\<rparr>, [])
      else if lofs = BLOCK_DEVICE_LBA then (r\<lparr>cs_lba := val\<rparr>, [])
      else if lofs = BLOCK_DEVICE_COUNT then (r\<lparr>cs_count := val\<rparr>, [])
      else if lofs = BLOCK_DEVICE_OP then
        if cs_status r \<noteq> BLOCK_DEVICE_IDLE then (r, [BlockMessage])
        else (r\<lparr>cs_op := val\<rparr>, [OpStart])
      else if lofs = BLOCK_DEVICE_IRQ_ENABLE then (r\<lparr>cs_irqen := val\<rparr>, [BlockIrqUpdate])
      else (r, [BlockMessage]))"

text \<open>\<open>None\<close>: the data buffer keeps its contents.\<close>

definition block_read :: "block_CSregs \<Rightarrow> ulong \<Rightarrow> u8 \<Rightarrow> block_CSregs \<times> block_event list \<times> u32 option" where
  "block_read r ofs be =
     (let lofs = block_reg_index ofs be in
      if lofs = BLOCK_DEVICE_BUFFER then (r, [], Some (cs_buffer r))
      else if lofs = BLOCK_DEVICE_LBA then (r, [], Some (cs_lba r))
      else if lofs = BLOCK_DEVICE_COUNT then (r, [], Some (cs_count r))
      else if lofs = BLOCK_DEVICE_OP then (r, [], Some (cs_op r))
      else if lofs = BLOCK_DEVICE_STATUS then
        if cs_status r \<noteq> BLOCK_DEVICE_BUSY
        then (r\<lparr>cs_status := BLOCK_DEVICE_IDLE, cs_irq := 0\<rparr>, [BlockIrqUpdate], Some (cs_status r))
        else (r, [], Some (cs_status r))
      else if lofs = BLOCK_DEVICE_IRQ_ENABLE then (r, [], Some (cs_irqen r))
      else if lofs = BLOCK_DEVICE_SIZE then (r, [], Some (cs_size r))
      else if lofs = BLOCK_DEVICE_BLOCK_SIZE then (r, [], Some (cs_block_size r))
      else (r, [BlockMessage], None))"

definition block_rcv_rqst :: "(block_CSregs, block_event) rcv_rqst" where
  "block_rcv_rqst req r ofs be data bWrite =
     (if bWrite then (let (r, es) = block_write r ofs be data in Inr (r, es, data, False))
      else (let (r, es, v) = block_read r ofs be in
            Inr (r, es, case v of None \<Rightarrow> data | Some v \<Rightarrow> put_reg_word data be v, False)))"

interpretation block_slave: slave_module block_rcv_rqst "\<lambda>_. True"
  by unfold_locales (auto simp: block_rcv_rqst_def Let_def case_prod_unfold split: if_splits option.splits)

text \<open>The output line after \<open>irq_update_thread\<close>.\<close>

definition block_irq_line :: "block_CSregs \<Rightarrow> bool" where
  "block_irq_line r \<longleftrightarrow> cs_irq r = 1"

subsection \<open>The bus master\<close>

definition MASTER_READY :: u32 where "MASTER_READY = 0"
definition MASTER_CMD_SUCCESS :: u32 where "MASTER_CMD_SUCCESS = 1"
definition MASTER_CMD_ERROR :: u32 where "MASTER_CMD_ERROR = 2"

lemmas master_states [reg_defs] = MASTER_READY_def MASTER_CMD_SUCCESS_def MASTER_CMD_ERROR_def

text \<open>\<open>bm_tr_rdata\<close> is the word as its four bytes; \<open>m_tr_nbytes\<close> starts unspecified.\<close>

record block_master =
  bm_node_id :: ulong
  bm_crt_tid :: u8
  bm_status :: u32
  bm_tr_rdata :: "u8 list"
  bm_tr_nbytes :: u8

definition block_master_new :: "ulong \<Rightarrow> u8 list \<Rightarrow> u8 \<Rightarrow> block_master" where
  "block_master_new node_id junk_rdata junk_nbytes = \<lparr>bm_node_id = node_id, bm_crt_tid = 0,
     bm_status = MASTER_READY, bm_tr_rdata = junk_rdata, bm_tr_nbytes = junk_nbytes\<rparr>"

fun copy_first :: "u8 list \<Rightarrow> u8 list \<Rightarrow> nat list \<Rightarrow> u8 list res" where
  "copy_first dst src [] = Inr dst"
| "copy_first dst src (i # is) =
     bindr (rd src i) (\<lambda>b. bindr (wr dst i b) (\<lambda>dst. copy_first dst src is))"

definition bm_rcv_rsp :: "block_master \<Rightarrow> u8 \<Rightarrow> u8 list \<Rightarrow> bool \<Rightarrow> bool \<Rightarrow> block_master res" where
  "bm_rcv_rsp m tid data bErr bWrite =
     (let m = m\<lparr>bm_status := (if bErr then MASTER_CMD_ERROR else MASTER_CMD_SUCCESS)\<rparr> in
      bindr (if bWrite then Inr (bm_tr_rdata m)
             else copy_first (bm_tr_rdata m) data [0..<unat (bm_tr_nbytes m)]) (\<lambda>rdata.
      Inr (m\<lparr>bm_tr_rdata := rdata, bm_crt_tid := bm_crt_tid m + 1\<rparr>)))"

text \<open>From \<open>send_req\<close> to the end of \<open>wait (ev_cmd_done)\<close>: the response that comes back.\<close>

definition bm_transact :: "('m \<Rightarrow> vci_request \<Rightarrow> ('m \<times> vci_response) res) \<Rightarrow> vci_request
    \<Rightarrow> block_master \<Rightarrow> 'm \<Rightarrow> u32 \<Rightarrow> u8 list \<Rightarrow> u8 \<Rightarrow> bool \<Rightarrow> (block_master \<times> 'm) res" where
  "bm_transact bus junk m b addr data nbytes bWrite =
     bindr (send_req junk (bm_node_id m) (bm_crt_tid m) addr data (ucast nbytes) bWrite) (\<lambda>req.
     bindr (bus b req) (\<lambda>(b, rsp).
     bindr (response_thread (bm_node_id m) rsp) (\<lambda>r.
     case r of
       None \<Rightarrow> Inl Blocked
     | Some (tid, data, bErr, w) \<Rightarrow> bindr (bm_rcv_rsp m tid data bErr w) (\<lambda>m. Inr (m, b)))))"

definition bm_cmd_write :: "('m \<Rightarrow> vci_request \<Rightarrow> ('m \<times> vci_response) res) \<Rightarrow> vci_request
    \<Rightarrow> block_master \<Rightarrow> 'm \<Rightarrow> u32 \<Rightarrow> u8 list \<Rightarrow> u8 \<Rightarrow> (block_master \<times> 'm \<times> bool) res" where
  "bm_cmd_write bus junk m b addr data nbytes =
     bindr (bm_transact bus junk m b addr data nbytes True) (\<lambda>(m, b).
     Inr (m, b, bm_status m = MASTER_CMD_SUCCESS))"

text \<open>\<open>cmd_read\<close>: the first bytes of \<open>data\<close> are replaced, also when it fails.\<close>

definition bm_cmd_read :: "('m \<Rightarrow> vci_request \<Rightarrow> ('m \<times> vci_response) res) \<Rightarrow> vci_request
    \<Rightarrow> block_master \<Rightarrow> 'm \<Rightarrow> u32 \<Rightarrow> u8 list \<Rightarrow> u8 \<Rightarrow> (block_master \<times> 'm \<times> u8 list \<times> bool) res" where
  "bm_cmd_read bus junk m b addr data nbytes =
     (let m = m\<lparr>bm_tr_nbytes := nbytes, bm_tr_rdata := bytes32 0\<rparr> in
      bindr (bm_transact bus junk m b addr [] nbytes False) (\<lambda>(m, b).
      bindr (copy_first data (bm_tr_rdata m) [0..<unat nbytes]) (\<lambda>data.
      Inr (m, b, data, bm_status m = MASTER_CMD_SUCCESS))))"

subsection \<open>The control thread\<close>

text \<open>
  \<open>bd_file\<close> is the contents of the open host file (\<open>None\<close>: \<open>m_fd\<close> is -1), \<open>bd_pos\<close> its
  position. \<open>func_ret\<close> is a local of the thread that outlives an iteration.
\<close>

record block_device =
  bd_regs :: block_CSregs
  bd_master :: block_master
  bd_file :: "u8 list option"
  bd_pos :: nat
  bd_func_ret :: int

definition block_size_of :: "u8 list \<Rightarrow> block_CSregs \<Rightarrow> u32 res" where
  "block_size_of file r =
     (if cs_block_size r = 0 then Inl DivByZero else Inr (of_nat (length file) div cs_block_size r))"

text \<open>\<open>open_host_file\<close>: \<open>fs\<close> gives the contents \<open>open\<close> with \<open>O_CREAT\<close> finds, \<open>None\<close> if it fails.\<close>

definition open_host_file :: "(u8 list \<Rightarrow> u8 list option) \<Rightarrow> u8 list option \<Rightarrow> block_device \<Rightarrow> block_device res" where
  "open_host_file fs fname d =
     (let d = d\<lparr>bd_file := None\<rparr> in
      case fname of
        None \<Rightarrow> Inr d
      | Some f \<Rightarrow> (case fs f of
          None \<Rightarrow> Inr d
        | Some c \<Rightarrow>
            bindr (block_size_of c (bd_regs d)) (\<lambda>sz.
            Inr (d\<lparr>bd_file := Some c, bd_pos := 0, bd_regs := (bd_regs d)\<lparr>cs_size := sz\<rparr>\<rparr>))))"

definition block_device_new :: "(u8 list \<Rightarrow> u8 list option) \<Rightarrow> u8 list option \<Rightarrow> ulong \<Rightarrow> u32
    \<Rightarrow> u8 list \<Rightarrow> u8 \<Rightarrow> int \<Rightarrow> block_device res" where
  "block_device_new fs fname master_id block_size junk_rdata junk_nbytes junk_ret =
     open_host_file fs fname
       \<lparr>bd_regs = \<lparr>cs_status = 0, cs_buffer = 0, cs_op = 0, cs_lba = 0, cs_count = 0, cs_size = 0,
                   cs_block_size = block_size, cs_irqen = 0, cs_irq = 0\<rparr>,
        bd_master = block_master_new master_id junk_rdata junk_nbytes,
        bd_file = None, bd_pos = 0, bd_func_ret = junk_ret\<rparr>"

text \<open>\<open>lseek (m_fd, lba * block_size, SEEK_SET)\<close>: a 32-bit offset, which fails when negative.\<close>

definition block_seek :: "block_device \<Rightarrow> block_device" where
  "block_seek d =
     (let ofs = cs_lba (bd_regs d) * cs_block_size (bd_regs d) in
      if bd_file d \<noteq> None \<and> unat ofs < 2 ^ 31 then d\<lparr>bd_pos := unat ofs\<rparr> else d)"

definition file_read :: "block_device \<Rightarrow> nat \<Rightarrow> block_device \<times> int \<times> u8 list" where
  "file_read d n = (case bd_file d of
     None \<Rightarrow> (d, -1, [])
   | Some f \<Rightarrow> (let bs = take n (drop (bd_pos d) f) in
       (d\<lparr>bd_pos := bd_pos d + length bs\<rparr>, int (length bs), bs)))"

text \<open>The contents after \<open>bs\<close> is written at a position: a gap before it reads as zeros.\<close>

definition file_put :: "u8 list \<Rightarrow> nat \<Rightarrow> u8 list \<Rightarrow> u8 list" where
  "file_put f pos bs = take pos (f @ replicate (pos - length f) 0) @ bs @ drop (pos + length bs) f"

definition file_write :: "block_device \<Rightarrow> u8 list \<Rightarrow> block_device" where
  "file_write d bs = (case bd_file d of
     None \<Rightarrow> d
   | Some f \<Rightarrow> d\<lparr>bd_file := Some (file_put f (bd_pos d) bs), bd_pos := bd_pos d + length bs\<rparr>)"

text \<open>
  The two loops that send \<open>data_buff\<close> to memory: the offsets still to do, the offset at their
  end, and \<open>func_ret\<close>. The result has \<open>func_ret\<close> and \<open>offset\<close> as the loop leaves them.
\<close>

fun dma_store :: "('m \<Rightarrow> vci_request \<Rightarrow> ('m \<times> vci_response) res) \<Rightarrow> vci_request
    \<Rightarrow> block_master \<Rightarrow> 'm \<Rightarrow> u32 \<Rightarrow> u8 list \<Rightarrow> u8 \<Rightarrow> nat list \<Rightarrow> nat \<Rightarrow> int
    \<Rightarrow> (block_master \<times> 'm \<times> int \<times> nat) res" where
  "dma_store bus junk m b addr buf n [] fin fr = Inr (m, b, fr, fin)"
| "dma_store bus junk m b addr buf n (ofs # offs) fin fr =
     bindr (bm_cmd_write bus junk m b (addr + of_nat ofs) (drop ofs buf) n) (\<lambda>(m, b, ok).
     if ok then dma_store bus junk m b addr buf n offs fin 1 else Inr (m, b, 0, ofs))"

text \<open>The loop that fetches \<open>data_buff\<close> from memory, four bytes at a time.\<close>

fun dma_load :: "('m \<Rightarrow> vci_request \<Rightarrow> ('m \<times> vci_response) res) \<Rightarrow> vci_request
    \<Rightarrow> block_master \<Rightarrow> 'm \<Rightarrow> u32 \<Rightarrow> u8 list \<Rightarrow> nat list \<Rightarrow> int
    \<Rightarrow> (block_master \<times> 'm \<times> u8 list \<times> int) res" where
  "dma_load bus junk m b addr buf [] fr = Inr (m, b, buf, fr)"
| "dma_load bus junk m b addr buf (ofs # offs) fr =
     bindr (bm_cmd_read bus junk m b (addr + of_nat ofs) (drop ofs buf) 4) (\<lambda>(m, b, bs, ok).
     let buf = take ofs buf @ bs in
     if ok then dma_load bus junk m b addr buf offs 1 else Inr (m, b, buf, 0))"

definition word_offsets :: "nat \<Rightarrow> nat list" where
  "word_offsets n = map (\<lambda>k. 4 * k) [0..<n]"

definition c_string :: "u8 list \<Rightarrow> u8 list" where
  "c_string bs = takeWhile (\<lambda>b. b \<noteq> 0) bs"

text \<open>A string read from a buffer; without an end in the buffer the read goes on behind it.\<close>

definition rd_string :: "u8 list \<Rightarrow> u8 list res" where
  "rd_string bs = (if 0 \<in> set bs then Inr (c_string bs) else Inl OutOfBounds)"

definition block_done :: "block_device \<Rightarrow> u32 \<Rightarrow> block_device" where
  "block_done d status = d\<lparr>bd_regs := (bd_regs d)\<lparr>cs_op := BLOCK_DEVICE_NOOP, cs_status := status\<rparr>\<rparr>"

definition block_raise :: "block_device \<Rightarrow> block_device \<times> block_event list" where
  "block_raise d = (if cs_irqen (bd_regs d) \<noteq> 0
     then (d\<lparr>bd_regs := (bd_regs d)\<lparr>cs_irq := 1\<rparr>\<rparr>, [BlockIrqUpdate]) else (d, []))"

text \<open>
  \<open>if (transfer_size)\<close>: words up to the last multiple of four, then bytes from where the first
  loop stopped, also when it stopped on an error. The flag is false when the last command failed.
\<close>

definition dma_out :: "('m \<Rightarrow> vci_request \<Rightarrow> ('m \<times> vci_response) res) \<Rightarrow> vci_request
    \<Rightarrow> block_master \<Rightarrow> 'm \<Rightarrow> u32 \<Rightarrow> u8 list \<Rightarrow> nat \<Rightarrow> int
    \<Rightarrow> (block_master \<times> 'm \<times> int \<times> nat \<times> bool) res" where
  "dma_out bus jreq m b addr data_buff n func_ret =
     (if n = 0 then Inr (m, b, func_ret, 0, True)
      else
        bindr (dma_store bus jreq m b addr data_buff 4 (word_offsets (n div 4)) (4 * (n div 4)) func_ret)
          (\<lambda>(m, b, fr, ofs).
        bindr (dma_store bus jreq m b addr data_buff 1 [ofs..<n] n fr) (\<lambda>(m, b, fr, ofs).
        Inr (m, b, fr, ofs, fr \<noteq> 0))))"

text \<open>\<open>BLOCK_DEVICE_READ\<close>: from the file to memory. \<open>junk\<close> fills what \<open>new\<close> leaves unspecified.\<close>

definition control_read :: "('m \<Rightarrow> vci_request \<Rightarrow> ('m \<times> vci_response) res) \<Rightarrow> vci_request \<Rightarrow> u8
    \<Rightarrow> block_device \<Rightarrow> 'm \<Rightarrow> (block_device \<times> 'm \<times> block_event list) res" where
  "control_read bus jreq junk d b =
     (let d = d\<lparr>bd_regs := (bd_regs d)\<lparr>cs_status := BLOCK_DEVICE_BUSY\<rparr>\<rparr>;
          transfer_size = cs_count (bd_regs d) * cs_block_size (bd_regs d);
          data_buff = replicate (unat (transfer_size + 4)) junk;
          d = block_seek d;
          (d, func_ret, bs) = file_read d (unat transfer_size);
          addr = cs_buffer (bd_regs d)
      in if func_ret < 0 then
           Inr (block_done (d\<lparr>bd_regs := (bd_regs d)\<lparr>cs_count := 0\<rparr>, bd_func_ret := func_ret\<rparr>)
                  BLOCK_DEVICE_READ_ERROR, b, [BlockMessage])
         else
           bindr (wr_bytes data_buff 0 bs) (\<lambda>data_buff.
           bindr (block_size_of bs (bd_regs d)) (\<lambda>cnt.
           let d = d\<lparr>bd_regs := (bd_regs d)\<lparr>cs_count := cnt\<rparr>\<rparr>;
               n = length bs
           in bindr (dma_out bus jreq (bd_master d) b addr data_buff n func_ret) (\<lambda>(m, b, fr, ofs, ok).
              let d = d\<lparr>bd_master := m, bd_func_ret := fr\<rparr> in
              if ok then
                let (d, es) = block_raise d in Inr (block_done d BLOCK_DEVICE_READ_SUCCESS, b, es)
              else
                Inr (block_done (d\<lparr>bd_regs := (bd_regs d)\<lparr>cs_count := of_nat ofs div cs_block_size (bd_regs d)\<rparr>\<rparr>)
                       BLOCK_DEVICE_READ_ERROR, b, [BlockMessage])))))"

text \<open>The common first half of \<open>BLOCK_DEVICE_WRITE\<close> and \<open>BLOCK_DEVICE_FILE_NAME\<close>.\<close>

definition control_fetch :: "('m \<Rightarrow> vci_request \<Rightarrow> ('m \<times> vci_response) res) \<Rightarrow> vci_request \<Rightarrow> u8
    \<Rightarrow> block_device \<Rightarrow> 'm \<Rightarrow> (block_device \<times> 'm \<times> u8 list \<times> nat) res" where
  "control_fetch bus jreq junk d b =
     (let d = d\<lparr>bd_regs := (bd_regs d)\<lparr>cs_status := BLOCK_DEVICE_BUSY\<rparr>\<rparr>;
          transfer_size = cs_count (bd_regs d) * cs_block_size (bd_regs d);
          data_buff = replicate (unat (transfer_size + 4)) junk;
          addr = cs_buffer (bd_regs d)
      in bindr (dma_load bus jreq (bd_master d) b addr data_buff
                  (word_offsets ((unat transfer_size + 3) div 4)) (bd_func_ret d)) (\<lambda>(m, b, buf, fr).
         Inr (d\<lparr>bd_master := m, bd_func_ret := fr\<rparr>, b, buf, unat transfer_size)))"

definition control_write :: "('m \<Rightarrow> vci_request \<Rightarrow> ('m \<times> vci_response) res) \<Rightarrow> vci_request \<Rightarrow> u8
    \<Rightarrow> block_device \<Rightarrow> 'm \<Rightarrow> (block_device \<times> 'm \<times> block_event list) res" where
  "control_write bus jreq junk d b =
     bindr (control_fetch bus jreq junk d b) (\<lambda>(d, b, buf, n).
     if bd_func_ret d = 0 then Inr (block_done d BLOCK_DEVICE_WRITE_ERROR, b, [])
     else
       let d = block_seek d in
       bindr (rd_bytes buf 0 n) (\<lambda>bs.
       let d = file_write d bs in
       bindr (case bd_file d of Some f \<Rightarrow> block_size_of f (bd_regs d)
              | None \<Rightarrow> if cs_block_size (bd_regs d) = 0 then Inl DivByZero
                        else Inr (-1 div cs_block_size (bd_regs d))) (\<lambda>sz.
       let d = d\<lparr>bd_regs := (bd_regs d)\<lparr>cs_size := sz\<rparr>\<rparr>;
           (d, es) = block_raise d
       in Inr (block_done d BLOCK_DEVICE_WRITE_SUCCESS, b, es))))"

definition control_file_name :: "(u8 list \<Rightarrow> u8 list option) \<Rightarrow> ('m \<Rightarrow> vci_request \<Rightarrow> ('m \<times> vci_response) res)
    \<Rightarrow> vci_request \<Rightarrow> u8 \<Rightarrow> block_device \<Rightarrow> 'm \<Rightarrow> (block_device \<times> 'm \<times> block_event list) res" where
  "control_file_name fs bus jreq junk d b =
     bindr (control_fetch bus jreq junk d b) (\<lambda>(d, b, buf, n).
     bindr (if bd_func_ret d \<noteq> 0 then bindr (rd_string buf) (\<lambda>fname. open_host_file fs (Some fname) d) else Inr d) (\<lambda>d.
     if bd_func_ret d = 0 \<or> bd_file d = None
     then Inr (block_done d BLOCK_DEVICE_WRITE_ERROR, b, [])
     else Inr (block_done d BLOCK_DEVICE_WRITE_SUCCESS, b, [])))"

text \<open>
  One iteration of \<open>control_thread\<close>. With no operation it waits for \<open>ev_op_start\<close>; the
  default case prints and goes round again with nothing changed, and as it never waits no
  other thread runs any more.
\<close>

definition control_thread :: "(u8 list \<Rightarrow> u8 list option) \<Rightarrow> ('m \<Rightarrow> vci_request \<Rightarrow> ('m \<times> vci_response) res)
    \<Rightarrow> vci_request \<Rightarrow> u8 \<Rightarrow> block_device \<Rightarrow> 'm \<Rightarrow> (block_device \<times> 'm \<times> block_event list) res" where
  "control_thread fs bus jreq junk d b =
     (if cs_op (bd_regs d) = BLOCK_DEVICE_NOOP then Inr (d, b, [])
      else if cs_op (bd_regs d) = BLOCK_DEVICE_READ then control_read bus jreq junk d b
      else if cs_op (bd_regs d) = BLOCK_DEVICE_WRITE then control_write bus jreq junk d b
      else if cs_op (bd_regs d) = BLOCK_DEVICE_FILE_NAME then control_file_name fs bus jreq junk d b
      else Inl Livelock)"

end
