(* ===== verification/Memory_Bus.thy ===== *)
theory Memory_Bus
  imports Slave_Device Master_Device
begin

text \<open>
  The interface between a master and the memory behind the network: a bus that answers a
  request, and the contract that aligned accesses below a limit reach a memory. What a
  master's \<open>send_req\<close> and \<open>response_thread\<close> make of it is proved here once, for every master;
  the bus built from the network and the memory device interprets it.
\<close>

lemma and_align8: "unat (a AND 0xFFFFFFF8) = unat (a::ulong) - unat a mod 8"
proof -
  have m: "(0xFFFFFFF8::ulong) = NOT (mask 3)" by (simp add: mask_eq_decr_exp)
  have "a AND 0xFFFFFFF8 = push_bit 3 (drop_bit 3 a)"
    unfolding m by (rule bit_word_eqI) (auto simp: bit_simps)
  also have "\<dots> = a - take_bit 3 a" using bits_ident [of 3 a] by (simp add: algebra_simps)
  finally have e: "a AND 0xFFFFFFF8 = a - take_bit 3 a" .
  have t: "unat (take_bit 3 a) = unat a mod 8"
    unfolding unsigned_take_bit_eq unfolding take_bit_eq_mod by simp
  then have "take_bit 3 a \<le> a" by (simp add: word_le_nat_alt)
  from unat_sub [OF this] show ?thesis unfolding e t .
qed

lemma node_id_roundtrip:
  assumes "unat (n::ulong) < 2 ^ 16"
  shows "ucast (ucast n :: u16) = n"
proof -
  have "unat (take_bit 16 n) = unat n"
    unfolding unsigned_take_bit_eq using assms by (simp add: take_bit_nat_eq_self)
  then have "take_bit 16 n = n" by (simp only: unsigned_word_eqI)
  then have b: "bit n k \<longleftrightarrow> k < 16 \<and> bit n k" for k by (metis bit_take_bit_iff)
  show ?thesis by (rule bit_word_eqI) (use b in \<open>auto simp: bit_simps\<close>)
qed

text \<open>The view of memory after \<open>bs\<close> is stored at \<open>a\<close>.\<close>

definition stored :: "nat \<Rightarrow> u8 list \<Rightarrow> (nat \<Rightarrow> u8) \<Rightarrow> nat \<Rightarrow> u8" where
  "stored a bs v i = (if a \<le> i \<and> i < a + length bs then bs ! (i - a) else v i)"

locale memory_bus =
  fixes bus :: "'m \<Rightarrow> vci_request \<Rightarrow> ('m \<times> vci_response) res"
    and view :: "'m \<Rightarrow> nat \<Rightarrow> u8"
    and invar :: "'m \<Rightarrow> bool"
    and limit :: nat
  assumes limit8: "limit mod 8 = 0"
    and bus_write: "invar b \<Longrightarrow> rq_cmd req = CMD_WRITE \<Longrightarrow> be_lane (rq_be req) = Some (l, w) \<Longrightarrow>
      unat (rq_address req) mod 8 = 0 \<Longrightarrow> unat (rq_address req) + 8 \<le> limit \<Longrightarrow> wf_request req \<Longrightarrow>
      rq_plen req = 1 \<Longrightarrow>
      \<exists>b' rsp. bus b req = Inr (b', rsp) \<and> invar b' \<and> answers req rsp \<and> \<not> rs_rerror rsp
        \<and> view b' = stored (unat (rq_address req) + l * w) (take w (drop (l * w) (rq_wdata req))) (view b)"
    and bus_read: "invar b \<Longrightarrow> rq_cmd req = CMD_READ \<Longrightarrow> be_lane (rq_be req) = Some (l, w) \<Longrightarrow>
      unat (rq_address req) mod 8 = 0 \<Longrightarrow> unat (rq_address req) + 8 \<le> limit \<Longrightarrow> wf_request req \<Longrightarrow>
      rq_plen req = 1 \<Longrightarrow>
      \<exists>b' rsp. bus b req = Inr (b', rsp) \<and> invar b' \<and> answers req rsp \<and> \<not> rs_rerror rsp
        \<and> view b' = view b
        \<and> (\<forall>j. l * w \<le> j \<and> j < l * w + w \<longrightarrow> rs_rdata rsp ! j = view b (unat (rq_address req) + j))"
begin

lemma access_below_limit:
  assumes "aligned_access addr n" "unat addr + unat n \<le> limit"
  shows "unat (addr AND 0xFFFFFFF8) mod 8 = 0" "unat (addr AND 0xFFFFFFF8) + 8 \<le> limit"
    "unat (addr AND 0xFFFFFFF8) + lane_ofs addr = unat addr"
proof -
  have l: "unat (addr AND 0xFFFFFFF8) + lane_ofs addr = unat addr"
    unfolding and_align8 lane_ofs_mod by simp
  show "unat (addr AND 0xFFFFFFF8) + lane_ofs addr = unat addr" by (rule l)
  show a: "unat (addr AND 0xFFFFFFF8) mod 8 = 0" unfolding and_align8 by (simp add: mod_simps minus_mod_eq_mult_div)
  have "unat (addr AND 0xFFFFFFF8) < limit"
    using l assms(2) aligned_access_facts(4) [OF assms(1)] by auto
  with a limit8 show "unat (addr AND 0xFFFFFFF8) + 8 \<le> limit" by presburger
qed

text \<open>One store and one load of a master: from \<open>send_req\<close> to the call of \<open>rcv_rsp\<close>.\<close>

lemma store_transaction:
  assumes v: "invar b" and al: "aligned_access addr n" and r: "unat addr + unat n \<le> limit"
    and d: "unat n \<le> length data" and id: "unat node_id < 2 ^ 16"
  shows "\<exists>req b' rsp. send_req junk node_id tid addr data n True = Inr req
    \<and> bus b req = Inr (b', rsp) \<and> invar b' \<and> length (rs_rdata rsp) = 8
    \<and> response_thread node_id rsp = Inr (Some (tid, drop (lane_ofs addr) (rs_rdata rsp), False, False))
    \<and> view b' = stored (unat addr) (take (unat n) data) (view b)"
proof -
  note f = aligned_access_facts [OF al]
  note lim = access_below_limit [OF al r]
  define wd where "wd = put_bytes (replicate 8 0) (lane_ofs addr) (take (unat n) data)"
  define req where "req = junk\<lparr>rq_cmd := CMD_WRITE, rq_be := lanes_mask (lane_ofs addr) (unat n),
    rq_address := addr AND 0xFFFFFFF8, rq_trdid := tid, rq_srcid := ucast node_id,
    rq_plen := 1, rq_eop := True, rq_wdata := wd\<rparr>"
  have lw: "length wd = 8" using f(1) d by (simp add: wd_def)
  have s: "send_req junk node_id tid addr data n True = Inr req"
    using send_req_aligned [OF al, of True data] d by (simp add: req_def wd_def)
  have "length (take (unat n) data) = unat n" using d by simp
  with take_drop_put_bytes [of "lane_ofs addr" "take (unat n) data" "replicate 8 0"] f(1)
  have tk: "take (unat n) (drop (lane_ofs addr) wd) = take (unat n) data"
    by (simp add: wd_def del: length_take)
  have lane: "be_lane (rq_be req) = Some (lane_ofs addr div unat n, unat n)"
    using be_lane_aligned [OF al] by (simp add: req_def)
  have "wf_request req" by (simp add: wf_request_def req_def lw)
  from bus_write [OF v _ lane _ _ this] lim obtain b' rsp where
    bus: "bus b req = Inr (b', rsp)" "invar b'" "answers req rsp" "\<not> rs_rerror rsp"
    and vw: "view b' = stored (unat (addr AND 0xFFFFFFF8) + lane_ofs addr div unat n * unat n)
          (take (unat n) (drop (lane_ofs addr div unat n * unat n) wd)) (view b)"
    by (auto simp: req_def)
  have vw': "view b' = stored (unat addr) (take (unat n) data) (view b)"
    using vw lim(3) f(5) tk by simp
  have rt: "response_thread node_id rsp
      = Inr (Some (tid, drop (lane_ofs addr) (rs_rdata rsp), False, False))"
    using response_thread_lanes [OF al, of rsp node_id] bus(3,4) node_id_roundtrip [OF id]
    by (simp add: answers_def req_def)
  have "length (rs_rdata rsp) = 8" using bus(3) by (simp add: answers_def)
  with s bus(1,2) rt vw' show ?thesis by blast
qed

lemma load_transaction:
  assumes v: "invar b" and al: "aligned_access addr n" and r: "unat addr + unat n \<le> limit"
    and id: "unat node_id < 2 ^ 16"
  shows "\<exists>req b' rsp. send_req junk node_id tid addr [] n False = Inr req
    \<and> bus b req = Inr (b', rsp) \<and> invar b' \<and> length (rs_rdata rsp) = 8
    \<and> response_thread node_id rsp = Inr (Some (tid, drop (lane_ofs addr) (rs_rdata rsp), False, False))
    \<and> take (unat n) (drop (lane_ofs addr) (rs_rdata rsp)) = map (\<lambda>j. view b (unat addr + j)) [0..<unat n]
    \<and> view b' = view b"
proof -
  note f = aligned_access_facts [OF al]
  note lim = access_below_limit [OF al r]
  define req where "req = junk\<lparr>rq_cmd := CMD_READ, rq_be := lanes_mask (lane_ofs addr) (unat n),
    rq_address := addr AND 0xFFFFFFF8, rq_trdid := tid, rq_srcid := ucast node_id,
    rq_plen := 1, rq_eop := True, rq_wdata := replicate 8 0\<rparr>"
  have s: "send_req junk node_id tid addr [] n False = Inr req"
    using send_req_aligned [OF al, of False "[]"] by (simp add: req_def)
  have lane: "be_lane (rq_be req) = Some (lane_ofs addr div unat n, unat n)"
    using be_lane_aligned [OF al] by (simp add: req_def)
  have "wf_request req" by (simp add: wf_request_def req_def)
  from bus_read [OF v _ lane _ _ this] lim f(5) obtain b' rsp where
    bus: "bus b req = Inr (b', rsp)" "invar b'" "answers req rsp" "\<not> rs_rerror rsp" "view b' = view b"
    and rd: "\<forall>j. lane_ofs addr \<le> j \<and> j < lane_ofs addr + unat n \<longrightarrow>
          rs_rdata rsp ! j = view b (unat (addr AND 0xFFFFFFF8) + j)"
    by (auto simp: req_def)
  have rt: "response_thread node_id rsp
      = Inr (Some (tid, drop (lane_ofs addr) (rs_rdata rsp), False, False))"
    using response_thread_lanes [OF al, of rsp node_id] bus(3,4) node_id_roundtrip [OF id]
    by (simp add: answers_def req_def)
  have lr: "length (rs_rdata rsp) = 8" using bus(3) by (simp add: answers_def)
  have "take (unat n) (drop (lane_ofs addr) (rs_rdata rsp)) = map (\<lambda>j. view b (unat addr + j)) [0..<unat n]"
  proof (rule nth_equalityI)
    show "length (take (unat n) (drop (lane_ofs addr) (rs_rdata rsp)))
        = length (map (\<lambda>j. view b (unat addr + j)) [0..<unat n])" using lr f(1) by simp
    fix j assume "j < length (take (unat n) (drop (lane_ofs addr) (rs_rdata rsp)))"
    then have j: "j < unat n" by simp
    have "rs_rdata rsp ! (lane_ofs addr + j) = view b (unat (addr AND 0xFFFFFFF8) + (lane_ofs addr + j))"
      using rd j by simp
    then have "rs_rdata rsp ! (lane_ofs addr + j) = view b (unat addr + j)"
      using lim(3) by (simp add: add.assoc [symmetric])
    then show "take (unat n) (drop (lane_ofs addr) (rs_rdata rsp)) ! j
        = map (\<lambda>j. view b (unat addr + j)) [0..<unat n] ! j"
      using j lr f(1) by simp
  qed
  with s bus(1,2,5) rt lr show ?thesis by blast
qed

end

end
