(* ===== verification/Block_Dma.thy ===== *)
theory Block_Dma
  imports Block_Device Memory_Bus
begin

text \<open>
  The disk's transfers, over any bus that meets the contract \<open>memory_bus\<close>. What they do
  is proved once, in that locale.
\<close>

lemma copy_first_eq:
  assumes "n \<le> length src" "n \<le> length dst"
  shows "copy_first dst src [0..<n] = Inr (take n src @ drop n dst)"
proof -
  have gen: "copy_first d src [k..<n] = Inr (take n src @ drop n dst)"
    if "k \<le> n" "d = take k src @ drop k dst" for k d
    using that
  proof (induction "n - k" arbitrary: k d)
    case 0
    then show ?case by simp
  next
    case (Suc m)
    then have k: "k < n" by simp
    have "d[k := src ! k] = take (Suc k) src @ drop (Suc k) dst"
      using k assms Suc.prems(2)
      by (simp add: take_Suc_conv_app_nth list_update_append Cons_nth_drop_Suc [symmetric] del: append_assoc)
    from Suc.hyps(1) [OF _ _ this] Suc.hyps(2) k show ?case
      using assms Suc.prems(2) by (simp add: upt_conv_Cons)
  qed
  show ?thesis by (rule gen) simp_all
qed

text \<open>The master as its operations keep it, and an access whose stale copy stays inside the data.\<close>

definition bm_ok :: "block_master \<Rightarrow> bool" where
  "bm_ok m \<longleftrightarrow> unat (bm_node_id m) < 2 ^ 16 \<and> length (bm_tr_rdata m) = 4 \<and> unat (bm_tr_nbytes m) \<le> 4"

definition small_tail :: "block_master \<Rightarrow> ulong \<Rightarrow> bool" where
  "small_tail m addr \<longleftrightarrow> lane_ofs addr + unat (bm_tr_nbytes m) \<le> 8"

text \<open>
  The bytes behind the last multiple of four are sent one by one; for each of them the copy
  of the response takes as many bytes as the master last read, from the lane of the address on.
\<close>

definition tail_fits :: "block_master \<Rightarrow> ulong \<Rightarrow> nat \<Rightarrow> bool" where
  "tail_fits m A n \<longleftrightarrow> (\<forall>k\<in>set [4 * (n div 4)..<n]. small_tail m (A + of_nat k))"

lemma tail_fits_simple:
  assumes "unat (bm_tr_nbytes m) \<le> 1 \<or> n mod 4 = 0"
  shows "tail_fits m A n"
  unfolding tail_fits_def
proof
  fix k assume k: "k \<in> set [4 * (n div 4)..<n]"
  have "lane_ofs (A + of_nat k) \<le> 7" unfolding lane_ofs_mod by presburger
  moreover have "unat (bm_tr_nbytes m) \<le> 1" using assms k by auto
  ultimately show "small_tail m (A + of_nat k)" by (simp add: small_tail_def)
qed

lemma copy_first_short:
  assumes "length src < n" "n \<le> length dst"
  shows "copy_first dst src [0..<n] = Inl OutOfBounds"
proof -
  have gen: "copy_first d src [k..<n] = Inl OutOfBounds" if "k \<le> length src" "length d = length dst" for k d
    using that
  proof (induction "n - k" arbitrary: k d)
    case (Suc m)
    then have k: "k < n" by simp
    then show ?case
    proof (cases "k < length src")
      case True
      then show ?thesis
        using Suc.hyps(1) [of "Suc k" "d[k := src ! k]"] Suc.hyps(2) Suc.prems k assms by (simp add: upt_conv_Cons)
    next
      case False
      then show ?thesis using k by (simp add: upt_conv_Cons)
    qed
  qed (use assms in simp)
  show ?thesis by (rule gen) simp_all
qed

text \<open>Byte \<open>k\<close> of the buffer is in a piece of \<open>n\<close> bytes at one of the offsets.\<close>

definition chunk :: "nat list \<Rightarrow> nat \<Rightarrow> nat \<Rightarrow> bool" where
  "chunk offs n k \<longleftrightarrow> (\<exists>ofs\<in>set offs. ofs \<le> k \<and> k < ofs + n)"

lemma chunk_words: "chunk (word_offsets n) 4 k \<longleftrightarrow> k < 4 * n"
proof
  assume "chunk (word_offsets n) 4 k"
  then show "k < 4 * n" by (auto simp: chunk_def word_offsets_def)
next
  assume k: "k < 4 * n"
  have "4 * (k div 4) \<le> k \<and> k < 4 * (k div 4) + 4" by presburger
  moreover have "4 * (k div 4) \<in> set (word_offsets n)" using k by (auto simp: word_offsets_def)
  ultimately show "chunk (word_offsets n) 4 k" unfolding chunk_def by blast
qed

lemma chunk_bytes: "chunk [a..<n] 1 k \<longleftrightarrow> a \<le> k \<and> k < n"
  by (auto simp: chunk_def)

text \<open>The part of the file a transfer of the programmed registers is about, and its conditions.\<close>

definition xfer_size :: "block_CSregs \<Rightarrow> nat" where
  "xfer_size r = unat (cs_count r * cs_block_size r)"

definition xfer_pos :: "block_CSregs \<Rightarrow> nat" where
  "xfer_pos r = unat (cs_lba r * cs_block_size r)"

definition xfer_ok :: "nat \<Rightarrow> block_device \<Rightarrow> bool" where
  "xfer_ok limit d \<longleftrightarrow> bd_file d \<noteq> None \<and> cs_block_size (bd_regs d) \<noteq> 0
     \<and> xfer_pos (bd_regs d) < 2 ^ 31 \<and> unat (cs_buffer (bd_regs d)) mod 4 = 0
     \<and> unat (cs_buffer (bd_regs d)) + xfer_size (bd_regs d) + 4 < 2 ^ 32
     \<and> unat (cs_buffer (bd_regs d)) + xfer_size (bd_regs d) \<le> limit \<and> bm_ok (bd_master d)"

definition file_part :: "block_device \<Rightarrow> u8 list" where
  "file_part d = take (xfer_size (bd_regs d)) (drop (xfer_pos (bd_regs d)) (the (bd_file d)))"

lemma control_read_eq:
  assumes "file_read (block_seek (d\<lparr>bd_regs := (bd_regs d)\<lparr>cs_status := BLOCK_DEVICE_BUSY\<rparr>\<rparr>))
        (unat (cs_count (bd_regs d) * cs_block_size (bd_regs d))) = (d1, int (length bs), bs)"
    and "wr_bytes (replicate (unat (cs_count (bd_regs d) * cs_block_size (bd_regs d) + 4)) junk) 0 bs = Inr buf"
    and "dma_out bus jreq (bd_master d1) b (cs_buffer (bd_regs d1)) buf (length bs) (int (length bs))
        = Inr (m2, b2, fr2, ofs2, True)"
    and "block_size_of bs (bd_regs d1) = Inr cnt"
  shows "\<exists>d' es. control_read bus jreq junk d b = Inr (d', b2, es)
    \<and> bd_regs d' = (bd_regs d1)\<lparr>cs_count := cnt, cs_op := BLOCK_DEVICE_NOOP,
        cs_status := BLOCK_DEVICE_READ_SUCCESS,
        cs_irq := if cs_irqen (bd_regs d1) \<noteq> 0 then 1 else cs_irq (bd_regs d1)\<rparr>
    \<and> bd_file d' = bd_file d1 \<and> bd_master d' = m2
    \<and> es = (if cs_irqen (bd_regs d1) \<noteq> 0 then [BlockIrqUpdate] else [])"
  using assms by (simp add: control_read_def Let_def block_raise_def block_done_def)

lemma control_read_fault:
  assumes "file_read (block_seek (d\<lparr>bd_regs := (bd_regs d)\<lparr>cs_status := BLOCK_DEVICE_BUSY\<rparr>\<rparr>))
        (unat (cs_count (bd_regs d) * cs_block_size (bd_regs d))) = (d1, int (length bs), bs)"
    and "wr_bytes (replicate (unat (cs_count (bd_regs d) * cs_block_size (bd_regs d) + 4)) junk) 0 bs = Inr buf"
    and "dma_out bus jreq (bd_master d1) b (cs_buffer (bd_regs d1)) buf (length bs) (int (length bs)) = Inl e"
    and "block_size_of bs (bd_regs d1) = Inr cnt"
  shows "control_read bus jreq junk d b = Inl e"
  using assms by (simp add: control_read_def Let_def)

lemma file_part_put:
  "take (length bs) (drop pos (file_put f pos bs)) = bs"
  by (simp add: file_put_def min_def)

lemma control_write_eq:
  assumes "control_fetch bus jreq junk d b = Inr (d1, b1, buf, n)" "bd_func_ret d1 \<noteq> 0"
    and "rd_bytes buf 0 n = Inr bs" "bd_file d1 = Some f" "xfer_pos (bd_regs d1) < 2 ^ 31"
    and "cs_block_size (bd_regs d1) \<noteq> 0"
  shows "\<exists>d' es. control_write bus jreq junk d b = Inr (d', b1, es)
    \<and> bd_regs d' = (bd_regs d1)\<lparr>
        cs_size := of_nat (length (file_put f (xfer_pos (bd_regs d1)) bs)) div cs_block_size (bd_regs d1),
        cs_op := BLOCK_DEVICE_NOOP, cs_status := BLOCK_DEVICE_WRITE_SUCCESS,
        cs_irq := if cs_irqen (bd_regs d1) \<noteq> 0 then 1 else cs_irq (bd_regs d1)\<rparr>
    \<and> bd_file d' = Some (file_put f (xfer_pos (bd_regs d1)) bs) \<and> bd_master d' = bd_master d1
    \<and> es = (if cs_irqen (bd_regs d1) \<noteq> 0 then [BlockIrqUpdate] else [])"
  using assms
  by (simp add: control_write_def Let_def block_raise_def block_done_def block_seek_def file_write_def
      block_size_of_def xfer_pos_def)

context memory_bus
begin

lemma cmd_write_ok:
  assumes v: "invar b" and m: "bm_ok m" "small_tail m addr"
    and al: "aligned_access addr (ucast n)" and r: "unat addr + unat n \<le> limit"
    and d: "unat n \<le> length data" and n: "unat (ucast n :: ulong) = unat n"
  shows "\<exists>m' b'. bm_cmd_write bus junk m b addr data n = Inr (m', b', True) \<and> bm_ok m'
    \<and> bm_tr_nbytes m' = bm_tr_nbytes m \<and> invar b'
    \<and> view b' = stored (unat addr) (take (unat n) data) (view b)"
proof -
  have "unat (bm_node_id m) < 2 ^ 16" using m(1) by (simp add: bm_ok_def)
  from store_transaction [OF v al [unfolded n] _ _ this, unfolded n, OF r d, of junk "bm_crt_tid m"]
  obtain req b' rsp where t: "send_req junk (bm_node_id m) (bm_crt_tid m) addr data (ucast n) True = Inr req"
    "bus b req = Inr (b', rsp)" "invar b'" "length (rs_rdata rsp) = 8"
    "response_thread (bm_node_id m) rsp
      = Inr (Some (bm_crt_tid m, drop (lane_ofs addr) (rs_rdata rsp), False, False))"
    "view b' = stored (unat addr) (take (unat n) data) (view b)" by blast
  define m' where "m' = m\<lparr>bm_status := MASTER_CMD_SUCCESS,
    bm_tr_rdata := take (unat (bm_tr_nbytes m)) (drop (lane_ofs addr) (rs_rdata rsp))
       @ drop (unat (bm_tr_nbytes m)) (bm_tr_rdata m), bm_crt_tid := bm_crt_tid m + 1\<rparr>"
  have "bm_rcv_rsp m (bm_crt_tid m) (drop (lane_ofs addr) (rs_rdata rsp)) False False = Inr m'"
    using m t(4) by (simp add: bm_rcv_rsp_def copy_first_eq m'_def bm_ok_def small_tail_def)
  with t(1,2,5) have "bm_transact bus junk m b addr data n True = Inr (m', b')"
    by (simp add: bm_transact_def)
  then have "bm_cmd_write bus junk m b addr data n = Inr (m', b', True)"
    by (simp add: bm_cmd_write_def m'_def)
  moreover have "bm_ok m'" "bm_tr_nbytes m' = bm_tr_nbytes m"
    using m t(4) by (simp_all add: bm_ok_def m'_def small_tail_def)
  ultimately show ?thesis using t(3,6) by blast
qed

text \<open>A stale copy that leaves the data of the response.\<close>

lemma cmd_write_overrun:
  assumes v: "invar b" and m: "bm_ok m" "\<not> small_tail m addr"
    and al: "aligned_access addr (ucast n)" and r: "unat addr + unat n \<le> limit"
    and d: "unat n \<le> length data" and n: "unat (ucast n :: ulong) = unat n"
  shows "bm_cmd_write bus junk m b addr data n = Inl OutOfBounds"
proof -
  have "unat (bm_node_id m) < 2 ^ 16" using m(1) by (simp add: bm_ok_def)
  from store_transaction [OF v al [unfolded n] _ _ this, unfolded n, OF r d, of junk "bm_crt_tid m"]
  obtain req b' rsp where t: "send_req junk (bm_node_id m) (bm_crt_tid m) addr data (ucast n) True = Inr req"
    "bus b req = Inr (b', rsp)" "length (rs_rdata rsp) = 8"
    "response_thread (bm_node_id m) rsp
      = Inr (Some (bm_crt_tid m, drop (lane_ofs addr) (rs_rdata rsp), False, False))" by blast
  have "copy_first (bm_tr_rdata m) (drop (lane_ofs addr) (rs_rdata rsp)) [0..<unat (bm_tr_nbytes m)] = Inl OutOfBounds"
  proof (rule copy_first_short)
    have "lane_ofs addr \<le> 7" unfolding lane_ofs_mod by presburger
    then show "length (drop (lane_ofs addr) (rs_rdata rsp)) < unat (bm_tr_nbytes m)"
      using m t(3) by (simp add: small_tail_def)
  qed (use m in \<open>simp add: bm_ok_def\<close>)
  then have "bm_rcv_rsp m (bm_crt_tid m) (drop (lane_ofs addr) (rs_rdata rsp)) False False = Inl OutOfBounds"
    by (simp add: bm_rcv_rsp_def)
  with t(1,2,4) show ?thesis by (simp add: bm_cmd_write_def bm_transact_def)
qed

lemma cmd_read_ok:
  assumes v: "invar b" and m: "bm_ok m"
    and al: "aligned_access addr 4" and r: "unat addr + 4 \<le> limit" and d: "4 \<le> length data"
  shows "\<exists>m' b' data'. bm_cmd_read bus junk m b addr data 4 = Inr (m', b', data', True) \<and> bm_ok m'
    \<and> invar b' \<and> view b' = view b \<and> data' = map (\<lambda>j. view b (unat addr + j)) [0..<4] @ drop 4 data"
proof -
  define m1 where "m1 = m\<lparr>bm_tr_nbytes := 4, bm_tr_rdata := bytes32 0\<rparr>"
  have "unat (bm_node_id m1) < 2 ^ 16" using m by (simp add: bm_ok_def m1_def)
  from load_transaction [OF v al _ this, simplified, OF r, of junk "bm_crt_tid m1"]
  obtain req b' rsp where t: "send_req junk (bm_node_id m1) (bm_crt_tid m1) addr [] 4 False = Inr req"
    "bus b req = Inr (b', rsp)" "invar b'" "length (rs_rdata rsp) = 8"
    "response_thread (bm_node_id m1) rsp
      = Inr (Some (bm_crt_tid m1, drop (lane_ofs addr) (rs_rdata rsp), False, False))"
    "take 4 (drop (lane_ofs addr) (rs_rdata rsp)) = map (\<lambda>j. view b (unat addr + j)) [0..<4]"
    "view b' = view b" by auto
  define got where "got = take 4 (drop (lane_ofs addr) (rs_rdata rsp))"
  have lg: "length got = 4" using t(6) by (simp add: got_def)
  then have l4: "4 \<le> length (drop (lane_ofs addr) (rs_rdata rsp))" by (simp add: got_def)
  define m' where "m' = m1\<lparr>bm_status := MASTER_CMD_SUCCESS, bm_tr_rdata := got,
    bm_crt_tid := bm_crt_tid m1 + 1\<rparr>"
  have "bm_rcv_rsp m1 (bm_crt_tid m1) (drop (lane_ofs addr) (rs_rdata rsp)) False False = Inr m'"
    using copy_first_eq [OF l4, of "bm_tr_rdata m1"]
    by (simp add: bm_rcv_rsp_def m'_def m1_def got_def)
  with t(1,2,5) have "bm_transact bus junk m1 b addr [] 4 False = Inr (m', b')"
    by (simp add: bm_transact_def)
  then have "bm_cmd_read bus junk m b addr data 4 = Inr (m', b', got @ drop 4 data, True)"
    using d lg copy_first_eq [of 4 got data] by (simp add: bm_cmd_read_def m1_def [symmetric] m'_def)
  moreover have "bm_ok m'" using m lg by (simp add: bm_ok_def m'_def m1_def)
  ultimately show ?thesis using t(3,6,7) by (simp add: got_def)
qed

lemma dma_store_ok:
  assumes "invar b" "bm_ok m" "n = 1 \<or> n = 4" "unat A + length buf < 2 ^ 32"
    and "\<forall>ofs\<in>set offs. aligned_access (A + of_nat ofs) (ucast n) \<and> ofs + unat n \<le> length buf
      \<and> unat A + ofs + unat n \<le> limit \<and> small_tail m (A + of_nat ofs)"
  shows "\<exists>m' b'. dma_store bus junk m b A buf n offs fin fr = Inr (m', b', if offs = [] then fr else 1, fin)
    \<and> bm_ok m' \<and> bm_tr_nbytes m' = bm_tr_nbytes m \<and> invar b'
    \<and> view b' = (\<lambda>i. if unat A \<le> i \<and> chunk offs (unat n) (i - unat A) then buf ! (i - unat A) else view b i)"
  using assms
proof (induction offs arbitrary: m b fr)
  case Nil
  then show ?case by (simp add: chunk_def)
next
  case (Cons ofs offs)
  have n: "unat (ucast n :: ulong) = unat n" using Cons.prems(3) by auto
  from Cons.prems(5) have h: "aligned_access (A + of_nat ofs) (ucast n)" "ofs + unat n \<le> length buf"
    "unat A + ofs + unat n \<le> limit" "small_tail m (A + of_nat ofs)" by auto
  have a: "unat (A + of_nat ofs) = unat A + ofs"
    using Cons.prems(4) h(2) by (simp add: unat_word_ariths unat_of_nat)
  have ln: "unat n \<le> length (drop ofs buf)" using h(2) by simp
  from cmd_write_ok [OF Cons.prems(1,2) h(4,1) _ ln n, of junk] a h(3) obtain m1 b1 where
    1: "bm_cmd_write bus junk m b (A + of_nat ofs) (drop ofs buf) n = Inr (m1, b1, True)" "bm_ok m1"
      "bm_tr_nbytes m1 = bm_tr_nbytes m" "invar b1"
      "view b1 = stored (unat A + ofs) (take (unat n) (drop ofs buf)) (view b)"
    by auto
  from Cons.IH [OF 1(4,2) Cons.prems(3,4), of 1] Cons.prems(5) 1(3) obtain m2 b2 where
    2: "dma_store bus junk m1 b1 A buf n offs fin 1 = Inr (m2, b2, 1, fin)" "bm_ok m2"
      "bm_tr_nbytes m2 = bm_tr_nbytes m" "invar b2"
      "view b2 = (\<lambda>i. if unat A \<le> i \<and> chunk offs (unat n) (i - unat A) then buf ! (i - unat A) else view b1 i)"
    by (auto simp: small_tail_def split: if_splits)
  have "view b2 = (\<lambda>i. if unat A \<le> i \<and> chunk (ofs # offs) (unat n) (i - unat A) then buf ! (i - unat A) else view b i)"
    unfolding 2(5) 1(5) using h(2) by (auto simp: fun_eq_iff stored_def chunk_def min_def)
  with 1(1) 2 show ?case by auto
qed

lemma dma_store_overrun:
  assumes "invar b" "bm_ok m" "n = 1 \<or> n = 4" "unat A + length buf < 2 ^ 32"
    and "\<forall>ofs\<in>set offs. aligned_access (A + of_nat ofs) (ucast n) \<and> ofs + unat n \<le> length buf
      \<and> unat A + ofs + unat n \<le> limit"
    and "\<exists>ofs\<in>set offs. \<not> small_tail m (A + of_nat ofs)"
  shows "dma_store bus junk m b A buf n offs fin fr = Inl OutOfBounds"
  using assms
proof (induction offs arbitrary: m b fr)
  case (Cons ofs offs)
  have n: "unat (ucast n :: ulong) = unat n" using Cons.prems(3) by auto
  from Cons.prems(5) have h: "aligned_access (A + of_nat ofs) (ucast n)" "ofs + unat n \<le> length buf"
    "unat A + ofs + unat n \<le> limit" by auto
  have a: "unat (A + of_nat ofs) = unat A + ofs"
    using Cons.prems(4) h(2) Cons.prems(3) by (auto simp: unat_word_ariths unat_of_nat)
  have ln: "unat n \<le> length (drop ofs buf)" using h(2) by simp
  have r: "unat (A + of_nat ofs) + unat n \<le> limit" using a h(3) by simp
  show ?case
  proof (cases "small_tail m (A + of_nat ofs)")
    case True
    from cmd_write_ok [OF Cons.prems(1,2) True h(1) r ln n, of junk] obtain m1 b1 where
      1: "bm_cmd_write bus junk m b (A + of_nat ofs) (drop ofs buf) n = Inr (m1, b1, True)" "bm_ok m1"
        "bm_tr_nbytes m1 = bm_tr_nbytes m" "invar b1" by blast
    have "\<exists>ofs\<in>set offs. \<not> small_tail m1 (A + of_nat ofs)"
      using Cons.prems(6) True 1(3) by (auto simp: small_tail_def)
    then show ?thesis using Cons.IH [OF 1(4,2) Cons.prems(3,4)] Cons.prems(5) 1(1) by simp
  next
    case False
    then show ?thesis using cmd_write_overrun [OF Cons.prems(1,2) False h(1) r ln n] by simp
  qed
qed simp

lemma dma_load_ok:
  assumes "invar b" "bm_ok m" "unat A + length buf < 2 ^ 32" "unat A mod 4 = 0" "4 * K \<le> length buf"
    "unat A + 4 * K \<le> limit" "k \<le> K"
  shows "\<exists>m' b'. dma_load bus junk m b A buf (map (\<lambda>k. 4 * k) [k..<K]) fr
      = Inr (m', b', take (4 * k) buf @ map (\<lambda>j. view b (unat A + j)) [4 * k..<4 * K] @ drop (4 * K) buf,
             if k = K then fr else 1)
    \<and> bm_ok m' \<and> invar b' \<and> view b' = view b"
  using assms
proof (induction "K - k" arbitrary: m b buf fr k)
  case 0
  then show ?case by simp
next
  case (Suc d)
  then have k: "k < K" by simp
  have a: "unat (A + of_nat (4 * k)) = unat A + 4 * k"
    using Suc.prems(3,5) k by (simp add: unat_word_ariths unat_of_nat)
  have al: "aligned_access (A + of_nat (4 * k)) 4"
    unfolding aligned_access_def a using Suc.prems(4) by simp
  have lim: "unat (A + of_nat (4 * k)) + 4 \<le> limit" unfolding a using Suc.prems(6) k by simp
  have len: "4 \<le> length (drop (4 * k) buf)" using Suc.prems(5) k by simp
  from cmd_read_ok [OF Suc.prems(1,2) al lim len, of junk] obtain m1 b1 where
    1: "bm_cmd_read bus junk m b (A + of_nat (4 * k)) (drop (4 * k) buf) 4
        = Inr (m1, b1, map (\<lambda>j. view b (unat A + 4 * k + j)) [0..<4] @ drop (4 * k + 4) buf, True)"
      "bm_ok m1" "invar b1" "view b1 = view b"
    unfolding a by (auto simp: add.commute)
  define buf1 where "buf1 = take (4 * k) buf @ map (\<lambda>j. view b (unat A + 4 * k + j)) [0..<4] @ drop (4 * k + 4) buf"
  have l1: "length buf1 = length buf" using Suc.prems(5) k by (simp add: buf1_def)
  have Sk: "d = K - Suc k" using Suc.hyps(2) by simp
  from Suc.hyps(1) [OF Sk 1(3,2), of buf1 1] Suc.prems l1 k obtain m2 b2 where
    2: "dma_load bus junk m1 b1 A buf1 (map (\<lambda>k. 4 * k) [Suc k..<K]) 1
      = Inr (m2, b2, take (4 * Suc k) buf1 @ map (\<lambda>j. view b1 (unat A + j)) [4 * Suc k..<4 * K] @ drop (4 * K) buf1, 1)"
      "bm_ok m2" "invar b2" "view b2 = view b1"
    by (auto split: if_splits)
  have t: "take (4 * Suc k) buf1 = take (4 * k) buf @ map (\<lambda>j. view b (unat A + j)) [4 * k..<4 * Suc k]"
  proof -
    have "map (\<lambda>j. view b (unat A + 4 * k + j)) [0..<4] = map (\<lambda>j. view b (unat A + j)) [4 * k..<4 * Suc k]"
      by (simp add: upt_rec ac_simps)
    then show ?thesis using Suc.prems(5) k by (simp add: buf1_def)
  qed
  have dr: "drop (4 * K) buf1 = drop (4 * K) buf" using Suc.prems(5) k by (simp add: buf1_def)
  have up: "[4 * k..<4 * K] = [4 * k..<4 * Suc k] @ [4 * Suc k..<4 * K]"
    using k upt_add_eq_append [of "4 * k" "4 * Suc k" "4 * K - 4 * Suc k"] by simp
  have "dma_load bus junk m b A buf (map (\<lambda>k. 4 * k) [k..<K]) fr
      = dma_load bus junk m1 b1 A buf1 (map (\<lambda>k. 4 * k) [Suc k..<K]) 1"
    by (simp only: upt_conv_Cons [OF k] list.map dma_load.simps 1(1) bindr_simps prod.case Let_def
        buf1_def [symmetric] if_True)
  also have "\<dots> = Inr (m2, b2, take (4 * k) buf @ map (\<lambda>j. view b (unat A + j)) [4 * k..<4 * K]
      @ drop (4 * K) buf, 1)"
    unfolding 2(1) t dr up by (simp add: 1(4) del: upt_Suc)
  finally show ?case using 2 1(4) k by simp
qed

lemma dma_word_ok:
  assumes "bm_ok m" and n: "n \<le> length buf"
    and A: "unat A mod 4 = 0" "unat A + length buf < 2 ^ 32" "unat A + n \<le> limit"
    and o: "ofs \<in> set (word_offsets (n div 4))"
  shows "aligned_access (A + of_nat ofs) (ucast (4::u8)) \<and> ofs + unat (4::u8) \<le> length buf
      \<and> unat A + ofs + unat (4::u8) \<le> limit \<and> small_tail m (A + of_nat ofs)"
proof -
  from o obtain k where k: "ofs = 4 * k" "4 * k + 4 \<le> n"
    by (auto simp: word_offsets_def)
  have "unat (A + of_nat ofs) = unat A + ofs"
    using k n A(2) by (simp add: unat_word_ariths unat_of_nat)
  then have al: "unat (A + of_nat ofs) mod 4 = 0" using k A(1) by simp
  then have "lane_ofs (A + of_nat ofs) \<le> 4" unfolding lane_ofs_mod by presburger
  then show ?thesis using al k n A(3) assms(1)
    by (auto simp: aligned_access_def small_tail_def bm_ok_def)
qed

lemma dma_out_ok:
  assumes b: "invar b" "bm_ok m" and n: "n = length blk" "0 < n" "n \<le> length buf"
    and buf: "\<And>i. i < n \<Longrightarrow> buf ! i = blk ! i"
    and A: "unat A mod 4 = 0" "unat A + length buf < 2 ^ 32" "unat A + n \<le> limit"
    and tail: "tail_fits m A n"
  shows "\<exists>m1 b1 m2 b2 fr1. dma_store bus junk m b A buf 4 (word_offsets (n div 4)) (4 * (n div 4)) (int n)
        = Inr (m1, b1, fr1, 4 * (n div 4))
    \<and> dma_store bus junk m1 b1 A buf 1 [4 * (n div 4)..<n] n fr1 = Inr (m2, b2, 1, n)
    \<and> bm_ok m2 \<and> bm_tr_nbytes m2 = bm_tr_nbytes m \<and> invar b2 \<and> view b2 = stored (unat A) blk (view b)"
proof -
  note w = dma_word_ok [OF b(2) n(3) A]
  from dma_store_ok [OF b _ A(2), of 4 "word_offsets (n div 4)" junk "4 * (n div 4)" "int n"] w
  obtain m1 b1 where 1: "dma_store bus junk m b A buf 4 (word_offsets (n div 4)) (4 * (n div 4)) (int n)
      = Inr (m1, b1, if word_offsets (n div 4) = [] then int n else 1, 4 * (n div 4))"
    "bm_ok m1" "bm_tr_nbytes m1 = bm_tr_nbytes m" "invar b1"
    "view b1 = (\<lambda>i. if unat A \<le> i \<and> chunk (word_offsets (n div 4)) 4 (i - unat A) then buf ! (i - unat A) else view b i)"
    by auto
  have y: "aligned_access (A + of_nat ofs) (ucast (1::u8)) \<and> ofs + unat (1::u8) \<le> length buf
      \<and> unat A + ofs + unat (1::u8) \<le> limit \<and> small_tail m1 (A + of_nat ofs)"
    if "ofs \<in> set [4 * (n div 4)..<n]" for ofs
    using tail that n(3) A(3) 1(3) by (auto simp: aligned_access_def small_tail_def tail_fits_def)
  from dma_store_ok [OF 1(4,2) _ A(2), of 1 "[4 * (n div 4)..<n]" junk n
      "if word_offsets (n div 4) = [] then int n else 1"] y
  obtain m2 b2 where 2: "dma_store bus junk m1 b1 A buf 1 [4 * (n div 4)..<n] n
        (if word_offsets (n div 4) = [] then int n else 1)
      = Inr (m2, b2, if [4 * (n div 4)..<n] = [] then (if word_offsets (n div 4) = [] then int n else 1) else 1, n)"
    "bm_ok m2" "bm_tr_nbytes m2 = bm_tr_nbytes m1" "invar b2"
    "view b2 = (\<lambda>i. if unat A \<le> i \<and> chunk [4 * (n div 4)..<n] 1 (i - unat A) then buf ! (i - unat A) else view b1 i)"
    by auto
  have fr: "(if [4 * (n div 4)..<n] = [] then (if word_offsets (n div 4) = [] then int n else 1) else 1) = 1"
    using n(2) by (auto simp: word_offsets_def)
  have "view b2 = stored (unat A) blk (view b)"
  proof
    fix i
    show "view b2 i = stored (unat A) blk (view b) i"
      unfolding 2(5) 1(5) chunk_words chunk_bytes stored_def n(1) [symmetric]
      using buf [of "i - unat A"] by auto
  qed
  with 1 2 fr show ?thesis by auto
qed

lemma dma_out_overrun:
  assumes b: "invar b" "bm_ok m" and n: "0 < n" "n \<le> length buf"
    and A: "unat A mod 4 = 0" "unat A + length buf < 2 ^ 32" "unat A + n \<le> limit"
    and tail: "\<not> tail_fits m A n"
  shows "dma_out bus junk m b A buf n fr = Inl OutOfBounds"
proof -
  from dma_store_ok [OF b _ A(2), of 4 "word_offsets (n div 4)" junk "4 * (n div 4)" fr]
    dma_word_ok [OF b(2) n(2) A] obtain m1 b1 fr1 where
    1: "dma_store bus junk m b A buf 4 (word_offsets (n div 4)) (4 * (n div 4)) fr = Inr (m1, b1, fr1, 4 * (n div 4))"
    "bm_ok m1" "bm_tr_nbytes m1 = bm_tr_nbytes m" "invar b1" by auto
  have "\<forall>ofs\<in>set [4 * (n div 4)..<n]. aligned_access (A + of_nat ofs) (ucast (1::u8))
      \<and> ofs + unat (1::u8) \<le> length buf \<and> unat A + ofs + unat (1::u8) \<le> limit"
    using n(2) A(3) by (auto simp: aligned_access_def)
  moreover have "\<exists>ofs\<in>set [4 * (n div 4)..<n]. \<not> small_tail m1 (A + of_nat ofs)"
    using tail 1(3) by (auto simp: tail_fits_def small_tail_def)
  ultimately have "dma_store bus junk m1 b1 A buf 1 [4 * (n div 4)..<n] n fr1 = Inl OutOfBounds"
    using dma_store_overrun [OF 1(4,2) _ A(2)] by blast
  then show ?thesis using 1(1) n(1) by (simp add: dma_out_def)
qed

lemma control_read_ok:
  assumes b: "invar b" and x: "xfer_ok limit d"
    and tail: "tail_fits (bd_master d) (cs_buffer (bd_regs d)) (length (file_part d))"
  shows "\<exists>d' b' es. control_read bus jreq junk d b = Inr (d', b', es) \<and> invar b'
    \<and> view b' = stored (unat (cs_buffer (bd_regs d))) (file_part d) (view b)
    \<and> cs_status (bd_regs d') = BLOCK_DEVICE_READ_SUCCESS \<and> cs_op (bd_regs d') = BLOCK_DEVICE_NOOP
    \<and> cs_count (bd_regs d') = of_nat (length (file_part d)) div cs_block_size (bd_regs d)
    \<and> bd_file d' = bd_file d \<and> bm_ok (bd_master d')
    \<and> (cs_irqen (bd_regs d) \<noteq> 0 \<longrightarrow> block_irq_line (bd_regs d') \<and> es = [BlockIrqUpdate])
    \<and> cs_block_size (bd_regs d') = cs_block_size (bd_regs d)"
proof -
  from x obtain f where f: "bd_file d = Some f" by (auto simp: xfer_ok_def)
  define r where "r = bd_regs d"
  define ts where "ts = cs_count r * cs_block_size r"
  define blk where "blk = file_part d"
  define A where "A = cs_buffer r"
  have ts: "unat ts = xfer_size r" by (simp add: ts_def xfer_size_def)
  have lim: "unat A mod 4 = 0" "unat A + unat ts + 4 < 2 ^ 32" "unat A + unat ts \<le> limit"
    "cs_block_size r \<noteq> 0" "xfer_pos r < 2 ^ 31" "bm_ok (bd_master d)"
    using x by (simp_all add: xfer_ok_def r_def A_def ts)
  have lb: "length blk \<le> unat ts" by (simp add: blk_def file_part_def ts r_def)
  define buf0 where "buf0 = replicate (unat (ts + 4)) junk"
  have l4: "length buf0 = unat ts + 4" using lim(2) by (simp add: buf0_def unat_word_ariths)
  define buf where "buf = put_bytes buf0 0 blk"
  have lbuf: "length buf = unat ts + 4" using l4 lb by (simp add: buf_def)
  have w: "wr_bytes buf0 0 blk = Inr buf" using l4 lb by (simp add: wr_bytes_def buf_def)
  have nth: "i < length blk \<Longrightarrow> buf ! i = blk ! i" for i
    using l4 lb by (simp add: buf_def nth_put_bytes)
  define r1 where "r1 = (bd_regs d)\<lparr>cs_status := BLOCK_DEVICE_BUSY\<rparr>"
  define d1 where "d1 = d\<lparr>bd_regs := r1, bd_pos := xfer_pos r + length blk\<rparr>"
  have sk: "block_seek (d\<lparr>bd_regs := r1\<rparr>) = d\<lparr>bd_regs := r1, bd_pos := xfer_pos r\<rparr>"
    using f lim(5) by (simp add: block_seek_def r1_def xfer_pos_def Let_def r_def)
  have fr: "file_read (block_seek (d\<lparr>bd_regs := r1\<rparr>)) (unat ts) = (d1, int (length blk), blk)"
    using f by (simp add: sk file_read_def blk_def file_part_def d1_def ts r_def Let_def)
  have sz: "block_size_of blk r1 = Inr (of_nat (length blk) div cs_block_size r)"
    using lim(4) by (simp add: block_size_of_def r1_def r_def)
  have "\<exists>m2 b2 fr2 ofs2. dma_out bus jreq (bd_master d) b A buf (length blk) (int (length blk))
      = Inr (m2, b2, fr2, ofs2, True) \<and> bm_ok m2 \<and> invar b2 \<and> view b2 = stored (unat A) blk (view b)"
  proof (cases "length blk = 0")
    case True
    then show ?thesis using lim(6) b by (auto simp: dma_out_def stored_def fun_eq_iff)
  next
    case False
    from dma_out_ok [OF b lim(6) refl _ _ nth lim(1), of jreq] False lb lbuf lim(2,3) tail
    show ?thesis by (auto simp: dma_out_def blk_def A_def r_def)
  qed
  then obtain m2 b2 fr2 ofs2 where dma: "dma_out bus jreq (bd_master d) b A buf (length blk) (int (length blk))
      = Inr (m2, b2, fr2, ofs2, True)"
    and 2: "bm_ok m2" "invar b2" "view b2 = stored (unat A) blk (view b)" by blast
  have dma': "dma_out bus jreq (bd_master d1) b (cs_buffer (bd_regs d1)) buf (length blk) (int (length blk))
      = Inr (m2, b2, fr2, ofs2, True)"
    using dma by (simp add: d1_def r1_def A_def r_def)
  have sz': "block_size_of blk (bd_regs d1) = Inr (of_nat (length blk) div cs_block_size r)"
    using sz by (simp add: d1_def)
  from control_read_eq [OF fr [unfolded ts_def r_def r1_def] w [unfolded buf0_def ts_def r_def] dma' sz']
  obtain d' es where c: "control_read bus jreq junk d b = Inr (d', b2, es)"
    and d': "bd_regs d' = (bd_regs d1)\<lparr>cs_count := of_nat (length blk) div cs_block_size r,
        cs_op := BLOCK_DEVICE_NOOP, cs_status := BLOCK_DEVICE_READ_SUCCESS,
        cs_irq := if cs_irqen (bd_regs d1) \<noteq> 0 then 1 else cs_irq (bd_regs d1)\<rparr>"
      "bd_file d' = bd_file d1" "bd_master d' = m2"
    and es: "es = (if cs_irqen (bd_regs d1) \<noteq> 0 then [BlockIrqUpdate] else [])" by blast
  have "cs_irqen (bd_regs d1) = cs_irqen (bd_regs d)" "bd_file d1 = bd_file d" "cs_block_size (bd_regs d1) = cs_block_size (bd_regs d)"
    by (simp_all add: d1_def r1_def)
  then show ?thesis
    using 2 c d' es by (simp add: A_def blk_def r_def block_irq_line_def)
qed

lemma control_read_overrun:
  assumes b: "invar b" and x: "xfer_ok limit d"
    and tail: "\<not> tail_fits (bd_master d) (cs_buffer (bd_regs d)) (length (file_part d))"
  shows "control_read bus jreq junk d b = Inl OutOfBounds"
proof -
  from x obtain f where f: "bd_file d = Some f" by (auto simp: xfer_ok_def)
  define n where "n = length (file_part d)"
  have n: "0 < n" "n \<le> xfer_size (bd_regs d)" using tail by (auto simp: n_def tail_fits_def file_part_def)
  have lim: "unat (cs_buffer (bd_regs d)) mod 4 = 0"
    "unat (cs_buffer (bd_regs d)) + xfer_size (bd_regs d) + 4 < 2 ^ 32"
    "unat (cs_buffer (bd_regs d)) + xfer_size (bd_regs d) \<le> limit"
    "cs_block_size (bd_regs d) \<noteq> 0" "xfer_pos (bd_regs d) < 2 ^ 31" "bm_ok (bd_master d)"
    using x by (simp_all add: xfer_ok_def)
  define buf0 where "buf0 = replicate (unat (cs_count (bd_regs d) * cs_block_size (bd_regs d) + 4)) junk"
  have l0: "length buf0 = xfer_size (bd_regs d) + 4"
    using lim(2) by (simp add: buf0_def xfer_size_def unat_word_ariths)
  define buf where "buf = put_bytes buf0 0 (file_part d)"
  have w: "wr_bytes buf0 0 (file_part d) = Inr buf" using l0 n by (simp add: wr_bytes_def buf_def n_def)
  have "length buf = xfer_size (bd_regs d) + 4" using l0 n by (simp add: buf_def n_def)
  then have "dma_out bus jreq (bd_master d) b (cs_buffer (bd_regs d)) buf n (int n) = Inl OutOfBounds"
    using dma_out_overrun [OF b lim(6) n(1) _ lim(1), of buf jreq "int n"] n(2) lim(2,3) tail by (simp add: n_def)
  moreover define d1 where "d1 = d\<lparr>bd_regs := (bd_regs d)\<lparr>cs_status := BLOCK_DEVICE_BUSY\<rparr>, bd_pos := xfer_pos (bd_regs d) + n\<rparr>"
  moreover have "file_read (block_seek (d\<lparr>bd_regs := (bd_regs d)\<lparr>cs_status := BLOCK_DEVICE_BUSY\<rparr>\<rparr>))
      (unat (cs_count (bd_regs d) * cs_block_size (bd_regs d))) = (d1, int n, file_part d)"
    using f lim(5) by (simp add: block_seek_def file_read_def d1_def n_def file_part_def xfer_pos_def xfer_size_def)
  ultimately show ?thesis
    using lim(4) w by (intro control_read_fault [of d d1 "file_part d" junk buf])
      (simp_all add: block_size_of_def buf0_def n_def)
qed

text \<open>What \<open>BLOCK_DEVICE_WRITE\<close> and \<open>BLOCK_DEVICE_FILE_NAME\<close> fetch from memory.\<close>

lemma control_fetch_ok:
  assumes b: "invar b" and lim: "unat (cs_buffer (bd_regs d)) mod 4 = 0"
      "unat (cs_buffer (bd_regs d)) + xfer_size (bd_regs d) + 4 < 2 ^ 32"
      "unat (cs_buffer (bd_regs d)) + xfer_size (bd_regs d) \<le> limit" "bm_ok (bd_master d)"
    and pos: "0 < xfer_size (bd_regs d)"
  shows "\<exists>m1 b1 buf. control_fetch bus jreq junk d b
      = Inr (d\<lparr>bd_regs := (bd_regs d)\<lparr>cs_status := BLOCK_DEVICE_BUSY\<rparr>, bd_master := m1, bd_func_ret := 1\<rparr>, b1, buf, xfer_size (bd_regs d))
    \<and> bm_ok m1 \<and> invar b1 \<and> view b1 = view b \<and> xfer_size (bd_regs d) \<le> length buf
    \<and> take (xfer_size (bd_regs d)) buf = map (\<lambda>j. view b (unat (cs_buffer (bd_regs d)) + j)) [0..<xfer_size (bd_regs d)]"
proof -
  define A where "A = cs_buffer (bd_regs d)"
  define n where "n = xfer_size (bd_regs d)"
  define K where "K = (n + 3) div 4"
  note lim = lim [folded A_def n_def]
  have K: "4 * K \<le> n + 4" "n \<le> 4 * K" "0 < K" using pos by (simp_all add: K_def n_def)
  have KL: "unat A + 4 * K \<le> limit" using lim(1,3) limit8 unfolding K_def by presburger
  define buf0 where "buf0 = replicate (unat (cs_count (bd_regs d) * cs_block_size (bd_regs d) + 4)) junk"
  have l0: "length buf0 = n + 4"
    using lim(2) by (simp add: buf0_def n_def xfer_size_def unat_word_ariths)
  have b0: "unat A + length buf0 < 2 ^ 32" "4 * K \<le> length buf0" using l0 lim(2) K by simp_all
  from dma_load_ok [OF b lim(4) b0(1) lim(1) b0(2) KL, of 0 jreq "bd_func_ret d"] K(3) obtain m1 b1 where
    1: "dma_load bus jreq (bd_master d) b A buf0 (word_offsets K) (bd_func_ret d)
      = Inr (m1, b1, map (\<lambda>j. view b (unat A + j)) [0..<4 * K] @ drop (4 * K) buf0, 1)"
      "bm_ok m1" "invar b1" "view b1 = view b"
    by (auto simp: word_offsets_def)
  define buf where "buf = map (\<lambda>j. view b (unat A + j)) [0..<4 * K] @ drop (4 * K) buf0"
  have "control_fetch bus jreq junk d b
      = Inr (d\<lparr>bd_regs := (bd_regs d)\<lparr>cs_status := BLOCK_DEVICE_BUSY\<rparr>, bd_master := m1, bd_func_ret := 1\<rparr>, b1, buf, n)"
    using 1(1) by (simp add: control_fetch_def Let_def A_def buf0_def buf_def K_def n_def xfer_size_def)
  moreover have "take n buf = map (\<lambda>j. view b (unat A + j)) [0..<n]" "n \<le> length buf"
    using K(2) l0 by (simp_all add: buf_def take_map)
  ultimately show ?thesis using 1(2-4) unfolding A_def n_def by blast
qed

lemma control_write_ok:
  assumes b: "invar b" and x: "xfer_ok limit d" and pos: "0 < xfer_size (bd_regs d)"
  shows "\<exists>d' b' es. control_write bus jreq junk d b = Inr (d', b', es) \<and> invar b' \<and> view b' = view b
    \<and> bd_file d' = Some (file_put (the (bd_file d)) (xfer_pos (bd_regs d))
        (map (\<lambda>j. view b (unat (cs_buffer (bd_regs d)) + j)) [0..<xfer_size (bd_regs d)]))
    \<and> cs_status (bd_regs d') = BLOCK_DEVICE_WRITE_SUCCESS \<and> cs_op (bd_regs d') = BLOCK_DEVICE_NOOP
    \<and> cs_size (bd_regs d') = of_nat (length (the (bd_file d'))) div cs_block_size (bd_regs d)
    \<and> bm_ok (bd_master d')
    \<and> (cs_irqen (bd_regs d) \<noteq> 0 \<longrightarrow> block_irq_line (bd_regs d') \<and> es = [BlockIrqUpdate])
    \<and> cs_block_size (bd_regs d') = cs_block_size (bd_regs d)"
proof -
  from x obtain f where f: "bd_file d = Some f" by (auto simp: xfer_ok_def)
  define A where "A = cs_buffer (bd_regs d)"
  define n where "n = xfer_size (bd_regs d)"
  have lim: "unat A mod 4 = 0" "unat A + n + 4 < 2 ^ 32" "unat A + n \<le> limit"
    "cs_block_size (bd_regs d) \<noteq> 0" "xfer_pos (bd_regs d) < 2 ^ 31" "bm_ok (bd_master d)"
    using x by (simp_all add: xfer_ok_def A_def n_def)
  from control_fetch_ok [OF b lim(1-3,6) [unfolded A_def n_def] pos, of jreq junk] obtain m1 b1 buf where
    1: "control_fetch bus jreq junk d b
      = Inr (d\<lparr>bd_regs := (bd_regs d)\<lparr>cs_status := BLOCK_DEVICE_BUSY\<rparr>, bd_master := m1, bd_func_ret := 1\<rparr>, b1, buf, n)"
      "bm_ok m1" "invar b1" "view b1 = view b" "n \<le> length buf" "take n buf = map (\<lambda>j. view b (unat A + j)) [0..<n]"
    unfolding A_def n_def by blast
  define d1 where "d1 = d\<lparr>bd_regs := (bd_regs d)\<lparr>cs_status := BLOCK_DEVICE_BUSY\<rparr>, bd_master := m1, bd_func_ret := 1\<rparr>"
  have cf: "control_fetch bus jreq junk d b = Inr (d1, b1, buf, n)" using 1(1) by (simp add: d1_def)
  have r: "rd_bytes buf 0 n = Inr (map (\<lambda>j. view b (unat A + j)) [0..<n])"
    using 1(5,6) by (simp add: rd_bytes_def)
  from control_write_eq [OF cf _ r, of f] f lim(4,5) obtain d' es where
    c: "control_write bus jreq junk d b = Inr (d', b1, es)"
    and d': "bd_regs d' = (bd_regs d1)\<lparr>
        cs_size := of_nat (length (file_put f (xfer_pos (bd_regs d1)) (map (\<lambda>j. view b (unat A + j)) [0..<n])))
                   div cs_block_size (bd_regs d1),
        cs_op := BLOCK_DEVICE_NOOP, cs_status := BLOCK_DEVICE_WRITE_SUCCESS,
        cs_irq := if cs_irqen (bd_regs d1) \<noteq> 0 then 1 else cs_irq (bd_regs d1)\<rparr>"
      "bd_file d' = Some (file_put f (xfer_pos (bd_regs d1)) (map (\<lambda>j. view b (unat A + j)) [0..<n]))"
      "bd_master d' = bd_master d1"
    and es: "es = (if cs_irqen (bd_regs d1) \<noteq> 0 then [BlockIrqUpdate] else [])"
    by (auto simp: d1_def xfer_pos_def)
  have "cs_irqen (bd_regs d1) = cs_irqen (bd_regs d)" "xfer_pos (bd_regs d1) = xfer_pos (bd_regs d)"
    "cs_block_size (bd_regs d1) = cs_block_size (bd_regs d)" "bd_master d1 = m1"
    by (simp_all add: d1_def xfer_pos_def)
  then show ?thesis
    using 1(2-4) c d' es f by (simp add: A_def n_def block_irq_line_def)
qed

lemma control_file_name_ok:
  assumes b: "invar b" and lim: "unat (cs_buffer (bd_regs d)) mod 4 = 0"
      "unat (cs_buffer (bd_regs d)) + xfer_size (bd_regs d) + 4 < 2 ^ 32"
      "unat (cs_buffer (bd_regs d)) + xfer_size (bd_regs d) \<le> limit" "bm_ok (bd_master d)"
    and nm: "map (\<lambda>j. view b (unat (cs_buffer (bd_regs d)) + j)) [0..<xfer_size (bd_regs d)] = nm @ [0]" "0 \<notin> set nm"
    and bs: "cs_block_size (bd_regs d) \<noteq> 0"
  shows "\<exists>d' b'. control_file_name fs bus jreq junk d b = Inr (d', b', []) \<and> invar b' \<and> view b' = view b \<and> bd_file d' = fs nm
    \<and> cs_status (bd_regs d') = (if fs nm = None then BLOCK_DEVICE_WRITE_ERROR else BLOCK_DEVICE_WRITE_SUCCESS)
    \<and> bm_ok (bd_master d') \<and> cs_block_size (bd_regs d') = cs_block_size (bd_regs d)"
proof -
  have "length (map (\<lambda>j. view b (unat (cs_buffer (bd_regs d)) + j)) [0..<xfer_size (bd_regs d)]) = Suc (length nm)"
    unfolding nm(1) by simp
  then have pos: "0 < xfer_size (bd_regs d)" by simp
  from control_fetch_ok [OF b lim pos, of jreq junk] nm(1) obtain m1 b1 buf where
    1: "control_fetch bus jreq junk d b
      = Inr (d\<lparr>bd_regs := (bd_regs d)\<lparr>cs_status := BLOCK_DEVICE_BUSY\<rparr>, bd_master := m1, bd_func_ret := 1\<rparr>, b1, buf, xfer_size (bd_regs d))"
      "bm_ok m1" "invar b1" "view b1 = view b" "take (xfer_size (bd_regs d)) buf = nm @ [0]" by auto
  have "c_string (nm @ [0] @ drop (xfer_size (bd_regs d)) buf) = nm"
    using nm(2) by (simp add: c_string_def takeWhile_eq_all_conv takeWhile_append2 split: if_splits) (subst takeWhile_append2, auto)
  moreover have "buf = nm @ [0] @ drop (xfer_size (bd_regs d)) buf"
    using 1(5) append_take_drop_id [of "xfer_size (bd_regs d)" buf] by simp
  ultimately have cs: "rd_string buf = Inr nm"
    unfolding rd_string_def by (metis Un_iff append_Cons in_set_conv_decomp)
  show ?thesis
    using 1 cs bs by (cases "fs nm") (auto simp: control_file_name_def open_host_file_def block_size_of_def block_done_def)
qed

end

end
