(* ===== verification/Cpu_Requests.thy ===== *)
theory Cpu_Requests
  imports Rabbits_Prelude
begin

text \<open>
  The pool of outstanding transactions of a processor (\<^verbatim>\<open>qemu_wrapper/qemu_wrapper_request.cpp\<close>):
  two singly linked lists of request objects, free and busy, through the objects' \<open>m_next\<close>
  pointers. The objects live in a heap, a pointer is an index into it and a
  null pointer \<open>None\<close>; the pointer-to-pointer \<open>pp\<close> of the loops is a \<open>location\<close>.

  A walk along a list of a heap of \<open>n\<close> objects that takes more than \<open>n\<close> steps has come back to
  an object it has seen and never ends: it is cut off there and reported as a livelock.
\<close>

record qemu_wrapper_request =
  qr_tid :: u8
  qr_bDone :: bool
  qr_bWrite :: bool
  qr_rcv_data :: ulong
  qr_m_next :: "nat option"

record qemu_wrapper_requests =
  rs_heap :: "qemu_wrapper_request list"
  rs_m_headFree :: "nat option"
  rs_m_headBusy :: "nat option"

datatype location = HeadFree | HeadBusy | NextOf nat

definition get_loc :: "qemu_wrapper_requests \<Rightarrow> location \<Rightarrow> nat option res" where
  "get_loc s pp = (case pp of
      HeadFree \<Rightarrow> Inr (rs_m_headFree s)
    | HeadBusy \<Rightarrow> Inr (rs_m_headBusy s)
    | NextOf p \<Rightarrow> bindr (rd (rs_heap s) p) (\<lambda>n. Inr (qr_m_next n)))"

definition set_loc :: "qemu_wrapper_requests \<Rightarrow> location \<Rightarrow> nat option \<Rightarrow> qemu_wrapper_requests res" where
  "set_loc s pp v = (case pp of
      HeadFree \<Rightarrow> Inr (s\<lparr>rs_m_headFree := v\<rparr>)
    | HeadBusy \<Rightarrow> Inr (s\<lparr>rs_m_headBusy := v\<rparr>)
    | NextOf p \<Rightarrow> bindr (rd (rs_heap s) p) (\<lambda>n.
        Inr (s\<lparr>rs_heap := (rs_heap s)[p := n\<lparr>qr_m_next := v\<rparr>]\<rparr>)))"

text \<open>The constructors. The fields they do not set are \<open>w\<close> and \<open>r\<close>.\<close>

definition request_new :: "bool \<Rightarrow> ulong \<Rightarrow> nat \<Rightarrow> qemu_wrapper_request" where
  "request_new w r n = \<lparr>qr_tid = of_nat n, qr_bDone = False, qr_bWrite = w, qr_rcv_data = r,
     qr_m_next = None\<rparr>"

fun requests_alloc :: "bool \<Rightarrow> ulong \<Rightarrow> nat list \<Rightarrow> location \<Rightarrow> qemu_wrapper_requests
    \<Rightarrow> qemu_wrapper_requests res" where
  "requests_alloc w r [] pp s = Inr s"
| "requests_alloc w r (i # is) pp s =
     (let p = length (rs_heap s) in
      bindr (set_loc (s\<lparr>rs_heap := rs_heap s @ [request_new w r (i + 1)]\<rparr>) pp (Some p)) (\<lambda>s.
      requests_alloc w r is (NextOf p) s))"

definition requests_new :: "bool \<Rightarrow> ulong \<Rightarrow> nat \<Rightarrow> qemu_wrapper_requests res" where
  "requests_new w r count =
     requests_alloc w r [0..<count] HeadFree \<lparr>rs_heap = [], rs_m_headFree = None, rs_m_headBusy = None\<rparr>"

text \<open>\<open>None\<close>: the caller has to wait for \<open>m_evEmpty\<close>.\<close>

definition WaitWBEmpty :: "qemu_wrapper_requests \<Rightarrow> unit option" where
  "WaitWBEmpty s = (if rs_m_headBusy s \<noteq> None then None else Some ())"

definition GetNewRequest :: "bool \<Rightarrow> qemu_wrapper_requests \<Rightarrow> (qemu_wrapper_requests \<times> nat) res option" where
  "GetNewRequest bWaitEmpty s =
     (if bWaitEmpty \<and> rs_m_headBusy s \<noteq> None then None
      else Some (case rs_m_headFree s of
          None \<Rightarrow> Inl (Exit 1)
        | Some p \<Rightarrow>
            bindr (rd (rs_heap s) p) (\<lambda>n.
            let s = s\<lparr>rs_m_headFree := qr_m_next n\<rparr>;
                n = n\<lparr>qr_m_next := rs_m_headBusy s\<rparr>;
                s = s\<lparr>rs_m_headBusy := Some p\<rparr>;
                n = n\<lparr>qr_bDone := False, qr_rcv_data := 0xDEADDEAD\<rparr>
            in Inr (s\<lparr>rs_heap := (rs_heap s)[p := n]\<rparr>, p))))"

fun find_tid :: "nat \<Rightarrow> qemu_wrapper_request list \<Rightarrow> nat option \<Rightarrow> u8 \<Rightarrow> nat option res" where
  "find_tid k h None tid = Inr None"
| "find_tid 0 h (Some p) tid = Inl Livelock"
| "find_tid (Suc k) h (Some p) tid =
     bindr (rd h p) (\<lambda>n. if qr_tid n \<noteq> tid then find_tid k h (qr_m_next n) tid else Inr (Some p))"

definition GetRequestByTid :: "qemu_wrapper_requests \<Rightarrow> u8 \<Rightarrow> nat option res" where
  "GetRequestByTid s tid = find_tid (length (rs_heap s)) (rs_heap s) (rs_m_headBusy s) tid"

fun find_loc :: "nat \<Rightarrow> qemu_wrapper_requests \<Rightarrow> location \<Rightarrow> nat \<Rightarrow> location option res" where
  "find_loc k s pp rq =
     bindr (get_loc s pp) (\<lambda>v. case v of
         None \<Rightarrow> Inr None
       | Some p \<Rightarrow> if p \<noteq> rq then (case k of 0 \<Rightarrow> Inl Livelock | Suc k \<Rightarrow> find_loc k s (NextOf p) rq)
                   else Inr (Some pp))"

declare find_loc.simps [simp del]

text \<open>The flag: \<open>m_evEmpty\<close> is notified. A request that is not busy is reported and kept.\<close>

definition FreeRequest :: "qemu_wrapper_requests \<Rightarrow> nat \<Rightarrow> (qemu_wrapper_requests \<times> bool) res" where
  "FreeRequest s rq =
     bindr (find_loc (length (rs_heap s)) s HeadBusy rq) (\<lambda>pp. case pp of
         None \<Rightarrow> Inr (s, False)
       | Some pp \<Rightarrow>
           bindr (get_loc s (NextOf rq)) (\<lambda>nxt.
           bindr (set_loc s pp nxt) (\<lambda>s.
           bindr (set_loc s (NextOf rq) (rs_m_headFree s)) (\<lambda>s.
           let s = s\<lparr>rs_m_headFree := Some rq\<rparr> in
           Inr (s, rs_m_headBusy s = None)))))"

subsection \<open>The lists behind the pointers\<close>

fun chain :: "qemu_wrapper_request list \<Rightarrow> nat option \<Rightarrow> nat list \<Rightarrow> bool" where
  "chain h p [] \<longleftrightarrow> p = None"
| "chain h p (x # xs) \<longleftrightarrow> p = Some x \<and> x < length h \<and> chain h (qr_m_next (h ! x)) xs"

text \<open>
  The pool with the free requests \<open>fs\<close> and the busy ones \<open>bs\<close>: every object is in one of the
  lists, once, and the identifiers are 1, 2, ... as the constructor numbers them.
\<close>

definition pool_lists :: "qemu_wrapper_requests \<Rightarrow> nat list \<Rightarrow> nat list \<Rightarrow> bool" where
  "pool_lists s fs bs \<longleftrightarrow> chain (rs_heap s) (rs_m_headFree s) fs \<and> chain (rs_heap s) (rs_m_headBusy s) bs
     \<and> distinct (fs @ bs) \<and> set (fs @ bs) = {..<length (rs_heap s)} \<and> length (rs_heap s) < 256
     \<and> (\<forall>i < length (rs_heap s). qr_tid (rs_heap s ! i) = of_nat (i + 1))"

lemma chain_frame [simp]: "x \<notin> set xs \<Longrightarrow> chain (h[x := n]) p xs \<longleftrightarrow> chain h p xs"
  by (induction xs arbitrary: p) auto

lemma chain_in: "chain h p xs \<Longrightarrow> x \<in> set xs \<Longrightarrow> x < length h"
  by (induction xs arbitrary: p) auto

lemma chain_fun: "chain h p xs \<Longrightarrow> chain h p ys \<Longrightarrow> xs = ys"
proof (induction xs arbitrary: p ys)
  case Nil then show ?case by (cases ys) auto
next
  case (Cons x xs) then show ?case by (cases ys) auto
qed

lemma chain_None [simp]: "chain h None xs \<longleftrightarrow> xs = []"
  by (cases xs) auto

lemma chain_length:
  assumes "chain h p xs" "distinct xs" shows "length xs \<le> length h"
proof -
  have "set xs \<subseteq> {..<length h}" using chain_in [OF assms(1)] by auto
  then have "card (set xs) \<le> length h" by (metis card_lessThan card_mono finite_lessThan)
  then show ?thesis using assms(2) by (simp add: distinct_card)
qed

lemma find_tid_chain:
  "chain h p xs \<Longrightarrow> length xs \<le> k \<Longrightarrow> find_tid k h p tid = Inr (find (\<lambda>x. qr_tid (h ! x) = tid) xs)"
proof (induction xs arbitrary: p k)
  case (Cons x xs)
  then obtain k' where "k = Suc k'" by (cases k) auto
  with Cons show ?case by auto
qed simp

lemma tid_of_nat_inject:
  "i < 256 \<Longrightarrow> j < 256 \<Longrightarrow> (of_nat i :: u8) = of_nat j \<longleftrightarrow> i = j"
  by (simp add: word_of_nat_eq_iff take_bit_nat_eq_self)

lemma pool_busy_bound: "pool_lists s fs bs \<Longrightarrow> x \<in> set bs \<Longrightarrow> x < length (rs_heap s)"
  unfolding pool_lists_def using chain_in by blast

lemma pool_tids:
  assumes "pool_lists s fs bs" "x \<in> set bs" "y \<in> set bs"
  shows "qr_tid (rs_heap s ! x) = qr_tid (rs_heap s ! y) \<longleftrightarrow> x = y"
proof -
  have "x < length (rs_heap s)" "y < length (rs_heap s)" using assms pool_busy_bound by auto
  moreover have "length (rs_heap s) < 256"
    and "\<And>i. i < length (rs_heap s) \<Longrightarrow> qr_tid (rs_heap s ! i) = of_nat (i + 1)"
    using assms(1) unfolding pool_lists_def by blast+
  ultimately show ?thesis using tid_of_nat_inject [of "x + 1" "y + 1"] by simp
qed

lemma find_unique:
  assumes "x \<in> set xs" "P x" "\<And>y. y \<in> set xs \<Longrightarrow> P y \<Longrightarrow> y = x"
  shows "find P xs = Some x"
proof (cases "find P xs")
  case None
  then show ?thesis using assms(1,2) by (auto simp: find_None_iff)
next
  case (Some z)
  then have "z \<in> set xs" "P z" by (auto simp: find_Some_iff)
  with assms(3) Some show ?thesis by simp
qed

subsection \<open>The operations on the lists\<close>

lemma GetNewRequest_lists:
  assumes "pool_lists s (x # fs) bs" "w \<longrightarrow> bs = []"
  shows "\<exists>s'. GetNewRequest w s = Some (Inr (s', x)) \<and> pool_lists s' fs (x # bs)
    \<and> length (rs_heap s') = length (rs_heap s)
    \<and> \<not> qr_bDone (rs_heap s' ! x) \<and> (\<forall>y. y \<noteq> x \<longrightarrow> rs_heap s' ! y = rs_heap s ! y)"
proof -
  from assms(1) have c: "rs_m_headFree s = Some x" "x < length (rs_heap s)"
    "chain (rs_heap s) (qr_m_next (rs_heap s ! x)) fs" "chain (rs_heap s) (rs_m_headBusy s) bs"
    and d: "x \<notin> set fs" "x \<notin> set bs"
    by (auto simp: pool_lists_def)
  have w: "\<not> (w \<and> rs_m_headBusy s \<noteq> None)" using assms(2) c(4) by auto
  show ?thesis
    using assms(1) c d w by (auto simp: GetNewRequest_def Let_def pool_lists_def nth_list_update)
qed

lemma GetNewRequest_exhausted:
  "pool_lists s [] bs \<Longrightarrow> w \<longrightarrow> bs = [] \<Longrightarrow> GetNewRequest w s = Some (Inl (Exit 1))"
  by (auto simp: GetNewRequest_def pool_lists_def)

lemma GetNewRequest_waits:
  "pool_lists s fs bs \<Longrightarrow> GetNewRequest w s = None \<longleftrightarrow> w \<and> bs \<noteq> []"
  by (cases bs) (auto simp: GetNewRequest_def pool_lists_def)

lemma GetRequestByTid_lists:
  assumes "pool_lists s fs bs"
  shows "GetRequestByTid s tid = Inr (find (\<lambda>x. qr_tid (rs_heap s ! x) = tid) bs)"
  using assms find_tid_chain [of "rs_heap s" "rs_m_headBusy s" bs "length (rs_heap s)" tid]
    chain_length [of "rs_heap s" "rs_m_headBusy s" bs]
  by (simp add: GetRequestByTid_def pool_lists_def)

lemma GetRequestByTid_busy:
  assumes "pool_lists s fs bs" "x \<in> set bs"
  shows "GetRequestByTid s (qr_tid (rs_heap s ! x)) = Inr (Some x)"
proof -
  have "find (\<lambda>y. qr_tid (rs_heap s ! y) = qr_tid (rs_heap s ! x)) bs = Some x"
    using assms(2) pool_tids [OF assms(1) _ assms(2)] by (intro find_unique) auto
  then show ?thesis using GetRequestByTid_lists [OF assms(1)] by simp
qed

lemma find_loc_chain:
  "get_loc s pp = Inr p \<Longrightarrow> chain (rs_heap s) p (as @ r # bs) \<Longrightarrow> r \<notin> set as \<Longrightarrow> length as \<le> k \<Longrightarrow>
    find_loc k s pp r = Inr (Some (if as = [] then pp else NextOf (last as)))"
proof (induction as arbitrary: pp p k)
  case Nil
  then show ?case by (subst find_loc.simps) simp
next
  case (Cons x as)
  then obtain k' where k: "k = Suc k'" by (cases k) auto
  from Cons.prems have "get_loc s (NextOf x) = Inr (qr_m_next (rs_heap s ! x))" by (simp add: get_loc_def)
  from Cons.IH [OF this, of k'] Cons.prems k show ?case by (subst find_loc.simps) auto
qed

lemma find_loc_absent:
  "get_loc s pp = Inr p \<Longrightarrow> chain (rs_heap s) p xs \<Longrightarrow> r \<notin> set xs \<Longrightarrow> length xs \<le> k \<Longrightarrow>
    find_loc k s pp r = Inr None"
proof (induction xs arbitrary: pp p k)
  case Nil
  then show ?case by (subst find_loc.simps) simp
next
  case (Cons x xs)
  then obtain k' where k: "k = Suc k'" by (cases k) auto
  from Cons.prems have "get_loc s (NextOf x) = Inr (qr_m_next (rs_heap s ! x))" by (simp add: get_loc_def)
  from Cons.IH [OF this, of k'] Cons.prems k show ?case by (subst find_loc.simps) auto
qed

lemma chain_unlink:
  "chain h p (as @ l # r # bs) \<Longrightarrow> distinct (as @ l # r # bs) \<Longrightarrow>
    chain (h[l := (h ! l)\<lparr>qr_m_next := qr_m_next (h ! r)\<rparr>]) p (as @ l # bs)"
proof (induction as arbitrary: p)
  case (Cons x as)
  then have "x \<noteq> l" by auto
  with Cons show ?case by simp
qed simp

text \<open>Unlinking: the busy list without \<open>r\<close>, nothing else changed.\<close>

lemma unlink_busy:
  assumes c: "chain (rs_heap s) (rs_m_headBusy s) (as @ r # bs)" "distinct (as @ r # bs)"
  shows "\<exists>s1 h1. set_loc s (if as = [] then HeadBusy else NextOf (last as)) (qr_m_next (rs_heap s ! r)) = Inr s1
    \<and> rs_heap s1 = h1 \<and> rs_m_headFree s1 = rs_m_headFree s \<and> chain h1 (rs_m_headBusy s1) (as @ bs)
    \<and> (\<forall>p xs. set xs \<inter> set as = {} \<longrightarrow> chain (rs_heap s) p xs \<longrightarrow> chain h1 p xs)
    \<and> length h1 = length (rs_heap s)
    \<and> (\<forall>y. h1 ! y = (rs_heap s ! y)\<lparr>qr_m_next := qr_m_next (h1 ! y)\<rparr>)"
proof (cases as rule: rev_cases)
  case Nil
  then show ?thesis using c by (simp add: set_loc_def)
next
  case (snoc as' l)
  define h1 where "h1 = (rs_heap s)[l := (rs_heap s ! l)\<lparr>qr_m_next := qr_m_next (rs_heap s ! r)\<rparr>]"
  have l: "l < length (rs_heap s)" using chain_in [OF c(1), of l] snoc by simp
  have "chain h1 (rs_m_headBusy s) (as @ bs)"
    using chain_unlink [of "rs_heap s" "rs_m_headBusy s" as' l r bs] c by (simp add: snoc h1_def)
  moreover have "h1 ! y = (rs_heap s ! y)\<lparr>qr_m_next := qr_m_next (h1 ! y)\<rparr>" for y
    using l by (cases "y = l") (simp_all add: h1_def)
  moreover have "set_loc s (NextOf l) (qr_m_next (rs_heap s ! r)) = Inr (s\<lparr>rs_heap := h1\<rparr>)"
    using l by (simp add: set_loc_def h1_def)
  ultimately show ?thesis using snoc by (intro exI [of _ "s\<lparr>rs_heap := h1\<rparr>"] exI [of _ h1]) (auto simp: h1_def)
qed

lemma FreeRequest_lists:
  assumes p: "pool_lists s fs (as @ r # bs)"
  shows "\<exists>s'. FreeRequest s r = Inr (s', as @ bs = []) \<and> pool_lists s' (r # fs) (as @ bs)
    \<and> length (rs_heap s') = length (rs_heap s)
    \<and> (\<forall>y. rs_heap s' ! y = (rs_heap s ! y)\<lparr>qr_m_next := qr_m_next (rs_heap s' ! y)\<rparr>)"
proof -
  from p have cb: "chain (rs_heap s) (rs_m_headBusy s) (as @ r # bs)"
    and cf: "chain (rs_heap s) (rs_m_headFree s) fs" and d: "distinct (fs @ as @ r # bs)"
    by (simp_all add: pool_lists_def)
  have r: "r < length (rs_heap s)" using chain_in [OF cb] by simp
  have ra: "r \<notin> set as" using d by auto
  have "length as \<le> length (rs_heap s)" using chain_length [OF cb] d by simp
  from find_loc_chain [of s HeadBusy, OF _ cb ra this]
  have fl: "find_loc (length (rs_heap s)) s HeadBusy r
      = Inr (Some (if as = [] then HeadBusy else NextOf (last as)))" by (simp add: get_loc_def)
  obtain s1 where s1: "set_loc s (if as = [] then HeadBusy else NextOf (last as)) (qr_m_next (rs_heap s ! r)) = Inr s1"
    and f1: "rs_m_headFree s1 = rs_m_headFree s" "chain (rs_heap s1) (rs_m_headBusy s1) (as @ bs)"
      "\<forall>p xs. set xs \<inter> set as = {} \<longrightarrow> chain (rs_heap s) p xs \<longrightarrow> chain (rs_heap s1) p xs"
      "length (rs_heap s1) = length (rs_heap s)"
      "\<forall>y. rs_heap s1 ! y = (rs_heap s ! y)\<lparr>qr_m_next := qr_m_next (rs_heap s1 ! y)\<rparr>"
    using unlink_busy [OF cb] d by auto
  have cf1: "chain (rs_heap s1) (rs_m_headFree s) fs" using f1(3) cf d by auto
  define h2 where "h2 = (rs_heap s1)[r := (rs_heap s1 ! r)\<lparr>qr_m_next := rs_m_headFree s\<rparr>]"
  define s' where "s' = s1\<lparr>rs_heap := h2, rs_m_headFree := Some r\<rparr>"
  have "FreeRequest s r = Inr (s', rs_m_headBusy s' = None)"
    using fl s1 r f1(1,4) by (simp add: FreeRequest_def get_loc_def set_loc_def s'_def h2_def Let_def)
  moreover have "rs_m_headBusy s' = None \<longleftrightarrow> as @ bs = []"
    using f1(2) by (cases "as @ bs") (auto simp: s'_def)
  moreover have n2: "h2 ! y = (rs_heap s ! y)\<lparr>qr_m_next := qr_m_next (h2 ! y)\<rparr>" for y
    using f1(5) r f1(4)
    by (cases "y = r") (auto simp: h2_def, metis qemu_wrapper_request.cases_scheme qemu_wrapper_request.update_convs(5))
  moreover have "pool_lists s' (r # fs) (as @ bs)"
  proof -
    have "qr_tid (h2 ! y) = qr_tid (rs_heap s ! y)" for y by (subst n2) simp
    moreover have "chain h2 (Some r) (r # fs)" using cf1 r f1(4) d by (simp add: h2_def)
    moreover have "chain h2 (rs_m_headBusy s1) (as @ bs)" using f1(2) d by (simp add: h2_def)
    ultimately show ?thesis using p d f1(4) by (auto simp: pool_lists_def s'_def h2_def)
  qed
  ultimately show ?thesis using f1(4) by (intro exI [of _ s']) (simp add: s'_def h2_def)
qed

lemma FreeRequest_absent:
  assumes p: "pool_lists s fs bs" and r: "r \<notin> set bs"
  shows "FreeRequest s r = Inr (s, False)"
proof -
  from p have c: "chain (rs_heap s) (rs_m_headBusy s) bs" "distinct bs" by (simp_all add: pool_lists_def)
  from find_loc_absent [of s HeadBusy, OF _ c(1) r chain_length [OF c]]
  show ?thesis by (simp add: FreeRequest_def get_loc_def)
qed

subsection \<open>A new pool\<close>

lemma chain_snoc:
  "chain h p (as @ [l]) \<Longrightarrow> z < length h \<Longrightarrow> qr_m_next (h ! z) = None \<Longrightarrow> distinct (as @ [l, z]) \<Longrightarrow>
    chain (h[l := (h ! l)\<lparr>qr_m_next := Some z\<rparr>]) p (as @ [l, z])"
proof (induction as arbitrary: p)
  case (Cons x as)
  then have "x \<noteq> l" by auto
  with Cons show ?case by simp
qed simp

lemma chain_append_heap: "chain h p xs \<Longrightarrow> chain (h @ ns) p xs"
  by (induction xs arbitrary: p) (auto simp: nth_append)

lemma chain_link:
  assumes "chain h (Some 0) [0..<Suc k]" "length h = Suc k" "qr_m_next n = None"
  shows "chain ((h @ [n])[k := (h ! k)\<lparr>qr_m_next := Some (Suc k)\<rparr>]) (Some 0) [0..<Suc (Suc k)]"
proof -
  have "chain (h @ [n]) (Some 0) ([0..<k] @ [k])" using assms(1) by (simp add: chain_append_heap)
  from chain_snoc [OF this, of "Suc k"] assms(2,3) show ?thesis
    by (simp add: nth_append)
qed

lemma requests_alloc_chain:
  assumes "k \<le> n" "length (rs_heap s) = k" "rs_m_headBusy s = None"
    and "rs_m_headFree s = (if k = 0 then None else Some 0)" "chain (rs_heap s) (rs_m_headFree s) [0..<k]"
    and "\<forall>i<k. qr_tid (rs_heap s ! i) = of_nat (i + 1)"
  shows "\<exists>s'. requests_alloc w r [k..<n] (if k = 0 then HeadFree else NextOf (k - 1)) s = Inr s'
    \<and> length (rs_heap s') = n \<and> rs_m_headBusy s' = None \<and> chain (rs_heap s') (rs_m_headFree s') [0..<n]
    \<and> (\<forall>i<n. qr_tid (rs_heap s' ! i) = of_nat (i + 1))"
  using assms
proof (induction "n - k" arbitrary: k s)
  case 0
  then show ?case by auto
next
  case (Suc m)
  then have kn: "k < n" by simp
  define nw where "nw = request_new w r (k + 1)"
  have nw: "qr_m_next nw = None" "qr_tid nw = of_nat (k + 1)" by (simp_all add: nw_def request_new_def)
  obtain s1 where s1: "set_loc (s\<lparr>rs_heap := rs_heap s @ [nw]\<rparr>) (if k = 0 then HeadFree else NextOf (k - 1)) (Some k) = Inr s1"
    and l1: "length (rs_heap s1) = Suc k" "rs_m_headBusy s1 = None" "rs_m_headFree s1 = Some 0"
      "chain (rs_heap s1) (Some 0) [0..<Suc k]" "\<forall>i<Suc k. qr_tid (rs_heap s1 ! i) = of_nat (i + 1)"
  proof (cases k)
    case 0
    show thesis
      by (rule that [of "s\<lparr>rs_heap := [nw], rs_m_headFree := Some 0\<rparr>"])
        (use 0 Suc.prems nw in \<open>auto simp: set_loc_def\<close>)
  next
    case (Suc k')
    let ?h = "(rs_heap s @ [nw])[k' := (rs_heap s ! k')\<lparr>qr_m_next := Some (Suc k')\<rparr>]"
    have "chain ?h (Some 0) [0..<Suc (Suc k')]"
      using chain_link [of "rs_heap s" k' nw] Suc Suc.prems nw by simp
    then show thesis
      by (intro that [of "s\<lparr>rs_heap := ?h\<rparr>"])
        (use Suc Suc.prems nw in \<open>auto simp: set_loc_def nth_append nth_list_update less_Suc_eq\<close>)
  qed
  have "requests_alloc w r [k..<n] (if k = 0 then HeadFree else NextOf (k - 1)) s
      = requests_alloc w r [Suc k..<n] (NextOf k) s1"
    using kn s1 Suc.prems(2) by (simp add: upt_conv_Cons nw_def)
  with Suc.hyps(1) [of "Suc k" s1] Suc.hyps(2) kn l1 show ?case by simp
qed

lemma requests_new_lists:
  assumes "n < 256"
  shows "\<exists>s. requests_new w r n = Inr s \<and> pool_lists s [0..<n] []"
proof -
  let ?s = "\<lparr>rs_heap = [], rs_m_headFree = None, rs_m_headBusy = None\<rparr>"
  from requests_alloc_chain [of 0 n ?s w r] obtain s where
    "requests_alloc w r [0..<n] HeadFree ?s = Inr s" "length (rs_heap s) = n" "rs_m_headBusy s = None"
    "chain (rs_heap s) (rs_m_headFree s) [0..<n]" "\<forall>i<n. qr_tid (rs_heap s ! i) = of_nat (i + 1)" by auto
  with assms show ?thesis by (auto simp: requests_new_def pool_lists_def)
qed

subsection \<open>Sequences of operations\<close>

datatype pool_op = PoolWait | PoolGet bool | PoolByTid u8 | PoolFree nat

datatype pool_out = Waits | Empty | Got nat | Found "nat option" | Freed bool | Failed fault

definition pool_do :: "pool_op \<Rightarrow> qemu_wrapper_requests \<Rightarrow> qemu_wrapper_requests \<times> pool_out" where
  "pool_do oper s = (case oper of
      PoolWait \<Rightarrow> (s, case WaitWBEmpty s of None \<Rightarrow> Waits | Some _ \<Rightarrow> Empty)
    | PoolGet w \<Rightarrow> (case GetNewRequest w s of
          None \<Rightarrow> (s, Waits)
        | Some (Inl e) \<Rightarrow> (s, Failed e)
        | Some (Inr (s, p)) \<Rightarrow> (s, Got p))
    | PoolByTid tid \<Rightarrow> (case GetRequestByTid s tid of Inl e \<Rightarrow> (s, Failed e) | Inr r \<Rightarrow> (s, Found r))
    | PoolFree p \<Rightarrow> (case FreeRequest s p of Inl e \<Rightarrow> (s, Failed e) | Inr (s, b) \<Rightarrow> (s, Freed b)))"

text \<open>The specification: a stack of free requests and the busy ones, latest first.\<close>

definition lists_do :: "pool_op \<Rightarrow> nat list \<times> nat list \<Rightarrow> (nat list \<times> nat list) \<times> pool_out" where
  "lists_do oper = (\<lambda>(fs, bs). case oper of
      PoolWait \<Rightarrow> ((fs, bs), if bs = [] then Empty else Waits)
    | PoolGet w \<Rightarrow>
        if w \<and> bs \<noteq> [] then ((fs, bs), Waits)
        else (case fs of [] \<Rightarrow> ((fs, bs), Failed (Exit 1)) | x # fs \<Rightarrow> ((fs, x # bs), Got x))
    | PoolByTid tid \<Rightarrow> ((fs, bs), Found (find (\<lambda>x. of_nat (x + 1) = tid) bs))
    | PoolFree p \<Rightarrow> if p \<in> set bs then ((p # fs, remove1 p bs), Freed (remove1 p bs = []))
                    else ((fs, bs), Freed False))"

fun outputs :: "('o \<Rightarrow> 's \<Rightarrow> 's \<times> 'b) \<Rightarrow> 'o list \<Rightarrow> 's \<Rightarrow> 'b list" where
  "outputs step [] s = []"
| "outputs step (oper # opers) s = (let (s, y) = step oper s in y # outputs step opers s)"

lemma find_tid_index:
  assumes "pool_lists s fs bs"
  shows "find (\<lambda>x. qr_tid (rs_heap s ! x) = tid) bs = find (\<lambda>x. of_nat (x + 1) = tid) bs"
proof (rule find_cong [OF refl])
  fix x assume "x \<in> set bs"
  with pool_busy_bound [OF assms] assms show "(qr_tid (rs_heap s ! x) = tid) = (of_nat (x + 1) = tid)"
    unfolding pool_lists_def by metis
qed

lemma pool_do_lists:
  assumes "pool_lists s fs bs"
  shows "\<exists>s' fs' bs'. pool_do oper s = (s', snd (lists_do oper (fs, bs)))
    \<and> fst (lists_do oper (fs, bs)) = (fs', bs') \<and> pool_lists s' fs' bs'"
proof (cases oper)
  case PoolWait
  then show ?thesis using assms by (cases bs) (auto simp: pool_do_def lists_do_def WaitWBEmpty_def pool_lists_def)
next
  case (PoolGet w)
  consider "w \<and> bs \<noteq> []" | "w \<longrightarrow> bs = []" "fs = []" | x fs1 where "w \<longrightarrow> bs = []" "fs = x # fs1"
    by (cases fs) auto
  then show ?thesis
  proof cases
    case 1
    with GetNewRequest_waits [OF assms, of w] assms PoolGet show ?thesis by (simp add: pool_do_def lists_do_def)
  next
    case 2
    with GetNewRequest_exhausted [of s bs w] assms PoolGet show ?thesis
      by (auto simp: pool_do_def lists_do_def)
  next
    case 3
    with GetNewRequest_lists [of s x fs1 bs w] assms PoolGet show ?thesis
      by (fastforce simp: pool_do_def lists_do_def)
  qed
next
  case (PoolByTid tid)
  then show ?thesis
    using GetRequestByTid_lists [OF assms, of tid] find_tid_index [OF assms, of tid] assms
    by (simp add: pool_do_def lists_do_def)
next
  case (PoolFree p)
  show ?thesis
  proof (cases "p \<in> set bs")
    case True
    then obtain as cs where b: "bs = as @ p # cs" "p \<notin> set as" by (meson split_list_first)
    then have "remove1 p bs = as @ cs" by (simp add: remove1_append)
    with FreeRequest_lists [of s fs as p cs] assms b True PoolFree show ?thesis
      by (fastforce simp: pool_do_def lists_do_def)
  next
    case False
    with FreeRequest_absent [OF assms] assms PoolFree show ?thesis by (simp add: pool_do_def lists_do_def)
  qed
qed

lemma outputs_lists:
  "pool_lists s fs bs \<Longrightarrow> outputs pool_do opers s = outputs lists_do opers (fs, bs)"
proof (induction opers arbitrary: s fs bs)
  case (Cons oper opers)
  obtain s' fs' bs' where "pool_do oper s = (s', snd (lists_do oper (fs, bs)))"
    "fst (lists_do oper (fs, bs)) = (fs', bs')" "pool_lists s' fs' bs'"
    using pool_do_lists [OF Cons.prems] by blast
  with Cons.IH [of s' fs' bs'] show ?case by (simp add: case_prod_unfold)
qed simp

text \<open>
  Claim C17. The request pool of a processor, two linked lists updated through pointers,
  behaves as a stack of free requests and a list of busy ones: in any sequence of calls a
  request handed out is not in use, a response finds the request with its identifier, a
  request given back can be handed out again, the waiters are woken when the last one is
  given back, and no walk along the lists leaves the objects or runs forever.
\<close>

theorem pool_refines_lists:
  assumes "n < 256" "requests_new w r n = Inr s"
  shows "outputs pool_do opers s = outputs lists_do opers ([0..<n], [])"
  using requests_new_lists [OF assms(1), of w r] assms(2) by (auto intro: outputs_lists)

theorem pool_refines_lists_witness:
  "\<exists>s. requests_new False 0 2 = Inr s
    \<and> outputs pool_do [PoolGet False, PoolGet True, PoolGet False, PoolByTid 1, PoolFree 0, PoolByTid 1, PoolFree 1] s
      = [Got 0, Waits, Got 1, Found (Some 0), Freed False, Found None, Freed True]"
proof -
  obtain s where s: "requests_new False 0 2 = Inr s" using requests_new_lists [of 2 False 0] by auto
  have e: "outputs pool_do opers s = outputs lists_do opers ([0..<2], [])" for opers
    by (rule pool_refines_lists [OF _ s]) simp
  show ?thesis by (rule exI [of _ s], unfold e) (simp add: s lists_do_def upt_conv_Cons)
qed

end
