(* ===== verification/Qemu_Cpu.thy ===== *)
theory Qemu_Cpu
  imports Cpu_Requests Memory_Bus
begin

text \<open>
  A processor on the bus (\<^verbatim>\<open>qemu_wrapper/qemu_cpu_wrapper.cpp\<close>): the loads and stores QEMU
  asks for become transactions of the network, matched with their responses through the
  request pool. A function that waits is two operations, what it does up to the wait and
  what it does after it; \<open>None\<close> is a wait whose condition does not hold yet.
\<close>

record qemu_cpu_wrapper =
  qc_node_id :: ulong
  qc_cpuindex :: nat
  qc_rqs :: qemu_wrapper_requests
  qc_fv_level :: ulong
  qc_base_address :: ulong
  qc_end_address :: ulong
  qc_unblocking_write :: bool
  qc_last_read_sctime :: u64
  qc_last_no_cycles_high :: ulong
  qc_no_total_cycles :: u64
  qc_crt_cpu_thread :: ulong
  qc_swi :: ulong

text \<open>
  The constructor: 100 requests, and the boot level of the processor's table of
  frequencies. The fields it does not set are those of \<open>junk\<close>.
\<close>

definition qemu_cpu_new :: "qemu_cpu_wrapper \<Rightarrow> bool \<Rightarrow> ulong \<Rightarrow> ulong \<Rightarrow> nat \<Rightarrow> ulong \<Rightarrow> qemu_cpu_wrapper res" where
  "qemu_cpu_new junk jw jr node_id cpuindex boot_fv_level =
     bindr (requests_new jw jr 100) (\<lambda>rqs.
     Inr (junk\<lparr>qc_node_id := node_id, qc_cpuindex := cpuindex, qc_rqs := rqs,
            qc_fv_level := boot_fv_level, qc_last_read_sctime := - 1, qc_last_no_cycles_high := - 1,
            qc_crt_cpu_thread := 0, qc_no_total_cycles := 0, qc_unblocking_write := True,
            qc_swi := 0\<rparr>))"

definition SIZE_QEMU_WRAPPER_MEMORY :: ulong where "SIZE_QEMU_WRAPPER_MEMORY = 0x1000"

definition cpu_set_base_address :: "ulong \<Rightarrow> qemu_cpu_wrapper \<Rightarrow> qemu_cpu_wrapper" where
  "cpu_set_base_address base_address c =
     c\<lparr>qc_base_address := base_address, qc_end_address := base_address + SIZE_QEMU_WRAPPER_MEMORY - 1\<rparr>"

definition cpu_set_unblocking_write :: "bool \<Rightarrow> qemu_cpu_wrapper \<Rightarrow> qemu_cpu_wrapper" where
  "cpu_set_unblocking_write val c = c\<lparr>qc_unblocking_write := val\<rparr>"

definition upd_request :: "nat \<Rightarrow> (qemu_wrapper_request \<Rightarrow> qemu_wrapper_request) \<Rightarrow> qemu_wrapper_requests
    \<Rightarrow> qemu_wrapper_requests res" where
  "upd_request p f s = bindr (rd (rs_heap s) p) (\<lambda>n. Inr (s\<lparr>rs_heap := (rs_heap s)[p := f n]\<rparr>))"

text \<open>\<open>read\<close> up to its wait: the request object and what \<open>send_req\<close> puts on the network.\<close>

definition cpu_read_start :: "vci_request \<Rightarrow> ulong \<Rightarrow> ulong \<Rightarrow> qemu_cpu_wrapper
    \<Rightarrow> (qemu_cpu_wrapper \<times> nat \<times> vci_request) res option" where
  "cpu_read_start junk addr nbytes c =
     map_option (\<lambda>r. bindr r (\<lambda>(s, localrq).
       bindr (upd_request localrq (\<lambda>n. n\<lparr>qr_bWrite := False\<rparr>) s) (\<lambda>s.
       bindr (rd (rs_heap s) localrq) (\<lambda>n.
       bindr (send_req junk (qc_node_id c) (qr_tid n) addr [] nbytes False) (\<lambda>req.
       Inr (c\<lparr>qc_rqs := s\<rparr>, localrq, req))))))
     (GetNewRequest (qc_unblocking_write c) (qc_rqs c))"

text \<open>
  \<open>read\<close> after its wait. The bytes of the local \<open>ret\<close> it does not copy keep the
  unspecified value \<open>junk\<close>; the flag tells that the pool is empty again.
\<close>

definition cpu_read_end :: "ulong \<Rightarrow> nat \<Rightarrow> ulong \<Rightarrow> qemu_cpu_wrapper
    \<Rightarrow> (qemu_cpu_wrapper \<times> ulong \<times> bool) res option" where
  "cpu_read_end junk localrq nbytes c =
     (case rd (rs_heap (qc_rqs c)) localrq of
        Inl e \<Rightarrow> Some (Inl e)
      | Inr n \<Rightarrow>
          if \<not> qr_bDone n then None
          else
            let k = unat (if nbytes > 4 then 4 else nbytes);
                ret = le32 (take k (bytes32 (qr_rcv_data n)) @ drop k (bytes32 junk))
            in Some (bindr (FreeRequest (qc_rqs c) localrq) (\<lambda>(s, e). Inr (c\<lparr>qc_rqs := s\<rparr>, ret, e))))"

text \<open>\<open>write\<close> up to its end or, when writes block, up to its wait.\<close>

definition cpu_write_start :: "vci_request \<Rightarrow> ulong \<Rightarrow> ulong \<Rightarrow> u8 \<Rightarrow> bool \<Rightarrow> qemu_cpu_wrapper
    \<Rightarrow> (qemu_cpu_wrapper \<times> nat \<times> vci_request) res option" where
  "cpu_write_start junk addr data nbytes bIO c =
     map_option (\<lambda>r. bindr r (\<lambda>(s, localrq).
       bindr (upd_request localrq (\<lambda>n. n\<lparr>qr_bWrite := True\<rparr>) s) (\<lambda>s.
       bindr (rd (rs_heap s) localrq) (\<lambda>n.
       bindr (send_req junk (qc_node_id c) (qr_tid n) addr (bytes32 data) (ucast nbytes) True) (\<lambda>req.
       Inr (c\<lparr>qc_rqs := s\<rparr>, localrq, req))))))
     (GetNewRequest (if qc_unblocking_write c then bIO else False) (qc_rqs c))"

definition cpu_write_end :: "nat \<Rightarrow> qemu_cpu_wrapper \<Rightarrow> (qemu_cpu_wrapper \<times> bool) res option" where
  "cpu_write_end localrq c =
     (if \<not> qc_unblocking_write c then
        (case rd (rs_heap (qc_rqs c)) localrq of
           Inl e \<Rightarrow> Some (Inl e)
         | Inr n \<Rightarrow> if \<not> qr_bDone n then None
                   else Some (bindr (FreeRequest (qc_rqs c) localrq) (\<lambda>(s, e). Inr (c\<lparr>qc_rqs := s\<rparr>, e))))
      else Some (Inr (c, False)))"

text \<open>
  The response. It reads four bytes from \<open>data\<close> on, which for the last lanes of
  \<open>rdata\<close> goes into the fields of the response behind it: \<open>beyond\<close>.
\<close>

definition cpu_rcv_rsp :: "u8 list \<Rightarrow> u8 \<Rightarrow> u8 list \<Rightarrow> qemu_cpu_wrapper \<Rightarrow> (qemu_cpu_wrapper \<times> bool) res" where
  "cpu_rcv_rsp beyond tid data c =
     bindr (GetRequestByTid (qc_rqs c) tid) (\<lambda>r. case r of
         None \<Rightarrow> Inr (c, False)
       | Some localrq \<Rightarrow>
           bindr (rd (rs_heap (qc_rqs c)) localrq) (\<lambda>n.
           if qc_unblocking_write c \<and> qr_bWrite n
           then bindr (FreeRequest (qc_rqs c) localrq) (\<lambda>(s, e). Inr (c\<lparr>qc_rqs := s\<rparr>, e))
           else bindr (rd_bytes (data @ beyond) 0 4) (\<lambda>bs.
                bindr (upd_request localrq (\<lambda>n. n\<lparr>qr_rcv_data := le32 bs, qr_bDone := True\<rparr>) (qc_rqs c)) (\<lambda>s.
                Inr (c\<lparr>qc_rqs := s\<rparr>, False)))))"

definition cpu_wait_wb_empty :: "qemu_cpu_wrapper \<Rightarrow> unit option" where
  "cpu_wait_wb_empty c = WaitWBEmpty (qc_rqs c)"

subsection \<open>The operations on the lists of requests\<close>

lemma field_list_update:
  assumes "\<And>n. g (f n) = g n" shows "g (h[p := f (h ! p)] ! a) = g (h ! a)"
proof (cases "p < length h")
  case True
  then show ?thesis using assms by (cases "a = p") simp_all
qed (simp add: list_update_beyond)

lemma chain_same_next:
  "(\<And>n. qr_m_next (f n) = qr_m_next n) \<Longrightarrow> chain (h[p := f (h ! p)]) q xs \<longleftrightarrow> chain h q xs"
  by (induction xs arbitrary: q) (simp_all add: field_list_update [of qr_m_next])

lemma upd_request_lists:
  assumes "pool_lists s fs bs" "\<And>n. qr_m_next (f n) = qr_m_next n" "\<And>n. qr_tid (f n) = qr_tid n"
  shows "pool_lists (s\<lparr>rs_heap := (rs_heap s)[p := f (rs_heap s ! p)]\<rparr>) fs bs"
  using assms by (simp add: pool_lists_def chain_same_next field_list_update [of qr_tid])

lemma send_req_tid: "send_req junk node_id tid addr data n w = Inr req \<Longrightarrow> rq_trdid req = tid"
  by (auto simp: send_req_def Let_def bindr_eq_Inr split: if_splits)

text \<open>The request \<open>GetNewRequest\<close> gives, with its \<open>bWrite\<close> set.\<close>

lemma new_request_lists:
  assumes "pool_lists s fs bs" "GetNewRequest w s = Some (Inr (s1, p))"
    and "upd_request p (\<lambda>n. n\<lparr>qr_bWrite := b\<rparr>) s1 = Inr s2"
  shows "\<exists>fs'. fs = p # fs' \<and> (w \<longrightarrow> bs = []) \<and> pool_lists s2 fs' (p # bs)
    \<and> p \<notin> set bs \<and> \<not> qr_bDone (rs_heap s2 ! p) \<and> qr_bWrite (rs_heap s2 ! p) = b
    \<and> (\<forall>y. y \<noteq> p \<longrightarrow> rs_heap s2 ! y = rs_heap s ! y)"
proof -
  have w: "w \<longrightarrow> bs = []" using GetNewRequest_waits [OF assms(1), of w] assms(2) by auto
  obtain x fs' where fs: "fs = x # fs'"
    using GetNewRequest_exhausted [of s bs w] assms(1,2) w by (cases fs) auto
  from GetNewRequest_lists [of s x fs' bs w] assms(1,2) w fs
  have 1: "p = x" "pool_lists s1 fs' (x # bs)" "\<not> qr_bDone (rs_heap s1 ! x)"
    "\<forall>y. y \<noteq> x \<longrightarrow> rs_heap s1 ! y = rs_heap s ! y" by auto
  have x: "x < length (rs_heap s1)" using pool_busy_bound [OF 1(2), of x] by simp
  have s2: "s2 = s1\<lparr>rs_heap := (rs_heap s1)[x := (rs_heap s1 ! x)\<lparr>qr_bWrite := b\<rparr>]\<rparr>"
    using assms(3) x 1(1) by (simp add: upd_request_def)
  have "pool_lists s2 fs' (x # bs)" unfolding s2 by (rule upd_request_lists [OF 1(2)]) simp_all
  moreover have "x \<notin> set bs" using 1(2) by (simp add: pool_lists_def)
  ultimately show ?thesis using fs w 1 x by (auto simp: s2)
qed

lemma cpu_read_start_lists:
  assumes "pool_lists (qc_rqs c) fs bs" "cpu_read_start junk addr n c = Some (Inr (c', p, req))"
  shows "\<exists>fs' s. fs = p # fs' \<and> (qc_unblocking_write c \<longrightarrow> bs = []) \<and> c' = c\<lparr>qc_rqs := s\<rparr>
    \<and> pool_lists s fs' (p # bs) \<and> p \<notin> set bs \<and> \<not> qr_bDone (rs_heap s ! p) \<and> \<not> qr_bWrite (rs_heap s ! p)
    \<and> (\<forall>y. y \<noteq> p \<longrightarrow> rs_heap s ! y = rs_heap (qc_rqs c) ! y) \<and> rq_trdid req = qr_tid (rs_heap s ! p)"
proof -
  from assms(2) obtain s1 s2 m where
    g: "GetNewRequest (qc_unblocking_write c) (qc_rqs c) = Some (Inr (s1, p))"
    and u: "upd_request p (\<lambda>n. n\<lparr>qr_bWrite := False\<rparr>) s1 = Inr s2"
    and m: "rd (rs_heap s2) p = Inr m" "send_req junk (qc_node_id c) (qr_tid m) addr [] n False = Inr req"
    and c': "c' = c\<lparr>qc_rqs := s2\<rparr>"
    by (auto simp: cpu_read_start_def bindr_eq_Inr)
  from new_request_lists [OF assms(1) g u] send_req_tid [OF m(2)] m(1) c' show ?thesis
    by (auto simp: rd_eq_Inr)
qed

lemma cpu_write_start_lists:
  assumes "pool_lists (qc_rqs c) fs bs" "cpu_write_start junk addr data n io c = Some (Inr (c', p, req))"
  shows "\<exists>fs' s. fs = p # fs' \<and> (qc_unblocking_write c \<and> io \<longrightarrow> bs = []) \<and> c' = c\<lparr>qc_rqs := s\<rparr>
    \<and> pool_lists s fs' (p # bs) \<and> p \<notin> set bs \<and> \<not> qr_bDone (rs_heap s ! p) \<and> qr_bWrite (rs_heap s ! p)
    \<and> (\<forall>y. y \<noteq> p \<longrightarrow> rs_heap s ! y = rs_heap (qc_rqs c) ! y) \<and> rq_trdid req = qr_tid (rs_heap s ! p)"
proof -
  let ?w = "if qc_unblocking_write c then io else False"
  from assms(2) obtain s1 s2 m where
    g: "GetNewRequest ?w (qc_rqs c) = Some (Inr (s1, p))"
    and u: "upd_request p (\<lambda>n. n\<lparr>qr_bWrite := True\<rparr>) s1 = Inr s2"
    and m: "rd (rs_heap s2) p = Inr m" "send_req junk (qc_node_id c) (qr_tid m) addr (bytes32 data) (ucast n) True = Inr req"
    and c': "c' = c\<lparr>qc_rqs := s2\<rparr>"
    by (auto simp: cpu_write_start_def bindr_eq_Inr)
  from new_request_lists [OF assms(1) g u] send_req_tid [OF m(2)] m(1) c' show ?thesis
    by (auto simp: rd_eq_Inr)
qed

lemma free_request_lists:
  assumes "pool_lists s fs bs" "p \<in> set bs" "FreeRequest s p = Inr (s', e)"
  shows "pool_lists s' (p # fs) (remove1 p bs) \<and> e = (remove1 p bs = [])
    \<and> (\<forall>y. rs_heap s' ! y = (rs_heap s ! y)\<lparr>qr_m_next := qr_m_next (rs_heap s' ! y)\<rparr>)"
proof -
  obtain as cs where b: "bs = as @ p # cs" "p \<notin> set as" using assms(2) by (meson split_list_first)
  then have "remove1 p bs = as @ cs" by (simp add: remove1_append)
  with FreeRequest_lists [of s fs as p cs] assms b show ?thesis by auto
qed

lemma cpu_rcv_rsp_lists:
  assumes p: "pool_lists (qc_rqs c) fs bs" and r: "cpu_rcv_rsp beyond tid data c = Inr (c', e)"
  shows "(\<forall>x\<in>set bs. qr_tid (rs_heap (qc_rqs c) ! x) \<noteq> tid) \<and> c' = c
    \<or> (\<exists>x s. x \<in> set bs \<and> qr_tid (rs_heap (qc_rqs c) ! x) = tid \<and> c' = c\<lparr>qc_rqs := s\<rparr>
        \<and> (if qc_unblocking_write c \<and> qr_bWrite (rs_heap (qc_rqs c) ! x)
           then FreeRequest (qc_rqs c) x = Inr (s, e)
           else 4 \<le> length (data @ beyond) \<and> pool_lists s fs bs
             \<and> rs_heap s = (rs_heap (qc_rqs c))[x := (rs_heap (qc_rqs c) ! x)
                 \<lparr>qr_rcv_data := le32 (take 4 (data @ beyond)), qr_bDone := True\<rparr>]))"
proof (cases "find (\<lambda>x. qr_tid (rs_heap (qc_rqs c) ! x) = tid) bs")
  case None
  then have "GetRequestByTid (qc_rqs c) tid = Inr None" using GetRequestByTid_lists [OF p] by simp
  with r have "c' = c" by (simp add: cpu_rcv_rsp_def)
  moreover have "\<forall>x\<in>set bs. qr_tid (rs_heap (qc_rqs c) ! x) \<noteq> tid"
    using None by (auto simp: find_None_iff)
  ultimately show ?thesis by blast
next
  case (Some x)
  then have x: "x \<in> set bs" "qr_tid (rs_heap (qc_rqs c) ! x) = tid" by (auto simp: find_Some_iff)
  have g: "GetRequestByTid (qc_rqs c) tid = Inr (Some x)" using GetRequestByTid_lists [OF p] Some by simp
  have l: "x < length (rs_heap (qc_rqs c))" by (rule pool_busy_bound [OF p x(1)])
  show ?thesis
  proof (cases "qc_unblocking_write c \<and> qr_bWrite (rs_heap (qc_rqs c) ! x)")
    case True
    with r g l x show ?thesis by (auto simp: cpu_rcv_rsp_def bindr_eq_Inr)
  next
    case False
    let ?f = "\<lambda>n. n\<lparr>qr_rcv_data := le32 (take 4 (data @ beyond)), qr_bDone := True\<rparr>"
    let ?s = "(qc_rqs c)\<lparr>rs_heap := (rs_heap (qc_rqs c))[x := ?f (rs_heap (qc_rqs c) ! x)]\<rparr>"
    have "4 \<le> length (data @ beyond)" "c' = c\<lparr>qc_rqs := ?s\<rparr>"
      using r g l False by (auto simp: cpu_rcv_rsp_def bindr_eq_Inr rd_bytes_def upd_request_def split: if_splits)
    moreover have "pool_lists ?s fs bs" by (rule upd_request_lists [OF p]) simp_all
    ultimately show ?thesis using x False by (intro disjI2 exI [of _ x] exI [of _ ?s]) auto
  qed
qed

subsection \<open>The protocol\<close>

text \<open>
  The processor's thread and the thread that brings its responses. A step of the former is
  a function up to its wait or after it; the events of a run, the latest first, name the
  transactions by their identifier.
\<close>

datatype cpu_pc = Running | Reading nat ulong | Writing nat

datatype cpu_label = StartRead u8 | EndRead ulong | StartWrite u8 | EndWrite | Response u8 "u8 list"

inductive cpu_run :: "qemu_cpu_wrapper \<Rightarrow> cpu_label list \<Rightarrow> qemu_cpu_wrapper \<Rightarrow> cpu_pc \<Rightarrow> bool"
  for c0 :: qemu_cpu_wrapper where
  start: "cpu_run c0 [] c0 Running"
| read_start: "cpu_run c0 tr c Running \<Longrightarrow> cpu_read_start junk addr n c = Some (Inr (c', p, req)) \<Longrightarrow>
    cpu_run c0 (StartRead (rq_trdid req) # tr) c' (Reading p n)"
| read_end: "cpu_run c0 tr c (Reading p n) \<Longrightarrow> cpu_read_end ret p n c = Some (Inr (c', v, e)) \<Longrightarrow>
    cpu_run c0 (EndRead v # tr) c' Running"
| write_start: "cpu_run c0 tr c Running \<Longrightarrow>
    cpu_write_start junk addr data nb io c = Some (Inr (c', p, req)) \<Longrightarrow>
    cpu_run c0 (StartWrite (rq_trdid req) # tr) c' (if qc_unblocking_write c' then Running else Writing p)"
| write_end: "cpu_run c0 tr c (Writing p) \<Longrightarrow> cpu_write_end p c = Some (Inr (c', e)) \<Longrightarrow>
    cpu_run c0 (EndWrite # tr) c' Running"
| response: "cpu_run c0 tr c pc \<Longrightarrow> cpu_rcv_rsp beyond tid data c = Inr (c', e) \<Longrightarrow>
    cpu_run c0 (Response tid (data @ beyond) # tr) c' pc"

inductive_cases cpu_runE: "cpu_run c0 (l # tr) c pc"

text \<open>The transactions without a response yet, and the latest response to an identifier.\<close>

fun open_tids :: "cpu_label list \<Rightarrow> u8 list" where
  "open_tids [] = []"
| "open_tids (StartRead t # tr) = t # open_tids tr"
| "open_tids (StartWrite t # tr) = t # open_tids tr"
| "open_tids (Response t _ # tr) = remove1 t (open_tids tr)"
| "open_tids (_ # tr) = open_tids tr"

fun answer_to :: "u8 \<Rightarrow> cpu_label list \<Rightarrow> u8 list" where
  "answer_to t [] = []"
| "answer_to t (Response t' d # tr) = (if t' = t then d else answer_to t tr)"
| "answer_to t (_ # tr) = answer_to t tr"

fun started_read :: "cpu_label list \<Rightarrow> u8" where
  "started_read [] = 0"
| "started_read (StartRead t # tr) = t"
| "started_read (_ # tr) = started_read tr"

lemma map_remove1_inj: "inj_on f (set xs) \<Longrightarrow> x \<in> set xs \<Longrightarrow> map f (remove1 x xs) = remove1 (f x) (map f xs)"
  by (induction xs) (auto simp: inj_on_def)

text \<open>What holds of the requests at every moment of a run.\<close>

definition tid_at :: "qemu_cpu_wrapper \<Rightarrow> nat \<Rightarrow> u8" where
  "tid_at c x = qr_tid (rs_heap (qc_rqs c) ! x)"

fun requests_ok :: "cpu_label list \<Rightarrow> qemu_cpu_wrapper \<Rightarrow> nat list \<Rightarrow> cpu_pc \<Rightarrow> bool" where
  "requests_ok tr c bs Running \<longleftrightarrow> open_tids tr = map (tid_at c) bs
     \<and> (\<forall>x\<in>set bs. qr_bWrite (rs_heap (qc_rqs c) ! x)) \<and> (\<not> qc_unblocking_write c \<longrightarrow> bs = [])"
| "requests_ok tr c bs (Reading p n) \<longleftrightarrow> bs = [p] \<and> \<not> qr_bWrite (rs_heap (qc_rqs c) ! p)
     \<and> started_read tr = tid_at c p
     \<and> (if qr_bDone (rs_heap (qc_rqs c) ! p)
        then open_tids tr = [] \<and> 4 \<le> length (answer_to (tid_at c p) tr)
          \<and> qr_rcv_data (rs_heap (qc_rqs c) ! p) = le32 (take 4 (answer_to (tid_at c p) tr))
        else open_tids tr = [tid_at c p])"
| "requests_ok tr c bs (Writing p) \<longleftrightarrow> bs = [p] \<and> \<not> qc_unblocking_write c
     \<and> open_tids tr = (if qr_bDone (rs_heap (qc_rqs c) ! p) then [] else [tid_at c p])"

definition run_ok :: "cpu_label list \<Rightarrow> qemu_cpu_wrapper \<Rightarrow> cpu_pc \<Rightarrow> bool" where
  "run_ok tr c pc \<longleftrightarrow> (\<exists>fs bs. pool_lists (qc_rqs c) fs bs \<and> requests_ok tr c bs pc)"

lemma run_ok_read_start:
  assumes "run_ok tr c Running" "cpu_read_start junk addr n c = Some (Inr (c', p, req))"
  shows "run_ok (StartRead (rq_trdid req) # tr) c' (Reading p n)" "open_tids tr = []"
proof -
  from assms(1) obtain fs bs where l: "pool_lists (qc_rqs c) fs bs" and r: "requests_ok tr c bs Running"
    by (auto simp: run_ok_def)
  from cpu_read_start_lists [OF l assms(2)] r
  obtain fs' s where s: "bs = []" "c' = c\<lparr>qc_rqs := s\<rparr>" "pool_lists s fs' [p]"
    "\<not> qr_bDone (rs_heap s ! p)" "\<not> qr_bWrite (rs_heap s ! p)" "rq_trdid req = qr_tid (rs_heap s ! p)"
    by fastforce
  then show "run_ok (StartRead (rq_trdid req) # tr) c' (Reading p n)" "open_tids tr = []"
    using r by (auto simp: run_ok_def tid_at_def)
qed

lemma run_ok_write_start:
  assumes "run_ok tr c Running" "cpu_write_start junk addr data nb io c = Some (Inr (c', p, req))"
  shows "run_ok (StartWrite (rq_trdid req) # tr) c' (if qc_unblocking_write c' then Running else Writing p)"
proof -
  from assms(1) obtain fs bs where l: "pool_lists (qc_rqs c) fs bs" and r: "requests_ok tr c bs Running"
    by (auto simp: run_ok_def)
  from cpu_write_start_lists [OF l assms(2)]
  obtain fs' s where s: "c' = c\<lparr>qc_rqs := s\<rparr>" "pool_lists s fs' (p # bs)" "p \<notin> set bs"
    "\<not> qr_bDone (rs_heap s ! p)" "qr_bWrite (rs_heap s ! p)" "rq_trdid req = qr_tid (rs_heap s ! p)"
    "\<forall>y. y \<noteq> p \<longrightarrow> rs_heap s ! y = rs_heap (qc_rqs c) ! y" by blast
  have h: "rs_heap s ! x = rs_heap (qc_rqs c) ! x" if "x \<in> set bs" for x using s(3,7) that by metis
  then have m: "map (tid_at c') bs = map (tid_at c) bs" by (simp add: tid_at_def s(1))
  show ?thesis
  proof (cases "qc_unblocking_write c'")
    case True
    have "requests_ok (StartWrite (rq_trdid req) # tr) c' (p # bs) Running"
      using True r s(1,5,6) h m by (auto simp: tid_at_def)
    then have "run_ok (StartWrite (rq_trdid req) # tr) c' Running"
      using s(1,2) unfolding run_ok_def by (intro exI [of _ fs'] exI [of _ "p # bs"]) simp
    with True show ?thesis by simp
  next
    case False
    with r s show ?thesis by (auto simp: run_ok_def tid_at_def)
  qed
qed

lemma run_ok_ends:
  shows "run_ok tr c (Reading p n) \<Longrightarrow> cpu_read_end ret p n c = Some (Inr (c', v, e)) \<Longrightarrow>
      run_ok (EndRead v # tr) c' Running"
    and "run_ok tr c (Writing p) \<Longrightarrow> cpu_write_end p c = Some (Inr (c', e)) \<Longrightarrow>
      run_ok (EndWrite # tr) c' Running"
proof -
  assume "run_ok tr c (Reading p n)" and en: "cpu_read_end ret p n c = Some (Inr (c', v, e))"
  then obtain fs where l: "pool_lists (qc_rqs c) fs [p]" and r: "requests_ok tr c [p] (Reading p n)"
    by (auto simp: run_ok_def)
  from en obtain s where s: "FreeRequest (qc_rqs c) p = Inr (s, e)" "c' = c\<lparr>qc_rqs := s\<rparr>"
    "qr_bDone (rs_heap (qc_rqs c) ! p)"
    by (auto simp: cpu_read_end_def Let_def bindr_eq_Inr rd_eq_Inr split: sum.splits if_splits)
  with free_request_lists [OF l _ s(1)] r show "run_ok (EndRead v # tr) c' Running"
    by (auto simp: run_ok_def)
next
  assume "run_ok tr c (Writing p)" and en: "cpu_write_end p c = Some (Inr (c', e))"
  then obtain fs where l: "pool_lists (qc_rqs c) fs [p]" and r: "requests_ok tr c [p] (Writing p)"
    by (auto simp: run_ok_def)
  from en r obtain s where s: "FreeRequest (qc_rqs c) p = Inr (s, e)" "c' = c\<lparr>qc_rqs := s\<rparr>"
    "qr_bDone (rs_heap (qc_rqs c) ! p)"
    by (auto simp: cpu_write_end_def Let_def bindr_eq_Inr rd_eq_Inr split: sum.splits if_splits)
  with free_request_lists [OF l _ s(1)] r show "run_ok (EndWrite # tr) c' Running"
    by (auto simp: run_ok_def)
qed

lemma run_ok_response:
  assumes ok: "run_ok tr c pc" and rsp: "cpu_rcv_rsp beyond tid data c = Inr (c', e)"
  shows "run_ok (Response tid (data @ beyond) # tr) c' pc"
proof -
  from ok obtain fs bs where l: "pool_lists (qc_rqs c) fs bs" and r: "requests_ok tr c bs pc"
    by (auto simp: run_ok_def)
  from cpu_rcv_rsp_lists [OF l rsp]
  consider (unknown) "\<forall>x\<in>set bs. tid_at c x \<noteq> tid" "c' = c"
    | (posted) x s where "x \<in> set bs" "tid_at c x = tid" "c' = c\<lparr>qc_rqs := s\<rparr>" "qc_unblocking_write c"
        "qr_bWrite (rs_heap (qc_rqs c) ! x)" "FreeRequest (qc_rqs c) x = Inr (s, e)"
    | (waited) x s where "x \<in> set bs" "tid_at c x = tid" "c' = c\<lparr>qc_rqs := s\<rparr>"
        "\<not> (qc_unblocking_write c \<and> qr_bWrite (rs_heap (qc_rqs c) ! x))" "4 \<le> length (data @ beyond)"
        "pool_lists s fs bs" "rs_heap s = (rs_heap (qc_rqs c))[x := (rs_heap (qc_rqs c) ! x)
                 \<lparr>qr_rcv_data := le32 (take 4 (data @ beyond)), qr_bDone := True\<rparr>]"
    by (auto simp: tid_at_def split: if_splits)
  then show ?thesis
  proof cases
    case unknown
    have "tid \<notin> set (open_tids tr)" using unknown(1) r by (cases pc) (auto split: if_splits)
    then have "requests_ok (Response tid (data @ beyond) # tr) c bs pc"
      using r unknown(1) by (cases pc) (auto simp: remove1_idem)
    with l unknown(2) show ?thesis by (auto simp: run_ok_def)
  next
    case posted
    note fr = free_request_lists [OF l posted(1,6)]
    have h: "qr_tid (rs_heap s ! y) = qr_tid (rs_heap (qc_rqs c) ! y)"
      "qr_bWrite (rs_heap s ! y) = qr_bWrite (rs_heap (qc_rqs c) ! y)" for y
      using fr by (metis qemu_wrapper_request.select_convs(1) qemu_wrapper_request.surjective
          qemu_wrapper_request.update_convs(5), metis qemu_wrapper_request.select_convs(3)
          qemu_wrapper_request.surjective qemu_wrapper_request.update_convs(5))
    have tids: "tid_at c' = tid_at c" by (simp add: fun_eq_iff tid_at_def posted(3) h(1))
    have pc: "pc = Running" using r posted(1,4,5) by (cases pc) auto
    have inj: "inj_on (tid_at c) (set bs)" unfolding inj_on_def tid_at_def using pool_tids [OF l] by blast
    have "open_tids (Response tid (data @ beyond) # tr) = map (tid_at c') (remove1 x bs)"
      using r pc posted(2) map_remove1_inj [OF inj posted(1)] tids by simp
    moreover have "\<forall>y\<in>set (remove1 x bs). qr_bWrite (rs_heap s ! y)"
      using r pc h notin_set_remove1 [of _ bs x] by auto
    ultimately have "requests_ok (Response tid (data @ beyond) # tr) c' (remove1 x bs) Running"
      using posted(3,4) by simp
    with fr posted(3) pc show ?thesis unfolding run_ok_def
      by (intro exI [of _ "x # fs"] exI [of _ "remove1 x bs"]) simp
  next
    case waited
    have x: "x < length (rs_heap (qc_rqs c))" by (rule pool_busy_bound [OF l waited(1)])
    have "requests_ok (Response tid (data @ beyond) # tr) c' bs pc"
      using r waited x by (cases pc) (auto simp: tid_at_def split: if_splits)
    with waited(3,6) show ?thesis by (auto simp: run_ok_def)
  qed
qed

lemma cpu_run_ok:
  assumes "cpu_run c0 tr c pc" "pool_lists (qc_rqs c0) fs []"
  shows "run_ok tr c pc"
  using assms(1)
proof (induction rule: cpu_run.induct)
  case start
  then show ?case using assms(2) by (auto simp: run_ok_def)
next
  case read_start
  then show ?case using run_ok_read_start(1) by blast
next
  case read_end
  then show ?case using run_ok_ends(1) by blast
next
  case write_start
  then show ?case using run_ok_write_start by blast
next
  case write_end
  then show ?case using run_ok_ends(2) by blast
next
  case response
  then show ?case using run_ok_response by blast
qed

text \<open>
  Claim C5. The loads and stores of a processor. Whatever the order in which responses come
  back: two transactions under way never have the same identifier; a load goes out only
  when every earlier store has been answered; and what a load returns is the first bytes
  of the latest response that carries its identifier.
\<close>

theorem cpu_loads_and_stores:
  assumes "cpu_run c0 tr c pc" "pool_lists (qc_rqs c0) fs []"
  shows "distinct (open_tids tr)
    \<and> (pc = Running \<and> cpu_read_start junk addr n c = Some (Inr (c', p, req)) \<longrightarrow> open_tids tr = [])
    \<and> (pc = Reading p n \<and> cpu_read_end ret p n c = Some (Inr (c', v, e)) \<longrightarrow>
        open_tids tr = []
          \<and> take (min 4 (unat n)) (bytes32 v) = take (min 4 (unat n)) (answer_to (started_read tr) tr))"
proof (intro conjI impI; (elim conjE)?)
  from cpu_run_ok [OF assms] have ok: "run_ok tr c pc" .
  then obtain fs' bs where l: "pool_lists (qc_rqs c) fs' bs" and r: "requests_ok tr c bs pc"
    by (auto simp: run_ok_def)
  have "inj_on (tid_at c) (set bs)" unfolding inj_on_def tid_at_def using pool_tids [OF l] by blast
  moreover have "distinct bs" using l by (simp add: pool_lists_def)
  ultimately show "distinct (open_tids tr)"
    using r by (cases pc) (auto simp: distinct_map split: if_splits)
next
  assume "pc = Running" "cpu_read_start junk addr n c = Some (Inr (c', p, req))"
  then show "open_tids tr = []" using run_ok_read_start(2) cpu_run_ok [OF assms] by blast
next
  assume pc: "pc = Reading p n" and en: "cpu_read_end ret p n c = Some (Inr (c', v, e))"
  from cpu_run_ok [OF assms] obtain fs' bs where r: "requests_ok tr c bs pc" by (auto simp: run_ok_def)
  define m where "m = min 4 (unat n)"
  define d where "d = answer_to (started_read tr) tr"
  have "unat (if n > 4 then 4 else n) = m" by (auto simp: m_def word_less_nat_alt)
  with en have dn: "qr_bDone (rs_heap (qc_rqs c) ! p)"
    and v: "v = le32 (take m (bytes32 (qr_rcv_data (rs_heap (qc_rqs c) ! p))) @ drop m (bytes32 ret))"
    by (auto simp: cpu_read_end_def Let_def bindr_eq_Inr rd_eq_Inr split: sum.splits if_splits)
  from r pc dn have d: "4 \<le> length d" "qr_rcv_data (rs_heap (qc_rqs c) ! p) = le32 (take 4 d)"
    and o: "open_tids tr = []" by (auto simp: d_def)
  show "open_tids tr = []" by (rule o)
  have "bytes32 v = take m (take 4 d) @ drop m (bytes32 ret)"
    using d(1) by (simp add: v d(2) bytes32_le32 m_def)
  then show "take (min 4 (unat n)) (bytes32 v) = take (min 4 (unat n)) (answer_to (started_read tr) tr)"
    using d(1) unfolding m_def [symmetric] d_def [symmetric] by (simp add: m_def)
qed

subsection \<open>A load or a store over a bus\<close>

text \<open>A whole store and a whole load, with nothing else under way: the bus answers the request.\<close>

definition cpu_store :: "('m \<Rightarrow> vci_request \<Rightarrow> ('m \<times> vci_response) res) \<Rightarrow> vci_request \<Rightarrow> u8 list
    \<Rightarrow> ulong \<Rightarrow> ulong \<Rightarrow> u8 \<Rightarrow> bool \<Rightarrow> qemu_cpu_wrapper \<Rightarrow> 'm \<Rightarrow> (qemu_cpu_wrapper \<times> 'm) res" where
  "cpu_store bus junk beyond addr data nbytes bIO c b =
     (case cpu_write_start junk addr data nbytes bIO c of
        None \<Rightarrow> Inl Blocked
      | Some r \<Rightarrow> bindr r (\<lambda>(c, p, req).
          bindr (bus b req) (\<lambda>(b, rsp).
          bindr (response_thread (qc_node_id c) rsp) (\<lambda>r. case r of
              None \<Rightarrow> Inl Blocked
            | Some (tid, data, bErr, w) \<Rightarrow>
                bindr (cpu_rcv_rsp beyond tid data c) (\<lambda>(c, e). case cpu_write_end p c of
                    None \<Rightarrow> Inl Blocked
                  | Some r \<Rightarrow> bindr r (\<lambda>(c, e). Inr (c, b)))))))"

definition cpu_load :: "('m \<Rightarrow> vci_request \<Rightarrow> ('m \<times> vci_response) res) \<Rightarrow> vci_request \<Rightarrow> u8 list
    \<Rightarrow> ulong \<Rightarrow> ulong \<Rightarrow> ulong \<Rightarrow> qemu_cpu_wrapper \<Rightarrow> 'm \<Rightarrow> (qemu_cpu_wrapper \<times> ulong \<times> 'm) res" where
  "cpu_load bus junk beyond ret addr nbytes c b =
     (case cpu_read_start junk addr nbytes c of
        None \<Rightarrow> Inl Blocked
      | Some r \<Rightarrow> bindr r (\<lambda>(c, p, req).
          bindr (bus b req) (\<lambda>(b, rsp).
          bindr (response_thread (qc_node_id c) rsp) (\<lambda>r. case r of
              None \<Rightarrow> Inl Blocked
            | Some (tid, data, bErr, w) \<Rightarrow>
                bindr (cpu_rcv_rsp beyond tid data c) (\<lambda>(c, e). case cpu_read_end ret p nbytes c of
                    None \<Rightarrow> Inl Blocked
                  | Some r \<Rightarrow> bindr r (\<lambda>(c, v, e). Inr (c, v, b)))))))"

definition cpu_idle :: "qemu_cpu_wrapper \<Rightarrow> bool" where
  "cpu_idle c \<longleftrightarrow> (\<exists>x fs. pool_lists (qc_rqs c) (x # fs) []) \<and> unat (qc_node_id c) < 2 ^ 16"

lemma new_request_forward:
  assumes "pool_lists s (x # fs) []"
  shows "\<exists>s1 s2. GetNewRequest w s = Some (Inr (s1, x)) \<and> upd_request x (\<lambda>n. n\<lparr>qr_bWrite := b\<rparr>) s1 = Inr s2
    \<and> pool_lists s2 fs [x] \<and> \<not> qr_bDone (rs_heap s2 ! x) \<and> qr_bWrite (rs_heap s2 ! x) = b
    \<and> rd (rs_heap s2) x = Inr (rs_heap s2 ! x)"
proof -
  from GetNewRequest_lists [OF assms, of w] obtain s1 where
    g: "GetNewRequest w s = Some (Inr (s1, x))" "pool_lists s1 fs [x]" by auto
  then have x: "x < length (rs_heap s1)" using pool_busy_bound by auto
  then obtain s2 where u: "upd_request x (\<lambda>n. n\<lparr>qr_bWrite := b\<rparr>) s1 = Inr s2" by (simp add: upd_request_def)
  from new_request_lists [OF assms g(1) u] have "pool_lists s2 fs [x]" "\<not> qr_bDone (rs_heap s2 ! x)"
    "qr_bWrite (rs_heap s2 ! x) = b" by auto
  moreover from this(1) have "x < length (rs_heap s2)" using pool_busy_bound by auto
  ultimately show ?thesis using g(1) u by auto
qed

lemma rcv_rsp_waited:
  assumes p: "pool_lists (qc_rqs c) fs [x]" and t: "tid = qr_tid (rs_heap (qc_rqs c) ! x)"
    and w: "\<not> (qc_unblocking_write c \<and> qr_bWrite (rs_heap (qc_rqs c) ! x))" and l: "4 \<le> length (data @ beyond)"
  shows "\<exists>c'. cpu_rcv_rsp beyond tid data c = Inr (c', False) \<and> c' = c\<lparr>qc_rqs := qc_rqs c'\<rparr>
    \<and> pool_lists (qc_rqs c') fs [x] \<and> rd (rs_heap (qc_rqs c')) x = Inr (rs_heap (qc_rqs c') ! x)
    \<and> qr_bDone (rs_heap (qc_rqs c') ! x)
    \<and> qr_rcv_data (rs_heap (qc_rqs c') ! x) = le32 (take 4 (data @ beyond))"
proof -
  have x: "x < length (rs_heap (qc_rqs c))" using pool_busy_bound [OF p] by simp
  have g: "GetRequestByTid (qc_rqs c) tid = Inr (Some x)" using GetRequestByTid_busy [OF p] t by simp
  let ?f = "\<lambda>n. n\<lparr>qr_rcv_data := le32 (take 4 (data @ beyond)), qr_bDone := True\<rparr>"
  let ?s = "(qc_rqs c)\<lparr>rs_heap := (rs_heap (qc_rqs c))[x := ?f (rs_heap (qc_rqs c) ! x)]\<rparr>"
  have "pool_lists ?s fs [x]" by (rule upd_request_lists [OF p]) simp_all
  moreover have "cpu_rcv_rsp beyond tid data c = Inr (c\<lparr>qc_rqs := ?s\<rparr>, False)"
    using g x w l by (auto simp: cpu_rcv_rsp_def rd_bytes_def upd_request_def)
  ultimately show ?thesis using x by (intro exI [of _ "c\<lparr>qc_rqs := ?s\<rparr>"]) simp
qed

lemma free_last:
  assumes "pool_lists s fs [x]"
  shows "\<exists>s'. FreeRequest s x = Inr (s', True) \<and> pool_lists s' (x # fs) []"
  using FreeRequest_lists [of s fs "[]" x "[]"] assms by auto

lemma rcv_rsp_posted:
  assumes p: "pool_lists (qc_rqs c) fs [x]" and t: "tid = qr_tid (rs_heap (qc_rqs c) ! x)"
    and w: "qc_unblocking_write c \<and> qr_bWrite (rs_heap (qc_rqs c) ! x)"
  shows "\<exists>s. cpu_rcv_rsp beyond tid data c = Inr (c\<lparr>qc_rqs := s\<rparr>, True) \<and> pool_lists s (x # fs) []"
proof -
  have x: "x < length (rs_heap (qc_rqs c))" using pool_busy_bound [OF p] by simp
  have g: "GetRequestByTid (qc_rqs c) tid = Inr (Some x)" using GetRequestByTid_busy [OF p] t by simp
  from free_last [OF p] g x w show ?thesis by (auto simp: cpu_rcv_rsp_def)
qed

context memory_bus
begin

lemma cpu_store_ok:
  assumes c: "cpu_idle c" and v: "invar b" and n: "aligned_access addr (ucast nb)"
    and r: "unat addr + unat nb \<le> limit" and bey: "3 \<le> length beyond"
  shows "\<exists>c' b'. cpu_store bus junk beyond addr data nb io c b = Inr (c', b') \<and> cpu_idle c'
    \<and> qc_node_id c' = qc_node_id c \<and> invar b' \<and> view b' = stored (unat addr) (take (unat nb) (bytes32 data)) (view b)"
proof -
  have nn: "unat (ucast nb :: ulong) = unat nb"
  proof -
    have "unat nb < 2 ^ LENGTH(8)" by (rule unsigned_less)
    then show ?thesis by (simp add: unsigned_ucast_eq take_bit_nat_eq_self)
  qed
  have n4: "unat nb \<in> {1, 2, 4}" using aligned_access_facts(4) [OF n] nn by simp
  from c obtain x fs where p: "pool_lists (qc_rqs c) (x # fs) []" and id: "unat (qc_node_id c) < 2 ^ 16"
    by (auto simp: cpu_idle_def)
  let ?w = "if qc_unblocking_write c then io else False"
  obtain s1 s2 where s: "GetNewRequest ?w (qc_rqs c) = Some (Inr (s1, x))"
    "upd_request x (\<lambda>n. n\<lparr>qr_bWrite := True\<rparr>) s1 = Inr s2" "pool_lists s2 fs [x]"
    "\<not> qr_bDone (rs_heap s2 ! x)" "qr_bWrite (rs_heap s2 ! x)" "rd (rs_heap s2) x = Inr (rs_heap s2 ! x)"
    using new_request_forward [OF p, of ?w True] by blast
  define tid where "tid = qr_tid (rs_heap s2 ! x)"
  define c2 where "c2 = c\<lparr>qc_rqs := s2\<rparr>"
  have ld: "unat (ucast nb :: ulong) \<le> length (bytes32 data)" using n4 nn by auto
  from store_transaction [OF v n _ ld id, of junk tid] r nn obtain req b' rsp where
    t: "send_req junk (qc_node_id c) tid addr (bytes32 data) (ucast nb) True = Inr req"
      "bus b req = Inr (b', rsp)" "invar b'" "length (rs_rdata rsp) = 8"
      "response_thread (qc_node_id c) rsp = Inr (Some (tid, drop (lane_ofs addr) (rs_rdata rsp), False, False))"
      "view b' = stored (unat addr) (take (unat nb) (bytes32 data)) (view b)" by auto
  have ws: "cpu_write_start junk addr data nb io c = Some (Inr (c2, x, req))"
    using s t(1) by (simp add: cpu_write_start_def tid_def c2_def)
  have len: "4 \<le> length (drop (lane_ofs addr) (rs_rdata rsp) @ beyond)"
    using t(4) bey aligned_access_facts(1,4) [OF n] by auto
  show ?thesis
  proof (cases "qc_unblocking_write c")
    case True
    with rcv_rsp_posted [of c2 fs x tid beyond "drop (lane_ofs addr) (rs_rdata rsp)"] s(3,5)
    obtain s3 where "cpu_rcv_rsp beyond tid (drop (lane_ofs addr) (rs_rdata rsp)) c2 = Inr (c2\<lparr>qc_rqs := s3\<rparr>, True)"
      "pool_lists s3 (x # fs) []" by (auto simp: c2_def tid_def)
    with ws t True id show ?thesis
      by (simp add: cpu_store_def cpu_write_end_def c2_def cpu_idle_def) blast
  next
    case False
    with rcv_rsp_waited [of c2 fs x tid "drop (lane_ofs addr) (rs_rdata rsp)" beyond, OF _ _ _ len] s(3)
    obtain c3 where "cpu_rcv_rsp beyond tid (drop (lane_ofs addr) (rs_rdata rsp)) c2 = Inr (c3, False)"
      and c3: "c3 = c2\<lparr>qc_rqs := qc_rqs c3\<rparr>" "pool_lists (qc_rqs c3) fs [x]"
        "rd (rs_heap (qc_rqs c3)) x = Inr (rs_heap (qc_rqs c3) ! x)" "qr_bDone (rs_heap (qc_rqs c3) ! x)"
      by (auto simp: c2_def tid_def)
    moreover obtain s4 where "FreeRequest (qc_rqs c3) x = Inr (s4, True)" "pool_lists s4 (x # fs) []"
      using free_last [OF c3(2)] by blast
    moreover have "qc_node_id c3 = qc_node_id c" "\<not> qc_unblocking_write c3"
      using c3(1) False by (metis c2_def qemu_cpu_wrapper.select_convs(1) qemu_cpu_wrapper.surjective
        qemu_cpu_wrapper.update_convs(3), metis c2_def qemu_cpu_wrapper.select_convs(7)
        qemu_cpu_wrapper.surjective qemu_cpu_wrapper.update_convs(3))
    ultimately show ?thesis using ws t id
      by (auto simp: cpu_store_def cpu_write_end_def c2_def cpu_idle_def)
  qed
qed

lemma cpu_load_ok:
  assumes c: "cpu_idle c" and v: "invar b" and n: "aligned_access addr n"
    and r: "unat addr + unat n \<le> limit" and bey: "3 \<le> length beyond"
  shows "\<exists>c' x b'. cpu_load bus junk beyond ret addr n c b = Inr (c', x, b') \<and> cpu_idle c'
    \<and> qc_node_id c' = qc_node_id c \<and> invar b' \<and> view b' = view b
    \<and> take (unat n) (bytes32 x) = map (\<lambda>j. view b (unat addr + j)) [0..<unat n]"
proof -
  have n4: "unat n \<in> {1, 2, 4}" "\<not> n > 4" using aligned_access_facts [OF n] by auto
  from c obtain x fs where p: "pool_lists (qc_rqs c) (x # fs) []" and id: "unat (qc_node_id c) < 2 ^ 16"
    by (auto simp: cpu_idle_def)
  obtain s1 s2 where s: "GetNewRequest (qc_unblocking_write c) (qc_rqs c) = Some (Inr (s1, x))"
    "upd_request x (\<lambda>n. n\<lparr>qr_bWrite := False\<rparr>) s1 = Inr s2" "pool_lists s2 fs [x]"
    "\<not> qr_bDone (rs_heap s2 ! x)" "\<not> qr_bWrite (rs_heap s2 ! x)" "rd (rs_heap s2) x = Inr (rs_heap s2 ! x)"
    using new_request_forward [OF p, of "qc_unblocking_write c" False] by blast
  define tid where "tid = qr_tid (rs_heap s2 ! x)"
  define c2 where "c2 = c\<lparr>qc_rqs := s2\<rparr>"
  from load_transaction [OF v n r id, of junk tid] obtain req b' rsp where
    t: "send_req junk (qc_node_id c) tid addr [] n False = Inr req"
      "bus b req = Inr (b', rsp)" "invar b'" "length (rs_rdata rsp) = 8"
      "response_thread (qc_node_id c) rsp = Inr (Some (tid, drop (lane_ofs addr) (rs_rdata rsp), False, False))"
      "take (unat n) (drop (lane_ofs addr) (rs_rdata rsp)) = map (\<lambda>j. view b (unat addr + j)) [0..<unat n]"
      "view b' = view b" by blast
  define got where "got = drop (lane_ofs addr) (rs_rdata rsp)"
  have rs: "cpu_read_start junk addr n c = Some (Inr (c2, x, req))"
    using s t(1) by (simp add: cpu_read_start_def tid_def c2_def)
  have lg: "unat n \<le> length got" "4 \<le> length (got @ beyond)"
    using t(4) bey aligned_access_facts(1,4) [OF n] by (auto simp: got_def)
  from rcv_rsp_waited [of c2 fs x tid got beyond, OF _ _ _ lg(2)] s(3,5)
  obtain c3 where rcv: "cpu_rcv_rsp beyond tid got c2 = Inr (c3, False)"
    and c3: "c3 = c2\<lparr>qc_rqs := qc_rqs c3\<rparr>" "pool_lists (qc_rqs c3) fs [x]"
      "rd (rs_heap (qc_rqs c3)) x = Inr (rs_heap (qc_rqs c3) ! x)" "qr_bDone (rs_heap (qc_rqs c3) ! x)"
      "qr_rcv_data (rs_heap (qc_rqs c3) ! x) = le32 (take 4 (got @ beyond))"
    by (auto simp: c2_def tid_def)
  obtain s4 where s4: "FreeRequest (qc_rqs c3) x = Inr (s4, True)" "pool_lists s4 (x # fs) []"
    using free_last [OF c3(2)] by blast
  define y where "y = le32 (take (unat n) (take 4 (got @ beyond)) @ drop (unat n) (bytes32 ret))"
  have "cpu_read_end ret x n c3 = Some (Inr (c3\<lparr>qc_rqs := s4\<rparr>, y, True))"
    using c3(3-5) s4(1) n4 lg(2) by (simp add: cpu_read_end_def Let_def bytes32_le32 y_def del: take_append)
  moreover have "qc_node_id c3 = qc_node_id c"
    by (metis c2_def c3(1) qemu_cpu_wrapper.select_convs(1) qemu_cpu_wrapper.surjective
      qemu_cpu_wrapper.update_convs(3))
  moreover have "take (unat n) (bytes32 y) = take (unat n) got"
    using n4(1) lg by (auto simp: y_def bytes32_le32)
  ultimately show ?thesis using rs rcv s4(2) t id
    by (auto simp: cpu_load_def c2_def cpu_idle_def got_def)
qed

end

text \<open>A processor with two requests, and a load of four bytes answered on the network.\<close>

definition small_cpu :: qemu_cpu_wrapper where
  "small_cpu = \<lparr>qc_node_id = 3, qc_cpuindex = 0,
     qc_rqs = \<lparr>rs_heap = [(request_new False 0 1)\<lparr>qr_m_next := Some 1\<rparr>, request_new False 0 2],
               rs_m_headFree = Some 0, rs_m_headBusy = None\<rparr>,
     qc_fv_level = 6, qc_base_address = 0x82000000, qc_end_address = 0x82000FFF,
     qc_unblocking_write = True, qc_last_read_sctime = - 1, qc_last_no_cycles_high = - 1,
     qc_no_total_cycles = 0, qc_crt_cpu_thread = 0, qc_swi = 0\<rparr>"

lemma small_cpu_lists: "pool_lists (qc_rqs small_cpu) [0, 1] []"
  by (simp add: small_cpu_def pool_lists_def request_new_def less_Suc_eq all_conj_distrib insert_commute lessThan_Suc)

theorem cpu_loads_and_stores_witness:
  "\<exists>tr c c' v e. cpu_run small_cpu tr c (Reading 0 4) \<and> cpu_read_end 0 0 4 c = Some (Inr (c', v, e))
    \<and> take 4 (bytes32 v) = [1, 2, 3, 4]"
proof -
  obtain c1 req where 1: "cpu_read_start zero_request 8 4 small_cpu = Some (Inr (c1, 0, req))" "rq_trdid req = 1"
    and c1: "rs_heap (qc_rqs c1) = [request_new False 0xDEADDEAD 1, request_new False 0 2]"
      "rs_m_headBusy (qc_rqs c1) = Some 0" "qc_unblocking_write c1"
    by (simp add: cpu_read_start_def small_cpu_def GetNewRequest_def upd_request_def request_new_def
        send_req_def s_operation_mask_be_def)
  obtain c2 where 2: "cpu_rcv_rsp [] 1 [1, 2, 3, 4] c1 = Inr (c2, False)"
    and c2: "rs_heap (qc_rqs c2) = [(request_new False (le32 [1, 2, 3, 4]) 1)\<lparr>qr_bDone := True\<rparr>, request_new False 0 2]"
      "rs_m_headBusy (qc_rqs c2) = Some 0"
    using c1 by (simp add: cpu_rcv_rsp_def GetRequestByTid_def upd_request_def request_new_def rd_bytes_def numeral_2_eq_2)
  have run: "cpu_run small_cpu [Response 1 [1, 2, 3, 4], StartRead 1] c2 (Reading 0 4)"
    using cpu_run.response [OF cpu_run.read_start [OF cpu_run.start 1(1)] 2] 1(2) by simp
  obtain c3 v e where 3: "cpu_read_end 0 0 4 c2 = Some (Inr (c3, v, e))"
    using c2 by (simp add: cpu_read_end_def FreeRequest_def find_loc.simps get_loc_def set_loc_def request_new_def Let_def)
  have "take 4 (bytes32 v) = [1, 2, 3, 4]"
    using cpu_loads_and_stores [OF run small_cpu_lists, where p = 0 and n = 4 and ret = 0 and c' = c3 and v = v and e = e] 3 by simp
  with run 3 show ?thesis by blast
qed

end
