(* ===== verification/Mem_Device.thy ===== *)
theory Mem_Device
  imports Slave_Device Byte_Lanes
begin

text \<open>
  The two memories, \<^verbatim>\<open>mem/mem_device.cpp\<close> and \<^verbatim>\<open>sram/sram_device.cpp\<close>: a byte array
  behind the byte-enable table. \<open>mem\<close> also serves bursts, for which it returns a host
  address, and writes masks outside its table byte by byte.
\<close>

text \<open>\<open>md_host\<close> is the address \<open>new\<close> returned for the array, which bursts hand out.\<close>

record mem_device =
  md_mem :: "u8 list"
  md_size :: ulong
  md_host :: ulong

datatype mem_event = BadWrite ulong u8 | BadRead ulong u8

definition mem_device_new :: "ulong \<Rightarrow> ulong \<Rightarrow> mem_device" where
  "mem_device_new host sz =
     \<lparr>md_mem = replicate (unat sz) 0, md_size = sz, md_host = host\<rparr>"

text \<open>The assignment selected by the width: eight bytes are two words.\<close>

definition store_lane :: "u8 list \<Rightarrow> nat \<Rightarrow> u8 list \<Rightarrow> nat \<Rightarrow> nat \<Rightarrow> u8 list res" where
  "store_lane mem ofs data l w =
     (if w = 8 then bindr (copy_lane mem ofs data 0 0 4) (\<lambda>mem. copy_lane mem ofs data 0 1 4)
      else copy_lane mem ofs data 0 l w)"

definition load_lane :: "u8 list \<Rightarrow> nat \<Rightarrow> u8 list \<Rightarrow> nat \<Rightarrow> nat \<Rightarrow> u8 list res" where
  "load_lane mem ofs data l w =
     (if w = 8 then bindr (copy_lane data 0 mem ofs 0 4) (\<lambda>data. copy_lane data 0 mem ofs 1 4)
      else copy_lane data 0 mem ofs l w)"

subsection \<open>\<open>mem_device\<close>\<close>

text \<open>\<open>bErr\<close> stays false: a bad access is printed only.\<close>

definition mem_write :: "mem_device \<Rightarrow> ulong \<Rightarrow> u8 \<Rightarrow> u8 list
    \<Rightarrow> (mem_device \<times> mem_event list \<times> bool) res" where
  "mem_write d ofs be data =
     (if ofs > md_size d \<or> be = 0 then Inr (d, [BadWrite ofs be], False)
      else (case be_lane8 be of
        Some (l, w) \<Rightarrow>
          bindr (store_lane (md_mem d) (unat ofs) data l w) (\<lambda>mem.
          Inr (d\<lparr>md_mem := mem\<rparr>, [], False))
      | None \<Rightarrow>
          bindr (skip_zeros (unat be) 0) (\<lambda>(tbe, start).
          let (tbe, offset_dd) = take_ones tbe start; width = offset_dd - start in
          bindr (copy_bytes (md_mem d) (unat ofs) data [start..<offset_dd]) (\<lambda>mem.
          Inr (d\<lparr>md_mem := mem\<rparr>,
               if width \<notin> {1, 2, 4, 8} \<or> tbe \<noteq> 0 then [BadWrite ofs be] else [], False)))))"

definition mem_read :: "vci_request \<Rightarrow> mem_device \<Rightarrow> ulong \<Rightarrow> u8 \<Rightarrow> u8 list
    \<Rightarrow> (mem_event list \<times> u8 list \<times> bool) res" where
  "mem_read req d ofs be data =
     (if rq_plen req > 1 then
        let be_off = (if be = 0xF0 then 4 else 0) in
        bindr (wr_bytes data be_off (bytes32 (md_host d + ofs + of_nat be_off))) (\<lambda>data.
        Inr ([], data, False))
      else if ofs \<ge> md_size d \<or> be = 0 then Inr ([BadRead ofs be], data, True)
      else (case be_lane be of
          Some (l, w) \<Rightarrow>
            bindr (copy_lane data 0 (md_mem d) (unat ofs) l w) (\<lambda>data. Inr ([], data, False))
        | None \<Rightarrow> Inr ([BadRead ofs be], data, True)))"

definition mem_rcv_rqst :: "(mem_device, mem_event) rcv_rqst" where
  "mem_rcv_rqst req d ofs be data bWrite =
     (if bWrite
      then bindr (mem_write d ofs be data) (\<lambda>(d, es, bErr). Inr (d, es, data, bErr))
      else bindr (mem_read req d ofs be data) (\<lambda>(es, data, bErr). Inr (d, es, data, bErr)))"

definition mem_inv :: "mem_device \<Rightarrow> bool" where
  "mem_inv d \<longleftrightarrow> length (md_mem d) = unat (md_size d)"

lemma mem_device_new_inv [simp]: "mem_inv (mem_device_new host sz)"
  by (simp add: mem_inv_def mem_device_new_def)

lemma store_lane_len: "store_lane mem ofs data l w = Inr mem' \<Longrightarrow> length mem' = length mem"
  by (auto simp: store_lane_def bindr_eq_Inr dest!: copy_lane_len split: if_splits)

lemma load_lane_len: "load_lane mem ofs data l w = Inr data' \<Longrightarrow> length data' = length data"
  by (auto simp: load_lane_def bindr_eq_Inr dest!: copy_lane_len split: if_splits)

lemma mem_write_shape:
  assumes "mem_write d ofs be data = Inr (d', es, bErr)"
  shows "length (md_mem d') = length (md_mem d) \<and> md_size d' = md_size d \<and> md_host d' = md_host d
    \<and> \<not> bErr"
  using assms
  by (auto simp: mem_write_def bindr_eq_Inr Let_def case_prod_unfold
      dest!: store_lane_len copy_bytes_len split: if_splits option.splits)

lemma mem_read_len: "mem_read req d ofs be data = Inr (es, data', bErr) \<Longrightarrow> length data' = length data"
  by (auto simp: mem_read_def bindr_eq_Inr Let_def dest: wr_bytes_len copy_lane_len
      split: if_splits option.splits)

interpretation mem_slave: slave_module mem_rcv_rqst mem_inv
  by unfold_locales
    (auto simp: mem_rcv_rqst_def bindr_eq_Inr mem_inv_def dest: mem_write_shape mem_read_len
      split: if_splits)

subsection \<open>\<open>sram_device\<close>\<close>

definition sram_write :: "mem_device \<Rightarrow> u32 \<Rightarrow> u8 \<Rightarrow> u8 list
    \<Rightarrow> (mem_device \<times> mem_event list \<times> bool) res" where
  "sram_write d ofs be data =
     (if ofs > md_size d \<or> be = 0 then Inr (d, [BadWrite ofs be], True)
      else (case be_lane8 be of
        Some (l, w) \<Rightarrow>
          bindr (store_lane (md_mem d) (unat ofs) data l w) (\<lambda>mem.
          Inr (d\<lparr>md_mem := mem\<rparr>, [], False))
      | None \<Rightarrow> Inr (d, [BadWrite ofs be], True)))"

definition sram_read :: "mem_device \<Rightarrow> u32 \<Rightarrow> u8 \<Rightarrow> u8 list
    \<Rightarrow> (mem_event list \<times> u8 list \<times> bool) res" where
  "sram_read d ofs be data =
     (if ofs \<ge> md_size d \<or> be = 0 then Inr ([BadRead ofs be], data, True)
      else (case be_lane8 be of
          Some (l, w) \<Rightarrow>
            bindr (load_lane (md_mem d) (unat ofs) data l w) (\<lambda>data. Inr ([], data, False))
        | None \<Rightarrow> Inr ([BadRead ofs be], data, True)))"

definition sram_rcv_rqst :: "(mem_device, mem_event) rcv_rqst" where
  "sram_rcv_rqst req d ofs be data bWrite =
     (if bWrite
      then bindr (sram_write d ofs be data) (\<lambda>(d, es, bErr). Inr (d, es, data, bErr))
      else bindr (sram_read d ofs be data) (\<lambda>(es, data, bErr). Inr (d, es, data, bErr)))"

lemma sram_write_shape:
  assumes "sram_write d ofs be data = Inr (d', es, bErr)"
  shows "length (md_mem d') = length (md_mem d) \<and> md_size d' = md_size d \<and> md_host d' = md_host d"
  using assms
  by (auto simp: sram_write_def bindr_eq_Inr dest!: store_lane_len split: if_splits option.splits)

lemma sram_read_len: "sram_read d ofs be data = Inr (es, data', bErr) \<Longrightarrow> length data' = length data"
  by (auto simp: sram_read_def bindr_eq_Inr dest!: load_lane_len split: if_splits option.splits)

interpretation sram_slave: slave_module sram_rcv_rqst mem_inv
  by unfold_locales
    (auto simp: sram_rcv_rqst_def bindr_eq_Inr mem_inv_def dest: sram_write_shape sram_read_len
      split: if_splits)

subsection \<open>Byte enables as masks\<close>

text \<open>The reference for all of these accesses: lane \<open>i\<close> is taken from \<open>new\<close> iff bit \<open>i\<close> is set.\<close>

definition masked :: "u8 \<Rightarrow> u8 list \<Rightarrow> u8 list \<Rightarrow> u8 list" where
  "masked be new old = map (\<lambda>i. if bit be i then new ! i else old ! i) [0..<8]"

lemma length_masked [simp]: "length (masked be new old) = 8"
  by (simp add: masked_def)

lemma masked_nth: "i < 8 \<Longrightarrow> masked be new old ! i = (if bit be i then new ! i else old ! i)"
  by (simp add: masked_def del: upt_Suc)

lemma masked_masked_same: "masked be (masked be new old) old' = masked be new old'"
  by (rule nth_equalityI) (simp_all add: masked_nth)

lemma bit_lanes_mask: "i < 8 \<Longrightarrow> bit (lanes_mask k w) i \<longleftrightarrow> k \<le> i \<and> i < k + w"
  by (auto simp: lanes_mask_def bit_simps)

lemma put_lanes_masked:
  assumes "k + w \<le> 8" "ofs + 8 \<le> length mem" "length data = 8"
  shows "put_bytes mem (ofs + k) (take w (drop k data))
       = put_bytes mem ofs (masked (lanes_mask k w) data (take 8 (drop ofs mem)))"
proof (rule nth_equalityI)
  show "length (put_bytes mem (ofs + k) (take w (drop k data)))
      = length (put_bytes mem ofs (masked (lanes_mask k w) data (take 8 (drop ofs mem))))"
    using assms by simp
next
  fix i assume "i < length (put_bytes mem (ofs + k) (take w (drop k data)))"
  then have i: "i < length mem" using assms by simp
  show "put_bytes mem (ofs + k) (take w (drop k data)) ! i
      = put_bytes mem ofs (masked (lanes_mask k w) data (take 8 (drop ofs mem))) ! i"
    using assms i by (auto simp: nth_put_bytes masked_nth bit_lanes_mask)
qed

lemma copy_lane_masked:
  assumes "l * w + w \<le> 8" "ofs + 8 \<le> length mem" "length data = 8"
  shows "copy_lane mem ofs data 0 l w
       = Inr (put_bytes mem ofs (masked (lanes_mask (l * w) w) data (take 8 (drop ofs mem))))"
    and "copy_lane data 0 mem ofs l w
       = Inr (masked (lanes_mask (l * w) w) (take 8 (drop ofs mem)) data)"
proof -
  show "copy_lane mem ofs data 0 l w
       = Inr (put_bytes mem ofs (masked (lanes_mask (l * w) w) data (take 8 (drop ofs mem))))"
    using assms put_lanes_masked [OF assms] by (simp add: copy_lane_eq)
  have "take w (drop (ofs + l * w) mem) = take w (drop (l * w) (take 8 (drop ofs mem)))"
    using assms by (simp add: drop_take min_def add.commute)
  then have "put_bytes data (0 + l * w) (take w (drop (ofs + l * w) mem))
      = put_bytes data 0 (masked (lanes_mask (l * w) w) (take 8 (drop ofs mem)) (take 8 (drop 0 data)))"
    using assms put_lanes_masked [of "l * w" w 0 data "take 8 (drop ofs mem)"] by simp
  then show "copy_lane data 0 mem ofs l w
       = Inr (masked (lanes_mask (l * w) w) (take 8 (drop ofs mem)) data)"
    using assms by (simp add: copy_lane_eq put_bytes_def)
qed

lemma eight_bytes:
  "length data = 8 \<Longrightarrow> masked (lanes_mask 0 8) data old = data"
  by (rule nth_equalityI) (auto simp: masked_nth bit_lanes_mask)

lemma copy_two_words:
  assumes "ofs + 8 \<le> length mem" "length data = 8"
  shows "bindr (copy_lane mem ofs data 0 0 4) (\<lambda>mem. copy_lane mem ofs data 0 1 4)
       = Inr (put_bytes mem ofs data)"
  using assms put_bytes_append [of ofs "take 4 data" "drop 4 data" mem]
  by (simp add: copy_lane_eq)

lemma store_lane_masked:
  assumes "be_lane8 be = Some (l, w)" "ofs + 8 \<le> length mem" "length data = 8"
  shows "store_lane mem ofs data l w
       = Inr (put_bytes mem ofs (masked be data (take 8 (drop ofs mem))))"
proof (cases "w = 8")
  case True
  then have "l = 0" using be_lane8_cases [OF assms(1)] by auto
  with True show ?thesis
    using copy_two_words [OF assms(2,3)] be_lane8_cases [OF assms(1)] eight_bytes [OF assms(3)]
    by (simp add: store_lane_def)
next
  case False
  then show ?thesis
    using copy_lane_masked(1) [of l w ofs mem data] be_lane8_fits [OF assms(1)]
      be_lane8_cases [OF assms(1)] assms(2,3)
    by (simp add: store_lane_def)
qed

lemma load_lane_masked:
  assumes "be_lane8 be = Some (l, w)" "ofs + 8 \<le> length mem" "length data = 8"
  shows "load_lane mem ofs data l w = Inr (masked be (take 8 (drop ofs mem)) data)"
proof (cases "w = 8")
  case True
  then have l: "l = 0" and be: "be = lanes_mask 0 8" using be_lane8_cases [OF assms(1)] by auto
  have "load_lane mem ofs data l w = Inr (take 8 (drop ofs mem))"
    using True l assms(2,3)
      put_bytes_append [of 0 "take 4 (drop ofs mem)" "take 4 (drop (ofs + 4) mem)" data]
      take_add [of 4 4 "drop ofs mem"]
    by (simp add: load_lane_def copy_lane_eq put_bytes_def add.commute)
  then show ?thesis using eight_bytes assms(2) by (simp add: be)
next
  case False
  then show ?thesis
    using copy_lane_masked(2) [of l w ofs mem data] be_lane8_fits [OF assms(1)]
      be_lane8_cases [OF assms(1)] assms(2,3)
    by (simp add: load_lane_def)
qed

lemma copy_bytes_eq:
  assumes "k + n \<le> length data" "ofs + k + n \<le> length mem"
  shows "copy_bytes mem ofs data [k..<k + n] = Inr (put_bytes mem (ofs + k) (take n (drop k data)))"
  using assms
proof (induction n arbitrary: k mem)
  case 0
  then show ?case by (simp add: put_bytes_def)
next
  case (Suc n)
  have "copy_bytes mem ofs data [k..<k + Suc n]
      = copy_bytes (mem[ofs + k := data ! k]) ofs data [Suc k..<Suc k + n]"
    using Suc.prems by (simp add: upt_conv_Cons del: upt_Suc)
  also have "\<dots> = Inr (put_bytes (mem[ofs + k := data ! k]) (ofs + Suc k) (take n (drop (Suc k) data)))"
    by (rule Suc.IH) (use Suc.prems in simp_all)
  also have "mem[ofs + k := data ! k] = put_bytes mem (ofs + k) [data ! k]"
    using Suc.prems by (simp add: put_bytes_def upd_conv_take_nth_drop)
  also have "put_bytes \<dots> (ofs + Suc k) (take n (drop (Suc k) data))
      = put_bytes mem (ofs + k) ([data ! k] @ take n (drop (Suc k) data))"
    using put_bytes_append [of "ofs + k" "[data ! k]" "take n (drop (Suc k) data)" mem] Suc.prems
    by simp
  also have "[data ! k] @ take n (drop (Suc k) data) = take (Suc n) (drop k data)"
    using Suc.prems by (simp add: Cons_nth_drop_Suc [symmetric])
  finally show ?case .
qed

subsection \<open>What the memories do\<close>

definition window :: "mem_device \<Rightarrow> ulong \<Rightarrow> u8 list" where
  "window d ofs = take 8 (drop (unat ofs) (md_mem d))"

definition in_mem :: "mem_device \<Rightarrow> ulong \<Rightarrow> bool" where
  "in_mem d ofs \<longleftrightarrow> unat ofs + 8 \<le> unat (md_size d)"

lemma in_mem_bounds: "in_mem d ofs \<Longrightarrow> \<not> ofs > md_size d \<and> \<not> ofs \<ge> md_size d"
  by (simp add: in_mem_def word_less_nat_alt word_le_nat_alt)

lemma lanes_mask_nonzero: "0 < w \<Longrightarrow> k + w \<le> 8 \<Longrightarrow> lanes_mask k w \<noteq> 0"
  using unat_lanes_mask [of k w] one_less_power [of "2::nat" w] by (cases "lanes_mask k w = 0") auto

lemma take_ones_mask: "take_ones (2 ^ w - 1) n = (0, n + w)"
proof (induction w arbitrary: n)
  case 0
  then show ?case by (simp add: take_ones.simps)
next
  case (Suc w)
  have "odd ((2::nat) ^ Suc w - 1)" by simp
  moreover have "((2::nat) ^ Suc w - 1) div 2 = 2 ^ w - 1" by simp
  ultimately show ?case using Suc [of "n + 1"] by (subst take_ones.simps) simp
qed

text \<open>Any contiguous mask, whether the table or the byte loop serves it.\<close>

lemma mem_write_masked:
  assumes v: "mem_inv d" "in_mem d ofs" and l: "length data = 8"
    and be: "be = lanes_mask k w" "0 < w" "k + w \<le> 8"
  obtains es where "mem_write d ofs be data =
    Inr (d\<lparr>md_mem := put_bytes (md_mem d) (unat ofs) (masked be data (window d ofs))\<rparr>, es, False)"
proof (cases "be_lane8 be")
  case (Some p)
  then obtain l w where p: "be_lane8 be = Some (l, w)" by (cases p) auto
  from store_lane_masked [OF p, of "unat ofs" "md_mem d" data] v l
  show ?thesis using that in_mem_bounds [OF v(2)] lanes_mask_nonzero [OF be(2,3)] p be(1)
    by (simp add: mem_write_def window_def mem_inv_def in_mem_def)
next
  case None
  have "copy_bytes (md_mem d) (unat ofs) data [k..<k + w]
      = Inr (put_bytes (md_mem d) (unat ofs) (masked be data (window d ofs)))"
    using copy_bytes_eq [of k w data "unat ofs" "md_mem d"] put_lanes_masked [OF be(3), of "unat ofs" "md_mem d" data]
      v l be
    by (simp add: window_def mem_inv_def in_mem_def)
  then show ?thesis
    using that None in_mem_bounds [OF v(2)] lanes_mask_nonzero [OF be(2,3)] be(1)
      skip_zeros_lanes_mask [OF be(2,3)] take_ones_mask [of w k]
    by (simp add: mem_write_def Let_def)
qed

lemma mem_read_masked:
  assumes "mem_inv d" "in_mem d ofs" "length data = 8" "be_lane be = Some (l, w)" "rq_plen req \<le> 1"
  shows "mem_read req d ofs be data = Inr ([], masked be (window d ofs) data, False)"
proof -
  from assms(4) have 8: "be_lane8 be = Some (l, w)" and be0: "be \<noteq> 0"
    by (auto simp: be_lane_be_lane8 be_lane_def)
  have "\<not> rq_plen req > 1" using assms(5) by (simp add: linorder_not_less)
  with copy_lane_masked(2) [of l w "unat ofs" "md_mem d" data] be_lane8_fits [OF 8] be_lane8_cases [OF 8] assms
  show ?thesis using in_mem_bounds [OF assms(2)] be0
    by (simp add: mem_read_def window_def mem_inv_def in_mem_def)
qed

lemma window_put_bytes:
  assumes "mem_inv d" "in_mem d ofs" "length bs = 8"
  shows "window (d\<lparr>md_mem := put_bytes (md_mem d) (unat ofs) bs\<rparr>) ofs = bs"
    and "mem_inv (d\<lparr>md_mem := put_bytes (md_mem d) (unat ofs) bs\<rparr>)"
    and "in_mem (d\<lparr>md_mem := put_bytes (md_mem d) (unat ofs) bs\<rparr>) ofs"
  using assms take_drop_put_bytes [of "unat ofs" bs "md_mem d"]
  by (simp_all add: window_def mem_inv_def in_mem_def)

text \<open>
  Claim C23. A write to the memory device with a contiguous byte-enable mask changes exactly the enabled
  lanes of the eight bytes at the offset, for a mask of its table and for one its byte loop
  serves alike, and a later single read of lanes the table knows returns what the memory
  holds there: after a write with the same mask, the data written.
\<close>

theorem mem_read_after_write:
  assumes "mem_inv d" "in_mem d ofs" "length data = 8" "length buf = 8"
    and "be = lanes_mask k w" "0 < w" "k + w \<le> 8"
    and "be_lane be' = Some p" "rq_plen req \<le> 1"
  shows "\<exists>d' es. mem_write d ofs be data = Inr (d', es, False)
    \<and> md_mem d' = put_bytes (md_mem d) (unat ofs) (masked be data (window d ofs))
    \<and> mem_read req d' ofs be' buf
        = Inr ([], masked be' (masked be data (window d ofs)) buf, False)"
proof -
  from mem_write_masked [OF assms(1-3,5-7)] obtain es where w: "mem_write d ofs be data =
    Inr (d\<lparr>md_mem := put_bytes (md_mem d) (unat ofs) (masked be data (window d ofs))\<rparr>, es, False)" .
  let ?d = "d\<lparr>md_mem := put_bytes (md_mem d) (unat ofs) (masked be data (window d ofs))\<rparr>"
  note p = window_put_bytes [OF assms(1,2) length_masked [of be data "window d ofs"]]
  from assms(8) obtain l u where "be_lane be' = Some (l, u)" by (cases p) auto
  from mem_read_masked [OF p(2,3) assms(4) this assms(9)] show ?thesis using w p(1) by simp
qed

theorem mem_read_after_write_witness:
  "\<exists>d' es. mem_write (mem_device_new 0 32) 8 0x30 [1, 2, 3, 4, 5, 6, 7, 8] = Inr (d', es, False)
    \<and> md_mem d' = put_bytes (md_mem (mem_device_new 0 32)) (unat (8::ulong))
        (masked 0x30 [1, 2, 3, 4, 5, 6, 7, 8] (window (mem_device_new 0 32) 8))
    \<and> mem_read zero_request d' 8 0xF0 (replicate 8 9)
        = Inr ([], masked 0xF0 (masked 0x30 [1, 2, 3, 4, 5, 6, 7, 8] (window (mem_device_new 0 32) 8))
            (replicate 8 9), False)"
  by (rule mem_read_after_write [of _ _ _ _ _ 4 2 _ "(1, 4)"])
    (simp_all add: in_mem_def mem_device_new_def lanes_mask_def mask_eq_decr_exp push_bit_eq_mult
      be_lane_def zero_request_def mem_inv_def)

text \<open>
  Claim C25. On every access both memories serve (a mask of the shared table, eight bytes inside the
  array, no burst) \<open>mem_device\<close> and \<open>sram_device\<close> are the same device: same memory after a
  write, same data and no error on a read.
\<close>

theorem mem_sram_equivalent:
  assumes "mem_inv d" "in_mem d ofs" "length data = 8" "be_lane be = Some p" "rq_plen req \<le> 1"
  shows "mem_rcv_rqst req d ofs be data bWrite = sram_rcv_rqst req d ofs be data bWrite
    \<and> (\<exists>d' data'. sram_rcv_rqst req d ofs be data bWrite = Inr (d', [], data', False))"
proof -
  from assms(4) obtain l w where p: "be_lane be = Some (l, w)" by (cases p) auto
  then have 8: "be_lane8 be = Some (l, w)" by (rule be_lane_be_lane8)
  have b: "\<not> ofs > md_size d" "\<not> ofs \<ge> md_size d" and z: "be \<noteq> 0"
    using in_mem_bounds [OF assms(2)] p by (auto simp: be_lane_def)
  have m: "unat ofs + 8 \<le> length (md_mem d)" using assms(1,2) by (simp add: mem_inv_def in_mem_def)
  note s = store_lane_masked [OF 8 m assms(3)] load_lane_masked [OF 8 m assms(3)]
  have r: "mem_read req d ofs be data = sram_read d ofs be data"
    using mem_read_masked [OF assms(1-3) p assms(5)] s(2) 8 b z by (simp add: sram_read_def window_def)
  have w: "mem_write d ofs be data = sram_write d ofs be data"
    using 8 b z by (simp add: mem_write_def sram_write_def)
  have "\<exists>d'. sram_write d ofs be data = Inr (d', [], False)"
    using 8 b z s(1) by (simp add: sram_write_def)
  moreover have "\<exists>data'. sram_read d ofs be data = Inr ([], data', False)"
    using 8 b z s(2) by (simp add: sram_read_def)
  ultimately show ?thesis using r w by (auto simp: mem_rcv_rqst_def sram_rcv_rqst_def)
qed

theorem mem_sram_equivalent_witness:
  "mem_rcv_rqst zero_request (mem_device_new 0 32) 24 0x0F (replicate 8 5) True
     = sram_rcv_rqst zero_request (mem_device_new 0 32) 24 0x0F (replicate 8 5) True
   \<and> (\<exists>d' data'. sram_rcv_rqst zero_request (mem_device_new 0 32) 24 0x0F (replicate 8 5) True
        = Inr (d', [], data', False))"
  by (rule mem_sram_equivalent [of _ _ _ _ "(0, 4)"])
    (simp_all add: in_mem_def mem_device_new_def be_lane_def zero_request_def mem_inv_def)

text \<open>
  The bound check of \<open>write\<close> lets the offset equal to the size pass: such a write of any enabled
  lanes goes past the end of the array, in both memories, while a larger offset is refused.
\<close>

theorem mem_write_bound_off_by_one:
  assumes "mem_inv d" "length data = 8" "be_lane8 be = Some p"
  shows "mem_write d (md_size d) be data = Inl OutOfBounds
    \<and> sram_write d (md_size d) be data = Inl OutOfBounds"
proof -
  from assms(3) obtain l w where p: "be_lane8 be = Some (l, w)" by (cases p) auto
  then have z: "be \<noteq> 0" and w: "0 < w" using be_lane8_fits [OF p] by (auto simp: be_lane8_def be_lane_def)
  have "store_lane (md_mem d) (unat (md_size d)) data l w = Inl OutOfBounds"
    using assms(1,2) be_lane8_fits [OF p] w
    by (auto simp: store_lane_def copy_lane_def rd_bytes_def wr_bytes_def mem_inv_def)
  then show ?thesis using p z by (simp add: mem_write_def sram_write_def)
qed

theorem mem_write_bound_off_by_one_witness:
  "mem_write (mem_device_new 0 32) (md_size (mem_device_new 0 32)) 1 (replicate 8 7) = Inl OutOfBounds
   \<and> sram_write (mem_device_new 0 32) (md_size (mem_device_new 0 32)) 1 (replicate 8 7) = Inl OutOfBounds"
  by (rule mem_write_bound_off_by_one [of _ _ _ "(0, 1)"]) (simp_all add: be_lane8_def be_lane_def)

end
