(* ===== verification/System_Bus.thy ===== *)
theory System_Bus
  imports Block_Dma Qemu_Cpu Mem_Device Interconnect
begin

text \<open>
  The way from a master to the memory of the platform and back, built from the parts: the
  decode of the master's port, the request thread of the slave and the memory device. It
  meets the contract \<open>memory_bus\<close>, so the loads and stores of the processors and the
  transfers of the disk are correct on it.
\<close>

text \<open>
  One transaction at a time: the request is decoded, slave \<open>s\<close> is the memory, and what it
  puts is the response. A request for another slave is outside this bus.
\<close>

definition mem_bus :: "map_el list \<Rightarrow> nat \<Rightarrow> nat \<Rightarrow> slave_device \<times> mem_device \<Rightarrow> vci_request
    \<Rightarrow> ((slave_device \<times> mem_device) \<times> vci_response) res" where
  "mem_bus ms ns s b req =
     bindr (dispatch_request ms ns req) (\<lambda>(j, req).
     if j \<noteq> s then Inl Blocked
     else bindr (request_thread mem_rcv_rqst (fst b) (snd b) req) (\<lambda>(d, mem, es, os).
       case os of [PutRsp rsp] \<Rightarrow> Inr ((d, mem), rsp) | _ \<Rightarrow> Inl Blocked))"

text \<open>The first row of a platform's map: the memory from address 0 to \<open>e\<close>.\<close>

definition ram_row :: "nat \<Rightarrow> ulong \<Rightarrow> map_el" where
  "ram_row s e = \<lparr>me_slave_id = int s, me_begin_address = 0, me_end_address = e, me_intern_offset = 0\<rparr>"

definition mem_view :: "slave_device \<times> mem_device \<Rightarrow> nat \<Rightarrow> u8" where
  "mem_view b i = (if i < length (md_mem (snd b)) then md_mem (snd b) ! i else 0)"

definition mem_bus_inv :: "nat \<Rightarrow> nat \<Rightarrow> ulong \<Rightarrow> slave_device \<times> mem_device \<Rightarrow> bool" where
  "mem_bus_inv ns s e b \<longleftrightarrow> sd_idle (fst b) \<and> mem_inv (snd b) \<and> e \<le> md_size (snd b) \<and> s < ns"

definition ram_limit :: "ulong \<Rightarrow> nat" where
  "ram_limit e = 8 * (unat e div 8)"

lemma ram_limit_le: "ram_limit e \<le> unat e"
  by (simp add: ram_limit_def)

lemma dispatch_ram:
  assumes "s < ns" "unat (rq_address req) + 8 \<le> ram_limit e"
  shows "dispatch_request (ram_row s e # rest) ns req =
    Inr (s, req\<lparr>rq_initial_address := rq_address req, rq_slave_id := int s\<rparr>)"
proof -
  have "rq_address req < e" using assms(2) ram_limit_le [of e] by (simp add: word_less_nat_alt)
  then show ?thesis using assms(1) by (simp add: dispatch_request_def ram_row_def Let_def)
qed

lemma mem_view_put:
  assumes "a + length bs \<le> length (md_mem mem)"
  shows "mem_view (d, mem\<lparr>md_mem := put_bytes (md_mem mem) a bs\<rparr>) = stored a bs (mem_view (d', mem))"
  using assms by (auto simp: fun_eq_iff mem_view_def stored_def nth_put_bytes)

lemma mem_bus_write:
  assumes v: "mem_bus_inv ns s e b" and c: "rq_cmd req = CMD_WRITE" and l: "be_lane (rq_be req) = Some (l, w)"
    and a: "unat (rq_address req) + 8 \<le> ram_limit e" and wf: "wf_request req"
  shows "\<exists>b' rsp. mem_bus (ram_row s e # rest) ns s b req = Inr (b', rsp) \<and> mem_bus_inv ns s e b'
    \<and> answers req rsp \<and> \<not> rs_rerror rsp
    \<and> mem_view b' = stored (unat (rq_address req) + l * w) (take w (drop (l * w) (rq_wdata req))) (mem_view b)"
proof -
  obtain d mem where b: "b = (d, mem)" by (cases b)
  from v have d: "sd_idle d" and m: "mem_inv mem" and e: "e \<le> md_size mem" and s: "s < ns"
    by (simp_all add: mem_bus_inv_def b)
  define A where "A = rq_address req"
  have im: "in_mem mem A" using a e ram_limit_le [of e] by (simp add: in_mem_def A_def word_le_nat_alt)
  have lw: "length (rq_wdata req) = 8" using wf by (simp add: wf_request_def)
  note l8 = be_lane_be_lane8 [OF l]
  have be: "rq_be req = lanes_mask (l * w) w" "0 < w" "l * w + w \<le> 8"
    using be_lane8_cases [OF l8] be_lane8_fits [OF l8] by auto
  have lm: "unat A + 8 \<le> length (md_mem mem)" using im m by (simp add: in_mem_def mem_inv_def)
  from mem_write_masked [OF m im lw be] obtain es where
    wr: "mem_write mem A (rq_be req) (rq_wdata req) =
      Inr (mem\<lparr>md_mem := put_bytes (md_mem mem) (unat A) (masked (rq_be req) (rq_wdata req) (window mem A))\<rparr>, es, False)" .
  have put: "put_bytes (md_mem mem) (unat A) (masked (rq_be req) (rq_wdata req) (window mem A))
      = put_bytes (md_mem mem) (unat A + l * w) (take w (drop (l * w) (rq_wdata req)))"
    using put_lanes_masked [OF be(3) lm lw] by (simp add: be(1) window_def)
  define mem' where "mem' = mem\<lparr>md_mem := put_bytes (md_mem mem) (unat A + l * w) (take w (drop (l * w) (rq_wdata req)))\<rparr>"
  define req' where "req' = req\<lparr>rq_initial_address := A, rq_slave_id := int s\<rparr>"
  have rc: "mem_rcv_rqst req' mem (rq_address req') (rq_be req') (rq_wdata req') True
      = Inr (mem', es, rq_wdata req', False)"
    using wr put by (simp add: mem_rcv_rqst_def req'_def A_def mem'_def)
  have cw: "rq_cmd req' = CMD_WRITE" using c by (simp add: req'_def)
  from request_thread_write [of d req' mem_rcv_rqst, OF d cw rc]
  have rt: "\<exists>d' rsp. request_thread mem_rcv_rqst d mem req' = Inr (d', mem', es, [PutRsp rsp]) \<and> sd_idle d'
      \<and> answers req rsp \<and> \<not> rs_rerror rsp"
    using d by (simp add: Let_def sd_idle_def wf_response_def answers_def req'_def)
  then obtain d' rsp where rt: "request_thread mem_rcv_rqst d mem req' = Inr (d', mem', es, [PutRsp rsp])"
    "sd_idle d'" "answers req rsp" "\<not> rs_rerror rsp" by blast
  have "mem_bus (ram_row s e # rest) ns s b req = Inr ((d', mem'), rsp)"
    using dispatch_ram [OF s a] rt(1) by (simp add: mem_bus_def b req'_def A_def)
  moreover have "mem_bus_inv ns s e (d', mem')"
    using rt(2) m e s lm be(3) by (simp add: mem_bus_inv_def mem'_def mem_inv_def)
  moreover have "mem_view (d', mem') = stored (unat A + l * w) (take w (drop (l * w) (rq_wdata req))) (mem_view b)"
    unfolding mem'_def b by (rule mem_view_put) (use lm be(3) in simp)
  ultimately show ?thesis using rt(3,4) by (auto simp: A_def)
qed

lemma mem_bus_read:
  assumes v: "mem_bus_inv ns s e b" and c: "rq_cmd req = CMD_READ" and l: "be_lane (rq_be req) = Some (l, w)"
    and a: "unat (rq_address req) + 8 \<le> ram_limit e" and p: "rq_plen req = 1"
  shows "\<exists>b' rsp. mem_bus (ram_row s e # rest) ns s b req = Inr (b', rsp) \<and> mem_bus_inv ns s e b'
    \<and> answers req rsp \<and> \<not> rs_rerror rsp \<and> mem_view b' = mem_view b
    \<and> (\<forall>j. l * w \<le> j \<and> j < l * w + w \<longrightarrow> rs_rdata rsp ! j = mem_view b (unat (rq_address req) + j))"
proof -
  obtain d mem where b: "b = (d, mem)" by (cases b)
  from v have d: "sd_idle d" and m: "mem_inv mem" and e: "e \<le> md_size mem" and s: "s < ns"
    by (simp_all add: mem_bus_inv_def b)
  define A where "A = rq_address req"
  have im: "in_mem mem A" using a e ram_limit_le [of e] by (simp add: in_mem_def A_def word_le_nat_alt)
  have lm: "unat A + 8 \<le> length (md_mem mem)" using im m by (simp add: in_mem_def mem_inv_def)
  note l8 = be_lane_be_lane8 [OF l]
  have be: "rq_be req = lanes_mask (l * w) w" "0 < w" "l * w + w \<le> 8"
    using be_lane8_cases [OF l8] be_lane8_fits [OF l8] by auto
  define req' where "req' = req\<lparr>rq_initial_address := A, rq_slave_id := int s\<rparr>"
  define data where "data = masked (rq_be req) (window mem A) (rs_rdata (sd_rsp d))"
  have l0: "length (rs_rdata (sd_rsp d)) = 8" using d by (simp add: sd_idle_def wf_response_def)
  have "mem_read req' mem A (rq_be req) (rs_rdata (sd_rsp d)) = Inr ([], data, False)"
    unfolding data_def by (rule mem_read_masked [OF m im l0 l]) (simp add: req'_def p)
  then have rc: "mem_rcv_rqst req' mem (rq_address req') (rq_be req') (rs_rdata (sd_rsp d)) False
      = Inr (mem, [], data, False)"
    by (simp add: mem_rcv_rqst_def req'_def A_def)
  have cr: "rq_cmd req' = CMD_READ" using c by (simp add: req'_def)
  from request_thread_read [of d req' mem_rcv_rqst, OF d cr rc]
  have "\<exists>d' rsp. request_thread mem_rcv_rqst d mem req' = Inr (d', mem, [], [PutRsp rsp]) \<and> sd_idle d'
      \<and> answers req rsp \<and> \<not> rs_rerror rsp \<and> rs_rdata rsp = data"
    using d by (simp add: Let_def sd_idle_def wf_response_def answers_def req'_def data_def)
  then obtain d' rsp where rt: "request_thread mem_rcv_rqst d mem req' = Inr (d', mem, [], [PutRsp rsp])"
    "sd_idle d'" "answers req rsp" "\<not> rs_rerror rsp" "rs_rdata rsp = data" by blast
  have "mem_bus (ram_row s e # rest) ns s b req = Inr ((d', mem), rsp)"
    using dispatch_ram [OF s a] rt(1) by (simp add: mem_bus_def b req'_def A_def)
  moreover have "mem_bus_inv ns s e (d', mem)" using rt(2) m e s by (simp add: mem_bus_inv_def)
  moreover have "data ! j = mem_view b (unat A + j)" if "l * w \<le> j" "j < l * w + w" for j
    using that be lm by (simp add: data_def masked_nth bit_lanes_mask window_def mem_view_def b)
  moreover have "mem_view (d', mem) = mem_view b" by (simp add: fun_eq_iff mem_view_def b)
  ultimately show ?thesis using rt(3-5) by (auto simp: A_def)
qed

interpretation ram_bus: memory_bus "mem_bus (ram_row s e # rest) ns s" mem_view "mem_bus_inv ns s e" "ram_limit e"
  for s e rest ns
proof (unfold_locales, goal_cases)
  case 1 then show ?case by (simp add: ram_limit_def)
next
  case (2 b req l w) then show ?case by (intro mem_bus_write) simp_all
next
  case (3 b req l w) then show ?case by (intro mem_bus_read) simp_all
qed

subsection \<open>The disk on the platform\<close>

text \<open>
  Claim C1. A block read programmed into the disk copies the file to memory: through the master's
  transactions, the address decode of the network, the request thread and the memory device,
  memory holds afterwards the part of the file at the programmed position from the
  programmed address on, every other byte is unchanged, the registers
  report success and the number of blocks, and the interrupt is raised if enabled.

  This holds for every length under the condition \<open>tail_fits\<close>, and only under it. The one to
  three bytes behind the last word are sent one by one, and for each answer the master
  copies as many bytes of the response as it last read from memory (\<open>m_tr_nbytes\<close>), from the
  byte's lane on. The condition is that these lie in the eight bytes of the response. It
  holds for whole words, and while the last read was of at most one byte; after a
  read of four bytes (each file name and each block write ends with one) the bytes in the
  lanes 5, 6 and 7 break it, and the copy leaves the response: the run is then the fault
  \<open>OutOfBounds\<close>.
\<close>

theorem disk_read_copies_file_to_memory:
  assumes "mem_bus_inv ns s e b" "xfer_ok (ram_limit e) d"
    and "cs_op (bd_regs d) = BLOCK_DEVICE_READ"
  shows "if tail_fits (bd_master d) (cs_buffer (bd_regs d)) (length (file_part d))
    then \<exists>d' b' es. control_thread fs (mem_bus (ram_row s e # rest) ns s) jreq junk d b = Inr (d', b', es)
    \<and> mem_view b' = stored (unat (cs_buffer (bd_regs d))) (file_part d) (mem_view b)
    \<and> cs_status (bd_regs d') = BLOCK_DEVICE_READ_SUCCESS \<and> cs_op (bd_regs d') = BLOCK_DEVICE_NOOP
    \<and> cs_count (bd_regs d') = of_nat (length (file_part d)) div cs_block_size (bd_regs d)
    \<and> bd_file d' = bd_file d
    \<and> (cs_irqen (bd_regs d) \<noteq> 0 \<longrightarrow> block_irq_line (bd_regs d') \<and> es = [BlockIrqUpdate])
    else control_thread fs (mem_bus (ram_row s e # rest) ns s) jreq junk d b = Inl OutOfBounds"
proof -
  have c: "control_thread fs (mem_bus (ram_row s e # rest) ns s) jreq junk d b
      = control_read (mem_bus (ram_row s e # rest) ns s) jreq junk d b"
    using assms(3) by (simp add: control_thread_def block_ops)
  show ?thesis
  proof (cases "tail_fits (bd_master d) (cs_buffer (bd_regs d)) (length (file_part d))")
    case True
    with c ram_bus.control_read_ok [OF assms(1,2) True, of rest jreq junk] show ?thesis by auto
  next
    case False
    with c ram_bus.control_read_overrun [OF assms(1,2) False, of rest jreq junk] show ?thesis by simp
  qed
qed

text \<open>
  Claim C24. A block write does the reverse: the file holds afterwards, at the programmed position, exactly
  the bytes of memory from the programmed address on, its other bytes are unchanged (a gap
  before the position reads as zeros), memory is unchanged, and the registers report
  success and the new size.
\<close>

theorem disk_write_copies_memory_to_file:
  assumes "mem_bus_inv ns s e b" "xfer_ok (ram_limit e) d" "0 < xfer_size (bd_regs d)"
    and "cs_op (bd_regs d) = BLOCK_DEVICE_WRITE"
  shows "\<exists>d' b' es. control_thread fs (mem_bus (ram_row s e # rest) ns s) jreq junk d b = Inr (d', b', es)
    \<and> mem_view b' = mem_view b
    \<and> bd_file d' = Some (file_put (the (bd_file d)) (xfer_pos (bd_regs d))
        (map (\<lambda>j. mem_view b (unat (cs_buffer (bd_regs d)) + j)) [0..<xfer_size (bd_regs d)]))
    \<and> cs_status (bd_regs d') = BLOCK_DEVICE_WRITE_SUCCESS \<and> cs_op (bd_regs d') = BLOCK_DEVICE_NOOP
    \<and> cs_size (bd_regs d') = of_nat (length (the (bd_file d'))) div cs_block_size (bd_regs d)"
proof -
  have "control_thread fs (mem_bus (ram_row s e # rest) ns s) jreq junk d b
      = control_write (mem_bus (ram_row s e # rest) ns s) jreq junk d b"
    using assms(4) by (simp add: control_thread_def block_ops)
  with ram_bus.control_write_ok [OF assms(1-3), of rest jreq junk] show ?thesis by auto
qed

text \<open>A platform of 64 bytes of memory and a disk of blocks of four bytes.\<close>

definition small_bus :: "slave_device \<times> mem_device" where
  "small_bus = (slave_device_new zero_request zero_response, mem_device_new 0 64)"

definition small_disk :: "u32 \<Rightarrow> block_device" where
  "small_disk oper = \<lparr>
     bd_regs = \<lparr>cs_status = 0, cs_buffer = 8, cs_op = oper, cs_lba = 1, cs_count = 2, cs_size = 3,
                cs_block_size = 4, cs_irqen = 1, cs_irq = 0\<rparr>,
     bd_master = block_master_new 3 [0, 0, 0, 0] 0,
     bd_file = Some [1, 2, 3, 4, 5, 6, 7, 8, 9, 10, 11], bd_pos = 0, bd_func_ret = 0\<rparr>"

lemma small_bus_inv: "mem_bus_inv 1 0 64 small_bus"
  by (simp add: mem_bus_inv_def small_bus_def wf_response_def zero_response_def)
    (simp add: mem_device_new_def)

lemma small_disk_ok: "xfer_ok (ram_limit 64) (small_disk oper)"
  by (simp add: xfer_ok_def small_disk_def xfer_pos_def xfer_size_def bm_ok_def block_master_new_def
      ram_limit_def)

text \<open>The same disk after its master has read a word.\<close>

definition stale_disk :: block_device where
  "stale_disk = (small_disk BLOCK_DEVICE_READ)\<lparr>bd_master := block_master_new 3 [0, 0, 0, 0] 4\<rparr>"

lemma stale_disk_ok: "xfer_ok (ram_limit 64) stale_disk"
  by (simp add: xfer_ok_def stale_disk_def small_disk_def xfer_pos_def xfer_size_def bm_ok_def block_master_new_def
      ram_limit_def)

theorem disk_read_copies_file_to_memory_witness:
  "(\<exists>d' b' es. control_thread (\<lambda>_. None) (mem_bus [ram_row 0 64] 1 0) zero_request 0
        (small_disk BLOCK_DEVICE_READ) small_bus = Inr (d', b', es)
    \<and> mem_view b' = stored 8 [5, 6, 7, 8, 9, 10, 11] (mem_view small_bus)
    \<and> cs_count (bd_regs d') = 1 \<and> block_irq_line (bd_regs d'))
  \<and> control_thread (\<lambda>_. None) (mem_bus [ram_row 0 64] 1 0) zero_request 0 stale_disk small_bus = Inl OutOfBounds"
proof -
  have p: "file_part (small_disk BLOCK_DEVICE_READ) = [5, 6, 7, 8, 9, 10, 11]" "file_part stale_disk = [5, 6, 7, 8, 9, 10, 11]"
    by (simp_all add: stale_disk_def small_disk_def file_part_def xfer_size_def xfer_pos_def)
  have r: "bd_regs stale_disk = bd_regs (small_disk BLOCK_DEVICE_READ)" by (simp add: stale_disk_def)
  have c: "cs_buffer (bd_regs (small_disk BLOCK_DEVICE_READ)) = 8" "cs_op (bd_regs (small_disk BLOCK_DEVICE_READ)) = BLOCK_DEVICE_READ"
    "cs_block_size (bd_regs (small_disk BLOCK_DEVICE_READ)) = 4" "cs_irqen (bd_regs (small_disk BLOCK_DEVICE_READ)) = 1"
    by (simp_all add: small_disk_def)
  have t: "tail_fits (bd_master (small_disk BLOCK_DEVICE_READ)) 8 7" "\<not> tail_fits (bd_master stale_disk) 8 7"
    by (auto simp: tail_fits_def small_tail_def stale_disk_def small_disk_def block_master_new_def lane_ofs_mod upt_rec)
  have l: "length [5, 6, 7, 8, 9, 10, 11::u8] = 7" by simp
  note ok = disk_read_copies_file_to_memory [OF small_bus_inv small_disk_ok c(2), unfolded p c l if_P [OF t(1)]]
  note stale = disk_read_copies_file_to_memory [OF small_bus_inv stale_disk_ok c(2) [folded r], unfolded p r c l if_not_P [OF t(2)]]
  show ?thesis using ok [of "\<lambda>_. None" "[]" zero_request 0] stale by fastforce
qed

theorem disk_write_copies_memory_to_file_witness:
  "\<exists>d' b' es. control_thread (\<lambda>_. None) (mem_bus [ram_row 0 64] 1 0) zero_request 0
        (small_disk BLOCK_DEVICE_WRITE) small_bus = Inr (d', b', es)
    \<and> cs_size (bd_regs d') = of_nat (length (the (bd_file d'))) div 4"
  using disk_write_copies_memory_to_file [OF small_bus_inv small_disk_ok, of BLOCK_DEVICE_WRITE "\<lambda>_. None" "[]"
      zero_request 0]
  by (fastforce simp: small_disk_def xfer_size_def)

subsection \<open>The processors on the platform\<close>

text \<open>
  Claim C33. Shared memory: what one processor stores, another one (or the same) loads. For an aligned
  access of one, two or four bytes inside the memory the load returns the stored bytes,
  and the store changes no other byte of memory; this goes through the request pool, the
  byte lanes of the transaction, the address decode, the slave's thread, the memory device
  and back, and both processors can go on.
\<close>

theorem cpu_store_then_load:
  assumes "mem_bus_inv ns s e b" "cpu_idle c1" "cpu_idle c2"
    and n: "aligned_access addr (ucast nb)" "unat addr + unat (nb::u8) \<le> ram_limit e" and "3 \<le> length beyond"
  shows "\<exists>c1' b1 c2' x b2.
    cpu_store (mem_bus (ram_row s e # rest) ns s) junk beyond addr data nb io c1 b = Inr (c1', b1)
    \<and> cpu_load (mem_bus (ram_row s e # rest) ns s) junk beyond ret addr (ucast nb) c2 b1 = Inr (c2', x, b2)
    \<and> take (unat nb) (bytes32 x) = take (unat nb) (bytes32 data)
    \<and> mem_view b2 = stored (unat addr) (take (unat nb) (bytes32 data)) (mem_view b)
    \<and> cpu_idle c1' \<and> cpu_idle c2'"
proof -
  let ?bus = "mem_bus (ram_row s e # rest) ns s" and ?d = "take (unat nb) (bytes32 data)"
  obtain c1' b1 where st: "cpu_store ?bus junk beyond addr data nb io c1 b = Inr (c1', b1)" "cpu_idle c1'"
    "mem_bus_inv ns s e b1" "mem_view b1 = stored (unat addr) ?d (mem_view b)"
    using ram_bus.cpu_store_ok [OF assms(2,1) n assms(6), of rest junk data io] by blast
  have "unat nb < 2 ^ LENGTH(8)" by (rule unsigned_less)
  then have nn: "unat (ucast nb :: ulong) = unat nb" by (simp add: unsigned_ucast_eq take_bit_nat_eq_self)
  obtain c2' x b2 where ld: "cpu_load ?bus junk beyond ret addr (ucast nb) c2 b1 = Inr (c2', x, b2)"
    "cpu_idle c2'" "mem_view b2 = mem_view b1"
    "take (unat nb) (bytes32 x) = map (\<lambda>j. mem_view b1 (unat addr + j)) [0..<unat nb]"
    using ram_bus.cpu_load_ok [OF assms(3) st(3) n(1) _ assms(6), of rest junk ret] n(2) nn by auto
  have l: "length ?d = unat nb" using aligned_access_facts(4) [OF n(1)] nn by auto
  have "take (unat nb) (bytes32 x) = ?d"
    unfolding ld(4) st(4) by (rule nth_equalityI) (use l in \<open>auto simp: stored_def\<close>)
  moreover have "mem_view b2 = stored (unat addr) ?d (mem_view b)" using st(4) ld(3) by simp
  ultimately show ?thesis using st(1,2) ld(1,2) by blast
qed

text \<open>
  Direct memory access is coherent with the processors: after the disk has executed a block
  read, an aligned load of a processor inside the buffer returns the bytes of the
  file at the corresponding position.
\<close>

theorem cpu_loads_disk_data:
  assumes "mem_bus_inv ns s e b" "xfer_ok (ram_limit e) d"
    and "unat (bm_tr_nbytes (bd_master d)) \<le> 1 \<or> length (file_part d) mod 4 = 0"
    and "cs_op (bd_regs d) = BLOCK_DEVICE_READ" and "cpu_idle c"
    and n: "aligned_access (cs_buffer (bd_regs d) + of_nat k) n" "k + unat n \<le> length (file_part d)"
    and "3 \<le> length beyond"
  shows "\<exists>d' b1 es c' x b2.
    control_thread fs (mem_bus (ram_row s e # rest) ns s) jreq junk d b = Inr (d', b1, es)
    \<and> cpu_load (mem_bus (ram_row s e # rest) ns s) jreq beyond ret (cs_buffer (bd_regs d) + of_nat k) n c b1
        = Inr (c', x, b2)
    \<and> take (unat n) (bytes32 x) = take (unat n) (drop k (file_part d))"
proof -
  let ?bus = "mem_bus (ram_row s e # rest) ns s" and ?A = "cs_buffer (bd_regs d)"
  have ct: "control_thread fs ?bus jreq junk d b = control_read ?bus jreq junk d b"
    using assms(4) by (simp add: control_thread_def block_ops)
  obtain d' b1 es where rd: "control_thread fs ?bus jreq junk d b = Inr (d', b1, es)"
    "mem_bus_inv ns s e b1" "mem_view b1 = stored (unat ?A) (file_part d) (mem_view b)"
    using ram_bus.control_read_ok [OF assms(1,2) tail_fits_simple [OF assms(3)], of rest jreq junk] ct by auto
  have lim: "unat ?A + xfer_size (bd_regs d) + 4 < 2 ^ 32" "unat ?A + xfer_size (bd_regs d) \<le> ram_limit e"
    using assms(2) by (simp_all add: xfer_ok_def)
  have k: "k + unat n \<le> xfer_size (bd_regs d)" using n(2) by (simp add: file_part_def)
  have a: "unat (?A + of_nat k) = unat ?A + k" using lim(1) k by (simp add: unat_word_ariths unat_of_nat)
  obtain c' x b2 where ld: "cpu_load ?bus jreq beyond ret (?A + of_nat k) n c b1 = Inr (c', x, b2)"
    "take (unat n) (bytes32 x) = map (\<lambda>j. mem_view b1 (unat (?A + of_nat k) + j)) [0..<unat n]"
    using ram_bus.cpu_load_ok [OF assms(5) rd(2) n(1) _ assms(8), of rest jreq ret] lim(2) k a by auto
  have "take (unat n) (bytes32 x) = take (unat n) (drop k (file_part d))"
    unfolding ld(2) rd(3) a by (rule nth_equalityI) (use n(2) in \<open>auto simp: stored_def\<close>)
  with rd(1) ld(1) show ?thesis by blast
qed

lemma small_cpu_idle: "cpu_idle small_cpu"
  using small_cpu_lists by (auto simp: cpu_idle_def) (simp add: small_cpu_def)

theorem cpu_store_then_load_witness:
  "\<exists>c1' b1 c2' x b2.
    cpu_store (mem_bus [ram_row 0 64] 1 0) zero_request [0, 0, 0] 12 0xCAFEF00D 4 False small_cpu small_bus
      = Inr (c1', b1)
    \<and> cpu_load (mem_bus [ram_row 0 64] 1 0) zero_request [0, 0, 0] 0 12 4 small_cpu b1 = Inr (c2', x, b2)
    \<and> take 4 (bytes32 x) = [0x0D, 0xF0, 0xFE, 0xCA]"
proof -
  have al: "aligned_access 12 (ucast (4::u8))" by (simp add: aligned_access_def)
  have lim: "unat (12::ulong) + unat (4::u8) \<le> ram_limit 64" by (simp add: ram_limit_def)
  have v: "take 4 (bytes32 0xCAFEF00D) = [0x0D, 0xF0, 0xFE, 0xCA]" by (simp add: bytes32_def drop_bit_eq_div)
  from cpu_store_then_load [OF small_bus_inv small_cpu_idle small_cpu_idle al lim,
      of "[0, 0, 0]" "[]" zero_request "0xCAFEF00D" False 0] v
  show ?thesis by auto
qed

theorem cpu_loads_disk_data_witness:
  "\<exists>d' b1 es c' x b2.
    control_thread (\<lambda>_. None) (mem_bus [ram_row 0 64] 1 0) zero_request 0 (small_disk BLOCK_DEVICE_READ) small_bus
      = Inr (d', b1, es)
    \<and> cpu_load (mem_bus [ram_row 0 64] 1 0) zero_request [0, 0, 0] 0 12 2 small_cpu b1 = Inr (c', x, b2)
    \<and> take 2 (bytes32 x) = [9, 10]"
proof -
  have fp: "file_part (small_disk BLOCK_DEVICE_READ) = [5, 6, 7, 8, 9, 10, 11]"
    by (simp add: small_disk_def file_part_def xfer_size_def xfer_pos_def)
  have al: "aligned_access (cs_buffer (bd_regs (small_disk BLOCK_DEVICE_READ)) + of_nat 4) 2"
    by (simp add: small_disk_def aligned_access_def)
  have len: "4 + unat (2::ulong) \<le> length (file_part (small_disk BLOCK_DEVICE_READ))" by (simp add: fp)
  show ?thesis
    using cpu_loads_disk_data [OF small_bus_inv small_disk_ok _ _ small_cpu_idle al len,
        of "[0, 0, 0]" "\<lambda>_. None" "[]" zero_request 0 0]
    unfolding fp by (fastforce simp: small_disk_def block_master_new_def)
qed

end
