(* ===== verification/Sem_Device.thy ===== *)
theory Sem_Device
  imports Slave_Device Byte_Lanes
begin

text \<open>
  The hardware semaphores (\<^verbatim>\<open>sem/sem_device.cpp\<close>): a small memory in which a 32-bit read
  that finds 0 leaves 1 behind, a test-and-set in one access.
\<close>

record sem_device =
  se_mem :: "u8 list"
  se_size :: ulong

definition sem_device_new :: "ulong \<Rightarrow> sem_device" where
  "sem_device_new sz = (let sz = sz + 8 in \<lparr>se_mem = replicate (unat sz) 0, se_size = sz\<rparr>)"

definition sem_write :: "sem_device \<Rightarrow> ulong \<Rightarrow> u8 \<Rightarrow> u8 list \<Rightarrow> sem_device res" where
  "sem_write d ofs be data =
     (if ofs > se_size d then Inl (Exit 1)
      else (case be_lane be of
        None \<Rightarrow> Inl (Exit 1)
      | Some (l, w) \<Rightarrow>
          if w = 1 \<or> w = 2 then
            bindr (copy_lane (se_mem d) (unat ofs) data 0 l w) (\<lambda>mem. Inr (d\<lparr>se_mem := mem\<rparr>))
          else
            bindr (rd_bytes data (l * 4) 4) (\<lambda>bs.
            let newval = le32 bs in
            bindr (if newval = 1 then
                     bindr (rd_bytes (se_mem d) (unat ofs + l * 4) 4) (\<lambda>old.
                     let oldval = le32 old in
                     if oldval = 1 then Inr 2
                     else if oldval = 2 then Inl (Exit 1)
                     else Inr newval)
                   else Inr newval) (\<lambda>newval.
            bindr (wr_bytes (se_mem d) (unat ofs + l * 4) (bytes32 newval)) (\<lambda>mem.
            Inr (d\<lparr>se_mem := mem\<rparr>))))))"

definition sem_read :: "sem_device \<Rightarrow> ulong \<Rightarrow> u8 \<Rightarrow> u8 list \<Rightarrow> (sem_device \<times> u8 list) res" where
  "sem_read d ofs be data =
     (let data = set_u32 (set_u32 data 0 0) 1 0 in
      if ofs > se_size d then Inl (Exit 1)
      else (case be_lane be of
        None \<Rightarrow> Inl (Exit 1)
      | Some (l, w) \<Rightarrow>
          if w = 1 \<or> w = 2 then
            bindr (copy_lane data 0 (se_mem d) (unat ofs) l w) (\<lambda>data. Inr (d, data))
          else
            bindr (rd_bytes (se_mem d) (unat ofs + l * 4) 4) (\<lambda>bs.
            let val = le32 bs in
            bindr (wr_bytes data (l * 4) (bytes32 (if val = 2 then 1 else val))) (\<lambda>data.
            if val = 0 then
              bindr (wr_bytes (se_mem d) (unat ofs + l * 4) (bytes32 1)) (\<lambda>mem.
              Inr (d\<lparr>se_mem := mem\<rparr>, data))
            else Inr (d, data)))))"

definition sem_rcv_rqst :: "(sem_device, unit) rcv_rqst" where
  "sem_rcv_rqst req d ofs be data bWrite =
     (if bWrite then bindr (sem_write d ofs be data) (\<lambda>d. Inr (d, [], data, False))
      else bindr (sem_read d ofs be data) (\<lambda>(d, data). Inr (d, [], data, False)))"

definition sem_inv :: "sem_device \<Rightarrow> bool" where
  "sem_inv d \<longleftrightarrow> length (se_mem d) = unat (se_size d)"

lemma sem_device_new_inv [simp]: "sem_inv (sem_device_new sz)"
  by (simp add: sem_inv_def sem_device_new_def Let_def)

lemma sem_write_inv: "sem_write d ofs be data = Inr d' \<Longrightarrow> sem_inv d \<Longrightarrow> sem_inv d'"
  by (auto simp: sem_write_def sem_inv_def bindr_eq_Inr Let_def dest!: copy_lane_len wr_bytes_len
      split: if_splits option.splits)

lemma sem_read_inv: "sem_read d ofs be data = Inr (d', data') \<Longrightarrow> sem_inv d \<Longrightarrow> sem_inv d'"
  by (auto simp: sem_read_def sem_inv_def bindr_eq_Inr Let_def dest!: copy_lane_len wr_bytes_len
      split: if_splits option.splits)

lemma sem_read_len:
  "sem_read d ofs be data = Inr (d', data') \<Longrightarrow> length data = 8 \<Longrightarrow> length data' = 8"
  by (auto simp: sem_read_def bindr_eq_Inr Let_def dest!: copy_lane_len wr_bytes_len
      split: if_splits option.splits)

interpretation sem_slave: slave_module sem_rcv_rqst sem_inv
  by unfold_locales
    (auto simp: sem_rcv_rqst_def bindr_eq_Inr dest: sem_write_inv sem_read_inv sem_read_len
      split: if_splits)

subsection \<open>One semaphore\<close>

text \<open>
  A semaphore cell: free (0), taken (1), taken with a waiter (2). The specification of a
  32-bit access to it; a write of 1 to a cell at 2 stops the simulation.
\<close>

definition cell_read :: "u32 \<Rightarrow> u32 \<times> u32" where
  "cell_read c = (if c = 0 then (0, 1) else if c = 2 then (1, 2) else (c, c))"

definition cell_write :: "u32 \<Rightarrow> u32 \<Rightarrow> u32 option" where
  "cell_write c v = (if v = 1 \<and> c = 1 then Some 2 else if v = 1 \<and> c = 2 then None else Some v)"

text \<open>A cell is addressed by an offset and one of the two masks of a 32-bit access.\<close>

definition sem_cell :: "sem_device \<Rightarrow> nat \<Rightarrow> u32" where
  "sem_cell d a = le32 (take 4 (drop a (se_mem d)))"

definition cell_at :: "sem_device \<Rightarrow> ulong \<Rightarrow> u8 \<Rightarrow> nat \<Rightarrow> bool" where
  "cell_at d ofs be a \<longleftrightarrow> ofs \<le> se_size d \<and>
     (be = 0x0F \<and> a = unat ofs \<or> be = 0xF0 \<and> a = unat ofs + 4) \<and> a + 4 \<le> length (se_mem d)"

definition put_cell :: "sem_device \<Rightarrow> nat \<Rightarrow> u32 \<Rightarrow> sem_device" where
  "put_cell d a v = d\<lparr>se_mem := put_bytes (se_mem d) a (bytes32 v)\<rparr>"

lemma sem_cell_put_same: "a + 4 \<le> length (se_mem d) \<Longrightarrow> sem_cell (put_cell d a v) a = v"
  using take_drop_put_bytes [of a "bytes32 v" "se_mem d"] by (simp add: sem_cell_def put_cell_def)

lemma sem_cell_put_other:
  assumes "a + 4 \<le> length (se_mem d)" "b + 4 \<le> a \<or> a + 4 \<le> b" "b + 4 \<le> length (se_mem d)"
  shows "sem_cell (put_cell d a v) b = sem_cell d b"
proof -
  have "wr_bytes (se_mem d) a (bytes32 v) = Inr (se_mem (put_cell d a v))"
    using assms(1) by (simp add: put_cell_def wr_bytes_def)
  from rd_wr_bytes_other [OF this, of b 4] assms show ?thesis
    by (simp add: rd_bytes_def sem_cell_def put_cell_def)
qed

lemma cell_at_put: "cell_at d ofs be a \<Longrightarrow> cell_at (put_cell d a v) ofs be a"
  by (auto simp: cell_at_def put_cell_def)


lemma sem_read_cell:
  assumes c: "cell_at d ofs be a" and l: "length data = 8"
  shows "\<exists>data'. sem_read d ofs be data = Inr (if sem_cell d a = 0 then put_cell d a 1 else d, data')
    \<and> u32_at data' (if be = 0x0F then 0 else 1) = fst (cell_read (sem_cell d a))
    \<and> u32_at data' (if be = 0x0F then 1 else 0) = 0"
proof -
  define k where "k = (if be = (0x0F::u8) then 0 else 1 :: nat)"
  define z where "z = set_u32 (set_u32 data 0 0) 1 0"
  have lz: "length z = 8" using l by (simp add: z_def)
  have lane: "be_lane be = Some (k, 4)" and a: "a = unat ofs + k * 4" and k: "k < 2"
    using c by (auto simp: cell_at_def be_lane_def k_def)
  define v where "v = fst (cell_read (sem_cell d a))"
  have vv: "(if sem_cell d a = 2 then 1 else sem_cell d a) = v" by (auto simp: v_def cell_read_def)
  have w: "wr_bytes z (k * 4) (bytes32 v) = Inr (set_u32 z k v)"
    using lz k by (simp add: wr_bytes_def set_u32_def mult.commute)
  have "u32_at (set_u32 z k v) k = v" "u32_at (set_u32 z k v) (1 - k) = u32_at z (1 - k)"
    using lz k by (auto simp: less_2_cases_iff)
  moreover have "u32_at z (1 - k) = 0" using l k by (auto simp: z_def k_def)
  moreover have "sem_read d ofs be data =
      Inr (if sem_cell d a = 0 then put_cell d a 1 else d, set_u32 z k v)"
  proof -
    define bs where "bs = take 4 (drop a (se_mem d))"
    have r: "rd_bytes (se_mem d) (unat ofs + k * 4) 4 = Inr bs" and o: "\<not> ofs > se_size d"
      using c a by (auto simp: rd_bytes_def bs_def cell_at_def)
    have s: "wr_bytes (se_mem d) (unat ofs + k * 4) (bytes32 1) = Inr (se_mem (put_cell d a 1))"
      using c a by (auto simp: wr_bytes_def put_cell_def cell_at_def)
    have p: "d\<lparr>se_mem := se_mem (put_cell d a 1)\<rparr> = put_cell d a 1" by (simp add: put_cell_def)
    have v: "le32 bs = sem_cell d a" by (simp add: bs_def sem_cell_def)
    show ?thesis
      unfolding sem_read_def z_def [symmetric] Let_def
      by (simp only: o lane option.case prod.case r bindr_simps v vv w s p if_False)
        (simp add: p)
  qed
  ultimately show ?thesis
    unfolding v_def [symmetric]
    by (intro exI [of _ "set_u32 z k v"]) (auto simp: k_def)
qed

lemma sem_write_cell:
  assumes c: "cell_at d ofs be a" and l: "length data = 8"
    and v: "v = u32_at data (if be = 0x0F then 0 else 1)"
  shows "sem_write d ofs be data =
    (case cell_write (sem_cell d a) v of None \<Rightarrow> Inl (Exit 1) | Some c' \<Rightarrow> Inr (put_cell d a c'))"
proof -
  define k where "k = (if be = (0x0F::u8) then 0 else 1 :: nat)"
  have lane: "be_lane be = Some (k, 4)" and a: "a = unat ofs + k * 4" and k: "k < 2"
    using c by (auto simp: cell_at_def be_lane_def k_def)
  have r: "rd_bytes data (k * 4) 4 = Inr (take 4 (drop (4 * k) data))"
    using l k by (simp add: rd_bytes_def mult.commute)
  have v': "v = le32 (take 4 (drop (4 * k) data))"
    using v by (simp add: k_def u32_at_def)
  show ?thesis
    using c lane a r
    by (auto simp: sem_write_def cell_at_def Let_def v' [symmetric] rd_bytes_def sem_cell_def
        wr_bytes_def put_cell_def cell_write_def)
qed

subsection \<open>Mutual exclusion\<close>

datatype sem_op = SemRead | SemWrite u32

text \<open>32-bit accesses to one cell in the order they reach the device, and the values read.\<close>

fun sem_ops :: "sem_device \<Rightarrow> ulong \<Rightarrow> u8 \<Rightarrow> sem_op list \<Rightarrow> (sem_device \<times> u32 list) res" where
  "sem_ops d ofs be [] = Inr (d, [])"
| "sem_ops d ofs be (SemRead # ops) =
     bindr (sem_read d ofs be (replicate 8 0)) (\<lambda>(d, data).
     bindr (sem_ops d ofs be ops) (\<lambda>(d, vs). Inr (d, u32_at data (if be = 0x0F then 0 else 1) # vs)))"
| "sem_ops d ofs be (SemWrite v # ops) =
     bindr (sem_write d ofs be (set_u32 (replicate 8 0) (if be = 0x0F then 0 else 1) v)) (\<lambda>d.
     sem_ops d ofs be ops)"

definition acquired :: "u32 list \<Rightarrow> nat" where
  "acquired vs = length (filter (\<lambda>v. v = 0) vs)"

definition releases :: "sem_op list \<Rightarrow> nat" where
  "releases ops = length (filter (\<lambda>op. op = SemWrite 0) ops)"

lemma cell_len: "cell_at d ofs be a \<Longrightarrow> a + 4 \<le> length (se_mem d)"
  by (simp add: cell_at_def)

lemma sem_ops_count:
  assumes "cell_at d ofs be a" "sem_ops d ofs be ops = Inr (d', vs)"
  shows "acquired vs + (if sem_cell d' a = 0 then 1 else 0)
       \<le> releases ops + (if sem_cell d a = 0 then 1 else 0)"
  using assms
proof (induction ops arbitrary: d vs)
  case Nil
  then show ?case by (simp add: acquired_def releases_def)
next
  case (Cons op ops)
  note c = Cons.prems(1)
  show ?case
  proof (cases op)
    case SemRead
    from sem_read_cell [OF c, of "replicate 8 0"] obtain data where
      r: "sem_read d ofs be (replicate 8 0) = Inr (if sem_cell d a = 0 then put_cell d a 1 else d, data)"
      and v: "u32_at data (if be = 0x0F then 0 else 1) = fst (cell_read (sem_cell d a))" by auto
    let ?d = "if sem_cell d a = 0 then put_cell d a 1 else d"
    from Cons.prems(2) SemRead r v obtain vs1 where
      s: "sem_ops ?d ofs be ops = Inr (d', vs1)" and vs: "vs = fst (cell_read (sem_cell d a)) # vs1"
      by (auto simp: bindr_eq_Inr)
    have "cell_at ?d ofs be a" using c cell_at_put by auto
    from Cons.IH [OF this s] sem_cell_put_same [OF cell_len [OF c], of 1] SemRead vs
    show ?thesis by (auto simp: acquired_def releases_def cell_read_def split: if_splits)
  next
    case (SemWrite v)
    have v: "v = u32_at (set_u32 (replicate 8 0) (if be = 0x0F then 0 else 1) v) (if be = 0x0F then 0 else 1)"
      by simp
    from sem_write_cell [OF c _ v] Cons.prems(2) SemWrite obtain c1 where
      c1: "cell_write (sem_cell d a) v = Some c1" and s: "sem_ops (put_cell d a c1) ofs be ops = Inr (d', vs)"
      by (auto simp: bindr_eq_Inr split: option.splits)
    from Cons.IH [OF cell_at_put [OF c] s] sem_cell_put_same [OF cell_len [OF c], of c1] SemWrite c1
    show ?thesis by (auto simp: releases_def cell_write_def split: if_splits)
  qed
qed

text \<open>
  Claim C9. The semaphore gives mutual exclusion: in any sequence of 32-bit accesses to a cell that
  stands at 1 or 2, at most as many reads return 0 as writes of 0 there are, and one more if
  the cell starts free. So between two reads that find the semaphore free lies a release,
  however the accesses of the processors interleave.
\<close>

theorem sem_mutual_exclusion:
  assumes "cell_at d ofs be a" "sem_ops d ofs be ops = Inr (d', vs)"
  shows "acquired vs \<le> releases ops + (if sem_cell d a = 0 then 1 else 0)"
  using sem_ops_count [OF assms] by simp

theorem sem_mutual_exclusion_witness:
  "\<exists>d'. sem_ops (sem_device_new 16) 8 0xF0
       [SemRead, SemRead, SemWrite 1, SemRead, SemWrite 0, SemRead] = Inr (d', [0, 1, 1, 0])
     \<and> acquired [0, 1, 1, 0] \<le> releases [SemRead, SemRead, SemWrite 1, SemRead, SemWrite 0, SemRead]
          + (if sem_cell (sem_device_new 16) 12 = 0 then 1 else 0)"
proof -
  let ?ops = "[SemRead, SemRead, SemWrite 1, SemRead, SemWrite 0, SemRead]"
  let ?r = "sem_ops (sem_device_new 16) 8 0xF0 ?ops"
  have "(case ?r of Inr (d', vs) \<Rightarrow> vs = [0, 1, 1, 0] | Inl _ \<Rightarrow> False)" by code_simp
  then obtain d' where r: "?r = Inr (d', [0, 1, 1, 0])" by (auto split: sum.splits)
  have "cell_at (sem_device_new 16) 8 0xF0 12" by code_simp
  from sem_mutual_exclusion [OF this r] r show ?thesis by blast
qed

text \<open>
  Exact effect of a 32-bit access on a cell: a read returns 0 and takes the cell if it was
  free, returns 1 for both taken states and changes nothing else; a write of 1 to a taken
  cell records the waiter, a second one stops the simulation, any other value is stored.
\<close>

theorem sem_access_refines_cell:
  assumes "cell_at d ofs be a" "length data = 8"
  shows "(\<exists>data'. sem_read d ofs be data = Inr (if sem_cell d a = 0 then put_cell d a 1 else d, data')
      \<and> u32_at data' (if be = 0x0F then 0 else 1) = fst (cell_read (sem_cell d a))
      \<and> u32_at data' (if be = 0x0F then 1 else 0) = 0)
    \<and> sem_write d ofs be data =
      (case cell_write (sem_cell d a) (u32_at data (if be = 0x0F then 0 else 1)) of
         None \<Rightarrow> Inl (Exit 1) | Some c' \<Rightarrow> Inr (put_cell d a c'))"
  using sem_read_cell [OF assms] sem_write_cell [OF assms refl] by simp

theorem sem_access_refines_cell_witness:
  "sem_write (sem_device_new 16) 8 0x0F [1, 0, 0, 0, 9, 9, 9, 9] =
      (case cell_write (sem_cell (sem_device_new 16) 8) (u32_at [1, 0, 0, 0, 9, 9, 9, 9] 0) of
         None \<Rightarrow> Inl (Exit 1) | Some c' \<Rightarrow> Inr (put_cell (sem_device_new 16) 8 c'))"
proof -
  have "cell_at (sem_device_new 16) 8 0x0F 8" by code_simp
  from sem_access_refines_cell [OF this, of "[1, 0, 0, 0, 9, 9, 9, 9]"] show ?thesis by simp
qed

end
