(* ===== verification/Aicu_Device.thy ===== *)
theory Aicu_Device
  imports Slave_Device Byte_Lanes
begin

text \<open>
  The interrupt controller (\<^verbatim>\<open>aicu/aicu_device.cpp\<close>): \<open>O\<close> outputs, one per processor,
  each with \<open>L\<close> inputs of its own and \<open>G\<close> inputs it shares with the others, and for each
  output a status, a mask and the interrupt it currently reports.
\<close>

definition AICU_CTRL :: ulong where "AICU_CTRL = 0"
definition AICU_HANDLER0 :: ulong where "AICU_HANDLER0 = 4"
definition AICU_HANDLER31 :: ulong where "AICU_HANDLER31 = 35"
definition AICU_LOCAL :: ulong where "AICU_LOCAL = 64"
definition AICU_STAT :: ulong where "AICU_STAT = 0"
definition AICU_MASK :: ulong where "AICU_MASK = 1"
definition AICU_ADDR :: ulong where "AICU_ADDR = 2"
definition AICU_IRQ :: ulong where "AICU_IRQ = 3"
definition AICU_SPAN :: ulong where "AICU_SPAN = 4"

lemmas aicu_regs [reg_defs] = AICU_CTRL_def AICU_HANDLER0_def AICU_HANDLER31_def AICU_LOCAL_def
  AICU_STAT_def AICU_MASK_def AICU_ADDR_def AICU_IRQ_def AICU_SPAN_def

record aicu_device =
  ai_O :: nat
  ai_G :: nat
  ai_L :: nat
  ai_control :: u32
  ai_handlers :: "u32 list"
  ai_stat :: "u32 list"
  ai_mask :: "u32 list"
  ai_crt_irq :: "u32 list"

datatype aicu_event = IrqUpdate

definition aicu_reset_registers :: "aicu_device \<Rightarrow> aicu_device" where
  "aicu_reset_registers a = a\<lparr>ai_handlers := replicate (ai_G a + ai_L a) 0,
     ai_stat := replicate (ai_O a) 0, ai_mask := replicate (ai_O a) 0,
     ai_crt_irq := replicate (ai_O a) 0\<rparr>"

definition aicu_device_new :: "nat \<Rightarrow> nat \<Rightarrow> nat \<Rightarrow> aicu_device res" where
  "aicu_device_new nb_out nb_global_in nb_local_in =
     (if nb_global_in + nb_local_in > 32 then Inl (Exit 1)
      else Inr (aicu_reset_registers \<lparr>ai_O = nb_out, ai_G = nb_global_in, ai_L = nb_local_in,
        ai_control = 0, ai_handlers = [], ai_stat = [], ai_mask = [], ai_crt_irq = []\<rparr>))"

definition is_handler :: "aicu_device \<Rightarrow> ulong \<Rightarrow> bool" where
  "is_handler a ofs \<longleftrightarrow> AICU_HANDLER0 \<le> ofs \<and> ofs \<le> AICU_HANDLER31
     \<and> unat (ofs - AICU_HANDLER0) < ai_L a + ai_G a"

definition aicu_write :: "aicu_device \<Rightarrow> ulong \<Rightarrow> u8 \<Rightarrow> u8 list \<Rightarrow> (aicu_device \<times> aicu_event list) res" where
  "aicu_write a ofs be data =
     (let ofs = reg_index ofs be; val = reg_word data be in
      if ofs < AICU_LOCAL then
        if ofs = AICU_CTRL then
          let a = (if (ai_control a XOR val) AND 1 \<noteq> 0 then aicu_reset_registers a else a)
          in Inr (a\<lparr>ai_control := val\<rparr>, [])
        else if is_handler a ofs then
          bindr (wr (ai_handlers a) (unat (ofs - AICU_HANDLER0)) val) (\<lambda>h.
          Inr (a\<lparr>ai_handlers := h\<rparr>, []))
        else Inl (Exit 1)
      else
        let nb_icu = unat ((ofs - AICU_LOCAL) div AICU_SPAN);
            lcl_ofs = (ofs - AICU_LOCAL) mod AICU_SPAN
        in if nb_icu \<ge> ai_O a then Inl (Exit 1)
           else if lcl_ofs = AICU_STAT then
             bindr (rd (ai_stat a) nb_icu) (\<lambda>s.
             bindr (wr (ai_stat a) nb_icu (s AND NOT val)) (\<lambda>st.
             Inr (a\<lparr>ai_stat := st\<rparr>, [IrqUpdate])))
           else if lcl_ofs = AICU_MASK then
             bindr (wr (ai_mask a) nb_icu val) (\<lambda>m. Inr (a\<lparr>ai_mask := m\<rparr>, [IrqUpdate]))
           else Inl (Exit 1))"

definition aicu_read :: "aicu_device \<Rightarrow> ulong \<Rightarrow> u8 \<Rightarrow> (aicu_device \<times> aicu_event list \<times> u32) res" where
  "aicu_read a ofs be =
     (let ofs = reg_index ofs be in
      if ofs < AICU_LOCAL then
        if ofs = AICU_CTRL then Inr (a, [], ai_control a)
        else if is_handler a ofs then
          bindr (rd (ai_handlers a) (unat (ofs - AICU_HANDLER0))) (\<lambda>h. Inr (a, [], h))
        else Inl (Exit 1)
      else
        let nb_icu = unat ((ofs - AICU_LOCAL) div AICU_SPAN);
            lcl_ofs = (ofs - AICU_LOCAL) mod AICU_SPAN
        in if nb_icu \<ge> ai_O a then Inl (Exit 1)
           else if lcl_ofs = AICU_STAT then bindr (rd (ai_stat a) nb_icu) (\<lambda>s. Inr (a, [], s))
           else if lcl_ofs = AICU_MASK then bindr (rd (ai_mask a) nb_icu) (\<lambda>m. Inr (a, [], m))
           else if lcl_ofs = AICU_ADDR then
             bindr (rd (ai_crt_irq a) nb_icu) (\<lambda>crt.
             bindr (rd (ai_handlers a) (unat crt)) (\<lambda>h.
             bindr (rd (ai_stat a) nb_icu) (\<lambda>s.
             bindr (wr (ai_stat a) nb_icu (s AND NOT (push_bit (unat crt) 1))) (\<lambda>st.
             Inr (a\<lparr>ai_stat := st\<rparr>, [IrqUpdate], h)))))
           else bindr (rd (ai_crt_irq a) nb_icu) (\<lambda>c. Inr (a, [], c)))"

definition aicu_rcv_rqst :: "(aicu_device, aicu_event) rcv_rqst" where
  "aicu_rcv_rqst req a ofs be data bWrite =
     (if bWrite then bindr (aicu_write a ofs be data) (\<lambda>(a, es). Inr (a, es, data, False))
      else bindr (aicu_read a ofs be) (\<lambda>(a, es, v). Inr (a, es, put_reg_word data be v, False)))"

subsection \<open>The interrupt thread\<close>

datatype edge = PosEdge | NegEdge | NoEdge

definition ind_in :: "aicu_device \<Rightarrow> nat \<Rightarrow> nat \<Rightarrow> nat" where
  "ind_in a i j = (if j < ai_L a then ai_O a * j + i else ai_O a * ai_L a + (j - ai_L a))"

text \<open>First inner loop: the edges seen in this delta cycle, for output \<open>i\<close>, inputs \<open>js\<close>.\<close>

fun latch_edges :: "aicu_device \<Rightarrow> edge list \<Rightarrow> nat \<Rightarrow> nat list \<Rightarrow> u32 \<Rightarrow> u32 res" where
  "latch_edges a edges i [] s = Inr s"
| "latch_edges a edges i (j # js) s =
     bindr (rd edges (ind_in a i j)) (\<lambda>e.
     latch_edges a edges i js
       (case e of PosEdge \<Rightarrow> s OR push_bit j 1 | NegEdge \<Rightarrow> s AND NOT (push_bit j 1) | NoEdge \<Rightarrow> s))"

text \<open>Second inner loop: the first enabled pending interrupt, else the old value.\<close>

fun first_irq :: "u32 \<Rightarrow> nat list \<Rightarrow> u32 \<Rightarrow> u32" where
  "first_irq sm [] crt = crt"
| "first_irq sm (j # js) crt = (if sm AND push_bit j 1 \<noteq> 0 then of_nat j else first_irq sm js crt)"

definition update_output :: "edge list \<Rightarrow> nat \<Rightarrow> aicu_device \<Rightarrow> (aicu_device \<times> bool) res" where
  "update_output edges i a =
     (let js = [0..<ai_L a + ai_G a] in
      bindr (rd (ai_stat a) i) (\<lambda>s.
      bindr (latch_edges a edges i js s) (\<lambda>s.
      bindr (wr (ai_stat a) i s) (\<lambda>st.
      bindr (rd (ai_mask a) i) (\<lambda>m.
      bindr (rd (ai_crt_irq a) i) (\<lambda>crt.
      bindr (wr (ai_crt_irq a) i (first_irq (s AND m) js crt)) (\<lambda>ci.
      Inr (a\<lparr>ai_stat := st, ai_crt_irq := ci\<rparr>, s AND m \<noteq> 0))))))))"

fun update_outputs :: "edge list \<Rightarrow> nat list \<Rightarrow> aicu_device \<Rightarrow> (aicu_device \<times> bool list) res" where
  "update_outputs edges [] a = Inr (a, [])"
| "update_outputs edges (i # is) a =
     bindr (update_output edges i a) (\<lambda>(a, b).
     bindr (update_outputs edges is a) (\<lambda>(a, bs). Inr (a, b # bs)))"

text \<open>
  One iteration of \<open>irq_update_thread\<close>, woken with the edges of all inputs (\<open>sc_in::posedge\<close>
  and \<open>negedge\<close> hold in the delta cycle of the change): the values given to the outputs,
  \<open>None\<close> when the controller is off and they are left as they are.
\<close>

definition irq_update_thread :: "edge list \<Rightarrow> aicu_device \<Rightarrow> (aicu_device \<times> bool list option) res" where
  "irq_update_thread edges a =
     (if ai_control a AND 1 = 0 then Inr (a, None)
      else bindr (update_outputs edges [0..<ai_O a] a) (\<lambda>(a, bs). Inr (a, Some bs)))"

definition aicu_inputs :: "aicu_device \<Rightarrow> nat" where
  "aicu_inputs a = ai_G a + ai_O a * ai_L a"

subsection \<open>Invariant\<close>

text \<open>Status bits and the reported interrupt stay below the number of inputs of an output.\<close>

definition aicu_inv :: "aicu_device \<Rightarrow> bool" where
  "aicu_inv a \<longleftrightarrow> 0 < ai_L a + ai_G a \<and> ai_L a + ai_G a \<le> 32
     \<and> length (ai_handlers a) = ai_G a + ai_L a \<and> length (ai_stat a) = ai_O a
     \<and> length (ai_mask a) = ai_O a \<and> length (ai_crt_irq a) = ai_O a
     \<and> (\<forall>c\<in>set (ai_crt_irq a). unat c < ai_L a + ai_G a)
     \<and> (\<forall>s\<in>set (ai_stat a). \<forall>j. bit s j \<longrightarrow> j < ai_L a + ai_G a)"

lemma aicu_reset_inv: "aicu_inv a \<Longrightarrow> aicu_inv (aicu_reset_registers a)"
  by (auto simp: aicu_inv_def aicu_reset_registers_def)

lemma aicu_new_inv:
  "aicu_device_new out g l = Inr a \<Longrightarrow> 0 < g + l \<Longrightarrow> aicu_inv a"
  by (auto simp: aicu_device_new_def aicu_inv_def aicu_reset_registers_def split: if_splits)

lemma aicu_inv_stat_update:
  assumes "aicu_inv a" "\<And>j. bit s j \<Longrightarrow> j < ai_L a + ai_G a"
  shows "aicu_inv (a\<lparr>ai_stat := (ai_stat a)[i := s]\<rparr>)"
  using assms by (auto simp: aicu_inv_def dest!: set_update_subset_insert [THEN subsetD])

lemma aicu_inv_crt_update:
  "aicu_inv a \<Longrightarrow> unat c < ai_L a + ai_G a \<Longrightarrow> aicu_inv (a\<lparr>ai_crt_irq := (ai_crt_irq a)[i := c]\<rparr>)"
  by (auto simp: aicu_inv_def dest!: set_update_subset_insert [THEN subsetD])

lemma aicu_inv_stat_bit:
  "aicu_inv a \<Longrightarrow> i < ai_O a \<Longrightarrow> bit (ai_stat a ! i) j \<Longrightarrow> j < ai_L a + ai_G a"
  by (auto simp: aicu_inv_def)

lemma aicu_inv_crt: "aicu_inv a \<Longrightarrow> i < ai_O a \<Longrightarrow> unat (ai_crt_irq a ! i) < ai_L a + ai_G a"
  by (auto simp: aicu_inv_def)

lemma aicu_write_inv:
  assumes "aicu_write a ofs be data = Inr (a', es)" "aicu_inv a"
  shows "aicu_inv a'"
proof -
  have c: "aicu_inv (a\<lparr>ai_control := v\<rparr>)" "aicu_inv (aicu_reset_registers a\<lparr>ai_control := v\<rparr>)" for v
    using assms(2) aicu_reset_inv [OF assms(2)] by (simp_all add: aicu_inv_def)
  have h: "aicu_inv (a\<lparr>ai_handlers := (ai_handlers a)[k := v]\<rparr>)" for k v
    using assms(2) by (simp add: aicu_inv_def)
  have m: "aicu_inv (a\<lparr>ai_mask := (ai_mask a)[k := v]\<rparr>)" for k v
    using assms(2) by (simp add: aicu_inv_def)
  have s: "aicu_inv (a\<lparr>ai_stat := (ai_stat a)[k := ai_stat a ! k AND v]\<rparr>)" if "k < ai_O a" for k v
    by (rule aicu_inv_stat_update [OF assms(2)])
      (use aicu_inv_stat_bit [OF assms(2) that] in \<open>simp add: bit_simps\<close>)
  from assms(1) c h m s show ?thesis
    by (auto simp: aicu_write_def Let_def bindr_eq_Inr wr_eq_Inr rd_eq_Inr split: if_splits)
qed

lemma aicu_read_inv:
  assumes "aicu_read a ofs be = Inr (a', es, v)" "aicu_inv a"
  shows "aicu_inv a'"
proof -
  have s: "aicu_inv (a\<lparr>ai_stat := (ai_stat a)[k := ai_stat a ! k AND v]\<rparr>)" if "k < ai_O a" for k v
    by (rule aicu_inv_stat_update [OF assms(2)])
      (use aicu_inv_stat_bit [OF assms(2) that] in \<open>simp add: bit_simps\<close>)
  from assms(1,2) s show ?thesis
    by (auto simp: aicu_read_def Let_def bindr_eq_Inr wr_eq_Inr rd_eq_Inr split: if_splits)
qed

interpretation aicu_slave: slave_module aicu_rcv_rqst aicu_inv
  by unfold_locales
    (auto simp: aicu_rcv_rqst_def bindr_eq_Inr dest: aicu_write_inv aicu_read_inv split: if_splits)

subsection \<open>One pass of the thread\<close>

lemma ind_in_bound:
  assumes "i < ai_O a" "j < ai_L a + ai_G a"
  shows "ind_in a i j < aicu_inputs a"
proof (cases "j < ai_L a")
  case True
  then have "ai_O a * j + ai_O a \<le> ai_O a * ai_L a"
    by (metis Suc_leI mult_Suc_right mult_le_mono2 add.commute)
  then show ?thesis using assms True by (simp add: ind_in_def aicu_inputs_def)
next
  case False
  then show ?thesis using assms by (simp add: ind_in_def aicu_inputs_def)
qed

definition edge_bit :: "edge \<Rightarrow> bool \<Rightarrow> bool" where
  "edge_bit e b = (case e of PosEdge \<Rightarrow> True | NegEdge \<Rightarrow> False | NoEdge \<Rightarrow> b)"

lemma bit_set_clear:
  fixes s :: u32
  shows "j < 32 \<Longrightarrow> bit (s OR push_bit j 1) k \<longleftrightarrow> k = j \<or> bit s k"
    and "j < 32 \<Longrightarrow> bit (s AND NOT (push_bit j 1)) k \<longleftrightarrow> k \<noteq> j \<and> bit s k"
  by (auto simp: bit_simps dest: bit_imp_le_length)

lemma latch_edges_spec:
  assumes "distinct js" "\<forall>j\<in>set js. j < 32 \<and> ind_in a i j < length edges"
  shows "\<exists>s'. latch_edges a edges i js s = Inr s'
    \<and> (\<forall>k. bit s' k \<longleftrightarrow> (if k \<in> set js then edge_bit (edges ! ind_in a i k) (bit s k) else bit s k))"
  using assms
proof (induction js arbitrary: s)
  case Nil
  then show ?case by simp
next
  case (Cons j js)
  define s1 where "s1 = (case edges ! ind_in a i j of PosEdge \<Rightarrow> s OR push_bit j 1
    | NegEdge \<Rightarrow> s AND NOT (push_bit j 1) | NoEdge \<Rightarrow> s)"
  have b: "bit s1 k \<longleftrightarrow> (if k = j then edge_bit (edges ! ind_in a i j) (bit s k) else bit s k)" for k
    using Cons.prems bit_set_clear [of j s k]
    by (auto simp: s1_def edge_bit_def split: edge.splits)
  from Cons.IH [of s1] Cons.prems obtain s' where s': "latch_edges a edges i js s1 = Inr s'"
    and k: "\<forall>k. bit s' k \<longleftrightarrow> (if k \<in> set js then edge_bit (edges ! ind_in a i k) (bit s1 k) else bit s1 k)"
    by auto
  have "latch_edges a edges i (j # js) s = Inr s'" using Cons.prems s' by (simp add: s1_def)
  moreover have "\<forall>k. bit s' k \<longleftrightarrow>
      (if k \<in> set (j # js) then edge_bit (edges ! ind_in a i k) (bit s k) else bit s k)"
    using k b Cons.prems(1) by auto
  ultimately show ?case by blast
qed

lemma first_irq_filter:
  "first_irq sm js crt = (case filter (bit sm) js of [] \<Rightarrow> crt | j # _ \<Rightarrow> of_nat j)"
  by (induction js) (auto simp: and_exp_iff)

text \<open>The interrupts of output \<open>i\<close> that are pending and enabled, lowest first.\<close>

definition pending :: "aicu_device \<Rightarrow> nat \<Rightarrow> nat list" where
  "pending a i = filter (bit (ai_stat a ! i AND ai_mask a ! i)) [0..<ai_L a + ai_G a]"

lemma pending_empty_iff:
  assumes "aicu_inv a" "i < ai_O a"
  shows "pending a i = [] \<longleftrightarrow> ai_stat a ! i AND ai_mask a ! i = 0"
proof
  assume "pending a i = []"
  then have "\<not> bit (ai_stat a ! i AND ai_mask a ! i) j" for j
    using aicu_inv_stat_bit [OF assms, of j] by (auto simp: pending_def filter_empty_conv bit_and_iff)
  then show "ai_stat a ! i AND ai_mask a ! i = 0" by (intro bit_eqI) simp
qed (simp add: pending_def)

text \<open>What a pass does to one output.\<close>

definition output_done :: "edge list \<Rightarrow> aicu_device \<Rightarrow> nat \<Rightarrow> aicu_device \<Rightarrow> bool \<Rightarrow> bool" where
  "output_done edges a i a' b \<longleftrightarrow>
     (\<forall>j < ai_L a + ai_G a. bit (ai_stat a' ! i) j
        \<longleftrightarrow> edge_bit (edges ! ind_in a i j) (bit (ai_stat a ! i) j))
     \<and> b = (pending a' i \<noteq> [])
     \<and> ai_crt_irq a' ! i = (case pending a' i of [] \<Rightarrow> ai_crt_irq a ! i | j # _ \<Rightarrow> of_nat j)"

definition same_setup :: "aicu_device \<Rightarrow> aicu_device \<Rightarrow> bool" where
  "same_setup a a' \<longleftrightarrow> ai_O a' = ai_O a \<and> ai_G a' = ai_G a \<and> ai_L a' = ai_L a
     \<and> ai_control a' = ai_control a \<and> ai_handlers a' = ai_handlers a \<and> ai_mask a' = ai_mask a"

lemma update_output_spec:
  assumes v: "aicu_inv a" and i: "i < ai_O a" and e: "length edges = aicu_inputs a"
  shows "\<exists>a' b. update_output edges i a = Inr (a', b) \<and> aicu_inv a' \<and> same_setup a a'
    \<and> output_done edges a i a' b
    \<and> (\<forall>k < ai_O a. k \<noteq> i \<longrightarrow> ai_stat a' ! k = ai_stat a ! k \<and> ai_crt_irq a' ! k = ai_crt_irq a ! k)"
proof -
  define n where "n = ai_L a + ai_G a"
  have n: "0 < n" "n \<le> 32" using v by (simp_all add: n_def aicu_inv_def)
  have l: "length (ai_stat a) = ai_O a" "length (ai_mask a) = ai_O a" "length (ai_crt_irq a) = ai_O a"
    using v by (simp_all add: aicu_inv_def)
  have "\<forall>j\<in>set [0..<n]. j < 32 \<and> ind_in a i j < length edges"
    using n(2) ind_in_bound [OF i] e by (auto simp: n_def)
  from latch_edges_spec [OF _ this, of "ai_stat a ! i"] obtain s' where
    s': "latch_edges a edges i [0..<n] (ai_stat a ! i) = Inr s'"
    and b: "bit s' k \<longleftrightarrow> (if k < n then edge_bit (edges ! ind_in a i k) (bit (ai_stat a ! i) k)
             else bit (ai_stat a ! i) k)" for k by auto
  define c' where "c' = first_irq (s' AND ai_mask a ! i) [0..<n] (ai_crt_irq a ! i)"
  define a' where "a' = a\<lparr>ai_stat := (ai_stat a)[i := s'], ai_crt_irq := (ai_crt_irq a)[i := c']\<rparr>"
  have u: "update_output edges i a = Inr (a', s' AND ai_mask a ! i \<noteq> 0)"
    using s' i l by (simp add: update_output_def a'_def c'_def n_def Let_def)
  have p: "pending a' i = filter (bit (s' AND ai_mask a ! i)) [0..<n]"
    using i l by (simp add: pending_def a'_def n_def)
  have c: "c' = (case pending a' i of [] \<Rightarrow> ai_crt_irq a ! i | j # _ \<Rightarrow> of_nat j)"
    by (simp add: c'_def first_irq_filter p)
  have "\<forall>j\<in>set (pending a' i). j < n" by (auto simp: p)
  then have cb: "unat c' < n"
    using n aicu_inv_crt [OF v i]
    by (auto simp: c n_def unat_of_nat take_bit_eq_mod split: list.splits)
  have sb: "bit s' j \<Longrightarrow> j < n" for j
    using b [of j] aicu_inv_stat_bit [OF v i, of j] by (auto simp: n_def split: if_splits)
  have v': "aicu_inv a'"
    using aicu_inv_crt_update [OF aicu_inv_stat_update [OF v, of s' i], of c' i] cb sb
    by (simp add: a'_def n_def)
  have p0: "pending a' i \<noteq> [] \<longleftrightarrow> s' AND ai_mask a ! i \<noteq> 0"
    using pending_empty_iff [OF v', of i] i l by (simp add: a'_def)
  have at: "ai_stat a' ! i = s'" "ai_crt_irq a' ! i = c'" using i l by (simp_all add: a'_def)
  have "output_done edges a i a' (s' AND ai_mask a ! i \<noteq> 0)"
    unfolding output_done_def at p0 n_def [symmetric] using b c by simp
  then show ?thesis using u v' by (auto simp: same_setup_def a'_def)
qed

lemma same_setup_trans: "same_setup a b \<Longrightarrow> same_setup b c \<Longrightarrow> same_setup a c"
  by (simp add: same_setup_def)

lemma update_outputs_spec:
  assumes "aicu_inv a" "\<forall>i\<in>set is. i < ai_O a" "distinct is" "length edges = aicu_inputs a"
  shows "\<exists>a' bs. update_outputs edges is a = Inr (a', bs) \<and> aicu_inv a' \<and> same_setup a a'
    \<and> length bs = length is \<and> (\<forall>k < length is. output_done edges a (is ! k) a' (bs ! k))
    \<and> (\<forall>k < ai_O a. k \<notin> set is \<longrightarrow> ai_stat a' ! k = ai_stat a ! k \<and> ai_crt_irq a' ! k = ai_crt_irq a ! k)"
  using assms
proof (induction "is" arbitrary: a)
  case Nil
  then show ?case by (simp add: same_setup_def)
next
  case (Cons i js)
  from update_output_spec [OF Cons.prems(1) _ Cons.prems(4), of i] Cons.prems(2) obtain a1 b where
    1: "update_output edges i a = Inr (a1, b)" "aicu_inv a1" "same_setup a a1" "output_done edges a i a1 b"
    and k1: "\<forall>k < ai_O a. k \<noteq> i \<longrightarrow> ai_stat a1 ! k = ai_stat a ! k \<and> ai_crt_irq a1 ! k = ai_crt_irq a ! k"
    by auto
  have "length edges = aicu_inputs a1" using Cons.prems(4) 1(3) by (simp add: same_setup_def aicu_inputs_def)
  moreover have "\<forall>i\<in>set js. i < ai_O a1" using Cons.prems(2) 1(3) by (simp add: same_setup_def)
  ultimately obtain a2 bs where
    2: "update_outputs edges js a1 = Inr (a2, bs)" "aicu_inv a2" "same_setup a1 a2" "length bs = length js"
      "\<forall>k < length js. output_done edges a1 (js ! k) a2 (bs ! k)"
    and k2: "\<forall>k < ai_O a1. k \<notin> set js \<longrightarrow> ai_stat a2 ! k = ai_stat a1 ! k \<and> ai_crt_irq a2 ! k = ai_crt_irq a1 ! k"
    using Cons.IH [OF 1(2)] Cons.prems(3) by auto
  note s = 1(3) 2(3) [unfolded same_setup_def]
  have i: "i < ai_O a1" "i \<notin> set js" using Cons.prems 1(3) by (auto simp: same_setup_def)
  then have "ai_stat a2 ! i = ai_stat a1 ! i" "ai_crt_irq a2 ! i = ai_crt_irq a1 ! i" using k2 by auto
  then have "output_done edges a i a2 b" using 1(4) s
    by (simp add: output_done_def pending_def same_setup_def)
  moreover have "output_done edges a (js ! k) a2 (bs ! k)" if "k < length js" for k
  proof -
    from that have m: "js ! k \<in> set js" by simp
    then have "js ! k \<noteq> i" "js ! k < ai_O a" using Cons.prems by auto
    with k1 have "ai_stat a1 ! (js ! k) = ai_stat a ! (js ! k)" "ai_crt_irq a1 ! (js ! k) = ai_crt_irq a ! (js ! k)"
      by auto
    then show ?thesis using 2(5) that 1(3)
      by (simp add: output_done_def same_setup_def ind_in_def split: list.split)
  qed
  ultimately have "\<forall>k < length (i # js). output_done edges a ((i # js) ! k) a2 ((b # bs) ! k)"
    by (auto simp: less_Suc_eq_0_disj)
  moreover have "\<forall>k < ai_O a. k \<notin> set (i # js) \<longrightarrow>
      ai_stat a2 ! k = ai_stat a ! k \<and> ai_crt_irq a2 ! k = ai_crt_irq a ! k"
    using k1 k2 1(3) by (simp add: same_setup_def)
  ultimately show ?case
    using 1(1) 2(1,2,4) same_setup_trans [OF 1(3) 2(3)] by (intro exI [of _ a2] exI [of _ "b # bs"]) simp
qed

text \<open>
  One pass of the interrupt thread, with the controller on: it never reads outside the
  input array, each status bit is set by a rising edge of its input, cleared by a falling
  one and kept otherwise, each output line is high iff some enabled interrupt is pending,
  and then the reported interrupt is the lowest one.
\<close>

theorem aicu_update_pass:
  assumes "aicu_inv a" "ai_control a AND 1 \<noteq> 0" "length edges = aicu_inputs a"
  shows "\<exists>a' bs. irq_update_thread edges a = Inr (a', Some bs) \<and> aicu_inv a' \<and> same_setup a a'
    \<and> length bs = ai_O a \<and> (\<forall>i < ai_O a. output_done edges a i a' (bs ! i))"
proof -
  from update_outputs_spec [OF assms(1) _ _ assms(3), of "[0..<ai_O a]"] obtain a' bs where
    "update_outputs edges [0..<ai_O a] a = Inr (a', bs)" "aicu_inv a'" "same_setup a a'"
    "length bs = ai_O a" "\<forall>k < ai_O a. output_done edges a ([0..<ai_O a] ! k) a' (bs ! k)"
    by auto
  with assms(2) show ?thesis by (auto simp: irq_update_thread_def)
qed

definition small_aicu :: aicu_device where
  "small_aicu = \<lparr>ai_O = 2, ai_G = 1, ai_L = 2, ai_control = 1, ai_handlers = [0xA0, 0xA1, 0xA2],
     ai_stat = [0, 3], ai_mask = [7, 7], ai_crt_irq = [0, 0]\<rparr>"

lemma small_aicu_inv: "aicu_inv small_aicu"
proof -
  have e: "(3::32 word) = mask 2" by (simp add: mask_eq_decr_exp)
  have "j < 3" if "bit (3::32 word) j" for j
    using that unfolding e by (simp only: bit_mask_iff) simp
  then show ?thesis by (simp add: aicu_inv_def small_aicu_def)
qed

theorem aicu_update_pass_witness:
  "\<exists>a' bs. irq_update_thread [PosEdge, NoEdge, NoEdge, NegEdge, PosEdge] small_aicu = Inr (a', Some bs)
    \<and> aicu_inv a' \<and> same_setup small_aicu a' \<and> length bs = ai_O small_aicu
    \<and> (\<forall>i < ai_O small_aicu. output_done [PosEdge, NoEdge, NoEdge, NegEdge, PosEdge] small_aicu i a' (bs ! i))"
  by (rule aicu_update_pass [OF small_aicu_inv]) (simp_all add: small_aicu_def aicu_inputs_def)

subsection \<open>Serving the interrupts of one processor\<close>

definition quiet :: "aicu_device \<Rightarrow> edge list" where
  "quiet a = replicate (aicu_inputs a) NoEdge"

text \<open>The byte offset of \<open>AICU_ADDR\<close> of output \<open>i\<close>.\<close>

definition aicu_addr_ofs :: "nat \<Rightarrow> ulong" where
  "aicu_addr_ofs i = of_nat (0x108 + 0x10 * i)"

text \<open>The handler loop of a processor: wait for the thread, read \<open>AICU_ADDR\<close>, \<open>n\<close> times.\<close>

fun aicu_serve :: "nat \<Rightarrow> nat \<Rightarrow> aicu_device \<Rightarrow> (aicu_device \<times> u32 list) res" where
  "aicu_serve 0 i a = Inr (a, [])"
| "aicu_serve (Suc n) i a =
     bindr (irq_update_thread (quiet a) a) (\<lambda>(a, bs).
     bindr (aicu_read a (aicu_addr_ofs i) 0x0F) (\<lambda>(a, es, h).
     bindr (aicu_serve n i a) (\<lambda>(a, hs). Inr (a, h # hs))))"

lemma aicu_addr_decode:
  assumes "i < 1000"
  shows "unat (reg_index (aicu_addr_ofs i) 0x0F) = 66 + 4 * i"
    "unat ((reg_index (aicu_addr_ofs i) 0x0F - AICU_LOCAL) div AICU_SPAN) = i"
    "(reg_index (aicu_addr_ofs i) 0x0F - AICU_LOCAL) mod AICU_SPAN = AICU_ADDR"
    "\<not> reg_index (aicu_addr_ofs i) 0x0F < AICU_LOCAL"
proof -
  have "unat (aicu_addr_ofs i) = 264 + 16 * i"
    unfolding aicu_addr_ofs_def unat_of_nat using assms by simp
  then show r: "unat (reg_index (aicu_addr_ofs i) 0x0F) = 66 + 4 * i"
    by (simp add: reg_index_def drop_bit_eq_div unat_div)
  let ?r = "reg_index (aicu_addr_ofs i) 0x0F"
  show "\<not> ?r < AICU_LOCAL" using r by (simp add: word_less_nat_alt AICU_LOCAL_def)
  then have "AICU_LOCAL \<le> ?r" by simp
  from unat_sub [OF this] r have s: "unat (?r - AICU_LOCAL) = 2 + 4 * i" by (simp add: AICU_LOCAL_def)
  then show "unat ((?r - AICU_LOCAL) div AICU_SPAN) = i"
    by (simp add: unat_div AICU_SPAN_def)
  have "unat ((?r - AICU_LOCAL) mod AICU_SPAN) = unat AICU_ADDR"
    unfolding unat_mod s by (simp add: AICU_SPAN_def AICU_ADDR_def) presburger
  then show "(?r - AICU_LOCAL) mod AICU_SPAN = AICU_ADDR" by (simp only: unsigned_word_eqI)
qed

lemma aicu_read_addr:
  assumes "aicu_inv a" "i < ai_O a" "i < 1000"
  shows "aicu_read a (aicu_addr_ofs i) 0x0F =
    Inr (a\<lparr>ai_stat := (ai_stat a)[i := ai_stat a ! i AND NOT (push_bit (unat (ai_crt_irq a ! i)) 1)]\<rparr>,
         [IrqUpdate], ai_handlers a ! unat (ai_crt_irq a ! i))"
  using assms aicu_inv_crt [OF assms(1,2)] aicu_addr_decode [OF assms(3)]
  by (simp add: aicu_read_def Let_def aicu_inv_def AICU_STAT_def AICU_MASK_def AICU_ADDR_def add.commute)

lemma quiet_update:
  assumes v: "aicu_inv a" and on: "ai_control a AND 1 \<noteq> 0" and i: "i < ai_O a"
  shows "\<exists>a' bs. irq_update_thread (quiet a) a = Inr (a', bs) \<and> aicu_inv a' \<and> same_setup a a'
    \<and> ai_stat a' ! i = ai_stat a ! i \<and> pending a' i = pending a i
    \<and> (pending a i \<noteq> [] \<longrightarrow> unat (ai_crt_irq a' ! i) = hd (pending a i))"
proof -
  from aicu_update_pass [OF v on, of "quiet a"] i obtain a' bs where
    u: "irq_update_thread (quiet a) a = Inr (a', Some bs)" and v': "aicu_inv a'"
    and s: "same_setup a a'" and d: "output_done (quiet a) a i a' (bs ! i)"
    by (auto simp: quiet_def)
  have i': "i < ai_O a'" using i s by (simp add: same_setup_def)
  have "bit (ai_stat a' ! i) j \<longleftrightarrow> bit (ai_stat a ! i) j" for j
  proof (cases "j < ai_L a + ai_G a")
    case True
    then show ?thesis using d ind_in_bound [OF i True] by (simp add: output_done_def quiet_def edge_bit_def)
  next
    case False
    then show ?thesis using aicu_inv_stat_bit [OF v i] aicu_inv_stat_bit [OF v' i'] s
      by (auto simp: same_setup_def)
  qed
  then have st: "ai_stat a' ! i = ai_stat a ! i" by (intro bit_eqI) simp
  then have p: "pending a' i = pending a i" using s by (simp add: pending_def same_setup_def)
  have "unat (ai_crt_irq a' ! i) = hd (pending a i)" if "pending a i \<noteq> []"
  proof -
    from that obtain j js where j: "pending a i = j # js" by (cases "pending a i") auto
    then have "j \<in> set (pending a i)" by simp
    then have "j < 32" using v by (auto simp: pending_def aicu_inv_def)
    then show ?thesis using d j p by (simp add: output_done_def unat_of_nat take_bit_eq_mod)
  qed
  then show ?thesis using u v' s st p by blast
qed

lemma pending_ack:
  assumes "aicu_inv a" "i < ai_O a" "pending a i = j # js"
  shows "pending (a\<lparr>ai_stat := (ai_stat a)[i := ai_stat a ! i AND NOT (push_bit j 1)]\<rparr>) i = js"
proof -
  have l: "length (ai_stat a) = ai_O a" using assms(1) by (simp add: aicu_inv_def)
  have "j \<in> set (pending a i)" using assms(3) by simp
  then have j: "j < 32" using assms(1) by (auto simp: pending_def aicu_inv_def)
  have "distinct (pending a i)" by (simp add: pending_def)
  then have d: "j \<notin> set js" using assms(3) by simp
  have e: "bit ((ai_stat a ! i AND NOT (push_bit j 1)) AND ai_mask a ! i)
      = (\<lambda>k. bit (ai_stat a ! i AND ai_mask a ! i) k \<and> k \<noteq> j)"
    using bit_set_clear(2) [OF j, of "ai_stat a ! i"] by (auto simp: fun_eq_iff bit_and_iff)
  have "pending (a\<lparr>ai_stat := (ai_stat a)[i := ai_stat a ! i AND NOT (push_bit j 1)]\<rparr>) i
      = filter (\<lambda>k. bit (ai_stat a ! i AND ai_mask a ! i) k \<and> k \<noteq> j) [0..<ai_L a + ai_G a]"
    using assms(2) l by (simp add: pending_def e del: push_bit_of_1)
  also have "\<dots> = filter (\<lambda>k. k \<noteq> j) (pending a i)"
    by (simp add: pending_def conj_commute)
  also have "\<dots> = js" using d assms(3) by (auto simp: filter_id_conv)
  finally show ?thesis .
qed

lemma aicu_serve_all:
  assumes "aicu_inv a" "ai_control a AND 1 \<noteq> 0" "i < ai_O a" "i < 1000" "pending a i = js"
  shows "\<exists>a'. aicu_serve (length js) i a = Inr (a', map (\<lambda>j. ai_handlers a ! j) js)
    \<and> aicu_inv a' \<and> pending a' i = []"
  using assms
proof (induction js arbitrary: a)
  case Nil
  then show ?case by auto
next
  case (Cons j js)
  from quiet_update [OF Cons.prems(1-3)] Cons.prems(5) obtain a1 bs where
    u: "irq_update_thread (quiet a) a = Inr (a1, bs)" and v1: "aicu_inv a1" and s1: "same_setup a a1"
    and p1: "pending a1 i = j # js" and c1: "unat (ai_crt_irq a1 ! i) = j" by auto
  have i1: "i < ai_O a1" using Cons.prems(3) s1 by (simp add: same_setup_def)
  define a2 where "a2 = a1\<lparr>ai_stat := (ai_stat a1)[i := ai_stat a1 ! i AND NOT (push_bit j 1)]\<rparr>"
  have r: "aicu_read a1 (aicu_addr_ofs i) 0x0F = Inr (a2, [IrqUpdate], ai_handlers a1 ! j)"
    using aicu_read_addr [OF v1 i1 Cons.prems(4)] c1 by (simp add: a2_def)
  have v2: "aicu_inv a2" by (rule aicu_read_inv [OF r v1])
  have "ai_control a2 AND 1 \<noteq> 0" "i < ai_O a2" "pending a2 i = js" "ai_handlers a2 = ai_handlers a"
    using Cons.prems(2,3) s1 pending_ack [OF v1 i1 p1] by (simp_all add: a2_def same_setup_def)
  with Cons.IH [OF v2 _ _ Cons.prems(4)] obtain a' where
    "aicu_serve (length js) i a2 = Inr (a', map (\<lambda>j. ai_handlers a ! j) js)" "aicu_inv a'" "pending a' i = []"
    by auto
  with u r s1 show ?case by (simp add: same_setup_def)
qed

text \<open>
  Claim C10. A processor that reads \<open>AICU_ADDR\<close> of its output once after each pass of the interrupt
  thread, while no input changes, gets the handlers of all its pending enabled interrupts,
  lowest number first, each exactly once, and then none is left: a read acknowledges the
  reported interrupt and no other.
\<close>

theorem aicu_serves_in_priority_order:
  assumes "aicu_inv a" "ai_control a AND 1 \<noteq> 0" "i < ai_O a" "i < 1000"
  shows "\<exists>a'. aicu_serve (length (pending a i)) i a
      = Inr (a', map (\<lambda>j. ai_handlers a ! j) (pending a i)) \<and> pending a' i = []"
  using aicu_serve_all [OF assms refl] by blast

theorem aicu_serves_in_priority_order_witness:
  "\<exists>a'. aicu_serve (length (pending small_aicu 1)) 1 small_aicu
      = Inr (a', map (\<lambda>j. ai_handlers small_aicu ! j) (pending small_aicu 1)) \<and> pending a' 1 = []"
  by (rule aicu_serves_in_priority_order [OF small_aicu_inv]) (simp_all add: small_aicu_def)

end
