(* ===== verification/Timer_Device.thy ===== *)
theory Timer_Device
  imports Slave_Device Byte_Lanes
begin

text \<open>
  The two timers. \<^verbatim>\<open>timer/timer_device.cpp\<close> counts a divisor of its 1 GHz clock and holds its
  interrupt until it is acknowledged; \<^verbatim>\<open>sl_timer/sl_timer_device.cpp\<close> raises a periodic
  interrupt against the simulation time, which is an argument (\<open>sc_time_stamp ().value ()\<close>,
  in picoseconds) of the operations that read it.
\<close>

subsection \<open>\<open>timer_device\<close>\<close>

text \<open>
  The thread waits at two places: at the top of its loop, for the period or for \<open>ev_wake\<close>,
  and for the acknowledge of the interrupt it raised. \<open>ns_period\<close> is a double, but the
  factor of the divisor is exactly 1, so it is the divisor.
\<close>

datatype timer_pc = AtTop | AtAck

record timer_device =
  tm_divisor :: ulong
  tm_ns_period :: ulong
  tm_divisor_changed :: bool
  tm_bOneShot :: bool
  tm_irq :: bool
  tm_pc :: timer_pc

datatype timer_event = WakeZeroTime | WakeNow

definition timer_device_new :: timer_device where
  "timer_device_new = \<lparr>tm_divisor = 0, tm_ns_period = 0, tm_divisor_changed = False,
     tm_bOneShot = False, tm_irq = False, tm_pc = AtTop\<rparr>"

definition timer_write :: "timer_device \<Rightarrow> ulong \<Rightarrow> u8 list \<Rightarrow> (timer_device \<times> timer_event list) res" where
  "timer_write t ofs data =
     (let val1 = u32_at data 0 in
      if ofs = 0x00 then
        if val1 \<noteq> 0xFFFFFFFF
        then Inr (t\<lparr>tm_divisor := val1, tm_ns_period := val1, tm_divisor_changed := True\<rparr>, [WakeZeroTime])
        else Inr (t, [WakeNow])
      else if ofs = 0x08 then Inr (t\<lparr>tm_bOneShot := val1 \<noteq> 0\<rparr>, [])
      else Inl (Exit 1))"

definition timer_read :: "ulong \<Rightarrow> u8 \<Rightarrow> u8 list \<Rightarrow> u8 list res" where
  "timer_read ofs be data =
     (let data = set_u32 (set_u32 data 0 0) 1 0 in
      if ofs = 0x00 \<and> be = 0x0F then Inr (set_u32 data 0 1) else Inl (Exit 1))"

definition timer_rcv_rqst :: "(timer_device, timer_event) rcv_rqst" where
  "timer_rcv_rqst req t ofs be data bWrite =
     (if bWrite then bindr (timer_write t ofs data) (\<lambda>(t, es). Inr (t, es, data, False))
      else bindr (timer_read ofs be data) (\<lambda>data. Inr (t, [], data, False)))"

text \<open>How long the thread sleeps where it is: \<open>None\<close> until \<open>ev_wake\<close> only.\<close>

definition timer_sleep :: "timer_device \<Rightarrow> ulong option" where
  "timer_sleep t = (case tm_pc t of
     AtTop \<Rightarrow> if tm_divisor t = 0 then None else Some (tm_ns_period t)
   | AtAck \<Rightarrow> None)"

text \<open>The thread from the end of its wait, by \<open>ev_wake\<close> or by the time-out, to the next wait.\<close>

definition timer_thread :: "timer_device \<Rightarrow> timer_device" where
  "timer_thread t = (case tm_pc t of
     AtTop \<Rightarrow>
       if tm_divisor_changed t then t\<lparr>tm_divisor_changed := False, tm_irq := False\<rparr>
       else
         let t = (if tm_bOneShot t then t\<lparr>tm_divisor := 0\<rparr> else t)
         in t\<lparr>tm_irq := True, tm_pc := AtAck\<rparr>
   | AtAck \<Rightarrow> t\<lparr>tm_irq := False, tm_pc := AtTop\<rparr>)"

definition timer_inv :: "timer_device \<Rightarrow> bool" where
  "timer_inv t \<longleftrightarrow> (tm_irq t \<longleftrightarrow> tm_pc t = AtAck)
     \<and> (tm_divisor t \<noteq> 0 \<longrightarrow> tm_ns_period t = tm_divisor t)"

lemma timer_new_inv [simp]: "timer_inv timer_device_new"
  by (simp add: timer_inv_def timer_device_new_def)

lemma timer_write_inv: "timer_write t ofs data = Inr (t', es) \<Longrightarrow> timer_inv t \<Longrightarrow> timer_inv t'"
  by (auto simp: timer_write_def timer_inv_def Let_def split: if_splits)

lemma timer_thread_inv: "timer_inv t \<Longrightarrow> timer_inv (timer_thread t)"
  by (auto simp: timer_thread_def timer_inv_def Let_def split: timer_pc.splits)

interpretation timer_slave: slave_module timer_rcv_rqst timer_inv
  by unfold_locales
    (auto simp: timer_rcv_rqst_def bindr_eq_Inr timer_read_def Let_def dest: timer_write_inv
      split: if_splits)

subsection \<open>Runs of \<open>timer_device\<close>\<close>

datatype timer_op = TWrite ulong "u8 list" | TWake | TExpire

inductive timer_step :: "timer_device \<Rightarrow> timer_op \<Rightarrow> timer_device \<Rightarrow> bool" where
  t_write: "length data = 8 \<Longrightarrow> timer_write t ofs data = Inr (t', es) \<Longrightarrow> timer_step t (TWrite ofs data) t'"
| t_wake: "timer_step t TWake (timer_thread t)"
| t_expire: "timer_sleep t = Some d \<Longrightarrow> timer_step t TExpire (timer_thread t)"

inductive timer_reach :: "timer_device \<Rightarrow> bool" where
  "timer_reach timer_device_new"
| "timer_reach t \<Longrightarrow> timer_step t op t' \<Longrightarrow> timer_reach t'"

inductive_cases timer_stepE: "timer_step t op t'"

lemma timer_reach_inv: "timer_reach t \<Longrightarrow> timer_inv t"
  by (induction rule: timer_reach.induct)
    (auto elim!: timer_stepE dest: timer_write_inv timer_thread_inv)

text \<open>
  Claim C31. In every reachable state of the timer its interrupt line is high exactly while the thread
  waits for the acknowledge. A period that ends with no reprogramming pending raises the
  line and, for a one-shot timer, stops it; the next wake-up lowers the line; and while the
  timer runs the sleeping time is the programmed divisor.
\<close>

theorem timer_irq_until_ack:
  assumes "timer_reach t"
  shows "(tm_irq t \<longleftrightarrow> tm_pc t = AtAck)
    \<and> (\<forall>d. timer_sleep t = Some d \<longrightarrow> d = tm_divisor t \<and>
        (\<not> tm_divisor_changed t \<longrightarrow> tm_irq (timer_thread t) \<and> \<not> tm_irq (timer_thread (timer_thread t))
           \<and> (timer_sleep (timer_thread (timer_thread t)) = None \<longleftrightarrow> tm_bOneShot t)))"
  using timer_reach_inv [OF assms]
  by (cases "tm_pc t"; cases "tm_divisor t = 0"; cases "tm_divisor_changed t"; cases "tm_bOneShot t")
    (simp_all add: timer_inv_def timer_sleep_def timer_thread_def Let_def)

text \<open>A run: divisor 5 is programmed and the thread takes note of it.\<close>

definition armed_timer :: timer_device where
  "armed_timer = timer_device_new\<lparr>tm_divisor := 5, tm_ns_period := 5\<rparr>"

lemma armed_timer_reach: "timer_reach armed_timer"
proof -
  let ?t = "timer_device_new\<lparr>tm_divisor := 5, tm_ns_period := 5, tm_divisor_changed := True\<rparr>"
  have "timer_write timer_device_new 0 [5, 0, 0, 0, 0, 0, 0, 0] = Inr (?t, [WakeZeroTime])"
    by code_simp
  then have "timer_reach ?t"
    using timer_reach.intros t_write [of "[5, 0, 0, 0, 0, 0, 0, 0]" timer_device_new 0] by fastforce
  moreover have "timer_thread ?t = armed_timer"
    by (simp add: timer_thread_def armed_timer_def timer_device_new_def)
  ultimately show ?thesis using timer_reach.intros(2) t_wake by metis
qed

theorem timer_irq_until_ack_witness:
  "timer_sleep armed_timer = Some 5 \<and> tm_irq (timer_thread armed_timer)
    \<and> \<not> tm_irq (timer_thread (timer_thread armed_timer))"
  using timer_irq_until_ack [OF armed_timer_reach]
  by (simp add: armed_timer_def timer_sleep_def timer_device_new_def)

text \<open>
  Reprogramming the timer while its interrupt is pending loses a period: the wake-up meant for
  the new divisor is taken as the acknowledge, and the first time-out of the new period only
  clears the mark of the change and raises nothing. And an acknowledge while no interrupt
  is pending is taken for the end of a period and raises one.
\<close>

theorem timer_wakeups_confused:
  assumes "tm_pc t = AtAck" "u32_at data 0 \<noteq> 0xFFFFFFFF" "u32_at data 0 \<noteq> 0"
    and "tm_pc u = AtTop" "\<not> tm_divisor_changed u" "u32_at ack 0 = 0xFFFFFFFF"
  shows "\<exists>t' u'. timer_write t 0 data = Inr (t', [WakeZeroTime])
    \<and> timer_sleep (timer_thread t') = Some (u32_at data 0)
    \<and> \<not> tm_irq (timer_thread (timer_thread t')) \<and> tm_pc (timer_thread (timer_thread t')) = AtTop
    \<and> timer_write u 0 ack = Inr (u', [WakeNow]) \<and> tm_irq (timer_thread u')"
  using assms by (auto simp: timer_write_def timer_thread_def timer_sleep_def Let_def)

theorem timer_wakeups_confused_witness:
  "\<exists>t' u'. timer_write (timer_thread armed_timer) 0 [9, 0, 0, 0, 0, 0, 0, 0] = Inr (t', [WakeZeroTime])
    \<and> timer_sleep (timer_thread t') = Some (u32_at [9, 0, 0, 0, 0, 0, 0, 0] 0)
    \<and> \<not> tm_irq (timer_thread (timer_thread t')) \<and> tm_pc (timer_thread (timer_thread t')) = AtTop
    \<and> timer_write armed_timer 0 [255, 255, 255, 255, 0, 0, 0, 0] = Inr (u', [WakeNow]) \<and> tm_irq (timer_thread u')"
proof -
  have "u32_at [9, 0, 0, 0, 0, 0, 0, 0] 0 \<noteq> 0xFFFFFFFF" "u32_at [9, 0, 0, 0, 0, 0, 0, 0] 0 \<noteq> 0"
    "u32_at [255, 255, 255, 255, 0, 0, 0, 0] 0 = 0xFFFFFFFF" by code_simp+
  then show ?thesis
    by (intro timer_wakeups_confused)
      (simp_all add: armed_timer_def timer_device_new_def timer_thread_def)
qed

subsection \<open>\<open>sl_timer_device\<close>\<close>

definition TIMER_VALUE :: ulong where "TIMER_VALUE = 0"
definition TIMER_MODE :: ulong where "TIMER_MODE = 1"
definition TIMER_PERIOD :: ulong where "TIMER_PERIOD = 2"
definition TIMER_RESETIRQ :: ulong where "TIMER_RESETIRQ = 3"
definition TIMER_RUNNING :: u32 where "TIMER_RUNNING = 1"
definition TIMER_IRQ_ENABLED :: u32 where "TIMER_IRQ_ENABLED = 2"
definition TIMER_DIV :: u64 where "TIMER_DIV = 10"

lemmas sl_timer_regs [reg_defs] = TIMER_VALUE_def TIMER_MODE_def TIMER_PERIOD_def TIMER_RESETIRQ_def
  TIMER_RUNNING_def TIMER_IRQ_ENABLED_def TIMER_DIV_def

record sl_timer_device =
  st_period :: u32
  st_mode :: u32
  st_value :: u32
  st_last_period :: u64
  st_next_period :: u64
  st_m_irq :: bool
  st_config_mod :: bool
  st_irq :: bool   \<comment> \<open>the output port\<close>

datatype sl_timer_event = StWake | StIrqUpdate

definition sl_timer_device_new :: sl_timer_device where
  "sl_timer_device_new = \<lparr>st_period = 0, st_mode = 0, st_value = 0, st_last_period = 0,
     st_next_period = 0, st_m_irq = False, st_config_mod = False, st_irq = False\<rparr>"

text \<open>Picoseconds of a period: \<open>fv\<close> is the build constant \<open>SYSTEM_CLOCK_FV\<close>.\<close>

definition period_ps :: "u64 \<Rightarrow> u32 \<Rightarrow> u64" where
  "period_ps fv period = 1000000000000 div (fv div TIMER_DIV) * ucast period"

definition sl_timer_write :: "u64 \<Rightarrow> u64 \<Rightarrow> sl_timer_device \<Rightarrow> ulong \<Rightarrow> u8 \<Rightarrow> u8 list
    \<Rightarrow> (sl_timer_device \<times> sl_timer_event list) res" where
  "sl_timer_write fv now t ofs be data =
     (let ofs = reg_index ofs be; val = reg_word data be in
      if ofs = TIMER_VALUE then Inr (t, [])
      else if ofs = TIMER_MODE then
        let changed = (st_mode t XOR val) AND 1 \<noteq> 0;
            t = (if changed \<and> val AND 1 \<noteq> 0 then t\<lparr>st_last_period := now, st_value := 0\<rparr> else t);
            t = (if changed then t\<lparr>st_config_mod := True\<rparr> else t)
        in Inr (t\<lparr>st_mode := val AND 3\<rparr>, if changed then [StWake] else [])
      else if ofs = TIMER_PERIOD then
        if fv div TIMER_DIV = 0 then Inl DivByZero
        else
          let t = t\<lparr>st_period := val\<rparr>;
              t = t\<lparr>st_next_period := (now - st_last_period t) + period_ps fv (st_period t)\<rparr>
          in Inr (t\<lparr>st_config_mod := True\<rparr>, [StWake])
      else if ofs = TIMER_RESETIRQ then Inr (t\<lparr>st_m_irq := False\<rparr>, [StIrqUpdate])
      else Inl (Exit 1))"

definition sl_timer_read :: "u64 \<Rightarrow> u64 \<Rightarrow> sl_timer_device \<Rightarrow> ulong \<Rightarrow> u8 \<Rightarrow> u32 res" where
  "sl_timer_read fv now t ofs be =
     (let ofs = reg_index ofs be in
      if ofs = TIMER_VALUE
      then Inr (ucast ((now - st_last_period t) div 1000 * (fv div TIMER_DIV) div 1000000000))
      else if ofs = TIMER_MODE then Inr (st_mode t)
      else if ofs = TIMER_PERIOD then Inr (st_period t)
      else if ofs = TIMER_RESETIRQ then Inr (if st_m_irq t then 1 else 0)
      else Inl (Exit 1))"

definition sl_timer_rcv_rqst :: "u64 \<Rightarrow> u64 \<Rightarrow> (sl_timer_device, sl_timer_event) rcv_rqst" where
  "sl_timer_rcv_rqst fv now req t ofs be data bWrite =
     (if bWrite then bindr (sl_timer_write fv now t ofs be data) (\<lambda>(t, es). Inr (t, es, data, False))
      else bindr (sl_timer_read fv now t ofs be) (\<lambda>v. Inr (t, [], put_reg_word data be v, False)))"

text \<open>The wait of \<open>sl_timer_thread\<close> (\<open>None\<close>: until \<open>ev_wake\<close>) and the rest of its loop body.\<close>

definition sl_timer_wait :: "u64 \<Rightarrow> sl_timer_device \<Rightarrow> u64 option" where
  "sl_timer_wait now t =
     (if st_period t = 0 then None else Some (st_next_period t - (now - st_last_period t)))"

definition sl_timer_thread :: "u64 \<Rightarrow> u64 \<Rightarrow> sl_timer_device \<Rightarrow> (sl_timer_device \<times> sl_timer_event list) res" where
  "sl_timer_thread fv now t =
     (if st_config_mod t then Inr (t\<lparr>st_m_irq := False, st_config_mod := False\<rparr>, [StIrqUpdate])
      else if fv div TIMER_DIV = 0 then Inl DivByZero
      else
        let raise = st_mode t AND TIMER_IRQ_ENABLED \<noteq> 0;
            t = (if raise then t\<lparr>st_m_irq := True\<rparr> else t)
        in Inr (t\<lparr>st_next_period := (now - st_last_period t) + period_ps fv (st_period t)\<rparr>,
                if raise then [StIrqUpdate] else []))"

definition sl_irq_update_thread :: "sl_timer_device \<Rightarrow> sl_timer_device" where
  "sl_irq_update_thread t = t\<lparr>st_irq := st_m_irq t\<rparr>"

interpretation sl_timer_slave: slave_module "sl_timer_rcv_rqst fv now" "\<lambda>_. True" for fv now
  by unfold_locales (auto simp: sl_timer_rcv_rqst_def bindr_eq_Inr split: if_splits)

text \<open>\<open>n\<close> periods that end by time-out: the times at which they end.\<close>

fun sl_timer_periods :: "nat \<Rightarrow> u64 \<Rightarrow> u64 \<Rightarrow> sl_timer_device \<Rightarrow> (sl_timer_device \<times> u64 list) res" where
  "sl_timer_periods 0 fv now t = Inr (t, [])"
| "sl_timer_periods (Suc n) fv now t =
     (case sl_timer_wait now t of
        None \<Rightarrow> Inr (t, [])
      | Some d \<Rightarrow>
          bindr (sl_timer_thread fv (now + d) t) (\<lambda>(t, es).
          bindr (sl_timer_periods n fv (now + d) t) (\<lambda>(t, ts). Inr (t, (now + d) # ts))))"

lemma sl_timer_period_once:
  assumes "st_period t \<noteq> 0" "\<not> st_config_mod t" "fv div TIMER_DIV \<noteq> 0"
  obtains t' es where "sl_timer_thread fv now t = Inr (t', es)"
    "st_period t' = st_period t" "\<not> st_config_mod t'" "st_mode t' = st_mode t"
    "sl_timer_wait now t' = Some (period_ps fv (st_period t))"
    "st_m_irq t' \<longleftrightarrow> st_m_irq t \<or> st_mode t AND TIMER_IRQ_ENABLED \<noteq> 0"
  using assms by (auto simp: sl_timer_thread_def sl_timer_wait_def Let_def)

lemma sl_timer_periods_from:
  assumes "st_period t \<noteq> 0" "\<not> st_config_mod t" "fv div TIMER_DIV \<noteq> 0"
    and "sl_timer_wait now t = Some d"
  shows "\<exists>t'. sl_timer_periods n fv now t
    = Inr (t', map (\<lambda>k. now + d + of_nat k * period_ps fv (st_period t)) [0..<n])"
  using assms
proof (induction n arbitrary: now d t)
  case 0
  then show ?case by simp
next
  case (Suc n)
  let ?P = "period_ps fv (st_period t)"
  from sl_timer_period_once [OF Suc.prems(1-3), of "now + d"] obtain t1 es where
    1: "sl_timer_thread fv (now + d) t = Inr (t1, es)" "st_period t1 = st_period t" "\<not> st_config_mod t1"
      "sl_timer_wait (now + d) t1 = Some ?P" by metis
  from Suc.IH [of t1 "now + d" ?P] 1 Suc.prems obtain t2 where
    2: "sl_timer_periods n fv (now + d) t1 = Inr (t2, map (\<lambda>k. now + d + ?P + of_nat k * ?P) [0..<n])"
    by auto
  have "map (\<lambda>k. now + d + of_nat k * ?P) [0..<Suc n]
      = (now + d) # map (\<lambda>k. now + d + ?P + of_nat k * ?P) [0..<n]"
    by (simp add: upt_conv_Cons map_Suc_upt [symmetric] algebra_simps del: upt_Suc)
  then show ?case using 1(1) 2 Suc.prems(4) by simp
qed

text \<open>
  The periodic timer does not drift: as long as nobody reprograms it, its periods end at the
  programmed time and then exactly one period (of the programmed number of 100 MHz ticks at
  the platforms' clock) after each other, for any number of periods.
\<close>

theorem sl_timer_no_drift:
  assumes "sl_timer_write fv now t 8 0x0F data = Inr (t1, es)" "u32_at data 0 \<noteq> 0"
  shows "\<exists>t2 es2 t'. sl_timer_thread fv now t1 = Inr (t2, es2)
    \<and> sl_timer_periods n fv now t2
      = Inr (t', map (\<lambda>k. now + of_nat (Suc k) * period_ps fv (u32_at data 0)) [0..<n])"
proof -
  have r: "reg_index 8 0x0F = TIMER_PERIOD" "reg_lane 0x0F = 0"
    by (simp_all add: reg_index_def TIMER_PERIOD_def drop_bit_eq_div reg_lane_def)
  from assms(1) have fv: "fv div TIMER_DIV \<noteq> 0" and t1: "t1 = t\<lparr>st_period := u32_at data 0,
      st_next_period := (now - st_last_period t) + period_ps fv (u32_at data 0), st_config_mod := True\<rparr>"
    by (auto simp: sl_timer_write_def Let_def r reg_word_def TIMER_PERIOD_def TIMER_VALUE_def TIMER_MODE_def
        split: if_splits)
  define t2 where "t2 = t1\<lparr>st_m_irq := False, st_config_mod := False\<rparr>"
  have "sl_timer_wait now t2 = Some (period_ps fv (u32_at data 0))"
    using assms(2) by (simp add: sl_timer_wait_def t2_def t1)
  from sl_timer_periods_from [OF _ _ fv this, of n] assms(2)
  have "\<exists>t'. sl_timer_periods n fv now t2 = Inr (t',
      map (\<lambda>k. now + period_ps fv (u32_at data 0) + of_nat k * period_ps fv (u32_at data 0)) [0..<n])"
    by (simp add: t2_def t1)
  moreover have "sl_timer_thread fv now t1 = Inr (t2, [StIrqUpdate])"
    by (simp add: sl_timer_thread_def t2_def t1)
  ultimately show ?thesis by (simp add: algebra_simps)
qed

theorem sl_timer_no_drift_witness:
  "\<exists>t1 es t2 es2 t'. sl_timer_write 1000000000 7000 sl_timer_device_new 8 0x0F [3, 0, 0, 0, 0, 0, 0, 0]
      = Inr (t1, es) \<and> sl_timer_thread 1000000000 7000 t1 = Inr (t2, es2)
    \<and> sl_timer_periods 2 1000000000 7000 t2
      = Inr (t', map (\<lambda>k. 7000 + of_nat (Suc k) * period_ps 1000000000 (u32_at [3, 0, 0, 0, 0, 0, 0, 0] 0)) [0..<2])"
proof -
  let ?w = "sl_timer_write 1000000000 7000 sl_timer_device_new 8 0x0F [3, 0, 0, 0, 0, 0, 0, 0]"
  have "(case ?w of Inr _ \<Rightarrow> True | Inl _ \<Rightarrow> False)" "u32_at [3, 0, 0, 0, 0, 0, 0, 0] 0 \<noteq> 0"
    by code_simp+
  then obtain t1 es where "?w = Inr (t1, es)" by (auto split: sum.splits)
  from sl_timer_no_drift [OF this, of 2] this show ?thesis
    using \<open>u32_at [3, 0, 0, 0, 0, 0, 0, 0] 0 \<noteq> 0\<close> by blast
qed

text \<open>
  The thread of the periodic timer does not look at the running bit: with the timer stopped but
  its interrupt enabled and a period programmed, the end of a period still raises the
  interrupt.
\<close>

theorem sl_timer_fires_when_stopped:
  assumes "st_mode t AND TIMER_RUNNING = 0" "st_mode t AND TIMER_IRQ_ENABLED \<noteq> 0"
    and "\<not> st_config_mod t" "st_period t \<noteq> 0" "fv div TIMER_DIV \<noteq> 0"
  shows "sl_timer_wait now t \<noteq> None
    \<and> (\<exists>t'. sl_timer_thread fv now t = Inr (t', [StIrqUpdate]) \<and> st_irq (sl_irq_update_thread t'))"
  using assms by (simp add: sl_timer_wait_def sl_timer_thread_def sl_irq_update_thread_def Let_def)

theorem sl_timer_fires_when_stopped_witness:
  "sl_timer_wait 0 (sl_timer_device_new\<lparr>st_mode := 2, st_period := 1\<rparr>) \<noteq> None
    \<and> (\<exists>t'. sl_timer_thread 1000000000 0 (sl_timer_device_new\<lparr>st_mode := 2, st_period := 1\<rparr>)
          = Inr (t', [StIrqUpdate]) \<and> st_irq (sl_irq_update_thread t'))"
  by (rule sl_timer_fires_when_stopped)
    (simp_all add: sl_timer_device_new_def TIMER_RUNNING_def TIMER_IRQ_ENABLED_def TIMER_DIV_def)

end
