(* ===== verification/Sl_Mailbox_Device.thy ===== *)
theory Sl_Mailbox_Device
  imports Slave_Device Byte_Lanes
begin

text \<open>
  The mailboxes between processors (\<^verbatim>\<open>sl_mailbox/sl_mailbox_device.cpp\<close>): per mailbox a
  command, a data word, a reserved word, a status and an interrupt line, and ten registers
  shared by all.
\<close>

definition MAILBOX_COMM_ADR :: u32 where "MAILBOX_COMM_ADR = 0"
definition MAILBOX_DATA_ADR :: u32 where "MAILBOX_DATA_ADR = 1"
definition MAILBOX_RESERVED_ADR :: u32 where "MAILBOX_RESERVED_ADR = 2"
definition MAILBOX_RESET_ADR :: u32 where "MAILBOX_RESET_ADR = 3"
definition MAILBOX_SPAN :: u32 where "MAILBOX_SPAN = 4"
definition MAILBOX_GLOBAL_START_ADDR :: ulong where "MAILBOX_GLOBAL_START_ADDR = 0x1000"
definition MAILBOX_GLOBAL_NO_REGS :: nat where "MAILBOX_GLOBAL_NO_REGS = 10"
definition MAILBOX_CLEAR :: u32 where "MAILBOX_CLEAR = 0"
definition MAILBOX_NEW_MESSAGE :: u32 where "MAILBOX_NEW_MESSAGE = 1"

lemmas mailbox_regs [reg_defs] = MAILBOX_COMM_ADR_def MAILBOX_DATA_ADR_def MAILBOX_RESERVED_ADR_def
  MAILBOX_RESET_ADR_def MAILBOX_SPAN_def MAILBOX_GLOBAL_START_ADDR_def MAILBOX_GLOBAL_NO_REGS_def
  MAILBOX_CLEAR_def MAILBOX_NEW_MESSAGE_def

record sl_mailbox_device =
  mb_nb_mailbox :: nat
  mb_command :: "u32 list"
  mb_data :: "u32 list"
  mb_status :: "u32 list"
  mb_reserved :: "u32 list"
  mb_global_reg :: "u32 list"
  mb_irq :: "bool list"

definition sl_mailbox_device_new :: "nat \<Rightarrow> sl_mailbox_device" where
  "sl_mailbox_device_new n = \<lparr>mb_nb_mailbox = n, mb_command = replicate n 0, mb_data = replicate n 0,
     mb_status = replicate n 0, mb_reserved = replicate n 0,
     mb_global_reg = replicate MAILBOX_GLOBAL_NO_REGS 0, mb_irq = replicate n False\<rparr>"

definition sl_mailbox_write :: "sl_mailbox_device \<Rightarrow> ulong \<Rightarrow> u8 \<Rightarrow> u8 list \<Rightarrow> sl_mailbox_device res" where
  "sl_mailbox_write d ofs be data =
     (let idx = reg_index ofs be; val = reg_word data be in
      if ofs \<ge> MAILBOX_GLOBAL_START_ADDR then
        let idx = idx - drop_bit 2 MAILBOX_GLOBAL_START_ADDR in
        if unat idx \<ge> MAILBOX_GLOBAL_NO_REGS then Inl (Exit 1)
        else bindr (wr (mb_global_reg d) (unat idx) val) (\<lambda>g. Inr (d\<lparr>mb_global_reg := g\<rparr>))
      else
        let mailbox = unat (idx div MAILBOX_SPAN); lcl_ofs = idx mod MAILBOX_SPAN in
        if lcl_ofs = MAILBOX_COMM_ADR then
          bindr (wr (mb_command d) mailbox val) (\<lambda>c.
          bindr (wr (mb_status d) mailbox MAILBOX_NEW_MESSAGE) (\<lambda>s.
          bindr (wr (mb_irq d) mailbox True) (\<lambda>q.
          Inr (d\<lparr>mb_command := c, mb_status := s, mb_irq := q\<rparr>))))
        else if lcl_ofs = MAILBOX_DATA_ADR then
          bindr (wr (mb_data d) mailbox val) (\<lambda>x. Inr (d\<lparr>mb_data := x\<rparr>))
        else if lcl_ofs = MAILBOX_RESERVED_ADR then
          bindr (wr (mb_reserved d) mailbox val) (\<lambda>x. Inr (d\<lparr>mb_reserved := x\<rparr>))
        else
          bindr (wr (mb_status d) mailbox MAILBOX_CLEAR) (\<lambda>s.
          bindr (wr (mb_irq d) mailbox False) (\<lambda>q.
          Inr (d\<lparr>mb_status := s, mb_irq := q\<rparr>))))"

definition sl_mailbox_read :: "sl_mailbox_device \<Rightarrow> ulong \<Rightarrow> u8 \<Rightarrow> u32 res" where
  "sl_mailbox_read d ofs be =
     (let idx = reg_index ofs be in
      if ofs \<ge> MAILBOX_GLOBAL_START_ADDR then
        let idx = idx - drop_bit 2 MAILBOX_GLOBAL_START_ADDR in
        if unat idx \<ge> MAILBOX_GLOBAL_NO_REGS then Inl (Exit 1)
        else rd (mb_global_reg d) (unat idx)
      else
        let mailbox = unat (idx div MAILBOX_SPAN); lcl_ofs = idx mod MAILBOX_SPAN in
        if lcl_ofs = MAILBOX_COMM_ADR then rd (mb_command d) mailbox
        else if lcl_ofs = MAILBOX_DATA_ADR then rd (mb_data d) mailbox
        else if lcl_ofs = MAILBOX_RESERVED_ADR then rd (mb_reserved d) mailbox
        else rd (mb_status d) mailbox)"

definition sl_mailbox_rcv_rqst :: "(sl_mailbox_device, unit) rcv_rqst" where
  "sl_mailbox_rcv_rqst req d ofs be data bWrite =
     (if bWrite then bindr (sl_mailbox_write d ofs be data) (\<lambda>d. Inr (d, [], data, False))
      else bindr (sl_mailbox_read d ofs be) (\<lambda>v. Inr (d, [], put_reg_word data be v, False)))"

text \<open>The interrupt of a mailbox is high exactly while it holds a new message.\<close>

definition mailbox_inv :: "sl_mailbox_device \<Rightarrow> bool" where
  "mailbox_inv d \<longleftrightarrow> length (mb_command d) = mb_nb_mailbox d \<and> length (mb_data d) = mb_nb_mailbox d
     \<and> length (mb_status d) = mb_nb_mailbox d \<and> length (mb_reserved d) = mb_nb_mailbox d
     \<and> length (mb_global_reg d) = MAILBOX_GLOBAL_NO_REGS
     \<and> mb_irq d = map (\<lambda>s. s = MAILBOX_NEW_MESSAGE) (mb_status d)"

lemma mailbox_new_inv [simp]: "mailbox_inv (sl_mailbox_device_new n)"
  by (simp add: mailbox_inv_def sl_mailbox_device_new_def MAILBOX_NEW_MESSAGE_def)

lemma mailbox_write_inv:
  "sl_mailbox_write d ofs be data = Inr d' \<Longrightarrow> mailbox_inv d \<Longrightarrow> mailbox_inv d'"
  by (auto simp: sl_mailbox_write_def Let_def bindr_eq_Inr wr_eq_Inr mailbox_inv_def map_update
      MAILBOX_NEW_MESSAGE_def MAILBOX_CLEAR_def split: if_splits)

interpretation mailbox_slave: slave_module sl_mailbox_rcv_rqst mailbox_inv
  by unfold_locales
    (auto simp: sl_mailbox_rcv_rqst_def bindr_eq_Inr dest: mailbox_write_inv split: if_splits)

subsection \<open>Mailboxes as channels\<close>

text \<open>One mailbox, and what the registers of a mailbox do to it.\<close>

record mailbox =
  ch_command :: u32
  ch_data :: u32
  ch_reserved :: u32
  ch_pending :: bool

definition channel :: "sl_mailbox_device \<Rightarrow> nat \<Rightarrow> mailbox" where
  "channel d m = \<lparr>ch_command = mb_command d ! m, ch_data = mb_data d ! m,
     ch_reserved = mb_reserved d ! m, ch_pending = (mb_status d ! m = MAILBOX_NEW_MESSAGE)\<rparr>"

definition channel_write :: "mailbox \<Rightarrow> u32 \<Rightarrow> u32 \<Rightarrow> mailbox" where
  "channel_write c r v =
     (if r = MAILBOX_COMM_ADR then c\<lparr>ch_command := v, ch_pending := True\<rparr>
      else if r = MAILBOX_DATA_ADR then c\<lparr>ch_data := v\<rparr>
      else if r = MAILBOX_RESERVED_ADR then c\<lparr>ch_reserved := v\<rparr>
      else c\<lparr>ch_pending := False\<rparr>)"

definition mailbox_of :: "ulong \<Rightarrow> u8 \<Rightarrow> nat" where
  "mailbox_of ofs be = unat (reg_index ofs be div MAILBOX_SPAN)"

definition mailbox_reg :: "ulong \<Rightarrow> u8 \<Rightarrow> u32" where
  "mailbox_reg ofs be = reg_index ofs be mod MAILBOX_SPAN"

text \<open>
  Claim C30. A write to a register of mailbox \<open>m\<close> of the device does to that mailbox what the channel
  specification says (a command arrives with its word and raises the interrupt, a reset
  clears it, data and reserved words are stored) and leaves every other mailbox and the
  shared registers alone; the interrupt lines follow.
\<close>

theorem mailbox_write_refines_channel:
  assumes "mailbox_inv d" "ofs < MAILBOX_GLOBAL_START_ADDR" "mailbox_of ofs be < mb_nb_mailbox d"
  shows "\<exists>d'. sl_mailbox_write d ofs be data = Inr d' \<and> mailbox_inv d'
    \<and> channel d' (mailbox_of ofs be)
        = channel_write (channel d (mailbox_of ofs be)) (mailbox_reg ofs be) (reg_word data be)
    \<and> (\<forall>k < mb_nb_mailbox d. k \<noteq> mailbox_of ofs be \<longrightarrow> channel d' k = channel d k)
    \<and> (\<forall>k < mb_nb_mailbox d. mb_irq d' ! k = ch_pending (channel d' k))
    \<and> mb_global_reg d' = mb_global_reg d"
proof -
  have ng: "\<not> MAILBOX_GLOBAL_START_ADDR \<le> ofs" using assms(2) by simp
  have "\<exists>d'. sl_mailbox_write d ofs be data = Inr d' \<and> mb_nb_mailbox d' = mb_nb_mailbox d
    \<and> channel d' (mailbox_of ofs be)
        = channel_write (channel d (mailbox_of ofs be)) (mailbox_reg ofs be) (reg_word data be)
    \<and> (\<forall>k < mb_nb_mailbox d. k \<noteq> mailbox_of ofs be \<longrightarrow> channel d' k = channel d k)
    \<and> mb_global_reg d' = mb_global_reg d"
    using assms ng
    by (simp add: sl_mailbox_write_def Let_def mailbox_inv_def channel_def
        channel_write_def mailbox_of_def [symmetric] mailbox_reg_def [symmetric]
        MAILBOX_NEW_MESSAGE_def MAILBOX_CLEAR_def)
  then obtain d' where d': "sl_mailbox_write d ofs be data = Inr d'" "mb_nb_mailbox d' = mb_nb_mailbox d"
    "channel d' (mailbox_of ofs be)
        = channel_write (channel d (mailbox_of ofs be)) (mailbox_reg ofs be) (reg_word data be)"
    "\<forall>k < mb_nb_mailbox d. k \<noteq> mailbox_of ofs be \<longrightarrow> channel d' k = channel d k"
    "mb_global_reg d' = mb_global_reg d" by blast
  have v: "mailbox_inv d'" by (rule mailbox_write_inv [OF d'(1) assms(1)])
  then have "\<forall>k < mb_nb_mailbox d. mb_irq d' ! k = ch_pending (channel d' k)"
    using d'(2) by (simp add: mailbox_inv_def channel_def)
  with d' v show ?thesis by blast
qed

theorem mailbox_write_refines_channel_witness:
  "\<exists>d'. sl_mailbox_write (sl_mailbox_device_new 3) 0x10 0xF0 [0, 0, 0, 0, 7, 0, 0, 0] = Inr d' \<and> mailbox_inv d'
    \<and> channel d' (mailbox_of 0x10 0xF0)
        = channel_write (channel (sl_mailbox_device_new 3) (mailbox_of 0x10 0xF0)) (mailbox_reg 0x10 0xF0)
            (reg_word [0, 0, 0, 0, 7, 0, 0, 0] 0xF0)
    \<and> (\<forall>k < mb_nb_mailbox (sl_mailbox_device_new 3). k \<noteq> mailbox_of 0x10 0xF0 \<longrightarrow>
          channel d' k = channel (sl_mailbox_device_new 3) k)
    \<and> (\<forall>k < mb_nb_mailbox (sl_mailbox_device_new 3). mb_irq d' ! k = ch_pending (channel d' k))
    \<and> mb_global_reg d' = mb_global_reg (sl_mailbox_device_new 3)"
proof (rule mailbox_write_refines_channel)
  show "(0x10::ulong) < MAILBOX_GLOBAL_START_ADDR" by code_simp
  show "mailbox_of 0x10 0xF0 < mb_nb_mailbox (sl_mailbox_device_new 3)" by code_simp
qed simp

text \<open>
  The mailbox number of an access is not compared with the number of mailboxes: an access
  below the shared registers to a mailbox that does not exist goes outside the arrays, for
  every register, reading or writing.
\<close>

theorem mailbox_index_unchecked:
  assumes "mailbox_inv d" "ofs < MAILBOX_GLOBAL_START_ADDR" "mb_nb_mailbox d \<le> mailbox_of ofs be"
  shows "sl_mailbox_write d ofs be data = Inl OutOfBounds \<and> sl_mailbox_read d ofs be = Inl OutOfBounds"
  using assms
  by (simp add: sl_mailbox_write_def sl_mailbox_read_def Let_def linorder_not_le mailbox_inv_def
      mailbox_of_def [symmetric] mailbox_reg_def [symmetric])

theorem mailbox_index_unchecked_witness:
  "sl_mailbox_write (sl_mailbox_device_new 3) 0x30 0x0F (replicate 8 0) = Inl OutOfBounds
   \<and> sl_mailbox_read (sl_mailbox_device_new 3) 0x30 0x0F = Inl OutOfBounds"
proof (rule mailbox_index_unchecked)
  show "(0x30::ulong) < MAILBOX_GLOBAL_START_ADDR" by code_simp
  show "mb_nb_mailbox (sl_mailbox_device_new 3) \<le> mailbox_of 0x30 0x0F" by code_simp
qed simp

end
