(* ===== verification/Tty_Serial_Device.thy ===== *)
theory Tty_Serial_Device
  imports Slave_Device Byte_Lanes Bounded_Queue
begin

text \<open>
  The serial line (\<^verbatim>\<open>tty_serial/tty_serial_device.cpp\<close>): a ring of 256 received characters
  filled by \<open>read_thread\<close> and emptied by reads of register 0, and an interrupt while it is
  not empty. What a terminal sends is an argument of the thread, what is written to it is
  an event.
\<close>

definition READ_BUF_SIZE :: nat where "READ_BUF_SIZE = 256"
definition TTY_INT_READ :: ulong where "TTY_INT_READ = 1"

record tty_state =
  ty_int_enabled :: ulong
  ty_int_level :: ulong
  ty_read_buf :: "ulong list"
  ty_read_pos :: nat
  ty_read_count :: nat
  ty_irq_line :: bool   \<comment> \<open>the output port\<close>

datatype tty_event = TtyOut u8 | TtyIrqUpdate | TtyEvRead

definition tty_state_new :: tty_state where
  "tty_state_new = \<lparr>ty_int_enabled = 0, ty_int_level = 0, ty_read_buf = replicate READ_BUF_SIZE 0,
     ty_read_pos = 0, ty_read_count = 0, ty_irq_line = False\<rparr>"

text \<open>
  \<open>read_thread\<close> once it has read a character: \<open>None\<close> while it waits for \<open>evRead\<close> with
  the buffer full.
\<close>

definition tty_receive :: "tty_state \<Rightarrow> u8 \<Rightarrow> (tty_state \<times> tty_event list) option" where
  "tty_receive t ch =
     (if ty_read_count t = READ_BUF_SIZE then None
      else
        let pos = (ty_read_pos t + ty_read_count t) mod READ_BUF_SIZE;
            t = t\<lparr>ty_read_buf := (ty_read_buf t)[pos := ucast ch]\<rparr>;
            t = t\<lparr>ty_read_count := ty_read_count t + 1\<rparr>
        in Some (t\<lparr>ty_int_level := ty_int_level t OR TTY_INT_READ\<rparr>, [TtyIrqUpdate]))"

definition tty_irq_update_thread :: "tty_state \<Rightarrow> tty_state" where
  "tty_irq_update_thread t = t\<lparr>ty_irq_line := ty_int_level t AND ty_int_enabled t \<noteq> 0\<rparr>"

definition tty_serial_write :: "tty_state \<Rightarrow> ulong \<Rightarrow> u8 \<Rightarrow> u8 list \<Rightarrow> (tty_state \<times> tty_event list) res" where
  "tty_serial_write t ofs be data =
     (let ofs = reg_index ofs be; val = reg_word data be in
      if ofs = 0 then bindr (rd data 0) (\<lambda>ch. Inr (t, [TtyOut ch]))
      else if ofs = 1 then Inr (t\<lparr>ty_int_enabled := val\<rparr>, [TtyIrqUpdate])
      else Inl (Exit 1))"

text \<open>Case 0 of \<open>read\<close>: the next character, and what is left.\<close>

definition tty_read_char :: "tty_state \<Rightarrow> (tty_state \<times> tty_event list \<times> ulong) res" where
  "tty_read_char t =
     bindr (rd (ty_read_buf t) (ty_read_pos t)) (\<lambda>c.
     if ty_read_count t > 0 then
       let t = t\<lparr>ty_read_count := ty_read_count t - 1\<rparr>;
           t = t\<lparr>ty_read_pos := (if ty_read_pos t + 1 = READ_BUF_SIZE then 0 else ty_read_pos t + 1)\<rparr>
       in if ty_read_count t = 0
          then Inr (t\<lparr>ty_int_level := ty_int_level t AND NOT TTY_INT_READ\<rparr>, [TtyIrqUpdate, TtyEvRead], c)
          else Inr (t, [TtyEvRead], c)
     else Inr (t, [], c))"

definition tty_serial_read :: "tty_state \<Rightarrow> ulong \<Rightarrow> u8 \<Rightarrow> (tty_state \<times> tty_event list \<times> ulong) res" where
  "tty_serial_read t ofs be =
     (let ofs = reg_index ofs be in
      if ofs = 0 then tty_read_char t
      else if ofs = 1 then Inr (t, [], 1)
      else if ofs = 2 then Inr (t, [], if ty_read_count t > 0 then 1 else 0)
      else if ofs = 3 then Inr (t, [], ty_int_enabled t)
      else if ofs = 4 then Inr (t, [], ty_int_level t)
      else if ofs = 5 then Inr (t, [], ty_int_level t AND ty_int_enabled t)
      else if ofs = 6 then Inr (t, [], 0)
      else Inl (Exit 1))"

definition tty_serial_rcv_rqst :: "(tty_state, tty_event) rcv_rqst" where
  "tty_serial_rcv_rqst req t ofs be data bWrite =
     (if bWrite then bindr (tty_serial_write t ofs be data) (\<lambda>(t, es). Inr (t, es, data, False))
      else bindr (tty_serial_read t ofs be) (\<lambda>(t, es, v).
           Inr (t, es, put_reg_word (set_u32 (set_u32 data 0 0) 1 0) be v, False)))"

definition tty_inv :: "tty_state \<Rightarrow> bool" where
  "tty_inv t \<longleftrightarrow> length (ty_read_buf t) = READ_BUF_SIZE \<and> ty_read_pos t < READ_BUF_SIZE
     \<and> ty_read_count t \<le> READ_BUF_SIZE
     \<and> ty_int_level t = (if ty_read_count t > 0 then TTY_INT_READ else 0)
     \<and> (\<forall>x\<in>set (ty_read_buf t). x < 256)"

lemma tty_new_inv [simp]: "tty_inv tty_state_new"
  by (simp add: tty_inv_def tty_state_new_def READ_BUF_SIZE_def)

lemma tty_receive_inv: "tty_receive t ch = Some (t', es) \<Longrightarrow> tty_inv t \<Longrightarrow> tty_inv t'"
proof -
  assume r: "tty_receive t ch = Some (t', es)" and v: "tty_inv t"
  have "unat ch < 2 ^ LENGTH(8)" by (rule unsigned_less)
  then have c: "(ucast ch :: ulong) < 256"
    by (simp add: word_less_nat_alt unsigned_ucast_eq take_bit_eq_mod)
  from r v show ?thesis
    by (auto simp: tty_receive_def tty_inv_def Let_def c TTY_INT_READ_def
        dest!: set_update_subset_insert [THEN subsetD] split: if_splits)
qed

lemma tty_read_char_inv: "tty_read_char t = Inr (t', es, c) \<Longrightarrow> tty_inv t \<Longrightarrow> tty_inv t'"
  by (auto simp: tty_read_char_def tty_inv_def Let_def bindr_eq_Inr rd_eq_Inr TTY_INT_READ_def
      split: if_splits)

lemma tty_serial_write_inv:
  "tty_serial_write t ofs be data = Inr (t', es) \<Longrightarrow> tty_inv t \<Longrightarrow> tty_inv t'"
  by (auto simp: tty_serial_write_def Let_def bindr_eq_Inr tty_inv_def split: if_splits)

lemma tty_serial_read_inv:
  "tty_serial_read t ofs be = Inr (t', es, v) \<Longrightarrow> tty_inv t \<Longrightarrow> tty_inv t'"
  by (auto simp: tty_serial_read_def Let_def dest: tty_read_char_inv split: if_splits)

interpretation tty_serial_slave: slave_module tty_serial_rcv_rqst tty_inv
  by unfold_locales
    (auto simp: tty_serial_rcv_rqst_def bindr_eq_Inr dest: tty_serial_write_inv tty_serial_read_inv split: if_splits)

subsection \<open>The receive buffer is a bounded queue\<close>

definition tty_items :: "tty_state \<Rightarrow> u8 list" where
  "tty_items t = map (\<lambda>k. ucast (ty_read_buf t ! ((ty_read_pos t + k) mod READ_BUF_SIZE))) [0..<ty_read_count t]"

definition tty_enq :: "tty_state \<Rightarrow> u8 \<Rightarrow> tty_state option" where
  "tty_enq t ch = map_option fst (tty_receive t ch)"

text \<open>A reader that looks at register 2 first takes a character only when there is one.\<close>

definition tty_deq :: "tty_state \<Rightarrow> (u8 \<times> tty_state) option" where
  "tty_deq t = (case tty_read_char t of
     Inr (t', es, c) \<Rightarrow> if ty_read_count t > 0 then Some (ucast c, t') else None
   | Inl _ \<Rightarrow> None)"

lemma length_tty_items [simp]: "length (tty_items t) = ty_read_count t"
  by (simp add: tty_items_def)

lemma tty_items_nth:
  "k < ty_read_count t \<Longrightarrow> tty_items t ! k = ucast (ty_read_buf t ! ((ty_read_pos t + k) mod READ_BUF_SIZE))"
  by (simp add: tty_items_def)

lemma tty_receive_items:
  assumes v: "tty_inv t" and r: "tty_receive t ch = Some (t', es)"
  shows "tty_items t' = tty_items t @ [ch]"
proof (rule nth_equalityI)
  from r have t': "ty_read_count t' = ty_read_count t + 1" "ty_read_pos t' = ty_read_pos t"
    "ty_read_buf t' = (ty_read_buf t)[(ty_read_pos t + ty_read_count t) mod READ_BUF_SIZE := ucast ch]"
    and c: "ty_read_count t < READ_BUF_SIZE"
    using v by (auto simp: tty_receive_def Let_def tty_inv_def split: if_splits)
  show "length (tty_items t') = length (tty_items t @ [ch])" using t' by simp
  have u: "(ucast (ucast ch :: ulong) :: u8) = ch"
    by (rule bit_word_eqI) (simp add: bit_simps)
  fix k assume "k < length (tty_items t')"
  then have k: "k < ty_read_count t + 1" using t' by simp
  show "tty_items t' ! k = (tty_items t @ [ch]) ! k"
  proof (cases "k < ty_read_count t")
    case True
    have "(ty_read_pos t + k) mod READ_BUF_SIZE \<noteq> (ty_read_pos t + ty_read_count t) mod READ_BUF_SIZE"
      using True c by (intro ring_slot_neq) simp_all
    with True t' show ?thesis by (simp add: tty_items_nth nth_append)
  next
    case False
    with k have "k = ty_read_count t" by simp
    then show ?thesis using t' v u by (simp add: tty_items_nth nth_append tty_inv_def READ_BUF_SIZE_def)
  qed
qed

lemma tty_read_char_items:
  assumes v: "tty_inv t" and n: "ty_read_count t > 0"
  obtains t' es c where "tty_read_char t = Inr (t', es, c)" "tty_items t = ucast c # tty_items t'"
proof -
  from v have l: "ty_read_pos t < length (ty_read_buf t)" by (simp add: tty_inv_def)
  have m: "ty_read_pos t + 1 \<noteq> READ_BUF_SIZE \<longrightarrow>
      (ty_read_pos t + 1) mod READ_BUF_SIZE = ty_read_pos t + 1" using v by (simp add: tty_inv_def)
  have "\<exists>t' es. tty_read_char t = Inr (t', es, ty_read_buf t ! ty_read_pos t)
    \<and> ty_read_count t = ty_read_count t' + 1 \<and> ty_read_buf t' = ty_read_buf t
    \<and> ty_read_pos t' = (ty_read_pos t + 1) mod READ_BUF_SIZE"
    using n m by (auto simp: tty_read_char_def Let_def rd_in [OF l] simp del: One_nat_def)
  then obtain t' es where r: "tty_read_char t = Inr (t', es, ty_read_buf t ! ty_read_pos t)"
    and t': "ty_read_count t = ty_read_count t' + 1" "ty_read_buf t' = ty_read_buf t"
      "ty_read_pos t' = (ty_read_pos t + 1) mod READ_BUF_SIZE" by blast
  have "tty_items t = ucast (ty_read_buf t ! ty_read_pos t) # tty_items t'"
  proof (rule nth_equalityI)
    show "length (tty_items t) = length (ucast (ty_read_buf t ! ty_read_pos t) # tty_items t')"
      using t' by simp
    fix k assume k: "k < length (tty_items t)"
    show "tty_items t ! k = (ucast (ty_read_buf t ! ty_read_pos t) # tty_items t') ! k"
    proof (cases k)
      case 0
      then show ?thesis using k v by (simp add: tty_items_nth tty_inv_def)
    next
      case (Suc j)
      have "(ty_read_pos t + Suc j) mod READ_BUF_SIZE = ((ty_read_pos t + 1) mod READ_BUF_SIZE + j) mod READ_BUF_SIZE"
        by (simp add: mod_simps)
      then show ?thesis using k Suc t' by (simp add: tty_items_nth)
    qed
  qed
  with r show thesis by (rule that)
qed

interpretation tty_ring: bounded_queue tty_enq tty_deq tty_items "\<lambda>_. READ_BUF_SIZE" tty_inv
proof (unfold_locales, goal_cases)
  case (1 q x) then show ?case by (auto simp: tty_enq_def tty_receive_def Let_def)
next
  case (2 q x q') then show ?case by (auto simp: tty_enq_def dest: tty_receive_items)
next
  case (3 q x q') then show ?case by (auto simp: tty_enq_def dest: tty_receive_inv)
next
  case (5 q)
  then have l: "ty_read_pos q < length (ty_read_buf q)" by (simp add: tty_inv_def)
  have "tty_items q = [] \<longleftrightarrow> ty_read_count q = 0" by (simp flip: length_0_conv)
  with l show ?case by (auto simp: tty_deq_def tty_read_char_def Let_def)
next
  case (6 q x q')
  then have "ty_read_count q > 0" by (auto simp: tty_deq_def split: sum.splits if_splits)
  from tty_read_char_items [OF 6(1) this] obtain t' es c where
    "tty_read_char q = Inr (t', es, c)" "tty_items q = ucast c # tty_items t'" .
  then show ?case using 6(2) by (simp add: tty_deq_def split: if_splits)
next
  case (7 q x q') then show ?case
    by (auto simp: tty_deq_def dest: tty_read_char_inv split: sum.splits if_splits)
next
  case (9 q) then show ?case by (simp add: tty_inv_def)
qed simp_all

text \<open>
  Claim C26. The receive buffer delivers the characters of the terminal in order and loses none, through
  any interleaving of the thread that fills it with the reads that empty it: what is in the
  buffer first and what is accepted is what was read and what is left, and never more than
  256 characters wait. The interrupt level is up exactly while some do.
\<close>

theorem tty_receive_in_order:
  assumes "tty_inv t" "queue_run tty_enq tty_deq t ops = (t', ins, outs)"
  shows "tty_items t @ ins = outs @ tty_items t' \<and> length (tty_items t') \<le> READ_BUF_SIZE
    \<and> (ty_int_level t' AND TTY_INT_READ \<noteq> 0 \<longleftrightarrow> tty_items t' \<noteq> [])"
proof -
  from tty_ring.run_fifo_order [OF assms] have o: "tty_items t @ ins = outs @ tty_items t'"
    and v: "tty_inv t'" by auto
  then have "ty_int_level t' AND TTY_INT_READ \<noteq> 0 \<longleftrightarrow> ty_read_count t' > 0"
    by (simp add: tty_inv_def TTY_INT_READ_def)
  moreover have "tty_items t' \<noteq> [] \<longleftrightarrow> ty_read_count t' > 0" by (simp flip: length_greater_0_conv)
  ultimately show ?thesis using o tty_ring.bounded [OF v] by simp
qed

theorem tty_receive_in_order_witness:
  "\<exists>t'. queue_run tty_enq tty_deq tty_state_new [Put 65, Put 66, Get, Put 67, Get]
      = (t', [65, 66, 67], [65, 66])
    \<and> tty_items tty_state_new @ [65, 66, 67] = [65, 66] @ tty_items t'
    \<and> length (tty_items t') \<le> READ_BUF_SIZE
    \<and> (ty_int_level t' AND TTY_INT_READ \<noteq> 0 \<longleftrightarrow> tty_items t' \<noteq> [])"
proof -
  let ?r = "queue_run tty_enq tty_deq tty_state_new [Put 65, Put 66, Get, Put 67, Get]"
  have "snd ?r = ([65, 66, 67], [65, 66])" by code_simp
  then have r: "?r = (fst ?r, [65, 66, 67], [65, 66])" by (metis prod.collapse)
  show ?thesis using r tty_receive_in_order [OF tty_new_inv r] by blast
qed

end
