(* ===== verification/Cpu_Logs.thy ===== *)
theory Cpu_Logs
  imports Complex_Main Rabbits_Prelude
begin

text \<open>
  The time each processor has spent at each frequency (\<^verbatim>\<open>qemu_wrapper/cpu_logs.cpp\<close>) and the
  table of frequencies (\<^verbatim>\<open>qemu_wrapper/cpu_fvs.cpp\<close>). A \<open>double\<close> is an exact rational: the
  rounding of the floating-point operations is not modelled, and a conversion of the
  result of a division by zero, undefined in C++, is reported as one. The graph
  (\<open>TIME_AT_FV_LOG_GRF\<close>) and the file (\<open>TIME_AT_FV_LOG_FILE\<close>) are switched off in every platform.
\<close>

definition arm_cpu_fv :: "ulong list" where
  "arm_cpu_fv = [25, 50, 100, 150, 200, 250, 300, 0]"

definition arm_cpu_fv_percents :: "rat list" where
  "arm_cpu_fv_percents = [25 * 100 / 300, 50 * 100 / 300, 100 * 100 / 300, 150 * 100 / 300,
     200 * 100 / 300, 250 * 100 / 300, 300 * 100 / 300, 0 * 100 / 300]"

definition get_cpu_nb_fv_levels :: nat where
  "get_cpu_nb_fv_levels = length arm_cpu_fv - 1"

definition get_cpu_boot_fv_level :: nat where
  "get_cpu_boot_fv_level = length arm_cpu_fv - 2"

text \<open>
  The three tables are arrays of \<open>m_ncpu\<close> rows of \<open>m_cpu_nb_fv_levels_1\<close> times in nanoseconds.
\<close>

record cpu_logs =
  lg_ncpu :: nat
  lg_ns_time_at_fv :: "u64 list"
  lg_ns_time_at_fv_prev :: "u64 list"
  lg_ns_time_at_fv_measure :: "u64 list"
  lg_hword_ncycles :: "ulong list"
  lg_cpu_nb_fv_levels_1 :: nat
  lg_cpu_nb_fv_levels :: nat
  lg_cpu_fv_percents :: "rat list"
  lg_cpu_fvs :: "ulong list"
  lg_cpu_boot_fv_level :: nat
  lg_cycles_max_fv_per_ns :: rat

text \<open>
  The macros. The one for the measure is defined with the \<open>prev\<close> array, not the \<open>measure\<close> one.
\<close>

definition macro_ns_time_at_fv :: "cpu_logs \<Rightarrow> nat \<Rightarrow> nat \<Rightarrow> u64 res" where
  "macro_ns_time_at_fv l cpu i = rd (lg_ns_time_at_fv l) (cpu * lg_cpu_nb_fv_levels_1 l + i)"

definition macro_ns_time_at_fv_measure :: "cpu_logs \<Rightarrow> nat \<Rightarrow> nat \<Rightarrow> u64 res" where
  "macro_ns_time_at_fv_measure l cpu i = rd (lg_ns_time_at_fv_prev l) (cpu * lg_cpu_nb_fv_levels_1 l + i)"

text \<open>The constructor. Its loop never writes \<open>m_ns_time_at_fv_measure\<close>, which keeps \<open>junk\<close>.\<close>

definition cpu_logs_new :: "u64 list \<Rightarrow> nat \<Rightarrow> cpu_logs" where
  "cpu_logs_new junk ncpu =
     (let levels = get_cpu_nb_fv_levels; n = ncpu * (levels + 1) in
      \<lparr>lg_ncpu = ncpu, lg_ns_time_at_fv = replicate n 0, lg_ns_time_at_fv_prev = replicate n 0,
       lg_ns_time_at_fv_measure = take n junk, lg_hword_ncycles = replicate ncpu (- 1),
       lg_cpu_nb_fv_levels_1 = levels + 1, lg_cpu_nb_fv_levels = levels,
       lg_cpu_fv_percents = arm_cpu_fv_percents, lg_cpu_fvs = arm_cpu_fv,
       lg_cpu_boot_fv_level = get_cpu_boot_fv_level,
       lg_cycles_max_fv_per_ns = of_nat (unat (arm_cpu_fv ! (levels - 1))) / 1000\<rparr>)"

definition logs_add_time_at_fv :: "nat \<Rightarrow> nat \<Rightarrow> u64 \<Rightarrow> cpu_logs \<Rightarrow> cpu_logs res" where
  "logs_add_time_at_fv cpu fv_level time l =
     bindr (macro_ns_time_at_fv l cpu fv_level) (\<lambda>t.
     bindr (wr (lg_ns_time_at_fv l) (cpu * lg_cpu_nb_fv_levels_1 l + fv_level) (t + time)) (\<lambda>ts.
     Inr (l\<lparr>lg_ns_time_at_fv := ts\<rparr>)))"

text \<open>The sum of the truncated cycles, over the levels \<open>is\<close>.\<close>

fun sum_ncycles :: "cpu_logs \<Rightarrow> nat \<Rightarrow> nat list \<Rightarrow> u64 \<Rightarrow> u64 res" where
  "sum_ncycles l cpu [] sm = Inr sm"
| "sum_ncycles l cpu (i # is) sm =
     bindr (macro_ns_time_at_fv l cpu i) (\<lambda>t.
     bindr (rd (lg_cpu_fv_percents l) i) (\<lambda>p.
     sum_ncycles l cpu is (sm + of_int \<lfloor>of_nat (unat t) * p * lg_cycles_max_fv_per_ns l\<rfloor>)))"

text \<open>The low word first; then, for the next call, the high word that was kept.\<close>

definition logs_get_cpu_ncycles :: "nat \<Rightarrow> cpu_logs \<Rightarrow> (cpu_logs \<times> ulong) res" where
  "logs_get_cpu_ncycles cpu l =
     bindr (rd (lg_hword_ncycles l) cpu) (\<lambda>h.
     if h = - 1 then
       bindr (sum_ncycles l cpu [0..<lg_cpu_nb_fv_levels_1 l] 0) (\<lambda>sm.
       bindr (wr (lg_hword_ncycles l) cpu (ucast (drop_bit 32 sm))) (\<lambda>hs.
       Inr (l\<lparr>lg_hword_ncycles := hs\<rparr>, ucast sm)))
     else
       bindr (wr (lg_hword_ncycles l) cpu (- 1)) (\<lambda>hs.
       Inr (l\<lparr>lg_hword_ncycles := hs\<rparr>, h)))"

definition logs_start_measure :: "cpu_logs \<Rightarrow> cpu_logs" where
  "logs_start_measure l = l\<lparr>lg_ns_time_at_fv_measure := lg_ns_time_at_fv l\<rparr>"

text \<open>The double loop of \<open>stop_measure\<close>, the pairs of a processor and a level in the order it takes them.\<close>

fun sum_measure :: "cpu_logs \<Rightarrow> (nat \<times> nat) list \<Rightarrow> rat \<Rightarrow> rat \<Rightarrow> (rat \<times> rat) res" where
  "sum_measure l [] s1 s2 = Inr (s1, s2)"
| "sum_measure l ((cpu, i) # cs) s1 s2 =
     bindr (macro_ns_time_at_fv l cpu i) (\<lambda>t.
     bindr (macro_ns_time_at_fv_measure l cpu i) (\<lambda>m.
     bindr (rd (lg_cpu_fv_percents l) i) (\<lambda>p.
     let d = of_nat (unat (t - m)) in sum_measure l cs (s1 + d * p) (s2 + d))))"

definition logs_stop_measure :: "cpu_logs \<Rightarrow> ulong res" where
  "logs_stop_measure l =
     bindr (sum_measure l (List.product (rev [0..<lg_ncpu l]) [0..<lg_cpu_nb_fv_levels_1 l]) 0 0) (\<lambda>(s1, s2).
     if s2 = 0 then Inl DivByZero else Inr (of_int \<lfloor>s1 / s2 * 100\<rfloor>))"

subsection \<open>Properties\<close>

definition logs_inv :: "cpu_logs \<Rightarrow> bool" where
  "logs_inv l \<longleftrightarrow> length (lg_ns_time_at_fv l) = lg_ncpu l * lg_cpu_nb_fv_levels_1 l
     \<and> length (lg_ns_time_at_fv_prev l) = lg_ncpu l * lg_cpu_nb_fv_levels_1 l
     \<and> length (lg_hword_ncycles l) = lg_ncpu l \<and> length (lg_cpu_fv_percents l) = lg_cpu_nb_fv_levels_1 l"

lemma cpu_logs_new_inv: "logs_inv (cpu_logs_new junk ncpu)"
  by (simp add: logs_inv_def cpu_logs_new_def Let_def arm_cpu_fv_percents_def get_cpu_nb_fv_levels_def arm_cpu_fv_def)

lemma logs_add_time_at_fv_inv: "logs_add_time_at_fv cpu i t l = Inr l' \<Longrightarrow> logs_inv l \<Longrightarrow> logs_inv l'"
  by (auto simp: logs_add_time_at_fv_def logs_inv_def bindr_eq_Inr wr_eq_Inr)

lemma row_bound:
  fixes cpu i n k :: nat
  assumes "cpu < n" "i < k" shows "cpu * k + i < n * k"
proof -
  have "cpu * k + i < Suc cpu * k" using assms(2) by simp
  also have "\<dots> \<le> n * k" using assms(1) by (intro mult_le_mono1) simp
  finally show ?thesis .
qed

lemma sum_ncycles_total:
  assumes "logs_inv l" "cpu < lg_ncpu l" "\<forall>i\<in>set is. i < lg_cpu_nb_fv_levels_1 l"
  shows "\<exists>v. sum_ncycles l cpu is sm = Inr v"
  using assms(3)
proof (induction "is" arbitrary: sm)
  case (Cons i "is")
  then show ?case using assms(1,2) row_bound [of cpu "lg_ncpu l" i "lg_cpu_nb_fv_levels_1 l"]
    by (simp add: macro_ns_time_at_fv_def logs_inv_def)
qed simp

lemma split_u64: "push_bit 32 (ucast (ucast (drop_bit 32 v) :: ulong)) OR ucast (ucast v :: ulong) = (v :: u64)"
proof (rule bit_word_eqI)
  fix n assume "n < LENGTH(64)"
  then show "bit (push_bit 32 (ucast (ucast (drop_bit 32 v) :: ulong)) OR ucast (ucast v :: ulong) :: u64) n = bit v n"
    by (cases "n < 32") (auto simp: bit_simps)
qed

text \<open>
  Two reads of the cycle counter of a processor in a row give the low and the high
  word of one 64-bit count, the sum over the frequency levels of time, frequency and cycles per
  nanosecond, and leave the counter ready for the next pair; the exception is a count whose high
  word is all ones, the value that marks an empty latch.
\<close>

theorem ncycles_low_then_high:
  assumes "logs_inv l" "cpu < lg_ncpu l" "lg_hword_ncycles l ! cpu = - 1"
  shows "\<exists>sm l1 low. sum_ncycles l cpu [0..<lg_cpu_nb_fv_levels_1 l] 0 = Inr sm
    \<and> logs_get_cpu_ncycles cpu l = Inr (l1, low)
    \<and> (ucast (drop_bit 32 sm) \<noteq> (- 1 :: ulong) \<longrightarrow>
        (\<exists>high. logs_get_cpu_ncycles cpu l1 = Inr (l, high) \<and> push_bit 32 (ucast high) OR ucast low = sm))"
proof -
  obtain sm where sm: "sum_ncycles l cpu [0..<lg_cpu_nb_fv_levels_1 l] 0 = Inr sm"
    using sum_ncycles_total [OF assms(1,2), of "[0..<lg_cpu_nb_fv_levels_1 l]" 0] by auto
  have len: "cpu < length (lg_hword_ncycles l)" using assms(1,2) by (simp add: logs_inv_def)
  define l1 where "l1 = l\<lparr>lg_hword_ncycles := (lg_hword_ncycles l)[cpu := ucast (drop_bit 32 sm)]\<rparr>"
  have 1: "logs_get_cpu_ncycles cpu l = Inr (l1, ucast sm)"
    using sm len assms(3) by (simp add: logs_get_cpu_ncycles_def l1_def)
  have restored: "l1\<lparr>lg_hword_ncycles := (lg_hword_ncycles l1)[cpu := - 1]\<rparr> = l"
    using assms(3) list_update_id [of "lg_hword_ncycles l" cpu] by (simp add: l1_def)
  have "logs_get_cpu_ncycles cpu l1 = Inr (l, ucast (drop_bit 32 sm))"
    if "ucast (drop_bit 32 sm) \<noteq> (- 1 :: ulong)"
  proof -
    have "rd (lg_hword_ncycles l1) cpu = Inr (ucast (drop_bit 32 sm))" "cpu < length (lg_hword_ncycles l1)"
      using len by (simp_all add: l1_def)
    then show ?thesis using that restored by (simp add: logs_get_cpu_ncycles_def)
  qed
  with sm 1 split_u64 [of sm] show ?thesis by blast
qed

lemma cpu_logs_new_fields:
  "lg_ncpu (cpu_logs_new junk n) = n" "lg_cpu_nb_fv_levels_1 (cpu_logs_new junk n) = 8"
  "lg_hword_ncycles (cpu_logs_new junk n) = replicate n (- 1)"
  "lg_ns_time_at_fv (cpu_logs_new junk n) = replicate (n * 8) 0"
  "lg_cpu_fv_percents (cpu_logs_new junk n) = arm_cpu_fv_percents"
  "lg_cycles_max_fv_per_ns (cpu_logs_new junk n) = 3 / 10"
  by (simp_all add: cpu_logs_new_def Let_def get_cpu_nb_fv_levels_def arm_cpu_fv_def)

theorem ncycles_low_then_high_witness:
  "\<exists>sm l1 low. sum_ncycles (cpu_logs_new [] 2) 1 [0..<8] 0 = Inr sm
    \<and> logs_get_cpu_ncycles 1 (cpu_logs_new [] 2) = Inr (l1, low)"
proof -
  have h: "1 < lg_ncpu (cpu_logs_new [] 2)" "lg_hword_ncycles (cpu_logs_new [] 2) ! 1 = - 1"
    by (simp_all add: cpu_logs_new_fields)
  show ?thesis using ncycles_low_then_high [OF cpu_logs_new_inv h] unfolding cpu_logs_new_fields by blast
qed

text \<open>
  The cycle count is in hundredths: the frequency enters the sum as a percentage that is never
  divided by 100, so a processor of 300 MHz that has spent \<open>t\<close> nanoseconds at full speed is
  credited with 30 cycles for each of them, not 0.3.
\<close>

theorem ncycles_hundredfold:
  assumes "logs_add_time_at_fv 0 6 (of_nat t) (cpu_logs_new junk 1) = Inr l" "30 * t < 2 ^ 32"
  shows "\<exists>l1. logs_get_cpu_ncycles 0 l = Inr (l1, of_nat (30 * t))"
proof -
  have l: "l = (cpu_logs_new junk 1)\<lparr>lg_ns_time_at_fv := (replicate 8 0)[6 := of_nat t]\<rparr>"
    using assms(1) by (auto simp: logs_add_time_at_fv_def macro_ns_time_at_fv_def cpu_logs_new_fields)
  have t: "unat (of_nat t :: u64) = t" using assms(2) by (simp add: unat_of_nat take_bit_nat_eq_self)
  have tr: "(unsigned (of_nat t :: u64) :: rat) = of_nat t" using t by (metis of_nat_unat)
  have c: "\<lfloor>30 * rat_of_nat t\<rfloor> = int (30 * t)" by (metis floor_of_nat of_nat_mult of_nat_numeral)
  have sm: "sum_ncycles l 0 [0, 1, 2, 3, 4, 5, 6, 7] 0 = Inr (of_nat (30 * t))"
    by (simp add: l macro_ns_time_at_fv_def cpu_logs_new_fields arm_cpu_fv_percents_def tr c)
  have ls: "[0..<8] = [0, 1, 2, 3, 4, 5, 6, 7::nat]" by (simp add: upt_rec)
  have w: "ucast (of_nat m :: u64) = (of_nat m :: ulong)" if "m < 2 ^ 32" for m
    using that by (simp add: unsigned_of_nat take_bit_nat_eq_self)
  show ?thesis
    using sm w [OF assms(2)] by (simp add: logs_get_cpu_ncycles_def l cpu_logs_new_fields ls del: of_nat_mult)
qed

theorem ncycles_hundredfold_witness:
  "\<exists>l l1. logs_add_time_at_fv 0 6 (of_nat 1000) (cpu_logs_new [] 1) = Inr l
    \<and> logs_get_cpu_ncycles 0 l = Inr (l1, 30000)"
proof -
  obtain l where l: "logs_add_time_at_fv 0 6 (of_nat 1000) (cpu_logs_new [] 1) = Inr l"
    by (simp add: logs_add_time_at_fv_def macro_ns_time_at_fv_def cpu_logs_new_fields)
  then show ?thesis using ncycles_hundredfold [OF l] by auto
qed

text \<open>
  \<open>start_measure\<close> does not start a measure: the macro of its array names
  another one, so that the mean use \<open>stop_measure\<close> computes is that since the beginning of the
  simulation, whether and whenever a measure was started, and whatever was logged since.
\<close>

theorem start_measure_ineffective:
  "logs_stop_measure (logs_start_measure l) = logs_stop_measure l
   \<and> bindr (logs_add_time_at_fv cpu i t (logs_start_measure l)) logs_stop_measure
     = bindr (logs_add_time_at_fv cpu i t l) logs_stop_measure"
proof -
  have macros: "macro_ns_time_at_fv (l\<lparr>lg_ns_time_at_fv_measure := m\<rparr>) = macro_ns_time_at_fv l"
    "macro_ns_time_at_fv_measure (l\<lparr>lg_ns_time_at_fv_measure := m\<rparr>) = macro_ns_time_at_fv_measure l" for l m
    by (simp_all add: fun_eq_iff macro_ns_time_at_fv_def macro_ns_time_at_fv_measure_def)
  have "sum_measure (l\<lparr>lg_ns_time_at_fv_measure := m\<rparr>) cs s1 s2 = sum_measure l cs s1 s2" for l m cs s1 s2
    by (induction l cs s1 s2 rule: sum_measure.induct) (simp_all add: macros)
  then have stop: "logs_stop_measure (l\<lparr>lg_ns_time_at_fv_measure := m\<rparr>) = logs_stop_measure l" for l m
    by (simp add: logs_stop_measure_def)
  have "logs_add_time_at_fv cpu i t (l\<lparr>lg_ns_time_at_fv_measure := m\<rparr>)
      = bindr (logs_add_time_at_fv cpu i t l) (\<lambda>l. Inr (l\<lparr>lg_ns_time_at_fv_measure := m\<rparr>))" for m
    by (simp add: logs_add_time_at_fv_def macros bindr_assoc [symmetric] bindr_def split: sum.split)
  with stop show ?thesis by (auto simp: logs_start_measure_def bindr_def split: sum.split)
qed

end
