(* ===== verification/Qemu_Wrapper.thy ===== *)
theory Qemu_Wrapper
  imports Qemu_Cpu Cpu_Logs
begin

text \<open>
  The wrapper of one QEMU instance (\<^verbatim>\<open>qemu_wrapper/qemu_wrapper.cpp\<close>): the interrupt
  inputs, the software interrupts and the interrupt line of each of its processors, and
  the memory-mapped registers through which a processor reaches them
  (\<^verbatim>\<open>qemu_wrapper/qemu_cpu_wrapper.cpp\<close>).

  What the wrapper calls of QEMU, and the events it notifies, are the outputs of its
  operations. A mask of processors is an \<open>int\<close>: there are at most 32 processors.
\<close>

record qemu_wrapper =
  qw_ncpu :: nat
  qw_cpus :: "qemu_cpu_wrapper list"
  qw_cpu_interrupts_raw_status :: "ulong list"
  qw_cpu_interrupts_status :: "ulong list"
  qw_interrupts_raw_status :: ulong
  qw_interrupts_enable :: ulong
  qw_irq_cpu_mask :: "u32 list"
  qw_ninterrupts :: nat
  qw_logs :: cpu_logs

datatype qemu_out = IrqUpdate u32 bool | Wakeup nat | SetFvPercent nat ulong | Sync nat | AddMap ulong ulong bool
  | InvalidateCpuAddress ulong int | EnergyMode nat u32

text \<open>The constructor, the processors in order; \<open>junk\<close> are the fields their constructor leaves.\<close>

fun new_cpus :: "qemu_cpu_wrapper \<Rightarrow> bool \<Rightarrow> ulong \<Rightarrow> ulong \<Rightarrow> ulong \<Rightarrow> nat list \<Rightarrow> qemu_cpu_wrapper list res" where
  "new_cpus junk jw jr node boot [] = Inr []"
| "new_cpus junk jw jr node boot (i # is) =
     bindr (qemu_cpu_new junk jw jr (node + of_nat i) i boot) (\<lambda>c.
     bindr (new_cpus junk jw jr node boot is) (\<lambda>cs. Inr (c # cs)))"

definition qemu_wrapper_new :: "qemu_cpu_wrapper \<Rightarrow> bool \<Rightarrow> ulong \<Rightarrow> u64 list \<Rightarrow> ulong \<Rightarrow> u32 list \<Rightarrow> nat
    \<Rightarrow> qemu_wrapper res" where
  "qemu_wrapper_new junk jw jr jm node int_cpu_mask nocpus =
     (let logs = cpu_logs_new jm nocpus in
      bindr (new_cpus junk jw jr node (of_nat (lg_cpu_boot_fv_level logs)) [0..<nocpus]) (\<lambda>cpus.
      Inr \<lparr>qw_ncpu = nocpus, qw_cpus = cpus, qw_cpu_interrupts_raw_status = replicate nocpus 0,
           qw_cpu_interrupts_status = replicate nocpus 0, qw_interrupts_raw_status = 0,
           qw_interrupts_enable = 0, qw_irq_cpu_mask = int_cpu_mask,
           qw_ninterrupts = length int_cpu_mask, qw_logs = logs\<rparr>))"

definition qw_set_unblocking_write :: "bool \<Rightarrow> qemu_wrapper \<Rightarrow> qemu_wrapper" where
  "qw_set_unblocking_write val q = q\<lparr>qw_cpus := map (cpu_set_unblocking_write val) (qw_cpus q)\<rparr>"

definition qw_add_map :: "ulong \<Rightarrow> ulong \<Rightarrow> qemu_out list" where
  "qw_add_map base_address size' = [AddMap base_address size' False]"

definition qw_set_base_address :: "ulong \<Rightarrow> qemu_wrapper \<Rightarrow> qemu_wrapper \<times> qemu_out list" where
  "qw_set_base_address base_address q =
     (q\<lparr>qw_cpus := map (cpu_set_base_address base_address) (qw_cpus q)\<rparr>,
      [AddMap base_address SIZE_QEMU_WRAPPER_MEMORY True])"

definition qw_invalidate_address :: "ulong \<Rightarrow> int \<Rightarrow> qemu_out list" where
  "qw_invalidate_address addr idx_src = [InvalidateCpuAddress addr idx_src]"

subsection \<open>The interrupt inputs\<close>

datatype port_edge = PosEdge | NegEdge | NoEdge

definition cpu_bit :: "nat \<Rightarrow> u32" where
  "cpu_bit cpu = push_bit cpu 1"

definition swi_of :: "qemu_wrapper \<Rightarrow> nat \<Rightarrow> ulong" where
  "swi_of q cpu = qc_swi (qw_cpus q ! cpu)"

text \<open>The body of the loop over the processors for a rising and for a falling input \<open>i\<close>.\<close>

definition rise_cpu :: "nat \<Rightarrow> ulong \<Rightarrow> nat \<Rightarrow> qemu_wrapper \<times> bool list \<Rightarrow> qemu_wrapper \<times> bool list" where
  "rise_cpu i val cpu = (\<lambda>(q, bup).
     if qw_irq_cpu_mask q ! i AND cpu_bit cpu \<noteq> 0 then
       let q = q\<lparr>qw_cpu_interrupts_raw_status := (qw_cpu_interrupts_raw_status q)
                   [cpu := qw_cpu_interrupts_raw_status q ! cpu OR val]\<rparr>
       in if val AND qw_interrupts_enable q \<noteq> 0 then
            let bup = (if qw_cpu_interrupts_status q ! cpu = 0 then bup[cpu := True] else bup)
            in (q\<lparr>qw_cpu_interrupts_status := (qw_cpu_interrupts_status q)
                    [cpu := qw_cpu_interrupts_status q ! cpu OR val]\<rparr>, bup)
          else (q, bup)
     else (q, bup))"

definition fall_cpu :: "nat \<Rightarrow> ulong \<Rightarrow> nat \<Rightarrow> qemu_wrapper \<times> bool list \<Rightarrow> qemu_wrapper \<times> bool list" where
  "fall_cpu i val cpu = (\<lambda>(q, bdown).
     if qw_irq_cpu_mask q ! i AND cpu_bit cpu \<noteq> 0 then
       let q = q\<lparr>qw_cpu_interrupts_raw_status := (qw_cpu_interrupts_raw_status q)
                   [cpu := qw_cpu_interrupts_raw_status q ! cpu AND NOT val]\<rparr>
       in if val AND qw_interrupts_enable q \<noteq> 0 then
            let q = q\<lparr>qw_cpu_interrupts_status := (qw_cpu_interrupts_status q)
                        [cpu := qw_cpu_interrupts_status q ! cpu AND NOT val]\<rparr>
            in (q, if qw_cpu_interrupts_status q ! cpu = 0 then bdown[cpu := True] else bdown)
          else (q, bdown)
     else (q, bdown))"

text \<open>The loop over the inputs, from input \<open>i\<close> with bit \<open>val\<close> on; the list has their edges.\<close>

fun scan_ports :: "nat \<Rightarrow> ulong \<Rightarrow> port_edge list \<Rightarrow> qemu_wrapper \<times> bool list \<times> bool list
    \<Rightarrow> qemu_wrapper \<times> bool list \<times> bool list" where
  "scan_ports i val [] s = s"
| "scan_ports i val (PosEdge # es) (q, bup, bdown) =
     (let (q, bup) = fold (rise_cpu i val) [0..<qw_ncpu q]
            (q\<lparr>qw_interrupts_raw_status := qw_interrupts_raw_status q OR val\<rparr>, bup)
      in scan_ports (Suc i) (push_bit 1 val) es (q, bup, bdown))"
| "scan_ports i val (NegEdge # es) (q, bup, bdown) =
     (let (q, bdown) = fold (fall_cpu i val) [0..<qw_ncpu q]
            (q\<lparr>qw_interrupts_raw_status := qw_interrupts_raw_status q AND NOT val\<rparr>, bdown)
      in scan_ports (Suc i) (push_bit 1 val) es (q, bup, bdown))"
| "scan_ports i val (NoEdge # es) s = scan_ports (Suc i) (push_bit 1 val) es s"

definition signal_cpu :: "qemu_wrapper \<Rightarrow> bool list \<Rightarrow> bool list \<Rightarrow> nat \<Rightarrow> qemu_out list" where
  "signal_cpu q bup bdown cpu =
     (if bup ! cpu \<and> swi_of q cpu = 0 then [IrqUpdate (cpu_bit cpu) True, Wakeup cpu]
      else if bdown ! cpu \<and> swi_of q cpu = 0 then [IrqUpdate (cpu_bit cpu) False]
      else [])"

definition interrupts_thread :: "port_edge list \<Rightarrow> qemu_wrapper \<Rightarrow> qemu_wrapper \<times> qemu_out list" where
  "interrupts_thread es q =
     (let n = qw_ncpu q;
          (q, bup, bdown) = scan_ports 0 1 es (q, replicate n False, replicate n False)
      in (q, concat (map (signal_cpu q bup bdown) [0..<qw_ncpu q])))"

subsection \<open>The access interface of the processors\<close>

definition generate_swi_cpu :: "ulong \<Rightarrow> ulong \<Rightarrow> nat \<Rightarrow> qemu_wrapper \<times> qemu_out list \<Rightarrow> qemu_wrapper \<times> qemu_out list" where
  "generate_swi_cpu cpu_mask swi cpu = (\<lambda>(q, os).
     if cpu_mask AND cpu_bit cpu \<noteq> 0 then
       (q\<lparr>qw_cpus := (qw_cpus q)[cpu := (qw_cpus q ! cpu)\<lparr>qc_swi := swi_of q cpu OR swi\<rparr>]\<rparr>,
        os @ (if qw_cpu_interrupts_status q ! cpu = 0 then [IrqUpdate (cpu_bit cpu) True, Wakeup cpu] else []))
     else (q, os))"

definition generate_swi :: "ulong \<Rightarrow> ulong \<Rightarrow> qemu_wrapper \<Rightarrow> qemu_wrapper \<times> qemu_out list" where
  "generate_swi cpu_mask swi q = fold (generate_swi_cpu cpu_mask swi) [0..<qw_ncpu q] (q, [])"

definition swi_ack :: "nat \<Rightarrow> ulong \<Rightarrow> qemu_wrapper \<Rightarrow> qemu_wrapper \<times> qemu_out list" where
  "swi_ack cpu swi_mask q =
     (let swi = swi_of q cpu in
      if swi = 0 then (q, [])
      else
        let swi = swi AND NOT swi_mask
        in (q\<lparr>qw_cpus := (qw_cpus q)[cpu := (qw_cpus q ! cpu)\<lparr>qc_swi := swi\<rparr>]\<rparr>,
            if qw_cpu_interrupts_status q ! cpu = 0 \<and> swi = 0 then [IrqUpdate (cpu_bit cpu) False] else []))"

definition get_int_status :: "qemu_wrapper \<Rightarrow> ulong" where
  "get_int_status q = qw_interrupts_raw_status q AND qw_interrupts_enable q"

definition get_int_enable :: "qemu_wrapper \<Rightarrow> ulong" where
  "get_int_enable q = qw_interrupts_enable q"

definition set_int_enable_cpu :: "ulong \<Rightarrow> nat \<Rightarrow> qemu_wrapper \<times> qemu_out list \<Rightarrow> qemu_wrapper \<times> qemu_out list" where
  "set_int_enable_cpu val cpu = (\<lambda>(q, os).
     let status = qw_cpu_interrupts_status q ! cpu; raw = qw_cpu_interrupts_raw_status q ! cpu
     in (q\<lparr>qw_cpu_interrupts_status := (qw_cpu_interrupts_status q)[cpu := raw AND val]\<rparr>,
         os @ (if status = 0 \<and> raw AND val \<noteq> 0 \<and> swi_of q cpu = 0 then [IrqUpdate (cpu_bit cpu) True]
               else if status \<noteq> 0 \<and> raw AND val = 0 \<and> swi_of q cpu = 0 then [IrqUpdate (cpu_bit cpu) False]
               else [])))"

definition set_int_enable :: "ulong \<Rightarrow> qemu_wrapper \<Rightarrow> qemu_wrapper \<times> qemu_out list" where
  "set_int_enable val q =
     (let (q, os) = fold (set_int_enable_cpu val) [0..<qw_ncpu q] (q, [])
      in (q\<lparr>qw_interrupts_enable := val\<rparr>, os))"

subsection \<open>One pass of the interrupt inputs, processor by processor\<close>

definition qw_sizes :: "qemu_wrapper \<Rightarrow> bool" where
  "qw_sizes q \<longleftrightarrow> qw_ncpu q \<le> 32 \<and> length (qw_cpus q) = qw_ncpu q
     \<and> length (qw_cpu_interrupts_raw_status q) = qw_ncpu q
     \<and> length (qw_cpu_interrupts_status q) = qw_ncpu q \<and> qw_ninterrupts q \<le> 32
     \<and> length (qw_irq_cpu_mask q) = qw_ninterrupts q"

lemma map_upt_update: "k < n \<Longrightarrow> (map f [0..<n])[k := v] = map (f(k := v)) [0..<n]"
  by (rule nth_equalityI) (auto simp: nth_list_update)

lemma map_nth_upt: "length xs = n \<Longrightarrow> map ((!) xs) [0..<n] = xs"
  by (auto simp: map_nth)

abbreviation hit :: "qemu_wrapper \<Rightarrow> nat \<Rightarrow> nat \<Rightarrow> bool" where
  "hit q i c \<equiv> qw_irq_cpu_mask q ! i AND cpu_bit c \<noteq> 0"

lemma rise_fold:
  assumes "length (qw_cpu_interrupts_raw_status q) = n" "length (qw_cpu_interrupts_status q) = n"
    and "length bup = n" "k \<le> n"
  shows "fold (rise_cpu i val) [0..<k] (q, bup) =
    (q\<lparr>qw_cpu_interrupts_raw_status := map (\<lambda>c. if c < k \<and> hit q i c
            then qw_cpu_interrupts_raw_status q ! c OR val else qw_cpu_interrupts_raw_status q ! c) [0..<n],
       qw_cpu_interrupts_status := map (\<lambda>c. if c < k \<and> hit q i c \<and> val AND qw_interrupts_enable q \<noteq> 0
            then qw_cpu_interrupts_status q ! c OR val else qw_cpu_interrupts_status q ! c) [0..<n]\<rparr>,
     map (\<lambda>c. bup ! c \<or> c < k \<and> hit q i c \<and> val AND qw_interrupts_enable q \<noteq> 0
            \<and> qw_cpu_interrupts_status q ! c = 0) [0..<n])"
  using assms(4)
proof (induction k)
  case 0
  show ?case using assms(1-3) by (simp add: map_nth_upt)
next
  case (Suc k)
  then have "k < n" by simp
  with Suc show ?case
    by (auto simp: rise_cpu_def Let_def map_upt_update fun_upd_def less_Suc_eq intro!: map_cong [OF refl])
qed

lemma fall_fold:
  assumes "length (qw_cpu_interrupts_raw_status q) = n" "length (qw_cpu_interrupts_status q) = n"
    and "length bdown = n" "k \<le> n"
  shows "fold (fall_cpu i val) [0..<k] (q, bdown) =
    (q\<lparr>qw_cpu_interrupts_raw_status := map (\<lambda>c. if c < k \<and> hit q i c
            then qw_cpu_interrupts_raw_status q ! c AND NOT val else qw_cpu_interrupts_raw_status q ! c) [0..<n],
       qw_cpu_interrupts_status := map (\<lambda>c. if c < k \<and> hit q i c \<and> val AND qw_interrupts_enable q \<noteq> 0
            then qw_cpu_interrupts_status q ! c AND NOT val else qw_cpu_interrupts_status q ! c) [0..<n]\<rparr>,
     map (\<lambda>c. bdown ! c \<or> c < k \<and> hit q i c \<and> val AND qw_interrupts_enable q \<noteq> 0
            \<and> qw_cpu_interrupts_status q ! c AND NOT val = 0) [0..<n])"
  using assms(4)
proof (induction k)
  case 0
  show ?case using assms(1-3) by (simp add: map_nth_upt)
next
  case (Suc k)
  then have "k < n" by simp
  with Suc show ?case
    by (auto simp: fall_cpu_def Let_def map_upt_update fun_upd_def less_Suc_eq intro!: map_cong [OF refl])
qed

definition irq_val :: "nat \<Rightarrow> ulong" where
  "irq_val i = push_bit i 1"

text \<open>
  The pass as one processor sees it: its raw and enabled inputs \<open>r\<close> and \<open>s\<close> and its flags
  \<open>up\<close> and \<open>dn\<close>, with the inputs \<open>h\<close> that are routed to it and the enabled ones \<open>en\<close>.
\<close>

fun scan_one :: "(nat \<Rightarrow> bool) \<Rightarrow> ulong \<Rightarrow> nat \<Rightarrow> port_edge list \<Rightarrow> ulong \<times> ulong \<times> bool \<times> bool
    \<Rightarrow> ulong \<times> ulong \<times> bool \<times> bool" where
  "scan_one h en i [] v = v"
| "scan_one h en i (e # es) (r, s, up, dn) =
     scan_one h en (Suc i) es
       (if \<not> h i then (r, s, up, dn)
        else case e of
            PosEdge \<Rightarrow> (r OR irq_val i, if bit en i then s OR irq_val i else s,
                        up \<or> bit en i \<and> s = 0, dn)
          | NegEdge \<Rightarrow> (r AND NOT (irq_val i), if bit en i then s AND NOT (irq_val i) else s,
                        up, dn \<or> bit en i \<and> s AND NOT (irq_val i) = 0)
          | NoEdge \<Rightarrow> (r, s, up, dn))"

definition cpu_view :: "nat \<Rightarrow> qemu_wrapper \<times> bool list \<times> bool list \<Rightarrow> ulong \<times> ulong \<times> bool \<times> bool" where
  "cpu_view c = (\<lambda>(q, bup, bdown).
     (qw_cpu_interrupts_raw_status q ! c, qw_cpu_interrupts_status q ! c, bup ! c, bdown ! c))"

definition scan_ok :: "nat \<Rightarrow> qemu_wrapper \<times> bool list \<times> bool list \<Rightarrow> bool" where
  "scan_ok n = (\<lambda>(q, bup, bdown). qw_sizes q \<and> qw_ncpu q = n \<and> length bup = n \<and> length bdown = n)"

text \<open>What a pass leaves alone.\<close>

definition same_rest :: "qemu_wrapper \<Rightarrow> qemu_wrapper \<Rightarrow> bool" where
  "same_rest q q' \<longleftrightarrow> qw_cpus q' = qw_cpus q \<and> qw_irq_cpu_mask q' = qw_irq_cpu_mask q
     \<and> qw_interrupts_enable q' = qw_interrupts_enable q \<and> qw_ninterrupts q' = qw_ninterrupts q
     \<and> qw_ncpu q' = qw_ncpu q"

lemma single_bit_and: "irq_val i AND en = 0 \<longleftrightarrow> \<not> bit en i"
  unfolding irq_val_def and.commute [of _ en] using and_push_bit_iff [of en i] by blast

lemma irq_val_Suc [simp]: "push_bit (Suc 0) (irq_val i) = irq_val (Suc i)" "irq_val i * 2 = irq_val (Suc i)"
  by (simp_all add: irq_val_def)

lemma scan_ports_view:
  assumes "scan_ok n (q, bup, bdown)" "i + length es \<le> 32"
  shows "\<exists>q' bup' bdown'. scan_ports i (irq_val i) es (q, bup, bdown) = (q', bup', bdown')
    \<and> scan_ok n (q', bup', bdown') \<and> same_rest q q'
    \<and> (\<forall>c<n. cpu_view c (q', bup', bdown')
          = scan_one (\<lambda>i. hit q i c) (qw_interrupts_enable q) i es (cpu_view c (q, bup, bdown)))"
  using assms
proof (induction es arbitrary: i q bup bdown)
  case Nil
  then show ?case by (simp add: same_rest_def)
next
  case (Cons e es)
  have i: "i < 32" using Cons.prems(2) by simp
  let ?step = "\<lambda>(q1, up1, dn1). scan_ports i (irq_val i) (e # es) (q, bup, bdown)
        = scan_ports (Suc i) (irq_val (Suc i)) es (q1, up1, dn1)
      \<and> scan_ok n (q1, up1, dn1) \<and> same_rest q q1
      \<and> (\<forall>c<n. scan_one (\<lambda>i. hit q i c) (qw_interrupts_enable q) i (e # es) (cpu_view c (q, bup, bdown))
        = scan_one (\<lambda>i. hit q i c) (qw_interrupts_enable q) (Suc i) es (cpu_view c (q1, up1, dn1)))"
  have "\<exists>s1. ?step s1"
  proof (cases e)
    case PosEdge
    let ?q = "q\<lparr>qw_interrupts_raw_status := qw_interrupts_raw_status q OR irq_val i\<rparr>"
    let ?s = "fold (rise_cpu i (irq_val i)) [0..<n] (?q, bup)"
    have l: "length (qw_cpu_interrupts_raw_status ?q) = n" "length (qw_cpu_interrupts_status ?q) = n"
      "length bup = n" "n \<le> n" using Cons.prems(1) by (simp_all add: scan_ok_def qw_sizes_def)
    have "?step (fst ?s, snd ?s, bdown)"
      unfolding PosEdge scan_ports.simps
      using rise_fold [OF l, of i "irq_val i"] Cons.prems(1) i
      by (simp add: scan_ok_def qw_sizes_def same_rest_def cpu_view_def single_bit_and)
    then show ?thesis by blast
  next
    case NegEdge
    let ?q = "q\<lparr>qw_interrupts_raw_status := qw_interrupts_raw_status q AND NOT (irq_val i)\<rparr>"
    let ?s = "fold (fall_cpu i (irq_val i)) [0..<n] (?q, bdown)"
    have l: "length (qw_cpu_interrupts_raw_status ?q) = n" "length (qw_cpu_interrupts_status ?q) = n"
      "length bdown = n" "n \<le> n" using Cons.prems(1) by (simp_all add: scan_ok_def qw_sizes_def)
    have "?step (fst ?s, bup, snd ?s)"
      unfolding NegEdge scan_ports.simps
      using fall_fold [OF l, of i "irq_val i"] Cons.prems(1) i
      by (simp add: scan_ok_def qw_sizes_def same_rest_def cpu_view_def single_bit_and)
    then show ?thesis by blast
  next
    case NoEdge
    then have "?step (q, bup, bdown)" using Cons.prems(1) by (simp add: same_rest_def cpu_view_def)
    then show ?thesis by blast
  qed
  then obtain q1 up1 dn1 where s1: "scan_ports i (irq_val i) (e # es) (q, bup, bdown)
        = scan_ports (Suc i) (irq_val (Suc i)) es (q1, up1, dn1)"
    and 1: "scan_ok n (q1, up1, dn1)" "same_rest q q1"
    and v1: "\<forall>c<n. scan_one (\<lambda>i. hit q i c) (qw_interrupts_enable q) i (e # es) (cpu_view c (q, bup, bdown))
        = scan_one (\<lambda>i. hit q i c) (qw_interrupts_enable q) (Suc i) es (cpu_view c (q1, up1, dn1))"
    by auto
  from Cons.IH [OF 1(1), of "Suc i"] Cons.prems(2) obtain q' bup' bdown' where
    "scan_ports (Suc i) (irq_val (Suc i)) es (q1, up1, dn1) = (q', bup', bdown')"
    "scan_ok n (q', bup', bdown')" "same_rest q1 q'"
    "\<forall>c<n. cpu_view c (q', bup', bdown')
       = scan_one (\<lambda>i. hit q1 i c) (qw_interrupts_enable q1) (Suc i) es (cpu_view c (q1, up1, dn1))" by auto
  with s1 1(2) v1 show ?case by (auto simp: same_rest_def)
qed

lemma bit_irq_val: "bit (irq_val i) k \<longleftrightarrow> k = i \<and> k < 32"
  by (auto simp: irq_val_def bit_simps)

text \<open>The effect of one input on \<open>s\<close>, when \<open>s\<close> is the enabled part of \<open>r\<close>.\<close>

lemma enabled_rise:
  "(r OR irq_val i) AND en = (if bit en i then (r AND en) OR irq_val i else r AND en)"
  by (rule bit_word_eqI) (auto simp: bit_simps bit_irq_val)

lemma enabled_fall:
  "(r AND NOT (irq_val i)) AND en = (if bit en i then (r AND en) AND NOT (irq_val i) else r AND en)"
  by (rule bit_word_eqI) (auto simp: bit_simps bit_irq_val)

lemma rise_nonzero: "i < 32 \<Longrightarrow> s OR irq_val i \<noteq> 0"
  using bit_irq_val [of i i] by (metis bit_0_eq bit_or_iff bot_apply bot_bool_def)

lemma bit_nonzero: "bit (s::ulong) k \<Longrightarrow> s \<noteq> 0"
  by auto

text \<open>
  A risen input stays for the rest of the pass, since every later input has another bit:
  once \<open>up\<close> is set, \<open>s\<close> is not zero at the end, and \<open>dn\<close> without \<open>up\<close> means that it is.
\<close>

definition flags_ok :: "ulong \<Rightarrow> bool \<Rightarrow> nat \<Rightarrow> ulong \<times> ulong \<times> bool \<times> bool \<Rightarrow> bool" where
  "flags_ok en was i = (\<lambda>(r, s, up, dn). s = r AND en \<and> (up \<longrightarrow> (\<exists>k<i. bit s k))
     \<and> (dn \<and> \<not> up \<longrightarrow> s = 0) \<and> (\<not> up \<and> \<not> dn \<longrightarrow> (s \<noteq> 0) = was))"

lemma flags_rise:
  assumes f: "flags_ok en was i (r, s, up, dn)" and i: "i < 32"
  shows "flags_ok en was (Suc i) (r OR irq_val i, if bit en i then s OR irq_val i else s, up \<or> bit en i \<and> s = 0, dn)"
proof (cases "bit en i")
  case True
  have "bit (s OR irq_val i) i" using i by (simp add: bit_simps bit_irq_val)
  then have "\<exists>k<Suc i. bit (s OR irq_val i) k" by blast
  with f True rise_nonzero [OF i, of s] show ?thesis by (auto simp: flags_ok_def enabled_rise)
next
  case False
  with f show ?thesis by (auto simp: flags_ok_def enabled_rise less_Suc_eq)
qed

lemma flags_fall:
  assumes f: "flags_ok en was i (r, s, up, dn)"
  shows "flags_ok en was (Suc i) (r AND NOT (irq_val i), if bit en i then s AND NOT (irq_val i) else s, up,
    dn \<or> bit en i \<and> s AND NOT (irq_val i) = 0)"
proof (cases "bit en i")
  case True
  have "\<exists>k<Suc i. bit (s AND NOT (irq_val i)) k" if "k < i" "bit s k" for k
    using that bit_imp_le_length [OF that(2)]
    by (intro exI [of _ k]) (simp add: bit_simps bit_irq_val)
  moreover have "s AND NOT (irq_val i) = 0" if "s = 0" using that by simp
  ultimately show ?thesis using f True by (auto simp: flags_ok_def enabled_fall)
next
  case False
  with f show ?thesis by (auto simp: flags_ok_def enabled_fall less_Suc_eq)
qed

lemma flags_skip: "flags_ok en was i v \<Longrightarrow> flags_ok en was (Suc i) v"
  by (auto simp: flags_ok_def less_Suc_eq)

lemma scan_one_flags:
  "flags_ok en was i v \<Longrightarrow> i + length es \<le> 32 \<Longrightarrow> flags_ok en was (i + length es) (scan_one h en i es v)"
proof (induction es arbitrary: i v)
  case (Cons e es)
  obtain r s up dn where v: "v = (r, s, up, dn)" by (cases v) auto
  have i: "i < 32" using Cons.prems(2) by simp
  show ?case
  proof (cases "h i")
    case False
    with Cons.IH [OF flags_skip [OF Cons.prems(1)]] Cons.prems(2) show ?thesis by (simp add: v)
  next
    case True
    then show ?thesis
      using Cons.IH [OF flags_rise [OF Cons.prems(1) [unfolded v] i]]
        Cons.IH [OF flags_fall [OF Cons.prems(1) [unfolded v]]]
        Cons.IH [OF flags_skip [OF Cons.prems(1) [unfolded v]]] Cons.prems(2)
      by (cases e) (simp_all add: v)
  qed
qed simp

subsection \<open>The interrupt line of a processor\<close>

text \<open>The line of processor \<open>c\<close> after a sequence of outputs.\<close>

fun level :: "nat \<Rightarrow> qemu_out list \<Rightarrow> bool \<Rightarrow> bool" where
  "level c [] b = b"
| "level c (IrqUpdate m l # os) b = level c os (if bit m c then l else b)"
| "level c (_ # os) b = level c os b"

lemma level_append [simp]: "level c (os @ os') b = level c os' (level c os b)"
  by (induction c os b rule: level.induct) auto

lemma bit_cpu_bit: "bit (cpu_bit c') c \<longleftrightarrow> c = c' \<and> c < 32"
  by (auto simp: cpu_bit_def bit_simps)

text \<open>Outputs made for the processors one by one: only those for \<open>c\<close> concern its line.\<close>

lemma level_each:
  assumes "\<And>c' b. c' \<noteq> c \<Longrightarrow> level c (f c') b = b"
  shows "level c (concat (map f [0..<n])) b = (if c < n then level c (f c) b else b)"
  by (induction n) (auto simp: assms less_Suc_eq)

lemma level_signal:
  "c < 32 \<Longrightarrow> level c (signal_cpu q bup bdown c') b =
    (if c' = c \<and> swi_of q c = 0 \<and> (bup ! c \<or> bdown ! c) then bup ! c else b)"
  by (auto simp: signal_cpu_def bit_cpu_bit)

lemma set_int_enable_fold:
  assumes "length (qw_cpu_interrupts_status q) = n" "k \<le> n"
  shows "fold (set_int_enable_cpu val) [0..<k] (q, []) =
    (q\<lparr>qw_cpu_interrupts_status := map (\<lambda>c. if c < k then qw_cpu_interrupts_raw_status q ! c AND val
          else qw_cpu_interrupts_status q ! c) [0..<n]\<rparr>,
     concat (map (\<lambda>c. snd (set_int_enable_cpu val c (q, []))) [0..<k]))"
  using assms(2)
proof (induction k)
  case 0
  then show ?case using assms(1) by (simp add: map_nth_upt)
next
  case (Suc k)
  then have "k < n" by simp
  with Suc show ?case
    by (auto simp: set_int_enable_cpu_def Let_def map_upt_update fun_upd_def less_Suc_eq swi_of_def
        intro!: map_cong [OF refl])
qed

lemma generate_swi_fold:
  assumes "length (qw_cpus q) = n" "k \<le> n"
  shows "fold (generate_swi_cpu m swi) [0..<k] (q, []) =
    (q\<lparr>qw_cpus := map (\<lambda>c. if c < k \<and> m AND cpu_bit c \<noteq> 0 then (qw_cpus q ! c)\<lparr>qc_swi := swi_of q c OR swi\<rparr>
          else qw_cpus q ! c) [0..<n]\<rparr>,
     concat (map (\<lambda>c. snd (generate_swi_cpu m swi c (q, []))) [0..<k]))"
  using assms(2)
proof (induction k)
  case 0
  then show ?case using assms(1) by (simp add: map_nth_upt)
next
  case (Suc k)
  then have "k < n" by simp
  with Suc show ?case
    by (auto simp: generate_swi_cpu_def Let_def map_upt_update fun_upd_def less_Suc_eq swi_of_def
        intro!: map_cong [OF refl])
qed

text \<open>
  What can happen to the interrupts of a wrapper: a pass for edges of its inputs, and the
  calls of its processors.
\<close>

datatype qw_action = Edges "port_edge list" | GenerateSwi ulong ulong | SwiAck nat ulong | SetIntEnable ulong

definition qw_do :: "qw_action \<Rightarrow> qemu_wrapper \<Rightarrow> qemu_wrapper \<times> qemu_out list" where
  "qw_do a q = (case a of
      Edges es \<Rightarrow> interrupts_thread es q
    | GenerateSwi m swi \<Rightarrow> generate_swi m swi q
    | SwiAck c m \<Rightarrow> swi_ack c m q
    | SetIntEnable v \<Rightarrow> set_int_enable v q)"

fun qw_run :: "qw_action list \<Rightarrow> qemu_wrapper \<Rightarrow> qemu_wrapper \<times> qemu_out list" where
  "qw_run [] q = (q, [])"
| "qw_run (a # as) q = (let (q, os) = qw_do a q; (q, os') = qw_run as q in (q, os @ os'))"

text \<open>The edges are those of the inputs, and the value of a software interrupt is not zero.\<close>

fun action_ok :: "nat \<Rightarrow> nat \<Rightarrow> qw_action \<Rightarrow> bool" where
  "action_ok n k (Edges es) \<longleftrightarrow> length es = k"
| "action_ok n k (GenerateSwi m swi) \<longleftrightarrow> swi \<noteq> 0"
| "action_ok n k (SwiAck c m) \<longleftrightarrow> c < n"
| "action_ok n k (SetIntEnable v) \<longleftrightarrow> True"

definition irq_wanted :: "qemu_wrapper \<Rightarrow> nat \<Rightarrow> bool" where
  "irq_wanted q c \<longleftrightarrow> qw_cpu_interrupts_status q ! c \<noteq> 0 \<or> swi_of q c \<noteq> 0"

definition qw_inv :: "qemu_wrapper \<Rightarrow> bool" where
  "qw_inv q \<longleftrightarrow> qw_sizes q \<and> (\<forall>c < qw_ncpu q. qw_cpu_interrupts_status q ! c
     = qw_cpu_interrupts_raw_status q ! c AND qw_interrupts_enable q)"

definition step_good :: "qemu_wrapper \<Rightarrow> qemu_wrapper \<times> qemu_out list \<Rightarrow> bool" where
  "step_good q = (\<lambda>(q', os). qw_inv q' \<and> qw_ncpu q' = qw_ncpu q \<and> qw_ninterrupts q' = qw_ninterrupts q
     \<and> (\<forall>c < qw_ncpu q. \<forall>b. b = irq_wanted q c \<longrightarrow> level c os b = irq_wanted q' c))"

lemma interrupts_thread_good:
  assumes v: "qw_inv q" and l: "length es = qw_ninterrupts q"
  shows "step_good q (interrupts_thread es q)"
proof -
  define n where "n = qw_ncpu q"
  have n32: "n \<le> 32" and l32: "length es \<le> 32" and sz: "qw_sizes q"
    using v l by (simp_all add: qw_inv_def qw_sizes_def n_def)
  have v1: "irq_val 0 = 1" by (simp add: irq_val_def)
  have "scan_ok n (q, replicate n False, replicate n False)" using sz by (simp add: scan_ok_def n_def)
  from scan_ports_view [OF this, of 0 es] l32 v1 obtain q' up dn where
    s: "scan_ports 0 1 es (q, replicate n False, replicate n False) = (q', up, dn)"
    "scan_ok n (q', up, dn)" "same_rest q q'"
    and view: "\<And>c. c < n \<Longrightarrow> cpu_view c (q', up, dn)
      = scan_one (\<lambda>i. hit q i c) (qw_interrupts_enable q) 0 es (cpu_view c (q, replicate n False, replicate n False))"
    by auto
  have q'n: "qw_ncpu q' = n" using s(2) by (simp add: scan_ok_def)
  have it: "interrupts_thread es q = (q', concat (map (signal_cpu q' up dn) [0..<n]))"
    using s(1) q'n by (simp add: interrupts_thread_def Let_def n_def)
  have fl: "flags_ok (qw_interrupts_enable q') (qw_cpu_interrupts_status q ! c \<noteq> 0) (length es) (cpu_view c (q', up, dn))"
    if c: "c < n" for c
    unfolding view [OF c] using scan_one_flags [of "qw_interrupts_enable q" "qw_cpu_interrupts_status q ! c \<noteq> 0" 0
        "cpu_view c (q, replicate n False, replicate n False)" es] v c s(3) l32
    by (simp add: flags_ok_def cpu_view_def qw_inv_def n_def same_rest_def)
  have "qw_inv q'" using fl s(2) by (simp add: qw_inv_def scan_ok_def flags_ok_def cpu_view_def)
  moreover have "level c (concat (map (signal_cpu q' up dn) [0..<n])) (irq_wanted q c) = irq_wanted q' c"
    if c: "c < n" for c
  proof -
    have c32: "c < 32" using c n32 by simp
    have sw: "swi_of q' c = swi_of q c" using s(3) by (simp add: swi_of_def same_rest_def)
    have "level c (concat (map (signal_cpu q' up dn) [0..<n])) (irq_wanted q c)
        = level c (signal_cpu q' up dn c) (irq_wanted q c)"
      using level_each [of c "signal_cpu q' up dn" n "irq_wanted q c"] c level_signal [OF c32] by simp
    also have "\<dots> = irq_wanted q' c"
      using fl [OF c] sw bit_nonzero
      by (auto simp: level_signal [OF c32] irq_wanted_def flags_ok_def cpu_view_def)
    finally show ?thesis .
  qed
  ultimately show ?thesis using s(3) q'n by (simp add: step_good_def it n_def same_rest_def)
qed

lemma set_int_enable_good:
  assumes v: "qw_inv q"
  shows "step_good q (set_int_enable val q)"
proof -
  define n where "n = qw_ncpu q"
  have n32: "n \<le> 32" and l: "length (qw_cpu_interrupts_status q) = n" "n \<le> n"
    using v by (simp_all add: qw_inv_def qw_sizes_def n_def)
  let ?f = "\<lambda>c. snd (set_int_enable_cpu val c (q, []))"
  define q' where "q' = (fst (fold (set_int_enable_cpu val) [0..<n] (q, [])))\<lparr>qw_interrupts_enable := val\<rparr>"
  have e: "set_int_enable val q = (q', concat (map ?f [0..<n]))"
    using set_int_enable_fold [OF l, of val] by (simp add: set_int_enable_def n_def q'_def)
  have q': "qw_sizes q'" "qw_ncpu q' = n" "qw_ninterrupts q' = qw_ninterrupts q" "qw_interrupts_enable q' = val"
    "qw_cpus q' = qw_cpus q" "qw_cpu_interrupts_raw_status q' = qw_cpu_interrupts_raw_status q"
    "\<And>c. c < n \<Longrightarrow> qw_cpu_interrupts_status q' ! c = qw_cpu_interrupts_raw_status q ! c AND val"
    using v set_int_enable_fold [OF l, of val] by (simp_all add: q'_def qw_inv_def qw_sizes_def n_def)
  have "level c (concat (map ?f [0..<n])) (irq_wanted q c) = irq_wanted q' c" if c: "c < n" for c
  proof -
    have c32: "c < 32" using c n32 by simp
    have "level c (?f c') b = b" if "c' \<noteq> c" for c' b
      using that by (simp add: set_int_enable_cpu_def Let_def bit_cpu_bit)
    then have "level c (concat (map ?f [0..<n])) (irq_wanted q c) = level c (?f c) (irq_wanted q c)"
      using c by (simp add: level_each [of c ?f])
    also have "\<dots> = irq_wanted q' c"
      using q' c c32 by (auto simp: set_int_enable_cpu_def Let_def bit_cpu_bit irq_wanted_def swi_of_def)
    finally show ?thesis .
  qed
  with q' show ?thesis by (simp add: step_good_def e qw_inv_def n_def)
qed

lemma generate_swi_good:
  assumes v: "qw_inv q" and swi: "swi \<noteq> 0"
  shows "step_good q (generate_swi m swi q)"
proof -
  define n where "n = qw_ncpu q"
  have n32: "n \<le> 32" and l: "length (qw_cpus q) = n" "n \<le> n"
    using v by (simp_all add: qw_inv_def qw_sizes_def n_def)
  let ?f = "\<lambda>c. snd (generate_swi_cpu m swi c (q, []))"
  define q' where "q' = fst (generate_swi m swi q)"
  have e: "generate_swi m swi q = (q', concat (map ?f [0..<n]))"
    using generate_swi_fold [OF l, of m swi] by (simp add: generate_swi_def n_def q'_def)
  have q': "qw_inv q'" "qw_ncpu q' = n" "qw_ninterrupts q' = qw_ninterrupts q"
    "qw_cpu_interrupts_status q' = qw_cpu_interrupts_status q"
    "\<And>c. c < n \<Longrightarrow> swi_of q' c = (if m AND cpu_bit c \<noteq> 0 then swi_of q c OR swi else swi_of q c)"
    using v generate_swi_fold [OF l, of m swi]
    by (simp_all add: q'_def generate_swi_def qw_inv_def qw_sizes_def n_def swi_of_def)
  have nz: "s OR swi \<noteq> 0" for s using swi by (metis or_eq_0_iff)
  have "level c (concat (map ?f [0..<n])) (irq_wanted q c) = irq_wanted q' c" if c: "c < n" for c
  proof -
    have c32: "c < 32" using c n32 by simp
    have "level c (?f c') b = b" if "c' \<noteq> c" for c' b
      using that by (simp add: generate_swi_cpu_def bit_cpu_bit)
    then have "level c (concat (map ?f [0..<n])) (irq_wanted q c) = level c (?f c) (irq_wanted q c)"
      using c by (simp add: level_each [of c ?f])
    also have "\<dots> = irq_wanted q' c"
      using q'(4,5) c c32 nz by (auto simp: generate_swi_cpu_def bit_cpu_bit irq_wanted_def)
    finally show ?thesis .
  qed
  with q' show ?thesis by (simp add: step_good_def e n_def)
qed

lemma swi_ack_good:
  assumes v: "qw_inv q" and a: "a < qw_ncpu q"
  shows "step_good q (swi_ack a m q)"
proof -
  have l: "length (qw_cpus q) = qw_ncpu q" "qw_ncpu q \<le> 32" using v by (simp_all add: qw_inv_def qw_sizes_def)
  show ?thesis
    using v a l
    by (auto simp: step_good_def swi_ack_def Let_def qw_inv_def qw_sizes_def irq_wanted_def swi_of_def
        bit_cpu_bit nth_list_update)
qed

lemma qw_run_good:
  assumes "qw_inv q" "list_all (action_ok (qw_ncpu q) (qw_ninterrupts q)) as"
  shows "step_good q (qw_run as q)"
  using assms
proof (induction "as" arbitrary: q)
  case Nil
  then show ?case by (simp add: step_good_def)
next
  case (Cons a "as")
  obtain q1 os where d: "qw_do a q = (q1, os)" by fastforce
  have "step_good q (q1, os)"
    using Cons.prems d [symmetric]
    by (cases a) (auto simp: qw_do_def interrupts_thread_good generate_swi_good swi_ack_good set_int_enable_good)
  moreover from this Cons.IH [of q1] Cons.prems(2) have "step_good q1 (qw_run as q1)"
    by (simp add: step_good_def)
  ultimately show ?case by (auto simp: d step_good_def split: prod.splits)
qed

lemma qemu_wrapper_new_inv:
  assumes "qemu_wrapper_new junk jw jr jm node msk n = Inr q" "n \<le> 32" "length msk \<le> 32"
  shows "qw_inv q" "qw_ncpu q = n" "qw_ninterrupts q = length msk" "c < n \<Longrightarrow> \<not> irq_wanted q c"
    "qw_irq_cpu_mask q = msk" "qw_cpu_interrupts_raw_status q = replicate n 0"
proof -
  have len: "new_cpus junk jw jr node boot is = Inr cs \<Longrightarrow> length cs = length is
      \<and> (\<forall>c\<in>set cs. qc_swi c = 0)" for boot "is" cs
    by (induction "is" arbitrary: cs) (auto simp: bindr_eq_Inr qemu_cpu_new_def)
  from assms(1) obtain cs boot where q: "new_cpus junk jw jr node boot [0..<n] = Inr cs"
    "q = \<lparr>qw_ncpu = n, qw_cpus = cs, qw_cpu_interrupts_raw_status = replicate n 0,
           qw_cpu_interrupts_status = replicate n 0, qw_interrupts_raw_status = 0,
           qw_interrupts_enable = 0, qw_irq_cpu_mask = msk,
           qw_ninterrupts = length msk, qw_logs = cpu_logs_new jm n\<rparr>"
    by (auto simp: qemu_wrapper_new_def Let_def bindr_eq_Inr)
  from len [OF q(1)] assms(2,3) show "qw_inv q" "qw_ncpu q = n" "qw_ninterrupts q = length msk"
    "c < n \<Longrightarrow> \<not> irq_wanted q c" "qw_irq_cpu_mask q = msk"
    "qw_cpu_interrupts_raw_status q = replicate n 0"
    by (auto simp: q(2) qw_inv_def qw_sizes_def irq_wanted_def swi_of_def)
qed

subsection \<open>The raw status and the inputs\<close>

text \<open>The levels of the inputs after a pass and after a sequence of actions, all low before.\<close>

definition edges_applied :: "port_edge list \<Rightarrow> (nat \<Rightarrow> bool) \<Rightarrow> nat \<Rightarrow> bool" where
  "edges_applied es inp i = (if i < length es
     then (case es ! i of PosEdge \<Rightarrow> True | NegEdge \<Rightarrow> False | NoEdge \<Rightarrow> inp i) else inp i)"

fun inputs_after :: "qw_action list \<Rightarrow> (nat \<Rightarrow> bool) \<Rightarrow> nat \<Rightarrow> bool" where
  "inputs_after [] inp = inp"
| "inputs_after (Edges es # as) inp = inputs_after as (edges_applied es inp)"
| "inputs_after (_ # as) inp = inputs_after as inp"

definition raw_ok :: "qemu_wrapper \<Rightarrow> (nat \<Rightarrow> bool) \<Rightarrow> bool" where
  "raw_ok q inp \<longleftrightarrow> (\<forall>c < qw_ncpu q. \<forall>i. bit (qw_cpu_interrupts_raw_status q ! c) i
     \<longleftrightarrow> i < qw_ninterrupts q \<and> hit q i c \<and> inp i)"

lemma scan_one_raw:
  "i + length es \<le> 32 \<Longrightarrow> bit (fst (scan_one h en i es v)) k \<longleftrightarrow>
    (if i \<le> k \<and> k < i + length es \<and> h k
     then (case es ! (k - i) of PosEdge \<Rightarrow> True | NegEdge \<Rightarrow> False | NoEdge \<Rightarrow> bit (fst v) k)
     else bit (fst v) k)"
proof (induction es arbitrary: i v k)
  case (Cons e es)
  obtain r s up dn where v: "v = (r, s, up, dn)" by (cases v) auto
  from Cons.prems have i: "i < 32" "Suc i + length es \<le> 32" by simp_all
  consider "k = i" | "Suc i \<le> k" | "k < i" by linarith
  then show ?case
  proof cases
    case 1
    then show ?thesis using i by (cases e) (simp_all add: Cons.IH [OF i(2)] v bit_simps bit_irq_val)
  next
    case 2
    then have "(e # es) ! (k - i) = es ! (k - Suc i)" by (simp add: nth_Cons' )
    with 2 show ?thesis using bit_imp_le_length [of r k]
      by (cases e) (auto simp: Cons.IH [OF i(2)] v bit_simps bit_irq_val split: port_edge.split)
  next
    case 3
    then show ?thesis using bit_imp_le_length [of r k]
      by (cases e) (auto simp: Cons.IH [OF i(2)] v bit_simps bit_irq_val)
  qed
qed auto

lemma interrupts_thread_raw:
  assumes v: "qw_inv q" and l: "length es = qw_ninterrupts q" and r: "raw_ok q inp"
  shows "raw_ok (fst (interrupts_thread es q)) (edges_applied es inp)
    \<and> qw_irq_cpu_mask (fst (interrupts_thread es q)) = qw_irq_cpu_mask q"
proof -
  define n where "n = qw_ncpu q"
  have l32: "length es \<le> 32" and sz: "qw_sizes q"
    using v l by (simp_all add: qw_inv_def qw_sizes_def n_def)
  have v1: "irq_val 0 = 1" by (simp add: irq_val_def)
  have "scan_ok n (q, replicate n False, replicate n False)" using sz by (simp add: scan_ok_def n_def)
  from scan_ports_view [OF this, of 0 es] l32 v1 obtain q' up dn where
    s: "scan_ports 0 1 es (q, replicate n False, replicate n False) = (q', up, dn)" "same_rest q q'"
    and view: "\<And>c. c < n \<Longrightarrow> cpu_view c (q', up, dn)
      = scan_one (\<lambda>i. hit q i c) (qw_interrupts_enable q) 0 es (cpu_view c (q, replicate n False, replicate n False))"
    by auto
  have it: "fst (interrupts_thread es q) = q'" using s(1) by (simp add: interrupts_thread_def Let_def n_def)
  have raw': "qw_cpu_interrupts_raw_status q' ! c = fst (cpu_view c (q', up, dn))" for c
    by (simp add: cpu_view_def)
  have "bit (qw_cpu_interrupts_raw_status q' ! c) i \<longleftrightarrow> i < qw_ninterrupts q \<and> hit q i c \<and> edges_applied es inp i"
    if c: "c < n" for c i
    unfolding raw' view [OF c] using scan_one_raw [of 0 es "\<lambda>i. hit q i c" "qw_interrupts_enable q"
        "cpu_view c (q, replicate n False, replicate n False)" i] l32 r c l
    by (auto simp: raw_ok_def n_def cpu_view_def edges_applied_def split: port_edge.split)
  with s(2) show ?thesis unfolding it by (simp add: raw_ok_def n_def same_rest_def)
qed

lemma qw_do_raw:
  assumes "qw_inv q" "action_ok (qw_ncpu q) (qw_ninterrupts q) a" "raw_ok q inp"
  shows "raw_ok (fst (qw_do a q)) (inputs_after [a] inp) \<and> qw_irq_cpu_mask (fst (qw_do a q)) = qw_irq_cpu_mask q"
proof (cases a)
  case (Edges es)
  with assms interrupts_thread_raw [of q es inp] show ?thesis by (simp add: qw_do_def)
next
  case (GenerateSwi m s)
  have l: "length (qw_cpus q) = qw_ncpu q" using assms(1) by (simp add: qw_inv_def qw_sizes_def)
  show ?thesis using assms(3) generate_swi_fold [OF l order_refl, of m s] GenerateSwi
    by (simp add: qw_do_def generate_swi_def raw_ok_def)
next
  case (SwiAck c m)
  then show ?thesis using assms(3) by (simp add: qw_do_def swi_ack_def Let_def raw_ok_def)
next
  case (SetIntEnable val)
  have l: "length (qw_cpu_interrupts_status q) = qw_ncpu q" using assms(1) by (simp add: qw_inv_def qw_sizes_def)
  show ?thesis using assms(3) set_int_enable_fold [OF l order_refl, of val] SetIntEnable
    by (simp add: qw_do_def set_int_enable_def raw_ok_def)
qed

lemma qw_do_good:
  "qw_inv q \<Longrightarrow> action_ok (qw_ncpu q) (qw_ninterrupts q) a \<Longrightarrow> step_good q (qw_do a q)"
  by (cases a) (auto simp: qw_do_def interrupts_thread_good generate_swi_good swi_ack_good set_int_enable_good)

lemma qw_run_raw:
  assumes "qw_inv q" "list_all (action_ok (qw_ncpu q) (qw_ninterrupts q)) as" "raw_ok q inp"
  shows "raw_ok (fst (qw_run as q)) (inputs_after as inp) \<and> qw_irq_cpu_mask (fst (qw_run as q)) = qw_irq_cpu_mask q"
  using assms
proof (induction "as" arbitrary: q inp)
  case (Cons a "as")
  obtain q1 os where d: "qw_do a q = (q1, os)" by fastforce
  have g: "qw_inv q1" "qw_ncpu q1 = qw_ncpu q" "qw_ninterrupts q1 = qw_ninterrupts q"
    using qw_do_good [of q a] Cons.prems d by (simp_all add: step_good_def)
  have "raw_ok q1 (inputs_after [a] inp)" "qw_irq_cpu_mask q1 = qw_irq_cpu_mask q"
    using qw_do_raw [of q a inp] Cons.prems d by simp_all
  moreover have "fst (qw_run (a # as) q) = fst (qw_run as q1)" by (simp add: d split: prod.splits)
  moreover have "inputs_after (a # as) inp = inputs_after as (inputs_after [a] inp)" by (cases a) simp_all
  ultimately show ?case using Cons.IH [of q1 "inputs_after [a] inp"] Cons.prems(2) g
    by simp
qed simp

text \<open>
  Claim C8. The interrupt line of every processor is right: after any sequence of edges of the interrupt inputs (several in
  one pass included), software interrupts, acknowledgements and changes of the enable mask,
  the last level QEMU was given for a processor is high exactly if an input that is routed to it and enabled is high, or a
  software interrupt is not acknowledged.
\<close>

theorem irq_line_correct:
  assumes "qemu_wrapper_new junk jw jr jm node msk n = Inr q0" "n \<le> 32" "length msk \<le> 32"
    and "list_all (action_ok n (length msk)) as" "qw_run as q0 = (q, os)" "c < n"
  shows "level c os False \<longleftrightarrow> qc_swi (qw_cpus q ! c) \<noteq> 0
    \<or> (\<exists>i < length msk. msk ! i AND cpu_bit c \<noteq> 0 \<and> inputs_after as (\<lambda>_. False) i \<and> bit (qw_interrupts_enable q) i)"
proof -
  note new = qemu_wrapper_new_inv [OF assms(1-3)]
  from qw_run_good [of q0 "as"] new assms(4,5) have g: "step_good q0 (q, os)" by simp
  have k: "qw_irq_cpu_mask q0 = msk" "raw_ok q0 (\<lambda>_. False)"
    using new by (simp_all add: raw_ok_def)
  with qw_run_raw [of q0 "as"] new assms(4,5)
  have r: "raw_ok q (inputs_after as (\<lambda>_. False))" "qw_irq_cpu_mask q = msk" by simp_all
  have st: "qw_cpu_interrupts_status q ! c = qw_cpu_interrupts_raw_status q ! c AND qw_interrupts_enable q"
    and lv: "level c os False \<longleftrightarrow> irq_wanted q c" and n: "qw_ncpu q = n" "qw_ninterrupts q = length msk"
    using g new assms(6) by (auto simp: step_good_def qw_inv_def)
  have "qw_cpu_interrupts_status q ! c \<noteq> 0 \<longleftrightarrow> (\<exists>i. bit (qw_cpu_interrupts_status q ! c) i)"
    by (metis bit_0_eq bot_apply bot_bool_def bit_eq_iff)
  then show ?thesis
    using r(1) assms(6) unfolding lv irq_wanted_def st raw_ok_def n r(2) swi_of_def
    by (auto simp: bit_and_iff)
qed

theorem irq_line_correct_witness:
  "\<exists>q0 q os. qemu_wrapper_new small_cpu False 0 [] 1 [1] 2 = Inr q0
    \<and> qw_run [SetIntEnable 1, Edges [PosEdge]] q0 = (q, os) \<and> level 0 os False \<and> \<not> level 1 os False"
proof -
  obtain rqs where r: "requests_new False 0 100 = Inr rqs" using requests_new_lists [of 100 False 0] by auto
  obtain q0 c0 c1 where q0: "qemu_wrapper_new small_cpu False 0 [] 1 [1] 2 = Inr q0"
    "q0 = \<lparr>qw_ncpu = 2, qw_cpus = [c0, c1], qw_cpu_interrupts_raw_status = [0, 0],
           qw_cpu_interrupts_status = [0, 0], qw_interrupts_raw_status = 0,
           qw_interrupts_enable = 0, qw_irq_cpu_mask = [1], qw_ninterrupts = 1, qw_logs = cpu_logs_new [] 2\<rparr>"
    "qc_swi c0 = 0" "qc_swi c1 = 0"
    using r by (simp add: qemu_wrapper_new_def Let_def upt_conv_Cons qemu_cpu_new_def numeral_2_eq_2)
  obtain q os where run: "qw_run [SetIntEnable 1, Edges [PosEdge]] q0 = (q, os)" by fastforce
  have "list_all (action_ok 2 (length [1])) [SetIntEnable 1, Edges [PosEdge]]" by simp
  note irq_line_correct [OF q0(1) _ _ this run]
  note lines = this [of 0] this [of 1]
  have cb: "cpu_bit 0 = 1" "cpu_bit (Suc 0) = 2" by (simp_all add: cpu_bit_def)
  have q: "qw_interrupts_enable q = 1" "qc_swi (qw_cpus q ! 0) = 0" "qc_swi (qw_cpus q ! 1) = 0"
    using run q0 by (auto simp: qw_do_def set_int_enable_def set_int_enable_cpu_def interrupts_thread_def
        rise_cpu_def Let_def upt_conv_Cons numeral_2_eq_2 cb split: prod.splits if_splits)
  have "level 0 os False" "\<not> level 1 os False"
    using lines q by (simp_all add: cpu_bit_def edges_applied_def)
  with q0(1) run show ?thesis by blast
qed

end
