(* ===== verification/Qemu_Registers.thy ===== *)
theory Qemu_Registers
  imports Qemu_Wrapper Etrace_Samples
begin

text \<open>
  The registers every processor sees at the base address of its wrapper
  (\<open>systemc_qemu_read_memory\<close> and \<open>systemc_qemu_write_memory\<close> in
  \<^verbatim>\<open>qemu_wrapper/qemu_cpu_wrapper.cpp\<close>), and the frequency levels they set.

  The file-scope variables are \<open>qemu_statics\<close>. The registers whose read synchronises the
  other processors first wait for zero time: the state is the one after that wait.
\<close>

definition GET_SYSTEMC_NO_CPUS :: ulong where "GET_SYSTEMC_NO_CPUS = 0x0000"
definition GET_SYSTEMC_TIME_LOW :: ulong where "GET_SYSTEMC_TIME_LOW = 0x0008"
definition GET_SYSTEMC_TIME_HIGH :: ulong where "GET_SYSTEMC_TIME_HIGH = 0x000C"
definition GET_SYSTEMC_CRT_CPU_FV_LEVEL :: ulong where "GET_SYSTEMC_CRT_CPU_FV_LEVEL = 0x0010"
definition GET_SYSTEMC_CPU1_FV_LEVEL :: ulong where "GET_SYSTEMC_CPU1_FV_LEVEL = 0x0014"
definition GET_SYSTEMC_CPU2_FV_LEVEL :: ulong where "GET_SYSTEMC_CPU2_FV_LEVEL = 0x0018"
definition GET_SYSTEMC_CPU3_FV_LEVEL :: ulong where "GET_SYSTEMC_CPU3_FV_LEVEL = 0x001C"
definition GET_SYSTEMC_CPU4_FV_LEVEL :: ulong where "GET_SYSTEMC_CPU4_FV_LEVEL = 0x0020"
definition GET_SYSTEMC_CPU1_NCYCLES :: ulong where "GET_SYSTEMC_CPU1_NCYCLES = 0x0024"
definition GET_SYSTEMC_CPU2_NCYCLES :: ulong where "GET_SYSTEMC_CPU2_NCYCLES = 0x0028"
definition GET_SYSTEMC_CPU3_NCYCLES :: ulong where "GET_SYSTEMC_CPU3_NCYCLES = 0x002C"
definition GET_SYSTEMC_CPU4_NCYCLES :: ulong where "GET_SYSTEMC_CPU4_NCYCLES = 0x0030"
definition GET_SYSTEMC_INT_ENABLE :: ulong where "GET_SYSTEMC_INT_ENABLE = 0x0040"
definition GET_SYSTEMC_INT_STATUS :: ulong where "GET_SYSTEMC_INT_STATUS = 0x0044"
definition GET_ALL_CPUS_NO_CYCLES :: ulong where "GET_ALL_CPUS_NO_CYCLES = 0x0050"
definition GET_NO_CYCLES_CPU1 :: ulong where "GET_NO_CYCLES_CPU1 = 0x0054"
definition GET_NO_CYCLES_CPU2 :: ulong where "GET_NO_CYCLES_CPU2 = 0x0058"
definition GET_NO_CYCLES_CPU3 :: ulong where "GET_NO_CYCLES_CPU3 = 0x005C"
definition GET_NO_CYCLES_CPU4 :: ulong where "GET_NO_CYCLES_CPU4 = 0x0060"
definition GET_SYSTEMC_MAX_INT_PENDING :: ulong where "GET_SYSTEMC_MAX_INT_PENDING = 0x0080"
definition GET_SECONDARY_STARTUP_ADDRESS :: ulong where "GET_SECONDARY_STARTUP_ADDRESS = 0x0084"
definition GET_MEASURE_RES :: ulong where "GET_MEASURE_RES = 0x0100"

definition TEST_WRITE_SYSTEMC :: ulong where "TEST_WRITE_SYSTEMC = 0x0000"
definition SYSTEMC_SHUTDOWN :: ulong where "SYSTEMC_SHUTDOWN = 0x0004"
definition SET_SYSTEMC_CRT_CPU_FV_LEVEL :: ulong where "SET_SYSTEMC_CRT_CPU_FV_LEVEL = 0x0010"
definition SET_SYSTEMC_CPUX_FV_LEVEL :: ulong where "SET_SYSTEMC_CPUX_FV_LEVEL = 0x0014"
definition SET_SYSTEMC_ALL_FV_LEVEL :: ulong where "SET_SYSTEMC_ALL_FV_LEVEL = 0x0024"
definition SET_SYSTEMC_INT_ENABLE :: ulong where "SET_SYSTEMC_INT_ENABLE = 0x0040"
definition LOG_SET_THREAD_CPU :: ulong where "LOG_SET_THREAD_CPU = 0x0080"
definition SET_SECONDARY_STARTUP_ADDRESS :: ulong where "SET_SECONDARY_STARTUP_ADDRESS = 0x0084"
definition GENERATE_SWI :: ulong where "GENERATE_SWI = 0x0088"
definition SWI_ACK :: ulong where "SWI_ACK = 0x008C"
definition SET_MEASURE_START :: ulong where "SET_MEASURE_START = 0x0100"

lemmas register_defs [reg_defs] =
  GET_SYSTEMC_NO_CPUS_def GET_SYSTEMC_TIME_LOW_def GET_SYSTEMC_TIME_HIGH_def
  GET_SYSTEMC_CRT_CPU_FV_LEVEL_def GET_SYSTEMC_CPU1_FV_LEVEL_def GET_SYSTEMC_CPU2_FV_LEVEL_def
  GET_SYSTEMC_CPU3_FV_LEVEL_def GET_SYSTEMC_CPU4_FV_LEVEL_def GET_SYSTEMC_CPU1_NCYCLES_def
  GET_SYSTEMC_CPU2_NCYCLES_def GET_SYSTEMC_CPU3_NCYCLES_def GET_SYSTEMC_CPU4_NCYCLES_def
  GET_SYSTEMC_INT_ENABLE_def GET_SYSTEMC_INT_STATUS_def GET_ALL_CPUS_NO_CYCLES_def
  GET_NO_CYCLES_CPU1_def GET_NO_CYCLES_CPU2_def GET_NO_CYCLES_CPU3_def GET_NO_CYCLES_CPU4_def
  GET_SYSTEMC_MAX_INT_PENDING_def GET_SECONDARY_STARTUP_ADDRESS_def GET_MEASURE_RES_def
  TEST_WRITE_SYSTEMC_def SYSTEMC_SHUTDOWN_def SET_SYSTEMC_CRT_CPU_FV_LEVEL_def
  SET_SYSTEMC_CPUX_FV_LEVEL_def SET_SYSTEMC_ALL_FV_LEVEL_def SET_SYSTEMC_INT_ENABLE_def
  LOG_SET_THREAD_CPU_def SET_SECONDARY_STARTUP_ADDRESS_def GENERATE_SWI_def SWI_ACK_def
  SET_MEASURE_START_def

record qemu_statics =
  st_wrappers :: "qemu_wrapper list"
  st_addr_startup_secondary :: ulong

subsection \<open>Frequency levels\<close>

text \<open>The last output is the call of the energy trace for the processor, in a build that has it.\<close>

definition cpu_set_fv_level :: "cpu_logs \<Rightarrow> ulong \<Rightarrow> qemu_cpu_wrapper \<Rightarrow> (qemu_cpu_wrapper \<times> qemu_out list) res" where
  "cpu_set_fv_level l val c =
     (if val = qc_fv_level c then Inr (c, [])
      else if unat val \<ge> lg_cpu_nb_fv_levels l then Inl (Exit 1)
      else bindr (rd (lg_cpu_fv_percents l) (unat val)) (\<lambda>p.
        Inr (c\<lparr>qc_fv_level := val\<rparr>, [SetFvPercent (qc_cpuindex c) (of_int \<lfloor>p\<rfloor>), Sync (qc_cpuindex c),
          EnergyMode (qc_cpuindex c) (ETRACE_MODE ETRACE_CPU_RUNNING val)])))"

fun set_all_fv_level :: "cpu_logs \<Rightarrow> ulong \<Rightarrow> qemu_cpu_wrapper list \<Rightarrow> (qemu_cpu_wrapper list \<times> qemu_out list) res" where
  "set_all_fv_level l val [] = Inr ([], [])"
| "set_all_fv_level l val (c # cs) =
     bindr (cpu_set_fv_level l val c) (\<lambda>(c, os).
     bindr (set_all_fv_level l val cs) (\<lambda>(cs, os'). Inr (c # cs, os @ os')))"

definition qw_set_cpu_fv_level :: "ulong \<Rightarrow> ulong \<Rightarrow> qemu_wrapper \<Rightarrow> (qemu_wrapper \<times> qemu_out list) res" where
  "qw_set_cpu_fv_level cpu val q =
     (if cpu = - 1 then
        bindr (set_all_fv_level (qw_logs q) val (qw_cpus q)) (\<lambda>(cs, os). Inr (q\<lparr>qw_cpus := cs\<rparr>, os))
      else
        bindr (rd (qw_cpus q) (unat cpu)) (\<lambda>c.
        bindr (cpu_set_fv_level (qw_logs q) val c) (\<lambda>(c, os).
        Inr (q\<lparr>qw_cpus := (qw_cpus q)[unat cpu := c]\<rparr>, os))))"

definition qw_get_cpu_fv_level :: "ulong \<Rightarrow> qemu_wrapper \<Rightarrow> ulong res" where
  "qw_get_cpu_fv_level cpu q = bindr (rd (qw_cpus q) (unat cpu)) (\<lambda>c. Inr (qc_fv_level c))"

definition qw_get_cpu_ncycles :: "ulong \<Rightarrow> qemu_wrapper \<Rightarrow> (qemu_wrapper \<times> ulong) res" where
  "qw_get_cpu_ncycles cpu q =
     bindr (rd (qw_cpus q) (unat cpu)) (\<lambda>c.
     bindr (logs_get_cpu_ncycles (qc_cpuindex c) (qw_logs q)) (\<lambda>(l, v). Inr (q\<lparr>qw_logs := l\<rparr>, v)))"

definition qw_get_no_cycles_cpu :: "qemu_statics \<Rightarrow> int \<Rightarrow> qemu_wrapper \<Rightarrow> u64 res" where
  "qw_get_no_cycles_cpu st cpu q =
     (if cpu = - 1
      then Inr (sum_list (map (\<lambda>w. sum_list (map qc_no_total_cycles (qw_cpus w))) (st_wrappers st)))
      else bindr (rd (qw_cpus q) (nat cpu)) (\<lambda>c. Inr (qc_no_total_cycles c)))"

subsection \<open>Reads\<close>

text \<open>\<open>while ((i & m_swi) == 0) i <<= 1;\<close> once the bit has been shifted out, it never ends.\<close>

fun swi_scan :: "nat \<Rightarrow> ulong \<Rightarrow> ulong \<Rightarrow> ulong res" where
  "swi_scan 0 i swi = Inl Livelock"
| "swi_scan (Suc k) i swi = (if i AND swi = 0 then swi_scan k (push_bit 1 i) swi else Inr i)"

text \<open>\<open>while (val) { val >>= 1; i++; }\<close>\<close>

function shift_count :: "ulong \<Rightarrow> ulong \<Rightarrow> ulong" where
  "shift_count val i = (if val \<noteq> 0 then shift_count (drop_bit 1 val) (i + 1) else i)"
  by auto
termination
proof (relation "measure (\<lambda>(val, i). unat val)", goal_cases)
  case (2 val i)
  have "unat (drop_bit 1 val) = unat val div 2" by (simp add: drop_bit_Suc unat_div_distrib)
  moreover have "0 < unat val" using 2 by (simp add: unat_gt_0)
  ultimately show ?case by simp
qed simp

declare shift_count.simps [simp del]

definition max_int_pending :: "ulong \<Rightarrow> ulong \<Rightarrow> ulong res" where
  "max_int_pending swi status =
     (if swi \<noteq> 0 then swi_scan 32 1 swi
      else if status = 0 then Inr 1023
      else Inr (32 + shift_count (status AND - status) 0 - 1))"

text \<open>
  A read by processor \<open>c\<close> at time \<open>now\<close> (in picoseconds) of the register at offset \<open>addr\<close>.
  \<open>pow\<close> is the result of \<open>etrace.stop_measure\<close>, \<open>None\<close> in a build without the energy trace,
  where \<open>mean_use\<close> is not initialised (\<open>junk\<close>).
\<close>

definition cpu_register_read :: "qemu_statics \<Rightarrow> u64 \<Rightarrow> ulong option \<Rightarrow> ulong \<Rightarrow> nat \<Rightarrow> ulong \<Rightarrow> qemu_wrapper
    \<Rightarrow> (qemu_wrapper \<times> ulong) res" where
  "cpu_register_read st now pow junk c addr q =
     (let cpu = qw_cpus q ! c; upd = (\<lambda>cpu. q\<lparr>qw_cpus := (qw_cpus q)[c := cpu]\<rparr>) in
      if addr = GET_SYSTEMC_NO_CPUS then Inr (q, of_nat (qw_ncpu q))
      else if addr = GET_SYSTEMC_TIME_LOW then
        (if qc_last_read_sctime cpu = - 1
         then let t = now div 1000 in Inr (upd (cpu\<lparr>qc_last_read_sctime := t\<rparr>), ucast t)
         else Inr (upd (cpu\<lparr>qc_last_read_sctime := - 1\<rparr>), ucast (qc_last_read_sctime cpu)))
      else if addr = GET_SYSTEMC_TIME_HIGH then
        (if qc_last_read_sctime cpu = - 1
         then let t = now div 1000 in Inr (upd (cpu\<lparr>qc_last_read_sctime := t\<rparr>), ucast (drop_bit 32 t))
         else Inr (upd (cpu\<lparr>qc_last_read_sctime := - 1\<rparr>), ucast (drop_bit 32 (qc_last_read_sctime cpu))))
      else if addr = GET_SYSTEMC_CRT_CPU_FV_LEVEL then Inr (q, qc_fv_level cpu)
      else if addr \<in> {GET_SYSTEMC_CPU1_FV_LEVEL, GET_SYSTEMC_CPU2_FV_LEVEL,
                      GET_SYSTEMC_CPU3_FV_LEVEL, GET_SYSTEMC_CPU4_FV_LEVEL} then
        bindr (qw_get_cpu_fv_level (drop_bit 2 (addr - GET_SYSTEMC_CPU1_FV_LEVEL)) q) (\<lambda>v. Inr (q, v))
      else if addr \<in> {GET_SYSTEMC_CPU1_NCYCLES, GET_SYSTEMC_CPU2_NCYCLES,
                      GET_SYSTEMC_CPU3_NCYCLES, GET_SYSTEMC_CPU4_NCYCLES} then
        qw_get_cpu_ncycles (drop_bit 2 (addr - GET_SYSTEMC_CPU1_NCYCLES)) q
      else if addr = GET_SYSTEMC_INT_ENABLE then Inr (q, get_int_enable q)
      else if addr = GET_SYSTEMC_INT_STATUS then Inr (q, get_int_status q)
      else if addr = GET_SYSTEMC_MAX_INT_PENDING then
        bindr (max_int_pending (qc_swi cpu) (get_int_status q)) (\<lambda>v. Inr (q, v))
      else if addr \<in> {GET_ALL_CPUS_NO_CYCLES, GET_NO_CYCLES_CPU1, GET_NO_CYCLES_CPU2,
                      GET_NO_CYCLES_CPU3, GET_NO_CYCLES_CPU4} then
        (if qc_last_no_cycles_high cpu = - 1 then
           bindr (qw_get_no_cycles_cpu st (int (unat (drop_bit 2 (addr - GET_ALL_CPUS_NO_CYCLES))) - 1) q) (\<lambda>n.
           Inr (upd (cpu\<lparr>qc_last_no_cycles_high := ucast (drop_bit 32 n)\<rparr>), ucast n))
         else Inr (upd (cpu\<lparr>qc_last_no_cycles_high := - 1\<rparr>), qc_last_no_cycles_high cpu))
      else if addr = GET_SECONDARY_STARTUP_ADDRESS then Inr (q, st_addr_startup_secondary st)
      else if addr = GET_MEASURE_RES then
        (case pow of
           None \<Rightarrow> Inr (q, junk OR push_bit 16 0)
         | Some p \<Rightarrow> bindr (logs_stop_measure (qw_logs q)) (\<lambda>u. Inr (q, u OR push_bit 16 p)))
      else Inr (q, 0xFFFFFFFF))"

subsection \<open>Writes\<close>

text \<open>
  A write of \<open>data\<close>; the registers that only print or wait (\<open>TEST_WRITE_SYSTEMC\<close>, the logs, an unknown one)
  have no effect here. \<open>etrace\<close> tells whether the build has the energy trace.
\<close>

definition cpu_register_write :: "bool \<Rightarrow> qemu_statics \<Rightarrow> nat \<Rightarrow> ulong \<Rightarrow> ulong \<Rightarrow> qemu_wrapper
    \<Rightarrow> (qemu_statics \<times> qemu_wrapper \<times> qemu_out list) res" where
  "cpu_register_write etrace st c addr data q =
     (let cpu = qw_cpus q ! c; ret = (\<lambda>(q, os). Inr (st, q, os)) in
      if addr = SET_SYSTEMC_CRT_CPU_FV_LEVEL then
        bindr (cpu_set_fv_level (qw_logs q) data cpu) (\<lambda>(cpu, os).
        ret (q\<lparr>qw_cpus := (qw_cpus q)[c := cpu]\<rparr>, os))
      else if addr = SET_SYSTEMC_CPUX_FV_LEVEL then
        bindr (qw_set_cpu_fv_level (data AND 0xFF) (drop_bit 8 data) q) ret
      else if addr = SET_SYSTEMC_ALL_FV_LEVEL then bindr (qw_set_cpu_fv_level (- 1) data q) ret
      else if addr = TEST_WRITE_SYSTEMC then ret (q, [])
      else if addr = SYSTEMC_SHUTDOWN then (if data \<noteq> 0 then Inl (Exit 1) else ret (q, []))
      else if addr = SET_SYSTEMC_INT_ENABLE then ret (set_int_enable data q)
      else if addr = LOG_SET_THREAD_CPU then
        ret (q\<lparr>qw_cpus := (qw_cpus q)[c := cpu\<lparr>qc_crt_cpu_thread := data\<rparr>]\<rparr>, [])
      else if addr = SET_SECONDARY_STARTUP_ADDRESS then
        Inr (st\<lparr>st_addr_startup_secondary := data\<rparr>, q, [])
      else if addr = GENERATE_SWI then ret (generate_swi data 1 q)
      else if addr = SWI_ACK then ret (swi_ack (qc_cpuindex cpu) data q)
      else if addr = SET_MEASURE_START then
        ret (if etrace then q\<lparr>qw_logs := logs_start_measure (qw_logs q)\<rparr> else q, [])
      else ret (q, []))"

subsection \<open>The highest pending interrupt\<close>

text \<open>Bit \<open>k\<close> is the lowest one of \<open>w\<close>.\<close>

definition lowest_bit :: "ulong \<Rightarrow> nat \<Rightarrow> bool" where
  "lowest_bit w k \<longleftrightarrow> bit w k \<and> (\<forall>j<k. \<not> bit w j)"

lemma lowest_bit_exists: "w \<noteq> 0 \<Longrightarrow> \<exists>k<32. lowest_bit w k"
proof -
  assume "w \<noteq> 0"
  then obtain n where n: "bit w n" by (metis bit_0_eq bit_eq_iff bot_apply bot_bool_def)
  define k where "k = (LEAST n. bit w n)"
  have "bit w k" unfolding k_def by (rule LeastI [of "bit w" n, OF n])
  moreover have "\<not> bit w j" if "j < k" for j using that not_less_Least [of j "bit w"] by (simp add: k_def)
  moreover have "k < 32" using bit_imp_le_length [OF calculation(1)] by simp
  ultimately show ?thesis by (auto simp: lowest_bit_def)
qed

lemma swi_scan_lowest:
  "i + k = 32 \<Longrightarrow> lowest_bit swi j \<Longrightarrow> i \<le> j \<Longrightarrow> j < 32 \<Longrightarrow> swi_scan k (irq_val i) swi = Inr (irq_val j)"
proof (induction k arbitrary: i)
  case (Suc k)
  show ?case
  proof (cases "i = j")
    case True
    with Suc.prems(2) show ?thesis by (simp add: single_bit_and lowest_bit_def)
  next
    case False
    with Suc.prems have "\<not> bit swi i" by (simp add: lowest_bit_def)
    with False Suc.IH [of "Suc i"] Suc.prems show ?thesis by (simp add: single_bit_and)
  qed
qed simp

text \<open>\<open>val & (-val)\<close> keeps the lowest bit.\<close>

lemma and_minus_lowest:
  assumes "lowest_bit w k" "k < 32"
  shows "w AND - w = push_bit k 1"
proof -
  define v where "v = w AND NOT (mask (Suc k))"
  have b: "bit w k" "\<And>j. j < k \<Longrightarrow> \<not> bit w j" using assms(1) by (auto simp: lowest_bit_def)
  have above: "k \<le> j" if "bit w j" for j using b(2) [of j] that by (meson not_le)
  have "v + push_bit k 1 = v OR push_bit k 1"
    by (rule disjunctive_add) (auto simp: v_def bit_simps)
  also have "\<dots> = w"
    by (rule bit_word_eqI) (use b above assms(2) in \<open>auto simp: v_def bit_simps less_Suc_eq not_less\<close>)
  finally have w: "w = v + push_bit k 1" by simp
  have "w - 1 = v + mask k" unfolding w by (simp add: mask_eq_exp_minus_1)
  also have "\<dots> = v OR mask k" by (rule disjunctive_add) (auto simp: v_def bit_simps)
  finally have m: "w - 1 = v OR mask k" .
  have "w AND - w = w AND NOT (w - 1)" by (simp add: minus_eq_not_minus_1)
  also have "\<dots> = push_bit k 1"
    unfolding m by (rule bit_word_eqI) (use b assms(2) in \<open>auto simp: v_def bit_simps less_Suc_eq not_less\<close>)
  finally show ?thesis .
qed

lemma shift_count_single: "k < 32 \<Longrightarrow> shift_count (push_bit k 1) i = i + of_nat k + 1"
proof (induction k arbitrary: i)
  case 0
  have "shift_count 1 i = shift_count 0 (i + 1)" by (subst shift_count.simps) (simp add: drop_bit_Suc)
  also have "\<dots> = i + 1" by (subst shift_count.simps) simp
  finally show ?case by simp
next
  case (Suc k)
  have "bit (irq_val (Suc k)) (Suc k)" using Suc.prems by (simp add: bit_irq_val)
  then have nz: "push_bit (Suc k) (1::ulong) \<noteq> 0" unfolding irq_val_def by (rule bit_nonzero)
  have d: "drop_bit 1 (push_bit (Suc k) (1::ulong)) = push_bit k 1"
    by (rule bit_word_eqI) (use Suc.prems in \<open>auto simp: bit_simps\<close>)
  have "shift_count (push_bit (Suc k) 1) i = shift_count (push_bit k 1) (i + 1)"
    by (subst shift_count.simps) (use nz d in simp)
  with Suc show ?case by (simp add: add.assoc)
qed

lemma max_int_pending_swi:
  "lowest_bit swi k \<Longrightarrow> k < 32 \<Longrightarrow> max_int_pending swi status = Inr (push_bit k 1)"
  using swi_scan_lowest [of 0 32 swi k] by (auto simp: max_int_pending_def lowest_bit_def irq_val_def)

lemma max_int_pending_irq:
  assumes "lowest_bit status k" "k < 32"
  shows "max_int_pending 0 status = Inr (32 + of_nat k)"
proof -
  have "status \<noteq> 0" using assms(1) by (auto simp: lowest_bit_def)
  then show ?thesis
    using and_minus_lowest [OF assms] shift_count_single [OF assms(2), of 0] by (simp add: max_int_pending_def)
qed

text \<open>
  Reading the highest pending interrupt always returns, and returns: the lowest
  bit of the software interrupts of the processor if it has one, else 32 plus the number
  of the lowest pending and enabled input of the wrapper, else 1023.
\<close>

theorem max_int_pending_value:
  "cpu_register_read st now pow junk c GET_SYSTEMC_MAX_INT_PENDING q =
    Inr (q, if swi_of q c \<noteq> 0 then push_bit (LEAST k. bit (swi_of q c) k) 1
            else if get_int_status q \<noteq> 0 then 32 + of_nat (LEAST k. bit (get_int_status q) k)
            else 1023)"
proof -
  have least: "\<exists>k<32. lowest_bit w k \<and> (LEAST k. bit w k) = k" if nz: "w \<noteq> 0" for w :: ulong
  proof -
    from lowest_bit_exists [OF nz] obtain k where k: "k < 32" "lowest_bit w k" by blast
    then have "(LEAST k. bit w k) = k"
      by (intro Least_equality) (auto simp: lowest_bit_def not_le [symmetric])
    with k show ?thesis by blast
  qed
  have "max_int_pending (swi_of q c) (get_int_status q) =
    Inr (if swi_of q c \<noteq> 0 then push_bit (LEAST k. bit (swi_of q c) k) 1
         else if get_int_status q \<noteq> 0 then 32 + of_nat (LEAST k. bit (get_int_status q) k) else 1023)"
  proof (cases "swi_of q c = 0")
    case False
    with least [OF this] max_int_pending_swi show ?thesis by fastforce
  next
    case True
    show ?thesis
    proof (cases "get_int_status q = 0")
      case False
      with least [OF this] max_int_pending_irq True show ?thesis by fastforce
    qed (simp add: True max_int_pending_def)
  qed
  then show ?thesis by (simp add: cpu_register_read_def Let_def register_defs swi_of_def)
qed

text \<open>
  The pair of time registers is consistent: a processor that reads the low word and then the
  high word (or the other way round), whatever time passes in between, gets the two halves of
  the time in nanoseconds at the first of the two reads, and the next pair starts afresh.
\<close>

theorem time_registers_consistent:
  assumes "c < length (qw_cpus q)" "qc_last_read_sctime (qw_cpus q ! c) = - 1"
    and "a = GET_SYSTEMC_TIME_LOW \<and> b = GET_SYSTEMC_TIME_HIGH
      \<or> a = GET_SYSTEMC_TIME_HIGH \<and> b = GET_SYSTEMC_TIME_LOW"
  shows "\<exists>q1 x y. cpu_register_read st now pow junk c a q = Inr (q1, x)
    \<and> cpu_register_read st later pow junk c b q1 = Inr (q, y)
    \<and> (let (low, high) = (if a = GET_SYSTEMC_TIME_LOW then (x, y) else (y, x))
       in push_bit 32 (ucast high) OR ucast low = now div 1000)"
proof -
  define t where "t = now div 1000"
  have "unat t = unat now div 1000" by (simp add: t_def unat_div_distrib)
  moreover have "unat now < 2 ^ LENGTH(64)" by (rule unsigned_less)
  moreover have "unat (- 1 :: u64) = 2 ^ 64 - 1" by (simp add: unsigned_minus_1_eq_mask mask_eq_exp_minus_1)
  ultimately have t: "t \<noteq> - 1" by auto
  define q1 where "q1 = q\<lparr>qw_cpus := (qw_cpus q)[c := (qw_cpus q ! c)\<lparr>qc_last_read_sctime := t\<rparr>]\<rparr>"
  have restored: "q1\<lparr>qw_cpus := (qw_cpus q1)[c := (qw_cpus q1 ! c)\<lparr>qc_last_read_sctime := - 1\<rparr>]\<rparr> = q"
  proof -
    have "(qw_cpus q ! c)\<lparr>qc_last_read_sctime := - 1\<rparr> = qw_cpus q ! c" using assms(2) by simp
    then show ?thesis using assms(1) list_update_id [of "qw_cpus q" c] by (simp add: q1_def)
  qed
  have l1: "qc_last_read_sctime (qw_cpus q1 ! c) = t" using assms(1) by (simp add: q1_def)
  have "GET_SYSTEMC_TIME_LOW \<noteq> GET_SYSTEMC_TIME_HIGH" by (simp add: register_defs)
  have first: "cpu_register_read st now pow junk c GET_SYSTEMC_TIME_LOW q = Inr (q1, ucast t)"
    "cpu_register_read st now pow junk c GET_SYSTEMC_TIME_HIGH q = Inr (q1, ucast (drop_bit 32 t))"
    using assms(2) by (simp_all add: cpu_register_read_def Let_def register_defs q1_def t_def)
  have second: "cpu_register_read st later pow junk c GET_SYSTEMC_TIME_LOW q1 = Inr (q, ucast t)"
    "cpu_register_read st later pow junk c GET_SYSTEMC_TIME_HIGH q1 = Inr (q, ucast (drop_bit 32 t))"
    using l1 t restored by (simp_all add: cpu_register_read_def Let_def register_defs)
  from first second split_u64 [of t] assms(3) \<open>GET_SYSTEMC_TIME_LOW \<noteq> GET_SYSTEMC_TIME_HIGH\<close>
  show ?thesis unfolding t_def [symmetric] by auto
qed

text \<open>A wrapper of two processors and one interrupt input, routed to the first.\<close>

definition small_qemu :: qemu_wrapper where
  "small_qemu = \<lparr>qw_ncpu = 2, qw_cpus = [small_cpu, small_cpu\<lparr>qc_node_id := 4, qc_cpuindex := 1\<rparr>],
     qw_cpu_interrupts_raw_status = [0, 0], qw_cpu_interrupts_status = [0, 0],
     qw_interrupts_raw_status = 0, qw_interrupts_enable = 0, qw_irq_cpu_mask = [1],
     qw_ninterrupts = 1, qw_logs = cpu_logs_new [] 2\<rparr>"

definition small_statics :: qemu_statics where
  "small_statics = \<lparr>st_wrappers = [small_qemu], st_addr_startup_secondary = 0xFFFFFFFF\<rparr>"

theorem time_registers_consistent_witness:
  "\<exists>q1 x y. cpu_register_read small_statics 5000000000000000 None 0 1 GET_SYSTEMC_TIME_LOW small_qemu = Inr (q1, x)
    \<and> cpu_register_read small_statics 6000000000000000 None 0 1 GET_SYSTEMC_TIME_HIGH q1 = Inr (small_qemu, y)
    \<and> push_bit 32 (ucast y) OR ucast x = (5000000000000 :: u64)"
proof -
  have h: "1 < length (qw_cpus small_qemu)" "qc_last_read_sctime (qw_cpus small_qemu ! 1) = - 1"
    by (simp_all add: small_qemu_def small_cpu_def)
  show ?thesis
    using time_registers_consistent [OF h, of GET_SYSTEMC_TIME_LOW GET_SYSTEMC_TIME_HIGH
        small_statics 5000000000000000 None 0 6000000000000000]
    by auto
qed

text \<open>
  The registers of the frequency level and of the cycles of the processors 1 to 4 exist on every
  platform: reading the one of a processor the wrapper does not have leaves the array of
  processors.
\<close>

theorem register_of_missing_cpu:
  assumes "length (qw_cpus q) \<le> k" "k < 4"
  shows "cpu_register_read st now pow junk c (GET_SYSTEMC_CPU1_FV_LEVEL + 4 * of_nat k) q = Inl OutOfBounds
    \<and> cpu_register_read st now pow junk c (GET_SYSTEMC_CPU1_NCYCLES + 4 * of_nat k) q = Inl OutOfBounds"
proof -
  from assms(2) consider "k = 0" | "k = 1" | "k = 2" | "k = 3" by linarith
  then show ?thesis
    using assms(1)
    by cases (simp_all add: cpu_register_read_def Let_def register_defs qw_get_cpu_fv_level_def
        qw_get_cpu_ncycles_def drop_bit_eq_div)
qed

theorem register_of_missing_cpu_witness:
  "cpu_register_read small_statics 0 None 0 0 (GET_SYSTEMC_CPU1_FV_LEVEL + 4 * of_nat 3) small_qemu = Inl OutOfBounds"
  using register_of_missing_cpu [of small_qemu 3 small_statics 0 None 0 0] by (simp add: small_qemu_def)

subsection \<open>Setting the frequency of all processors\<close>

definition fv_ok :: "qemu_wrapper \<Rightarrow> ulong \<Rightarrow> bool" where
  "fv_ok q val \<longleftrightarrow> unat val < lg_cpu_nb_fv_levels (qw_logs q)
     \<and> lg_cpu_nb_fv_levels (qw_logs q) \<le> length (lg_cpu_fv_percents (qw_logs q))"

lemma set_all_fv_level_ok:
  assumes "unat val < lg_cpu_nb_fv_levels l" "lg_cpu_nb_fv_levels l \<le> length (lg_cpu_fv_percents l)"
  shows "\<exists>os. set_all_fv_level l val cs = Inr (map (\<lambda>c. c\<lparr>qc_fv_level := val\<rparr>) cs, os)
    \<and> (\<forall>i p. SetFvPercent i p \<in> set os \<longrightarrow>
        p = of_int \<lfloor>lg_cpu_fv_percents l ! unat val\<rfloor> \<and> (\<exists>c\<in>set cs. qc_cpuindex c = i \<and> qc_fv_level c \<noteq> val))"
proof (induction cs)
  case (Cons c cs)
  then obtain os where 1: "set_all_fv_level l val cs = Inr (map (\<lambda>c. c\<lparr>qc_fv_level := val\<rparr>) cs, os)"
    "\<forall>i p. SetFvPercent i p \<in> set os \<longrightarrow>
        p = of_int \<lfloor>lg_cpu_fv_percents l ! unat val\<rfloor> \<and> (\<exists>c\<in>set cs. qc_cpuindex c = i \<and> qc_fv_level c \<noteq> val)"
    by blast
  show ?case
  proof (cases "val = qc_fv_level c")
    case True
    with 1 show ?thesis by (auto simp: cpu_set_fv_level_def)
  next
    case False
    with 1 assms show ?thesis by (auto simp: cpu_set_fv_level_def)
  qed
qed simp

lemma set_all_fv_level_bad:
  "lg_cpu_nb_fv_levels l \<le> unat val \<Longrightarrow> c \<in> set cs \<Longrightarrow> qc_fv_level c \<noteq> val \<Longrightarrow>
    set_all_fv_level l val cs = Inl (Exit 1)"
  by (induction cs) (auto simp: cpu_set_fv_level_def)

subsection \<open>Every access of a processor\<close>

definition ETRACE_WRITE_COMMAND :: ulong where "ETRACE_WRITE_COMMAND = 0"
definition ETRACE_READ_COMMAND :: ulong where "ETRACE_READ_COMMAND = 1"

text \<open>
  What QEMU calls: the registers of the wrapper, or the network with a load or store of processor \<open>c\<close>. The result of a load has the
  events for the energy trace, as the command and the level.
\<close>

definition own_register :: "qemu_cpu_wrapper \<Rightarrow> ulong \<Rightarrow> bool" where
  "own_register cpu addr \<longleftrightarrow> qc_base_address cpu \<le> addr \<and> addr \<le> qc_end_address cpu"

definition systemc_qemu_read_memory :: "('m \<Rightarrow> vci_request \<Rightarrow> ('m \<times> vci_response) res) \<Rightarrow> vci_request \<Rightarrow> u8 list \<Rightarrow> ulong
    \<Rightarrow> qemu_statics \<Rightarrow> u64 \<Rightarrow> ulong option \<Rightarrow> ulong \<Rightarrow> nat \<Rightarrow> ulong \<Rightarrow> ulong \<Rightarrow> qemu_wrapper \<Rightarrow> 'm
    \<Rightarrow> (qemu_wrapper \<times> ulong \<times> 'm \<times> (ulong \<times> ulong) list) res" where
  "systemc_qemu_read_memory bus jreq beyond ret st now pow junk c addr nbytes q b =
     bindr (rd (qw_cpus q) c) (\<lambda>cpu.
     if own_register cpu addr then
       bindr (cpu_register_read st now pow junk c (addr - qc_base_address cpu) q) (\<lambda>(q, v). Inr (q, v, b, []))
     else
       bindr (cpu_load bus jreq beyond ret addr nbytes cpu b) (\<lambda>(cpu, v, b).
       Inr (q\<lparr>qw_cpus := (qw_cpus q)[c := cpu]\<rparr>, v, b, if pow = None then [] else [(ETRACE_READ_COMMAND, 0)])))"

definition systemc_qemu_write_memory :: "('m \<Rightarrow> vci_request \<Rightarrow> ('m \<times> vci_response) res) \<Rightarrow> vci_request \<Rightarrow> u8 list
    \<Rightarrow> bool \<Rightarrow> qemu_statics \<Rightarrow> nat \<Rightarrow> ulong \<Rightarrow> ulong \<Rightarrow> u8 \<Rightarrow> bool \<Rightarrow> qemu_wrapper \<Rightarrow> 'm
    \<Rightarrow> (qemu_statics \<times> qemu_wrapper \<times> 'm \<times> qemu_out list \<times> (ulong \<times> ulong) list) res" where
  "systemc_qemu_write_memory bus jreq beyond etrace st c addr data nbytes bIO q b =
     bindr (rd (qw_cpus q) c) (\<lambda>cpu.
     if own_register cpu addr then
       bindr (cpu_register_write etrace st c (addr - qc_base_address cpu) data q) (\<lambda>(st, q, os). Inr (st, q, b, os, []))
     else
       bindr (cpu_store bus jreq beyond addr data nbytes bIO cpu b) (\<lambda>(cpu, b).
       Inr (st, q\<lparr>qw_cpus := (qw_cpus q)[c := cpu]\<rparr>, b, [], if etrace then [(ETRACE_WRITE_COMMAND, 0)] else [])))"

end
