(* ===== verification/Qemu_Wrapper_Slave.thy ===== *)
theory Qemu_Wrapper_Slave
  imports Qemu_Registers
begin

text \<open>
  The device through which another master sets the frequency of all processors of a wrapper
  (\<^verbatim>\<open>qemu_wrapper/qemu_wrapper_slave.cpp\<close>). Its state is the wrapper \<open>m_qemu_master\<close> points to.
\<close>

definition QEMU_WRAPPER_SLAVE_SET_CPUS_FQ :: ulong where "QEMU_WRAPPER_SLAVE_SET_CPUS_FQ = 0"

definition qemu_slave_write :: "qemu_wrapper \<Rightarrow> ulong \<Rightarrow> u8 \<Rightarrow> u8 list \<Rightarrow> (qemu_wrapper \<times> qemu_out list) res" where
  "qemu_slave_write q ofs be data =
     (if reg_index ofs be = QEMU_WRAPPER_SLAVE_SET_CPUS_FQ
      then qw_set_cpu_fv_level (- 1) (reg_word data be) q
      else Inl (Exit 1))"

text \<open>No register can be read.\<close>

definition qemu_slave_read :: "ulong \<Rightarrow> u8 \<Rightarrow> u8 list \<Rightarrow> u8 list res" where
  "qemu_slave_read ofs be data = (let data = put_reg_word data be 0 in Inl (Exit 1))"

definition qemu_slave_rcv_rqst :: "(qemu_wrapper, qemu_out) rcv_rqst" where
  "qemu_slave_rcv_rqst req q ofs be data bWrite =
     (if bWrite then bindr (qemu_slave_write q ofs be data) (\<lambda>(q, os). Inr (q, os, data, False))
      else bindr (qemu_slave_read ofs be data) (\<lambda>data. Inr (q, [], data, False)))"

text \<open>The frequency of the processors says nothing about their interrupts.\<close>

lemma set_all_fv_level_swi:
  "set_all_fv_level l val cs = Inr (cs', os) \<Longrightarrow> length cs' = length cs"
  by (induction cs arbitrary: cs' os) (auto simp: bindr_eq_Inr)

lemma qemu_slave_write_inv: "qemu_slave_write q ofs be data = Inr (q', os) \<Longrightarrow> qw_inv q \<Longrightarrow> qw_inv q'"
  by (auto simp: qemu_slave_write_def qw_set_cpu_fv_level_def bindr_eq_Inr qw_inv_def qw_sizes_def
      dest: set_all_fv_level_swi split: if_splits)

interpretation qemu_slave: slave_module qemu_slave_rcv_rqst qw_inv
  by unfold_locales
    (auto simp: qemu_slave_rcv_rqst_def qemu_slave_read_def bindr_eq_Inr dest: qemu_slave_write_inv split: if_splits)

text \<open>
  A write to the frequency register sets the level of every processor of the wrapper and tells QEMU the percentage of
  that level, for no processor but those whose level changes; a level outside the table
  ends the simulation, unless all processors already have it.
\<close>

theorem broadcast_sets_every_level:
  assumes "reg_index ofs be = QEMU_WRAPPER_SLAVE_SET_CPUS_FQ"
    and "lg_cpu_nb_fv_levels (qw_logs q) \<le> length (lg_cpu_fv_percents (qw_logs q))"
  shows "if unat (reg_word data be) < lg_cpu_nb_fv_levels (qw_logs q)
    then \<exists>os. qemu_slave_rcv_rqst req q ofs be data True
        = Inr (q\<lparr>qw_cpus := map (\<lambda>c. c\<lparr>qc_fv_level := reg_word data be\<rparr>) (qw_cpus q)\<rparr>, os, data, False)
      \<and> (\<forall>i p. SetFvPercent i p \<in> set os \<longrightarrow>
          p = of_int \<lfloor>lg_cpu_fv_percents (qw_logs q) ! unat (reg_word data be)\<rfloor>
          \<and> (\<exists>c\<in>set (qw_cpus q). qc_cpuindex c = i \<and> qc_fv_level c \<noteq> reg_word data be))
    else (\<exists>c\<in>set (qw_cpus q). qc_fv_level c \<noteq> reg_word data be) \<longrightarrow>
      qemu_slave_rcv_rqst req q ofs be data True = Inl (Exit 1)"
proof (cases "unat (reg_word data be) < lg_cpu_nb_fv_levels (qw_logs q)")
  case True
  from set_all_fv_level_ok [OF this assms(2), of "qw_cpus q"] True assms(1) show ?thesis
    by (auto simp: qemu_slave_rcv_rqst_def qemu_slave_write_def qw_set_cpu_fv_level_def)
next
  case False
  with set_all_fv_level_bad [of "qw_logs q" "reg_word data be" _ "qw_cpus q"] assms(1) show ?thesis
    by (auto simp: qemu_slave_rcv_rqst_def qemu_slave_write_def qw_set_cpu_fv_level_def)
qed

theorem broadcast_sets_every_level_witness:
  "\<exists>os. qemu_slave_rcv_rqst zero_request small_qemu 0 0x0F [2, 0, 0, 0, 0, 0, 0, 0] True
    = Inr (small_qemu\<lparr>qw_cpus := map (\<lambda>c. c\<lparr>qc_fv_level := 2\<rparr>) (qw_cpus small_qemu)\<rparr>, os,
           [2, 0, 0, 0, 0, 0, 0, 0], False)"
proof -
  have r: "reg_index 0 0x0F = QEMU_WRAPPER_SLAVE_SET_CPUS_FQ"
    by (simp add: reg_index_def QEMU_WRAPPER_SLAVE_SET_CPUS_FQ_def)
  have w: "reg_word [2, 0, 0, 0, 0, 0, 0, 0] 0x0F = 2"
    by (simp add: reg_word_def reg_lane_def u32_at_def le32_def)
  have l: "lg_cpu_nb_fv_levels (qw_logs small_qemu) = 7" "length (lg_cpu_fv_percents (qw_logs small_qemu)) = 8"
    by (simp_all add: small_qemu_def cpu_logs_new_def Let_def get_cpu_nb_fv_levels_def arm_cpu_fv_def arm_cpu_fv_percents_def)
  show ?thesis
    using broadcast_sets_every_level [OF r, of small_qemu "[2, 0, 0, 0, 0, 0, 0, 0]" zero_request] unfolding w l
    by auto
qed

end
