(* ===== verification/Exclusive_Monitor.thy ===== *)
theory Exclusive_Monitor
  imports Rabbits_Prelude
begin

text \<open>
  The monitors behind the exclusive loads and stores of the emulated processors: the
  functions \<open>memory_mark_exclusive\<close>, \<open>memory_test_exclusive\<close> and \<open>memory_clear_exclusive\<close> the
  platforms export to QEMU. The energizer and the thumper keep one processor per address
  (\<^verbatim>\<open>platforms/energizer/main.cpp\<close>), the roger a mask of processors and drops the entry when a
  test succeeds (\<^verbatim>\<open>platforms/roger/main.cpp\<close>). Both are a table of 100 entries with a count.
  Each function runs without waiting, so a run is a sequence of calls.

  The contract is the locale \<open>exclusive_monitor\<close>: a test succeeds for a processor only if that
  processor has marked the address after it was last given up. Both monitors are
  interpretations, and both are refinements of a finite map.
\<close>

record 'v mem_exclusive_t =
  mx_addr :: ulong
  mx_val :: 'v

record 'v excl_table =
  xt_entries :: "'v mem_exclusive_t list"
  xt_no :: nat

definition MEM_EXCLUSIVE_SIZE :: nat where "MEM_EXCLUSIVE_SIZE = 100"

definition excl_align :: "ulong \<Rightarrow> ulong" where "excl_align a = a AND 0xFFFFFFFC"

text \<open>The search loop all the functions share, and the deletion of an entry by moving the rest.\<close>

definition find_entry :: "'v excl_table \<Rightarrow> ulong \<Rightarrow> nat option" where
  "find_entry t a = List.find (\<lambda>i. a = mx_addr (xt_entries t ! i)) [0..<xt_no t]"

function shift_down :: "nat \<Rightarrow> nat \<Rightarrow> 'e list \<Rightarrow> 'e list" where
  "shift_down i n es = (if i < n - 1 then shift_down (Suc i) n (es[i := es ! Suc i]) else es)"
  by pat_completeness auto
termination by (relation "measure (\<lambda>(i, n, es). n - i)") auto

declare shift_down.simps [simp del]

definition delete_entry :: "nat \<Rightarrow> 'v excl_table \<Rightarrow> 'v excl_table" where
  "delete_entry i t = t\<lparr>xt_entries := shift_down i (xt_no t) (xt_entries t), xt_no := xt_no t - 1\<rparr>"

definition append_entry :: "ulong \<Rightarrow> 'v \<Rightarrow> 'v excl_table \<Rightarrow> 'v excl_table res" where
  "append_entry a v t =
     bindr (wr (xt_entries t) (xt_no t) \<lparr>mx_addr = a, mx_val = v\<rparr>) (\<lambda>es.
     Inr (t\<lparr>xt_entries := es, xt_no := xt_no t + 1\<rparr>))"

subsection \<open>Energizer and thumper: one processor per address\<close>

text \<open>
  The flag says whether the warning is printed, which with a debugger attached also
  sends the signal; \<open>limit\<close> is \<open>is.no_cpus + 1\<close> in the energizer, \<open>is.no_cpus\<close> in the thumper.
\<close>

definition memory_mark_exclusive :: "int \<Rightarrow> nat \<Rightarrow> ulong \<Rightarrow> nat excl_table \<Rightarrow> (nat excl_table \<times> bool) res" where
  "memory_mark_exclusive limit cpu addr t =
     (let a = excl_align addr in
      case find_entry t a of Some i \<Rightarrow> Inr (t, False)
      | None \<Rightarrow> bindr (append_entry a cpu t) (\<lambda>t. Inr (t, limit < int (xt_no t))))"

definition memory_test_exclusive :: "nat \<Rightarrow> ulong \<Rightarrow> nat excl_table \<Rightarrow> int" where
  "memory_test_exclusive cpu addr t =
     (case find_entry t (excl_align addr) of
        Some i \<Rightarrow> if cpu \<noteq> mx_val (xt_entries t ! i) then 1 else 0
      | None \<Rightarrow> 1)"

definition memory_clear_exclusive :: "nat \<Rightarrow> ulong \<Rightarrow> nat excl_table \<Rightarrow> nat excl_table \<times> bool" where
  "memory_clear_exclusive cpu addr t =
     (case find_entry t (excl_align addr) of
        Some i \<Rightarrow> (delete_entry i t, False) | None \<Rightarrow> (t, True))"

subsection \<open>Roger: a mask of processors per address\<close>

definition idx_to_bit :: "nat \<Rightarrow> u32" where "idx_to_bit idx = push_bit idx 1"

definition roger_mark_exclusive :: "nat \<Rightarrow> ulong \<Rightarrow> u32 excl_table \<Rightarrow> u32 excl_table res" where
  "roger_mark_exclusive cpu addr t =
     (let a = excl_align addr in
      case find_entry t a of
        Some i \<Rightarrow> Inr (t\<lparr>xt_entries := (xt_entries t)[i := (xt_entries t ! i)
          \<lparr>mx_val := mx_val (xt_entries t ! i) OR idx_to_bit cpu\<rparr>]\<rparr>)
      | None \<Rightarrow> append_entry a (idx_to_bit cpu) t)"

definition roger_test_exclusive :: "nat \<Rightarrow> ulong \<Rightarrow> u32 excl_table \<Rightarrow> u32 excl_table \<times> int" where
  "roger_test_exclusive cpu addr t =
     (case find_entry t (excl_align addr) of
        Some i \<Rightarrow> if mx_val (xt_entries t ! i) AND idx_to_bit cpu \<noteq> 0 then (delete_entry i t, 0) else (t, 1)
      | None \<Rightarrow> (t, 1))"

definition roger_clear_exclusive :: "nat \<Rightarrow> ulong \<Rightarrow> u32 excl_table \<Rightarrow> u32 excl_table" where
  "roger_clear_exclusive cpu addr t =
     (case find_entry t (excl_align addr) of Some i \<Rightarrow> delete_entry i t | None \<Rightarrow> t)"

subsection \<open>The table as a finite map\<close>

definition live :: "'v excl_table \<Rightarrow> 'v mem_exclusive_t list" where
  "live t = take (xt_no t) (xt_entries t)"

definition excl_inv :: "'v excl_table \<Rightarrow> bool" where
  "excl_inv t \<longleftrightarrow> length (xt_entries t) = MEM_EXCLUSIVE_SIZE \<and> xt_no t \<le> MEM_EXCLUSIVE_SIZE
     \<and> distinct (map mx_addr (live t))"

definition excl_map :: "'v excl_table \<Rightarrow> ulong \<rightharpoonup> 'v" where
  "excl_map t = map_of (map (\<lambda>e. (mx_addr e, mx_val e)) (live t))"

lemma shift_down_list:
  assumes "i < n" "n \<le> length es"
  shows "take (n - 1) (shift_down i n es) = take i es @ drop (Suc i) (take n es) \<and> length (shift_down i n es) = length es"
  using assms
proof (induction i n es rule: shift_down.induct)
  case (1 i n es)
  show ?case
  proof (cases "i < n - 1")
    case True
    have "take (Suc i) (es[i := es ! Suc i]) @ drop (Suc (Suc i)) (take n (es[i := es ! Suc i]))
        = take i es @ es ! Suc i # drop (Suc (Suc i)) (take n es)"
      using 1(2,3) by (simp add: take_Suc_conv_app_nth drop_take take_update_swap list_update_append min_def)
    also have "es ! Suc i # drop (Suc (Suc i)) (take n es) = drop (Suc i) (take n es)"
      using True 1(3) by (subst Cons_nth_drop_Suc [symmetric]) auto
    finally show ?thesis using 1(1) [OF True] 1(2,3) True by (simp add: shift_down.simps [of i])
  next
    case False
    then have "shift_down i n es = es" by (subst shift_down.simps) simp
    moreover have "n = Suc i" using False 1(2) by simp
    ultimately show ?thesis using 1(3) by simp
  qed
qed

lemma live_nth: "i < xt_no t \<Longrightarrow> live t ! i = xt_entries t ! i"
  by (simp add: live_def)

lemma live_length: "excl_inv t \<Longrightarrow> length (live t) = xt_no t"
  by (simp add: live_def excl_inv_def)

lemma find_entry_Some:
  assumes "excl_inv t" "find_entry t a = Some i"
  shows "i < xt_no t" "mx_addr (xt_entries t ! i) = a" "excl_map t a = Some (mx_val (xt_entries t ! i))"
proof -
  show i: "i < xt_no t" "mx_addr (xt_entries t ! i) = a" using assms(2) by (auto simp: find_entry_def find_Some_iff)
  then have "(a, mx_val (xt_entries t ! i)) \<in> set (map (\<lambda>e. (mx_addr e, mx_val e)) (live t))"
    using live_nth [OF i(1)] live_length [OF assms(1)] nth_mem [of i "live t"] by force
  moreover have "distinct (map fst (map (\<lambda>e. (mx_addr e, mx_val e)) (live t)))"
    using assms(1) by (simp add: excl_inv_def o_def)
  ultimately show "excl_map t a = Some (mx_val (xt_entries t ! i))" unfolding excl_map_def by simp
qed

lemma find_entry_None:
  assumes "excl_inv t" "find_entry t a = None"
  shows "a \<notin> mx_addr ` set (live t)" "excl_map t a = None"
proof -
  show n: "a \<notin> mx_addr ` set (live t)"
  proof
    assume "a \<in> mx_addr ` set (live t)"
    then obtain i where "i < xt_no t" "a = mx_addr (xt_entries t ! i)"
      using live_length [OF assms(1)] by (auto simp: in_set_conv_nth live_nth)
    then show False using assms(2) by (auto simp: find_entry_def find_None_iff)
  qed
  then show "excl_map t a = None" unfolding excl_map_def by (auto simp: map_of_eq_None_iff)
qed

lemma append_entry_map:
  assumes "excl_inv t" "find_entry t a = None" "xt_no t < MEM_EXCLUSIVE_SIZE"
  shows "\<exists>t'. append_entry a v t = Inr t' \<and> excl_inv t' \<and> excl_map t' = (excl_map t)(a \<mapsto> v) \<and> xt_no t' = xt_no t + 1"
proof -
  let ?t' = "t\<lparr>xt_entries := (xt_entries t)[xt_no t := \<lparr>mx_addr = a, mx_val = v\<rparr>], xt_no := xt_no t + 1\<rparr>"
  have len: "xt_no t < length (xt_entries t)" using assms by (simp add: excl_inv_def)
  have live': "live ?t' = live t @ [\<lparr>mx_addr = a, mx_val = v\<rparr>]"
    using len by (simp add: live_def take_Suc_conv_app_nth)
  have "excl_inv ?t'"
    unfolding excl_inv_def live' using assms find_entry_None [OF assms(1,2)] by (simp add: excl_inv_def)
  moreover have "excl_map ?t' = (excl_map t)(a \<mapsto> v)"
    using find_entry_None(2) [OF assms(1,2)]
    unfolding excl_map_def live' by (auto simp: map_add_def fun_eq_iff split: option.split)
  ultimately show ?thesis using len by (simp add: append_entry_def)
qed

lemma append_entry_full: "excl_inv t \<Longrightarrow> xt_no t = MEM_EXCLUSIVE_SIZE \<Longrightarrow> append_entry a v t = Inl OutOfBounds"
  by (simp add: append_entry_def excl_inv_def)

lemma map_of_delete:
  assumes "distinct (map fst xs)" "i < length xs"
  shows "map_of (take i xs @ drop (Suc i) xs) = (map_of xs)(fst (xs ! i) := None)"
  using assms
proof (induction xs arbitrary: i)
  case (Cons x xs)
  then show ?case by (cases i; cases x) (auto simp: fun_eq_iff map_of_eq_None_iff)
qed simp

lemma delete_entry_map:
  assumes "excl_inv t" "find_entry t a = Some i"
  shows "excl_inv (delete_entry i t)" "excl_map (delete_entry i t) = (excl_map t)(a := None)"
proof -
  note i = find_entry_Some [OF assms]
  note l = shift_down_list [OF i(1), of "xt_entries t"]
  have live': "live (delete_entry i t) = take i (live t) @ drop (Suc i) (live t)"
    using l assms(1) i(1) by (simp add: live_def delete_entry_def excl_inv_def min_def)
  have dis: "distinct (map mx_addr (take i (live t) @ drop (Suc i) (live t)))"
  proof -
    have "distinct (take i (map mx_addr (live t)) @ drop (Suc i) (map mx_addr (live t)))"
      using assms(1) set_take_disj_set_drop_if_distinct [of "map mx_addr (live t)" i "Suc i"]
      by (simp add: excl_inv_def)
    then show ?thesis by (simp add: take_map drop_map)
  qed
  then show "excl_inv (delete_entry i t)"
    using assms(1) l i(1) unfolding excl_inv_def live'
    by (auto simp: delete_entry_def intro: le_trans [OF diff_le_self])
  let ?m = "map (\<lambda>e. (mx_addr e, mx_val e)) (live t)"
  have "map_of (take i ?m @ drop (Suc i) ?m) = (map_of ?m)(fst (?m ! i) := None)"
    by (rule map_of_delete) (use assms(1) i(1) live_length [OF assms(1)] in \<open>simp_all add: excl_inv_def o_def\<close>)
  then show "excl_map (delete_entry i t) = (excl_map t)(a := None)"
    unfolding excl_map_def live' using i(1,2) live_nth [OF i(1)] live_length [OF assms(1)]
    by (simp add: take_map drop_map)
qed

lemma map_of_update:
  assumes "distinct (map fst xs)" "i < length xs"
  shows "map_of (xs[i := (fst (xs ! i), v)]) = (map_of xs)(fst (xs ! i) \<mapsto> v)"
  using assms
proof (induction xs arbitrary: i)
  case (Cons x xs)
  then show ?case by (cases i; cases x) (auto simp: fun_eq_iff)
qed simp

lemma update_entry_map:
  fixes t :: "'v excl_table" and v :: 'v
  assumes "excl_inv t" "find_entry t a = Some i"
    and t': "t' = t\<lparr>xt_entries := (xt_entries t)[i := (xt_entries t ! i)\<lparr>mx_val := v\<rparr>]\<rparr>"
  shows "excl_inv t'" "excl_map t' = (excl_map t)(a \<mapsto> v)"
proof -
  note i = find_entry_Some [OF assms(1,2)]
  have il: "i < length (live t)" using i(1) live_length [OF assms(1)] by simp
  have live': "live t' = (live t)[i := (live t ! i)\<lparr>mx_val := v\<rparr>]"
    using i(1) live_nth [OF i(1)] by (simp add: live_def t' take_update_swap)
  have same: "map mx_addr (live t') = map mx_addr (live t)"
    using il by (simp add: live' map_update list_update_same_conv)
  then show "excl_inv t'" using assms(1) by (simp add: excl_inv_def t')
  let ?m = "map (\<lambda>e. (mx_addr e, mx_val e)) (live t)"
  have "map_of (?m[i := (fst (?m ! i), v)]) = (map_of ?m)(fst (?m ! i) \<mapsto> v)"
    by (rule map_of_update) (use assms(1) il in \<open>simp_all add: excl_inv_def o_def\<close>)
  then show "excl_map t' = (excl_map t)(a \<mapsto> v)"
    unfolding excl_map_def live' using i(2) il live_nth [OF i(1)] by (simp add: map_update)
qed

subsection \<open>The contract\<close>

datatype excl_call = Mark nat ulong | Test nat ulong | Clear nat ulong

text \<open>
  The processors a monitor would let store, per aligned address; \<open>gives_up\<close> says of a call and its
  result that it ends all reservations of an address.
\<close>

locale exclusive_monitor =
  fixes call :: "excl_call \<Rightarrow> 's \<Rightarrow> ('s \<times> int) res"
    and inv :: "'s \<Rightarrow> bool"
    and held :: "'s \<Rightarrow> ulong \<Rightarrow> nat \<Rightarrow> bool"
    and gives_up :: "excl_call \<Rightarrow> int \<Rightarrow> ulong \<Rightarrow> bool"
  assumes inv_call: "\<lbrakk>inv s; call c s = Inr (s', r)\<rbrakk> \<Longrightarrow> inv s'"
    and held_call: "\<lbrakk>inv s; call c s = Inr (s', r); held s' a p\<rbrakk>
      \<Longrightarrow> held s a p \<or> (\<exists>b. c = Mark p b \<and> excl_align b = a)"
    and held_test: "\<lbrakk>inv s; call (Test p b) s = Inr (s', 0)\<rbrakk> \<Longrightarrow> held s (excl_align b) p"
    and held_gives_up: "\<lbrakk>inv s; call c s = Inr (s', r); gives_up c r a\<rbrakk> \<Longrightarrow> \<not> held s' a p"
begin

fun run :: "excl_call list \<Rightarrow> 's \<Rightarrow> ('s \<times> int list) res" where
  "run [] s = Inr (s, [])"
| "run (c # cs) s = bindr (call c s) (\<lambda>(s, r). bindr (run cs s) (\<lambda>(s, rs). Inr (s, r # rs)))"

text \<open>Where a reservation comes from: a mark with no call that gave the address up since.\<close>

lemma held_since:
  assumes "run cs s = Inr (s', rs)" "inv s" "held s' a p"
  shows "inv s' \<and> length rs = length cs
    \<and> (held s a p \<and> (\<forall>k < length cs. \<not> gives_up (cs ! k) (rs ! k) a)
       \<or> (\<exists>j < length cs. (\<exists>b. cs ! j = Mark p b \<and> excl_align b = a)
            \<and> (\<forall>k < length cs. j < k \<longrightarrow> \<not> gives_up (cs ! k) (rs ! k) a)))"
  using assms
proof (induction cs arbitrary: s rs)
  case (Cons c cs)
  obtain s1 r rs1 where 1: "call c s = Inr (s1, r)" "run cs s1 = Inr (s', rs1)" "rs = r # rs1"
    using Cons.prems(1) by (auto simp: bindr_eq_Inr)
  have inv1: "inv s1" using inv_call Cons.prems(2) 1(1) by blast
  note IH = Cons.IH [OF 1(2) inv1 Cons.prems(3)]
  show ?case
  proof (cases "held s1 a p \<and> (\<forall>k < length cs. \<not> gives_up (cs ! k) (rs1 ! k) a)")
    case True
    then have g: "\<not> gives_up c r a" using held_gives_up Cons.prems(2) 1(1) by blast
    from held_call [OF Cons.prems(2) 1(1)] True
    consider "held s a p" | b where "c = Mark p b" "excl_align b = a" by blast
    then show ?thesis
    proof cases
      case 1
      then show ?thesis using IH True g \<open>rs = r # rs1\<close> by (auto simp: nth_Cons' )
    next
      case (2 b)
      then show ?thesis using IH True \<open>rs = r # rs1\<close> by (auto simp: nth_Cons' intro!: exI [of _ 0])
    qed
  next
    case False
    then obtain j where j: "j < length cs" "\<exists>b. cs ! j = Mark p b \<and> excl_align b = a"
      "\<forall>k < length cs. j < k \<longrightarrow> \<not> gives_up (cs ! k) (rs1 ! k) a" using IH by blast
    have "\<forall>k < length (c # cs). Suc j < k \<longrightarrow> \<not> gives_up ((c # cs) ! k) (rs ! k) a"
      using j(3) by (auto simp: 1(3) nth_Cons split: nat.split)
    then show ?thesis using IH j(1,2) 1(3) by (auto intro!: exI [of _ "Suc j"])
  qed
qed simp

lemma run_snoc:
  "run (cs @ [c]) s = Inr (s', rs) \<longleftrightarrow> (\<exists>s1 rs1 r. run cs s = Inr (s1, rs1) \<and> call c s1 = Inr (s', r) \<and> rs = rs1 @ [r])"
  by (induction cs arbitrary: s rs) (auto simp: bindr_eq_Inr)

lemma run_inv: "run cs s = Inr (s', rs) \<Longrightarrow> inv s \<Longrightarrow> inv s' \<and> length rs = length cs"
  by (induction cs arbitrary: s rs) (auto simp: bindr_eq_Inr dest: inv_call)

text \<open>The success of a test after a run that starts with no reservations.\<close>

lemma test_succeeds_after_mark:
  assumes "run (cs @ [Test p b]) s = Inr (s', rs @ [0])" "inv s" "\<And>a p. \<not> held s a p"
  shows "\<exists>j < length cs. (\<exists>b'. cs ! j = Mark p b' \<and> excl_align b' = excl_align b)
    \<and> (\<forall>k < length cs. j < k \<longrightarrow> \<not> gives_up (cs ! k) (rs ! k) (excl_align b))"
proof -
  obtain s1 where s1: "run cs s = Inr (s1, rs)" "call (Test p b) s1 = Inr (s', 0)"
    using assms(1) by (auto simp: run_snoc)
  have "held s1 (excl_align b) p" using held_test run_inv [OF s1(1) assms(2)] s1(2) by blast
  from held_since [OF s1(1) assms(2) this] assms(3) show ?thesis by blast
qed

end

subsection \<open>Both monitors keep the contract\<close>

text \<open>A call of the energizer's monitor, in a platform of \<open>n\<close> processors.\<close>

definition energizer_call :: "int \<Rightarrow> excl_call \<Rightarrow> nat excl_table \<Rightarrow> (nat excl_table \<times> int) res" where
  "energizer_call n c t = (case c of
     Mark cpu a \<Rightarrow> bindr (memory_mark_exclusive (n + 1) cpu a t) (\<lambda>(t, w). Inr (t, of_bool w))
   | Test cpu a \<Rightarrow> Inr (t, memory_test_exclusive cpu a t)
   | Clear cpu a \<Rightarrow> (let (t, w) = memory_clear_exclusive cpu a t in Inr (t, of_bool w)))"

definition roger_call :: "excl_call \<Rightarrow> u32 excl_table \<Rightarrow> (u32 excl_table \<times> int) res" where
  "roger_call c t = (case c of
     Mark cpu a \<Rightarrow> bindr (roger_mark_exclusive cpu a t) (\<lambda>t. Inr (t, 0))
   | Test cpu a \<Rightarrow> Inr (roger_test_exclusive cpu a t)
   | Clear cpu a \<Rightarrow> Inr (roger_clear_exclusive cpu a t, 0))"

definition energizer_held :: "nat excl_table \<Rightarrow> ulong \<Rightarrow> nat \<Rightarrow> bool" where
  "energizer_held t a p \<longleftrightarrow> excl_map t a = Some p"

definition roger_held :: "u32 excl_table \<Rightarrow> ulong \<Rightarrow> nat \<Rightarrow> bool" where
  "roger_held t a p \<longleftrightarrow> (case excl_map t a of Some m \<Rightarrow> m AND idx_to_bit p \<noteq> 0 | None \<Rightarrow> False)"

text \<open>What each monitor does to the map, on every branch.\<close>

lemma energizer_call_map:
  assumes "excl_inv t"
  shows "energizer_call n (Test p a) t = Inr (t, if excl_map t (excl_align a) = Some p then 0 else 1)"
    and "\<exists>t'. energizer_call n (Clear p a) t = Inr (t', of_bool (excl_map t (excl_align a) = None))
      \<and> excl_inv t' \<and> excl_map t' = (excl_map t)(excl_align a := None)"
    and "excl_map t (excl_align a) = Some q \<Longrightarrow> energizer_call n (Mark p a) t = Inr (t, 0)"
    and "\<lbrakk>excl_map t (excl_align a) = None; xt_no t < MEM_EXCLUSIVE_SIZE\<rbrakk> \<Longrightarrow>
      \<exists>t' r. energizer_call n (Mark p a) t = Inr (t', r) \<and> excl_inv t'
        \<and> excl_map t' = (excl_map t)(excl_align a \<mapsto> p) \<and> xt_no t' = xt_no t + 1"
    and "\<lbrakk>excl_map t (excl_align a) = None; xt_no t = MEM_EXCLUSIVE_SIZE\<rbrakk> \<Longrightarrow>
      energizer_call n (Mark p a) t = Inl OutOfBounds"
proof -
  show "energizer_call n (Test p a) t = Inr (t, if excl_map t (excl_align a) = Some p then 0 else 1)"
    using find_entry_Some [OF assms, of "excl_align a"] find_entry_None [OF assms, of "excl_align a"]
    by (cases "find_entry t (excl_align a)") (auto simp: energizer_call_def memory_test_exclusive_def)
  show "\<exists>t'. energizer_call n (Clear p a) t = Inr (t', of_bool (excl_map t (excl_align a) = None))
      \<and> excl_inv t' \<and> excl_map t' = (excl_map t)(excl_align a := None)"
    using find_entry_Some [OF assms, of "excl_align a"] find_entry_None [OF assms, of "excl_align a"] assms
      delete_entry_map [OF assms, of "excl_align a"]
    by (cases "find_entry t (excl_align a)")
      (auto simp: energizer_call_def memory_clear_exclusive_def fun_upd_idem)
  show "energizer_call n (Mark p a) t = Inr (t, 0)" if "excl_map t (excl_align a) = Some q"
    using that find_entry_None [OF assms, of "excl_align a"]
    by (cases "find_entry t (excl_align a)") (auto simp: energizer_call_def memory_mark_exclusive_def)
  assume none: "excl_map t (excl_align a) = None"
  then have f: "find_entry t (excl_align a) = None"
    using find_entry_Some [OF assms, of "excl_align a"] by (cases "find_entry t (excl_align a)") auto
  show "\<exists>t' r. energizer_call n (Mark p a) t = Inr (t', r) \<and> excl_inv t'
        \<and> excl_map t' = (excl_map t)(excl_align a \<mapsto> p) \<and> xt_no t' = xt_no t + 1" if "xt_no t < MEM_EXCLUSIVE_SIZE"
    using append_entry_map [OF assms f that, of p] by (auto simp: energizer_call_def memory_mark_exclusive_def f)
  show "energizer_call n (Mark p a) t = Inl OutOfBounds" if "xt_no t = MEM_EXCLUSIVE_SIZE"
    using append_entry_full [OF assms that] by (simp add: energizer_call_def memory_mark_exclusive_def f)
qed

lemma roger_call_map:
  assumes "excl_inv t"
  shows "\<exists>t'. roger_call (Test p a) t = Inr (t', if roger_held t (excl_align a) p then 0 else 1) \<and> excl_inv t'
      \<and> excl_map t' = (if roger_held t (excl_align a) p then (excl_map t)(excl_align a := None) else excl_map t)"
    and "\<exists>t'. roger_call (Clear p a) t = Inr (t', 0) \<and> excl_inv t' \<and> excl_map t' = (excl_map t)(excl_align a := None)"
    and "excl_map t (excl_align a) = Some m \<Longrightarrow> \<exists>t'. roger_call (Mark p a) t = Inr (t', 0) \<and> excl_inv t'
      \<and> excl_map t' = (excl_map t)(excl_align a \<mapsto> m OR idx_to_bit p)"
    and "\<lbrakk>excl_map t (excl_align a) = None; xt_no t < MEM_EXCLUSIVE_SIZE\<rbrakk> \<Longrightarrow>
      \<exists>t'. roger_call (Mark p a) t = Inr (t', 0) \<and> excl_inv t' \<and> excl_map t' = (excl_map t)(excl_align a \<mapsto> idx_to_bit p)"
    and "\<lbrakk>excl_map t (excl_align a) = None; xt_no t = MEM_EXCLUSIVE_SIZE\<rbrakk> \<Longrightarrow> roger_call (Mark p a) t = Inl OutOfBounds"
proof -
  note S = find_entry_Some [OF assms, of "excl_align a"] and N = find_entry_None [OF assms, of "excl_align a"]
    and D = delete_entry_map [OF assms, of "excl_align a"]
  show "\<exists>t'. roger_call (Test p a) t = Inr (t', if roger_held t (excl_align a) p then 0 else 1) \<and> excl_inv t'
      \<and> excl_map t' = (if roger_held t (excl_align a) p then (excl_map t)(excl_align a := None) else excl_map t)"
    using S N D assms
    by (cases "find_entry t (excl_align a)") (auto simp: roger_call_def roger_test_exclusive_def roger_held_def)
  show "\<exists>t'. roger_call (Clear p a) t = Inr (t', 0) \<and> excl_inv t' \<and> excl_map t' = (excl_map t)(excl_align a := None)"
    using S N D assms
    by (cases "find_entry t (excl_align a)") (auto simp: roger_call_def roger_clear_exclusive_def fun_upd_idem)
  show "\<exists>t'. roger_call (Mark p a) t = Inr (t', 0) \<and> excl_inv t'
      \<and> excl_map t' = (excl_map t)(excl_align a \<mapsto> m OR idx_to_bit p)" if m: "excl_map t (excl_align a) = Some m"
  proof -
    obtain i where i: "find_entry t (excl_align a) = Some i" using N m by (cases "find_entry t (excl_align a)") auto
    then show ?thesis using S m update_entry_map [OF assms i refl]
      by (auto simp: roger_call_def roger_mark_exclusive_def)
  qed
  assume none: "excl_map t (excl_align a) = None"
  then have f: "find_entry t (excl_align a) = None" using S by (cases "find_entry t (excl_align a)") auto
  show "\<exists>t'. roger_call (Mark p a) t = Inr (t', 0) \<and> excl_inv t' \<and> excl_map t' = (excl_map t)(excl_align a \<mapsto> idx_to_bit p)"
    if "xt_no t < MEM_EXCLUSIVE_SIZE"
    using append_entry_map [OF assms f that, of "idx_to_bit p"] by (auto simp: roger_call_def roger_mark_exclusive_def f)
  show "roger_call (Mark p a) t = Inl OutOfBounds" if "xt_no t = MEM_EXCLUSIVE_SIZE"
    using append_entry_full [OF assms that] by (simp add: roger_call_def roger_mark_exclusive_def f)
qed

lemma idx_to_bit_common: "idx_to_bit p AND idx_to_bit q \<noteq> 0 \<Longrightarrow> p = q"
proof (rule ccontr)
  assume n: "idx_to_bit p AND idx_to_bit q \<noteq> 0" and d: "p \<noteq> q"
  have "idx_to_bit p AND idx_to_bit q = 0"
    using d by (intro bit_word_eqI) (simp add: idx_to_bit_def bit_simps)
  then show False using n by simp
qed

fun energizer_gives_up :: "excl_call \<Rightarrow> int \<Rightarrow> ulong \<Rightarrow> bool" where
  "energizer_gives_up (Clear p b) r a = (excl_align b = a)"
| "energizer_gives_up _ r a = False"

fun roger_gives_up :: "excl_call \<Rightarrow> int \<Rightarrow> ulong \<Rightarrow> bool" where
  "roger_gives_up (Clear p b) r a = (excl_align b = a)"
| "roger_gives_up (Test p b) r a = (r = 0 \<and> excl_align b = a)"
| "roger_gives_up _ r a = False"

lemma no_room: "excl_inv t \<Longrightarrow> \<not> xt_no t < MEM_EXCLUSIVE_SIZE \<Longrightarrow> xt_no t = MEM_EXCLUSIVE_SIZE"
  by (simp add: excl_inv_def)

text \<open>One call of each monitor, as a relation on maps.\<close>

lemma energizer_step:
  assumes "excl_inv t" "energizer_call n c t = Inr (t', r)"
  shows "excl_inv t' \<and> excl_map t' = (case c of
      Mark p a \<Rightarrow> (if excl_map t (excl_align a) = None then (excl_map t)(excl_align a \<mapsto> p) else excl_map t)
    | Test p a \<Rightarrow> excl_map t
    | Clear p a \<Rightarrow> (excl_map t)(excl_align a := None))
    \<and> (\<forall>p a. c = Test p a \<longrightarrow> r = (if excl_map t (excl_align a) = Some p then 0 else 1))"
proof (cases c)
  case (Mark p a)
  show ?thesis
  proof (cases "excl_map t (excl_align a)")
    case None
    have "xt_no t < MEM_EXCLUSIVE_SIZE"
      using energizer_call_map(5) [OF assms(1) None, of n p] assms(2) no_room [OF assms(1)] unfolding Mark by auto
    from energizer_call_map(4) [OF assms(1) None this, of n p] show ?thesis using assms(2) None unfolding Mark by auto
  next
    case (Some q)
    then show ?thesis using energizer_call_map(3) [OF assms(1) Some] assms unfolding Mark by simp
  qed
next
  case (Test p a)
  then show ?thesis using energizer_call_map(1) [OF assms(1)] assms by auto
next
  case (Clear p a)
  then show ?thesis using energizer_call_map(2) [OF assms(1), of n p a] assms(2) by auto
qed

lemma roger_step:
  assumes "excl_inv t" "roger_call c t = Inr (t', r)"
  shows "excl_inv t' \<and> excl_map t' = (case c of
      Mark p a \<Rightarrow> (excl_map t)(excl_align a \<mapsto> (case excl_map t (excl_align a) of
        None \<Rightarrow> idx_to_bit p | Some m \<Rightarrow> m OR idx_to_bit p))
    | Test p a \<Rightarrow> (if roger_held t (excl_align a) p then (excl_map t)(excl_align a := None) else excl_map t)
    | Clear p a \<Rightarrow> (excl_map t)(excl_align a := None))
    \<and> (\<forall>p a. c = Test p a \<longrightarrow> r = (if roger_held t (excl_align a) p then 0 else 1))"
proof (cases c)
  case (Mark p a)
  show ?thesis
  proof (cases "excl_map t (excl_align a)")
    case None
    have "xt_no t < MEM_EXCLUSIVE_SIZE"
      using roger_call_map(5) [OF assms(1) None, of p] assms(2) no_room [OF assms(1)] unfolding Mark by auto
    from roger_call_map(4) [OF assms(1) None this, of p] show ?thesis using assms(2) None unfolding Mark by auto
  next
    case (Some m)
    then show ?thesis using roger_call_map(3) [OF assms(1) Some, of p] assms(2) unfolding Mark by auto
  qed
next
  case (Test p a)
  then show ?thesis using roger_call_map(1) [OF assms(1), of p a] assms(2) by auto
next
  case (Clear p a)
  then show ?thesis using roger_call_map(2) [OF assms(1), of p a] assms(2) by auto
qed

interpretation energizer: exclusive_monitor "energizer_call n" excl_inv energizer_held energizer_gives_up for n
proof
  fix s c s' r a p
  assume inv: "excl_inv s" and c: "energizer_call n c s = Inr (s', r)"
  note st = energizer_step [OF inv c]
  show "excl_inv s'" using st by blast
  show "energizer_held s a p \<or> (\<exists>b. c = Mark p b \<and> excl_align b = a)" if "energizer_held s' a p"
    using st that by (cases c) (auto simp: energizer_held_def split: if_splits)
  show "\<not> energizer_held s' a p" if "energizer_gives_up c r a"
    using st that by (cases c) (auto simp: energizer_held_def)
next
  fix s p b s' assume "excl_inv s" "energizer_call n (Test p b) s = Inr (s', 0)"
  from energizer_step [OF this] show "energizer_held s (excl_align b) p"
    by (auto simp: energizer_held_def split: if_splits)
qed

interpretation roger: exclusive_monitor roger_call excl_inv roger_held roger_gives_up
proof
  fix s c s' r a p
  assume inv: "excl_inv s" and c: "roger_call c s = Inr (s', r)"
  note st = roger_step [OF inv c]
  show "excl_inv s'" using st by blast
  show "roger_held s a p \<or> (\<exists>b. c = Mark p b \<and> excl_align b = a)" if "roger_held s' a p"
  proof (cases c)
    case (Mark q b)
    then show ?thesis using st that idx_to_bit_common [of q p]
      by (auto simp: roger_held_def bit.conj_disj_distrib2 split: if_splits option.splits)
  qed (use st that in \<open>auto simp: roger_held_def split: if_splits option.splits\<close>)
  show "\<not> roger_held s' a p" if "roger_gives_up c r a"
    using st that by (cases c) (auto simp: roger_held_def split: if_splits)
next
  fix s p b s' assume "excl_inv s" "roger_call (Test p b) s = Inr (s', 0)"
  from roger_step [OF this] show "roger_held s (excl_align b) p" by (auto split: if_splits)
qed

subsection \<open>Properties\<close>

definition excl_new :: "'v mem_exclusive_t list \<Rightarrow> 'v excl_table" where
  "excl_new zeros = \<lparr>xt_entries = zeros, xt_no = 0\<rparr>"

lemma excl_new_inv:
  "length zeros = MEM_EXCLUSIVE_SIZE \<Longrightarrow> excl_inv (excl_new zeros) \<and> excl_map (excl_new zeros) a = None"
  by (simp add: excl_inv_def excl_new_def excl_map_def live_def)

text \<open>
  Claim C20. Exclusive stores are exclusive, on both kinds of platforms and for every sequence
  of calls from the empty table, by any processors on any addresses: when a
  test tells a processor it may store, that processor has marked the word before, and
  since that mark nobody has cleared it; on the roger no test of the word has succeeded
  since either, so of several processors that marked it one stores.
\<close>
theorem exclusive_store_was_marked:
  assumes "length zeros = MEM_EXCLUSIVE_SIZE" "length zeros' = MEM_EXCLUSIVE_SIZE"
    and "energizer.run n (cs @ [Test p b]) (excl_new zeros) = Inr (t, rs @ [0])"
    and "roger.run (ds @ [Test q c]) (excl_new zeros') = Inr (u, ss @ [0])"
  shows "(\<exists>j < length cs. (\<exists>b'. cs ! j = Mark p b' \<and> excl_align b' = excl_align b)
      \<and> (\<forall>k < length cs. j < k \<longrightarrow> \<not> energizer_gives_up (cs ! k) (rs ! k) (excl_align b)))
    \<and> (\<exists>j < length ds. (\<exists>b'. ds ! j = Mark q b' \<and> excl_align b' = excl_align c)
      \<and> (\<forall>k < length ds. j < k \<longrightarrow> \<not> roger_gives_up (ds ! k) (ss ! k) (excl_align c)))"
proof
  show "\<exists>j < length cs. (\<exists>b'. cs ! j = Mark p b' \<and> excl_align b' = excl_align b)
      \<and> (\<forall>k < length cs. j < k \<longrightarrow> \<not> energizer_gives_up (cs ! k) (rs ! k) (excl_align b))"
    by (rule energizer.test_succeeds_after_mark [OF assms(3)])
      (use excl_new_inv [OF assms(1)] in \<open>simp_all add: energizer_held_def\<close>)
  show "\<exists>j < length ds. (\<exists>b'. ds ! j = Mark q b' \<and> excl_align b' = excl_align c)
      \<and> (\<forall>k < length ds. j < k \<longrightarrow> \<not> roger_gives_up (ds ! k) (ss ! k) (excl_align c))"
    by (rule roger.test_succeeds_after_mark [OF assms(4)])
      (use excl_new_inv [OF assms(2)] in \<open>simp_all add: roger_held_def\<close>)
qed

theorem exclusive_store_was_marked_witness:
  "\<exists>t u. energizer.run 4 ([Mark 0 8, Mark 1 9] @ [Test 0 10]) (excl_new (replicate 100 \<lparr>mx_addr = 0, mx_val = 0\<rparr>))
      = Inr (t, [0, 0] @ [0])
    \<and> roger.run ([Mark 0 8, Mark 1 8, Test 1 8, Mark 0 8] @ [Test 0 8]) (excl_new (replicate 100 \<lparr>mx_addr = 0, mx_val = 0\<rparr>))
      = Inr (u, [0, 0, 0, 0] @ [0])
    \<and> (\<exists>j < length [Mark 0 8, Mark 1 9]. \<exists>b'. [Mark 0 8, Mark 1 9] ! j = Mark 0 b' \<and> excl_align b' = excl_align 10)"
proof -
  let ?z = "excl_new (replicate 100 \<lparr>mx_addr = 0, mx_val = 0 :: nat\<rparr>)"
  let ?y = "excl_new (replicate 100 \<lparr>mx_addr = 0, mx_val = 0 :: u32\<rparr>)"
  have "map_sum id snd (energizer.run 4 ([Mark 0 8, Mark 1 9] @ [Test 0 10]) ?z) = Inr ([0, 0] @ [0])"
    by (simp add: energizer_call_def memory_mark_exclusive_def memory_test_exclusive_def find_entry_def append_entry_def
      excl_new_def excl_align_def wr_def)
  then obtain t where t: "energizer.run 4 ([Mark 0 8, Mark 1 9] @ [Test 0 10]) ?z = Inr (t, [0, 0] @ [0])"
    by (cases "energizer.run 4 ([Mark 0 8, Mark 1 9] @ [Test 0 10]) ?z") auto
  have "map_sum id snd (roger.run ([Mark 0 8, Mark 1 8, Test 1 8, Mark 0 8] @ [Test 0 8]) ?y) = Inr ([0, 0, 0, 0] @ [0])"
    by (simp add: roger_call_def roger_mark_exclusive_def roger_test_exclusive_def find_entry_def append_entry_def
      excl_new_def excl_align_def wr_def idx_to_bit_def delete_entry_def shift_down.simps)
  then obtain u where u: "roger.run ([Mark 0 8, Mark 1 8, Test 1 8, Mark 0 8] @ [Test 0 8]) ?y = Inr (u, [0, 0, 0, 0] @ [0])"
    by (cases "roger.run ([Mark 0 8, Mark 1 8, Test 1 8, Mark 0 8] @ [Test 0 8]) ?y") auto
  have len: "length (replicate 100 x) = MEM_EXCLUSIVE_SIZE" for x :: "'a mem_exclusive_t"
    by (simp add: MEM_EXCLUSIVE_SIZE_def)
  from exclusive_store_was_marked [OF len len t u] show ?thesis using t u by blast
qed

end
