(* ===== verification/Platform_Init.thy ===== *)
theory Platform_Init
  imports Rabbits_Prelude
begin

text \<open>
  What a platform does before the simulation starts (\<^verbatim>\<open>system_init.cpp\<close> of the three
  platforms, \<open>systemc_load_image\<close> of \<^verbatim>\<open>main.cpp\<close>): the command line, the checks of the files, and
  the image of the memory a kernel boots from. The code is the energizer's; the other two
  differ in their tables of options and in the checks, which are here too. A file is the
  list of its bytes, found by its name; a null pointer to a string is \<open>None\<close>.

  The properties: every setting is that of the last option for it, and the memory holds
  what the boot protocol asks for.
\<close>

subsection \<open>The command line\<close>

text \<open>The fields of the three variants of the structure.\<close>

record init_struct =
  is_cpu_family :: "string option"
  is_cpu_model :: "string option"
  is_kernel_filename :: "string option"
  is_ec_kernel_filename :: "string option"
  is_initrd_filename :: "string option"
  is_kernel_cmdline :: "string option"
  is_no_cpus :: int
  is_ramsize :: int
  is_ec_ramsize :: int
  is_sramsize :: int
  is_gdb_port :: int
  is_ec_gdb_port :: int
  is_fb_uninit :: int
  is_block_device :: "string option"
  no_frames_to_simulate :: int

datatype cmdline_index = CMDLINE_OPTION_loops | CMDLINE_OPTION_ncpu | CMDLINE_OPTION_cpu_family | CMDLINE_OPTION_cpu
  | CMDLINE_OPTION_ram | CMDLINE_OPTION_ec_ram | CMDLINE_OPTION_sram | CMDLINE_OPTION_kernel | CMDLINE_OPTION_ec_kernel
  | CMDLINE_OPTION_initrd | CMDLINE_OPTION_gdb_port | CMDLINE_OPTION_ec_gdb_port | CMDLINE_OPTION_kernel_cmd
  | CMDLINE_OPTION_fb_uninit | CMDLINE_OPTION_block_dev

record cmdline_option =
  co_name :: string
  co_has_arg :: bool
  co_index :: cmdline_index

definition opt :: "string \<Rightarrow> cmdline_index \<Rightarrow> cmdline_option" where
  "opt n i = \<lparr>co_name = n, co_has_arg = True, co_index = i\<rparr>"


definition roger_options :: "cmdline_option list" where
  "roger_options = [opt ''L'' CMDLINE_OPTION_loops, opt ''ncpu'' CMDLINE_OPTION_ncpu,
     opt ''M'' CMDLINE_OPTION_cpu_family, opt ''cpu'' CMDLINE_OPTION_cpu, opt ''ram'' CMDLINE_OPTION_ram,
     opt ''sram'' CMDLINE_OPTION_sram, opt ''kernel'' CMDLINE_OPTION_kernel, opt ''initrd'' CMDLINE_OPTION_initrd,
     opt ''gdb_port'' CMDLINE_OPTION_gdb_port, opt ''append'' CMDLINE_OPTION_kernel_cmd]"


text \<open>\<open>atoi\<close> of the C library, and the product of two \<open>int\<close>s, which wraps around with the compilers used.\<close>

fun atoi_digits :: "string \<Rightarrow> int \<Rightarrow> int" where
  "atoi_digits [] v = v"
| "atoi_digits (c # cs) v =
     (let n = of_char c in if 48 \<le> n \<and> n \<le> 57 then atoi_digits cs (10 * v + (n - 48)) else v)"

definition atoi :: "string \<Rightarrow> int" where
  "atoi s = (let s = dropWhile (\<lambda>c. c = CHR '' '' \<or> (9 \<le> (of_char c :: nat) \<and> (of_char c :: nat) \<le> 13)) s in
     case s of [] \<Rightarrow> 0
     | c # cs \<Rightarrow> if c = CHR ''-'' then - atoi_digits cs 0
               else if c = CHR ''+'' then atoi_digits cs 0 else atoi_digits s 0)"

definition megabytes :: "int \<Rightarrow> int" where
  "megabytes n = (n * 1024 * 1024 + 2 ^ 31) mod 2 ^ 32 - 2 ^ 31"

text \<open>The \<open>switch\<close>; the case of \<open>initrd\<close> has no \<open>break\<close> and runs into the next one.\<close>

fun apply_option :: "cmdline_index \<Rightarrow> string \<Rightarrow> init_struct \<Rightarrow> init_struct" where
  "apply_option CMDLINE_OPTION_loops a is = is\<lparr>no_frames_to_simulate := atoi a\<rparr>"
| "apply_option CMDLINE_OPTION_ncpu a is = is\<lparr>is_no_cpus := atoi a\<rparr>"
| "apply_option CMDLINE_OPTION_cpu_family a is = is\<lparr>is_cpu_family := Some a\<rparr>"
| "apply_option CMDLINE_OPTION_cpu a is = is\<lparr>is_cpu_model := Some a\<rparr>"
| "apply_option CMDLINE_OPTION_ram a is = is\<lparr>is_ramsize := megabytes (atoi a)\<rparr>"
| "apply_option CMDLINE_OPTION_ec_ram a is = is\<lparr>is_ec_ramsize := megabytes (atoi a)\<rparr>"
| "apply_option CMDLINE_OPTION_sram a is = is\<lparr>is_sramsize := megabytes (atoi a)\<rparr>"
| "apply_option CMDLINE_OPTION_kernel a is = is\<lparr>is_kernel_filename := Some a\<rparr>"
| "apply_option CMDLINE_OPTION_ec_kernel a is = is\<lparr>is_ec_kernel_filename := Some a\<rparr>"
| "apply_option CMDLINE_OPTION_initrd a is = is\<lparr>is_initrd_filename := Some a, is_gdb_port := atoi a\<rparr>"
| "apply_option CMDLINE_OPTION_gdb_port a is = is\<lparr>is_gdb_port := atoi a\<rparr>"
| "apply_option CMDLINE_OPTION_ec_gdb_port a is = is\<lparr>is_ec_gdb_port := atoi a\<rparr>"
| "apply_option CMDLINE_OPTION_kernel_cmd a is = is\<lparr>is_kernel_cmdline := Some a\<rparr>"
| "apply_option CMDLINE_OPTION_fb_uninit a is = is\<lparr>is_fb_uninit := 1\<rparr>"
| "apply_option CMDLINE_OPTION_block_dev a is = is\<lparr>is_block_device := Some a\<rparr>"

text \<open>
  The loop over the arguments behind the program's name. \<open>r[1]\<close> of an empty argument is
  outside it. Only the second character is looked at for the dash of \<open>--foo\<close>, and the first
  one is skipped whatever it is.
\<close>

fun parse_args :: "cmdline_option list \<Rightarrow> string list \<Rightarrow> init_struct \<Rightarrow> init_struct res" where
  "parse_args opts [] is = Inr is"
| "parse_args opts (r # args) is =
     (if r = '''' then Inl OutOfBounds
      else
        let r = (if 1 < length r \<and> r ! 1 = CHR ''-'' then tl r else r) in
        case find (\<lambda>p. co_name p = tl r) opts of
          None \<Rightarrow> Inl (Exit 1)
        | Some p \<Rightarrow>
            if co_has_arg p then
              (case args of [] \<Rightarrow> Inl (Exit 1)
               | optarg # args \<Rightarrow> parse_args opts args (apply_option (co_index p) optarg is))
            else parse_args opts args (apply_option (co_index p) '''' is))"

definition parse_cmdline :: "cmdline_option list \<Rightarrow> string list \<Rightarrow> init_struct \<Rightarrow> init_struct res" where
  "parse_cmdline opts argv is = parse_args opts (tl argv) is"

subsection \<open>The checks\<close>

text \<open>\<open>stat\<close> succeeds for the files there are. The result is the flag \<open>error\<close>.\<close>

type_synonym files = "string \<Rightarrow> u8 list option"

definition missing :: "files \<Rightarrow> string option \<Rightarrow> bool" where
  "missing fs name = (case name of None \<Rightarrow> True | Some f \<Rightarrow> fs f = None)"

definition check_init :: "files \<Rightarrow> init_struct \<Rightarrow> int" where
  "check_init fs is = of_bool (missing fs (is_kernel_filename is)
     \<or> (is_initrd_filename is \<noteq> None \<and> missing fs (is_initrd_filename is))
     \<or> missing fs (is_ec_kernel_filename is))"

definition roger_check_init :: "files \<Rightarrow> init_struct \<Rightarrow> int" where
  "roger_check_init fs is = of_bool (missing fs (is_kernel_filename is)
     \<or> (is_initrd_filename is \<noteq> None \<and> missing fs (is_initrd_filename is)))"

subsection \<open>The image in memory\<close>

text \<open>\<open>get_size\<close> of the memory is the length of its array; the sum is one of \<open>unsigned long\<close>.\<close>

definition systemc_load_image :: "files \<Rightarrow> string option \<Rightarrow> ulong \<Rightarrow> u8 list \<Rightarrow> (u8 list \<times> int) res" where
  "systemc_load_image fs file ofs mem =
     (case file of None \<Rightarrow> Inr (mem, -1)
      | Some f \<Rightarrow> (case fs f of None \<Rightarrow> Inr (mem, -1)
          | Some img \<Rightarrow>
              if of_nat (length mem) < of_nat (length img) + ofs then Inl (Exit 1)
              else bindr (wr_bytes mem (unat ofs) img) (\<lambda>mem. Inr (mem, int (length img)))))"

definition BOARD_ID :: u32 where "BOARD_ID = 2339"
definition KERNEL_ARGS_ADDR :: ulong where "KERNEL_ARGS_ADDR = 0x100"
definition KERNEL_LOAD_ADDR :: ulong where "KERNEL_LOAD_ADDR = 0x00010000"
definition INITRD_LOAD_ADDR :: ulong where "INITRD_LOAD_ADDR = 0x00800000"

definition bootloader :: "ulong list" where
  "bootloader = [0xee101fb0, 0xe211100f, 0x159f3004, 0x0a000001, 0xe12fff13, 0x85000000, 0xe3a00000,
     0xe3a01000 OR (BOARD_ID AND 0xff), 0xe3811c00 OR (drop_bit 8 BOARD_ID AND 0xff), 0xe59f2000, 0xe59ff000,
     KERNEL_ARGS_ADDR, KERNEL_LOAD_ADDR]"

definition smpboot :: "ulong list" where
  "smpboot = [0xe3a00482, 0xe3800084, 0xe320f003, 0xe5901000, 0xe3110003, 0x1afffffb, 0xe12fff11]"

text \<open>A sequence of \<open>*p++ = w\<close>: the memory and the pointer after them.\<close>

definition put_words :: "ulong list \<Rightarrow> u8 list \<times> nat \<Rightarrow> (u8 list \<times> nat) res" where
  "put_words ws = (\<lambda>(mem, p). bindr (wr_bytes mem p (words_bytes ws)) (\<lambda>mem. Inr (mem, p + 4 * length ws)))"

definition cmdline_bytes :: "string \<Rightarrow> u8 list" where
  "cmdline_bytes s = map of_char s @ [0]"

definition put_cmdline :: "string option \<Rightarrow> u8 list \<times> nat \<Rightarrow> (u8 list \<times> nat) res" where
  "put_cmdline kernel_cmdline = (\<lambda>(mem, p).
     case kernel_cmdline of None \<Rightarrow> Inr (mem, p)
     | Some s \<Rightarrow>
       if s = '''' then Inr (mem, p)
       else bindr (wr_bytes mem (p + 8) (cmdline_bytes s)) (\<lambda>mem.
         let cmdline_size = length s div 4 + 1 in
         bindr (put_words [of_nat cmdline_size + 2, 0x54410009] (mem, p)) (\<lambda>(mem, p).
         Inr (mem, p + 4 * cmdline_size))))"

definition set_kernel_args :: "ulong \<Rightarrow> int \<Rightarrow> string option \<Rightarrow> ulong \<Rightarrow> u8 list \<Rightarrow> u8 list res" where
  "set_kernel_args ram_size initrd_size kernel_cmdline loader_start mem =
     bindr (put_words [5, 0x54410001, 1, 0x1000, 0, 4, 0x54410002, ram_size, loader_start]
       (mem, unat KERNEL_ARGS_ADDR)) (\<lambda>mp.
     bindr (if initrd_size \<noteq> 0
            then put_words [4, 0x54420005, loader_start + INITRD_LOAD_ADDR, of_int initrd_size] mp
            else Inr mp) (\<lambda>mp.
     bindr (put_cmdline kernel_cmdline mp) (\<lambda>mp.
     bindr (put_words [0, 0] mp) (\<lambda>(mem, p). Inr mem))))"

text \<open>\<open>mem + ramsize\<close> with a negative size is outside the array.\<close>

definition arm_load_kernel :: "files \<Rightarrow> init_struct \<Rightarrow> u8 list \<Rightarrow> u8 list res" where
  "arm_load_kernel fs is mem =
     bindr (systemc_load_image fs (is_kernel_filename is) KERNEL_LOAD_ADDR mem) (\<lambda>(mem, _).
     bindr (wr_bytes mem 0 (words_bytes bootloader)) (\<lambda>mem.
     bindr (if is_ramsize is < 0 then Inl OutOfBounds
            else wr_bytes mem (nat (is_ramsize is)) (words_bytes smpboot)) (\<lambda>mem.
     bindr (systemc_load_image fs (is_initrd_filename is) INITRD_LOAD_ADDR mem) (\<lambda>(mem, initrd_size).
     let initrd_size = (if initrd_size = -1 then 0 else initrd_size) in
     set_kernel_args (of_int (is_ramsize is)) initrd_size (is_kernel_cmdline is) 0 mem))))"

definition arm_load_dnaos :: "files \<Rightarrow> init_struct \<Rightarrow> u8 list \<Rightarrow> (u8 list \<times> int) res" where
  "arm_load_dnaos fs is mem = systemc_load_image fs (is_ec_kernel_filename is) 0 mem"

subsection \<open>What the command line sets\<close>

text \<open>
  The specification does not speak of the parser: an option is a name, the number of its
  dashes and the argument behind it, and a field holds the value of the last option that
  sets it, or its initial value when there is none. Only \<open>-uninitfb\<close> has no argument.
\<close>

type_synonym written = "string \<times> bool \<times> string"



definition last_arg :: "string list \<Rightarrow> written list \<Rightarrow> string option" where
  "last_arg ns os = map_option (\<lambda>(n, two, a). a) (find (\<lambda>(n, two, a). n \<in> set ns) (rev os))"

definition setting :: "string list \<Rightarrow> (string \<Rightarrow> 'a) \<Rightarrow> 'a \<Rightarrow> written list \<Rightarrow> 'a" where
  "setting ns f d os = (case last_arg ns os of None \<Rightarrow> d | Some a \<Rightarrow> f a)"

text \<open>A size is given in megabytes and kept as a signed number of 32 bits.\<close>

definition bytes_of_mb :: "string \<Rightarrow> int" where
  "bytes_of_mb a = sint (of_int (atoi a * 2 ^ 20) :: 32 word)"

text \<open>
  The settings, field by field. The port of the debugger takes the argument of \<open>-initrd\<close> too: the
  source misses a \<open>break\<close> there, which is one of the findings.
\<close>

definition settings :: "written list \<Rightarrow> init_struct \<Rightarrow> init_struct" where
  "settings os is =
     \<lparr>is_cpu_family = setting [''M''] Some (is_cpu_family is) os,
      is_cpu_model = setting [''cpu''] Some (is_cpu_model is) os,
      is_kernel_filename = setting [''kernel''] Some (is_kernel_filename is) os,
      is_ec_kernel_filename = setting [''ec_kernel''] Some (is_ec_kernel_filename is) os,
      is_initrd_filename = setting [''initrd''] Some (is_initrd_filename is) os,
      is_kernel_cmdline = setting [''append''] Some (is_kernel_cmdline is) os,
      is_no_cpus = setting [''ncpu''] atoi (is_no_cpus is) os,
      is_ramsize = setting [''ram''] bytes_of_mb (is_ramsize is) os,
      is_ec_ramsize = setting [''ec_ram''] bytes_of_mb (is_ec_ramsize is) os,
      is_sramsize = setting [''sram''] bytes_of_mb (is_sramsize is) os,
      is_gdb_port = setting [''gdb_port'', ''initrd''] atoi (is_gdb_port is) os,
      is_ec_gdb_port = setting [''ec_gdb_port''] atoi (is_ec_gdb_port is) os,
      is_fb_uninit = setting [''uninitfb''] (\<lambda>a. 1) (is_fb_uninit is) os,
      is_block_device = setting [''blockdev''] Some (is_block_device is) os,
      no_frames_to_simulate = setting [''L''] atoi (no_frames_to_simulate is) os\<rparr>"


lemma setting_simps [simp]:
  "setting ns f d [] = d"
  "setting ns f d (os @ [(n, two, a)]) = (if n \<in> set ns then f a else setting ns f d os)"
  by (simp_all add: setting_def last_arg_def)

lemma settings_Nil [simp]: "settings [] is = is"
  by (simp add: settings_def)













definition init_zero :: init_struct where
  "init_zero = \<lparr>is_cpu_family = Some ''arm'', is_cpu_model = None, is_kernel_filename = None, is_ec_kernel_filename = None,
     is_initrd_filename = None, is_kernel_cmdline = None, is_no_cpus = 4, is_ramsize = 128 * 1024 * 1024,
     is_ec_ramsize = 20 * 1024 * 1024, is_sramsize = 0, is_gdb_port = 0, is_ec_gdb_port = 0, is_fb_uninit = 0,
     is_block_device = None, no_frames_to_simulate = 0\<rparr>"


text \<open>The missing \<open>break\<close>: naming the initial disk sets the port of the debugger, here back to 0.\<close>

lemma initrd_overrides_gdb_port:
  "parse_cmdline roger_options [''rabbits'', ''-gdb_port'', ''1234'', ''-initrd'', ''disk.img''] init_zero
     = Inr (init_zero\<lparr>is_gdb_port := 0, is_initrd_filename := Some ''disk.img''\<rparr>)"
  by (simp add: parse_cmdline_def roger_options_def opt_def atoi_def)

subsection \<open>The boot image\<close>

text \<open>The tags as a kernel walks them: the size of a tag in words, its kind and its payload, until a size of 0.\<close>

definition word_at :: "u8 list \<Rightarrow> nat \<Rightarrow> u32 res" where
  "word_at mem p = bindr (rd_bytes mem p 4) (\<lambda>bs. Inr (le32 bs))"

fun atags :: "nat \<Rightarrow> u8 list \<Rightarrow> nat \<Rightarrow> (u32 \<times> u8 list) list res" where
  "atags 0 mem p = Inl Livelock"
| "atags (Suc n) mem p =
     bindr (word_at mem p) (\<lambda>sz. if sz = 0 then Inr []
       else bindr (word_at mem (p + 4)) (\<lambda>tag.
         bindr (rd_bytes mem (p + 8) (4 * unat sz - 8)) (\<lambda>payload.
         bindr (atags n mem (p + 4 * unat sz)) (\<lambda>rest. Inr ((tag, payload) # rest)))))"

lemma rd_bytes_split:
  assumes "rd_bytes m p n = Inr (xs @ ys)"
  shows "rd_bytes m p (length xs) = Inr xs" "rd_bytes m (p + length xs) (length ys) = Inr ys"
proof -
  have l: "n = length xs + length ys" using rd_bytes_len [OF assms] by simp
  have b: "p + n \<le> length m" and t: "take n (drop p m) = xs @ ys"
    using assms by (auto simp: rd_bytes_def split: if_splits)
  have "take (length xs) (take n (drop p m)) = xs" "drop (length xs) (take n (drop p m)) = ys" by (simp_all add: t)
  then have "take (length xs) (drop p m) = xs" "take (length ys) (drop (p + length xs) m) = ys"
    by (simp_all add: l drop_take add.commute)
  then show "rd_bytes m p (length xs) = Inr xs" "rd_bytes m (p + length xs) (length ys) = Inr ys"
    using b l by (simp_all add: rd_bytes_def)
qed

lemma word_at_bytes: "rd_bytes m p n = Inr (bytes32 w @ ys) \<Longrightarrow> word_at m p = Inr w"
  using rd_bytes_split(1) [of m p n "bytes32 w" ys] by (simp add: word_at_def)

lemma atags_end: "rd_bytes m p n = Inr (bytes32 0 @ ys) \<Longrightarrow> atags (Suc k) m p = Inr []"
  using word_at_bytes [of m p n 0 ys] by simp

lemma atags_tag:
  assumes "rd_bytes m p n = Inr (bytes32 sz @ bytes32 tag @ payload)" "4 * unat sz = 8 + length payload"
  shows "atags (Suc k) m p = bindr (atags k m (p + (8 + length payload))) (\<lambda>rest. Inr ((tag, payload) # rest))"
proof -
  have "sz \<noteq> 0" using assms(2) by auto
  moreover have r: "rd_bytes m (p + 4) (length (bytes32 tag @ payload)) = Inr (bytes32 tag @ payload)"
    using rd_bytes_split(2) [OF assms(1)] by simp
  moreover have "rd_bytes m (p + 8) (4 * unat sz - 8) = Inr payload"
    using rd_bytes_split(2) [OF r] assms(2) by (simp add: add.commute)
  ultimately show ?thesis using word_at_bytes [OF assms(1)] word_at_bytes [OF r] assms(2) by simp
qed

lemma put_words_result:
  assumes "put_words ws (m, p) = Inr (m', q)"
  shows "q = p + 4 * length ws" "rd_bytes m' p (4 * length ws) = Inr (words_bytes ws)"
    and "\<And>b n. b + n \<le> p \<or> p + 4 * length ws \<le> b \<Longrightarrow> rd_bytes m' b n = rd_bytes m b n"
proof -
  have w: "wr_bytes m p (words_bytes ws) = Inr m'" and q: "q = p + 4 * length ws"
    using assms by (auto simp: put_words_def bindr_eq_Inr)
  show "q = p + 4 * length ws" by (rule q)
  show "rd_bytes m' p (4 * length ws) = Inr (words_bytes ws)" using rd_wr_bytes_same [OF w] by simp
  show "rd_bytes m' b n = rd_bytes m b n" if "b + n \<le> p \<or> p + 4 * length ws \<le> b" for b n
    using rd_wr_bytes_other [OF w] that by simp
qed

text \<open>The tag of the command line: its payload starts with the string and the 0 behind it.\<close>

definition cmdline_tag :: "string option \<Rightarrow> u8 list \<Rightarrow> (u32 \<times> u8 list) list" where
  "cmdline_tag c pad = (case c of None \<Rightarrow> [] | Some s \<Rightarrow> if s = '''' then [] else [(0x54410009, cmdline_bytes s @ pad)])"

lemma length_cmdline_bytes [simp]: "length (cmdline_bytes s) = length s + 1"
  by (simp add: cmdline_bytes_def)

lemma rd_bytes_extend:
  assumes "rd_bytes m p a = Inr xs" "p + a + b \<le> length m"
  shows "\<exists>ys. length ys = b \<and> rd_bytes m p (a + b) = Inr (xs @ ys)"
proof -
  have "xs = take a (drop p m)" using assms(1) by (auto simp: rd_bytes_def split: if_splits)
  then have "rd_bytes m p (a + b) = Inr (xs @ take b (drop (p + a) m))"
    using assms(2) by (simp add: rd_bytes_def take_add add.commute)
  then show ?thesis using assms(2) by (intro exI [of _ "take b (drop (p + a) m)"]) simp
qed

lemma rd_bytes_join:
  assumes "rd_bytes m p a = Inr xs" "rd_bytes m (p + a) b = Inr ys"
  shows "rd_bytes m p (a + b) = Inr (xs @ ys)"
  using assms by (auto simp: rd_bytes_def take_add add.commute split: if_splits)

lemma put_cmdline_end:
  assumes "put_cmdline c (m, p) = Inr (m1, q)" "put_words [0, 0] (m1, q) = Inr (m2, q2)"
    and "\<And>s. c = Some s \<Longrightarrow> length s < 2 ^ 30"
  shows "(\<exists>pad. atags (Suc (Suc k)) m2 p = Inr (cmdline_tag c pad))
    \<and> (\<forall>b n. b + n \<le> p \<or> p + 20 + (case c of None \<Rightarrow> 0 | Some s \<Rightarrow> length s) \<le> b \<longrightarrow> rd_bytes m2 b n = rd_bytes m b n)"
proof (cases "c = None \<or> c = Some ''''")
  case True
  then have "m1 = m" "q = p" using assms(1) by (auto simp: put_cmdline_def)
  note z = put_words_result [OF assms(2), unfolded this]
  have "atags (Suc (Suc k)) m2 p = Inr []" using atags_end [of m2 p _ "bytes32 0"] z(2) by simp
  then show ?thesis using z(3) True by (auto simp: cmdline_tag_def)
next
  case False
  then obtain s where c: "c = Some s" "s \<noteq> ''''" by auto
  define len where "len = length s div 4 + 1"
  obtain ma where ma: "wr_bytes m (p + 8) (cmdline_bytes s) = Inr ma"
    and hd: "put_words [of_nat len + 2, 0x54410009] (ma, p) = Inr (m1, p + 8)" and q: "q = p + 8 + 4 * len"
    using assms(1) c by (fastforce simp: put_cmdline_def bindr_eq_Inr Let_def len_def dest: put_words_result(1))
  note h = put_words_result [OF hd] and z = put_words_result [OF assms(2)]
  have fits: "length s + 1 \<le> 4 * len" unfolding len_def by simp
  have str: "rd_bytes m2 (p + 8) (length s + 1) = Inr (cmdline_bytes s)"
    using z(3) [of "p + 8" "length s + 1"] h(3) [of "p + 8" "length s + 1"] rd_wr_bytes_same [OF ma] fits q by simp
  have "q + 8 \<le> length m2" using z(2) by (auto simp: rd_bytes_def split: if_splits)
  then obtain pad where "rd_bytes m2 (p + 8) (length s + 1 + (4 * len - (length s + 1))) = Inr (cmdline_bytes s @ pad)"
    and pad: "length pad = 4 * len - (length s + 1)"
    using rd_bytes_extend [OF str, of "4 * len - (length s + 1)"] q fits by auto
  then have body: "rd_bytes m2 (p + 8) (4 * len) = Inr (cmdline_bytes s @ pad)" using fits by simp
  have "rd_bytes m2 p 8 = Inr (bytes32 (of_nat len + 2) @ bytes32 0x54410009)"
    using z(3) [of p 8] h(2) q by simp
  from rd_bytes_join [OF this body]
  have all: "rd_bytes m2 p (8 + 4 * len) = Inr (bytes32 (of_nat len + 2) @ bytes32 0x54410009 @ cmdline_bytes s @ pad)"
    by simp
  have "unat (of_nat (len + 2) :: u32) = len + 2"
    by (rule of_nat_inverse [OF refl]) (use assms(3) [OF c(1)] in \<open>simp add: len_def\<close>)
  then have "unat (of_nat len + 2 :: u32) = len + 2" by (simp add: add.commute)
  then have sz: "4 * unat (of_nat len + 2 :: u32) = 8 + length (cmdline_bytes s @ pad)" using pad fits by simp
  have "atags (Suc k) m2 q = Inr []" using atags_end [of m2 q _ "bytes32 0"] z(2) by simp
  then have "atags (Suc (Suc k)) m2 p = Inr (cmdline_tag c pad)"
    using atags_tag [OF all sz, of "Suc k"] c q pad fits
    by (simp add: cmdline_tag_def add.assoc del: atags.simps)
  moreover have "rd_bytes m2 b n = rd_bytes m b n"
    if "b + n \<le> p \<or> p + 20 + length s \<le> b" for b n
  proof -
    have "q + 8 \<le> p + 20 + length s" using q unfolding len_def by simp
    then have "b + n \<le> p \<or> q + 8 \<le> b" using that by auto
    moreover have "rd_bytes ma b n = rd_bytes m b n" using rd_wr_bytes_other [OF ma, of b n] calculation q fits by auto
    ultimately show ?thesis using z(3) [of b n] h(3) [of b n] q by auto
  qed
  ultimately show ?thesis using c(1) by auto
qed

lemma wr_bytes_same_len: "wr_bytes m p bs = Inr m' \<Longrightarrow> p + length bs \<le> length m"
  by (auto simp: wr_bytes_def split: if_splits)

text \<open>The tags \<open>set_kernel_args\<close> writes, and what it leaves alone.\<close>

definition initrd_tag :: "int \<Rightarrow> ulong \<Rightarrow> (u32 \<times> u8 list) list" where
  "initrd_tag n start = (if n \<noteq> 0 then [(0x54420005, words_bytes [start + INITRD_LOAD_ADDR, of_int n])] else [])"

definition args_end :: "string option \<Rightarrow> nat" where
  "args_end c = 0x100 + 72 + (case c of None \<Rightarrow> 0 | Some s \<Rightarrow> length s)"

lemma set_kernel_args_tags:
  assumes "set_kernel_args ram n c start mem = Inr mem'" "\<And>s. c = Some s \<Longrightarrow> length s < 2 ^ 30"
  shows "(\<exists>pad. atags 5 mem' 0x100 = Inr ((0x54410001, words_bytes [1, 0x1000, 0])
      # (0x54410002, words_bytes [ram, start]) # initrd_tag n start @ cmdline_tag c pad))
    \<and> (\<forall>b k. b + k \<le> 0x100 \<or> args_end c \<le> b \<longrightarrow> rd_bytes mem' b k = rd_bytes mem b k)"
proof -
  let ?ws = "[5, 0x54410001, 1, 0x1000, 0, 4, 0x54410002, ram, start]"
  obtain m1 p1 m2 p2 m3 p3 p4 where 1: "put_words ?ws (mem, 0x100) = Inr (m1, p1)"
    and 2: "(if n \<noteq> 0 then put_words [4, 0x54420005, start + INITRD_LOAD_ADDR, of_int n] (m1, p1) else Inr (m1, p1)) = Inr (m2, p2)"
    and 3: "put_cmdline c (m2, p2) = Inr (m3, p3)" and 4: "put_words [0, 0] (m3, p3) = Inr (mem', p4)"
    using assms(1) by (auto simp: set_kernel_args_def bindr_eq_Inr KERNEL_ARGS_ADDR_def)
  note a = put_words_result [OF 1]
  have p1: "p1 = 0x124" using a(1) by simp
  have p2: "p2 = (if n \<noteq> 0 then 0x134 else 0x124)" using 2 p1 by (auto split: if_splits dest: put_words_result(1))
  obtain pad where tail: "atags (Suc (Suc 0)) mem' p2 = Inr (cmdline_tag c pad)"
    and same: "\<And>b k. b + k \<le> p2 \<or> p2 + 20 + (case c of None \<Rightarrow> 0 | Some s \<Rightarrow> length s) \<le> b \<Longrightarrow> rd_bytes mem' b k = rd_bytes m2 b k"
    using put_cmdline_end [OF 3 4 assms(2), of 0] by blast
  have same2: "rd_bytes m2 b k = rd_bytes m1 b k" if "b + k \<le> 0x124 \<or> p2 \<le> b" for b k
    using 2 p1 p2 that put_words_result(3) [of "[4, 0x54420005, start + INITRD_LOAD_ADDR, of_int n]" m1 p1 m2 p2 b k]
    by (auto split: if_splits)
  have "rd_bytes mem' 0x100 36 = Inr (words_bytes ?ws)"
    using a(2) same [of "0x100" 36] same2 [of "0x100" 36] p2 by simp
  then have head: "rd_bytes mem' 0x100 (20 + 16) = Inr (words_bytes [5, 0x54410001, 1, 0x1000, 0] @ words_bytes [4, 0x54410002, ram, start])"
    by simp
  have t1: "atags (Suc k) mem' 0x100 = bindr (atags k mem' 0x114) (\<lambda>r. Inr ((0x54410001, words_bytes [1, 0x1000, 0]) # r))" for k
    using atags_tag [of mem' "0x100" 20 5 "0x54410001" "words_bytes [1, 0x1000, 0]" k] rd_bytes_split(1) [OF head] by simp
  have t2: "atags (Suc k) mem' 0x114 = bindr (atags k mem' 0x124) (\<lambda>r. Inr ((0x54410002, words_bytes [ram, start]) # r))" for k
    using atags_tag [of mem' "0x114" 16 4 "0x54410002" "words_bytes [ram, start]" k] rd_bytes_split(2) [OF head] by simp
  have "\<exists>pad. atags (Suc (Suc (Suc 0))) mem' 0x124 = Inr (initrd_tag n start @ cmdline_tag c pad)"
  proof (cases "n = 0")
    case True
    have "\<exists>pad. atags (Suc (Suc (Suc 0))) mem' p2 = Inr (cmdline_tag c pad)"
      using put_cmdline_end [OF 3 4 assms(2), of "Suc 0"] by blast
    then show ?thesis using True p2 by (simp add: initrd_tag_def)
  next
    case False
    have "rd_bytes m2 0x124 16 = Inr (words_bytes [4, 0x54420005, start + INITRD_LOAD_ADDR, of_int n])"
      using 2 False p1 put_words_result(2) [of "[4, 0x54420005, start + INITRD_LOAD_ADDR, of_int n]" m1 p1 m2 p2] by simp
    then have "rd_bytes mem' 0x124 16 = Inr (words_bytes [4, 0x54420005, start + INITRD_LOAD_ADDR, of_int n])"
      using same [of "0x124" 16] p2 False by simp
    then show ?thesis using atags_tag [of mem' "0x124" 16 4 "0x54420005" "words_bytes [start + INITRD_LOAD_ADDR, of_int n]"
        "Suc (Suc 0)"] tail p2 False by (auto simp: initrd_tag_def)
  qed
  then obtain pad where "atags (Suc (Suc (Suc 0))) mem' 0x124 = Inr (initrd_tag n start @ cmdline_tag c pad)" by blast
  then have "atags (Suc (Suc (Suc (Suc (Suc 0))))) mem' 0x100 = Inr ((0x54410001, words_bytes [1, 0x1000, 0])
      # (0x54410002, words_bytes [ram, start]) # initrd_tag n start @ cmdline_tag c pad)"
    by (simp only: t1 t2 bindr_simps)
  moreover have "(5 :: nat) = Suc (Suc (Suc (Suc (Suc 0))))" by simp
  ultimately have "\<exists>pad. atags 5 mem' 0x100 = Inr ((0x54410001, words_bytes [1, 0x1000, 0])
      # (0x54410002, words_bytes [ram, start]) # initrd_tag n start @ cmdline_tag c pad)"
    by metis
  moreover have "rd_bytes mem' b k = rd_bytes mem b k" if "b + k \<le> 0x100 \<or> args_end c \<le> b" for b k
    using that same [of b k] same2 [of b k] a(3) [of b k] p1 p2 by (auto simp: args_end_def split: if_splits)
  ultimately show ?thesis by blast
qed

text \<open>
  Claim C37. The boot image: when \<open>arm_load_kernel\<close> succeeds with a kernel below the place of the
  initial disk, a command line that ends below the kernel and a size of the memory above
  kernel and disk, the memory holds all parts at once: the boot loader at 0, the kernel's
  bytes at its load address, the code of the secondary processors behind the memory, the
  disk's bytes at theirs, and at 0x100 a list of tags that a kernel's walk reads back as
  core, memory size, disk (with its address and size, if there is one) and command line (the
  string with its final 0, if it is not empty), ended by the empty tag.
\<close>
theorem kernel_boot_image:
  assumes load: "arm_load_kernel fs is mem = Inr mem'"
    and k: "is_kernel_filename is = Some kf" "fs kf = Some img" "length img \<le> 0x7F0000" "0x10000 + length img \<le> nat (is_ramsize is)"
    and i: "is_initrd_filename is = Some rf" "fs rf = Some ird" "0x800000 + length ird \<le> nat (is_ramsize is)"
    and c: "is_kernel_cmdline is = Some s" "length s \<le> 0xFE00"
  shows "rd_bytes mem' 0 (4 * length bootloader) = Inr (words_bytes bootloader)
    \<and> rd_bytes mem' 0x10000 (length img) = Inr img \<and> rd_bytes mem' 0x800000 (length ird) = Inr ird
    \<and> rd_bytes mem' (nat (is_ramsize is)) (4 * length smpboot) = Inr (words_bytes smpboot)
    \<and> (\<exists>pad. atags 5 mem' 0x100 = Inr ((0x54410001, words_bytes [1, 0x1000, 0])
         # (0x54410002, words_bytes [of_int (is_ramsize is), 0])
         # initrd_tag (int (length ird)) 0 @ cmdline_tag (Some s) pad))"
proof -
  let ?R = "nat (is_ramsize is)"
  obtain m1 m2 m3 m4 where 1: "wr_bytes mem 0x10000 img = Inr m1" and 2: "wr_bytes m1 0 (words_bytes bootloader) = Inr m2"
    and 3: "wr_bytes m2 ?R (words_bytes smpboot) = Inr m3" and 4: "wr_bytes m3 0x800000 ird = Inr m4"
    and 5: "set_kernel_args (of_int (is_ramsize is)) (int (length ird)) (Some s) 0 m4 = Inr mem'"
    using load k(1,2) i(1,2) c(1)
    by (auto simp: arm_load_kernel_def systemc_load_image_def bindr_eq_Inr Let_def KERNEL_LOAD_ADDR_def INITRD_LOAD_ADDR_def
      split: if_splits)
  have sz: "length (words_bytes bootloader) = 52" "length (words_bytes smpboot) = 28"
    by (simp_all add: bootloader_def smpboot_def)
  have ae: "args_end (Some s) \<le> 0x10000" using c(2) by (simp add: args_end_def)
  have "\<And>s'. Some s = Some s' \<Longrightarrow> length s' < 2 ^ 30" using c(2) by simp
  note tags = set_kernel_args_tags [OF 5 this]
  have keep: "rd_bytes mem' b n = rd_bytes m4 b n" if "b + n \<le> 0x100 \<or> 0x10000 \<le> b" for b n
    using tags that ae by auto
  have "rd_bytes m2 0 52 = Inr (words_bytes bootloader)" using rd_wr_bytes_same [OF 2] sz by simp
  then have "rd_bytes mem' 0 52 = Inr (words_bytes bootloader)"
    using keep [of 0 52] rd_wr_bytes_other [OF 4, of 0 52] rd_wr_bytes_other [OF 3, of 0 52] k(4) by simp
  moreover have "rd_bytes mem' 0x10000 (length img) = Inr img"
    using keep [of "0x10000" "length img"] rd_wr_bytes_other [OF 4, of "0x10000" "length img"]
      rd_wr_bytes_other [OF 3, of "0x10000" "length img"] rd_wr_bytes_other [OF 2, of "0x10000" "length img"]
      rd_wr_bytes_same [OF 1] k(3,4) sz by simp
  moreover have "rd_bytes mem' 0x800000 (length ird) = Inr ird"
    using keep [of "0x800000" "length ird"] rd_wr_bytes_same [OF 4] by simp
  moreover have "rd_bytes mem' ?R 28 = Inr (words_bytes smpboot)"
    using keep [of ?R 28] rd_wr_bytes_other [OF 4, of ?R 28] rd_wr_bytes_same [OF 3] k(4) i(3) sz by simp
  ultimately show ?thesis using tags sz by simp
qed

text \<open>Loading succeeds when everything fits.\<close>

lemma put_words_ok:
  assumes "p + 4 * length ws \<le> length m"
  shows "\<exists>m'. put_words ws (m, p) = Inr (m', p + 4 * length ws) \<and> length m' = length m"
  using assms by (simp add: put_words_def wr_bytes_def)

lemma put_cmdline_ok:
  assumes "p + 16 + length s \<le> length m"
  shows "\<exists>m' q. put_cmdline (Some s) (m, p) = Inr (m', q) \<and> length m' = length m \<and> q \<le> p + 12 + length s"
proof (cases "s = ''''")
  case False
  have "length (put_bytes m (p + 8) (cmdline_bytes s)) = length m" using assms by simp
  then obtain m' where "put_words [of_nat (length s div 4 + 1) + 2, 0x54410009] (put_bytes m (p + 8) (cmdline_bytes s), p)
      = Inr (m', p + 4 * 2)" "length m' = length m"
    using put_words_ok [of p "[of_nat (length s div 4 + 1) + 2, 0x54410009]" "put_bytes m (p + 8) (cmdline_bytes s)"] assms
    by auto
  then show ?thesis using assms False by (simp add: put_cmdline_def wr_bytes_def Let_def)
qed (simp add: put_cmdline_def)

lemma set_kernel_args_ok:
  assumes "0x160 + length s \<le> length m"
  shows "\<exists>m'. set_kernel_args ram n (Some s) start m = Inr m'"
proof -
  let ?ws = "[5, 0x54410001, 1, 0x1000, 0, 4, 0x54410002, ram, start]"
  obtain m1 where 1: "put_words ?ws (m, 0x100) = Inr (m1, 0x124)" "length m1 = length m"
    using put_words_ok [of "0x100" ?ws m] assms by auto
  obtain m2 p2 where 2: "(if n \<noteq> 0 then put_words [4, 0x54420005, start + INITRD_LOAD_ADDR, of_int n] (m1, 0x124)
      else Inr (m1, 0x124)) = Inr (m2, p2)" "length m2 = length m" "p2 \<le> 0x134"
  proof (cases "n = 0")
    case True
    then show ?thesis using that [of m1 "0x124"] 1(2) by simp
  next
    case False
    obtain m' where "put_words [4, 0x54420005, start + INITRD_LOAD_ADDR, of_int n] (m1, 0x124) = Inr (m', 0x134)"
      "length m' = length m"
      using put_words_ok [of "0x124" "[4, 0x54420005, start + INITRD_LOAD_ADDR, of_int n]" m1] 1(2) assms by auto
    then show ?thesis using that [of m' "0x134"] False by simp
  qed
  obtain m3 p3 where 3: "put_cmdline (Some s) (m2, p2) = Inr (m3, p3)" "length m3 = length m" "p3 \<le> p2 + 12 + length s"
    using put_cmdline_ok [of p2 s m2] 2 assms by auto
  obtain m4 where 4: "put_words [0, 0] (m3, p3) = Inr (m4, p3 + 8)"
    using put_words_ok [of p3 "[0, 0]" m3] 2(3) 3(2,3) assms by auto
  show ?thesis unfolding set_kernel_args_def KERNEL_ARGS_ADDR_def using 1(1) 2(1) 3(1) 4 by simp
qed

lemma systemc_load_image_ok:
  assumes "fs f = Some img" "unat ofs + length img \<le> length m" "length m < 2 ^ 32"
  shows "systemc_load_image fs (Some f) ofs m = Inr (put_bytes m (unat ofs) img, int (length img))"
proof -
  have "unat (of_nat (length m) :: ulong) = length m" by (rule of_nat_inverse [OF refl]) (use assms(3) in simp)
  moreover have "unat (of_nat (length img) :: ulong) = length img"
    by (rule of_nat_inverse [OF refl]) (use assms(2,3) in simp)
  ultimately have "\<not> (of_nat (length m) :: ulong) < of_nat (length img) + ofs"
    using assms(2,3) by (simp add: word_less_nat_alt unat_word_ariths)
  then show ?thesis using assms(1,2) by (simp add: systemc_load_image_def wr_bytes_def)
qed

lemma arm_load_kernel_ok:
  assumes "is_kernel_filename is = Some kf" "fs kf = Some img" "is_initrd_filename is = Some rf" "fs rf = Some ird"
    and "is_kernel_cmdline is = Some s" "length s \<le> 0xFE00" "length mem < 2 ^ 32" "0 \<le> is_ramsize is"
    and "0x10000 + length img \<le> length mem" "0x800000 + length ird \<le> length mem" "nat (is_ramsize is) + 28 \<le> length mem"
  shows "\<exists>mem'. arm_load_kernel fs is mem = Inr mem'"
proof -
  have sz: "length (words_bytes bootloader) = 52" "length (words_bytes smpboot) = 28"
    by (simp_all add: bootloader_def smpboot_def)
  have 1: "systemc_load_image fs (Some kf) KERNEL_LOAD_ADDR mem = Inr (put_bytes mem 0x10000 img, int (length img))"
    using systemc_load_image_ok [of fs kf img KERNEL_LOAD_ADDR mem] assms by (simp add: KERNEL_LOAD_ADDR_def)
  define m1 where "m1 = put_bytes mem 0x10000 img"
  define m2 where "m2 = put_bytes m1 0 (words_bytes bootloader)"
  define m3 where "m3 = put_bytes m2 (nat (is_ramsize is)) (words_bytes smpboot)"
  define m4 where "m4 = put_bytes m3 0x800000 ird"
  have l: "length m1 = length mem" "length m2 = length mem" "length m3 = length mem" "length m4 = length mem"
    using assms(9-11) sz by (simp_all add: m1_def m2_def m3_def m4_def del: words_bytes_simps)
  have 2: "wr_bytes m1 0 (words_bytes bootloader) = Inr m2" "wr_bytes m2 (nat (is_ramsize is)) (words_bytes smpboot) = Inr m3"
    using l assms(9,11) sz by (simp_all add: wr_bytes_def m2_def m3_def del: words_bytes_simps)
  have 3: "systemc_load_image fs (Some rf) INITRD_LOAD_ADDR m3 = Inr (m4, int (length ird))"
    using systemc_load_image_ok [of fs rf ird INITRD_LOAD_ADDR m3] assms l by (simp add: INITRD_LOAD_ADDR_def m4_def)
  have "\<exists>m'. set_kernel_args (of_int (is_ramsize is)) (int (length ird)) (Some s) 0 m4 = Inr m'"
    by (rule set_kernel_args_ok) (use l assms(6,9) in simp)
  then show ?thesis unfolding arm_load_kernel_def
    using assms(1,3,5,8) 1 [folded m1_def] 2 3 by (simp add: Let_def)
qed

theorem kernel_boot_image_witness:
  "\<exists>mem' pad. atags 5 mem' 0x100 = Inr [(0x54410001, words_bytes [1, 0x1000, 0]), (0x54410002, words_bytes [0x900000, 0]),
      (0x54420005, words_bytes [0x800000, 2]), (0x54410009, cmdline_bytes ''quiet'' @ pad)]
    \<and> rd_bytes mem' 0x10000 3 = Inr [1, 2, 3] \<and> rd_bytes mem' 0x800000 2 = Inr [8, 9]"
proof -
  let ?fs = "[''k'' \<mapsto> [1, 2, 3], ''r'' \<mapsto> [8, 9]] :: files"
  let ?is = "init_zero\<lparr>is_kernel_filename := Some ''k'', is_initrd_filename := Some ''r'',
    is_kernel_cmdline := Some ''quiet'', is_ramsize := 0x900000\<rparr>"
  obtain mem' where "arm_load_kernel ?fs ?is (replicate 0x901000 0) = Inr mem'"
    using arm_load_kernel_ok [of ?is "''k''" ?fs "[1, 2, 3]" "''r''" "[8, 9]" "''quiet''" "replicate 0x901000 0"]
    by (auto simp: init_zero_def)
  note b = kernel_boot_image [OF this, of "''k''" "[1, 2, 3]" "''r''" "[8, 9]" "''quiet''"]
  have "rd_bytes mem' 0x10000 3 = Inr [1, 2, 3]" using b by (simp add: init_zero_def numeral_3_eq_3)
  moreover have "rd_bytes mem' 0x800000 2 = Inr [8, 9]" using b by (simp add: init_zero_def numeral_2_eq_2)
  moreover obtain pad where "atags 5 mem' 0x100 = Inr [(0x54410001, words_bytes [1, 0x1000, 0]),
      (0x54410002, words_bytes [0x900000, 0]), (0x54420005, words_bytes [0x800000, 2]), (0x54410009, cmdline_bytes ''quiet'' @ pad)]"
    using b by (auto simp: init_zero_def initrd_tag_def cmdline_tag_def INITRD_LOAD_ADDR_def simp del: atags.simps words_bytes_simps)
  ultimately show ?thesis by blast
qed

end
