(* ===== verification/Platform.thy ===== *)
theory Platform
  imports Qemu_Registers Interconnect
begin

text \<open>
  The platforms as wholes: their address maps (\<^verbatim>\<open>platforms/*/maps/node*.map\<close>), the slaves and
  the masters their \<open>sc_main\<close> creates, and the two functions of \<^verbatim>\<open>main.cpp\<close> the other parts
  call back: \<open>invalidate_address\<close>, which a slave calls after a write, and
  \<open>systemc_get_mem_addr\<close>, which QEMU calls for a direct pointer to memory.
\<close>

subsection \<open>Maps and slaves\<close>

definition row :: "ulong \<Rightarrow> ulong \<Rightarrow> ulong \<Rightarrow> int \<Rightarrow> map_el" where
  "row b e ofs s = \<lparr>me_slave_id = s, me_begin_address = b, me_end_address = e, me_intern_offset = ofs\<rparr>"

definition energizer_map0 :: "map_el list" where
  "energizer_map0 = [row 0x00000000 0x01401000 0 4, row 0xC1000000 0xC1000020 0 0, row 0xC3000000 0xC3010000 0 1,
     row 0xC4000000 0xC4000200 0 2, row 0xC2000000 0xC2000010 0 3, row 0xC5000000 0xC5001000 0 11]"

definition energizer_map :: "map_el list" where
  "energizer_map = [row 0x00000000 0x08001000 0 5, row 0xA7000000 0xA8000000 0 6, row 0xA5000000 0xA6000000 0 7,
     row 0xA8000000 0xA9000000 0 8, row 0xAA000000 0xAB000000 0 9, row 0xA9000000 0xA9100000 0 10,
     row 0xA6000000 0xA7000000 0 12, row 0xA4000000 0xA5000000 0 13, row 0xAC000000 0xAC010000 0 1]"

definition roger_map :: "map_el list" where
  "roger_map = [row 0x00000000 0x10000000 0 0, row 0xA7000000 0xA8000000 0 1, row 0xA5000000 0xA6000000 0 2,
     row 0xA8000000 0xA9000000 0 3, row 0xAA000000 0xBA000000 0 4, row 0xA9000000 0xA9100000 0 5,
     row 0xA4000000 0xA5000000 0 6, row 0xA6000000 0xA7000000 0 7, row 0x10000000 0x10001000 0x10000000 0]"

definition thumper_map :: "map_el list" where
  "thumper_map = [row 0x00000000 0x08000000 0 0, row 0xC1000000 0xC1000020 0 1, row 0xC3000000 0xC3000100 0 2,
     row 0xC4000000 0xC4000200 0 3, row 0xC5000000 0xC5100000 0 4, row 0xC6000000 0xC6100000 0 5,
     row 0xC2000000 0xC2000010 0 6, row 0xC2000010 0xC2000020 0 7, row 0xC2000020 0xC2000030 0 8,
     row 0xC2000030 0xC2000040 0 9]"

text \<open>
  The slaves in the order of their numbers, each with what \<open>get_mem\<close> and \<open>get_size\<close> have: the size
  of its memory, or none; \<open>None\<close> is the null pointer the energizer keeps for the filter.
\<close>

datatype slave_kind = Memory_slave nat | Register_slave

definition energizer_slaves :: "nat \<Rightarrow> nat \<Rightarrow> slave_kind option list" where
  "energizer_slaves ramsize ec_ramsize =
     [Some Register_slave, Some Register_slave, Some Register_slave, Some Register_slave,
      Some (Memory_slave (ec_ramsize + 0x1000)), Some (Memory_slave (ramsize + 0x1000)), Some (Memory_slave 0x800000),
      Some Register_slave, Some Register_slave, Some Register_slave, Some Register_slave,
      Some Register_slave, None, Some Register_slave]"

text \<open>The filter of the roger is a slave of the network only; the thumper has a timer per processor.\<close>

definition roger_slaves :: "nat \<Rightarrow> slave_kind option list" where
  "roger_slaves ramsize =
     [Some (Memory_slave (ramsize + 0x1000)), Some (Memory_slave 0x800000), Some Register_slave, Some Register_slave,
      Some Register_slave, Some Register_slave, Some Register_slave]"

definition roger_nslaves :: "nat \<Rightarrow> nat" where
  "roger_nslaves ramsize = length (roger_slaves ramsize) + 1"

definition thumper_slaves :: "nat \<Rightarrow> nat \<Rightarrow> slave_kind option list" where
  "thumper_slaves no_cpus ramsize =
     [Some (Memory_slave (ramsize + 0x1000)), Some Register_slave, Some Register_slave, Some Register_slave,
      Some Register_slave, Some Register_slave] @ replicate no_cpus (Some Register_slave)"

subsection \<open>Callbacks\<close>

text \<open>
  The masters are those of the network, as their maps; the wrappers those of the class. A
  wrapper without processors has no \<open>m_cpus[0]\<close>.
\<close>

fun invalidate_address :: "map_el list list \<Rightarrow> ulong \<Rightarrow> int \<Rightarrow> ulong \<Rightarrow> int \<Rightarrow> qemu_wrapper list \<Rightarrow> qemu_out list list res" where
  "invalidate_address maps addr slave_id offset_slave src_id [] = Inr []"
| "invalidate_address maps addr slave_id offset_slave src_id (qw # qws) =
     bindr (rd (qw_cpus qw) 0) (\<lambda>cpu0.
     let first_node_id = int (unat (qc_node_id cpu0)) in
     bindr (if first_node_id \<le> src_id \<and> src_id < first_node_id + int (qw_ncpu qw)
            then Inr (qw_invalidate_address addr (src_id - first_node_id))
            else bindr (rd maps (nat first_node_id)) (\<lambda>m.
              case get_liniar_address m slave_id offset_slave of
                Some taddr \<Rightarrow> Inr (qw_invalidate_address taddr (- 1))
              | None \<Rightarrow> Inr [])) (\<lambda>outs.
     bindr (invalidate_address maps addr slave_id offset_slave src_id qws) (\<lambda>rest. Inr (outs # rest))))"

text \<open>
  The pointer QEMU gets: the dummy page, or an address relative to the memory of a slave, a
  null pointer for a slave of registers. It is computed with the address that
  \<open>get_slave_id_for_mem_addr\<close> has rewritten to an offset.
\<close>

datatype mem_pointer = Dummy_page | Slave_memory int ulong | Null_plus ulong

definition systemc_get_mem_addr :: "map_el list list \<Rightarrow> slave_kind option list \<Rightarrow> nat \<Rightarrow> ulong \<Rightarrow> mem_pointer res" where
  "systemc_get_mem_addr maps sls node_id addr =
     bindr (rd maps node_id) (\<lambda>m.
     let (slave_id, addr) = get_slave_id_for_mem_addr m addr in
     if slave_id = - 1 then Inr Dummy_page
     else if slave_id < 0 then Inl OutOfBounds
     else bindr (rd sls (nat slave_id)) (\<lambda>s.
       case s of None \<Rightarrow> Inl NullPointer
       | Some (Memory_slave _) \<Rightarrow> Inr (Slave_memory slave_id addr)
       | Some Register_slave \<Rightarrow> Inr (Null_plus addr)))"

subsection \<open>The maps fit the platforms\<close>

definition map_fits :: "map_el list \<Rightarrow> nat \<Rightarrow> bool" where
  "map_fits ms nslaves \<longleftrightarrow> disjoint_targets ms \<and> (\<forall>m\<in>set ms. 0 \<le> me_slave_id m \<and> me_slave_id m < int nslaves)"

lemma dispatch_of_fitting_map:
  assumes "map_fits ms nslaves"
  shows "(find_map ms (rq_address req) = None \<and> dispatch_request ms nslaves req = Inl (Exit 1))
    \<or> (\<exists>s req'. dispatch_request ms nslaves req = Inr (s, req') \<and> s < nslaves
        \<and> get_liniar_address ms (int s) (rq_address req') = Some (rq_address req))"
proof (cases "find_map ms (rq_address req)")
  case None
  then show ?thesis by (simp add: dispatch_request_def)
next
  case (Some m)
  then have "m \<in> set ms" using find_map_SomeD by blast
  then have s: "0 \<le> me_slave_id m" "me_slave_id m < int nslaves" using assms by (auto simp: map_fits_def)
  have "get_liniar_address ms (me_slave_id m) (rq_address req - me_begin_address m + me_intern_offset m)
      = Some (rq_address req)"
    using linear_of_dispatch [of ms "rq_address req" m] assms Some by (simp add: map_fits_def)
  then show ?thesis using s Some by (simp add: dispatch_request_def Let_def)
qed

lemma platform_maps_fit:
  "map_fits energizer_map0 14" "map_fits energizer_map 14" "map_fits roger_map 8" "map_fits thumper_map 10"
  by (simp_all add: map_fits_def energizer_map0_def energizer_map_def roger_map_def thumper_map_def row_def
    targets_apart_def target_hi_def target_lo_def)

text \<open>
  Claim C35. On every platform, at every processor and other master, an address either
  ends the simulation as unmapped or reaches a slave that exists, and mapping the offset
  back gives the address: the decode and \<open>get_liniar_address\<close> are inverse on the maps of
  the energizer, the roger and the thumper with its four processors, whatever the request.
\<close>
theorem platform_decode_inverse:
  assumes "(ms, n) \<in> {(energizer_map0, length (energizer_slaves r e)), (energizer_map, length (energizer_slaves r e)),
      (roger_map, roger_nslaves r), (thumper_map, length (thumper_slaves 4 r))}"
  shows "(find_map ms (rq_address req) = None \<and> dispatch_request ms n req = Inl (Exit 1))
    \<or> (\<exists>s req'. dispatch_request ms n req = Inr (s, req') \<and> s < n
        \<and> get_liniar_address ms (int s) (rq_address req') = Some (rq_address req))"
proof (rule dispatch_of_fitting_map)
  have "length (energizer_slaves r e) = 14" "roger_nslaves r = 8" "length (thumper_slaves 4 r) = 10"
    by (simp_all add: energizer_slaves_def roger_nslaves_def roger_slaves_def thumper_slaves_def)
  then show "map_fits ms n" using assms platform_maps_fit by auto
qed

theorem platform_decode_inverse_witness:
  "\<exists>s req'. dispatch_request roger_map 8 (zero_request\<lparr>rq_address := 0xA7000010\<rparr>) = Inr (s, req') \<and> s < 8
     \<and> get_liniar_address roger_map (int s) (rq_address req') = Some 0xA7000010"
proof -
  have n: "roger_nslaves 0 = 8" by (simp add: roger_nslaves_def roger_slaves_def)
  have "find_map roger_map 0xA7000010 \<noteq> None" by (simp add: roger_map_def row_def)
  then show ?thesis
    using platform_decode_inverse [of roger_map 8 0 0 "zero_request\<lparr>rq_address := 0xA7000010\<rparr>"] n by auto
qed

text \<open>
  The thumper's map lists four timers whatever the number of processors: with
  fewer, an access to a timer that is not there indexes the array of slaves outside it.
\<close>
theorem thumper_missing_timer:
  assumes "no_cpus < 4" "rq_address req = 0xC2000030"
  shows "dispatch_request thumper_map (length (thumper_slaves no_cpus ramsize)) req = Inl OutOfBounds"
  using assms by (simp add: dispatch_request_def thumper_map_def row_def thumper_slaves_def Let_def)

theorem thumper_missing_timer_witness:
  "dispatch_request thumper_map (length (thumper_slaves 1 0x8000000)) (zero_request\<lparr>rq_address := 0xC2000030\<rparr>)
     = Inl OutOfBounds"
  by (rule thumper_missing_timer) simp_all

text \<open>
  Claim C36. A write is invalidated everywhere it can be seen. Let a master have written the
  cell \<open>off\<close> of a slave, and let a wrapper with its processors at the ports from its first node on see that cell,
  under the address \<open>a\<close> of its own map. Then \<open>invalidate_address\<close>, given the cell, tells
  that wrapper's emulator exactly once: the address the master used and the index of
  the processor if the master is one of its own, its own address of the cell and no processor otherwise.
\<close>
theorem invalidate_reaches_views:
  assumes "invalidate_address maps addr slave_id off src_id (ps @ qw # qs) = Inr outs"
    and "qw_cpus qw = cpu0 # cpus" "unat (qc_node_id cpu0) = n" "n < length maps" "disjoint_targets (maps ! n)"
    and "find_map (maps ! n) a = Some m" "me_slave_id m = slave_id" "a - me_begin_address m + me_intern_offset m = off"
  shows "outs ! length ps = (if int n \<le> src_id \<and> src_id < int n + int (qw_ncpu qw)
      then [InvalidateCpuAddress addr (src_id - int n)] else [InvalidateCpuAddress a (- 1)])
    \<and> length outs = length ps + 1 + length qs"
proof -
  have lin: "get_liniar_address (maps ! n) slave_id off = Some a"
    using linear_of_dispatch [OF assms(5,6)] assms(7,8) by simp
  have len: "length os = length ws" if "invalidate_address maps addr slave_id off src_id ws = Inr os" for ws os
    using that by (induction ws arbitrary: os) (auto simp: bindr_eq_Inr Let_def)
  show ?thesis using assms(1)
  proof (induction ps arbitrary: outs)
    case Nil
    then show ?case using assms(2-4) lin len
      by (auto simp: bindr_eq_Inr Let_def qw_invalidate_address_def)
  next
    case (Cons p ps)
    then show ?case by (auto simp: bindr_eq_Inr Let_def)
  qed
qed

text \<open>The energizer: a processor of the main wrapper writes the mailbox, which the control processor sees elsewhere.\<close>

theorem invalidate_reaches_views_witness:
  "\<exists>outs. invalidate_address [energizer_map0, energizer_map, energizer_map] 0xAC000008 1 8 1
       [small_qemu\<lparr>qw_ncpu := 1, qw_cpus := [small_cpu\<lparr>qc_node_id := 0\<rparr>]\<rparr>,
        small_qemu\<lparr>qw_cpus := [small_cpu\<lparr>qc_node_id := 1\<rparr>, small_cpu\<lparr>qc_node_id := 2\<rparr>]\<rparr>] = Inr outs
     \<and> outs ! 0 = [InvalidateCpuAddress 0xC3000008 (- 1)]"
proof -
  let ?maps = "[energizer_map0, energizer_map, energizer_map]"
  let ?q0 = "small_qemu\<lparr>qw_ncpu := 1, qw_cpus := [small_cpu\<lparr>qc_node_id := 0\<rparr>]\<rparr>"
  let ?q1 = "small_qemu\<lparr>qw_cpus := [small_cpu\<lparr>qc_node_id := 1\<rparr>, small_cpu\<lparr>qc_node_id := 2\<rparr>]\<rparr>"
  have "qw_ncpu small_qemu = 2" by (simp add: small_qemu_def)
  then obtain outs where r: "invalidate_address ?maps 0xAC000008 1 8 1 ([] @ ?q0 # [?q1]) = Inr outs"
    by (simp add: energizer_map0_def row_def Let_def)
  have d: "disjoint_targets (?maps ! 0)" using platform_maps_fit(1) by (simp add: map_fits_def)
  have f: "find_map (?maps ! 0) 0xC3000008 = Some (row 0xC3000000 0xC3010000 0 1)"
    by (simp add: energizer_map0_def row_def)
  have "outs ! length ([] :: qemu_wrapper list) = [InvalidateCpuAddress 0xC3000008 (- 1)]"
    using invalidate_reaches_views [OF r, of "small_cpu\<lparr>qc_node_id := 0\<rparr>" "[]" 0 "0xC3000008" "row 0xC3000000 0xC3010000 0 1"]
      d f by (simp add: row_def)
  then show ?thesis using r by auto
qed

end
