(* ===== verification/Framebuffer_Memory.thy ===== *)
theory Framebuffer_Memory
  imports Byte_Lanes
begin

text \<open>
  What the two framebuffers share: the table of lane masks, the store of a word under a mask
  (the same lines in \<^verbatim>\<open>framebuffer_device.cpp\<close> and \<^verbatim>\<open>sl_framebuffer_device.cpp\<close>), and what a
  series of such stores leaves in the buffer.
\<close>

definition s_mask :: "u32 list" where
  "s_mask = [0x00000000, 0x000000FF, 0x0000FF00, 0x0000FFFF,
             0x00FF0000, 0x00FF00FF, 0x00FFFF00, 0x00FFFFFF,
             0xFF000000, 0xFF0000FF, 0xFF00FF00, 0xFF00FFFF,
             0xFFFF0000, 0xFFFF00FF, 0xFFFFFF00, 0xFFFFFFFF]"

text \<open>\<open>lbe\<close>: the four enables of the word of the bus the access is in.\<close>

definition lane_be :: "u8 \<Rightarrow> u8" where
  "lane_be be = (if be AND 0xF0 \<noteq> 0 then drop_bit 4 be else be)"

text \<open>\<open>tmp = ptr[k]; tmp &= ~mask; tmp |= (val & mask); ptr[k] = tmp\<close>.\<close>

definition merge_word :: "u8 list \<Rightarrow> nat \<Rightarrow> u8 \<Rightarrow> u32 \<Rightarrow> u8 list res" where
  "merge_word buf k lbe v =
     bindr (rd_bytes buf (4 * k) 4) (\<lambda>bs.
     bindr (rd s_mask (unat lbe)) (\<lambda>m.
     wr_bytes buf (4 * k) (bytes32 ((le32 bs AND NOT m) OR (v AND m)))))"

lemma merge_word_length: "merge_word buf k lbe v = Inr buf' \<Longrightarrow> length buf' = length buf"
  by (auto simp: merge_word_def bindr_eq_Inr dest: wr_bytes_len)

lemma high_lanes: "be AND 0xF0 = 0 \<longleftrightarrow> drop_bit 4 (be::u8) = 0"
proof -
  have m: "(0xF0::u8) = push_bit 4 (mask 4)" by (simp add: mask_eq_decr_exp)
  have "be AND 0xF0 = push_bit 4 (drop_bit 4 be)"
    unfolding m by (rule bit_word_eqI) (auto simp: bit_simps)
  moreover have "drop_bit 4 (push_bit 4 (drop_bit 4 be)) = drop_bit 4 be"
    by (rule bit_word_eqI) (auto simp: bit_simps dest: bit_imp_le_length)
  ultimately show ?thesis by (metis drop_bit_of_0 push_bit_of_0)
qed

lemma lane_be_less: "unat (lane_be be) < 16"
proof -
  have b: "unat be < 256" using unsigned_less [of be, where 'a = nat] by simp
  have d: "unat (drop_bit 4 be) = unat be div 16"
    unfolding unat_drop_bit_eq unfolding drop_bit_eq_div by simp
  have "unat be < 16" if "be AND 0xF0 = 0"
    using that d unfolding high_lanes by auto
  with b d show ?thesis unfolding lane_be_def by auto
qed

text \<open>Bit \<open>i\<close> of the mask is enable \<open>i div 8\<close>.\<close>

definition lanes_word :: "nat \<Rightarrow> u32" where
  "lanes_word n = (if odd n then mask 8 else 0) OR (if odd (n div 2) then push_bit 8 (mask 8) else 0)
     OR (if odd (n div 4) then push_bit 16 (mask 8) else 0) OR (if odd (n div 8) then push_bit 24 (mask 8) else 0)"

lemma s_mask_lanes: "s_mask = map lanes_word [0..<16]"
  by (simp add: s_mask_def lanes_word_def upt_rec [of _ 16] mask_eq_decr_exp push_bit_eq_mult)

lemma s_mask_bit:
  assumes "unat lbe < 16" "i < 32"
  shows "bit (s_mask ! unat lbe) i \<longleftrightarrow> bit lbe (i div 8)"
proof -
  have b: "bit lbe k \<longleftrightarrow> odd (unat lbe div 2 ^ k)" for k
    by (simp add: bit_word_iff_drop_bit_and bit_unsigned_iff flip: bit_iff_odd)
  have "i div 8 = 0 \<and> i < 8 \<or> i div 8 = 1 \<and> 8 \<le> i \<and> i < 16 \<or> i div 8 = 2 \<and> 16 \<le> i \<and> i < 24
      \<or> i div 8 = 3 \<and> 24 \<le> i \<and> i < 32"
  proof -
    define q where "q = i div 8"
    have "q < 4" "8 * q \<le> i" "i < 8 * q + 8" using assms(2) by (simp_all add: q_def dividend_less_times_div)
    moreover from this(1) have "q = 0 \<or> q = 1 \<or> q = 2 \<or> q = 3" by linarith
    ultimately show ?thesis unfolding q_def [symmetric] by (elim disjE) simp_all
  qed
  then show ?thesis using assms unfolding b s_mask_lanes
    by (elim disjE) (auto simp: lanes_word_def bit_simps)
qed

lemma s_mask_rd: "unat lbe < 16 \<Longrightarrow> rd s_mask (unat lbe) = Inr (s_mask ! unat lbe)"
  by (simp add: s_mask_def)

text \<open>A store changes the enabled bytes of its word.\<close>

lemma bytes32_nth: "j < 4 \<Longrightarrow> bytes32 w ! j = ucast (drop_bit (8 * j) w)"
  by (auto simp: bytes32_def less_Suc_eq numeral_eq_Suc)

lemma merged_byte:
  assumes "unat lbe < 16" "j < 4" "length bs = 4"
  shows "bytes32 ((le32 bs AND NOT (s_mask ! unat lbe)) OR (v AND (s_mask ! unat lbe))) ! j
    = (if bit lbe j then bytes32 v ! j else bs ! j)"
proof -
  have old: "bs ! j = ucast (drop_bit (8 * j) (le32 bs))"
    using bytes32_nth [OF assms(2), of "le32 bs"] bytes32_le32 [OF assms(3)] by simp
  show ?thesis
    unfolding old bytes32_nth [OF assms(2)]
  proof (rule bit_word_eqI)
    fix i assume "i < LENGTH(8)"
    then have i: "i < 8" by simp
    then have d: "(8 * j + i) div 8 = j" and l: "8 * j + i < 32" using assms(2) by auto
    show "bit (ucast (drop_bit (8 * j) ((le32 bs AND NOT (s_mask ! unat lbe)) OR (v AND (s_mask ! unat lbe)))) :: u8) i
      = bit (if bit lbe j then ucast (drop_bit (8 * j) v) else ucast (drop_bit (8 * j) (le32 bs)) :: u8) i"
      using s_mask_bit [OF assms(1) l] i l by (auto simp: bit_simps d)
  qed
qed

lemma merge_word_eq:
  assumes "unat lbe < 16" "4 * k + 4 \<le> length buf"
  shows "merge_word buf k lbe v
    = Inr (put_bytes buf (4 * k) (map (\<lambda>j. if bit lbe j then bytes32 v ! j else buf ! (4 * k + j)) [0..<4]))"
proof -
  let ?w = "bytes32 ((le32 (take 4 (drop (4 * k) buf)) AND NOT (s_mask ! unat lbe)) OR (v AND (s_mask ! unat lbe)))"
  have "?w = map (\<lambda>j. if bit lbe j then bytes32 v ! j else buf ! (4 * k + j)) [0..<4]"
    using assms by (intro nth_equalityI) (simp_all add: merged_byte)
  then show ?thesis using assms by (simp add: merge_word_def rd_bytes_def s_mask_rd wr_bytes_def)
qed

lemma merge_word_full:
  assumes "lane_be be = 0x0F" "4 * k + 4 \<le> length buf"
  shows "merge_word buf k (lane_be be) v = Inr (put_bytes buf (4 * k) (bytes32 v))"
proof -
  have "bit (0x0F::u8) j" if "j < 4" for j
    using that by (auto simp: numeral_eq_Suc less_Suc_eq bit_Suc bit_0)
  then have "map (\<lambda>j. if bit (0x0F::u8) j then bytes32 v ! j else buf ! (4 * k + j)) [0..<4] = bytes32 v"
    by (intro nth_equalityI) simp_all
  then show ?thesis using merge_word_eq [of "0x0F" k buf v] assms by simp
qed

lemma merge_word_outside:
  assumes "length buf < 4 * k + 4"
  shows "merge_word buf k lbe v = Inl OutOfBounds"
  using assms by (simp add: merge_word_def rd_bytes_def)

text \<open>A store behind the words stored so far.\<close>

lemma put_next_word:
  assumes "4 * (length vs + 1) \<le> length buf"
  shows "put_bytes (words_bytes vs @ drop (4 * length vs) buf) (4 * length vs) (bytes32 v)
    = words_bytes (vs @ [v]) @ drop (4 * length (vs @ [v])) buf"
  using assms by (simp add: put_bytes_def words_bytes_append)


subsection \<open>Two buffers\<close>

text \<open>
  A series of stores of words from word \<open>k\<close> on, and a series of frames, each stored from its
  first word. \<open>st\<close> is the device's store, which also returns the pictures it shows.
\<close>

fun store_from :: "('s \<Rightarrow> nat \<Rightarrow> u32 \<Rightarrow> ('s \<times> u8 list list) res) \<Rightarrow> 's \<Rightarrow> nat \<Rightarrow> u32 list
    \<Rightarrow> ('s \<times> u8 list list) res" where
  "store_from st s k [] = Inr (s, [])"
| "store_from st s k (v # vs) =
     bindr (st s k v) (\<lambda>(s, ps). bindr (store_from st s (k + 1) vs) (\<lambda>(s, qs). Inr (s, ps @ qs)))"

fun store_frames :: "('s \<Rightarrow> nat \<Rightarrow> u32 \<Rightarrow> ('s \<times> u8 list list) res) \<Rightarrow> 's \<Rightarrow> u32 list list
    \<Rightarrow> ('s \<times> u8 list list) res" where
  "store_frames st s [] = Inr (s, [])"
| "store_frames st s (f # fs) =
     bindr (store_from st s 0 f) (\<lambda>(s, ps). bindr (store_frames st s fs) (\<lambda>(s, qs). Inr (s, ps @ qs)))"

text \<open>
  The contract of a device with two buffers of \<open>n\<close> words: the store of word 0 shows the
  buffer written so far, through \<open>conv\<close>, and goes to the other one; the others stay in
  the same buffer.
\<close>

locale double_buffer =
  fixes store :: "'s \<Rightarrow> nat \<Rightarrow> u32 \<Rightarrow> ('s \<times> u8 list list) res"
    and cur :: "'s \<Rightarrow> u8 list"
    and other :: "'s \<Rightarrow> u8 list"
    and conv :: "u8 list \<Rightarrow> u8 list"
    and ok :: "'s \<Rightarrow> bool"
    and n :: nat
  assumes size_pos: "0 < n"
    and size_ok: "ok s \<Longrightarrow> length (cur s) = 4 * n \<and> length (other s) = 4 * n"
    and store_first: "ok s \<Longrightarrow> \<exists>s'. store s 0 v = Inr (s', [conv (cur s)]) \<and> ok s'
      \<and> cur s' = put_bytes (other s) 0 (bytes32 v) \<and> other s' = cur s"
    and store_next: "ok s \<Longrightarrow> 0 < k \<Longrightarrow> k < n \<Longrightarrow> \<exists>s'. store s k v = Inr (s', []) \<and> ok s'
      \<and> cur s' = put_bytes (cur s) (4 * k) (bytes32 v) \<and> other s' = other s"
begin

lemma store_rest:
  assumes "ok s" "cur s = words_bytes us @ drop (4 * length us) buf" "length buf = 4 * n"
    and "0 < length us" "length us + length vs = n"
  shows "\<exists>s'. store_from store s (length us) vs = Inr (s', []) \<and> ok s'
    \<and> cur s' = words_bytes (us @ vs) \<and> other s' = other s"
  using assms
proof (induction vs arbitrary: s us)
  case Nil
  then show ?case by simp
next
  case (Cons v vs)
  from store_next [OF Cons.prems(1,4), of v] Cons.prems(5) obtain s1 where
    1: "store s (length us) v = Inr (s1, [])" "ok s1" "other s1 = other s"
      "cur s1 = put_bytes (cur s) (4 * length us) (bytes32 v)" by auto
  have "cur s1 = words_bytes (us @ [v]) @ drop (4 * length (us @ [v])) buf"
    unfolding 1(4) Cons.prems(2) using Cons.prems(3,5) by (intro put_next_word) simp
  from Cons.IH [OF 1(2) this Cons.prems(3)] Cons.prems(5) obtain s2 where
    "store_from store s1 (length us + 1) vs = Inr (s2, [])" "ok s2"
    "cur s2 = words_bytes (us @ v # vs)" "other s2 = other s1" by auto
  with 1 show ?case by simp
qed

lemma store_frame:
  assumes "ok s" "length f = n"
  shows "\<exists>s'. store_from store s 0 f = Inr (s', [conv (cur s)]) \<and> ok s' \<and> cur s' = words_bytes f"
proof -
  from size_pos assms(2) obtain v vs where f: "f = v # vs" by (cases f) auto
  from store_first [OF assms(1), of v] obtain s1 where
    1: "store s 0 v = Inr (s1, [conv (cur s)])" "ok s1" "cur s1 = put_bytes (other s) 0 (bytes32 v)" by blast
  have c: "cur s1 = words_bytes [v] @ drop (4 * length [v]) (other s)"
    unfolding 1(3) by (simp add: put_bytes_def)
  have l: "length (other s) = 4 * n" using size_ok [OF assms(1)] by blast
  from store_rest [OF 1(2) c l, of vs] assms(2) obtain s2 where
    "store_from store s1 (Suc 0) vs = Inr (s2, [])" "ok s2" "cur s2 = words_bytes (v # vs)" by (auto simp: f)
  with 1(1) show ?thesis by (simp add: f)
qed

lemma frames_shown:
  assumes "ok s" "\<forall>f\<in>set fs. length f = n" "fs \<noteq> []"
  shows "\<exists>s'. store_frames store s fs = Inr (s', map conv (cur s # map words_bytes (butlast fs)))
    \<and> ok s' \<and> cur s' = words_bytes (last fs)"
  using assms
proof (induction fs arbitrary: s)
  case Nil
  then show ?case by simp
next
  case (Cons f fs)
  from store_frame [OF Cons.prems(1), of f] Cons.prems(2) obtain s1 where
    1: "store_from store s 0 f = Inr (s1, [conv (cur s)])" "ok s1" "cur s1 = words_bytes f" by auto
  show ?case
  proof (cases "fs = []")
    case True
    with 1 show ?thesis by simp
  next
    case False
    with Cons.IH [OF 1(2)] Cons.prems(2) obtain s2 where
      "store_frames store s1 fs = Inr (s2, map conv (cur s1 # map words_bytes (butlast fs)))" "ok s2"
      "cur s2 = words_bytes (last fs)" by auto
    with 1 False show ?thesis by simp
  qed
qed

end

text \<open>The request a processor sends for the store of a word to register \<open>k\<close>: its address, enables and data.\<close>

definition register_access :: "nat \<Rightarrow> u32 \<Rightarrow> ulong \<times> u8 \<times> u8 list" where
  "register_access k v = (of_nat (8 * (k div 2)), if odd k then 0xF0 else 0x0F, set_u32 (replicate 8 0) (k mod 2) v)"

lemma register_access_decoded:
  assumes "register_access k v = (ofs, be, data)" "4 * k < 2 ^ 32"
  shows "reg_index ofs be = of_nat k" "lane_be be = 0x0F" "reg_word data be = v" "be AND 1 \<noteq> 0 \<longleftrightarrow> even k"
    "length data = 8"
proof -
  have o: "drop_bit 2 (of_nat (8 * (k div 2)) :: ulong) = of_nat (2 * (k div 2))"
  proof (rule word_unat_eq_iff [THEN iffD2])
    have "8 * (k div 2) < 2 ^ 32" "2 * (k div 2) < 2 ^ 32" using assms(2) by auto
    then show "unat (drop_bit 2 (of_nat (8 * (k div 2)) :: ulong)) = unat (of_nat (2 * (k div 2)) :: ulong)"
      unfolding unat_drop_bit_eq unfolding drop_bit_eq_div by (simp add: unat_of_nat del: of_nat_mult)
  qed
  have d: "ofs = of_nat (8 * (k div 2))" "be = (if odd k then 0xF0 else 0x0F)"
    "data = set_u32 (replicate 8 0) (k mod 2) v" using assms(1) by (auto simp: register_access_def)
  show "reg_index ofs be = of_nat k"
  proof (cases "even k")
    case True
    then have "2 * (k div 2) = k" by simp
    with o True show ?thesis by (simp add: d reg_index_def)
  next
    case False
    then have "Suc (2 * (k div 2)) = k" by simp
    then have "of_nat (2 * (k div 2)) + 1 = (of_nat k :: ulong)" by (metis of_nat_Suc add.commute)
    with o False show ?thesis by (simp add: d reg_index_def)
  qed
  show "lane_be be = 0x0F" "be AND 1 \<noteq> 0 \<longleftrightarrow> even k" "length data = 8" unfolding d lane_be_def by auto
  have "k mod 2 = 1" if "odd k" using that by (simp add: odd_iff_mod_2_eq_one)
  then show "reg_word data be = v" unfolding d reg_word_def reg_lane_def by (cases "even k") simp_all
qed

end
