(* ===== verification/Framebuffer.thy ===== *)
theory Framebuffer
  imports Framebuffer_Memory System_Bus
begin

text \<open>
  The framebuffer (\<^verbatim>\<open>framebuffer/framebuffer_device.cpp\<close>): two buffers in memory shared with
  the viewer process. The emulated program writes into the current one, through the slave or
  by a transfer of the device's own bus master, and the display thread shows the other one and
  raises an interrupt. The viewer is a process of the host: what it is told is an event,
  and \<open>shm_ok\<close> says for which sizes \<^verbatim>\<open>shmget\<close> finds a segment (the loop over its keys
  never ends for a size the system refuses).
\<close>

definition FB_DEVICE_WH :: u32 where "FB_DEVICE_WH = 0"
definition FB_DEVICE_BUF :: u32 where "FB_DEVICE_BUF = 1"
definition FB_DEVICE_IRQCLR :: u32 where "FB_DEVICE_IRQCLR = 2"
definition FB_DEVICE_CTRL :: u32 where "FB_DEVICE_CTRL = 3"
definition FB_DEVICE_MODE :: u32 where "FB_DEVICE_MODE = 4"
definition FB_DEVICE_MEM :: u32 where "FB_DEVICE_MEM = 0x400"

definition FB_CTRL_START :: u32 where "FB_CTRL_START = 1"
definition FB_CTRL_IRQEN :: u32 where "FB_CTRL_IRQEN = 2"
definition FB_CTRL_DMAEN :: u32 where "FB_CTRL_DMAEN = 4"
definition FB_CTRL_DISPLAY :: u32 where "FB_CTRL_DISPLAY = 8"
definition FB_IRQ_GLOBAL :: u32 where "FB_IRQ_GLOBAL = 0x80000000"

lemmas fb_reg_defs [reg_defs] = FB_DEVICE_WH_def FB_DEVICE_BUF_def FB_DEVICE_IRQCLR_def
  FB_DEVICE_CTRL_def FB_DEVICE_MODE_def FB_DEVICE_MEM_def
lemmas fb_ctrl_defs [reg_defs] = FB_CTRL_START_def FB_CTRL_IRQEN_def FB_CTRL_DMAEN_def
  FB_CTRL_DISPLAY_def FB_IRQ_GLOBAL_def

text \<open>The pixel formats, by their numbers.\<close>

definition FB_NONE :: u32 where "FB_NONE = 0"
definition FB_GREY :: u32 where "FB_GREY = 1"
definition FB_RGB :: u32 where "FB_RGB = 2"
definition FB_BGR :: u32 where "FB_BGR = 3"
definition FB_ARGB :: u32 where "FB_ARGB = 4"
definition FB_BGRA :: u32 where "FB_BGRA = 5"
definition FB_YVYU :: u32 where "FB_YVYU = 6"
definition FB_YV12 :: u32 where "FB_YV12 = 7"
definition FB_IYUV :: u32 where "FB_IYUV = 8"
definition FB_YV16 :: u32 where "FB_YV16 = 9"

lemmas fb_mode_defs [reg_defs] = FB_NONE_def FB_GREY_def FB_RGB_def FB_BGR_def FB_ARGB_def FB_BGRA_def
  FB_YVYU_def FB_YV12_def FB_IYUV_def FB_YV16_def

definition FB_STOPPED :: u32 where "FB_STOPPED = 0"
definition FB_RUNNING :: u32 where "FB_RUNNING = 1"

lemmas fb_status_defs [reg_defs] = FB_STOPPED_def FB_RUNNING_def

record fb_regs =
  fb_image_w :: u16
  fb_image_h :: u16
  fb_mode :: u32
  fb_buf_addr :: u32
  fb_ctrl :: u32
  fb_irqstat :: u32
  fb_status :: u32
  fb_dmaen :: u32
  fb_disp_wrap :: u32

text \<open>
  \<open>io_mem\<close> is the array of the two buffers, with their contents: \<open>None\<close> before the first
  \<open>init\<close> (a null pointer). A detached buffer is the empty list, so an access to it faults.
\<close>

record fb_io_resource =
  io_regs :: fb_regs
  io_mem :: "u8 list list option"
  io_mem_size :: u32
  io_mem_idx :: nat

record fb_reset =
  rst_start :: u32
  rst_w :: u16
  rst_h :: u16
  rst_mode :: u32
  rst_display_on_wrap :: u32

datatype fb_event = FbIrqUpdate | FbDisplay | FbStartStop

definition fb_bufs :: "fb_io_resource \<Rightarrow> u8 list list res" where
  "fb_bufs io = (case io_mem io of None \<Rightarrow> Inl NullPointer | Some bs \<Rightarrow> Inr bs)"

subsection \<open>The slave\<close>

text \<open>\<open>fb_device_slave::display\<close>.\<close>

definition fb_slave_display :: "fb_io_resource \<Rightarrow> fb_io_resource \<times> fb_event list" where
  "fb_slave_display io = (io\<lparr>io_mem_idx := (io_mem_idx io + 1) mod 2\<rparr>, [FbDisplay])"

text \<open>The case \<open>FB_DEVICE_CTRL\<close> of \<open>write\<close>.\<close>

definition fb_ctrl_write :: "fb_io_resource \<Rightarrow> u32 \<Rightarrow> fb_io_resource \<times> fb_event list" where
  "fb_ctrl_write io val =
     (let tmp = fb_ctrl (io_regs io);
          io = io\<lparr>io_regs := (io_regs io)\<lparr>fb_ctrl := val\<rparr>\<rparr>;
          diff = tmp XOR val;
          start = (if diff AND FB_CTRL_START \<noteq> 0 then [FbStartStop] else []);
          irq = (if diff AND FB_CTRL_IRQEN \<noteq> 0 then [FbIrqUpdate] else []);
          io = (if diff AND FB_CTRL_DMAEN \<noteq> 0
                then io\<lparr>io_regs := (io_regs io)\<lparr>fb_dmaen := (if val AND FB_CTRL_DMAEN \<noteq> 0 then 1 else 0)\<rparr>\<rparr>
                else io)
      in if diff AND FB_CTRL_DISPLAY \<noteq> 0 then
           let io = io\<lparr>io_regs := (io_regs io)\<lparr>fb_ctrl := fb_ctrl (io_regs io) AND NOT FB_CTRL_DISPLAY\<rparr>\<rparr>;
               (io, es) = fb_slave_display io
           in (io, start @ irq @ es)
         else (io, start @ irq))"

text \<open>The \<open>default\<close> case: the frame memory.\<close>

definition fb_mem_write :: "fb_io_resource \<Rightarrow> ulong \<Rightarrow> u8 \<Rightarrow> u32 \<Rightarrow> (fb_io_resource \<times> fb_event list) res" where
  "fb_mem_write io mem_ofs be val =
     (if mem_ofs < drop_bit 2 (io_mem_size io) then
        let (io, es) = (if fb_disp_wrap (io_regs io) \<noteq> 0 \<and> mem_ofs = 0 \<and> be AND 1 \<noteq> 0
                        then fb_slave_display io else (io, []))
        in bindr (fb_bufs io) (\<lambda>bufs.
           bindr (rd bufs (io_mem_idx io)) (\<lambda>buf.
           bindr (merge_word buf (unat mem_ofs) (lane_be be) val) (\<lambda>buf.
           Inr (io\<lparr>io_mem := Some (bufs[io_mem_idx io := buf])\<rparr>, es))))
      else Inl (Exit 1))"

definition fb_write :: "fb_io_resource \<Rightarrow> ulong \<Rightarrow> u8 \<Rightarrow> u8 list \<Rightarrow> (fb_io_resource \<times> fb_event list) res" where
  "fb_write io ofs be data =
     (let lofs = reg_index ofs be; val = reg_word data be; r = io_regs io in
      if lofs = FB_DEVICE_WH then
        Inr (io\<lparr>io_regs := r\<lparr>fb_image_w := ucast (val AND 0xFFFF), fb_image_h := ucast (drop_bit 16 val)\<rparr>\<rparr>, [])
      else if lofs = FB_DEVICE_MODE then Inr (io\<lparr>io_regs := r\<lparr>fb_mode := val\<rparr>\<rparr>, [])
      else if lofs = FB_DEVICE_BUF then Inr (io\<lparr>io_regs := r\<lparr>fb_buf_addr := val\<rparr>\<rparr>, [])
      else if lofs = FB_DEVICE_IRQCLR then
        Inr (io\<lparr>io_regs := r\<lparr>fb_irqstat := fb_irqstat r AND NOT val\<rparr>\<rparr>, [FbIrqUpdate])
      else if lofs = FB_DEVICE_CTRL then Inr (fb_ctrl_write io val)
      else fb_mem_write io (lofs - FB_DEVICE_MEM) be val)"

text \<open>A read of the frame memory clears the enabled lanes of the word it returns.\<close>

definition fb_read :: "fb_io_resource \<Rightarrow> ulong \<Rightarrow> u8 \<Rightarrow> u32 res" where
  "fb_read io ofs be =
     (let lofs = reg_index ofs be; r = io_regs io in
      if lofs = FB_DEVICE_WH then Inr (push_bit 16 (ucast (fb_image_h r)) OR ucast (fb_image_w r))
      else if lofs = FB_DEVICE_MODE then Inr (fb_mode r)
      else if lofs = FB_DEVICE_BUF then Inr (fb_buf_addr r)
      else if lofs = FB_DEVICE_IRQCLR then Inr (fb_irqstat r)
      else if lofs = FB_DEVICE_CTRL then Inr (fb_ctrl r)
      else if lofs - FB_DEVICE_MEM < drop_bit 2 (io_mem_size io) then
        bindr (fb_bufs io) (\<lambda>bufs.
        bindr (rd bufs (io_mem_idx io)) (\<lambda>buf.
        bindr (rd_bytes buf (4 * unat (lofs - FB_DEVICE_MEM)) 4) (\<lambda>bs.
        bindr (rd s_mask (unat (lane_be be))) (\<lambda>m. Inr (le32 bs AND NOT m)))))
      else Inl (Exit 1))"

definition fb_rcv_rqst :: "(fb_io_resource, fb_event) rcv_rqst" where
  "fb_rcv_rqst req io ofs be data bWrite =
     (if bWrite then bindr (fb_write io ofs be data) (\<lambda>(io, es). Inr (io, es, data, False))
      else bindr (fb_read io ofs be) (\<lambda>v. Inr (io, [], put_reg_word data be v, False)))"


subsection \<open>The bus master\<close>

text \<open>
  \<open>fb_device_master\<close> has the members of the disk's master. Its \<open>cmd_read\<close> leaves out the
  reset of \<open>m_tr_rdata\<close>.
\<close>

definition fm_rcv_rsp :: "block_master \<Rightarrow> u8 \<Rightarrow> u8 list \<Rightarrow> bool \<Rightarrow> bool \<Rightarrow> block_master res" where
  "fm_rcv_rsp m tid data bErr bWrite =
     (let m = m\<lparr>bm_status := (if bErr then MASTER_CMD_ERROR else MASTER_CMD_SUCCESS)\<rparr> in
      bindr (if bWrite then Inr (bm_tr_rdata m)
             else copy_first (bm_tr_rdata m) data [0..<unat (bm_tr_nbytes m)]) (\<lambda>rdata.
      Inr (m\<lparr>bm_tr_rdata := rdata, bm_crt_tid := bm_crt_tid m + 1\<rparr>)))"

definition fm_cmd_read :: "('m \<Rightarrow> vci_request \<Rightarrow> ('m \<times> vci_response) res) \<Rightarrow> vci_request
    \<Rightarrow> block_master \<Rightarrow> 'm \<Rightarrow> u32 \<Rightarrow> u8 list \<Rightarrow> u8 \<Rightarrow> (block_master \<times> 'm \<times> u8 list \<times> bool) res" where
  "fm_cmd_read bus junk m b addr data nbytes =
     (let m = m\<lparr>bm_tr_nbytes := nbytes\<rparr> in
      bindr (send_req junk (bm_node_id m) (bm_crt_tid m) addr [] (ucast nbytes) False) (\<lambda>req.
      bindr (bus b req) (\<lambda>(b, rsp).
      bindr (response_thread (bm_node_id m) rsp) (\<lambda>r.
      case r of
        None \<Rightarrow> Inl Blocked
      | Some (tid, rdata, bErr, w) \<Rightarrow>
          bindr (fm_rcv_rsp m tid rdata bErr w) (\<lambda>m.
          bindr (copy_first data (bm_tr_rdata m) [0..<unat nbytes]) (\<lambda>data.
          Inr (m, b, data, bm_status m = MASTER_CMD_SUCCESS)))))))"

subsection \<open>The device and its threads\<close>

text \<open>
  \<open>fd_buf_size\<close> is an \<^verbatim>\<open>int\<close>; the code multiplies without looking at overflow, which C++
  leaves undefined, so the number is exact here. \<open>fd_irq\<close> is the output line. What the
  viewer sees: it is started with the geometry, told to show the other buffer, and stopped.
\<close>

record fb_device =
  fd_io :: fb_io_resource
  fd_master :: block_master
  fd_irq :: bool
  fd_width :: int
  fd_height :: int
  fd_mode :: u32
  fd_buf_size :: int

datatype fb_out = FbViewerStart int int u32 | FbViewerShow | FbViewerStop

definition fb_buf_size :: "int \<Rightarrow> int \<Rightarrow> u32 \<Rightarrow> int \<Rightarrow> int" where
  "fb_buf_size width height mode prev =
     (if mode = FB_GREY then height * width
      else if mode = FB_RGB \<or> mode = FB_BGR then 3 * height * width
      else if mode = FB_ARGB \<or> mode = FB_BGRA then 4 * height * width
      else if mode = FB_YVYU \<or> mode = FB_YV16 then 3 * height * width
      else if mode = FB_YV12 \<or> mode = FB_IYUV then 3 * height * width
      else prev)"

text \<open>\<open>NB_RAMDACS\<close>: the size of the three static arrays that \<open>init_viewer\<close> fills at index \<open>nb_fb\<close>.\<close>

definition NB_RAMDACS :: nat where "NB_RAMDACS = 10"

definition fb_init_viewer :: "(u32 \<Rightarrow> bool) \<Rightarrow> nat \<Rightarrow> fb_device \<Rightarrow> (fb_device \<times> nat \<times> fb_out list) res" where
  "fb_init_viewer shm_ok nb_fb d =
     (if nb_fb \<ge> NB_RAMDACS then Inl OutOfBounds
      else if \<not> shm_ok (of_int (fd_buf_size d)) then Inl Livelock
      else
        let buf = replicate (unat (of_int (fd_buf_size d) :: u32)) 0
        in Inr (d\<lparr>fd_io := (fd_io d)\<lparr>io_mem := Some [buf, buf]\<rparr>\<rparr>, nb_fb + 1,
                [FbViewerStart (fd_width d) (fd_height d) (fd_mode d)]))"

definition fb_init :: "(u32 \<Rightarrow> bool) \<Rightarrow> int \<Rightarrow> int \<Rightarrow> u32 \<Rightarrow> nat \<Rightarrow> fb_device \<Rightarrow> (fb_device \<times> nat \<times> fb_out list) res" where
  "fb_init shm_ok width height mode nb_fb d =
     (let d = d\<lparr>fd_width := width, fd_height := height, fd_mode := mode,
                fd_buf_size := fb_buf_size width height mode (fd_buf_size d)\<rparr> in
      bindr (fb_init_viewer shm_ok nb_fb d) (\<lambda>(d, nb_fb, os).
      Inr (d\<lparr>fd_io := (fd_io d)\<lparr>io_mem_size := of_int (fd_buf_size d),
               io_regs := (io_regs (fd_io d))\<lparr>fb_status := FB_RUNNING\<rparr>\<rparr>\<rparr>, nb_fb, os)))"

text \<open>\<open>uninit\<close> detaches the buffers and leaves \<open>mem\<close> and \<open>mem_size\<close> as they are.\<close>

definition fb_uninit :: "fb_device \<Rightarrow> fb_device \<times> fb_out list" where
  "fb_uninit d =
     (d\<lparr>fd_width := 0, fd_height := 0, fd_mode := FB_NONE, fd_buf_size := 0,
        fd_io := (fd_io d)\<lparr>io_mem := map_option (map (\<lambda>_. [])) (io_mem (fd_io d)),
          io_regs := (io_regs (fd_io d))\<lparr>fb_status := FB_STOPPED\<rparr>\<rparr>\<rparr>, [FbViewerStop])"

text \<open>The constructor; the members it does not set are arguments.\<close>

definition fb_device_new :: "(u32 \<Rightarrow> bool) \<Rightarrow> nat \<Rightarrow> ulong \<Rightarrow> fb_reset \<Rightarrow> fb_device
    \<Rightarrow> (fb_device \<times> nat \<times> fb_out list) res" where
  "fb_device_new shm_ok nb_fb master_id rst junk =
     (let start = rst_start rst \<noteq> 0;
          regs = \<lparr>fb_image_w = (if start then rst_w rst else 0), fb_image_h = (if start then rst_h rst else 0),
                  fb_mode = (if start then rst_mode rst else FB_NONE), fb_buf_addr = 0,
                  fb_ctrl = (if start then 1 else 0), fb_irqstat = 0,
                  fb_status = (if start then FB_RUNNING else FB_STOPPED), fb_dmaen = 0,
                  fb_disp_wrap = (if start then rst_display_on_wrap rst else 0)\<rparr>;
          io = \<lparr>io_regs = regs, io_mem = None, io_mem_size = 0, io_mem_idx = 0\<rparr>;
          m = (fd_master junk)\<lparr>bm_node_id := master_id, bm_crt_tid := 0\<rparr>;
          d = junk\<lparr>fd_io := io, fd_master := m, fd_irq := False\<rparr>
      in if start then fb_init shm_ok (int (unat (rst_w rst))) (int (unat (rst_h rst))) (rst_mode rst) nb_fb d
         else Inr (d, nb_fb, []))"

definition fb_start_stop_thread :: "(u32 \<Rightarrow> bool) \<Rightarrow> nat \<Rightarrow> fb_device \<Rightarrow> (fb_device \<times> nat \<times> fb_out list) res" where
  "fb_start_stop_thread shm_ok nb_fb d =
     (let r = io_regs (fd_io d) in
      if fb_status r = FB_STOPPED \<and> fb_ctrl r AND FB_CTRL_START \<noteq> 0 then
        fb_init shm_ok (int (unat (fb_image_w r))) (int (unat (fb_image_h r))) (fb_mode r) nb_fb d
      else if fb_status r = FB_RUNNING \<and> fb_ctrl r AND FB_CTRL_START = 0 then
        (let (d, os) = fb_uninit d in Inr (d, nb_fb, os))
      else Inr (d, nb_fb, []))"

definition fb_irq_update_thread :: "fb_device \<Rightarrow> fb_device" where
  "fb_irq_update_thread d =
     (let io = fd_io d; r = io_regs io in
      if fb_ctrl r AND FB_CTRL_IRQEN \<noteq> 0 then
        if fb_irqstat r AND NOT FB_IRQ_GLOBAL \<noteq> 0 then
          d\<lparr>fd_io := io\<lparr>io_regs := r\<lparr>fb_irqstat := fb_irqstat r OR FB_IRQ_GLOBAL\<rparr>\<rparr>, fd_irq := True\<rparr>
        else
          d\<lparr>fd_io := io\<lparr>io_regs := r\<lparr>fb_irqstat := fb_irqstat r AND NOT FB_IRQ_GLOBAL\<rparr>\<rparr>, fd_irq := False\<rparr>
      else d\<lparr>fd_irq := False\<rparr>)"

text \<open>The transfer loop of \<open>display_thread\<close>: the offsets still to do, up to the first error.\<close>

fun frame_fetch :: "('m \<Rightarrow> vci_request \<Rightarrow> ('m \<times> vci_response) res) \<Rightarrow> vci_request
    \<Rightarrow> block_master \<Rightarrow> 'm \<Rightarrow> u32 \<Rightarrow> u8 list \<Rightarrow> nat list \<Rightarrow> (block_master \<times> 'm \<times> u8 list) res" where
  "frame_fetch bus junk m b addr data [] = Inr (m, b, data)"
| "frame_fetch bus junk m b addr data (offset # offs) =
     bindr (fm_cmd_read bus junk m b (addr + of_nat offset) (drop offset data) 4) (\<lambda>(m, b, bs, ok).
     let data = take offset data @ bs in
     if ok then frame_fetch bus junk m b addr data offs else Inr (m, b, data))"

text \<open>The thread from one \<open>m_ev_display\<close> to the next; nothing else uses the device meanwhile.\<close>

definition fb_display_thread :: "('m \<Rightarrow> vci_request \<Rightarrow> ('m \<times> vci_response) res) \<Rightarrow> vci_request
    \<Rightarrow> fb_device \<Rightarrow> 'm \<Rightarrow> (fb_device \<times> 'm \<times> fb_out list \<times> fb_event list) res" where
  "fb_display_thread bus junk d b =
     (let io = fd_io d; proc_idx = (io_mem_idx io + 1) mod 2 in
      bindr (if fb_dmaen (io_regs io) \<noteq> 0 then
               bindr (fb_bufs io) (\<lambda>bufs.
               bindr (rd bufs proc_idx) (\<lambda>data.
               bindr (frame_fetch bus junk (fd_master d) b (fb_buf_addr (io_regs io)) data
                        (word_offsets ((unat (io_mem_size io) + 3) div 4))) (\<lambda>(m, b, data).
               Inr (d\<lparr>fd_master := m, fd_io := io\<lparr>io_mem := Some (bufs[proc_idx := data])\<rparr>\<rparr>, b))))
             else Inr (d, b)) (\<lambda>(d, b).
      let io = fd_io d; r = io_regs io in
      Inr (d\<lparr>fd_io := io\<lparr>io_regs := r\<lparr>fb_irqstat := fb_irqstat r OR 1\<rparr>\<rparr>\<rparr>, b, [FbViewerShow], [FbIrqUpdate])))"


subsection \<open>The device behind the bus\<close>

definition fb_io_inv :: "fb_io_resource \<Rightarrow> bool" where
  "fb_io_inv io \<longleftrightarrow> io_mem_idx io < 2 \<and> (\<forall>bs. io_mem io = Some bs \<longrightarrow> length bs = 2)"

lemma fb_mem_write_inv: "fb_mem_write io k be v = Inr (io', es) \<Longrightarrow> fb_io_inv io \<Longrightarrow> fb_io_inv io'"
  by (auto simp: fb_mem_write_def fb_slave_display_def fb_bufs_def fb_io_inv_def bindr_eq_Inr
      split: if_splits option.splits)

lemma fb_write_inv: "fb_write io ofs be data = Inr (io', es) \<Longrightarrow> fb_io_inv io \<Longrightarrow> fb_io_inv io'"
  by (auto simp: fb_write_def fb_ctrl_write_def fb_slave_display_def Let_def fb_io_inv_def [of io]
      dest!: fb_mem_write_inv split: if_splits) (auto simp: fb_io_inv_def)

interpretation fb_slave: slave_module fb_rcv_rqst fb_io_inv
  by unfold_locales (auto simp: fb_rcv_rqst_def bindr_eq_Inr dest: fb_write_inv split: if_splits)

text \<open>
  A store to the frame memory through the bus changes exactly the bytes of the addressed word whose
  lanes are enabled, in the current buffer, and nothing else of the device, when displaying at the
  first word is off.
\<close>

theorem fb_store_changes_lanes:
  assumes "io_mem io = Some bufs" "io_mem_idx io < length bufs" "bufs ! io_mem_idx io = buf"
    and "length buf = unat (io_mem_size io)" "fb_disp_wrap (io_regs io) = 0"
    and "reg_index ofs be - FB_DEVICE_MEM = of_nat k" "reg_index ofs be \<ge> FB_DEVICE_MEM" "4 * k + 4 \<le> length buf"
  shows "fb_write io ofs be data = Inr (io\<lparr>io_mem := Some (bufs[io_mem_idx io :=
      put_bytes buf (4 * k) (map (\<lambda>j. if bit (lane_be be) j then bytes32 (reg_word data be) ! j
                                       else buf ! (4 * k + j)) [0..<4])])\<rparr>, [])"
proof -
  have l: "length buf < 2 ^ 32" using assms(4) unsigned_less [of "io_mem_size io", where 'a = nat] by simp
  then have u: "unat (of_nat k :: u32) = k" using assms(8) by (simp add: unat_of_nat)
  have "unat (drop_bit 2 (io_mem_size io)) = unat (io_mem_size io) div 4"
    unfolding unat_drop_bit_eq unfolding drop_bit_eq_div by simp
  then have b: "of_nat k < drop_bit 2 (io_mem_size io)"
    unfolding word_less_nat_alt u using assms(4,8) by simp
  have n: "reg_index ofs be \<noteq> FB_DEVICE_WH" "reg_index ofs be \<noteq> FB_DEVICE_MODE" "reg_index ofs be \<noteq> FB_DEVICE_BUF"
    "reg_index ofs be \<noteq> FB_DEVICE_IRQCLR" "reg_index ofs be \<noteq> FB_DEVICE_CTRL"
    using assms(7) by (auto simp: fb_reg_defs word_le_nat_alt)
  show ?thesis
    using n b merge_word_eq [OF lane_be_less assms(8)] assms(1-6)
    by (simp add: fb_write_def Let_def fb_mem_write_def fb_bufs_def u)
qed

subsection \<open>Double buffering\<close>

text \<open>
  The store of a word to the frame memory, and the picture the display thread shows when the
  store notifies it, with no transfer of its own.
\<close>

definition fb_store :: "fb_io_resource \<Rightarrow> nat \<Rightarrow> u32 \<Rightarrow> (fb_io_resource \<times> u8 list list) res" where
  "fb_store io k v =
     (let (ofs, be, data) = register_access (unat FB_DEVICE_MEM + k) v in
      bindr (fb_write io ofs be data) (\<lambda>(io, es).
      if FbDisplay \<in> set es then
        bindr (fb_bufs io) (\<lambda>bufs. bindr (rd bufs ((io_mem_idx io + 1) mod 2)) (\<lambda>p. Inr (io, [p])))
      else Inr (io, [])))"

definition fb_cur :: "fb_io_resource \<Rightarrow> u8 list" where
  "fb_cur io = the (io_mem io) ! io_mem_idx io"

definition fb_other :: "fb_io_resource \<Rightarrow> u8 list" where
  "fb_other io = the (io_mem io) ! ((io_mem_idx io + 1) mod 2)"

text \<open>A running device of \<open>n\<close> words that displays at the first word.\<close>

definition fb_wrapping :: "nat \<Rightarrow> fb_io_resource \<Rightarrow> bool" where
  "fb_wrapping n io \<longleftrightarrow> (\<exists>a b. io_mem io = Some [a, b] \<and> length a = 4 * n \<and> length b = 4 * n)
     \<and> io_mem_size io = of_nat (4 * n) \<and> io_mem_idx io < 2 \<and> fb_disp_wrap (io_regs io) \<noteq> 0
     \<and> 4 * (unat FB_DEVICE_MEM + n) < 2 ^ 32 \<and> 0 < n"

lemma fb_write_frame_word:
  assumes "register_access (unat FB_DEVICE_MEM + k) v = (ofs, be, data)" "fb_wrapping n io" "k < n"
  shows "fb_write io ofs be data =
    (let (io, es) = (if k = 0 then fb_slave_display io else (io, [])) in
     Inr (io\<lparr>io_mem := Some ((the (io_mem io))[io_mem_idx io := put_bytes (fb_cur io) (4 * k) (bytes32 v)])\<rparr>, es))"
proof -
  from assms(2) obtain a b where m: "io_mem io = Some [a, b]" "length a = 4 * n" "length b = 4 * n"
    and sz: "io_mem_size io = of_nat (4 * n)" and i: "io_mem_idx io < 2" and w: "fb_disp_wrap (io_regs io) \<noteq> 0"
    and l: "4 * (unat FB_DEVICE_MEM + n) < 2 ^ 32" by (auto simp: fb_wrapping_def)
  have l': "4 * (unat FB_DEVICE_MEM + k) < 2 ^ 32" using l assms(3) by simp
  note d = register_access_decoded [OF assms(1) l']
  have u: "unat (of_nat k :: u32) = k" using l' by (simp add: unat_of_nat)
  have ix: "reg_index ofs be = FB_DEVICE_MEM + of_nat k" using d(1) by simp
  have uix: "unat (reg_index ofs be) = 0x400 + k"
    unfolding d(1) using l' by (simp add: unat_of_nat del: of_nat_add) (simp add: FB_DEVICE_MEM_def)
  have n: "reg_index ofs be \<noteq> FB_DEVICE_WH" "reg_index ofs be \<noteq> FB_DEVICE_MODE" "reg_index ofs be \<noteq> FB_DEVICE_BUF"
    "reg_index ofs be \<noteq> FB_DEVICE_IRQCLR" "reg_index ofs be \<noteq> FB_DEVICE_CTRL"
    using uix by (auto simp: fb_reg_defs)
  have "unat (io_mem_size io) = 4 * n" unfolding sz using l by (simp add: unat_of_nat del: of_nat_mult)
  then have "unat (drop_bit 2 (io_mem_size io)) = n"
    unfolding unat_drop_bit_eq unfolding drop_bit_eq_div by simp
  then have b: "of_nat k < drop_bit 2 (io_mem_size io)" unfolding word_less_nat_alt u using assms(3) by simp
  have k0: "of_nat k = (0::u32) \<longleftrightarrow> k = 0" unfolding word_unat_eq_iff u by simp
  have e: "be AND 1 \<noteq> 0" if "k = 0" using d(4) that by (simp add: FB_DEVICE_MEM_def)
  have wr: "fb_write io ofs be data = fb_mem_write io (of_nat k) be v"
    using n ix d(3) by (simp add: fb_write_def Let_def)
  define j where "j = (if k = 0 then (io_mem_idx io + 1) mod 2 else io_mem_idx io)"
  have "j < 2" using i by (simp add: j_def)
  then have lb: "length ([a, b] ! j) = 4 * n" "rd [a, b] j = Inr ([a, b] ! j)"
    using m(2,3) by (auto simp: less_2_cases_iff)
  have mw: "merge_word ([a, b] ! j) (unat (of_nat k :: u32)) (lane_be be) v
      = Inr (put_bytes ([a, b] ! j) (4 * k) (bytes32 v))"
    unfolding u by (rule merge_word_full [OF d(2)]) (use lb assms(3) in simp)
  show ?thesis
  proof (cases "k = 0")
    case True
    with b k0 e w m lb mw show ?thesis
      unfolding wr by (simp add: fb_mem_write_def fb_slave_display_def fb_bufs_def fb_cur_def j_def)
  next
    case False
    with b k0 m lb mw show ?thesis
      unfolding wr by (simp add: fb_mem_write_def fb_bufs_def fb_cur_def j_def)
  qed
qed

text \<open>What the write of the first word and of another one does, and the buffers it leaves.\<close>

lemma fb_write_first:
  assumes v: "fb_wrapping n io" and r: "register_access (unat FB_DEVICE_MEM + 0) v = (ofs, be, data)"
  shows "\<exists>io'. fb_write io ofs be data = Inr (io', [FbDisplay]) \<and> fb_wrapping n io' \<and> io_mem_idx io' = (io_mem_idx io + 1) mod 2
    \<and> fb_cur io' = put_bytes (fb_other io) 0 (bytes32 v) \<and> fb_other io' = fb_cur io"
proof -
  have n: "0 < n" using v by (simp add: fb_wrapping_def)
  from v obtain a b where m: "io_mem io = Some [a, b]" "length a = 4 * n" "length b = 4 * n"
    and i: "io_mem_idx io = 0 \<or> io_mem_idx io = 1" by (auto simp: fb_wrapping_def less_2_cases_iff)
  define io' where "io' = (fst (fb_slave_display io))\<lparr>io_mem := Some ([a, b][(io_mem_idx io + 1) mod 2 :=
      put_bytes (fb_other io) 0 (bytes32 v)])\<rparr>"
  have w: "fb_write io ofs be data = Inr (io', [FbDisplay])"
    using fb_write_frame_word [OF r v n] m(1)
    by (simp add: fb_slave_display_def io'_def fb_cur_def fb_other_def)
  have l: "length (put_bytes (fb_other io) 0 (bytes32 v)) = 4 * n"
    using i m n by (auto simp: fb_other_def)
  have "fb_wrapping n io'" using v i m l by (auto simp: fb_wrapping_def io'_def fb_slave_display_def)
  moreover have "fb_cur io' = put_bytes (fb_other io) 0 (bytes32 v)" "fb_other io' = fb_cur io"
    using i m(1) by (auto simp: io'_def fb_slave_display_def fb_cur_def fb_other_def)
  moreover have "io_mem_idx io' = (io_mem_idx io + 1) mod 2" by (simp add: io'_def fb_slave_display_def)
  ultimately show ?thesis using w by blast
qed

lemma fb_write_next:
  assumes v: "fb_wrapping n io" and k: "0 < k" "k < n" and r: "register_access (unat FB_DEVICE_MEM + k) v = (ofs, be, data)"
  shows "\<exists>io'. fb_write io ofs be data = Inr (io', []) \<and> fb_wrapping n io' \<and> io_mem_idx io' = io_mem_idx io
    \<and> fb_cur io' = put_bytes (fb_cur io) (4 * k) (bytes32 v) \<and> fb_other io' = fb_other io"
proof -
  from v obtain a b where m: "io_mem io = Some [a, b]" "length a = 4 * n" "length b = 4 * n"
    and i: "io_mem_idx io = 0 \<or> io_mem_idx io = 1" by (auto simp: fb_wrapping_def less_2_cases_iff)
  define io' where "io' = io\<lparr>io_mem := Some ([a, b][io_mem_idx io := put_bytes (fb_cur io) (4 * k) (bytes32 v)])\<rparr>"
  have w: "fb_write io ofs be data = Inr (io', [])"
    using fb_write_frame_word [OF r v k(2)] m(1) k(1) by (simp add: io'_def)
  have l: "length (put_bytes (fb_cur io) (4 * k) (bytes32 v)) = 4 * n"
    using i m k by (auto simp: fb_cur_def)
  have "fb_wrapping n io'" using v i m l by (auto simp: fb_wrapping_def io'_def)
  moreover have "fb_cur io' = put_bytes (fb_cur io) (4 * k) (bytes32 v)" "fb_other io' = fb_other io"
    using i m(1) by (auto simp: io'_def fb_cur_def fb_other_def)
  moreover have "io_mem_idx io' = io_mem_idx io" by (simp add: io'_def)
  ultimately show ?thesis using w by blast
qed

lemma fb_wrapping_bufs:
  assumes "fb_wrapping n io"
  obtains bufs where "fb_bufs io = Inr bufs" "length bufs = 2" "io_mem_idx io < 2" "bufs ! ((io_mem_idx io + 1) mod 2) = fb_other io"
  using assms by (auto simp: fb_wrapping_def fb_bufs_def fb_other_def)

lemma fb_store_first:
  assumes "fb_wrapping n io"
  shows "\<exists>io'. fb_store io 0 v = Inr (io', [fb_cur io]) \<and> fb_wrapping n io'
    \<and> fb_cur io' = put_bytes (fb_other io) 0 (bytes32 v) \<and> fb_other io' = fb_cur io"
proof -
  obtain ofs be data where r: "register_access (unat FB_DEVICE_MEM + 0) v = (ofs, be, data)" by (metis prod_cases3)
  from fb_write_first [OF assms r] obtain io' where w: "fb_write io ofs be data = Inr (io', [FbDisplay])" "fb_wrapping n io'"
    "fb_cur io' = put_bytes (fb_other io) 0 (bytes32 v)" "fb_other io' = fb_cur io" by blast
  from fb_wrapping_bufs [OF w(2)] obtain bufs where b: "fb_bufs io' = Inr bufs" "length bufs = 2"
    "bufs ! ((io_mem_idx io' + 1) mod 2) = fb_cur io" unfolding w(4) by blast
  then have "rd bufs ((io_mem_idx io' + 1) mod 2) = Inr (fb_cur io)" by simp
  then have "fb_store io 0 v = Inr (io', [fb_cur io])"
    unfolding fb_store_def r prod.case Let_def w(1) by (simp only: bindr_simps prod.case b(1)) simp
  with w show ?thesis by blast
qed

lemma fb_store_next:
  assumes "fb_wrapping n io" "0 < k" "k < n"
  shows "\<exists>io'. fb_store io k v = Inr (io', []) \<and> fb_wrapping n io'
    \<and> fb_cur io' = put_bytes (fb_cur io) (4 * k) (bytes32 v) \<and> fb_other io' = fb_other io"
proof -
  obtain ofs be data where r: "register_access (unat FB_DEVICE_MEM + k) v = (ofs, be, data)" by (metis prod_cases3)
  from fb_write_next [OF assms r] obtain io' where w: "fb_write io ofs be data = Inr (io', [])" "fb_wrapping n io'"
    "fb_cur io' = put_bytes (fb_cur io) (4 * k) (bytes32 v)" "fb_other io' = fb_other io" by blast
  then have "fb_store io k v = Inr (io', [])" unfolding fb_store_def r prod.case Let_def by simp
  with w show ?thesis by blast
qed

lemma fb_wrapping_sizes:
  "fb_wrapping n io \<Longrightarrow> length (fb_cur io) = 4 * n \<and> length (fb_other io) = 4 * n"
  by (auto simp: fb_wrapping_def fb_cur_def fb_other_def less_2_cases_iff)

text \<open>The contract holds for a device of \<open>n\<close> words; \<open>n\<close> is made positive so that it is one for every \<open>n\<close>.\<close>

interpretation fb_frames: double_buffer fb_store fb_cur fb_other "\<lambda>p. p" "fb_wrapping (Suc n)" "Suc n" for n
  by unfold_locales (simp_all add: fb_wrapping_sizes fb_store_first fb_store_next del: power_Suc mult_Suc mult_Suc_right)

text \<open>
  A program that writes its frames word by word to a device that displays at the first word has them
  shown in order and complete: writing a series of frames shows what was there before, then every
  frame but the last, each exactly as it was written, and leaves the last one in the current buffer.
\<close>

theorem fb_frames_in_order:
  assumes "fb_wrapping n io" "\<forall>f\<in>set fs. length f = n" "fs \<noteq> []"
  shows "\<exists>io'. store_frames fb_store io fs = Inr (io', fb_cur io # map words_bytes (butlast fs))
    \<and> fb_cur io' = words_bytes (last fs)"
proof -
  from assms(1) obtain m where n: "n = Suc m" by (cases n) (auto simp: fb_wrapping_def)
  from fb_frames.frames_shown [OF assms [unfolded n]] show ?thesis by auto
qed


subsection \<open>The device's own transfers\<close>

text \<open>A read of four bytes by this master is one of the disk's, though it does not reset the word it fills.\<close>

lemma copy_first_word:
  assumes "length dst = 4"
  shows "copy_first dst src [0..<4] = (if 4 \<le> length src then Inr (take 4 src) else Inl OutOfBounds)"
proof -
  obtain a b c d where dst: "dst = [a, b, c, d]" using assms by (auto simp: length_Suc_conv numeral_eq_Suc)
  have u: "[0..<4] = [0, 1, 2, 3::nat]" by (simp add: upt_rec)
  show ?thesis
  proof (cases "4 \<le> length src")
    case True
    then show ?thesis using copy_first_eq [of 4 src dst] assms by simp
  next
    case False
    then show ?thesis unfolding u dst
      by (cases "0 < length src"; cases "1 < length src"; cases "2 < length src") (simp_all add: rd_def)
  qed
qed

lemma response_thread_no_write:
  "response_thread node_id rsp = Inr (Some (tid, data, e, w)) \<Longrightarrow> \<not> w"
  by (auto simp: response_thread_def Let_def bindr_eq_Inr split: if_splits)

lemma fm_cmd_read_eq:
  assumes "length (bm_tr_rdata m) = 4"
  shows "fm_cmd_read bus junk m b addr data 4 = bm_cmd_read bus junk m b addr data 4"
proof -
  have 1: "fm_rcv_rsp (m\<lparr>bm_tr_nbytes := 4\<rparr>) tid rdata e False
      = bm_rcv_rsp (m\<lparr>bm_tr_nbytes := 4, bm_tr_rdata := bytes32 0\<rparr>) tid rdata e False" for tid rdata e
    using assms by (simp add: fm_rcv_rsp_def bm_rcv_rsp_def copy_first_word)
  show ?thesis
  proof (cases "send_req junk (bm_node_id m) (bm_crt_tid m) addr [] (ucast (4::u8)) False")
    case (Inl e)
    then show ?thesis by (simp add: fm_cmd_read_def bm_cmd_read_def bm_transact_def)
  next
    case s: (Inr req)
    show ?thesis
    proof (cases "bus b req")
      case (Inl e)
      with s show ?thesis by (simp add: fm_cmd_read_def bm_cmd_read_def bm_transact_def)
    next
      case t: (Inr p)
      obtain b1 rsp where p: "p = (b1, rsp)" by (cases p)
      obtain r where r: "response_thread (bm_node_id m) rsp = Inr r" using response_thread_total by blast
      show ?thesis
      proof (cases r)
        case None
        with s t p r show ?thesis by (simp add: fm_cmd_read_def bm_cmd_read_def bm_transact_def)
      next
        case (Some q)
        obtain tid rdata e w where q: "q = (tid, rdata, e, w)" by (metis prod_cases4)
        have "\<not> w" using response_thread_no_write r Some q by blast
        with s t p r Some q show ?thesis
          by (simp add: fm_cmd_read_def bm_cmd_read_def bm_transact_def bindr_assoc 1)
      qed
    qed
  qed
qed

lemma bm_cmd_read_keeps:
  assumes "bm_cmd_read bus junk m b addr data 4 = Inr (m', b', bs, ok)"
  shows "length (bm_tr_rdata m') = 4"
proof -
  from assms obtain tid rdata e w where
    r: "bm_rcv_rsp (m\<lparr>bm_tr_nbytes := 4, bm_tr_rdata := bytes32 0\<rparr>) tid rdata e w = Inr m'"
    by (auto simp: bm_cmd_read_def bm_transact_def bindr_eq_Inr split: option.splits)
  then show ?thesis
    by (auto simp: bm_rcv_rsp_def Let_def bindr_eq_Inr copy_first_word split: if_splits)
qed

lemma frame_fetch_eq:
  assumes "length (bm_tr_rdata m) = 4"
  shows "frame_fetch bus junk m b addr data offs
    = bindr (dma_load bus junk m b addr data offs fr) (\<lambda>(m, b, data, fr). Inr (m, b, data))"
  using assms
proof (induction offs arbitrary: m b data fr)
  case Nil
  then show ?case by simp
next
  case (Cons ofs offs)
  show ?case
  proof (cases "bm_cmd_read bus junk m b (addr + of_nat ofs) (drop ofs data) 4")
    case (Inl e)
    then show ?thesis by (simp add: fm_cmd_read_eq [OF Cons.prems])
  next
    case (Inr q)
    obtain m1 b1 bs ok where q: "q = (m1, b1, bs, ok)" by (metis prod_cases4)
    have "length (bm_tr_rdata m1) = 4" by (rule bm_cmd_read_keeps [OF Inr [unfolded q]])
    from Cons.IH [OF this] Inr q show ?thesis
      by (simp add: fm_cmd_read_eq [OF Cons.prems] bindr_assoc Let_def)
  qed
qed

text \<open>
  Claim C14. A device that fetches its frames by itself shows the memory: one pass of the display thread, with the
  transfer enabled, reads through the network the frame at the programmed address into the buffer
  it shows, leaves memory and the other buffer unchanged, and requests the interrupt, which the
  interrupt thread raises if enabled.
\<close>

theorem fb_dma_shows_memory:
  assumes "mem_bus_inv ns s e b" "bm_ok (fd_master d)"
    and "io_mem (fd_io d) = Some bufs" "length bufs = 2"
    and "length (bufs ! ((io_mem_idx (fd_io d) + 1) mod 2)) = unat (io_mem_size (fd_io d))"
    and "fb_dmaen (io_regs (fd_io d)) \<noteq> 0" "unat (io_mem_size (fd_io d)) mod 4 = 0"
    and "unat (fb_buf_addr (io_regs (fd_io d))) mod 4 = 0"
    and "unat (fb_buf_addr (io_regs (fd_io d))) + unat (io_mem_size (fd_io d)) \<le> ram_limit e"
  shows "\<exists>d' b'. fb_display_thread (mem_bus (ram_row s e # rest) ns s) junk d b
      = Inr (d', b', [FbViewerShow], [FbIrqUpdate])
    \<and> mem_view b' = mem_view b
    \<and> io_mem (fd_io d') = Some (bufs[(io_mem_idx (fd_io d) + 1) mod 2 :=
        map (\<lambda>j. mem_view b (unat (fb_buf_addr (io_regs (fd_io d))) + j)) [0..<unat (io_mem_size (fd_io d))]])
    \<and> io_mem_idx (fd_io d') = io_mem_idx (fd_io d)
    \<and> (fb_ctrl (io_regs (fd_io d)) AND FB_CTRL_IRQEN \<noteq> 0 \<longrightarrow> fd_irq (fb_irq_update_thread d'))"
proof -
  let ?io = "fd_io d" and ?bus = "mem_bus (ram_row s e # rest) ns s"
  let ?A = "fb_buf_addr (io_regs ?io)" and ?buf = "bufs ! ((io_mem_idx ?io + 1) mod 2)"
  have re: "ram_limit e < 2 ^ 32"
    using ram_limit_le [of e] unsigned_less [of e, where 'a = nat] by simp
  have sz: "4 * ((unat (io_mem_size ?io) + 3) div 4) = unat (io_mem_size ?io)" using assms(7) by presburger
  have l4: "length (bm_tr_rdata (fd_master d)) = 4" using assms(2) by (simp add: bm_ok_def)
  have len: "unat ?A + length ?buf < 2 ^ 32" "4 * ((unat (io_mem_size ?io) + 3) div 4) \<le> length ?buf"
    "unat ?A + 4 * ((unat (io_mem_size ?io) + 3) div 4) \<le> ram_limit e"
    unfolding sz using assms(5,9) re by simp_all
  from ram_bus.dma_load_ok [OF assms(1,2) len(1) assms(8) len(2,3), where k = 0 and rest = rest and junk = junk and fr = 0] obtain m' b' fr' where
    f: "dma_load ?bus junk (fd_master d) b ?A ?buf (word_offsets ((unat (io_mem_size ?io) + 3) div 4)) 0
      = Inr (m', b', map (\<lambda>j. mem_view b (unat ?A + j)) [0..<unat (io_mem_size ?io)], fr')"
    "mem_view b' = mem_view b"
    using assms(5) sz by (auto simp: word_offsets_def)
  define d1 where "d1 = d\<lparr>fd_master := m', fd_io := ?io\<lparr>io_mem := Some (bufs[(io_mem_idx ?io + 1) mod 2 :=
      map (\<lambda>j. mem_view b (unat ?A + j)) [0..<unat (io_mem_size ?io)]])\<rparr>\<rparr>"
  have fe: "frame_fetch ?bus junk (fd_master d) b ?A ?buf (word_offsets ((unat (io_mem_size ?io) + 3) div 4))
      = Inr (m', b', map (\<lambda>j. mem_view b (unat ?A + j)) [0..<unat (io_mem_size ?io)])"
    using frame_fetch_eq [OF l4, of ?bus junk b ?A ?buf _ 0] f(1) by simp
  have "fb_display_thread ?bus junk d b = Inr (d1\<lparr>fd_io := (fd_io d1)\<lparr>io_regs :=
      (io_regs (fd_io d1))\<lparr>fb_irqstat := fb_irqstat (io_regs (fd_io d1)) OR 1\<rparr>\<rparr>\<rparr>, b', [FbViewerShow], [FbIrqUpdate])"
    unfolding fb_display_thread_def Let_def using assms(3,4,6) fe by (simp add: fb_bufs_def d1_def)
  moreover have "(x OR 1) AND NOT FB_IRQ_GLOBAL \<noteq> 0" for x :: u32
  proof -
    have "bit ((x OR 1) AND NOT FB_IRQ_GLOBAL) 0" by (simp add: bit_simps FB_IRQ_GLOBAL_def)
    then show ?thesis by auto
  qed
  ultimately show ?thesis using f(2) by (auto simp: fb_irq_update_thread_def Let_def d1_def)
qed


subsection \<open>A device of two words\<close>

definition small_fb_io :: "u32 \<Rightarrow> fb_io_resource" where
  "small_fb_io wrap = \<lparr>
     io_regs = \<lparr>fb_image_w = 8, fb_image_h = 1, fb_mode = FB_GREY, fb_buf_addr = 16, fb_ctrl = 7,
                fb_irqstat = 0, fb_status = FB_RUNNING, fb_dmaen = 1, fb_disp_wrap = wrap\<rparr>,
     io_mem = Some [[1, 2, 3, 4, 5, 6, 7, 8], [0, 0, 0, 0, 0, 0, 0, 0]], io_mem_size = 8, io_mem_idx = 0\<rparr>"

theorem fb_store_changes_lanes_witness:
  "fb_write (small_fb_io 0) 0x1000 0x06 [0xAA, 0xBB, 0xCC, 0xDD, 0, 0, 0, 0]
    = Inr ((small_fb_io 0)\<lparr>io_mem := Some [[1, 0xBB, 0xCC, 4, 5, 6, 7, 8], [0, 0, 0, 0, 0, 0, 0, 0]]\<rparr>, [])"
proof -
  have i: "reg_index 0x1000 0x06 = 0x400" by (simp add: reg_index_def drop_bit_eq_div)
  have "reg_word [0xAA, 0xBB, 0xCC, 0xDD, 0, 0, 0, 0] 0x06 = 0xDDCCBBAA"
    by (simp add: reg_word_def reg_lane_def u32_at_def le32_def push_bit_eq_mult)
  moreover have "lane_be 0x06 = 0x06" by (simp add: lane_be_def)
  moreover have "\<not> bit (0x06::u8) 0" "bit (0x06::u8) 1" "bit (0x06::u8) 2" "\<not> bit (0x06::u8) 3"
    by (simp_all add: bit_iff_odd)
  moreover have "[0..<4] = [0, 1, 2, 3::nat]" by (simp add: upt_rec)
  moreover have "bytes32 0xDDCCBBAA = [0xAA, 0xBB, 0xCC, 0xDD]" by (simp add: bytes32_def drop_bit_eq_div)
  ultimately show ?thesis
    using fb_store_changes_lanes [of "small_fb_io 0" _ _ "0x1000" "0x06" 0 "[0xAA, 0xBB, 0xCC, 0xDD, 0, 0, 0, 0]"] i
    by (simp add: small_fb_io_def FB_DEVICE_MEM_def put_bytes_def)
qed

theorem fb_frames_in_order_witness:
  "\<exists>io'. store_frames fb_store (small_fb_io 1) [[1, 2], [3, 4], [5, 6]]
      = Inr (io', [[1, 2, 3, 4, 5, 6, 7, 8], [1, 0, 0, 0, 2, 0, 0, 0], [3, 0, 0, 0, 4, 0, 0, 0]])"
proof -
  have w: "fb_wrapping 2 (small_fb_io 1)" by (simp add: fb_wrapping_def small_fb_io_def FB_DEVICE_MEM_def)
  have c: "fb_cur (small_fb_io 1) = [1, 2, 3, 4, 5, 6, 7, 8]" by (simp add: fb_cur_def small_fb_io_def)
  from fb_frames_in_order [OF w, of "[[1, 2], [3, 4], [5, 6]]"] show ?thesis
    by (auto simp: c bytes32_def drop_bit_eq_div)
qed

definition small_fb :: fb_device where
  "small_fb = \<lparr>fd_io = small_fb_io 0, fd_master = block_master_new 2 [0, 0, 0, 0] 0, fd_irq = False,
     fd_width = 8, fd_height = 1, fd_mode = FB_GREY, fd_buf_size = 8\<rparr>"

theorem fb_dma_shows_memory_witness:
  "\<exists>d' b'. fb_display_thread (mem_bus [ram_row 0 64] 1 0) zero_request small_fb small_bus
      = Inr (d', b', [FbViewerShow], [FbIrqUpdate]) \<and> fd_irq (fb_irq_update_thread d')
    \<and> io_mem (fd_io d') = Some [[1, 2, 3, 4, 5, 6, 7, 8], map (\<lambda>j. mem_view small_bus (16 + j)) [0..<8]]"
proof -
  have m: "bm_ok (fd_master small_fb)" by (simp add: small_fb_def bm_ok_def block_master_new_def)
  have e: "ram_limit 64 = 64" by (simp add: ram_limit_def)
  from fb_dma_shows_memory [OF small_bus_inv m, of _ "[]" zero_request]
  show ?thesis
    by (force simp: e small_fb_def small_fb_io_def FB_CTRL_IRQEN_def)
qed

end
