(* ===== verification/Sl_Framebuffer.thy ===== *)
theory Sl_Framebuffer
  imports Framebuffer_Memory Slave_Device
begin

text \<open>
  The simple framebuffer (\<^verbatim>\<open>sl_framebuffer/sl_framebuffer_device.cpp\<close>): two buffers
  written word by word; the store of the first word shows what was written before, after a
  conversion from planar YUV where the mode asks for it. The two conversions that the code leaves
  empty are empty here. The \<^verbatim>\<open>int\<close> geometry is exact: its overflow is undefined in C++.
\<close>

definition SL_GREY :: int where "SL_GREY = 0"
definition SL_RGB32 :: int where "SL_RGB32 = 1"
definition SL_YVYU :: int where "SL_YVYU = 2"
definition SL_YV12 :: int where "SL_YV12 = 3"
definition SL_YV16 :: int where "SL_YV16 = 4"

lemmas sl_mode_defs [reg_defs] = SL_GREY_def SL_RGB32_def SL_YVYU_def SL_YV12_def SL_YV16_def

datatype sl_target = WriteRgb | WriteYuv | WriteUnset

record sl_fb_device =
  sf_mode :: int
  sf_width :: int
  sf_height :: int
  sf_rgb_components :: int
  sf_rgb_size :: int
  sf_rgb_image :: "u8 list list"
  sf_yuv_size :: int
  sf_yuv_image :: "u8 list list"
  sf_buf_idx :: nat
  sf_write_buf :: sl_target
  sf_mem_size :: int

datatype sl_fb_event = SlShow

subsection \<open>Colours\<close>

text \<open>\<open>yuv2rgb\<close>, with \<^verbatim>\<open>int32_t\<close> as words read as signed; \<open>>>\<close> on them keeps the sign.\<close>

definition clip_rgb :: "32 word \<Rightarrow> u8" where
  "clip_rgb x = (if x <s 256 then (if 0 \<le>s x then ucast x else 0) else 0xFF)"

definition yuv2rgb :: "u8 \<Rightarrow> u8 \<Rightarrow> u8 \<Rightarrow> u8 list" where
  "yuv2rgb y u v =
     (let y_tmp = (ucast y :: 32 word) - 16;
          u_tmp = (ucast u :: 32 word) - 128;
          v_tmp = (ucast v :: 32 word) - 128;
          y_tmp = y_tmp * 298;
          r_tmp = y_tmp + 0 + v_tmp * 409 + 128;
          g_tmp = y_tmp + u_tmp * (- 100) + v_tmp * (- 208) + 128;
          b_tmp = y_tmp + u_tmp * 516 + 0 + 128
      in [clip_rgb (signed_drop_bit 8 r_tmp), clip_rgb (signed_drop_bit 8 g_tmp), clip_rgb (signed_drop_bit 8 b_tmp)])"

text \<open>\<open>convert_frame_yv16\<close>: planes of luminance and of the two colours, each for two pixels.\<close>

fun yv16_loop :: "u8 list \<Rightarrow> nat \<Rightarrow> u8 list \<Rightarrow> nat list \<Rightarrow> u8 list res" where
  "yv16_loop y_buf wh rgb [] = Inr rgb"
| "yv16_loop y_buf wh rgb (i # is) =
     bindr (rd y_buf (i * 2)) (\<lambda>y.
     bindr (rd y_buf (wh + i)) (\<lambda>u.
     bindr (rd y_buf (wh + wh div 2 + i)) (\<lambda>v.
     bindr (wr_bytes rgb (6 * i) (yuv2rgb y u v)) (\<lambda>rgb.
     bindr (rd y_buf (i * 2 + 1)) (\<lambda>y.
     bindr (wr_bytes rgb (6 * i + 3) (yuv2rgb y u v)) (\<lambda>rgb.
     yv16_loop y_buf wh rgb is))))))"

definition convert_frame_yv16 :: "sl_fb_device \<Rightarrow> sl_fb_device res" where
  "convert_frame_yv16 d =
     (let wh = nat (sf_width d * sf_height d) in
      bindr (rd (sf_yuv_image d) (sf_buf_idx d)) (\<lambda>y_buf.
      bindr (rd (sf_rgb_image d) (sf_buf_idx d)) (\<lambda>rgb.
      bindr (yv16_loop y_buf wh rgb [0..<wh div 2]) (\<lambda>rgb.
      Inr (d\<lparr>sf_rgb_image := (sf_rgb_image d)[sf_buf_idx d := rgb]\<rparr>)))))"

subsection \<open>Accesses\<close>

definition sl_display :: "sl_fb_device \<Rightarrow> (sl_fb_device \<times> sl_fb_event list) res" where
  "sl_display d =
     bindr (if sf_mode d = SL_YV16 then convert_frame_yv16 d else Inr d) (\<lambda>d.
     Inr (d\<lparr>sf_buf_idx := (sf_buf_idx d + 1) mod 2\<rparr>, [SlShow]))"

definition sl_write_bufs :: "sl_fb_device \<Rightarrow> u8 list list" where
  "sl_write_bufs d = (case sf_write_buf d of WriteRgb \<Rightarrow> sf_rgb_image d | WriteYuv \<Rightarrow> sf_yuv_image d | WriteUnset \<Rightarrow> [])"

definition sl_put_buf :: "u8 list \<Rightarrow> sl_fb_device \<Rightarrow> sl_fb_device" where
  "sl_put_buf buf d = (case sf_write_buf d of
     WriteRgb \<Rightarrow> d\<lparr>sf_rgb_image := (sf_rgb_image d)[sf_buf_idx d := buf]\<rparr>
   | WriteYuv \<Rightarrow> d\<lparr>sf_yuv_image := (sf_yuv_image d)[sf_buf_idx d := buf]\<rparr>
   | WriteUnset \<Rightarrow> d)"

definition sl_fb_write :: "sl_fb_device \<Rightarrow> ulong \<Rightarrow> u8 \<Rightarrow> u8 list \<Rightarrow> (sl_fb_device \<times> sl_fb_event list) res" where
  "sl_fb_write d ofs be data =
     (let lofs = reg_index ofs be; val = reg_word data be in
      if lofs > of_int (sf_mem_size d div 4) then Inl (Exit 1)
      else
        bindr (if ofs = 0 \<and> be AND 1 \<noteq> 0 then sl_display d else Inr (d, [])) (\<lambda>(d, es).
        bindr (rd (sl_write_bufs d) (sf_buf_idx d)) (\<lambda>buf.
        bindr (merge_word buf (unat lofs) (lane_be be) val) (\<lambda>buf.
        Inr (sl_put_buf buf d, es)))))"

definition sl_fb_rcv_rqst :: "(sl_fb_device, sl_fb_event) rcv_rqst" where
  "sl_fb_rcv_rqst req d ofs be data bWrite =
     (if bWrite then bindr (sl_fb_write d ofs be data) (\<lambda>(d, es). Inr (d, es, data, False))
      else Inr (d, [], data, False))"

text \<open>
  The constructor with its \<open>init_ramdac\<close>. For a mode that is none of the five the members
  of \<open>junk\<close>, which are not initialised, keep their values. \<open>malloc\<close> leaves any bytes.
\<close>

definition sl_init_ramdac :: "(u32 \<Rightarrow> bool) \<Rightarrow> nat \<Rightarrow> sl_fb_device \<Rightarrow> (sl_fb_device \<times> nat) res" where
  "sl_init_ramdac shm_ok nb_fb d =
     (if nb_fb \<ge> 10 then Inl OutOfBounds
      else if \<not> shm_ok (of_int (sf_rgb_size d)) then Inl Livelock
      else let buf = replicate (unat (of_int (sf_rgb_size d) :: u32)) 0
           in Inr (d\<lparr>sf_rgb_image := [buf, buf]\<rparr>, nb_fb + 1))"

definition sl_fb_device_new :: "(u32 \<Rightarrow> bool) \<Rightarrow> (nat \<Rightarrow> u8) \<Rightarrow> sl_fb_device \<Rightarrow> nat \<Rightarrow> int \<Rightarrow> int \<Rightarrow> int
    \<Rightarrow> (sl_fb_device \<times> nat) res" where
  "sl_fb_device_new shm_ok fresh junk nb_fb fb_w fb_h fb_mode =
     (let d = junk\<lparr>sf_buf_idx := 0, sf_mode := fb_mode, sf_width := fb_w, sf_height := fb_h\<rparr>;
          d = (if fb_mode = SL_GREY then d\<lparr>sf_rgb_components := 1, sf_yuv_size := 0\<rparr>
               else if fb_mode = SL_RGB32 then d\<lparr>sf_rgb_components := 3, sf_yuv_size := 0\<rparr>
               else if fb_mode = SL_YVYU \<or> fb_mode = SL_YV16
                 then d\<lparr>sf_rgb_components := 3, sf_yuv_size := 2 * fb_w * fb_h\<rparr>
               else if fb_mode = SL_YV12
                 then d\<lparr>sf_rgb_components := 3, sf_yuv_size := (3 * fb_w * fb_h) div 2\<rparr>
               else d);
          d = d\<lparr>sf_rgb_size := sf_rgb_components d * fb_h * fb_w\<rparr>;
          d = (if sf_yuv_size d > 0
               then d\<lparr>sf_yuv_image := replicate 2 (map fresh [0..<nat (sf_yuv_size d)])\<rparr> else d)
      in bindr (sl_init_ramdac shm_ok nb_fb d) (\<lambda>(d, nb_fb).
         Inr (if fb_mode = SL_GREY \<or> fb_mode = SL_RGB32
              then d\<lparr>sf_write_buf := WriteRgb, sf_mem_size := sf_rgb_size d\<rparr>
              else if fb_mode = SL_YVYU \<or> fb_mode = SL_YV16 \<or> fb_mode = SL_YV12
              then d\<lparr>sf_write_buf := WriteYuv, sf_mem_size := sf_yuv_size d\<rparr>
              else d, nb_fb)))"

interpretation sl_fb_slave: slave_module sl_fb_rcv_rqst "\<lambda>_. True"
  by unfold_locales (auto simp: sl_fb_rcv_rqst_def bindr_eq_Inr split: if_splits)

subsection \<open>The colours are the formula's\<close>

definition clip8 :: "int \<Rightarrow> u8" where
  "clip8 x = of_int (max 0 (min 255 x))"

lemma sint_of_int_small:
  assumes "- (2 ^ 31) \<le> x" "x < 2 ^ 31"
  shows "sint (of_int x :: 32 word) = x"
proof -
  have "sint (of_int x :: 32 word) = signed_take_bit 31 x" by (simp add: signed_of_int)
  then show ?thesis using assms by (simp add: signed_take_bit_int_eq_self)
qed

lemma clip_rgb_of_int:
  assumes "- (2 ^ 31) \<le> x" "x < 2 ^ 31"
  shows "clip_rgb (signed_drop_bit 8 (of_int x)) = clip8 (x div 256)"
proof -
  define w where "w = signed_drop_bit 8 (of_int x :: 32 word)"
  have s: "sint w = x div 256"
    unfolding w_def sint_signed_drop_bit_eq sint_of_int_small [OF assms] drop_bit_eq_div by simp
  have u: "(ucast w :: u8) = of_int (sint w)"
  proof (rule bit_word_eqI)
    fix i assume "i < LENGTH(8)"
    then have i: "i < 8" by simp
    show "bit (ucast w :: u8) i \<longleftrightarrow> bit (of_int (sint w) :: u8) i"
      using i by (simp add: bit_simps bit_sint_iff min_def)
  qed
  have a: "w <s 256 \<longleftrightarrow> x div 256 < 256" "0 \<le>s w \<longleftrightarrow> 0 \<le> x div 256"
    by (simp_all add: word_sless_alt word_sle_eq s)
  show ?thesis
    unfolding w_def [symmetric] clip_rgb_def a u s clip8_def
    by (cases "x div 256 < 256"; cases "0 \<le> x div 256") (simp_all add: max_def min_absorb1 min_absorb2)
qed

definition yuv_spec :: "u8 \<Rightarrow> u8 \<Rightarrow> u8 \<Rightarrow> u8 list" where
  "yuv_spec y u v =
     (let c = uint y - 16; d = uint u - 128; e = uint v - 128 in
      [clip8 ((298 * c + 409 * e + 128) div 256),
       clip8 ((298 * c - 100 * d - 208 * e + 128) div 256),
       clip8 ((298 * c + 516 * d + 128) div 256)])"

lemma yuv2rgb_spec: "yuv2rgb y u v = yuv_spec y u v"
proof -
  have b: "0 \<le> uint x \<and> uint x < 256" for x :: u8 using uint_lt2p [of x] by simp
  have c: "(ucast x :: 32 word) = of_int (uint x)" for x :: u8 by simp
  have bnd: "- (2 ^ 31) \<le> 298 * (Y - 16) + 409 * (V - 128) + 128 \<and> 298 * (Y - 16) + 409 * (V - 128) + 128 < 2 ^ 31"
    "- (2 ^ 31) \<le> 298 * (Y - 16) - 100 * (U - 128) - 208 * (V - 128) + 128
      \<and> 298 * (Y - 16) - 100 * (U - 128) - 208 * (V - 128) + 128 < 2 ^ 31"
    "- (2 ^ 31) \<le> 298 * (Y - 16) + 516 * (U - 128) + 128 \<and> 298 * (Y - 16) + 516 * (U - 128) + 128 < 2 ^ 31"
    if "0 \<le> Y \<and> Y < 256" "0 \<le> U \<and> U < 256" "0 \<le> V \<and> V < 256" for Y U V :: int
    using that by auto
  define r where "r = 298 * (uint y - 16) + 409 * (uint v - 128) + 128"
  define g where "g = 298 * (uint y - 16) - 100 * (uint u - 128) - 208 * (uint v - 128) + 128"
  define bl where "bl = 298 * (uint y - 16) + 516 * (uint u - 128) + 128"
  have "((ucast y :: 32 word) - 16) * 298 + 0 + ((ucast v :: 32 word) - 128) * 409 + 128 = of_int r"
    unfolding c r_def by simp
  moreover have "((ucast y :: 32 word) - 16) * 298 + ((ucast u :: 32 word) - 128) * (- 100)
        + ((ucast v :: 32 word) - 128) * (- 208) + 128 = of_int g"
    unfolding c g_def by simp
  moreover have "((ucast y :: 32 word) - 16) * 298 + ((ucast u :: 32 word) - 128) * 516 + 0 + 128 = of_int bl"
    unfolding c bl_def by simp
  moreover have "- (2 ^ 31) \<le> r \<and> r < 2 ^ 31" "- (2 ^ 31) \<le> g \<and> g < 2 ^ 31" "- (2 ^ 31) \<le> bl \<and> bl < 2 ^ 31"
    unfolding r_def g_def bl_def by (rule bnd; rule b)+
  then have "clip_rgb (signed_drop_bit 8 (of_int r)) = clip8 (r div 256)"
    "clip_rgb (signed_drop_bit 8 (of_int g)) = clip8 (g div 256)"
    "clip_rgb (signed_drop_bit 8 (of_int bl)) = clip8 (bl div 256)"
    using clip_rgb_of_int by blast+
  ultimately show ?thesis
    unfolding yuv2rgb_def yuv_spec_def Let_def r_def [symmetric] g_def [symmetric] bl_def [symmetric]
    by (simp only:)
qed


subsection \<open>A converted frame\<close>

text \<open>The picture of a frame of \<open>wh\<close> pixels in planes: luminance, then the two colours of each pair.\<close>

definition yv16_pixel :: "u8 list \<Rightarrow> nat \<Rightarrow> nat \<Rightarrow> u8 list" where
  "yv16_pixel f wh k = yuv_spec (f ! k) (f ! (wh + k div 2)) (f ! (wh + wh div 2 + k div 2))"

definition yv16_picture :: "nat \<Rightarrow> u8 list \<Rightarrow> u8 list" where
  "yv16_picture wh f = concat (map (yv16_pixel f wh) [0..<wh])"

lemma length_yv16_pixel [simp]: "length (yv16_pixel f wh k) = 3"
  by (simp add: yv16_pixel_def yuv_spec_def Let_def)

lemma length_pixels [simp]: "length (concat (map (yv16_pixel f wh) [0..<n])) = 3 * n"
  by (induction n) simp_all

lemma put_pixel:
  assumes "3 * n + 3 \<le> length rgb"
  shows "wr_bytes (concat (map (yv16_pixel f wh) [0..<n]) @ drop (3 * n) rgb) (3 * n) (yv16_pixel f wh n)
    = Inr (concat (map (yv16_pixel f wh) [0..<Suc n]) @ drop (3 * Suc n) rgb)"
  using assms by (simp add: wr_bytes_def put_bytes_def)

lemma yv16_loop_ok:
  assumes "length f = 2 * wh" "even wh" "length rgb = 3 * wh" "i \<le> wh div 2"
  shows "yv16_loop f wh (concat (map (yv16_pixel f wh) [0..<2 * i]) @ drop (3 * (2 * i)) rgb) [i..<wh div 2]
    = Inr (yv16_picture wh f)"
  using assms(4)
proof (induction "wh div 2 - i" arbitrary: i)
  case 0
  then have "2 * i = wh" using assms(2) by auto
  with 0 assms(3) show ?case by (simp add: yv16_picture_def)
next
  case (Suc m)
  then have i: "i < wh div 2" by simp
  have p0: "yuv2rgb (f ! (i * 2)) (f ! (wh + i)) (f ! (wh + wh div 2 + i)) = yv16_pixel f wh (2 * i)"
    and p1: "yuv2rgb (f ! (i * 2 + 1)) (f ! (wh + i)) (f ! (wh + wh div 2 + i)) = yv16_pixel f wh (Suc (2 * i))"
    by (simp_all add: yv16_pixel_def yuv2rgb_spec mult.commute)
  have w0: "wr_bytes (concat (map (yv16_pixel f wh) [0..<2 * i]) @ drop (3 * (2 * i)) rgb) (6 * i) (yv16_pixel f wh (2 * i))
      = Inr (concat (map (yv16_pixel f wh) [0..<Suc (2 * i)]) @ drop (3 * Suc (2 * i)) rgb)"
    using put_pixel [of "2 * i" rgb f wh] i assms(3) by simp
  have w1: "wr_bytes (concat (map (yv16_pixel f wh) [0..<Suc (2 * i)]) @ drop (3 * Suc (2 * i)) rgb) (6 * i + 3)
        (yv16_pixel f wh (Suc (2 * i)))
      = Inr (concat (map (yv16_pixel f wh) [0..<2 * Suc i]) @ drop (3 * (2 * Suc i)) rgb)"
    using put_pixel [of "Suc (2 * i)" rgb f wh] i assms(3) by (simp add: algebra_simps)
  have IH: "yv16_loop f wh (concat (map (yv16_pixel f wh) [0..<2 * Suc i]) @ drop (3 * (2 * Suc i)) rgb) [Suc i..<wh div 2]
      = Inr (yv16_picture wh f)"
    using Suc.hyps(1) [of "Suc i"] Suc.hyps(2) i by simp
  have r: "rd f (i * 2) = Inr (f ! (i * 2))" "rd f (wh + i) = Inr (f ! (wh + i))"
    "rd f (wh + wh div 2 + i) = Inr (f ! (wh + wh div 2 + i))" "rd f (i * 2 + 1) = Inr (f ! (i * 2 + 1))"
    using i assms(1) by simp_all
  show ?case
    unfolding upt_conv_Cons [OF i] by (simp only: yv16_loop.simps r bindr_simps p0 w0 p1 w1 IH)
qed

lemma convert_frame_ok:
  assumes "nat (sf_width d * sf_height d) = wh" "even wh" "sf_buf_idx d < length (sf_yuv_image d)"
    and "sf_buf_idx d < length (sf_rgb_image d)" "length (sf_yuv_image d ! sf_buf_idx d) = 2 * wh"
    and "length (sf_rgb_image d ! sf_buf_idx d) = 3 * wh"
  shows "convert_frame_yv16 d = Inr (d\<lparr>sf_rgb_image := (sf_rgb_image d)
    [sf_buf_idx d := yv16_picture wh (sf_yuv_image d ! sf_buf_idx d)]\<rparr>)"
  using yv16_loop_ok [OF assms(5,2,6), of 0] assms by (simp add: convert_frame_yv16_def Let_def)


subsection \<open>Double buffering\<close>

text \<open>The store of word \<open>k\<close> and the picture the viewer is told to show.\<close>

definition sl_store :: "sl_fb_device \<Rightarrow> nat \<Rightarrow> u32 \<Rightarrow> (sl_fb_device \<times> u8 list list) res" where
  "sl_store d k v =
     (let (ofs, be, data) = register_access k v in
      bindr (sl_fb_write d ofs be data) (\<lambda>(d, es).
      if SlShow \<in> set es then
        bindr (rd (sf_rgb_image d) ((sf_buf_idx d + 1) mod 2)) (\<lambda>p. Inr (d, [p]))
      else Inr (d, [])))"

definition sl_cur :: "sl_fb_device \<Rightarrow> u8 list" where
  "sl_cur d = sl_write_bufs d ! sf_buf_idx d"

definition sl_other :: "sl_fb_device \<Rightarrow> u8 list" where
  "sl_other d = sl_write_bufs d ! ((sf_buf_idx d + 1) mod 2)"

text \<open>A device of \<open>n\<close> words in a mode the code implements, and what it shows of a frame.\<close>

definition sl_conv :: "int \<Rightarrow> nat \<Rightarrow> u8 list \<Rightarrow> u8 list" where
  "sl_conv mode wh f = (if mode = SL_YV16 then yv16_picture wh f else f)"

definition two_of :: "nat \<Rightarrow> u8 list list \<Rightarrow> bool" where
  "two_of n bs \<longleftrightarrow> length bs = 2 \<and> (\<forall>b\<in>set bs. length b = n)"

definition sl_ok :: "int \<Rightarrow> nat \<Rightarrow> nat \<Rightarrow> sl_fb_device \<Rightarrow> bool" where
  "sl_ok mode wh n d \<longleftrightarrow> sf_mode d = mode \<and> nat (sf_width d * sf_height d) = wh
     \<and> (if mode = SL_YV16
        then sf_write_buf d = WriteYuv \<and> even wh \<and> 2 * wh = 4 * n
          \<and> two_of (4 * n) (sf_yuv_image d) \<and> two_of (3 * wh) (sf_rgb_image d)
        else (mode = SL_GREY \<or> mode = SL_RGB32) \<and> sf_write_buf d = WriteRgb \<and> two_of (4 * n) (sf_rgb_image d))
     \<and> sf_mem_size d = int (4 * n) \<and> 4 * n < 2 ^ 31 \<and> sf_buf_idx d < 2 \<and> 0 < n"

lemma two_of_nth: "two_of n bs \<Longrightarrow> i < 2 \<Longrightarrow> length (bs ! i) = n"
  by (simp add: two_of_def)

lemma two_of_update: "two_of n bs \<Longrightarrow> length b = n \<Longrightarrow> two_of n (bs[i := b])"
  by (auto simp: two_of_def dest: set_update_subset_insert [THEN subsetD])

lemma sl_ok_bufs:
  assumes "sl_ok mode wh n d"
  shows "two_of (4 * n) (sl_write_bufs d)"
  using assms by (auto simp: sl_ok_def sl_write_bufs_def split: if_splits)

lemma sl_ok_put:
  assumes "sl_ok mode wh n d" "length b = 4 * n"
  shows "sl_ok mode wh n (sl_put_buf b d) \<and> sl_write_bufs (sl_put_buf b d) = (sl_write_bufs d)[sf_buf_idx d := b]
    \<and> sf_buf_idx (sl_put_buf b d) = sf_buf_idx d"
  using assms by (auto simp: sl_ok_def sl_write_bufs_def sl_put_buf_def two_of_update split: if_splits)

lemma sl_display_ok:
  assumes "sl_ok mode wh n d"
  shows "\<exists>d'. sl_display d = Inr (d', [SlShow]) \<and> sl_ok mode wh n d'
    \<and> sl_write_bufs d' = sl_write_bufs d \<and> sf_buf_idx d' = (sf_buf_idx d + 1) mod 2
    \<and> sf_rgb_image d' ! sf_buf_idx d = sl_conv mode wh (sl_cur d)"
proof (cases "mode = SL_YV16")
  case True
  with assms have m: "sf_mode d = SL_YV16" "nat (sf_width d * sf_height d) = wh" "even wh" "2 * wh = 4 * n"
    "sf_write_buf d = WriteYuv" "two_of (4 * n) (sf_yuv_image d)" "two_of (3 * wh) (sf_rgb_image d)" "sf_buf_idx d < 2"
    by (auto simp: sl_ok_def)
  have c: "convert_frame_yv16 d = Inr (d\<lparr>sf_rgb_image := (sf_rgb_image d)
      [sf_buf_idx d := yv16_picture wh (sf_yuv_image d ! sf_buf_idx d)]\<rparr>)"
    using m two_of_nth [OF m(6,8)] two_of_nth [OF m(7,8)] by (intro convert_frame_ok) (auto simp: two_of_def)
  have l: "length (yv16_picture wh (sf_yuv_image d ! sf_buf_idx d)) = 3 * wh" by (simp add: yv16_picture_def)
  have i: "sf_buf_idx d < length (sf_rgb_image d)" using m(7,8) by (simp add: two_of_def)
  show ?thesis
    using assms True c m(1,5) i two_of_update [OF m(7) l, of "sf_buf_idx d"]
    by (simp add: sl_display_def sl_ok_def sl_write_bufs_def sl_conv_def sl_cur_def)
next
  case False
  then show ?thesis using assms
    by (auto simp: sl_display_def sl_ok_def sl_write_bufs_def sl_conv_def sl_cur_def)
qed


lemma sl_write_word:
  assumes "register_access k v = (ofs, be, data)" "sl_ok mode wh n d" "k < n"
  shows "sl_fb_write d ofs be data = bindr (if k = 0 then sl_display d else Inr (d, [])) (\<lambda>(d, es).
      bindr (rd (sl_write_bufs d) (sf_buf_idx d)) (\<lambda>buf.
      bindr (merge_word buf k (lane_be be) v) (\<lambda>buf. Inr (sl_put_buf buf d, es))))"
proof -
  from assms(2) have sz: "sf_mem_size d = int (4 * n)" and l: "4 * n < 2 ^ 31" by (auto simp: sl_ok_def)
  have l': "4 * k < 2 ^ 32" using l assms(3) by simp
  note dec = register_access_decoded [OF assms(1) l']
  have u: "unat (reg_index ofs be) = k" unfolding dec(1) using l' by (simp add: unat_of_nat)
  have "of_int (sf_mem_size d div 4) = (of_nat n :: u32)" unfolding sz by simp
  moreover have "unat (of_nat n :: u32) = n" using l by (simp add: unat_of_nat)
  ultimately have b: "\<not> reg_index ofs be > of_int (sf_mem_size d div 4)"
    unfolding word_less_nat_alt u using assms(3) by simp
  have z: "ofs = 0 \<and> be AND 1 \<noteq> 0 \<longleftrightarrow> k = 0"
  proof
    assume o: "ofs = 0 \<and> be AND 1 \<noteq> 0"
    then have "even k" using dec(4) by simp
    moreover have "ofs = of_nat (8 * (k div 2))" using assms(1) by (auto simp: register_access_def)
    then have "unat ofs = 8 * (k div 2)" using l' by (simp add: unat_of_nat del: of_nat_mult)
    ultimately show "k = 0" using o by auto
  next
    assume "k = 0"
    then show "ofs = 0 \<and> be AND 1 \<noteq> 0" using assms(1) by (auto simp: register_access_def)
  qed
  show ?thesis unfolding sl_fb_write_def Let_def if_not_P [OF b] z u dec(3) by simp
qed

lemma sl_put_word:
  assumes "sl_ok mode wh n d" "k < n" "lane_be be = 0x0F"
  shows "bindr (rd (sl_write_bufs d) (sf_buf_idx d)) (\<lambda>buf.
      bindr (merge_word buf k (lane_be be) v) (\<lambda>buf. Inr (sl_put_buf buf d, es)))
    = Inr (sl_put_buf (put_bytes (sl_cur d) (4 * k) (bytes32 v)) d, es)"
    and "length (put_bytes (sl_cur d) (4 * k) (bytes32 v)) = 4 * n"
proof -
  have i: "sf_buf_idx d < 2" using assms(1) by (simp add: sl_ok_def)
  have l: "length (sl_cur d) = 4 * n" "sf_buf_idx d < length (sl_write_bufs d)"
    using two_of_nth [OF sl_ok_bufs [OF assms(1)] i] sl_ok_bufs [OF assms(1)] i by (simp_all add: sl_cur_def two_of_def)
  show "length (put_bytes (sl_cur d) (4 * k) (bytes32 v)) = 4 * n" using l assms(2) by simp
  have "4 * k + 4 \<le> length (sl_cur d)" using l assms(2) by simp
  from merge_word_full [OF assms(3) this, of v] l(2)
  show "bindr (rd (sl_write_bufs d) (sf_buf_idx d)) (\<lambda>buf.
      bindr (merge_word buf k (lane_be be) v) (\<lambda>buf. Inr (sl_put_buf buf d, es)))
    = Inr (sl_put_buf (put_bytes (sl_cur d) (4 * k) (bytes32 v)) d, es)"
    by (simp add: sl_cur_def)
qed

lemma sl_store_first:
  assumes v: "sl_ok mode wh n d"
  shows "\<exists>d'. sl_store d 0 v = Inr (d', [sl_conv mode wh (sl_cur d)]) \<and> sl_ok mode wh n d'
    \<and> sl_cur d' = put_bytes (sl_other d) 0 (bytes32 v) \<and> sl_other d' = sl_cur d"
proof -
  obtain ofs be data where r: "register_access 0 v = (ofs, be, data)" by (metis prod_cases3)
  have n: "0 < n" and i: "sf_buf_idx d = 0 \<or> sf_buf_idx d = 1" using v by (auto simp: sl_ok_def)
  note lb = register_access_decoded(2) [OF r, simplified]
  from sl_display_ok [OF v] obtain d1 where
    1: "sl_display d = Inr (d1, [SlShow])" "sl_ok mode wh n d1" "sl_write_bufs d1 = sl_write_bufs d"
      "sf_buf_idx d1 = (sf_buf_idx d + 1) mod 2" "sf_rgb_image d1 ! sf_buf_idx d = sl_conv mode wh (sl_cur d)"
    by blast
  define b where "b = put_bytes (sl_cur d1) (4 * 0) (bytes32 v)"
  note pw = sl_put_word(1) [OF 1(2) n lb, where v = v and es = "[SlShow]", folded b_def]
    sl_put_word(2) [OF 1(2) n lb, where v = v, folded b_def]
  note put = sl_ok_put [OF 1(2) pw(2)]
  have w: "sl_fb_write d ofs be data = Inr (sl_put_buf b d1, [SlShow])"
    unfolding sl_write_word [OF r v n] using 1(1) pw(1) by simp
  have tl: "length (sl_write_bufs d) = 2" using sl_ok_bufs [OF v] by (simp add: two_of_def)
  have rgb: "sf_rgb_image (sl_put_buf b d1) ! sf_buf_idx d = sf_rgb_image d1 ! sf_buf_idx d"
    using i 1(4) by (auto simp: sl_put_buf_def split: sl_target.splits)
  have "length (sf_rgb_image (sl_put_buf b d1)) = 2"
    using put by (auto simp: sl_ok_def two_of_def split: if_splits)
  with rgb i 1(4,5) put have "sl_store d 0 v = Inr (sl_put_buf b d1, [sl_conv mode wh (sl_cur d)])"
    unfolding sl_store_def r prod.case Let_def w by auto
  moreover have "sl_cur (sl_put_buf b d1) = put_bytes (sl_other d) 0 (bytes32 v)" "sl_other (sl_put_buf b d1) = sl_cur d"
    using put i 1(3,4) tl by (auto simp: sl_cur_def sl_other_def b_def)
  ultimately show ?thesis using put by blast
qed

lemma sl_store_next:
  assumes v: "sl_ok mode wh n d" and k: "0 < k" "k < n"
  shows "\<exists>d'. sl_store d k v = Inr (d', []) \<and> sl_ok mode wh n d'
    \<and> sl_cur d' = put_bytes (sl_cur d) (4 * k) (bytes32 v) \<and> sl_other d' = sl_other d"
proof -
  obtain ofs be data where r: "register_access k v = (ofs, be, data)" by (metis prod_cases3)
  have i: "sf_buf_idx d = 0 \<or> sf_buf_idx d = 1" and l: "4 * k < 2 ^ 32" using v k by (auto simp: sl_ok_def)
  note lb = register_access_decoded(2) [OF r l]
  define b where "b = put_bytes (sl_cur d) (4 * k) (bytes32 v)"
  note pw = sl_put_word(1) [OF v k(2) lb, where v = v and es = "[]", folded b_def]
    sl_put_word(2) [OF v k(2) lb, where v = v, folded b_def]
  note put = sl_ok_put [OF v pw(2)]
  have w: "sl_fb_write d ofs be data = Inr (sl_put_buf b d, [])"
    unfolding sl_write_word [OF r v k(2)] using k(1) pw(1) by simp
  have tl: "length (sl_write_bufs d) = 2" using sl_ok_bufs [OF v] by (simp add: two_of_def)
  have "sl_store d k v = Inr (sl_put_buf b d, [])"
    unfolding sl_store_def r prod.case Let_def w by simp
  moreover have "sl_cur (sl_put_buf b d) = b" "sl_other (sl_put_buf b d) = sl_other d"
    using put i tl by (auto simp: sl_cur_def sl_other_def)
  ultimately show ?thesis using put by (auto simp: b_def)
qed

lemma sl_sizes: "sl_ok mode wh n d \<Longrightarrow> length (sl_cur d) = 4 * n \<and> length (sl_other d) = 4 * n"
  using two_of_nth [OF sl_ok_bufs] by (auto simp: sl_cur_def sl_other_def sl_ok_def)

interpretation sl_frames: double_buffer sl_store sl_cur sl_other "sl_conv mode wh" "sl_ok mode wh (Suc n)" "Suc n"
  for mode wh n
  by unfold_locales (simp_all add: sl_sizes sl_store_first sl_store_next del: mult_Suc mult_Suc_right)

text \<open>
  Claim C15. A program that writes its frames word by word to the simple framebuffer has them shown in
  order: a series of frames shows what was there before, then every frame but the last. In the
  grey and the RGB mode a picture is the frame as written; in the planar YUV mode every pixel of it is
  the colour formula, rounded and clipped to a byte, of the pixel's luminance and the colours of its pair.
\<close>

theorem sl_frames_shown:
  assumes "sl_ok mode wh n d" "\<forall>f\<in>set fs. length f = n" "fs \<noteq> []"
  shows "\<exists>d'. store_frames sl_store d fs
    = Inr (d', map (sl_conv mode wh) (sl_cur d # map words_bytes (butlast fs)))"
proof -
  from assms(1) obtain m where n: "n = Suc m" by (cases n) (auto simp: sl_ok_def)
  from sl_frames.frames_shown [OF assms [unfolded n]] show ?thesis by blast
qed


text \<open>The constructor makes such a device.\<close>

lemma sl_new_fields:
  assumes "sl_fb_device_new shm_ok fresh junk nb_fb w h mode = Inr (d, nb')" "0 < 2 * w * h"
    and "mode = SL_GREY \<or> mode = SL_RGB32 \<or> mode = SL_YV16"
  shows "\<not> nb_fb \<ge> 10 \<and> shm_ok (of_int (sf_rgb_components d * h * w)) \<and> sf_mode d = mode \<and> sf_width d = w \<and> sf_height d = h
    \<and> sf_buf_idx d = 0
    \<and> sf_rgb_image d = replicate 2 (replicate (unat (of_int (sf_rgb_components d * h * w) :: u32)) 0)
    \<and> sf_rgb_components d = (if mode = SL_GREY then 1 else 3)
    \<and> (if mode = SL_YV16 then sf_write_buf d = WriteYuv \<and> sf_mem_size d = 2 * w * h
          \<and> sf_yuv_image d = replicate 2 (map fresh [0..<nat (2 * w * h)])
       else sf_write_buf d = WriteRgb \<and> sf_mem_size d = sf_rgb_components d * h * w)"
proof -
  note new = assms(1) [unfolded sl_fb_device_new_def sl_init_ramdac_def Let_def sl_mode_defs]
  consider "mode = 0" | "mode = 1" | "mode = 4" using assms(3) by (auto simp: sl_mode_defs)
  then show ?thesis
  proof cases
    case 1
    from new show ?thesis unfolding 1 by (simp add: sl_mode_defs numeral_2_eq_2 split: if_splits) auto
  next
    case 2
    from new show ?thesis unfolding 2 by (simp add: sl_mode_defs numeral_2_eq_2 split: if_splits) auto
  next
    case 3
    from new assms(2) show ?thesis unfolding 3 by (simp add: sl_mode_defs numeral_2_eq_2 split: if_splits) auto
  qed
qed

lemma sl_fb_device_new_ok:
  assumes "sl_fb_device_new shm_ok fresh junk nb_fb w h mode = Inr (d, nb')"
    and "0 \<le> w" "0 \<le> h" "nat (w * h) = wh" "0 < wh" "even wh" "6 * wh < 2 ^ 31"
    and "mode = SL_GREY \<and> wh = 4 * n \<or> mode = SL_RGB32 \<and> 3 * wh = 4 * n \<or> mode = SL_YV16 \<and> 2 * wh = 4 * n"
  shows "sl_ok mode wh n d"
proof -
  have "0 \<le> w * h" using assms(2,3) by simp
  then have wh: "w * h = int wh" using assms(4) by simp
  then have hw: "h * w = int wh" "3 * h * w = 3 * int wh" "2 * w * h = 2 * int wh" by (simp_all add: mult.commute)
  have u: "unat (of_nat m :: u32) = m" if "m \<le> 3 * wh" for m
    using that assms(7) by (simp add: unat_of_nat)
  define buf where "buf = replicate (if mode = SL_GREY then wh else 3 * wh) (0::u8)"
  have wpos: "0 < 2 * w * h" unfolding hw(3) using assms(5) by simp
  have s: "\<not> nb_fb \<ge> 10" "shm_ok (of_int (sf_rgb_components d * h * w))"
    "sf_mode d = mode" "sf_width d = w" "sf_height d = h" "sf_buf_idx d = 0"
    "sf_rgb_image d = replicate 2 (replicate (unat (of_int (sf_rgb_components d * h * w) :: u32)) 0)"
    "sf_rgb_components d = (if mode = SL_GREY then 1 else 3)"
    "mode = SL_YV16 \<longrightarrow> sf_write_buf d = WriteYuv \<and> sf_mem_size d = 2 * w * h"
    "mode = SL_YV16 \<and> 0 < 2 * w * h \<longrightarrow> sf_yuv_image d = replicate 2 (map fresh [0..<nat (2 * w * h)])"
    "mode \<noteq> SL_YV16 \<longrightarrow> sf_write_buf d = WriteRgb \<and> sf_mem_size d = sf_rgb_components d * h * w"
    using sl_new_fields [OF assms(1) wpos] assms(8) by (auto simp: sl_mode_defs)
  have c: "sf_rgb_components d * h * w = int (if mode = SL_GREY then wh else 3 * wh)" using s(8) hw by simp
  have rgb: "sf_rgb_image d = replicate 2 buf"
    using u [of "if mode = SL_GREY then wh else 3 * wh"] unfolding s(7) c of_int_of_nat_eq buf_def by simp
  have wr: "mode = SL_YV16 \<Longrightarrow> sf_write_buf d = WriteYuv" "mode \<noteq> SL_YV16 \<Longrightarrow> sf_write_buf d = WriteRgb"
    using s(9,11) by simp_all
  have mem: "sf_mem_size d = int (4 * n)" using assms(8) s(9,11) c hw(3) by (auto simp: sl_mode_defs)
  have y: "sf_yuv_image d = replicate 2 (map fresh [0..<4 * n])" if "mode = SL_YV16"
  proof -
    have n: "2 * int wh = int (4 * n)" using assms(8) that by (auto simp: sl_mode_defs)
    have "0 < int (4 * n)" using n assms(5) by simp
    then show ?thesis using s(10) that unfolding hw(3) n nat_int by simp
  qed
  have "nat (sf_width d * sf_height d) = wh" using s(4,5) wh by simp
  moreover have "0 < n \<and> 4 * n < 2 ^ 31" using assms(5,7,8) by auto
  ultimately show ?thesis
    using assms(6,8) s(3,6) wr mem y rgb unfolding sl_ok_def two_of_def buf_def
    by (elim disjE) (simp_all add: sl_mode_defs)
qed

text \<open>
  The conversion of a pixel is exact: no intermediate value leaves the 32 bits, so that the bytes are the
  formula of the comment above the code, each rounded down to an integer and clipped to
  the range of a byte.
\<close>

theorem yuv2rgb_exact:
  "yuv2rgb y u v =
    (let c = uint y - 16; d = uint u - 128; e = uint v - 128 in
     [of_int (max 0 (min 255 ((298 * c + 409 * e + 128) div 256))),
      of_int (max 0 (min 255 ((298 * c - 100 * d - 208 * e + 128) div 256))),
      of_int (max 0 (min 255 ((298 * c + 516 * d + 128) div 256)))])"
  by (simp only: yuv2rgb_spec yuv_spec_def clip8_def Let_def)

text \<open>The comparison of the register with the size lets through the word behind the frame.\<close>

lemma sl_store_behind:
  assumes "sl_ok mode wh n d" "register_access n v = (ofs, be, data)"
  shows "sl_fb_write d ofs be data = Inl OutOfBounds"
proof -
  from assms(1) have sz: "sf_mem_size d = int (4 * n)" and l: "4 * n < 2 ^ 31" and n: "0 < n" and i: "sf_buf_idx d < 2"
    by (auto simp: sl_ok_def)
  have l': "4 * n < 2 ^ 32" using l by simp
  note dec = register_access_decoded [OF assms(2) l']
  have u: "unat (reg_index ofs be) = n" unfolding dec(1) using l' by (simp add: unat_of_nat)
  have "of_int (sf_mem_size d div 4) = (of_nat n :: u32)" unfolding sz by simp
  moreover have "unat (of_nat n :: u32) = n" using l by (simp add: unat_of_nat)
  ultimately have b: "\<not> reg_index ofs be > of_int (sf_mem_size d div 4)"
    unfolding word_less_nat_alt u by simp
  have o: "unat ofs = 8 * (n div 2)"
    using assms(2) l' by (auto simp: register_access_def unat_of_nat simp del: of_nat_mult)
  have z: "\<not> (ofs = 0 \<and> be AND 1 \<noteq> 0)"
  proof
    assume "ofs = 0 \<and> be AND 1 \<noteq> 0"
    then have "n div 2 = 0" "even n" using o dec(4) by auto
    then show False using n by presburger
  qed
  have len: "length (sl_cur d) = 4 * n" using sl_sizes [OF assms(1)] by simp
  have "sf_buf_idx d < length (sl_write_bufs d)" using sl_ok_bufs [OF assms(1)] i by (simp add: two_of_def)
  then show ?thesis
    unfolding sl_fb_write_def Let_def if_not_P [OF b] if_not_P [OF z] u
    using merge_word_outside [of "sl_cur d" n] len by (simp add: sl_cur_def)
qed

definition small_sl_fb :: sl_fb_device where
  "small_sl_fb = \<lparr>sf_mode = SL_YV16, sf_width = 4, sf_height = 1, sf_rgb_components = 3, sf_rgb_size = 12,
     sf_rgb_image = [replicate 12 0, replicate 12 0], sf_yuv_size = 8,
     sf_yuv_image = [[16, 235, 81, 145, 128, 90, 128, 240], replicate 8 0], sf_buf_idx = 0,
     sf_write_buf = WriteYuv, sf_mem_size = 8\<rparr>"

theorem sl_frames_shown_witness:
  "\<exists>d'. store_frames sl_store small_sl_fb [[0xEBEB1010, 0x80808080], [0, 0]]
    = Inr (d', [[0, 0, 0, 255, 255, 255, 255, 0, 0, 255, 74, 74],
                [0, 0, 0, 0, 0, 0, 255, 255, 255, 255, 255, 255]])"
proof -
  have ok: "sl_ok SL_YV16 4 2 small_sl_fb" by (simp add: sl_ok_def small_sl_fb_def two_of_def)
  have c: "sl_cur small_sl_fb = [16, 235, 81, 145, 128, 90, 128, 240]"
    by (simp add: sl_cur_def small_sl_fb_def sl_write_bufs_def)
  have p: "yv16_picture 4 [16, 235, 81, 145, 128, 90, 128, 240] = [0, 0, 0, 255, 255, 255, 255, 0, 0, 255, 74, 74]"
    "yv16_picture 4 (bytes32 0xEBEB1010 @ bytes32 0x80808080) = [0, 0, 0, 0, 0, 0, 255, 255, 255, 255, 255, 255]"
    by code_simp+
  from sl_frames_shown [OF ok, of "[[0xEBEB1010, 0x80808080], [0, 0]]"] c p show ?thesis
    by (auto simp: sl_conv_def)
qed

end
