(* ===== verification/Dbf_Link.thy ===== *)
theory Dbf_Link
  imports Byte_Lanes
begin

text \<open>
  The memory of the deblocking filter (\<^verbatim>\<open>class dbf_device_link\<close> of
  \<^verbatim>\<open>dbf/dbf_device.cpp\<close> and \<^verbatim>\<open>dbf/fpga.h\<close>): the macroblocks of a picture and, above them,
  the registers, in one array of bytes. A store to a register has the effects of \<open>set_data\<close>.
\<close>

definition FPGA_CHAR_SIZE :: nat where "FPGA_CHAR_SIZE = 0x40000"
definition MB_BLOCK_SIZE :: int where "MB_BLOCK_SIZE = 0x200"
definition SLICE_OFFSET :: int where "SLICE_OFFSET = 0x10"
definition LUMA_OFFSET :: int where "LUMA_OFFSET = 0"
definition CHROMA_OFFSET :: int where "CHROMA_OFFSET = 0x100"
definition MVX_OFFSET :: int where "MVX_OFFSET = 0x180"
definition MVY_OFFSET :: int where "MVY_OFFSET = 0x1A0"
definition COEFF_OFFSET :: int where "COEFF_OFFSET = 0x1C0"
definition QUANT_OFFSET :: int where "QUANT_OFFSET = 0x1D0"
definition MODE_OFFSET :: int where "MODE_OFFSET = 0x1D2"

definition REG_GLO_CTRL :: int where "REG_GLO_CTRL = 0x34004"
definition REG_FRA_CTRL :: int where "REG_FRA_CTRL = 0x38004"
definition REG_FRA_SRAM :: int where "REG_FRA_SRAM = 0x38008"
definition REG_SLI_OFFSET :: int where "REG_SLI_OFFSET = 0x38010"
definition REG_SLI_LGTOFF :: int where "REG_SLI_LGTOFF = 0x38011"
definition REG_SLI_BETA :: int where "REG_SLI_BETA = 0x38016"
definition REG_SLI_ALPHA :: int where "REG_SLI_ALPHA = 0x38017"
definition REG_SLI_FILLOW :: int where "REG_SLI_FILLOW = 0x38018"
definition REG_SLI_EMPLOW :: int where "REG_SLI_EMPLOW = 0x3801A"
definition REG_SLI_EMPHI :: int where "REG_SLI_EMPHI = 0x3801B"
definition REG_SLI_CLEAR :: int where "REG_SLI_CLEAR = 0x3801C"
definition REG_NSLICES :: int where "REG_NSLICES = 0x39000"
definition REG_INT_ACK :: int where "REG_INT_ACK = 0x39004"
definition REG_INT_STATUS :: int where "REG_INT_STATUS = 0x39008"
definition REG_INT_ENABLE :: int where "REG_INT_ENABLE = 0x3900C"
definition REG_SRAM_ADDRESS :: int where "REG_SRAM_ADDRESS = 0x39010"
definition REG_INC_ADDRESS :: int where "REG_INC_ADDRESS = 0x39014"
definition REG_NSLICES_INTR :: int where "REG_NSLICES_INTR = 0x39018"

definition N_SLICE_THREADS :: nat where "N_SLICE_THREADS = 4"
definition REG_STATUS_BIT_ALLSLICES :: nat where "REG_STATUS_BIT_ALLSLICES = N_SLICE_THREADS"
definition REG_STATUS_BIT_SRAM :: nat where "REG_STATUS_BIT_SRAM = N_SLICE_THREADS + 1"

lemmas dbf_offsets = MB_BLOCK_SIZE_def SLICE_OFFSET_def LUMA_OFFSET_def CHROMA_OFFSET_def MVX_OFFSET_def
  MVY_OFFSET_def COEFF_OFFSET_def QUANT_OFFSET_def MODE_OFFSET_def
lemmas dbf_regs = REG_GLO_CTRL_def REG_FRA_CTRL_def REG_FRA_SRAM_def REG_SLI_OFFSET_def REG_SLI_LGTOFF_def
  REG_SLI_BETA_def REG_SLI_ALPHA_def REG_SLI_FILLOW_def REG_SLI_EMPLOW_def REG_SLI_EMPHI_def REG_SLI_CLEAR_def
  REG_NSLICES_def REG_INT_ACK_def REG_INT_STATUS_def REG_INT_ENABLE_def REG_SRAM_ADDRESS_def REG_INC_ADDRESS_def
  REG_NSLICES_INTR_def SLICE_OFFSET_def
lemmas dbf_counts = N_SLICE_THREADS_def REG_STATUS_BIT_ALLSLICES_def REG_STATUS_BIT_SRAM_def

text \<open>
  \<open>dl_data\<close> is \<open>m_data\<close>; \<open>dl_irq_stat\<close> is the device's \<open>m_irq_stat\<close>, which the link sets
  through a pointer. Addresses are \<^verbatim>\<open>int\<close> expressions, converted to \<^verbatim>\<open>unsigned long\<close> by the call.
\<close>

record dbf_link =
  dl_data :: "u8 list"
  dl_irq_stat :: u32

datatype dbf_event = DbfIrqUpdate | DbfSlice nat | DbfSendSram | DbfResponse

definition dbf_link_init :: "dbf_link \<Rightarrow> dbf_link" where
  "dbf_link_init l = l\<lparr>dl_data := (replicate FPGA_CHAR_SIZE 0)
     [nat REG_NSLICES := of_nat N_SLICE_THREADS, nat REG_INT_ENABLE := 0]\<rparr>"

definition get_data :: "dbf_link \<Rightarrow> int \<Rightarrow> u8 res" where
  "get_data l address =
     (let a = unat (of_int address :: ulong) in
      if a > FPGA_CHAR_SIZE then Inl (Exit (- 1)) else rd (dl_data l) a)"

text \<open>A direct \<open>m_data[a]\<close>.\<close>

definition raw_get :: "dbf_link \<Rightarrow> int \<Rightarrow> u8 res" where
  "raw_get l a = (if a < 0 then Inl OutOfBounds else rd (dl_data l) (nat a))"

definition raw_set :: "dbf_link \<Rightarrow> int \<Rightarrow> u8 \<Rightarrow> dbf_link res" where
  "raw_set l a v = (if a < 0 then Inl OutOfBounds
     else bindr (wr (dl_data l) (nat a) v) (\<lambda>d. Inr (l\<lparr>dl_data := d\<rparr>)))"

definition clear_byte :: "int \<Rightarrow> u8" where
  "clear_byte reg_addr = (if reg_addr mod MB_BLOCK_SIZE = QUANT_OFFSET \<or> reg_addr mod MB_BLOCK_SIZE = QUANT_OFFSET + 1
     then 0xFF else 0)"

text \<open>Offset and length of a slice, from their registers: the same lines in \<open>clear_slice\<close> and the getters.\<close>

definition slice_offset_of :: "u8 \<Rightarrow> u8 \<Rightarrow> u16" where
  "slice_offset_of lgtoff ofs = push_bit 8 (ucast lgtoff AND 0xF) + (ucast ofs AND 0xFF)"

definition slice_length_of :: "u8 \<Rightarrow> u8 \<Rightarrow> u16" where
  "slice_length_of lgtoff len = push_bit 4 (ucast len) + drop_bit 4 (ucast lgtoff AND 0xF0)"

definition clear_slice :: "dbf_link \<Rightarrow> int \<Rightarrow> dbf_link res" where
  "clear_slice l n =
     bindr (raw_get l (SLICE_OFFSET * n + REG_SLI_LGTOFF)) (\<lambda>lgtoff.
     bindr (raw_get l (SLICE_OFFSET * n + REG_SLI_OFFSET)) (\<lambda>ofs.
     bindr (raw_get l (SLICE_OFFSET * n + REG_SLI_LGTOFF + 1)) (\<lambda>len.
     let offset = uint (slice_offset_of lgtoff ofs); count = uint (slice_length_of lgtoff len) in
     for_each (\<lambda>a l. raw_set l a (clear_byte a)) [offset * MB_BLOCK_SIZE..(offset + count) * MB_BLOCK_SIZE - 1] l)))"

text \<open>The case \<open>REG_INT_ENABLE\<close> of \<open>set_data\<close>.\<close>

definition set_int_enable_reg :: "dbf_link \<Rightarrow> u8 \<Rightarrow> (dbf_link \<times> dbf_event list) res" where
  "set_int_enable_reg l data =
     bindr (raw_get l REG_INT_STATUS) (\<lambda>status.
     bindr (raw_get l REG_INT_ENABLE) (\<lambda>enable.
     let data = data AND 0x7F;
         (l, es) = (if status AND enable = 0 \<and> status AND data \<noteq> 0 then (l\<lparr>dl_irq_stat := 1\<rparr>, [DbfIrqUpdate])
                    else if status AND enable \<noteq> 0 \<and> status AND data = 0 then (l\<lparr>dl_irq_stat := 0\<rparr>, [DbfIrqUpdate])
                    else (l, []))
     in bindr (raw_set l REG_INT_ENABLE data) (\<lambda>l. Inr (l, es))))"

text \<open>The case \<open>REG_INT_ACK\<close>.\<close>

definition ack_int :: "dbf_link \<Rightarrow> u8 \<Rightarrow> (dbf_link \<times> dbf_event list) res" where
  "ack_int l data =
     bindr (raw_get l REG_INT_STATUS) (\<lambda>status.
     bindr (raw_get l REG_INT_ENABLE) (\<lambda>enable.
     if data AND status AND enable \<noteq> 0 then
       let status = status AND (NOT data OR 0x80);
           status = (if status = 0x80 then 0 else status)
       in bindr (raw_set l REG_INT_STATUS status) (\<lambda>l.
          if status AND enable = 0 then Inr (l\<lparr>dl_irq_stat := 0\<rparr>, [DbfIrqUpdate]) else Inr (l, []))
     else Inr (l, [])))"

definition slice_of_reg :: "int \<Rightarrow> int \<Rightarrow> nat option" where
  "slice_of_reg address reg = find (\<lambda>i. address = reg + SLICE_OFFSET * int i) [0..<N_SLICE_THREADS]"

definition set_data :: "dbf_link \<Rightarrow> int \<Rightarrow> u8 \<Rightarrow> (dbf_link \<times> dbf_event list) res" where
  "set_data l address data =
     (let a = uint (of_int address :: ulong) in
      if a > int FPGA_CHAR_SIZE then Inl (Exit (- 1))
      else if a = REG_INT_STATUS \<or> a = REG_NSLICES then Inr (l, [])
      else if a = REG_INT_ENABLE then set_int_enable_reg l data
      else
        bindr (raw_set l a data) (\<lambda>l.
        if a = REG_INT_ACK then ack_int l data
        else case slice_of_reg a REG_SLI_FILLOW of
          Some i \<Rightarrow> Inr (l, [DbfSlice i])
        | None \<Rightarrow>
          (case slice_of_reg a REG_SLI_CLEAR of
             Some i \<Rightarrow> bindr (clear_slice l (int i)) (\<lambda>l. bindr (raw_set l a 0) (\<lambda>l. Inr (l, [])))
           | None \<Rightarrow> Inr (l, if a = REG_FRA_SRAM \<and> data = 1 then [DbfSendSram] else []))))"


subsection \<open>Accesses below the registers\<close>

definition dl_sized :: "dbf_link \<Rightarrow> bool" where
  "dl_sized l \<longleftrightarrow> length (dl_data l) = FPGA_CHAR_SIZE"

text \<open>The addresses of the picture: those below the first register.\<close>

definition in_frame :: "int \<Rightarrow> bool" where
  "in_frame a \<longleftrightarrow> 0 \<le> a \<and> a < 0x34000"

lemma uint_address: "0 \<le> a \<Longrightarrow> a < 2 ^ 32 \<Longrightarrow> uint (of_int a :: ulong) = a"
  by (simp add: uint_word_of_int_eq take_bit_int_eq_self)

lemma get_data_ok:
  assumes "dl_sized l" "0 \<le> a" "a < 0x40000"
  shows "get_data l a = Inr (dl_data l ! nat a)"
proof -
  have "unat (of_int a :: ulong) = nat a" using uint_address [of a] nat_uint_eq [of "of_int a :: ulong"] assms(2,3) by simp
  then show ?thesis using assms by (simp add: get_data_def Let_def dl_sized_def FPGA_CHAR_SIZE_def)
qed

lemma raw_get_ok: "dl_sized l \<Longrightarrow> 0 \<le> a \<Longrightarrow> a < 0x40000 \<Longrightarrow> raw_get l a = Inr (dl_data l ! nat a)"
  by (simp add: raw_get_def dl_sized_def FPGA_CHAR_SIZE_def)

lemma raw_set_ok:
  "dl_sized l \<Longrightarrow> 0 \<le> a \<Longrightarrow> a < 0x40000 \<Longrightarrow> raw_set l a v = Inr (l\<lparr>dl_data := (dl_data l)[nat a := v]\<rparr>)"
  by (simp add: raw_set_def dl_sized_def FPGA_CHAR_SIZE_def)

lemma dl_sized_update [simp]: "dl_sized (l\<lparr>dl_data := (dl_data l)[i := v]\<rparr>) = dl_sized l"
  "dl_sized (l\<lparr>dl_irq_stat := x\<rparr>) = dl_sized l"
  by (simp_all add: dl_sized_def)

lemma slice_of_reg_None: "a < reg \<Longrightarrow> slice_of_reg a reg = None"
  by (auto simp: slice_of_reg_def find_None_iff SLICE_OFFSET_def)

lemma set_data_frame:
  assumes "dl_sized l" "in_frame a"
  shows "set_data l a v = Inr (l\<lparr>dl_data := (dl_data l)[nat a := v]\<rparr>, [])"
  using assms uint_address [of a]
  by (simp add: set_data_def Let_def in_frame_def dbf_regs raw_set_ok slice_of_reg_None FPGA_CHAR_SIZE_def)

end
