(* ===== verification/Dbf_Filter.thy ===== *)
theory Dbf_Filter
  imports Dbf_Link
begin

text \<open>
  The filter itself (\<^verbatim>\<open>dbf/dbf_device.cpp\<close> from \<open>get_bS\<close> to \<open>get_nbslices\<close> and
  \<open>filter_slice\<close>): where the samples and parameters of a macroblock are, the strength of an
  edge, the arithmetic on the eight samples around an edge, and the passes over a slice. Integers
  are exact (C++ leaves the overflow of \<^verbatim>\<open>int\<close> undefined); \<open>sdiv\<close> and \<open>smod\<close> are its \<open>/\<close> and
  \<open>%\<close>. \<open>w\<close> is the static \<open>PicWidthInMbs\<close>, set at the start of \<open>filter_slice\<close>.
\<close>

subsection \<open>Tables\<close>

text \<open>
  The tables are arrays of \<^verbatim>\<open>char\<close>, which is signed on the host: the entries above 127 are
  negative numbers when they are read.
\<close>

definition alpha_t :: "u8 list" where
  "alpha_t = [0, 0, 0, 0, 0, 0, 0, 0, 0, 0, 0, 0, 0, 0, 0, 0,
     4, 4, 5, 6, 7, 8, 9, 10, 12, 13, 15, 17, 20, 22, 25, 28,
     32, 36, 40, 45, 50, 56, 63, 71, 80, 90, 101, 113, 127, 144, 162, 182,
     203, 226, 255, 255]"

definition beta_t :: "u8 list" where
  "beta_t = [0, 0, 0, 0, 0, 0, 0, 0, 0, 0, 0, 0, 0, 0, 0, 0,
     2, 2, 2, 3, 3, 3, 3, 4, 4, 4, 6, 6, 7, 7, 8, 8,
     9, 9, 10, 10, 11, 11, 12, 12, 13, 13, 14, 14, 15, 15, 16, 16,
     17, 17, 18, 18]"

definition tc0_t :: "u8 list list" where
  "tc0_t = [
    [0, 0, 0, 0, 0, 0, 0, 0, 0, 0, 0, 0, 0, 0, 0, 0,
     0, 0, 0, 0, 0, 0, 0, 1, 1, 1, 1, 1, 1, 1, 1, 1,
     1, 2, 2, 2, 2, 3, 3, 3, 4, 4, 4, 5, 6, 6, 7, 8,
     9, 10, 11, 13],
    [0, 0, 0, 0, 0, 0, 0, 0, 0, 0, 0, 0, 0, 0, 0, 0,
     0, 0, 0, 0, 0, 1, 1, 1, 1, 1, 1, 1, 1, 1, 1, 2,
     2, 2, 2, 3, 3, 3, 4, 4, 5, 5, 6, 7, 8, 8, 10, 11,
     12, 13, 15, 17],
    [0, 0, 0, 0, 0, 0, 0, 0, 0, 0, 0, 0, 0, 0, 0, 0,
     0, 1, 1, 1, 1, 1, 1, 1, 1, 1, 1, 2, 2, 2, 2, 3,
     3, 3, 4, 4, 4, 5, 6, 6, 7, 8, 9, 10, 11, 13, 14, 16,
     18, 20, 23, 25]]"

definition char_at :: "u8 list \<Rightarrow> int \<Rightarrow> int res" where
  "char_at t i = (if i < 0 then Inl OutOfBounds else bindr (rd t (nat i)) (\<lambda>b. Inr (sint b)))"

subsection \<open>Registers and parameters\<close>

definition MbWidth :: int where "MbWidth = 16"

definition get_format :: "dbf_link \<Rightarrow> u8 res" where
  "get_format l = bindr (get_data l REG_GLO_CTRL) (\<lambda>r. Inr (drop_bit 4 (r AND 0x30)))"

definition get_nbslices :: "dbf_link \<Rightarrow> u8 res" where
  "get_nbslices l = bindr (get_data l REG_FRA_CTRL) (\<lambda>r. Inr (r AND 0x0F))"

definition get_PicWidthInMbs :: "dbf_link \<Rightarrow> int res" where
  "get_PicWidthInMbs l = bindr (get_format l) (\<lambda>f.
     Inr (if f = 0 then 128 div MbWidth else if f = 1 then 176 div MbWidth
          else if f = 2 then 352 div MbWidth else if f = 3 then 704 div MbWidth else 0))"

definition get_PicHeightInMbs :: "dbf_link \<Rightarrow> int res" where
  "get_PicHeightInMbs l = bindr (get_format l) (\<lambda>f.
     Inr (if f = 0 then 96 div MbWidth else if f = 1 then 144 div MbWidth
          else if f = 2 then 288 div MbWidth else if f = 3 then 576 div MbWidth else 0))"

definition get_Offset :: "dbf_link \<Rightarrow> int \<Rightarrow> u16 res" where
  "get_Offset l n =
     bindr (get_data l (SLICE_OFFSET * n + REG_SLI_LGTOFF)) (\<lambda>lgtoff.
     bindr (get_data l (SLICE_OFFSET * n + REG_SLI_OFFSET)) (\<lambda>ofs. Inr (slice_offset_of lgtoff ofs)))"

definition get_sliceLength :: "dbf_link \<Rightarrow> int \<Rightarrow> u16 res" where
  "get_sliceLength l n =
     bindr (get_data l (SLICE_OFFSET * n + REG_SLI_LGTOFF + 1)) (\<lambda>len.
     bindr (get_data l (SLICE_OFFSET * n + REG_SLI_LGTOFF)) (\<lambda>lgtoff. Inr (slice_length_of lgtoff len)))"

definition get_alpha :: "dbf_link \<Rightarrow> int \<Rightarrow> u8 res" where
  "get_alpha l n = get_data l (SLICE_OFFSET * n + REG_SLI_ALPHA)"

definition get_beta :: "dbf_link \<Rightarrow> int \<Rightarrow> u8 res" where
  "get_beta l n = get_data l (SLICE_OFFSET * n + REG_SLI_BETA)"

text \<open>The address of a luminance sample and of a colour sample; \<open>pix_y * MbWidth / 2\<close> is unsigned.\<close>

definition L_addr :: "int \<Rightarrow> int \<Rightarrow> int \<Rightarrow> int" where
  "L_addr w x y =
     (let mb_pos = (y sdiv 16) * w + x sdiv 16; pix_pos = (y smod 16) * MbWidth + x smod 16
      in MB_BLOCK_SIZE * mb_pos + pix_pos + LUMA_OFFSET)"

definition C_addr :: "int \<Rightarrow> int \<Rightarrow> int \<Rightarrow> int \<Rightarrow> int" where
  "C_addr w iCbCr x y =
     (let mb_pos = (y sdiv 8) * w + x sdiv 8;
          pix_pos = uint ((of_int ((y smod 8) * MbWidth) :: u32) div 2) + x smod 8
      in MB_BLOCK_SIZE * mb_pos + CHROMA_OFFSET + 64 * iCbCr + pix_pos)"

definition get_L_pixel :: "int \<Rightarrow> dbf_link \<Rightarrow> int \<Rightarrow> int \<Rightarrow> u8 res" where
  "get_L_pixel w l x y = get_data l (L_addr w x y)"

definition set_L_pixel :: "int \<Rightarrow> dbf_link \<Rightarrow> int \<Rightarrow> int \<Rightarrow> u8 \<Rightarrow> (dbf_link \<times> dbf_event list) res" where
  "set_L_pixel w l x y v = set_data l (L_addr w x y) v"

definition get_C_pixel :: "int \<Rightarrow> dbf_link \<Rightarrow> int \<Rightarrow> int \<Rightarrow> int \<Rightarrow> u8 res" where
  "get_C_pixel w l iCbCr x y = get_data l (C_addr w iCbCr x y)"

definition set_C_pixel :: "int \<Rightarrow> dbf_link \<Rightarrow> int \<Rightarrow> int \<Rightarrow> int \<Rightarrow> u8 \<Rightarrow> (dbf_link \<times> dbf_event list) res" where
  "set_C_pixel w l iCbCr x y v = set_data l (C_addr w iCbCr x y) v"

definition get_QP :: "int \<Rightarrow> dbf_link \<Rightarrow> int \<Rightarrow> int \<Rightarrow> bool \<Rightarrow> int res" where
  "get_QP w l x y qp_c =
     bindr (get_data l (MB_BLOCK_SIZE * (y * w + x) + QUANT_OFFSET + (if qp_c then 1 else 0))) (\<lambda>b. Inr (sint b))"

definition get_mode :: "int \<Rightarrow> dbf_link \<Rightarrow> int \<Rightarrow> int \<Rightarrow> u8 res" where
  "get_mode w l x y = get_data l (MB_BLOCK_SIZE * (drop_bit 4 y * w + drop_bit 4 x) + MODE_OFFSET)"

text \<open>The 4x4 block at \<open>(x, y)\<close>: its macroblock and its number in it.\<close>

definition mb_of_4x4 :: "int \<Rightarrow> int \<Rightarrow> int \<Rightarrow> int" where
  "mb_of_4x4 w x y = (y sdiv 4) * w + x sdiv 4"

definition pos_4x4 :: "int \<Rightarrow> int \<Rightarrow> int" where
  "pos_4x4 x y = (y - (y sdiv 4) * 4) * 4 + (x - (x sdiv 4) * 4)"

definition get_TotalCoeffL :: "int \<Rightarrow> dbf_link \<Rightarrow> int \<Rightarrow> int \<Rightarrow> u8 res" where
  "get_TotalCoeffL w l x y = get_data l (MB_BLOCK_SIZE * mb_of_4x4 w x y + COEFF_OFFSET + pos_4x4 x y)"

definition short_of :: "u8 \<Rightarrow> u8 \<Rightarrow> int" where
  "short_of hi lo = sint (push_bit 8 (ucast hi) + ucast lo :: 16 word)"

definition get_MV :: "int \<Rightarrow> int \<Rightarrow> dbf_link \<Rightarrow> int \<Rightarrow> int \<Rightarrow> int res" where
  "get_MV offset w l x y =
     (let reg_addr = MB_BLOCK_SIZE * mb_of_4x4 w x y + offset + pos_4x4 x y * 2 in
      bindr (get_data l (reg_addr + 1)) (\<lambda>c1. bindr (get_data l reg_addr) (\<lambda>c2. Inr (short_of c1 c2))))"

definition get_MVx :: "int \<Rightarrow> dbf_link \<Rightarrow> int \<Rightarrow> int \<Rightarrow> int res" where
  "get_MVx w l x y = get_MV MVX_OFFSET w l x y"

definition get_MVy :: "int \<Rightarrow> dbf_link \<Rightarrow> int \<Rightarrow> int \<Rightarrow> int res" where
  "get_MVy w l x y = get_MV MVY_OFFSET w l x y"


subsection \<open>The strength of an edge\<close>

definition IsIntra :: "u8 \<Rightarrow> bool" where
  "IsIntra m \<longleftrightarrow> 5 \<le> m \<and> m \<le> 30"

text \<open>\<open>||\<close> and \<open>&&\<close> look at their second operand, and so at its data, only when needed.\<close>

definition or_else :: "bool \<Rightarrow> bool res \<Rightarrow> bool res" where
  "or_else b r = (if b then Inr True else r)"

definition get_bS :: "int \<Rightarrow> dbf_link \<Rightarrow> int \<Rightarrow> int \<Rightarrow> int \<Rightarrow> int \<Rightarrow> int res" where
  "get_bS w l qx qy px py =
     bindr (if qx smod 16 = 0
            then bindr (get_mode w l qx qy) (\<lambda>mq.
                 or_else (IsIntra mq) (bindr (get_mode w l px py) (\<lambda>mp. Inr (IsIntra mp))))
            else Inr False) (\<lambda>strong.
     if strong then Inr 4
     else
       bindr (get_mode w l qx qy) (\<lambda>mq.
       if IsIntra mq then Inr 3
       else
         bindr (get_TotalCoeffL w l (drop_bit 2 qx) (drop_bit 2 qy)) (\<lambda>cq.
         bindr (or_else (cq \<noteq> 0)
           (bindr (get_TotalCoeffL w l (drop_bit 2 px) (drop_bit 2 py)) (\<lambda>cp. Inr (cp \<noteq> 0)))) (\<lambda>coeffs.
         if coeffs then Inr 2
         else
           bindr (get_MVx w l (drop_bit 2 qx) (drop_bit 2 qy)) (\<lambda>xq.
           bindr (get_MVx w l (drop_bit 2 px) (drop_bit 2 py)) (\<lambda>xp.
           bindr (or_else (\<bar>xq - xp\<bar> > 4)
             (bindr (get_MVy w l (drop_bit 2 qx) (drop_bit 2 qy)) (\<lambda>yq.
              bindr (get_MVy w l (drop_bit 2 px) (drop_bit 2 py)) (\<lambda>yp. Inr (\<bar>yq - yp\<bar> > 4))))) (\<lambda>moved.
           Inr (if moved then 1 else 0))))))))"

subsection \<open>The arithmetic on the samples around an edge\<close>

record s_qp =
  qp_p :: "u8 list"
  qp_q :: "u8 list"

definition CustomClip :: "int \<Rightarrow> int \<Rightarrow> int \<Rightarrow> int" where
  "CustomClip i lo hi = (if i < lo then lo else if i > hi then hi else i)"

definition Clip :: "int \<Rightarrow> int" where
  "Clip i = CustomClip i 0 255"

definition P_at :: "s_qp \<Rightarrow> nat \<Rightarrow> int" where
  "P_at qp i = uint (qp_p qp ! i)"

definition Q_at :: "s_qp \<Rightarrow> nat \<Rightarrow> int" where
  "Q_at qp i = uint (qp_q qp ! i)"

definition filterSampleFlag :: "int \<Rightarrow> int \<Rightarrow> int \<Rightarrow> s_qp \<Rightarrow> bool" where
  "filterSampleFlag bS alpha beta qp \<longleftrightarrow> bS \<noteq> 0 \<and> \<bar>P_at qp 0 - Q_at qp 0\<bar> < alpha
     \<and> \<bar>P_at qp 1 - P_at qp 0\<bar> < beta \<and> \<bar>Q_at qp 1 - Q_at qp 0\<bar> < beta"

text \<open>The branch for a strength below 4. An assignment to a sample keeps the low byte.\<close>

definition filter_normal :: "bool \<Rightarrow> int \<Rightarrow> int \<Rightarrow> s_qp \<Rightarrow> s_qp" where
  "filter_normal chroma beta tc0 qp =
     (let p = P_at qp; q = Q_at qp;
          Ap = \<bar>p 2 - p 0\<bar>; Aq = \<bar>q 2 - q 0\<bar>;
          tc = (if \<not> chroma then tc0 + (if Ap < beta then 1 else 0) + (if Aq < beta then 1 else 0) else tc0 + 1);
          delta = CustomClip (drop_bit 3 (((q 0 - p 0) * 4) + (p 1 - q 1) + 4)) (- tc) tc;
          rp = (qp_p qp)[0 := of_int (Clip (p 0 + delta))];
          rq = (qp_q qp)[0 := of_int (Clip (q 0 - delta))];
          rp = (if Ap < beta \<and> \<not> chroma
                then rp[1 := of_int (uint (rp ! 1) + CustomClip (drop_bit 1 (p 2 + drop_bit 1 (p 0 + q 0 + 1) - p 1 * 2)) (- tc0) tc0)]
                else rp);
          rq = (if Aq < beta \<and> \<not> chroma
                then rq[1 := of_int (uint (rq ! 1) + CustomClip (drop_bit 1 (q 2 + drop_bit 1 (p 0 + q 0 + 1) - q 1 * 2)) (- tc0) tc0)]
                else rq)
      in \<lparr>qp_p = rp, qp_q = rq\<rparr>)"

text \<open>The branch for strength 4.\<close>

definition filter_strong :: "bool \<Rightarrow> int \<Rightarrow> int \<Rightarrow> s_qp \<Rightarrow> s_qp" where
  "filter_strong chroma alpha beta qp =
     (let p = P_at qp; q = Q_at qp;
          Ap = \<bar>p 2 - p 0\<bar>; Aq = \<bar>q 2 - q 0\<bar>;
          close = \<bar>p 0 - q 0\<bar> < drop_bit 2 alpha + 2;
          rp = (if \<not> chroma \<and> Ap < beta \<and> close
                then (qp_p qp)[0 := of_int (drop_bit 3 (p 2 + 2 * p 1 + 2 * p 0 + 2 * q 0 + q 1 + 4)),
                               1 := of_int (drop_bit 2 (p 2 + p 1 + p 0 + q 0 + 2)),
                               2 := of_int (drop_bit 3 (2 * p 3 + 3 * p 2 + p 1 + p 0 + q 0 + 4))]
                else (qp_p qp)[0 := of_int (drop_bit 2 (2 * p 1 + p 0 + q 1 + 2))]);
          rq = (if \<not> chroma \<and> Aq < beta \<and> close
                then (qp_q qp)[0 := of_int (drop_bit 3 (p 1 + 2 * p 0 + 2 * q 0 + 2 * q 1 + q 2 + 4)),
                               1 := of_int (drop_bit 2 (p 0 + q 0 + q 1 + q 2 + 2)),
                               2 := of_int (drop_bit 3 (2 * q 3 + 3 * q 2 + q 1 + q 0 + p 0 + 4))]
                else (qp_q qp)[0 := of_int (drop_bit 2 (2 * q 1 + q 0 + p 1 + 2))])
      in \<lparr>qp_p = rp, qp_q = rq\<rparr>)"

text \<open>The thresholds of an edge: the index of its quantisation and the two numbers of the tables.\<close>

definition edge_thresholds :: "int \<Rightarrow> dbf_link \<Rightarrow> int \<Rightarrow> int \<Rightarrow> int \<Rightarrow> int \<Rightarrow> int \<Rightarrow> bool \<Rightarrow> (int \<times> int \<times> int) res" where
  "edge_thresholds w l n qx qy px py chroma =
     bindr (get_QP w l (drop_bit 4 qx) (drop_bit 4 qy) chroma) (\<lambda>QPq.
     bindr (get_QP w l (drop_bit 4 px) (drop_bit 4 py) chroma) (\<lambda>QPp.
     let QPav = drop_bit 1 (QPq + QPp + 1) in
     bindr (get_alpha l n) (\<lambda>alpha_off.
     bindr (get_beta l n) (\<lambda>beta_off.
     let indexA = CustomClip (QPav + uint alpha_off * 4) 0 51;
         indexB = CustomClip (QPav + uint beta_off * 4) 0 51 in
     bindr (char_at alpha_t indexA) (\<lambda>alpha.
     bindr (char_at beta_t indexB) (\<lambda>beta. Inr (indexA, alpha, beta)))))))"

definition filter_block :: "int \<Rightarrow> dbf_link \<Rightarrow> int \<Rightarrow> int \<Rightarrow> int \<Rightarrow> int \<Rightarrow> int \<Rightarrow> bool \<Rightarrow> s_qp \<Rightarrow> int \<Rightarrow> s_qp res" where
  "filter_block w l n qx qy px py chroma qp bS =
     bindr (edge_thresholds w l n qx qy px py chroma) (\<lambda>(indexA, alpha, beta).
     if filterSampleFlag bS alpha beta qp \<and> bS < 4 then
       bindr (rd tc0_t (nat (bS - 1))) (\<lambda>row.
       bindr (char_at row indexA) (\<lambda>tc0. Inr (filter_normal chroma beta tc0 qp)))
     else if filterSampleFlag bS alpha beta qp \<and> bS = 4 then Inr (filter_strong chroma alpha beta qp)
     else Inr qp)"

subsection \<open>One line across an edge\<close>

text \<open>\<open>for (i = 0; i < 4; i++)\<close> reading the samples, and a store that keeps what earlier ones notified.\<close>

definition get4 :: "(int \<Rightarrow> u8 res) \<Rightarrow> u8 list res" where
  "get4 f = bindr (f 0) (\<lambda>a. bindr (f 1) (\<lambda>b. bindr (f 2) (\<lambda>c. bindr (f 3) (\<lambda>d. Inr [a, b, c, d]))))"

definition and_then :: "(dbf_link \<Rightarrow> (dbf_link \<times> dbf_event list) res) \<Rightarrow> dbf_link \<times> dbf_event list
    \<Rightarrow> (dbf_link \<times> dbf_event list) res" where
  "and_then f = (\<lambda>(l, es). bindr (f l) (\<lambda>(l, es'). Inr (l, es @ es')))"

text \<open>
  The body the four functions share: \<open>gq\<close>, \<open>gp\<close> read and \<open>sq\<close>, \<open>sp\<close> store sample \<open>i\<close> on
  either side of the edge, \<open>(qx, qy)\<close> and \<open>(px, py)\<close> are where the parameters are taken.
\<close>

definition filter_line :: "int \<Rightarrow> int \<Rightarrow> bool \<Rightarrow> (dbf_link \<Rightarrow> int \<Rightarrow> u8 res) \<Rightarrow> (dbf_link \<Rightarrow> int \<Rightarrow> u8 res)
    \<Rightarrow> (dbf_link \<Rightarrow> int \<Rightarrow> u8 \<Rightarrow> (dbf_link \<times> dbf_event list) res)
    \<Rightarrow> (dbf_link \<Rightarrow> int \<Rightarrow> u8 \<Rightarrow> (dbf_link \<times> dbf_event list) res)
    \<Rightarrow> int \<Rightarrow> int \<Rightarrow> int \<Rightarrow> int \<Rightarrow> dbf_link \<times> dbf_event list \<Rightarrow> (dbf_link \<times> dbf_event list) res" where
  "filter_line w n chroma gq gp sq sp qx qy px py s =
     (let l = fst s in
      bindr (get4 (gq l)) (\<lambda>q.
      bindr (get4 (gp l)) (\<lambda>p.
      bindr (get_bS w l qx qy px py) (\<lambda>bS.
      bindr (filter_block w l n qx qy px py chroma \<lparr>qp_p = p, qp_q = q\<rparr> bS) (\<lambda>r.
      for_each (\<lambda>i s. bindr (and_then (\<lambda>l. sq l i (qp_q r ! nat i)) s) (and_then (\<lambda>l. sp l i (qp_p r ! nat i))))
        [0, 1, 2, 3] s)))))"

definition filter_vertical_L :: "int \<Rightarrow> int \<Rightarrow> int \<Rightarrow> int \<Rightarrow> dbf_link \<times> dbf_event list \<Rightarrow> (dbf_link \<times> dbf_event list) res" where
  "filter_vertical_L w n x y = filter_line w n False
     (\<lambda>l i. get_L_pixel w l (x + i) y) (\<lambda>l i. get_L_pixel w l (x - i - 1) y)
     (\<lambda>l i. set_L_pixel w l (x + i) y) (\<lambda>l i. set_L_pixel w l (x - i - 1) y) x y (x - 16) y"

definition filter_horizontal_L :: "int \<Rightarrow> int \<Rightarrow> int \<Rightarrow> int \<Rightarrow> dbf_link \<times> dbf_event list \<Rightarrow> (dbf_link \<times> dbf_event list) res" where
  "filter_horizontal_L w n x y = filter_line w n False
     (\<lambda>l i. get_L_pixel w l x (y + i)) (\<lambda>l i. get_L_pixel w l x (y - i - 1))
     (\<lambda>l i. set_L_pixel w l x (y + i)) (\<lambda>l i. set_L_pixel w l x (y - i - 1)) x y x (y - 16)"

definition filter_vertical_C :: "int \<Rightarrow> int \<Rightarrow> int \<Rightarrow> int \<Rightarrow> int \<Rightarrow> dbf_link \<times> dbf_event list \<Rightarrow> (dbf_link \<times> dbf_event list) res" where
  "filter_vertical_C w n x y iCbCr = filter_line w n True
     (\<lambda>l i. get_C_pixel w l iCbCr (drop_bit 1 x + i) (drop_bit 1 y))
     (\<lambda>l i. get_C_pixel w l iCbCr (drop_bit 1 x - i - 1) (drop_bit 1 y))
     (\<lambda>l i. set_C_pixel w l iCbCr (drop_bit 1 x + i) (drop_bit 1 y))
     (\<lambda>l i. set_C_pixel w l iCbCr (drop_bit 1 x - i - 1) (drop_bit 1 y)) x y (x - 16) y"

definition filter_horizontal_C :: "int \<Rightarrow> int \<Rightarrow> int \<Rightarrow> int \<Rightarrow> int \<Rightarrow> dbf_link \<times> dbf_event list \<Rightarrow> (dbf_link \<times> dbf_event list) res" where
  "filter_horizontal_C w n x y iCbCr = filter_line w n True
     (\<lambda>l i. get_C_pixel w l iCbCr (drop_bit 1 x) (drop_bit 1 y + i))
     (\<lambda>l i. get_C_pixel w l iCbCr (drop_bit 1 x) (drop_bit 1 y - i - 1))
     (\<lambda>l i. set_C_pixel w l iCbCr (drop_bit 1 x) (drop_bit 1 y + i))
     (\<lambda>l i. set_C_pixel w l iCbCr (drop_bit 1 x) (drop_bit 1 y - i - 1)) x y x (y - 16)"


subsection \<open>A slice\<close>

definition skip_left :: "int \<Rightarrow> int \<Rightarrow> int \<Rightarrow> int \<Rightarrow> bool" where
  "skip_left mb_pos_x mb_pos_y x_first y_first \<longleftrightarrow> mb_pos_x = 0 \<or> (mb_pos_x = x_first \<and> mb_pos_y = y_first)"

definition skip_top :: "int \<Rightarrow> int \<Rightarrow> int \<Rightarrow> int \<Rightarrow> bool" where
  "skip_top mb_pos_x mb_pos_y x_first y_first \<longleftrightarrow>
     (if mb_pos_x < x_first then mb_pos_y \<le> y_first + 16 else mb_pos_y \<le> y_first)"

text \<open>The loops over the edges of a macroblock, with the \<^verbatim>\<open>continue\<close> of a skipped boundary.\<close>

definition edges :: "bool \<Rightarrow> int list \<Rightarrow> int list
    \<Rightarrow> (int \<Rightarrow> int \<Rightarrow> dbf_link \<times> dbf_event list \<Rightarrow> (dbf_link \<times> dbf_event list) res)
    \<Rightarrow> dbf_link \<times> dbf_event list \<Rightarrow> (dbf_link \<times> dbf_event list) res" where
  "edges skip es ls f = for_each (\<lambda>e s. if skip then Inr s else for_each (\<lambda>k. f e k) ls s) es"

definition filter_mb :: "int \<Rightarrow> int \<Rightarrow> int \<Rightarrow> int \<Rightarrow> int \<Rightarrow> dbf_link \<times> dbf_event list \<Rightarrow> (dbf_link \<times> dbf_event list) res" where
  "filter_mb w n x_first y_first CurrMbAddr s =
     (let mb_pos_x = (CurrMbAddr smod w) * 16; mb_pos_y = (CurrMbAddr sdiv w) * 16;
          left = skip_left mb_pos_x mb_pos_y x_first y_first;
          top = skip_top mb_pos_x mb_pos_y x_first y_first in
      bindr (edges left [0..3] [0..15] (\<lambda>e k. filter_vertical_L w n (mb_pos_x + e * 4) (mb_pos_y + k)) s) (\<lambda>s.
      bindr (edges top [0..3] [0..15] (\<lambda>e k. filter_horizontal_L w n (mb_pos_x + k) (mb_pos_y + e * 4)) s) (\<lambda>s.
      for_each (\<lambda>c s.
        bindr (edges left [0..1] [0..7] (\<lambda>e k. filter_vertical_C w n (mb_pos_x + e * 4) (mb_pos_y + k) c) s) (\<lambda>s.
        edges top [0..1] [0..7] (\<lambda>e k. filter_horizontal_C w n (mb_pos_x + k) (mb_pos_y + e * 4) c) s)) [0..1] s)))"

text \<open>\<open>filter_slice\<close> without its energy trace and its \<open>wait\<close>: the state, and the number after the last macroblock.\<close>

definition filter_slice :: "int \<Rightarrow> dbf_link \<Rightarrow> (dbf_link \<times> dbf_event list \<times> int) res" where
  "filter_slice n l =
     bindr (get_PicWidthInMbs l) (\<lambda>w.
     bindr (get_sliceLength l n) (\<lambda>MbCount.
     bindr (get_Offset l n) (\<lambda>OffsetMb.
     let MbCount = uint MbCount; OffsetMb = uint OffsetMb in
     if w = 0 then Inl DivByZero
     else
       let x_first = (OffsetMb smod w) * 16; y_first = (OffsetMb sdiv w) * 16 in
       bindr (for_each (\<lambda>CurrMbAddr. filter_mb w n x_first y_first CurrMbAddr)
                [OffsetMb..MbCount + OffsetMb - 1] (l, [])) (\<lambda>(l, es).
       Inr (l, es, MbCount + OffsetMb)))))"

subsection \<open>The arithmetic is exact\<close>

text \<open>
  The reference: the same filter on integers, with no byte in it. \<open>ref_normal\<close> moves the two
  samples next to the edge by a clipped difference and the next ones by a clipped half.
\<close>

definition ref_normal :: "bool \<Rightarrow> int \<Rightarrow> int \<Rightarrow> (nat \<Rightarrow> int) \<Rightarrow> (nat \<Rightarrow> int) \<Rightarrow> nat \<Rightarrow> int" where
  "ref_normal chroma beta tc0 p q i =
     (let tc = (if chroma then tc0 + 1
                else tc0 + (if \<bar>p 2 - p 0\<bar> < beta then 1 else 0) + (if \<bar>q 2 - q 0\<bar> < beta then 1 else 0)) in
      if i = 0 then max 0 (min 255 (p 0 + max (- tc) (min tc ((4 * (q 0 - p 0) + p 1 - q 1 + 4) div 8))))
      else if i = 1 \<and> \<not> chroma \<and> \<bar>p 2 - p 0\<bar> < beta
        then p 1 + max (- tc0) (min tc0 ((p 2 + (p 0 + q 0 + 1) div 2 - 2 * p 1) div 2))
      else p i)"

definition ref_normal_q :: "bool \<Rightarrow> int \<Rightarrow> int \<Rightarrow> (nat \<Rightarrow> int) \<Rightarrow> (nat \<Rightarrow> int) \<Rightarrow> nat \<Rightarrow> int" where
  "ref_normal_q chroma beta tc0 p q i =
     (let tc = (if chroma then tc0 + 1
                else tc0 + (if \<bar>p 2 - p 0\<bar> < beta then 1 else 0) + (if \<bar>q 2 - q 0\<bar> < beta then 1 else 0)) in
      if i = 0 then max 0 (min 255 (q 0 - max (- tc) (min tc ((4 * (q 0 - p 0) + p 1 - q 1 + 4) div 8))))
      else if i = 1 \<and> \<not> chroma \<and> \<bar>q 2 - q 0\<bar> < beta
        then q 1 + max (- tc0) (min tc0 ((q 2 + (p 0 + q 0 + 1) div 2 - 2 * q 1) div 2))
      else q i)"

definition ref_strong :: "bool \<Rightarrow> int \<Rightarrow> int \<Rightarrow> (nat \<Rightarrow> int) \<Rightarrow> (nat \<Rightarrow> int) \<Rightarrow> nat \<Rightarrow> int" where
  "ref_strong chroma alpha beta p q i =
     (if \<not> chroma \<and> \<bar>p 2 - p 0\<bar> < beta \<and> \<bar>p 0 - q 0\<bar> < alpha div 4 + 2
      then if i = 0 then (p 2 + 2 * p 1 + 2 * p 0 + 2 * q 0 + q 1 + 4) div 8
           else if i = 1 then (p 2 + p 1 + p 0 + q 0 + 2) div 4
           else if i = 2 then (2 * p 3 + 3 * p 2 + p 1 + p 0 + q 0 + 4) div 8
           else p i
      else if i = 0 then (2 * p 1 + p 0 + q 1 + 2) div 4 else p i)"

definition wf_qp :: "s_qp \<Rightarrow> bool" where
  "wf_qp qp \<longleftrightarrow> length (qp_p qp) = 4 \<and> length (qp_q qp) = 4"

lemma sample_bounds: "0 \<le> P_at qp i" "P_at qp i \<le> 255" "0 \<le> Q_at qp i" "Q_at qp i \<le> 255"
  using uint_lt2p [of "qp_p qp ! i"] uint_lt2p [of "qp_q qp ! i"] by (simp_all add: P_at_def Q_at_def)

lemma byte_exact: "0 \<le> x \<Longrightarrow> x \<le> 255 \<Longrightarrow> uint (of_int x :: u8) = x"
  by (simp add: uint_word_of_int_eq take_bit_int_eq_self)

lemma CustomClip_eq: "lo \<le> hi \<Longrightarrow> CustomClip x lo hi = max lo (min hi x)"
  by (auto simp: CustomClip_def)

text \<open>A step clipped towards zero from \<open>b\<close> in the direction of half the way to \<open>a\<close> stays between the two.\<close>

lemma half_step_range:
  fixes a b t :: int
  assumes "0 \<le> a" "a \<le> 510" "0 \<le> b" "b \<le> 255" "0 \<le> t"
  shows "0 \<le> b + max (- t) (min t ((a - 2 * b) div 2))" "b + max (- t) (min t ((a - 2 * b) div 2)) \<le> 255"
proof -
  have h: "(a - 2 * b) div 2 = a div 2 - b" by simp
  show "0 \<le> b + max (- t) (min t ((a - 2 * b) div 2))" "b + max (- t) (min t ((a - 2 * b) div 2)) \<le> 255"
    unfolding h using assms by (auto simp: max_def min_def)
qed


lemma filter_normal_exact:
  assumes "wf_qp qp" "0 \<le> tc0"
  shows "wf_qp (filter_normal chroma beta tc0 qp)"
    and "i < 4 \<Longrightarrow> P_at (filter_normal chroma beta tc0 qp) i = ref_normal chroma beta tc0 (P_at qp) (Q_at qp) i"
    and "i < 4 \<Longrightarrow> Q_at (filter_normal chroma beta tc0 qp) i = ref_normal_q chroma beta tc0 (P_at qp) (Q_at qp) i"
proof -
  let ?p = "P_at qp" and ?q = "Q_at qp"
  define tc where "tc = (if chroma then tc0 + 1
      else tc0 + (if \<bar>?p 2 - ?p 0\<bar> < beta then 1 else 0) + (if \<bar>?q 2 - ?q 0\<bar> < beta then 1 else 0))"
  have tc: "- tc \<le> tc" "- tc0 \<le> tc0" using assms(2) by (simp_all add: tc_def)
  define d where "d = max (- tc) (min tc ((4 * (?q 0 - ?p 0) + ?p 1 - ?q 1 + 4) div 8))"
  have dd: "CustomClip (drop_bit 3 (((?q 0 - ?p 0) * 4) + (?p 1 - ?q 1) + 4)) (- tc) tc = d"
    unfolding CustomClip_eq [OF tc(1)] d_def by (simp add: drop_bit_eq_div algebra_simps)
  have clip: "uint (of_int (Clip x) :: u8) = max 0 (min 255 x)" for x
    by (simp add: Clip_def CustomClip_eq byte_exact)
  define a where "a = (?p 0 + ?q 0 + 1) div 2"
  have a: "0 \<le> a" "a \<le> 255" using sample_bounds [of qp 0] by (simp_all add: a_def)
  have half: "CustomClip (drop_bit 1 (x + drop_bit 1 (?p 0 + ?q 0 + 1) - y * 2)) (- tc0) tc0
      = max (- tc0) (min tc0 ((x + a - 2 * y) div 2))" for x y
    unfolding CustomClip_eq [OF tc(2)] a_def by (simp add: drop_bit_eq_div mult.commute)
  have st: "uint (of_int (y + max (- tc0) (min tc0 ((x + a - 2 * y) div 2))) :: u8)
      = y + max (- tc0) (min tc0 ((x + a - 2 * y) div 2))"
    if "0 \<le> x" "x \<le> 255" "0 \<le> y" "y \<le> 255" for x y
  proof -
    have "0 \<le> x + a" "x + a \<le> 510" using that a by simp_all
    from half_step_range [OF this that(3,4) assms(2)] show ?thesis by (rule byte_exact)
  qed
  note stp = st [OF sample_bounds(1,2) sample_bounds(1,2)] and stq = st [OF sample_bounds(3,4) sample_bounds(3,4)]
  have l: "length (qp_p qp) = 4" "length (qp_q qp) = 4" using assms(1) by (simp_all add: wf_qp_def)
  have eq: "filter_normal chroma beta tc0 qp = \<lparr>
      qp_p = (let r = (qp_p qp)[0 := of_int (Clip (?p 0 + d))] in
        if \<bar>?p 2 - ?p 0\<bar> < beta \<and> \<not> chroma
        then r[1 := of_int (?p 1 + max (- tc0) (min tc0 ((?p 2 + a - 2 * ?p 1) div 2)))] else r),
      qp_q = (let r = (qp_q qp)[0 := of_int (Clip (?q 0 - d))] in
        if \<bar>?q 2 - ?q 0\<bar> < beta \<and> \<not> chroma
        then r[1 := of_int (?q 1 + max (- tc0) (min tc0 ((?q 2 + a - 2 * ?q 1) div 2)))] else r)\<rparr>"
  proof -
    have tce: "(if \<not> chroma then tc0 + (if \<bar>?p 2 - ?p 0\<bar> < beta then 1 else 0) + (if \<bar>?q 2 - ?q 0\<bar> < beta then 1 else 0)
        else tc0 + 1) = tc" by (simp add: tc_def)
    have u1: "uint ((qp_p qp)[0 := x] ! 1) = ?p 1" "uint ((qp_q qp)[0 := x] ! 1) = ?q 1" for x
      by (simp_all add: P_at_def Q_at_def)
    show ?thesis
      by (simp only: filter_normal_def Let_def tce dd u1 half)
  qed
  show "wf_qp (filter_normal chroma beta tc0 qp)" unfolding eq wf_qp_def Let_def using l by simp
  show "P_at (filter_normal chroma beta tc0 qp) i = ref_normal chroma beta tc0 ?p ?q i" if "i < 4"
    using that l
    unfolding eq ref_normal_def Let_def tc_def [symmetric] d_def [symmetric] a_def [symmetric]
    by (cases "i = 0"; cases "i = 1")
      (simp_all add: P_at_def [of "\<lparr>qp_p = _, qp_q = _\<rparr>"] clip stp P_at_def [of qp, symmetric] del: of_int_add of_int_diff)
  show "Q_at (filter_normal chroma beta tc0 qp) i = ref_normal_q chroma beta tc0 ?p ?q i" if "i < 4"
    using that l
    unfolding eq ref_normal_q_def Let_def tc_def [symmetric] d_def [symmetric] a_def [symmetric]
    by (cases "i = 0"; cases "i = 1")
      (simp_all add: Q_at_def [of "\<lparr>qp_p = _, qp_q = _\<rparr>"] clip stq Q_at_def [of qp, symmetric] del: of_int_add of_int_diff)
qed


lemma filter_strong_exact:
  assumes "wf_qp qp"
  shows "wf_qp (filter_strong chroma alpha beta qp)"
    and "i < 4 \<Longrightarrow> P_at (filter_strong chroma alpha beta qp) i = ref_strong chroma alpha beta (P_at qp) (Q_at qp) i"
    and "i < 4 \<Longrightarrow> Q_at (filter_strong chroma alpha beta qp) i = ref_strong chroma alpha beta (Q_at qp) (P_at qp) i"
proof -
  let ?p = "P_at qp" and ?q = "Q_at qp"
  have l: "length (qp_p qp) = 4" "length (qp_q qp) = 4" using assms by (simp_all add: wf_qp_def)
  have avg: "uint (of_int (drop_bit 3 x) :: u8) = x div 8" if "0 \<le> x" "x < 2048" for x :: int
    using that byte_exact [of "x div 8"] by (simp add: drop_bit_eq_div)
  have avg4: "uint (of_int (drop_bit 2 x) :: u8) = x div 4" if "0 \<le> x" "x < 1024" for x :: int
    using that byte_exact [of "x div 4"] by (simp add: drop_bit_eq_div)
  have e: "a \<le> 255 \<Longrightarrow> b \<le> 255 \<Longrightarrow> c \<le> 255 \<Longrightarrow> d \<le> 255 \<Longrightarrow> f \<le> 255 \<Longrightarrow> 0 \<le> a \<Longrightarrow> 0 \<le> b \<Longrightarrow> 0 \<le> c \<Longrightarrow> 0 \<le> d \<Longrightarrow> 0 \<le> f \<Longrightarrow>
      uint (of_int (drop_bit 3 (a + 2 * b + 2 * c + 2 * d + f + 4)) :: u8) = (a + 2 * b + 2 * c + 2 * d + f + 4) div 8
    \<and> uint (of_int (drop_bit 3 (2 * a + 3 * b + c + d + f + 4)) :: u8) = (2 * a + 3 * b + c + d + f + 4) div 8
    \<and> uint (of_int (drop_bit 2 (a + b + c + d + 2)) :: u8) = (a + b + c + d + 2) div 4
    \<and> uint (of_int (drop_bit 2 (2 * a + b + c + 2)) :: u8) = (2 * a + b + c + 2) div 4" for a b c d f :: int
    by (intro conjI avg avg4) simp_all
  note b = sample_bounds [of qp]
  have ex: "uint (of_int (drop_bit 3 (x i + 2 * y j + 2 * z k + 2 * u m + v n + 4)) :: u8) = (x i + 2 * y j + 2 * z k + 2 * u m + v n + 4) div 8"
    "uint (of_int (drop_bit 3 (2 * x i + 3 * y j + z k + u m + v n + 4)) :: u8) = (2 * x i + 3 * y j + z k + u m + v n + 4) div 8"
    "uint (of_int (drop_bit 2 (x i + y j + z k + u m + 2)) :: u8) = (x i + y j + z k + u m + 2) div 4"
    "uint (of_int (drop_bit 2 (2 * x i + y j + z k + 2)) :: u8) = (2 * x i + y j + z k + 2) div 4"
    if "x \<in> {?p, ?q}" "y \<in> {?p, ?q}" "z \<in> {?p, ?q}" "u \<in> {?p, ?q}" "v \<in> {?p, ?q}" for x y z u v :: "nat \<Rightarrow> int" and i j k m n
  proof -
    have bb: "0 \<le> f r \<and> f r \<le> 255" if "f \<in> {?p, ?q}" for f :: "nat \<Rightarrow> int" and r using that b by auto
    note e' = e [of "x i" "y j" "z k" "u m" "v n"] and bs = bb [OF that(1), of i] bb [OF that(2), of j]
      bb [OF that(3), of k] bb [OF that(4), of m] bb [OF that(5), of n]
    show "uint (of_int (drop_bit 3 (x i + 2 * y j + 2 * z k + 2 * u m + v n + 4)) :: u8) = (x i + 2 * y j + 2 * z k + 2 * u m + v n + 4) div 8"
      "uint (of_int (drop_bit 3 (2 * x i + 3 * y j + z k + u m + v n + 4)) :: u8) = (2 * x i + 3 * y j + z k + u m + v n + 4) div 8"
      "uint (of_int (drop_bit 2 (x i + y j + z k + u m + 2)) :: u8) = (x i + y j + z k + u m + 2) div 4"
      "uint (of_int (drop_bit 2 (2 * x i + y j + z k + 2)) :: u8) = (2 * x i + y j + z k + 2) div 4"
      using e' bs by blast+
  qed
  note ex3 = ex(3) [OF _ _ _ _ insertI1, of x y z u for x y z u]
  note ex4 = ex(4) [OF _ _ _ insertI1 insertI1, of x y z for x y z]
  have d4: "drop_bit 2 alpha = alpha div 4" by (simp add: drop_bit_eq_div)
  show "wf_qp (filter_strong chroma alpha beta qp)" using l by (simp add: filter_strong_def wf_qp_def Let_def)
  show "P_at (filter_strong chroma alpha beta qp) i = ref_strong chroma alpha beta ?p ?q i" if "i < 4"
  proof -
    have "P_at (filter_strong chroma alpha beta qp) i =
      (if \<not> chroma \<and> \<bar>?p 2 - ?p 0\<bar> < beta \<and> \<bar>?p 0 - ?q 0\<bar> < alpha div 4 + 2
       then if i = 0 then uint (of_int (drop_bit 3 (?p 2 + 2 * ?p 1 + 2 * ?p 0 + 2 * ?q 0 + ?q 1 + 4)) :: u8)
            else if i = 1 then uint (of_int (drop_bit 2 (?p 2 + ?p 1 + ?p 0 + ?q 0 + 2)) :: u8)
            else if i = 2 then uint (of_int (drop_bit 3 (2 * ?p 3 + 3 * ?p 2 + ?p 1 + ?p 0 + ?q 0 + 4)) :: u8)
            else ?p i
       else if i = 0 then uint (of_int (drop_bit 2 (2 * ?p 1 + ?p 0 + ?q 1 + 2)) :: u8) else ?p i)"
      using that l unfolding filter_strong_def Let_def d4
      by (cases "i = 0"; cases "i = 1"; cases "i = 2")
        (simp_all add: P_at_def [of "\<lparr>qp_p = _, qp_q = _\<rparr>"] P_at_def [of qp, symmetric] del: of_int_add)
    then show ?thesis unfolding ref_strong_def by (simp only: ex(1,2) ex3 ex4 insertI1 insertI2)
  qed
  show "Q_at (filter_strong chroma alpha beta qp) i = ref_strong chroma alpha beta ?q ?p i" if "i < 4"
  proof -
    have "Q_at (filter_strong chroma alpha beta qp) i =
      (if \<not> chroma \<and> \<bar>?q 2 - ?q 0\<bar> < beta \<and> \<bar>?p 0 - ?q 0\<bar> < alpha div 4 + 2
       then if i = 0 then uint (of_int (drop_bit 3 (?p 1 + 2 * ?p 0 + 2 * ?q 0 + 2 * ?q 1 + ?q 2 + 4)) :: u8)
            else if i = 1 then uint (of_int (drop_bit 2 (?p 0 + ?q 0 + ?q 1 + ?q 2 + 2)) :: u8)
            else if i = 2 then uint (of_int (drop_bit 3 (2 * ?q 3 + 3 * ?q 2 + ?q 1 + ?q 0 + ?p 0 + 4)) :: u8)
            else ?q i
       else if i = 0 then uint (of_int (drop_bit 2 (2 * ?q 1 + ?q 0 + ?p 1 + 2)) :: u8) else ?q i)"
      using that l unfolding filter_strong_def Let_def d4
      by (cases "i = 0"; cases "i = 1"; cases "i = 2")
        (simp_all add: Q_at_def [of "\<lparr>qp_p = _, qp_q = _\<rparr>"] Q_at_def [of qp, symmetric] del: of_int_add)
    moreover have "?p 1 + 2 * ?p 0 + 2 * ?q 0 + 2 * ?q 1 + ?q 2 + 4 = ?q 2 + 2 * ?q 1 + 2 * ?q 0 + 2 * ?p 0 + ?p 1 + 4"
      "?p 0 + ?q 0 + ?q 1 + ?q 2 + 2 = ?q 2 + ?q 1 + ?q 0 + ?p 0 + 2" "\<bar>?p 0 - ?q 0\<bar> = \<bar>?q 0 - ?p 0\<bar>" by simp_all
    ultimately show ?thesis unfolding ref_strong_def
      by (simp only: ex(1,2) ex3 ex4 insertI1 insertI2)
  qed
qed

lemma tables_ok:
  shows "row \<in> set tc0_t \<Longrightarrow> length row = 52 \<and> (\<forall>b\<in>set row. 0 \<le> sint b \<and> sint b \<le> 25)"
    and "length alpha_t = 52" "length beta_t = 52" "length tc0_t = 3"
proof -
  have "list_all (\<lambda>row. length row = 52 \<and> list_all (\<lambda>b. 0 \<le> sint b \<and> sint b \<le> 25) row) tc0_t"
    by (simp add: tc0_t_def)
  then show "row \<in> set tc0_t \<Longrightarrow> length row = 52 \<and> (\<forall>b\<in>set row. 0 \<le> sint b \<and> sint b \<le> 25)"
    by (simp add: list_all_iff)
qed (simp_all add: alpha_t_def beta_t_def tc0_t_def)


text \<open>What an edge of strength \<open>bS\<close> does to the samples before it and behind it.\<close>

definition tc0_of :: "int \<Rightarrow> int \<Rightarrow> int" where
  "tc0_of bS indexA = sint (tc0_t ! nat (bS - 1) ! nat indexA)"

definition deblocked_p :: "bool \<Rightarrow> int \<Rightarrow> int \<times> int \<times> int \<Rightarrow> s_qp \<Rightarrow> nat \<Rightarrow> int" where
  "deblocked_p chroma bS th qp i =
     (let (indexA, alpha, beta) = th in
      if \<not> filterSampleFlag bS alpha beta qp then P_at qp i
      else if bS < 4 then ref_normal chroma beta (tc0_of bS indexA) (P_at qp) (Q_at qp) i
      else ref_strong chroma alpha beta (P_at qp) (Q_at qp) i)"

definition deblocked_q :: "bool \<Rightarrow> int \<Rightarrow> int \<times> int \<times> int \<Rightarrow> s_qp \<Rightarrow> nat \<Rightarrow> int" where
  "deblocked_q chroma bS th qp i =
     (let (indexA, alpha, beta) = th in
      if \<not> filterSampleFlag bS alpha beta qp then Q_at qp i
      else if bS < 4 then ref_normal_q chroma beta (tc0_of bS indexA) (P_at qp) (Q_at qp) i
      else ref_strong chroma alpha beta (Q_at qp) (P_at qp) i)"

lemma edge_thresholds_index:
  assumes "edge_thresholds w l n qx qy px py chroma = Inr (indexA, alpha, beta)"
  shows "0 \<le> indexA \<and> indexA \<le> 51 \<and> alpha = sint (alpha_t ! nat indexA)"
  using assms by (auto simp: edge_thresholds_def Let_def bindr_eq_Inr char_at_def rd_eq_Inr CustomClip_def
      split: if_splits)

lemma tc0_ok:
  assumes "0 \<le> indexA" "indexA \<le> 51" "0 < bS" "bS < 4"
  shows "\<exists>row. rd tc0_t (nat (bS - 1)) = Inr row \<and> char_at row indexA = Inr (tc0_of bS indexA)"
    and "0 \<le> tc0_of bS indexA \<and> tc0_of bS indexA \<le> 25"
proof -
  have r: "nat (bS - 1) < length tc0_t" using assms(3,4) tables_ok(4) by simp
  note row = tables_ok(1) [OF nth_mem [OF r]]
  have i: "nat indexA < length (tc0_t ! nat (bS - 1))" using row assms(1,2) by simp
  show "\<exists>row. rd tc0_t (nat (bS - 1)) = Inr row \<and> char_at row indexA = Inr (tc0_of bS indexA)"
    using r i assms(1) by (simp add: char_at_def tc0_of_def)
  show "0 \<le> tc0_of bS indexA \<and> tc0_of bS indexA \<le> 25"
    using row nth_mem [OF i] by (simp add: tc0_of_def)
qed

lemma filter_block_result:
  assumes th: "edge_thresholds w l n qx qy px py chroma = Inr (indexA, alpha, beta)"
    and qp: "wf_qp qp" and bS: "0 \<le> bS" "bS \<le> 4"
  shows "\<exists>r. filter_block w l n qx qy px py chroma qp bS = Inr r \<and> wf_qp r
    \<and> (\<forall>i<4. P_at r i = deblocked_p chroma bS (indexA, alpha, beta) qp i
        \<and> Q_at r i = deblocked_q chroma bS (indexA, alpha, beta) qp i)"
proof (cases "filterSampleFlag bS alpha beta qp")
  case False
  then have "filter_block w l n qx qy px py chroma qp bS = Inr qp" using th by (simp add: filter_block_def)
  then show ?thesis using qp False by (simp add: deblocked_p_def deblocked_q_def)
next
  case True
  then have "bS \<noteq> 0" by (simp add: filterSampleFlag_def)
  show ?thesis
  proof (cases "bS < 4")
    case lt: True
    have pos: "0 < bS" using \<open>bS \<noteq> 0\<close> bS(1) by simp
    note ix = edge_thresholds_index [OF th]
    from tc0_ok(1) [OF _ _ pos lt, of indexA] ix have
      "filter_block w l n qx qy px py chroma qp bS = Inr (filter_normal chroma beta (tc0_of bS indexA) qp)"
      using th True lt by (auto simp: filter_block_def)
    moreover have tc: "0 \<le> tc0_of bS indexA" using tc0_ok(2) [OF _ _ pos lt, of indexA] ix by simp
    ultimately show ?thesis
      using filter_normal_exact [OF qp tc] True lt
      by (simp add: deblocked_p_def deblocked_q_def)
  next
    case False
    then have "bS = 4" using bS(2) by simp
    then have "filter_block w l n qx qy px py chroma qp bS = Inr (filter_strong chroma alpha beta qp)"
      using th True by (simp add: filter_block_def)
    then show ?thesis
      using filter_strong_exact [OF qp] True False
      by (simp add: deblocked_p_def deblocked_q_def)
  qed
qed

lemma clip_near:
  fixes u y :: int
  assumes "0 \<le> u"
  shows "\<bar>max (- u) (min u y)\<bar> \<le> u"
  using assms by auto

lemma ref_normal_near:
  assumes "0 \<le> tc0" "tc0 \<le> 25" "0 \<le> p 0" "p 0 \<le> 255" "0 \<le> q 0" "q 0 \<le> 255"
  shows "\<bar>ref_normal chroma beta tc0 p q i - p i\<bar> \<le> 27" and "\<bar>ref_normal_q chroma beta tc0 p q i - q i\<bar> \<le> 27"
proof -
  define tc where "tc = (if chroma then tc0 + 1
      else tc0 + (if \<bar>p 2 - p 0\<bar> < beta then 1 else 0) + (if \<bar>q 2 - q 0\<bar> < beta then 1 else 0))"
  have tc: "0 \<le> tc" "tc \<le> 27" using assms(1,2) by (auto simp: tc_def)
  have sat: "\<bar>max 0 (min 255 (x + d)) - x\<bar> \<le> \<bar>d\<bar>" "\<bar>max 0 (min 255 (x - d)) - x\<bar> \<le> \<bar>d\<bar>"
    if "0 \<le> x" "x \<le> 255" for x d :: int using that by auto
  note c = clip_near [OF tc(1)] and c0 = clip_near [OF assms(1)]
  have near: "\<bar>max (- tc0) (min tc0 y)\<bar> \<le> 27" "\<bar>x - x\<bar> \<le> (27::int)" for x y
    using c0 [of y] assms(2) by linarith+
  show "\<bar>ref_normal chroma beta tc0 p q i - p i\<bar> \<le> 27"
    unfolding ref_normal_def Let_def tc_def [symmetric]
    using order_trans [OF order_trans [OF sat(1) c, OF assms(3,4)] tc(2)] order_trans [OF c0 assms(2)]
    by (cases "i = 0"; cases "i = 1 \<and> \<not> chroma \<and> \<bar>p 2 - p 0\<bar> < beta")
      (simp_all only: if_True if_False not_True_eq_False simp_thms add_diff_cancel_left' one_neq_zero near)
  show "\<bar>ref_normal_q chroma beta tc0 p q i - q i\<bar> \<le> 27"
    unfolding ref_normal_q_def Let_def tc_def [symmetric]
    using order_trans [OF order_trans [OF sat(2) c, OF assms(5,6)] tc(2)] order_trans [OF c0 assms(2)]
    by (cases "i = 0"; cases "i = 1 \<and> \<not> chroma \<and> \<bar>q 2 - q 0\<bar> < beta")
      (simp_all only: if_True if_False not_True_eq_False simp_thms add_diff_cancel_left' one_neq_zero near)
qed

text \<open>
  Claim C6. The filter of an edge is the reference filter on integers: for the strengths the code
  produces it returns, and all its eight samples are exactly those of the reference, with
  no byte overflowing in between, although the code computes them into bytes; a filter below strength 4 changes no
  sample by more than 27.
\<close>

theorem filter_block_exact:
  assumes "edge_thresholds w l n qx qy px py chroma = Inr (indexA, alpha, beta)"
    and "length (qp_p qp) = 4" "length (qp_q qp) = 4" "0 \<le> bS" "bS \<le> 4"
  shows "\<exists>r. filter_block w l n qx qy px py chroma qp bS = Inr r
    \<and> (\<forall>i<4. P_at r i = deblocked_p chroma bS (indexA, alpha, beta) qp i
        \<and> Q_at r i = deblocked_q chroma bS (indexA, alpha, beta) qp i
        \<and> (bS < 4 \<longrightarrow> \<bar>P_at r i - P_at qp i\<bar> \<le> 27 \<and> \<bar>Q_at r i - Q_at qp i\<bar> \<le> 27))"
proof -
  have qp: "wf_qp qp" using assms(2,3) by (simp add: wf_qp_def)
  from filter_block_result [OF assms(1) qp assms(4,5)] obtain r where
    r: "filter_block w l n qx qy px py chroma qp bS = Inr r"
      "\<forall>i<4. P_at r i = deblocked_p chroma bS (indexA, alpha, beta) qp i
        \<and> Q_at r i = deblocked_q chroma bS (indexA, alpha, beta) qp i" by blast
  have near: "\<bar>deblocked_p chroma bS (indexA, alpha, beta) qp i - P_at qp i\<bar> \<le> 27
      \<and> \<bar>deblocked_q chroma bS (indexA, alpha, beta) qp i - Q_at qp i\<bar> \<le> 27" if "bS < 4" for i
  proof (cases "filterSampleFlag bS alpha beta qp")
    case False
    then show ?thesis by (simp add: deblocked_p_def deblocked_q_def)
  next
    case True
    then have "0 < bS" using assms(4) by (simp add: filterSampleFlag_def)
    from tc0_ok(2) [OF _ _ this that, of indexA] edge_thresholds_index [OF assms(1)]
    have t: "0 \<le> tc0_of bS indexA" "tc0_of bS indexA \<le> 25" by simp_all
    have rn: "\<bar>ref_normal chroma beta (tc0_of bS indexA) (P_at qp) (Q_at qp) i - P_at qp i\<bar> \<le> 27"
      and rq: "\<bar>ref_normal_q chroma beta (tc0_of bS indexA) (P_at qp) (Q_at qp) i - Q_at qp i\<bar> \<le> 27"
      by (rule ref_normal_near; use t sample_bounds in simp)+
    show ?thesis using True that rn rq by (simp add: deblocked_p_def deblocked_q_def)
  qed
  from r near show ?thesis by (intro exI [of _ r]) auto
qed


text \<open>
  Claim C40. For a quantisation index of 45 or more no edge is filtered at all: the table of thresholds is
  an array of signed characters, its last seven entries are above 127 and read as negative, and
  no difference is below a negative threshold.
\<close>

theorem high_index_unfiltered:
  assumes "edge_thresholds w l n qx qy px py chroma = Inr (indexA, alpha, beta)" "45 \<le> indexA"
  shows "filter_block w l n qx qy px py chroma qp bS = Inr qp"
proof -
  have "list_all (\<lambda>b. sint b < 0) (drop 45 alpha_t)" by (simp add: alpha_t_def)
  moreover have "alpha_t ! nat indexA \<in> set (drop 45 alpha_t)"
    using edge_thresholds_index [OF assms(1)] assms(2) tables_ok(2)
    by (auto simp: in_set_conv_nth intro!: exI [of _ "nat indexA - 45"])
  ultimately have "sint (alpha_t ! nat indexA) < 0" by (simp add: list_all_iff)
  then have "alpha < 0" using edge_thresholds_index [OF assms(1)] by simp
  then have "\<not> filterSampleFlag bS alpha beta qp" by (auto simp: filterSampleFlag_def)
  then show ?thesis using assms(1) by (simp add: filter_block_def)
qed


text \<open>A memory in which every quantisation is 30, with the offsets \<open>a\<close> and \<open>b\<close> of the first slice.\<close>

definition demo_quant :: "u8 \<Rightarrow> u8 \<Rightarrow> dbf_link" where
  "demo_quant a b = \<lparr>dl_data = (replicate FPGA_CHAR_SIZE 30)[0x38017 := a, 0x38016 := b], dl_irq_stat = 0\<rparr>"

lemma demo_quant_data:
  assumes "0 \<le> i" "i < 0x40000"
  shows "get_data (demo_quant a b) i = Inr (if i = 0x38016 then b else if i = 0x38017 then a else 30)"
proof -
  have "nat i = 0x38016 \<longleftrightarrow> i = 0x38016" "nat i = 0x38017 \<longleftrightarrow> i = 0x38017" using assms(1) by auto
  moreover have "dl_sized (demo_quant a b)" by (simp add: demo_quant_def dl_sized_def)
  ultimately show ?thesis
    using assms by (simp add: get_data_ok demo_quant_def FPGA_CHAR_SIZE_def nth_list_update)
qed

lemma demo_thresholds:
  "edge_thresholds 8 (demo_quant 0 0) 0 16 0 0 0 False = Inr (30, 25, 8)"
  "edge_thresholds 8 (demo_quant 5 0) 0 16 0 0 0 False = Inr (50, - 1, 8)"
  by (simp_all add: edge_thresholds_def get_QP_def get_alpha_def get_beta_def demo_quant_data dbf_offsets dbf_regs
      Let_def CustomClip_def char_at_def alpha_t_def beta_t_def drop_bit_eq_div)

lemma filter_block_exact_witness:
  "\<exists>r. filter_block 8 (demo_quant 0 0) 0 16 0 0 0 False \<lparr>qp_p = [100, 100, 100, 100], qp_q = [110, 110, 110, 110]\<rparr> 1 = Inr r
    \<and> P_at r 0 = 103 \<and> Q_at r 0 = 107"
proof -
  let ?qp = "\<lparr>qp_p = [100, 100, 100, 100], qp_q = [110, 110, 110, 110]\<rparr> :: s_qp"
  have tc: "tc0_of 1 30 = 1" by (simp add: tc0_of_def tc0_t_def)
  have "deblocked_p False 1 (30, 25, 8) ?qp 0 = 103" "deblocked_q False 1 (30, 25, 8) ?qp 0 = 107"
    by (simp_all add: deblocked_p_def deblocked_q_def filterSampleFlag_def tc ref_normal_def ref_normal_q_def
        P_at_def Q_at_def Let_def)
  then show ?thesis using filter_block_exact [OF demo_thresholds(1), of ?qp 1] by auto
qed

lemma high_index_unfiltered_witness:
  "filter_block 8 (demo_quant 5 0) 0 16 0 0 0 False \<lparr>qp_p = [100, 100, 100, 100], qp_q = [110, 110, 110, 110]\<rparr> 1
    = Inr \<lparr>qp_p = [100, 100, 100, 100], qp_q = [110, 110, 110, 110]\<rparr>"
  by (rule high_index_unfiltered [OF demo_thresholds(2)]) simp

end
