(* ===== verification/Dbf_Slice.thy ===== *)
theory Dbf_Slice
  imports Dbf_Filter
begin

text \<open>
  A pass of the filter over a slice stays inside the picture: for a picture that fits below the
  registers it returns, raises no register effect, and changes samples only. The addresses of
  samples and parameters are bounded once, and carried through the loops by an invariant.
\<close>

subsection \<open>Addresses\<close>

text \<open>A picture of \<open>w\<close> by \<open>h\<close> macroblocks below the registers, and a luminance position in it.\<close>

definition fits :: "int \<Rightarrow> int \<Rightarrow> bool" where
  "fits w h \<longleftrightarrow> 0 < w \<and> 0 < h \<and> w * h \<le> 416"

definition in_pic :: "int \<Rightarrow> int \<Rightarrow> int \<Rightarrow> int \<Rightarrow> bool" where
  "in_pic w h x y \<longleftrightarrow> 0 \<le> x \<and> x < 16 * w \<and> 0 \<le> y \<and> y < 16 * h"

lemma mb_bound:
  assumes "0 \<le> a" "a < w" "0 \<le> b" "b < (h::int)"
  shows "0 \<le> b * w + a" "b * w + a < w * h"
proof -
  show "0 \<le> b * w + a" using assms by simp
  have "b * w + a < b * w + w" using assms(2) by simp
  also have "\<dots> = (b + 1) * w" by (simp add: algebra_simps)
  also have "\<dots> \<le> h * w" by (rule mult_right_mono) (use assms in auto)
  finally show "b * w + a < w * h" by (simp add: mult.commute)
qed

text \<open>The macroblock of a position, and addresses inside a macroblock of the picture.\<close>

definition mb_at :: "int \<Rightarrow> int \<Rightarrow> int \<Rightarrow> int" where
  "mb_at w x y = (y div 16) * w + x div 16"

lemma mb_at_bound:
  assumes "fits w h" "in_pic w h x y"
  shows "0 \<le> mb_at w x y" "mb_at w x y < 416"
proof -
  have "0 \<le> x div 16" "x div 16 < w" "0 \<le> y div 16" "y div 16 < h" using assms(2) by (auto simp: in_pic_def)
  note b = mb_bound [OF this]
  show "0 \<le> mb_at w x y" using b(1) by (simp add: mb_at_def)
  show "mb_at w x y < 416" using b(2) assms(1) by (simp add: mb_at_def fits_def)
qed

lemma block_in_frame: "0 \<le> m \<Longrightarrow> m < 416 \<Longrightarrow> 0 \<le> r \<Longrightarrow> r < 512 \<Longrightarrow> in_frame (512 * m + r)"
  by (simp add: in_frame_def)

lemma in_frame_get: "dl_sized l \<Longrightarrow> in_frame a \<Longrightarrow> get_data l a = Inr (dl_data l ! nat a)"
  by (rule get_data_ok) (auto simp: in_frame_def)

lemma get_param:
  assumes "fits w h" "in_pic w h x y" "dl_sized l" "0 \<le> r" "r < 512"
  shows "\<exists>v. get_data l (512 * mb_at w x y + r) = Inr v"
  using in_frame_get [OF assms(3) block_in_frame [OF mb_at_bound [OF assms(1,2)] assms(4,5)]] by blast

lemma quarter_positions:
  assumes "in_pic w h x y"
  shows "mb_of_4x4 w (drop_bit 2 x) (drop_bit 2 y) = mb_at w x y"
    and "0 \<le> pos_4x4 (drop_bit 2 x) (drop_bit 2 y) \<and> pos_4x4 (drop_bit 2 x) (drop_bit 2 y) < 16"
proof -
  have n: "0 \<le> x div 4" "0 \<le> y div 4" using assms by (auto simp: in_pic_def)
  have d: "drop_bit 2 x = x div 4" "drop_bit 2 y = y div 4" by (simp_all add: drop_bit_eq_div)
  have q: "(x div 4) sdiv 4 = x div 16" "(y div 4) sdiv 4 = y div 16"
    using n by (simp_all add: sdiv_nonneg zdiv_zmult2_eq [symmetric])
  show "mb_of_4x4 w (drop_bit 2 x) (drop_bit 2 y) = mb_at w x y" by (simp add: mb_of_4x4_def mb_at_def d q)
  have four: "0 \<le> b * 4 + a \<and> b * 4 + a < 16" if "0 \<le> a" "a < 4" "0 \<le> b" "b < 4" for a b :: int
    using that by simp
  have x16: "u div 16 = u div 4 div 4" for u :: int by (simp add: zdiv_zmult2_eq [symmetric])
  have "0 \<le> x div 4 - x div 16 * 4" "x div 4 - x div 16 * 4 < 4" "0 \<le> y div 4 - y div 16 * 4" "y div 4 - y div 16 * 4 < 4"
    unfolding x16 minus_div_mult_eq_mod by simp_all
  then show "0 \<le> pos_4x4 (drop_bit 2 x) (drop_bit 2 y) \<and> pos_4x4 (drop_bit 2 x) (drop_bit 2 y) < 16"
    unfolding pos_4x4_def d q by (rule four)
qed

lemma params_ok:
  assumes "fits w h" "in_pic w h x y" "dl_sized l"
  shows "\<exists>v. get_mode w l x y = Inr v" and "\<exists>v. get_QP w l (drop_bit 4 x) (drop_bit 4 y) c = Inr v"
    and "\<exists>v. get_TotalCoeffL w l (drop_bit 2 x) (drop_bit 2 y) = Inr v"
    and "\<exists>v. get_MVx w l (drop_bit 2 x) (drop_bit 2 y) = Inr v"
    and "\<exists>v. get_MVy w l (drop_bit 2 x) (drop_bit 2 y) = Inr v"
proof -
  note g = get_param [OF assms]
  note q = quarter_positions [OF assms(2)]
  let ?k = "pos_4x4 (drop_bit 2 x) (drop_bit 2 y)"
  have d: "drop_bit 4 x = x div 16" "drop_bit 4 y = y div 16" by (simp_all add: drop_bit_eq_div)
  show "\<exists>v. get_mode w l x y = Inr v"
    using g [where r = "0x1D2"] by (simp add: get_mode_def d mb_at_def dbf_offsets)
  show "\<exists>v. get_QP w l (drop_bit 4 x) (drop_bit 4 y) c = Inr v"
    using g [where r = "0x1D0"] g [where r = "0x1D1"] by (auto simp: get_QP_def d mb_at_def dbf_offsets add.assoc)
  show "\<exists>v. get_TotalCoeffL w l (drop_bit 2 x) (drop_bit 2 y) = Inr v"
    using g [where r = "0x1C0 + ?k"] q by (simp add: get_TotalCoeffL_def dbf_offsets add.assoc)
  show "\<exists>v. get_MVx w l (drop_bit 2 x) (drop_bit 2 y) = Inr v"
    using g [where r = "0x180 + ?k * 2"] g [where r = "0x180 + ?k * 2 + 1"] q
    by (auto simp: get_MVx_def get_MV_def Let_def dbf_offsets add.assoc)
  show "\<exists>v. get_MVy w l (drop_bit 2 x) (drop_bit 2 y) = Inr v"
    using g [where r = "0x1A0 + ?k * 2"] g [where r = "0x1A0 + ?k * 2 + 1"] q
    by (auto simp: get_MVy_def get_MV_def Let_def dbf_offsets add.assoc)
qed


subsection \<open>Strength and thresholds exist\<close>

lemma get_bS_ok:
  assumes "fits w h" "in_pic w h qx qy" "in_pic w h px py" "dl_sized l"
  shows "\<exists>b. get_bS w l qx qy px py = Inr b \<and> 0 \<le> b \<and> b \<le> 4"
proof -
  note q = params_ok [OF assms(1,2,4)] and p = params_ok [OF assms(1,3,4)]
  obtain mq mp cq cp xq xp yq yp where v: "get_mode w l qx qy = Inr mq" "get_mode w l px py = Inr mp"
    "get_TotalCoeffL w l (drop_bit 2 qx) (drop_bit 2 qy) = Inr cq"
    "get_TotalCoeffL w l (drop_bit 2 px) (drop_bit 2 py) = Inr cp"
    "get_MVx w l (drop_bit 2 qx) (drop_bit 2 qy) = Inr xq" "get_MVx w l (drop_bit 2 px) (drop_bit 2 py) = Inr xp"
    "get_MVy w l (drop_bit 2 qx) (drop_bit 2 qy) = Inr yq" "get_MVy w l (drop_bit 2 px) (drop_bit 2 py) = Inr yp"
    using q p by blast
  show ?thesis by (simp add: get_bS_def or_else_def v)
qed

lemma char_at_ok: "length t = 52 \<Longrightarrow> \<exists>v. char_at t (CustomClip i 0 51) = Inr v"
  by (auto simp: char_at_def CustomClip_def)

lemma edge_thresholds_ok:
  assumes "fits w h" "in_pic w h qx qy" "in_pic w h px py" "dl_sized l" "0 \<le> n" "n < 4"
  shows "\<exists>th. edge_thresholds w l n qx qy px py c = Inr th"
proof -
  obtain u v where qp: "get_QP w l (drop_bit 4 qx) (drop_bit 4 qy) c = Inr u"
    "get_QP w l (drop_bit 4 px) (drop_bit 4 py) c = Inr v"
    using params_ok(2) [OF assms(1,2,4)] params_ok(2) [OF assms(1,3,4)] by blast
  have a: "get_alpha l n = Inr (dl_data l ! nat (16 * n + 0x38017))" "get_beta l n = Inr (dl_data l ! nat (16 * n + 0x38016))"
    using assms(4-6) by (simp_all add: get_alpha_def get_beta_def dbf_regs get_data_ok)
  show ?thesis
    using char_at_ok [OF tables_ok(2)] char_at_ok [OF tables_ok(3)]
    by (fastforce simp: edge_thresholds_def Let_def qp a bindr_eq_Inr)
qed

subsection \<open>What the passes keep\<close>

text \<open>
  The samples the passes reach: all of the luminance, and of the two colour planes of a
  macroblock those in the first four rows or the first four columns.
\<close>

definition reached :: "int \<Rightarrow> bool" where
  "reached a \<longleftrightarrow> a < 0x34000 \<and> (a mod 512 < 256
     \<or> a mod 512 < 384 \<and> (a mod 64 < 32 \<or> a mod 8 < 4))"

definition samples_only :: "dbf_link \<Rightarrow> dbf_link \<times> dbf_event list \<Rightarrow> bool" where
  "samples_only l0 s \<longleftrightarrow> dl_sized (fst s) \<and> dl_irq_stat (fst s) = dl_irq_stat l0 \<and> snd s = []
     \<and> (\<forall>a. 0 \<le> a \<and> a < 0x40000 \<and> \<not> reached a \<longrightarrow> dl_data (fst s) ! nat a = dl_data l0 ! nat a)"

lemma samples_only_store:
  assumes "samples_only l0 s" "in_frame a" "reached a"
  shows "\<exists>s'. and_then (\<lambda>l. set_data l a v) s = Inr s' \<and> samples_only l0 s'"
proof -
  obtain l es where s: "s = (l, es)" by (cases s)
  have sz: "dl_sized l" and len: "nat a < length (dl_data l)"
    using assms by (auto simp: samples_only_def s dl_sized_def in_frame_def FPGA_CHAR_SIZE_def)
  have "and_then (\<lambda>l. set_data l a v) s = Inr (l\<lparr>dl_data := (dl_data l)[nat a := v]\<rparr>, es)"
    by (simp add: and_then_def s set_data_frame [OF sz assms(2)])
  moreover have "samples_only l0 (l\<lparr>dl_data := (dl_data l)[nat a := v]\<rparr>, es)"
  proof -
    have "(dl_data l)[nat a := v] ! nat b = dl_data l ! nat b" if "0 \<le> b" "\<not> reached b" for b
    proof -
      have "a \<noteq> b" using that assms(3) by auto
      then have "nat a \<noteq> nat b" using that(1) assms(2) by (simp add: in_frame_def eq_nat_nat_iff)
      then show ?thesis by simp
    qed
    with assms(1) show ?thesis by (simp add: samples_only_def s)
  qed
  ultimately show ?thesis by blast
qed

lemma get4_ok:
  assumes "\<And>i. 0 \<le> i \<Longrightarrow> i < 4 \<Longrightarrow> \<exists>v. f i = Inr v"
  shows "\<exists>xs. get4 f = Inr xs \<and> length xs = 4"
proof -
  obtain a b c d where "f 0 = Inr a" "f 1 = Inr b" "f 2 = Inr c" "f 3 = Inr d"
    using assms [of 0] assms [of 1] assms [of 2] assms [of 3] by auto
  then show ?thesis by (simp add: get4_def)
qed

text \<open>A line, given the addresses of its samples on either side.\<close>

lemma filter_line_ok:
  assumes "fits w h" "in_pic w h qx qy" "in_pic w h px py" "0 \<le> n" "n < 4" and inv: "samples_only l0 s"
    and qa: "\<And>i. 0 \<le> i \<Longrightarrow> i < 4 \<Longrightarrow> in_frame (qa i) \<and> reached (qa i)"
    and pa: "\<And>i. 0 \<le> i \<Longrightarrow> i < 4 \<Longrightarrow> in_frame (pa i) \<and> reached (pa i)"
  shows "\<exists>s'. filter_line w n c (\<lambda>l i. get_data l (qa i)) (\<lambda>l i. get_data l (pa i))
      (\<lambda>l i. set_data l (qa i)) (\<lambda>l i. set_data l (pa i)) qx qy px py s = Inr s' \<and> samples_only l0 s'"
proof -
  have sz: "dl_sized (fst s)" using inv by (simp add: samples_only_def)
  obtain q where q: "get4 (\<lambda>i. get_data (fst s) (qa i)) = Inr q" "length q = 4"
    using get4_ok [of "\<lambda>i. get_data (fst s) (qa i)"] in_frame_get [OF sz] qa by blast
  obtain p where p: "get4 (\<lambda>i. get_data (fst s) (pa i)) = Inr p" "length p = 4"
    using get4_ok [of "\<lambda>i. get_data (fst s) (pa i)"] in_frame_get [OF sz] pa by blast
  obtain b where b: "get_bS w (fst s) qx qy px py = Inr b" "0 \<le> b" "b \<le> 4"
    using get_bS_ok [OF assms(1-3) sz] by blast
  obtain ia al be where th: "edge_thresholds w (fst s) n qx qy px py c = Inr (ia, al, be)"
    using edge_thresholds_ok [OF assms(1-3) sz assms(4,5)] by (metis prod_cases3)
  have "wf_qp \<lparr>qp_p = p, qp_q = q\<rparr>" using q p by (simp add: wf_qp_def)
  from filter_block_result [OF th this b(2,3)] obtain r where
    r: "filter_block w (fst s) n qx qy px py c \<lparr>qp_p = p, qp_q = q\<rparr> b = Inr r" by blast
  have "\<exists>s'. for_each (\<lambda>i s. bindr (and_then (\<lambda>l. set_data l (qa i) (qp_q r ! nat i)) s)
      (and_then (\<lambda>l. set_data l (pa i) (qp_p r ! nat i)))) [0, 1, 2, 3] s = Inr s' \<and> samples_only l0 s'"
  proof (rule for_each_ok [where P = "samples_only l0", OF inv])
    fix i :: int and s assume i: "i \<in> set [0, 1, 2, 3]" and s: "samples_only l0 s"
    then have i: "0 \<le> i" "i < 4" by auto
    from samples_only_store [OF s] qa [OF i] obtain s1 where
      1: "and_then (\<lambda>l. set_data l (qa i) (qp_q r ! nat i)) s = Inr s1" "samples_only l0 s1" by blast
    from samples_only_store [OF 1(2)] pa [OF i] 1(1)
    show "\<exists>s'. bindr (and_then (\<lambda>l. set_data l (qa i) (qp_q r ! nat i)) s)
        (and_then (\<lambda>l. set_data l (pa i) (qp_p r ! nat i))) = Inr s' \<and> samples_only l0 s'" by auto
  qed
  then show ?thesis by (simp add: filter_line_def Let_def q p b r)
qed


subsection \<open>The four kinds of lines\<close>

lemma L_addr_ok:
  assumes "fits w h" "in_pic w h x y"
  shows "in_frame (L_addr w x y) \<and> reached (L_addr w x y)"
proof -
  have n: "0 \<le> x" "0 \<le> y" using assms(2) by (simp_all add: in_pic_def)
  define r where "r = (y mod 16) * 16 + x mod 16"
  have r: "0 \<le> r" "r < 256"
  proof -
    have "0 \<le> x mod 16" "x mod 16 < 16" "0 \<le> y mod 16" "y mod 16 < 16" by simp_all
    then show "0 \<le> r" "r < 256" unfolding r_def by linarith+
  qed
  have e: "L_addr w x y = 512 * mb_at w x y + r"
    by (simp add: L_addr_def Let_def sdiv_nonneg n mb_at_def dbf_offsets MbWidth_def r_def)
  have f: "in_frame (L_addr w x y)" unfolding e by (rule block_in_frame) (use mb_at_bound [OF assms] r in simp_all)
  have "(512 * mb_at w x y + r) mod 512 = r" using r by simp
  then show ?thesis using f r unfolding reached_def e in_frame_def by simp
qed

text \<open>A colour position: a quarter as many as the luminance has.\<close>

definition in_chroma :: "int \<Rightarrow> int \<Rightarrow> int \<Rightarrow> int \<Rightarrow> bool" where
  "in_chroma w h x y \<longleftrightarrow> 0 \<le> x \<and> x < 8 * w \<and> 0 \<le> y \<and> y < 8 * h"

lemma C_addr_ok:
  assumes "fits w h" "in_chroma w h x y" "c = 0 \<or> c = 1" "x mod 8 < 4 \<or> y mod 8 < 4"
  shows "in_frame (C_addr w c x y) \<and> reached (C_addr w c x y)"
proof -
  have n: "0 \<le> x" "0 \<le> y" using assms(2) by (simp_all add: in_chroma_def)
  have b: "0 \<le> x mod 8" "x mod 8 < 8" "0 \<le> y mod 8" "y mod 8 < 8" by simp_all
  define m where "m = (y div 8) * w + x div 8"
  have "0 \<le> x div 8" "x div 8 < w" "0 \<le> y div 8" "y div 8 < h" using assms(2) by (auto simp: in_chroma_def)
  from mb_bound [OF this] assms(1) have m: "0 \<le> m" "m < 416" by (simp_all add: m_def fits_def)
  define r where "r = (y mod 8) * 8 + x mod 8"
  have r: "0 \<le> r" "r < 64" using b unfolding r_def by linarith+
  have u: "uint ((of_int ((y mod 8) * 16) :: u32) div 2) = (y mod 8) * 8"
  proof -
    have "uint (of_int ((y mod 8) * 16) :: u32) = (y mod 8) * 16" by (rule uint_address) (use b in simp_all)
    then show ?thesis by (simp add: uint_div_distrib del: of_int_mult)
  qed
  have e: "C_addr w c x y = 512 * m + (256 + 64 * c + r)"
    unfolding C_addr_def Let_def sdiv_nonneg [OF n(1), of 8, simplified] sdiv_nonneg [OF n(2), of 8, simplified] MbWidth_def u
    by (simp add: dbf_offsets m_def r_def)
  have o: "0 \<le> 256 + 64 * c + r" "256 + 64 * c + r < 384" using assms(3) r by auto
  have f: "in_frame (C_addr w c x y)" unfolding e by (rule block_in_frame) (use m o in simp_all)
  have "(512 * m + (256 + 64 * c + r)) mod 512 = 256 + 64 * c + r" using o by simp
  moreover have "(512 * m + (256 + 64 * c + r)) mod 64 = r"
  proof -
    have e2: "512 * m + (256 + 64 * c + r) = r + 64 * (8 * m + 4 + c)" by (simp add: algebra_simps)
    show ?thesis unfolding e2 mod_mult_self2 by (rule mod_pos_pos_trivial) (use r in simp_all)
  qed
  moreover have "(512 * m + (256 + 64 * c + r)) mod 8 = x mod 8"
  proof -
    have e3: "512 * m + (256 + 64 * c + r) = x mod 8 + 8 * (64 * m + 32 + 8 * c + y mod 8)" by (simp add: r_def algebra_simps)
    show ?thesis unfolding e3 mod_mult_self2 by simp
  qed
  moreover have "r < 32" if "y mod 8 < 4" using that b unfolding r_def by linarith
  ultimately show ?thesis using f o assms(4) unfolding reached_def e in_frame_def by auto
qed

lemma vertical_L_ok:
  assumes "fits w h" "in_pic w h (x + 3) y" "16 \<le> x" "0 \<le> n" "n < 4" "samples_only l0 s"
  shows "\<exists>s'. filter_vertical_L w n x y s = Inr s' \<and> samples_only l0 s'"
  unfolding filter_vertical_L_def get_L_pixel_def set_L_pixel_def
  by (rule filter_line_ok [OF assms(1) _ _ assms(4-6)]; (intro L_addr_ok [OF assms(1)])?)
    (use assms(2,3) in \<open>auto simp: in_pic_def\<close>)

lemma horizontal_L_ok:
  assumes "fits w h" "in_pic w h x (y + 3)" "16 \<le> y" "0 \<le> n" "n < 4" "samples_only l0 s"
  shows "\<exists>s'. filter_horizontal_L w n x y s = Inr s' \<and> samples_only l0 s'"
  unfolding filter_horizontal_L_def get_L_pixel_def set_L_pixel_def
  by (rule filter_line_ok [OF assms(1) _ _ assms(4-6)]; (intro L_addr_ok [OF assms(1)])?)
    (use assms(2,3) in \<open>auto simp: in_pic_def\<close>)


lemma vertical_C_ok:
  assumes "fits w h" "in_pic w h x y" "in_chroma w h (x div 2 + 3) (y div 2)" "16 \<le> x" "(y div 2) mod 8 < 4"
    "c = 0 \<or> c = 1" "0 \<le> n" "n < 4" "samples_only l0 s"
  shows "\<exists>s'. filter_vertical_C w n x y c s = Inr s' \<and> samples_only l0 s'"
proof -
  have d: "drop_bit 1 x = x div 2" "drop_bit 1 y = y div 2" by (simp_all add: drop_bit_eq_div)
  have q: "in_chroma w h (x div 2 + i) (y div 2)" "in_chroma w h (x div 2 - i - 1) (y div 2)" if "0 \<le> i" "i < 4" for i
    using that assms(3,4) by (auto simp: in_chroma_def)
  show ?thesis unfolding filter_vertical_C_def get_C_pixel_def set_C_pixel_def d
    by (rule filter_line_ok [OF assms(1,2) _ assms(7-9)]; (intro C_addr_ok [OF assms(1) _ assms(6)] disjI2 assms(5) q)?)
      (use assms(2,4) in \<open>auto simp: in_pic_def\<close>)
qed

lemma horizontal_C_ok:
  assumes "fits w h" "in_pic w h x y" "in_chroma w h (x div 2) (y div 2 + 3)" "16 \<le> y" "(x div 2) mod 8 < 4"
    "c = 0 \<or> c = 1" "0 \<le> n" "n < 4" "samples_only l0 s"
  shows "\<exists>s'. filter_horizontal_C w n x y c s = Inr s' \<and> samples_only l0 s'"
proof -
  have d: "drop_bit 1 x = x div 2" "drop_bit 1 y = y div 2" by (simp_all add: drop_bit_eq_div)
  have q: "in_chroma w h (x div 2) (y div 2 + i)" "in_chroma w h (x div 2) (y div 2 - i - 1)" if "0 \<le> i" "i < 4" for i
    using that assms(3,4) by (auto simp: in_chroma_def)
  show ?thesis unfolding filter_horizontal_C_def get_C_pixel_def set_C_pixel_def d
    by (rule filter_line_ok [OF assms(1,2) _ assms(7-9)]; (intro C_addr_ok [OF assms(1) _ assms(6)] disjI1 assms(5) q)?)
      (use assms(2,4) in \<open>auto simp: in_pic_def\<close>)
qed


subsection \<open>Macroblocks\<close>

lemma edges_ok:
  assumes "samples_only l0 s"
    and "\<And>e k s. \<not> skip \<Longrightarrow> e \<in> set es \<Longrightarrow> k \<in> set ks \<Longrightarrow> samples_only l0 s \<Longrightarrow> \<exists>s'. f e k s = Inr s' \<and> samples_only l0 s'"
  shows "\<exists>s'. edges skip es ks f s = Inr s' \<and> samples_only l0 s'"
  unfolding edges_def
proof (rule for_each_ok [where P = "samples_only l0", OF assms(1)])
  fix e s assume e: "e \<in> set es" and s: "samples_only l0 s"
  show "\<exists>s'. (if skip then Inr s else for_each (\<lambda>k. f e k) ks s) = Inr s' \<and> samples_only l0 s'"
  proof (cases skip)
    case True
    then show ?thesis using s by simp
  next
    case False
    then show ?thesis using for_each_ok [where P = "samples_only l0", OF s assms(2) [OF False e]] by simp
  qed
qed

lemma macroblock_corner:
  assumes "fits w h" "0 \<le> m" "m < w * h"
  shows "m smod w = m mod w" "m sdiv w = m div w" "0 \<le> m mod w" "m mod w < w" "0 \<le> m div w" "m div w < h"
proof -
  have w: "0 < w" using assms(1) by (simp add: fits_def)
  show "m smod w = m mod w" "m sdiv w = m div w" using sdiv_nonneg [OF assms(2) w] by simp_all
  show "0 \<le> m mod w" "m mod w < w" "0 \<le> m div w" using w assms(2) by (simp_all add: pos_imp_zdiv_nonneg_iff)
  show "m div w < h"
  proof (rule ccontr)
    assume "\<not> m div w < h"
    then have "h * w \<le> (m div w) * w" using w by simp
    also have "\<dots> \<le> m" using div_mult_mod_eq [of m w] pos_mod_sign [OF w, of m] by linarith
    finally show False using assms(3) by (simp add: mult.commute)
  qed
qed

lemma skip_left_pos: "\<not> skip_left (16 * a) y xf yf \<Longrightarrow> 0 \<le> a \<Longrightarrow> 16 \<le> 16 * a" for a :: int
  by (auto simp: skip_left_def)

lemma skip_top_pos: "\<not> skip_top x (16 * b) xf yf \<Longrightarrow> 0 \<le> yf \<Longrightarrow> 16 \<le> 16 * b" for b :: int
  by (auto simp: skip_top_def split: if_splits)


lemma macroblock_lines_L:
  assumes "fits w h" "0 \<le> a" "a < w" "0 \<le> b" "b < h" "0 \<le> n" "n < 4" "e \<in> set [0..3]" "k \<in> set [0..15]" "samples_only l0 s"
  shows "16 \<le> 16 * a \<Longrightarrow> \<exists>s'. filter_vertical_L w n (16 * a + e * 4) (16 * b + k) s = Inr s' \<and> samples_only l0 s'"
    and "16 \<le> 16 * b \<Longrightarrow> \<exists>s'. filter_horizontal_L w n (16 * a + k) (16 * b + e * 4) s = Inr s' \<and> samples_only l0 s'"
  by (rule vertical_L_ok [where h = h] horizontal_L_ok [where h = h]; use assms in \<open>simp add: in_pic_def\<close>)+

lemma macroblock_lines_C:
  assumes "fits w h" "0 \<le> a" "a < w" "0 \<le> b" "b < h" "0 \<le> n" "n < 4" "e \<in> set [0..1]" "k \<in> set [0..7]"
    "c \<in> set [0..1]" "samples_only l0 s"
  shows "16 \<le> 16 * a \<Longrightarrow> \<exists>s'. filter_vertical_C w n (16 * a + e * 4) (16 * b + k) c s = Inr s' \<and> samples_only l0 s'"
    and "16 \<le> 16 * b \<Longrightarrow> \<exists>s'. filter_horizontal_C w n (16 * a + k) (16 * b + e * 4) c s = Inr s' \<and> samples_only l0 s'"
proof -
  have e: "e = 0 \<or> e = 1" and k: "0 \<le> k" "k \<le> 7" and c: "c = 0 \<or> c = 1" using assms(8-10) by auto
  have d: "(16 * z + e * 4) div 2 = 8 * z + 2 * e" "(16 * z + k) div 2 = 8 * z + k div 2" for z by presburger+
  have m: "(8 * z + k div 2) mod 8 < 4" for z using k by presburger
  show "\<exists>s'. filter_vertical_C w n (16 * a + e * 4) (16 * b + k) c s = Inr s' \<and> samples_only l0 s'" if "16 \<le> 16 * a"
    by (rule vertical_C_ok [where h = h]; (unfold d)?; (rule m)?) (use assms that e k c in \<open>auto simp: in_pic_def in_chroma_def\<close>)
  show "\<exists>s'. filter_horizontal_C w n (16 * a + k) (16 * b + e * 4) c s = Inr s' \<and> samples_only l0 s'" if "16 \<le> 16 * b"
    by (rule horizontal_C_ok [where h = h]; (unfold d)?; (rule m)?) (use assms that e k c in \<open>auto simp: in_pic_def in_chroma_def\<close>)
qed

lemma filter_mb_ok:
  assumes "fits w h" "0 \<le> n" "n < 4" "0 \<le> yf" "0 \<le> m" "m < w * h" "samples_only l0 s"
  shows "\<exists>s'. filter_mb w n xf yf m s = Inr s' \<and> samples_only l0 s'"
proof -
  note corner = macroblock_corner [OF assms(1,5,6)]
  define a b where "a = m mod w" and "b = m div w"
  have ab: "0 \<le> a" "a < w" "0 \<le> b" "b < h" using corner by (simp_all add: a_def b_def)
  have xy: "(m smod w) * 16 = 16 * a" "(m sdiv w) * 16 = 16 * b" using corner by (simp_all add: a_def b_def)
  note L = macroblock_lines_L [OF assms(1) ab assms(2,3)] and C = macroblock_lines_C [OF assms(1) ab assms(2,3)]
  note left = skip_left_pos [OF _ ab(1)] and top = skip_top_pos [OF _ assms(4)]
  let ?left = "skip_left (16 * a) (16 * b) xf yf" and ?top = "skip_top (16 * a) (16 * b) xf yf"
  let ?vL = "edges ?left [0..3] [0..15] (\<lambda>e k. filter_vertical_L w n (16 * a + e * 4) (16 * b + k))"
  let ?hL = "edges ?top [0..3] [0..15] (\<lambda>e k. filter_horizontal_L w n (16 * a + k) (16 * b + e * 4))"
  let ?vC = "\<lambda>c. edges ?left [0..1] [0..7] (\<lambda>e k. filter_vertical_C w n (16 * a + e * 4) (16 * b + k) c)"
  let ?hC = "\<lambda>c. edges ?top [0..1] [0..7] (\<lambda>e k. filter_horizontal_C w n (16 * a + k) (16 * b + e * 4) c)"
  have vL: "\<exists>s'. ?vL s = Inr s' \<and> samples_only l0 s'" if "samples_only l0 s" for s
    by (rule edges_ok [OF that], rule L(1) [OF _ _ _ left], assumption+)
  have hL: "\<exists>s'. ?hL s = Inr s' \<and> samples_only l0 s'" if "samples_only l0 s" for s
    by (rule edges_ok [OF that], rule L(2) [OF _ _ _ top], assumption+)
  have vC: "\<exists>s'. ?vC c s = Inr s' \<and> samples_only l0 s'" if "c \<in> set [0..1]" "samples_only l0 s" for c s
    by (rule edges_ok [OF that(2)], rule C(1) [OF _ _ that(1) _ left], assumption+)
  have hC: "\<exists>s'. ?hC c s = Inr s' \<and> samples_only l0 s'" if "c \<in> set [0..1]" "samples_only l0 s" for c s
    by (rule edges_ok [OF that(2)], rule C(2) [OF _ _ that(1) _ top], assumption+)
  have colour: "\<exists>s'. bindr (?vC c s) (?hC c) = Inr s' \<and> samples_only l0 s'" if cs: "c \<in> set [0..1]" "samples_only l0 s" for c s
  proof -
    obtain s3 where 3: "?vC c s = Inr s3" "samples_only l0 s3" using vC [OF cs] by blast
    show ?thesis unfolding 3(1) bindr_simps by (rule hC [OF cs(1) 3(2)])
  qed
  obtain s1 where 1: "?vL s = Inr s1" "samples_only l0 s1" using vL [OF assms(7)] by blast
  obtain s2 where 2: "?hL s1 = Inr s2" "samples_only l0 s2" using hL [OF 1(2)] by blast
  show ?thesis unfolding filter_mb_def Let_def xy 1(1) bindr_simps 2(1)
    by (rule for_each_ok [where P = "samples_only l0", OF 2(2) colour])
qed



subsection \<open>Slices\<close>

lemma picture_fits:
  assumes "get_format l = Inr f" "f < 3" "get_PicWidthInMbs l = Inr w" "get_PicHeightInMbs l = Inr h"
  shows "fits w h"
proof -
  have "f = 0 \<or> f = 1 \<or> f = 2" using assms(2) by uint_arith
  then show ?thesis using assms by (auto simp: get_PicWidthInMbs_def get_PicHeightInMbs_def fits_def MbWidth_def)
qed

text \<open>
  Claim C16. For the three picture formats that the memory has room for, the filter of a slice that lies in the picture
  returns: no access is out of bounds, no division by zero, no register is stored to, and no
  interrupt is raised on the way. All it changes are samples: the parameters of the
  macroblocks and the registers stay, and so do, although the standard's filter reaches them, the
  samples of the two colour planes that are neither in the first four rows nor in the first
  four columns of their macroblock.
\<close>

theorem filter_slice_safe:
  assumes "length (dl_data l) = FPGA_CHAR_SIZE" "0 \<le> n" "n < 4"
    and "get_format l = Inr f" "f < 3" "get_PicWidthInMbs l = Inr w" "get_PicHeightInMbs l = Inr h"
    and "get_Offset l n = Inr ofs" "get_sliceLength l n = Inr len" "uint ofs + uint len \<le> w * h"
  shows "\<exists>l'. filter_slice n l = Inr (l', [], uint ofs + uint len) \<and> length (dl_data l') = FPGA_CHAR_SIZE
    \<and> dl_irq_stat l' = dl_irq_stat l
    \<and> (\<forall>a. 0 \<le> a \<and> a < 0x40000 \<and> \<not> reached a \<longrightarrow> dl_data l' ! nat a = dl_data l ! nat a)"
proof -
  note fit = picture_fits [OF assms(4-7)]
  have w: "w \<noteq> 0" "0 < w" using fit by (simp_all add: fits_def)
  let ?xf = "(uint ofs smod w) * 16" and ?yf = "(uint ofs sdiv w) * 16"
  have yf: "0 \<le> ?yf" using sdiv_nonneg(1) [of "uint ofs" w] w(2) by (simp add: pos_imp_zdiv_nonneg_iff)
  have "\<exists>s'. for_each (filter_mb w n ?xf ?yf) [uint ofs..uint len + uint ofs - 1] (l, []) = Inr s' \<and> samples_only l s'"
  proof (rule for_each_ok [where P = "samples_only l"])
    show "samples_only l (l, [])" using assms(1) by (simp add: samples_only_def dl_sized_def)
  next
    fix m s assume "m \<in> set [uint ofs..uint len + uint ofs - 1]" and s: "samples_only l s"
    then have m: "uint ofs \<le> m" "m < w * h" using assms(10) by auto
    have "0 \<le> m" using m(1) by (rule order_trans [OF uint_ge_0])
    then show "\<exists>s'. filter_mb w n ?xf ?yf m s = Inr s' \<and> samples_only l s'"
      using filter_mb_ok [OF fit assms(2,3) yf _ m(2) s] by blast
  qed
  then obtain l' where r: "for_each (filter_mb w n ?xf ?yf) [uint ofs..uint len + uint ofs - 1] (l, []) = Inr (l', [])"
    "samples_only l (l', [])" by (metis samples_only_def surjective_pairing)
  have "filter_slice n l = Inr (l', [], uint ofs + uint len)"
    by (simp add: filter_slice_def assms(6,8,9) Let_def w(1) r(1) add.commute [of "uint ofs"])
  then show ?thesis using r(2) by (simp add: samples_only_def dl_sized_def)
qed

definition demo_picture :: dbf_link where
  "demo_picture = \<lparr>dl_data = (replicate FPGA_CHAR_SIZE 0)[0x38012 := 3], dl_irq_stat = 0\<rparr>"

lemma demo_picture_data:
  assumes "0 \<le> a" "a < 0x40000"
  shows "get_data demo_picture a = Inr (if a = 0x38012 then 3 else 0)"
proof -
  have "nat a = 0x38012 \<longleftrightarrow> a = 0x38012" using assms(1) by auto
  moreover have "dl_sized demo_picture" by (simp add: demo_picture_def dl_sized_def)
  ultimately show ?thesis using assms by (simp add: get_data_ok demo_picture_def FPGA_CHAR_SIZE_def nth_list_update)
qed

lemma demo_picture_registers:
  "get_format demo_picture = Inr 0" "get_PicWidthInMbs demo_picture = Inr 8" "get_PicHeightInMbs demo_picture = Inr 6"
  "get_Offset demo_picture 0 = Inr 0" "get_sliceLength demo_picture 0 = Inr 48"
  by (simp_all add: get_format_def get_PicWidthInMbs_def get_PicHeightInMbs_def get_Offset_def get_sliceLength_def
      demo_picture_data dbf_regs MbWidth_def slice_offset_of_def slice_length_of_def)

lemma filter_slice_safe_witness: "\<exists>l'. filter_slice 0 demo_picture = Inr (l', [], 48)"
proof -
  have "length (dl_data demo_picture) = FPGA_CHAR_SIZE" by (simp add: demo_picture_def)
  from filter_slice_safe [OF this _ _ demo_picture_registers(1) _ demo_picture_registers(2-5)] show ?thesis by auto
qed

end
