(* ===== verification/Dbf_Copy.thy ===== *)
theory Dbf_Copy
  imports Dbf_Slice System_Bus
begin

text \<open>
  The copy of the filtered picture to the memory of the platform (\<open>master_request\<close> and the macro
  \<open>SEND_PACK\<close> of \<^verbatim>\<open>dbf/dbf_device.cpp\<close>): the words of the picture in the order of the loops, one
  request for each, and what the requests leave in memory behind a bus that keeps the contract
  \<open>memory_bus\<close>.
\<close>

subsection \<open>The requests\<close>

text \<open>The variables the thread keeps from one request to the next.\<close>

record copy_state =
  cp_req :: vci_request
  cp_adr_dest :: ulong
  cp_b8alg :: bool

text \<open>\<open>SEND_PACK\<close>: the half of \<open>wdata\<close> it does not store keeps the word sent before.\<close>

definition send_pack :: "dbf_link \<Rightarrow> bool \<Rightarrow> nat \<Rightarrow> copy_state \<Rightarrow> (copy_state \<times> vci_request) res" where
  "send_pack l bIncrementAddress reg_addr c =
     bindr (rd_bytes (dl_data l) reg_addr 4) (\<lambda>bs.
     bindr (wr_bytes (rq_wdata (cp_req c)) (if cp_b8alg c then 0 else 4) bs) (\<lambda>wd.
     let req = (cp_req c)\<lparr>rq_be := (if cp_b8alg c then 0x0F else 0xF0), rq_wdata := wd,
           rq_address := (if bIncrementAddress then cp_adr_dest c AND 0xFFFFFFF8 else cp_adr_dest c),
           rq_plen := 1\<rparr>;
         c = (if bIncrementAddress then c\<lparr>cp_adr_dest := cp_adr_dest c + 4, cp_b8alg := \<not> cp_b8alg c\<rparr> else c)
     in Inr (c\<lparr>cp_req := req\<rparr>, req)))"

text \<open>The values of \<open>reg_addr\<close>: luminance, then the two colour planes.\<close>

definition luma_addrs :: "nat \<Rightarrow> nat \<Rightarrow> nat list" where
  "luma_addrs w h = concat (map (\<lambda>k. concat (map (\<lambda>l. concat (map (\<lambda>y. map (\<lambda>x.
     k * w * 0x200 + l * 16 + y * 0x200 + 4 * x) [0..<4]) [0..<w])) [0..<16])) [0..<h])"

definition chroma_addrs :: "nat \<Rightarrow> nat \<Rightarrow> nat \<Rightarrow> nat list" where
  "chroma_addrs c w h = concat (map (\<lambda>k. concat (map (\<lambda>l. concat (map (\<lambda>y. map (\<lambda>x.
     256 + 64 * c + k * w * 0x200 + l * 8 + y * 0x200 + 4 * x) [0..<2]) [0..<w])) [0..<8])) [0..<h])"

definition copy_addrs :: "nat \<Rightarrow> nat \<Rightarrow> nat list" where
  "copy_addrs w h = luma_addrs w h @ chroma_addrs 0 w h @ chroma_addrs 1 w h"

text \<open>The loops, on a bus that answers each request before the next.\<close>

fun copy_run :: "('m \<Rightarrow> vci_request \<Rightarrow> ('m \<times> vci_response) res) \<Rightarrow> dbf_link \<Rightarrow> bool \<Rightarrow> nat list
    \<Rightarrow> copy_state \<Rightarrow> 'm \<Rightarrow> (copy_state \<times> 'm) res" where
  "copy_run bus l inc [] c b = Inr (c, b)"
| "copy_run bus l inc (a # as) c b =
     bindr (send_pack l inc a c) (\<lambda>(c, req). bindr (bus b req) (\<lambda>(b, rsp). copy_run bus l inc as c b))"


subsection \<open>What memory holds afterwards\<close>

definition word_at :: "dbf_link \<Rightarrow> nat \<Rightarrow> u8 list" where
  "word_at l a = take 4 (drop a (dl_data l))"

text \<open>The state between two requests of an incrementing copy: \<open>b8alg\<close> says which half is next.\<close>

definition copy_ok :: "copy_state \<Rightarrow> bool" where
  "copy_ok c \<longleftrightarrow> unat (cp_adr_dest c) mod 4 = 0 \<and> (cp_b8alg c \<longleftrightarrow> unat (cp_adr_dest c) mod 8 = 0)
     \<and> wf_request (cp_req c) \<and> rq_cmd (cp_req c) = CMD_WRITE"

lemma stored_append:
  "stored (a + length xs) ys (stored a xs v) = stored a (xs @ ys) v"
  by (auto simp: fun_eq_iff stored_def nth_append)

lemma stored_nil [simp]: "stored a [] v = v"
  by (auto simp: fun_eq_iff stored_def)

lemma word_half: "x mod 4 = 0 \<Longrightarrow> x mod 8 = 0 \<or> x mod 8 = (4::nat)"
  by presburger

lemma send_pack_ok:
  assumes "copy_ok c" "a + 4 \<le> length (dl_data l)" "unat (cp_adr_dest c) + 4 < 2 ^ 32"
  shows "\<exists>c' req k. send_pack l True a c = Inr (c', req) \<and> copy_ok c' \<and> unat (cp_adr_dest c') = unat (cp_adr_dest c) + 4
    \<and> rq_cmd req = CMD_WRITE \<and> wf_request req \<and> rq_plen req = 1
    \<and> unat (rq_address req) mod 8 = 0
    \<and> be_lane (rq_be req) = Some (k, 4) \<and> unat (rq_address req) + k * 4 = unat (cp_adr_dest c)
    \<and> take 4 (drop (k * 4) (rq_wdata req)) = word_at l a"
proof -
  let ?A = "unat (cp_adr_dest c)"
  have bs: "rd_bytes (dl_data l) a 4 = Inr (word_at l a)" "length (word_at l a) = 4"
    using assms(2) by (simp_all add: rd_bytes_def word_at_def)
  have wd: "length (rq_wdata (cp_req c)) = 8" using assms(1) by (simp add: copy_ok_def wf_request_def)
  have half: "?A mod 8 = 0 \<and> cp_b8alg c \<or> ?A mod 8 = 4 \<and> \<not> cp_b8alg c"
    using assms(1) word_half [of ?A] unfolding copy_ok_def by auto
  have inc: "unat (cp_adr_dest c + 4) = ?A + 4" using assms(3) by (simp add: unat_word_ariths)
  have al: "unat (cp_adr_dest c AND 0xFFFFFFF8) = ?A - ?A mod 8" by (rule and_align8)
  have a8: "(?A - ?A mod 8) mod 8 = 0" by (simp add: minus_mod_eq_mult_div)
  have m4: "(?A + 4) mod 4 = 0" "((?A + 4) mod 8 = 0) = (?A mod 8 = 4)"
    using assms(1) word_half [of ?A] unfolding copy_ok_def by presburger+
  from half show ?thesis
  proof (elim disjE)
    assume "?A mod 8 = 0 \<and> cp_b8alg c"
    then show ?thesis using assms(1) bs wd m4 take_drop_put_bytes [of 0 "word_at l a" "rq_wdata (cp_req c)"]
      by (simp add: send_pack_def wr_bytes_def Let_def copy_ok_def wf_request_def inc al be_lane_def)
  next
    assume "?A mod 8 = 4 \<and> \<not> cp_b8alg c"
    then show ?thesis using assms(1) bs wd m4 a8 take_drop_put_bytes [of 4 "word_at l a" "rq_wdata (cp_req c)"]
        mod_less_eq_dividend [of ?A 8]
      by (simp add: send_pack_def wr_bytes_def Let_def copy_ok_def wf_request_def inc al be_lane_def)
  qed
qed

context memory_bus
begin

lemma copy_run_stores:
  assumes "invar b" "copy_ok c" "\<forall>a\<in>set as. a + 4 \<le> length (dl_data l)"
    and "unat (cp_adr_dest c) + 4 * length as \<le> limit" "limit + 4 \<le> 2 ^ 32"
  shows "\<exists>c' b'. copy_run bus l True as c b = Inr (c', b') \<and> invar b' \<and> copy_ok c'
    \<and> unat (cp_adr_dest c') = unat (cp_adr_dest c) + 4 * length as
    \<and> view b' = stored (unat (cp_adr_dest c)) (concat (map (word_at l) as)) (view b)"
  using assms(1-4)
proof (induction as arbitrary: c b)
  case Nil
  then show ?case by simp
next
  case (Cons a as)
  from Cons.prems(3) have a: "a + 4 \<le> length (dl_data l)" "\<forall>a\<in>set as. a + 4 \<le> length (dl_data l)" by simp_all
  have lim: "unat (cp_adr_dest c) + 4 < 2 ^ 32" using Cons.prems(4) assms(5) unsigned_less [of "cp_adr_dest c", where 'a = nat]
      Cons.prems(2) by (simp add: copy_ok_def)
  from send_pack_ok [OF Cons.prems(2) a(1) lim] obtain c1 req k where
    1: "send_pack l True a c = Inr (c1, req)" "copy_ok c1" "unat (cp_adr_dest c1) = unat (cp_adr_dest c) + 4"
    and req: "rq_cmd req = CMD_WRITE" "wf_request req" "rq_plen req = 1" "unat (rq_address req) mod 8 = 0"
    and lane: "be_lane (rq_be req) = Some (k, 4)" "unat (rq_address req) + k * 4 = unat (cp_adr_dest c)"
      "take 4 (drop (k * 4) (rq_wdata req)) = word_at l a" by (elim exE conjE) (rule that)
  have "unat (rq_address req) + 8 \<le> limit" using lane(2) req(4) Cons.prems(4) limit8 by simp presburger
  from bus_write [OF Cons.prems(1) req(1) lane(1) req(4) this req(2,3)] obtain b1 rsp where
    b1: "bus b req = Inr (b1, rsp)" "invar b1"
      "view b1 = stored (unat (cp_adr_dest c)) (word_at l a) (view b)" using lane by auto
  have "unat (cp_adr_dest c1) + 4 * length as \<le> limit" using Cons.prems(4) 1(3) by simp
  from Cons.IH [OF b1(2) 1(2) a(2) this] obtain c' b' where
    2: "copy_run bus l True as c1 b1 = Inr (c', b')" "invar b'" "copy_ok c'"
      "unat (cp_adr_dest c') = unat (cp_adr_dest c1) + 4 * length as"
      "view b' = stored (unat (cp_adr_dest c1)) (concat (map (word_at l) as)) (view b1)" by blast
  have w: "length (word_at l a) = 4" using a(1) by (simp add: word_at_def)
  have "view b' = stored (unat (cp_adr_dest c)) (concat (map (word_at l) (a # as))) (view b)"
    using 2(5) stored_append [of "unat (cp_adr_dest c)" "word_at l a"] by (simp add: b1(3) 1(3) w)
  with 1 2 b1(1) show ?case by simp
qed

end

subsection \<open>The picture in raster order\<close>

text \<open>A plane of \<open>W\<close> by \<open>H\<close> samples, row by row; the picture as its three planes.\<close>

definition plane :: "(nat \<Rightarrow> nat \<Rightarrow> u8) \<Rightarrow> nat \<Rightarrow> nat \<Rightarrow> u8 list" where
  "plane g W H = concat (map (\<lambda>Y. map (\<lambda>X. g X Y) [0..<W]) [0..<H])"

definition picture :: "dbf_link \<Rightarrow> nat \<Rightarrow> nat \<Rightarrow> u8 list" where
  "picture l w h =
     plane (\<lambda>X Y. dl_data l ! nat (L_addr (int w) (int X) (int Y))) (w * 16) (h * 16)
     @ plane (\<lambda>X Y. dl_data l ! nat (C_addr (int w) 0 (int X) (int Y))) (w * 8) (h * 8)
     @ plane (\<lambda>X Y. dl_data l ! nat (C_addr (int w) 1 (int X) (int Y))) (w * 8) (h * 8)"

lemma concat_blocks:
  assumes "0 < m"
  shows "concat (map (\<lambda>j. map (g j) [0..<m]) [0..<n]) = map (\<lambda>i. g (i div m) (i mod m)) [0..<n * m]"
proof (induction n)
  case (Suc n)
  have "[0..<Suc n * m] = [0..<n * m] @ [n * m..<n * m + m]"
    using upt_add_eq_append [of 0 "n * m" m] by (simp add: add.commute)
  moreover have "map (\<lambda>i. g (i div m) (i mod m)) [n * m..<n * m + m] = map (g n) [0..<m]"
    using assms by (intro nth_equalityI) (simp_all add: mult.commute [of n])
  ultimately show ?case using Suc by simp
qed simp

lemma concat_map_concat: "concat (map f (concat (map g xs))) = concat (map (\<lambda>x. concat (map f (g x))) xs)"
  by (induction xs) simp_all

lemma words_of_row:
  assumes "\<And>x. x < n \<Longrightarrow> a + 4 * x + 4 \<le> length (dl_data l)"
  shows "concat (map (\<lambda>x. word_at l (a + 4 * x)) [0..<n]) = map (\<lambda>i. dl_data l ! (a + i)) [0..<n * 4]"
proof -
  have "word_at l (a + 4 * x) = map (\<lambda>i. dl_data l ! (a + (4 * x + i))) [0..<4]" if "x < n" for x
    using assms [OF that] by (intro nth_equalityI) (simp_all add: word_at_def add.assoc)
  then have "concat (map (\<lambda>x. word_at l (a + 4 * x)) [0..<n])
      = concat (map (\<lambda>x. map (\<lambda>i. dl_data l ! (a + (4 * x + i))) [0..<4]) [0..<n])"
    by (intro arg_cong [where f = concat] map_cong) simp_all
  also have "\<dots> = map (\<lambda>i. dl_data l ! (a + (4 * (i div 4) + i mod 4))) [0..<n * 4]"
    by (rule concat_blocks) simp
  finally show ?thesis by simp
qed

text \<open>A plane stored in macroblocks of \<open>r\<close> rows of \<open>m\<close> words, \<open>base\<close> bytes from the macroblock's start.\<close>

definition plane_addrs :: "nat \<Rightarrow> nat \<Rightarrow> nat \<Rightarrow> nat \<Rightarrow> nat \<Rightarrow> nat list" where
  "plane_addrs base m r w h = concat (map (\<lambda>k. concat (map (\<lambda>l. concat (map (\<lambda>y. map (\<lambda>x.
     base + k * w * 0x200 + l * (m * 4) + y * 0x200 + 4 * x) [0..<m]) [0..<w])) [0..<r])) [0..<h])"

lemma plane_words:
  assumes "0 < m" "0 < r"
    and "\<And>k i y x. k < h \<Longrightarrow> i < r \<Longrightarrow> y < w \<Longrightarrow> x < m \<Longrightarrow>
      base + k * w * 0x200 + i * (m * 4) + y * 0x200 + 4 * x + 4 \<le> length (dl_data l)"
    and "\<And>X Y. X < w * (m * 4) \<Longrightarrow> Y < h * r \<Longrightarrow>
      g X Y = dl_data l ! (base + (Y div r) * w * 0x200 + (Y mod r) * (m * 4) + (X div (m * 4)) * 0x200 + X mod (m * 4))"
  shows "concat (map (word_at l) (plane_addrs base m r w h)) = plane g (w * (m * 4)) (h * r)"
proof -
  let ?line = "\<lambda>k i. concat (map (\<lambda>y. map (\<lambda>x. base + k * w * 0x200 + i * (m * 4) + y * 0x200 + 4 * x) [0..<m]) [0..<w])"
  have line: "concat (map (word_at l) (?line k i)) = map (\<lambda>X. g X (k * r + i)) [0..<w * (m * 4)]"
    if "k < h" "i < r" for k i
  proof -
    have Y: "(k * r + i) div r = k" "(k * r + i) mod r = i" using that assms(2) by simp_all
    have "k * r + i < (k + 1) * r" using that by simp
    also have "\<dots> \<le> h * r" using that by (intro mult_right_mono) simp_all
    finally have lt: "k * r + i < h * r" .
    have "concat (map (word_at l) (?line k i))
        = concat (map (\<lambda>y. concat (map (\<lambda>x. word_at l (base + k * w * 0x200 + i * (m * 4) + y * 0x200 + 4 * x)) [0..<m])) [0..<w])"
      by (simp add: concat_map_concat o_def)
    also have "\<dots> = concat (map (\<lambda>y. map (\<lambda>j. dl_data l ! (base + k * w * 0x200 + i * (m * 4) + y * 0x200 + j)) [0..<m * 4]) [0..<w])"
      using assms(3) [OF that] by (intro arg_cong [where f = concat] map_cong words_of_row) simp_all
    also have "\<dots> = map (\<lambda>X. g X (k * r + i)) [0..<w * (m * 4)]"
      using assms(1) lt that(2) by (subst concat_blocks) (simp_all add: assms(4) Y)
    finally show ?thesis .
  qed
  have "concat (map (word_at l) (plane_addrs base m r w h))
      = concat (map (\<lambda>k. concat (map (\<lambda>i. concat (map (word_at l) (?line k i))) [0..<r])) [0..<h])"
    unfolding plane_addrs_def by (simp only: concat_map_concat)
  also have "\<dots> = concat (map (\<lambda>k. concat (map (\<lambda>i. map (\<lambda>X. g X (k * r + i)) [0..<w * (m * 4)]) [0..<r])) [0..<h])"
    using line by (intro arg_cong [where f = concat] map_cong) simp_all
  also have "\<dots> = plane g (w * (m * 4)) (h * r)" unfolding plane_def by (rule concat_rows)
  finally show ?thesis .
qed

lemma copy_addrs_planes:
  "copy_addrs w h = plane_addrs 0 4 16 w h @ plane_addrs 256 2 8 w h @ plane_addrs 320 2 8 w h"
  by (simp add: copy_addrs_def luma_addrs_def chroma_addrs_def plane_addrs_def)

lemma plane_addr_bound:
  assumes "k < h" "y < w" "w * h \<le> 416" "b + n < (512::nat)"
  shows "b + k * w * 512 + y * 512 + n < 0x34000"
proof -
  have "k * w + y < (k + 1) * w" using assms(2) by simp
  also have "\<dots> \<le> h * w" using assms(1) by (intro mult_right_mono) simp_all
  finally have "k * w + y + 1 \<le> 416" using assms(3) by (simp add: mult.commute)
  then have "(k * w + y + 1) * 512 \<le> 416 * 512" by (rule mult_right_mono) simp
  then show ?thesis using assms(4) by (simp add: algebra_simps)
qed

lemma L_addr_nat:
  "nat (L_addr (int w) (int X) (int Y)) = (Y div 16) * w * 0x200 + (Y mod 16) * 16 + (X div 16) * 0x200 + X mod 16"
proof -
  have "L_addr (int w) (int X) (int Y) = int ((Y div 16) * w * 0x200 + (Y mod 16) * 16 + (X div 16) * 0x200 + X mod 16)"
    by (simp add: L_addr_def Let_def sdiv_nonneg dbf_offsets MbWidth_def zdiv_int zmod_int algebra_simps)
  then show ?thesis by (simp only: nat_int)
qed

lemma C_addr_nat:
  "nat (C_addr (int w) (int c) (int X) (int Y)) =
    256 + 64 * c + (Y div 8) * w * 0x200 + (Y mod 8) * 8 + (X div 8) * 0x200 + X mod 8"
proof -
  have u: "uint ((of_int ((int Y mod 8) * 16) :: u32) div 2) = (int Y mod 8) * 8"
  proof -
    have "(int Y mod 8) * 16 < 2 ^ 32"
      using pos_mod_bound [of 8 "int Y"] by (simp del: pos_mod_bound)
    then have "uint (of_int ((int Y mod 8) * 16) :: u32) = (int Y mod 8) * 16" by (intro uint_address) simp_all
    then show ?thesis by (simp add: uint_div_distrib del: of_int_mult)
  qed
  have "C_addr (int w) (int c) (int X) (int Y)
      = int (256 + 64 * c + (Y div 8) * w * 0x200 + (Y mod 8) * 8 + (X div 8) * 0x200 + X mod 8)"
    unfolding C_addr_def Let_def sdiv_nonneg [OF of_nat_0_le_iff, of 8, simplified] MbWidth_def u
    by (simp add: dbf_offsets zdiv_int zmod_int algebra_simps)
  then show ?thesis by (simp only: nat_int)
qed

text \<open>The words of the loops, one after the other, are the three planes row by row.\<close>

lemma copy_words_picture:
  assumes "dl_sized l" "w * h \<le> 416"
  shows "concat (map (word_at l) (copy_addrs w h)) = picture l w h"
    and "\<forall>a\<in>set (copy_addrs w h). a + 4 \<le> length (dl_data l)"
    and "4 * length (copy_addrs w h) = 384 * (w * h)"
proof -
  have len: "length (dl_data l) = 0x40000" using assms(1) by (simp add: dl_sized_def FPGA_CHAR_SIZE_def)
  have B: "b + k * w * 0x200 + i * (m * 4) + y * 0x200 + 4 * x + 4 \<le> length (dl_data l)"
    if "k < h" "i < r" "y < w" "x < m" "b + r * (m * 4) \<le> 512" for b k i y x m r :: nat
  proof -
    have "4 * x + 4 \<le> m * 4" using that(4) by simp
    then have "i * (m * 4) + (4 * x + 4) \<le> (i + 1) * (m * 4)" by simp
    also have "\<dots> \<le> r * (m * 4)" using that(2) by (intro mult_right_mono) simp_all
    finally have "b + (i * (m * 4) + 4 * x + 3) < 512" using that(5) by simp
    from plane_addr_bound [OF that(1,3) assms(2) this] show ?thesis unfolding len by simp
  qed
  have luma: "concat (map (word_at l) (plane_addrs 0 4 16 w h))
      = plane (\<lambda>X Y. dl_data l ! nat (L_addr (int w) (int X) (int Y))) (w * (4 * 4)) (h * 16)"
    by (rule plane_words) (use B [where b = 0 and m = 4 and r = 16] in \<open>simp_all add: L_addr_nat\<close>)
  have cb: "concat (map (word_at l) (plane_addrs 256 2 8 w h))
      = plane (\<lambda>X Y. dl_data l ! nat (C_addr (int w) (int 0) (int X) (int Y))) (w * (2 * 4)) (h * 8)"
    by (rule plane_words) (use B [where b = 256 and m = 2 and r = 8] in \<open>simp_all add: C_addr_nat [of w 0, simplified]\<close>)
  have cr: "concat (map (word_at l) (plane_addrs 320 2 8 w h))
      = plane (\<lambda>X Y. dl_data l ! nat (C_addr (int w) (int 1) (int X) (int Y))) (w * (2 * 4)) (h * 8)"
    by (rule plane_words) (use B [where b = 320 and m = 2 and r = 8] in \<open>simp_all add: C_addr_nat [of w 1, simplified]\<close>)
  show "concat (map (word_at l) (copy_addrs w h)) = picture l w h"
    unfolding copy_addrs_planes picture_def map_append concat_append luma cb cr by simp
  show "\<forall>a\<in>set (copy_addrs w h). a + 4 \<le> length (dl_data l)"
    unfolding copy_addrs_planes using B [where b = 0 and m = 4 and r = 16] B [where b = 256 and m = 2 and r = 8]
      B [where b = 320 and m = 2 and r = 8] by (auto simp: plane_addrs_def)
  have "length (plane_addrs b m r w h) = h * (r * (w * m))" for b m r
    by (simp add: plane_addrs_def length_concat o_def sum_list_triv)
  then show "4 * length (copy_addrs w h) = 384 * (w * h)" by (simp add: copy_addrs_planes)
qed

end
