(* ===== verification/Dbf_Interrupt.thy ===== *)
theory Dbf_Interrupt
  imports Dbf_Slice
begin

text \<open>
  The interrupt of the deblocking filter: an invariant of its memory that says the interrupt is pending
  exactly if an enabled bit of the status register is set, and that every store of \<open>set_data\<close> keeps
  it as long as the slices that are cleared lie in the picture.
\<close>

subsection \<open>The interrupt follows the status\<close>

definition dl_status :: "dbf_link \<Rightarrow> u8" where
  "dl_status l = dl_data l ! nat REG_INT_STATUS"

definition dl_enable :: "dbf_link \<Rightarrow> u8" where
  "dl_enable l = dl_data l ! nat REG_INT_ENABLE"

text \<open>An interrupt is pending exactly if an enabled bit of the status is set; while a status bit is set, the first half.\<close>

definition link_pre :: "dbf_link \<Rightarrow> bool" where
  "link_pre l \<longleftrightarrow> dl_sized l \<and> dl_enable l AND 0x80 = 0 \<and> (dl_irq_stat l \<noteq> 0 \<longrightarrow> dl_status l AND dl_enable l \<noteq> 0)"

definition link_inv :: "dbf_link \<Rightarrow> bool" where
  "link_inv l \<longleftrightarrow> link_pre l \<and> (dl_status l AND dl_enable l \<noteq> 0 \<longrightarrow> dl_irq_stat l \<noteq> 0)"

text \<open>The slice \<open>n\<close> as it is programmed lies in the picture, and the picture in the memory.\<close>

definition slice_fits :: "dbf_link \<Rightarrow> int \<Rightarrow> bool" where
  "slice_fits l n = (case (get_format l, get_PicWidthInMbs l, get_PicHeightInMbs l, get_Offset l n, get_sliceLength l n) of
     (Inr f, Inr w, Inr h, Inr ofs, Inr len) \<Rightarrow> f < 3 \<and> uint ofs + uint len \<le> w * h | _ \<Rightarrow> False)"

lemma slice_fitsD:
  assumes "slice_fits l n"
  obtains f w h ofs len where "get_format l = Inr f" "f < 3" "get_PicWidthInMbs l = Inr w" "get_PicHeightInMbs l = Inr h"
    "get_Offset l n = Inr ofs" "get_sliceLength l n = Inr len" "uint ofs + uint len \<le> w * h"
  using assms by (auto simp: slice_fits_def split: sum.splits prod.splits)

lemma slice_fits_cong:
  assumes "dl_sized l" "dl_sized l'" "0 \<le> n" "n < 4"
    and "\<And>k. k = 0x34004 \<or> 0x38010 + 16 * nat n \<le> k \<and> k < 0x38018 + 16 * nat n \<Longrightarrow> dl_data l' ! k = dl_data l ! k"
  shows "slice_fits l' n = slice_fits l n"
proof -
  have g: "get_data l' a = get_data l a" if "a = 0x34004 \<or> 0x38010 + 16 * n \<le> a \<and> a < 0x38018 + 16 * n" for a
    using that assms by (auto simp: get_data_ok intro!: assms(5))
  have f: "get_format l' = get_format l" by (simp add: get_format_def dbf_regs g)
  show ?thesis
    by (simp add: slice_fits_def f get_PicWidthInMbs_def get_PicHeightInMbs_def get_Offset_def get_sliceLength_def dbf_regs g)
qed

lemma raw_get_InrD: "raw_get l a = Inr v \<Longrightarrow> v = dl_data l ! nat a"
  by (auto simp: raw_get_def rd_eq_Inr split: if_splits)

lemma raw_set_InrD:
  "raw_set l a v = Inr l' \<Longrightarrow> 0 \<le> a \<and> l' = l\<lparr>dl_data := (dl_data l)[nat a := v]\<rparr>"
  by (auto simp: raw_set_def bindr_eq_Inr wr_def split: if_splits)

lemma link_status_enable:
  assumes "0 \<le> a" "a \<noteq> REG_INT_STATUS" "a \<noteq> REG_INT_ENABLE"
  shows "dl_status (l\<lparr>dl_data := (dl_data l)[nat a := v]\<rparr>) = dl_status l"
    and "dl_enable (l\<lparr>dl_data := (dl_data l)[nat a := v]\<rparr>) = dl_enable l"
  using assms by (auto simp: dl_status_def dl_enable_def dbf_regs nth_list_update eq_nat_nat_iff)

lemma link_inv_other:
  assumes "link_inv l" "0 \<le> a" "a \<noteq> REG_INT_STATUS" "a \<noteq> REG_INT_ENABLE"
  shows "link_inv (l\<lparr>dl_data := (dl_data l)[nat a := v]\<rparr>)"
  using assms(1) by (simp add: link_inv_def link_pre_def link_status_enable [OF assms(2-4)])

text \<open>What a clear of a slice in the picture keeps: all bytes from the registers on.\<close>

lemma slice_fits_block:
  assumes "slice_fits l n"
  obtains ofs len where "get_Offset l n = Inr ofs" "get_sliceLength l n = Inr len" "uint ofs + uint len \<le> 416"
proof -
  from slice_fitsD [OF assms] obtain f w h ofs len where s: "get_format l = Inr f" "f < 3" "get_PicWidthInMbs l = Inr w"
    "get_PicHeightInMbs l = Inr h" "get_Offset l n = Inr ofs" "get_sliceLength l n = Inr len" "uint ofs + uint len \<le> w * h" .
  from picture_fits [OF s(1-4)] have "w * h \<le> 416" by (simp add: fits_def)
  with s(5-7) show ?thesis by (intro that [OF s(5,6)]) linarith
qed

lemma clear_slice_keeps:
  assumes "dl_sized l" "0 \<le> n" "n < 4" "slice_fits l n"
  shows "\<exists>l'. clear_slice l n = Inr l' \<and> dl_sized l' \<and> dl_irq_stat l' = dl_irq_stat l
    \<and> (\<forall>k\<ge>0x34000. dl_data l' ! k = dl_data l ! k)"
proof -
  from slice_fits_block [OF assms(4)] obtain ofs len where
    s: "get_Offset l n = Inr ofs" "get_sliceLength l n = Inr len" "uint ofs + uint len \<le> 416" .
  let ?P = "\<lambda>l'. dl_sized l' \<and> dl_irq_stat l' = dl_irq_stat l \<and> (\<forall>k\<ge>0x34000. dl_data l' ! k = dl_data l ! k)"
  have g: "raw_get l a = get_data l a" if "0x38010 \<le> a" "a < 0x40000" for a
    using that assms(1) by (simp add: raw_get_ok get_data_ok)
  have "\<exists>l'. for_each (\<lambda>a l. raw_set l a (clear_byte a)) [uint ofs * MB_BLOCK_SIZE..(uint ofs + uint len) * MB_BLOCK_SIZE - 1] l
      = Inr l' \<and> ?P l'"
  proof (rule for_each_ok [where P = ?P])
    fix a l' assume "a \<in> set [uint ofs * MB_BLOCK_SIZE..(uint ofs + uint len) * MB_BLOCK_SIZE - 1]" and p: "?P l'"
    then have a: "uint ofs * 512 \<le> a" "a < (uint ofs + uint len) * 512" by (auto simp: MB_BLOCK_SIZE_def)
    have "(uint ofs + uint len) * 512 \<le> 416 * 512" using s(3) by (rule mult_right_mono) simp
    with a have "0 \<le> a" "a < 0x34000" using uint_ge_0 [of ofs] by linarith+
    then show "\<exists>l''. raw_set l' a (clear_byte a) = Inr l'' \<and> ?P l''" using p by (simp add: raw_set_ok)
  qed (use assms(1) in simp)
  moreover have "clear_slice l n = for_each (\<lambda>a l. raw_set l a (clear_byte a))
      [uint ofs * MB_BLOCK_SIZE..(uint ofs + uint len) * MB_BLOCK_SIZE - 1] l"
    using s(1,2) assms(2,3) by (auto simp: clear_slice_def Let_def get_Offset_def get_sliceLength_def dbf_regs g bindr_eq_Inr)
  ultimately show ?thesis by simp
qed


text \<open>What a store changes: \<open>es\<close> is what it notifies.\<close>

definition link_step :: "dbf_link \<Rightarrow> dbf_link \<Rightarrow> dbf_event list \<Rightarrow> bool" where
  "link_step l l' es \<longleftrightarrow> link_inv l' \<and> (dl_irq_stat l' = dl_irq_stat l \<or> DbfIrqUpdate \<in> set es)
     \<and> (\<forall>i. DbfSlice i \<in> set es \<longrightarrow> i < 4)"

lemma slice_of_reg_Some: "slice_of_reg a reg = Some n \<Longrightarrow> n < 4 \<and> a = reg + 16 * int n"
  by (auto simp: slice_of_reg_def find_Some_iff SLICE_OFFSET_def N_SLICE_THREADS_def)

lemma set_int_enable_reg_step:
  assumes "link_inv l" "set_int_enable_reg l v = Inr (l', es)"
  shows "link_step l l' es" "\<forall>k. k \<noteq> 0x3900C \<longrightarrow> dl_data l' ! k = dl_data l ! k"
proof -
  have sz: "dl_sized l" using assms(1) by (simp add: link_inv_def link_pre_def)
  then have len: "0x3900C < length (dl_data l)" by (simp add: dl_sized_def FPGA_CHAR_SIZE_def)
  have mask: "(v AND 0x7F) AND 0x80 = 0" by (simp add: and.assoc)
  show "link_step l l' es" "\<forall>k. k \<noteq> 0x3900C \<longrightarrow> dl_data l' ! k = dl_data l ! k"
    using assms mask len
    by (auto simp: set_int_enable_reg_def Let_def bindr_eq_Inr link_step_def link_inv_def link_pre_def
        dl_status_def dl_enable_def dl_sized_def dbf_regs nth_list_update dest!: raw_get_InrD raw_set_InrD split: if_splits)
qed


lemma ack_int_step:
  assumes "link_inv l" "ack_int l v = Inr (l', es)"
  shows "link_step l l' es" "\<forall>k. k \<noteq> 0x39008 \<longrightarrow> dl_data l' ! k = dl_data l ! k"
proof -
  have sz: "dl_sized l" and e: "dl_enable l AND 0x80 = 0" using assms(1) by (simp_all add: link_inv_def link_pre_def)
  then have len: "0x39008 < length (dl_data l)" by (simp add: dl_sized_def FPGA_CHAR_SIZE_def)
  let ?s = "dl_status l" and ?e = "dl_enable l"
  define s' where "s' = (if ?s AND (NOT v OR 0x80) = 0x80 then 0 else ?s AND (NOT v OR 0x80))"
  have g: "raw_get l REG_INT_STATUS = Inr ?s" "raw_get l REG_INT_ENABLE = Inr ?e"
    by (simp_all add: raw_get_ok sz dl_status_def dl_enable_def dbf_regs)
  have set: "raw_set l REG_INT_STATUS s' = Inr (l\<lparr>dl_data := (dl_data l)[0x39008 := s']\<rparr>)"
    by (simp add: raw_set_ok sz dbf_regs)
  let ?l = "l\<lparr>dl_data := (dl_data l)[0x39008 := s']\<rparr>"
  have eq: "ack_int l v = (if v AND ?s AND ?e \<noteq> 0
      then if s' AND ?e = 0 then Inr (?l\<lparr>dl_irq_stat := 0\<rparr>, [DbfIrqUpdate]) else Inr (?l, []) else Inr (l, []))"
    by (simp add: ack_int_def g Let_def s'_def [symmetric] set)
  have acked: "dl_irq_stat l \<noteq> 0" if "v AND ?s AND ?e \<noteq> 0"
    using that assms(1) by (auto simp: link_inv_def link_pre_def)
  have s1: "dl_status ?l = s'" "dl_enable ?l = ?e"
    using len by (simp_all add: dl_status_def dl_enable_def dbf_regs)
  have new: "dl_status (?l\<lparr>dl_irq_stat := 0\<rparr>) = s'" "dl_enable (?l\<lparr>dl_irq_stat := 0\<rparr>) = ?e" "dl_sized (?l\<lparr>dl_irq_stat := 0\<rparr>)"
    using s1 sz by (simp_all add: dl_status_def dl_enable_def dl_sized_def)
  have r: "l' = fst (projr (ack_int l v))" "es = snd (projr (ack_int l v))" using assms(2) by simp_all
  have "link_step l l' es \<and> (\<forall>k. k \<noteq> 0x39008 \<longrightarrow> dl_data l' ! k = dl_data l ! k)"
  proof (cases "v AND ?s AND ?e = 0")
    case True
    have "l' = l" "es = []" unfolding r eq using True by simp_all
    then show ?thesis using assms(1) by (simp add: link_step_def)
  next
    case ack: False
    show ?thesis
    proof (cases "s' AND ?e = 0")
      case True
      have l': "l' = ?l\<lparr>dl_irq_stat := 0\<rparr>" "es = [DbfIrqUpdate]" unfolding r eq using ack True by simp_all
      show ?thesis unfolding l' using True new e by (simp add: link_step_def link_inv_def link_pre_def)
    next
      case False
      have l': "l' = ?l" "es = []" unfolding r eq using ack False by simp_all
      show ?thesis unfolding l' using False acked [OF ack] s1 sz e by (simp add: link_step_def link_inv_def link_pre_def)
    qed
  qed
  then show "link_step l l' es" "\<forall>k. k \<noteq> 0x39008 \<longrightarrow> dl_data l' ! k = dl_data l ! k" by blast+
qed

text \<open>Every store keeps the invariant, if it clears only a slice that fits; all other registers stay.\<close>

lemma set_data_step:
  assumes "link_inv l" "0 \<le> a" "a < 2 ^ 32" "set_data l a v = Inr (l', es)"
    and "\<And>n. slice_of_reg a REG_SLI_CLEAR = Some n \<Longrightarrow> slice_fits l (int n)"
  shows "link_step l l' es"
    and "\<forall>k\<ge>0x34000. k \<noteq> nat a \<and> k \<noteq> 0x39008 \<and> k \<noteq> 0x3900C \<longrightarrow> dl_data l' ! k = dl_data l ! k"
proof -
  let ?l = "l\<lparr>dl_data := (dl_data l)[nat a := v]\<rparr>"
  note u = uint_address [OF assms(2,3)]
  have sz: "dl_sized l" using assms(1) by (simp add: link_inv_def link_pre_def)
  have goal: "link_step l l' es \<and>
    (\<forall>k\<ge>0x34000. k \<noteq> nat a \<and> k \<noteq> 0x39008 \<and> k \<noteq> 0x3900C \<longrightarrow> dl_data l' ! k = dl_data l ! k)"
  proof (cases "a = REG_INT_STATUS \<or> a = REG_NSLICES \<or> a = REG_INT_ENABLE")
    case True
    then show ?thesis
      using assms(1,4) set_int_enable_reg_step [OF assms(1), of v l' es]
      by (auto simp: set_data_def Let_def u link_step_def split: if_splits)
  next
    case False
    have l: "link_inv ?l" by (rule link_inv_other [OF assms(1,2)]) (use False in auto)
    have same: "link_step l ?l es'" if "\<forall>i. DbfSlice i \<in> set es' \<longrightarrow> i < 4" for es'
      using that l by (simp add: link_step_def)
    have "0 \<le> a \<and> raw_set l a v = Inr ?l"
      using assms(4) False raw_set_InrD [of l a v] by (auto simp: set_data_def Let_def u bindr_eq_Inr split: if_splits)
    then have eq: "(if a = REG_INT_ACK then ack_int ?l v
        else case slice_of_reg a REG_SLI_FILLOW of
          Some i \<Rightarrow> Inr (?l, [DbfSlice i])
        | None \<Rightarrow> (case slice_of_reg a REG_SLI_CLEAR of
             Some i \<Rightarrow> bindr (clear_slice ?l (int i)) (\<lambda>l. bindr (raw_set l a 0) (\<lambda>l. Inr (l, [])))
           | None \<Rightarrow> Inr (?l, if a = REG_FRA_SRAM \<and> v = 1 then [DbfSendSram] else []))) = Inr (l', es)"
      using assms(4) False by (auto simp: set_data_def Let_def u split: if_splits)
    show ?thesis
    proof (cases "a = REG_INT_ACK")
      case True
      then have "ack_int ?l v = Inr (l', es)" using eq by simp
      from ack_int_step [OF l this] show ?thesis by (auto simp: link_step_def)
    next
      case ack: False
      show ?thesis
      proof (cases "slice_of_reg a REG_SLI_FILLOW")
        case (Some i)
        then show ?thesis using eq ack same [of es] slice_of_reg_Some [OF Some] by auto
      next
        case fil: None
        show ?thesis
        proof (cases "slice_of_reg a REG_SLI_CLEAR")
          case None
          then show ?thesis using eq ack fil same [of es] by (auto split: if_splits)
        next
          case (Some n)
          from slice_of_reg_Some [OF Some] have n: "n < 4" "a = 0x3801C + 16 * int n" by (simp_all add: dbf_regs)
          have szl: "dl_sized ?l" using sz by simp
          have "slice_fits ?l (int n) = slice_fits l (int n)"
            by (rule slice_fits_cong [OF sz szl]) (use n in \<open>auto simp: nth_list_update\<close>)
          with assms(5) [OF Some] have "slice_fits ?l (int n)" by simp
          from clear_slice_keeps [OF szl _ _ this] n(1) obtain l1 where
            l1: "clear_slice ?l (int n) = Inr l1" "dl_sized l1" "dl_irq_stat l1 = dl_irq_stat l"
              "\<forall>k\<ge>0x34000. dl_data l1 ! k = dl_data ?l ! k" by auto
          have "link_inv l1" using l l1 by (auto simp: link_inv_def link_pre_def dl_status_def dl_enable_def dbf_regs)
          from link_inv_other [OF this assms(2), of 0] False
          have "link_inv (l1\<lparr>dl_data := (dl_data l1)[nat a := 0]\<rparr>)" by simp
          moreover have "l' = l1\<lparr>dl_data := (dl_data l1)[nat a := 0]\<rparr>" "es = []"
            using eq ack fil Some l1(1) n raw_set_ok [OF l1(2), of a 0] by auto
          ultimately show ?thesis using l1(3,4) by (auto simp: link_step_def nth_list_update)
        qed
      qed
    qed
  qed
  show "link_step l l' es" using goal by blast
  show "\<forall>k\<ge>0x34000. k \<noteq> nat a \<and> k \<noteq> 0x39008 \<and> k \<noteq> 0x3900C \<longrightarrow> dl_data l' ! k = dl_data l ! k" using goal by blast
qed

end
