(* ===== verification/Dbf_Device.thy ===== *)
theory Dbf_Device
  imports Dbf_Copy Dbf_Interrupt
begin

text \<open>
  The threads of the deblocking filter (\<^verbatim>\<open>class dbf_device\<close> of \<^verbatim>\<open>dbf/dbf_device.cpp\<close>): the
  requests of the processors, the four slice threads, the copy to the memory of the platform and the
  interrupt line. A notified event stays in \<open>db_events\<close> until it is delivered; a thread that
  is not waiting for it misses it. The steps between two waits are the constructors of
  \<open>dbf_act\<close>; the energy trace is compiled in, as on the platforms.
\<close>

subsection \<open>State\<close>

datatype copy_thread = CopyWaiting | CopyWoken | Copying bool "nat list" copy_state

text \<open>
  \<open>db_woken\<close>: the slice threads whose event has come; \<open>db_filtering\<close>: those in the \<open>wait\<close> of
  \<open>filter_slice\<close>. \<open>db_req\<close> is the local \<open>req\<close> of the copy. The static counter of the slice threads makes
  them 0 to 3 of the one device a platform has.
\<close>

record dbf_device =
  db_link :: dbf_link
  db_master_id :: u32
  db_request :: vci_request
  db_response :: vci_response
  db_NB_SLICES :: u8
  db_etrace_crt_mode :: int
  db_irq :: bool
  db_events :: "dbf_event list"
  db_woken :: "nat list"
  db_filtering :: "nat list"
  db_copy :: copy_thread
  db_req :: vci_request

datatype dbf_out = DbfPutRsp vci_response | DbfPutReq vci_request | DbfIrq bool | DbfEnergyMode int

text \<open>
  The constructor and the start of the threads: \<open>request\<close> clears the memory, the first slice thread
  the interrupt, and the copy prepares its request. The rest of the requests and of the response is
  not initialised: arguments.
\<close>

definition dbf_device_new :: "u32 \<Rightarrow> vci_request \<Rightarrow> vci_response \<Rightarrow> vci_request \<Rightarrow> dbf_device" where
  "dbf_device_new master_id req0 rsp0 req = \<lparr>
     db_link = \<lparr>dl_data = [], dl_irq_stat = 0\<rparr>, db_master_id = master_id,
     db_request = req0, db_response = rsp0, db_NB_SLICES = 0, db_etrace_crt_mode = 0, db_irq = False,
     db_events = [], db_woken = [], db_filtering = [], db_copy = CopyWaiting, db_req = req\<rparr>"

definition dbf_start_threads :: "dbf_device \<Rightarrow> dbf_device" where
  "dbf_start_threads d = d\<lparr>
     db_link := (dbf_link_init (db_link d))\<lparr>dl_irq_stat := 0\<rparr>,
     db_events := db_events d @ [DbfIrqUpdate],
     db_req := (db_req d)\<lparr>rq_trdid := 1, rq_srcid := ucast (db_master_id d), rq_cmd := 2, rq_eop := True\<rparr>\<rparr>"

subsection \<open>Requests\<close>

definition dbf_get_offset :: "u8 \<Rightarrow> (nat \<times> nat) res" where
  "dbf_get_offset be =
     bindr (skip_zeros (unat be) 0) (\<lambda>(be, offs). let (be, cnt) = take_ones be 0 in Inr (offs, cnt))"

definition handle_request :: "dbf_device \<Rightarrow> dbf_device res" where
  "handle_request d =
     (let address = uint (rq_address (db_request d)); cmd = rq_cmd (db_request d); be = rq_be (db_request d) in
      bindr (if cmd = 1 then
               bindr (dbf_get_offset be) (\<lambda>(offset, cnt).
               bindr (for_each (\<lambda>i rdata. bindr (get_data (db_link d) (address + int i)) (\<lambda>b. wr rdata i b))
                        [offset..<offset + cnt] (rs_rdata (db_response d))) (\<lambda>rdata.
               Inr (d\<lparr>db_response := (db_response d)\<lparr>rs_rdata := rdata, rs_rerror := False, rs_rbe := be\<rparr>\<rparr>)))
             else if cmd = 2 then
               bindr (dbf_get_offset be) (\<lambda>(offset, cnt).
               bindr (for_each (\<lambda>i s. bindr (rd (rq_wdata (db_request d)) i)
                                       (\<lambda>b. and_then (\<lambda>l. set_data l (address + int i) b) s))
                        [offset..<offset + cnt] (db_link d, [])) (\<lambda>(l, es).
               Inr (d\<lparr>db_link := l, db_events := db_events d @ es,
                      db_response := (db_response d)\<lparr>rs_rerror := False, rs_rbe := 0\<rparr>\<rparr>)))
             else Inr d) (\<lambda>d.
      Inr (d\<lparr>db_response := (db_response d)\<lparr>rs_rsrcid := rq_srcid (db_request d),
               rs_rtrdid := rq_trdid (db_request d), rs_reop := True\<rparr>\<rparr>)))"

text \<open>One iteration of \<open>request\<close>: without byte enables there is no response.\<close>

definition dbf_request_thread :: "vci_request \<Rightarrow> dbf_device \<Rightarrow> dbf_device res" where
  "dbf_request_thread req d =
     (let d = d\<lparr>db_request := req\<rparr> in
      if rq_be req \<noteq> 0
      then bindr (handle_request d) (\<lambda>d. Inr (d\<lparr>db_events := db_events d @ [DbfResponse]\<rparr>))
      else Inr d)"

subsection \<open>Interrupts\<close>

definition dbf_irq_update_thread :: "dbf_device \<Rightarrow> dbf_device \<times> dbf_out list" where
  "dbf_irq_update_thread d = (let v = dl_irq_stat (db_link d) \<noteq> 0 in (d\<lparr>db_irq := v\<rparr>, [DbfIrq v]))"

text \<open>\<open>if (m_data[REG_INT_STATUS] & m_data[REG_INT_ENABLE])\<close> and its body, after a slice and after a copy.\<close>

definition raise_if_enabled :: "dbf_device \<Rightarrow> dbf_device res" where
  "raise_if_enabled d =
     bindr (raw_get (db_link d) REG_INT_STATUS) (\<lambda>status.
     bindr (raw_get (db_link d) REG_INT_ENABLE) (\<lambda>enable.
     if status AND enable \<noteq> 0 then
       bindr (raw_set (db_link d) REG_INT_STATUS (status OR 0x80)) (\<lambda>l.
       Inr (d\<lparr>db_link := l\<lparr>dl_irq_stat := 1\<rparr>, db_events := db_events d @ [DbfIrqUpdate]\<rparr>))
     else Inr d))"

definition set_status_bits :: "u8 \<Rightarrow> dbf_link \<Rightarrow> dbf_link res" where
  "set_status_bits bits l =
     bindr (raw_get l REG_INT_STATUS) (\<lambda>status. raw_set l REG_INT_STATUS (status OR bits))"

text \<open>\<open>set_data\<close> called by a thread: what it notifies is added to the device's events.\<close>

definition db_set_data :: "int \<Rightarrow> u8 \<Rightarrow> dbf_device \<Rightarrow> dbf_device res" where
  "db_set_data a v d = bindr (set_data (db_link d) a v) (\<lambda>(l, es). Inr (d\<lparr>db_link := l, db_events := db_events d @ es\<rparr>))"

subsection \<open>The slice threads\<close>

text \<open>\<open>process_slice\<close> from its event to the \<open>wait\<close> of \<open>filter_slice\<close>.\<close>

definition slice_begin :: "nat \<Rightarrow> dbf_device \<Rightarrow> (dbf_device \<times> dbf_out list) res" where
  "slice_begin i d =
     bindr (get_nbslices (db_link d)) (\<lambda>n.
     let m = db_etrace_crt_mode d + 1 in
     bindr (filter_slice (int i) (db_link d)) (\<lambda>(l, es, curr_mb).
     Inr (d\<lparr>db_NB_SLICES := n, db_etrace_crt_mode := m, db_link := l, db_events := db_events d @ es,
            db_woken := remove1 i (db_woken d), db_filtering := i # db_filtering d\<rparr>, [DbfEnergyMode m])))"

text \<open>The slices whose length has been stored: \<open>tmp\<close> after its loop.\<close>

definition emptied_slices :: "dbf_link \<Rightarrow> u8 res" where
  "emptied_slices l = for_each (\<lambda>i tmp.
     bindr (raw_get l (REG_SLI_EMPHI + SLICE_OFFSET * i)) (\<lambda>hi.
     bindr (if hi \<noteq> 0 then Inr True
            else bindr (raw_get l (REG_SLI_EMPLOW + SLICE_OFFSET * i)) (\<lambda>lo. Inr (lo \<noteq> 0))) (\<lambda>emp.
     Inr (if emp then tmp + 1 else tmp)))) [0, 1, 2, 3] 0"

text \<open>The rest of \<open>process_slice\<close>.\<close>

definition slice_end :: "nat \<Rightarrow> dbf_device \<Rightarrow> (dbf_device \<times> dbf_out list) res" where
  "slice_end i d =
     (let m = db_etrace_crt_mode d - 1;
          d = d\<lparr>db_etrace_crt_mode := m, db_filtering := remove1 i (db_filtering d)\<rparr> in
      bindr (get_sliceLength (db_link d) (int i)) (\<lambda>len.
      bindr (db_set_data (REG_SLI_EMPHI + SLICE_OFFSET * int i) (ucast (drop_bit 8 len)) d) (\<lambda>d.
      bindr (db_set_data (REG_SLI_EMPLOW + SLICE_OFFSET * int i) (ucast (len AND 0x00FF)) d) (\<lambda>d.
      bindr (set_status_bits (push_bit i 1) (db_link d)) (\<lambda>l.
      bindr (emptied_slices l) (\<lambda>tmp.
      bindr (raw_get l REG_NSLICES_INTR) (\<lambda>n.
      bindr (if tmp \<ge> n then set_status_bits (push_bit REG_STATUS_BIT_ALLSLICES 1) l else Inr l) (\<lambda>l.
      bindr (raise_if_enabled (d\<lparr>db_link := l\<rparr>)) (\<lambda>d. Inr (d, [DbfEnergyMode m]))))))))))"

subsection \<open>The copy\<close>

text \<open>\<open>master_request\<close> from its event to its first request.\<close>

definition copy_begin :: "dbf_device \<Rightarrow> (dbf_device \<times> dbf_out list) res" where
  "copy_begin d =
     bindr (get_PicHeightInMbs (db_link d)) (\<lambda>h.
     bindr (get_PicWidthInMbs (db_link d)) (\<lambda>w.
     let m = db_etrace_crt_mode d + int (N_SLICE_THREADS + 1) in
     bindr (rd_bytes (dl_data (db_link d)) (nat REG_SRAM_ADDRESS) 4) (\<lambda>bs.
     bindr (raw_get (db_link d) REG_INC_ADDRESS) (\<lambda>inc.
     let adr_dest = le32 bs in
     if adr_dest AND 0x3 \<noteq> 0 then Inl (Exit 1)
     else Inr (d\<lparr>db_etrace_crt_mode := m,
                 db_copy := Copying (inc \<noteq> 0) (copy_addrs (nat w) (nat h))
                   \<lparr>cp_req = db_req d, cp_adr_dest = adr_dest, cp_b8alg = (adr_dest AND 0x7 = 0)\<rparr>\<rparr>,
               [DbfEnergyMode m])))))"

text \<open>One request, and what follows the last one.\<close>

definition copy_next :: "dbf_device \<Rightarrow> (dbf_device \<times> dbf_out list) res" where
  "copy_next d = (case db_copy d of
     Copying inc (a # as) c \<Rightarrow>
       bindr (send_pack (db_link d) inc a c) (\<lambda>(c, req).
       Inr (d\<lparr>db_copy := Copying inc as c, db_req := cp_req c\<rparr>, [DbfPutReq req]))
   | _ \<Rightarrow> Inl Blocked)"

definition copy_end :: "dbf_device \<Rightarrow> (dbf_device \<times> dbf_out list) res" where
  "copy_end d = (case db_copy d of
     Copying inc [] c \<Rightarrow>
       let m = db_etrace_crt_mode d - int (N_SLICE_THREADS + 1) in
       bindr (db_set_data REG_FRA_SRAM 0 (d\<lparr>db_etrace_crt_mode := m, db_copy := CopyWaiting\<rparr>)) (\<lambda>d.
       bindr (set_status_bits (push_bit REG_STATUS_BIT_SRAM 1) (db_link d)) (\<lambda>l.
       bindr (raise_if_enabled (d\<lparr>db_link := l\<rparr>)) (\<lambda>d. Inr (d, [DbfEnergyMode m]))))
   | _ \<Rightarrow> Inl Blocked)"

subsection \<open>Steps\<close>

text \<open>A delivered event: a slice thread or the copy that is not waiting misses it.\<close>

definition deliver :: "dbf_event \<Rightarrow> dbf_device \<Rightarrow> dbf_device \<times> dbf_out list" where
  "deliver e d = (case e of
     DbfIrqUpdate \<Rightarrow> dbf_irq_update_thread d
   | DbfSlice i \<Rightarrow> (if i \<in> set (db_woken d) \<or> i \<in> set (db_filtering d) then (d, [])
                   else (d\<lparr>db_woken := i # db_woken d\<rparr>, []))
   | DbfSendSram \<Rightarrow> (case db_copy d of CopyWaiting \<Rightarrow> (d\<lparr>db_copy := CopyWoken\<rparr>, []) | _ \<Rightarrow> (d, []))
   | DbfResponse \<Rightarrow> (d, [DbfPutRsp (db_response d)]))"

datatype dbf_act = Access vci_request | Deliver dbf_event | SliceBegin nat | SliceEnd nat
  | CopyBegin | CopyNext | CopyEnd

text \<open>A step that is not possible in a state blocks.\<close>

definition dbf_step :: "dbf_act \<Rightarrow> dbf_device \<Rightarrow> (dbf_device \<times> dbf_out list) res" where
  "dbf_step act d = (case act of
     Access req \<Rightarrow> bindr (dbf_request_thread req d) (\<lambda>d. Inr (d, []))
   | Deliver e \<Rightarrow> if e \<in> set (db_events d) then Inr (deliver e (d\<lparr>db_events := remove1 e (db_events d)\<rparr>)) else Inl Blocked
   | SliceBegin i \<Rightarrow> if i \<in> set (db_woken d) then slice_begin i d else Inl Blocked
   | SliceEnd i \<Rightarrow> if i \<in> set (db_filtering d) then slice_end i d else Inl Blocked
   | CopyBegin \<Rightarrow> if db_copy d = CopyWoken then copy_begin d else Inl Blocked
   | CopyNext \<Rightarrow> copy_next d
   | CopyEnd \<Rightarrow> copy_end d)"


subsection \<open>Requests keep the invariant of the memory\<close>

text \<open>
  A request as the masters send it: aligned to the lanes, and to the command registers of a slice
  only when the slice lies in the picture.
\<close>

definition commands_fit :: "vci_request \<Rightarrow> dbf_link \<Rightarrow> bool" where
  "commands_fit req l \<longleftrightarrow> wf_request req \<and> uint (rq_address req) mod 8 = 0
     \<and> (\<forall>n\<in>{0, 1, 2, 3}. uint (rq_address req) = 0x38018 + 16 * n \<longrightarrow> slice_fits l n)"

lemma link_step_trans: "link_step l0 l es \<Longrightarrow> link_step l l' es' \<Longrightarrow> link_step l0 l' (es @ es')"
  by (auto simp: link_step_def)

lemma aligned_room: "a < 0x100000000 \<Longrightarrow> a mod 8 = 0 \<Longrightarrow> a + 8 \<le> (0x100000000::int)"
  by presburger

lemma request_stores_step:
  assumes req: "commands_fit req l0" and inv: "link_inv l0"
    and run: "for_each (\<lambda>i s. bindr (rd (rq_wdata req) i) (\<lambda>b. and_then (\<lambda>l. set_data l (uint (rq_address req) + int i) b) s))
      is (l0, []) = Inr (l', es')"
  shows "link_step l0 l' es'"
proof -
  let ?A = "uint (rq_address req)"
  let ?same = "\<lambda>l. \<forall>n\<in>{0, 1, 2, 3}. ?A = 0x38018 + 16 * n \<longrightarrow>
    (\<forall>k. k = 0x34004 \<or> 0x38010 + 16 * nat n \<le> k \<and> k < 0x38018 + 16 * nat n \<longrightarrow> dl_data l ! k = dl_data l0 ! k)"
  have A: "0 \<le> ?A" "?A < 2 ^ 32" using uint_bounded [of "rq_address req"] by simp_all
  have mod8: "?A mod 8 = 0" and wd: "length (rq_wdata req) = 8" using req by (simp_all add: commands_fit_def wf_request_def)
  have sz: "dl_sized l" if "link_step l0 l es" for l es using that by (simp add: link_step_def link_inv_def link_pre_def)
  have "(\<lambda>(l, es). link_step l0 l es \<and> ?same l) (l', es')"
  proof (rule for_each_keeps [OF run])
    show "(\<lambda>(l, es). link_step l0 l es \<and> ?same l) (l0, [])" using inv by (simp add: link_step_def)
  next
    fix i s s'
    assume "(\<lambda>(l, es). link_step l0 l es \<and> ?same l) s"
      and st: "bindr (rd (rq_wdata req) i) (\<lambda>b. and_then (\<lambda>l. set_data l (?A + int i) b) s) = Inr s'"
    then obtain l es where s: "s = (l, es)" and J: "link_step l0 l es" "?same l" by (cases s) auto
    from st obtain b l1 es1 where i: "i < 8" and set: "set_data l (?A + int i) b = Inr (l1, es1)" and s': "s' = (l1, es @ es1)"
      by (auto simp: s bindr_eq_Inr rd_eq_Inr and_then_def wd)
    have l: "link_inv l" using J(1) by (simp add: link_step_def)
    have a: "0 \<le> ?A + int i" "?A + int i < 2 ^ 32"
    proof -
      have "?A + 8 \<le> 2 ^ 32" using aligned_room [of ?A] A mod8 by simp
      then show "0 \<le> ?A + int i" "?A + int i < 2 ^ 32" using A i by linarith+
    qed
    have clear: "slice_fits l (int n)" if "slice_of_reg (?A + int i) REG_SLI_CLEAR = Some n" for n
    proof -
      from slice_of_reg_Some [OF that] have n: "n < 4" "?A + int i = 0x3801C + 16 * int n" by (simp_all add: dbf_regs)
      have base: "?A = 0x38018 + 16 * int n" using n(2) i mod8 by presburger
      have m: "int n \<in> {0, 1, 2, 3}" using n(1) by auto
      have s0: "dl_sized l0" using inv by (simp add: link_inv_def link_pre_def)
      have n4: "0 \<le> int n" "int n < 4" using n(1) by simp_all
      have "slice_fits l (int n) = slice_fits l0 (int n)"
        by (rule slice_fits_cong [OF s0 sz [OF J(1)] n4]) (use J(2) m base in blast)
      then show ?thesis using req m base by (auto simp: commands_fit_def)
    qed
    note step = set_data_step [OF l a set clear]
    have "?same l1"
    proof (intro ballI impI allI)
      fix n k assume n: "n \<in> {0, 1, 2, 3::int}" "?A = 0x38018 + 16 * n"
        and k: "k = 0x34004 \<or> 0x38010 + 16 * nat n \<le> k \<and> k < 0x38018 + 16 * nat n"
      have "k \<noteq> nat (?A + int i)" "k \<noteq> 0x39008" "k \<noteq> 0x3900C" "0x34000 \<le> k" using n k by auto
      then have "dl_data l1 ! k = dl_data l ! k" using step(2) by blast
      then show "dl_data l1 ! k = dl_data l0 ! k" using J(2) n k by metis
    qed
    then show "(\<lambda>(l, es). link_step l0 l es \<and> ?same l) s'" using link_step_trans [OF J(1) step(1)] by (simp add: s')
  qed
  then show ?thesis by simp
qed

end
