(* ===== verification/Dbf_Runs.thy ===== *)
theory Dbf_Runs
  imports Dbf_Device
begin

text \<open>
  Every interleaving of the threads of the deblocking filter: an invariant that all steps keep, what it
  says of the interrupt line when the slices lie in the picture (\<open>dbf_reachable\<close>), and what remains of it, the
  memory's size, the threads and the mode reported to the energy trace, whatever is stored (\<open>dbf_run\<close>).
\<close>

subsection \<open>The invariant\<close>

definition line_ok :: "dbf_device \<Rightarrow> bool" where
  "line_ok d \<longleftrightarrow> db_irq d = (dl_irq_stat (db_link d) \<noteq> 0) \<or> DbfIrqUpdate \<in> set (db_events d)"

definition copy_mode :: "copy_thread \<Rightarrow> int" where
  "copy_mode c = (case c of Copying _ _ _ \<Rightarrow> 5 | _ \<Rightarrow> 0)"

definition threads_ok :: "dbf_device \<Rightarrow> bool" where
  "threads_ok d \<longleftrightarrow> distinct (db_woken d @ db_filtering d) \<and> (\<forall>i\<in>set (db_woken d @ db_filtering d). i < 4)
     \<and> (\<forall>i. DbfSlice i \<in> set (db_events d) \<longrightarrow> i < 4)
     \<and> db_etrace_crt_mode d = int (length (db_filtering d)) + copy_mode (db_copy d)"

definition dbf_inv :: "dbf_device \<Rightarrow> bool" where
  "dbf_inv d \<longleftrightarrow> link_inv (db_link d) \<and> line_ok d \<and> threads_ok d"

text \<open>What the processors have to respect; nothing is asked of the other steps.\<close>

definition well_used :: "dbf_act \<Rightarrow> dbf_device \<Rightarrow> bool" where
  "well_used act d = (case act of
     Access req \<Rightarrow> rq_cmd req = 2 \<longrightarrow> commands_fit req (db_link d)
   | SliceBegin i \<Rightarrow> slice_fits (db_link d) (int i)
   | _ \<Rightarrow> True)"

lemma link_update:
  assumes "line_ok d" "threads_ok d" "link_step (db_link d) l es"
  shows "line_ok (d\<lparr>db_link := l, db_events := db_events d @ es\<rparr>)" "threads_ok (d\<lparr>db_link := l, db_events := db_events d @ es\<rparr>)"
  using assms by (auto simp: line_ok_def threads_ok_def link_step_def)

lemma plain_store_step:
  assumes "link_inv (db_link d)" "line_ok d" "threads_ok d" "db_set_data a v d = Inr d'"
    and "0 \<le> a" "a < 0x40000" "slice_of_reg a REG_SLI_CLEAR = None"
  shows "link_inv (db_link d') \<and> line_ok d' \<and> threads_ok d' \<and> db_filtering d' = db_filtering d"
proof -
  from assms(4) obtain l es where s: "set_data (db_link d) a v = Inr (l, es)"
    "d' = d\<lparr>db_link := l, db_events := db_events d @ es\<rparr>" by (auto simp: db_set_data_def bindr_eq_Inr)
  have "link_step (db_link d) l es"
    using set_data_step(1) [OF assms(1,5) _ s(1)] assms(6,7) by simp
  with link_update [OF assms(2,3) this] show ?thesis by (simp add: s(2) link_step_def)
qed

text \<open>New bits in the status, and the interrupt they may raise.\<close>

lemma set_status_bits_pre:
  assumes "link_pre l" "set_status_bits bits l = Inr l'"
  shows "link_pre l' \<and> dl_irq_stat l' = dl_irq_stat l"
proof -
  have sz: "dl_sized l" using assms(1) by (simp add: link_pre_def)
  have l': "l' = l\<lparr>dl_data := (dl_data l)[0x39008 := dl_status l OR bits]\<rparr>"
    using assms(2) sz by (auto simp: set_status_bits_def raw_get_ok raw_set_ok dbf_regs dl_status_def)
  have s: "dl_status l' = dl_status l OR bits" "dl_enable l' = dl_enable l"
    using sz by (simp_all add: l' dl_status_def dl_enable_def dbf_regs dl_sized_def FPGA_CHAR_SIZE_def)
  have "(dl_status l OR bits) AND dl_enable l \<noteq> 0" if "dl_status l AND dl_enable l \<noteq> 0"
    using that by (metis bit.conj_disj_distrib2 or_eq_0_iff)
  with assms(1) show ?thesis unfolding link_pre_def s by (simp add: l')
qed

lemma raise_if_enabled_inv:
  assumes "link_pre (db_link d)" "line_ok d" "threads_ok d" "raise_if_enabled d = Inr d'"
  shows "dbf_inv d'"
proof -
  let ?l = "db_link d" and ?s = "dl_status (db_link d)"
  have sz: "dl_sized ?l" and e: "dl_enable ?l AND 0x80 = 0" using assms(1) by (simp_all add: link_pre_def)
  have g: "raw_get ?l REG_INT_STATUS = Inr ?s" "raw_get ?l REG_INT_ENABLE = Inr (dl_enable ?l)"
    by (simp_all add: raw_get_ok sz dl_status_def dl_enable_def dbf_regs)
  have set: "raw_set ?l REG_INT_STATUS v = Inr (?l\<lparr>dl_data := (dl_data ?l)[0x39008 := v]\<rparr>)" for v
    by (simp add: raw_set_ok sz dbf_regs)
  show ?thesis
  proof (cases "?s AND dl_enable ?l = 0")
    case True
    then show ?thesis using assms by (simp add: raise_if_enabled_def g dbf_inv_def link_inv_def)
  next
    case False
    let ?l' = "?l\<lparr>dl_data := (dl_data ?l)[0x39008 := ?s OR 0x80], dl_irq_stat := 1\<rparr>"
    have d': "d' = d\<lparr>db_link := ?l', db_events := db_events d @ [DbfIrqUpdate]\<rparr>"
      using assms(4) False by (auto simp: raise_if_enabled_def g set)
    have s: "dl_status ?l' = ?s OR 0x80" "dl_enable ?l' = dl_enable ?l"
      using sz by (simp_all add: dl_status_def dl_enable_def dbf_regs dl_sized_def FPGA_CHAR_SIZE_def)
    have "(?s OR 0x80) AND dl_enable ?l \<noteq> 0" using False by (metis bit.conj_disj_distrib2 or_eq_0_iff)
    then have "link_inv ?l'" unfolding link_inv_def link_pre_def s using sz e by (simp add: dl_sized_def)
    then show ?thesis using assms(3) unfolding d' by (simp add: dbf_inv_def line_ok_def threads_ok_def)
  qed
qed

lemma status_then_raise:
  assumes "link_inv (db_link d)" "line_ok d" "threads_ok d" "set_status_bits bits (db_link d) = Inr l"
  shows "link_pre l" "line_ok (d\<lparr>db_link := l\<rparr>)" "threads_ok (d\<lparr>db_link := l\<rparr>)"
  using set_status_bits_pre [OF _ assms(4)] assms(1-3) by (simp_all add: link_inv_def line_ok_def threads_ok_def)


subsection \<open>Steps keep it\<close>

definition same_threads :: "dbf_device \<Rightarrow> dbf_device \<Rightarrow> bool" where
  "same_threads d d' \<longleftrightarrow> db_irq d' = db_irq d \<and> db_woken d' = db_woken d \<and> db_filtering d' = db_filtering d
     \<and> db_copy d' = db_copy d \<and> db_etrace_crt_mode d' = db_etrace_crt_mode d"

lemma same_threads_inv:
  assumes "dbf_inv d" "link_step (db_link d) (db_link d') es" "same_threads d d'"
    and "db_events d' = db_events d @ es @ rest" "set rest \<subseteq> {DbfResponse}"
  shows "dbf_inv d'"
proof -
  have "DbfSlice i \<notin> set rest" for i using assms(5) by auto
  then show ?thesis
    using assms(1-4) by (auto simp: dbf_inv_def line_ok_def threads_ok_def link_step_def same_threads_def)
qed

lemma access_inv:
  assumes "dbf_inv d" "rq_cmd req = 2 \<longrightarrow> commands_fit req (db_link d)" "dbf_request_thread req d = Inr d'"
  shows "dbf_inv d'"
proof -
  have inv: "link_inv (db_link d)" using assms(1) by (simp add: dbf_inv_def)
  have refl: "link_step (db_link d) (db_link d) []" using inv by (simp add: link_step_def)
  show ?thesis
  proof (cases "rq_be req \<noteq> 0 \<and> rq_cmd req = 2")
    case True
    with assms(2) have fit: "commands_fit req (db_link d)" by simp
    from assms(3) True obtain ofs cnt l es where
      run: "for_each (\<lambda>i s. bindr (rd (rq_wdata req) i) (\<lambda>b. and_then (\<lambda>l. set_data l (uint (rq_address req) + int i) b) s))
        [ofs..<ofs + cnt] (db_link d, []) = Inr (l, es)"
      and d': "db_link d' = l" "db_events d' = db_events d @ es @ [DbfResponse]" "same_threads d d'"
      by (auto simp: dbf_request_thread_def handle_request_def Let_def bindr_eq_Inr same_threads_def)
    show ?thesis
      by (rule same_threads_inv [OF assms(1) _ d'(3,2)]) (use request_stores_step [OF fit inv run] d'(1) in simp_all)
  next
    case False
    then have "db_link d' = db_link d \<and> same_threads d d' \<and> (\<exists>rest. db_events d' = db_events d @ [] @ rest \<and> set rest \<subseteq> {DbfResponse})"
      using assms(3)
      by (auto simp: dbf_request_thread_def handle_request_def Let_def bindr_eq_Inr same_threads_def split: if_splits)
    then show ?thesis using same_threads_inv [OF assms(1)] refl by metis
  qed
qed

lemma deliver_inv:
  assumes "dbf_inv d" "e \<in> set (db_events d)" "deliver e (d\<lparr>db_events := remove1 e (db_events d)\<rparr>) = (d', outs)"
  shows "dbf_inv d'"
proof -
  let ?es = "remove1 e (db_events d)" and ?d = "d\<lparr>db_events := remove1 e (db_events d)\<rparr>"
  have sub: "set ?es \<subseteq> set (db_events d)" by (rule set_remove1_subset)
  have inv: "link_inv (db_link d)" "line_ok d" "threads_ok d" using assms(1) by (simp_all add: dbf_inv_def)
  have thr: "threads_ok ?d" using inv(3) sub by (auto simp: threads_ok_def)
  have line: "line_ok ?d" if "e \<noteq> DbfIrqUpdate"
    using inv(2) that in_set_remove1 [of DbfIrqUpdate e "db_events d"] by (simp add: line_ok_def)
  show ?thesis
  proof (cases e)
    case DbfIrqUpdate
    then have d': "d' = ?d\<lparr>db_irq := dl_irq_stat (db_link d) \<noteq> 0\<rparr>"
      using assms(3) by (simp add: deliver_def dbf_irq_update_thread_def Let_def)
    show ?thesis unfolding d' using inv(1) thr by (simp add: dbf_inv_def line_ok_def threads_ok_def)
  next
    case (DbfSlice i)
    then have "i < 4" using assms(2) inv(3) by (simp add: threads_ok_def)
    moreover have "d' = ?d \<or> i \<notin> set (db_woken d) \<and> i \<notin> set (db_filtering d) \<and> d' = ?d\<lparr>db_woken := i # db_woken d\<rparr>"
      using assms(3) DbfSlice by (auto simp: deliver_def split: if_splits)
    ultimately show ?thesis using inv(1) thr line DbfSlice
      by (elim disjE conjE) (simp_all add: dbf_inv_def line_ok_def threads_ok_def)
  next
    case DbfSendSram
    then have "d' = ?d \<or> db_copy d = CopyWaiting \<and> d' = ?d\<lparr>db_copy := CopyWoken\<rparr>"
      using assms(3) by (auto simp: deliver_def split: copy_thread.splits)
    then show ?thesis using inv(1) thr line DbfSendSram
      by (elim disjE conjE) (simp_all add: dbf_inv_def line_ok_def threads_ok_def copy_mode_def)
  next
    case DbfResponse
    then have "d' = ?d" using assms(3) by (simp add: deliver_def)
    then show ?thesis using inv(1) thr line DbfResponse by (simp add: dbf_inv_def)
  qed
qed


lemma slice_begin_inv:
  assumes "dbf_inv d" "slice_fits (db_link d) (int i)" "i \<in> set (db_woken d)" "slice_begin i d = Inr (d', outs)"
  shows "dbf_inv d'"
proof -
  have inv: "link_inv (db_link d)" "line_ok d" "threads_ok d" using assms(1) by (simp_all add: dbf_inv_def)
  have sz: "length (dl_data (db_link d)) = FPGA_CHAR_SIZE" using inv(1) by (simp add: link_inv_def link_pre_def dl_sized_def)
  have i: "i < 4" using inv(3) assms(3) by (simp add: threads_ok_def)
  from slice_fitsD [OF assms(2)] obtain f w h ofs len where fit: "get_format (db_link d) = Inr f" "f < 3"
    "get_PicWidthInMbs (db_link d) = Inr w" "get_PicHeightInMbs (db_link d) = Inr h"
    "get_Offset (db_link d) (int i) = Inr ofs" "get_sliceLength (db_link d) (int i) = Inr len" "uint ofs + uint len \<le> w * h" .
  from filter_slice_safe [OF sz _ _ fit] i obtain l where
    l: "filter_slice (int i) (db_link d) = Inr (l, [], uint ofs + uint len)" "length (dl_data l) = FPGA_CHAR_SIZE"
      "dl_irq_stat l = dl_irq_stat (db_link d)"
      "\<forall>a. 0 \<le> a \<and> a < 0x40000 \<and> \<not> reached a \<longrightarrow> dl_data l ! nat a = dl_data (db_link d) ! nat a" by auto
  have "dl_status l = dl_status (db_link d)" "dl_enable l = dl_enable (db_link d)"
    unfolding dl_status_def dl_enable_def by (rule l(4) [rule_format]; simp add: reached_def dbf_regs)+
  then have "link_inv l" using inv(1) l(2,3) by (simp add: link_inv_def link_pre_def dl_sized_def)
  moreover obtain n where "d' = d\<lparr>db_NB_SLICES := n, db_etrace_crt_mode := db_etrace_crt_mode d + 1, db_link := l,
      db_woken := remove1 i (db_woken d), db_filtering := i # db_filtering d\<rparr>"
    using assms(4) by (auto simp: slice_begin_def Let_def bindr_eq_Inr l(1))
  ultimately show ?thesis using inv(2,3) l(3) assms(3) set_remove1_subset [of i "db_woken d"]
    by (auto simp: dbf_inv_def line_ok_def threads_ok_def)
qed

lemma slice_end_inv:
  assumes "dbf_inv d" "i \<in> set (db_filtering d)" "slice_end i d = Inr (d', outs)"
  shows "dbf_inv d'"
proof -
  let ?d0 = "d\<lparr>db_etrace_crt_mode := db_etrace_crt_mode d - 1, db_filtering := remove1 i (db_filtering d)\<rparr>"
  have inv: "link_inv (db_link d)" "line_ok d" "threads_ok d" using assms(1) by (simp_all add: dbf_inv_def)
  have i: "i < 4" using inv(3) assms(2) by (simp add: threads_ok_def)
  have one: "1 \<le> length (db_filtering d)" using assms(2) by (cases "db_filtering d") auto
  have d0: "link_inv (db_link ?d0)" "line_ok ?d0" "threads_ok ?d0"
    using inv set_remove1_subset [of i "db_filtering d"] assms(2) one
    by (auto simp: line_ok_def threads_ok_def length_remove1)
  have plain: "slice_of_reg (REG_SLI_EMPHI + SLICE_OFFSET * int i) REG_SLI_CLEAR = None"
    "slice_of_reg (REG_SLI_EMPLOW + SLICE_OFFSET * int i) REG_SLI_CLEAR = None"
    unfolding slice_of_reg_def find_None_iff dbf_regs by presburger+
  from assms(3) obtain len :: u16 and d1 d2 l and tmp n :: u8 and l' d3 where
    s: "db_set_data (REG_SLI_EMPHI + SLICE_OFFSET * int i) (ucast (drop_bit 8 len)) ?d0 = Inr d1"
      "db_set_data (REG_SLI_EMPLOW + SLICE_OFFSET * int i) (ucast (len AND 0x00FF)) d1 = Inr d2"
      "set_status_bits (push_bit i 1) (db_link d2) = Inr l"
    and t: "(if tmp \<ge> n then set_status_bits (push_bit REG_STATUS_BIT_ALLSLICES 1) l else Inr l) = Inr l'"
    and r3: "raise_if_enabled (d2\<lparr>db_link := l'\<rparr>) = Inr d3"
    and d3: "Inr (d3, [DbfEnergyMode (db_etrace_crt_mode d - 1)]) = (Inr (d', outs) :: (dbf_device \<times> dbf_out list) res)"
    unfolding slice_end_def Let_def bindr_eq_Inr by (elim exE conjE) (rule that, assumption+)
  have r: "raise_if_enabled (d2\<lparr>db_link := l'\<rparr>) = Inr d'" using r3 d3 by simp
  from plain_store_step [OF d0 s(1) _ _ plain(1)] i have 1: "link_inv (db_link d1)" "line_ok d1" "threads_ok d1"
    by (simp_all add: dbf_regs)
  from plain_store_step [OF 1 s(2) _ _ plain(2)] i have 2: "link_inv (db_link d2)" "line_ok d2" "threads_ok d2"
    by (simp_all add: dbf_regs)
  note 3 = set_status_bits_pre [OF _ s(3)]
  have l: "link_pre l \<and> dl_irq_stat l = dl_irq_stat (db_link d2)" using 3 2(1) by (simp add: link_inv_def)
  have l': "link_pre l' \<and> dl_irq_stat l' = dl_irq_stat (db_link d2)"
    using t l set_status_bits_pre [of l _ l'] by (auto split: if_splits)
  show ?thesis
    by (rule raise_if_enabled_inv [OF _ _ _ r]) (use l' 2 in \<open>simp_all add: line_ok_def threads_ok_def\<close>)
qed

lemma copy_inv:
  assumes "dbf_inv d"
  shows "copy_begin d = Inr (d', outs) \<Longrightarrow> db_copy d = CopyWoken \<Longrightarrow> dbf_inv d'"
    and "copy_next d = Inr (d', outs) \<Longrightarrow> dbf_inv d'" and "copy_end d = Inr (d', outs) \<Longrightarrow> dbf_inv d'"
proof -
  have inv: "link_inv (db_link d)" "line_ok d" "threads_ok d" using assms by (simp_all add: dbf_inv_def)
  show "dbf_inv d'" if "copy_begin d = Inr (d', outs)" "db_copy d = CopyWoken"
    using that assms by (auto simp: copy_begin_def Let_def bindr_eq_Inr dbf_inv_def line_ok_def threads_ok_def copy_mode_def
        N_SLICE_THREADS_def split: if_splits)
  show "dbf_inv d'" if "copy_next d = Inr (d', outs)"
  proof -
    from that obtain inc a "as" c c' req where s: "db_copy d = Copying inc (a # as) c"
      "d' = d\<lparr>db_copy := Copying inc as c', db_req := cp_req c'\<rparr>"
      by (auto simp: copy_next_def bindr_eq_Inr split: copy_thread.splits list.splits)
    show ?thesis using inv s(1) unfolding s(2) by (simp add: dbf_inv_def line_ok_def threads_ok_def copy_mode_def)
  qed
  show "dbf_inv d'" if e: "copy_end d = Inr (d', outs)"
  proof -
    let ?d0 = "d\<lparr>db_etrace_crt_mode := db_etrace_crt_mode d - 5, db_copy := CopyWaiting\<rparr>"
    from e obtain inc c d1 l where s: "db_copy d = Copying inc [] c" "db_set_data REG_FRA_SRAM 0 ?d0 = Inr d1"
      "set_status_bits (push_bit REG_STATUS_BIT_SRAM 1) (db_link d1) = Inr l" "raise_if_enabled (d1\<lparr>db_link := l\<rparr>) = Inr d'"
      by (auto simp: copy_end_def Let_def bindr_eq_Inr N_SLICE_THREADS_def split: copy_thread.splits list.splits)
    have d0: "link_inv (db_link ?d0)" "line_ok ?d0" "threads_ok ?d0"
      using inv s(1) by (simp_all add: line_ok_def threads_ok_def copy_mode_def)
    have plain: "slice_of_reg REG_FRA_SRAM REG_SLI_CLEAR = None" by (rule slice_of_reg_None) (simp add: dbf_regs)
    from plain_store_step [OF d0 s(2) _ _ plain] have 1: "link_inv (db_link d1)" "line_ok d1" "threads_ok d1"
      by (simp_all add: dbf_regs)
    have "link_pre l \<and> dl_irq_stat l = dl_irq_stat (db_link d1)"
      using set_status_bits_pre [OF _ s(3)] 1(1) by (simp add: link_inv_def)
    then show ?thesis
      by (intro raise_if_enabled_inv [OF _ _ _ s(4)]) (use 1 in \<open>simp_all add: line_ok_def threads_ok_def\<close>)
  qed
qed

lemma dbf_step_inv:
  assumes "dbf_inv d" "well_used act d" "dbf_step act d = Inr (d', outs)"
  shows "dbf_inv d'"
  using assms access_inv [OF assms(1)] deliver_inv [OF assms(1)] slice_begin_inv [OF assms(1)] slice_end_inv [OF assms(1)]
    copy_inv [OF assms(1)]
  by (cases act) (auto simp: dbf_step_def well_used_def bindr_eq_Inr split: if_splits)

text \<open>The states a started device can be in when it is well used; those of any use are in \<open>dbf_run\<close> below.\<close>

inductive dbf_reachable :: "dbf_device \<Rightarrow> dbf_device \<Rightarrow> bool" for d0 where
  started: "dbf_reachable d0 (dbf_start_threads d0)"
| step: "dbf_reachable d0 d \<Longrightarrow> well_used act d \<Longrightarrow> dbf_step act d = Inr (d', outs) \<Longrightarrow> dbf_reachable d0 d'"

inductive_cases dbf_reachableE: "dbf_reachable d0 d"


lemma dbf_start_inv: "dbf_inv (dbf_start_threads (dbf_device_new master_id req0 rsp0 req))"
proof -
  define data :: "u8 list" where "data = (replicate FPGA_CHAR_SIZE 0)[nat REG_NSLICES := of_nat N_SLICE_THREADS, nat REG_INT_ENABLE := 0]"
  have "data ! 0x39008 = 0" "data ! 0x3900C = 0" "length data = FPGA_CHAR_SIZE"
    by (simp_all add: data_def dbf_regs FPGA_CHAR_SIZE_def nth_list_update)
  moreover have "dbf_link_init l = l\<lparr>dl_data := data\<rparr>" for l by (simp add: dbf_link_init_def data_def)
  ultimately show ?thesis
    by (simp add: dbf_start_threads_def dbf_device_new_def dbf_inv_def link_inv_def
        link_pre_def dl_sized_def dl_status_def dl_enable_def REG_INT_STATUS_def REG_INT_ENABLE_def line_ok_def
        threads_ok_def copy_mode_def)
qed

lemma dbf_reachable_inv:
  assumes "dbf_reachable (dbf_device_new master_id req0 rsp0 req) d"
  shows "dbf_inv d"
  using assms by (induction rule: dbf_reachable.induct) (auto intro: dbf_start_inv dbf_step_inv)

subsection \<open>The interrupt line and the energy mode\<close>

text \<open>
  Claim C7. However the requests of the processors, the four slice threads and the copy interleave, once
  the notified change of the line has been delivered the interrupt line is up exactly if a status bit is
  set that is enabled: no order of
  enabling, acknowledging, finishing a slice and finishing a copy loses an interrupt or leaves a stale one.
  The runs are those of \<open>dbf_reachable\<close>, with \<open>well_used\<close> steps: requests are aligned to the eight lanes, and the
  clear command and a slice that begins are for a slice inside the picture, in one of the three formats the
  memory is large enough for. A filter that runs out of the picture writes into the registers themselves.
\<close>

theorem dbf_irq_follows_status:
  assumes "dbf_reachable (dbf_device_new master_id req0 rsp0 req) d" "DbfIrqUpdate \<notin> set (db_events d)"
  shows "db_irq d \<longleftrightarrow> dl_status (db_link d) AND dl_enable (db_link d) \<noteq> 0"
  using dbf_reachable_inv [OF assms(1)] assms(2)
  by (auto simp: dbf_inv_def line_ok_def link_inv_def link_pre_def)

subsection \<open>Runs with any commands\<close>

text \<open>
  All runs: the processors may store any command, for slices outside of the picture and for the
  format the memory is too small for, too. What the filter then writes may be registers of the
  device, with their effects; the run is over only when an access leaves the memory. The
  memory's size and the threads survive it.
\<close>

inductive dbf_run :: "dbf_device \<Rightarrow> dbf_device \<Rightarrow> bool" for d0 where
  run_started: "dbf_run d0 (dbf_start_threads d0)"
| run_step: "dbf_run d0 d \<Longrightarrow> dbf_step act d = Inr (d', outs) \<Longrightarrow> dbf_run d0 d'"

lemma dbf_reachable_run: "dbf_reachable d0 d \<Longrightarrow> dbf_run d0 d"
  by (induction rule: dbf_reachable.induct) (auto intro: dbf_run.intros)

definition sound :: "dbf_link \<times> dbf_event list \<Rightarrow> bool" where
  "sound s \<longleftrightarrow> dl_sized (fst s) \<and> (\<forall>i. DbfSlice i \<in> set (snd s) \<longrightarrow> i < 4)"

definition dbf_wf :: "dbf_device \<Rightarrow> bool" where
  "dbf_wf d \<longleftrightarrow> dl_sized (db_link d) \<and> threads_ok d"

lemma raw_set_sized: "raw_set l a v = Inr l' \<Longrightarrow> dl_sized l' = dl_sized l"
  by (auto simp: raw_set_def bindr_eq_Inr wr_eq_Inr split: if_splits)

lemma clear_slice_sized: "clear_slice l n = Inr l' \<Longrightarrow> dl_sized l \<Longrightarrow> dl_sized l'"
  by (auto simp: clear_slice_def Let_def bindr_eq_Inr elim!: for_each_keeps dest: raw_set_sized)

lemma set_data_sound:
  assumes "set_data l a v = Inr s" "dl_sized l"
  shows "sound s"
proof -
  have "dl_sized l' \<and> (\<forall>i. DbfSlice i \<notin> set es)" if "set_int_enable_reg l x = Inr (l', es)" for x l' es
    using that assms(2) by (auto simp: set_int_enable_reg_def Let_def bindr_eq_Inr split: if_splits dest!: raw_set_sized)
  moreover have "dl_sized l' \<and> (\<forall>i. DbfSlice i \<notin> set es)" if "ack_int m x = Inr (l', es)" "dl_sized m" for m x l' es
    using that by (auto simp: ack_int_def Let_def bindr_eq_Inr split: if_splits dest!: raw_set_sized)
  ultimately show ?thesis using assms
    by (cases s) (auto simp: set_data_def Let_def bindr_eq_Inr sound_def split: if_splits option.splits
        dest!: raw_set_sized clear_slice_sized slice_of_reg_Some)
qed

lemma and_then_sound: "and_then (\<lambda>l. set_data l a v) s = Inr s' \<Longrightarrow> sound s \<Longrightarrow> sound s'"
  by (cases s) (fastforce simp: and_then_def bindr_eq_Inr sound_def dest!: set_data_sound)

text \<open>The filter only stores through \<open>set_data\<close>, wherever its coordinates lead it.\<close>

lemma filter_line_sound:
  assumes "filter_line w n c gq gp (\<lambda>l i. set_data l (qa i)) (\<lambda>l i. set_data l (pa i)) qx qy px py s = Inr s'" "sound s"
  shows "sound s'"
proof -
  from assms(1) obtain r :: s_qp where
    run: "for_each (\<lambda>i s. bindr (and_then (\<lambda>l. set_data l (qa i) (qp_q r ! nat i)) s)
      (and_then (\<lambda>l. set_data l (pa i) (qp_p r ! nat i)))) [0, 1, 2, 3] s = Inr s'"
    unfolding filter_line_def Let_def bindr_eq_Inr by blast
  show ?thesis by (rule for_each_keeps [where P = sound, OF run assms(2)]) (auto simp: bindr_eq_Inr intro: and_then_sound)
qed

lemma filter_lines_sound:
  "filter_vertical_L w n x y s = Inr s' \<Longrightarrow> sound s \<Longrightarrow> sound s'"
  "filter_horizontal_L w n x y s = Inr s' \<Longrightarrow> sound s \<Longrightarrow> sound s'"
  "filter_vertical_C w n x y cc s = Inr s' \<Longrightarrow> sound s \<Longrightarrow> sound s'"
  "filter_horizontal_C w n x y cc s = Inr s' \<Longrightarrow> sound s \<Longrightarrow> sound s'"
  unfolding filter_vertical_L_def filter_horizontal_L_def filter_vertical_C_def filter_horizontal_C_def
    set_L_pixel_def set_C_pixel_def
  by (erule (1) filter_line_sound)+

lemma edges_sound:
  assumes "edges skip es ls f s = Inr s'" "sound s" "\<And>e k s s'. f e k s = Inr s' \<Longrightarrow> sound s \<Longrightarrow> sound s'"
  shows "sound s'"
  using assms(1,2) unfolding edges_def
  by (rule for_each_keeps) (auto split: if_splits elim!: for_each_keeps dest: assms(3))

lemma filter_mb_sound: "filter_mb w n xf yf mb s = Inr s' \<Longrightarrow> sound s \<Longrightarrow> sound s'"
  unfolding filter_mb_def Let_def bindr_eq_Inr
  by (elim exE conjE, erule for_each_keeps)
    (auto simp: bindr_eq_Inr elim!: edges_sound dest: filter_lines_sound)

lemma filter_slice_sound:
  assumes "filter_slice n l = Inr (l', es, c)" "dl_sized l"
  shows "sound (l', es)"
proof -
  have "sound (l, [])" using assms(2) by (simp add: sound_def)
  then show ?thesis
    using assms(1) by (auto simp: filter_slice_def Let_def bindr_eq_Inr split: if_splits elim!: for_each_keeps dest: filter_mb_sound)
qed

text \<open>One lemma per step.\<close>

lemma threads_ok_events:
  "threads_ok d \<Longrightarrow> sound (l, es) \<Longrightarrow> dbf_wf (d\<lparr>db_link := l, db_events := db_events d @ es\<rparr>)"
  by (auto simp: dbf_wf_def threads_ok_def sound_def)

lemma db_set_data_wf: "db_set_data a v d = Inr d' \<Longrightarrow> dbf_wf d \<Longrightarrow> dbf_wf d'"
  by (auto simp: db_set_data_def bindr_eq_Inr dbf_wf_def [of d] dest!: set_data_sound intro: threads_ok_events)

lemma set_status_bits_wf:
  "set_status_bits bits (db_link d) = Inr l \<Longrightarrow> dbf_wf d \<Longrightarrow> dbf_wf (d\<lparr>db_link := l\<rparr>)"
  by (auto simp: set_status_bits_def bindr_eq_Inr dbf_wf_def threads_ok_def dest!: raw_set_sized)

lemma raise_if_enabled_wf: "raise_if_enabled d = Inr d' \<Longrightarrow> dbf_wf d \<Longrightarrow> dbf_wf d'"
  by (auto simp: raise_if_enabled_def bindr_eq_Inr dbf_wf_def threads_ok_def split: if_splits dest!: raw_set_sized)

lemma access_wf:
  assumes "dbf_request_thread req d = Inr d'" "dbf_wf d"
  shows "dbf_wf d'"
proof (cases "rq_be req \<noteq> 0 \<and> rq_cmd req = 2")
  case True
  from assms(1) True obtain ofs cnt l es where
    run: "for_each (\<lambda>i s. bindr (rd (rq_wdata req) i) (\<lambda>b. and_then (\<lambda>l. set_data l (uint (rq_address req) + int i) b) s))
      [ofs..<ofs + cnt] (db_link d, []) = Inr (l, es)"
    and d': "db_link d' = l" "db_events d' = db_events d @ es @ [DbfResponse]" "same_threads d d'"
    by (auto simp: dbf_request_thread_def handle_request_def Let_def bindr_eq_Inr same_threads_def)
  have "sound (l, es)"
    by (rule for_each_keeps [OF run]) (use assms(2) in \<open>auto simp: sound_def [of "(_, [])"] dbf_wf_def bindr_eq_Inr dest: and_then_sound\<close>)
  then show ?thesis using assms(2) d' by (auto simp: dbf_wf_def threads_ok_def sound_def same_threads_def)
next
  case False
  then have "db_link d' = db_link d \<and> same_threads d d' \<and> (\<exists>rest. db_events d' = db_events d @ rest \<and> set rest \<subseteq> {DbfResponse})"
    using assms(1)
    by (auto simp: dbf_request_thread_def handle_request_def Let_def bindr_eq_Inr same_threads_def split: if_splits)
  then show ?thesis using assms(2) by (fastforce simp: dbf_wf_def threads_ok_def same_threads_def)
qed

lemma deliver_wf:
  assumes "deliver e (d\<lparr>db_events := remove1 e (db_events d)\<rparr>) = (d', outs)" "e \<in> set (db_events d)" "dbf_wf d"
  shows "dbf_wf d'"
proof -
  let ?d = "d\<lparr>db_events := remove1 e (db_events d)\<rparr>"
  have sub: "set (remove1 e (db_events d)) \<subseteq> set (db_events d)" by (rule set_remove1_subset)
  have wf: "dbf_wf ?d" using assms(3) sub by (auto simp: dbf_wf_def threads_ok_def)
  show ?thesis
  proof (cases e)
    case DbfIrqUpdate
    then have "d' = ?d\<lparr>db_irq := dl_irq_stat (db_link d) \<noteq> 0\<rparr>"
      using assms(1) by (simp add: deliver_def dbf_irq_update_thread_def Let_def)
    then show ?thesis using wf by (simp add: dbf_wf_def threads_ok_def)
  next
    case (DbfSlice i)
    have "i < 4" using assms(2,3) DbfSlice by (simp add: dbf_wf_def threads_ok_def)
    moreover have "d' = ?d \<or> i \<notin> set (db_woken d) \<and> i \<notin> set (db_filtering d) \<and> d' = ?d\<lparr>db_woken := i # db_woken d\<rparr>"
      using assms(1) DbfSlice by (auto simp: deliver_def split: if_splits)
    ultimately show ?thesis using wf by (elim disjE conjE) (simp_all add: dbf_wf_def threads_ok_def)
  next
    case DbfSendSram
    then have "d' = ?d \<or> db_copy d = CopyWaiting \<and> d' = ?d\<lparr>db_copy := CopyWoken\<rparr>"
      using assms(1) by (auto simp: deliver_def split: copy_thread.splits)
    then show ?thesis using wf by (elim disjE conjE) (simp_all add: dbf_wf_def threads_ok_def copy_mode_def)
  next
    case DbfResponse
    then show ?thesis using assms(1) wf by (simp add: deliver_def)
  qed
qed

lemma slice_begin_wf:
  assumes "slice_begin i d = Inr (d', outs)" "i \<in> set (db_woken d)" "dbf_wf d"
  shows "dbf_wf d'"
proof -
  from assms(1) obtain n l es where
    d': "d' = d\<lparr>db_NB_SLICES := n, db_etrace_crt_mode := db_etrace_crt_mode d + 1, db_link := l, db_events := db_events d @ es,
      db_woken := remove1 i (db_woken d), db_filtering := i # db_filtering d\<rparr>" and s: "sound (l, es)"
    using assms(3) by (fastforce simp: slice_begin_def Let_def bindr_eq_Inr dbf_wf_def dest: filter_slice_sound)
  show ?thesis unfolding d' using assms(2,3) s set_remove1_subset [of i "db_woken d"]
    by (auto simp: dbf_wf_def threads_ok_def sound_def)
qed

lemma slice_end_wf:
  assumes "slice_end i d = Inr (d', outs)" "i \<in> set (db_filtering d)" "dbf_wf d"
  shows "dbf_wf d'"
proof -
  let ?d0 = "d\<lparr>db_etrace_crt_mode := db_etrace_crt_mode d - 1, db_filtering := remove1 i (db_filtering d)\<rparr>"
  have one: "1 \<le> length (db_filtering d)" using assms(2) by (cases "db_filtering d") auto
  have d0: "dbf_wf ?d0"
    using assms(2,3) one set_remove1_subset [of i "db_filtering d"] by (auto simp: dbf_wf_def threads_ok_def length_remove1)
  from assms(1) obtain a1 v1 a2 v2 d1 d2 b3 b4 c l l' where
    s: "db_set_data a1 v1 ?d0 = Inr d1" "db_set_data a2 v2 d1 = Inr d2" "set_status_bits b3 (db_link d2) = Inr l"
      "(if c then set_status_bits b4 l else Inr l) = Inr l'" "raise_if_enabled (d2\<lparr>db_link := l'\<rparr>) = Inr d'"
    unfolding slice_end_def Let_def bindr_eq_Inr by auto
  have "dbf_wf (d2\<lparr>db_link := l\<rparr>)"
    using set_status_bits_wf [OF s(3)] db_set_data_wf [OF s(2) db_set_data_wf [OF s(1) d0]] by simp
  then have "dbf_wf (d2\<lparr>db_link := l'\<rparr>)"
    using s(4) set_status_bits_wf [of b4 "d2\<lparr>db_link := l\<rparr>" l'] by (simp split: if_splits)
  then show ?thesis by (rule raise_if_enabled_wf [OF s(5)])
qed

lemma copy_wf:
  shows "copy_begin d = Inr (d', outs) \<Longrightarrow> db_copy d = CopyWoken \<Longrightarrow> dbf_wf d \<Longrightarrow> dbf_wf d'"
    and "copy_next d = Inr (d', outs) \<Longrightarrow> dbf_wf d \<Longrightarrow> dbf_wf d'"
    and "copy_end d = Inr (d', outs) \<Longrightarrow> dbf_wf d \<Longrightarrow> dbf_wf d'"
proof -
  show "dbf_wf d'" if "copy_begin d = Inr (d', outs)" "db_copy d = CopyWoken" "dbf_wf d"
    using that by (auto simp: copy_begin_def Let_def bindr_eq_Inr dbf_wf_def threads_ok_def copy_mode_def
        N_SLICE_THREADS_def split: if_splits)
  show "dbf_wf d'" if "copy_next d = Inr (d', outs)" "dbf_wf d"
    using that by (auto simp: copy_next_def bindr_eq_Inr dbf_wf_def threads_ok_def copy_mode_def split: copy_thread.splits list.splits)
  show "dbf_wf d'" if e: "copy_end d = Inr (d', outs)" and wf: "dbf_wf d"
  proof -
    let ?d0 = "d\<lparr>db_etrace_crt_mode := db_etrace_crt_mode d - 5, db_copy := CopyWaiting\<rparr>"
    from e obtain inc c d1 l where s: "db_copy d = Copying inc [] c" "db_set_data REG_FRA_SRAM 0 ?d0 = Inr d1"
      "set_status_bits (push_bit REG_STATUS_BIT_SRAM 1) (db_link d1) = Inr l" "raise_if_enabled (d1\<lparr>db_link := l\<rparr>) = Inr d'"
      by (auto simp: copy_end_def Let_def bindr_eq_Inr N_SLICE_THREADS_def split: copy_thread.splits list.splits)
    have "dbf_wf ?d0" using wf s(1) by (simp add: dbf_wf_def threads_ok_def copy_mode_def)
    then show ?thesis using raise_if_enabled_wf [OF s(4) set_status_bits_wf [OF s(3) db_set_data_wf [OF s(2)]]] by simp
  qed
qed

lemma dbf_step_wf:
  assumes "dbf_step act d = Inr (d', outs)" "dbf_wf d"
  shows "dbf_wf d'"
  using assms access_wf [of _ d] deliver_wf [of _ d] slice_begin_wf [of _ d] slice_end_wf [of _ d] copy_wf [of d]
  by (cases act) (auto simp: dbf_step_def bindr_eq_Inr split: if_splits)

lemma dbf_run_wf:
  assumes "dbf_run (dbf_device_new master_id req0 rsp0 req) d"
  shows "dbf_wf d"
  using assms
proof (induction rule: dbf_run.induct)
  case run_started
  then show ?case using dbf_start_inv by (simp add: dbf_wf_def dbf_inv_def link_inv_def link_pre_def)
qed (rule dbf_step_wf)

text \<open>
  Claim C19. Every state a run of the filter can reach is well-formed, whatever the processors store into its registers and
  in whatever order the threads run, slices outside of the picture included: the memory keeps its size, the slice threads that are awake or
  filtering are distinct numbers below four and so is every notified one, and the mode reported to the
  energy trace is the number of slices being filtered, plus five during a copy, so always one of the ten modes
  the device's class declares (the trace indexes the table of costs with it unchecked).
\<close>

theorem dbf_state_well_formed:
  assumes "dbf_run (dbf_device_new master_id req0 rsp0 req) d"
  shows "length (dl_data (db_link d)) = FPGA_CHAR_SIZE \<and> distinct (db_woken d @ db_filtering d)
    \<and> set (db_woken d @ db_filtering d) \<subseteq> {0..<4} \<and> (\<forall>i \<ge> 4. DbfSlice i \<notin> set (db_events d))
    \<and> db_etrace_crt_mode d = int (length (db_filtering d)) + copy_mode (db_copy d)
    \<and> 0 \<le> db_etrace_crt_mode d \<and> db_etrace_crt_mode d < 10"
proof -
  have t: "threads_ok d" and l: "length (dl_data (db_link d)) = FPGA_CHAR_SIZE"
    using dbf_run_wf [OF assms] by (simp_all add: dbf_wf_def dl_sized_def)
  then have "distinct (db_filtering d)" "set (db_filtering d) \<subseteq> {0..<4}" by (auto simp: threads_ok_def)
  then have "length (db_filtering d) \<le> 4" using card_mono [of "{0..<4::nat}" "set (db_filtering d)"]
    by (simp add: distinct_card)
  moreover have "copy_mode (db_copy d) \<in> {0, 5}" by (simp add: copy_mode_def split: copy_thread.splits)
  ultimately show ?thesis using t l by (fastforce simp: threads_ok_def)
qed


lemma dbf_started_runs:
  fixes master_id req0 rsp0 req
  defines "d0 \<equiv> dbf_device_new master_id req0 rsp0 req"
  defines "d1 \<equiv> (dbf_start_threads d0)\<lparr>db_events := [], db_irq := False\<rparr>"
  shows "dbf_reachable d0 d1" "db_events d1 = []"
proof -
  have "dbf_step (Deliver DbfIrqUpdate) (dbf_start_threads d0) = Inr (d1, [DbfIrq False])"
    by (simp add: dbf_step_def deliver_def dbf_irq_update_thread_def Let_def d1_def d0_def dbf_start_threads_def
        dbf_device_new_def)
  from dbf_reachable.step [OF dbf_reachable.started _ this] show "dbf_reachable d0 d1" by (simp add: well_used_def)
  show "db_events d1 = []" by (simp add: d1_def)
qed

lemma dbf_irq_follows_status_witness:
  "\<exists>d. dbf_reachable (dbf_device_new 2 zero_request zero_response zero_request) d \<and> db_events d = []
    \<and> (db_irq d \<longleftrightarrow> dl_status (db_link d) AND dl_enable (db_link d) \<noteq> 0)"
  using dbf_irq_follows_status [OF dbf_started_runs(1) [of 2 zero_request zero_response zero_request]]
    dbf_started_runs [of 2 zero_request zero_response zero_request] by auto

text \<open>
  A run with a slice and the copy at the same time: the processors store the command of the copy and
  that of slice 0, both are delivered, and both begin. The format they choose before is 3, for which the
  memory is too small.
\<close>

definition byte_store :: "u32 \<Rightarrow> u8 \<Rightarrow> vci_request" where
  "byte_store a v = zero_request\<lparr>rq_address := a, rq_cmd := 2, rq_be := 1, rq_wdata := [v, 0, 0, 0, 0, 0, 0, 0]\<rparr>"

lemma byte_store_step:
  assumes "set_data (db_link d) (uint a) v = Inr (l, es)"
  shows "dbf_step (Access (byte_store a v)) d = Inr (d\<lparr>db_request := byte_store a v, db_link := l,
    db_events := db_events d @ es @ [DbfResponse],
    db_response := (db_response d)\<lparr>rs_rerror := False, rs_rbe := 0, rs_rsrcid := 0, rs_rtrdid := 0, rs_reop := True\<rparr>\<rparr>, [])"
proof -
  have "dbf_get_offset 1 = Inr (0, 1)"
    by (simp add: dbf_get_offset_def skip_zeros.simps [of "Suc 0"] take_ones.simps [of "Suc 0"] take_ones.simps [of 0])
  with assms show ?thesis
    by (simp add: dbf_step_def dbf_request_thread_def handle_request_def Let_def byte_store_def zero_request_def and_then_def)
qed

definition demo_image :: "u8 list" where
  "demo_image = (replicate FPGA_CHAR_SIZE 0)[nat REG_NSLICES := 4, nat REG_INT_ENABLE := 0, nat REG_GLO_CTRL := 0x30,
     nat REG_FRA_SRAM := 1, nat REG_SLI_FILLOW := 1]"

lemma demo_image_data:
  "length demo_image = 0x40000" "demo_image ! 0x34004 = 0x30" "demo_image ! 0x38004 = 0" "demo_image ! 0x38010 = 0"
  "demo_image ! 0x38011 = 0" "demo_image ! 0x38012 = 0" "demo_image ! 0x39014 = 0" "take 4 (drop 0x39010 demo_image) = [0, 0, 0, 0]"
proof -
  show l: "length demo_image = 0x40000" by (simp add: demo_image_def FPGA_CHAR_SIZE_def)
  show "demo_image ! 0x34004 = 0x30" "demo_image ! 0x38004 = 0" "demo_image ! 0x38010 = 0"
    "demo_image ! 0x38011 = 0" "demo_image ! 0x38012 = 0" "demo_image ! 0x39014 = 0"
    by (simp_all add: demo_image_def dbf_regs FPGA_CHAR_SIZE_def nth_list_update)
  show "take 4 (drop 0x39010 demo_image) = [0, 0, 0, 0]"
  proof (rule nth_equalityI)
    fix i assume "i < length (take 4 (drop 0x39010 demo_image))"
    then have "i \<in> {0, 1, 2, 3}" by auto
    then show "take 4 (drop 0x39010 demo_image) ! i = [0, 0, 0, 0] ! i"
      by (auto simp: demo_image_def dbf_regs FPGA_CHAR_SIZE_def nth_list_update)
  qed (simp add: l)
qed

lemma demo_slice: "filter_slice 0 \<lparr>dl_data = demo_image, dl_irq_stat = s\<rparr> = Inr (\<lparr>dl_data = demo_image, dl_irq_stat = s\<rparr>, [], 0)"
proof -
  have "dl_sized \<lparr>dl_data = demo_image, dl_irq_stat = s\<rparr>" by (simp add: dl_sized_def demo_image_data(1) FPGA_CHAR_SIZE_def)
  then show ?thesis
    by (simp add: filter_slice_def get_PicWidthInMbs_def get_format_def get_sliceLength_def get_Offset_def get_data_ok dbf_regs
        demo_image_data slice_length_of_def slice_offset_of_def MbWidth_def)
qed

lemma demo_stores:
  "set_data (dbf_link_init l) 0x34004 0x30 = Inr (l\<lparr>dl_data := (dl_data (dbf_link_init l))[0x34004 := 0x30]\<rparr>, [])"
  "dl_sized m \<Longrightarrow> set_data m 0x38008 1 = Inr (m\<lparr>dl_data := (dl_data m) [0x38008 := 1]\<rparr>, [DbfSendSram])"
  "dl_sized m \<Longrightarrow> set_data m 0x38018 1 = Inr (m\<lparr>dl_data := (dl_data m) [0x38018 := 1]\<rparr>, [DbfSlice 0])"
  by (simp_all add: set_data_def Let_def raw_set_ok dbf_regs FPGA_CHAR_SIZE_def slice_of_reg_def N_SLICE_THREADS_def
      upt_rec dbf_link_init_def dl_sized_def)

lemma demo_run:
  fixes master_id req0 rsp0 req
  defines "d0 \<equiv> dbf_device_new master_id req0 rsp0 req"
  shows "\<exists>d. dbf_run d0 d \<and> db_filtering d = [0] \<and> (\<exists>inc as c. db_copy d = Copying inc as c)
    \<and> get_format (db_link d) = Inr 3"
proof -
  let ?R = "dbf_run d0"
  have next_step: "\<exists>d'. ?R d' \<and> P d'" if "?R d" "dbf_step act d = Inr (d', outs)" "P d'" for d act d' outs P
    using that by (blast intro: run_step)
  define l0 where "l0 = db_link (dbf_start_threads d0)"
  define l1 where "l1 = l0\<lparr>dl_data := (dl_data l0)[0x34004 := 0x30]\<rparr>"
  define l2 where "l2 = l1\<lparr>dl_data := (dl_data l1)[0x38008 := 1]\<rparr>"
  define l3 where "l3 = l2\<lparr>dl_data := (dl_data l2)[0x38018 := 1]\<rparr>"
  have l0: "dl_sized l0"
    by (simp add: l0_def dbf_start_threads_def dbf_link_init_def dl_sized_def)
  then have sz: "dl_sized l1" "dl_sized l2" by (simp_all add: l1_def l2_def dl_sized_def)
  have l3: "l3 = \<lparr>dl_data = demo_image, dl_irq_stat = 0\<rparr>"
    by (simp add: l3_def l2_def l1_def l0_def d0_def dbf_start_threads_def dbf_link_init_def dbf_device_new_def demo_image_def
        dbf_regs N_SLICE_THREADS_def)
  have "\<exists>d. ?R d \<and> db_link d = l0 \<and> db_events d = [DbfIrqUpdate] \<and> db_woken d = [] \<and> db_filtering d = [] \<and> db_copy d = CopyWaiting"
    by (intro exI [of _ "dbf_start_threads d0"])
      (simp add: run_started l0_def, simp add: d0_def dbf_start_threads_def dbf_device_new_def)
  then obtain d where d: "?R d" "db_link d = l0" "db_events d = [DbfIrqUpdate]" "db_woken d = []" "db_filtering d = []"
    "db_copy d = CopyWaiting" by blast
  have s1: "set_data (db_link d) (uint (0x34004 :: u32)) 0x30 = Inr (l1, [])"
    using l0 d(2) by (simp add: set_data_def Let_def raw_set_ok dbf_regs FPGA_CHAR_SIZE_def slice_of_reg_None l1_def)
  note st = run_step [OF d(1) byte_store_step [OF s1]]
  obtain d1 where d1: "?R d1" "db_link d1 = l1" "db_events d1 = [DbfIrqUpdate, DbfResponse]" "db_woken d1 = []" "db_filtering d1 = []"
    "db_copy d1 = CopyWaiting" using st d by fastforce
  have s2: "set_data (db_link d1) (uint (0x38008 :: u32)) 1 = Inr (l2, [DbfSendSram])"
    using demo_stores(2) [OF sz(1)] d1(2) by (simp add: l2_def)
  obtain d2 where d2: "?R d2" "db_link d2 = l2" "db_events d2 = [DbfIrqUpdate, DbfResponse, DbfSendSram, DbfResponse]" "db_woken d2 = []"
    "db_filtering d2 = []" "db_copy d2 = CopyWaiting" using run_step [OF d1(1) byte_store_step [OF s2]] d1 by fastforce
  have s3: "set_data (db_link d2) (uint (0x38018 :: u32)) 1 = Inr (l3, [DbfSlice 0])"
    using demo_stores(3) [OF sz(2)] d2(2) by (simp add: l3_def)
  obtain d3 where d3: "?R d3" "db_link d3 = l3" "DbfSendSram \<in> set (db_events d3)" "DbfSlice 0 \<in> set (db_events d3)" "db_woken d3 = []"
    "db_filtering d3 = []" "db_copy d3 = CopyWaiting" using run_step [OF d2(1) byte_store_step [OF s3]] d2 by fastforce
  obtain d4 where d4: "?R d4" "db_link d4 = l3" "DbfSlice 0 \<in> set (db_events d4)" "db_woken d4 = []"
    "db_filtering d4 = []" "db_copy d4 = CopyWoken"
    using run_step [OF d3(1), of "Deliver DbfSendSram"] d3 by (fastforce simp: dbf_step_def deliver_def in_set_remove1)
  obtain d5 where d5: "?R d5" "db_link d5 = l3" "db_woken d5 = [0]" "db_filtering d5 = []" "db_copy d5 = CopyWoken"
    using run_step [OF d4(1), of "Deliver (DbfSlice 0)"] d4 by (fastforce simp: dbf_step_def deliver_def)
  have sl: "dl_sized l3" by (simp add: l3 dl_sized_def demo_image_data(1) FPGA_CHAR_SIZE_def)
  have f: "get_format l3 = Inr 3" using sl by (simp add: get_format_def get_data_ok dbf_regs l3 demo_image_data)
  have s6: "get_nbslices l3 = Inr 0" "filter_slice 0 l3 = Inr (l3, [], 0)"
    using demo_slice sl by (simp_all add: get_nbslices_def get_data_ok dbf_regs l3 demo_image_data)
  then have "dbf_step (SliceBegin 0) d5 = Inr (d5\<lparr>db_NB_SLICES := 0, db_etrace_crt_mode := db_etrace_crt_mode d5 + 1,
      db_link := l3, db_woken := [], db_filtering := [0]\<rparr>, [DbfEnergyMode (db_etrace_crt_mode d5 + 1)])"
    using d5 by (simp add: dbf_step_def slice_begin_def Let_def)
  from run_step [OF d5(1) this] d5 obtain d6 where
    d6: "?R d6" "db_link d6 = l3" "db_woken d6 = []" "db_filtering d6 = [0]" "db_copy d6 = CopyWoken" by fastforce
  have "raw_get l3 REG_INC_ADDRESS = Inr 0" "rd_bytes (dl_data l3) (nat REG_SRAM_ADDRESS) 4 = Inr [0, 0, 0, 0]" "le32 [0, 0, 0, 0] = 0"
    using sl by (simp_all add: raw_get_ok rd_bytes_def dbf_regs l3 demo_image_data le32_def)
  then have "\<exists>m es c. dbf_step CopyBegin d6 = Inr (d6\<lparr>db_etrace_crt_mode := m, db_copy := Copying False (copy_addrs 44 36) c\<rparr>, es)"
    using d6 f by (simp add: dbf_step_def copy_begin_def Let_def get_PicHeightInMbs_def get_PicWidthInMbs_def MbWidth_def) blast
  then obtain m es c where "dbf_step CopyBegin d6 = Inr (d6\<lparr>db_etrace_crt_mode := m, db_copy := Copying False (copy_addrs 44 36) c\<rparr>, es)"
    by blast
  from run_step [OF d6(1) this] d6
  have "\<exists>d7. ?R d7 \<and> db_link d7 = l3 \<and> db_filtering d7 = [0] \<and> db_copy d7 = Copying False (copy_addrs 44 36) c" by fastforce
  then show ?thesis using f by metis
qed

lemma dbf_state_well_formed_witness:
  "\<exists>d. db_filtering d = [0] \<and> get_format (db_link d) = Inr 3 \<and> length (dl_data (db_link d)) = FPGA_CHAR_SIZE
    \<and> db_etrace_crt_mode d = 6 \<and> dbf_run (dbf_device_new 2 zero_request zero_response zero_request) d"
proof -
  obtain d inc as c where d: "dbf_run (dbf_device_new 2 zero_request zero_response zero_request) d"
    "db_filtering d = [0]" "db_copy d = Copying inc as c" "get_format (db_link d) = Inr 3"
    using demo_run by metis
  have "length (dl_data (db_link d)) = FPGA_CHAR_SIZE \<and> db_etrace_crt_mode d = 6"
    using dbf_state_well_formed [OF d(1)] d(2,3) by (simp add: copy_mode_def)
  with d show ?thesis by blast
qed

end
