(* ===== verification/Dbf_System.thy ===== *)
theory Dbf_System
  imports Dbf_Runs
begin

text \<open>
  The deblocking filter on the platform: its copy, request by request through the decode of the
  network and the memory device, puts the picture into memory.
\<close>

subsection \<open>The copy to the end\<close>

text \<open>\<open>n\<close> requests of the copy, each answered by the bus before the next.\<close>

fun copy_drain :: "('m \<Rightarrow> vci_request \<Rightarrow> ('m \<times> vci_response) res) \<Rightarrow> nat \<Rightarrow> dbf_device \<Rightarrow> 'm \<Rightarrow> (dbf_device \<times> 'm) res" where
  "copy_drain bus 0 d b = Inr (d, b)"
| "copy_drain bus (Suc n) d b =
     bindr (copy_next d) (\<lambda>(d, outs). case outs of
       [DbfPutReq req] \<Rightarrow> bindr (bus b req) (\<lambda>(b, rsp). copy_drain bus n d b)
     | _ \<Rightarrow> Inl Blocked)"

lemma copy_drain_run:
  assumes "db_copy d = Copying inc as c" "copy_run bus (db_link d) inc as c b = Inr (c', b')"
  shows "\<exists>d'. copy_drain bus (length as) d b = Inr (d', b') \<and> db_copy d' = Copying inc [] c' \<and> db_link d' = db_link d
    \<and> db_etrace_crt_mode d' = db_etrace_crt_mode d"
  using assms
proof (induction as arbitrary: d c b)
  case Nil
  then show ?case by simp
next
  case (Cons a as)
  from Cons.prems(2) obtain c1 req b1 rsp where
    1: "send_pack (db_link d) inc a c = Inr (c1, req)" "bus b req = Inr (b1, rsp)"
      "copy_run bus (db_link d) inc as c1 b1 = Inr (c', b')" by (auto simp: bindr_eq_Inr)
  let ?d = "d\<lparr>db_copy := Copying inc as c1, db_req := cp_req c1\<rparr>"
  have "copy_next d = Inr (?d, [DbfPutReq req])" using Cons.prems(1) 1(1) by (simp add: copy_next_def)
  moreover from Cons.IH [of ?d c1 b1] 1(3) obtain d' where
    "copy_drain bus (length as) ?d b1 = Inr (d', b')" "db_copy d' = Copying inc [] c'" "db_link d' = db_link d"
    "db_etrace_crt_mode d' = db_etrace_crt_mode d" by auto
  ultimately show ?case using 1(2) by simp
qed

lemma raise_if_enabled_ok:
  assumes "dl_sized (db_link d)"
  shows "\<exists>d'. raise_if_enabled d = Inr d' \<and> db_copy d' = db_copy d
    \<and> (dl_status (db_link d') = dl_status (db_link d) \<or> dl_status (db_link d') = dl_status (db_link d) OR 0x80)"
proof -
  let ?l = "db_link d"
  have g: "raw_get ?l REG_INT_STATUS = Inr (dl_status ?l)" "raw_get ?l REG_INT_ENABLE = Inr (dl_enable ?l)"
    "\<And>v. raw_set ?l REG_INT_STATUS v = Inr (?l\<lparr>dl_data := (dl_data ?l)[0x39008 := v]\<rparr>)"
    by (simp_all add: raw_get_ok raw_set_ok assms dl_status_def dl_enable_def dbf_regs)
  have "dl_status (?l\<lparr>dl_data := (dl_data ?l)[0x39008 := v], dl_irq_stat := 1\<rparr>) = v" for v
    using assms by (simp add: dl_status_def dbf_regs dl_sized_def FPGA_CHAR_SIZE_def)
  then show ?thesis by (simp add: raise_if_enabled_def g)
qed

lemma copy_end_ok:
  assumes "db_copy d = Copying inc [] c" "dl_sized (db_link d)"
  shows "\<exists>d'. copy_end d = Inr (d', [DbfEnergyMode (db_etrace_crt_mode d - 5)]) \<and> db_copy d' = CopyWaiting
    \<and> bit (dl_status (db_link d')) 5"
proof -
  let ?d0 = "d\<lparr>db_etrace_crt_mode := db_etrace_crt_mode d - 5, db_copy := CopyWaiting\<rparr>"
  let ?l1 = "(db_link d)\<lparr>dl_data := (dl_data (db_link d))[0x38008 := 0]\<rparr>"
  let ?d1 = "?d0\<lparr>db_link := ?l1\<rparr>"
  have "set_data (db_link d) REG_FRA_SRAM 0 = Inr (?l1, [])"
    using assms(2) uint_address [of REG_FRA_SRAM]
    by (simp add: set_data_def Let_def dbf_regs raw_set_ok slice_of_reg_None FPGA_CHAR_SIZE_def)
  then have 1: "db_set_data REG_FRA_SRAM 0 ?d0 = Inr ?d1" by (simp add: db_set_data_def)
  have sz: "dl_sized ?l1" using assms(2) by simp
  let ?l2 = "?l1\<lparr>dl_data := (dl_data ?l1)[0x39008 := dl_status ?l1 OR 32]\<rparr>"
  have 2: "set_status_bits (push_bit REG_STATUS_BIT_SRAM 1) ?l1 = Inr ?l2"
    using sz by (simp add: set_status_bits_def raw_get_ok raw_set_ok REG_INT_STATUS_def dl_status_def dbf_counts)
  have st: "dl_status ?l2 = dl_status ?l1 OR 32"
    using sz by (simp add: dl_status_def dbf_regs dl_sized_def FPGA_CHAR_SIZE_def)
  have sz2: "dl_sized (db_link (?d1\<lparr>db_link := ?l2\<rparr>))" using assms(2) by (simp add: dl_sized_def)
  from raise_if_enabled_ok [OF sz2] obtain d' where
    3: "raise_if_enabled (?d1\<lparr>db_link := ?l2\<rparr>) = Inr d'" "db_copy d' = CopyWaiting"
      "dl_status (db_link d') = dl_status ?l2 \<or> dl_status (db_link d') = dl_status ?l2 OR 0x80" by auto
  have "bit (32::u8) 5"
  proof -
    have "(32::u8) = push_bit 5 1" by simp
    then show ?thesis by (simp only: bit_push_bit_iff) simp
  qed
  then have "bit (dl_status (db_link d')) 5" using 3(3) unfolding st by (auto simp: bit_or_iff)
  moreover have "copy_end d = Inr (d', [DbfEnergyMode (db_etrace_crt_mode d - 5)])"
    using 1 2 3(1) by (simp add: copy_end_def assms(1) Let_def N_SLICE_THREADS_def)
  ultimately show ?thesis using 3(2) by blast
qed

text \<open>
  Claim C3. A copy with increment puts the filtered picture into memory: after the requests of
  the three loops, through the decode of the network and the memory device, memory holds from the programmed
  address on the luminance plane and then the two colour planes, each row by row, and is unchanged
  elsewhere; this for the three formats the memory of the filter has room for and any address aligned to four
  bytes, although a request carries half of its eight lanes and an address aligned to eight. Then
  the status bit of the copy is set and the energy mode is back.
\<close>

theorem dbf_copy_shows_picture:
  assumes "mem_bus_inv ns s e b" "link_inv (db_link d)" "wf_request (db_req d)" "rq_cmd (db_req d) = CMD_WRITE"
    and "get_format (db_link d) = Inr f" "f < 3"
    and "get_PicWidthInMbs (db_link d) = Inr w" "get_PicHeightInMbs (db_link d) = Inr h"
    and "adr = le32 (take 4 (drop 0x39010 (dl_data (db_link d))))" "unat adr mod 4 = 0"
    and "dl_data (db_link d) ! 0x39014 \<noteq> 0" "unat adr + 384 * nat (w * h) \<le> ram_limit e"
  shows "\<exists>d1 d2 b' d3. copy_begin d = Inr (d1, [DbfEnergyMode (db_etrace_crt_mode d + 5)])
    \<and> copy_drain (mem_bus (ram_row s e # rest) ns s) (96 * nat (w * h)) d1 b = Inr (d2, b')
    \<and> mem_view b' = stored (unat adr) (picture (db_link d) (nat w) (nat h)) (mem_view b)
    \<and> copy_end d2 = Inr (d3, [DbfEnergyMode (db_etrace_crt_mode d)])
    \<and> db_copy d3 = CopyWaiting \<and> bit (dl_status (db_link d3)) 5"
proof -
  let ?l = "db_link d" and ?bus = "mem_bus (ram_row s e # rest) ns s" and ?as = "copy_addrs (nat w) (nat h)"
  have sz: "dl_sized ?l" using assms(2) by (simp add: link_inv_def link_pre_def)
  have fit: "fits w h" by (rule picture_fits [OF assms(5-8)])
  then have wh: "nat w * nat h = nat (w * h)" "nat w * nat h \<le> 416" by (simp_all add: fits_def nat_le_iff nat_mult_distrib [symmetric])
  note p = copy_words_picture [OF sz wh(2)]
  have n: "length ?as = 96 * nat (w * h)" using p(3) by (simp add: wh(1))
  define c where "c = \<lparr>cp_req = db_req d, cp_adr_dest = adr, cp_b8alg = (adr AND 0x7 = 0)\<rparr>"
  let ?d1 = "d\<lparr>db_etrace_crt_mode := db_etrace_crt_mode d + 5, db_copy := Copying True ?as c\<rparr>"
  have m3: "(adr AND 0x7 = 0) = (unat adr mod 8 = 0)"
    using lane_ofs_mod [of adr] by (simp add: lane_ofs_def word_unat_eq_iff)
  have m2: "adr AND 0x3 = 0"
  proof -
    have e: "adr AND 3 = take_bit 2 adr" by (simp add: take_bit_eq_mask mask_eq_decr_exp)
    have "unat (adr AND 3) = unat adr mod 4" unfolding e unsigned_take_bit_eq unfolding take_bit_eq_mod by simp
    with assms(10) show ?thesis by (simp add: word_unat_eq_iff)
  qed
  have regs: "rd_bytes (dl_data ?l) (nat REG_SRAM_ADDRESS) 4 = Inr (take 4 (drop 0x39010 (dl_data ?l)))"
    "raw_get ?l REG_INC_ADDRESS = Inr (dl_data ?l ! 0x39014)"
    using sz by (simp_all add: rd_bytes_def raw_get_ok dbf_regs dl_sized_def FPGA_CHAR_SIZE_def)
  have start: "copy_begin d = Inr (?d1, [DbfEnergyMode (db_etrace_crt_mode d + 5)])"
    using m2 assms(11) by (simp add: copy_begin_def assms(7,8) Let_def regs assms(9) [symmetric] c_def N_SLICE_THREADS_def)
  have ok: "copy_ok c" using assms(3,4,10) m3 by (simp add: copy_ok_def c_def)
  have "ram_limit e + 4 \<le> 2 ^ 32"
    using unsigned_less [of e, where 'a = nat] unfolding ram_limit_def by simp
  with ram_bus.copy_run_stores [OF assms(1) ok p(2), of rest] assms(12) n obtain c' b' where
    run: "copy_run ?bus ?l True ?as c b = Inr (c', b')"
      "mem_view b' = stored (unat adr) (concat (map (word_at ?l) ?as)) (mem_view b)" by (auto simp: c_def)
  from copy_drain_run [of ?d1 True ?as c ?bus b c' b'] run(1) obtain d2 where
    d2: "copy_drain ?bus (length ?as) ?d1 b = Inr (d2, b')" "db_copy d2 = Copying True [] c'" "db_link d2 = ?l"
      "db_etrace_crt_mode d2 = db_etrace_crt_mode d + 5" by auto
  have "\<exists>d3. copy_end d2 = Inr (d3, [DbfEnergyMode (db_etrace_crt_mode d)]) \<and> db_copy d3 = CopyWaiting
      \<and> bit (dl_status (db_link d3)) 5"
    using copy_end_ok [OF d2(2)] sz d2(3,4) by simp
  then show ?thesis using start d2(1) [unfolded n] run(2) [unfolded p(1)] by blast
qed


text \<open>A picture of format 0 whose copy goes to address 8, and a memory for it.\<close>

definition demo_copy :: dbf_device where
  "demo_copy = (dbf_start_threads (dbf_device_new 2 zero_request zero_response zero_request))
     \<lparr>db_link := \<lparr>dl_data = (replicate FPGA_CHAR_SIZE 0)[0x39010 := 8, 0x39014 := 1], dl_irq_stat = 0\<rparr>, db_copy := CopyWoken\<rparr>"

definition demo_bus :: "slave_device \<times> mem_device" where
  "demo_bus = (slave_device_new zero_request zero_response, mem_device_new 0 0x8000)"

lemma demo_copy_ok:
  "mem_bus_inv 1 0 0x8000 demo_bus" "link_inv (db_link demo_copy)" "wf_request (db_req demo_copy)"
  "rq_cmd (db_req demo_copy) = CMD_WRITE" "get_format (db_link demo_copy) = Inr 0"
  "get_PicWidthInMbs (db_link demo_copy) = Inr 8" "get_PicHeightInMbs (db_link demo_copy) = Inr 6"
  "8 = le32 (take 4 (drop 0x39010 (dl_data (db_link demo_copy))))" "dl_data (db_link demo_copy) ! 0x39014 \<noteq> 0"
proof -
  let ?l = "db_link demo_copy"
  have l: "dl_data ?l = (replicate FPGA_CHAR_SIZE 0)[0x39010 := 8, 0x39014 := 1]" "dl_irq_stat ?l = 0" "dl_sized ?l"
    by (simp_all add: demo_copy_def dl_sized_def)
  have at: "dl_data ?l ! k = (if k = 0x39014 then 1 else if k = 0x39010 then 8 else 0)" if "k < 0x40000" for k
    using that by (simp add: l(1) FPGA_CHAR_SIZE_def nth_list_update)
  show "link_inv ?l" using l(2,3) by (simp add: link_inv_def link_pre_def dl_status_def dl_enable_def dbf_regs at)
  show f: "get_format ?l = Inr 0" using l(3) by (simp add: get_format_def get_data_ok dbf_regs at)
  show "get_PicWidthInMbs ?l = Inr 8" "get_PicHeightInMbs ?l = Inr 6"
    by (simp_all add: get_PicWidthInMbs_def get_PicHeightInMbs_def f MbWidth_def)
  have "take 4 (drop 0x39010 (dl_data ?l)) = [8, 0, 0, 0]"
  proof (rule nth_equalityI)
    show len: "length (take 4 (drop 0x39010 (dl_data ?l))) = length [8, 0, 0, 0::u8]"
      by (simp add: l(1) FPGA_CHAR_SIZE_def)
    fix i assume "i < length (take 4 (drop 0x39010 (dl_data ?l)))"
    then have "i < 4" using len by simp
    then have "i = 0 \<or> i = 1 \<or> i = 2 \<or> i = 3" by linarith
    then show "take 4 (drop 0x39010 (dl_data ?l)) ! i = [8, 0, 0, 0] ! i"
      using at [of "0x39010 + i"] by (auto simp: l(1) FPGA_CHAR_SIZE_def)
  qed
  then show "8 = le32 (take 4 (drop 0x39010 (dl_data ?l)))" by (simp add: le32_def)
  show "dl_data ?l ! 0x39014 \<noteq> 0" by (simp add: at)
qed (simp_all add: mem_bus_inv_def demo_bus_def wf_response_def zero_response_def mem_device_new_def demo_copy_def
    dbf_start_threads_def dbf_device_new_def wf_request_def zero_request_def cmd_defs mem_inv_def)

lemma dbf_copy_shows_picture_witness:
  "\<exists>d1 d2 b'. copy_begin demo_copy = Inr (d1, [DbfEnergyMode 5])
    \<and> copy_drain (mem_bus [ram_row 0 0x8000] 1 0) 4608 d1 demo_bus = Inr (d2, b')
    \<and> mem_view b' = stored 8 (picture (db_link demo_copy) 8 6) (mem_view demo_bus)"
proof -
  have lim: "unat (8::ulong) mod 4 = 0" "unat (8::ulong) + 384 * nat (8 * 6) \<le> ram_limit 0x8000"
    by (simp_all add: ram_limit_def)
  have "db_etrace_crt_mode demo_copy = 0" by (simp add: demo_copy_def dbf_start_threads_def dbf_device_new_def)
  with dbf_copy_shows_picture [OF demo_copy_ok(1-5) _ demo_copy_ok(6-8) lim(1) demo_copy_ok(9) lim(2), of "[]"]
  show ?thesis by auto
qed

end
