(* ===== verification/Tg_Device.thy ===== *)
theory Tg_Device
  imports Slave_Device
begin

text \<open>
  The traffic generator (\<^verbatim>\<open>tg/tg_device.cpp\<close>): a file of the host, read four bytes at a time and from
  its start again when it is exhausted. The file is the list of its bytes and the position of its stream;
  that it can be opened is assumed, as the constructor exits otherwise.
\<close>

record tg_device =
  tg_file :: "u8 list"
  tg_pos :: nat
  tg_bytes_left :: ulong

definition reset_input :: "tg_device \<Rightarrow> tg_device" where
  "reset_input t = t\<lparr>tg_bytes_left := tg_bytes_left t + of_nat (length (tg_file t)), tg_pos := 0\<rparr>"

definition tg_device_new :: "u8 list \<Rightarrow> tg_device" where
  "tg_device_new file = reset_input \<lparr>tg_file = file, tg_pos = 0, tg_bytes_left = 0\<rparr>"

definition tg_write :: "tg_device \<Rightarrow> ulong \<Rightarrow> unit res" where
  "tg_write t ofs = (if ofs = 0x480 then Inr () else Inl (Exit 1))"

text \<open>The loop of the case 0: \<open>fread\<close> leaves the byte as it is at the end of the file.\<close>

definition tg_fetch :: "nat \<Rightarrow> tg_device \<times> u8 list \<Rightarrow> (tg_device \<times> u8 list) res" where
  "tg_fetch i = (\<lambda>(t, data).
     let t = (if tg_bytes_left t = 0 then reset_input t else t) in
     bindr (if tg_pos t < length (tg_file t)
            then bindr (wr data i (tg_file t ! tg_pos t)) (\<lambda>data. Inr (t\<lparr>tg_pos := tg_pos t + 1\<rparr>, data))
            else Inr (t, data)) (\<lambda>(t, data).
     Inr (t\<lparr>tg_bytes_left := tg_bytes_left t - 1\<rparr>, data)))"

definition tg_read :: "tg_device \<Rightarrow> ulong \<Rightarrow> u8 list \<Rightarrow> (tg_device \<times> u8 list) res" where
  "tg_read t ofs data =
     (let data = set_u32 (set_u32 data 0 0) 1 0 in
      if ofs = 0 then for_each tg_fetch [0, 1, 2, 3] (t, data)
      else if ofs = 0x80 then
        let t = (if tg_bytes_left t = 0 then reset_input t else t)
        in Inr (t, set_u32 data 0 ((tg_bytes_left t + 3) div 4))
      else Inl (Exit 1))"

definition tg_rcv_rqst :: "(tg_device, unit) rcv_rqst" where
  "tg_rcv_rqst req t ofs be data bWrite =
     (if bWrite then bindr (tg_write t ofs) (\<lambda>_. Inr (t, [], data, False))
      else bindr (tg_read t ofs data) (\<lambda>(t, data). Inr (t, [], data, False)))"

subsection \<open>The file, over and over\<close>

text \<open>The counter and the stream agree, unless the file is empty.\<close>

definition tg_inv :: "tg_device \<Rightarrow> bool" where
  "tg_inv t \<longleftrightarrow> tg_pos t \<le> length (tg_file t) \<and> length (tg_file t) < 2 ^ 32
     \<and> (tg_file t \<noteq> [] \<longrightarrow> unat (tg_bytes_left t) = length (tg_file t) - tg_pos t)"

text \<open>The state before the \<open>k\<close>-th byte: \<open>k mod n\<close> bytes of the file are read, or all of it.\<close>

definition tg_at :: "u8 list \<Rightarrow> nat \<Rightarrow> tg_device \<Rightarrow> bool" where
  "tg_at file k t \<longleftrightarrow> tg_file t = file \<and> tg_inv t \<and> (tg_pos t = k mod length file \<or> tg_pos t = length file \<and> k mod length file = 0)"

definition cyclic :: "u8 list \<Rightarrow> nat \<Rightarrow> nat \<Rightarrow> u8 list" where
  "cyclic file k n = map (\<lambda>i. file ! (i mod length file)) [k..<k + n]"

lemma tg_fetch_at:
  assumes "tg_at file k t" "file \<noteq> []" "i < length data"
  shows "\<exists>t'. tg_fetch i (t, data) = Inr (t', data[i := file ! (k mod length file)]) \<and> tg_at file (Suc k) t'"
proof -
  let ?n = "length file" and ?t = "if tg_bytes_left t = 0 then reset_input t else t"
  have n: "0 < ?n" "?n < 2 ^ 32" using assms by (auto simp: tg_at_def tg_inv_def)
  have f: "tg_file t = file" "unat (tg_bytes_left t) = ?n - tg_pos t" "tg_pos t \<le> ?n"
    using assms by (auto simp: tg_at_def tg_inv_def)
  have at: "tg_pos ?t = k mod ?n" "tg_file ?t = file" "unat (tg_bytes_left ?t) = ?n - k mod ?n"
  proof -
    have "tg_bytes_left t = 0 \<longleftrightarrow> tg_pos t = ?n"
      using f(2,3) n(1) by (auto simp: word_unat_eq_iff)
    moreover have "k mod ?n \<noteq> ?n" using n(1) mod_less_divisor [of ?n k] by linarith
    ultimately show "tg_pos ?t = k mod ?n" "tg_file ?t = file" "unat (tg_bytes_left ?t) = ?n - k mod ?n"
      using assms(1) f n by (auto simp: reset_input_def tg_at_def unat_of_nat)
  qed
  have lt: "k mod ?n < ?n" using n(1) by simp
  let ?t' = "?t\<lparr>tg_pos := k mod ?n + 1, tg_bytes_left := tg_bytes_left ?t - 1\<rparr>"
  have "1 \<le> tg_bytes_left ?t" using at(3) lt by (simp add: word_le_nat_alt)
  then have left: "unat (tg_bytes_left ?t - 1) = ?n - (k mod ?n + 1)" using at(3) unat_sub [of 1 "tg_bytes_left ?t"] by simp
  have "tg_fetch i (t, data) = Inr (?t', data[i := file ! (k mod ?n)])"
    using at(1,2) lt assms(3) by (simp add: tg_fetch_def Let_def wr_def)
  moreover have "tg_at file (Suc k) ?t'"
    using at(2) left lt n(2) by (auto simp: tg_at_def tg_inv_def mod_Suc)
  ultimately show ?thesis by blast
qed

lemma tg_read_at:
  assumes "tg_at file k t" "file \<noteq> []" "length data = 8"
  shows "\<exists>t' data'. tg_read t 0 data = Inr (t', data') \<and> tg_at file (k + 4) t' \<and> take 4 data' = cyclic file k 4"
proof -
  define d0 where "d0 = set_u32 (set_u32 data 0 0) 1 0"
  have l0: "length d0 = 8" using assms(3) by (simp add: d0_def)
  let ?b = "\<lambda>j. file ! ((k + j) mod length file)"
  from tg_fetch_at [OF assms(1,2), of 0 d0] l0 obtain t1 where
    1: "tg_fetch 0 (t, d0) = Inr (t1, d0[0 := ?b 0])" "tg_at file (Suc k) t1" by auto
  from tg_fetch_at [OF 1(2) assms(2), of 1 "d0[0 := ?b 0]"] l0 obtain t2 where
    2: "tg_fetch 1 (t1, d0[0 := ?b 0]) = Inr (t2, d0[0 := ?b 0, 1 := ?b 1])" "tg_at file (Suc (Suc k)) t2" by auto
  from tg_fetch_at [OF 2(2) assms(2), of 2 "d0[0 := ?b 0, 1 := ?b 1]"] l0 obtain t3 where
    3: "tg_fetch 2 (t2, d0[0 := ?b 0, 1 := ?b 1]) = Inr (t3, d0[0 := ?b 0, 1 := ?b 1, 2 := ?b 2])"
      "tg_at file (Suc (Suc (Suc k))) t3" by auto
  from tg_fetch_at [OF 3(2) assms(2), of 3 "d0[0 := ?b 0, 1 := ?b 1, 2 := ?b 2]"] l0 obtain t4 where
    4: "tg_fetch 3 (t3, d0[0 := ?b 0, 1 := ?b 1, 2 := ?b 2]) = Inr (t4, d0[0 := ?b 0, 1 := ?b 1, 2 := ?b 2, 3 := ?b 3])"
      "tg_at file (Suc (Suc (Suc (Suc k)))) t4" by (auto simp: numeral_eq_Suc)
  have "take 4 (d0[0 := ?b 0, 1 := ?b 1, 2 := ?b 2, 3 := ?b 3]) = cyclic file k 4"
    by (rule nth_equalityI) (use l0 in \<open>auto simp: cyclic_def nth_list_update less_Suc_eq numeral_eq_Suc\<close>)
  moreover have "tg_at file (k + 4) t4" using 4(2) by (simp add: numeral_eq_Suc)
  ultimately show ?thesis
    using 1(1) 2(1) 3(1) 4(1) by (simp add: tg_read_def Let_def d0_def [symmetric] del: One_nat_def)
qed

text \<open>The words a processor reads: the first four lanes of the data of successive reads at offset 0.\<close>

fun tg_words :: "vci_request \<Rightarrow> u8 \<Rightarrow> u8 list list \<Rightarrow> tg_device \<Rightarrow> (tg_device \<times> u8 list) res" where
  "tg_words req be [] t = Inr (t, [])"
| "tg_words req be (data # ds) t =
     bindr (tg_rcv_rqst req t 0 be data False) (\<lambda>(t, es, data', bErr).
     bindr (tg_words req be ds t) (\<lambda>(t, bs). Inr (t, take 4 data' @ bs)))"

lemma tg_words_at:
  assumes "tg_at file k t" "file \<noteq> []" "\<forall>data\<in>set ds. length data = 8"
  shows "\<exists>t'. tg_words req be ds t = Inr (t', cyclic file k (4 * length ds)) \<and> tg_at file (k + 4 * length ds) t'"
  using assms(1,3)
proof (induction ds arbitrary: k t)
  case Nil
  then show ?case by (simp add: cyclic_def)
next
  case (Cons data ds)
  from tg_read_at [OF Cons.prems(1) assms(2), of data] Cons.prems(2) obtain t1 data' where
    1: "tg_read t 0 data = Inr (t1, data')" "tg_at file (k + 4) t1" "take 4 data' = cyclic file k 4" by auto
  from Cons.IH [OF 1(2)] Cons.prems(2) obtain t2 where
    2: "tg_words req be ds t1 = Inr (t2, cyclic file (k + 4) (4 * length ds))" "tg_at file (k + 4 + 4 * length ds) t2" by auto
  have "cyclic file k 4 @ cyclic file (k + 4) (4 * length ds) = cyclic file k (4 * length (data # ds))"
    using upt_add_eq_append [of k "k + 4" "4 * length ds"]
    by (simp add: cyclic_def map_append [symmetric] add.assoc del: map_append)
  with 1 2 show ?case by (simp add: tg_rcv_rqst_def add.assoc)
qed

interpretation tg_slave: slave_module tg_rcv_rqst "\<lambda>_. True"
proof (unfold_locales, goal_cases)
  case (2 s data req ofs be w s' es data' bErr)
  have [dest]: "length d' = length d" if "tg_fetch i (t, d) = Inr (t', d')" for i t d t' d'
    using that by (auto simp: tg_fetch_def Let_def bindr_eq_Inr wr_def split: if_splits)
  with 2 show ?case
    by (auto simp: tg_rcv_rqst_def tg_read_def Let_def bindr_eq_Inr split: if_splits)
qed (auto simp: tg_rcv_rqst_def bindr_eq_Inr)

text \<open>
  Successive reads of the traffic generator deliver the bytes of its file in order, from the start
  again after the end, with no byte lost or doubled at the seam, for any file that is not
  empty and any length, a multiple of the word or not.
\<close>

theorem tg_reads_cyclically:
  assumes "file \<noteq> []" "length file < 2 ^ 32" "\<forall>data\<in>set ds. length data = 8"
  shows "\<exists>t'. tg_words req be ds (tg_device_new file) = Inr (t', cyclic file 0 (4 * length ds))"
proof -
  have "tg_at file 0 (tg_device_new file)"
    using assms(2) by (simp add: tg_at_def tg_inv_def tg_device_new_def reset_input_def unat_of_nat)
  from tg_words_at [OF this assms(1,3)] show ?thesis by auto
qed

lemma tg_reads_cyclically_witness:
  "\<exists>t'. tg_words zero_request 0x0F (replicate 2 (replicate 8 0)) (tg_device_new [1, 2, 3]) = Inr (t', [1, 2, 3, 1, 2, 3, 1, 2])"
  using tg_reads_cyclically [of "[1, 2, 3]" "replicate 2 (replicate 8 0)" zero_request "0x0F"]
  by (simp add: cyclic_def upt_rec)

end
