(* ===== verification/Tty_Devices.thy ===== *)
theory Tty_Devices
  imports Slave_Device Byte_Lanes
begin

text \<open>
  The two devices that only print: \<^verbatim>\<open>sl_tty/sl_tty_device.cpp\<close> and \<^verbatim>\<open>tty/tty_device.cpp\<close>. Each
  terminal is a process behind a pipe; a character written to the pipe is an event. The only state is the
  number of terminals.
\<close>

datatype term_event = TermOut nat u8

definition TTY_SPAN :: ulong where "TTY_SPAN = 4"

text \<open>The number of the terminal is kept in a byte.\<close>

definition sl_tty_write :: "int \<Rightarrow> ulong \<Rightarrow> u8 \<Rightarrow> u8 list \<Rightarrow> term_event list res" where
  "sl_tty_write nb_tty ofs be data =
     (let ofs = reg_index ofs be; value = reg_word data be;
          tty = (ucast (ofs div TTY_SPAN) :: u8); ofs = ofs mod TTY_SPAN in
      if int (unat tty) \<ge> nb_tty then Inl (Exit 1)
      else if ofs = 0 then Inr [TermOut (unat tty) (ucast value)]
      else Inl (Exit 1))"

definition sl_tty_rcv_rqst :: "(int, term_event) rcv_rqst" where
  "sl_tty_rcv_rqst req nb_tty ofs be data bWrite =
     (if bWrite then bindr (sl_tty_write nb_tty ofs be data) (\<lambda>es. Inr (nb_tty, es, data, False))
      else Inl (Exit 1))"

text \<open>
  \<open>tty_device\<close> takes the terminal from the byte lane. It has no \<open>rcv_rqst\<close>, so the platforms
  do not use it; \<open>pout\<close> is an array of \<open>nb_tty\<close> pipes.
\<close>

definition tty_of_be :: "u8 \<Rightarrow> nat option" where
  "tty_of_be be =
     (if be = 0x01 then Some 0 else if be = 0x02 then Some 1 else if be = 0x04 then Some 2
      else if be = 0x08 then Some 3 else if be = 0x10 then Some 4 else if be = 0x20 then Some 5
      else if be = 0x40 then Some 6 else if be = 0x80 then Some 7 else None)"

definition tty_write :: "int \<Rightarrow> ulong \<Rightarrow> u8 \<Rightarrow> u8 list \<Rightarrow> (term_event list \<times> bool) res" where
  "tty_write nb_tty ofs be data =
     (case tty_of_be be of
        Some tty \<Rightarrow>
          if ofs = 0 then
            bindr (rd data tty) (\<lambda>val.
            if int tty < nb_tty then Inr ([TermOut tty val], False) else Inl OutOfBounds)
          else Inl (Exit 1)
      | None \<Rightarrow> Inl (Exit 1))"

definition tty_read :: "u8 list \<Rightarrow> u8 list res" where
  "tty_read data = Inl (Exit 1)"

interpretation sl_tty_slave: slave_module sl_tty_rcv_rqst "\<lambda>_. True"
  by unfold_locales (auto simp: sl_tty_rcv_rqst_def bindr_eq_Inr split: if_splits)

text \<open>A store of a character to the register of a terminal prints it there.\<close>

lemma sl_tty_prints:
  assumes "k < 256" "int k < nb_tty" "length data = 8"
  shows "sl_tty_rcv_rqst req nb_tty (of_nat (16 * k)) 0x0F data True = Inr (nb_tty, [TermOut k (data ! 0)], data, False)"
proof -
  have o: "drop_bit 2 (of_nat (16 * k) :: ulong) = of_nat (4 * k)"
  proof (rule word_unat_eq_iff [THEN iffD2])
    show "unat (drop_bit 2 (of_nat (16 * k) :: ulong)) = unat (of_nat (4 * k) :: ulong)"
      unfolding unat_drop_bit_eq unfolding drop_bit_eq_div using assms(1) by (simp add: unat_of_nat del: of_nat_mult)
  qed
  have d: "unat (of_nat (4 * k) div 4 :: ulong) = k" "(of_nat (4 * k) :: ulong) mod 4 = 0"
    using assms(1) by (simp_all add: unat_div_distrib unat_of_nat word_unat_eq_iff unat_mod_distrib del: of_nat_mult)
  have t: "unat (ucast (of_nat (4 * k) div 4 :: ulong) :: u8) = k"
    using d(1) assms(1) by (simp add: unsigned_ucast_eq take_bit_nat_eq_self)
  have u: "uint (ucast (of_nat (4 * k) div 4 :: ulong) :: u8) = int k"
    using arg_cong [OF t, of int] by (simp del: of_nat_mult)
  have c: "ucast (u32_at data 0) = data ! 0"
  proof -
    have "bytes32 (u32_at data 0) = take 4 data" using assms(3) by (simp add: u32_at_def bytes32_le32)
    then have "bytes32 (u32_at data 0) ! 0 = data ! 0" using assms(3) by simp
    then show ?thesis by (simp add: bytes32_def)
  qed
  show ?thesis
    using assms o d(2) t u c
    by (simp add: sl_tty_rcv_rqst_def sl_tty_write_def Let_def reg_index_def reg_word_def reg_lane_def TTY_SPAN_def)
qed

end
