(* ===== verification/Ramdac_Device.thy ===== *)
theory Ramdac_Device
  imports Slave_Device
begin

text \<open>
  The ramdac (\<^verbatim>\<open>ramdac/ramdac_device.cpp\<close>): three writes give the geometry of the picture, all others
  are its words in raster order; after the last one the buffer is shown and the other one is written. The
  viewer is a process of the host; \<open>RaShow\<close> carries the picture it finds in the shared buffer.
  \<open>shm_ok\<close> says for which sizes \<^verbatim>\<open>shmget\<close> finds a segment.
\<close>

text \<open>\<open>ra_nramdac\<close> is the static counter of the viewers, \<open>pids_ramdac\<close> has ten places.\<close>

record ramdac =
  ra_nramdac :: nat
  ra_width :: int
  ra_height :: int
  ra_components :: int
  ra_ready :: bool
  ra_x :: u32
  ra_y :: u32
  ra_ii :: nat
  ra_image :: "u8 list list"
  ra_nb_images :: int

datatype ra_event = RaViewer int int int | RaShow "u8 list"

text \<open>The constructor sets neither \<open>components\<close> nor the position: they are those of \<open>junk\<close>.\<close>

definition ramdac_new :: "nat \<Rightarrow> ramdac \<Rightarrow> ramdac" where
  "ramdac_new nramdac junk = junk\<lparr>ra_nramdac := nramdac, ra_ii := 0, ra_nb_images := 0, ra_width := 0,
     ra_height := 0, ra_ready := False\<rparr>"

definition ra_viewer :: "(u32 \<Rightarrow> bool) \<Rightarrow> ramdac \<Rightarrow> (ramdac \<times> ra_event list) res" where
  "ra_viewer shm_ok d =
     (let bytes = (of_int (ra_components d * ra_width d * ra_height d) :: u32) in
      if ra_nramdac d \<ge> 10 then Inl OutOfBounds
      else if \<not> shm_ok bytes then Inl Livelock
      else Inr (d\<lparr>ra_nramdac := ra_nramdac d + 1, ra_image := replicate 2 (replicate (unat bytes) 0)\<rparr>,
                [RaViewer (ra_width d) (ra_height d) (ra_components d)]))"

definition ra_receive_size :: "(u32 \<Rightarrow> bool) \<Rightarrow> ramdac \<Rightarrow> u32 \<Rightarrow> (ramdac \<times> ra_event list) res" where
  "ra_receive_size shm_ok d v =
     (if ra_width d = 0 then Inr (d\<lparr>ra_width := sint v\<rparr>, [])
      else if ra_height d = 0 then Inr (d\<lparr>ra_height := sint v\<rparr>, [])
      else if ra_components d = 0 then
        ra_viewer shm_ok (d\<lparr>ra_ready := True, ra_x := 0, ra_y := 0, ra_components := sint v\<rparr>)
      else Inr (d, []))"

definition ra_display :: "ramdac \<Rightarrow> (ramdac \<times> ra_event list) res" where
  "ra_display d =
     bindr (rd (ra_image d) (ra_ii d)) (\<lambda>buf. Inr (d\<lparr>ra_ii := (ra_ii d + 1) mod 2\<rparr>, [RaShow buf]))"

definition umod :: "u32 \<Rightarrow> u32 \<Rightarrow> u32 res" where
  "umod a b = (if b = 0 then Inl DivByZero else Inr (a mod b))"

text \<open>The case 0 of \<open>write\<close> once the geometry is known; the conversions to unsigned are the code's.\<close>

definition ra_pixels :: "u32 \<Rightarrow> ramdac \<Rightarrow> u32 \<Rightarrow> (ramdac \<times> ra_event list) res" where
  "ra_pixels no_frames d v =
     bindr (rd (ra_image d) (ra_ii d)) (\<lambda>buf.
     let idx = (ra_y d * of_int (ra_width d) * of_int (ra_components d)) div 4 + ra_x d in
     bindr (wr_bytes buf (4 * unat idx) (bytes32 v)) (\<lambda>buf.
     let d = d\<lparr>ra_image := (ra_image d)[ra_ii d := buf]\<rparr> in
     bindr (umod (ra_x d + 1) (of_int ((ra_width d sdiv 4) * ra_components d))) (\<lambda>x.
     let d = d\<lparr>ra_x := x\<rparr> in
     bindr (if x = 0 then umod (ra_y d + 1) (of_int (ra_height d)) else Inr (ra_y d)) (\<lambda>y.
     let d = d\<lparr>ra_y := y\<rparr> in
     if x = 0 \<and> y = 0 then
       let d = d\<lparr>ra_nb_images := ra_nb_images d + 1\<rparr> in
       bindr (ra_display d) (\<lambda>(d, es).
       if no_frames \<noteq> 0 \<and> of_int (ra_nb_images d) = no_frames then Inl (Exit 1) else Inr (d, es))
     else Inr (d, [])))))"

definition ra_write :: "(u32 \<Rightarrow> bool) \<Rightarrow> u32 \<Rightarrow> ramdac \<Rightarrow> ulong \<Rightarrow> u8 list \<Rightarrow> (ramdac \<times> ra_event list) res" where
  "ra_write shm_ok no_frames d ofs data =
     (let val1 = u32_at data 0 in
      if ofs = 0 then
        if \<not> ra_ready d then ra_receive_size shm_ok d val1 else ra_pixels no_frames d val1
      else if ofs = 0x880 then Inr (d, [])
      else Inl (Exit 1))"

definition ra_rcv_rqst :: "(u32 \<Rightarrow> bool) \<Rightarrow> u32 \<Rightarrow> (ramdac, ra_event) rcv_rqst" where
  "ra_rcv_rqst shm_ok no_frames req d ofs be data bWrite =
     (if bWrite then bindr (ra_write shm_ok no_frames d ofs data) (\<lambda>(d, es). Inr (d, es, data, False))
      else Inr (d, [], data, False))"

interpretation ramdac_slave: slave_module "ra_rcv_rqst shm_ok no_frames" "\<lambda>_. True" for shm_ok no_frames
  by unfold_locales (auto simp: ra_rcv_rqst_def bindr_eq_Inr split: if_splits)

subsection \<open>Pictures in raster order\<close>

text \<open>A picture of \<open>H\<close> rows of \<open>r\<close> words, the width a multiple of four.\<close>

definition ra_geometry :: "nat \<Rightarrow> nat \<Rightarrow> ramdac \<Rightarrow> bool" where
  "ra_geometry r H d \<longleftrightarrow> ra_ready d \<and> 0 < r \<and> 0 < H \<and> 4 * (r * H) < 2 ^ 32
     \<and> (\<exists>q C. ra_width d = int (4 * q) \<and> ra_components d = int C \<and> q * C = r) \<and> ra_height d = int H"

text \<open>The words \<open>us\<close> of a picture are written to the current buffer.\<close>

definition ra_at :: "nat \<Rightarrow> nat \<Rightarrow> u32 list \<Rightarrow> ramdac \<Rightarrow> bool" where
  "ra_at r H us d \<longleftrightarrow> ra_geometry r H d \<and> length us < r * H
     \<and> ra_x d = of_nat (length us mod r) \<and> ra_y d = of_nat (length us div r)
     \<and> length (ra_image d) = 2 \<and> ra_ii d < 2 \<and> (\<forall>b\<in>set (ra_image d). length b = 4 * (r * H))
     \<and> take (4 * length us) (ra_image d ! ra_ii d) = words_bytes us"

lemma of_nat_umod:
  assumes "a < 2 ^ 32" "b < 2 ^ 32" "0 < b"
  shows "umod (of_nat a) (of_nat b) = Inr (of_nat (a mod b))"
proof -
  have "(of_nat b :: u32) \<noteq> 0" using assms(2,3) by (simp add: word_unat_eq_iff unat_of_nat)
  moreover have "a mod b < 2 ^ 32" using mod_less_divisor [OF assms(3), of a] assms(2) by linarith
  then have "(of_nat a :: u32) mod of_nat b = of_nat (a mod b)"
    using assms(1,2) by (simp add: word_unat_eq_iff unat_mod_distrib unat_of_nat)
  ultimately show ?thesis by (simp add: umod_def)
qed

lemma raster_index:
  assumes "k < r * H" "4 * (r * H) < 2 ^ 32" "q * C = r" "0 < r"
  shows "unat ((of_nat (k div r) * of_int (int (4 * q)) * of_int (int C)) div 4 + of_nat (k mod r) :: u32) = k"
proof -
  have b: "(k div r) * (4 * q) * C = 4 * ((k div r) * r)" using assms(3) by (simp add: mult.assoc)
  have le: "(k div r) * r \<le> k" by (simp add: div_times_less_eq_dividend)
  have lt: "4 * ((k div r) * r) < 2 ^ 32" "k < 2 ^ 32" using le assms(1,2) by linarith+
  have e: "of_nat (k div r) * of_int (int (4 * q)) * of_int (int C) = (of_nat ((k div r) * (4 * q) * C) :: u32)"
    by simp
  have "unat ((of_nat (k div r) * of_int (int (4 * q)) * of_int (int C)) div 4 :: u32) = (k div r) * r"
    unfolding e b unat_div_distrib using lt(1) by (simp add: unat_of_nat del: of_nat_mult)
  moreover have "unat (of_nat (k mod r) :: u32) = k mod r"
  proof -
    have "k mod r < 2 ^ 32" using mod_less_eq_dividend [of k r] lt(2) by linarith
    then show ?thesis by (simp add: unat_of_nat)
  qed
  moreover have "(k div r) * r + k mod r = k" by simp
  ultimately show ?thesis using lt(2) by (simp add: unat_word_ariths)
qed

text \<open>The position after a word: the next one, or the start of the picture.\<close>

lemma raster_next:
  fixes k r H :: nat
  assumes "k < r * H" "0 < r"
  shows "(k mod r + 1) mod r = (k + 1) mod r"
    and "(k + 1) mod r \<noteq> 0 \<Longrightarrow> (k + 1) div r = k div r"
    and "(k + 1) mod r = 0 \<Longrightarrow> (k + 1) div r = k div r + 1"
    and "(k + 1) mod r = 0 \<Longrightarrow> (k div r + 1) mod H = 0 \<longleftrightarrow> k + 1 = r * H"
    and "k div r < H"
proof -
  show "(k mod r + 1) mod r = (k + 1) mod r" by (rule mod_add_left_eq [of k r 1])
  show "(k + 1) mod r \<noteq> 0 \<Longrightarrow> (k + 1) div r = k div r" using div_Suc [of k r] by auto
  show z: "(k + 1) mod r = 0 \<Longrightarrow> (k + 1) div r = k div r + 1" using div_Suc [of k r] by auto
  show lt: "k div r < H" using assms by (simp add: less_mult_imp_div_less mult.commute)
  show "(k div r + 1) mod H = 0 \<longleftrightarrow> k + 1 = r * H" if m: "(k + 1) mod r = 0"
  proof -
    have "k + 1 = r * (k div r + 1)" using m z [OF m] by (metis add.right_neutral mult_div_mod_eq)
    moreover have "(k div r + 1) mod H = 0 \<longleftrightarrow> k div r + 1 = H" using lt by (cases "k div r + 1 = H") auto
    ultimately show ?thesis using assms(2) by (metis mult_cancel1 less_irrefl)
  qed
qed

lemma ra_pixels_step:
  assumes at: "ra_at r H us d"
  shows "length us + 1 < r * H \<Longrightarrow> \<exists>d'. ra_pixels 0 d v = Inr (d', []) \<and> ra_at r H (us @ [v]) d'"
    and "length us + 1 = r * H \<Longrightarrow> \<exists>d'. ra_pixels 0 d v = Inr (d', [RaShow (words_bytes (us @ [v]))]) \<and> ra_at r H [] d'"
proof -
  let ?k = "length us" and ?buf = "ra_image d ! ra_ii d"
  from at obtain q C where g: "ra_ready d" "0 < r" "0 < H" "4 * (r * H) < 2 ^ 32" "ra_width d = int (4 * q)"
    "ra_components d = int C" "q * C = r" "ra_height d = int H" by (auto simp: ra_at_def ra_geometry_def)
  have k: "?k < r * H" and xy: "ra_x d = of_nat (?k mod r)" "ra_y d = of_nat (?k div r)" and im: "length (ra_image d) = 2" "ra_ii d < 2"
    "\<forall>b\<in>set (ra_image d). length b = 4 * (r * H)" "take (4 * ?k) ?buf = words_bytes us" using at by (simp_all add: ra_at_def)
  have buf: "rd (ra_image d) (ra_ii d) = Inr ?buf" "length ?buf = 4 * (r * H)" using im by simp_all
  have idx: "unat ((ra_y d * of_int (ra_width d) * of_int (ra_components d)) div 4 + ra_x d) = ?k"
    unfolding xy g(5,6) by (rule raster_index [OF k g(4,7,2)])
  let ?new = "put_bytes ?buf (4 * ?k) (bytes32 v)"
  let ?im = "(ra_image d)[ra_ii d := ?new]"
  have wr: "wr_bytes ?buf (4 * ?k) (bytes32 v) = Inr ?new" "length ?new = 4 * (r * H)"
    using buf(2) k by (simp_all add: wr_bytes_def)
  have tk: "take (4 * (?k + 1)) ?new = words_bytes (us @ [v])"
    using im(4) buf(2) k by (simp add: put_bytes_def words_bytes_append)
  have "int (4 * q) div 4 = int q" by simp
  then have "(ra_width d sdiv 4) * ra_components d = int r"
    unfolding g(5,6) g(7) [symmetric] using sdiv_nonneg [of "int (4 * q)" 4] by simp
  then have row: "of_int ((ra_width d sdiv 4) * ra_components d) = (of_nat r :: u32)" by simp
  have small: "?k mod r + 1 < 2 ^ 32" "r < 2 ^ 32" "?k div r + 1 < 2 ^ 32" "H < 2 ^ 32"
  proof -
    have "r * 1 \<le> r * H" "1 * H \<le> r * H" using g(2,3) by (intro mult_le_mono; simp)+
    then show "r < 2 ^ 32" "H < 2 ^ 32" using g(4) by linarith+
    show "?k mod r + 1 < 2 ^ 32" "?k div r + 1 < 2 ^ 32"
      using mod_less_divisor [OF g(2), of ?k] raster_next(5) [OF k g(2)] \<open>r < 2 ^ 32\<close> \<open>H < 2 ^ 32\<close> by linarith+
  qed
  note nx = raster_next [OF k g(2)]
  have x: "umod (ra_x d + 1) (of_int ((ra_width d sdiv 4) * ra_components d)) = Inr (of_nat ((?k + 1) mod r))"
    unfolding row xy using of_nat_umod [OF small(1,2) g(2)] nx(1) by (simp add: add.commute)
  have y: "umod (ra_y d + 1) (of_int (ra_height d)) = Inr (of_nat ((?k div r + 1) mod H))"
    unfolding xy g(8) using of_nat_umod [OF small(3,4) g(3)] by (simp add: add.commute)
  have zero: "(of_nat a :: u32) = 0 \<longleftrightarrow> a = 0" if "a < 2 ^ 32" for a
    using that by (simp add: word_unat_eq_iff unat_of_nat)
  have xz: "(of_nat ((?k + 1) mod r) :: u32) = 0 \<longleftrightarrow> (?k + 1) mod r = 0"
    by (rule zero) (use mod_less_divisor [OF g(2), of "?k + 1"] small(2) in linarith)
  have yz: "(of_nat ((?k div r + 1) mod H) :: u32) = 0 \<longleftrightarrow> (?k div r + 1) mod H = 0"
    by (rule zero) (use mod_less_divisor [OF g(3), of "?k div r + 1"] small(4) in linarith)
  show "\<exists>d'. ra_pixels 0 d v = Inr (d', []) \<and> ra_at r H (us @ [v]) d'" if lt: "?k + 1 < r * H"
  proof -
    let ?d' = "d\<lparr>ra_image := ?im, ra_x := of_nat ((?k + 1) mod r), ra_y := of_nat ((?k + 1) div r)\<rparr>"
    have "ra_pixels 0 d v = Inr (?d', [])"
    proof (cases "(?k + 1) mod r = 0")
      case True
      have "(?k div r + 1) mod H \<noteq> 0" using nx(4) [OF True] lt by simp
      moreover have "(?k div r + 1) mod H = (?k + 1) div r" unfolding nx(3) [OF True]
        using nx(5) \<open>(?k div r + 1) mod H \<noteq> 0\<close> by (cases "?k div r + 1 = H") auto
      ultimately show ?thesis using True xz yz x y by (simp add: ra_pixels_def buf Let_def idx wr)
    next
      case False
      then show ?thesis using xz x nx(2) [OF False] xy(2) [symmetric] by (simp add: ra_pixels_def buf Let_def idx wr)
    qed
    moreover have "ra_at r H (us @ [v]) ?d'"
      using at lt im tk wr(2) by (auto simp: ra_at_def ra_geometry_def dest!: set_update_subset_insert [THEN subsetD])
    ultimately show ?thesis by blast
  qed
  show "\<exists>d'. ra_pixels 0 d v = Inr (d', [RaShow (words_bytes (us @ [v]))]) \<and> ra_at r H [] d'" if last: "?k + 1 = r * H"
  proof -
    let ?d' = "d\<lparr>ra_image := ?im, ra_x := 0, ra_y := 0, ra_nb_images := ra_nb_images d + 1, ra_ii := (ra_ii d + 1) mod 2\<rparr>"
    have z: "(?k + 1) mod r = 0" "(?k div r + 1) mod H = 0" using last nx(4) by simp_all
    have "?new = words_bytes (us @ [v])" using tk wr(2) last by simp
    then have "ra_pixels 0 d v = Inr (?d', [RaShow (words_bytes (us @ [v]))])"
      using z x y im(1,2) by (simp add: ra_pixels_def buf Let_def idx wr ra_display_def)
    moreover have "ra_at r H [] ?d'"
      using at im wr(2) g(2,3) by (auto simp: ra_at_def ra_geometry_def words_bytes_def dest!: set_update_subset_insert [THEN subsetD])
    ultimately show ?thesis by blast
  qed
qed

text \<open>The words a processor writes to the data register, one request each.\<close>

fun ra_words :: "(u32 \<Rightarrow> bool) \<Rightarrow> vci_request \<Rightarrow> u32 list \<Rightarrow> ramdac \<Rightarrow> (ramdac \<times> ra_event list) res" where
  "ra_words shm_ok req [] d = Inr (d, [])"
| "ra_words shm_ok req (v # vs) d =
     bindr (ra_rcv_rqst shm_ok 0 req d 0 0x0F (set_u32 (replicate 8 0) 0 v) True) (\<lambda>(d, es, data, bErr).
     bindr (ra_words shm_ok req vs d) (\<lambda>(d, fs). Inr (d, es @ fs)))"

lemma ra_word:
  "ra_rcv_rqst shm_ok 0 req d 0 0x0F (set_u32 (replicate 8 0) 0 v) True
   = bindr (if ra_ready d then ra_pixels 0 d v else ra_receive_size shm_ok d v)
       (\<lambda>(d, es). Inr (d, es, set_u32 (replicate 8 0) 0 v, False))"
  by (simp add: ra_rcv_rqst_def ra_write_def)

lemma ra_words_append:
  "ra_words shm_ok req (us @ vs) d =
     bindr (ra_words shm_ok req us d) (\<lambda>(d, es). bindr (ra_words shm_ok req vs d) (\<lambda>(d, fs). Inr (d, es @ fs)))"
proof (induction us arbitrary: d)
  case Nil
  then show ?case by (auto simp: bindr_def split: sum.splits)
next
  case (Cons u us)
  then show ?case by (auto simp: bindr_def split: sum.splits)
qed

lemma ra_words_at:
  assumes "ra_at r H us d" "length us + length vs = r * H" "vs \<noteq> []"
  shows "\<exists>d'. ra_words shm_ok req vs d = Inr (d', [RaShow (words_bytes (us @ vs))]) \<and> ra_at r H [] d'"
  using assms
proof (induction vs arbitrary: us d)
  case Nil
  then show ?case by simp
next
  case (Cons v vs)
  have ready: "ra_ready d" using Cons.prems(1) by (simp add: ra_at_def ra_geometry_def)
  show ?case
  proof (cases "vs = []")
    case True
    then obtain d' where "ra_pixels 0 d v = Inr (d', [RaShow (words_bytes (us @ [v]))])" "ra_at r H [] d'"
      using ra_pixels_step(2) [OF Cons.prems(1), of v] Cons.prems(2) by auto
    with True ready show ?thesis by (simp add: ra_word)
  next
    case False
    then have "length us + 1 < r * H" using Cons.prems(2) by (cases vs) auto
    from ra_pixels_step(1) [OF Cons.prems(1) this, of v] obtain d1 where
      1: "ra_pixels 0 d v = Inr (d1, [])" "ra_at r H (us @ [v]) d1" by blast
    from Cons.IH [OF 1(2) _ False] Cons.prems(2) obtain d' where
      "ra_words shm_ok req vs d1 = Inr (d', [RaShow (words_bytes (us @ v # vs))])" "ra_at r H [] d'" by auto
    with 1(1) ready show ?thesis by (simp add: ra_word)
  qed
qed

lemma ra_frames_at:
  assumes "ra_at r H [] d" "\<forall>f\<in>set fs. length f = r * H"
  shows "\<exists>d'. ra_words shm_ok req (concat fs) d = Inr (d', map (\<lambda>f. RaShow (words_bytes f)) fs)"
  using assms
proof (induction fs arbitrary: d)
  case Nil
  then show ?case by simp
next
  case (Cons f fs)
  have "f \<noteq> []" using Cons.prems by (auto simp: ra_at_def)
  from ra_words_at [where shm_ok = shm_ok and req = req, OF Cons.prems(1) _ this] Cons.prems(2) obtain d1 where
    1: "ra_words shm_ok req f d = Inr (d1, [RaShow (words_bytes f)])" "ra_at r H [] d1" by auto
  from Cons.IH [OF 1(2)] Cons.prems(2) obtain d' where
    "ra_words shm_ok req (concat fs) d1 = Inr (d', map (\<lambda>f. RaShow (words_bytes f)) fs)" by auto
  with 1(1) show ?case by (simp add: ra_words_append)
qed

text \<open>The three writes of the geometry.\<close>

lemma sint_of_nat_small: "n < 2 ^ 31 \<Longrightarrow> sint (of_nat n :: u32) = int n"
  by (simp add: signed_of_nat signed_take_bit_int_eq_self)

lemma ra_geometry_received:
  assumes "0 < q" "0 < C" "0 < H" "4 * q * C * H < 2 ^ 31" "shm_ok (of_nat (4 * q * C * H))"
    and "nramdac < 10" "ra_components junk = 0"
  shows "\<exists>d. ra_words shm_ok req [of_nat (4 * q), of_nat H, of_nat C] (ramdac_new nramdac junk)
      = Inr (d, [RaViewer (int (4 * q)) (int H) (int C)]) \<and> ra_at (q * C) H [] d \<and> ra_ii d = 0"
proof -
  have le: "4 * q \<le> 4 * q * C * H" "H \<le> 4 * q * C * H" "C \<le> 4 * q * C * H" using assms(1-3) by simp_all
  have s: "sint (of_nat (4 * q) :: u32) = int (4 * q)" "sint (of_nat H :: u32) = int H" "sint (of_nat C :: u32) = int C"
    using le assms(4) by (intro sint_of_nat_small; linarith)+
  let ?d = "(ramdac_new nramdac junk)\<lparr>ra_ready := True, ra_x := 0, ra_y := 0, ra_width := int (4 * q),
    ra_height := int H, ra_components := int C, ra_nramdac := nramdac + 1,
    ra_image := replicate 2 (replicate (4 * q * C * H) 0)\<rparr>"
  have b: "of_int (int C * int (4 * q) * int H) = (of_nat (4 * q * C * H) :: u32)" by (simp add: mult.commute mult.left_commute)
  have u: "unat (of_nat (4 * q * C * H) :: u32) = 4 * q * C * H" using assms(4) by (simp add: unat_of_nat del: of_nat_mult)
  have "ra_words shm_ok req [of_nat (4 * q), of_nat H, of_nat C] (ramdac_new nramdac junk)
      = Inr (?d, [RaViewer (int (4 * q)) (int H) (int C)])"
    using assms(1-3,5-7) s b u
    by (simp add: ra_word ramdac_new_def ra_receive_size_def ra_viewer_def Let_def del: of_nat_mult of_int_mult)
  moreover have "ra_at (q * C) H [] ?d" "ra_ii ?d = 0"
    using assms(1-4) by (auto simp: ra_at_def ra_geometry_def ramdac_new_def mult.assoc)
  ultimately show ?thesis by blast
qed

text \<open>
  A program that sends the geometry of a picture and then its frames word by word has the viewer
  started with that geometry and every frame shown once, in order, exactly as it was written, for
  a width that is a multiple of four.
\<close>

theorem ramdac_shows_frames:
  assumes "0 < q" "0 < C" "0 < H" "4 * q * C * H < 2 ^ 31" "shm_ok (of_nat (4 * q * C * H))"
    and "nramdac < 10" "ra_components junk = 0" "\<forall>f\<in>set fs. length f = q * C * H"
  shows "\<exists>d'. ra_words shm_ok req ([of_nat (4 * q), of_nat H, of_nat C] @ concat fs) (ramdac_new nramdac junk)
    = Inr (d', RaViewer (int (4 * q)) (int H) (int C) # map (\<lambda>f. RaShow (words_bytes f)) fs)"
proof -
  from ra_geometry_received [where shm_ok = shm_ok and req = req, OF assms(1-7)] obtain d where
    1: "ra_words shm_ok req [of_nat (4 * q), of_nat H, of_nat C] (ramdac_new nramdac junk)
      = Inr (d, [RaViewer (int (4 * q)) (int H) (int C)])" "ra_at (q * C) H [] d" by blast
  from ra_frames_at [OF 1(2) assms(8)] obtain d' where
    "ra_words shm_ok req (concat fs) d = Inr (d', map (\<lambda>f. RaShow (words_bytes f)) fs)" by blast
  with 1(1) show ?thesis unfolding ra_words_append by simp
qed

lemma ramdac_shows_frames_witness:
  "\<exists>d'. ra_words (\<lambda>_. True) zero_request [4, 1, 2, 0x11, 0x22, 0x33, 0x44] (ramdac_new 0 (ramdac.make 0 0 0 0 False 5 5 0 [] 0))
    = Inr (d', [RaViewer 4 1 2, RaShow (words_bytes [0x11, 0x22]), RaShow (words_bytes [0x33, 0x44])])"
  using ramdac_shows_frames [of 1 2 1 "\<lambda>_. True" 0 "ramdac.make 0 0 0 0 False 5 5 0 [] 0" "[[0x11, 0x22], [0x33, 0x44]]"
      zero_request]
  by (simp add: ramdac.defs)

end
