(* ===== verification/Ramdac_Viewer.thy ===== *)
theory Ramdac_Viewer
  imports Ramdac_Device
begin

text \<open>
  The viewer of the ramdac (\<^verbatim>\<open>tools/ramdac/src/xramdac.c\<close>): at every signal it copies one of the two shared
  buffers and draws it. What GTK is told to draw is an output. Device and viewer are then run together.
\<close>

record xramdac =
  xr_width :: u32
  xr_height :: u32
  xr_components :: u32
  xr_wi :: nat
  xr_copy :: "u8 list"

datatype xr_out = DrawGray u32 u32 "u8 list" | DrawRgb u32 u32 "u8 list"

definition xr_size :: "xramdac \<Rightarrow> nat" where
  "xr_size x = unat (xr_components x * xr_width x * xr_height x)"

text \<open>\<open>main\<close> up to its wait: the geometry from the pipe, and segments of \<open>seg\<close> bytes.\<close>

definition xr_main :: "nat \<Rightarrow> u32 \<Rightarrow> u32 \<Rightarrow> u32 \<Rightarrow> xramdac res" where
  "xr_main seg width height components =
     (let bytes = unat (components * width * height) in
      if bytes > seg then Inl (Exit 1)
      else Inr \<lparr>xr_width = width, xr_height = height, xr_components = components, xr_wi = 0,
                xr_copy = replicate bytes 0\<rparr>)"

definition display_drawing_area :: "xramdac \<Rightarrow> xr_out list" where
  "display_drawing_area x =
     (if xr_components x = 1 then [DrawGray (xr_width x) (xr_height x) (xr_copy x)]
      else if xr_components x = 3 then [DrawRgb (xr_width x) (xr_height x) (xr_copy x)]
      else [])"

definition xr_display :: "u8 list list \<Rightarrow> xramdac \<Rightarrow> (xramdac \<times> xr_out list) res" where
  "xr_display images x =
     bindr (rd images (xr_wi x)) (\<lambda>buf.
     bindr (rd_bytes buf 0 (xr_size x)) (\<lambda>bs.
     let x = x\<lparr>xr_copy := bs\<rparr>; os = display_drawing_area x in
     Inr (x\<lparr>xr_wi := (xr_wi x + 1) mod 2\<rparr>, os)))"

subsection \<open>Device and viewer\<close>

text \<open>The words of a program, with each signal handled before the next one.\<close>

fun is_show :: "ra_event \<Rightarrow> bool" where
  "is_show (RaShow p) = True"
| "is_show (RaViewer w h c) = False"

fun xr_words :: "(u32 \<Rightarrow> bool) \<Rightarrow> vci_request \<Rightarrow> u32 list \<Rightarrow> ramdac \<times> xramdac
    \<Rightarrow> ((ramdac \<times> xramdac) \<times> xr_out list) res" where
  "xr_words shm_ok req [] s = Inr (s, [])"
| "xr_words shm_ok req (v # vs) (d, x) =
     bindr (ra_rcv_rqst shm_ok 0 req d 0 0x0F (set_u32 (replicate 8 0) 0 v) True) (\<lambda>(d, es, data, bErr).
     bindr (if list_ex is_show es then xr_display (ra_image d) x else Inr (x, [])) (\<lambda>(x, os).
     bindr (xr_words shm_ok req vs (d, x)) (\<lambda>(s, os'). Inr (s, os @ os'))))"

text \<open>What the viewer draws for a picture that the device shows.\<close>

fun drawn :: "xramdac \<Rightarrow> ra_event \<Rightarrow> xr_out list" where
  "drawn x (RaShow p) = display_drawing_area (x\<lparr>xr_copy := take (xr_size x) p\<rparr>)"
| "drawn x (RaViewer w h c) = []"

lemma ra_pixels_event:
  assumes "ra_pixels 0 d v = Inr (d', es)"
  shows "ra_ready d' = ra_ready d" and "es = [] \<and> ra_ii d' = ra_ii d \<or>
    (\<exists>p. es = [RaShow p] \<and> rd (ra_image d') (ra_ii d) = Inr p \<and> ra_ii d' = (ra_ii d + 1) mod 2)"
  using assms by (auto simp: ra_pixels_def ra_display_def Let_def bindr_eq_Inr rd_eq_Inr split: if_splits)

lemma xr_words_follow:
  assumes "ra_words shm_ok req vs d = Inr (d', es)" "ra_ready d" "xr_wi x = ra_ii d"
    and "\<forall>p. RaShow p \<in> set es \<longrightarrow> xr_size x \<le> length p"
  shows "\<exists>x'. xr_words shm_ok req vs (d, x) = Inr ((d', x'), concat (map (drawn x) es))"
  using assms
proof (induction vs arbitrary: d x es)
  case Nil
  then show ?case by simp
next
  case (Cons v vs)
  from Cons.prems(1,2) obtain d1 es1 es2 where 1: "ra_pixels 0 d v = Inr (d1, es1)"
    "ra_words shm_ok req vs d1 = Inr (d', es2)" "es = es1 @ es2" by (auto simp: ra_word bindr_eq_Inr)
  note e = ra_pixels_event [OF 1(1)]
  have rq: "ra_rcv_rqst shm_ok 0 req d 0 0x0F (set_u32 (replicate 8 0) 0 v) True
      = Inr (d1, es1, set_u32 (replicate 8 0) 0 v, False)" using 1(1) Cons.prems(2) by (simp add: ra_word)
  from e(2) show ?case
  proof (elim disjE exE conjE)
    assume n: "es1 = []" "ra_ii d1 = ra_ii d"
    then have "xr_wi x = ra_ii d1" using Cons.prems(3) by simp
    from Cons.IH [OF 1(2) _ this] e(1) Cons.prems(2,4) n 1(3) show ?thesis by (auto simp: rq)
  next
    fix p assume s: "es1 = [RaShow p]" "rd (ra_image d1) (ra_ii d) = Inr p" "ra_ii d1 = (ra_ii d + 1) mod 2"
    let ?x = "x\<lparr>xr_copy := take (xr_size x) p, xr_wi := (xr_wi x + 1) mod 2\<rparr>"
    have len: "xr_size x \<le> length p" using Cons.prems(4) s(1) 1(3) by simp
    have "xr_display (ra_image d1) x = Inr (?x, drawn x (RaShow p))"
      using s(2) len unfolding Cons.prems(3) [symmetric] by (simp add: xr_display_def rd_bytes_def Let_def)
    moreover have "drawn ?x = drawn x"
    proof
      fix e show "drawn ?x e = drawn x e" by (cases e) (simp_all add: display_drawing_area_def xr_size_def)
    qed
    moreover have "xr_wi ?x = ra_ii d1" using s(3) Cons.prems(3) by simp
    moreover have "\<forall>p. RaShow p \<in> set es2 \<longrightarrow> xr_size ?x \<le> length p"
      using Cons.prems(4) 1(3) by (simp add: xr_size_def)
    ultimately show ?thesis using Cons.IH [OF 1(2), of ?x] e(1) Cons.prems(2) s(1) 1(3) by (auto simp: rq)
  qed
qed

text \<open>
  Claim C39. Ramdac and viewer together draw every frame: after a program has sent the geometry of a picture
  of one or three components and a width that is a multiple of four, the viewer is started with that geometry,
  and the frames that follow, word by word, are drawn once each, in order and complete, provided
  that each signal is handled before the next write.
\<close>

theorem ramdac_viewer_draws_frames:
  assumes "0 < q" "0 < H" "4 * q * C * H < 2 ^ 31" "shm_ok (of_nat (4 * q * C * H))" "C = 1 \<or> C = 3"
    and "nramdac < 10" "ra_components junk = 0" "\<forall>f\<in>set fs. length f = q * C * H"
  shows "\<exists>d x s. ra_words shm_ok req [of_nat (4 * q), of_nat H, of_nat C] (ramdac_new nramdac junk)
      = Inr (d, [RaViewer (int (4 * q)) (int H) (int C)])
    \<and> xr_main (4 * q * C * H) (of_nat (4 * q)) (of_nat H) (of_nat C) = Inr x
    \<and> xr_words shm_ok req (concat fs) (d, x)
      = Inr (s, map (\<lambda>f. (if C = 1 then DrawGray else DrawRgb) (of_nat (4 * q)) (of_nat H) (words_bytes f)) fs)"
proof -
  have C: "0 < C" using assms(5) by auto
  from ra_geometry_received [where shm_ok = shm_ok and req = req, OF assms(1) C assms(2-4,6,7)] obtain d where
    1: "ra_words shm_ok req [of_nat (4 * q), of_nat H, of_nat C] (ramdac_new nramdac junk)
      = Inr (d, [RaViewer (int (4 * q)) (int H) (int C)])" "ra_at (q * C) H [] d" "ra_ii d = 0" by blast
  from ra_frames_at [OF 1(2) assms(8)] obtain d' where
    2: "ra_words shm_ok req (concat fs) d = Inr (d', map (\<lambda>f. RaShow (words_bytes f)) fs)" by blast
  have "of_nat C * of_nat (4 * q) * of_nat H = (of_nat (4 * q * C * H) :: u32)" by (simp add: mult.commute mult.left_commute)
  then have u: "unat (of_nat C * of_nat (4 * q) * of_nat H :: u32) = 4 * q * C * H"
    using assms(3) by (simp add: unat_of_nat del: of_nat_mult)
  define x where "x = \<lparr>xr_width = of_nat (4 * q), xr_height = of_nat H, xr_components = of_nat C, xr_wi = 0,
    xr_copy = replicate (4 * q * C * H) 0\<rparr>"
  have x: "xr_main (4 * q * C * H) (of_nat (4 * q)) (of_nat H) (of_nat C) = Inr x"
    unfolding xr_main_def Let_def u x_def by simp
  have sz: "xr_size x = 4 * q * C * H" unfolding xr_size_def using u by (simp add: x_def)
  have len: "xr_size x = length (words_bytes f)" if "f \<in> set fs" for f
    unfolding sz using assms(8) that by (simp add: mult.assoc)
  have "ra_ready d" using 1(2) by (simp add: ra_at_def ra_geometry_def)
  moreover have "xr_wi x = ra_ii d" using 1(3) by (simp add: x_def)
  moreover have "\<forall>p. RaShow p \<in> set (map (\<lambda>f. RaShow (words_bytes f)) fs) \<longrightarrow> xr_size x \<le> length p" using len by auto
  ultimately obtain x' where
    3: "xr_words shm_ok req (concat fs) (d, x) = Inr ((d', x'), concat (map (drawn x) (map (\<lambda>f. RaShow (words_bytes f)) fs)))"
    using xr_words_follow [OF 2] by blast
  have "drawn x (RaShow (words_bytes f)) = [(if C = 1 then DrawGray else DrawRgb) (of_nat (4 * q)) (of_nat H) (words_bytes f)]"
    if "f \<in> set fs" for f
    using len [OF that] assms(5) by (auto simp: display_drawing_area_def x_def)
  then have "concat (map (drawn x) (map (\<lambda>f. RaShow (words_bytes f)) fs))
      = map (\<lambda>f. (if C = 1 then DrawGray else DrawRgb) (of_nat (4 * q)) (of_nat H) (words_bytes f)) fs"
    by (induction fs) simp_all
  with 1(1) x 3 show ?thesis by auto
qed

lemma ramdac_viewer_draws_frames_witness:
  "\<exists>d x s. ra_words (\<lambda>_. True) zero_request [4, 1, 3] (ramdac_new 0 (ramdac.make 0 0 0 0 False 5 5 0 [] 0))
      = Inr (d, [RaViewer 4 1 3]) \<and> xr_main 12 4 1 3 = Inr x
    \<and> xr_words (\<lambda>_. True) zero_request [1, 2, 3, 4, 5, 6] (d, x)
      = Inr (s, [DrawRgb 4 1 (words_bytes [1, 2, 3]), DrawRgb 4 1 (words_bytes [4, 5, 6])])"
  using ramdac_viewer_draws_frames [of 1 1 3 "\<lambda>_. True" 0 "ramdac.make 0 0 0 0 False 5 5 0 [] 0" "[[1, 2, 3], [4, 5, 6]]"
      zero_request]
  by (simp add: ramdac.defs)

end
