(* ===== verification/Picture_Conversions.thy ===== *)
theory Picture_Conversions
  imports Sl_Framebuffer
begin

text \<open>
  The conversions of the viewer of the framebuffer (\<^verbatim>\<open>tools/fb_viewer/src/conv.c\<close>) from the
  pixel formats of the device to the two orders of the bytes of a screen pixel, and what each computes
  pixel by pixel. The indices are \<^verbatim>\<open>uint32_t\<close> and wrap; the buffers are lists, and an access outside
  one is a fault.
\<close>

type_synonym converter = "u8 list \<Rightarrow> u8 list \<Rightarrow> u32 \<Rightarrow> u32 \<Rightarrow> u8 list res"

definition conv_yuv2rgb :: "u8 \<Rightarrow> u8 \<Rightarrow> u8 \<Rightarrow> u8 \<times> u8 \<times> u8" where
  "conv_yuv2rgb y u v =
     (let y_tmp = (ucast y :: 32 word) - 16;
          u_tmp = (ucast u :: 32 word) - 128;
          v_tmp = (ucast v :: 32 word) - 128;
          y_tmp = y_tmp * 298;
          r_tmp = signed_drop_bit 8 (y_tmp + 0 + v_tmp * 409 + 128);
          g_tmp = signed_drop_bit 8 (y_tmp + u_tmp * (- 100) + v_tmp * (- 208) + 128);
          b_tmp = signed_drop_bit 8 (y_tmp + u_tmp * 516 + 0 + 128)
      in (if r_tmp <s 256 then (if 0 \<le>s r_tmp then ucast r_tmp else 0) else 0xFF,
          if g_tmp <s 256 then (if 0 \<le>s g_tmp then ucast g_tmp else 0) else 0xFF,
          if b_tmp <s 256 then (if 0 \<le>s b_tmp then ucast b_tmp else 0) else 0xFF))"

text \<open>The two orders of the bytes of a screen pixel.\<close>

definition argb :: "u8 \<Rightarrow> u8 \<Rightarrow> u8 \<Rightarrow> u8 list" where "argb r g b = [0, r, g, b]"
definition bgra :: "u8 \<Rightarrow> u8 \<Rightarrow> u8 \<Rightarrow> u8 list" where "bgra r g b = [b, g, r, 0]"

subsection \<open>Packed formats\<close>

text \<open>The loop of the four conversions from three bytes; \<open>order\<close> gives the four bytes stored.\<close>

definition convert_packed3 :: "(u8 \<Rightarrow> u8 \<Rightarrow> u8 \<Rightarrow> u8 list) \<Rightarrow> converter" where
  "convert_packed3 order src dst w h =
     for_each (\<lambda>i dst. bindr (rd_bytes src (3 * i) 3) (\<lambda>p.
       wr_bytes dst (4 * i) (order (p ! 0) (p ! 1) (p ! 2)))) [0..<unat (w * h)] dst"

definition convert_RGB_ARGB :: converter where "convert_RGB_ARGB = convert_packed3 (\<lambda>r g b. argb r g b)"
definition convert_RGB_BGRA :: converter where "convert_RGB_BGRA = convert_packed3 (\<lambda>r g b. bgra r g b)"
definition convert_BGR_ARGB :: converter where "convert_BGR_ARGB = convert_packed3 (\<lambda>b g r. argb r g b)"
definition convert_BGR_BGRA :: converter where "convert_BGR_BGRA = convert_packed3 (\<lambda>b g r. bgra r g b)"

definition convert_ARGB_copy_32 :: converter where
  "convert_ARGB_copy_32 src dst w h = bindr (rd_bytes src 0 (unat (w * h * 4))) (wr_bytes dst 0)"

definition convert_ARGB_swap_32 :: converter where
  "convert_ARGB_swap_32 src dst w h =
     for_each (\<lambda>i dst. bindr (rd_bytes src (4 * i) 4) (\<lambda>p.
       wr_bytes dst (4 * i) [p ! 3, p ! 2, p ! 1, p ! 0])) [0..<unat (w * h)] dst"

subsection \<open>Luminance and colours\<close>

text \<open>A pixel is stored where the pointer \<open>rgb\<close> is, which then moves to the next one.\<close>

definition put_yuv :: "(u8 \<Rightarrow> u8 \<Rightarrow> u8 \<Rightarrow> u8 list) \<Rightarrow> u8 \<Rightarrow> u8 \<Rightarrow> u8 \<Rightarrow> u8 list \<times> nat \<Rightarrow> (u8 list \<times> nat) res" where
  "put_yuv layout y u v = (\<lambda>(dst, rgb).
     let (r, g, b) = conv_yuv2rgb y u v in
     bindr (wr_bytes dst rgb (layout r g b)) (\<lambda>dst. Inr (dst, rgb + 4)))"

definition yvyu_pair :: "(u8 \<Rightarrow> u8 \<Rightarrow> u8 \<Rightarrow> u8 list) \<Rightarrow> u8 list \<Rightarrow> nat \<Rightarrow> u8 list \<times> nat \<Rightarrow> (u8 list \<times> nat) res" where
  "yvyu_pair layout src i s =
     bindr (rd src (unat (of_nat i * 4 + 0 :: u32))) (\<lambda>y.
     bindr (rd src (unat (of_nat i * 4 + 1 :: u32))) (\<lambda>v.
     bindr (rd src (unat (of_nat i * 4 + 3 :: u32))) (\<lambda>u.
     bindr (put_yuv layout y u v s) (\<lambda>s.
     bindr (rd src (unat (of_nat i * 4 + 2 :: u32))) (\<lambda>y. put_yuv layout y u v s)))))"

definition convert_yvyu :: "(u8 \<Rightarrow> u8 \<Rightarrow> u8 \<Rightarrow> u8 list) \<Rightarrow> converter" where
  "convert_yvyu layout src dst w h =
     bindr (for_each (yvyu_pair layout src) [0..<unat (w * h div 2)] (dst, 0)) (\<lambda>(dst, rgb). Inr dst)"

definition convert_YVYU_ARGB :: converter where "convert_YVYU_ARGB = convert_yvyu argb"
definition convert_YVYU_BGRA :: converter where "convert_YVYU_BGRA = convert_yvyu bgra"

text \<open>Planes with one colour for four pixels; the planes of the colours are at \<open>u_buf\<close> and \<open>v_buf\<close>.\<close>

definition planar420_pair :: "(u8 \<Rightarrow> u8 \<Rightarrow> u8 \<Rightarrow> u8 list) \<Rightarrow> u8 list \<Rightarrow> u32 \<Rightarrow> nat \<Rightarrow> nat \<Rightarrow> nat \<Rightarrow> nat
    \<Rightarrow> u8 list \<times> nat \<Rightarrow> (u8 list \<times> nat) res" where
  "planar420_pair layout src w u_buf v_buf j i s =
     bindr (rd src (unat (of_nat i * 2 + of_nat j * w))) (\<lambda>y.
     bindr (rd src (u_buf + unat (of_nat i + of_nat j div 2 * w div 2))) (\<lambda>u.
     bindr (rd src (v_buf + unat (of_nat i + of_nat j div 2 * w div 2))) (\<lambda>v.
     bindr (put_yuv layout y u v s) (\<lambda>s.
     bindr (rd src (unat (of_nat i * 2 + of_nat j * w + 1))) (\<lambda>y. put_yuv layout y u v s)))))"

definition convert_planar420 :: "(u8 \<Rightarrow> u8 \<Rightarrow> u8 \<Rightarrow> u8 list) \<Rightarrow> nat \<Rightarrow> nat \<Rightarrow> converter" where
  "convert_planar420 layout u_buf v_buf src dst w h =
     bindr (for_each (\<lambda>j. for_each (planar420_pair layout src w u_buf v_buf j) [0..<unat (w div 2)])
       [0..<unat h] (dst, 0)) (\<lambda>(dst, rgb). Inr dst)"

definition convert_yv12 :: "(u8 \<Rightarrow> u8 \<Rightarrow> u8 \<Rightarrow> u8 list) \<Rightarrow> converter" where
  "convert_yv12 layout src dst w h =
     (let v_buf = unat (w * h); u_buf = v_buf + unat (w * h div 4)
      in convert_planar420 layout u_buf v_buf src dst w h)"

definition convert_iyuv :: "(u8 \<Rightarrow> u8 \<Rightarrow> u8 \<Rightarrow> u8 list) \<Rightarrow> converter" where
  "convert_iyuv layout src dst w h =
     (let u_buf = unat (w * h); v_buf = u_buf + unat (w * h div 4)
      in convert_planar420 layout u_buf v_buf src dst w h)"

definition convert_YV12_ARGB :: converter where "convert_YV12_ARGB = convert_yv12 argb"
definition convert_YV12_BGRA :: converter where "convert_YV12_BGRA = convert_yv12 bgra"
definition convert_IYUV_ARGB :: converter where "convert_IYUV_ARGB = convert_iyuv argb"
definition convert_IYUV_BGRA :: converter where "convert_IYUV_BGRA = convert_iyuv bgra"

definition yv16_pair :: "(u8 \<Rightarrow> u8 \<Rightarrow> u8 \<Rightarrow> u8 list) \<Rightarrow> u8 list \<Rightarrow> nat \<Rightarrow> nat \<Rightarrow> nat \<Rightarrow> u8 list \<times> nat
    \<Rightarrow> (u8 list \<times> nat) res" where
  "yv16_pair layout src u_buf v_buf i s =
     bindr (rd src (unat (of_nat i * 2 :: u32))) (\<lambda>y.
     bindr (rd src (u_buf + i)) (\<lambda>u.
     bindr (rd src (v_buf + i)) (\<lambda>v.
     bindr (put_yuv layout y u v s) (\<lambda>s.
     bindr (rd src (unat (of_nat i * 2 + 1 :: u32))) (\<lambda>y. put_yuv layout y u v s)))))"

definition convert_yv16 :: "(u8 \<Rightarrow> u8 \<Rightarrow> u8 \<Rightarrow> u8 list) \<Rightarrow> converter" where
  "convert_yv16 layout src dst w h =
     (let u_buf = unat (w * h); v_buf = u_buf + unat (w * h div 2)
      in bindr (for_each (yv16_pair layout src u_buf v_buf) [0..<unat (w * h div 2)] (dst, 0)) (\<lambda>(dst, rgb). Inr dst))"

definition convert_YV16_ARGB :: converter where "convert_YV16_ARGB = convert_yv16 argb"
definition convert_YV16_BGRA :: converter where "convert_YV16_BGRA = convert_yv16 bgra"

lemmas converter_defs = convert_RGB_ARGB_def convert_RGB_BGRA_def convert_BGR_ARGB_def convert_BGR_BGRA_def
  convert_YVYU_ARGB_def convert_YVYU_BGRA_def convert_YV12_ARGB_def convert_YV12_BGRA_def
  convert_IYUV_ARGB_def convert_IYUV_BGRA_def convert_YV16_ARGB_def convert_YV16_BGRA_def

subsection \<open>Loops that fill a buffer\<close>

lemma put_bytes_whole: "length bs = length m \<Longrightarrow> put_bytes m 0 bs = bs"
  by (simp add: put_bytes_def)

lemma put_bytes_nil [simp]: "put_bytes m a [] = m"
  by (simp add: put_bytes_def)

text \<open>Each step stores the bytes \<open>f x\<close> where the last one ended.\<close>

definition appends :: "('x \<Rightarrow> u8 list \<times> nat \<Rightarrow> (u8 list \<times> nat) res) \<Rightarrow> ('x \<Rightarrow> u8 list) \<Rightarrow> 'x \<Rightarrow> bool" where
  "appends body f x \<longleftrightarrow> (\<forall>dst p. p + length (f x) \<le> length dst \<longrightarrow>
     body x (dst, p) = Inr (put_bytes dst p (f x), p + length (f x)))"

lemma for_each_appends:
  assumes "\<forall>x\<in>set xs. appends body f x" "p + length (concat (map f xs)) \<le> length dst"
  shows "for_each body xs (dst, p) = Inr (put_bytes dst p (concat (map f xs)), p + length (concat (map f xs)))"
  using assms
proof (induction xs arbitrary: dst p)
  case Nil
  then show ?case by simp
next
  case (Cons x xs)
  then show ?case by (simp add: appends_def put_bytes_append add.assoc)
qed

lemma appends_inner:
  assumes "\<forall>x\<in>set (xs j). appends (body j) (f j) x"
  shows "appends (\<lambda>j. for_each (body j) (xs j)) (\<lambda>j. concat (map (f j) (xs j))) j"
  unfolding appends_def using for_each_appends [OF assms] by blast

text \<open>Each step stores four bytes at its index.\<close>

lemma for_each_at:
  assumes "\<And>i d. i < n \<Longrightarrow> length d = length dst \<Longrightarrow> body i d = Inr (put_bytes d (4 * i) (f i))"
    and "\<And>i. length (f i) = 4" "4 * n \<le> length dst"
  shows "for_each body [0..<n] dst = Inr (put_bytes dst 0 (concat (map f [0..<n])))"
  using assms(1,3)
proof (induction n)
  case 0
  then show ?case by simp
next
  case (Suc n)
  have l: "length (concat (map f [0..<n])) = 4 * n" using assms(2) by (induction n) simp_all
  have "for_each body [0..<n] dst = Inr (put_bytes dst 0 (concat (map f [0..<n])))" using Suc by simp
  with Suc.prems l show ?case
    using put_bytes_append [of 0 "concat (map f [0..<n])" "f n" dst] assms(2)
    by (simp add: for_each_append)
qed

text \<open>Pairs of pixels are pixels.\<close>

lemma concat_pairs: "concat (map (\<lambda>i. f (2 * i) @ f (2 * i + 1)) [0..<n]) = concat (map f [0..<2 * n])"
  by (induction n) simp_all


subsection \<open>What each conversion computes\<close>

text \<open>The screen pixel of a luminance and two colours.\<close>

definition yuv_screen :: "(u8 \<Rightarrow> u8 \<Rightarrow> u8 \<Rightarrow> u8 list) \<Rightarrow> u8 \<Rightarrow> u8 \<Rightarrow> u8 \<Rightarrow> u8 list" where
  "yuv_screen layout y u v = (let p = yuv_spec y u v in layout (p ! 0) (p ! 1) (p ! 2))"

definition four :: "(u8 \<Rightarrow> u8 \<Rightarrow> u8 \<Rightarrow> u8 list) \<Rightarrow> bool" where
  "four layout \<longleftrightarrow> (\<forall>a b c. length (layout a b c) = 4)"

lemma four_layouts [simp]: "four argb" "four bgra" "four (\<lambda>b g r. argb r g b)" "four (\<lambda>b g r. bgra r g b)"
  by (simp_all add: four_def argb_def bgra_def)

lemma four_length [simp]: "four layout \<Longrightarrow> length (layout a b c) = 4" "four layout \<Longrightarrow> length (yuv_screen layout y u v) = 4"
  by (simp_all add: four_def yuv_screen_def Let_def)

lemma conv_yuv2rgb_spec: "conv_yuv2rgb y u v = (let p = yuv_spec y u v in (p ! 0, p ! 1, p ! 2))"
  unfolding yuv2rgb_spec [symmetric] by (simp add: conv_yuv2rgb_def yuv2rgb_def clip_rgb_def Let_def)

lemma put_yuv_twice:
  assumes "four layout" "p + 8 \<le> length dst"
  shows "bindr (put_yuv layout y u v (dst, p)) (put_yuv layout y' u v)
    = Inr (put_bytes dst p (yuv_screen layout y u v @ yuv_screen layout y' u v), p + 8)"
proof -
  have one: "put_yuv layout x u v (d, q) = Inr (put_bytes d q (yuv_screen layout x u v), q + 4)"
    if "q + 4 \<le> length d" for x d q
    using that assms(1) four_length(1) [OF assms(1)]
    by (simp add: put_yuv_def conv_yuv2rgb_spec yuv_screen_def Let_def wr_bytes_def)
  have "length (put_bytes dst p (yuv_screen layout y u v)) = length dst" using assms by simp
  then show ?thesis
    using assms one [of p dst y] one [of "p + 4" "put_bytes dst p (yuv_screen layout y u v)" y']
      put_bytes_append [of p "yuv_screen layout y u v" "yuv_screen layout y' u v" dst] by simp
qed

lemma concat_length4: "(\<And>x. length (f x) = 4) \<Longrightarrow> length (concat (map f xs)) = 4 * length xs"
  by (induction xs) simp_all

lemma convert_packed3_ok:
  assumes "four order" "length src = 3 * unat (w * h)" "length dst = 4 * unat (w * h)"
  shows "convert_packed3 order src dst w h
    = Inr (concat (map (\<lambda>k. order (src ! (3 * k)) (src ! (3 * k + 1)) (src ! (3 * k + 2))) [0..<unat (w * h)]))"
proof -
  let ?f = "\<lambda>k. order (src ! (3 * k)) (src ! (3 * k + 1)) (src ! (3 * k + 2))"
  have "convert_packed3 order src dst w h = Inr (put_bytes dst 0 (concat (map ?f [0..<unat (w * h)])))"
    unfolding convert_packed3_def
  proof (rule for_each_at)
    fix i :: nat and d :: "u8 list" assume "i < unat (w * h)" "length d = length dst"
    then show "bindr (rd_bytes src (3 * i) 3) (\<lambda>p. wr_bytes d (4 * i) (order (p ! 0) (p ! 1) (p ! 2)))
        = Inr (put_bytes d (4 * i) (?f i))"
      using assms by (simp add: rd_bytes_def wr_bytes_def)
  qed (use assms in simp_all)
  then show ?thesis using assms concat_length4 [of ?f] by (simp add: put_bytes_whole)
qed

lemma convert_swap_ok:
  assumes "length src = 4 * unat (w * h)" "length dst = 4 * unat (w * h)"
  shows "convert_ARGB_swap_32 src dst w h
    = Inr (concat (map (\<lambda>k. [src ! (4 * k + 3), src ! (4 * k + 2), src ! (4 * k + 1), src ! (4 * k)]) [0..<unat (w * h)]))"
proof -
  let ?f = "\<lambda>k. [src ! (4 * k + 3), src ! (4 * k + 2), src ! (4 * k + 1), src ! (4 * k)]"
  have "convert_ARGB_swap_32 src dst w h = Inr (put_bytes dst 0 (concat (map ?f [0..<unat (w * h)])))"
    unfolding convert_ARGB_swap_32_def
  proof (rule for_each_at)
    fix i :: nat and d :: "u8 list" assume "i < unat (w * h)" "length d = length dst"
    then show "bindr (rd_bytes src (4 * i) 4) (\<lambda>p. wr_bytes d (4 * i) [p ! 3, p ! 2, p ! 1, p ! 0])
        = Inr (put_bytes d (4 * i) (?f i))"
      using assms by (simp add: rd_bytes_def wr_bytes_def)
  qed (use assms in simp_all)
  then show ?thesis using assms concat_length4 [of ?f] by (simp add: put_bytes_whole)
qed

lemma concat_fours: "concat (map (\<lambda>k. [g (4 * k), g (4 * k + 1), g (4 * k + 2), g (4 * k + 3)]) [0..<n]) = map g [0..<4 * n]"
  by (induction n) (simp_all add: numeral_eq_Suc)

lemma convert_copy_ok:
  assumes "length src = 4 * unat (w * h)" "length dst = 4 * unat (w * h)" "4 * unat (w * h) < 2 ^ 32"
  shows "convert_ARGB_copy_32 src dst w h = Inr src"
proof -
  have "unat (w * h * 4) = 4 * unat (w * h)" using assms(3)
    unfolding unat_word_ariths(2) [of "w * h" 4] by simp
  then show ?thesis using assms by (simp add: convert_ARGB_copy_32_def rd_bytes_def wr_bytes_def put_bytes_whole)
qed

text \<open>Indices that do not wrap.\<close>

lemma unat_small: "n < 2 ^ 32 \<Longrightarrow> unat (of_nat n :: u32) = n"
  by (simp add: unat_of_nat)

lemma of_nat_half: "n < 2 ^ 32 \<Longrightarrow> (of_nat n :: u32) div 2 = of_nat (n div 2)"
  by (simp add: word_unat_eq_iff unat_div_distrib unat_of_nat)

lemma fill_pairs:
  assumes "\<forall>i<m. appends body (\<lambda>i. px (2 * i) @ px (2 * i + 1)) i" "length dst = 4 * (2 * m)" "\<And>k. length (px k) = 4"
  shows "bindr (for_each body [0..<m] (dst, 0)) (\<lambda>(dst, rgb). Inr dst) = Inr (concat (map px [0..<2 * m]))"
proof -
  have l: "length (concat (map px [0..<2 * m])) = length dst" using assms(2,3) concat_length4 [of px] by simp
  have "for_each body [0..<m] (dst, 0) = Inr (put_bytes dst 0 (concat (map px [0..<2 * m])), 0 + length (concat (map px [0..<2 * m])))"
    using for_each_appends [of "[0..<m]" body "\<lambda>i. px (2 * i) @ px (2 * i + 1)" 0 dst] assms(1) l
    unfolding concat_pairs by simp
  with l show ?thesis by (simp add: put_bytes_whole)
qed

text \<open>The pixel \<open>k\<close> of a picture in pairs, and of one in planes with a colour for two pixels.\<close>

definition yvyu_pixel :: "(u8 \<Rightarrow> u8 \<Rightarrow> u8 \<Rightarrow> u8 list) \<Rightarrow> u8 list \<Rightarrow> nat \<Rightarrow> u8 list" where
  "yvyu_pixel layout f k = yuv_screen layout (f ! (2 * k)) (f ! (4 * (k div 2) + 3)) (f ! (4 * (k div 2) + 1))"

definition yv16_screen :: "(u8 \<Rightarrow> u8 \<Rightarrow> u8 \<Rightarrow> u8 list) \<Rightarrow> nat \<Rightarrow> u8 list \<Rightarrow> nat \<Rightarrow> u8 list" where
  "yv16_screen layout n f k = yuv_screen layout (f ! k) (f ! (n + k div 2)) (f ! (n + n div 2 + k div 2))"

lemma convert_yvyu_ok:
  assumes "four layout" "even (unat (w * h))" "4 * unat (w * h) < 2 ^ 32"
    and "length src = 2 * unat (w * h)" "length dst = 4 * unat (w * h)"
  shows "convert_yvyu layout src dst w h = Inr (concat (map (yvyu_pixel layout src) [0..<unat (w * h)]))"
proof -
  obtain m where n: "unat (w * h) = 2 * m" using assms(2) by (auto elim: evenE)
  have m: "unat (w * h div 2) = m" unfolding unat_div_distrib n by simp
  have "appends (yvyu_pair layout src) (\<lambda>i. yvyu_pixel layout src (2 * i) @ yvyu_pixel layout src (2 * i + 1)) i" if i: "i < m" for i
  proof -
    have ix: "unat (of_nat i * 4 + 0 :: u32) = 4 * i" "unat (of_nat i * 4 + 1 :: u32) = 4 * i + 1"
      "unat (of_nat i * 4 + 2 :: u32) = 4 * i + 2" "unat (of_nat i * 4 + 3 :: u32) = 4 * i + 3"
      using unat_small [of "4 * i"] unat_small [of "4 * i + 1"] unat_small [of "4 * i + 2"] unat_small [of "4 * i + 3"]
        i assms(3) n by (simp_all add: algebra_simps)
    have r: "rd src (4 * i) = Inr (src ! (4 * i))" "rd src (4 * i + 1) = Inr (src ! (4 * i + 1))"
      "rd src (4 * i + 2) = Inr (src ! (4 * i + 2))" "rd src (4 * i + 3) = Inr (src ! (4 * i + 3))"
      using i assms(4) n by simp_all
    have y: "2 * (2 * i) = 4 * i" "2 * (2 * i + 1) = 4 * i + 2" "2 * i div 2 = i" "(2 * i + 1) div 2 = i" by simp_all
    show ?thesis
      using assms(1) put_yuv_twice [OF assms(1)]
      unfolding appends_def yvyu_pair_def ix r bindr_simps yvyu_pixel_def y by simp
  qed
  moreover have "\<And>k. length (yvyu_pixel layout src k) = 4" using assms(1) by (simp add: yvyu_pixel_def)
  ultimately show ?thesis
    using fill_pairs [where px = "yvyu_pixel layout src" and m = m and body = "yvyu_pair layout src" and dst = dst] assms(5) n m
    by (simp add: convert_yvyu_def)
qed

lemma convert_yv16_ok:
  assumes "four layout" "even (unat (w * h))" "4 * unat (w * h) < 2 ^ 32"
    and "length src = 2 * unat (w * h)" "length dst = 4 * unat (w * h)"
  shows "convert_yv16 layout src dst w h = Inr (concat (map (yv16_screen layout (unat (w * h)) src) [0..<unat (w * h)]))"
proof -
  obtain m where n: "unat (w * h) = 2 * m" using assms(2) by (auto elim: evenE)
  have m: "unat (w * h div 2) = m" unfolding unat_div_distrib n by simp
  have "appends (yv16_pair layout src (2 * m) (2 * m + m))
      (\<lambda>i. yv16_screen layout (2 * m) src (2 * i) @ yv16_screen layout (2 * m) src (2 * i + 1)) i" if i: "i < m" for i
  proof -
    have ix: "unat (of_nat i * 2 :: u32) = 2 * i" "unat (of_nat i * 2 + 1 :: u32) = 2 * i + 1"
      using unat_small [of "2 * i"] unat_small [of "2 * i + 1"] i assms(3) n by (simp_all add: algebra_simps)
    have r: "rd src (2 * i) = Inr (src ! (2 * i))" "rd src (2 * i + 1) = Inr (src ! (2 * i + 1))"
      "rd src (2 * m + i) = Inr (src ! (2 * m + i))" "rd src (2 * m + m + i) = Inr (src ! (2 * m + m + i))"
      using i assms(4) n by simp_all
    have y: "2 * i div 2 = i" "(2 * i + 1) div 2 = i" "2 * m div 2 = m" by simp_all
    show ?thesis
      using assms(1) put_yuv_twice [OF assms(1)]
      unfolding appends_def yv16_pair_def ix r bindr_simps yv16_screen_def y by simp
  qed
  moreover have "\<And>k. length (yv16_screen layout (2 * m) src k) = 4" using assms(1) by (simp add: yv16_screen_def)
  ultimately show ?thesis
    using fill_pairs [where px = "yv16_screen layout (2 * m) src" and m = m and dst = dst
        and body = "yv16_pair layout src (2 * m) (2 * m + m)"] assms(5) n m
    by (simp add: convert_yv16_def Let_def)
qed

text \<open>
  A pixel of a picture in planes with one colour for a square of four pixels; the planes of the two
  colours start at \<open>u\<close> and \<open>v\<close>.
\<close>

definition planar420_pixel :: "(u8 \<Rightarrow> u8 \<Rightarrow> u8 \<Rightarrow> u8 list) \<Rightarrow> nat \<Rightarrow> nat \<Rightarrow> nat \<Rightarrow> u8 list \<Rightarrow> nat \<Rightarrow> u8 list" where
  "planar420_pixel layout w u v f k =
     (let c = (k div w div 2) * (w div 2) + (k mod w) div 2
      in yuv_screen layout (f ! k) (f ! (u + c)) (f ! (v + c)))"

lemma length_planar420_pixel: "four layout \<Longrightarrow> length (planar420_pixel layout w u v f k) = 4"
  by (simp add: planar420_pixel_def Let_def)

text \<open>Two even sides \<open>2 m\<close> and \<open>2 q\<close>: where the pixels of row \<open>j\<close> and their colours are.\<close>

lemma planar_index:
  assumes "unat w = 2 * m" "i < m" "j < 2 * q" "4 * (2 * m * (2 * q)) < 2 ^ 32"
  shows "unat (of_nat i * 2 + of_nat j * w :: u32) = j * (2 * m) + 2 * i"
    and "unat (of_nat i * 2 + of_nat j * w + 1 :: u32) = j * (2 * m) + (2 * i + 1)"
    and "unat (of_nat i + of_nat j div 2 * w div 2 :: u32) = (j div 2) * m + i"
    and "j * (2 * m) + (2 * i + 1) < 2 * m * (2 * q)" and "(j div 2) * m + i < m * q"
proof -
  have "(j + 1) * (2 * m) \<le> 2 * q * (2 * m)" using assms(3) by (intro mult_le_mono1) simp
  then show lt: "j * (2 * m) + (2 * i + 1) < 2 * m * (2 * q)" using assms(2) by (simp add: algebra_simps)
  have "j div 2 + 1 \<le> q" using assms(3) by auto
  then have "(j div 2 + 1) * m \<le> q * m" by (rule mult_le_mono1)
  then show c: "(j div 2) * m + i < m * q" using assms(2) by (simp add: algebra_simps)
  have b: "j * (2 * m) + (2 * i + 1) < 2 ^ 32" using lt assms(4) by linarith
  have w: "w = of_nat (2 * m)" unfolding assms(1) [symmetric] by simp
  have e: "of_nat i * 2 + of_nat j * w = (of_nat (j * (2 * m) + 2 * i) :: u32)"
    "of_nat i * 2 + of_nat j * w + 1 = (of_nat (j * (2 * m) + (2 * i + 1)) :: u32)"
    unfolding w by (simp_all add: algebra_simps)
  show "unat (of_nat i * 2 + of_nat j * w :: u32) = j * (2 * m) + 2 * i"
    unfolding e(1) using b by (intro unat_small) simp
  show "unat (of_nat i * 2 + of_nat j * w + 1 :: u32) = j * (2 * m) + (2 * i + 1)"
    unfolding e(2) by (rule unat_small [OF b])
  have "0 < m" using assms(2) by simp
  then have j: "j < 2 ^ 32" using b by (cases m) (auto simp: algebra_simps)
  have d: "(j div 2) * (2 * m) \<le> j * (2 * m)" by (intro mult_le_mono1) simp
  have jw: "of_nat j div 2 * w = (of_nat ((j div 2) * (2 * m)) :: u32)" unfolding w of_nat_half [OF j] by simp
  have "(j div 2) * (2 * m) < 2 ^ 32" using d b by linarith
  note half = of_nat_half [OF this]
  have "(j div 2) * (2 * m) div 2 = (j div 2) * m" by simp
  then have "of_nat i + of_nat j div 2 * w div 2 = (of_nat (i + (j div 2) * m) :: u32)"
    unfolding jw half by simp
  moreover have "i + (j div 2) * m < 2 ^ 32" using c assms(4) by (simp add: algebra_simps)
  ultimately show "unat (of_nat i + of_nat j div 2 * w div 2 :: u32) = (j div 2) * m + i"
    using unat_small [of "i + (j div 2) * m"] by (simp add: add.commute)
qed

lemma convert_planar420_ok:
  assumes "four layout" "unat w = 2 * m" "unat h = 2 * q" "4 * (2 * m * (2 * q)) < 2 ^ 32"
    and "2 * m * (2 * q) \<le> length src" "u + m * q \<le> length src" "v + m * q \<le> length src"
    and "length dst = 4 * (2 * m * (2 * q))"
  shows "convert_planar420 layout u v src dst w h
    = Inr (concat (map (planar420_pixel layout (2 * m) u v src) [0..<2 * m * (2 * q)]))"
proof -
  let ?px = "planar420_pixel layout (2 * m) u v src"
  let ?row = "\<lambda>j i. ?px (j * (2 * m) + 2 * i) @ ?px (j * (2 * m) + (2 * i + 1))"
  have ap: "appends (planar420_pair layout src w u v j) (?row j) i" if i: "i < m" and j: "j < 2 * q" for i j
  proof -
    note ix = planar_index [OF assms(2) i j assms(4)]
    have r: "rd src (j * (2 * m) + 2 * i) = Inr (src ! (j * (2 * m) + 2 * i))"
      "rd src (j * (2 * m) + (2 * i + 1)) = Inr (src ! (j * (2 * m) + (2 * i + 1)))"
      "rd src (u + ((j div 2) * m + i)) = Inr (src ! (u + ((j div 2) * m + i)))"
      "rd src (v + ((j div 2) * m + i)) = Inr (src ! (v + ((j div 2) * m + i)))"
      using ix(4,5) assms(5-7) by (intro rd_in; linarith)+
    have y: "(j * (2 * m) + 2 * i) div (2 * m) = j" "(j * (2 * m) + (2 * i + 1)) div (2 * m) = j"
      "(j * (2 * m) + 2 * i) mod (2 * m) div 2 = i" "(j * (2 * m) + (2 * i + 1)) mod (2 * m) div 2 = i" "2 * m div 2 = m"
      using i div_mult_self3 [of "2 * m" j "2 * i + 1"] by (simp_all add: mod_mult_self3 del: add_Suc_right)
    show ?thesis
      using assms(1) put_yuv_twice [OF assms(1)]
      unfolding appends_def planar420_pair_def ix(1-3) r bindr_simps planar420_pixel_def Let_def y by simp
  qed
  have w2: "unat (w div 2) = m" unfolding unat_div_distrib assms(2) by simp
  have rows: "concat (map (?row j) [0..<m]) = concat (map (\<lambda>i. ?px (j * (2 * m) + i)) [0..<2 * m])" for j
    by (rule concat_pairs [of "\<lambda>i. ?px (j * (2 * m) + i)"])
  have pic: "concat (map (\<lambda>j. concat (map (?row j) [0..<m])) [0..<2 * q]) = concat (map ?px [0..<2 * m * (2 * q)])"
    unfolding rows concat_rows [of ?px "2 * m" "2 * q"] by (simp add: mult.commute)
  have "\<forall>j\<in>set [0..<2 * q]. appends (\<lambda>j. for_each (planar420_pair layout src w u v j) [0..<m]) (\<lambda>j. concat (map (?row j) [0..<m])) j"
    using ap by (intro ballI appends_inner) simp
  from for_each_appends [OF this, of 0 dst] have
    "for_each (\<lambda>j. for_each (planar420_pair layout src w u v j) [0..<m]) [0..<2 * q] (dst, 0)
      = Inr (put_bytes dst 0 (concat (map ?px [0..<2 * m * (2 * q)])), 4 * (2 * m * (2 * q)))"
    unfolding pic using assms(8) concat_length4 [of ?px] length_planar420_pixel [OF assms(1)] by simp
  then show ?thesis
    using assms(8) concat_length4 [of ?px] length_planar420_pixel [OF assms(1)]
    by (simp add: convert_planar420_def w2 assms(3) put_bytes_whole)
qed

end
