(* ===== verification/Fb_Viewer.thy ===== *)
theory Fb_Viewer
  imports Framebuffer Picture_Conversions
begin

text \<open>
  The viewer of the framebuffer (\<^verbatim>\<open>tools/fb_viewer/src/fb_viewer.c\<close>): a process that shares the two
  buffers with the device and, at every signal, copies one of them and converts it for the screen. SDL, the
  screen's library, gives the masks of a pixel and the memory of the surface; the host is little endian.
  Device and viewer are then run together.
\<close>

record pix_fmt =
  pf_Amask :: u32
  pf_Rmask :: u32
  pf_Gmask :: u32
  pf_Bmask :: u32

record fb_viewer =
  vw_width :: u32
  vw_height :: u32
  vw_mode :: u32
  vw_size :: u64
  vw_buf_idx :: nat
  vw_copy :: "u8 list"
  vw_convert :: "converter option"
  vw_pixels :: "u8 list"

text \<open>The products are unsigned; the result is an \<^verbatim>\<open>int\<close>.\<close>

definition get_size :: "u32 \<Rightarrow> u32 \<Rightarrow> u32 \<Rightarrow> int" where
  "get_size width height mode =
     (if mode = FB_NONE then 0
      else if mode = FB_RGB \<or> mode = FB_BGR then sint (3 * width * height)
      else if mode = FB_ARGB \<or> mode = FB_BGRA then sint (4 * width * height)
      else if mode = FB_YVYU \<or> mode = FB_YV16 then sint (2 * width * height)
      else if mode = FB_YV12 \<or> mode = FB_IYUV then sint (drop_bit 1 (3 * width * height))
      else 0)"

definition masks_bgra :: "pix_fmt \<Rightarrow> bool" where
  "masks_bgra pf \<longleftrightarrow> pf_Amask pf = 0x00000000 \<and> pf_Rmask pf = 0x00FF0000 \<and> pf_Gmask pf = 0x0000FF00
     \<and> pf_Bmask pf = 0x000000FF"

text \<open>The function pointer \<open>convert\<close> keeps its value for the modes without a case.\<close>

definition set_conversion :: "u32 \<Rightarrow> pix_fmt \<Rightarrow> converter option \<Rightarrow> converter option" where
  "set_conversion mode pf convert =
     (if mode = FB_RGB then Some (if masks_bgra pf then convert_RGB_BGRA else convert_RGB_ARGB)
      else if mode = FB_BGR then Some (if masks_bgra pf then convert_BGR_BGRA else convert_BGR_ARGB)
      else if mode = FB_ARGB then Some (if masks_bgra pf then convert_ARGB_swap_32 else convert_ARGB_copy_32)
      else if mode = FB_BGRA then Some (if masks_bgra pf then convert_ARGB_copy_32 else convert_ARGB_swap_32)
      else if mode = FB_YVYU then Some (if masks_bgra pf then convert_YVYU_BGRA else convert_YVYU_ARGB)
      else if mode = FB_YV16 then Some (if masks_bgra pf then convert_YV16_BGRA else convert_YV16_ARGB)
      else if mode = FB_YV12 then Some (if masks_bgra pf then convert_YV12_BGRA else convert_YV12_ARGB)
      else if mode = FB_IYUV then Some (if masks_bgra pf then convert_IYUV_BGRA else convert_IYUV_ARGB)
      else convert)"

text \<open>
  \<open>main\<close> up to its wait for signals: the configuration read from the pipe, the segments of \<open>seg\<close>
  bytes, which \<^verbatim>\<open>shmget\<close> refuses for a larger size, and a surface with the memory \<open>pixels\<close>.
\<close>

definition viewer_main :: "pix_fmt \<Rightarrow> u8 list \<Rightarrow> nat \<Rightarrow> u32 \<Rightarrow> u32 \<Rightarrow> u32 \<Rightarrow> fb_viewer res" where
  "viewer_main pf pixels seg width height mode =
     (let size = (of_int (get_size width height mode) :: u64) in
      if unat size > seg then Inl (Exit 1)
      else Inr \<lparr>vw_width = width, vw_height = height, vw_mode = mode, vw_size = size, vw_buf_idx = 0,
                vw_copy = replicate (unat size) 0, vw_convert = set_conversion mode pf None, vw_pixels = pixels\<rparr>)"

definition convert_and_display :: "fb_viewer \<Rightarrow> fb_viewer res" where
  "convert_and_display v = (case vw_convert v of
     None \<Rightarrow> Inl NullPointer
   | Some convert \<Rightarrow>
       bindr (convert (vw_copy v) (vw_pixels v) (vw_width v) (vw_height v)) (\<lambda>pixels. Inr (v\<lparr>vw_pixels := pixels\<rparr>)))"

text \<open>The handler of the signal; \<open>images\<close> are the two shared buffers.\<close>

definition viewer_refresh :: "u8 list list \<Rightarrow> fb_viewer \<Rightarrow> fb_viewer res" where
  "viewer_refresh images v =
     bindr (rd images (vw_buf_idx v)) (\<lambda>buf.
     bindr (rd_bytes buf 0 (unat (vw_size v))) (\<lambda>bs.
     convert_and_display (v\<lparr>vw_copy := bs, vw_buf_idx := (vw_buf_idx v + 1) mod 2\<rparr>)))"

subsection \<open>The picture on the screen\<close>

text \<open>The screen pixel \<open>k\<close> of a frame \<open>f\<close> of \<open>w\<close> times \<open>h\<close> pixels, for the two orders of the screen.\<close>

definition screen_pixel :: "u32 \<Rightarrow> nat \<Rightarrow> nat \<Rightarrow> bool \<Rightarrow> u8 list \<Rightarrow> nat \<Rightarrow> u8 list" where
  "screen_pixel mode w h rev_order f k =
     (let layout = (if rev_order then bgra else argb); n = w * h;
          four_of = (\<lambda>b. if b then [f ! (4 * k + 3), f ! (4 * k + 2), f ! (4 * k + 1), f ! (4 * k)]
                         else [f ! (4 * k), f ! (4 * k + 1), f ! (4 * k + 2), f ! (4 * k + 3)]) in
      if mode = FB_RGB then layout (f ! (3 * k)) (f ! (3 * k + 1)) (f ! (3 * k + 2))
      else if mode = FB_BGR then layout (f ! (3 * k + 2)) (f ! (3 * k + 1)) (f ! (3 * k))
      else if mode = FB_ARGB then four_of rev_order
      else if mode = FB_BGRA then four_of (\<not> rev_order)
      else if mode = FB_YVYU then yvyu_pixel layout f k
      else if mode = FB_YV16 then yv16_screen layout n f k
      else if mode = FB_YV12 then planar420_pixel layout w (n + n div 4) n f k
      else planar420_pixel layout w n (n + n div 4) f k)"

definition screen_picture :: "u32 \<Rightarrow> nat \<Rightarrow> nat \<Rightarrow> bool \<Rightarrow> u8 list \<Rightarrow> u8 list" where
  "screen_picture mode w h rev_order f = concat (map (screen_pixel mode w h rev_order f) [0..<w * h])"

definition frame_bytes :: "u32 \<Rightarrow> nat \<Rightarrow> nat" where
  "frame_bytes mode n = (if mode = FB_RGB \<or> mode = FB_BGR then 3 * n else if mode = FB_ARGB \<or> mode = FB_BGRA then 4 * n
     else if mode = FB_YVYU \<or> mode = FB_YV16 then 2 * n else 3 * n div 2)"

text \<open>The colour formats of the device; the sides are even where a colour is shared.\<close>

definition good_geometry :: "u32 \<Rightarrow> u32 \<Rightarrow> u32 \<Rightarrow> bool" where
  "good_geometry mode w h \<longleftrightarrow>
     mode \<in> {FB_RGB, FB_BGR, FB_ARGB, FB_BGRA, FB_YVYU, FB_YV12, FB_IYUV, FB_YV16}
     \<and> (mode \<in> {FB_YVYU, FB_YV12, FB_IYUV, FB_YV16} \<longrightarrow> even (unat w) \<and> even (unat h))
     \<and> 4 * (unat w * unat h) < 2 ^ 31"

lemma good_product: "good_geometry mode w h \<Longrightarrow> unat (w * h) = unat w * unat h"
proof -
  assume "good_geometry mode w h"
  then have "4 * (unat w * unat h) < 2 ^ 31" unfolding good_geometry_def by blast
  moreover have "(2::nat) ^ 31 < 2 ^ 32" by simp
  ultimately have "unat w * unat h < 2 ^ 32" by linarith
  then have "unat w * unat h < 2 ^ LENGTH(32)" by simp
  then show ?thesis unfolding unat_word_ariths(2) by (rule mod_less)
qed


lemma get_size_frame:
  assumes "good_geometry mode w h"
  shows "get_size w h mode = int (frame_bytes mode (unat w * unat h))"
    and "frame_bytes mode (unat w * unat h) < 2 ^ 31"
proof -
  let ?n = "unat w * unat h"
  have n: "4 * ?n < 2 ^ 31" using assms by (simp add: good_geometry_def)
  have wh: "w * h = of_nat ?n" by simp
  have p: "c * w * h = (of_nat (k * ?n) :: u32)" if "c = of_nat k" for c :: u32 and k
    unfolding that by simp
  have s: "sint (of_nat m :: u32) = int m" if "m < 2 ^ 31" for m
    using that by (simp add: signed_of_nat signed_take_bit_int_eq_self)
  have h3: "drop_bit 1 (of_nat (3 * ?n) :: u32) = of_nat (3 * ?n div 2)"
  proof -
    have "(2::nat) ^ 31 < 2 ^ 32" by simp
    then have "3 * ?n < 2 ^ 32" using n by linarith
    from of_nat_half [OF this] show ?thesis by (simp add: drop_bit_eq_div del: of_nat_mult)
  qed
  have m: "3 * ?n < 2 ^ 31" "2 * ?n < 2 ^ 31" "3 * ?n div 2 < 2 ^ 31" using n by linarith+
  show "frame_bytes mode ?n < 2 ^ 31" using n m by (auto simp: frame_bytes_def)
  show "get_size w h mode = int (frame_bytes mode ?n)"
    using assms s [OF m(1)] s [OF m(2)] s [OF m(3)] s [OF n] p [of 3 3] p [of 2 2] p [of 4 4] h3
    by (auto simp: get_size_def frame_bytes_def good_geometry_def fb_mode_defs simp del: of_nat_mult)
qed

lemma length_screen_pixel: "length (screen_pixel mode w h rv f k) = 4"
  using four_length four_layouts length_planar420_pixel
  by (simp add: screen_pixel_def Let_def yvyu_pixel_def yv16_screen_def)

lemma length_screen_picture [simp]: "length (screen_picture mode w h rv f) = 4 * (w * h)"
  using concat_length4 [of "screen_pixel mode w h rv f"] length_screen_pixel by (simp add: screen_picture_def)

text \<open>The packed formats, then those with shared colours.\<close>

lemma packed_screen:
  assumes "mode \<in> {FB_RGB, FB_BGR, FB_ARGB, FB_BGRA}" "good_geometry mode w h"
    and "length src = frame_bytes mode (unat w * unat h)" "length dst = 4 * (unat w * unat h)"
  shows "\<exists>convert. set_conversion mode pf prev = Some convert
    \<and> convert src dst w h = Inr (screen_picture mode (unat w) (unat h) (masks_bgra pf) src)"
proof -
  note n = good_product [OF assms(2)]
  have small: "4 * unat (w * h) < 2 ^ 32" using assms(2) n by (simp add: good_geometry_def)
  have l3: "mode = FB_RGB \<or> mode = FB_BGR \<Longrightarrow> length src = 3 * unat (w * h)"
    and l4: "mode = FB_ARGB \<or> mode = FB_BGRA \<Longrightarrow> length src = 4 * unat (w * h)"
    using assms(3) n by (auto simp: frame_bytes_def fb_mode_defs)
  have d: "length dst = 4 * unat (w * h)" using assms(4) n by simp
  note c3 = convert_packed3_ok [OF _ l3 d]
  note sw = convert_swap_ok [OF l4 d] and cp = convert_copy_ok [OF l4 d small] and fours = concat_fours [of "(!) src"]
  have id: "mode = FB_ARGB \<or> mode = FB_BGRA \<Longrightarrow> map ((!) src) [0..<4 * (unat w * unat h)] = src"
    using l4 n map_nth [of src] by simp
  from assms(1) show ?thesis
    using c3 sw cp fours id
    by (elim insertE emptyE; cases "masks_bgra pf")
      (simp_all add: set_conversion_def screen_picture_def screen_pixel_def [abs_def] Let_def fb_mode_defs n
        convert_RGB_ARGB_def convert_RGB_BGRA_def convert_BGR_ARGB_def convert_BGR_BGRA_def)
qed

lemma shared_screen:
  assumes "mode \<in> {FB_YVYU, FB_YV12, FB_IYUV, FB_YV16}" "good_geometry mode w h"
    and "length src = frame_bytes mode (unat w * unat h)" "length dst = 4 * (unat w * unat h)"
  shows "\<exists>convert. set_conversion mode pf prev = Some convert
    \<and> convert src dst w h = Inr (screen_picture mode (unat w) (unat h) (masks_bgra pf) src)"
proof -
  note n = good_product [OF assms(2)]
  have "even (unat w)" "even (unat h)" using assms(1,2) by (auto simp: good_geometry_def)
  then obtain m q where m: "unat w = 2 * m" "unat h = 2 * q" by (auto elim!: evenE)
  have small: "4 * unat (w * h) < 2 ^ 32" "4 * (2 * m * (2 * q)) < 2 ^ 32"
    using assms(2) n m by (simp_all add: good_geometry_def)
  have ev: "even (unat (w * h))" unfolding n m by simp
  have q4: "unat (w * h div 4) = m * q" unfolding unat_div_distrib n m by simp
  have l2: "mode = FB_YVYU \<or> mode = FB_YV16 \<Longrightarrow> length src = 2 * unat (w * h)"
    and l12: "mode = FB_YV12 \<or> mode = FB_IYUV \<Longrightarrow> length src = 2 * m * (2 * q) + m * q + m * q"
    using assms(3) n m by (auto simp: frame_bytes_def fb_mode_defs)
  have d: "length dst = 4 * unat (w * h)" "length dst = 4 * (2 * m * (2 * q))" using assms(4) n m by simp_all
  have n4: "unat w * unat h = 2 * m * (2 * q)" "2 * m * (2 * q) div 4 = m * q" unfolding m by simp_all
  note yvyu = convert_yvyu_ok [OF _ ev small(1) l2 d(1)] and yv16 = convert_yv16_ok [OF _ ev small(1) l2 d(1)]
  have pl: "convert_planar420 layout u v src dst w h
      = Inr (concat (map (planar420_pixel layout (2 * m) u v src) [0..<2 * m * (2 * q)]))"
    if "mode = FB_YV12 \<or> mode = FB_IYUV" "four layout" "u + m * q \<le> length src" "v + m * q \<le> length src" for layout u v
    using that l12 by (intro convert_planar420_ok [OF that(2) m small(2) _ _ _ d(2)]) auto
  from assms(1) consider "mode = FB_YVYU" | "mode = FB_YV16" | "mode = FB_YV12" | "mode = FB_IYUV" by auto
  then show ?thesis
  proof cases
    case 1
    then show ?thesis using yvyu
      by (cases "masks_bgra pf") (simp_all add: set_conversion_def screen_picture_def screen_pixel_def [abs_def] Let_def fb_mode_defs n
          convert_YVYU_ARGB_def convert_YVYU_BGRA_def)
  next
    case 2
    then show ?thesis using yv16
      by (cases "masks_bgra pf") (simp_all add: set_conversion_def screen_picture_def screen_pixel_def [abs_def] Let_def fb_mode_defs n
          convert_YV16_ARGB_def convert_YV16_BGRA_def)
  next
    case 3
    then have len: "2 * m * (2 * q) + m * q + m * q \<le> length src" using l12 by simp
    have px: "screen_pixel mode (unat w) (unat h) rv src = planar420_pixel (if rv then bgra else argb) (2 * m)
        (2 * m * (2 * q) + m * q) (2 * m * (2 * q)) src" for rv
      unfolding 3 screen_pixel_def [abs_def] Let_def n4(1) unfolding n4(2) m(1) by (simp add: fb_mode_defs)
    have "convert_yv12 layout src dst w h = Inr (concat (map (planar420_pixel layout (2 * m)
        (2 * m * (2 * q) + m * q) (2 * m * (2 * q)) src) [0..<2 * m * (2 * q)]))" if "four layout" for layout
      unfolding convert_yv12_def Let_def q4 n n4(1) using 3 that len by (intro pl) auto
    from this [OF four_layouts(1)] this [OF four_layouts(2)] show ?thesis
      unfolding screen_picture_def px n4(1) by (simp add: 3 set_conversion_def fb_mode_defs convert_YV12_ARGB_def convert_YV12_BGRA_def)
  next
    case 4
    then have len: "2 * m * (2 * q) + m * q + m * q \<le> length src" using l12 by simp
    have px: "screen_pixel mode (unat w) (unat h) rv src = planar420_pixel (if rv then bgra else argb) (2 * m)
        (2 * m * (2 * q)) (2 * m * (2 * q) + m * q) src" for rv
      unfolding 4 screen_pixel_def [abs_def] Let_def n4(1) unfolding n4(2) m(1) by (simp add: fb_mode_defs)
    have "convert_iyuv layout src dst w h = Inr (concat (map (planar420_pixel layout (2 * m)
        (2 * m * (2 * q)) (2 * m * (2 * q) + m * q) src) [0..<2 * m * (2 * q)]))" if "four layout" for layout
      unfolding convert_iyuv_def Let_def q4 n n4(1) using 4 that len by (intro pl) auto
    from this [OF four_layouts(1)] this [OF four_layouts(2)] show ?thesis
      unfolding screen_picture_def px n4(1) by (simp add: 4 set_conversion_def fb_mode_defs convert_IYUV_ARGB_def convert_IYUV_BGRA_def)
  qed
qed

lemma frame_screen:
  assumes "good_geometry mode w h" "length src = frame_bytes mode (unat w * unat h)" "length dst = 4 * (unat w * unat h)"
  shows "\<exists>convert. set_conversion mode pf prev = Some convert
    \<and> convert src dst w h = Inr (screen_picture mode (unat w) (unat h) (masks_bgra pf) src)"
proof -
  have "mode \<in> {FB_RGB, FB_BGR, FB_ARGB, FB_BGRA} \<or> mode \<in> {FB_YVYU, FB_YV12, FB_IYUV, FB_YV16}"
    using assms(1) by (auto simp: good_geometry_def)
  then show ?thesis using packed_screen [OF _ assms] shared_screen [OF _ assms] by blast
qed

subsection \<open>Device and viewer\<close>

text \<open>A viewer of a picture of known geometry.\<close>

definition viewer_of :: "u32 \<Rightarrow> u32 \<Rightarrow> u32 \<Rightarrow> pix_fmt \<Rightarrow> fb_viewer \<Rightarrow> bool" where
  "viewer_of mode w h pf v \<longleftrightarrow> good_geometry mode w h \<and> vw_width v = w \<and> vw_height v = h
     \<and> unat (vw_size v) = frame_bytes mode (unat w * unat h) \<and> vw_convert v = set_conversion mode pf None
     \<and> length (vw_pixels v) = 4 * (unat w * unat h)"

definition shown :: "u32 \<Rightarrow> u32 \<Rightarrow> u32 \<Rightarrow> pix_fmt \<Rightarrow> u8 list \<Rightarrow> u8 list" where
  "shown mode w h pf buf =
     screen_picture mode (unat w) (unat h) (masks_bgra pf) (take (frame_bytes mode (unat w * unat h)) buf)"

lemma viewer_refresh_shows:
  assumes "viewer_of mode w h pf v" "vw_buf_idx v < length images" "frame_bytes mode (unat w * unat h) \<le> length (images ! vw_buf_idx v)"
  shows "\<exists>v'. viewer_refresh images v = Inr v' \<and> vw_pixels v' = shown mode w h pf (images ! vw_buf_idx v)
    \<and> viewer_of mode w h pf v' \<and> vw_buf_idx v' = (vw_buf_idx v + 1) mod 2"
proof -
  let ?src = "take (frame_bytes mode (unat w * unat h)) (images ! vw_buf_idx v)"
  have l: "length ?src = frame_bytes mode (unat w * unat h)" using assms(3) by simp
  from assms(1) have v: "good_geometry mode w h" "length (vw_pixels v) = 4 * (unat w * unat h)" by (simp_all add: viewer_of_def)
  from frame_screen [OF v(1) l v(2), of pf None] obtain f where
    f: "set_conversion mode pf None = Some f" "f ?src (vw_pixels v) w h = Inr (shown mode w h pf (images ! vw_buf_idx v))"
    by (auto simp: shown_def)
  let ?v' = "v\<lparr>vw_copy := ?src, vw_buf_idx := (vw_buf_idx v + 1) mod 2, vw_pixels := shown mode w h pf (images ! vw_buf_idx v)\<rparr>"
  have "viewer_refresh images v = Inr ?v'"
    using assms f by (simp add: viewer_refresh_def convert_and_display_def viewer_of_def rd_bytes_def)
  moreover have "viewer_of mode w h pf ?v'" using assms(1) by (simp add: viewer_of_def shown_def)
  ultimately show ?thesis by (intro exI [of _ ?v']) simp
qed

text \<open>
  The store of a word with the signal, when it causes one, handled before the next access; the
  display thread makes no transfer of its own.
\<close>

definition viewer_store :: "fb_io_resource \<times> fb_viewer \<Rightarrow> nat \<Rightarrow> u32
    \<Rightarrow> ((fb_io_resource \<times> fb_viewer) \<times> u8 list list) res" where
  "viewer_store = (\<lambda>(io, vw) k v.
     let (ofs, be, data) = register_access (unat FB_DEVICE_MEM + k) v in
     bindr (fb_write io ofs be data) (\<lambda>(io, es).
     if FbDisplay \<in> set es then
       bindr (fb_bufs io) (\<lambda>bufs. bindr (viewer_refresh bufs vw) (\<lambda>vw. Inr ((io, vw), [vw_pixels vw])))
     else Inr ((io, vw), [])))"

text \<open>They are in step: the viewer's next buffer is the one the device writes now.\<close>

definition in_step :: "u32 \<Rightarrow> u32 \<Rightarrow> u32 \<Rightarrow> pix_fmt \<Rightarrow> nat \<Rightarrow> fb_io_resource \<times> fb_viewer \<Rightarrow> bool" where
  "in_step mode w h pf n = (\<lambda>(io, vw). fb_wrapping n io \<and> viewer_of mode w h pf vw \<and> vw_buf_idx vw = io_mem_idx io
     \<and> frame_bytes mode (unat w * unat h) \<le> 4 * n)"

lemma viewer_store_first:
  assumes "in_step mode w h pf n (io, vw)"
  shows "\<exists>io' vw'. viewer_store (io, vw) 0 v = Inr ((io', vw'), [shown mode w h pf (fb_cur io)]) \<and> in_step mode w h pf n (io', vw')
    \<and> fb_cur io' = put_bytes (fb_other io) 0 (bytes32 v) \<and> fb_other io' = fb_cur io"
proof -
  have io: "fb_wrapping n io" and vw: "viewer_of mode w h pf vw" "vw_buf_idx vw = io_mem_idx io"
    and sz: "frame_bytes mode (unat w * unat h) \<le> 4 * n" using assms by (simp_all add: in_step_def)
  obtain ofs be data where r: "register_access (unat FB_DEVICE_MEM + 0) v = (ofs, be, data)" by (metis prod_cases3)
  from fb_write_first [OF io r] obtain io' where w: "fb_write io ofs be data = Inr (io', [FbDisplay])" "fb_wrapping n io'"
    "io_mem_idx io' = (io_mem_idx io + 1) mod 2" "fb_cur io' = put_bytes (fb_other io) 0 (bytes32 v)" "fb_other io' = fb_cur io" by blast
  from fb_wrapping_bufs [OF w(2)] obtain bufs where b: "fb_bufs io' = Inr bufs" "length bufs = 2"
    "bufs ! ((io_mem_idx io' + 1) mod 2) = fb_cur io" unfolding w(5) by blast
  have i: "io_mem_idx io < 2" "(io_mem_idx io' + 1) mod 2 = io_mem_idx io"
    using io unfolding w(3) by (auto simp: fb_wrapping_def less_2_cases_iff)
  have "length (fb_cur io) = 4 * n" using fb_wrapping_sizes [OF io] by simp
  with viewer_refresh_shows [OF vw(1), of bufs] b(2,3) i vw(2) sz obtain vw' where
    s: "viewer_refresh bufs vw = Inr vw'" "vw_pixels vw' = shown mode w h pf (fb_cur io)"
      "viewer_of mode w h pf vw'" "vw_buf_idx vw' = (vw_buf_idx vw + 1) mod 2" by auto
  have "in_step mode w h pf n (io', vw')" using s(3,4) vw(2) sz w(2,3) by (simp add: in_step_def)
  moreover have "viewer_store (io, vw) 0 v = Inr ((io', vw'), [shown mode w h pf (fb_cur io)])"
    using b(1) s(1,2) unfolding viewer_store_def prod.case r Let_def w(1) by simp
  ultimately show ?thesis using w by blast
qed

lemma viewer_store_next:
  assumes "in_step mode w h pf n (io, vw)" "0 < k" "k < n"
  shows "\<exists>io'. viewer_store (io, vw) k v = Inr ((io', vw), []) \<and> in_step mode w h pf n (io', vw)
    \<and> fb_cur io' = put_bytes (fb_cur io) (4 * k) (bytes32 v) \<and> fb_other io' = fb_other io"
proof -
  have io: "fb_wrapping n io" using assms(1) by (simp add: in_step_def)
  obtain ofs be data where r: "register_access (unat FB_DEVICE_MEM + k) v = (ofs, be, data)" by (metis prod_cases3)
  from fb_write_next [OF io assms(2,3) r] obtain io' where w: "fb_write io ofs be data = Inr (io', [])" "fb_wrapping n io'"
    "io_mem_idx io' = io_mem_idx io" "fb_cur io' = put_bytes (fb_cur io) (4 * k) (bytes32 v)" "fb_other io' = fb_other io" by blast
  have "viewer_store (io, vw) k v = Inr ((io', vw), [])"
    unfolding viewer_store_def prod.case r Let_def w(1) by simp
  moreover have "in_step mode w h pf n (io', vw)" using assms(1) w(2,3) by (simp add: in_step_def)
  ultimately show ?thesis using w by blast
qed

interpretation viewer_frames: double_buffer viewer_store "\<lambda>(io, vw). fb_cur io" "\<lambda>(io, vw). fb_other io"
    "shown mode w h pf" "in_step mode w h pf (Suc n)" "Suc n" for mode w h pf n
proof (unfold_locales, goal_cases)
  case (2 s)
  then show ?case using fb_wrapping_sizes [of "Suc n"] by (auto simp: in_step_def)
next
  case (3 s v)
  obtain io vw where s: "s = (io, vw)" by fastforce
  from viewer_store_first [OF 3 [unfolded s], of v] obtain io' vw' where
    "viewer_store (io, vw) 0 v = Inr ((io', vw'), [shown mode w h pf (fb_cur io)])" "in_step mode w h pf (Suc n) (io', vw')"
    "fb_cur io' = put_bytes (fb_other io) 0 (bytes32 v)" "fb_other io' = fb_cur io" by blast
  then show ?case unfolding s by (intro exI [of _ "(io', vw')"]) simp
next
  case (4 s k v)
  obtain io vw where s: "s = (io, vw)" by fastforce
  from viewer_store_next [OF 4(1) [unfolded s] 4(2,3), of v] obtain io' where
    "viewer_store (io, vw) k v = Inr ((io', vw), [])" "in_step mode w h pf (Suc n) (io', vw)"
    "fb_cur io' = put_bytes (fb_cur io) (4 * k) (bytes32 v)" "fb_other io' = fb_other io" by blast
  then show ?case unfolding s by (intro exI [of _ "(io', vw)"]) simp
qed simp

text \<open>A device and a viewer started together are in step.\<close>

lemma started_in_step:
  assumes "fb_wrapping n io" "io_mem_idx io = 0" "viewer_main pf pixels (4 * n) w h mode = Inr vw"
    and "good_geometry mode w h" "length pixels = 4 * (unat w * unat h)"
  shows "in_step mode w h pf n (io, vw)"
proof -
  note g = get_size_frame [OF assms(4)]
  have "frame_bytes mode (unat w * unat h) < 2 ^ 64" using g(2) by (rule less_trans) simp
  then have u: "unat (of_int (get_size w h mode) :: u64) = frame_bytes mode (unat w * unat h)"
    unfolding g(1) by (simp add: unat_of_nat)
  with assms show ?thesis
    by (auto simp: in_step_def viewer_of_def viewer_main_def Let_def split: if_splits)
qed

text \<open>
  Claim C13. Framebuffer and viewer together show every frame: when a program writes its frames word by word
  to a device that displays at the first word and the viewer handles each signal before the next access, the
  screen shows what was there before and then every frame but the last, in order and complete, each
  converted pixel by pixel from any of the eight colour formats to the order of the screen.
\<close>

theorem viewer_shows_frames:
  assumes "fb_wrapping n io" "io_mem_idx io = 0" "viewer_main pf pixels (4 * n) w h mode = Inr vw"
    and "good_geometry mode w h" "length pixels = 4 * (unat w * unat h)" "\<forall>f\<in>set fs. length f = n" "fs \<noteq> []"
  shows "\<exists>s'. store_frames viewer_store (io, vw) fs
    = Inr (s', map (shown mode w h pf) (fb_cur io # map words_bytes (butlast fs)))"
proof -
  from assms(1) obtain m where n: "n = Suc m" by (cases n) (auto simp: fb_wrapping_def)
  have "in_step mode w h pf (Suc m) (io, vw)" using started_in_step [OF assms(1-5)] by (simp only: n)
  moreover have "\<forall>f\<in>set fs. length f = Suc m" using assms(6) by (simp only: n)
  ultimately show ?thesis using viewer_frames.frames_shown assms(7) by fastforce
qed

text \<open>
  A device that is stopped and started again keeps the number of its current buffer, while its new viewer starts with
  the first one: after an odd number of displays they are out of step for good.
\<close>

lemma restart_out_of_step:
  assumes "io_mem_idx (fd_io d) = 1" "fb_uninit d = (d1, os)" "fb_init shm_ok wd ht mode nb d1 = Inr (d2, nb', os')"
    and "viewer_main pf pixels seg w h mode = Inr vw"
  shows "io_mem_idx (fd_io d2) = 1 \<and> vw_buf_idx vw = 0"
  using assms
  by (auto simp: fb_uninit_def fb_init_def fb_init_viewer_def viewer_main_def Let_def bindr_eq_Inr split: if_splits)

text \<open>The grey format of the device has no conversion: the first signal calls a null function pointer.\<close>

lemma grey_viewer_crashes:
  assumes "viewer_main pf pixels seg w h FB_GREY = Inr vw" "length images = 2"
  shows "viewer_refresh images vw = Inl NullPointer"
  using assms
  by (auto simp: viewer_main_def get_size_def set_conversion_def viewer_refresh_def convert_and_display_def rd_bytes_def
      fb_mode_defs Let_def split: if_splits)

text \<open>Two pixels of four bytes on a screen with the usual masks, which takes them in the reverse order.\<close>

definition usual_masks :: pix_fmt where
  "usual_masks = \<lparr>pf_Amask = 0, pf_Rmask = 0x00FF0000, pf_Gmask = 0x0000FF00, pf_Bmask = 0x000000FF\<rparr>"

definition small_viewer :: fb_viewer where
  "small_viewer = \<lparr>vw_width = 2, vw_height = 1, vw_mode = FB_ARGB, vw_size = 8, vw_buf_idx = 0, vw_copy = replicate 8 0,
     vw_convert = Some convert_ARGB_swap_32, vw_pixels = replicate 8 0\<rparr>"

theorem viewer_shows_frames_witness:
  "\<exists>s'. store_frames viewer_store (small_fb_io 1, small_viewer) [[0x04030201, 2], [5, 6]]
    = Inr (s', [[4, 3, 2, 1, 8, 7, 6, 5], [4, 3, 2, 1, 0, 0, 0, 2]])"
proof -
  have w: "fb_wrapping 2 (small_fb_io 1)" "io_mem_idx (small_fb_io 1) = 0"
    by (simp_all add: fb_wrapping_def small_fb_io_def FB_DEVICE_MEM_def)
  have m: "masks_bgra usual_masks" by (simp add: masks_bgra_def usual_masks_def)
  then have v: "viewer_main usual_masks (replicate 8 0) (4 * 2) 2 1 FB_ARGB = Inr small_viewer"
    by (simp add: viewer_main_def get_size_def fb_mode_defs set_conversion_def small_viewer_def)
  have g: "good_geometry FB_ARGB 2 1" by (simp add: good_geometry_def fb_mode_defs)
  have s: "shown FB_ARGB 2 1 usual_masks [a, b, c, d, a', b', c', d'] = [d, c, b, a, d', c', b', a']" for a b c d a' b' c' d'
    using m by (simp add: shown_def screen_picture_def screen_pixel_def Let_def frame_bytes_def fb_mode_defs upt_rec)
  have c: "fb_cur (small_fb_io 1) = [1, 2, 3, 4, 5, 6, 7, 8]" by (simp add: fb_cur_def small_fb_io_def)
  have b: "words_bytes [0x04030201, 2] = [1, 2, 3, 4, 2, 0, 0, 0]" by (simp add: bytes32_def drop_bit_eq_div)
  from viewer_shows_frames [OF w v g, of "[[0x04030201, 2], [5, 6]]"]
  have "\<exists>s'. store_frames viewer_store (small_fb_io 1, small_viewer) [[0x04030201, 2], [5, 6]]
    = Inr (s', map (shown FB_ARGB 2 1 usual_masks) (fb_cur (small_fb_io 1) # [words_bytes [0x04030201, 2]]))"
    by (simp del: store_frames.simps words_bytes_simps)
  then show ?thesis unfolding c b list.map s .
qed

end
