(* ===== verification/Cpu_Time.thy ===== *)
theory Cpu_Time
  imports Qemu_Wrapper Etrace_Samples
begin

text \<open>
  The time a processor takes (\<^verbatim>\<open>qemu_wrapper/qemu_cpu_wrapper.cpp\<close>): QEMU reports the cycles of the
  instructions it has executed, and the wrapper waits as long as they take at the processor's
  frequency, which another processor may change in the meantime; a halted processor sleeps until it is
  woken. A wait is cut in two, what runs up to it and what runs after it, and time is in picoseconds.
\<close>

subsection \<open>Cycles\<close>

text \<open>\<open>m_ns_per_cpu_cycle_max_fv\<close>, as the constructor computes it from the last level.\<close>

definition ns_per_cycle :: "cpu_logs \<Rightarrow> rat" where
  "ns_per_cycle l = 1000 / of_nat (unat (lg_cpu_fvs l ! (lg_cpu_nb_fv_levels l - 1)))"

text \<open>The locals of \<open>consume_instruction_cycles_with_sync\<close>.\<close>

record consume =
  cy_ps_start_time :: u64
  cy_start_fv_percent :: rat
  cy_start_fv_level :: ulong
  cy_start_no_cycles :: u64
  cy_ncycles :: ulong
  cy_cycles :: rat
  cy_bIdle :: bool

text \<open>From the head of the loop to its \<open>wait\<close>, whose time limit in nanoseconds is the second component.\<close>

definition consume_sleep :: "cpu_logs \<Rightarrow> qemu_cpu_wrapper \<Rightarrow> u64 \<Rightarrow> consume \<Rightarrow> (consume \<times> rat) res" where
  "consume_sleep l c now k =
     (let k = k\<lparr>cy_ps_start_time := now\<rparr> in
      bindr (rd (lg_cpu_fv_percents l) (unat (qc_fv_level c))) (\<lambda>p.
      bindr (if p = 0 then bindr (rd (lg_cpu_fv_percents l) 0) (\<lambda>p. Inr (k\<lparr>cy_bIdle := True, cy_start_fv_percent := p\<rparr>))
             else Inr (k\<lparr>cy_start_fv_percent := p\<rparr>)) (\<lambda>k.
      let k = k\<lparr>cy_start_fv_level := qc_fv_level c\<rparr> in
      if cy_start_fv_percent k = 0 then Inl DivByZero
      else Inr (k, cy_cycles k * ns_per_cycle l * 100 / cy_start_fv_percent k))))"

text \<open>From the \<open>wait\<close> to the end of the loop's body; then, when no cycle is left, to the end: the flag.\<close>

definition consume_wake :: "cpu_logs \<Rightarrow> qemu_cpu_wrapper \<Rightarrow> u64 \<Rightarrow> consume
    \<Rightarrow> (cpu_logs \<times> qemu_cpu_wrapper \<times> consume \<times> bool) res" where
  "consume_wake l c now k =
     (let ps_time_passed = now - cy_ps_start_time k in
      bindr (logs_add_time_at_fv (qc_cpuindex c) (unat (cy_start_fv_level k)) (ps_time_passed div 1000) l) (\<lambda>l.
      let cycles_done = of_nat (unat ps_time_passed) * cy_start_fv_percent k / (1000 * 100 * ns_per_cycle l);
          c = (if cy_bIdle k then c else c\<lparr>qc_no_total_cycles := qc_no_total_cycles c + of_int \<lfloor>cycles_done\<rfloor>\<rparr>);
          k = k\<lparr>cy_cycles := cy_cycles k - cycles_done\<rparr>
      in if cy_cycles k \<ge> 1 then Inr (l, c, k, False)
         else Inr (l, if cy_bIdle k then c
                      else c\<lparr>qc_no_total_cycles := cy_start_no_cycles k + ucast (cy_ncycles k)\<rparr>, k, True)))"

definition consume_begin :: "qemu_cpu_wrapper \<Rightarrow> ulong \<Rightarrow> consume" where
  "consume_begin c ncycles = \<lparr>cy_ps_start_time = 0, cy_start_fv_percent = 0, cy_start_fv_level = 0,
     cy_start_no_cycles = qc_no_total_cycles c, cy_ncycles = ncycles, cy_cycles = of_nat (unat ncycles), cy_bIdle = False\<rparr>"

text \<open>
  The function in a simulation. SystemC rounds the time limit to picoseconds; a wait ends there, or earlier when
  \<open>m_ev_sync\<close> is notified. A disturbance is the time after which that happens and the level the
  processor has then; one that comes after the end of the wait, and an empty list, leave the wait whole.
  \<open>Blocked\<close> stands for a loop that goes on after a whole wait.
\<close>

definition ps_of_ns :: "rat \<Rightarrow> u64" where
  "ps_of_ns t = of_int \<lfloor>t * 1000 + 1 / 2\<rfloor>"

fun consume_run :: "cpu_logs \<Rightarrow> qemu_cpu_wrapper \<Rightarrow> u64 \<Rightarrow> consume \<Rightarrow> (u64 \<times> ulong) list
    \<Rightarrow> (cpu_logs \<times> qemu_cpu_wrapper \<times> u64) res" where
  "consume_run l c now k [] =
     bindr (consume_sleep l c now k) (\<lambda>(k, t).
     bindr (consume_wake l c (now + ps_of_ns t) k) (\<lambda>(l, c, k, fin).
     if fin then Inr (l, c, now + ps_of_ns t) else Inl Blocked))"
| "consume_run l c now k ((d, lv) # ds) =
     bindr (consume_sleep l c now k) (\<lambda>(k1, t).
     if d < ps_of_ns t then
       bindr (consume_wake l (c\<lparr>qc_fv_level := lv\<rparr>) (now + d) k1) (\<lambda>(l, c, k2, fin).
       if fin then Inr (l, c, now + d) else consume_run l c (now + d) k2 ds)
     else consume_run l c now k [])"

definition consume_instruction_cycles_with_sync :: "cpu_logs \<Rightarrow> qemu_cpu_wrapper \<Rightarrow> u64 \<Rightarrow> ulong \<Rightarrow> (u64 \<times> ulong) list
    \<Rightarrow> (cpu_logs \<times> qemu_cpu_wrapper \<times> u64) res" where
  "consume_instruction_cycles_with_sync l c now ncycles ds = consume_run l c now (consume_begin c ncycles) ds"

subsection \<open>No cycle is lost or taken twice\<close>

text \<open>The tables of the ARM and a log of the right size; the frequency of a level in MHz.\<close>

definition arm_logs :: "cpu_logs \<Rightarrow> bool" where
  "arm_logs l \<longleftrightarrow> logs_inv l \<and> lg_cpu_fv_percents l = arm_cpu_fv_percents \<and> lg_cpu_fvs l = arm_cpu_fv
     \<and> lg_cpu_nb_fv_levels l = 7 \<and> lg_cpu_nb_fv_levels_1 l = 8"

definition fv_mhz :: "ulong \<Rightarrow> rat" where
  "fv_mhz lv = of_nat (unat (arm_cpu_fv ! unat lv))"

text \<open>The cycles a processor that starts at a level executes during spans of time, each with the level that follows it.\<close>

fun cycles_in :: "ulong \<Rightarrow> (u64 \<times> ulong) list \<Rightarrow> rat" where
  "cycles_in lv [] = 0"
| "cycles_in lv ((d, lv') # ds) = of_nat (unat d) * fv_mhz lv / 10 ^ 6 + cycles_in lv' ds"

lemma arm_logs_new: "arm_logs (cpu_logs_new junk n)"
  using cpu_logs_new_inv [of junk n] by (simp add: arm_logs_def cpu_logs_new_def Let_def get_cpu_nb_fv_levels_def arm_cpu_fv_def)

lemma ns_per_cycle_arm: "arm_logs l \<Longrightarrow> ns_per_cycle l = 10 / 3"
  by (simp add: ns_per_cycle_def arm_logs_def arm_cpu_fv_def)

lemma level_cases: "unat (lv :: ulong) < 7 \<Longrightarrow> unat lv \<in> {0, 1, 2, 3, 4, 5, 6}"
  by auto

lemma fv_mhz_bounds: "unat lv < 7 \<Longrightarrow> 25 \<le> fv_mhz lv \<and> fv_mhz lv \<le> 300"
  by (auto simp: fv_mhz_def arm_cpu_fv_def dest!: level_cases)

lemma percent_of_level: "unat lv < 7 \<Longrightarrow> arm_cpu_fv_percents ! unat lv = fv_mhz lv / 3"
  by (auto simp: fv_mhz_def arm_cpu_fv_def arm_cpu_fv_percents_def dest!: level_cases)

lemma consume_sleep_ok:
  assumes "arm_logs l" "unat (qc_fv_level c) < 7"
  shows "consume_sleep l c now k = Inr (k\<lparr>cy_ps_start_time := now, cy_start_fv_percent := fv_mhz (qc_fv_level c) / 3,
      cy_start_fv_level := qc_fv_level c\<rparr>, cy_cycles k * 1000 / fv_mhz (qc_fv_level c))"
proof -
  have p: "rd (lg_cpu_fv_percents l) (unat (qc_fv_level c)) = Inr (fv_mhz (qc_fv_level c) / 3)"
    using assms by (simp add: arm_logs_def rd_def percent_of_level) (simp add: arm_cpu_fv_percents_def)
  show ?thesis using fv_mhz_bounds [OF assms(2)] ns_per_cycle_arm [OF assms(1)]
    by (simp add: consume_sleep_def p Let_def field_simps)
qed

lemma add_time_ok:
  assumes "arm_logs l" "cpu < lg_ncpu l" "lv < 8"
  shows "\<exists>l'. logs_add_time_at_fv cpu lv t l = Inr l' \<and> arm_logs l' \<and> lg_ncpu l' = lg_ncpu l"
proof -
  have "cpu * 8 + lv < length (lg_ns_time_at_fv l)"
    using assms row_bound [OF assms(2,3)] by (simp add: arm_logs_def logs_inv_def)
  then have "\<exists>l'. logs_add_time_at_fv cpu lv t l = Inr l'"
    using assms(1) by (simp add: logs_add_time_at_fv_def macro_ns_time_at_fv_def arm_logs_def)
  then obtain l' where l': "logs_add_time_at_fv cpu lv t l = Inr l'" by blast
  then have "\<exists>ts. l' = l\<lparr>lg_ns_time_at_fv := ts\<rparr>" by (auto simp: logs_add_time_at_fv_def bindr_eq_Inr)
  with logs_add_time_at_fv_inv [OF l'] assms(1) l' show ?thesis by (auto simp: arm_logs_def)
qed

text \<open>A wait of \<open>d\<close> picoseconds.\<close>

definition waited :: "qemu_cpu_wrapper \<Rightarrow> u64 \<Rightarrow> consume \<Rightarrow> consume" where
  "waited c now k = k\<lparr>cy_ps_start_time := now, cy_start_fv_percent := fv_mhz (qc_fv_level c) / 3,
     cy_start_fv_level := qc_fv_level c\<rparr>"

lemma consume_wake_ok:
  assumes "arm_logs l" "qc_cpuindex c' < lg_ncpu l" "unat (qc_fv_level c) < 7" "\<not> cy_bIdle k"
    and left: "left = cy_cycles k - of_nat (unat d) * fv_mhz (qc_fv_level c) / 10 ^ 6"
  shows "\<exists>l' t. consume_wake l c' (now + d) (waited c now k)
      = Inr (l', c'\<lparr>qc_no_total_cycles := t\<rparr>, (waited c now k)\<lparr>cy_cycles := left\<rparr>, left < 1)
    \<and> (left < 1 \<longrightarrow> t = cy_start_no_cycles k + ucast (cy_ncycles k)) \<and> arm_logs l' \<and> lg_ncpu l' = lg_ncpu l"
proof -
  obtain l' where l': "logs_add_time_at_fv (qc_cpuindex c') (unat (qc_fv_level c)) (d div 1000) l = Inr l'"
    "arm_logs l'" "lg_ncpu l' = lg_ncpu l"
    using add_time_ok [OF assms(1,2), of "unat (qc_fv_level c)" "d div 1000"] assms(3) by auto
  have work: "of_nat (unat d) * (fv_mhz (qc_fv_level c) / 3) / (1000 * 100 * ns_per_cycle l')
      = of_nat (unat d) * fv_mhz (qc_fv_level c) / 10 ^ 6"
    unfolding ns_per_cycle_arm [OF l'(2)] by simp
  show ?thesis
  proof (cases "left < 1")
    case True
    then have "\<not> 1 \<le> cy_cycles k - of_nat (unat d) * fv_mhz (qc_fv_level c) / 10 ^ 6" by (simp add: left)
    then show ?thesis using assms(4) l' work True left
      by (simp add: consume_wake_def waited_def Let_def)
  next
    case False
    then have "1 \<le> cy_cycles k - of_nat (unat d) * fv_mhz (qc_fv_level c) / 10 ^ 6" by (simp add: left)
    then show ?thesis using assms(4) l' work False left
      by (simp add: consume_wake_def waited_def Let_def) (rule exI, rule refl)
  qed
qed

lemma unat_of_floor:
  assumes "0 \<le> x" "x < 2 ^ 63"
  shows "of_nat (unat (of_int \<lfloor>x\<rfloor> :: u64)) = (of_int \<lfloor>x :: rat\<rfloor> :: rat)"
proof -
  have "0 \<le> \<lfloor>x\<rfloor>" "\<lfloor>x\<rfloor> < 2 ^ 64" using assms by (simp_all add: floor_less_iff)
  then have "int (unat (of_int \<lfloor>x\<rfloor> :: u64)) = \<lfloor>x\<rfloor>"
    by (simp add: unsigned_of_int take_bit_int_eq_self)
  then show ?thesis by (metis of_int_of_nat_eq)
qed

lemma wait_limit:
  assumes "unat lv < 7" "0 \<le> cycles" "cycles < 2 ^ 32"
  shows "of_nat (unat (ps_of_ns (cycles * 1000 / fv_mhz lv))) \<le> cycles * 10 ^ 6 / fv_mhz lv + 1 / 2"
    and "cycles * 10 ^ 6 / fv_mhz lv - 1 / 2 < of_nat (unat (ps_of_ns (cycles * 1000 / fv_mhz lv)))"
proof -
  note f = fv_mhz_bounds [OF assms(1)]
  let ?x = "cycles * 10 ^ 6 / fv_mhz lv + 1 / 2"
  have e: "cycles * 1000 / fv_mhz lv * 1000 + 1 / 2 = ?x" by simp
  have "cycles * 10 ^ 6 / fv_mhz lv \<le> 2 ^ 32 * 10 ^ 6 / 25"
    using f assms by (intro frac_le) simp_all
  then have "0 \<le> ?x" "?x < 2 ^ 63" using f assms by simp_all
  from unat_of_floor [OF this] have "of_nat (unat (ps_of_ns (cycles * 1000 / fv_mhz lv))) = (of_int \<lfloor>?x\<rfloor> :: rat)"
    unfolding ps_of_ns_def e .
  then show "of_nat (unat (ps_of_ns (cycles * 1000 / fv_mhz lv))) \<le> ?x"
    "cycles * 10 ^ 6 / fv_mhz lv - 1 / 2 < of_nat (unat (ps_of_ns (cycles * 1000 / fv_mhz lv)))"
    by linarith+
qed

text \<open>The spans of time a call takes: those of the first disturbances, and perhaps one more, at whose end nothing changed.\<close>

definition spans_of :: "(u64 \<times> ulong) list \<Rightarrow> (u64 \<times> ulong) list \<Rightarrow> bool" where
  "spans_of ds segs \<longleftrightarrow> (\<exists>m\<le>length ds. segs = take m ds \<or> (\<exists>d lv. segs = take m ds @ [(d, lv)]))"

lemma spans_of_simps:
  "spans_of ds [(d, lv)]" "spans_of (p # ds) [p]" "spans_of ds segs \<Longrightarrow> spans_of (p # ds) (p # segs)"
proof -
  show "spans_of ds [(d, lv)]" unfolding spans_of_def by (intro exI [of _ 0]) simp
  show "spans_of (p # ds) [p]" unfolding spans_of_def by (intro exI [of _ 1]) simp
  assume "spans_of ds segs"
  then obtain m where "m \<le> length ds" "segs = take m ds \<or> (\<exists>d lv. segs = take m ds @ [(d, lv)])"
    by (auto simp: spans_of_def)
  then show "spans_of (p # ds) (p # segs)" unfolding spans_of_def by (intro exI [of _ "Suc m"]) simp
qed

lemma consume_whole_wait:
  assumes "arm_logs l" "qc_cpuindex c < lg_ncpu l" "unat (qc_fv_level c) < 7" "\<not> cy_bIdle k"
    and "0 \<le> cy_cycles k" "cy_cycles k < 2 ^ 32"
  shows "\<exists>l' d. consume_run l c now k [] = Inr (l', c\<lparr>qc_no_total_cycles := cy_start_no_cycles k + ucast (cy_ncycles k)\<rparr>, now + d)
    \<and> arm_logs l' \<and> \<bar>cycles_in (qc_fv_level c) [(d, qc_fv_level c)] - cy_cycles k\<bar> < 1"
proof -
  define d where "d = ps_of_ns (cy_cycles k * 1000 / fv_mhz (qc_fv_level c))"
  define left where "left = cy_cycles k - of_nat (unat d) * fv_mhz (qc_fv_level c) / 10 ^ 6"
  note f = fv_mhz_bounds [OF assms(3)] and w = wait_limit [OF assms(3,5,6), folded d_def]
  have "of_nat (unat d) * fv_mhz (qc_fv_level c) \<le> (cy_cycles k * 10 ^ 6 / fv_mhz (qc_fv_level c) + 1 / 2) * fv_mhz (qc_fv_level c)"
    "(cy_cycles k * 10 ^ 6 / fv_mhz (qc_fv_level c) - 1 / 2) * fv_mhz (qc_fv_level c) \<le> of_nat (unat d) * fv_mhz (qc_fv_level c)"
    using f w by (auto intro: mult_right_mono)
  then have "of_nat (unat d) * fv_mhz (qc_fv_level c) \<le> cy_cycles k * 10 ^ 6 + fv_mhz (qc_fv_level c) / 2"
    "cy_cycles k * 10 ^ 6 - fv_mhz (qc_fv_level c) / 2 \<le> of_nat (unat d) * fv_mhz (qc_fv_level c)"
    using f by (simp_all add: distrib_right left_diff_distrib)
  then have "cy_cycles k * 10 ^ 6 - of_nat (unat d) * fv_mhz (qc_fv_level c) \<le> 150"
    "- 150 \<le> cy_cycles k * 10 ^ 6 - of_nat (unat d) * fv_mhz (qc_fv_level c)"
    using f by linarith+
  moreover have "left = (cy_cycles k * 10 ^ 6 - of_nat (unat d) * fv_mhz (qc_fv_level c)) / 10 ^ 6"
    by (simp add: left_def diff_divide_distrib)
  ultimately have "\<bar>left\<bar> < 1" by (simp add: abs_less_iff)
  then have lt: "left < 1" "\<bar>left\<bar> < 1" by (simp_all add: abs_less_iff)
  from consume_wake_ok [OF assms(1,2,3,4) left_def, of now] lt(1) obtain l' where
    wk: "consume_wake l c (now + d) (waited c now k) = Inr (l', c\<lparr>qc_no_total_cycles := cy_start_no_cycles k + ucast (cy_ncycles k)\<rparr>,
      (waited c now k)\<lparr>cy_cycles := left\<rparr>, True)" "arm_logs l'" by auto
  have "consume_run l c now k [] = Inr (l', c\<lparr>qc_no_total_cycles := cy_start_no_cycles k + ucast (cy_ncycles k)\<rparr>, now + d)"
    using consume_sleep_ok [OF assms(1,3), of now k] wk(1) by (simp add: waited_def d_def)
  moreover have "\<bar>cycles_in (qc_fv_level c) [(d, qc_fv_level c)] - cy_cycles k\<bar> < 1"
    using lt(2) by (simp add: left_def abs_minus_commute)
  ultimately show ?thesis using wk(2) by blast
qed

lemma consume_run_ok:
  assumes "arm_logs l" "qc_cpuindex c < lg_ncpu l" "unat (qc_fv_level c) < 7" "\<forall>(d, lv)\<in>set ds. unat lv < 7"
    and "\<not> cy_bIdle k" "0 \<le> cy_cycles k" "cy_cycles k < 2 ^ 32"
  shows "\<exists>l' lv segs. consume_run l c now k ds
      = Inr (l', c\<lparr>qc_fv_level := lv, qc_no_total_cycles := cy_start_no_cycles k + ucast (cy_ncycles k)\<rparr>, now + sum_list (map fst segs))
    \<and> arm_logs l' \<and> spans_of ds segs \<and> \<bar>cycles_in (qc_fv_level c) segs - cy_cycles k\<bar> < 1"
  using assms
proof (induction ds arbitrary: l c now k)
  case Nil
  from consume_whole_wait [OF Nil.prems(1,2,3,5,6,7), of now] obtain l' d where
    "consume_run l c now k [] = Inr (l', c\<lparr>qc_no_total_cycles := cy_start_no_cycles k + ucast (cy_ncycles k)\<rparr>, now + d)"
    "arm_logs l'" "\<bar>cycles_in (qc_fv_level c) [(d, qc_fv_level c)] - cy_cycles k\<bar> < 1" by blast
  then show ?case
    by (intro exI [of _ l'] exI [of _ "qc_fv_level c"] exI [of _ "[(d, qc_fv_level c)]"]) (simp add: spans_of_simps)
next
  case (Cons p ds)
  obtain d lv where p: "p = (d, lv)" by (cases p)
  let ?f = "fv_mhz (qc_fv_level c)" and ?t = "cy_cycles k * 1000 / fv_mhz (qc_fv_level c)"
  note f = fv_mhz_bounds [OF Cons.prems(3)]
  have sl: "consume_sleep l c now k = Inr (waited c now k, ?t)"
    using consume_sleep_ok [OF Cons.prems(1,3)] by (simp add: waited_def)
  show ?case
  proof (cases "d < ps_of_ns ?t")
    case False
    then have "consume_run l c now k (p # ds) = consume_run l c now k []" by (simp add: p sl)
    moreover obtain l' d' where
      "consume_run l c now k [] = Inr (l', c\<lparr>qc_no_total_cycles := cy_start_no_cycles k + ucast (cy_ncycles k)\<rparr>, now + d')"
      "arm_logs l'" "\<bar>cycles_in (qc_fv_level c) [(d', qc_fv_level c)] - cy_cycles k\<bar> < 1"
      using consume_whole_wait [OF Cons.prems(1,2,3,5,6,7), of now] by blast
    ultimately show ?thesis
      by (intro exI [of _ l'] exI [of _ "qc_fv_level c"] exI [of _ "[(d', qc_fv_level c)]"]) (simp add: spans_of_simps)
  next
    case True
    define left where "left = cy_cycles k - of_nat (unat d) * ?f / 10 ^ 6"
    have "unat d < unat (ps_of_ns ?t)" using True by (simp add: word_less_nat_alt)
    then have "of_nat (unat d) + 1 \<le> (of_nat (unat (ps_of_ns ?t)) :: rat)" by (simp only: of_nat_Suc [symmetric] of_nat_le_iff)
    with wait_limit(1) [OF Cons.prems(3,6,7)] have "of_nat (unat d) \<le> cy_cycles k * 10 ^ 6 / ?f" by linarith
    then have "0 \<le> left" using f by (simp add: left_def field_simps)
    moreover have "0 \<le> of_nat (unat d) * ?f" using f of_nat_0_le_iff [of "unat d"] by (intro mult_nonneg_nonneg) simp_all
    then have "left \<le> cy_cycles k" by (simp add: left_def)
    ultimately have left: "0 \<le> left" "left < 2 ^ 32" using Cons.prems(7) by linarith+
    let ?c = "c\<lparr>qc_fv_level := lv\<rparr>"
    have ci: "qc_cpuindex ?c < lg_ncpu l" using Cons.prems(2) by simp
    from consume_wake_ok [OF Cons.prems(1) ci Cons.prems(3,5) left_def, of now] obtain l1 t where
      wk: "consume_wake l ?c (now + d) (waited c now k)
        = Inr (l1, ?c\<lparr>qc_no_total_cycles := t\<rparr>, (waited c now k)\<lparr>cy_cycles := left\<rparr>, left < 1)"
      "left < 1 \<longrightarrow> t = cy_start_no_cycles k + ucast (cy_ncycles k)" "arm_logs l1" "lg_ncpu l1 = lg_ncpu l" by blast
    have eq: "consume_run l c now k (p # ds) = (if left < 1 then Inr (l1, ?c\<lparr>qc_no_total_cycles := t\<rparr>, now + d)
        else consume_run l1 (?c\<lparr>qc_no_total_cycles := t\<rparr>) (now + d) ((waited c now k)\<lparr>cy_cycles := left\<rparr>) ds)"
      using True by (simp add: p sl wk(1))
    show ?thesis
    proof (cases "left < 1")
      case True
      have "\<bar>cycles_in (qc_fv_level c) [p] - cy_cycles k\<bar> < 1" using True left(1) by (simp add: p left_def)
      then show ?thesis using eq True wk
        by (intro exI [of _ l1] exI [of _ lv] exI [of _ "[p]"]) (simp add: spans_of_simps p)
    next
      case False
      let ?c1 = "?c\<lparr>qc_no_total_cycles := t\<rparr>" and ?k1 = "(waited c now k)\<lparr>cy_cycles := left\<rparr>"
      have h: "qc_cpuindex ?c1 < lg_ncpu l1" "unat (qc_fv_level ?c1) < 7" "\<forall>(d, lv)\<in>set ds. unat lv < 7"
        "\<not> cy_bIdle ?k1" "0 \<le> cy_cycles ?k1" "cy_cycles ?k1 < 2 ^ 32"
        using Cons.prems(2,4,5) wk(4) left by (auto simp: p waited_def)
      from Cons.IH [OF wk(3) h, of "now + d"] obtain l' lv' segs where
        r: "consume_run l1 ?c1 (now + d) ?k1 ds = Inr (l', ?c1\<lparr>qc_fv_level := lv',
            qc_no_total_cycles := cy_start_no_cycles ?k1 + ucast (cy_ncycles ?k1)\<rparr>, now + d + sum_list (map fst segs))"
          "arm_logs l'" "spans_of ds segs" "\<bar>cycles_in (qc_fv_level ?c1) segs - cy_cycles ?k1\<bar> < 1" by blast
      have "cycles_in (qc_fv_level c) (p # segs) - cy_cycles k = cycles_in (qc_fv_level ?c1) segs - cy_cycles ?k1"
        by (simp add: p left_def waited_def)
      then show ?thesis using eq False r
        by (intro exI [of _ l'] exI [of _ lv'] exI [of _ "p # segs"])
          (simp add: spans_of_simps p waited_def add.assoc)
    qed
  qed
qed

text \<open>
  Claim C21. The cycles of a processor are neither lost nor executed twice, however its frequency changes
  while it waits: the call returns, the counter of cycles has grown by exactly the number QEMU
  reported, and the time that has passed is a sum of spans, each at the frequency the processor had in it, in
  which it executes that number of cycles, up to one.
\<close>
theorem cycles_consumed_once:
  assumes "arm_logs l" "qc_cpuindex c < lg_ncpu l" "unat (qc_fv_level c) < 7" "\<forall>(d, lv)\<in>set ds. unat lv < 7"
  shows "\<exists>l' c' segs. consume_instruction_cycles_with_sync l c now ncycles ds = Inr (l', c', now + sum_list (map fst segs))
    \<and> qc_no_total_cycles c' = qc_no_total_cycles c + ucast ncycles \<and> arm_logs l' \<and> spans_of ds segs
    \<and> \<bar>cycles_in (qc_fv_level c) segs - of_nat (unat ncycles)\<bar> < 1"
proof -
  have "unat ncycles < 2 ^ LENGTH(32)" by (rule unsigned_less)
  then have n: "(of_nat (unat ncycles) :: rat) < of_nat (2 ^ 32)" unfolding of_nat_less_iff by simp
  have k: "\<not> cy_bIdle (consume_begin c ncycles)" "0 \<le> cy_cycles (consume_begin c ncycles)"
    "cy_cycles (consume_begin c ncycles) < 2 ^ 32"
    using n of_nat_0_le_iff [of "unat ncycles"] by (simp_all add: consume_begin_def)
  from consume_run_ok [OF assms k, of now] show ?thesis
    unfolding consume_instruction_cycles_with_sync_def by (fastforce simp: consume_begin_def)
qed

theorem cycles_consumed_once_witness:
  "\<exists>l' c' segs. consume_instruction_cycles_with_sync (cpu_logs_new [] 2) (small_cpu\<lparr>qc_cpuindex := 1, qc_fv_level := 6\<rparr>) 7000 3000
      [(5000000, 0), (20000000, 3)] = Inr (l', c', 7000 + sum_list (map fst segs))
    \<and> \<bar>cycles_in 6 segs - 3000\<bar> < 1"
proof -
  let ?c = "small_cpu\<lparr>qc_cpuindex := 1, qc_fv_level := 6\<rparr>"
  have "qc_cpuindex ?c < lg_ncpu (cpu_logs_new [] 2)" "unat (qc_fv_level ?c) < 7"
    "\<forall>(d, lv)\<in>set [(5000000 :: u64, 0 :: ulong), (20000000, 3)]. unat lv < 7"
    by (simp_all add: cpu_logs_new_def Let_def)
  from cycles_consumed_once [OF arm_logs_new this, of 7000 3000] show ?thesis by auto
qed

text \<open>A call nothing disturbs takes the cycles divided by the frequency, to the nearest picosecond.\<close>

theorem undisturbed_time:
  assumes "arm_logs l" "qc_cpuindex c < lg_ncpu l" "unat (qc_fv_level c) < 7"
  shows "\<exists>l' c'. consume_instruction_cycles_with_sync l c now ncycles []
    = Inr (l', c', now + of_int \<lfloor>of_nat (unat ncycles) * 10 ^ 6 / fv_mhz (qc_fv_level c) + 1 / 2\<rfloor>)"
proof -
  have "\<exists>l' c' n. consume_instruction_cycles_with_sync l c now ncycles [] = Inr (l', c', n)"
    using cycles_consumed_once [OF assms, of "[]" now ncycles] by simp blast
  then show ?thesis
    using consume_sleep_ok [OF assms(1,3), of now "consume_begin c ncycles"]
    by (auto simp: consume_instruction_cycles_with_sync_def bindr_eq_Inr consume_begin_def ps_of_ns_def mult.assoc split: if_splits) blast
qed

subsection \<open>Sleeping and waking\<close>

definition EXCP_INTERRUPT :: u32 where "EXCP_INTERRUPT = 0x10000"
definition EXCP_HLT :: u32 where "EXCP_HLT = 0x10001"
definition EXCP_HALTED :: u32 where "EXCP_HALTED = 0x10003"
definition EXCP_POWER_DOWN :: u32 where "EXCP_POWER_DOWN = 0x10004"
definition EXCP_RESET :: u32 where "EXCP_RESET = 0x10005"
definition EXCP_SHUTDOWN :: u32 where "EXCP_SHUTDOWN = 0x10006"
definition EXCP_VM_NOT_RUNNING :: u32 where "EXCP_VM_NOT_RUNNING = 0x10007"

lemmas excp_defs [reg_defs] = EXCP_INTERRUPT_def EXCP_HLT_def EXCP_HALTED_def EXCP_POWER_DOWN_def EXCP_RESET_def
  EXCP_SHUTDOWN_def EXCP_VM_NOT_RUNNING_def

datatype cpu_out = CpuEnergyMode u32 | ScStop | CpuMessage

text \<open>
  \<open>cpu_thread\<close> when \<open>qemu_cpu_loop\<close> has returned \<open>hr\<close>: the time it went to sleep, or \<open>None\<close> when it
  calls QEMU again. \<open>etrace\<close> tells whether the build has the energy trace.
\<close>

definition cpu_thread_exit :: "bool \<Rightarrow> u64 \<Rightarrow> u32 \<Rightarrow> qemu_cpu_wrapper \<Rightarrow> cpu_out list \<times> u64 option" where
  "cpu_thread_exit etrace now hr c =
     (if hr = EXCP_HLT \<or> hr = EXCP_HALTED then
        (if etrace then [CpuEnergyMode (ETRACE_MODE ETRACE_CPU_IDLE (qc_fv_level c))] else [], Some now)
      else if hr = EXCP_INTERRUPT \<or> hr = EXCP_RESET then ([], None)
      else if hr = EXCP_VM_NOT_RUNNING \<or> hr = EXCP_POWER_DOWN \<or> hr = EXCP_SHUTDOWN then ([ScStop], None)
      else ([CpuMessage], None))"

text \<open>After \<open>wait (m_ev_wakeup)\<close>.\<close>

definition cpu_thread_wakeup :: "bool \<Rightarrow> u64 \<Rightarrow> u64 \<Rightarrow> qemu_cpu_wrapper \<Rightarrow> cpu_logs \<Rightarrow> (cpu_logs \<times> cpu_out list) res" where
  "cpu_thread_wakeup etrace ps_start_time now c l =
     bindr (logs_add_time_at_fv (qc_cpuindex c) (lg_cpu_nb_fv_levels l) ((now - ps_start_time) div 1000) l) (\<lambda>l.
     Inr (l, if etrace then [CpuEnergyMode (ETRACE_MODE ETRACE_CPU_RUNNING (qc_fv_level c))] else []))"

definition set_etrace_periph_id :: "cpu_logs \<Rightarrow> ulong \<Rightarrow> ulong \<times> cpu_out list" where
  "set_etrace_periph_id l id' = (id', [CpuEnergyMode (ETRACE_MODE ETRACE_CPU_RUNNING (of_nat (lg_cpu_boot_fv_level l)))])"

subsection \<open>The time of memory accesses\<close>

definition cpu_add_time_at_fv :: "ulong \<Rightarrow> qemu_cpu_wrapper \<Rightarrow> cpu_logs \<Rightarrow> cpu_logs res" where
  "cpu_add_time_at_fv ns c l = logs_add_time_at_fv (qc_cpuindex c) (unat (qc_fv_level c)) (ucast ns) l"

text \<open>\<open>systemc_qemu_read_memory\<close> and \<open>systemc_qemu_write_memory\<close> after an access that began at \<open>starttime\<close>.\<close>

definition timed_access :: "u64 \<Rightarrow> u64 \<Rightarrow> qemu_cpu_wrapper \<Rightarrow> cpu_logs \<Rightarrow> cpu_logs res" where
  "timed_access starttime now c l =
     (let diff = now - starttime in if diff \<noteq> 0 then cpu_add_time_at_fv (ucast diff) c l else Inr l)"

text \<open>\<open>systemc_qemu_consume_instruction_cycles\<close>, with the counter of processor 0.\<close>

definition systemc_qemu_consume_instruction_cycles :: "cpu_logs \<Rightarrow> qemu_cpu_wrapper \<Rightarrow> u64 \<Rightarrow> ulong \<Rightarrow> (u64 \<times> ulong) list \<Rightarrow> ulong
    \<Rightarrow> (cpu_logs \<times> qemu_cpu_wrapper \<times> u64 \<times> ulong) res" where
  "systemc_qemu_consume_instruction_cycles l c now ninstr ds no_cycles_cpu0 =
     bindr (consume_instruction_cycles_with_sync l c now ninstr ds) (\<lambda>(l, c, now).
     Inr (l, c, now, if qc_cpuindex c = 0 then no_cycles_cpu0 + ninstr else no_cycles_cpu0))"

definition systemc_qemu_get_time :: "u64 \<Rightarrow> u64" where
  "systemc_qemu_get_time now = now div 1000"

definition systemc_qemu_get_crt_thread :: "qemu_cpu_wrapper \<Rightarrow> ulong" where
  "systemc_qemu_get_crt_thread c = qc_crt_cpu_thread c"

text \<open>
  The log is in nanoseconds, and a sleep is added in nanoseconds; the time of a memory access
  is added in picoseconds, a thousand times too long.
\<close>
theorem access_time_logged_in_ps:
  assumes "arm_logs l" "qc_cpuindex c < lg_ncpu l" "unat (qc_fv_level c) < 7" "0 < d" "unat (d::u64) < 2 ^ 32"
    and "macro_ns_time_at_fv l (qc_cpuindex c) (unat (qc_fv_level c)) = Inr t"
  shows "\<exists>l'. timed_access start (start + d) c l = Inr l' \<and> macro_ns_time_at_fv l' (qc_cpuindex c) (unat (qc_fv_level c)) = Inr (t + d)"
proof -
  have i: "qc_cpuindex c * 8 + unat (qc_fv_level c) < length (lg_ns_time_at_fv l)"
    using assms(1-3) row_bound [OF assms(2), of "unat (qc_fv_level c)" 8] by (simp add: arm_logs_def logs_inv_def)
  have "unat (ucast (ucast d :: ulong) :: u64) = unat d"
    using assms(5) by (simp add: unsigned_ucast_eq unsigned_take_bit_eq take_bit_nat_eq_self)
  then have "ucast (ucast d :: ulong) = d" by (simp only: unsigned_word_eqI)
  then show ?thesis using assms i word_neq_0_conv [of d]
    by (simp add: timed_access_def cpu_add_time_at_fv_def logs_add_time_at_fv_def macro_ns_time_at_fv_def arm_logs_def Let_def)
qed

end
