(* ===== verification/Linux_Driver.thy ===== *)
theory Linux_Driver
  imports Memory_Bus
begin

text \<open>
  What the character drivers of the roger platform (\<^verbatim>\<open>platforms/roger/soft/linux/drivers\<close>) have in common: the
  part of Linux they call, as it is documented, the table of devices every one of them keeps with its \<open>open\<close>,
  \<open>init\<close> and \<open>exit\<close>, and the way an access of a driver takes to a device of the platform. Virtual
  and physical addresses are the same numbers here; \<open>printk\<close> is left out.
\<close>

subsection \<open>Linux\<close>

definition ENXIO :: int where "ENXIO = 6"
definition EBADF :: int where "EBADF = 9"
definition ENOMEM :: int where "ENOMEM = 12"
definition EFAULT :: int where "EFAULT = 14"
definition EBUSY :: int where "EBUSY = 16"
definition EINVAL :: int where "EINVAL = 22"
definition ENOTTY :: int where "ENOTTY = 25"

lemmas errno_defs [reg_defs] = ENXIO_def EBADF_def ENOMEM_def EFAULT_def EBUSY_def EINVAL_def ENOTTY_def

text \<open>The numbers of the \<open>ioctl\<close> commands.\<close>

definition IOC :: "u32 \<Rightarrow> u32 \<Rightarrow> u32 \<Rightarrow> u32 \<Rightarrow> u32" where
  "IOC dir magic nr sz = push_bit 30 dir OR push_bit 16 sz OR push_bit 8 magic OR nr"

definition IO :: "u32 \<Rightarrow> u32 \<Rightarrow> u32" where "IO magic nr = IOC 0 magic nr 0"
definition IOW :: "u32 \<Rightarrow> u32 \<Rightarrow> u32 \<Rightarrow> u32" where "IOW magic nr sz = IOC 1 magic nr sz"
definition IOR :: "u32 \<Rightarrow> u32 \<Rightarrow> u32 \<Rightarrow> u32" where "IOR magic nr sz = IOC 2 magic nr sz"
definition IOWR :: "u32 \<Rightarrow> u32 \<Rightarrow> u32 \<Rightarrow> u32" where "IOWR magic nr sz = IOC 3 magic nr sz"

lemmas ioc_defs = IO_def IOW_def IOR_def IOWR_def IOC_def

text \<open>
  \<open>copy_from_user\<close> and \<open>copy_to_user\<close> return the number of bytes they could not copy. The bytes of user
  memory that can be read from the address on are \<open>src\<close>, the rest of the destination is filled with zeros; \<open>room\<close>
  bytes can be written, and the result has those that arrive.
\<close>

definition copy_from_user :: "u8 list \<Rightarrow> nat \<Rightarrow> u8 list \<times> int" where
  "copy_from_user src n = (take n src @ replicate (n - length src) 0, int (n - length src))"

definition copy_to_user :: "nat \<Rightarrow> u8 list \<Rightarrow> u8 list \<times> int" where
  "copy_to_user room bs = (take room bs, int (length bs - room))"

text \<open>
  The macros \<^verbatim>\<open>COPY_FROM_USER\<close> and \<^verbatim>\<open>COPY_TO_USER\<close> the drivers define: they leave the function with the result of the copy when it is negative.
\<close>

definition COPY_FROM_USER :: "u8 list \<Rightarrow> nat \<Rightarrow> (int \<Rightarrow> 'a) \<Rightarrow> (u8 list \<Rightarrow> 'a) \<Rightarrow> 'a" where
  "COPY_FROM_USER src n ret k = (let (bs, cpy) = copy_from_user src n in if cpy < 0 then ret cpy else k bs)"

definition COPY_TO_USER :: "nat \<Rightarrow> u8 list \<Rightarrow> (int \<Rightarrow> 'a) \<Rightarrow> (u8 list \<Rightarrow> 'a) \<Rightarrow> 'a" where
  "COPY_TO_USER room bs ret k = (let (us, cpy) = copy_to_user room bs in if cpy < 0 then ret cpy else k us)"

text \<open>A copy that fails is never seen: the number of bytes that are missing is not negative.\<close>

lemma copy_failure_ignored [simp]:
  "COPY_FROM_USER src n ret k = k (take n src @ replicate (n - length src) 0)"
  "COPY_TO_USER room bs ret k' = k' (take room bs)"
  by (simp_all add: COPY_FROM_USER_def COPY_TO_USER_def copy_from_user_def copy_to_user_def)

text \<open>Accesses to the registers of devices and to memory, over the state of the hardware.\<close>

record 's kernel_io =
  readl :: "ulong \<Rightarrow> 's \<Rightarrow> ('s \<times> u32) res"
  writel :: "u32 \<Rightarrow> ulong \<Rightarrow> 's \<Rightarrow> 's res"
  readb :: "ulong \<Rightarrow> 's \<Rightarrow> ('s \<times> u8) res"
  writeb :: "u8 \<Rightarrow> ulong \<Rightarrow> 's \<Rightarrow> 's res"
  mem_get :: "ulong \<Rightarrow> nat \<Rightarrow> 's \<Rightarrow> u8 list res"
  mem_put :: "ulong \<Rightarrow> u8 list \<Rightarrow> 's \<Rightarrow> 's res"

text \<open>What the kernel is told: its own tables of devices and interrupts, and the tasks to wake.\<close>

datatype kernel_call = CdevAdd int int | CdevDel int int | UnregisterChrdev int int nat | Iounmap ulong | Kfree ulong
  | RequestIrq nat | FreeIrq nat | WakeUp nat | ProcMkdir string | ProcEntry string string int

text \<open>
  What it answers: \<open>alloc_chrdev_region\<close> with its result, major and first minor number, \<open>ioremap\<close> (0 is the null
  pointer), \<open>kmalloc\<close>, \<open>cdev_add\<close> and \<open>request_irq\<close>.
\<close>

record kernel_env =
  ke_alloc_chrdev :: "int \<times> int \<times> int"
  ke_ioremap :: "ulong \<Rightarrow> ulong"
  ke_kmalloc :: ulong
  ke_cdev_add :: int
  ke_request_irq :: int

subsection \<open>The table of devices\<close>

record 'd chr_driver =
  cd_major :: int
  cd_minor :: int
  cd_nb_dev :: nat
  cd_devs :: "'d list"

text \<open>
  \<open>open\<close> up to \<open>device = &drv.devs[index]\<close>, the index being what \<open>file->private_data\<close> will be: the
  address of an element is never the null pointer.
\<close>

definition chr_open_index :: "'d chr_driver \<Rightarrow> int \<Rightarrow> int \<Rightarrow> int + nat" where
  "chr_open_index drv major minor =
     (if major \<noteq> cd_major drv then Inl (- ENXIO)
      else if minor < cd_minor drv \<or> minor > cd_minor drv + int (cd_nb_dev drv) then Inl (- ENXIO)
      else Inr (nat (minor - cd_minor drv)))"

text \<open>A handler on the device \<open>file->private_data\<close> points to.\<close>

definition on_device :: "'d chr_driver \<Rightarrow> nat \<Rightarrow> ('d \<Rightarrow> ('r \<times> 'd \<times> 's) res) \<Rightarrow> ('r \<times> 'd chr_driver \<times> 's) res" where
  "on_device drv i f =
     bindr (rd (cd_devs drv) i) (\<lambda>d. bindr (f d) (\<lambda>(r, d, s). Inr (r, drv\<lparr>cd_devs := (cd_devs drv)[i := d]\<rparr>, s)))"

text \<open>\<open>cdev_setup\<close>: its result is that of \<open>cdev_add\<close>.\<close>

definition chr_cdev_setup :: "kernel_env \<Rightarrow> 'd chr_driver \<Rightarrow> nat \<Rightarrow> int \<times> int \<times> kernel_call list" where
  "chr_cdev_setup env drv index =
     (let minor = cd_minor drv + int index in (ke_cdev_add env, minor, [CdevAdd (cd_major drv) minor]))"

text \<open>\<open>init\<close>: the table is cleared and, with the numbers, the device is set up; what that returns is ignored.\<close>

definition chr_drv_init :: "nat \<Rightarrow> 'd \<Rightarrow> kernel_env \<Rightarrow> ('d chr_driver \<Rightarrow> 's \<Rightarrow> (int \<times> 'd chr_driver \<times> 's \<times> kernel_call list) res)
    \<Rightarrow> 's \<Rightarrow> (int \<times> 'd chr_driver \<times> 's \<times> kernel_call list) res" where
  "chr_drv_init maxdev zero env dev_init s =
     (let drv = \<lparr>cd_major = 0, cd_minor = 0, cd_nb_dev = 0, cd_devs = replicate maxdev zero\<rparr>;
          (ret, major, minor) = ke_alloc_chrdev env
      in if ret = 0 then
           bindr (dev_init (drv\<lparr>cd_major := major, cd_minor := minor\<rparr>) s) (\<lambda>(_, drv, s, ks). Inr (0, drv, s, ks))
         else Inr (ret, drv, s, [UnregisterChrdev (cd_major drv) (cd_minor drv) maxdev]))"

text \<open>\<open>exit\<close>.\<close>

definition chr_drv_cleanup :: "nat \<Rightarrow> ('d \<Rightarrow> 's \<Rightarrow> ('d \<times> 's \<times> kernel_call list) res) \<Rightarrow> 'd chr_driver \<Rightarrow> 's
    \<Rightarrow> ('d chr_driver \<times> 's \<times> kernel_call list) res" where
  "chr_drv_cleanup maxdev dev_exit drv s =
     bindr (for_each (\<lambda>i (drv, s, ks). bindr (rd (cd_devs drv) i) (\<lambda>d. bindr (dev_exit d s) (\<lambda>(d, s, ks').
                        Inr (drv\<lparr>cd_devs := (cd_devs drv)[i := d]\<rparr>, s, ks @ ks'))))
              [0..<cd_nb_dev drv] (drv, s, [])) (\<lambda>(drv, s, ks).
     Inr (drv, s, ks @ [UnregisterChrdev (cd_major drv) (cd_minor drv) maxdev]))"

text \<open>Every driver has one device. The minor number after the last one is let through, and what uses it leaves the table.\<close>

definition one_device :: "'d chr_driver \<Rightarrow> bool" where
  "one_device drv \<longleftrightarrow> cd_nb_dev drv = 1 \<and> length (cd_devs drv) = 1"

lemma chr_open_index_cases:
  assumes "one_device drv"
  shows "chr_open_index drv major minor =
    (if major \<noteq> cd_major drv then Inl (- ENXIO)
     else if minor = cd_minor drv then Inr 0 else if minor = cd_minor drv + 1 then Inr 1 else Inl (- ENXIO))"
  using assms by (auto simp: chr_open_index_def one_device_def)

lemma open_next_minor:
  "one_device drv \<Longrightarrow> chr_open_index drv (cd_major drv) (cd_minor drv + 1) = Inr 1 \<and> on_device drv 1 f = Inl OutOfBounds"
  by (simp add: chr_open_index_cases on_device_def one_device_def)

lemma on_device_one:
  "one_device drv \<Longrightarrow> f (cd_devs drv ! 0) = Inr (r, d, s) \<Longrightarrow>
    on_device drv 0 f = Inr (r, drv\<lparr>cd_devs := [d]\<rparr>, s) \<and> one_device (drv\<lparr>cd_devs := [d]\<rparr>)"
  by (cases "cd_devs drv") (auto simp: on_device_def one_device_def)

subsection \<open>From a driver to a device\<close>

text \<open>
  A store and a load of \<open>n\<close> bytes at an offset of a device: the transaction the processor's wrapper makes of it, without
  the pool of requests, and the slave's \<open>rcv_rqst\<close>; \<open>rdata\<close> is what the response holds before.
\<close>

definition dev_store :: "('s, 'e) rcv_rqst \<Rightarrow> vci_request \<Rightarrow> ulong \<Rightarrow> ulong \<Rightarrow> u32 \<Rightarrow> 's \<Rightarrow> ('s \<times> 'e list) res" where
  "dev_store rcv junk ofs n v s =
     bindr (send_req junk 0 0 ofs (bytes32 v) n True) (\<lambda>req.
     bindr (rcv req s (rq_address req) (rq_be req) (rq_wdata req) True) (\<lambda>(s, es, data, bErr). Inr (s, es)))"

definition dev_load :: "('s, 'e) rcv_rqst \<Rightarrow> vci_request \<Rightarrow> u8 list \<Rightarrow> ulong \<Rightarrow> ulong \<Rightarrow> 's \<Rightarrow> ('s \<times> 'e list \<times> u32) res" where
  "dev_load rcv junk rdata ofs n s =
     bindr (send_req junk 0 0 ofs [] n False) (\<lambda>req.
     bindr (rcv req s (rq_address req) (rq_be req) rdata False) (\<lambda>(s, es, data, bErr).
     Inr (s, es, le32 (take (unat n) (drop (lane_ofs ofs) data) @ replicate (4 - unat n) 0))))"

text \<open>A device of 32-bit registers sees the register's number and the word.\<close>

lemma word_lane:
  assumes "unat (ofs::ulong) mod 4 = 0"
  shows "lane_ofs ofs = 0 \<or> lane_ofs ofs = 4" "aligned_access ofs 4"
  using assms unfolding lane_ofs_mod aligned_access_def by (presburger, simp)

lemma reg_lane_mask: "reg_lane (lanes_mask 0 4) = 0" "reg_lane (lanes_mask 4 4) = 1"
  by (simp_all add: reg_lane_def lanes_mask_def mask_eq_decr_exp push_bit_eq_mult)

lemma word_high: "u mod 8 = 4 \<Longrightarrow> (u - u mod 8) div 4 + 1 = u div (4::nat)"
proof -
  assume m: "u mod 8 = 4"
  then have "u = 4 * (2 * (u div 8) + 1)" using mult_div_mod_eq [of 8 u] by simp
  then obtain q where "u = 4 * q" "1 \<le> q" by (metis le_add2)
  with m show ?thesis by (simp add: right_diff_distrib)
qed

lemma reg_index_word:
  assumes "unat (ofs::ulong) mod 4 = 0"
  shows "reg_index (ofs AND 0xFFFFFFF8) (lanes_mask (lane_ofs ofs) 4) = drop_bit 2 ofs"
proof -
  have a: "unat (ofs AND 0xFFFFFFF8) = unat ofs - unat ofs mod 8" by (rule and_align8)
  have d: "unat (drop_bit 2 x) = unat x div 4" for x :: ulong by (simp add: drop_bit_eq_div unat_div_distrib unsigned_drop_bit_eq)
  have i: "reg_index (ofs AND 0xFFFFFFF8) (lanes_mask (lane_ofs ofs) 4)
      = drop_bit 2 (ofs AND 0xFFFFFFF8) + (if lane_ofs ofs = 4 then 1 else 0)"
    using word_lane(1) [OF assms] by (auto simp: reg_index_def lanes_mask_def mask_eq_decr_exp push_bit_eq_mult)
  have l: "lane_ofs ofs = unat ofs mod 8" by (rule lane_ofs_mod)
  have b: "unat ofs < 2 ^ 32" using unsigned_less [of ofs] by simp
  have "unat (drop_bit 2 (ofs AND 0xFFFFFFF8) + (if lane_ofs ofs = 4 then 1 else 0)) = unat (drop_bit 2 ofs)"
  proof (cases "lane_ofs ofs = 4")
    case True
    then have e: "(unat ofs - unat ofs mod 8) div 4 + 1 = unat ofs div 4" using l word_high [of "unat ofs"] by simp
    have ux: "unat (drop_bit 2 (ofs AND 0xFFFFFFF8)) + 1 = unat ofs div 4" unfolding d a e ..
    moreover have "unat (x + 1) = unat x + 1" if "unat x + 1 = unat ofs div 4" for x :: ulong
      using that b by (simp add: unat_word_ariths)
    ultimately have "unat (drop_bit 2 (ofs AND 0xFFFFFFF8) + 1) = unat ofs div 4" by simp
    then show ?thesis using True d by simp
  next
    case False
    then have "unat ofs mod 8 = 0" using word_lane(1) [OF assms] l by simp
    then have "unat (ofs AND 0xFFFFFFF8) = unat ofs" using a by simp
    then have "ofs AND 0xFFFFFFF8 = ofs" by (simp only: unsigned_word_eqI)
    then show ?thesis using False by simp
  qed
  then show ?thesis unfolding i by (simp only: unsigned_word_eqI)
qed

lemma reg_word_word:
  assumes "unat (ofs::ulong) mod 4 = 0"
  shows "reg_word (put_bytes (replicate 8 0) (lane_ofs ofs) (bytes32 v)) (lanes_mask (lane_ofs ofs) 4) = v"
    and "length data = 8 \<Longrightarrow> take 4 (drop (lane_ofs ofs) (put_reg_word data (lanes_mask (lane_ofs ofs) 4) w)) = bytes32 w"
proof -
  have k: "lane_ofs ofs = 4 * reg_lane (lanes_mask (lane_ofs ofs) 4)" "4 * reg_lane (lanes_mask (lane_ofs ofs) 4) + 4 \<le> 8"
    using word_lane(1) [OF assms] reg_lane_mask by auto
  show "reg_word (put_bytes (replicate 8 0) (lane_ofs ofs) (bytes32 v)) (lanes_mask (lane_ofs ofs) 4) = v"
    using k u32_at_set_u32_same [of "reg_lane (lanes_mask (lane_ofs ofs) 4)" "replicate 8 0" v]
    by (simp add: reg_word_def set_u32_def)
  assume "length data = 8"
  then show "take 4 (drop (lane_ofs ofs) (put_reg_word data (lanes_mask (lane_ofs ofs) 4) w)) = bytes32 w"
    using k take_drop_put_bytes [of "lane_ofs ofs" "bytes32 w" data] by (simp add: put_reg_word_def set_u32_def)
qed

lemma dev_store_word:
  assumes "unat (ofs::ulong) mod 4 = 0"
    and "\<And>req ofs' be data. ofs' = ofs AND 0xFFFFFFF8 \<Longrightarrow> reg_index ofs' be = drop_bit 2 ofs \<Longrightarrow> reg_word data be = v
      \<Longrightarrow> length data = 8 \<Longrightarrow>
      rcv req s ofs' be data True = Inr (s', es, data, bErr)"
  shows "dev_store rcv junk ofs 4 v s = Inr (s', es)"
proof -
  have "lane_ofs ofs + 4 \<le> 8" using word_lane(1) [OF assms(1)] by auto
  then have "length (put_bytes (replicate 8 0) (lane_ofs ofs) (bytes32 v)) = 8" by simp
  from assms(2) [OF refl reg_index_word [OF assms(1)] reg_word_word(1) [OF assms(1), of v] this]
  show ?thesis
    using send_req_aligned [OF word_lane(2) [OF assms(1)], of True "bytes32 v" junk 0 0] by (simp add: dev_store_def)
qed

lemma dev_load_word:
  assumes "unat (ofs::ulong) mod 4 = 0" "length rdata = 8"
    and "\<And>req ofs' be. ofs' = ofs AND 0xFFFFFFF8 \<Longrightarrow> reg_index ofs' be = drop_bit 2 ofs \<Longrightarrow> rcv req s ofs' be rdata False = Inr (s', es, put_reg_word rdata be v, bErr)"
  shows "dev_load rcv junk rdata ofs 4 s = Inr (s', es, v)"
  using assms(3) [OF refl reg_index_word [OF assms(1)]] reg_word_word(2) [OF assms(1,2), of v]
    send_req_aligned [OF word_lane(2) [OF assms(1)], of False "[]" junk 0 0]
  by (simp add: dev_load_def)

end
