(* ===== verification/Host_Access_Driver.thy ===== *)
theory Host_Access_Driver
  imports Linux_Driver System_Bus
begin

text \<open>
  The driver that gives programs of the emulated system a file of the host
  (\<^verbatim>\<open>drivers/rabbits_host_access/rabbitsha_drv.c\<close>): it programs the disk of the platform, which copies between the file
  and the driver's buffer in memory, and waits for it. At the end the driver runs against the disk, the
  network and the memory.
\<close>

definition RABBITSHA_MAXDEV :: nat where "RABBITSHA_MAXDEV = 1"
definition RABBITSHA_BASE_ADDRESS :: ulong where "RABBITSHA_BASE_ADDRESS = 0xA9000000"
definition BLOCK_DEVICE_DRV_BUF_SIZE :: nat where "BLOCK_DEVICE_DRV_BUF_SIZE = 1024"
definition RABBITSHA_IOCSOPEN :: u32 where "RABBITSHA_IOCSOPEN = IOW 0x68 0 4"

text \<open>\<open>enum sl_block_registers\<close>: the offsets of the disk's registers. Operations and states have the disk's numbers.\<close>

definition HA_BLOCK_DEVICE_BUFFER :: ulong where "HA_BLOCK_DEVICE_BUFFER = 0x00"
definition HA_BLOCK_DEVICE_LBA :: ulong where "HA_BLOCK_DEVICE_LBA = 0x04"
definition HA_BLOCK_DEVICE_COUNT :: ulong where "HA_BLOCK_DEVICE_COUNT = 0x08"
definition HA_BLOCK_DEVICE_OP :: ulong where "HA_BLOCK_DEVICE_OP = 0x0C"
definition HA_BLOCK_DEVICE_STATUS :: ulong where "HA_BLOCK_DEVICE_STATUS = 0x10"
definition HA_BLOCK_DEVICE_SIZE :: ulong where "HA_BLOCK_DEVICE_SIZE = 0x18"

lemmas ha_regs = HA_BLOCK_DEVICE_BUFFER_def HA_BLOCK_DEVICE_LBA_def HA_BLOCK_DEVICE_COUNT_def HA_BLOCK_DEVICE_OP_def
  HA_BLOCK_DEVICE_STATUS_def HA_BLOCK_DEVICE_SIZE_def

subsection \<open>The driver\<close>

text \<open>
  States: 0 waits for the name of a file, 1 is getting one, 2 has a file and no user, 3 is in use. \<open>ha_buffer\<close> is the address of the buffer.
\<close>

record rabbitsha_device =
  ha_minor :: int
  ha_base_addr :: ulong
  ha_buffer :: ulong
  ha_state :: int
  ha_open_count :: int

definition rabbitsha_zero :: rabbitsha_device where
  "rabbitsha_zero = \<lparr>ha_minor = 0, ha_base_addr = 0, ha_buffer = 0, ha_state = 0, ha_open_count = 0\<rparr>"

text \<open>Accesses to \<open>device->buffer\<close>.\<close>

definition buffer_put :: "'s kernel_io \<Rightarrow> rabbitsha_device \<Rightarrow> u8 list \<Rightarrow> 's \<Rightarrow> 's res" where
  "buffer_put io d bs s =
     (if ha_buffer d = 0 then Inl NullPointer
      else if length bs > BLOCK_DEVICE_DRV_BUF_SIZE then Inl OutOfBounds else mem_put io (ha_buffer d) bs s)"

definition buffer_get :: "'s kernel_io \<Rightarrow> rabbitsha_device \<Rightarrow> nat \<Rightarrow> 's \<Rightarrow> u8 list res" where
  "buffer_get io d n s =
     (if ha_buffer d = 0 then Inl NullPointer
      else if n > BLOCK_DEVICE_DRV_BUF_SIZE then Inl OutOfBounds else mem_get io (ha_buffer d) n s)"

text \<open>\<open>open\<close> on the device of the minor number.\<close>

definition ha_open_device :: "'s kernel_io \<Rightarrow> rabbitsha_device \<Rightarrow> 's \<Rightarrow> (int \<times> rabbitsha_device \<times> 's) res" where
  "ha_open_device io d s =
     (let count = (\<lambda>d. d\<lparr>ha_open_count := ha_open_count d + 1\<rparr>) in
      if ha_state d = 0 then bindr (buffer_put io d [0] s) (\<lambda>s. Inr (0, count (d\<lparr>ha_state := 1\<rparr>), s))
      else if ha_state d = 1 then Inr (- ENXIO, d, s)
      else if ha_state d = 2 then Inr (0, count (d\<lparr>ha_state := 3\<rparr>), s)
      else if ha_state d = 3 then Inr (0, count d, s)
      else Inr (- ENXIO, d, s))"

text \<open>With the new \<open>file->private_data\<close>, \<open>None\<close> when it is not set.\<close>

definition rabbitsha_chr_open :: "'s kernel_io \<Rightarrow> int \<Rightarrow> int \<Rightarrow> rabbitsha_device chr_driver \<Rightarrow> 's
    \<Rightarrow> (int \<times> nat option \<times> rabbitsha_device chr_driver \<times> 's) res" where
  "rabbitsha_chr_open io major minor drv s =
     (case chr_open_index drv major minor of
        Inl ret \<Rightarrow> Inr (ret, None, drv, s)
      | Inr i \<Rightarrow> bindr (on_device drv i (\<lambda>d. ha_open_device io d s)) (\<lambda>(ret, drv, s).
          Inr (ret, if ret = 0 then Some i else None, drv, s)))"

text \<open>
  \<open>while ((status = readl (base_addr + BLOCK_DEVICE_STATUS)) == BLOCK_DEVICE_BUSY) ;\<close> at most \<open>n\<close> reads.
\<close>

fun poll_status :: "'s kernel_io \<Rightarrow> rabbitsha_device \<Rightarrow> nat \<Rightarrow> 's \<Rightarrow> ('s \<times> u32) res" where
  "poll_status io d 0 s = Inl Livelock"
| "poll_status io d (Suc n) s =
     bindr (readl io (ha_base_addr d + HA_BLOCK_DEVICE_STATUS) s) (\<lambda>(s, status).
     if status = BLOCK_DEVICE_BUSY then poll_status io d n s else Inr (s, status))"

text \<open>The loop that looks for the end of the line; and the one that cuts off the spaces before it.\<close>

function end_of_line :: "u8 list \<Rightarrow> nat \<Rightarrow> nat res" where
  "end_of_line buf i =
     (if i < length buf then if buf ! i = 0x0A \<or> buf ! i = 0 then Inr i else end_of_line buf (i + 1) else Inl OutOfBounds)"
  by auto
termination by (relation "measure (\<lambda>(buf, i). length buf - i)") auto

declare end_of_line.simps [simp del]

fun cut_spaces :: "u8 list \<Rightarrow> nat \<Rightarrow> u8 list" where
  "cut_spaces buf 0 = buf"
| "cut_spaces buf (Suc i) = (if buf ! i = 0x20 then cut_spaces (buf[i := 0]) i else buf)"

definition strlen :: "u8 list \<Rightarrow> nat" where
  "strlen bs = length (c_string bs)"

text \<open>\<open>open_host_file\<close>: the loops work on the buffer, which is read before and stored after them.\<close>

definition ha_open_host_file :: "'s kernel_io \<Rightarrow> nat \<Rightarrow> rabbitsha_device \<Rightarrow> 's \<Rightarrow> (int \<times> rabbitsha_device \<times> 's) res" where
  "ha_open_host_file io polls d s =
     bindr (buffer_get io d BLOCK_DEVICE_DRV_BUF_SIZE s) (\<lambda>buf.
     bindr (end_of_line buf 0) (\<lambda>i.
     let buf = buf[i := 0]; buf = cut_spaces buf (strlen buf) in
     bindr (buffer_put io d buf s) (\<lambda>s.
     bindr (writel io (ha_buffer d) (ha_base_addr d + HA_BLOCK_DEVICE_BUFFER) s) (\<lambda>s.
     bindr (writel io (of_nat (strlen buf + 1)) (ha_base_addr d + HA_BLOCK_DEVICE_COUNT) s) (\<lambda>s.
     bindr (writel io BLOCK_DEVICE_FILE_NAME (ha_base_addr d + HA_BLOCK_DEVICE_OP) s) (\<lambda>s.
     bindr (poll_status io d polls s) (\<lambda>(s, status).
     if status \<noteq> BLOCK_DEVICE_WRITE_SUCCESS then Inr (- ENXIO, d, s)
     else Inr (0, d\<lparr>ha_state := 3\<rparr>, s))))))))"

text \<open>\<open>name\<close> is what \<open>strncpy_from_user\<close> stores: the string with its end, or as much as fits, or nothing. Its result is ignored.\<close>

definition rabbitsha_chr_ioctl_open :: "'s kernel_io \<Rightarrow> nat \<Rightarrow> u8 list \<Rightarrow> rabbitsha_device \<Rightarrow> 's
    \<Rightarrow> (int \<times> rabbitsha_device \<times> 's) res" where
  "rabbitsha_chr_ioctl_open io polls name d s =
     (if ha_state d = 3 \<and> ha_open_count d > 1 then Inr (- EBUSY, d, s)
      else
        let d = d\<lparr>ha_state := 1\<rparr> in
        bindr (buffer_put io d [0] s) (\<lambda>s.
        bindr (buffer_put io d name s) (\<lambda>s.
        ha_open_host_file io polls d s)))"

definition rabbitsha_chr_ioctl :: "'s kernel_io \<Rightarrow> nat \<Rightarrow> nat option \<Rightarrow> u32 \<Rightarrow> u8 list \<Rightarrow> rabbitsha_device chr_driver \<Rightarrow> 's
    \<Rightarrow> (int \<times> rabbitsha_device chr_driver \<times> 's) res" where
  "rabbitsha_chr_ioctl io polls file code name drv s =
     (case file of
        None \<Rightarrow> Inr (- EBADF, drv, s)
      | Some i \<Rightarrow>
          if code = RABBITSHA_IOCSOPEN then on_device drv i (\<lambda>d. rabbitsha_chr_ioctl_open io polls name d s)
          else Inr (- ENOTTY, drv, s))"

definition ha_release_device :: "rabbitsha_device \<Rightarrow> 's \<Rightarrow> (int \<times> rabbitsha_device \<times> 's) res" where
  "ha_release_device d s =
     (let d = d\<lparr>ha_open_count := ha_open_count d - 1\<rparr> in
      if ha_state d = 1 then Inr (0, d\<lparr>ha_state := 0\<rparr>, s)
      else if ha_state d = 3 then Inr (0, if ha_open_count d = 0 then d\<lparr>ha_state := 2\<rparr> else d, s)
      else Inr (- ENXIO, d, s))"

definition rabbitsha_chr_release :: "nat \<Rightarrow> rabbitsha_device chr_driver \<Rightarrow> 's \<Rightarrow> (int \<times> rabbitsha_device chr_driver \<times> 's) res" where
  "rabbitsha_chr_release i drv s = on_device drv i (\<lambda>d. ha_release_device d s)"

text \<open>
  The register accesses of a transfer, up to the end of the polling. \<open>(unsigned long) *loff\<close> has 32 bits.
\<close>

definition ha_transfer :: "'s kernel_io \<Rightarrow> nat \<Rightarrow> rabbitsha_device \<Rightarrow> int \<Rightarrow> nat \<Rightarrow> u32 \<Rightarrow> 's \<Rightarrow> ('s \<times> u32) res" where
  "ha_transfer io polls d loff n oper s =
     bindr (writel io (ha_buffer d) (ha_base_addr d + HA_BLOCK_DEVICE_BUFFER) s) (\<lambda>s.
     bindr (writel io (of_int loff) (ha_base_addr d + HA_BLOCK_DEVICE_LBA) s) (\<lambda>s.
     bindr (writel io (of_nat n) (ha_base_addr d + HA_BLOCK_DEVICE_COUNT) s) (\<lambda>s.
     bindr (writel io oper (ha_base_addr d + HA_BLOCK_DEVICE_OP) s) (\<lambda>s.
     poll_status io d polls s))))"

text \<open>
  \<open>read\<close>: the result, the bytes that reach user memory (there is room for \<open>room\<close>) and the new position.
  It copies as many bytes as were asked for before it asks the disk how many it has read.
\<close>

definition rabbitsha_chr_read :: "'s kernel_io \<Rightarrow> nat \<Rightarrow> nat \<Rightarrow> nat \<Rightarrow> int \<Rightarrow> rabbitsha_device \<Rightarrow> 's
    \<Rightarrow> ((int \<times> u8 list \<times> int) \<times> rabbitsha_device \<times> 's) res" where
  "rabbitsha_chr_read io polls room sz loff d s =
     (if ha_state d = 1 then Inr ((- ENXIO, [], loff), d, s)
      else if ha_state d = 3 then
        let sz = min sz BLOCK_DEVICE_DRV_BUF_SIZE in
        bindr (ha_transfer io polls d loff sz BLOCK_DEVICE_READ s) (\<lambda>(s, status).
        if status \<noteq> BLOCK_DEVICE_READ_SUCCESS then Inr ((- ENXIO, [], loff), d\<lparr>ha_state := 0\<rparr>, s)
        else
          bindr (buffer_get io d sz s) (\<lambda>bs.
          COPY_TO_USER room bs (\<lambda>cpy. Inr ((cpy, [], loff), d, s)) (\<lambda>us.
          bindr (readl io (ha_base_addr d + HA_BLOCK_DEVICE_COUNT) s) (\<lambda>(s, n).
          Inr ((int (unat n), us, loff + int (unat n)), d, s)))))
      else Inr ((- ENXIO, [], loff), d, s))"

text \<open>\<open>write\<close>: of the bytes in user memory, \<open>data\<close> can be read.\<close>

definition rabbitsha_chr_write :: "'s kernel_io \<Rightarrow> nat \<Rightarrow> u8 list \<Rightarrow> nat \<Rightarrow> int \<Rightarrow> rabbitsha_device \<Rightarrow> 's
    \<Rightarrow> ((int \<times> int) \<times> rabbitsha_device \<times> 's) res" where
  "rabbitsha_chr_write io polls data sz loff d s =
     (if ha_state d = 1 then Inr ((- ENXIO, loff), d, s)
      else if ha_state d = 3 then
        let sz = min sz BLOCK_DEVICE_DRV_BUF_SIZE in
        COPY_FROM_USER data sz (\<lambda>cpy. Inr ((cpy, loff), d, s)) (\<lambda>bs.
        bindr (buffer_put io d bs s) (\<lambda>s.
        bindr (ha_transfer io polls d loff sz BLOCK_DEVICE_WRITE s) (\<lambda>(s, status).
        if status \<noteq> BLOCK_DEVICE_WRITE_SUCCESS then Inr ((- ENXIO, loff), d\<lparr>ha_state := 0\<rparr>, s)
        else Inr ((int sz, loff + int sz), d, s))))
      else Inr ((- ENXIO, loff), d, s))"

text \<open>\<open>llseek\<close>: the result is also the new \<open>f_pos\<close>, when it is not an error.\<close>

definition rabbitsha_chr_llseek :: "'s kernel_io \<Rightarrow> int \<Rightarrow> nat \<Rightarrow> int \<Rightarrow> rabbitsha_device \<Rightarrow> 's
    \<Rightarrow> ((int \<times> int) \<times> rabbitsha_device \<times> 's) res" where
  "rabbitsha_chr_llseek io off whence f_pos d s =
     (if ha_state d = 1 then Inr ((- ENXIO, f_pos), d, s)
      else if whence = 0 then Inr ((off, off), d, s)
      else if whence = 1 then Inr ((f_pos + off, f_pos + off), d, s)
      else if whence = 2 then
        bindr (readl io (ha_base_addr d + HA_BLOCK_DEVICE_SIZE) s) (\<lambda>(s, n).
        Inr ((int (unat n) + off, int (unat n) + off), d, s))
      else Inr ((- EINVAL, f_pos), d, s))"

subsection \<open>The module\<close>

definition rabbitsha_dev_init :: "kernel_env \<Rightarrow> rabbitsha_device chr_driver \<Rightarrow> 's
    \<Rightarrow> (int \<times> rabbitsha_device chr_driver \<times> 's \<times> kernel_call list) res" where
  "rabbitsha_dev_init env drv s =
     (let idx = cd_nb_dev drv in
      bindr (rd (cd_devs drv) idx) (\<lambda>d.
      let d = d\<lparr>ha_state := 0, ha_buffer := ke_kmalloc env\<rparr>;
          drv = drv\<lparr>cd_nb_dev := idx + 1, cd_devs := (cd_devs drv)[idx := d]\<rparr>;
          base_addr = ke_ioremap env RABBITSHA_BASE_ADDRESS
      in if base_addr = 0 then Inr (- ENOMEM, drv, s, [])
         else
           let (ret, minor, ks) = chr_cdev_setup env drv idx;
               d = d\<lparr>ha_base_addr := base_addr, ha_minor := minor\<rparr>
           in Inr (0, drv\<lparr>cd_devs := (cd_devs drv)[idx := d]\<rparr>, s, ks)))"

definition rabbitsha_drv_init :: "kernel_env \<Rightarrow> 's \<Rightarrow> (int \<times> rabbitsha_device chr_driver \<times> 's \<times> kernel_call list) res" where
  "rabbitsha_drv_init env s = chr_drv_init RABBITSHA_MAXDEV rabbitsha_zero env (rabbitsha_dev_init env) s"

definition rabbitsha_dev_exit :: "int \<Rightarrow> rabbitsha_device \<Rightarrow> 's \<Rightarrow> (rabbitsha_device \<times> 's \<times> kernel_call list) res" where
  "rabbitsha_dev_exit major d s =
     Inr (d, s, [CdevDel major (ha_minor d), Iounmap (ha_base_addr d)] @ (if ha_buffer d \<noteq> 0 then [Kfree (ha_buffer d)] else []))"

definition rabbitsha_drv_cleanup :: "rabbitsha_device chr_driver \<Rightarrow> 's
    \<Rightarrow> (rabbitsha_device chr_driver \<times> 's \<times> kernel_call list) res" where
  "rabbitsha_drv_cleanup drv s = chr_drv_cleanup RABBITSHA_MAXDEV (rabbitsha_dev_exit (cd_major drv)) drv s"

end
