(* ===== verification/Host_Access_System.thy ===== *)
theory Host_Access_System
  imports Host_Access_Driver
begin

text \<open>
  The host access driver on the platform: its register accesses reach the disk, its buffer is in the memory
  behind the network, and while the disk's thread is at work the driver polls the status.
\<close>

subsection \<open>The disk as the driver sees it\<close>

text \<open>
  \<open>dh_busy\<close>: the thread of the disk is at work, and that many reads of a register come before it is done.
  What the thread does in between is seen by nobody else, so it is one step at the end.
\<close>

record disk_hw =
  dh_disk :: block_device
  dh_bus :: "slave_device \<times> mem_device"
  dh_busy :: "nat option"

text \<open>
  The rest of the platform: the end of the memory, the other rows of the address map, the number of slaves and the number of
  the memory, the files of the host, unspecified values, and how many reads an operation of the disk takes.
\<close>

record disk_conf =
  dc_ram_end :: ulong
  dc_rows :: "map_el list"
  dc_nslaves :: nat
  dc_ram :: nat
  dc_files :: "u8 list \<Rightarrow> u8 list option"
  dc_req :: vci_request
  dc_byte :: u8
  dc_rdata :: "u8 list"
  dc_delay :: nat

definition disk_bus :: "disk_conf \<Rightarrow> slave_device \<times> mem_device \<Rightarrow> vci_request \<Rightarrow> ((slave_device \<times> mem_device) \<times> vci_response) res" where
  "disk_bus cf = mem_bus (ram_row (dc_ram cf) (dc_ram_end cf) # dc_rows cf) (dc_nslaves cf) (dc_ram cf)"

definition with_regs :: "disk_hw \<Rightarrow> block_CSregs \<Rightarrow> disk_hw" where
  "with_regs h r = h\<lparr>dh_disk := (dh_disk h)\<lparr>bd_regs := r\<rparr>\<rparr>"

text \<open>When \<open>ev_op_start\<close> is notified the thread runs, and sets the status.\<close>

definition disk_store :: "disk_conf \<Rightarrow> ulong \<Rightarrow> u32 \<Rightarrow> disk_hw \<Rightarrow> disk_hw res" where
  "disk_store cf ofs v h =
     bindr (dev_store block_rcv_rqst (dc_req cf) ofs 4 v (bd_regs (dh_disk h))) (\<lambda>(r, es).
     Inr (if OpStart \<in> set es then (with_regs h (r\<lparr>cs_status := BLOCK_DEVICE_BUSY\<rparr>))\<lparr>dh_busy := Some (dc_delay cf)\<rparr>
          else with_regs h r))"

definition disk_advance :: "disk_conf \<Rightarrow> disk_hw \<Rightarrow> disk_hw res" where
  "disk_advance cf h = (case dh_busy h of
     None \<Rightarrow> Inr h
   | Some (Suc k) \<Rightarrow> Inr (h\<lparr>dh_busy := Some k\<rparr>)
   | Some 0 \<Rightarrow> bindr (control_thread (dc_files cf) (disk_bus cf) (dc_req cf) (dc_byte cf) (dh_disk h) (dh_bus h))
       (\<lambda>(d, b, es). Inr (h\<lparr>dh_disk := d, dh_bus := b, dh_busy := None\<rparr>)))"

definition disk_load :: "disk_conf \<Rightarrow> ulong \<Rightarrow> disk_hw \<Rightarrow> (disk_hw \<times> u32) res" where
  "disk_load cf ofs h =
     bindr (disk_advance cf h) (\<lambda>h.
     bindr (dev_load block_rcv_rqst (dc_req cf) (dc_rdata cf) ofs 4 (bd_regs (dh_disk h))) (\<lambda>(r, es, v).
     Inr (with_regs h r, v)))"

text \<open>An access outside the disk's row of the map, or of another width, is not one of this driver.\<close>

definition disk_io :: "disk_conf \<Rightarrow> disk_hw kernel_io" where
  "disk_io cf = \<lparr>
     readl = (\<lambda>a h. if RABBITSHA_BASE_ADDRESS \<le> a \<and> a < 0xA9100000 then disk_load cf (a - RABBITSHA_BASE_ADDRESS) h else Inl OutOfBounds),
     writel = (\<lambda>v a h. if RABBITSHA_BASE_ADDRESS \<le> a \<and> a < 0xA9100000 then disk_store cf (a - RABBITSHA_BASE_ADDRESS) v h else Inl OutOfBounds),
     readb = (\<lambda>a h. Inl OutOfBounds), writeb = (\<lambda>v a h. Inl OutOfBounds),
     mem_get = (\<lambda>a n h. rd_bytes (md_mem (snd (dh_bus h))) (unat a) n),
     mem_put = (\<lambda>a bs h. bindr (wr_bytes (md_mem (snd (dh_bus h))) (unat a) bs) (\<lambda>m.
        Inr (h\<lparr>dh_bus := (fst (dh_bus h), (snd (dh_bus h))\<lparr>md_mem := m\<rparr>)\<rparr>)))\<rparr>"

subsection \<open>Register accesses\<close>

lemma block_reg_index_eq: "block_reg_index = reg_index"
  by (simp add: fun_eq_iff block_reg_index_def reg_index_def Let_def)

lemma disk_store_buffer: "dev_store block_rcv_rqst junk 0 4 v r = Inr (r\<lparr>cs_buffer := v\<rparr>, [])"
  by (rule dev_store_word [where bErr = False]) (simp_all add: block_rcv_rqst_def block_write_def block_reg_index_eq block_regs)

lemma disk_store_lba: "dev_store block_rcv_rqst junk 4 4 v r = Inr (r\<lparr>cs_lba := v\<rparr>, [])"
  by (rule dev_store_word [where bErr = False]) (simp_all add: block_rcv_rqst_def block_write_def block_reg_index_eq block_regs)

lemma disk_store_count: "dev_store block_rcv_rqst junk 8 4 v r = Inr (r\<lparr>cs_count := v\<rparr>, [])"
  by (rule dev_store_word [where bErr = False]) (simp_all add: block_rcv_rqst_def block_write_def block_reg_index_eq block_regs)

lemma disk_store_op:
  "cs_status r = BLOCK_DEVICE_IDLE \<Longrightarrow> dev_store block_rcv_rqst junk 12 4 v r = Inr (r\<lparr>cs_op := v\<rparr>, [OpStart])"
  by (rule dev_store_word [where bErr = False]) (simp_all add: block_rcv_rqst_def block_write_def block_reg_index_eq block_regs)

lemma disk_load_status:
  assumes "length rdata = 8"
  shows "dev_load block_rcv_rqst junk rdata 16 4 r =
    (if cs_status r = BLOCK_DEVICE_BUSY then Inr (r, [], cs_status r)
     else Inr (r\<lparr>cs_status := BLOCK_DEVICE_IDLE, cs_irq := 0\<rparr>, [BlockIrqUpdate], cs_status r))"
  by (auto intro!: dev_load_word [where bErr = False] simp: assms block_rcv_rqst_def block_read_def block_reg_index_eq block_regs)

lemma disk_load_count: "length rdata = 8 \<Longrightarrow> dev_load block_rcv_rqst junk rdata 8 4 r = Inr (r, [], cs_count r)"
  by (rule dev_load_word [where bErr = False]) (simp_all add: block_rcv_rqst_def block_read_def block_reg_index_eq block_regs)

lemma disk_load_size: "length rdata = 8 \<Longrightarrow> dev_load block_rcv_rqst junk rdata 0x18 4 r = Inr (r, [], cs_size r)"
  by (rule dev_load_word [where bErr = False]) (simp_all add: block_rcv_rqst_def block_read_def block_reg_index_eq block_regs)

lemmas disk_accesses = disk_store_buffer disk_store_lba disk_store_count disk_store_op disk_load_status disk_load_count disk_load_size

lemma disk_addresses:
  "readl (disk_io cf) (RABBITSHA_BASE_ADDRESS + 0x10) = disk_load cf 0x10"
  "readl (disk_io cf) (RABBITSHA_BASE_ADDRESS + 8) = disk_load cf 8"
  "readl (disk_io cf) (RABBITSHA_BASE_ADDRESS + 0x18) = disk_load cf 0x18"
  "writel (disk_io cf) v (RABBITSHA_BASE_ADDRESS + 0) = disk_store cf 0 v"
  "writel (disk_io cf) v (RABBITSHA_BASE_ADDRESS + 4) = disk_store cf 4 v"
  "writel (disk_io cf) v (RABBITSHA_BASE_ADDRESS + 8) = disk_store cf 8 v"
  "writel (disk_io cf) v (RABBITSHA_BASE_ADDRESS + 12) = disk_store cf 12 v"
  by (simp_all add: disk_io_def RABBITSHA_BASE_ADDRESS_def fun_eq_iff)

subsection \<open>A transfer\<close>

text \<open>The driver and the disk between two system calls, with a file open.\<close>

definition disk_ready :: "disk_conf \<Rightarrow> rabbitsha_device \<Rightarrow> disk_hw \<Rightarrow> bool" where
  "disk_ready cf dev h \<longleftrightarrow> mem_bus_inv (dc_nslaves cf) (dc_ram cf) (dc_ram_end cf) (dh_bus h) \<and> length (dc_rdata cf) = 8
     \<and> dh_busy h = None \<and> cs_block_size (bd_regs (dh_disk h)) = 1 \<and> cs_status (bd_regs (dh_disk h)) = BLOCK_DEVICE_IDLE
     \<and> bm_ok (bd_master (dh_disk h)) \<and> ha_base_addr dev = RABBITSHA_BASE_ADDRESS \<and> ha_buffer dev \<noteq> 0
     \<and> unat (ha_buffer dev) mod 4 = 0 \<and> unat (ha_buffer dev) + 1024 \<le> ram_limit (dc_ram_end cf)
     \<and> unat (ha_buffer dev) + 1028 < 2 ^ 32"

text \<open>The state of the disk when its thread begins.\<close>

definition disk_programmed :: "rabbitsha_device \<Rightarrow> int \<Rightarrow> nat \<Rightarrow> u32 \<Rightarrow> block_device \<Rightarrow> block_device" where
  "disk_programmed dev loff n oper d = d\<lparr>bd_regs := (bd_regs d)\<lparr>cs_buffer := ha_buffer dev, cs_lba := of_int loff,
     cs_count := of_nat n, cs_op := oper, cs_status := BLOCK_DEVICE_BUSY\<rparr>\<rparr>"

definition disk_answered :: "block_device \<Rightarrow> block_device" where
  "disk_answered d = d\<lparr>bd_regs := (bd_regs d)\<lparr>cs_status := BLOCK_DEVICE_IDLE, cs_irq := 0\<rparr>\<rparr>"

lemma poll_ok:
  assumes "control_thread (dc_files cf) (disk_bus cf) (dc_req cf) (dc_byte cf) (dh_disk h) (dh_bus h) = Inr (d, b, es)"
    and "cs_status (bd_regs d) \<noteq> BLOCK_DEVICE_BUSY" "cs_status (bd_regs (dh_disk h)) = BLOCK_DEVICE_BUSY"
    and "length (dc_rdata cf) = 8" "ha_base_addr dev = RABBITSHA_BASE_ADDRESS" "dh_busy h = Some k" "k < polls"
  shows "poll_status (disk_io cf) dev polls h
    = Inr (\<lparr>dh_disk = disk_answered d, dh_bus = b, dh_busy = None\<rparr>, cs_status (bd_regs d))"
  using assms(1,3,6,7)
proof (induction k arbitrary: h polls)
  case 0
  then obtain m where "polls = Suc m" by (cases polls) auto
  then show ?case using 0 assms(2,4,5)
    by (simp add: HA_BLOCK_DEVICE_STATUS_def disk_addresses disk_load_def disk_advance_def disk_load_status with_regs_def disk_answered_def)
next
  case (Suc k)
  then obtain m where m: "polls = Suc m" "k < m" by (cases polls) auto
  have "poll_status (disk_io cf) dev m (h\<lparr>dh_busy := Some k\<rparr>)
      = Inr (\<lparr>dh_disk = disk_answered d, dh_bus = b, dh_busy = None\<rparr>, cs_status (bd_regs d))"
    using Suc.IH [of "h\<lparr>dh_busy := Some k\<rparr>" m] Suc.prems m(2) by simp
  then show ?case using Suc.prems m(1) assms(4,5)
    by (simp add: HA_BLOCK_DEVICE_STATUS_def disk_addresses disk_load_def disk_advance_def disk_load_status with_regs_def)
qed

lemma ha_transfer_ok:
  assumes r: "disk_ready cf dev h" and "dc_delay cf < polls"
    and "control_thread (dc_files cf) (disk_bus cf) (dc_req cf) (dc_byte cf) (disk_programmed dev loff n oper (dh_disk h)) (dh_bus h)
      = Inr (d, b, es)" "cs_status (bd_regs d) \<noteq> BLOCK_DEVICE_BUSY"
  shows "ha_transfer (disk_io cf) polls dev loff n oper h
    = Inr (\<lparr>dh_disk = disk_answered d, dh_bus = b, dh_busy = None\<rparr>, cs_status (bd_regs d))"
proof -
  let ?h = "h\<lparr>dh_disk := disk_programmed dev loff n oper (dh_disk h), dh_busy := Some (dc_delay cf)\<rparr>"
  have "poll_status (disk_io cf) dev polls ?h
      = Inr (\<lparr>dh_disk = disk_answered d, dh_bus = b, dh_busy = None\<rparr>, cs_status (bd_regs d))"
    by (rule poll_ok [where k = "dc_delay cf"]) (use assms in \<open>simp_all add: disk_ready_def disk_programmed_def\<close>)
  moreover have "ha_transfer (disk_io cf) polls dev loff n oper h = poll_status (disk_io cf) dev polls ?h"
    using r by (simp add: ha_transfer_def ha_regs disk_ready_def disk_addresses [simplified] disk_store_def disk_accesses
        with_regs_def disk_programmed_def)
  ultimately show ?thesis by simp
qed

text \<open>Kernel accesses to the buffer, in the memory of the platform.\<close>

lemma mem_view_length: "mem_bus_inv ns s e b \<Longrightarrow> ram_limit e \<le> length (md_mem (snd b))"
  using ram_limit_le [of e] by (auto simp: mem_bus_inv_def mem_inv_def word_le_nat_alt)

lemma buffer_put_ok:
  assumes r: "disk_ready cf dev h" and l: "length bs \<le> 1024"
  shows "\<exists>b. buffer_put (disk_io cf) dev bs h = Inr (h\<lparr>dh_bus := b\<rparr>)
    \<and> mem_bus_inv (dc_nslaves cf) (dc_ram cf) (dc_ram_end cf) b
    \<and> mem_view b = stored (unat (ha_buffer dev)) bs (mem_view (dh_bus h))"
proof -
  obtain sd mem where b: "dh_bus h = (sd, mem)" by (cases "dh_bus h")
  have v: "mem_bus_inv (dc_nslaves cf) (dc_ram cf) (dc_ram_end cf) (sd, mem)" using r b by (simp add: disk_ready_def)
  have fits: "unat (ha_buffer dev) + length bs \<le> length (md_mem mem)"
    using r l mem_view_length [OF v] by (simp add: disk_ready_def)
  define b' where "b' = (sd, mem\<lparr>md_mem := put_bytes (md_mem mem) (unat (ha_buffer dev)) bs\<rparr>)"
  have "buffer_put (disk_io cf) dev bs h = Inr (h\<lparr>dh_bus := b'\<rparr>)"
    using r l fits by (simp add: buffer_put_def disk_io_def disk_ready_def BLOCK_DEVICE_DRV_BUF_SIZE_def b wr_bytes_def b'_def)
  moreover have "mem_bus_inv (dc_nslaves cf) (dc_ram cf) (dc_ram_end cf) b'"
    using v fits by (simp add: b'_def mem_bus_inv_def mem_inv_def)
  moreover have "mem_view b' = stored (unat (ha_buffer dev)) bs (mem_view (sd, mem))"
    unfolding b'_def by (rule mem_view_put) (rule fits)
  ultimately show ?thesis unfolding b by blast
qed

lemma buffer_get_ok:
  assumes r: "disk_ready cf dev h" and l: "n \<le> 1024"
  shows "buffer_get (disk_io cf) dev n h = Inr (map (\<lambda>j. mem_view (dh_bus h) (unat (ha_buffer dev) + j)) [0..<n])"
proof -
  have v: "mem_bus_inv (dc_nslaves cf) (dc_ram cf) (dc_ram_end cf) (dh_bus h)" using r by (simp add: disk_ready_def)
  have fits: "unat (ha_buffer dev) + n \<le> length (md_mem (snd (dh_bus h)))"
    using r l mem_view_length [OF v] by (simp add: disk_ready_def)
  then have "take n (drop (unat (ha_buffer dev)) (md_mem (snd (dh_bus h))))
      = map (\<lambda>j. mem_view (dh_bus h) (unat (ha_buffer dev) + j)) [0..<n]"
    by (intro nth_equalityI) (auto simp: mem_view_def)
  then show ?thesis
    using r l fits by (simp add: buffer_get_def disk_io_def disk_ready_def BLOCK_DEVICE_DRV_BUF_SIZE_def rd_bytes_def)
qed

subsection \<open>Files of the host\<close>

lemma programmed_xfer:
  assumes "disk_ready cf dev h" "bd_file (dh_disk h) = Some f" "0 \<le> loff" "loff < 2 ^ 31" "n \<le> 1024"
  shows "xfer_ok (ram_limit (dc_ram_end cf)) (disk_programmed dev loff n oper (dh_disk h))"
    "xfer_size (bd_regs (disk_programmed dev loff n oper (dh_disk h))) = n"
    "xfer_pos (bd_regs (disk_programmed dev loff n oper (dh_disk h))) = nat loff"
proof -
  have p: "unat (of_int loff :: u32) = nat loff"
  proof -
    have "uint (of_int loff :: u32) = loff" using assms(3,4) by (simp add: unsigned_of_int take_bit_int_eq_self)
    then show ?thesis by (metis nat_uint_eq)
  qed
  have s: "unat (of_nat n :: u32) = n" using assms(5) by (simp add: unsigned_of_nat take_bit_nat_eq_self)
  show "xfer_size (bd_regs (disk_programmed dev loff n oper (dh_disk h))) = n"
    "xfer_pos (bd_regs (disk_programmed dev loff n oper (dh_disk h))) = nat loff"
    using assms(1) s p by (simp_all add: xfer_size_def xfer_pos_def disk_programmed_def disk_ready_def)
  then show "xfer_ok (ram_limit (dc_ram_end cf)) (disk_programmed dev loff n oper (dh_disk h))"
    using assms by (simp add: xfer_ok_def xfer_pos_def disk_programmed_def disk_ready_def)
qed

text \<open>
  A \<open>write\<close> of the host access driver puts the program's bytes into the file of the host: of the bytes asked for,
  at most 1024, all are written at the position of the file and no other byte of the file
  changes, the result is their number and the position moves past them; this goes through the driver's buffer in memory,
  its register accesses, the transfer of the disk over the network and the polling of the status, however
  long the disk takes.
\<close>
lemma host_write_ok:
  assumes "disk_ready cf dev h" "bd_file (dh_disk h) = Some f" "ha_state dev = 3" "dc_delay cf < polls"
    and "0 < sz" "min sz 1024 \<le> length data" "0 \<le> loff" "loff < 2 ^ 31"
  shows "\<exists>h'. rabbitsha_chr_write (disk_io cf) polls data sz loff dev h
      = Inr ((int (min sz 1024), loff + int (min sz 1024)), dev, h')
    \<and> bd_file (dh_disk h') = Some (file_put f (nat loff) (take (min sz 1024) data)) \<and> disk_ready cf dev h'"
proof -
  define n where "n = min sz 1024"
  have n: "n \<le> 1024" "0 < n" "n \<le> length data" using assms(5,6) by (simp_all add: n_def)
  have l: "length (take n data) \<le> 1024" using n by simp
  from buffer_put_ok [OF assms(1) l] obtain b where
    b: "buffer_put (disk_io cf) dev (take n data) h = Inr (h\<lparr>dh_bus := b\<rparr>)"
      "mem_bus_inv (dc_nslaves cf) (dc_ram cf) (dc_ram_end cf) b"
      "mem_view b = stored (unat (ha_buffer dev)) (take n data) (mem_view (dh_bus h))" by blast
  let ?h = "h\<lparr>dh_bus := b\<rparr>" and ?d = "disk_programmed dev loff n BLOCK_DEVICE_WRITE (dh_disk h)"
  have r: "disk_ready cf dev ?h" using assms(1) b(2) by (simp add: disk_ready_def)
  have f: "bd_file (dh_disk ?h) = Some f" using assms(2) by simp
  note x = programmed_xfer [OF r f assms(7,8) n(1), of BLOCK_DEVICE_WRITE, simplified]
  have pos: "0 < xfer_size (bd_regs ?d)" using x(2) n(2) by simp
  from ram_bus.control_write_ok [OF b(2) x(1) pos, of "dc_rows cf" "dc_req cf" "dc_byte cf"] obtain d' b' es where
    c: "control_write (disk_bus cf) (dc_req cf) (dc_byte cf) ?d b = Inr (d', b', es)"
      "mem_bus_inv (dc_nslaves cf) (dc_ram cf) (dc_ram_end cf) b'"
      "bd_file d' = Some (file_put (the (bd_file ?d)) (nat loff) (map (\<lambda>j. mem_view b (unat (cs_buffer (bd_regs ?d)) + j)) [0..<n]))"
      "cs_status (bd_regs d') = BLOCK_DEVICE_WRITE_SUCCESS" "bm_ok (bd_master d')"
      "cs_block_size (bd_regs d') = cs_block_size (bd_regs ?d)"
    unfolding disk_bus_def x(2,3) by blast
  have bs: "cs_block_size (bd_regs d') = 1" using c(6) assms(1) by (simp add: disk_ready_def disk_programmed_def)
  have ct: "control_thread (dc_files cf) (disk_bus cf) (dc_req cf) (dc_byte cf) ?d b = Inr (d', b', es)"
    using c(1) by (simp add: control_thread_def disk_programmed_def block_ops)
  have nb: "cs_status (bd_regs d') \<noteq> BLOCK_DEVICE_BUSY" using c(4) by (simp add: block_states)
  let ?h' = "\<lparr>dh_disk = disk_answered d', dh_bus = b', dh_busy = None\<rparr>"
  have t: "ha_transfer (disk_io cf) polls dev loff n BLOCK_DEVICE_WRITE ?h = Inr (?h', BLOCK_DEVICE_WRITE_SUCCESS)"
    using ha_transfer_ok [OF r assms(4) _ nb] ct c(4) by simp
  have bytes: "map (\<lambda>j. mem_view b (unat (ha_buffer dev) + j)) [0..<n] = take n data"
    using n by (intro nth_equalityI) (auto simp: b(3) stored_def)
  have "rabbitsha_chr_write (disk_io cf) polls data sz loff dev h = Inr ((int n, loff + int n), dev, ?h')"
    using assms(3) n b(1) t by (simp add: rabbitsha_chr_write_def BLOCK_DEVICE_DRV_BUF_SIZE_def n_def [symmetric] Let_def)
  moreover have "bd_file (dh_disk ?h') = Some (file_put f (nat loff) (take n data))"
    using c(3) bytes assms(2) by (simp add: disk_answered_def disk_programmed_def)
  moreover have "disk_ready cf dev ?h'"
    using r c(2,5) bs by (simp add: disk_ready_def disk_answered_def)
  ultimately show ?thesis unfolding n_def by blast
qed

text \<open>
  A \<open>read\<close> returns the bytes of the file at the position, as many as there are, and leaves the file alone. The tail of
  fewer than four bytes is only read right when the disk's last read of memory was of one byte at most.
\<close>

lemma host_read_ok:
  assumes "disk_ready cf dev h" "bd_file (dh_disk h) = Some f" "ha_state dev = 3" "dc_delay cf < polls"
    and "min sz 1024 \<le> room" "0 \<le> loff" "loff < 2 ^ 31" and p: "p = take (min sz 1024) (drop (nat loff) f)"
    and "unat (bm_tr_nbytes (bd_master (dh_disk h))) \<le> 1 \<or> length p mod 4 = 0"
  shows "\<exists>h' us. rabbitsha_chr_read (disk_io cf) polls room sz loff dev h
      = Inr ((int (length p), us, loff + int (length p)), dev, h') \<and> length us = min sz 1024 \<and> take (length p) us = p
    \<and> bd_file (dh_disk h') = Some f \<and> disk_ready cf dev h'"
proof -
  define n where "n = min sz 1024"
  have n: "n \<le> 1024" "n \<le> room" using assms(5) by (simp_all add: n_def)
  let ?d = "disk_programmed dev loff n BLOCK_DEVICE_READ (dh_disk h)"
  note x = programmed_xfer [OF assms(1,2,6,7) n(1), of BLOCK_DEVICE_READ]
  have "bd_file ?d = Some f" using assms(2) by (simp add: disk_programmed_def)
  then have fp: "file_part ?d = p" by (simp only: file_part_def x(2,3) option.sel) (simp add: p n_def)
  have inv: "mem_bus_inv (dc_nslaves cf) (dc_ram cf) (dc_ram_end cf) (dh_bus h)" using assms(1) by (simp add: disk_ready_def)
  have tail: "unat (bm_tr_nbytes (bd_master ?d)) \<le> 1 \<or> length (file_part ?d) mod 4 = 0"
    using assms(9) by (simp add: fp) (simp add: disk_programmed_def)
  from ram_bus.control_read_ok [OF inv x(1) tail_fits_simple [OF tail], of "dc_rows cf" "dc_req cf" "dc_byte cf", unfolded fp] obtain d' b' es where
    c: "control_read (disk_bus cf) (dc_req cf) (dc_byte cf) ?d (dh_bus h) = Inr (d', b', es)"
      "mem_bus_inv (dc_nslaves cf) (dc_ram cf) (dc_ram_end cf) b'"
      "mem_view b' = stored (unat (cs_buffer (bd_regs ?d))) p (mem_view (dh_bus h))"
      "cs_status (bd_regs d') = BLOCK_DEVICE_READ_SUCCESS" "cs_count (bd_regs d') = of_nat (length p) div cs_block_size (bd_regs ?d)"
      "bd_file d' = bd_file ?d" "bm_ok (bd_master d')" "cs_block_size (bd_regs d') = cs_block_size (bd_regs ?d)"
    unfolding disk_bus_def by blast
  have ct: "control_thread (dc_files cf) (disk_bus cf) (dc_req cf) (dc_byte cf) ?d (dh_bus h) = Inr (d', b', es)"
    using c(1) by (simp add: control_thread_def disk_programmed_def block_ops)
  have nb: "cs_status (bd_regs d') \<noteq> BLOCK_DEVICE_BUSY" using c(4) by (simp add: block_states)
  let ?h' = "\<lparr>dh_disk = disk_answered d', dh_bus = b', dh_busy = None\<rparr>"
  have t: "ha_transfer (disk_io cf) polls dev loff n BLOCK_DEVICE_READ h = Inr (?h', BLOCK_DEVICE_READ_SUCCESS)"
    using ha_transfer_ok [OF assms(1,4) ct nb] c(4) by simp
  have b1: "cs_block_size (bd_regs ?d) = 1" using assms(1) by (simp add: disk_ready_def disk_programmed_def)
  have r: "disk_ready cf dev ?h'" using assms(1) c(2,7,8) b1 by (simp add: disk_ready_def disk_answered_def)
  define us where "us = map (\<lambda>j. mem_view b' (unat (ha_buffer dev) + j)) [0..<n]"
  have us: "buffer_get (disk_io cf) dev n ?h' = Inr us" using buffer_get_ok [OF r n(1)] by (simp add: us_def)
  have lp: "length p \<le> n" unfolding p n_def length_take by linarith
  have tk: "take (length p) us = p"
    using lp by (intro nth_equalityI) (auto simp: us_def c(3) stored_def disk_programmed_def)
  have cnt: "cs_count (bd_regs d') = of_nat (length p)" "unat (of_nat (length p) :: u32) = length p"
    using c(5) b1 lp n(1) by (simp_all add: unsigned_of_nat take_bit_nat_eq_self)
  have ld: "readl (disk_io cf) (ha_base_addr dev + HA_BLOCK_DEVICE_COUNT) ?h' = Inr (?h', of_nat (length p))"
    using assms(1) cnt by (simp add: disk_ready_def HA_BLOCK_DEVICE_COUNT_def disk_addresses disk_load_def disk_advance_def disk_load_count
        with_regs_def disk_answered_def)
  have lu: "length us = n" "uint (of_nat (length p) :: u32) = int (length p)"
    using cnt(2) by (simp_all add: us_def) (metis uint_nat)
  have "rabbitsha_chr_read (disk_io cf) polls room sz loff dev h = Inr ((int (length p), us, loff + int (length p)), dev, ?h')"
    using assms(3) t us ld cnt lu n(2)
    by (simp add: rabbitsha_chr_read_def BLOCK_DEVICE_DRV_BUF_SIZE_def n_def [symmetric] Let_def)
  moreover have "bd_file (dh_disk ?h') = Some f" using c(6) assms(2) by (simp add: disk_answered_def disk_programmed_def)
  ultimately show ?thesis using lu tk r unfolding n_def by blast
qed

text \<open>
  Claim C2. What a program writes through the host access driver it reads back: after a \<open>write\<close> of up to 1024 bytes, a
  multiple of four, a \<open>read\<close> of as many from the same position returns them and moves the position past them, through
  the driver, the disk, the network and the memory, and the file of the host holds them in between and after.
\<close>
theorem host_write_then_read:
  assumes "disk_ready cf dev h" "bd_file (dh_disk h) = Some f" "ha_state dev = 3" "dc_delay cf < polls"
    and "0 < length data" "length data \<le> 1024" "length data mod 4 = 0" "0 \<le> loff" "loff < 2 ^ 31" "length data \<le> room"
  shows "\<exists>h1 h2. rabbitsha_chr_write (disk_io cf) polls data (length data) loff dev h
      = Inr ((int (length data), loff + int (length data)), dev, h1)
    \<and> rabbitsha_chr_read (disk_io cf) polls room (length data) loff dev h1
      = Inr ((int (length data), data, loff + int (length data)), dev, h2)
    \<and> bd_file (dh_disk h1) = Some (file_put f (nat loff) data) \<and> bd_file (dh_disk h2) = bd_file (dh_disk h1)"
proof -
  from host_write_ok [OF assms(1-4,5) _ assms(8,9), where data = data] assms(6) obtain h1 where
    1: "rabbitsha_chr_write (disk_io cf) polls data (length data) loff dev h
        = Inr ((int (length data), loff + int (length data)), dev, h1)"
      "bd_file (dh_disk h1) = Some (file_put f (nat loff) data)" "disk_ready cf dev h1" by auto
  have p: "data = take (min (length data) 1024) (drop (nat loff) (file_put f (nat loff) data))"
    using assms(6) file_part_put [of data "nat loff" f] by simp
  have room: "min (length data) 1024 \<le> room" using assms(10) by simp
  from host_read_ok [OF 1(3,2) assms(3,4) room assms(8,9) p] assms(6,7) obtain h2 us where
    "rabbitsha_chr_read (disk_io cf) polls room (length data) loff dev h1
      = Inr ((int (length data), us, loff + int (length data)), dev, h2)" "length us = length data" "take (length data) us = data"
      "bd_file (dh_disk h2) = Some (file_put f (nat loff) data)" by auto
  with 1 show ?thesis by auto
qed

subsection \<open>Opening a file\<close>

text \<open>The name a program gives: up to the end of the line or of the string, without the spaces at the end.\<close>

definition rstrip :: "u8 list \<Rightarrow> u8 list" where
  "rstrip xs = rev (dropWhile (\<lambda>b. b = 0x20) (rev xs))"

definition first_line :: "u8 list \<Rightarrow> u8 list" where
  "first_line xs = takeWhile (\<lambda>b. b \<noteq> 0x0A \<and> b \<noteq> 0) xs"

lemma end_of_line_ok:
  "\<exists>b\<in>set (drop j buf). b = 0x0A \<or> b = 0 \<Longrightarrow> end_of_line buf j = Inr (j + length (first_line (drop j buf)))"
proof (induction buf j rule: end_of_line.induct)
  case (1 buf i)
  from 1(2) have i: "i < length buf" by (cases "i < length buf") auto
  then have d: "drop i buf = buf ! i # drop (Suc i) buf" by (simp add: Cons_nth_drop_Suc)
  show ?case
  proof (cases "buf ! i = 0x0A \<or> buf ! i = 0")
    case True
    then show ?thesis using i d by (auto simp: end_of_line.simps [of buf] first_line_def)
  next
    case False
    with 1(2) d have "\<exists>b\<in>set (drop (i + 1) buf). b = 0x0A \<or> b = 0" by auto
    from 1(1) [OF i False this] False i d show ?thesis by (auto simp: end_of_line.simps [of buf] first_line_def)
  qed
qed

lemma c_string_append: "0 \<notin> set xs \<Longrightarrow> c_string (xs @ 0 # ys) = xs"
  by (simp add: c_string_def) (subst takeWhile_append2, auto)

lemma rstrip_snoc: "rstrip (xs @ [x]) = (if x = 0x20 then rstrip xs else xs @ [x])"
  by (simp add: rstrip_def)

lemma cut_spaces_ok:
  "0 \<notin> set xs \<Longrightarrow> \<exists>zs. cut_spaces (xs @ 0 # ys) (length xs) = rstrip xs @ 0 # zs \<and> length (rstrip xs @ 0 # zs) = length (xs @ 0 # ys)"
proof (induction xs arbitrary: ys rule: rev_induct)
  case Nil
  then show ?case by (simp add: rstrip_def)
next
  case (snoc x xs)
  show ?case
  proof (cases "x = 0x20")
    case True
    from snoc.IH [of "0 # ys"] snoc.prems obtain zs where
      "cut_spaces (xs @ 0 # 0 # ys) (length xs) = rstrip xs @ 0 # zs" "length (rstrip xs @ 0 # zs) = length (xs @ 0 # 0 # ys)"
      by auto
    then show ?thesis using True by (simp add: rstrip_snoc nth_append list_update_append)
  next
    case False
    then show ?thesis by (simp add: rstrip_snoc nth_append)
  qed
qed

text \<open>The buffer after the loops of \<open>open_host_file\<close>.\<close>

lemma host_name_in_buffer:
  assumes "\<exists>b\<in>set us. b = 0x0A \<or> b = 0" "buf = us @ more'"
  shows "\<exists>i zs. end_of_line buf 0 = Inr i \<and> cut_spaces (buf[i := 0]) (strlen (buf[i := 0])) = rstrip (first_line us) @ 0 # zs
    \<and> length (rstrip (first_line us) @ 0 # zs) = length buf \<and> 0 \<notin> set (rstrip (first_line us))"
proof -
  define xs where "xs = first_line us"
  have "\<exists>b\<in>set (drop 0 buf). b = 0x0A \<or> b = 0" using assms by auto
  from end_of_line_ok [OF this] have eol: "end_of_line buf 0 = Inr (length (first_line buf))" by simp
  have fl: "first_line buf = xs" using assms unfolding first_line_def xs_def by (auto simp: takeWhile_append1)
  have nz: "0 \<notin> set xs" by (auto simp: xs_def first_line_def dest: set_takeWhileD)
  have l: "length xs < length us"
    using assms(1) unfolding xs_def first_line_def by (induction us) auto
  have "buf = xs @ drop (length xs) buf" using fl by (metis append_take_drop_id first_line_def takeWhile_eq_take)
  moreover obtain c cs where "drop (length xs) buf = c # cs" using l assms(2) by (cases "drop (length xs) buf") auto
  ultimately have e: "buf[length xs := 0] = xs @ 0 # cs" "length buf = length (xs @ 0 # cs)"
    by (metis list_update_length, metis length_append length_Cons)
  have st: "strlen (xs @ 0 # cs) = length xs" using nz by (simp add: strlen_def c_string_append)
  from cut_spaces_ok [OF nz, of cs] obtain zs where
    z: "cut_spaces (xs @ 0 # cs) (length xs) = rstrip xs @ 0 # zs" "length (rstrip xs @ 0 # zs) = length (xs @ 0 # cs)" by blast
  have "0 \<notin> set (rstrip xs)" using nz by (auto simp: rstrip_def dest: set_dropWhileD)
  then show ?thesis using eol fl e st z unfolding xs_def by auto
qed

lemma stored_prefix:
  "k \<le> length bs \<Longrightarrow> map (\<lambda>j. stored a bs v (a + j)) [0..<k] = take k bs"
  by (intro nth_equalityI) (auto simp: stored_def)

text \<open>The name on its way: into the cleared buffer, cut there, and stored back with its end.\<close>

lemma host_name_put:
  assumes r: "disk_ready cf dev h" and us: "\<exists>b\<in>set us. b = 0x0A \<or> b = 0" "length us \<le> 1024" and nm: "nm = rstrip (first_line us)"
  obtains b0 b1 b2 buf i zs where "buffer_put (disk_io cf) dev [0] h = Inr (h\<lparr>dh_bus := b0\<rparr>)"
    and "buffer_put (disk_io cf) dev us (h\<lparr>dh_bus := b0\<rparr>) = Inr (h\<lparr>dh_bus := b1\<rparr>)"
    and "buffer_get (disk_io cf) dev 1024 (h\<lparr>dh_bus := b1\<rparr>) = Inr buf" "end_of_line buf 0 = Inr i"
    and "cut_spaces (buf[i := 0]) (strlen (buf[i := 0])) = nm @ 0 # zs" "0 \<notin> set nm" "length nm + 1 \<le> 1024"
    and "buffer_put (disk_io cf) dev (nm @ 0 # zs) (h\<lparr>dh_bus := b1\<rparr>) = Inr (h\<lparr>dh_bus := b2\<rparr>)"
    and "mem_bus_inv (dc_nslaves cf) (dc_ram cf) (dc_ram_end cf) b2"
    and "map (\<lambda>j. mem_view b2 (unat (ha_buffer dev) + j)) [0..<length nm + 1] = nm @ [0]"
proof -
  let ?a = "unat (ha_buffer dev)"
  from buffer_put_ok [OF r, of "[0]"] obtain b0 where b0: "buffer_put (disk_io cf) dev [0] h = Inr (h\<lparr>dh_bus := b0\<rparr>)"
    "mem_bus_inv (dc_nslaves cf) (dc_ram cf) (dc_ram_end cf) b0" by auto
  have r0: "disk_ready cf dev (h\<lparr>dh_bus := b0\<rparr>)" using r b0(2) by (simp add: disk_ready_def)
  from buffer_put_ok [OF r0 us(2)] obtain b1 where
    b1: "buffer_put (disk_io cf) dev us (h\<lparr>dh_bus := b0\<rparr>) = Inr (h\<lparr>dh_bus := b1\<rparr>)"
      "mem_bus_inv (dc_nslaves cf) (dc_ram cf) (dc_ram_end cf) b1" "mem_view b1 = stored ?a us (mem_view b0)" by auto
  have r1: "disk_ready cf dev (h\<lparr>dh_bus := b1\<rparr>)" using r b1(2) by (simp add: disk_ready_def)
  define buf where "buf = map (\<lambda>j. mem_view b1 (?a + j)) [0..<1024]"
  have g: "buffer_get (disk_io cf) dev 1024 (h\<lparr>dh_bus := b1\<rparr>) = Inr buf" using buffer_get_ok [OF r1] by (simp add: buf_def)
  have "take (length us) buf = us" using us(2) stored_prefix [of "length us" us ?a] by (simp add: buf_def take_map b1(3))
  then have be: "buf = us @ drop (length us) buf" by (metis append_take_drop_id)
  from host_name_in_buffer [OF us(1) be] obtain i zs where
    z: "end_of_line buf 0 = Inr i" "cut_spaces (buf[i := 0]) (strlen (buf[i := 0])) = nm @ 0 # zs"
      "length (nm @ 0 # zs) = 1024" "0 \<notin> set nm" unfolding nm [symmetric] by (auto simp: buf_def)
  from buffer_put_ok [OF r1, of "nm @ 0 # zs"] z(3) obtain b2 where
    b2: "buffer_put (disk_io cf) dev (nm @ 0 # zs) (h\<lparr>dh_bus := b1\<rparr>) = Inr (h\<lparr>dh_bus := b2\<rparr>)"
      "mem_bus_inv (dc_nslaves cf) (dc_ram cf) (dc_ram_end cf) b2" "mem_view b2 = stored ?a (nm @ 0 # zs) (mem_view b1)" by auto
  have "map (\<lambda>j. mem_view b2 (?a + j)) [0..<length nm + 1] = nm @ [0]"
    using stored_prefix [of "length nm + 1" "nm @ 0 # zs" ?a "mem_view b1"] by (simp add: b2(3))
  from that [OF b0(1) b1(1) g z(1,2,4) _ b2(1,2) this] z(3) show thesis by simp
qed

text \<open>The disk opens the file whose name is in the buffer, and the poll ends with its answer.\<close>

lemma named_file_opened:
  assumes r: "disk_ready cf dev h" and b: "mem_bus_inv (dc_nslaves cf) (dc_ram cf) (dc_ram_end cf) b" and delay: "dc_delay cf < polls"
    and nm: "map (\<lambda>j. mem_view b (unat (ha_buffer dev) + j)) [0..<length nm + 1] = nm @ [0]" "0 \<notin> set nm" "length nm + 1 \<le> 1024"
  defines "d0 \<equiv> disk_programmed dev (uint (cs_lba (bd_regs (dh_disk h)))) (length nm + 1) BLOCK_DEVICE_FILE_NAME (dh_disk h)"
  obtains h' where "disk_ready cf dev h'" "bd_file (dh_disk h') = dc_files cf nm"
    and "poll_status (disk_io cf) (dev\<lparr>ha_state := 1\<rparr>) polls (h\<lparr>dh_bus := b, dh_disk := d0, dh_busy := Some (dc_delay cf)\<rparr>)
      = Inr (h', if dc_files cf nm = None then BLOCK_DEVICE_WRITE_ERROR else BLOCK_DEVICE_WRITE_SUCCESS)"
proof -
  let ?a = "unat (ha_buffer dev)"
  have "unat (of_nat k :: u32) = k" if "k \<le> 1024" for k using that by (simp add: unsigned_of_nat take_bit_nat_eq_self)
  from this [OF nm(3)] have n: "unat (of_nat (length nm + 1) :: u32) = length nm + 1" .
  have xs: "xfer_size (bd_regs d0) = length nm + 1" "cs_buffer (bd_regs d0) = ha_buffer dev" "bd_master d0 = bd_master (dh_disk h)"
    "cs_block_size (bd_regs d0) = 1" "cs_op (bd_regs d0) = BLOCK_DEVICE_FILE_NAME"
    using r n by (simp_all add: d0_def xfer_size_def disk_programmed_def disk_ready_def)
  have lim: "?a mod 4 = 0" "?a + (length nm + 1) + 4 < 2 ^ 32" "?a + (length nm + 1) \<le> ram_limit (dc_ram_end cf)" "bm_ok (bd_master d0)"
    using r nm(3) by (simp_all add: disk_ready_def xs(3))
  from ram_bus.control_file_name_ok [OF b lim [folded xs(1,2)] nm(1) [folded xs(1,2)] nm(2), of "dc_files cf" "dc_rows cf" "dc_req cf" "dc_byte cf"] xs(4)
  obtain d' b' where c: "control_file_name (dc_files cf) (disk_bus cf) (dc_req cf) (dc_byte cf) d0 b = Inr (d', b', [])"
    "mem_bus_inv (dc_nslaves cf) (dc_ram cf) (dc_ram_end cf) b'" "bd_file d' = dc_files cf nm"
    "cs_status (bd_regs d') = (if dc_files cf nm = None then BLOCK_DEVICE_WRITE_ERROR else BLOCK_DEVICE_WRITE_SUCCESS)"
    "bm_ok (bd_master d')" "cs_block_size (bd_regs d') = 1" unfolding disk_bus_def by auto
  let ?h' = "\<lparr>dh_disk = disk_answered d', dh_bus = b', dh_busy = None\<rparr>"
  have ct: "control_thread (dc_files cf) (disk_bus cf) (dc_req cf) (dc_byte cf) d0 b = Inr (d', b', [])"
    using c(1) xs(5) by (simp add: control_thread_def block_ops)
  have "poll_status (disk_io cf) (dev\<lparr>ha_state := 1\<rparr>) polls (h\<lparr>dh_bus := b, dh_disk := d0, dh_busy := Some (dc_delay cf)\<rparr>)
      = Inr (?h', cs_status (bd_regs d'))"
    by (rule poll_ok [where k = "dc_delay cf"]) (use delay r c(4) ct in \<open>auto simp: disk_ready_def block_states d0_def disk_programmed_def\<close>)
  moreover have "disk_ready cf dev ?h'" using r c(2,5,6) by (simp add: disk_ready_def disk_answered_def)
  moreover have "bd_file (dh_disk ?h') = dc_files cf nm" using c(3) by (simp add: disk_answered_def)
  ultimately show thesis using c(4) that [of ?h'] by simp
qed

text \<open>
  Claim C27. Opening a file through the host access driver opens the file of the host that the program's string names, up to
  the end of its line and without the spaces at its end: the name travels through the driver's buffer, the disk's
  transfer and the network. If the host cannot open it, the driver returns an error and no file is open.
\<close>
theorem host_open_names_file:
  assumes r: "disk_ready cf dev h" and "\<not> (ha_state dev = 3 \<and> 1 < ha_open_count dev)" "dc_delay cf < polls"
    and us: "\<exists>b\<in>set us. b = 0x0A \<or> b = 0" "length us \<le> 1024" and nm: "nm = rstrip (first_line us)"
  shows "\<exists>h'. bd_file (dh_disk h') = dc_files cf nm \<and> disk_ready cf dev h' \<and>
    rabbitsha_chr_ioctl_open (disk_io cf) polls us dev h
      = (if dc_files cf nm = None then Inr (- ENXIO, dev\<lparr>ha_state := 1\<rparr>, h') else Inr (0, dev\<lparr>ha_state := 3\<rparr>, h'))"
proof -
  let ?dev = "dev\<lparr>ha_state := 1\<rparr>"
  have bp: "buffer_put (disk_io cf) ?dev bs x = buffer_put (disk_io cf) dev bs x" for bs x by (simp add: buffer_put_def)
  have bg: "buffer_get (disk_io cf) ?dev n x = buffer_get (disk_io cf) dev n x" for n x by (simp add: buffer_get_def)
  from host_name_put [OF r us nm] obtain b0 b1 b2 buf i zs where
    b0: "buffer_put (disk_io cf) dev [0] h = Inr (h\<lparr>dh_bus := b0\<rparr>)"
    and b1: "buffer_put (disk_io cf) dev us (h\<lparr>dh_bus := b0\<rparr>) = Inr (h\<lparr>dh_bus := b1\<rparr>)"
    and g: "buffer_get (disk_io cf) dev 1024 (h\<lparr>dh_bus := b1\<rparr>) = Inr buf"
    and z: "end_of_line buf 0 = Inr i" "cut_spaces (buf[i := 0]) (strlen (buf[i := 0])) = nm @ 0 # zs" "0 \<notin> set nm" "length nm + 1 \<le> 1024"
    and b2: "buffer_put (disk_io cf) dev (nm @ 0 # zs) (h\<lparr>dh_bus := b1\<rparr>) = Inr (h\<lparr>dh_bus := b2\<rparr>)"
    and inv: "mem_bus_inv (dc_nslaves cf) (dc_ram cf) (dc_ram_end cf) b2"
    and mem: "map (\<lambda>j. mem_view b2 (unat (ha_buffer dev) + j)) [0..<length nm + 1] = nm @ [0]" .
  have sl: "strlen (nm @ 0 # zs) = length nm" using z(3) by (simp add: strlen_def c_string_append)
  from named_file_opened [OF r inv assms(3) mem z(3,4)] obtain h' where h': "disk_ready cf dev h'" "bd_file (dh_disk h') = dc_files cf nm"
    and poll: "poll_status (disk_io cf) ?dev polls (h\<lparr>dh_bus := b2,
        dh_disk := disk_programmed dev (uint (cs_lba (bd_regs (dh_disk h)))) (length nm + 1) BLOCK_DEVICE_FILE_NAME (dh_disk h),
        dh_busy := Some (dc_delay cf)\<rparr>)
      = Inr (h', if dc_files cf nm = None then BLOCK_DEVICE_WRITE_ERROR else BLOCK_DEVICE_WRITE_SUCCESS)" .
  have ne: "BLOCK_DEVICE_WRITE_ERROR \<noteq> BLOCK_DEVICE_WRITE_SUCCESS" by (simp add: block_states)
  have "ha_open_host_file (disk_io cf) polls ?dev (h\<lparr>dh_bus := b1\<rparr>)
      = (if dc_files cf nm = None then Inr (- ENXIO, ?dev, h') else Inr (0, dev\<lparr>ha_state := 3\<rparr>, h'))"
    using r poll unfolding ha_open_host_file_def BLOCK_DEVICE_DRV_BUF_SIZE_def bg g bindr_simps z(1,2) Let_def bp b2 sl
    by (simp add: ha_regs disk_ready_def disk_addresses [simplified] disk_store_def disk_accesses with_regs_def disk_programmed_def ne)
  moreover have "rabbitsha_chr_ioctl_open (disk_io cf) polls us dev h = ha_open_host_file (disk_io cf) polls ?dev (h\<lparr>dh_bus := b1\<rparr>)"
    using assms(2) b0 b1 by (auto simp: rabbitsha_chr_ioctl_open_def bp)
  ultimately show ?thesis using h' by auto
qed

text \<open>
  A name without an end that fills the buffer, which \<open>strncpy_from_user\<close> leaves without one, is searched for its end behind the buffer.
\<close>
theorem host_name_overrun:
  assumes "disk_ready cf dev h" "\<not> (ha_state dev = 3 \<and> 1 < ha_open_count dev)" "\<forall>b\<in>set us. b \<noteq> 0x0A \<and> b \<noteq> 0" "length us = 1024"
  shows "rabbitsha_chr_ioctl_open (disk_io cf) polls us dev h = Inl OutOfBounds"
proof -
  let ?dev = "dev\<lparr>ha_state := 1\<rparr>"
  have r: "disk_ready cf ?dev h" using assms(1) by (simp add: disk_ready_def)
  have eol: "end_of_line us j = Inl OutOfBounds" for j
    using assms(3) by (induction us j rule: end_of_line.induct) (simp add: end_of_line.simps)
  from buffer_put_ok [OF r, of "[0]"] obtain b0 where b0: "buffer_put (disk_io cf) ?dev [0] h = Inr (h\<lparr>dh_bus := b0\<rparr>)"
    "mem_bus_inv (dc_nslaves cf) (dc_ram cf) (dc_ram_end cf) b0" by auto
  have r0: "disk_ready cf ?dev (h\<lparr>dh_bus := b0\<rparr>)" using r b0(2) by (simp add: disk_ready_def)
  from buffer_put_ok [OF r0, of us] assms(4) obtain b1 where
    b1: "buffer_put (disk_io cf) ?dev us (h\<lparr>dh_bus := b0\<rparr>) = Inr (h\<lparr>dh_bus := b1\<rparr>)"
      "mem_bus_inv (dc_nslaves cf) (dc_ram cf) (dc_ram_end cf) b1" "mem_view b1 = stored (unat (ha_buffer dev)) us (mem_view b0)" by auto
  have r1: "disk_ready cf ?dev (h\<lparr>dh_bus := b1\<rparr>)" using r b1(2) by (simp add: disk_ready_def)
  have "buffer_get (disk_io cf) ?dev 1024 (h\<lparr>dh_bus := b1\<rparr>) = Inr us"
    using buffer_get_ok [OF r1] stored_prefix [of 1024 us] assms(4) b1(3) by simp
  then show ?thesis using assms(2) b0(1) b1(1) eol
    by (auto simp: rabbitsha_chr_ioctl_open_def ha_open_host_file_def BLOCK_DEVICE_DRV_BUF_SIZE_def)
qed

subsection \<open>A small platform\<close>

definition small_conf :: disk_conf where
  "small_conf = \<lparr>dc_ram_end = 2048, dc_rows = [], dc_nslaves = 1, dc_ram = 0,
     dc_files = (\<lambda>f. if f = [0x61, 0x20, 0x62] then Some [1, 2, 3] else None), dc_req = zero_request, dc_byte = 0xAA,
     dc_rdata = replicate 8 0, dc_delay = 2\<rparr>"

definition small_disk_hw :: disk_hw where
  "small_disk_hw = \<lparr>dh_disk = \<lparr>bd_regs = \<lparr>cs_status = 0, cs_buffer = 0, cs_op = 0, cs_lba = 7, cs_count = 0, cs_size = 3,
                cs_block_size = 1, cs_irqen = 0, cs_irq = 0\<rparr>,
       bd_master = block_master_new 6 [0, 0, 0, 0] 0, bd_file = Some [9, 8, 7], bd_pos = 0, bd_func_ret = 0\<rparr>,
     dh_bus = (slave_device_new zero_request zero_response, mem_device_new 0 2048), dh_busy = None\<rparr>"

definition small_ha :: rabbitsha_device where
  "small_ha = \<lparr>ha_minor = 0, ha_base_addr = RABBITSHA_BASE_ADDRESS, ha_buffer = 512, ha_state = 3, ha_open_count = 1\<rparr>"

lemma small_disk_ready: "disk_ready small_conf small_ha small_disk_hw"
proof -
  have "mem_bus_inv 1 0 2048 (slave_device_new zero_request zero_response, mem_device_new 0 2048)"
    by (simp add: mem_bus_inv_def wf_response_def zero_response_def) (simp add: mem_device_new_def)
  then show ?thesis
    by (simp add: disk_ready_def small_conf_def small_ha_def small_disk_hw_def block_master_new_def bm_ok_def block_states ram_limit_def)
qed

theorem host_write_then_read_witness:
  "\<exists>h1 h2. rabbitsha_chr_write (disk_io small_conf) 3 [10, 11, 12, 13] 4 1 small_ha small_disk_hw = Inr ((4, 5), small_ha, h1)
    \<and> rabbitsha_chr_read (disk_io small_conf) 3 64 4 1 small_ha h1 = Inr ((4, [10, 11, 12, 13], 5), small_ha, h2)
    \<and> bd_file (dh_disk h1) = Some [9, 10, 11, 12, 13]"
proof -
  have f: "bd_file (dh_disk small_disk_hw) = Some [9, 8, 7]" "ha_state small_ha = 3" "dc_delay small_conf < 3"
    by (simp_all add: small_disk_hw_def small_ha_def small_conf_def)
  have "file_put [9, 8, 7] (nat 1) [10, 11, 12, 13 :: u8] = [9, 10, 11, 12, 13]" by (simp add: file_put_def)
  moreover have len: "length [10, 11, 12, 13 :: u8] = 4" by simp
  ultimately show ?thesis
    using host_write_then_read [OF small_disk_ready f, where data = "[10, 11, 12, 13]" and loff = 1 and room = 64] unfolding len by auto
qed

theorem host_open_names_file_witness:
  "\<exists>h. rabbitsha_chr_ioctl_open (disk_io small_conf) 5 [0x61, 0x20, 0x62, 0x20, 0x20, 0x0A, 0x63, 0] small_ha small_disk_hw
      = Inr (0, small_ha, h) \<and> bd_file (dh_disk h) = Some [1, 2, 3]"
proof -
  have n: "rstrip (first_line [0x61, 0x20, 0x62, 0x20, 0x20, 0x0A, 0x63, 0]) = [0x61, 0x20, 0x62]"
    by (simp add: rstrip_def first_line_def)
  have s: "\<not> (ha_state small_ha = 3 \<and> 1 < ha_open_count small_ha)" "dc_delay small_conf < 5"
    "small_ha\<lparr>ha_state := 3\<rparr> = small_ha" "dc_files small_conf [0x61, 0x20, 0x62] = Some [1, 2, 3]"
    by (simp_all add: small_ha_def small_conf_def)
  from host_open_names_file [OF small_disk_ready s(1,2), of "[0x61, 0x20, 0x62, 0x20, 0x20, 0x0A, 0x63, 0]" "[0x61, 0x20, 0x62]"] n s(3,4)
  show ?thesis by auto
qed

end
