(* ===== verification/Ecmgr_Driver.thy ===== *)
theory Ecmgr_Driver
  imports Linux_Driver Sl_Mailbox_Device
begin

text \<open>
  The driver through which a program reports the use of the processors to the energy controller
  (\<^verbatim>\<open>drivers/ecmgr_drv/ecmgr_drv.c\<close>): a message in the mailbox the two share. At the end the driver runs against the mailbox device.
\<close>

definition ECMGR_DRV_MAXDEV :: nat where "ECMGR_DRV_MAXDEV = 1"
definition ECMGR_ADDR_BASE :: ulong where "ECMGR_ADDR_BASE = 0xAC000000"
definition ECMGR_REG_COMMAND :: ulong where "ECMGR_REG_COMMAND = 0x0000"
definition ECMGR_REG_DATA :: ulong where "ECMGR_REG_DATA = 0x0004"
definition ECMGR_REG_RESERVED :: ulong where "ECMGR_REG_RESERVED = 0x0008"
definition ECMGR_REG_DNA_THREAD :: ulong where "ECMGR_REG_DNA_THREAD = 0x1000"
definition DNA_IPI_DISPATCH_COMMAND :: u32 where "DNA_IPI_DISPATCH_COMMAND = 0xFFFF"
definition ECMGR_DRV_IOCRESET :: u32 where "ECMGR_DRV_IOCRESET = IO 0x65 0"
definition ECMGR_DRV_IOCS_SEND_USE :: u32 where "ECMGR_DRV_IOCS_SEND_USE = IOW 0x65 1 4"

lemmas ecmgr_regs = ECMGR_ADDR_BASE_def ECMGR_REG_COMMAND_def ECMGR_REG_DATA_def ECMGR_REG_RESERVED_def ECMGR_REG_DNA_THREAD_def

subsection \<open>The driver\<close>

record ecmgr_drv_device =
  ec_minor :: int
  ec_base_addr :: ulong
  ec_addr_core_thread_ec_cpus :: ulong

definition ecmgr_drv_zero :: ecmgr_drv_device where
  "ecmgr_drv_zero = \<lparr>ec_minor = 0, ec_base_addr = 0, ec_addr_core_thread_ec_cpus = 0\<rparr>"

definition ecmgr_drv_chr_ioctl_send_use :: "'s kernel_io \<Rightarrow> ecmgr_drv_device \<Rightarrow> ulong \<Rightarrow> 's \<Rightarrow> (int \<times> ecmgr_drv_device \<times> 's) res" where
  "ecmgr_drv_chr_ioctl_send_use io d use100 s =
     bindr (writel io (ec_addr_core_thread_ec_cpus d) (ec_base_addr d + ECMGR_REG_DATA) s) (\<lambda>s.
     bindr (writel io use100 (ec_base_addr d + ECMGR_REG_RESERVED) s) (\<lambda>s.
     bindr (writel io DNA_IPI_DISPATCH_COMMAND (ec_base_addr d + ECMGR_REG_COMMAND) s) (\<lambda>s.
     Inr (0, d, s))))"

definition ecmgr_drv_chr_open :: "int \<Rightarrow> int \<Rightarrow> ecmgr_drv_device chr_driver \<Rightarrow> int \<times> nat option" where
  "ecmgr_drv_chr_open major minor drv = (case chr_open_index drv major minor of Inl ret \<Rightarrow> (ret, None) | Inr i \<Rightarrow> (0, Some i))"

definition ecmgr_drv_chr_ioctl :: "'s kernel_io \<Rightarrow> nat option \<Rightarrow> u32 \<Rightarrow> ulong \<Rightarrow> ecmgr_drv_device chr_driver \<Rightarrow> 's
    \<Rightarrow> (int \<times> ecmgr_drv_device chr_driver \<times> 's) res" where
  "ecmgr_drv_chr_ioctl io file code buffer drv s =
     (case file of
        None \<Rightarrow> Inr (- EBADF, drv, s)
      | Some i \<Rightarrow>
          if code = ECMGR_DRV_IOCRESET then Inr (0, drv, s)
          else if code = ECMGR_DRV_IOCS_SEND_USE then on_device drv i (\<lambda>d. ecmgr_drv_chr_ioctl_send_use io d buffer s)
          else Inr (- ENOTTY, drv, s))"

text \<open>\<open>release\<close> resets \<open>file->private_data\<close> and does nothing else.\<close>

definition ecmgr_drv_chr_release :: "nat option \<Rightarrow> int \<times> nat option" where
  "ecmgr_drv_chr_release file = (0, None)"

definition ecmgr_drv_dev_init :: "'s kernel_io \<Rightarrow> kernel_env \<Rightarrow> ecmgr_drv_device chr_driver \<Rightarrow> 's
    \<Rightarrow> (int \<times> ecmgr_drv_device chr_driver \<times> 's \<times> kernel_call list) res" where
  "ecmgr_drv_dev_init io env drv s =
     (let idx = cd_nb_dev drv in
      bindr (rd (cd_devs drv) idx) (\<lambda>d.
      let drv = drv\<lparr>cd_nb_dev := idx + 1\<rparr>; base_addr = ke_ioremap env ECMGR_ADDR_BASE in
      if base_addr = 0 then Inr (- ENOMEM, drv, s, [])
      else
        bindr (readl io (base_addr + ECMGR_REG_DNA_THREAD) s) (\<lambda>(s, thread).
        let (ret, minor, ks) = chr_cdev_setup env drv idx;
            d = d\<lparr>ec_base_addr := base_addr, ec_addr_core_thread_ec_cpus := thread, ec_minor := minor\<rparr>
        in Inr (ret, drv\<lparr>cd_devs := (cd_devs drv)[idx := d]\<rparr>, s, ks))))"

definition ecmgr_drv_init :: "'s kernel_io \<Rightarrow> kernel_env \<Rightarrow> 's \<Rightarrow> (int \<times> ecmgr_drv_device chr_driver \<times> 's \<times> kernel_call list) res" where
  "ecmgr_drv_init io env s = chr_drv_init ECMGR_DRV_MAXDEV ecmgr_drv_zero env (ecmgr_drv_dev_init io env) s"

definition ecmgr_drv_dev_exit :: "int \<Rightarrow> ecmgr_drv_device \<Rightarrow> 's \<Rightarrow> (ecmgr_drv_device \<times> 's \<times> kernel_call list) res" where
  "ecmgr_drv_dev_exit major d s = Inr (d, s, [CdevDel major (ec_minor d)])"

definition ecmgr_drv_cleanup :: "ecmgr_drv_device chr_driver \<Rightarrow> 's \<Rightarrow> (ecmgr_drv_device chr_driver \<times> 's \<times> kernel_call list) res" where
  "ecmgr_drv_cleanup drv s = chr_drv_cleanup ECMGR_DRV_MAXDEV (ecmgr_drv_dev_exit (cd_major drv)) drv s"

subsection \<open>With the mailbox\<close>

definition mailbox_io :: "vci_request \<Rightarrow> u8 list \<Rightarrow> sl_mailbox_device kernel_io" where
  "mailbox_io junk rdata = \<lparr>
     readl = (\<lambda>a m. if ECMGR_ADDR_BASE \<le> a \<and> a < 0xAC010000
        then bindr (dev_load sl_mailbox_rcv_rqst junk rdata (a - ECMGR_ADDR_BASE) 4 m) (\<lambda>(m, es, v). Inr (m, v)) else Inl OutOfBounds),
     writel = (\<lambda>v a m. if ECMGR_ADDR_BASE \<le> a \<and> a < 0xAC010000
        then bindr (dev_store sl_mailbox_rcv_rqst junk (a - ECMGR_ADDR_BASE) 4 v m) (\<lambda>(m, es). Inr m) else Inl OutOfBounds),
     readb = (\<lambda>a m. Inl OutOfBounds), writeb = (\<lambda>v a m. Inl OutOfBounds),
     mem_get = (\<lambda>a n m. Inl OutOfBounds), mem_put = (\<lambda>a bs m. Inl OutOfBounds)\<rparr>"

lemma mailbox_store:
  assumes "mailbox_inv m" "0 < mb_nb_mailbox m"
  shows "dev_store sl_mailbox_rcv_rqst junk 0 4 v m
      = Inr (m\<lparr>mb_command := (mb_command m)[0 := v], mb_status := (mb_status m)[0 := MAILBOX_NEW_MESSAGE], mb_irq := (mb_irq m)[0 := True]\<rparr>, [])"
    and "dev_store sl_mailbox_rcv_rqst junk 4 4 v m = Inr (m\<lparr>mb_data := (mb_data m)[0 := v]\<rparr>, [])"
    and "dev_store sl_mailbox_rcv_rqst junk 8 4 v m = Inr (m\<lparr>mb_reserved := (mb_reserved m)[0 := v]\<rparr>, [])"
  using assms by (auto intro!: dev_store_word simp: sl_mailbox_rcv_rqst_def sl_mailbox_write_def mailbox_inv_def Let_def mailbox_regs)

lemma mailbox_load_thread:
  assumes "mailbox_inv m" "length rdata = 8"
  shows "dev_load sl_mailbox_rcv_rqst junk rdata 0x1000 4 m = Inr (m, [], mb_global_reg m ! 0)"
  using assms by (auto intro!: dev_load_word simp: sl_mailbox_rcv_rqst_def sl_mailbox_read_def mailbox_inv_def Let_def mailbox_regs)

text \<open>The message in the mailbox the use arrives with.\<close>

definition use_message :: "u32 \<Rightarrow> u32 \<Rightarrow> mailbox" where
  "use_message thread use100 = \<lparr>ch_command = DNA_IPI_DISPATCH_COMMAND, ch_data = thread, ch_reserved = use100, ch_pending = True\<rparr>"

lemma send_use_effect:
  assumes "mailbox_inv m" "0 < mb_nb_mailbox m" "ec_base_addr d = ECMGR_ADDR_BASE"
  shows "\<exists>m'. ecmgr_drv_chr_ioctl_send_use (mailbox_io junk rdata) d use100 m = Inr (0, d, m') \<and> mailbox_inv m'
    \<and> channel m' 0 = use_message (ec_addr_core_thread_ec_cpus d) use100 \<and> mb_irq m' ! 0
    \<and> (\<forall>k < mb_nb_mailbox m. k \<noteq> 0 \<longrightarrow> channel m' k = channel m k \<and> mb_irq m' ! k = mb_irq m ! k)
    \<and> mb_global_reg m' = mb_global_reg m"
  using assms
  by (auto simp: ecmgr_drv_chr_ioctl_send_use_def mailbox_io_def ecmgr_regs mailbox_store mailbox_inv_def channel_def use_message_def map_update)

text \<open>
  Claim C28. Once the driver is loaded with the energy controller's thread in the first shared register, the device that is opened sends a use:
  the first mailbox holds the message for that thread, with the dispatch command, and its interrupt
  is raised; nothing else of the mailboxes changes.
\<close>

theorem send_use_reaches_controller:
  assumes "mailbox_inv m" "mailbox_inv m1" "0 < mb_nb_mailbox m1" "length rdata = 8"
    and "ke_ioremap env ECMGR_ADDR_BASE = ECMGR_ADDR_BASE" "ke_alloc_chrdev env = (0, major, minor)"
  shows "\<exists>drv ks m'. ecmgr_drv_init (mailbox_io junk rdata) env m = Inr (0, drv, m, ks)
    \<and> ecmgr_drv_chr_open major minor drv = (0, Some 0)
    \<and> ecmgr_drv_chr_ioctl (mailbox_io junk rdata) (Some 0) ECMGR_DRV_IOCS_SEND_USE use100 drv m1 = Inr (0, drv, m')
    \<and> mailbox_inv m' \<and> channel m' 0 = use_message (mb_global_reg m ! 0) use100 \<and> mb_irq m' ! 0
    \<and> (\<forall>k < mb_nb_mailbox m1. k \<noteq> 0 \<longrightarrow> channel m' k = channel m1 k \<and> mb_irq m' ! k = mb_irq m1 ! k)
    \<and> mb_global_reg m' = mb_global_reg m1"
proof -
  let ?d = "\<lparr>ec_minor = minor, ec_base_addr = ECMGR_ADDR_BASE, ec_addr_core_thread_ec_cpus = mb_global_reg m ! 0\<rparr>"
  let ?drv = "\<lparr>cd_major = major, cd_minor = minor, cd_nb_dev = 1, cd_devs = [?d]\<rparr>"
  have init: "ecmgr_drv_init (mailbox_io junk rdata) env m = Inr (0, ?drv, m, [CdevAdd major minor])"
    using assms(5,6) mailbox_load_thread [OF assms(1,4)]
    by (simp add: ecmgr_drv_init_def chr_drv_init_def ecmgr_drv_dev_init_def ECMGR_DRV_MAXDEV_def chr_cdev_setup_def
        ecmgr_drv_zero_def mailbox_io_def ecmgr_regs)
  have opn: "ecmgr_drv_chr_open major minor ?drv = (0, Some 0)"
    by (simp add: ecmgr_drv_chr_open_def chr_open_index_def)
  obtain m' where m': "ecmgr_drv_chr_ioctl_send_use (mailbox_io junk rdata) ?d use100 m1 = Inr (0, ?d, m')" "mailbox_inv m'"
    "channel m' 0 = use_message (mb_global_reg m ! 0) use100" "mb_irq m' ! 0"
    "\<forall>k < mb_nb_mailbox m1. k \<noteq> 0 \<longrightarrow> channel m' k = channel m1 k \<and> mb_irq m' ! k = mb_irq m1 ! k"
    "mb_global_reg m' = mb_global_reg m1"
    using send_use_effect [OF assms(2,3), of ?d junk rdata use100] by auto
  have "ecmgr_drv_chr_ioctl (mailbox_io junk rdata) (Some 0) ECMGR_DRV_IOCS_SEND_USE use100 ?drv m1 = Inr (0, ?drv, m')"
    using m'(1) by (simp add: ecmgr_drv_chr_ioctl_def on_device_def ECMGR_DRV_IOCS_SEND_USE_def ECMGR_DRV_IOCRESET_def ioc_defs)
  with init opn m'(2-) show ?thesis by blast
qed

definition small_env :: kernel_env where
  "small_env = \<lparr>ke_alloc_chrdev = (0, 250, 0), ke_ioremap = (\<lambda>a. a), ke_kmalloc = 0x1000, ke_cdev_add = 0, ke_request_irq = 0\<rparr>"

theorem send_use_reaches_controller_witness:
  "\<exists>drv ks m'. ecmgr_drv_init (mailbox_io zero_request (replicate 8 0)) small_env (sl_mailbox_device_new 2)
        = Inr (0, drv, sl_mailbox_device_new 2, ks)
    \<and> ecmgr_drv_chr_open 250 0 drv = (0, Some 0)
    \<and> ecmgr_drv_chr_ioctl (mailbox_io zero_request (replicate 8 0)) (Some 0) ECMGR_DRV_IOCS_SEND_USE 75 drv (sl_mailbox_device_new 2)
        = Inr (0, drv, m')
    \<and> mailbox_inv m' \<and> channel m' 0 = use_message (mb_global_reg (sl_mailbox_device_new 2) ! 0) 75 \<and> mb_irq m' ! 0
    \<and> (\<forall>k < mb_nb_mailbox (sl_mailbox_device_new 2). k \<noteq> 0 \<longrightarrow>
          channel m' k = channel (sl_mailbox_device_new 2) k \<and> mb_irq m' ! k = mb_irq (sl_mailbox_device_new 2) ! k)
    \<and> mb_global_reg m' = mb_global_reg (sl_mailbox_device_new 2)"
proof (rule send_use_reaches_controller)
  show "0 < mb_nb_mailbox (sl_mailbox_device_new 2)" by (simp add: sl_mailbox_device_new_def)
qed (simp_all add: small_env_def)

end
