(* ===== verification/Qemu_Driver.thy ===== *)
theory Qemu_Driver
  imports Linux_Driver Qemu_Registers
begin

text \<open>
  The driver that sets the frequency of the emulated processors and measures their power
  (\<^verbatim>\<open>drivers/qemu_drv/qemu_drv.c\<close>), through the registers of the processor's own wrapper. At the end the driver runs against them.
\<close>

definition QEMU_DRV_MAXDEV :: nat where "QEMU_DRV_MAXDEV = 1"
definition QEMU_ADDR_BASE :: ulong where "QEMU_ADDR_BASE = 0x82000000"
definition MAX_FV_LEVEL :: ulong where "MAX_FV_LEVEL = 6"
definition QEMU_DRV_IOCRESET :: u32 where "QEMU_DRV_IOCRESET = IO 0x71 0"
definition QEMU_DRV_IOCS_SET_CPUS_FV :: u32 where "QEMU_DRV_IOCS_SET_CPUS_FV = IOW 0x71 1 4"
definition QEMU_DRV_IOC_TEST :: u32 where "QEMU_DRV_IOC_TEST = IO 0x71 2"
definition QEMU_DRV_IOCS_PROCESS_FV :: u32 where "QEMU_DRV_IOCS_PROCESS_FV = IOW 0x71 3 4"
definition QEMU_DRV_IOC_MEASURE_STA :: u32 where "QEMU_DRV_IOC_MEASURE_STA = IO 0x71 4"
definition QEMU_DRV_IOC_MEASURE_STO :: u32 where "QEMU_DRV_IOC_MEASURE_STO = IOR 0x71 5 4"
definition QEMU_DRV_IOCS_SET_CPUX_FV :: u32 where "QEMU_DRV_IOCS_SET_CPUX_FV = IOW 0x71 6 4"

lemmas qemu_drv_codes = QEMU_DRV_IOCRESET_def QEMU_DRV_IOCS_SET_CPUS_FV_def QEMU_DRV_IOC_TEST_def QEMU_DRV_IOCS_PROCESS_FV_def
  QEMU_DRV_IOC_MEASURE_STA_def QEMU_DRV_IOC_MEASURE_STO_def QEMU_DRV_IOCS_SET_CPUX_FV_def

subsection \<open>The driver\<close>

record qemu_drv_device =
  qd_minor :: int
  qd_base_addr :: ulong

definition qemu_drv_zero :: qemu_drv_device where
  "qemu_drv_zero = \<lparr>qd_minor = 0, qd_base_addr = 0\<rparr>"

text \<open>
  The bytes that can be read from the user's buffer on are \<open>user\<close>, \<open>room\<close> bytes can be written there. The first result has
  the value returned and the bytes written.
\<close>

definition qemu_drv_chr_ioctl_set_register_32 :: "'s kernel_io \<Rightarrow> u8 list \<Rightarrow> ulong \<Rightarrow> qemu_drv_device \<Rightarrow> 's
    \<Rightarrow> ((int \<times> u8 list) \<times> qemu_drv_device \<times> 's) res" where
  "qemu_drv_chr_ioctl_set_register_32 io user reg_ofs d s =
     COPY_FROM_USER user 4 (\<lambda>cpy. Inr ((cpy, []), d, s)) (\<lambda>bs.
     bindr (writel io (le32 bs) (qd_base_addr d + reg_ofs) s) (\<lambda>s. Inr ((0, []), d, s)))"

definition qemu_drv_chr_ioctl_set_cpux_fv :: "'s kernel_io \<Rightarrow> u8 list \<Rightarrow> qemu_drv_device \<Rightarrow> 's
    \<Rightarrow> ((int \<times> u8 list) \<times> qemu_drv_device \<times> 's) res" where
  "qemu_drv_chr_ioctl_set_cpux_fv io user d s =
     COPY_FROM_USER user 8 (\<lambda>cpy. Inr ((cpy, []), d, s)) (\<lambda>bs.
     let cpu = le32 (take 4 bs); frequency_level = le32 (drop 4 bs); val = cpu + push_bit 8 frequency_level in
     bindr (writel io val (qd_base_addr d + SET_SYSTEMC_CPUX_FV_LEVEL) s) (\<lambda>s. Inr ((0, []), d, s)))"

definition qemu_drv_chr_ioctl_get_register_32 :: "'s kernel_io \<Rightarrow> nat \<Rightarrow> ulong \<Rightarrow> qemu_drv_device \<Rightarrow> 's
    \<Rightarrow> ((int \<times> u8 list) \<times> qemu_drv_device \<times> 's) res" where
  "qemu_drv_chr_ioctl_get_register_32 io room reg_ofs d s =
     bindr (readl io (qd_base_addr d + reg_ofs) s) (\<lambda>(s, val).
     COPY_TO_USER room (bytes32 val) (\<lambda>cpy. Inr ((cpy, []), d, s)) (\<lambda>us. Inr ((0, us), d, s)))"

definition qemu_drv_chr_ioctl_set_process_fv :: "ulong \<Rightarrow> int" where
  "qemu_drv_chr_ioctl_set_process_fv level100 = (if level100 \<le> 0 \<or> level100 > MAX_FV_LEVEL then - 1 else 0)"

definition qemu_drv_chr_open :: "int \<Rightarrow> int \<Rightarrow> qemu_drv_device chr_driver \<Rightarrow> int \<times> nat option" where
  "qemu_drv_chr_open major minor drv = (case chr_open_index drv major minor of Inl ret \<Rightarrow> (ret, None) | Inr i \<Rightarrow> (0, Some i))"

definition qemu_drv_chr_ioctl :: "'s kernel_io \<Rightarrow> nat option \<Rightarrow> u32 \<Rightarrow> ulong \<Rightarrow> u8 list \<Rightarrow> nat \<Rightarrow> qemu_drv_device chr_driver \<Rightarrow> 's
    \<Rightarrow> ((int \<times> u8 list) \<times> qemu_drv_device chr_driver \<times> 's) res" where
  "qemu_drv_chr_ioctl io file code buffer user room drv s =
     (case file of
        None \<Rightarrow> Inr ((- EBADF, []), drv, s)
      | Some i \<Rightarrow>
          if code = QEMU_DRV_IOCRESET then Inr ((0, []), drv, s)
          else if code = QEMU_DRV_IOCS_SET_CPUS_FV then
            on_device drv i (\<lambda>d. qemu_drv_chr_ioctl_set_register_32 io user SET_SYSTEMC_ALL_FV_LEVEL d s)
          else if code = QEMU_DRV_IOCS_SET_CPUX_FV then on_device drv i (\<lambda>d. qemu_drv_chr_ioctl_set_cpux_fv io user d s)
          else if code = QEMU_DRV_IOC_MEASURE_STA then
            on_device drv i (\<lambda>d. bindr (writel io 0xC0DE (qd_base_addr d + SET_MEASURE_START) s) (\<lambda>s. Inr ((0, []), d, s)))
          else if code = QEMU_DRV_IOC_MEASURE_STO then
            on_device drv i (\<lambda>d. qemu_drv_chr_ioctl_get_register_32 io room GET_MEASURE_RES d s)
          else if code = QEMU_DRV_IOC_TEST then Inr ((0, []), drv, s)
          else if code = QEMU_DRV_IOCS_PROCESS_FV then Inr ((qemu_drv_chr_ioctl_set_process_fv buffer, []), drv, s)
          else Inr ((- ENOTTY, []), drv, s))"

definition qemu_drv_chr_release :: "nat option \<Rightarrow> int \<times> nat option" where
  "qemu_drv_chr_release file = (0, None)"

subsection \<open>The module\<close>

text \<open>\<open>sprintf (sname, "%d", i)\<close>\<close>

fun decimal :: "nat \<Rightarrow> string" where
  "decimal n = (if n < 10 then [char_of (48 + n)] else decimal (n div 10) @ [char_of (48 + n mod 10)])"

declare decimal.simps [simp del]

text \<open>
  \<open>create_proc\<close>: \<open>mk\<close> tells whether \<open>proc_mkdir\<close> makes the directory of the module and the one of a
  processor, \<open>entry\<close> whether \<open>create_proc_entry\<close> makes the file of a processor and the last one. A
  null parent is the root of \<^verbatim>\<open>/proc\<close>, here the empty name. The test after the directory of a processor is on \<open>dir\<close>.
\<close>

record proc_env =
  pe_mkdir :: "nat option \<Rightarrow> bool"
  pe_entry :: "nat option \<Rightarrow> bool"

fun create_proc_cpus :: "proc_env \<Rightarrow> nat list \<Rightarrow> bool \<times> kernel_call list" where
  "create_proc_cpus pe [] = (True, [])"
| "create_proc_cpus pe (i # is) =
     (let sname = decimal i; ks = [ProcMkdir sname, ProcEntry ''fv'' (if pe_mkdir pe (Some i) then sname else []) (int i)]
      in if pe_entry pe (Some i) then (let (ok, ks') = create_proc_cpus pe is in (ok, ks @ ks')) else (False, ks))"

definition qemu_drv_create_proc :: "proc_env \<Rightarrow> nat \<Rightarrow> int \<times> kernel_call list" where
  "qemu_drv_create_proc pe nr_cpu_ids =
     (let dir = ''qemu_drv'' in
      if \<not> pe_mkdir pe None then (- 1, [ProcMkdir dir])
      else
        let (ok, ks) = create_proc_cpus pe [0..<nr_cpu_ids] in
        if \<not> ok then (- 1, ProcMkdir dir # ks)
        else if \<not> pe_entry pe None then (- 1, ProcMkdir dir # ks @ [ProcEntry ''fv'' dir (- 1)])
        else (0, ProcMkdir dir # ks @ [ProcEntry ''fv'' dir (- 1)]))"

definition qemu_drv_dev_init :: "kernel_env \<Rightarrow> proc_env \<Rightarrow> nat \<Rightarrow> qemu_drv_device chr_driver \<Rightarrow> 's
    \<Rightarrow> (int \<times> qemu_drv_device chr_driver \<times> 's \<times> kernel_call list) res" where
  "qemu_drv_dev_init env pe nr_cpu_ids drv s =
     (let idx = cd_nb_dev drv in
      bindr (rd (cd_devs drv) idx) (\<lambda>d.
      let drv = drv\<lparr>cd_nb_dev := idx + 1\<rparr>; base_addr = ke_ioremap env QEMU_ADDR_BASE in
      if base_addr = 0 then Inr (- ENOMEM, drv, s, [])
      else
        let (ret, minor, ks) = chr_cdev_setup env drv idx;
            d = d\<lparr>qd_base_addr := base_addr, qd_minor := minor\<rparr>;
            drv = drv\<lparr>cd_devs := (cd_devs drv)[idx := d]\<rparr>
        in if ret \<noteq> 0 then Inr (ret, drv, s, ks)
           else let (ret, ks') = qemu_drv_create_proc pe nr_cpu_ids in Inr (ret, drv, s, ks @ ks')))"

definition qemu_drv_drv_init :: "kernel_env \<Rightarrow> proc_env \<Rightarrow> nat \<Rightarrow> 's \<Rightarrow> (int \<times> qemu_drv_device chr_driver \<times> 's \<times> kernel_call list) res" where
  "qemu_drv_drv_init env pe nr_cpu_ids s = chr_drv_init QEMU_DRV_MAXDEV qemu_drv_zero env (qemu_drv_dev_init env pe nr_cpu_ids) s"

definition qemu_drv_dev_exit :: "int \<Rightarrow> qemu_drv_device \<Rightarrow> 's \<Rightarrow> (qemu_drv_device \<times> 's \<times> kernel_call list) res" where
  "qemu_drv_dev_exit major d s = Inr (d, s, [CdevDel major (qd_minor d)])"

definition qemu_drv_drv_cleanup :: "qemu_drv_device chr_driver \<Rightarrow> 's \<Rightarrow> (qemu_drv_device chr_driver \<times> 's \<times> kernel_call list) res" where
  "qemu_drv_drv_cleanup drv s = chr_drv_cleanup QEMU_DRV_MAXDEV (qemu_drv_dev_exit (cd_major drv)) drv s"

text \<open>A directory of a processor that cannot be made goes unnoticed: its file is made in the root of \<^verbatim>\<open>/proc\<close>.\<close>

theorem proc_dir_unchecked:
  assumes "pe_mkdir pe = (\<lambda>i. i = None)" "\<And>i. pe_entry pe i"
  shows "fst (qemu_drv_create_proc pe n) = 0
    \<and> (i < n \<longrightarrow> ProcEntry ''fv'' [] (int i) \<in> set (snd (qemu_drv_create_proc pe n)))"
proof -
  have "fst (create_proc_cpus pe is) \<and> (\<forall>i\<in>set is. ProcEntry ''fv'' [] (int i) \<in> set (snd (create_proc_cpus pe is)))" for "is"
    using assms by (induction "is") (auto simp: Let_def split: prod.splits)
  from this [of "[0..<n]"] assms show ?thesis
    by (auto simp: qemu_drv_create_proc_def Let_def split: prod.splits)
qed

subsection \<open>With the wrapper\<close>

text \<open>
  The processor that runs the driver and what its accesses need; the state is the wrappers, this wrapper, the network and what QEMU
  has been told.
\<close>

record 'm qemu_conf =
  qk_bus :: "'m \<Rightarrow> vci_request \<Rightarrow> ('m \<times> vci_response) res"
  qk_req :: vci_request
  qk_beyond :: "u8 list"
  qk_junk :: ulong
  qk_etrace :: bool
  qk_now :: u64
  qk_pow :: "ulong option"
  qk_cpu :: nat

definition qemu_io :: "'m qemu_conf \<Rightarrow> (qemu_statics \<times> qemu_wrapper \<times> 'm \<times> qemu_out list) kernel_io" where
  "qemu_io k = \<lparr>
     readl = (\<lambda>a (st, q, b, os).
        bindr (systemc_qemu_read_memory (qk_bus k) (qk_req k) (qk_beyond k) (qk_junk k) st (qk_now k) (qk_pow k) (qk_junk k) (qk_cpu k) a 4 q b)
          (\<lambda>(q, v, b, es). Inr ((st, q, b, os), v))),
     writel = (\<lambda>v a (st, q, b, os).
        bindr (systemc_qemu_write_memory (qk_bus k) (qk_req k) (qk_beyond k) (qk_etrace k) st (qk_cpu k) a v 4 True q b)
          (\<lambda>(st, q, b, os', es). Inr (st, q, b, os @ os'))),
     readb = (\<lambda>a s. Inl OutOfBounds), writeb = (\<lambda>v a s. Inl OutOfBounds),
     mem_get = (\<lambda>a n s. Inl OutOfBounds), mem_put = (\<lambda>a bs s. Inl OutOfBounds)\<rparr>"

definition qemu_hw_ok :: "'m qemu_conf \<Rightarrow> qemu_wrapper \<Rightarrow> bool" where
  "qemu_hw_ok k q \<longleftrightarrow> qk_cpu k < length (qw_cpus q) \<and> qc_base_address (qw_cpus q ! qk_cpu k) = QEMU_ADDR_BASE
     \<and> qc_end_address (qw_cpus q ! qk_cpu k) = QEMU_ADDR_BASE + SIZE_QEMU_WRAPPER_MEMORY - 1"

text \<open>What QEMU is told when a processor gets a level.\<close>

definition level_out :: "qemu_wrapper \<Rightarrow> nat \<Rightarrow> ulong \<Rightarrow> qemu_out list" where
  "level_out q x lvl =
     (if qc_fv_level (qw_cpus q ! x) = lvl then []
      else [SetFvPercent (qc_cpuindex (qw_cpus q ! x)) (of_int \<lfloor>lg_cpu_fv_percents (qw_logs q) ! unat lvl\<rfloor>), Sync (qc_cpuindex (qw_cpus q ! x)),
        EnergyMode (qc_cpuindex (qw_cpus q ! x)) (ETRACE_MODE ETRACE_CPU_RUNNING lvl)])"

text \<open>The number of a processor and a level that fit in the word are found again by the register.\<close>

lemma cpux_fields:
  assumes "unat (cpu::u32) < 2 ^ 8" "unat (lvl::u32) < 2 ^ 24"
  shows "(cpu + push_bit 8 lvl) AND 0xFF = cpu" "drop_bit 8 (cpu + push_bit 8 lvl) = lvl"
proof -
  have p: "unat (push_bit 8 lvl) = 2 ^ 8 * unat lvl"
    using assms(2) by (simp add: push_bit_eq_mult unat_word_ariths)
  have u: "unat (cpu + push_bit 8 lvl) = unat cpu + 2 ^ 8 * unat lvl"
    using assms p by (simp add: unat_word_ariths)
  have "unat ((cpu + push_bit 8 lvl) AND 0xFF) = unat cpu"
    using u assms(1) take_bit_eq_mask [of 8 "cpu + push_bit 8 lvl", symmetric]
    by (simp add: mask_eq_decr_exp take_bit_eq_mod unat_mod_distrib)
  then show "(cpu + push_bit 8 lvl) AND 0xFF = cpu" by (simp only: unsigned_word_eqI)
  have "unat (drop_bit 8 (cpu + push_bit 8 lvl)) = unat lvl"
    using u assms(1) by (simp add: drop_bit_eq_div unat_div_distrib)
  then show "drop_bit 8 (cpu + push_bit 8 lvl) = lvl" by (simp only: unsigned_word_eqI)
qed

lemma set_cpux_register:
  assumes "qemu_hw_ok k q" "unat cpu < length (qw_cpus q)" "cpu \<noteq> - 1" "fv_ok q lvl"
    "data AND 0xFF = cpu" "drop_bit 8 data = lvl"
  shows "writel (qemu_io k) data (QEMU_ADDR_BASE + SET_SYSTEMC_CPUX_FV_LEVEL) (st, q, b, os)
    = Inr (st, q\<lparr>qw_cpus := (qw_cpus q)[unat cpu := (qw_cpus q ! unat cpu)\<lparr>qc_fv_level := lvl\<rparr>]\<rparr>, b, os @ level_out q (unat cpu) lvl)"
  using assms
  by (auto simp: qemu_io_def systemc_qemu_write_memory_def qemu_hw_ok_def own_register_def register_defs QEMU_ADDR_BASE_def
      SIZE_QEMU_WRAPPER_MEMORY_def cpu_register_write_def qw_set_cpu_fv_level_def cpu_set_fv_level_def fv_ok_def level_out_def)

text \<open>
  Claim C22. A program on one processor sets the frequency level of any processor of the wrapper through the driver: that processor has
  the level, QEMU is told its percentage, and the other processors, the logs and the network are as before.
\<close>

theorem driver_sets_one_level:
  assumes "qemu_hw_ok k q" "one_device drv" "qd_base_addr (cd_devs drv ! 0) = QEMU_ADDR_BASE"
    and "unat cpu < length (qw_cpus q)" "unat cpu < 2 ^ 8" "unat lvl < 2 ^ 24" "fv_ok q lvl"
  shows "qemu_drv_chr_ioctl (qemu_io k) (Some 0) QEMU_DRV_IOCS_SET_CPUX_FV buffer (bytes32 cpu @ bytes32 lvl) room drv (st, q, b, os)
    = Inr ((0, []), drv, st,
        q\<lparr>qw_cpus := (qw_cpus q)[unat cpu := (qw_cpus q ! unat cpu)\<lparr>qc_fv_level := lvl\<rparr>]\<rparr>, b, os @ level_out q (unat cpu) lvl)"
proof -
  obtain d where d: "cd_devs drv = [d]" using assms(2) by (cases "cd_devs drv") (auto simp: one_device_def)
  have "cpu \<noteq> - 1"
  proof
    assume "cpu = - 1"
    then have "unat (cpu + 1) = 0" by simp
    then show False using assms(5) by (simp add: unat_word_ariths)
  qed
  then have "writel (qemu_io k) (cpu + push_bit 8 lvl) (QEMU_ADDR_BASE + SET_SYSTEMC_CPUX_FV_LEVEL) (st, q, b, os)
    = Inr (st, q\<lparr>qw_cpus := (qw_cpus q)[unat cpu := (qw_cpus q ! unat cpu)\<lparr>qc_fv_level := lvl\<rparr>]\<rparr>, b, os @ level_out q (unat cpu) lvl)"
    using set_cpux_register [OF assms(1,4) _ assms(7) cpux_fields [OF assms(5,6)]] by blast
  then show ?thesis
    using d assms(3)
    by (simp add: qemu_drv_chr_ioctl_def qemu_drv_codes ioc_defs on_device_def qemu_drv_chr_ioctl_set_cpux_fv_def Let_def)
qed

theorem driver_sets_one_level_witness:
  "qemu_drv_chr_ioctl (qemu_io \<lparr>qk_bus = (\<lambda>b req. Inl Blocked), qk_req = zero_request, qk_beyond = [], qk_junk = 0, qk_etrace = False,
        qk_now = 0, qk_pow = None, qk_cpu = 0\<rparr>)
      (Some 0) QEMU_DRV_IOCS_SET_CPUX_FV 0 (bytes32 1 @ bytes32 2) 0
      \<lparr>cd_major = 250, cd_minor = 0, cd_nb_dev = 1, cd_devs = [\<lparr>qd_minor = 0, qd_base_addr = QEMU_ADDR_BASE\<rparr>]\<rparr>
      (small_statics, small_qemu, (), [])
    = Inr ((0, []), \<lparr>cd_major = 250, cd_minor = 0, cd_nb_dev = 1, cd_devs = [\<lparr>qd_minor = 0, qd_base_addr = QEMU_ADDR_BASE\<rparr>]\<rparr>,
        small_statics, small_qemu\<lparr>qw_cpus := (qw_cpus small_qemu)[unat (1::u32) := (qw_cpus small_qemu ! unat (1::u32))\<lparr>qc_fv_level := 2\<rparr>]\<rparr>,
        (), [] @ level_out small_qemu (unat (1::u32)) 2)"
proof (rule driver_sets_one_level)
  show "fv_ok small_qemu 2" by code_simp
qed (simp_all add: qemu_hw_ok_def one_device_def small_qemu_def small_cpu_def QEMU_ADDR_BASE_def SIZE_QEMU_WRAPPER_MEMORY_def)

text \<open>The level is not compared with the levels there are: a program that asks for one that does not exist ends the simulation.\<close>

theorem driver_level_unchecked:
  assumes "qemu_hw_ok k q" "one_device drv" "qd_base_addr (cd_devs drv ! 0) = QEMU_ADDR_BASE"
    and "lg_cpu_nb_fv_levels (qw_logs q) \<le> unat lvl" "\<exists>c\<in>set (qw_cpus q). qc_fv_level c \<noteq> lvl"
  shows "qemu_drv_chr_ioctl (qemu_io k) (Some 0) QEMU_DRV_IOCS_SET_CPUS_FV buffer (bytes32 lvl) room drv (st, q, b, os) = Inl (Exit 1)"
proof -
  obtain d where d: "cd_devs drv = [d]" using assms(2) by (cases "cd_devs drv") (auto simp: one_device_def)
  have "set_all_fv_level (qw_logs q) lvl (qw_cpus q) = Inl (Exit 1)" using set_all_fv_level_bad assms(4,5) by blast
  then show ?thesis
    using d assms(1,3)
    by (simp add: qemu_drv_chr_ioctl_def qemu_drv_codes ioc_defs on_device_def qemu_drv_chr_ioctl_set_register_32_def qemu_hw_ok_def
        qemu_io_def systemc_qemu_write_memory_def own_register_def register_defs QEMU_ADDR_BASE_def SIZE_QEMU_WRAPPER_MEMORY_def
        cpu_register_write_def qw_set_cpu_fv_level_def)
qed

end
