(* ===== verification/Linux_Irq.thy ===== *)
theory Linux_Irq
  imports Qemu_Driver
begin

text \<open>
  The logical interrupts of the two drivers whose device has an interrupt line (\<^verbatim>\<open>rabbitsfb_int.c\<close> and
  \<^verbatim>\<open>h264dbf_int.c\<close>, which have this code in common): a table of descriptors, each with the bits it stands for and those
  that are pending, the interrupt service routine that serves them, and a task that waits for one. A spin lock is held
  with interrupts off, so what is under it is one step here.
\<close>

definition STATUS_IRQ_INIT :: u32 where "STATUS_IRQ_INIT = 0x1"
definition STATUS_IRQ_QUEUED :: u32 where "STATUS_IRQ_QUEUED = 0x2"
definition STATUS_IRQ_OVERFLOW :: u32 where "STATUS_IRQ_OVERFLOW = 0x3"

record irq_desc =
  iq_type :: u32
  iq_status :: u32
  iq_pending :: u32

definition irq_desc_zero :: irq_desc where
  "irq_desc_zero = \<lparr>iq_type = 0, iq_status = 0, iq_pending = 0\<rparr>"

text \<open>What the structures of both devices end with. \<open>nb_irq_en\<close> is an \<^verbatim>\<open>int\<close>.\<close>

record irq_state =
  is_irq_en :: bool
  is_nb_irq_en :: int
  is_irqs :: "irq_desc list"

definition irq_state_zero :: "nat \<Rightarrow> irq_state" where
  "irq_state_zero maxirq = \<lparr>is_irq_en = False, is_nb_irq_en = 0, is_irqs = replicate maxirq irq_desc_zero\<rparr>"

text \<open>The argument of the \<open>ioctl\<close> commands about interrupts.\<close>

record ioc_irq =
  ir_id :: u32
  ir_type :: u32
  ir_timeout :: u32

definition ioc_irq_of :: "u8 list \<Rightarrow> ioc_irq" where
  "ioc_irq_of bs = \<lparr>ir_id = le32 (take 4 bs), ir_type = le32 (take 4 (drop 4 bs)), ir_timeout = le32 (drop 8 bs)\<rparr>"

text \<open>How a call ends: with a result, or the task sleeps on the wait queue of a descriptor.\<close>

datatype call_end = Returns int | Sleeps nat

subsection \<open>Operations\<close>

text \<open>The body of the loop of the service routine for a descriptor the bits \<open>stat\<close> are for; then the loop.\<close>

definition irq_desc_event :: "u32 \<Rightarrow> irq_desc \<Rightarrow> irq_desc" where
  "irq_desc_event stat d =
     (if stat AND iq_pending d \<noteq> 0 then d\<lparr>iq_status := STATUS_IRQ_OVERFLOW\<rparr>
      else d\<lparr>iq_status := STATUS_IRQ_QUEUED, iq_pending := iq_pending d OR stat\<rparr>)"

fun int_service_loop :: "u32 \<Rightarrow> nat list \<Rightarrow> irq_desc list \<Rightarrow> (irq_desc list \<times> kernel_call list) res" where
  "int_service_loop status [] ds = Inr (ds, [])"
| "int_service_loop status (i # is) ds =
     bindr (rd ds i) (\<lambda>d.
     let stat = status AND iq_type d;
         (ds, ws) = (if stat \<noteq> 0 then (ds[i := irq_desc_event stat d], [WakeUp i]) else (ds, []));
         status = status AND NOT stat
     in if status = 0 then Inr (ds, ws)
        else bindr (int_service_loop status is ds) (\<lambda>(ds, ws'). Inr (ds, ws @ ws')))"

definition int_service_irqs :: "u32 \<Rightarrow> irq_state \<Rightarrow> (irq_state \<times> kernel_call list) res" where
  "int_service_irqs status st =
     bindr (int_service_loop status [0..<nat (is_nb_irq_en st)] (is_irqs st)) (\<lambda>(ds, ws). Inr (st\<lparr>is_irqs := ds\<rparr>, ws))"

text \<open>The loop of \<open>int_enable\<close>.\<close>

definition irqs_init :: "irq_desc list \<Rightarrow> irq_desc list" where
  "irqs_init ds = map (\<lambda>d. irq_desc_zero) ds"

text \<open>Bits of the interrupt enable register of the wrapper, which is mapped at \<open>qemu\<close>.\<close>

definition qemu_enable_irq :: "'s kernel_io \<Rightarrow> ulong \<Rightarrow> ulong \<Rightarrow> 's \<Rightarrow> 's res" where
  "qemu_enable_irq io qemu m s =
     bindr (readl io (qemu + GET_SYSTEMC_INT_ENABLE) s) (\<lambda>(s, v). writel io (v OR m) (qemu + SET_SYSTEMC_INT_ENABLE) s)"

definition qemu_disable_irq :: "'s kernel_io \<Rightarrow> ulong \<Rightarrow> ulong \<Rightarrow> 's \<Rightarrow> 's res" where
  "qemu_disable_irq io qemu m s =
     bindr (readl io (qemu + GET_SYSTEMC_INT_ENABLE) s) (\<lambda>(s, v). writel io (v AND NOT m) (qemu + SET_SYSTEMC_INT_ENABLE) s)"

text \<open>\<open>int_disable\<close>, with what it does to the device.\<close>

definition irq_disable :: "('s \<Rightarrow> 's res) \<Rightarrow> nat \<Rightarrow> irq_state \<Rightarrow> 's \<Rightarrow> (irq_state \<times> 's \<times> kernel_call list) res" where
  "irq_disable disable_device_irq irq st s =
     (let st = st\<lparr>is_nb_irq_en := is_nb_irq_en st - 1\<rparr> in
      if is_nb_irq_en st = 0 then
        bindr (disable_device_irq s) (\<lambda>s. Inr (st\<lparr>is_irq_en := False\<rparr>, s, [FreeIrq irq]))
      else Inr (st, s, []))"

text \<open>\<open>irq_desc->type = irq_type; irq_desc->status = STATUS_IRQ_INIT;\<close> and \<open>irq_desc->type = 0;\<close>\<close>

definition irq_set_type :: "u32 \<Rightarrow> u32 \<Rightarrow> irq_state \<Rightarrow> irq_state res" where
  "irq_set_type id' ty st =
     bindr (rd (is_irqs st) (unat id')) (\<lambda>d.
     Inr (st\<lparr>is_irqs := (is_irqs st)[unat id' := d\<lparr>iq_type := ty, iq_status := STATUS_IRQ_INIT\<rparr>]\<rparr>))"

definition irq_clear_type :: "nat \<Rightarrow> irq_state \<Rightarrow> irq_state res" where
  "irq_clear_type i st =
     bindr (rd (is_irqs st) i) (\<lambda>d. Inr (st\<lparr>is_irqs := (is_irqs st)[i := d\<lparr>iq_type := 0\<rparr>]\<rparr>))"

text \<open>\<open>int_cleanup\<close>\<close>

definition irq_cleanup :: "('s \<Rightarrow> 's res) \<Rightarrow> nat \<Rightarrow> irq_state \<Rightarrow> 's \<Rightarrow> (irq_state \<times> 's \<times> kernel_call list) res" where
  "irq_cleanup disable_device_irq irq st s =
     for_each (\<lambda>i (st, s, ks).
       bindr (irq_clear_type i st) (\<lambda>st.
       bindr (irq_disable disable_device_irq irq st s) (\<lambda>(st, s, ks'). Inr (st, s, ks @ ks'))))
       [0..<nat (is_nb_irq_en st)] (st, s, [])"

text \<open>
  \<open>int_wait\<close>: from its start to \<open>schedule\<close>, or to its end when it does not wait; and from there to the end. What
  was pending goes to the copy of the argument in the handler, which the program does not get.
\<close>

definition irq_wait_end :: "u32 \<Rightarrow> irq_state \<Rightarrow> irq_state res" where
  "irq_wait_end id' st =
     bindr (rd (is_irqs st) (unat id')) (\<lambda>d. Inr (st\<lparr>is_irqs := (is_irqs st)[unat id' := d\<lparr>iq_pending := 0\<rparr>]\<rparr>))"

definition irq_wait_skips :: "ioc_irq \<Rightarrow> irq_state \<Rightarrow> bool res" where
  "irq_wait_skips irq st =
     (if ir_timeout irq = 0 then Inr True
      else bindr (rd (is_irqs st) (unat (ir_id irq))) (\<lambda>d. Inr (iq_pending d AND ir_type irq \<noteq> 0)))"

definition irq_wait :: "nat \<Rightarrow> ioc_irq \<Rightarrow> irq_state \<Rightarrow> (call_end \<times> irq_state) res" where
  "irq_wait maxirq irq st =
     (if unat (ir_id irq) > maxirq then Inr (Returns (- EINVAL), st)
      else bindr (irq_wait_skips irq st) (\<lambda>skips.
        if skips then bindr (irq_wait_end (ir_id irq) st) (\<lambda>st. Inr (Returns 0, st))
        else Inr (Sleeps (unat (ir_id irq)), st)))"

subsection \<open>What a service does\<close>

text \<open>
  With the bits of the descriptors disjoint, a service marks exactly the registered descriptors some of whose bits are
  in the status, and wakes the tasks that wait for them.
\<close>

definition types_disjoint :: "irq_desc list \<Rightarrow> bool" where
  "types_disjoint ds \<longleftrightarrow> (\<forall>i < length ds. \<forall>j < length ds. i \<noteq> j \<longrightarrow> iq_type (ds ! i) AND iq_type (ds ! j) = 0)"

definition served :: "u32 \<Rightarrow> irq_desc list \<Rightarrow> nat list \<Rightarrow> irq_desc list" where
  "served status ds is = map (\<lambda>i. if i \<in> set is \<and> status AND iq_type (ds ! i) \<noteq> 0
     then irq_desc_event (status AND iq_type (ds ! i)) (ds ! i) else ds ! i) [0..<length ds]"

lemma and_not_disjoint: "a AND b = 0 \<Longrightarrow> (s AND NOT (s AND a)) AND b = s AND (b :: u32)"
proof (rule bit_word_eqI)
  fix n assume z: "a AND b = 0" and "n < LENGTH(32)"
  have "\<not> (bit a n \<and> bit b n)" using z by (metis bit_0_eq bit_and_iff bot_apply bot_bool_def)
  then show "bit ((s AND NOT (s AND a)) AND b) n = bit (s AND b) n"
    using \<open>n < LENGTH(32)\<close> by (auto simp: bit_simps)
qed

lemma and_zero_part: "s AND NOT (s AND a) = 0 \<Longrightarrow> a AND b = 0 \<Longrightarrow> s AND b = (0 :: u32)"
  using and_not_disjoint [of a b s] by simp

lemma irq_desc_event_type [simp]: "iq_type (irq_desc_event stat d) = iq_type d"
  by (simp add: irq_desc_event_def)

lemma int_service_loop_served:
  assumes "types_disjoint ds" "distinct is" "\<forall>i\<in>set is. i < length ds"
  shows "int_service_loop status is ds
    = Inr (served status ds is, map WakeUp (filter (\<lambda>i. status AND iq_type (ds ! i) \<noteq> 0) is))"
  using assms
proof (induction "is" arbitrary: ds status)
  case Nil
  then show ?case by (simp add: served_def map_nth)
next
  case (Cons i "is")
  let ?stat = "status AND iq_type (ds ! i)"
  let ?ds = "if ?stat \<noteq> 0 then ds[i := irq_desc_event ?stat (ds ! i)] else ds"
  let ?status = "status AND NOT ?stat"
  have i: "i < length ds" and di: "i \<notin> set is" "distinct is" using Cons.prems by auto
  have len: "length ?ds = length ds" by simp
  have ty: "iq_type (?ds ! j) = iq_type (ds ! j)" if "j < length ds" for j
    using that i by (cases "j = i") simp_all
  have oth: "?ds ! j = ds ! j" if "j \<noteq> i" for j using that by simp
  have dj: "iq_type (ds ! i) AND iq_type (ds ! j) = 0" if "j < length ds" "j \<noteq> i" for j
    using Cons.prems(1) i that by (auto simp: types_disjoint_def)
  have st: "?status AND iq_type (?ds ! j) = status AND iq_type (ds ! j)" if "j < length ds" "j \<noteq> i" for j
    using and_not_disjoint [OF dj [OF that]] ty that by simp
  have td: "types_disjoint ?ds"
    unfolding types_disjoint_def len using Cons.prems(1) ty by (simp add: types_disjoint_def)
  have sv: "served ?status ?ds is = served status ds (i # is)"
  proof (rule nth_equalityI)
    show "length (served ?status ?ds is) = length (served status ds (i # is))" by (simp add: served_def)
    fix j assume "j < length (served ?status ?ds is)"
    then have j: "j < length ds" by (simp add: served_def split: if_splits)
    show "served ?status ?ds is ! j = served status ds (i # is) ! j"
    proof (cases "j = i")
      case True
      then show ?thesis using di i by (simp add: served_def)
    next
      case False
      then show ?thesis using j st [OF j False] oth [OF False] len by (simp add: served_def)
    qed
  qed
  have wk: "filter (\<lambda>j. ?status AND iq_type (?ds ! j) \<noteq> 0) is = filter (\<lambda>j. status AND iq_type (ds ! j) \<noteq> 0) is"
  proof (rule filter_cong [OF refl])
    fix j assume "j \<in> set is"
    then have "j < length ds" "j \<noteq> i" using Cons.prems(3) di(1) by auto
    from st [OF this] show "(?status AND iq_type (?ds ! j) \<noteq> 0) = (status AND iq_type (ds ! j) \<noteq> 0)" by (simp only:)
  qed
  let ?w = "if ?stat \<noteq> 0 then [WakeUp i] else []"
  have eq: "int_service_loop status (i # is) ds = (if ?status = 0 then Inr (?ds, ?w)
      else bindr (int_service_loop ?status is ?ds) (\<lambda>(ds, ws'). Inr (ds, ?w @ ws')))"
    using i by (simp add: Let_def)
  show ?case
  proof (cases "?status = 0")
    case True
    then have z: "status AND iq_type (ds ! j) = 0" if "j < length ds" "j \<noteq> i" for j
      using and_zero_part dj that by blast
    have "served status ds (i # is) = ?ds"
    proof (rule nth_equalityI)
      show "length (served status ds (i # is)) = length ?ds" by (simp add: served_def)
      fix j assume "j < length (served status ds (i # is))"
      then show "served status ds (i # is) ! j = ?ds ! j" using z i by (cases "j = i") (simp_all add: served_def)
    qed
    moreover have "filter (\<lambda>j. status AND iq_type (ds ! j) \<noteq> 0) is = []"
      using z Cons.prems(3) di by (auto simp: filter_empty_conv)
    ultimately show ?thesis unfolding eq using True by simp
  next
    case False
    have "\<forall>j\<in>set is. j < length ?ds" using Cons.prems(3) len by simp
    from Cons.IH [OF td di(2) this, of ?status] show ?thesis
      unfolding eq sv wk using False by simp
  qed
qed

lemma int_service_irqs_served:
  assumes "types_disjoint (is_irqs st)" "nat (is_nb_irq_en st) \<le> length (is_irqs st)"
  shows "int_service_irqs status st = Inr (st\<lparr>is_irqs := served status (is_irqs st) [0..<nat (is_nb_irq_en st)]\<rparr>,
    map WakeUp (filter (\<lambda>i. status AND iq_type (is_irqs st ! i) \<noteq> 0) [0..<nat (is_nb_irq_en st)]))"
  using int_service_loop_served [OF assms(1), of "[0..<nat (is_nb_irq_en st)]" status] assms(2)
  by (simp add: int_service_irqs_def)

text \<open>
  The loop counts registrations, not descriptors: it reaches all that are in use only if they are the first ones of the table.
  Then, descriptor by descriptor, this is what a service does. Bits of which one is pending already are not added.
\<close>

definition registered_first :: "irq_state \<Rightarrow> bool" where
  "registered_first st \<longleftrightarrow> (\<forall>i < length (is_irqs st). iq_type (is_irqs st ! i) \<noteq> 0 \<longrightarrow> int i < is_nb_irq_en st)"

lemma served_nth:
  assumes "i < length ds" "i \<notin> set is \<Longrightarrow> iq_type (ds ! i) = 0"
  shows "served status ds is ! i = (if status AND iq_type (ds ! i) = 0 then ds ! i else irq_desc_event (status AND iq_type (ds ! i)) (ds ! i))"
  using assms by (auto simp: served_def)

lemma int_service_irqs_effect:
  assumes "types_disjoint (is_irqs st)" "nat (is_nb_irq_en st) \<le> length (is_irqs st)" "registered_first st"
  shows "\<exists>ds'. int_service_irqs status st = Inr (st\<lparr>is_irqs := ds'\<rparr>,
      map WakeUp (filter (\<lambda>i. status AND iq_type (is_irqs st ! i) \<noteq> 0) [0..<length (is_irqs st)]))
    \<and> length ds' = length (is_irqs st)
    \<and> (\<forall>i < length (is_irqs st). ds' ! i = (let d = is_irqs st ! i; bits = status AND iq_type d in
        if bits = 0 then d
        else if bits AND iq_pending d = 0 then \<lparr>iq_type = iq_type d, iq_status = STATUS_IRQ_QUEUED, iq_pending = iq_pending d OR bits\<rparr>
        else \<lparr>iq_type = iq_type d, iq_status = STATUS_IRQ_OVERFLOW, iq_pending = iq_pending d\<rparr>))"
proof -
  let ?ds = "is_irqs st" and ?n = "nat (is_nb_irq_en st)"
  have z: "iq_type (?ds ! i) = 0" if "i < length ?ds" "\<not> i < ?n" for i
    using assms(3) that by (auto simp: registered_first_def)
  have up: "[0..<length ?ds] = [0..<?n] @ [?n..<length ?ds]"
    using upt_add_eq_append [of 0 ?n "length ?ds - ?n"] assms(2) by simp
  have "filter (\<lambda>i. status AND iq_type (?ds ! i) \<noteq> 0) [?n..<length ?ds] = []"
    using z by (auto simp: filter_empty_conv)
  then have w: "filter (\<lambda>i. status AND iq_type (?ds ! i) \<noteq> 0) [0..<?n] = filter (\<lambda>i. status AND iq_type (?ds ! i) \<noteq> 0) [0..<length ?ds]"
    unfolding up by simp
  have "served status ?ds [0..<?n] ! i = (let d = ?ds ! i; bits = status AND iq_type d in
        if bits = 0 then d
        else if bits AND iq_pending d = 0 then \<lparr>iq_type = iq_type d, iq_status = STATUS_IRQ_QUEUED, iq_pending = iq_pending d OR bits\<rparr>
        else \<lparr>iq_type = iq_type d, iq_status = STATUS_IRQ_OVERFLOW, iq_pending = iq_pending d\<rparr>)" if "i < length ?ds" for i
    using served_nth [OF that, of "[0..<?n]" status] z [OF that] by (simp add: irq_desc_event_def Let_def)
  then show ?thesis using int_service_irqs_served [OF assms(1,2), of status] w
    by (intro exI [of _ "served status ?ds [0..<?n]"]) (simp add: served_def)
qed

lemma irq_desc_event_pending:
  assumes "stat \<noteq> 0"
  shows "stat AND iq_pending (irq_desc_event stat d) \<noteq> 0"
proof (cases "stat AND iq_pending d = 0")
  case True
  have "stat AND (iq_pending d OR stat) = stat" by (rule bit_word_eqI) (auto simp: bit_simps)
  then show ?thesis using True assms by (simp add: irq_desc_event_def)
qed (simp add: irq_desc_event_def)

lemma served_pending:
  assumes "i \<in> set is" "i < length ds" "status AND iq_type (ds ! i) \<noteq> 0"
  shows "(status AND iq_type (ds ! i)) AND iq_pending (served status ds is ! i) \<noteq> 0"
  using assms irq_desc_event_pending by (simp add: served_def)

text \<open>
  A wake-up can be lost: a task that has found nothing pending, and is then interrupted by the service before it is on the wait
  queue, sleeps although its bit is pending, and the next such interrupt is what wakes it.
\<close>

theorem wakeup_lost:
  assumes "is_irqs st = [d]" "is_nb_irq_en st = 1" "iq_pending d AND ir_type irq = 0" "ir_id irq = 0" "ir_timeout irq \<noteq> 0"
    and "status AND iq_type d = ir_type irq" "ir_type irq \<noteq> 0"
  shows "irq_wait_skips irq st = Inr False"
    and "\<exists>st'. int_service_irqs status st = Inr (st', [WakeUp 0]) \<and> irq_wait_skips irq st' = Inr True"
proof -
  show "irq_wait_skips irq st = Inr False" using assms by (simp add: irq_wait_skips_def)
  have p: "ir_type irq AND iq_pending (irq_desc_event (ir_type irq) d) \<noteq> 0"
    using irq_desc_event_pending [OF assms(7)] .
  have "int_service_irqs status st = Inr (st\<lparr>is_irqs := [irq_desc_event (ir_type irq) d]\<rparr>, [WakeUp 0])"
    using int_service_irqs_served [of st status] assms by (simp add: types_disjoint_def served_def)
  then show "\<exists>st'. int_service_irqs status st = Inr (st', [WakeUp 0]) \<and> irq_wait_skips irq st' = Inr True"
    using p assms(4,5) by (simp add: irq_wait_skips_def and.commute)
qed

text \<open>
  The number of registrations is not the number of descriptors in use: with all descriptors registered and one
  of them twice, the cleanup that \<open>release\<close> calls leaves the table.
\<close>

theorem cleanup_overrun:
  assumes "is_nb_irq_en st = int (length (is_irqs st)) + 1"
  shows "irq_cleanup dis irq st s = Inl OutOfBounds"
proof -
  have run: "for_each (\<lambda>i (st, s, ks). bindr (irq_clear_type i st) (\<lambda>st. bindr (irq_disable dis irq st s)
      (\<lambda>(st, s, ks'). Inr (st, s, ks @ ks')))) [k..<k + m + 1] (st, s, ks) = Inl OutOfBounds"
    if "is_nb_irq_en st = int m + 1" "length (is_irqs st) = k + m" for k m st ks
    using that
  proof (induction m arbitrary: k st ks)
    case 0
    then show ?case by (simp add: irq_clear_type_def)
  next
    case (Suc m)
    have u: "[k..<k + Suc m + 1] = k # [Suc k..<Suc k + m + 1]" by (simp add: upt_rec)
    have "k < length (is_irqs st)" using Suc.prems by simp
    then have c: "irq_clear_type k st = Inr (st\<lparr>is_irqs := (is_irqs st)[k := (is_irqs st ! k)\<lparr>iq_type := 0\<rparr>]\<rparr>)"
      by (simp add: irq_clear_type_def)
    let ?st = "st\<lparr>is_irqs := (is_irqs st)[k := (is_irqs st ! k)\<lparr>iq_type := 0\<rparr>], is_nb_irq_en := int m + 1\<rparr>"
    have "irq_disable dis irq (st\<lparr>is_irqs := (is_irqs st)[k := (is_irqs st ! k)\<lparr>iq_type := 0\<rparr>]\<rparr>) s = Inr (?st, s, [])"
      using Suc.prems(1) by (simp add: irq_disable_def)
    with Suc.IH [of ?st "Suc k" "ks"] Suc.prems(2) c show ?case unfolding u by simp
  qed
  from run [of st "length (is_irqs st)" 0 "[]"] assms show ?thesis
    by (simp add: irq_cleanup_def nat_add_distrib add.commute)
qed

text \<open>
  Nor does it say which descriptors are in use: with one registration, of a descriptor other than the first, the
  service routine does not reach it, and its task is never woken.
\<close>

theorem other_descriptor_unserved:
  assumes "is_nb_irq_en st = 1" "is_irqs st = d0 # ds" "status AND iq_type d0 = 0"
  shows "int_service_irqs status st = Inr (st, [])"
  using assms by (simp add: int_service_irqs_def Let_def)

end
