(* ===== verification/Fb_Driver.thy ===== *)
theory Fb_Driver
  imports Linux_Irq
begin

text \<open>
  The driver of the framebuffer (\<^verbatim>\<open>drivers/rabbitsfb/rabbitsfb_drv.c\<close> and \<^verbatim>\<open>rabbitsfb_int.c\<close>). A program sets the geometry
  and the mode, starts the device, writes frames or maps the memory, and waits for the interrupt. The address
  of the wrapper's registers, \<open>__io_address(QEMU_ADDR_BASE)\<close>, is the argument \<open>qemu\<close>.
\<close>

definition RABBITSFB_MAXDEV :: nat where "RABBITSFB_MAXDEV = 1"
definition RABBITSFB_MAXIRQ :: nat where "RABBITSFB_MAXIRQ = 1"
definition RABBITSFB_IRQ_NO :: nat where "RABBITSFB_IRQ_NO = 34"
definition RABBITSFB_BASE_ADDRESS :: ulong where "RABBITSFB_BASE_ADDRESS = 0xA5000000"
definition RABBITSFB_SIZE :: ulong where "RABBITSFB_SIZE = 0x0000"
definition RABBITSFB_FBADDR :: ulong where "RABBITSFB_FBADDR = 0x0004"
definition RABBITSFB_IRQ_STAT :: ulong where "RABBITSFB_IRQ_STAT = 0x0008"
definition RABBITSFB_IRQCLEAR :: ulong where "RABBITSFB_IRQCLEAR = 0x0008"
definition RABBITSFB_STAT :: ulong where "RABBITSFB_STAT = 0x000C"
definition RABBITSFB_CTRL :: ulong where "RABBITSFB_CTRL = 0x000C"
definition RABBITSFB_MODE :: ulong where "RABBITSFB_MODE = 0x0010"
definition RABBITSFB_MEM_BASE :: ulong where "RABBITSFB_MEM_BASE = 0x1000"
definition RABBITSFB_CTRL_START :: u32 where "RABBITSFB_CTRL_START = 1"
definition RABBITSFB_CTRL_IRQEN :: u32 where "RABBITSFB_CTRL_IRQEN = 2"
definition RABBITSFB_CTRL_DMAEN :: u32 where "RABBITSFB_CTRL_DMAEN = 4"
definition RABBITSFB_CTRL_DISPLAY :: u32 where "RABBITSFB_CTRL_DISPLAY = 8"
definition QEMU_INT_RAMDAC_MASK :: ulong where "QEMU_INT_RAMDAC_MASK = 0x04"
definition RABBITSFB_IOCRESET :: u32 where "RABBITSFB_IOCRESET = IO 0x77 0"
definition RABBITSFB_IOCSSIZE :: u32 where "RABBITSFB_IOCSSIZE = IOW 0x77 1 4"
definition RABBITSFB_IOCSADDR :: u32 where "RABBITSFB_IOCSADDR = IOW 0x77 2 4"
definition RABBITSFB_IOCSIRQREG :: u32 where "RABBITSFB_IOCSIRQREG = IOWR 0x77 3 4"
definition RABBITSFB_IOCSIRQWAIT :: u32 where "RABBITSFB_IOCSIRQWAIT = IOW 0x77 4 4"
definition RABBITSFB_IOCSIRQUNREG :: u32 where "RABBITSFB_IOCSIRQUNREG = IOW 0x77 5 4"
definition RABBITSFB_IOCDMAEN :: u32 where "RABBITSFB_IOCDMAEN = IO 0x77 6"
definition RABBITSFB_IOCDISPLAY :: u32 where "RABBITSFB_IOCDISPLAY = IO 0x77 7"
definition RABBITSFB_IOCSMODE :: u32 where "RABBITSFB_IOCSMODE = IOW 0x77 8 4"

lemmas rabbitsfb_regs = RABBITSFB_BASE_ADDRESS_def RABBITSFB_SIZE_def RABBITSFB_FBADDR_def RABBITSFB_IRQ_STAT_def
  RABBITSFB_IRQCLEAR_def RABBITSFB_STAT_def RABBITSFB_CTRL_def RABBITSFB_MODE_def RABBITSFB_MEM_BASE_def
  RABBITSFB_CTRL_START_def RABBITSFB_CTRL_IRQEN_def RABBITSFB_CTRL_DMAEN_def RABBITSFB_CTRL_DISPLAY_def QEMU_INT_RAMDAC_MASK_def
lemmas rabbitsfb_codes = RABBITSFB_IOCRESET_def RABBITSFB_IOCSSIZE_def RABBITSFB_IOCSADDR_def RABBITSFB_IOCSIRQREG_def
  RABBITSFB_IOCSIRQWAIT_def RABBITSFB_IOCSIRQUNREG_def RABBITSFB_IOCDMAEN_def RABBITSFB_IOCDISPLAY_def RABBITSFB_IOCSMODE_def

subsection \<open>Registers\<close>

record rabbitsfb_device =
  rf_minor :: int
  rf_base_addr :: ulong
  rf_mem_addr :: ulong
  rf_irq :: irq_state

definition rabbitsfb_zero :: rabbitsfb_device where
  "rabbitsfb_zero = \<lparr>rf_minor = 0, rf_base_addr = 0, rf_mem_addr = 0, rf_irq = irq_state_zero RABBITSFB_MAXIRQ\<rparr>"

text \<open>These return 0.\<close>

definition rabbitsfb_stop :: "'s kernel_io \<Rightarrow> rabbitsfb_device \<Rightarrow> 's \<Rightarrow> 's res" where
  "rabbitsfb_stop io d s =
     bindr (readl io (rf_base_addr d + RABBITSFB_CTRL) s) (\<lambda>(s, val).
     writel io (val AND NOT RABBITSFB_CTRL_START) (rf_base_addr d + RABBITSFB_CTRL) s)"

definition rabbitsfb_reset :: "'s kernel_io \<Rightarrow> rabbitsfb_device \<Rightarrow> 's \<Rightarrow> 's res" where
  "rabbitsfb_reset io d s =
     bindr (readl io (rf_base_addr d + RABBITSFB_CTRL) s) (\<lambda>(s, val).
     let val = val AND NOT RABBITSFB_CTRL_START in
     bindr (writel io val (rf_base_addr d + RABBITSFB_CTRL) s) (\<lambda>s.
     writel io (val OR RABBITSFB_CTRL_START) (rf_base_addr d + RABBITSFB_CTRL) s))"

definition rabbitsfb_set_size :: "'s kernel_io \<Rightarrow> rabbitsfb_device \<Rightarrow> u16 \<Rightarrow> u16 \<Rightarrow> 's \<Rightarrow> 's res" where
  "rabbitsfb_set_size io d width height s =
     writel io ((ucast width AND 0xFFFF) OR push_bit 16 (ucast height AND 0xFFFF)) (rf_base_addr d + RABBITSFB_SIZE) s"

definition rabbitsfb_set_addr :: "'s kernel_io \<Rightarrow> rabbitsfb_device \<Rightarrow> u32 \<Rightarrow> 's \<Rightarrow> 's res" where
  "rabbitsfb_set_addr io d addr s = writel io addr (rf_base_addr d + RABBITSFB_FBADDR) s"

definition rabbitsfb_dma_enable :: "'s kernel_io \<Rightarrow> rabbitsfb_device \<Rightarrow> 's \<Rightarrow> 's res" where
  "rabbitsfb_dma_enable io d s =
     bindr (readl io (rf_base_addr d + RABBITSFB_CTRL) s) (\<lambda>(s, val).
     writel io (val OR RABBITSFB_CTRL_DMAEN) (rf_base_addr d + RABBITSFB_CTRL) s)"

definition rabbitsfb_display :: "'s kernel_io \<Rightarrow> rabbitsfb_device \<Rightarrow> 's \<Rightarrow> 's res" where
  "rabbitsfb_display io d s =
     bindr (readl io (rf_base_addr d + RABBITSFB_CTRL) s) (\<lambda>(s, val).
     writel io (val OR RABBITSFB_CTRL_DISPLAY) (rf_base_addr d + RABBITSFB_CTRL) s)"

definition rabbitsfb_set_mode :: "'s kernel_io \<Rightarrow> rabbitsfb_device \<Rightarrow> u32 \<Rightarrow> 's \<Rightarrow> 's res" where
  "rabbitsfb_set_mode io d mode s = writel io mode (rf_base_addr d + RABBITSFB_MODE) s"

subsection \<open>Interrupts\<close>

text \<open>The flag tells whether the interrupt was handled.\<close>

definition rabbitsfb_int_service :: "'s kernel_io \<Rightarrow> rabbitsfb_device \<Rightarrow> 's \<Rightarrow> (bool \<times> rabbitsfb_device \<times> 's \<times> kernel_call list) res" where
  "rabbitsfb_int_service io d s =
     bindr (readl io (rf_base_addr d + RABBITSFB_IRQ_STAT) s) (\<lambda>(s, status).
     if status AND 1 = 0 then Inr (False, d, s, [])
     else
       let status = status AND 1 in
       bindr (writel io 1 (rf_base_addr d + RABBITSFB_IRQCLEAR) s) (\<lambda>s.
       bindr (int_service_irqs status (rf_irq d)) (\<lambda>(st, ws).
       Inr (True, d\<lparr>rf_irq := st\<rparr>, s, ws))))"

definition rabbitsfb_int_enable :: "'s kernel_io \<Rightarrow> kernel_env \<Rightarrow> ulong \<Rightarrow> rabbitsfb_device \<Rightarrow> 's
    \<Rightarrow> (int \<times> rabbitsfb_device \<times> 's \<times> kernel_call list) res" where
  "rabbitsfb_int_enable io env qemu d s =
     (let enabled = (\<lambda>d. d\<lparr>rf_irq := (rf_irq d)\<lparr>is_nb_irq_en := is_nb_irq_en (rf_irq d) + 1\<rparr>\<rparr>) in
      if is_irq_en (rf_irq d) then Inr (0, enabled d, s, [])
      else
        bindr (writel io 1 (rf_base_addr d + RABBITSFB_IRQCLEAR) s) (\<lambda>s.
        let d = d\<lparr>rf_irq := (rf_irq d)\<lparr>is_irqs := irqs_init (is_irqs (rf_irq d))\<rparr>\<rparr> in
        if ke_request_irq env \<noteq> 0 then Inr (- EINVAL, d, s, [RequestIrq RABBITSFB_IRQ_NO])
        else
          bindr (qemu_enable_irq io qemu QEMU_INT_RAMDAC_MASK s) (\<lambda>s.
          bindr (readl io (rf_base_addr d + RABBITSFB_STAT) s) (\<lambda>(s, fb_old_status).
          bindr (writel io (fb_old_status OR RABBITSFB_CTRL_IRQEN) (rf_base_addr d + RABBITSFB_CTRL) s) (\<lambda>s.
          Inr (0, enabled (d\<lparr>rf_irq := (rf_irq d)\<lparr>is_irq_en := True\<rparr>\<rparr>), s, [RequestIrq RABBITSFB_IRQ_NO]))))))"

definition rabbitsfb_disable_device_irq :: "'s kernel_io \<Rightarrow> ulong \<Rightarrow> ulong \<Rightarrow> 's \<Rightarrow> 's res" where
  "rabbitsfb_disable_device_irq io qemu base s =
     bindr (readl io (base + RABBITSFB_STAT) s) (\<lambda>(s, fb_old_status).
     bindr (writel io (fb_old_status AND NOT RABBITSFB_CTRL_IRQEN) (base + RABBITSFB_CTRL) s) (\<lambda>s.
     qemu_disable_irq io qemu QEMU_INT_RAMDAC_MASK s))"

definition rabbitsfb_int_disable :: "'s kernel_io \<Rightarrow> ulong \<Rightarrow> rabbitsfb_device \<Rightarrow> 's \<Rightarrow> (rabbitsfb_device \<times> 's \<times> kernel_call list) res" where
  "rabbitsfb_int_disable io qemu d s =
     bindr (irq_disable (rabbitsfb_disable_device_irq io qemu (rf_base_addr d)) RABBITSFB_IRQ_NO (rf_irq d) s) (\<lambda>(st, s, ks).
     Inr (d\<lparr>rf_irq := st\<rparr>, s, ks))"

definition rabbitsfb_int_cleanup :: "'s kernel_io \<Rightarrow> ulong \<Rightarrow> rabbitsfb_device \<Rightarrow> 's \<Rightarrow> (rabbitsfb_device \<times> 's \<times> kernel_call list) res" where
  "rabbitsfb_int_cleanup io qemu d s =
     bindr (irq_cleanup (rabbitsfb_disable_device_irq io qemu (rf_base_addr d)) RABBITSFB_IRQ_NO (rf_irq d) s) (\<lambda>(st, s, ks).
     Inr (d\<lparr>rf_irq := st\<rparr>, s, ks))"

text \<open>The test of the number is for more than the size of the table. What \<open>int_enable\<close> returns is ignored.\<close>

definition rabbitsfb_int_register :: "'s kernel_io \<Rightarrow> kernel_env \<Rightarrow> ulong \<Rightarrow> ioc_irq \<Rightarrow> rabbitsfb_device \<Rightarrow> 's
    \<Rightarrow> (int \<times> rabbitsfb_device \<times> 's \<times> kernel_call list) res" where
  "rabbitsfb_int_register io env qemu irq d s =
     (if unat (ir_id irq) > RABBITSFB_MAXIRQ then Inr (- EINVAL, d, s, [])
      else
        bindr (rabbitsfb_int_enable io env qemu d s) (\<lambda>(_, d, s, ks).
        bindr (irq_set_type (ir_id irq) (ir_type irq) (rf_irq d)) (\<lambda>st. Inr (0, d\<lparr>rf_irq := st\<rparr>, s, ks))))"

definition rabbitsfb_int_wait :: "ioc_irq \<Rightarrow> rabbitsfb_device \<Rightarrow> (call_end \<times> rabbitsfb_device) res" where
  "rabbitsfb_int_wait irq d = bindr (irq_wait RABBITSFB_MAXIRQ irq (rf_irq d)) (\<lambda>(r, st). Inr (r, d\<lparr>rf_irq := st\<rparr>))"

text \<open>The rest of the call once the task is awake.\<close>

definition rabbitsfb_int_wait_end :: "ioc_irq \<Rightarrow> rabbitsfb_device \<Rightarrow> (int \<times> rabbitsfb_device) res" where
  "rabbitsfb_int_wait_end irq d = bindr (irq_wait_end (ir_id irq) (rf_irq d)) (\<lambda>st. Inr (0, d\<lparr>rf_irq := st\<rparr>))"

definition rabbitsfb_int_unregister :: "'s kernel_io \<Rightarrow> ulong \<Rightarrow> ioc_irq \<Rightarrow> rabbitsfb_device \<Rightarrow> 's
    \<Rightarrow> (int \<times> rabbitsfb_device \<times> 's \<times> kernel_call list) res" where
  "rabbitsfb_int_unregister io qemu irq d s =
     (if unat (ir_id irq) > RABBITSFB_MAXIRQ then Inr (- EINVAL, d, s, [])
      else
        bindr (irq_clear_type (unat (ir_id irq)) (rf_irq d)) (\<lambda>st.
        bindr (rabbitsfb_int_disable io qemu (d\<lparr>rf_irq := st\<rparr>) s) (\<lambda>(d, s, ks). Inr (0, d, s, ks))))"

subsection \<open>Calls\<close>

definition rabbitsfb_chr_open :: "int \<Rightarrow> int \<Rightarrow> rabbitsfb_device chr_driver \<Rightarrow> int \<times> nat option" where
  "rabbitsfb_chr_open major minor drv = (case chr_open_index drv major minor of Inl ret \<Rightarrow> (ret, None) | Inr i \<Rightarrow> (0, Some i))"

text \<open>
  The command of an \<open>ioctl\<close> on a device: the bytes that can be read from the user's buffer on are \<open>user\<close>. The first result
  has how the call ends and what the kernel is told.
\<close>

definition returning :: "rabbitsfb_device \<Rightarrow> 's res \<Rightarrow> ((call_end \<times> kernel_call list) \<times> rabbitsfb_device \<times> 's) res" where
  "returning d r = bindr r (\<lambda>s. Inr ((Returns 0, []), d, s))"

definition returning4 :: "(int \<times> rabbitsfb_device \<times> 's \<times> kernel_call list) res \<Rightarrow> ((call_end \<times> kernel_call list) \<times> rabbitsfb_device \<times> 's) res" where
  "returning4 r = bindr r (\<lambda>(ret, d, s, ks). Inr ((Returns ret, ks), d, s))"

definition rabbitsfb_command :: "'s kernel_io \<Rightarrow> kernel_env \<Rightarrow> ulong \<Rightarrow> u32 \<Rightarrow> u8 list \<Rightarrow> rabbitsfb_device \<Rightarrow> 's
    \<Rightarrow> ((call_end \<times> kernel_call list) \<times> rabbitsfb_device \<times> 's) res" where
  "rabbitsfb_command io env qemu code user d s =
     (let fails = (\<lambda>cpy. Inr ((Returns cpy, []), d, s)) in
      if code = RABBITSFB_IOCRESET then returning d (rabbitsfb_reset io d s)
      else if code = RABBITSFB_IOCSSIZE then
        COPY_FROM_USER user 4 fails (\<lambda>bs. returning d (rabbitsfb_set_size io d (ucast (le32 bs)) (ucast (drop_bit 16 (le32 bs))) s))
      else if code = RABBITSFB_IOCSADDR then COPY_FROM_USER user 4 fails (\<lambda>bs. returning d (rabbitsfb_set_addr io d (le32 bs) s))
      else if code = RABBITSFB_IOCSIRQREG then
        COPY_FROM_USER user 12 fails (\<lambda>bs. returning4 (rabbitsfb_int_register io env qemu (ioc_irq_of bs) d s))
      else if code = RABBITSFB_IOCSIRQWAIT then
        COPY_FROM_USER user 12 fails (\<lambda>bs. bindr (rabbitsfb_int_wait (ioc_irq_of bs) d) (\<lambda>(r, d). Inr ((r, []), d, s)))
      else if code = RABBITSFB_IOCSIRQUNREG then
        COPY_FROM_USER user 12 fails (\<lambda>bs. returning4 (rabbitsfb_int_unregister io qemu (ioc_irq_of bs) d s))
      else if code = RABBITSFB_IOCDMAEN then returning d (rabbitsfb_dma_enable io d s)
      else if code = RABBITSFB_IOCDISPLAY then returning d (rabbitsfb_display io d s)
      else if code = RABBITSFB_IOCSMODE then COPY_FROM_USER user 4 fails (\<lambda>bs. returning d (rabbitsfb_set_mode io d (le32 bs) s))
      else Inr ((Returns (- ENOTTY), []), d, s))"

definition rabbitsfb_chr_ioctl :: "'s kernel_io \<Rightarrow> kernel_env \<Rightarrow> ulong \<Rightarrow> nat option \<Rightarrow> u32 \<Rightarrow> u8 list \<Rightarrow> rabbitsfb_device chr_driver \<Rightarrow> 's
    \<Rightarrow> ((call_end \<times> kernel_call list) \<times> rabbitsfb_device chr_driver \<times> 's) res" where
  "rabbitsfb_chr_ioctl io env qemu file code user drv s =
     (case file of
        None \<Rightarrow> Inr ((Returns (- EBADF), []), drv, s)
      | Some i \<Rightarrow> on_device drv i (\<lambda>d. rabbitsfb_command io env qemu code user d s))"

definition rabbitsfb_chr_release :: "'s kernel_io \<Rightarrow> ulong \<Rightarrow> rabbitsfb_device \<Rightarrow> 's
    \<Rightarrow> ((int \<times> kernel_call list) \<times> rabbitsfb_device \<times> 's) res" where
  "rabbitsfb_chr_release io qemu d s =
     bindr (rabbitsfb_int_cleanup io qemu d s) (\<lambda>(d, s, ks).
     bindr (rabbitsfb_stop io d s) (\<lambda>s. Inr ((0, ks), d, s)))"

text \<open>\<open>memcpy_toio\<close>, byte by byte.\<close>

definition memcpy_toio :: "'s kernel_io \<Rightarrow> ulong \<Rightarrow> u8 list \<Rightarrow> 's \<Rightarrow> 's res" where
  "memcpy_toio io a bs s = for_each (\<lambda>i s. writeb io (bs ! i) (a + of_nat i) s) [0..<length bs] s"

text \<open>
  \<open>write\<close>: of the bytes in user memory, \<open>data\<close> can be read. An offset that is not 0 only gives a message, and the result
  is not the number of bytes.
\<close>

definition rabbitsfb_chr_write :: "'s kernel_io \<Rightarrow> kernel_env \<Rightarrow> u8 list \<Rightarrow> nat \<Rightarrow> rabbitsfb_device \<Rightarrow> 's
    \<Rightarrow> ((int \<times> kernel_call list) \<times> rabbitsfb_device \<times> 's) res" where
  "rabbitsfb_chr_write io env data sz d s =
     (if ke_kmalloc env = 0 then Inr ((- ENOMEM, []), d, s)
      else let (buf, left) = copy_from_user data sz in
        if left \<noteq> 0 then Inr ((- EFAULT, [Kfree (ke_kmalloc env)]), d, s)
        else bindr (memcpy_toio io (rf_mem_addr d) buf s) (\<lambda>s. Inr ((0, [Kfree (ke_kmalloc env)]), d, s)))"

text \<open>
  \<open>mmap\<close> of the area from \<open>vm_start\<close> to \<open>vm_end\<close>: the result, and what \<open>io_remap_pfn_range\<close> gets, the
  address, the page (of 4 KiB) and the size; the flags of the area are set too.
\<close>

definition rabbitsfb_chr_mmap :: "ulong \<Rightarrow> ulong \<Rightarrow> int \<times> (ulong \<times> ulong \<times> ulong)" where
  "rabbitsfb_chr_mmap vm_start vm_end =
     (let vsize = vm_end - vm_start; physical = RABBITSFB_BASE_ADDRESS + RABBITSFB_MEM_BASE
      in (0, (vm_start, drop_bit 12 physical, vsize)))"

subsection \<open>The module\<close>

definition rabbitsfb_dev_init :: "kernel_env \<Rightarrow> rabbitsfb_device chr_driver \<Rightarrow> 's
    \<Rightarrow> (int \<times> rabbitsfb_device chr_driver \<times> 's \<times> kernel_call list) res" where
  "rabbitsfb_dev_init env drv s =
     (let idx = cd_nb_dev drv in
      bindr (rd (cd_devs drv) idx) (\<lambda>d.
      let drv = drv\<lparr>cd_nb_dev := idx + 1\<rparr>; upd = (\<lambda>d drv. drv\<lparr>cd_devs := (cd_devs drv)[idx := d]\<rparr>);
          base_addr = ke_ioremap env RABBITSFB_BASE_ADDRESS; mem_addr = ke_ioremap env (RABBITSFB_BASE_ADDRESS + RABBITSFB_MEM_BASE)
      in if base_addr = 0 then Inr (- ENOMEM, drv, s, [])
         else
           let d = d\<lparr>rf_base_addr := base_addr\<rparr> in
           if mem_addr = 0 then Inr (- ENOMEM, upd d drv, s, [])
           else
             let (ret, minor, ks) = chr_cdev_setup env drv idx;
                 d = d\<lparr>rf_mem_addr := mem_addr, rf_minor := minor\<rparr>
             in Inr (0, upd d drv, s, ks)))"

definition rabbitsfb_dev_exit :: "'s kernel_io \<Rightarrow> ulong \<Rightarrow> int \<Rightarrow> rabbitsfb_device \<Rightarrow> 's \<Rightarrow> (rabbitsfb_device \<times> 's \<times> kernel_call list) res" where
  "rabbitsfb_dev_exit io qemu major d s =
     bindr (rabbitsfb_int_cleanup io qemu d s) (\<lambda>(d, s, ks).
     Inr (d, s, CdevDel major (rf_minor d) # ks @ [Iounmap (rf_base_addr d), Iounmap (rf_mem_addr d)]))"

definition rabbitsfb_drv_init :: "kernel_env \<Rightarrow> 's \<Rightarrow> (int \<times> rabbitsfb_device chr_driver \<times> 's \<times> kernel_call list) res" where
  "rabbitsfb_drv_init env s = chr_drv_init RABBITSFB_MAXDEV rabbitsfb_zero env (rabbitsfb_dev_init env) s"

definition rabbitsfb_drv_cleanup :: "'s kernel_io \<Rightarrow> ulong \<Rightarrow> rabbitsfb_device chr_driver \<Rightarrow> 's
    \<Rightarrow> (rabbitsfb_device chr_driver \<times> 's \<times> kernel_call list) res" where
  "rabbitsfb_drv_cleanup io qemu drv s = chr_drv_cleanup RABBITSFB_MAXDEV (rabbitsfb_dev_exit io qemu (cd_major drv)) drv s"

text \<open>The number of the first interrupt behind the table passes the test, and the store to its descriptor leaves the table.\<close>

theorem irq_id_overrun:
  assumes "is_irq_en (rf_irq d)" "length (is_irqs (rf_irq d)) = RABBITSFB_MAXIRQ" "ir_id irq = 1"
  shows "rabbitsfb_int_register io env qemu irq d s = Inl OutOfBounds"
    and "ir_timeout irq \<noteq> 0 \<Longrightarrow> rabbitsfb_int_wait irq d = Inl OutOfBounds"
  using assms by (simp_all add: rabbitsfb_int_register_def rabbitsfb_int_enable_def RABBITSFB_MAXIRQ_def irq_set_type_def
      rabbitsfb_int_wait_def irq_wait_def irq_wait_skips_def)

end
