(* ===== verification/Fb_Driver_System.thy ===== *)
theory Fb_Driver_System
  imports Fb_Driver Fb_Viewer
begin

text \<open>
  The driver of the framebuffer together with the framebuffer and its viewer: what a program writes and displays through the driver is
  what the viewer draws, and the interrupt of a displayed frame reaches the task that waits for it.
\<close>

subsection \<open>A store of one byte\<close>

lemma lane_cases: "l < (8::nat) \<Longrightarrow> l = 0 \<or> l = 1 \<or> l = 2 \<or> l = 3 \<or> l = 4 \<or> l = 5 \<or> l = 6 \<or> l = 7"
  by linarith

lemma lane_be_byte: "l < 8 \<Longrightarrow> lane_be (lanes_mask l 1) = push_bit (l mod 4) 1"
  by (drule lane_cases, elim disjE) (simp_all add: lane_be_def lanes_mask_def push_bit_eq_mult drop_bit_eq_div)

lemma high_lane_byte: "l < 8 \<Longrightarrow> (lanes_mask l 1 AND 0xF0 \<noteq> 0) = (4 \<le> l)"
  by (drule lane_cases, elim disjE) (simp_all add: lanes_mask_def push_bit_eq_mult)

lemma word_of_lane: "(u - u mod 8) div 4 + (if 4 \<le> u mod 8 then 1 else 0) = u div (4::nat)"
proof -
  obtain q r where u: "u = 8 * q + r" "r < 8" by (metis mult_div_mod_eq mod_less_divisor zero_less_numeral)
  have "r div 4 = (if 4 \<le> r then 1 else 0)" using u(2) by (auto simp: div_nat_eqI)
  moreover have "(8 * q + r) div 4 = 2 * q + r div 4" by presburger
  ultimately show ?thesis using u(2) by (simp add: u(1))
qed

lemma bytes32_take4: "length bs = 4 \<Longrightarrow> bytes32 (le32 bs) = bs"
  by (rule bytes32_le32)

lemma reg_index_byte: "reg_index (ofs AND 0xFFFFFFF8) (lanes_mask (lane_ofs ofs) 1) = drop_bit 2 ofs"
proof -
  have l: "lane_ofs ofs = unat ofs mod 8" by (rule lane_ofs_mod)
  have d: "unat (drop_bit 2 x) = unat x div 4" for x :: ulong by (simp add: drop_bit_eq_div unat_div_distrib)
  have h: "(lanes_mask (lane_ofs ofs) 1 AND 0xF0 \<noteq> 0) = (4 \<le> unat ofs mod 8)" using high_lane_byte [of "lane_ofs ofs"] l by simp
  note e = word_of_lane
  define y where "y = drop_bit 2 (ofs AND 0xFFFFFFF8)"
  have y: "unat y = (unat ofs - unat ofs mod 8) div 4" unfolding y_def d and_align8 ..
  have "unat (y + (if 4 \<le> unat ofs mod 8 then 1 else 0)) = unat (drop_bit 2 ofs)"
  proof (cases "4 \<le> unat ofs mod 8")
    case True
    then have x: "unat y + 1 = unat ofs div 4" using e [of "unat ofs"] by (simp add: y)
    moreover have "unat ofs < 2 ^ 32" using unsigned_less [of ofs] by simp
    ultimately have "unat (y + 1) = unat y + 1" by (simp add: unat_word_ariths)
    then show ?thesis unfolding d using True x by simp
  next
    case False
    then show ?thesis unfolding d using e [of "unat ofs"] by (simp add: y)
  qed
  then have "y + (if 4 \<le> unat ofs mod 8 then 1 else 0) = drop_bit 2 ofs" by (simp only: unsigned_word_eqI)
  then show ?thesis using h unfolding reg_index_def y_def by (simp only: split: if_splits) simp_all
qed

lemma reg_word_byte:
  assumes "l < 8"
  shows "bytes32 (reg_word (put_bytes (replicate 8 0) l [b]) (lanes_mask l 1)) ! (l mod 4) = b"
proof -
  have r: "reg_lane (lanes_mask l 1) = l div 4" using high_lane_byte [OF assms] assms by (auto simp: reg_lane_def)
  have len: "length (put_bytes (replicate 8 0) l [b]) = 8" using assms by (simp add: put_bytes_def)
  let ?w = "take 4 (drop (4 * (l div 4)) (put_bytes (replicate 8 0) l [b]))"
  have "l div 4 \<le> 1" using assms by simp
  then have "length ?w = 4" using len by simp
  moreover have "4 * (l div 4) + l mod 4 = l" by simp
  then have "?w ! (l mod 4) = b" using assms len by (simp add: put_bytes_def nth_append minus_mult_div_eq_mod)
  ultimately show ?thesis unfolding reg_word_def r u32_at_def by (simp only: bytes32_take4)
qed

lemma dev_store_byte:
  assumes "\<And>req ofs' be data. reg_index ofs' be = drop_bit 2 ofs \<Longrightarrow> lane_be be = push_bit (unat ofs mod 4) 1 \<Longrightarrow>
      bytes32 (reg_word data be) ! (unat ofs mod 4) = v \<Longrightarrow> length data = 8 \<Longrightarrow> rcv req s ofs' be data True = Inr (s', es, data, bErr)"
  shows "dev_store rcv junk ofs 1 (ucast v) s = Inr (s', es)"
proof -
  have l: "lane_ofs ofs = unat ofs mod 8" "lane_ofs ofs < 8" by (simp_all add: lane_ofs_mod)
  have m: "lane_ofs ofs mod 4 = unat ofs mod 4" unfolding l(1) by (simp add: mod_mod_cancel)
  have "aligned_access ofs 1" by (simp add: aligned_access_def)
  moreover have b1: "take 1 (bytes32 (ucast v)) = [v]"
    by (simp add: bytes32_def) (rule bit_word_eqI, simp add: bit_simps)
  moreover have "length (put_bytes (replicate 8 0) (lane_ofs ofs) [v]) = 8" using l(2) by (simp add: put_bytes_def)
  note assms [OF reg_index_byte, unfolded m [symmetric], OF lane_be_byte [OF l(2)] reg_word_byte [OF l(2)] this]
  ultimately show ?thesis using send_req_aligned [of ofs 1 True "bytes32 (ucast v)" junk 0 0] by (simp add: dev_store_def)
qed


subsection \<open>The driver, the device and the viewer\<close>

text \<open>
  What an access of the driver needs, and what SDL gives a viewer that starts, the masks of a pixel and the memory of the
  surface. Other addresses, those of the wrapper's registers, are served by \<open>fk_other\<close>.
\<close>

record 'q fb_conf =
  fk_req :: vci_request
  fk_rdata :: "u8 list"
  fk_shm_ok :: "u32 \<Rightarrow> bool"
  fk_masks :: pix_fmt
  fk_pixels :: "u8 list"
  fk_other :: "'q kernel_io"

text \<open>
  The device, the number of viewers started so far, the viewer's process (\<open>None\<close> when there is none, or it has ended) and the
  pictures drawn on the screen.
\<close>

record fb_system =
  sy_dev :: fb_device
  sy_nb :: nat
  sy_viewer :: "fb_viewer option"
  sy_drawn :: "u8 list list"

text \<open>
  What the device tells the viewer. The process is another one than the simulation's: when it ends, with an error or
  by a fault, the simulation goes on. It has its configuration before the simulation goes on, and it handles every signal
  before the next access to the device. Which of the two shared buffers it draws is up to its own index.
\<close>

fun viewer_told :: "'q fb_conf \<Rightarrow> fb_out \<Rightarrow> fb_system \<Rightarrow> fb_system" where
  "viewer_told k (FbViewerStart w h m) s =
     (case viewer_main (fk_masks k) (fk_pixels k) (unat (of_int (fd_buf_size (sy_dev s)) :: u32)) (of_int w) (of_int h) m of
        Inl e \<Rightarrow> s\<lparr>sy_viewer := None\<rparr>
      | Inr v \<Rightarrow> s\<lparr>sy_viewer := Some v\<rparr>)"
| "viewer_told k FbViewerShow s =
     (case sy_viewer s of
        None \<Rightarrow> s
      | Some v \<Rightarrow> (case bindr (fb_bufs (fd_io (sy_dev s))) (\<lambda>bufs. viewer_refresh bufs v) of
          Inl e \<Rightarrow> s\<lparr>sy_viewer := None\<rparr>
        | Inr v \<Rightarrow> s\<lparr>sy_viewer := Some v, sy_drawn := sy_drawn s @ [vw_pixels v]\<rparr>))"
| "viewer_told k FbViewerStop s = s\<lparr>sy_viewer := None\<rparr>"

text \<open>The threads of the device, for an event its slave has notified, when no transfer of its bus master is programmed.\<close>

definition fb_thread_run :: "'q fb_conf \<Rightarrow> fb_event \<Rightarrow> fb_system \<Rightarrow> fb_system res" where
  "fb_thread_run k e s =
     (case e of
        FbStartStop \<Rightarrow> bindr (fb_start_stop_thread (fk_shm_ok k) (sy_nb s) (sy_dev s)) (\<lambda>(d, nb, os).
          Inr (fold (viewer_told k) os (s\<lparr>sy_dev := d, sy_nb := nb\<rparr>)))
      | FbIrqUpdate \<Rightarrow> Inr (s\<lparr>sy_dev := fb_irq_update_thread (sy_dev s)\<rparr>)
      | FbDisplay \<Rightarrow> bindr (fb_display_thread (\<lambda>b req. Inl Blocked) (fk_req k) (sy_dev s) ()) (\<lambda>(d, b, os, es).
          let s = fold (viewer_told k) os (s\<lparr>sy_dev := d\<rparr>) in
          Inr (s\<lparr>sy_dev := fb_irq_update_thread (sy_dev s)\<rparr>)))"

text \<open>An access of the driver: the slave serves it, and the threads it has notified run before the processor gets on.\<close>

definition fb_served :: "'q fb_conf \<Rightarrow> fb_io_resource \<Rightarrow> fb_event list \<Rightarrow> fb_system \<Rightarrow> fb_system res" where
  "fb_served k io es s = for_each (fb_thread_run k) es (s\<lparr>sy_dev := (sy_dev s)\<lparr>fd_io := io\<rparr>\<rparr>)"

definition fb_address :: "ulong \<Rightarrow> bool" where
  "fb_address a \<longleftrightarrow> RABBITSFB_BASE_ADDRESS \<le> a \<and> a < RABBITSFB_BASE_ADDRESS + 0x401000"

definition fb_driver_store :: "'q fb_conf \<Rightarrow> ulong \<Rightarrow> ulong \<Rightarrow> u32 \<Rightarrow> fb_system \<Rightarrow> fb_system res" where
  "fb_driver_store k ofs n v s =
     bindr (dev_store fb_rcv_rqst (fk_req k) ofs n v (fd_io (sy_dev s))) (\<lambda>(io, es). fb_served k io es s)"

definition fb_io :: "'q fb_conf \<Rightarrow> (fb_system \<times> 'q) kernel_io" where
  "fb_io k = \<lparr>
     readl = (\<lambda>a (s, q). if fb_address a
        then bindr (dev_load fb_rcv_rqst (fk_req k) (fk_rdata k) (a - RABBITSFB_BASE_ADDRESS) 4 (fd_io (sy_dev s)))
          (\<lambda>(io, es, v). bindr (fb_served k io es s) (\<lambda>s. Inr ((s, q), v)))
        else bindr (readl (fk_other k) a q) (\<lambda>(q, v). Inr ((s, q), v))),
     writel = (\<lambda>v a (s, q). if fb_address a
        then bindr (fb_driver_store k (a - RABBITSFB_BASE_ADDRESS) 4 v s) (\<lambda>s. Inr (s, q))
        else bindr (writel (fk_other k) v a q) (\<lambda>q. Inr (s, q))),
     readb = (\<lambda>a s. Inl OutOfBounds),
     writeb = (\<lambda>v a (s, q). if fb_address a
        then bindr (fb_driver_store k (a - RABBITSFB_BASE_ADDRESS) 1 (ucast v) s) (\<lambda>s. Inr (s, q)) else Inl OutOfBounds),
     mem_get = (\<lambda>a n s. Inl OutOfBounds), mem_put = (\<lambda>a bs s. Inl OutOfBounds)\<rparr>"

text \<open>A program's calls on the opened device.\<close>

datatype fb_call = Ioctl u32 "u8 list" | Write "u8 list"

fun fb_calls :: "'q fb_conf \<Rightarrow> kernel_env \<Rightarrow> ulong \<Rightarrow> fb_call list \<Rightarrow> rabbitsfb_device chr_driver \<Rightarrow> fb_system \<Rightarrow> 'q
    \<Rightarrow> (rabbitsfb_device chr_driver \<times> fb_system \<times> 'q \<times> call_end list) res" where
  "fb_calls k env qemu [] drv s q = Inr (drv, s, q, [])"
| "fb_calls k env qemu (c # cs) drv s q =
     bindr (case c of
         Ioctl code user \<Rightarrow> rabbitsfb_chr_ioctl (fb_io k) env qemu (Some 0) code user drv (s, q)
       | Write data \<Rightarrow> on_device drv 0 (\<lambda>dev. bindr (rabbitsfb_chr_write (fb_io k) env data (length data) dev (s, q))
           (\<lambda>((ret, ks), r). Inr ((Returns ret, ks), r))))
       (\<lambda>((r, ks), drv, s, q).
     bindr (fb_calls k env qemu cs drv s q) (\<lambda>(drv, s, q, rs). Inr (drv, s, q, r # rs)))"

subsection \<open>Registers through the driver\<close>

definition with_regs_fb :: "fb_device \<Rightarrow> fb_regs \<Rightarrow> fb_device" where
  "with_regs_fb d r = d\<lparr>fd_io := (fd_io d)\<lparr>io_regs := r\<rparr>\<rparr>"

lemma fb_store_reg:
  assumes "unat ofs mod 4 = 0" "fb_address (RABBITSFB_BASE_ADDRESS + ofs)"
    and "\<And>ofs' be data. reg_index ofs' be = drop_bit 2 ofs \<Longrightarrow> reg_word data be = v \<Longrightarrow> fb_write (fd_io (sy_dev s)) ofs' be data = Inr (io', es')"
  shows "writel (fb_io k) v (RABBITSFB_BASE_ADDRESS + ofs) (s, q) = bindr (fb_served k io' es' s) (\<lambda>s. Inr (s, q))"
proof -
  have "dev_store fb_rcv_rqst (fk_req k) ofs 4 v (fd_io (sy_dev s)) = Inr (io', es')"
    by (rule dev_store_word [where bErr = False, OF assms(1)]) (simp add: fb_rcv_rqst_def assms(3))
  then show ?thesis using assms(2) by (simp add: fb_io_def fb_driver_store_def)
qed

lemma fb_load_reg:
  assumes "unat ofs mod 4 = 0" "fb_address (RABBITSFB_BASE_ADDRESS + ofs)" "length (fk_rdata k) = 8"
    and "\<And>ofs' be. reg_index ofs' be = drop_bit 2 ofs \<Longrightarrow> fb_read (fd_io (sy_dev s)) ofs' be = Inr v"
  shows "readl (fb_io k) (RABBITSFB_BASE_ADDRESS + ofs) (s, q) = Inr ((s, q), v)"
proof -
  have "dev_load fb_rcv_rqst (fk_req k) (fk_rdata k) ofs 4 (fd_io (sy_dev s)) = Inr (fd_io (sy_dev s), [], v)"
    by (rule dev_load_word [where bErr = False, OF assms(1,3)]) (simp add: fb_rcv_rqst_def assms(4))
  then show ?thesis using assms(2) by (simp add: fb_io_def fb_served_def)
qed

lemma fb_size_store:
  "writel (fb_io k) v (RABBITSFB_BASE_ADDRESS + RABBITSFB_SIZE) (s, q)
    = Inr (s\<lparr>sy_dev := with_regs_fb (sy_dev s) ((io_regs (fd_io (sy_dev s)))\<lparr>fb_image_w := ucast (v AND 0xFFFF), fb_image_h := ucast (drop_bit 16 v)\<rparr>)\<rparr>, q)"
  by (subst fb_store_reg [where es' = "[]" and io' = "(fd_io (sy_dev s))\<lparr>io_regs := (io_regs (fd_io (sy_dev s)))
      \<lparr>fb_image_w := ucast (v AND 0xFFFF), fb_image_h := ucast (drop_bit 16 v)\<rparr>\<rparr>"])
    (simp_all add: rabbitsfb_regs fb_address_def fb_write_def Let_def fb_reg_defs fb_served_def with_regs_fb_def)

lemma fb_mode_store:
  "writel (fb_io k) v (RABBITSFB_BASE_ADDRESS + RABBITSFB_MODE) (s, q)
    = Inr (s\<lparr>sy_dev := with_regs_fb (sy_dev s) ((io_regs (fd_io (sy_dev s)))\<lparr>fb_mode := v\<rparr>)\<rparr>, q)"
  by (subst fb_store_reg [where es' = "[]" and io' = "(fd_io (sy_dev s))\<lparr>io_regs := (io_regs (fd_io (sy_dev s)))\<lparr>fb_mode := v\<rparr>\<rparr>"])
    (simp_all add: rabbitsfb_regs fb_address_def fb_write_def Let_def fb_reg_defs fb_served_def with_regs_fb_def)

text \<open>An acknowledge is followed by the thread of the interrupt line.\<close>

lemma fb_irqclr_store:
  "writel (fb_io k) v (RABBITSFB_BASE_ADDRESS + RABBITSFB_IRQCLEAR) (s, q)
    = Inr (s\<lparr>sy_dev := fb_irq_update_thread (with_regs_fb (sy_dev s)
        ((io_regs (fd_io (sy_dev s)))\<lparr>fb_irqstat := fb_irqstat (io_regs (fd_io (sy_dev s))) AND NOT v\<rparr>))\<rparr>, q)"
  by (subst fb_store_reg [where es' = "[FbIrqUpdate]" and io' = "(fd_io (sy_dev s))\<lparr>io_regs := (io_regs (fd_io (sy_dev s)))
      \<lparr>fb_irqstat := fb_irqstat (io_regs (fd_io (sy_dev s))) AND NOT v\<rparr>\<rparr>"])
    (simp_all add: rabbitsfb_regs fb_address_def fb_write_def Let_def fb_reg_defs fb_served_def fb_thread_run_def with_regs_fb_def)

lemma fb_ctrl_store:
  "writel (fb_io k) v (RABBITSFB_BASE_ADDRESS + RABBITSFB_CTRL) (s, q)
    = bindr (fb_served k (fst (fb_ctrl_write (fd_io (sy_dev s)) v)) (snd (fb_ctrl_write (fd_io (sy_dev s)) v)) s) (\<lambda>s. Inr (s, q))"
  by (rule fb_store_reg) (simp_all add: rabbitsfb_regs fb_address_def fb_write_def Let_def fb_reg_defs)

lemma fb_ctrl_load:
  assumes "length (fk_rdata k) = 8"
  shows "readl (fb_io k) (RABBITSFB_BASE_ADDRESS + RABBITSFB_CTRL) (s, q) = Inr ((s, q), fb_ctrl (io_regs (fd_io (sy_dev s))))"
  by (rule fb_load_reg [OF _ _ assms]) (simp_all add: rabbitsfb_regs fb_address_def fb_read_def Let_def fb_reg_defs)

lemma fb_irqstat_load:
  assumes "length (fk_rdata k) = 8"
  shows "readl (fb_io k) (RABBITSFB_BASE_ADDRESS + RABBITSFB_IRQ_STAT) (s, q) = Inr ((s, q), fb_irqstat (io_regs (fd_io (sy_dev s))))"
  by (rule fb_load_reg [OF _ _ assms]) (simp_all add: rabbitsfb_regs fb_address_def fb_read_def Let_def fb_reg_defs)

subsection \<open>A block of bytes to the frame memory\<close>

lemma put_one_byte:
  assumes "i < length buf" "4 * (i div 4) + 4 \<le> length buf" "w ! (i mod 4) = v"
  shows "put_bytes buf (4 * (i div 4)) (map (\<lambda>j. if bit (push_bit (i mod 4) 1 :: u8) j then w ! j else buf ! (4 * (i div 4) + j)) [0..<4])
    = buf[i := v]"
proof (rule nth_equalityI)
  show "length (put_bytes buf (4 * (i div 4)) (map (\<lambda>j. if bit (push_bit (i mod 4) 1 :: u8) j then w ! j else buf ! (4 * (i div 4) + j)) [0..<4]))
      = length (buf[i := v])" using assms(2) by simp
  fix n assume "n < length (put_bytes buf (4 * (i div 4)) (map (\<lambda>j. if bit (push_bit (i mod 4) 1 :: u8) j then w ! j else buf ! (4 * (i div 4) + j)) [0..<4]))"
  then have n: "n < length buf" using assms(2) by simp
  have i: "4 * (i div 4) + i mod 4 = i" "i mod 4 < 4" by simp_all
  have b: "bit (push_bit (i mod 4) 1 :: u8) j = (j = i mod 4)" if "j < 4" for j
    using that i(2) by (simp add: bit_simps)
  consider "n < 4 * (i div 4)" | j where "j < 4" "n = 4 * (i div 4) + j" | "4 * (i div 4) + 4 \<le> n"
    by (metis add_less_cancel_left le_add_diff_inverse not_le_imp_less)
  then show "put_bytes buf (4 * (i div 4)) (map (\<lambda>j. if bit (push_bit (i mod 4) 1 :: u8) j then w ! j else buf ! (4 * (i div 4) + j)) [0..<4]) ! n
      = buf[i := v] ! n"
  proof cases
    case 1
    then have "n \<noteq> i" using i by linarith
    then show ?thesis using 1 n by (simp add: put_bytes_def nth_append)
  next
    case (2 j)
    have "n = i \<longleftrightarrow> j = i mod 4" using 2 i by linarith
    then show ?thesis using 2 n b assms(1,3) by (auto simp: put_bytes_def nth_append nth_list_update)
  next
    case 3
    then have "n \<noteq> i" "\<not> n - 4 * (i div 4) < 4" using i by linarith+
    then show ?thesis using 3 n by (simp add: put_bytes_def nth_append)
  qed
qed

text \<open>A frame memory the driver can fill: whole words, inside the area the driver maps, and no display at the first word.\<close>

definition fb_fillable :: "fb_io_resource \<Rightarrow> nat \<Rightarrow> bool" where
  "fb_fillable io n \<longleftrightarrow> (\<exists>bufs. io_mem io = Some bufs \<and> io_mem_idx io < length bufs \<and> length (bufs ! io_mem_idx io) = n)
     \<and> unat (io_mem_size io) = n \<and> n mod 4 = 0 \<and> n \<le> 0x400000 \<and> fb_disp_wrap (io_regs io) = 0"

definition fb_set_cur :: "fb_io_resource \<Rightarrow> u8 list \<Rightarrow> fb_io_resource" where
  "fb_set_cur io buf = io\<lparr>io_mem := map_option (\<lambda>bufs. bufs[io_mem_idx io := buf]) (io_mem io)\<rparr>"

lemma fb_byte_store:
  assumes "fb_fillable (fd_io d) n" "i < n"
  shows "writeb (fb_io k) v (RABBITSFB_BASE_ADDRESS + RABBITSFB_MEM_BASE + of_nat i) (s\<lparr>sy_dev := d\<rparr>, q)
    = Inr (s\<lparr>sy_dev := d\<lparr>fd_io := fb_set_cur (fd_io d) ((fb_cur (fd_io d))[i := v])\<rparr>\<rparr>, q)"
proof -
  obtain bufs where b: "io_mem (fd_io d) = Some bufs" "io_mem_idx (fd_io d) < length bufs" "length (bufs ! io_mem_idx (fd_io d)) = n"
    "unat (io_mem_size (fd_io d)) = n" "n mod 4 = 0" "n \<le> 0x400000" "fb_disp_wrap (io_regs (fd_io d)) = 0"
    using assms(1) by (auto simp: fb_fillable_def)
  let ?ofs = "RABBITSFB_MEM_BASE + of_nat i :: ulong"
  have i: "i < 0x400000" using assms(2) b(6) by simp
  then have ui: "unat (of_nat i :: ulong) = i" by (simp add: unat_of_nat)
  have uo: "unat ?ofs = 0x1000 + i" using i ui by (simp add: RABBITSFB_MEM_BASE_def unat_word_ariths)
  have a: "fb_address (RABBITSFB_BASE_ADDRESS + ?ofs)"
    using i ui by (simp add: fb_address_def rabbitsfb_regs word_le_nat_alt word_less_nat_alt unat_word_ariths)
  have m: "unat ?ofs mod 4 = i mod 4" unfolding uo by presburger
  have "unat (drop_bit 2 ?ofs) = 0x400 + i div 4" unfolding unat_drop_bit_eq uo by (simp add: drop_bit_eq_div)
  moreover have "unat (FB_DEVICE_MEM + of_nat (i div 4)) = 0x400 + i div 4"
    using i by (simp add: FB_DEVICE_MEM_def unat_word_ariths unat_of_nat)
  ultimately have r: "drop_bit 2 ?ofs = FB_DEVICE_MEM + of_nat (i div 4)" by (simp only: word_unat_eq_iff)
  have ge: "FB_DEVICE_MEM \<le> drop_bit 2 ?ofs"
    unfolding word_le_nat_alt \<open>unat (drop_bit 2 ?ofs) = 0x400 + i div 4\<close> by (simp add: FB_DEVICE_MEM_def)
  have k: "4 * (i div 4) + 4 \<le> n" using assms(2) b(5) by presburger
  have "dev_store fb_rcv_rqst (fk_req k) ?ofs 1 (ucast v) (fd_io d) = Inr (fb_set_cur (fd_io d) ((fb_cur (fd_io d))[i := v]), [])"
  proof (rule dev_store_byte)
    fix req ofs' be data
    assume h: "reg_index ofs' be = drop_bit 2 ?ofs" "lane_be be = push_bit (unat ?ofs mod 4) 1"
      "bytes32 (reg_word data be) ! (unat ?ofs mod 4) = v"
    have "fb_write (fd_io d) ofs' be data = Inr ((fd_io d)\<lparr>io_mem := Some (bufs[io_mem_idx (fd_io d) := (bufs ! io_mem_idx (fd_io d))[i := v]])\<rparr>, [])"
      using fb_store_changes_lanes [OF b(1,2) refl _ b(7), of ofs' be "i div 4" data] b(3,4) h ge k r
        put_one_byte [of i "bufs ! io_mem_idx (fd_io d)" "bytes32 (reg_word data be)" v] assms(2) m by simp
    then show "fb_rcv_rqst req (fd_io d) ofs' be data True = Inr (fb_set_cur (fd_io d) ((fb_cur (fd_io d))[i := v]), [], data, False)"
      using b(1) by (simp add: fb_rcv_rqst_def fb_set_cur_def fb_cur_def)
  qed
  then show ?thesis using a by (simp add: fb_io_def fb_driver_store_def fb_served_def add.assoc)
qed

lemma fb_set_cur_simps:
  assumes "fb_fillable io n"
  shows "fb_cur (fb_set_cur io b) = b" "fb_set_cur (fb_set_cur io a) b = fb_set_cur io b" "fb_set_cur io (fb_cur io) = io"
    and "length b = n \<Longrightarrow> fb_fillable (fb_set_cur io b) n" "length (fb_cur io) = n"
  using assms by (auto simp: fb_fillable_def fb_set_cur_def fb_cur_def)

lemma fb_block_store:
  assumes "fb_fillable (fd_io d) n" "length bs \<le> n"
  shows "memcpy_toio (fb_io k) (RABBITSFB_BASE_ADDRESS + RABBITSFB_MEM_BASE) bs (s\<lparr>sy_dev := d\<rparr>, q)
    = Inr (s\<lparr>sy_dev := d\<lparr>fd_io := fb_set_cur (fd_io d) (bs @ drop (length bs) (fb_cur (fd_io d)))\<rparr>\<rparr>, q)"
proof -
  note c = fb_set_cur_simps [OF assms(1)]
  let ?f = "\<lambda>i s. writeb (fb_io k) (bs ! i) (RABBITSFB_BASE_ADDRESS + RABBITSFB_MEM_BASE + of_nat i) s"
  have "for_each ?f [0..<m] (s\<lparr>sy_dev := d\<rparr>, q)
      = Inr (s\<lparr>sy_dev := d\<lparr>fd_io := fb_set_cur (fd_io d) (take m bs @ drop m (fb_cur (fd_io d)))\<rparr>\<rparr>, q)" if "m \<le> length bs" for m
    using that
  proof (induction m)
    case 0
    then show ?case using c(3) by simp
  next
    case (Suc m)
    let ?b = "take m bs @ drop m (fb_cur (fd_io d))"
    let ?d = "d\<lparr>fd_io := fb_set_cur (fd_io d) ?b\<rparr>"
    have m: "m < length bs" "m < n" using Suc.prems assms(2) by simp_all
    have len: "length ?b = n" using m c(5) by simp
    have "?b[m := bs ! m] = take (Suc m) bs @ drop (Suc m) (fb_cur (fd_io d))"
      using m c(5) by (simp add: list_update_append take_Suc_conv_app_nth Cons_nth_drop_Suc [symmetric])
    then have "?f m (s\<lparr>sy_dev := ?d\<rparr>, q)
        = Inr (s\<lparr>sy_dev := d\<lparr>fd_io := fb_set_cur (fd_io d) (take (Suc m) bs @ drop (Suc m) (fb_cur (fd_io d)))\<rparr>\<rparr>, q)"
      using fb_byte_store [of ?d n m k "bs ! m" s q] c(1,2,4) len m by simp
    then show ?case using Suc.IH m by (simp add: for_each_append)
  qed
  from this [of "length bs"] show ?thesis by (simp add: memcpy_toio_def)
qed

lemma on_device_same:
  assumes "one_device drv" "f (cd_devs drv ! 0) = Inr (r, cd_devs drv ! 0, s)"
  shows "on_device drv 0 f = Inr (r, drv, s)"
  using assms by (cases "cd_devs drv") (auto simp: on_device_def one_device_def)

lemma fb_calls_append:
  "fb_calls k env qemu (cs @ cs') drv s q =
     bindr (fb_calls k env qemu cs drv s q) (\<lambda>(drv, s, q, rs).
     bindr (fb_calls k env qemu cs' drv s q) (\<lambda>(drv, s, q, rs'). Inr (drv, s, q, rs @ rs')))"
proof (induction cs arbitrary: drv s q)
  case Nil
  then show ?case by (cases "fb_calls k env qemu cs' drv s q") auto
next
  case (Cons c cs)
  show ?case by (simp add: Cons.IH bindr_assoc case_prod_unfold)
qed

subsection \<open>Frames through the driver\<close>

text \<open>The driver is loaded and opened.\<close>

definition fb_driver_ok :: "rabbitsfb_device chr_driver \<Rightarrow> bool" where
  "fb_driver_ok drv \<longleftrightarrow> one_device drv \<and> rf_base_addr (cd_devs drv ! 0) = RABBITSFB_BASE_ADDRESS
     \<and> rf_mem_addr (cd_devs drv ! 0) = RABBITSFB_BASE_ADDRESS + RABBITSFB_MEM_BASE"

definition fb_running :: "nat \<Rightarrow> fb_device \<Rightarrow> bool" where
  "fb_running n d \<longleftrightarrow> (\<exists>b0 b1. io_mem (fd_io d) = Some [b0, b1] \<and> length b0 = n \<and> length b1 = n) \<and> io_mem_idx (fd_io d) < 2
     \<and> unat (io_mem_size (fd_io d)) = n \<and> n mod 4 = 0 \<and> n \<le> 0x400000 \<and> fb_disp_wrap (io_regs (fd_io d)) = 0
     \<and> fb_dmaen (io_regs (fd_io d)) = 0 \<and> fb_ctrl (io_regs (fd_io d)) AND FB_CTRL_DISPLAY = 0"

lemma fb_running_fillable: "fb_running n d \<Longrightarrow> fb_fillable (fd_io d) n"
  by (auto simp: fb_running_def fb_fillable_def less_2_cases_iff)

lemma fb_running_set_cur:
  "fb_running n d \<Longrightarrow> length b = n \<Longrightarrow> fb_running n (d\<lparr>fd_io := fb_set_cur (fd_io d) b\<rparr>)"
  by (auto simp: fb_running_def fb_set_cur_def less_2_cases_iff)

lemma ctrl_set_display:
  assumes "c AND FB_CTRL_DISPLAY = 0"
  shows "c XOR (c OR FB_CTRL_DISPLAY) = FB_CTRL_DISPLAY" "(c OR FB_CTRL_DISPLAY) AND NOT FB_CTRL_DISPLAY = c"
proof -
  have z: "\<not> (bit c n \<and> bit FB_CTRL_DISPLAY n)" for n using assms by (metis bit_0_eq bit_and_iff bot_apply bot_bool_def)
  show "c XOR (c OR FB_CTRL_DISPLAY) = FB_CTRL_DISPLAY" "(c OR FB_CTRL_DISPLAY) AND NOT FB_CTRL_DISPLAY = c"
    by (rule bit_word_eqI, use z in \<open>auto simp: bit_simps\<close>)+
qed

lemma fb_ctrl_display:
  assumes "fb_ctrl (io_regs io) AND FB_CTRL_DISPLAY = 0"
  shows "fb_ctrl_write io (fb_ctrl (io_regs io) OR FB_CTRL_DISPLAY) = (io\<lparr>io_mem_idx := (io_mem_idx io + 1) mod 2\<rparr>, [FbDisplay])"
proof -
  have "FB_CTRL_DISPLAY AND FB_CTRL_START = 0" "FB_CTRL_DISPLAY AND FB_CTRL_IRQEN = 0" "FB_CTRL_DISPLAY AND FB_CTRL_DMAEN = 0"
    "FB_CTRL_DISPLAY AND FB_CTRL_DISPLAY \<noteq> 0" by (simp_all add: fb_ctrl_defs)
  then show ?thesis using ctrl_set_display [OF assms] by (simp add: fb_ctrl_write_def Let_def fb_slave_display_def)
qed

text \<open>Device and viewer in step: the viewer's next buffer is the one the driver fills.\<close>

definition fb_watched :: "'q fb_conf \<Rightarrow> u32 \<Rightarrow> u32 \<Rightarrow> u32 \<Rightarrow> nat \<Rightarrow> fb_system \<Rightarrow> bool" where
  "fb_watched k m w h n s \<longleftrightarrow> fb_running n (sy_dev s) \<and> frame_bytes m (unat w * unat h) \<le> n
     \<and> (\<exists>v. sy_viewer s = Some v \<and> viewer_of m w h (fk_masks k) v \<and> vw_buf_idx v = io_mem_idx (fd_io (sy_dev s)))"

lemma fb_running_irq: "fb_running n (fb_irq_update_thread d) = fb_running n d"
  "io_mem_idx (fd_io (fb_irq_update_thread d)) = io_mem_idx (fd_io d)"
  by (simp_all add: fb_running_def fb_irq_update_thread_def Let_def)

text \<open>The display of a frame: the device goes on with the other buffer, and the viewer draws the one just filled.\<close>

lemma fb_display_served:
  assumes "fb_watched k m w h n s"
  shows "\<exists>s'. fb_served k ((fd_io (sy_dev s))\<lparr>io_mem_idx := (io_mem_idx (fd_io (sy_dev s)) + 1) mod 2\<rparr>) [FbDisplay] s = Inr s'
    \<and> fb_watched k m w h n s' \<and> sy_nb s' = sy_nb s
    \<and> sy_drawn s' = sy_drawn s @ [shown m w h (fk_masks k) (fb_cur (fd_io (sy_dev s)))]"
proof -
  let ?d = "sy_dev s"
  from assms obtain v where run: "fb_running n ?d" and fits: "frame_bytes m (unat w * unat h) \<le> n"
    and v: "sy_viewer s = Some v" "viewer_of m w h (fk_masks k) v" "vw_buf_idx v = io_mem_idx (fd_io ?d)"
    by (auto simp: fb_watched_def)
  from run obtain b0 b1 where b: "io_mem (fd_io ?d) = Some [b0, b1]" "length b0 = n" "length b1 = n" "io_mem_idx (fd_io ?d) < 2"
    by (auto simp: fb_running_def)
  have cur: "[b0, b1] ! vw_buf_idx v = fb_cur (fd_io ?d)" using b(1) v(3) by (simp add: fb_cur_def)
  have "length ([b0, b1] ! vw_buf_idx v) = n" "vw_buf_idx v < length [b0, b1]" using b v(3) by (auto simp: less_2_cases_iff)
  with viewer_refresh_shows [OF v(2), of "[b0, b1]"] fits obtain v' where
    r: "viewer_refresh [b0, b1] v = Inr v'" "vw_pixels v' = shown m w h (fk_masks k) (fb_cur (fd_io ?d))"
      "viewer_of m w h (fk_masks k) v'" "vw_buf_idx v' = (vw_buf_idx v + 1) mod 2"
    unfolding cur by auto
  let ?io = "(fd_io ?d)\<lparr>io_mem_idx := (io_mem_idx (fd_io ?d) + 1) mod 2\<rparr>"
  let ?d1 = "with_regs_fb (?d\<lparr>fd_io := ?io\<rparr>) ((io_regs ?io)\<lparr>fb_irqstat := fb_irqstat (io_regs ?io) OR 1\<rparr>)"
  have "fb_dmaen (io_regs (fd_io ?d)) = 0" using run by (simp add: fb_running_def)
  then have s: "fb_served k ?io [FbDisplay] s = Inr (s\<lparr>sy_dev := fb_irq_update_thread ?d1, sy_viewer := Some v',
      sy_drawn := sy_drawn s @ [vw_pixels v']\<rparr>)"
    using v(1) b(1) r(1)
    by (simp add: fb_served_def fb_thread_run_def fb_display_thread_def Let_def with_regs_fb_def fb_bufs_def)
  have "fb_running n ?d1" using run by (auto simp: fb_running_def with_regs_fb_def)
  then have "fb_watched k m w h n (s\<lparr>sy_dev := fb_irq_update_thread ?d1, sy_viewer := Some v', sy_drawn := sy_drawn s @ [vw_pixels v']\<rparr>)"
    using fits r(3,4) v(3) by (simp add: fb_watched_def fb_running_irq with_regs_fb_def)
  with s r(2) show ?thesis by simp
qed

lemma fb_frame_call:
  assumes "fb_driver_ok drv" "ke_kmalloc env \<noteq> 0" "length (fk_rdata k) = 8" "fb_watched k m w h n s" "length f = n"
  shows "\<exists>s'. fb_calls k env qemu [Write f, Ioctl RABBITSFB_IOCDISPLAY []] drv s q = Inr (drv, s', q, [Returns 0, Returns 0])
    \<and> fb_watched k m w h n s' \<and> sy_nb s' = sy_nb s \<and> sy_drawn s' = sy_drawn s @ [shown m w h (fk_masks k) f]"
proof -
  let ?dev = "cd_devs drv ! 0" and ?d = "sy_dev s"
  have dv: "one_device drv" "rf_base_addr ?dev = RABBITSFB_BASE_ADDRESS" "rf_mem_addr ?dev = RABBITSFB_BASE_ADDRESS + RABBITSFB_MEM_BASE"
    using assms(1) by (auto simp: fb_driver_ok_def)
  have run: "fb_running n ?d" using assms(4) by (simp add: fb_watched_def)
  note cur = fb_set_cur_simps [OF fb_running_fillable [OF run]]
  let ?s1 = "s\<lparr>sy_dev := ?d\<lparr>fd_io := fb_set_cur (fd_io ?d) f\<rparr>\<rparr>"
  have "rabbitsfb_chr_write (fb_io k) env f (length f) ?dev (s, q) = Inr ((0, [Kfree (ke_kmalloc env)]), ?dev, ?s1, q)"
    using fb_block_store [OF fb_running_fillable [OF run], of f k s q] assms(2,5) dv(3) cur(5)
    by (simp add: rabbitsfb_chr_write_def copy_from_user_def)
  then have wr: "on_device drv 0 (\<lambda>dev. bindr (rabbitsfb_chr_write (fb_io k) env f (length f) dev (s, q))
      (\<lambda>((ret, ks), r). Inr ((Returns ret, ks), r))) = Inr ((Returns 0, [Kfree (ke_kmalloc env)]), drv, ?s1, q)"
    by (intro on_device_same [OF dv(1)]) simp
  have "fb_running n (sy_dev ?s1)" using fb_running_set_cur [OF run assms(5)] by simp
  then have w1: "fb_watched k m w h n ?s1" and c: "fb_ctrl (io_regs (fd_io (sy_dev ?s1))) AND FB_CTRL_DISPLAY = 0"
    using assms(4) by (simp_all add: fb_watched_def fb_running_def fb_set_cur_def)
  have c1: "fb_cur (fd_io (sy_dev ?s1)) = f" using cur(1) by simp
  from fb_display_served [OF w1] obtain s' where
    s': "fb_served k ((fd_io (sy_dev ?s1))\<lparr>io_mem_idx := (io_mem_idx (fd_io (sy_dev ?s1)) + 1) mod 2\<rparr>) [FbDisplay] ?s1 = Inr s'"
      "fb_watched k m w h n s'" "sy_nb s' = sy_nb s" "sy_drawn s' = sy_drawn s @ [shown m w h (fk_masks k) f]"
    unfolding c1 by auto
  have "rabbitsfb_display (fb_io k) ?dev (?s1, q) = Inr (s', q)"
    using fb_ctrl_load [OF assms(3), of ?s1 q] fb_ctrl_store [of k _ ?s1 q] dv(2) fb_ctrl_display [OF c] s'(1)
    by (simp add: rabbitsfb_display_def RABBITSFB_CTRL_DISPLAY_def FB_CTRL_DISPLAY_def)
  then have di: "rabbitsfb_chr_ioctl (fb_io k) env qemu (Some 0) RABBITSFB_IOCDISPLAY [] drv (?s1, q)
      = Inr ((Returns 0, []), drv, s', q)"
    by (simp add: rabbitsfb_chr_ioctl_def)
      (intro on_device_same [OF dv(1)], simp add: rabbitsfb_command_def Let_def rabbitsfb_codes ioc_defs returning_def)
  from wr di s'(2-4) show ?thesis by simp
qed

lemma fb_frames_calls:
  assumes "fb_driver_ok drv" "ke_kmalloc env \<noteq> 0" "length (fk_rdata k) = 8" "fb_watched k m w h n s" "\<forall>f\<in>set frames. length f = n"
  shows "\<exists>s'. fb_calls k env qemu (concat (map (\<lambda>f. [Write f, Ioctl RABBITSFB_IOCDISPLAY []]) frames)) drv s q
      = Inr (drv, s', q, replicate (2 * length frames) (Returns 0))
    \<and> sy_nb s' = sy_nb s \<and> sy_drawn s' = sy_drawn s @ map (shown m w h (fk_masks k)) frames"
  using assms(4,5)
proof (induction frames arbitrary: s)
  case (Cons f frames)
  from fb_frame_call [OF assms(1-3) Cons.prems(1), of f qemu q] Cons.prems(2) obtain s1 where
    s1: "fb_calls k env qemu [Write f, Ioctl RABBITSFB_IOCDISPLAY []] drv s q = Inr (drv, s1, q, [Returns 0, Returns 0])"
      "fb_watched k m w h n s1" "sy_nb s1 = sy_nb s" "sy_drawn s1 = sy_drawn s @ [shown m w h (fk_masks k) f]" by auto
  from Cons.IH [OF s1(2)] Cons.prems(2) obtain s' where
    "fb_calls k env qemu (concat (map (\<lambda>f. [Write f, Ioctl RABBITSFB_IOCDISPLAY []]) frames)) drv s1 q
      = Inr (drv, s', q, replicate (2 * length frames) (Returns 0))"
    "sy_nb s' = sy_nb s1" "sy_drawn s' = sy_drawn s1 @ map (shown m w h (fk_masks k)) frames" by auto
  with s1 show ?case
    by (simp only: list.map concat.simps fb_calls_append) (simp del: fb_calls.simps)
qed simp

text \<open>
  A device that has not been started since its constructor: its current buffer is the first one. After an odd number of displays a device
  that is stopped and started again goes on with the second one, and its new viewer does not know it.
\<close>

definition fb_stopped :: "fb_device \<Rightarrow> bool" where
  "fb_stopped d \<longleftrightarrow> fb_status (io_regs (fd_io d)) = FB_STOPPED \<and> fb_ctrl (io_regs (fd_io d)) = 0 \<and> fb_dmaen (io_regs (fd_io d)) = 0
     \<and> fb_disp_wrap (io_regs (fd_io d)) = 0 \<and> io_mem_idx (fd_io d) = 0"

definition size_word :: "u16 \<Rightarrow> u16 \<Rightarrow> u32" where
  "size_word w h = ucast w OR push_bit 16 (ucast h)"

lemma size_word_parts:
  "ucast (size_word w h) = w" "ucast (drop_bit 16 (size_word w h)) = h"
  "(ucast w AND 0xFFFF) OR push_bit 16 (ucast h AND 0xFFFF) = size_word w h" "ucast (size_word w h AND 0xFFFF) = w"
proof -
  have m: "(ucast x :: u32) AND 0xFFFF = ucast x" for x :: u16
  proof -
    have "(ucast x :: u32) AND mask 16 = ucast x" by (rule bit_word_eqI) (auto simp: bit_simps dest: bit_imp_le_length)
    then show ?thesis by (simp add: mask_eq_decr_exp)
  qed
  show w: "ucast (size_word w h) = w" by (rule bit_word_eqI) (auto simp: size_word_def bit_simps)
  show "ucast (drop_bit 16 (size_word w h)) = h" by (rule bit_word_eqI) (auto simp: size_word_def bit_simps dest: bit_imp_le_length)
  show "(ucast w AND 0xFFFF) OR push_bit 16 (ucast h AND 0xFFFF) = size_word w h" by (simp only: m size_word_def)
  have "ucast (size_word w h AND mask 16) = w" by (rule bit_word_eqI) (auto simp: size_word_def bit_simps)
  then show "ucast (size_word w h AND 0xFFFF) = w" by (simp add: mask_eq_decr_exp)
qed

lemma rabbitsfb_set_size_word:
  "rabbitsfb_set_size io dev w h s = writel io (size_word w h) (rf_base_addr dev + RABBITSFB_SIZE) s"
  by (simp only: rabbitsfb_set_size_def size_word_parts(3))

text \<open>The sizes of the device's buffers hold a frame, and a viewer that starts accepts them.\<close>

lemma frame_in_buffer:
  assumes "good_geometry m (ucast w) (ucast h)" "fb_buf_size (int (unat w)) (int (unat h)) m prev = int n"
  shows "frame_bytes m (unat (w :: u16) * unat (h :: u16)) \<le> n"
proof -
  define c :: nat where "c = (if m = FB_ARGB \<or> m = FB_BGRA then 4 else 3)"
  have "fb_buf_size (int (unat w)) (int (unat h)) m prev = int (c * (unat w * unat h))"
    using assms(1) by (auto simp: good_geometry_def fb_buf_size_def fb_mode_defs c_def)
  then have "c * (unat w * unat h) = n" unfolding assms(2) by (simp only: of_nat_eq_iff)
  then show ?thesis using assms(1) unfolding frame_bytes_def good_geometry_def c_def by (auto simp: fb_mode_defs)
qed

lemma unat_ucast_16: "unat (ucast (w :: u16) :: u32) = unat w"
proof -
  have "unat w < 2 ^ 16" using unsigned_less [of w, where 'a = nat] by simp
  then have "unat w < 2 ^ 32" by simp
  then show ?thesis by (simp add: unsigned_ucast_eq take_bit_nat_eq_self)
qed

lemma viewer_starts:
  assumes "good_geometry m w h" "frame_bytes m (unat w * unat h) \<le> n" "length pixels = 4 * (unat w * unat h)"
  shows "\<exists>v. viewer_main pf pixels n w h m = Inr v \<and> viewer_of m w h pf v \<and> vw_buf_idx v = 0"
proof -
  note g = get_size_frame [OF assms(1)]
  have "frame_bytes m (unat w * unat h) < 2 ^ 64" using g(2) by (rule less_trans) simp
  then have "unat (of_int (get_size w h m) :: u64) = frame_bytes m (unat w * unat h)"
    unfolding g(1) by (simp add: unat_of_nat)
  with assms show ?thesis by (simp add: viewer_of_def viewer_main_def Let_def)
qed

lemma fb_setup_calls:
  assumes "fb_driver_ok drv" "length (fk_rdata k) = 8" "fb_stopped (sy_dev s)" "sy_nb s < NB_RAMDACS" "fk_shm_ok k (of_nat n)"
    and "fb_buf_size (int (unat w)) (int (unat h)) m (fd_buf_size (sy_dev s)) = int n" "n mod 4 = 0" "n \<le> 0x400000"
    and "good_geometry m (ucast w) (ucast h)" "length (fk_pixels k) = 4 * (unat w * unat h)"
  shows "\<exists>s'. fb_calls k env qemu [Ioctl RABBITSFB_IOCSSIZE (bytes32 (size_word w h)), Ioctl RABBITSFB_IOCSMODE (bytes32 m), Ioctl RABBITSFB_IOCRESET []] drv s q
      = Inr (drv, s', q, replicate 3 (Returns 0)) \<and> fb_watched k m (ucast w) (ucast h) n s' \<and> sy_nb s' = sy_nb s + 1 \<and> sy_drawn s' = sy_drawn s"
proof -
  let ?dev = "cd_devs drv ! 0" and ?d = "sy_dev s"
  have dv: "one_device drv" "rf_base_addr ?dev = RABBITSFB_BASE_ADDRESS" using assms(1) by (auto simp: fb_driver_ok_def)
  note st = assms(3) [unfolded fb_stopped_def]
  let ?r = "io_regs (fd_io ?d)"
  let ?s1 = "s\<lparr>sy_dev := with_regs_fb ?d (?r\<lparr>fb_image_w := w, fb_image_h := h\<rparr>)\<rparr>"
  let ?s2 = "s\<lparr>sy_dev := with_regs_fb ?d (?r\<lparr>fb_image_w := w, fb_image_h := h, fb_mode := m\<rparr>)\<rparr>"
  let ?d3 = "with_regs_fb ?d (?r\<lparr>fb_image_w := w, fb_image_h := h, fb_mode := m, fb_ctrl := 1\<rparr>)"
  have call: "rabbitsfb_chr_ioctl (fb_io k) env qemu (Some 0) code user drv (s, q) = Inr ((Returns 0, []), drv, s', q)"
    if "rabbitsfb_command (fb_io k) env qemu code user ?dev (s, q) = Inr ((Returns 0, []), ?dev, s', q)" for code user s s'
    using that by (simp add: rabbitsfb_chr_ioctl_def) (intro on_device_same [OF dv(1)], simp)
  have c1: "rabbitsfb_command (fb_io k) env qemu RABBITSFB_IOCSSIZE (bytes32 (size_word w h)) ?dev (s, q) = Inr ((Returns 0, []), ?dev, ?s1, q)"
    using fb_size_store [of k "size_word w h" s q] dv(2)
    by (simp add: rabbitsfb_command_def Let_def rabbitsfb_codes ioc_defs returning_def rabbitsfb_set_size_word size_word_parts)
  have c2: "rabbitsfb_command (fb_io k) env qemu RABBITSFB_IOCSMODE (bytes32 m) ?dev (?s1, q) = Inr ((Returns 0, []), ?dev, ?s2, q)"
    using fb_mode_store [of k m ?s1 q] dv(2)
    by (simp add: rabbitsfb_command_def Let_def rabbitsfb_codes ioc_defs returning_def rabbitsfb_set_mode_def with_regs_fb_def)
  have n: "unat (of_nat n :: u32) = n" using assms(8) by (simp add: unat_of_nat)
  note fits = frame_in_buffer [OF assms(9,6)]
  from viewer_starts [OF assms(9), of n "fk_pixels k" "fk_masks k"] fits assms(10) obtain v where
    v: "viewer_main (fk_masks k) (fk_pixels k) n (ucast w) (ucast h) m = Inr v" "viewer_of m (ucast w) (ucast h) (fk_masks k) v" "vw_buf_idx v = 0"
    unfolding unat_ucast_16 by blast
  have geo: "of_int (int (unat x)) = (ucast x :: u32)" for x :: u16 by (rule unsigned_word_eqI [where 'a = nat])
    (use unsigned_less [of x, where 'a = nat] in \<open>simp add: unat_of_nat unat_ucast_16 del: unsigned_less\<close>)
  let ?d4 = "?d3\<lparr>fd_width := int (unat w), fd_height := int (unat h), fd_mode := m, fd_buf_size := int n,
    fd_io := (fd_io ?d3)\<lparr>io_mem := Some [replicate n 0, replicate n 0], io_mem_size := of_nat n,
      io_regs := (io_regs (fd_io ?d3))\<lparr>fb_status := FB_RUNNING\<rparr>\<rparr>\<rparr>"
  let ?s4 = "s\<lparr>sy_dev := ?d4, sy_nb := sy_nb s + 1, sy_viewer := Some v\<rparr>"
  have started: "fb_start_stop_thread (fk_shm_ok k) (sy_nb s) ?d3 = Inr (?d4, sy_nb s + 1, [FbViewerStart (int (unat w)) (int (unat h)) m])"
    using st assms(4-6) n
    by (simp add: fb_start_stop_thread_def Let_def fb_init_def fb_init_viewer_def with_regs_fb_def fb_ctrl_defs)
  have sv: "fb_served k (fd_io ?d3) [FbStartStop] ?s2 = Inr ?s4"
    using started v(1) n geo by (simp add: fb_served_def fb_thread_run_def with_regs_fb_def)
  have cw: "fb_ctrl_write (fd_io (sy_dev ?s2)) 0 = (fd_io (sy_dev ?s2), [])" "fb_ctrl_write (fd_io (sy_dev ?s2)) 1 = (fd_io ?d3, [FbStartStop])"
    using st by (simp_all add: fb_ctrl_write_def Let_def with_regs_fb_def fb_ctrl_defs)
  have "fb_served k (fd_io (sy_dev ?s2)) [] ?s2 = Inr ?s2" by (simp add: fb_served_def)
  then have "rabbitsfb_reset (fb_io k) ?dev (?s2, q) = Inr (?s4, q)"
    using st dv(2) fb_ctrl_load [OF assms(2), of ?s2 q] fb_ctrl_store [of k _ ?s2 q] cw sv
    by (simp add: rabbitsfb_reset_def Let_def RABBITSFB_CTRL_START_def) (simp add: with_regs_fb_def)
  then have c3: "rabbitsfb_command (fb_io k) env qemu RABBITSFB_IOCRESET [] ?dev (?s2, q) = Inr ((Returns 0, []), ?dev, ?s4, q)"
    by (simp add: rabbitsfb_command_def Let_def rabbitsfb_codes ioc_defs returning_def)
  have "fb_running n ?d4"
    using st assms(7,8) n by (simp add: fb_running_def with_regs_fb_def fb_ctrl_defs)
  then have "fb_watched k m (ucast w) (ucast h) n ?s4"
    using v(2,3) st fits by (simp add: fb_watched_def with_regs_fb_def unat_ucast_16)
  then show ?thesis using call [OF c1] call [OF c2] call [OF c3] by (simp add: numeral_3_eq_3)
qed

text \<open>
  Claim C29. A program that sets the geometry and one of the eight colour formats, starts a framebuffer that has not run before through
  its driver and then writes frames and displays each of
  them sees every call return, one viewer is started, and the viewer draws every frame, in
  order and complete, each converted pixel by pixel to the order of the screen (\<open>shown\<close>); the viewer takes the buffer its own index says.
  This is for a device without transfers of its own, a viewer that handles a signal before the next access, and frames that fill a
  buffer of whole words; of a buffer the device makes larger than a frame, the first \<open>frame_bytes\<close> are drawn. (A successful \<open>write\<close> returns 0.)
\<close>

theorem driver_shows_frames:
  assumes "fb_driver_ok drv" "ke_kmalloc env \<noteq> 0" "length (fk_rdata k) = 8" "fb_stopped (sy_dev s)" "sy_nb s < NB_RAMDACS" "fk_shm_ok k (of_nat n)"
    and "fb_buf_size (int (unat w)) (int (unat h)) m (fd_buf_size (sy_dev s)) = int n" "n mod 4 = 0" "n \<le> 0x400000"
    and "good_geometry m (ucast w) (ucast h)" "length (fk_pixels k) = 4 * (unat w * unat h)" "\<forall>f\<in>set frames. length f = n"
  shows "\<exists>s'. fb_calls k env qemu ([Ioctl RABBITSFB_IOCSSIZE (bytes32 (size_word w h)), Ioctl RABBITSFB_IOCSMODE (bytes32 m), Ioctl RABBITSFB_IOCRESET []]
        @ concat (map (\<lambda>f. [Write f, Ioctl RABBITSFB_IOCDISPLAY []]) frames)) drv s q
      = Inr (drv, s', q, replicate (3 + 2 * length frames) (Returns 0))
    \<and> sy_nb s' = sy_nb s + 1
    \<and> sy_drawn s' = sy_drawn s @ map (shown m (ucast w) (ucast h) (fk_masks k)) frames"
proof -
  from fb_setup_calls [OF assms(1,3-11)] obtain s1 where
    s1: "fb_calls k env qemu [Ioctl RABBITSFB_IOCSSIZE (bytes32 (size_word w h)), Ioctl RABBITSFB_IOCSMODE (bytes32 m), Ioctl RABBITSFB_IOCRESET []] drv s q
      = Inr (drv, s1, q, replicate 3 (Returns 0))" "fb_watched k m (ucast w) (ucast h) n s1" "sy_nb s1 = sy_nb s + 1" "sy_drawn s1 = sy_drawn s" by blast
  from fb_frames_calls [OF assms(1-3) s1(2) assms(12), of qemu q] obtain s' where
    "fb_calls k env qemu (concat (map (\<lambda>f. [Write f, Ioctl RABBITSFB_IOCDISPLAY []]) frames)) drv s1 q
      = Inr (drv, s', q, replicate (2 * length frames) (Returns 0))" "sy_nb s' = sy_nb s1"
    "sy_drawn s' = sy_drawn s1 @ map (shown m (ucast w) (ucast h) (fk_masks k)) frames" by blast
  with s1 show ?thesis by (simp only: fb_calls_append) (simp add: replicate_add del: fb_calls.simps)
qed

definition small_fb_driver :: "rabbitsfb_device chr_driver" where
  "small_fb_driver = \<lparr>cd_major = 252, cd_minor = 0, cd_nb_dev = 1, cd_devs = [\<lparr>rf_minor = 0, rf_base_addr = RABBITSFB_BASE_ADDRESS,
     rf_mem_addr = RABBITSFB_BASE_ADDRESS + RABBITSFB_MEM_BASE, rf_irq = irq_state_zero RABBITSFB_MAXIRQ\<rparr>]\<rparr>"

definition fresh_fb :: fb_system where
  "fresh_fb = \<lparr>sy_dev = small_fb\<lparr>fd_io := \<lparr>io_regs = \<lparr>fb_image_w = 0, fb_image_h = 0, fb_mode = FB_NONE, fb_buf_addr = 0, fb_ctrl = 0,
     fb_irqstat = 0, fb_status = FB_STOPPED, fb_dmaen = 0, fb_disp_wrap = 0\<rparr>, io_mem = None, io_mem_size = 0, io_mem_idx = 0\<rparr>\<rparr>,
     sy_nb = 0, sy_viewer = None, sy_drawn = []\<rparr>"

definition no_io :: "unit kernel_io" where
  "no_io = \<lparr>readl = (\<lambda>a s. Inl OutOfBounds), writel = (\<lambda>v a s. Inl OutOfBounds), readb = (\<lambda>a s. Inl OutOfBounds),
     writeb = (\<lambda>v a s. Inl OutOfBounds), mem_get = (\<lambda>a n s. Inl OutOfBounds), mem_put = (\<lambda>a bs s. Inl OutOfBounds)\<rparr>"

definition some_env :: kernel_env where
  "some_env = \<lparr>ke_alloc_chrdev = (0, 252, 0), ke_ioremap = (\<lambda>a. a), ke_kmalloc = 0x1000, ke_cdev_add = 0, ke_request_irq = 0\<rparr>"

definition small_fb_conf :: "unit fb_conf" where
  "small_fb_conf = \<lparr>fk_req = zero_request, fk_rdata = replicate 8 0, fk_shm_ok = (\<lambda>n. True), fk_masks = usual_masks, fk_pixels = replicate 8 0,
     fk_other = no_io\<rparr>"

lemma shown_two_pixels:
  "shown FB_ARGB 2 1 usual_masks [a, b, c, d, a', b', c', d'] = [d, c, b, a, d', c', b', a']"
proof -
  have "masks_bgra usual_masks" by (simp add: masks_bgra_def usual_masks_def)
  then show ?thesis by (simp add: shown_def screen_picture_def screen_pixel_def Let_def frame_bytes_def fb_mode_defs upt_rec)
qed

text \<open>Three frames of two pixels, on a screen that takes the bytes of a pixel in the reverse order.\<close>

theorem driver_shows_frames_witness:
  "\<exists>s'. fb_calls small_fb_conf some_env 0 ([Ioctl RABBITSFB_IOCSSIZE (bytes32 (size_word 2 1)), Ioctl RABBITSFB_IOCSMODE (bytes32 FB_ARGB), Ioctl RABBITSFB_IOCRESET []]
        @ concat (map (\<lambda>f. [Write f, Ioctl RABBITSFB_IOCDISPLAY []]) [[1, 2, 3, 4, 5, 6, 7, 8], [9, 8, 7, 6, 5, 4, 3, 2], [0, 0, 0, 1, 0, 0, 0, 2]]))
        small_fb_driver fresh_fb () = Inr (small_fb_driver, s', (), replicate 9 (Returns 0))
      \<and> sy_drawn s' = [[4, 3, 2, 1, 8, 7, 6, 5], [6, 7, 8, 9, 2, 3, 4, 5], [1, 0, 0, 0, 2, 0, 0, 0]]"
proof -
  let ?fs = "[[1, 2, 3, 4, 5, 6, 7, 8], [9, 8, 7, 6, 5, 4, 3, 2], [0, 0, 0, 1, 0, 0, 0, 2 :: u8]]"
  have "\<exists>s'. fb_calls small_fb_conf some_env 0 ([Ioctl RABBITSFB_IOCSSIZE (bytes32 (size_word 2 1)), Ioctl RABBITSFB_IOCSMODE (bytes32 FB_ARGB), Ioctl RABBITSFB_IOCRESET []]
        @ concat (map (\<lambda>f. [Write f, Ioctl RABBITSFB_IOCDISPLAY []]) ?fs)) small_fb_driver fresh_fb ()
      = Inr (small_fb_driver, s', (), replicate (3 + 2 * length ?fs) (Returns 0))
    \<and> sy_nb s' = sy_nb fresh_fb + 1
    \<and> sy_drawn s' = sy_drawn fresh_fb @ map (shown FB_ARGB (ucast (2 :: u16)) (ucast (1 :: u16)) (fk_masks small_fb_conf)) ?fs"
    by (rule driver_shows_frames [where n = 8])
      (simp_all add: fb_driver_ok_def one_device_def small_fb_driver_def some_env_def small_fb_conf_def fb_stopped_def fresh_fb_def NB_RAMDACS_def
        fb_buf_size_def fb_mode_defs good_geometry_def)
  moreover have "sy_drawn fresh_fb @ map (shown FB_ARGB (ucast (2 :: u16)) (ucast (1 :: u16)) (fk_masks small_fb_conf)) ?fs
      = [[4, 3, 2, 1, 8, 7, 6, 5], [6, 7, 8, 9, 2, 3, 4, 5], [1, 0, 0, 0, 2, 0, 0, 0]]"
    using shown_two_pixels by (simp add: fresh_fb_def small_fb_conf_def)
  moreover have "3 + 2 * length ?fs = 9" by simp
  ultimately show ?thesis by metis
qed

subsection \<open>The interrupt of a frame\<close>

text \<open>
  When a frame has been displayed with the interrupt on and one logical interrupt registered for it, the line
  is up; the service routine finds the interrupt to be its own, acknowledges it, so that the line falls, marks
  the descriptor and wakes the task.
\<close>

theorem display_interrupt_served:
  assumes "length (fk_rdata k) = 8" "rf_base_addr dev = RABBITSFB_BASE_ADDRESS" "is_nb_irq_en (rf_irq dev) = 1" "is_irqs (rf_irq dev) = [q0]"
    and "iq_type q0 = 1" "fb_ctrl (io_regs (fd_io d)) AND FB_CTRL_IRQEN \<noteq> 0" "fb_irqstat (io_regs (fd_io d)) = 1"
  shows "fd_irq (fb_irq_update_thread d)"
    and "\<exists>d'. rabbitsfb_int_service (fb_io k) dev (s\<lparr>sy_dev := fb_irq_update_thread d\<rparr>, q)
      = Inr (True, dev\<lparr>rf_irq := (rf_irq dev)\<lparr>is_irqs := [irq_desc_event 1 q0]\<rparr>\<rparr>, (s\<lparr>sy_dev := d'\<rparr>, q), [WakeUp 0])
      \<and> \<not> fd_irq d'"
proof -
  let ?d = "fb_irq_update_thread d"
  have g: "(1::u32) AND NOT FB_IRQ_GLOBAL \<noteq> 0" "((1::u32) OR FB_IRQ_GLOBAL) AND 1 = 1" by (simp_all add: fb_ctrl_defs)
  have up: "?d = d\<lparr>fd_io := (fd_io d)\<lparr>io_regs := (io_regs (fd_io d))\<lparr>fb_irqstat := 1 OR FB_IRQ_GLOBAL\<rparr>\<rparr>, fd_irq := True\<rparr>"
    using assms(6,7) g(1) by (simp add: fb_irq_update_thread_def Let_def)
  then show "fd_irq ?d" by simp
  let ?d' = "fb_irq_update_thread (with_regs_fb ?d ((io_regs (fd_io ?d))\<lparr>fb_irqstat := (1 OR FB_IRQ_GLOBAL) AND NOT 1\<rparr>))"
  have sv: "int_service_irqs 1 (rf_irq dev) = Inr ((rf_irq dev)\<lparr>is_irqs := [irq_desc_event 1 q0]\<rparr>, [WakeUp 0])"
    using int_service_irqs_served [of "rf_irq dev" 1] assms(3-5) by (simp add: types_disjoint_def served_def)
  have "rabbitsfb_int_service (fb_io k) dev (s\<lparr>sy_dev := ?d\<rparr>, q)
      = Inr (True, dev\<lparr>rf_irq := (rf_irq dev)\<lparr>is_irqs := [irq_desc_event 1 q0]\<rparr>\<rparr>, (s\<lparr>sy_dev := ?d'\<rparr>, q), [WakeUp 0])"
    using fb_irqstat_load [OF assms(1), of "s\<lparr>sy_dev := ?d\<rparr>" q] fb_irqclr_store [of k 1 "s\<lparr>sy_dev := ?d\<rparr>" q] assms(2) sv g(2)
    by (simp add: rabbitsfb_int_service_def up)
  moreover have "\<not> fd_irq ?d'"
    by (simp add: fb_irq_update_thread_def Let_def with_regs_fb_def up FB_IRQ_GLOBAL_def)
  ultimately show "\<exists>d'. rabbitsfb_int_service (fb_io k) dev (s\<lparr>sy_dev := ?d\<rparr>, q)
      = Inr (True, dev\<lparr>rf_irq := (rf_irq dev)\<lparr>is_irqs := [irq_desc_event 1 q0]\<rparr>\<rparr>, (s\<lparr>sy_dev := d'\<rparr>, q), [WakeUp 0])
      \<and> \<not> fd_irq d'" by blast
qed

end
