(* ===== verification/Dbf_Driver.thy ===== *)
theory Dbf_Driver
  imports Linux_Irq
begin

text \<open>
  The driver of the deblocking filter (\<^verbatim>\<open>drivers/h264dbf_drv/h264dbf_drv.c\<close> and \<^verbatim>\<open>h264dbf_int.c\<close>): a program registers for the
  interrupts of slices and of the copy, waits for them, and sets the address of the copy. The address of
  the wrapper's registers, \<open>__io_address(QEMU_ADDR_BASE)\<close>, is the argument \<open>qemu\<close>.
\<close>

definition H264DBF_MAXDEV :: nat where "H264DBF_MAXDEV = 1"
definition H264DBF_MAXIRQ :: nat where "H264DBF_MAXIRQ = 2"
definition H264DBF_IRQ_NO :: nat where "H264DBF_IRQ_NO = 35"
definition H264DBF_BASE_ADDRESS :: ulong where "H264DBF_BASE_ADDRESS = 0xA6000000"
definition H264DBF_SIZE :: ulong where "H264DBF_SIZE = 0x01000000"
definition H264DBF_REG_NSLICES :: ulong where "H264DBF_REG_NSLICES = 0x39000"
definition H264DBF_INT_ACK :: ulong where "H264DBF_INT_ACK = 0x39004"
definition H264DBF_INT_STATUS :: ulong where "H264DBF_INT_STATUS = 0x39008"
definition H264DBF_INT_ENABLE :: ulong where "H264DBF_INT_ENABLE = 0x3900C"
definition H264DBF_REG_SRAM_ADDRESS :: ulong where "H264DBF_REG_SRAM_ADDRESS = 0x39010"
definition H264DBF_REG_NSLICES_INTR :: ulong where "H264DBF_REG_NSLICES_INTR = 0x39018"
definition QEMU_INT_DBF_MASK :: ulong where "QEMU_INT_DBF_MASK = 0x00008"
definition H264DBF_IOCRESET :: u32 where "H264DBF_IOCRESET = IO 0x78 0"
definition H264DBF_IOCSIRQREG :: u32 where "H264DBF_IOCSIRQREG = IOWR 0x78 1 4"
definition H264DBF_IOCSIRQWAIT :: u32 where "H264DBF_IOCSIRQWAIT = IOW 0x78 2 4"
definition H264DBF_IOCSIRQUNREG :: u32 where "H264DBF_IOCSIRQUNREG = IOW 0x78 3 4"
definition H264DBF_IOCS_SET_TRANSFER_ADDR :: u32 where "H264DBF_IOCS_SET_TRANSFER_ADDR = IOW 0x78 4 4"
definition H264DBF_IOCS_SET_NSLICES_INTR :: u32 where "H264DBF_IOCS_SET_NSLICES_INTR = IOW 0x78 5 4"
definition H264DBF_IOCS_GET_HW_NSLICES :: u32 where "H264DBF_IOCS_GET_HW_NSLICES = IOR 0x78 6 4"

lemmas h264dbf_regs = H264DBF_BASE_ADDRESS_def H264DBF_REG_NSLICES_def H264DBF_INT_ACK_def H264DBF_INT_STATUS_def
  H264DBF_INT_ENABLE_def H264DBF_REG_SRAM_ADDRESS_def H264DBF_REG_NSLICES_INTR_def QEMU_INT_DBF_MASK_def

record h264dbf_device =
  hd_minor :: int
  hd_base_addr :: ulong
  hd_irq :: irq_state

definition h264dbf_zero :: h264dbf_device where
  "h264dbf_zero = \<lparr>hd_minor = 0, hd_base_addr = 0, hd_irq = irq_state_zero H264DBF_MAXIRQ\<rparr>"

subsection \<open>Interrupts\<close>

text \<open>The result is always that the interrupt was handled.\<close>

definition h264dbf_int_service :: "'s kernel_io \<Rightarrow> h264dbf_device \<Rightarrow> 's \<Rightarrow> (h264dbf_device \<times> 's \<times> kernel_call list) res" where
  "h264dbf_int_service io d s =
     bindr (readb io (hd_base_addr d + H264DBF_INT_STATUS) s) (\<lambda>(s, st).
     let status = (ucast st :: u32) in
     if status \<le> 0x80 then Inr (d, s, [])
     else
       let status = status AND 0x7F in
       bindr (writeb io (ucast status) (hd_base_addr d + H264DBF_INT_ACK) s) (\<lambda>s.
       bindr (int_service_irqs status (hd_irq d)) (\<lambda>(st, ws). Inr (d\<lparr>hd_irq := st\<rparr>, s, ws))))"

definition h264dbf_int_enable :: "'s kernel_io \<Rightarrow> kernel_env \<Rightarrow> ulong \<Rightarrow> h264dbf_device \<Rightarrow> 's
    \<Rightarrow> (int \<times> h264dbf_device \<times> 's \<times> kernel_call list) res" where
  "h264dbf_int_enable io env qemu d s =
     (let enabled = (\<lambda>d. d\<lparr>hd_irq := (hd_irq d)\<lparr>is_nb_irq_en := is_nb_irq_en (hd_irq d) + 1\<rparr>\<rparr>) in
      if is_irq_en (hd_irq d) then Inr (0, enabled d, s, [])
      else
        bindr (writeb io 0x7F (hd_base_addr d + H264DBF_INT_ACK) s) (\<lambda>s.
        let d = d\<lparr>hd_irq := (hd_irq d)\<lparr>is_irqs := irqs_init (is_irqs (hd_irq d))\<rparr>\<rparr> in
        if ke_request_irq env \<noteq> 0 then Inr (- EINVAL, d, s, [RequestIrq H264DBF_IRQ_NO])
        else
          let d = d\<lparr>hd_irq := (hd_irq d)\<lparr>is_irq_en := True\<rparr>\<rparr> in
          bindr (qemu_enable_irq io qemu QEMU_INT_DBF_MASK s) (\<lambda>s.
          Inr (0, enabled d, s, [RequestIrq H264DBF_IRQ_NO]))))"

definition h264dbf_disable_device_irq :: "'s kernel_io \<Rightarrow> ulong \<Rightarrow> ulong \<Rightarrow> 's \<Rightarrow> 's res" where
  "h264dbf_disable_device_irq io qemu base s =
     bindr (writel io 0 (base + H264DBF_INT_ENABLE) s) (\<lambda>s. qemu_disable_irq io qemu QEMU_INT_DBF_MASK s)"

definition h264dbf_int_disable :: "'s kernel_io \<Rightarrow> ulong \<Rightarrow> h264dbf_device \<Rightarrow> 's \<Rightarrow> (h264dbf_device \<times> 's \<times> kernel_call list) res" where
  "h264dbf_int_disable io qemu d s =
     bindr (irq_disable (h264dbf_disable_device_irq io qemu (hd_base_addr d)) H264DBF_IRQ_NO (hd_irq d) s) (\<lambda>(st, s, ks).
     Inr (d\<lparr>hd_irq := st\<rparr>, s, ks))"

definition h264dbf_int_cleanup :: "'s kernel_io \<Rightarrow> ulong \<Rightarrow> h264dbf_device \<Rightarrow> 's \<Rightarrow> (h264dbf_device \<times> 's \<times> kernel_call list) res" where
  "h264dbf_int_cleanup io qemu d s =
     bindr (irq_cleanup (h264dbf_disable_device_irq io qemu (hd_base_addr d)) H264DBF_IRQ_NO (hd_irq d) s) (\<lambda>(st, s, ks).
     Inr (d\<lparr>hd_irq := st\<rparr>, s, ks))"

text \<open>The register of enabled interrupts is read and written as a word.\<close>

definition h264dbf_int_register :: "'s kernel_io \<Rightarrow> kernel_env \<Rightarrow> ulong \<Rightarrow> ioc_irq \<Rightarrow> h264dbf_device \<Rightarrow> 's
    \<Rightarrow> (int \<times> h264dbf_device \<times> 's \<times> kernel_call list) res" where
  "h264dbf_int_register io env qemu irq d s =
     (if unat (ir_id irq) > H264DBF_MAXIRQ then Inr (- EINVAL, d, s, [])
      else
        bindr (h264dbf_int_enable io env qemu d s) (\<lambda>(_, d, s, ks).
        bindr (irq_set_type (ir_id irq) (ir_type irq) (hd_irq d)) (\<lambda>st.
        bindr (readl io (hd_base_addr d + H264DBF_INT_ENABLE) s) (\<lambda>(s, dbf_intr_enabled).
        bindr (writel io (dbf_intr_enabled OR ir_type irq) (hd_base_addr d + H264DBF_INT_ENABLE) s) (\<lambda>s.
        Inr (0, d\<lparr>hd_irq := st\<rparr>, s, ks))))))"

definition h264dbf_int_wait :: "ioc_irq \<Rightarrow> h264dbf_device \<Rightarrow> (call_end \<times> h264dbf_device) res" where
  "h264dbf_int_wait irq d = bindr (irq_wait H264DBF_MAXIRQ irq (hd_irq d)) (\<lambda>(r, st). Inr (r, d\<lparr>hd_irq := st\<rparr>))"

text \<open>The rest of the call once the task is awake.\<close>

definition h264dbf_int_wait_end :: "ioc_irq \<Rightarrow> h264dbf_device \<Rightarrow> (int \<times> h264dbf_device) res" where
  "h264dbf_int_wait_end irq d = bindr (irq_wait_end (ir_id irq) (hd_irq d)) (\<lambda>st. Inr (0, d\<lparr>hd_irq := st\<rparr>))"

definition h264dbf_int_unregister :: "'s kernel_io \<Rightarrow> ulong \<Rightarrow> ioc_irq \<Rightarrow> h264dbf_device \<Rightarrow> 's
    \<Rightarrow> (int \<times> h264dbf_device \<times> 's \<times> kernel_call list) res" where
  "h264dbf_int_unregister io qemu irq d s =
     (if unat (ir_id irq) > H264DBF_MAXIRQ then Inr (- EINVAL, d, s, [])
      else
        bindr (readl io (hd_base_addr d + H264DBF_INT_ENABLE) s) (\<lambda>(s, dbf_intr_enabled).
        bindr (rd (is_irqs (hd_irq d)) (unat (ir_id irq))) (\<lambda>desc.
        bindr (writel io (dbf_intr_enabled AND NOT (iq_type desc)) (hd_base_addr d + H264DBF_INT_ENABLE) s) (\<lambda>s.
        bindr (irq_clear_type (unat (ir_id irq)) (hd_irq d)) (\<lambda>st.
        bindr (h264dbf_int_disable io qemu (d\<lparr>hd_irq := st\<rparr>) s) (\<lambda>(d, s, ks). Inr (0, d, s, ks)))))))"

subsection \<open>Calls\<close>

text \<open>The first result has how the call ends, the bytes written to the user's buffer and what the kernel is told.\<close>

type_synonym 's dbf_call_res = "((call_end \<times> u8 list \<times> kernel_call list) \<times> h264dbf_device \<times> 's) res"

definition h264dbf_chr_ioctl_set_register_32 :: "'s kernel_io \<Rightarrow> u8 list \<Rightarrow> ulong \<Rightarrow> h264dbf_device \<Rightarrow> 's \<Rightarrow> 's dbf_call_res" where
  "h264dbf_chr_ioctl_set_register_32 io user reg_ofs d s =
     COPY_FROM_USER user 4 (\<lambda>cpy. Inr ((Returns cpy, [], []), d, s)) (\<lambda>bs.
     bindr (writel io (le32 bs) (hd_base_addr d + reg_ofs) s) (\<lambda>s. Inr ((Returns 0, [], []), d, s)))"

definition h264dbf_chr_ioctl_set_register_8 :: "'s kernel_io \<Rightarrow> u8 list \<Rightarrow> ulong \<Rightarrow> h264dbf_device \<Rightarrow> 's \<Rightarrow> 's dbf_call_res" where
  "h264dbf_chr_ioctl_set_register_8 io user reg_ofs d s =
     COPY_FROM_USER user 1 (\<lambda>cpy. Inr ((Returns cpy, [], []), d, s)) (\<lambda>bs.
     bindr (writeb io (hd bs) (hd_base_addr d + reg_ofs) s) (\<lambda>s. Inr ((Returns 0, [], []), d, s)))"

definition h264dbf_chr_ioctl_get_register_8 :: "'s kernel_io \<Rightarrow> nat \<Rightarrow> ulong \<Rightarrow> h264dbf_device \<Rightarrow> 's \<Rightarrow> 's dbf_call_res" where
  "h264dbf_chr_ioctl_get_register_8 io room reg_ofs d s =
     bindr (readb io (hd_base_addr d + reg_ofs) s) (\<lambda>(s, val).
     COPY_TO_USER room [val] (\<lambda>cpy. Inr ((Returns cpy, [], []), d, s)) (\<lambda>us. Inr ((Returns 0, us, []), d, s)))"

definition dbf_returning4 :: "(int \<times> h264dbf_device \<times> 's \<times> kernel_call list) res \<Rightarrow> 's dbf_call_res" where
  "dbf_returning4 r = bindr r (\<lambda>(ret, d, s, ks). Inr ((Returns ret, [], ks), d, s))"

definition h264dbf_chr_open :: "int \<Rightarrow> int \<Rightarrow> h264dbf_device chr_driver \<Rightarrow> int \<times> nat option" where
  "h264dbf_chr_open major minor drv = (case chr_open_index drv major minor of Inl ret \<Rightarrow> (ret, None) | Inr i \<Rightarrow> (0, Some i))"

definition h264dbf_command :: "'s kernel_io \<Rightarrow> kernel_env \<Rightarrow> ulong \<Rightarrow> u32 \<Rightarrow> u8 list \<Rightarrow> nat \<Rightarrow> h264dbf_device \<Rightarrow> 's \<Rightarrow> 's dbf_call_res" where
  "h264dbf_command io env qemu code user room d s =
     (let fails = (\<lambda>cpy. Inr ((Returns cpy, [], []), d, s)) in
      if code = H264DBF_IOCRESET then Inr ((Returns 0, [], []), d, s)
      else if code = H264DBF_IOCSIRQREG then
        COPY_FROM_USER user 12 fails (\<lambda>bs. dbf_returning4 (h264dbf_int_register io env qemu (ioc_irq_of bs) d s))
      else if code = H264DBF_IOCSIRQWAIT then
        COPY_FROM_USER user 12 fails (\<lambda>bs. bindr (h264dbf_int_wait (ioc_irq_of bs) d) (\<lambda>(r, d). Inr ((r, [], []), d, s)))
      else if code = H264DBF_IOCSIRQUNREG then
        COPY_FROM_USER user 12 fails (\<lambda>bs. dbf_returning4 (h264dbf_int_unregister io qemu (ioc_irq_of bs) d s))
      else if code = H264DBF_IOCS_SET_TRANSFER_ADDR then h264dbf_chr_ioctl_set_register_32 io user H264DBF_REG_SRAM_ADDRESS d s
      else if code = H264DBF_IOCS_SET_NSLICES_INTR then h264dbf_chr_ioctl_set_register_8 io user H264DBF_REG_NSLICES_INTR d s
      else if code = H264DBF_IOCS_GET_HW_NSLICES then h264dbf_chr_ioctl_get_register_8 io room H264DBF_REG_NSLICES d s
      else Inr ((Returns (- ENOTTY), [], []), d, s))"

definition h264dbf_chr_ioctl :: "'s kernel_io \<Rightarrow> kernel_env \<Rightarrow> ulong \<Rightarrow> nat option \<Rightarrow> u32 \<Rightarrow> u8 list \<Rightarrow> nat \<Rightarrow> h264dbf_device chr_driver \<Rightarrow> 's
    \<Rightarrow> ((call_end \<times> u8 list \<times> kernel_call list) \<times> h264dbf_device chr_driver \<times> 's) res" where
  "h264dbf_chr_ioctl io env qemu file code user room drv s =
     (case file of
        None \<Rightarrow> Inr ((Returns (- EBADF), [], []), drv, s)
      | Some i \<Rightarrow> on_device drv i (\<lambda>d. h264dbf_command io env qemu code user room d s))"

definition h264dbf_chr_release :: "'s kernel_io \<Rightarrow> ulong \<Rightarrow> h264dbf_device \<Rightarrow> 's \<Rightarrow> ((int \<times> kernel_call list) \<times> h264dbf_device \<times> 's) res" where
  "h264dbf_chr_release io qemu d s = bindr (h264dbf_int_cleanup io qemu d s) (\<lambda>(d, s, ks). Inr ((0, ks), d, s))"

subsection \<open>The module\<close>

definition h264dbf_dev_init :: "kernel_env \<Rightarrow> h264dbf_device chr_driver \<Rightarrow> 's
    \<Rightarrow> (int \<times> h264dbf_device chr_driver \<times> 's \<times> kernel_call list) res" where
  "h264dbf_dev_init env drv s =
     (let idx = cd_nb_dev drv in
      bindr (rd (cd_devs drv) idx) (\<lambda>d.
      let drv = drv\<lparr>cd_nb_dev := idx + 1\<rparr>; base_addr = ke_ioremap env H264DBF_BASE_ADDRESS
      in if base_addr = 0 then Inr (- ENOMEM, drv, s, [])
         else
           let (ret, minor, ks) = chr_cdev_setup env drv idx;
               d = d\<lparr>hd_base_addr := base_addr, hd_minor := minor\<rparr>
           in Inr (0, drv\<lparr>cd_devs := (cd_devs drv)[idx := d]\<rparr>, s, ks)))"

definition h264dbf_dev_exit :: "'s kernel_io \<Rightarrow> ulong \<Rightarrow> int \<Rightarrow> h264dbf_device \<Rightarrow> 's \<Rightarrow> (h264dbf_device \<times> 's \<times> kernel_call list) res" where
  "h264dbf_dev_exit io qemu major d s =
     bindr (h264dbf_int_cleanup io qemu d s) (\<lambda>(d, s, ks).
     Inr (d, s, CdevDel major (hd_minor d) # ks @ [Iounmap (hd_base_addr d)]))"

definition h264dbf_drv_init :: "kernel_env \<Rightarrow> 's \<Rightarrow> (int \<times> h264dbf_device chr_driver \<times> 's \<times> kernel_call list) res" where
  "h264dbf_drv_init env s = chr_drv_init H264DBF_MAXDEV h264dbf_zero env (h264dbf_dev_init env) s"

definition h264dbf_drv_cleanup :: "'s kernel_io \<Rightarrow> ulong \<Rightarrow> h264dbf_device chr_driver \<Rightarrow> 's
    \<Rightarrow> (h264dbf_device chr_driver \<times> 's \<times> kernel_call list) res" where
  "h264dbf_drv_cleanup io qemu drv s = chr_drv_cleanup H264DBF_MAXDEV (h264dbf_dev_exit io qemu (cd_major drv)) drv s"

end
