(* ===== verification/Dbf_Driver_System.thy ===== *)
theory Dbf_Driver_System
  imports Dbf_Driver Dbf_Device Mem_Device
begin

text \<open>
  The driver of the deblocking filter together with the registers of the filter: the service routine acknowledges what the
  filter reports, and the one situation in which it does not.
\<close>

subsection \<open>Accesses to the filter\<close>

text \<open>A store and a load of \<open>n\<close> bytes by the driver: the transaction of the wrapper and one iteration of the filter's request thread.\<close>

definition dbf_store :: "vci_request \<Rightarrow> ulong \<Rightarrow> ulong \<Rightarrow> u32 \<Rightarrow> dbf_device \<Rightarrow> dbf_device res" where
  "dbf_store junk ofs n v d = bindr (send_req junk 0 0 ofs (bytes32 v) n True) (\<lambda>req. dbf_request_thread req d)"

definition dbf_load :: "vci_request \<Rightarrow> ulong \<Rightarrow> ulong \<Rightarrow> dbf_device \<Rightarrow> (dbf_device \<times> u32) res" where
  "dbf_load junk ofs n d =
     bindr (send_req junk 0 0 ofs [] n False) (\<lambda>req.
     bindr (dbf_request_thread req d) (\<lambda>d.
     Inr (d, le32 (take (unat n) (drop (lane_ofs ofs) (rs_rdata (db_response d))) @ replicate (4 - unat n) 0))))"

definition dbf_address :: "ulong \<Rightarrow> bool" where
  "dbf_address a \<longleftrightarrow> H264DBF_BASE_ADDRESS \<le> a \<and> a < H264DBF_BASE_ADDRESS + H264DBF_SIZE"

definition dbf_io :: "vci_request \<Rightarrow> 'q kernel_io \<Rightarrow> (dbf_device \<times> 'q) kernel_io" where
  "dbf_io junk other = \<lparr>
     readl = (\<lambda>a (d, q). if dbf_address a
        then bindr (dbf_load junk (a - H264DBF_BASE_ADDRESS) 4 d) (\<lambda>(d, v). Inr ((d, q), v))
        else bindr (readl other a q) (\<lambda>(q, v). Inr ((d, q), v))),
     writel = (\<lambda>v a (d, q). if dbf_address a
        then bindr (dbf_store junk (a - H264DBF_BASE_ADDRESS) 4 v d) (\<lambda>d. Inr (d, q))
        else bindr (writel other v a q) (\<lambda>q. Inr (d, q))),
     readb = (\<lambda>a (d, q). if dbf_address a
        then bindr (dbf_load junk (a - H264DBF_BASE_ADDRESS) 1 d) (\<lambda>(d, v). Inr ((d, q), ucast v)) else Inl OutOfBounds),
     writeb = (\<lambda>v a (d, q). if dbf_address a
        then bindr (dbf_store junk (a - H264DBF_BASE_ADDRESS) 1 (ucast v) d) (\<lambda>d. Inr (d, q)) else Inl OutOfBounds),
     mem_get = (\<lambda>a n s. Inl OutOfBounds), mem_put = (\<lambda>a bs s. Inl OutOfBounds)\<rparr>"

text \<open>The filter after an access: the memory and the interrupt of its link, what the access notified, and the rest, which the driver does not see.\<close>

definition dbf_after :: "dbf_device \<Rightarrow> dbf_link \<Rightarrow> dbf_event list \<Rightarrow> dbf_device \<Rightarrow> bool" where
  "dbf_after d l es d' \<longleftrightarrow> d' = d\<lparr>db_request := db_request d', db_link := l, db_response := db_response d',
       db_events := db_events d @ es @ [DbfResponse]\<rparr>
     \<and> length (rs_rdata (db_response d')) = length (rs_rdata (db_response d))"

lemma dbf_get_offset_lanes:
  "0 < w \<Longrightarrow> k + w \<le> 8 \<Longrightarrow> dbf_get_offset (lanes_mask k w) = Inr (k, w)"
  by (simp add: dbf_get_offset_def skip_zeros_lanes_mask take_ones_mask [of w 0, simplified])

lemma align_lane: "uint (ofs AND 0xFFFFFFF8) + int (lane_ofs ofs) = uint (ofs :: ulong)"
proof -
  have "int (unat (ofs AND 0xFFFFFFF8)) + int (unat ofs mod 8) = int (unat ofs)" unfolding and_align8 by simp
  then show ?thesis unfolding lane_ofs_mod by simp
qed

lemma for_each_range_load:
  assumes "\<And>j. j < w \<Longrightarrow> f (k + j) = Inr (b j)" "k + w \<le> length rdata"
  shows "for_each (\<lambda>i rdata. bindr (f i) (\<lambda>x. wr rdata i x)) [k..<k + w] rdata = Inr (put_bytes rdata k (map b [0..<w]))"
  using assms
proof (induction w)
  case 0
  then show ?case by (simp add: put_bytes_def)
next
  case (Suc w)
  have l: "length (put_bytes rdata k (map b [0..<w])) = length rdata" using Suc.prems(2) by (simp add: put_bytes_def)
  have "(put_bytes rdata k (map b [0..<w]))[k + w := b w] = put_bytes rdata k (map b [0..<Suc w])"
    using Suc.prems(2) by (simp add: put_bytes_def list_update_append Cons_nth_drop_Suc [symmetric])
  then show ?case using Suc l by (simp add: for_each_append)
qed

lemma dbf_load_bytes:
  assumes "aligned_access ofs n" "dl_sized (db_link d)" "unat ofs + unat n \<le> 0x40000" "length (rs_rdata (db_response d)) = 8"
  shows "\<exists>d'. dbf_load junk ofs n d = Inr (d', le32 (map (\<lambda>j. dl_data (db_link d) ! (unat ofs + j)) [0..<unat n] @ replicate (4 - unat n) 0))
    \<and> dbf_after d (db_link d) [] d'"
proof -
  note f = aligned_access_facts [OF assms(1)]
  let ?k = "lane_ofs ofs" and ?b = "\<lambda>j. dl_data (db_link d) ! (unat ofs + j)"
  define req where "req = junk\<lparr>rq_cmd := CMD_READ, rq_be := lanes_mask ?k (unat n), rq_address := ofs AND 0xFFFFFFF8, rq_trdid := 0,
    rq_srcid := 0, rq_plen := 1, rq_eop := True, rq_wdata := replicate 8 0\<rparr>"
  have s: "send_req junk 0 0 ofs [] n False = Inr req"
    using send_req_aligned [OF assms(1), of False "[]" junk 0 0] by (simp add: req_def)
  have k: "?k + unat n \<le> 8" "0 < unat n" using f by auto
  have "get_data (db_link d) (uint (ofs AND 0xFFFFFFF8) + int (?k + j)) = Inr (?b j)" if "j < unat n" for j
  proof -
    have "uint (ofs AND 0xFFFFFFF8) + int (?k + j) = int (unat ofs + j)" using align_lane [of ofs] by simp
    moreover have "int (unat ofs + j) < 0x40000" using that assms(3) by linarith
    ultimately show ?thesis using get_data_ok [OF assms(2), of "int (unat ofs + j)"] by (simp only: nat_int)
  qed
  then have ld: "for_each (\<lambda>i rdata. bindr (get_data (db_link d) (uint (ofs AND 0xFFFFFFF8) + int i)) (\<lambda>b. wr rdata i b)) [?k..<?k + unat n]
      (rs_rdata (db_response d)) = Inr (put_bytes (rs_rdata (db_response d)) ?k (map ?b [0..<unat n]))"
    using for_each_range_load [where f = "\<lambda>i. get_data (db_link d) (uint (ofs AND 0xFFFFFFF8) + int i)" and b = ?b and w = "unat n" and k = ?k] k assms(4)
    by simp
  have nz: "lanes_mask ?k (unat n) \<noteq> 0" using lanes_mask_nonzero k by simp
  show ?thesis
    using ld nz k assms(4) take_drop_put_bytes [of ?k "map ?b [0..<unat n]" "rs_rdata (db_response d)"]
    by (simp add: dbf_load_def s dbf_request_thread_def handle_request_def Let_def req_def CMD_READ_def dbf_get_offset_lanes dbf_after_def)
qed

text \<open>The stores of the bytes of a value, one after the other.\<close>

definition dbf_stores :: "ulong \<Rightarrow> u32 \<Rightarrow> nat \<Rightarrow> dbf_link \<Rightarrow> (dbf_link \<times> dbf_event list) res" where
  "dbf_stores ofs v w l = for_each (\<lambda>j s. and_then (\<lambda>l. set_data l (uint ofs + int j) (bytes32 v ! j)) s) [0..<w] (l, [])"

lemma for_each_single: "for_each f [x] s = f x s"
  by (cases "f x s") simp_all

lemma for_each_range_store:
  assumes "\<And>j. j < w \<Longrightarrow> bs ! (k + j) = b j" "k + w \<le> length bs" "\<And>j. j < w \<Longrightarrow> a + int (k + j) = c + int j"
  shows "for_each (\<lambda>i s. bindr (rd bs i) (\<lambda>b. and_then (\<lambda>l. set_data l (a + int i) b) s)) [k..<k + w] s
    = for_each (\<lambda>j s. and_then (\<lambda>l. set_data l (c + int j) (b j)) s) [0..<w] s"
  using assms
proof (induction w)
  case (Suc w)
  have "rd bs (k + w) = Inr (b w)" using Suc.prems(1) [of w] Suc.prems(2) by simp
  moreover have "a + int (k + w) = c + int w" using Suc.prems(3) [of w] by simp
  ultimately have "for_each (\<lambda>i s. bindr (rd bs i) (\<lambda>b. and_then (\<lambda>l. set_data l (a + int i) b) s)) [k + w]
      = for_each (\<lambda>j s. and_then (\<lambda>l. set_data l (c + int j) (b j)) s) [w]"
    by (intro ext) (simp add: for_each_single del: of_nat_add for_each.simps)
  with Suc.IH Suc.prems show ?case by (simp add: for_each_append del: of_nat_add for_each.simps)
qed simp

lemma dbf_store_bytes:
  assumes "aligned_access ofs n" "dbf_stores ofs v (unat n) (db_link d) = Inr (l, es)"
  shows "\<exists>d'. dbf_store junk ofs n v d = Inr d' \<and> dbf_after d l es d'"
proof -
  note f = aligned_access_facts [OF assms(1)]
  let ?k = "lane_ofs ofs" and ?wd = "put_bytes (replicate 8 0) (lane_ofs ofs) (take (unat n) (bytes32 v))"
  have w: "unat n \<le> length (bytes32 v)" using f(4) by auto
  define req where "req = junk\<lparr>rq_cmd := CMD_WRITE, rq_be := lanes_mask ?k (unat n), rq_address := ofs AND 0xFFFFFFF8, rq_trdid := 0,
    rq_srcid := 0, rq_plen := 1, rq_eop := True, rq_wdata := ?wd\<rparr>"
  have s: "send_req junk 0 0 ofs (bytes32 v) n True = Inr req"
    using send_req_aligned [OF assms(1), of True "bytes32 v" junk 0 0] w by (simp add: req_def)
  have k: "?k + unat n \<le> 8" "0 < unat n" using f by auto
  have b: "?wd ! (?k + j) = bytes32 v ! j" if "j < unat n" for j
    using that k w by (subst nth_put_bytes) auto
  have a: "uint (ofs AND 0xFFFFFFF8) + int (?k + j) = uint ofs + int j" for j using align_lane [of ofs] by simp
  have st: "for_each (\<lambda>i s. bindr (rd ?wd i) (\<lambda>b. and_then (\<lambda>l. set_data l (uint (ofs AND 0xFFFFFFF8) + int i) b) s)) [?k..<?k + unat n]
      (db_link d, []) = Inr (l, es)"
    using for_each_range_store [of "unat n" ?wd ?k "\<lambda>j. bytes32 v ! j" "uint (ofs AND 0xFFFFFFF8)" "uint ofs" "(db_link d, [])"] b a k w assms(2)
    by (simp add: dbf_stores_def del: of_nat_add)
  have nz: "lanes_mask ?k (unat n) \<noteq> 0" using lanes_mask_nonzero k by simp
  show ?thesis
    using st nz k
    by (simp add: dbf_store_def s dbf_request_thread_def handle_request_def Let_def req_def CMD_WRITE_def dbf_get_offset_lanes dbf_after_def)
qed

subsection \<open>The interrupt registers\<close>

lemma dbf_address_at: "dbf_address (H264DBF_BASE_ADDRESS + H264DBF_INT_STATUS)" "dbf_address (H264DBF_BASE_ADDRESS + H264DBF_INT_ACK)"
    "dbf_address (H264DBF_BASE_ADDRESS + H264DBF_INT_ENABLE)"
  by (simp_all add: dbf_address_def h264dbf_regs H264DBF_SIZE_def)

lemma ucast_le32: "ucast (le32 bs) = bs ! 0"
  by (rule bit_word_eqI) (auto simp: le32_def bit_simps)

lemma byte_back: "ucast (ucast (b::u8) :: u32) = b"
  by (rule bit_word_eqI) (auto simp: bit_simps)

lemma slice_of_reg_above: "reg + 48 < a \<Longrightarrow> slice_of_reg a reg = None"
  by (auto simp: slice_of_reg_def find_None_iff SLICE_OFFSET_def N_SLICE_THREADS_def)

lemma set_data_plain:
  assumes "dl_sized l" "0x39000 < a" "a < 0x40000" "a \<notin> {0x39004, 0x39008, 0x3900C}"
  shows "set_data l a v = Inr (l\<lparr>dl_data := (dl_data l)[nat a := v]\<rparr>, [])"
  using assms uint_address [of a]
  by (simp add: set_data_def Let_def dbf_regs raw_set_ok slice_of_reg_above FPGA_CHAR_SIZE_def)

lemma dbf_status_read:
  assumes "dl_sized (db_link d)" "length (rs_rdata (db_response d)) = 8"
  shows "\<exists>d'. readb (dbf_io junk other) (H264DBF_BASE_ADDRESS + H264DBF_INT_STATUS) (d, q) = Inr ((d', q), dl_status (db_link d))
    \<and> dbf_after d (db_link d) [] d'"
proof -
  have "aligned_access H264DBF_INT_STATUS 1" by (simp add: aligned_access_def H264DBF_INT_STATUS_def)
  from dbf_load_bytes [OF this assms(1) _ assms(2), of junk] show ?thesis
    using dbf_address_at(1)
    by (auto simp: dbf_io_def H264DBF_INT_STATUS_def ucast_le32 dl_status_def REG_INT_STATUS_def)
qed

lemma dbf_enable_read:
  assumes "dl_sized (db_link d)" "length (rs_rdata (db_response d)) = 8"
  shows "\<exists>d' v. readl (dbf_io junk other) (H264DBF_BASE_ADDRESS + H264DBF_INT_ENABLE) (d, q) = Inr ((d', q), v)
    \<and> ucast v = dl_enable (db_link d) \<and> dbf_after d (db_link d) [] d'"
proof -
  have "aligned_access H264DBF_INT_ENABLE 4" by (simp add: aligned_access_def H264DBF_INT_ENABLE_def)
  from dbf_load_bytes [OF this assms(1) _ assms(2), of junk] show ?thesis
    using dbf_address_at(3)
    by (auto simp: dbf_io_def H264DBF_INT_ENABLE_def ucast_le32 dl_enable_def REG_INT_ENABLE_def upt_rec)
qed

lemma dbf_ack_write:
  assumes "dl_sized (db_link d)" "ack_int ((db_link d)\<lparr>dl_data := (dl_data (db_link d))[0x39004 := v]\<rparr>) v = Inr (l, es)"
  shows "\<exists>d'. writeb (dbf_io junk other) v (H264DBF_BASE_ADDRESS + H264DBF_INT_ACK) (d, q) = Inr (d', q) \<and> dbf_after d l es d'"
proof -
  have al: "aligned_access H264DBF_INT_ACK 1" by (simp add: aligned_access_def H264DBF_INT_ACK_def)
  have "set_data (db_link d) (uint H264DBF_INT_ACK) v = Inr (l, es)"
    using assms by (simp add: set_data_def Let_def H264DBF_INT_ACK_def dbf_regs raw_set_ok FPGA_CHAR_SIZE_def)
  then have "dbf_stores H264DBF_INT_ACK (ucast v) (unat (1::ulong)) (db_link d) = Inr (l, es)"
    using byte_back [of v] by (simp add: dbf_stores_def for_each_single and_then_def bytes32_def del: for_each.simps)
  from dbf_store_bytes [OF al this, of junk] show ?thesis
    using dbf_address_at(2) by (auto simp: dbf_io_def)
qed

subsection \<open>The service routine\<close>

lemma and_complement:
  fixes s e c :: u8
  shows "s AND (NOT (s AND NOT c) OR c) = s AND c" and "e AND c = 0 \<Longrightarrow> (s AND NOT c) AND (s AND e) = s AND e"
proof -
  show "s AND (NOT (s AND NOT c) OR c) = s AND c" by (rule bit_word_eqI) (auto simp: bit_simps)
  assume z: "e AND c = 0"
  have "\<not> (bit e n \<and> bit c n)" for n using z by (metis bit_0_eq bit_and_iff bot_apply bot_bool_def)
  then show "(s AND NOT c) AND (s AND e) = s AND e" by (intro bit_word_eqI) (auto simp: bit_simps)
qed

lemma mask_bits:
  fixes s e :: u8
  assumes "e AND 0x80 = 0"
  shows "(s AND 0x7F) AND (s AND e) = s AND e" "s AND (NOT (s AND 0x7F) OR 0x80) \<in> {0, 0x80}"
proof -
  have m: "(0x7F::u8) = NOT 0x80" by simp
  show "(s AND 0x7F) AND (s AND e) = s AND e" unfolding m by (rule and_complement(2) [OF assms])
  have "s AND 0x80 = (if bit s 7 then 0x80 else 0)"
  proof (rule bit_word_eqI)
    fix n assume n: "n < LENGTH(8)"
    then have "n \<in> {0, 1, 2, 3, 4, 5, 6, 7}" by auto
    then have "bit (0x80::u8) n \<longleftrightarrow> n = 7" by (auto simp: bit_iff_odd)
    then show "bit (s AND 0x80) n \<longleftrightarrow> bit (if bit s 7 then 0x80 else 0 :: u8) n" by (simp add: bit_and_iff) metis
  qed
  then show "s AND (NOT (s AND 0x7F) OR 0x80) \<in> {0, 0x80}" unfolding m and_complement(1) by simp
qed

text \<open>The acknowledge of all that is reported clears the status and lowers the interrupt.\<close>

lemma ack_all:
  fixes v :: u8
  assumes "link_inv l" "dl_irq_stat l \<noteq> 0"
  defines "l' \<equiv> l\<lparr>dl_data := (dl_data l)[0x39004 := v]\<rparr>"
  shows "ack_int l' (dl_status l AND 0x7F) = Inr (l'\<lparr>dl_data := (dl_data l')[0x39008 := 0], dl_irq_stat := 0\<rparr>, [DbfIrqUpdate])"
proof -
  have sz: "dl_sized l'" and e: "dl_enable l AND 0x80 = 0" and p: "dl_status l AND dl_enable l \<noteq> 0"
    using assms(1,2) by (auto simp: link_inv_def link_pre_def l'_def)
  have "dl_status l' = dl_status l" "dl_enable l' = dl_enable l"
    using link_status_enable [of "0x39004" l v] by (simp_all add: l'_def dbf_regs)
  then have g: "raw_get l' REG_INT_STATUS = Inr (dl_status l)" "raw_get l' REG_INT_ENABLE = Inr (dl_enable l)"
    by (simp_all add: raw_get_ok sz dl_status_def dl_enable_def dbf_regs)
  have set: "raw_set l' REG_INT_STATUS 0 = Inr (l'\<lparr>dl_data := (dl_data l')[0x39008 := 0]\<rparr>)"
    by (simp add: raw_set_ok sz dbf_regs)
  have z: "(if dl_status l AND (NOT (dl_status l AND 0x7F) OR 0x80) = 0x80 then 0
      else dl_status l AND (NOT (dl_status l AND 0x7F) OR 0x80)) = 0"
    using mask_bits(2) [OF e, of "dl_status l"] by (simp only: insert_iff empty_iff) auto
  show ?thesis
    unfolding ack_int_def g bindr_simps Let_def and.assoc mask_bits(1) [OF e, unfolded and.assoc] z set using p by simp
qed

text \<open>Whether the line has to be updated: the events of an access end with that of the response.\<close>

lemma dbf_after_link: "dbf_after d l es d' \<Longrightarrow> db_link d' = l"
  and dbf_after_rdata: "dbf_after d l es d' \<Longrightarrow> length (rs_rdata (db_response d')) = length (rs_rdata (db_response d))"
  and dbf_after_events: "dbf_after d l es d' \<Longrightarrow> db_events d' = db_events d @ es @ [DbfResponse]"
proof -
  assume a: "dbf_after d l es d'"
  then have eq: "d' = d\<lparr>db_request := db_request d', db_link := l, db_response := db_response d',
    db_events := db_events d @ es @ [DbfResponse]\<rparr>" unfolding dbf_after_def by (rule conjunct1)
  show "db_link d' = l" by (subst eq) simp
  show "db_events d' = db_events d @ es @ [DbfResponse]" by (subst eq) simp
  show "length (rs_rdata (db_response d')) = length (rs_rdata (db_response d))" using a unfolding dbf_after_def by (rule conjunct2)
qed

lemma ucast_le_0x80: "(ucast (x :: u8) :: u32) \<le> 0x80 \<longleftrightarrow> x \<le> 0x80"
proof -
  have "uint (ucast x :: u32) = uint x" by transfer (simp add: take_bit_take_bit min_def)
  then show ?thesis by (simp add: word_le_def)
qed

lemma service_quiet:
  assumes "dl_sized (db_link d)" "length (rs_rdata (db_response d)) = 8" "hd_base_addr dev = H264DBF_BASE_ADDRESS" "dl_status (db_link d) \<le> 0x80"
  shows "\<exists>d'. h264dbf_int_service (dbf_io junk other) dev (d, q) = Inr (dev, (d', q), []) \<and> db_link d' = db_link d"
proof -
  obtain d' where "readb (dbf_io junk other) (H264DBF_BASE_ADDRESS + H264DBF_INT_STATUS) (d, q) = Inr ((d', q), dl_status (db_link d))"
    and a: "dbf_after d (db_link d) [] d'" using dbf_status_read [OF assms(1,2), of junk other q] by blast
  moreover have "(ucast (dl_status (db_link d)) :: u32) \<le> 0x80"
    using assms(4) by (simp add: ucast_le_0x80)
  ultimately show ?thesis using assms(3) dbf_after_link [OF a] by (simp add: h264dbf_int_service_def)
qed

lemma service_acknowledges:
  assumes "link_inv (db_link d)" "dl_irq_stat (db_link d) \<noteq> 0" "0x80 < dl_status (db_link d)" "length (rs_rdata (db_response d)) = 8"
    and "hd_base_addr dev = H264DBF_BASE_ADDRESS" "int_service_irqs (ucast (dl_status (db_link d)) AND 0x7F) (hd_irq dev) = Inr (st, ws)"
  shows "\<exists>d' v es. h264dbf_int_service (dbf_io junk other) dev (d, q) = Inr (dev\<lparr>hd_irq := st\<rparr>, (d', q), ws)
    \<and> db_link d' = (db_link d)\<lparr>dl_data := (dl_data (db_link d))[0x39004 := v, 0x39008 := 0], dl_irq_stat := 0\<rparr>
    \<and> db_events d' = db_events d @ es \<and> DbfIrqUpdate \<in> set es"
proof -
  let ?l = "db_link d" and ?s = "dl_status (db_link d)"
  have sz: "dl_sized ?l" using assms(1) by (simp add: link_inv_def link_pre_def)
  obtain d1 where r: "readb (dbf_io junk other) (H264DBF_BASE_ADDRESS + H264DBF_INT_STATUS) (d, q) = Inr ((d1, q), ?s)"
    and a: "dbf_after d ?l [] d1" using dbf_status_read [OF sz assms(4), of junk other q] by blast
  have big: "\<not> (ucast ?s :: u32) \<le> 0x80" using assms(3) by (simp add: ucast_le_0x80)
  have u: "ucast ((ucast ?s :: u32) AND 0x7F) = ?s AND 0x7F" by (rule bit_word_eqI) (auto simp: bit_simps)
  have "ack_int (?l\<lparr>dl_data := (dl_data ?l)[0x39004 := ?s AND 0x7F]\<rparr>) (?s AND 0x7F)
      = Inr (?l\<lparr>dl_data := (dl_data ?l)[0x39004 := ?s AND 0x7F, 0x39008 := 0], dl_irq_stat := 0\<rparr>, [DbfIrqUpdate])"
    using ack_all [OF assms(1,2), of "?s AND 0x7F"] by simp
  then obtain d2 where w: "writeb (dbf_io junk other) (?s AND 0x7F) (H264DBF_BASE_ADDRESS + H264DBF_INT_ACK) (d1, q) = Inr (d2, q)"
    and b: "dbf_after d1 (?l\<lparr>dl_data := (dl_data ?l)[0x39004 := ?s AND 0x7F, 0x39008 := 0], dl_irq_stat := 0\<rparr>) [DbfIrqUpdate] d2"
    using dbf_ack_write [of d1 "?s AND 0x7F" _ _ junk other q] sz dbf_after_link [OF a] by auto
  have "h264dbf_int_service (dbf_io junk other) dev (d, q) = Inr (dev\<lparr>hd_irq := st\<rparr>, (d2, q), ws)"
    using r big w assms(5,6) u by (simp add: h264dbf_int_service_def Let_def)
  moreover have "db_events d2 = db_events d @ [DbfResponse, DbfIrqUpdate, DbfResponse]"
    using dbf_after_events [OF a] dbf_after_events [OF b] by simp
  ultimately show ?thesis using dbf_after_link [OF b] by (intro exI [of _ d2] exI conjI) auto
qed

text \<open>
  Claim C32. When slices or the copy have reported their ends with the interrupt enabled, the line is up, and the service routine of the
  driver takes everything that was reported: it clears the status, so that the line falls, and nothing else of the filter's memory changes.
  Each registered descriptor some of whose bits are reported is queued with these bits added to the pending ones; when one of them is
  pending already, it is marked as overflown instead, and the pending bits stay as they are, so that a new bit that comes together with an old one
  is not recorded. The other descriptors are unchanged, and exactly the tasks of the reported ones are woken. This is for descriptors with
  disjoint bits, and if the registered ones are the first of the table (\<open>registered_first\<close>): the routine looks at as many as were registered.
\<close>

theorem dbf_service_serves:
  assumes "link_inv (db_link d)" "dl_irq_stat (db_link d) \<noteq> 0" "0x80 < dl_status (db_link d)" "length (rs_rdata (db_response d)) = 8"
    and "hd_base_addr dev = H264DBF_BASE_ADDRESS" "types_disjoint (is_irqs (hd_irq dev))" "nat (is_nb_irq_en (hd_irq dev)) \<le> length (is_irqs (hd_irq dev))"
    and "registered_first (hd_irq dev)" "ds = is_irqs (hd_irq dev)" "status = ucast (dl_status (db_link d)) AND 0x7F"
  shows "db_irq (fst (dbf_irq_update_thread d)) \<and> (\<exists>d' ds'. h264dbf_int_service (dbf_io junk other) dev (d, q)
        = Inr (dev\<lparr>hd_irq := (hd_irq dev)\<lparr>is_irqs := ds'\<rparr>\<rparr>, (d', q), map WakeUp (filter (\<lambda>i. status AND iq_type (ds ! i) \<noteq> 0) [0..<length ds]))
      \<and> length ds' = length ds
      \<and> (\<forall>i < length ds. ds' ! i = (let bits = status AND iq_type (ds ! i) in
          if bits = 0 then ds ! i
          else if bits AND iq_pending (ds ! i) = 0
            then \<lparr>iq_type = iq_type (ds ! i), iq_status = STATUS_IRQ_QUEUED, iq_pending = iq_pending (ds ! i) OR bits\<rparr>
          else \<lparr>iq_type = iq_type (ds ! i), iq_status = STATUS_IRQ_OVERFLOW, iq_pending = iq_pending (ds ! i)\<rparr>))
      \<and> link_inv (db_link d') \<and> dl_status (db_link d') = 0 \<and> DbfIrqUpdate \<in> set (db_events d') \<and> \<not> db_irq (fst (dbf_irq_update_thread d'))
      \<and> (\<forall>k. k \<notin> {0x39004, 0x39008} \<longrightarrow> dl_data (db_link d') ! k = dl_data (db_link d) ! k))"
proof -
  have up: "db_irq (fst (dbf_irq_update_thread d))" using assms(2) by (simp add: dbf_irq_update_thread_def Let_def)
  from int_service_irqs_effect [OF assms(6-8), of status] obtain ds' where
    s: "int_service_irqs status (hd_irq dev) = Inr ((hd_irq dev)\<lparr>is_irqs := ds'\<rparr>, map WakeUp (filter (\<lambda>i. status AND iq_type (ds ! i) \<noteq> 0) [0..<length ds]))"
    and ds': "length ds' = length ds" "\<forall>i < length ds. ds' ! i = (let bits = status AND iq_type (ds ! i) in
          if bits = 0 then ds ! i
          else if bits AND iq_pending (ds ! i) = 0
            then \<lparr>iq_type = iq_type (ds ! i), iq_status = STATUS_IRQ_QUEUED, iq_pending = iq_pending (ds ! i) OR bits\<rparr>
          else \<lparr>iq_type = iq_type (ds ! i), iq_status = STATUS_IRQ_OVERFLOW, iq_pending = iq_pending (ds ! i)\<rparr>)"
    unfolding assms(9) Let_def by blast
  from service_acknowledges [OF assms(1-5) s [unfolded assms(10)], of junk other q] obtain d' v es where
    r: "h264dbf_int_service (dbf_io junk other) dev (d, q) = Inr (dev\<lparr>hd_irq := (hd_irq dev)\<lparr>is_irqs := ds'\<rparr>\<rparr>, (d', q),
        map WakeUp (filter (\<lambda>i. status AND iq_type (ds ! i) \<noteq> 0) [0..<length ds]))"
    and l: "db_link d' = (db_link d)\<lparr>dl_data := (dl_data (db_link d))[0x39004 := v, 0x39008 := 0], dl_irq_stat := 0\<rparr>"
    and e: "db_events d' = db_events d @ es" "DbfIrqUpdate \<in> set es" unfolding assms(10) by blast
  have "0x39008 < length (dl_data (db_link d))"
    using assms(1) by (simp add: link_inv_def link_pre_def dl_sized_def FPGA_CHAR_SIZE_def)
  then have st: "dl_status (db_link d') = 0" "dl_enable (db_link d') = dl_enable (db_link d)"
    by (simp_all add: l dl_status_def dl_enable_def dbf_regs)
  then have "link_inv (db_link d')" using assms(1) by (simp add: link_inv_def link_pre_def) (simp add: l dl_sized_def)
  moreover have "\<not> db_irq (fst (dbf_irq_update_thread d'))" "DbfIrqUpdate \<in> set (db_events d')"
    "\<forall>k. k \<notin> {0x39004, 0x39008} \<longrightarrow> dl_data (db_link d') ! k = dl_data (db_link d) ! k"
    using e by (simp_all add: l dbf_irq_update_thread_def Let_def)
  ultimately show ?thesis using r st(1) up ds' by blast
qed

definition slice_reported :: dbf_device where
  "slice_reported = (dbf_device_new 2 zero_request zero_response zero_request)\<lparr>
     db_link := \<lparr>dl_data = (replicate FPGA_CHAR_SIZE 0)[0x39008 := 0x83, 0x3900C := 3], dl_irq_stat = 1\<rparr>\<rparr>"

text \<open>Two tasks wait, for slice 0 and for slice 1, whose bit the second has not collected yet; both slices end.\<close>

definition slice_waiter :: h264dbf_device where
  "slice_waiter = \<lparr>hd_minor = 0, hd_base_addr = H264DBF_BASE_ADDRESS, hd_irq = \<lparr>is_irq_en = True, is_nb_irq_en = 2,
     is_irqs = [irq_desc_zero\<lparr>iq_type := 1\<rparr>, irq_desc_zero\<lparr>iq_type := 2, iq_pending := 2\<rparr>, irq_desc_zero]\<rparr>\<rparr>"

definition unmapped_io :: "unit kernel_io" where
  "unmapped_io = \<lparr>readl = (\<lambda>a s. Inl OutOfBounds), writel = (\<lambda>v a s. Inl OutOfBounds), readb = (\<lambda>a s. Inl OutOfBounds),
     writeb = (\<lambda>v a s. Inl OutOfBounds), mem_get = (\<lambda>a n s. Inl OutOfBounds), mem_put = (\<lambda>a bs s. Inl OutOfBounds)\<rparr>"

lemma slice_reported_facts:
  "link_inv (db_link slice_reported)" "dl_irq_stat (db_link slice_reported) \<noteq> 0" "dl_status (db_link slice_reported) = 0x83"
  "length (rs_rdata (db_response slice_reported)) = 8"
  by (simp_all add: slice_reported_def link_inv_def link_pre_def dl_sized_def dl_status_def dl_enable_def dbf_regs FPGA_CHAR_SIZE_def
      dbf_device_new_def zero_response_def)

lemma slice_waiter_facts:
  "hd_base_addr slice_waiter = H264DBF_BASE_ADDRESS" "types_disjoint (is_irqs (hd_irq slice_waiter))"
  "nat (is_nb_irq_en (hd_irq slice_waiter)) \<le> length (is_irqs (hd_irq slice_waiter))" "registered_first (hd_irq slice_waiter)"
  by (auto simp: slice_waiter_def types_disjoint_def registered_first_def irq_desc_zero_def less_Suc_eq)

lemma dbf_service_serves_witness:
  "\<exists>d' dev'. h264dbf_int_service (dbf_io zero_request unmapped_io) slice_waiter (slice_reported, ())
      = Inr (dev', (d', ()), [WakeUp 0, WakeUp 1]) \<and> dl_status (db_link d') = 0 \<and> \<not> db_irq (fst (dbf_irq_update_thread d'))
    \<and> is_irqs (hd_irq dev') ! 0 = \<lparr>iq_type = 1, iq_status = STATUS_IRQ_QUEUED, iq_pending = 1\<rparr>
    \<and> is_irqs (hd_irq dev') ! 1 = \<lparr>iq_type = 2, iq_status = STATUS_IRQ_OVERFLOW, iq_pending = 2\<rparr>"
proof -
  have s: "0x80 < dl_status (db_link slice_reported)" unfolding slice_reported_facts by simp
  have w: "map WakeUp (filter (\<lambda>i. (ucast (dl_status (db_link slice_reported)) AND 0x7F) AND iq_type (is_irqs (hd_irq slice_waiter) ! i) \<noteq> 0)
      [0..<length (is_irqs (hd_irq slice_waiter))]) = [WakeUp 0, WakeUp 1]"
    unfolding slice_reported_facts by (simp add: slice_waiter_def irq_desc_zero_def)
  from dbf_service_serves [OF slice_reported_facts(1,2) s slice_reported_facts(4) slice_waiter_facts refl refl, of zero_request unmapped_io "()"]
  obtain d' ds' where
    r: "h264dbf_int_service (dbf_io zero_request unmapped_io) slice_waiter (slice_reported, ())
        = Inr (slice_waiter\<lparr>hd_irq := (hd_irq slice_waiter)\<lparr>is_irqs := ds'\<rparr>\<rparr>, (d', ()), [WakeUp 0, WakeUp 1])"
      "dl_status (db_link d') = 0" "\<not> db_irq (fst (dbf_irq_update_thread d'))"
    and ds': "\<forall>i < length (is_irqs (hd_irq slice_waiter)). ds' ! i = (let bits = (ucast (dl_status (db_link slice_reported)) AND 0x7F) AND iq_type (is_irqs (hd_irq slice_waiter) ! i) in
          if bits = 0 then is_irqs (hd_irq slice_waiter) ! i
          else if bits AND iq_pending (is_irqs (hd_irq slice_waiter) ! i) = 0
            then \<lparr>iq_type = iq_type (is_irqs (hd_irq slice_waiter) ! i), iq_status = STATUS_IRQ_QUEUED, iq_pending = iq_pending (is_irqs (hd_irq slice_waiter) ! i) OR bits\<rparr>
          else \<lparr>iq_type = iq_type (is_irqs (hd_irq slice_waiter) ! i), iq_status = STATUS_IRQ_OVERFLOW, iq_pending = iq_pending (is_irqs (hd_irq slice_waiter) ! i)\<rparr>)"
    unfolding w by blast
  have "ds' ! 0 = \<lparr>iq_type = 1, iq_status = STATUS_IRQ_QUEUED, iq_pending = 1\<rparr>" "ds' ! 1 = \<lparr>iq_type = 2, iq_status = STATUS_IRQ_OVERFLOW, iq_pending = 2\<rparr>"
    using ds' unfolding slice_reported_facts by (simp_all add: slice_waiter_def irq_desc_zero_def)
  with r show ?thesis by (intro exI conjI) (assumption | simp)+
qed

subsection \<open>A stale status\<close>

lemma dbf_enable_write:
  assumes "dl_sized (db_link d)" "dl_enable (db_link d) = 0" "dl_status (db_link d) AND (ucast v AND 0x7F) \<noteq> 0"
  shows "\<exists>d'. writel (dbf_io junk other) v (H264DBF_BASE_ADDRESS + H264DBF_INT_ENABLE) (d, q) = Inr (d', q)
    \<and> dl_irq_stat (db_link d') = 1 \<and> dl_status (db_link d') = dl_status (db_link d) \<and> dl_sized (db_link d')
    \<and> length (rs_rdata (db_response d')) = length (rs_rdata (db_response d))"
proof -
  let ?l = "db_link d" and ?b = "bytes32 v"
  let ?l1 = "?l\<lparr>dl_irq_stat := 1, dl_data := (dl_data ?l)[0x3900C := ucast v AND 0x7F]\<rparr>"
  let ?l2 = "?l1\<lparr>dl_data := (dl_data ?l1)[0x3900D := ?b ! 1]\<rparr>"
  let ?l3 = "?l2\<lparr>dl_data := (dl_data ?l2)[0x3900E := ?b ! 2]\<rparr>"
  let ?l4 = "?l3\<lparr>dl_data := (dl_data ?l3)[0x3900F := ?b ! 3]\<rparr>"
  have al: "aligned_access H264DBF_INT_ENABLE 4" by (simp add: aligned_access_def H264DBF_INT_ENABLE_def)
  have "[0..<4] = [0, 1, 2, 3::nat]" by (simp add: upt_rec numeral_eq_Suc)
  then have four: "[0..<unat (4::ulong)] = [0, 1, 2, 3]" by simp
  have b0: "?b ! 0 = ucast v" by (simp add: bytes32_def)
  have "set_int_enable_reg ?l (ucast v) = Inr (?l1, [DbfIrqUpdate])"
    using assms by (simp add: set_int_enable_reg_def raw_get_ok raw_set_ok dbf_regs dl_status_def dl_enable_def Let_def)
  then have "set_data ?l 0x3900C (?b ! 0) = Inr (?l1, [DbfIrqUpdate])"
    using b0 by (simp add: set_data_def Let_def dbf_regs FPGA_CHAR_SIZE_def)
  moreover have "set_data ?l1 0x3900D (?b ! 1) = Inr (?l2, [])" "set_data ?l2 0x3900E (?b ! 2) = Inr (?l3, [])"
      "set_data ?l3 0x3900F (?b ! 3) = Inr (?l4, [])"
    using assms(1) by (subst set_data_plain; simp add: dl_sized_def)+
  ultimately have "dbf_stores H264DBF_INT_ENABLE v (unat (4::ulong)) ?l = Inr (?l4, [DbfIrqUpdate])"
    unfolding dbf_stores_def four by (simp add: H264DBF_INT_ENABLE_def and_then_def)
  from dbf_store_bytes [OF al this, of junk] obtain d' where
    "dbf_store junk H264DBF_INT_ENABLE 4 v d = Inr d'" and a: "dbf_after d ?l4 [DbfIrqUpdate] d'" by blast
  then show ?thesis
    using dbf_address_at(3) dbf_after_link [OF a] dbf_after_rdata [OF a] assms(1)
    by (intro exI [of _ d']) (simp add: dbf_io_def dl_status_def dl_sized_def dbf_regs)
qed

lemma stale_ack:
  assumes "dl_sized (db_link d)" "dl_enable (db_link d) = 0"
  shows "\<exists>d'. writeb (dbf_io junk other) v (H264DBF_BASE_ADDRESS + H264DBF_INT_ACK) (d, q) = Inr (d', q)
    \<and> dl_sized (db_link d') \<and> dl_enable (db_link d') = 0 \<and> dl_status (db_link d') = dl_status (db_link d)
    \<and> length (rs_rdata (db_response d')) = length (rs_rdata (db_response d))"
proof -
  let ?l = "(db_link d)\<lparr>dl_data := (dl_data (db_link d))[0x39004 := v]\<rparr>"
  have se: "dl_status ?l = dl_status (db_link d)" "dl_enable ?l = 0" "dl_sized ?l"
    using assms link_status_enable [of "0x39004" "db_link d" v] by (simp_all add: dbf_regs)
  then have "raw_get ?l REG_INT_ENABLE = Inr 0" using raw_get_ok [OF se(3), of REG_INT_ENABLE] by (simp add: dbf_regs dl_enable_def)
  moreover have "raw_get ?l REG_INT_STATUS = Inr (dl_status ?l)" using raw_get_ok [OF se(3), of REG_INT_STATUS] by (simp add: dbf_regs dl_status_def)
  ultimately have "ack_int ?l v = Inr (?l, [])" unfolding ack_int_def by simp
  from dbf_ack_write [OF assms(1) this, of junk other q] obtain d' where
    w: "writeb (dbf_io junk other) v (H264DBF_BASE_ADDRESS + H264DBF_INT_ACK) (d, q) = Inr (d', q)" and a: "dbf_after d ?l [] d'" by blast
  show ?thesis using w se dbf_after_rdata [OF a] unfolding dbf_after_link [OF a, symmetric] by blast
qed

text \<open>
  A slice that ends while its interrupt is disabled sets its bit of the status, but not the bit 0x80. When a program then registers
  for it, the driver's attempt to clear what is pending has no effect, since the filter acknowledges enabled bits only; enabling
  raises the line; and the service routine, which only looks at a status above 0x80, returns without acknowledging:
  the line stays up, and the processor serves this interrupt for ever.
\<close>

theorem stale_status_storm:
  assumes "dl_sized (db_link d)" "dl_enable (db_link d) = 0" "dl_status (db_link d) \<le> 0x80"
    and "dl_status (db_link d) AND (ucast (ir_type irq) AND 0x7F) \<noteq> 0" "length (rs_rdata (db_response d)) = 8"
    and "hd_base_addr dev = H264DBF_BASE_ADDRESS" "\<not> is_irq_en (hd_irq dev)" "length (is_irqs (hd_irq dev)) = H264DBF_MAXIRQ"
    and "unat (ir_id irq) < H264DBF_MAXIRQ" "ke_request_irq env = 0" "qemu_enable_irq other qemu QEMU_INT_DBF_MASK q = Inr q'"
    and "\<not> dbf_address (qemu + GET_SYSTEMC_INT_ENABLE)" "\<not> dbf_address (qemu + SET_SYSTEMC_INT_ENABLE)"
  shows "\<exists>dev' d'. h264dbf_int_register (dbf_io junk other) env qemu irq dev (d, q) = Inr (0, dev', (d', q'), [RequestIrq H264DBF_IRQ_NO])
    \<and> db_irq (fst (dbf_irq_update_thread d'))
    \<and> (\<exists>d''. h264dbf_int_service (dbf_io junk other) dev' (d', q') = Inr (dev', (d'', q'), []) \<and> db_irq (fst (dbf_irq_update_thread d'')))"
proof -
  let ?io = "dbf_io junk other"
  obtain d1 where w1: "writeb ?io 0x7F (H264DBF_BASE_ADDRESS + H264DBF_INT_ACK) (d, q) = Inr (d1, q)"
    and d1: "dl_sized (db_link d1)" "dl_enable (db_link d1) = 0" "dl_status (db_link d1) = dl_status (db_link d)" "length (rs_rdata (db_response d1)) = 8"
    using stale_ack [OF assms(1,2), of junk other "0x7F" q] assms(5) by auto
  have en: "qemu_enable_irq ?io qemu QEMU_INT_DBF_MASK (d1, q) = Inr (d1, q')"
    using assms(11-13) by (auto simp: qemu_enable_irq_def dbf_io_def bindr_eq_Inr split: prod.splits)
  let ?st = "(hd_irq dev)\<lparr>is_irqs := irqs_init (is_irqs (hd_irq dev)), is_irq_en := True, is_nb_irq_en := is_nb_irq_en (hd_irq dev) + 1\<rparr>"
  have ie: "h264dbf_int_enable ?io env qemu dev (d, q) = Inr (0, dev\<lparr>hd_irq := ?st\<rparr>, (d1, q'), [RequestIrq H264DBF_IRQ_NO])"
    using assms(6,7,10) w1 en by (simp add: h264dbf_int_enable_def Let_def)
  obtain st' where ty: "irq_set_type (ir_id irq) (ir_type irq) ?st = Inr st'"
    using assms(8,9) by (simp add: irq_set_type_def irqs_init_def)
  obtain d2 v where r: "readl ?io (H264DBF_BASE_ADDRESS + H264DBF_INT_ENABLE) (d1, q') = Inr ((d2, q'), v)" and v: "ucast v = dl_enable (db_link d1)"
    and a2: "dbf_after d1 (db_link d1) [] d2" using dbf_enable_read [OF d1(1,4), of junk other q'] by blast
  have "ucast (v OR ir_type irq) = (ucast (ir_type irq) :: u8)"
    using v d1(2) by (simp add: unsigned_or_eq)
  then obtain d3 where w3: "writel ?io (v OR ir_type irq) (H264DBF_BASE_ADDRESS + H264DBF_INT_ENABLE) (d2, q') = Inr (d3, q')"
    and d3: "dl_irq_stat (db_link d3) = 1" "dl_status (db_link d3) = dl_status (db_link d)" "dl_sized (db_link d3)" "length (rs_rdata (db_response d3)) = 8"
    using dbf_enable_write [of d2 "v OR ir_type irq" junk other q'] dbf_after_link [OF a2] dbf_after_rdata [OF a2] d1 assms(4) by auto
  let ?dev = "dev\<lparr>hd_irq := st'\<rparr>"
  have reg: "h264dbf_int_register ?io env qemu irq dev (d, q) = Inr (0, ?dev, (d3, q'), [RequestIrq H264DBF_IRQ_NO])"
    using ie ty r w3 assms(6,9) by (simp add: h264dbf_int_register_def)
  obtain d4 where "h264dbf_int_service ?io ?dev (d3, q') = Inr (?dev, (d4, q'), [])" "db_link d4 = db_link d3"
    using service_quiet [OF d3(3,4), of ?dev junk other q'] d3(2) assms(3,6) by auto
  with reg d3(1) show ?thesis by (auto simp: dbf_irq_update_thread_def Let_def)
qed

end
