(* ===== verification/Spec2Isabelle.thy ===== *)
theory Spec2Isabelle
  imports Noc_Order Chronograph System_Bus Sem_Device Aicu_Device Timer_Device Sl_Mailbox_Device Tty_Serial_Device
    Qemu_Wrapper_Slave Exclusive_Monitor Platform_Init Platform Framebuffer Sl_Framebuffer Dbf_System
    Tg_Device Tty_Devices Ramdac_Viewer Fb_Viewer
    Cpu_Time Host_Access_System Ecmgr_Driver Qemu_Driver Fb_Driver_System Dbf_Driver_System
begin

text \<open>
  \<^bold>\<open>The program.\<close> Rabbits is a SystemC simulator of a multiprocessor system on chip.
  Processors are emulated by QEMU; a wrapper (\<^verbatim>\<open>components/qemu_wrapper\<close>) turns their loads and stores
  into transactions and brings interrupts to them. An abstract network on chip
  (\<^verbatim>\<open>components/abstract_noc\<close>) carries requests from masters to slaves by address and responses back.
  Slaves and masters are classes over \<^verbatim>\<open>slave_device\<close> and \<^verbatim>\<open>master_device\<close>: memories,
  semaphores, interrupt controller, timers, mailboxes, serial lines, disk, framebuffers, ramdac, traffic
  generator, deblocking filter. An energy trace (\<^verbatim>\<open>components/etrace\<close>) integrates the power of all
  of them and sends it to a viewer (\<^verbatim>\<open>tools/chronograph_src\<close>). Three platforms
  (\<^verbatim>\<open>platforms/thumper\<close>, \<^verbatim>\<open>energizer\<close>, \<^verbatim>\<open>roger\<close>) put them together.

  \<^bold>\<open>The model.\<close> A SystemC thread is a function from the end of one wait to the next, or a step
  function over the state with the position of the thread in it; code between two waits is atomic, as in
  SystemC. A class is a record, an operation a function that returns the new state and the events
  it notifies as a list, and every failure is a value: \<open>'a res\<close> is \<open>fault + 'a\<close>, with a fault for
  \<^verbatim>\<open>exit\<close>, for an access outside an array, a null pointer, a division by zero, a loop that makes no progress and
  a wait that nothing ends. Integers are words of their width (the install script accepts an \<^verbatim>\<open>i*86\<close> host only:
  \<^verbatim>\<open>unsigned long\<close> has 32 bits, little endian); an \<^verbatim>\<open>int\<close> whose overflow C++ leaves
  undefined is an exact integer; a \<^verbatim>\<open>double\<close> is an exact rational. Members that a constructor does not set are those of
  an argument \<open>junk\<close>. QEMU, the X server, pipes, processes and shared memory are not in the repository:
  calls of them are outputs, what they return is an argument, \<open>shm_ok\<close> says for which sizes \<^verbatim>\<open>shmget\<close>
  finds a segment, and the host file of the disk and the traffic generator is the list of its bytes.
  Allocation succeeds and debug printing is left out.

  \<^bold>\<open>Theories, in the order of the dependencies.\<close>
  \<^item> \<open>Rabbits_Prelude\<close>: types, faults, checked arrays, little-endian words in bytes, loops.
  \<^item> \<open>Bounded_Queue\<close> (a contract), \<open>Mwsr_Fifo\<close> (\<^verbatim>\<open>mwsr_ta_fifo\<close>), \<open>Abstract_Noc\<close> (messages), \<open>Interconnect\<close>
    (address decode), \<open>Interconnect_Network\<close> (the ports and dispatch threads as a step relation), \<open>Noc_Order\<close> (an abstract
    network of unbounded queues, refined by the ports; order and single delivery proved on it).
  \<^item> \<open>Byte_Lanes\<close>, \<open>Slave_Device\<close> (\<open>slave_module\<close>, the contract of \<^verbatim>\<open>rcv_rqst\<close>), \<open>Master_Device\<close>, \<open>Memory_Bus\<close> (the
    contract of a bus in front of a memory, and what masters make of it).
  \<^item> Devices: \<open>Mem_Device\<close> (\<^verbatim>\<open>mem\<close>, \<^verbatim>\<open>sram\<close>), \<open>Sem_Device\<close>, \<open>Aicu_Device\<close>, \<open>Timer_Device\<close> (\<^verbatim>\<open>timer\<close>, \<^verbatim>\<open>sl_timer\<close>),
    \<open>Sl_Mailbox_Device\<close>, \<open>Tty_Serial_Device\<close>, \<open>Tty_Devices\<close> (\<^verbatim>\<open>sl_tty\<close>, \<^verbatim>\<open>tty\<close>), \<open>Tg_Device\<close>, \<open>Ramdac_Device\<close>,
    \<open>Block_Device\<close> and \<open>Block_Dma\<close> (\<^verbatim>\<open>sl_blockdevice\<close>), \<open>Framebuffer_Memory\<close>, \<open>Framebuffer\<close>, \<open>Sl_Framebuffer\<close>.
  \<^item> \<open>Dbf_Link\<close> (memory and registers of \<^verbatim>\<open>dbf\<close>), \<open>Dbf_Filter\<close> (the arithmetic of an edge), \<open>Dbf_Slice\<close> (a pass over a slice),
    \<open>Dbf_Interrupt\<close>, \<open>Dbf_Copy\<close>, \<open>Dbf_Device\<close> (all threads as one step function), \<open>Dbf_Runs\<close> (every interleaving, of
    well-used devices and of any), \<open>Dbf_System\<close> (the
    copy on the platform).
  \<^item> \<open>Cpu_Requests\<close> (the pool of transactions), \<open>Qemu_Cpu\<close> (loads and stores), \<open>Cpu_Logs\<close>, \<open>Qemu_Wrapper\<close> (interrupts),
    \<open>Qemu_Registers\<close>, \<open>Qemu_Wrapper_Slave\<close>.
  \<^item> \<open>System_Bus\<close>: decode, slave thread and memory together meet \<open>memory_bus\<close>; disk, framebuffer, deblocking
    filter and processors are proved against it.
  \<^item> \<open>Etrace_Samples\<close>, \<open>Etrace_If\<close>, \<open>Etrace_Display\<close>, \<open>Chronograph\<close>: the energy trace and its reader.
  \<^item> \<open>Exclusive_Monitor\<close>, \<open>Platform_Init\<close> (command line, boot image), \<open>Platform\<close> (address maps, callbacks).
  \<^item> \<open>Picture_Conversions\<close> (\<^verbatim>\<open>conv.c\<close>), \<open>Fb_Viewer\<close> (\<^verbatim>\<open>fb_viewer.c\<close>), \<open>Ramdac_Viewer\<close> (\<^verbatim>\<open>xramdac.c\<close>): the processes that
    draw what a framebuffer and the ramdac hand over, each run together with its device.
  \<^item> \<open>Cpu_Time\<close>: the time of a processor, which sleeps for the cycles the emulator reports
    (\<^verbatim>\<open>consume_instruction_cycles_with_sync\<close>) at the frequency it has meanwhile, and logs the rest.
  \<^item> The Linux drivers of the emulated system (\<^verbatim>\<open>platforms/roger/soft/linux/drivers\<close>): \<open>Linux_Driver\<close> (what all do alike: open,
    module setup, copies from and to a program, over \<open>kernel_io\<close>, the accesses to registers and memory),
    \<open>Linux_Irq\<close> (interrupt descriptors of two of them), \<open>Host_Access_Driver\<close> (\<^verbatim>\<open>rabbits_host_access\<close>), \<open>Ecmgr_Driver\<close>,
    \<open>Qemu_Driver\<close>, \<open>Fb_Driver\<close>, \<open>Dbf_Driver\<close>. \<open>Host_Access_System\<close>, \<open>Ecmgr_Driver\<close>, \<open>Qemu_Driver\<close>,
    \<open>Fb_Driver_System\<close> and \<open>Dbf_Driver_System\<close> run a driver against the device it drives: \<open>kernel_io\<close> is then one transaction of
    the processor's wrapper and one round of the device's threads, so that the property is about a system call and what the device does;
    in \<open>Fb_Driver_System\<close> the viewer's process runs with them.

  \<^bold>\<open>Interfaces.\<close> \<open>bounded_queue\<close> is interpreted by the ring of the ports and by the receive buffer of the serial
  line; \<open>slave_module\<close> by every device; \<open>memory_bus\<close> by the system bus; \<open>double_buffer\<close>, the contract of a
  device that shows one buffer while the other is written, by both framebuffers and by the framebuffer with its viewer.

  \<^bold>\<open>Bounds and fuel.\<close> The walks over the linked lists of the pool take the length of the heap, which
  no list without a cycle exceeds (\<open>pool_refines_lists\<close> proves that every walk ends); the scan for a software
  interrupt takes the 32 bits of a word; the loop over samples takes one round per stored sample, one per
  period passed and two (\<open>update_samples_returns\<close>); the list of boot tags has five. The driver of the host's files polls the disk
  without a limit: its loop takes the number of polls, and the properties say how many are enough. All other loops are over known
  lists of indices.

  \<^bold>\<open>Not modelled.\<close> The emulator itself and what it calls back only to pass time; the terminals' processes; the windows of the
  viewers (SDL, Xlib, GTK), whose own logic is modelled; the kernel behind the drivers, whose headers are not in the
  repository (what it returns is the argument \<open>kernel_env\<close>, what it is told is an output), with locks and the scheduling of tasks; the
  applications and scripts of the emulated system; the binding of SystemC ports and signals in the main programs.
\<close>

end
